(* ===== verification/Prelude.thy ===== *)
theory Prelude
  imports Main "HOL-Library.Word" "HOL-Library.Signed_Division"
begin

unbundle bit_operations_syntax

section \<open>Machine types, results and word arithmetic shared by every component\<close>

text \<open>
  The kernel is C compiled for i386 (\<open>-m32\<close>).  Its fixed-width integers are words;
  every pointer and \<open>size_t\<close> is a 32-bit word.  Code that can reach \<open>PANIC\<close>
  (which prints a message and loops for ever) returns a value of the sum type \<open>res\<close>:
  \<open>Inl\<close> carries the panic, \<open>Inr\<close> the normal result.  The collections \<open>mem_simps\<close>
  and \<open>res_simps\<close> hold the rewrite rules for memory accesses and for sequencing.
\<close>

type_synonym u8 = "8 word"
type_synonym u16 = "16 word"
type_synonym u32 = "32 word"

named_theorems mem_simps \<open>reads over writes of the byte memory\<close>
named_theorems res_simps \<open>sequencing of computations that may panic\<close>

subsection \<open>Computations that may panic\<close>

datatype kerror =
    Panic string   \<comment> \<open>\<open>PANIC\<close> or a failed \<open>KASSERT\<close>: the message, then an endless loop\<close>
  | Diverge        \<comment> \<open>a loop or a recursion that does not end (or whose step bound ran out)\<close>
  | Fault string   \<comment> \<open>the code reads outside the object it was given (undefined in C)\<close>
  | Blocks string  \<comment> \<open>the process sleeps: what follows depends on what other processes do\<close>
  | Exits u32      \<comment> \<open>\<open>do_exit\<close>: the process ends and the call does not return\<close>

type_synonym 'a res = "kerror + 'a"

definition bindr :: "'a res \<Rightarrow> ('a \<Rightarrow> 'b res) \<Rightarrow> 'b res" where
  "bindr r f = (case r of Inl e \<Rightarrow> Inl e | Inr x \<Rightarrow> f x)"

text \<open>The value of a loop written as a \<open>partial_function (option)\<close>: \<open>None\<close> is a loop that does not end.\<close>

definition loop_res :: "'a res option \<Rightarrow> 'a res" where
  "loop_res r = (case r of None \<Rightarrow> Inl Diverge | Some x \<Rightarrow> x)"

definition bindo :: "'a res \<Rightarrow> ('a \<Rightarrow> 'b res option) \<Rightarrow> 'b res option" where
  "bindo r f = (case r of Inl e \<Rightarrow> Some (Inl e) | Inr x \<Rightarrow> f x)"

definition kassert :: "string \<Rightarrow> bool \<Rightarrow> 'a res \<Rightarrow> 'a res" where
  "kassert msg c k = (if c then k else Inl (Panic msg))"

definition of_option :: "kerror \<Rightarrow> 'a option \<Rightarrow> 'a res" where
  "of_option e r = (case r of None \<Rightarrow> Inl e | Some x \<Rightarrow> Inr x)"

lemma of_option_simps [simp, res_simps]: "of_option e None = Inl e" "of_option e (Some x) = Inr x"
  by (simp_all add: of_option_def)

lemma loop_res_simps [simp, res_simps]: "loop_res None = Inl Diverge" "loop_res (Some x) = x"
  by (simp_all add: loop_res_def)

lemma bindo_simps [simp, res_simps]: "bindo (Inl e) f = Some (Inl e)" "bindo (Inr x) f = f x"
  by (simp_all add: bindo_def)

lemma bindo_mono [partial_function_mono]:
  "(\<And>x. mono_option (\<lambda>g. f g x)) \<Longrightarrow> mono_option (\<lambda>g. bindo r (f g))"
  by (cases r) (simp_all add: option.const_mono)

lemma bindr_Inl [simp, res_simps]: "bindr (Inl e) f = Inl e"
  by (simp add: bindr_def)

lemma bindr_Inr [simp, res_simps]: "bindr (Inr x) f = f x"
  by (simp add: bindr_def)

lemma bindr_eq_Inr: "bindr r f = Inr y \<longleftrightarrow> (\<exists>x. r = Inr x \<and> f x = Inr y)"
  by (cases r) auto

lemma bindr_eq_Inl: "bindr r f = Inl e \<longleftrightarrow> r = Inl e \<or> (\<exists>x. r = Inr x \<and> f x = Inl e)"
  by (cases r) auto

lemma bindr_assoc: "bindr (bindr r f) g = bindr r (\<lambda>x. bindr (f x) g)"
  by (cases r) auto

lemma bindr_cong [fundef_cong]:
  "r = r' \<Longrightarrow> (\<And>x. r' = Inr x \<Longrightarrow> f x = g x) \<Longrightarrow> bindr r f = bindr r' g"
  by (cases r') auto

lemma kassert_True [simp, res_simps]: "kassert msg True k = k"
  by (simp add: kassert_def)

lemma kassert_False [simp, res_simps]: "kassert msg False k = Inl (Panic msg)"
  by (simp add: kassert_def)

lemma kassert_eq_Inr: "kassert msg c k = Inr y \<longleftrightarrow> c \<and> k = Inr y"
  by (simp add: kassert_def)

subsection \<open>Unsigned arithmetic on 32-bit words\<close>

lemma unat_u32_less [simp]: "unat (x :: u32) < 4294967296"
  using unsigned_less [of x] by simp

lemma unat_u32_le [simp]: "unat (x :: u32) \<le> 4294967295"
  using unat_u32_less [of x] by linarith

lemma unat_of_nat_u32: "n < 4294967296 \<Longrightarrow> unat (of_nat n :: u32) = n"
  by (simp add: unat_of_nat take_bit_nat_eq_self)

lemma unat_add_u32:
  "unat (a + b :: u32) = (unat a + unat b) mod 4294967296"
  by (simp add: unat_word_ariths)

lemma unat_sub_u32:
  "unat (a - b :: u32) = (if unat b \<le> unat a then unat a - unat b
     else unat a + 4294967296 - unat b)"
  by (simp add: unat_sub_if_size word_size)

lemma unat_minus_one_u32 [simp]: "unat (- 1 :: u32) = 4294967295"
  using unat_sub_u32 [of 0 1] by simp

lemma unat_ucast_u8_u32 [simp]: "unat (ucast (x :: u8) :: u32) = unat x"
proof -
  have "unat x < 2 ^ LENGTH(8)" by (rule unsigned_less)
  then have "unat x < 2 ^ 32" by simp
  then show ?thesis by (simp add: unsigned_ucast_eq take_bit_nat_eq_self)
qed

lemma unat_ucast_u16_u32 [simp]: "unat (ucast (x :: u16) :: u32) = unat x"
proof -
  have "unat x < 2 ^ LENGTH(16)" by (rule unsigned_less)
  then have "unat x < 2 ^ 32" by simp
  then show ?thesis by (simp add: unsigned_ucast_eq take_bit_nat_eq_self)
qed

lemma unat_add_no_wrap:
  "unat a + unat b < 4294967296 \<Longrightarrow> unat (a + b :: u32) = unat a + unat b"
  by (simp add: unat_add_u32)

lemma unat_sub_no_wrap: "unat b \<le> unat a \<Longrightarrow> unat (a - b :: u32) = unat a - unat b"
  by (simp add: unat_sub word_le_nat_alt)

lemma of_nat_unat_u32 [simp]: "of_nat (unat (x :: u32)) = x"
  by simp

lemma u32_eq_iff: "(a :: u32) = b \<longleftrightarrow> unat a = unat b"
  by (simp add: word_unat_eq_iff)

lemma u32_less_iff: "(a :: u32) < b \<longleftrightarrow> unat a < unat b"
  by (simp add: word_less_nat_alt)

lemma u32_le_iff: "(a :: u32) \<le> b \<longleftrightarrow> unat a \<le> unat b"
  by (simp add: word_le_nat_alt)

subsection \<open>Signed readings\<close>

text \<open>Signed division and remainder of \<open>int\<close> by a constant.\<close>

definition sdivi :: "u32 \<Rightarrow> int \<Rightarrow> u32" where "sdivi x k = word_of_int (sint x sdiv k)"
definition smodi :: "u32 \<Rightarrow> int \<Rightarrow> u32" where "smodi x k = word_of_int (sint x smod k)"

lemma sint_u32:
  "sint (x :: u32) = (if unat x < 2147483648 then int (unat x) else int (unat x) - 4294967296)"
proof -
  have "sint x = (uint x + 2147483648) mod 4294967296 - 2147483648"
    using int_word_sint [where 'a = 32, of "uint x"] by simp
  then have s: "sint x = (int (unat x) + 2147483648) mod 4294967296 - 2147483648" by simp
  have "(int u + 2147483648) mod 4294967296 =
      (if u < 2147483648 then int u + 2147483648 else int u - 2147483648)" if "u < 4294967296" for u
  proof (cases "u < 2147483648")
    case False
    have "(int u + 2147483648) mod 4294967296 = ((int u - 2147483648) + 4294967296) mod 4294967296"
      by (simp add: add.commute)
    also have "\<dots> = (int u - 2147483648) mod 4294967296" by (rule mod_add_self2)
    also have "\<dots> = int u - 2147483648" using False that by (intro mod_pos_pos_trivial) auto
    finally show ?thesis using False by simp
  qed simp
  from s [unfolded this [OF unat_u32_less [of x]]] show ?thesis
    by (simp split: if_splits)
qed

lemma sint_neg_iff: "sint (x :: u32) < 0 \<longleftrightarrow> 2147483648 \<le> unat x"
proof (cases "unat x < 2147483648")
  case True
  then have "sint x = int (unat x)" by (simp only: sint_u32 if_True)
  with True show ?thesis by linarith
next
  case False
  then have "sint x = int (unat x) - 4294967296" by (simp only: sint_u32 if_False)
  with False unat_u32_less [of x] show ?thesis by linarith
qed

text \<open>
  The difference of two words read as a signed number has the sign of the comparison when both
  operands are below \<open>2^31\<close>.
\<close>

lemma sint_diff_less:
  assumes "unat (a :: u32) < 2147483648" "unat b < 2147483648"
  shows "sint (a - b) < 0 \<longleftrightarrow> unat a < unat b"
  using assms by (auto simp: sint_neg_iff unat_sub_u32)

lemma sint_diff:
  assumes "unat a < 2147483648" "unat b < 2147483648"
  shows "sint (a - b :: u32) = int (unat a) - int (unat b)"
  using assms sint_u32 [of "a - b"] by (cases "unat b \<le> unat a") (auto simp: unat_sub_u32)

subsection \<open>Masks\<close>

lemma and_mask_take_bit:
  "x AND 0xF = take_bit 4 (x :: 'a :: len word)"
  "x AND 0xFF = take_bit 8 (x :: 'a :: len word)"
  "x AND 0xFFFF = take_bit 16 (x :: 'a :: len word)"
  "x AND 0xFFF = take_bit 12 (x :: 'a :: len word)"
  by (simp_all only: take_bit_eq_mask mask_eq_exp_minus_1) simp_all

lemma unat_and_not_mask:
  "unat (w AND NOT (mask n) :: 'a :: len word) = unat w div 2 ^ n * 2 ^ n"
proof -
  have "w AND NOT (mask n) = push_bit n (drop_bit n w)"
    by (rule bit_word_eqI) (auto simp: bit_simps)
  moreover have "unat (push_bit n (drop_bit n w)) = (unat w div 2 ^ n * 2 ^ n) mod 2 ^ LENGTH('a)"
    by (simp only: unsigned_push_bit_eq unat_drop_bit_eq)
      (simp only: push_bit_eq_mult drop_bit_eq_div take_bit_eq_mod)
  moreover have "unat w div 2 ^ n * 2 ^ n < 2 ^ LENGTH('a)"
    using unsigned_less [of w, where 'a = nat] div_times_less_eq_dividend [of "unat w" "2 ^ n"]
    by (meson le_less_trans)
  ultimately show ?thesis by simp
qed

subsection \<open>Page arithmetic\<close>

text \<open>Page arithmetic: the masks \<open>0xFFF\<close> and \<open>0xFFFFF000\<close> of the source.\<close>

lemma unat_and_FFF: "unat (x AND 0xFFF :: u32) = unat x mod 4096"
proof -
  have "x AND 0xFFF = take_bit 12 x" by (simp add: take_bit_eq_mask mask_eq_exp_minus_1)
  then show ?thesis by (simp add: take_bit_eq_mod unat_word_ariths)
qed

lemma page_mask_decomp: "(x AND 0xFFFFF000) + (x AND 0xFFF) = (x :: u32)"
proof -
  have "(x AND 0xFFFFF000) AND (x AND 0xFFF) = x AND (0xFFFFF000 AND 0xFFF)"
    by (simp only: and.assoc and.left_commute and.left_idem)
  then have "(x AND 0xFFFFF000) AND (x AND 0xFFF) = 0" by simp
  then have "(x AND 0xFFFFF000) + (x AND 0xFFF) = (x AND 0xFFFFF000) OR (x AND 0xFFF)"
    by (simp add: disjunctive_add_eq_or)
  also have "\<dots> = x AND (0xFFFFF000 OR 0xFFF)"
    by (simp only: bit.conj_disj_distrib)
  also have "\<dots> = x"
  proof -
    have "(0xFFFFF000 OR 0xFFF :: u32) = - 1" by simp
    then show ?thesis by (simp only: and.right_neutral)
  qed
  finally show ?thesis .
qed

lemma unat_page_mask: "unat (x AND 0xFFFFF000 :: u32) = unat x - unat x mod 4096"
proof -
  have "x AND 0xFFFFF000 = x - (x AND 0xFFF)"
    using page_mask_decomp [of x] by (metis add_diff_cancel_right')
  moreover have "unat (x AND 0xFFF) \<le> unat x" by (simp add: unat_and_FFF)
  ultimately show ?thesis by (simp add: unat_sub_no_wrap unat_and_FFF)
qed

end
