(* ===== verification/Memory.thy ===== *)
theory Memory
  imports Prelude
begin

unbundle bit_operations_syntax

section \<open>Byte memory and the memory routines of \<open>common.c\<close>\<close>

text \<open>
  The kernel runs in one flat 32-bit address space without protection between its parts,
  so the model of memory is a total function from addresses to bytes.  C objects of 16 and
  32 bits are little-endian runs of bytes at any (also unaligned) address.  Aliasing and
  overruns are therefore visible: a store changes exactly the bytes it covers.

  The second half models \<open>memset\<close>, \<open>bzero\<close>, \<open>memcpy\<close>, \<open>strlen\<close> and
  \<open>strcmp\<close> of \<open>common.c\<close> as the loops they are, with closed forms for their effect.
\<close>

type_synonym memory = "u32 \<Rightarrow> u8"

subsection \<open>Cyclic address ranges\<close>

text \<open>\<open>in_range a n x\<close>: the byte \<open>x\<close> is one of the \<open>n\<close> bytes from \<open>a\<close> (modulo \<open>2^32\<close>).\<close>

definition in_range :: "u32 \<Rightarrow> nat \<Rightarrow> u32 \<Rightarrow> bool" where
  "in_range a n x \<longleftrightarrow> unat (x - a) < n"

definition sep :: "u32 \<Rightarrow> nat \<Rightarrow> u32 \<Rightarrow> nat \<Rightarrow> bool" where
  "sep a n b m \<longleftrightarrow> n \<le> unat (b - a) \<and> m \<le> unat (a - b)"

lemma sep_sym: "sep a n b m \<longleftrightarrow> sep b m a n"
  by (auto simp: sep_def)

lemma sep_disjoint: "sep a n b m \<Longrightarrow> in_range a n x \<Longrightarrow> \<not> in_range b m x"
proof -
  assume s: "sep a n b m" and x: "in_range a n x"
  let ?u = "unat (x - a)" and ?v = "unat (b - a)"
  have lt: "?u < ?v" using s x by (simp add: sep_def in_range_def)
  have "x - b = (x - a) - (b - a)" by simp
  then have xb: "unat (x - b) = ?u + 4294967296 - ?v"
    using lt by (metis linorder_not_le unat_sub_u32)
  have "a - b = 0 - (b - a)" by simp
  then have "unat (a - b) = 4294967296 - ?v"
    using lt by (metis add_0 gr_implies_not_zero le_zero_eq unat_0 unat_sub_u32)
  then have "m \<le> 4294967296 - ?v" using s by (simp add: sep_def)
  then have "m \<le> unat (x - b)" using xb unat_u32_less [of "b - a"] by linarith
  then show ?thesis by (simp add: in_range_def)
qed

lemma sep_of_nat:
  assumes "i + n \<le> j" "j + m \<le> 4294967296" "0 < n" "0 < m"
  shows "sep (of_nat i) n (of_nat j) m"
proof -
  have i: "unat (of_nat i :: u32) = i" and j: "unat (of_nat j :: u32) = j"
    using assms by (simp_all add: unat_of_nat_u32)
  have "n \<le> j - i" "m \<le> i + 4294967296 - j" using assms by linarith+
  then show ?thesis using assms by (simp add: sep_def unat_sub_u32 i j)
qed

lemma sep_no_wrap:
  assumes "unat a + n \<le> unat b" "unat b + m \<le> 4294967296" "0 < n" "0 < m"
  shows "sep a n b m"
  using sep_of_nat [OF assms] by simp

lemma in_range_no_wrap:
  assumes "unat a + n \<le> 4294967296"
  shows "in_range a n x \<longleftrightarrow> unat a \<le> unat x \<and> unat x < unat a + n"
  using assms unat_u32_less [of x] unat_u32_less [of a]
  by (auto simp: in_range_def unat_sub_u32)

lemma in_range_sub:
  assumes "sep a n b m" "unat (c - a) + k \<le> n" "0 < k"
  shows "sep c k b m"
proof -
  let ?w = "unat (c - a)" and ?v = "unat (b - a)"
  have nv: "n \<le> ?v" and m: "m \<le> unat (a - b)" using assms(1) by (simp_all add: sep_def)
  have wv: "?w < ?v" using nv assms(2,3) by linarith
  have "b - c = (b - a) - (c - a)" by simp
  then have bc: "unat (b - c) = ?v - ?w" using wv by (metis less_imp_le unat_sub_u32)
  have "c - b = (c - a) - (b - a)" by simp
  then have cb: "unat (c - b) = ?w + 4294967296 - ?v" using wv by (metis linorder_not_le unat_sub_u32)
  have "a - b = 0 - (b - a)" by simp
  then have "unat (a - b) = 4294967296 - ?v"
    using wv by (metis add_0 gr_implies_not_zero le_zero_eq unat_0 unat_sub_u32)
  then have "m \<le> ?w + 4294967296 - ?v" "k \<le> ?v - ?w" using nv m assms(2) by linarith+
  then show ?thesis by (simp add: sep_def bc cb)
qed

subsection \<open>Loads and stores\<close>

definition load8 :: "memory \<Rightarrow> u32 \<Rightarrow> u8" where
  "load8 m a = m a"

definition store8 :: "memory \<Rightarrow> u32 \<Rightarrow> u8 \<Rightarrow> memory" where
  "store8 m a v = m(a := v)"

definition load16 :: "memory \<Rightarrow> u32 \<Rightarrow> u16" where
  "load16 m a = ucast (m a) OR push_bit 8 (ucast (m (a + 1)))"

definition store16 :: "memory \<Rightarrow> u32 \<Rightarrow> u16 \<Rightarrow> memory" where
  "store16 m a v = m(a := ucast v, a + 1 := ucast (drop_bit 8 v))"

definition load32 :: "memory \<Rightarrow> u32 \<Rightarrow> u32" where
  "load32 m a = ucast (m a) OR push_bit 8 (ucast (m (a + 1)))
     OR push_bit 16 (ucast (m (a + 2))) OR push_bit 24 (ucast (m (a + 3)))"

definition store32 :: "memory \<Rightarrow> u32 \<Rightarrow> u32 \<Rightarrow> memory" where
  "store32 m a v = m(a := ucast v, a + 1 := ucast (drop_bit 8 v),
     a + 2 := ucast (drop_bit 16 v), a + 3 := ucast (drop_bit 24 v))"

lemma store8_apply: "store8 m a v x = (if x = a then v else m x)"
  by (simp add: store8_def)

lemma load32_store32_same: "load32 (store32 m a v) a = v"
proof -
  have "load32 (store32 m a v) a = ucast (ucast v :: u8)
     OR push_bit 8 (ucast (ucast (drop_bit 8 v) :: u8))
     OR push_bit 16 (ucast (ucast (drop_bit 16 v) :: u8))
     OR push_bit 24 (ucast (ucast (drop_bit 24 v) :: u8))"
    by (simp add: load32_def store32_def)
  also have "\<dots> = v"
  proof (rule bit_word_eqI)
    fix n assume "n < LENGTH(32)"
    then consider "n < 8" | "8 \<le> n \<and> n < 16" | "16 \<le> n \<and> n < 24" | "24 \<le> n \<and> n < 32"
      by force
    then show "bit (ucast (ucast v :: u8) OR push_bit 8 (ucast (ucast (drop_bit 8 v) :: u8))
        OR push_bit 16 (ucast (ucast (drop_bit 16 v) :: u8))
        OR push_bit 24 (ucast (ucast (drop_bit 24 v) :: u8)) :: u32) n = bit v n"
      by cases (auto simp: bit_simps)
  qed
  finally show ?thesis .
qed

lemma load16_store16_same: "load16 (store16 m a v) a = v"
proof -
  have "load16 (store16 m a v) a = ucast (ucast v :: u8)
     OR push_bit 8 (ucast (ucast (drop_bit 8 v) :: u8))"
    by (simp add: load16_def store16_def)
  also have "\<dots> = v"
    by (rule bit_word_eqI) (auto simp: bit_simps)
  finally show ?thesis .
qed

lemma store32_other: "\<not> in_range a 4 x \<Longrightarrow> store32 m a v x = m x"
  by (auto simp: store32_def in_range_def)

lemma store16_other: "\<not> in_range a 2 x \<Longrightarrow> store16 m a v x = m x"
  by (auto simp: store16_def in_range_def)

lemma load32_cong: "(\<And>x. in_range a 4 x \<Longrightarrow> m x = m' x) \<Longrightarrow> load32 m a = load32 m' a"
  by (simp add: load32_def in_range_def)

lemma load16_cong: "(\<And>x. in_range a 2 x \<Longrightarrow> m x = m' x) \<Longrightarrow> load16 m a = load16 m' a"
  by (simp add: load16_def in_range_def)

lemma load32_store32_other: "sep a 4 b 4 \<Longrightarrow> load32 (store32 m a v) b = load32 m b"
  by (rule load32_cong, rule store32_other) (meson sep_disjoint)

lemma load16_store16_other: "sep a 2 b 2 \<Longrightarrow> load16 (store16 m a v) b = load16 m b"
  by (rule load16_cong, rule store16_other) (meson sep_disjoint)

lemma load32_store16_other: "sep a 2 b 4 \<Longrightarrow> load32 (store16 m a v) b = load32 m b"
  by (rule load32_cong, rule store16_other) (meson sep_disjoint)

lemmas store_same = load32_store32_same load16_store16_same
declare store_same [simp, mem_simps]
declare load32_store32_other [mem_simps]

subsection \<open>Arrays of 32-bit cells\<close>

text \<open>
  The routines that keep 32-bit cells in memory (the frame bitset, page tables, the index of
  the heap, the tail queues) rely on two laws only: a cell reads back what was stored there,
  and cells that do not overlap are independent.  The array lemmas are proved from them.
\<close>

definition words_at :: "(u32 \<Rightarrow> u32) \<Rightarrow> u32 \<Rightarrow> nat \<Rightarrow> u32 list" where
  "words_at ld a n = map (\<lambda>i. ld (a + 4 * of_nat i)) [0..<n]"

lemma length_words_at [simp]: "length (words_at ld a n) = n"
  by (simp add: words_at_def)

lemma nth_words_at [simp]: "i < n \<Longrightarrow> words_at ld a n ! i = ld (a + 4 * of_nat i)"
  by (simp add: words_at_def)

lemma words_at_Suc: "words_at ld a (Suc n) = words_at ld a n @ [ld (a + 4 * of_nat n)]"
  by (simp add: words_at_def)

lemma words_at_0 [simp]: "words_at ld a 0 = []"
  by (simp add: words_at_def)

lemma unat_mult4: "i < 1073741824 \<Longrightarrow> unat (4 * of_nat i :: u32) = 4 * i"
  using unat_of_nat_u32 [of "4 * i"] by simp

lemma cell_sep:
  assumes "i < 1073741824" "j < 1073741824" "i \<noteq> j"
  shows "sep (a + 4 * of_nat i) 4 (a + 4 * of_nat j :: u32) 4"
proof -
  have d1: "a + 4 * of_nat j - (a + 4 * of_nat i) = 4 * of_nat j - 4 * (of_nat i :: u32)" by simp
  have d2: "a + 4 * of_nat i - (a + 4 * of_nat j) = 4 * of_nat i - 4 * (of_nat j :: u32)" by simp
  have "4 \<le> 4 * j - 4 * i" if "i < j" using that by simp
  moreover have "4 \<le> 4 * i - 4 * j" if "j < i" using that by simp
  ultimately show ?thesis using assms
    by (auto simp: sep_def d1 d2 unat_sub_u32 unat_mult4)
qed

locale word_cells =
  fixes load :: "'m \<Rightarrow> u32 \<Rightarrow> u32"
    and store :: "'m \<Rightarrow> u32 \<Rightarrow> u32 \<Rightarrow> 'm"
  assumes load_same: "load (store m a v) a = v"
    and load_other: "sep a 4 b 4 \<Longrightarrow> load (store m a v) b = load m b"
begin

lemma words_at_store:
  assumes "i < n" "n \<le> 1073741824"
  shows "words_at (load (store m (a + 4 * of_nat i) v)) a n = (words_at (load m) a n)[i := v]"
proof (rule nth_equalityI)
  fix j assume "j < length (words_at (load (store m (a + 4 * of_nat i) v)) a n)"
  then have j: "j < n" by simp
  show "words_at (load (store m (a + 4 * of_nat i) v)) a n ! j = (words_at (load m) a n)[i := v] ! j"
  proof (cases "i = j")
    case True
    with j show ?thesis by (simp add: load_same)
  next
    case False
    with j assms have "sep (a + 4 * of_nat i) 4 (a + 4 * of_nat j) 4" by (intro cell_sep) auto
    with False j show ?thesis by (simp add: load_other)
  qed
qed simp

lemma words_at_store_outside:
  assumes "sep a (4 * n) b 4" "n \<le> 1073741824"
  shows "words_at (load (store m b v)) a n = words_at (load m) a n"
proof (rule nth_equalityI)
  fix j assume "j < length (words_at (load (store m b v)) a n)"
  then have j: "j < n" by simp
  have "unat (a + 4 * of_nat j - a) + 4 \<le> 4 * n" using j assms(2) by (simp add: unat_mult4)
  then have "sep (a + 4 * of_nat j) 4 b 4" by (intro in_range_sub [OF assms(1)]) auto
  with j show "words_at (load (store m b v)) a n ! j = words_at (load m) a n ! j"
    by (simp add: load_other sep_sym)
qed simp

lemma words_at_store_last:
  assumes "n < 1073741824"
  shows "words_at (load (store m (a + 4 * of_nat n) v)) a (Suc n) = words_at (load m) a n @ [v]"
  using words_at_store [of n "Suc n" m a v] assms
  by (simp add: words_at_Suc list_update_append)

end

interpretation mem32: word_cells load32 store32
  by unfold_locales (simp_all add: load32_store32_other)

subsection \<open>Words at natural-number addresses\<close>

text \<open>
  Addresses inside tables and heaps are sums of offsets and sizes, so their proofs compute with natural
  numbers.
\<close>

definition ldn :: "memory \<Rightarrow> nat \<Rightarrow> u32" where
  "ldn m a = load32 m (of_nat a)"

definition stn :: "memory \<Rightarrow> nat \<Rightarrow> u32 \<Rightarrow> memory" where
  "stn m a v = store32 m (of_nat a) v"

lemma ldn_stn_same [simp]: "ldn (stn m a v) a = v"
  by (simp add: ldn_def stn_def)

lemma ldn_stn_other [mem_simps]:
  assumes "a + 4 \<le> b \<or> b + 4 \<le> a" "a + 4 \<le> 4294967296" "b + 4 \<le> 4294967296"
  shows "ldn (stn m a v) b = ldn m b"
proof -
  have "sep (of_nat a) 4 (of_nat b) 4"
    using assms sep_of_nat [of a 4 b 4] sep_of_nat [of b 4 a 4]
    by (auto simp only: sep_sym [of "of_nat a"])
  then show ?thesis by (simp add: ldn_def stn_def load32_store32_other)
qed

lemma ldn_agree:
  assumes "\<And>x. a \<le> unat x \<Longrightarrow> unat x < a + 4 \<Longrightarrow> m' x = m x" "a + 4 \<le> 4294967296"
  shows "ldn m' a = ldn m a"
  unfolding ldn_def
proof (rule load32_cong)
  fix x assume "in_range (of_nat a) 4 x"
  moreover have "unat (of_nat a :: u32) = a" using assms(2) by (simp add: unat_of_nat_u32)
  ultimately show "m' x = m x" using assms by (simp add: in_range_no_wrap)
qed

lemma stn_agree:
  "unat x < a \<or> a + 4 \<le> unat x \<Longrightarrow> a + 4 \<le> 4294967296 \<Longrightarrow> stn m a v x = m x"
  unfolding stn_def by (rule store32_other) (auto simp: in_range_no_wrap unat_of_nat_u32)

subsection \<open>\<open>memset\<close>, \<open>bzero\<close>, \<open>memcpy\<close>\<close>

text \<open>The loops count a \<open>size_t\<close> down to zero, so they recurse on its value.\<close>

fun memset_loop :: "memory \<Rightarrow> u32 \<Rightarrow> u8 \<Rightarrow> nat \<Rightarrow> memory" where
  "memset_loop m bb c 0 = m"
| "memset_loop m bb c (Suc n) = memset_loop (store8 m bb c) (bb + 1) c n"

definition memset :: "memory \<Rightarrow> u32 \<Rightarrow> u32 \<Rightarrow> u32 \<Rightarrow> memory" where
  "memset m b c len = memset_loop m b (ucast c) (unat len)"

definition bzero :: "memory \<Rightarrow> u32 \<Rightarrow> u32 \<Rightarrow> memory" where
  "bzero m b len = memset m b 0 len"

fun memcpy_loop :: "memory \<Rightarrow> u32 \<Rightarrow> u32 \<Rightarrow> nat \<Rightarrow> memory" where
  "memcpy_loop m dst8 src8 0 = m"
| "memcpy_loop m dst8 src8 (Suc n) = memcpy_loop (store8 m dst8 (load8 m src8)) (dst8 + 1) (src8 + 1) n"

definition memcpy :: "memory \<Rightarrow> u32 \<Rightarrow> u32 \<Rightarrow> u32 \<Rightarrow> memory" where
  "memcpy m dest src count = memcpy_loop m dest src (unat count)"

lemma unat_pred_u32: "(y :: u32) \<noteq> 0 \<Longrightarrow> unat (y - 1) = unat y - 1"
  using unat_sub_no_wrap [of 1 y] by (simp add: unat_gt_0 Suc_le_eq)

lemma in_range_Suc:
  "in_range a (Suc n) x \<longleftrightarrow> x = a \<or> (x \<noteq> a \<and> in_range (a + 1) n x)"
proof (cases "x = a")
  case True
  then show ?thesis by (simp add: in_range_def)
next
  case False
  then have "x - a \<noteq> 0" by simp
  moreover from this have "unat (x - a) > 0" by (simp add: unat_gt_0)
  moreover have "x - (a + 1) = (x - a) - 1" by simp
  ultimately have "unat (x - (a + 1)) = unat (x - a) - 1" by (metis unat_pred_u32)
  with False \<open>unat (x - a) > 0\<close> show ?thesis by (auto simp: in_range_def)
qed

lemma memset_loop_eq:
  "n \<le> 4294967296 \<Longrightarrow> memset_loop m b c n x = (if in_range b n x then c else m x)"
proof (induction m b c n arbitrary: x rule: memset_loop.induct)
  case (1 m bb c)
  then show ?case by (simp add: in_range_def)
next
  case (2 m bb c n)
  have "\<not> in_range (bb + 1) n bb" using "2.prems" by (simp add: in_range_def)
  moreover have "memset_loop (store8 m bb c) (bb + 1) c n x =
      (if in_range (bb + 1) n x then c else store8 m bb c x)" using 2 by simp
  ultimately show ?case by (auto simp: store8_apply in_range_Suc)
qed

lemma memset_eq: "memset m b c len x = (if in_range b (unat len) x then ucast c else m x)"
  using memset_loop_eq [of "unat len" m b "ucast c" x] by (simp add: memset_def less_imp_le)

lemma bzero_eq [mem_simps]: "bzero m b len x = (if in_range b (unat len) x then 0 else m x)"
  by (simp add: bzero_def memset_eq)

lemma load32_bzero_inside:
  assumes "unat (a - b) + 4 \<le> unat len"
  shows "load32 (bzero m b len) a = 0"
proof -
  have "in_range b (unat len) (a + k)" if "unat k < 4" for k
  proof -
    have "unat ((a - b) + k) = unat (a - b) + unat k"
      using that assms unat_u32_less [of len] by (intro unat_add_no_wrap) linarith
    moreover have "a + k - b = (a - b) + k" by simp
    ultimately have "unat (a + k - b) = unat (a - b) + unat k" by metis
    with that assms show ?thesis by (simp add: in_range_def)
  qed
  from this [of 0] this [of 1] this [of 2] this [of 3]
  show ?thesis by (simp add: load32_def bzero_eq)
qed

lemma load32_bzero_outside:
  "sep b (unat len) a 4 \<Longrightarrow> load32 (bzero m b len) a = load32 m a"
  by (rule load32_cong) (metis bzero_eq sep_disjoint)

text \<open>When the two ranges do not overlap, \<open>memcpy\<close> copies the source bytes and nothing else.\<close>

lemma memcpy_loop_eq:
  assumes "sep d n s n" "n \<le> 4294967296"
  shows "memcpy_loop m d s n x = (if in_range d n x then m (s + (x - d)) else m x)"
  using assms
proof (induction m d s n arbitrary: x rule: memcpy_loop.induct)
  case (1 m d s)
  then show ?case by (simp add: in_range_def)
next
  case (2 m d s n)
  let ?m = "store8 m d (load8 m s)"
  show ?case
  proof (cases "n = 0")
    case True
    then show ?thesis by (auto simp: store8_def load8_def in_range_def unat_eq_zero)
  next
    case False
    have sp: "Suc n \<le> unat (s - d)" "Suc n \<le> unat (d - s)" using "2.prems" by (simp_all add: sep_def)
    have "s + 1 - (d + 1) = s - d" "d + 1 - (s + 1) = d - s" by simp_all
    then have "sep (d + 1) n (s + 1) n" using sp unfolding sep_def by (metis Suc_leD)
    then have IH: "memcpy_loop ?m (d + 1) (s + 1) n x =
        (if in_range (d + 1) n x then ?m (s + 1 + (x - (d + 1))) else ?m x)"
      using 2 by simp
    have nd: "\<not> in_range (d + 1) n d" using "2.prems" by (simp add: in_range_def)
    have src: "s + (x - d) \<noteq> d" if "in_range d (Suc n) x"
    proof
      assume "s + (x - d) = d"
      then have "x - d = d - s" by (metis add_diff_cancel_left')
      with that sp show False by (simp add: in_range_def)
    qed
    show ?thesis
    proof (cases "x = d")
      case True
      with IH nd show ?thesis by (simp add: store8_def load8_def in_range_Suc)
    next
      case False
      have "s + 1 + (x - (d + 1)) = s + (x - d)" by simp
      with IH False src show ?thesis by (simp add: store8_def in_range_Suc)
    qed
  qed
qed

lemma memcpy_eq:
  "sep d (unat len) s (unat len) \<Longrightarrow>
   memcpy m d s len x = (if in_range d (unat len) x then m (s + (x - d)) else m x)"
  using memcpy_loop_eq [of d "unat len" s m x] by (simp add: memcpy_def less_imp_le)

subsection \<open>\<open>strlen\<close> and \<open>strcmp\<close>\<close>

text \<open>\<open>None\<close>: no terminator is ever found and the loop does not end.\<close>

partial_function (option) strlen_loop :: "memory \<Rightarrow> u32 \<Rightarrow> u32 \<Rightarrow> u32 option" where
  "strlen_loop m s l = (if load8 m (s + l) = 0 then Some l else strlen_loop m s (l + 1))"

definition strlen :: "memory \<Rightarrow> u32 \<Rightarrow> u32 option" where
  "strlen m s = strlen_loop m s 0"

partial_function (option) strcmp :: "memory \<Rightarrow> u32 \<Rightarrow> u32 \<Rightarrow> u32 option" where
  "strcmp m s1 s2 =
     (if load8 m s1 = load8 m s2
      then if load8 m s1 = 0 then Some 0 else strcmp m (s1 + 1) (s2 + 1)
      else Some (ucast (load8 m s1) - ucast (load8 m s2)))"

text \<open>\<open>cstr m a xs\<close>: the bytes \<open>xs\<close>, none of them NUL, stand at \<open>a\<close>, then a NUL.\<close>

fun cstr :: "memory \<Rightarrow> u32 \<Rightarrow> u8 list \<Rightarrow> bool" where
  "cstr m a [] \<longleftrightarrow> load8 m a = 0"
| "cstr m a (x # xs) \<longleftrightarrow> load8 m a = x \<and> x \<noteq> 0 \<and> cstr m (a + 1) xs"

lemma strlen_loop_cstr:
  "cstr m (s + l) xs \<Longrightarrow> strlen_loop m s l = Some (l + of_nat (length xs))"
proof (induction xs arbitrary: l)
  case Nil
  then show ?case by (simp add: strlen_loop.simps)
next
  case (Cons x xs)
  then have "strlen_loop m s (l + 1) = Some (l + 1 + of_nat (length xs))"
    by (simp add: add.assoc)
  with Cons.prems show ?case by (simp add: strlen_loop.simps [of m s l] add.commute add.left_commute)
qed

lemma strlen_cstr: "cstr m s xs \<Longrightarrow> strlen m s = Some (of_nat (length xs))"
  using strlen_loop_cstr [of m s 0 xs] by (simp add: strlen_def)

lemma cstr_unique: "cstr m a xs \<Longrightarrow> cstr m a ys \<Longrightarrow> xs = ys"
proof (induction xs arbitrary: a ys)
  case Nil
  then show ?case by (cases ys) auto
next
  case (Cons x xs)
  then show ?case by (cases ys) auto
qed

text \<open>The result of \<open>strcmp\<close> on terminated strings, in closed form.\<close>

fun strcmp_spec :: "u8 list \<Rightarrow> u8 list \<Rightarrow> u32" where
  "strcmp_spec [] [] = 0"
| "strcmp_spec [] (y # ys) = - ucast y"
| "strcmp_spec (x # xs) [] = ucast x"
| "strcmp_spec (x # xs) (y # ys) = (if x = y then strcmp_spec xs ys else ucast x - ucast y)"

lemma strcmp_cstr: "cstr m a xs \<Longrightarrow> cstr m b ys \<Longrightarrow> strcmp m a b = Some (strcmp_spec xs ys)"
  by (induction xs ys arbitrary: a b rule: strcmp_spec.induct) (auto simp: strcmp.simps)

lemma ucast_u8_u32_inj: "(ucast (x :: u8) :: u32) = ucast y \<longleftrightarrow> x = y"
  by (simp add: u32_eq_iff word_unat_eq_iff)

end
