(* ===== verification/Sorted_Array.thy ===== *)
theory Sorted_Array
  imports Memory "HOL-Library.Multiset"
begin

section \<open>The sorted array of \<open>sorted_array.c\<close>\<close>

text \<open>
  A sorted array is a small structure (\<open>struct sorted_array\<close>: the record below) over a run of
  32-bit cells in memory.  Its operations are the loops of the source over those cells; the
  comparison callback reads memory through the two element pointers.  The lemmas relate the
  cells to a list: insertion is insertion before the first element that does not compare less,
  which for a comparison that agrees with a key is \<open>insort_key\<close>, and removal drops one element.
\<close>

type_synonym cmp_func_t = "memory \<Rightarrow> u32 \<Rightarrow> u32 \<Rightarrow> u32"

record sorted_array =
  sa_array :: u32
  sa_size :: u32
  sa_maxsize :: u32
  sa_cmp :: "cmp_func_t option"

definition default_cmp_func :: cmp_func_t where
  "default_cmp_func m a b = a - b"

definition place_sorted_array ::
    "u32 \<Rightarrow> u32 \<Rightarrow> cmp_func_t option \<Rightarrow> memory \<Rightarrow> sorted_array \<times> memory" where
  "place_sorted_array addr maxsize cmp m =
     (\<lparr>sa_array = addr, sa_size = 0, sa_maxsize = maxsize, sa_cmp = cmp\<rparr>,
      bzero m addr (maxsize * 4))"

definition cell :: "sorted_array \<Rightarrow> u32 \<Rightarrow> u32" where
  "cell a i = sa_array a + 4 * i"

text \<open>The value of \<open>a->sa_cmp(x, y)\<close>; a null callback is excluded by the caller's assertion.\<close>

definition call_cmp :: "sorted_array \<Rightarrow> memory \<Rightarrow> u32 \<Rightarrow> u32 \<Rightarrow> u32" where
  "call_cmp a m x y = (case sa_cmp a of None \<Rightarrow> 0 | Some f \<Rightarrow> f m x y)"

lemma u32_step_measure: "(i :: u32) < n \<Longrightarrow> unat (n - (i + 1)) < unat (n - i)"
proof -
  assume "i < n"
  then have "n - i \<noteq> 0" by auto
  moreover have "n - (i + 1) = (n - i) - 1" by simp
  ultimately have "unat (n - (i + 1)) = unat (n - i) - 1" by (metis unat_pred_u32)
  with \<open>n - i \<noteq> 0\<close> show ?thesis by (simp add: unat_gt_0)
qed

function insert_scan :: "sorted_array \<Rightarrow> memory \<Rightarrow> u32 \<Rightarrow> u32 \<Rightarrow> u32" where
  "insert_scan a m el iterator =
     (if iterator < sa_size a \<and> sint (call_cmp a m (load32 m (cell a iterator)) el) < 0
      then insert_scan a m el (iterator + 1) else iterator)"
  by pat_completeness auto
termination
  by (relation "measure (\<lambda>(a, m, el, iterator). unat (sa_size a - iterator))")
    (auto simp: u32_step_measure)

function insert_shift :: "sorted_array \<Rightarrow> memory \<Rightarrow> u32 \<Rightarrow> u32 \<Rightarrow> memory" where
  "insert_shift a m iterator tmp =
     (if iterator < sa_size a
      then let iterator' = iterator + 1; tmp2 = load32 m (cell a iterator')
           in insert_shift a (store32 m (cell a iterator') tmp) iterator' tmp2
      else m)"
  by pat_completeness auto
termination
  by (relation "measure (\<lambda>(a, m, iterator, tmp). unat (sa_size a - iterator))")
    (auto simp: u32_step_measure)

definition insert_sorted_array :: "sorted_array \<Rightarrow> u32 \<Rightarrow> memory \<Rightarrow> (sorted_array \<times> memory) res" where
  "insert_sorted_array a el m =
     kassert ''has a cmp function'' (sa_cmp a \<noteq> None)
    (kassert ''has enough room'' (sa_size a < sa_maxsize a)
      (let iterator = insert_scan a m el 0 in
       if iterator = sa_size a
       then Inr (a\<lparr>sa_size := sa_size a + 1\<rparr>, store32 m (cell a (sa_size a)) el)
       else let tmp = load32 m (cell a iterator);
                m1 = store32 m (cell a iterator) el
            in Inr (a\<lparr>sa_size := sa_size a + 1\<rparr>, insert_shift a m1 iterator tmp)))"

definition lookup_sorted_array :: "sorted_array \<Rightarrow> u32 \<Rightarrow> memory \<Rightarrow> u32 res" where
  "lookup_sorted_array a i m =
     kassert ''index in range'' (i < sa_size a) (Inr (load32 m (cell a i)))"

function remove_shift :: "sorted_array \<Rightarrow> memory \<Rightarrow> u32 \<Rightarrow> memory" where
  "remove_shift a m i =
     (if i < sa_size a
      then remove_shift a (store32 m (cell a i) (load32 m (cell a (i + 1)))) (i + 1)
      else m)"
  by pat_completeness auto
termination
  by (relation "measure (\<lambda>(a, m, i). unat (sa_size a - i))") (auto simp: u32_step_measure)

definition remove_sorted_array :: "sorted_array \<Rightarrow> u32 \<Rightarrow> memory \<Rightarrow> (sorted_array \<times> memory) res" where
  "remove_sorted_array a i m =
     kassert ''index in range'' (i < sa_size a)
      (Inr (a\<lparr>sa_size := sa_size a - 1\<rparr>, remove_shift a m i))"

declare insert_scan.simps [simp del] insert_shift.simps [simp del] remove_shift.simps [simp del]

subsection \<open>The array as a list\<close>

text \<open>
  \<open>sa_list\<close> reads the elements; \<open>sa_wf\<close> says that the size is within the capacity and
  that the cells fit the address space.
\<close>

definition sa_list :: "sorted_array \<Rightarrow> memory \<Rightarrow> u32 list" where
  "sa_list a m = words_at (load32 m) (sa_array a) (unat (sa_size a))"

definition sa_wf :: "sorted_array \<Rightarrow> bool" where
  "sa_wf a \<longleftrightarrow> sa_size a \<le> sa_maxsize a \<and> unat (sa_maxsize a) < 1073741824"

lemma length_sa_list [simp]: "length (sa_list a m) = unat (sa_size a)"
  by (simp add: sa_list_def)

lemma nth_sa_list: "i < unat (sa_size a) \<Longrightarrow> sa_list a m ! i = load32 m (cell a (of_nat i))"
  by (simp add: sa_list_def cell_def)

lemma unat_Suc_of_nat: "i < 4294967295 \<Longrightarrow> unat (of_nat i + 1 :: u32) = Suc i"
  using unat_of_nat_u32 [of "Suc i"] by (simp add: add.commute)

text \<open>
  Linear scans: several loops of the kernel run an index over the array as long as a condition
  holds of the element.  They all stop after the longest prefix of such elements.
\<close>

locale scan =
  fixes a :: sorted_array
    and m :: memory
    and p :: "u32 \<Rightarrow> bool"
    and loop :: "u32 \<Rightarrow> u32"
  assumes step: "loop i = (if i < sa_size a \<and> p (load32 m (cell a i)) then loop (i + 1) else i)"
begin

lemma loop_from:
  assumes "i \<le> unat (sa_size a)"
  shows "loop (of_nat i) = of_nat (i + length (takeWhile p (drop i (sa_list a m))))"
  using assms
proof (induction "unat (sa_size a) - i" arbitrary: i)
  case 0
  then have "i = unat (sa_size a)" by simp
  then show ?case by (simp add: step [of "sa_size a"])
next
  case (Suc k)
  then have i: "i < unat (sa_size a)" by simp
  have ui: "unat (of_nat i :: u32) = i"
    using i unat_u32_less [of "sa_size a"] by (intro unat_of_nat_u32) linarith
  have IH: "loop (of_nat i + 1) = of_nat (Suc i + length (takeWhile p (drop (Suc i) (sa_list a m))))"
    using Suc.hyps(1) [of "Suc i"] Suc.hyps(2) i by (simp add: add.commute)
  have d: "drop i (sa_list a m) = load32 m (cell a (of_nat i)) # drop (Suc i) (sa_list a m)"
    using i by (simp add: nth_sa_list flip: Cons_nth_drop_Suc)
  show ?case using i IH by (simp add: step [of "of_nat i"] d u32_less_iff ui)
qed

lemma loop_eq: "loop 0 = of_nat (length (takeWhile p (sa_list a m)))"
  using loop_from [of 0] by simp

lemma unat_loop: "unat (loop 0) = length (takeWhile p (sa_list a m))"
proof -
  have "length (takeWhile p (sa_list a m)) \<le> unat (sa_size a)"
    using length_takeWhile_le [of p "sa_list a m"] by simp
  then show ?thesis
    unfolding loop_eq using unat_u32_less [of "sa_size a"] by (intro unat_of_nat_u32) linarith
qed

text \<open>The scan stops inside the array exactly if some element fails the condition, at the first one.\<close>

lemma loop_found:
  assumes "loop 0 < sa_size a"
  shows "\<not> p (sa_list a m ! unat (loop 0))" "j < unat (loop 0) \<Longrightarrow> p (sa_list a m ! j)"
proof -
  have "length (takeWhile p (sa_list a m)) < length (sa_list a m)"
    using assms by (simp add: u32_less_iff unat_loop)
  then show "\<not> p (sa_list a m ! unat (loop 0))" unfolding unat_loop by (rule nth_length_takeWhile)
  show "j < unat (loop 0) \<Longrightarrow> p (sa_list a m ! j)"
    unfolding unat_loop by (metis nth_mem set_takeWhileD takeWhile_nth)
qed

lemma loop_missing: "\<not> loop 0 < sa_size a \<longleftrightarrow> (\<forall>x \<in> set (sa_list a m). p x)"
proof -
  let ?xs = "sa_list a m"
  have "length ?xs \<le> length (takeWhile p ?xs) \<longleftrightarrow> takeWhile p ?xs = ?xs"
    by (metis order_refl take_all takeWhile_eq_take)
  then show ?thesis by (simp add: u32_less_iff unat_loop not_less takeWhile_eq_all_conv)
qed

lemma loop_end: "\<not> loop 0 < sa_size a \<Longrightarrow> loop 0 = sa_size a"
  using length_takeWhile_le [of p "sa_list a m"] by (simp add: u32_less_iff u32_eq_iff unat_loop)

end

interpretation insertion_scan: scan a m "\<lambda>x. sint (call_cmp a m x el) < 0" "insert_scan a m el"
  for a m el
  by unfold_locales (subst insert_scan.simps, simp)

text \<open>The right shift: the cells after \<open>i\<close> move up by one and \<open>tmp\<close> takes the place after \<open>i\<close>.\<close>

lemma insert_shift_eq:
  fixes a :: sorted_array
  defines "n \<equiv> unat (sa_size a)"
  assumes "i < n" "n < 1073741824"
  shows "words_at (load32 (insert_shift a m (of_nat i) tmp)) (sa_array a) (Suc n) =
     take (Suc i) (words_at (load32 m) (sa_array a) (Suc n)) @
     tmp # drop (Suc i) (words_at (load32 m) (sa_array a) n)"
  using assms(2)
proof (induction "n - i" arbitrary: i m tmp)
  case 0
  then show ?case by simp
next
  case (Suc k)
  let ?A = "sa_array a"
  have ui: "unat (of_nat i :: u32) = i"
    using Suc.prems assms(3) by (intro unat_of_nat_u32) simp
  have usi: "of_nat i + 1 = (of_nat (Suc i) :: u32)" by simp
  let ?m = "store32 m (?A + 4 * of_nat (Suc i)) tmp"
  let ?t = "load32 m (?A + 4 * of_nat (Suc i))"
  let ?xs = "words_at (load32 m) ?A (Suc n)"
  have step: "insert_shift a m (of_nat i) tmp = insert_shift a ?m (of_nat (Suc i)) ?t"
    using Suc.prems assms(1) ui
    by (subst insert_shift.simps) (simp add: u32_less_iff cell_def Let_def add.commute)
  have upd: "words_at (load32 ?m) ?A (Suc n) = ?xs[Suc i := tmp]"
    using Suc.prems assms(3) by (intro mem32.words_at_store) auto
  have takes: "take (Suc i) ?xs @ [tmp] = take (Suc (Suc i)) (?xs[Suc i := tmp])"
    using Suc.prems by (simp add: take_Suc_conv_app_nth)
  show ?case
  proof (cases "Suc i < n")
    case True
    have "n - Suc i = k" using Suc.hyps(2) by simp
    then have IH: "words_at (load32 (insert_shift a ?m (of_nat (Suc i)) ?t)) ?A (Suc n) =
       take (Suc (Suc i)) (words_at (load32 ?m) ?A (Suc n)) @
       ?t # drop (Suc (Suc i)) (words_at (load32 ?m) ?A n)"
      using Suc.hyps(1) [of "Suc i" ?m ?t] True by simp
    have "words_at (load32 ?m) ?A n = (words_at (load32 m) ?A n)[Suc i := tmp]"
      using True assms(3) by (intro mem32.words_at_store) auto
    then have "drop (Suc (Suc i)) (words_at (load32 ?m) ?A n) = drop (Suc (Suc i)) (words_at (load32 m) ?A n)"
      by simp
    moreover have "?t # drop (Suc (Suc i)) (words_at (load32 m) ?A n) = drop (Suc i) (words_at (load32 m) ?A n)"
      using True by (simp flip: Cons_nth_drop_Suc)
    ultimately show ?thesis using IH upd takes step by simp
  next
    case False
    with Suc.prems have n: "n = Suc i" by simp
    have "of_nat (Suc i) = sa_size a" using n assms(1) by (metis of_nat_unat_u32)
    then have "insert_shift a ?m (of_nat (Suc i)) ?t = ?m"
      by (simp only: insert_shift.simps [of a _ "sa_size a"]) simp
    then show ?thesis using step upd takes n
      by (simp add: words_at_Suc list_update_append)
  qed
qed

text \<open>A store to one of the first \<open>n\<close> cells leaves the bytes outside these cells alone.\<close>

lemma store_cell_frame:
  assumes "unat i < n" "n \<le> 1073741824" "\<not> in_range (sa_array a) (4 * n) x"
  shows "store32 m (cell a i) v x = m x"
proof (rule store32_other, rule notI)
  assume r: "in_range (cell a i) 4 x"
  have u: "unat (4 * i) = 4 * unat i" using unat_mult4 [of "unat i"] assms by simp
  have "x - sa_array a = (x - cell a i) + 4 * i" by (simp add: cell_def)
  moreover have "unat ((x - cell a i) + 4 * i) = unat (x - cell a i) + 4 * unat i"
    using r u assms by (subst unat_add_no_wrap) (auto simp: in_range_def)
  ultimately have "unat (x - sa_array a) = unat (x - cell a i) + 4 * unat i" by (simp only:)
  then have "unat (x - sa_array a) < 4 * n" using r assms(1) by (simp add: in_range_def)
  with assms(3) show False by (simp add: in_range_def)
qed

lemma insert_shift_frame:
  assumes "unat (sa_size a) < 1073741824" "\<not> in_range (sa_array a) (4 * Suc (unat (sa_size a))) x"
  shows "insert_shift a m i tmp x = m x"
  using assms
proof (induction a m i tmp rule: insert_shift.induct)
  case (1 a m i tmp)
  show ?case
  proof (cases "i < sa_size a")
    case True
    then have "unat i < unat (sa_size a)" by (simp add: u32_less_iff)
    moreover have "unat (i + 1) = Suc (unat i)"
      using calculation "1.prems"(1) unat_Suc_of_nat [of "unat i"] by simp
    ultimately have "store32 m (cell a (i + 1)) tmp x = m x"
      using "1.prems" by (intro store_cell_frame [where n = "Suc (unat (sa_size a))"]) auto
    with True 1 show ?thesis by (subst insert_shift.simps) (simp add: Let_def)
  next
    case False
    then show ?thesis by (subst insert_shift.simps) simp
  qed
qed

subsection \<open>Insertion\<close>

definition insert_before :: "(u32 \<Rightarrow> bool) \<Rightarrow> u32 \<Rightarrow> u32 list \<Rightarrow> u32 list" where
  "insert_before p el xs = takeWhile p xs @ el # dropWhile p xs"

lemma set_insert_before [simp]: "set (insert_before p el xs) = insert el (set xs)"
  unfolding insert_before_def
  by (metis Un_insert_right list.simps(15) set_append takeWhile_dropWhile_id)

lemma mset_insert_before: "mset (insert_before p el xs) = add_mset el (mset xs)"
proof -
  have "mset xs = mset (takeWhile p xs) + mset (dropWhile p xs)"
    by (metis mset_append takeWhile_dropWhile_id)
  then show ?thesis by (simp add: insert_before_def)
qed

lemma insert_sorted_array_ok:
  assumes wf: "sa_wf a" and room: "sa_size a < sa_maxsize a" and cmp: "sa_cmp a = Some f"
  shows "\<exists>m'. insert_sorted_array a el m = Inr (a\<lparr>sa_size := sa_size a + 1\<rparr>, m') \<and>
    sa_list (a\<lparr>sa_size := sa_size a + 1\<rparr>) m' =
      insert_before (\<lambda>x. sint (f m x el) < 0) el (sa_list a m) \<and>
    (\<forall>x. \<not> in_range (sa_array a) (4 * Suc (unat (sa_size a))) x \<longrightarrow> m' x = m x)"
proof -
  let ?n = "unat (sa_size a)" and ?A = "sa_array a"
  let ?P = "\<lambda>x. sint (f m x el) < 0"
  define k where "k = length (takeWhile ?P (sa_list a m))"
  have n: "?n < 1073741824" using wf room by (auto simp: sa_wf_def u32_less_iff)
  have n1: "unat (sa_size a + 1) = Suc ?n" using n by (subst unat_add_no_wrap) auto
  have cc: "call_cmp a m x el = f m x el" for x by (simp add: call_cmp_def cmp)
  have scan: "insert_scan a m el 0 = of_nat k"
    using insertion_scan.loop_eq [of a m el] by (simp add: cc k_def)
  have k: "k \<le> ?n" using length_takeWhile_le [of ?P "sa_list a m"] by (simp add: k_def)
  have uk: "unat (of_nat k :: u32) = k" using k n by (intro unat_of_nat_u32) simp
  show ?thesis
  proof (cases "k = ?n")
    case True
    then have it: "insert_scan a m el 0 = sa_size a" using scan by (metis of_nat_unat_u32)
    have tw: "takeWhile ?P (sa_list a m) = sa_list a m"
      using True takeWhile_eq_take [of ?P "sa_list a m"] by (simp flip: k_def)
    then have dw: "dropWhile ?P (sa_list a m) = []"
      by (simp add: takeWhile_eq_all_conv dropWhile_eq_Nil_conv)
    let ?m = "store32 m (cell a (sa_size a)) el"
    have "sa_list (a\<lparr>sa_size := sa_size a + 1\<rparr>) ?m = sa_list a m @ [el]"
      using mem32.words_at_store_last [of ?n m ?A el] n n1
      by (simp add: sa_list_def cell_def)
    moreover have "?m x = m x" if "\<not> in_range ?A (4 * Suc ?n) x" for x
      using that n by (intro store_cell_frame [where n = "Suc ?n"]) auto
    ultimately show ?thesis
      using room cmp by (simp add: insert_sorted_array_def it tw dw insert_before_def Let_def)
  next
    case False
    then have lt: "k < ?n" using k by simp
    let ?m1 = "store32 m (cell a (of_nat k)) el"
    let ?tmp = "load32 m (cell a (of_nat k))"
    let ?m = "insert_shift a ?m1 (of_nat k) ?tmp"
    have ne: "of_nat k \<noteq> sa_size a" using lt uk by auto
    have l1: "words_at (load32 ?m1) ?A (Suc ?n) = (words_at (load32 m) ?A (Suc ?n))[k := el]"
      using lt n unfolding cell_def by (intro mem32.words_at_store) auto
    have l2: "words_at (load32 ?m1) ?A ?n = (words_at (load32 m) ?A ?n)[k := el]"
      using lt n unfolding cell_def by (intro mem32.words_at_store) auto
    have "takeWhile ?P (sa_list a m) = take k (sa_list a m)"
      unfolding k_def by (rule takeWhile_eq_take)
    then have tk: "take k (words_at (load32 m) ?A (Suc ?n)) = takeWhile ?P (sa_list a m)"
      using lt by (simp add: words_at_Suc sa_list_def)
    have "dropWhile ?P (sa_list a m) = drop k (sa_list a m)" unfolding k_def by (rule dropWhile_eq_drop)
    also have "\<dots> = ?tmp # drop (Suc k) (sa_list a m)"
      using lt by (simp add: nth_sa_list flip: Cons_nth_drop_Suc)
    finally have dw: "dropWhile ?P (sa_list a m) = ?tmp # drop (Suc k) (sa_list a m)" .
    have "words_at (load32 ?m) ?A (Suc ?n) = take (Suc k) (words_at (load32 ?m1) ?A (Suc ?n)) @
        ?tmp # drop (Suc k) (words_at (load32 ?m1) ?A ?n)"
      using lt n by (rule insert_shift_eq)
    also have "take (Suc k) (words_at (load32 ?m1) ?A (Suc ?n)) = takeWhile ?P (sa_list a m) @ [el]"
      using lt by (simp add: l1 take_Suc_conv_app_nth tk)
    finally have "sa_list (a\<lparr>sa_size := sa_size a + 1\<rparr>) ?m =
        insert_before ?P el (sa_list a m)"
      using n1 dw by (simp add: sa_list_def insert_before_def l2)
    moreover have "?m x = m x" if x: "\<not> in_range ?A (4 * Suc ?n) x" for x
    proof -
      have "?m1 x = m x"
        using x n lt uk by (intro store_cell_frame [where n = "Suc ?n"]) auto
      with insert_shift_frame [OF n x] show ?thesis by simp
    qed
    ultimately show ?thesis
      using room cmp ne by (simp add: insert_sorted_array_def scan Let_def)
  qed
qed

lemma insert_sorted_array_full:
  "\<not> sa_size a < sa_maxsize a \<Longrightarrow> sa_cmp a \<noteq> None \<Longrightarrow>
   insert_sorted_array a el m = Inl (Panic ''has enough room'')"
  by (simp add: insert_sorted_array_def)

subsection \<open>Lookup and removal\<close>

lemma lookup_sorted_array_eq:
  "i < unat (sa_size a) \<Longrightarrow> lookup_sorted_array a (of_nat i) m = Inr (sa_list a m ! i)"
  using unat_u32_less [of "sa_size a"] less_trans [of i "unat (sa_size a)" 4294967296]
  by (simp add: lookup_sorted_array_def u32_less_iff unat_of_nat_u32 nth_sa_list)

lemma lookup_sorted_array_range:
  "lookup_sorted_array a i m = (if i < sa_size a then Inr (sa_list a m ! unat i)
     else Inl (Panic ''index in range''))"
  using lookup_sorted_array_eq [of "unat i" a m]
  by (auto simp: u32_less_iff lookup_sorted_array_def)

text \<open>The left shift reads one cell past the last element, then the size is decreased.\<close>

lemma remove_shift_eq:
  fixes a :: sorted_array
  defines "n \<equiv> unat (sa_size a)"
  assumes "i \<le> n" "n < 1073741824"
  shows "words_at (load32 (remove_shift a m (of_nat i))) (sa_array a) n =
     take i (words_at (load32 m) (sa_array a) n) @ drop (Suc i) (words_at (load32 m) (sa_array a) (Suc n))"
  using assms(2)
proof (induction "n - i" arbitrary: i m)
  case 0
  then have i: "i = n" by simp
  then have "of_nat i = sa_size a" using assms(1) by simp
  with i show ?case by (simp add: remove_shift.simps [of a m "sa_size a"])
next
  case (Suc k)
  then have lt: "i < n" by simp
  let ?A = "sa_array a"
  let ?v = "load32 m (?A + 4 * of_nat (Suc i))"
  let ?m = "store32 m (?A + 4 * of_nat i) ?v"
  have ui: "unat (of_nat i :: u32) = i" using lt assms(3) by (intro unat_of_nat_u32) simp
  have step: "remove_shift a m (of_nat i) = remove_shift a ?m (of_nat (Suc i))"
    using lt assms(1) ui
    by (subst remove_shift.simps) (simp add: u32_less_iff cell_def add.commute)
  have "n - Suc i = k" using Suc.hyps(2) by simp
  then have IH: "words_at (load32 (remove_shift a ?m (of_nat (Suc i)))) ?A n =
      take (Suc i) (words_at (load32 ?m) ?A n) @ drop (Suc (Suc i)) (words_at (load32 ?m) ?A (Suc n))"
    using Suc.hyps(1) [of "Suc i" ?m] lt by simp
  have u1: "words_at (load32 ?m) ?A n = (words_at (load32 m) ?A n)[i := ?v]"
    using lt assms(3) by (intro mem32.words_at_store) auto
  have u2: "words_at (load32 ?m) ?A (Suc n) = (words_at (load32 m) ?A (Suc n))[i := ?v]"
    using lt assms(3) by (intro mem32.words_at_store) auto
  have "take (Suc i) ((words_at (load32 m) ?A n)[i := ?v]) = take i (words_at (load32 m) ?A n) @ [?v]"
    using lt by (simp add: take_Suc_conv_app_nth)
  moreover have "?v # drop (Suc (Suc i)) (words_at (load32 m) ?A (Suc n)) =
      drop (Suc i) (words_at (load32 m) ?A (Suc n))"
    using lt by (simp flip: Cons_nth_drop_Suc)
  moreover have "drop (Suc (Suc i)) ((words_at (load32 m) ?A (Suc n))[i := ?v]) =
      drop (Suc (Suc i)) (words_at (load32 m) ?A (Suc n))" by simp
  ultimately show ?case unfolding step IH u1 u2 by (metis append.assoc append_Cons append_Nil)
qed

lemma remove_shift_frame:
  assumes "unat (sa_size a) < 1073741824" "\<not> in_range (sa_array a) (4 * unat (sa_size a)) x"
  shows "remove_shift a m i x = m x"
  using assms
proof (induction a m i rule: remove_shift.induct)
  case (1 a m i)
  show ?case
  proof (cases "i < sa_size a")
    case True
    then have "store32 m (cell a i) v x = m x" for v
      using "1.prems" by (intro store_cell_frame [where n = "unat (sa_size a)"]) (auto simp: u32_less_iff)
    with True 1 show ?thesis by (subst remove_shift.simps) simp
  next
    case False
    then show ?thesis by (subst remove_shift.simps) simp
  qed
qed

definition remove_nth :: "nat \<Rightarrow> 'a list \<Rightarrow> 'a list" where
  "remove_nth i xs = take i xs @ drop (Suc i) xs"

lemma remove_nth_set:
  assumes "distinct xs" "i < length xs"
  shows "set (remove_nth i xs) = set xs - {xs ! i}" and "distinct (remove_nth i xs)"
proof -
  have xs: "xs = take i xs @ xs ! i # drop (Suc i) xs" using assms(2) by (rule id_take_nth_drop)
  have "distinct (take i xs @ xs ! i # drop (Suc i) xs)" using assms(1) xs by simp
  moreover have "set xs = set (take i xs) \<union> insert (xs ! i) (set (drop (Suc i) xs))"
    using xs by (metis list.simps(15) set_append)
  ultimately show "set (remove_nth i xs) = set xs - {xs ! i}" "distinct (remove_nth i xs)"
    by (auto simp: remove_nth_def)
qed

lemma set_remove_nth_subset: "set (remove_nth i xs) \<subseteq> set xs"
  using set_take_subset [of i xs] set_drop_subset [of "Suc i" xs] by (auto simp: remove_nth_def)

lemma sorted_remove_nth: "sorted (map f xs) \<Longrightarrow> sorted (map f (remove_nth i xs))"
proof (induction xs arbitrary: i)
  case Nil
  then show ?case by (simp add: remove_nth_def)
next
  case (Cons x xs)
  show ?case
  proof (cases i)
    case 0
    then show ?thesis using Cons.prems by (simp add: remove_nth_def)
  next
    case (Suc j)
    then have "remove_nth i (x # xs) = x # remove_nth j xs" by (simp add: remove_nth_def)
    then show ?thesis using Cons set_remove_nth_subset [of j xs] by auto
  qed
qed

lemma remove_sorted_array_ok:
  assumes wf: "sa_wf a" and i: "i < sa_size a"
  shows "\<exists>m'. remove_sorted_array a i m = Inr (a\<lparr>sa_size := sa_size a - 1\<rparr>, m') \<and>
    sa_list (a\<lparr>sa_size := sa_size a - 1\<rparr>) m' = remove_nth (unat i) (sa_list a m) \<and>
    (\<forall>x. \<not> in_range (sa_array a) (4 * unat (sa_size a)) x \<longrightarrow> m' x = m x)"
proof -
  let ?n = "unat (sa_size a)" and ?A = "sa_array a"
  have ui: "unat i < ?n" using i by (simp add: u32_less_iff)
  have n: "?n < 1073741824" using wf by (auto simp: sa_wf_def u32_le_iff)
  have n1: "unat (sa_size a - 1) = ?n - 1" using ui by (intro unat_pred_u32) auto
  have "words_at (load32 (remove_shift a m i)) ?A ?n =
      take (unat i) (words_at (load32 m) ?A ?n) @ drop (Suc (unat i)) (words_at (load32 m) ?A (Suc ?n))"
    using remove_shift_eq [of "unat i" a m] ui n by simp
  moreover have "take (?n - 1) (words_at ld ?A ?n) = words_at ld ?A (?n - 1)" for ld
    using ui by (cases ?n) (simp_all add: words_at_Suc)
  ultimately have "sa_list (a\<lparr>sa_size := sa_size a - 1\<rparr>) (remove_shift a m i) =
      take (?n - 1) (take (unat i) (words_at (load32 m) ?A ?n) @
        drop (Suc (unat i)) (words_at (load32 m) ?A (Suc ?n)))"
    by (metis n1 sa_list_def sorted_array.select_convs(1,2) sorted_array.surjective
        sorted_array.update_convs(2))
  also have "\<dots> = remove_nth (unat i) (sa_list a m)"
  proof -
    have "min (?n - 1) (unat i) = unat i" using ui by simp
    with ui show ?thesis by (simp add: remove_nth_def sa_list_def words_at_Suc take_drop)
  qed
  finally show ?thesis
    using i remove_shift_frame [OF n] by (auto simp: remove_sorted_array_def)
qed

subsection \<open>Comparisons that follow a key\<close>

text \<open>
  What a client of the array has to provide: on the elements it stores, the sign of the
  comparison is the order of a key.  Then insertion keeps the elements sorted by that key.
\<close>

locale cmp_key =
  fixes cmp :: "u32 \<Rightarrow> u32 \<Rightarrow> u32"
    and valid :: "u32 \<Rightarrow> bool"
    and key :: "u32 \<Rightarrow> nat"
  assumes cmp_less: "valid x \<Longrightarrow> valid y \<Longrightarrow> sint (cmp x y) < 0 \<longleftrightarrow> key x < key y"
begin

lemma insert_before_insort:
  assumes "\<forall>x \<in> set xs. valid x" "valid el"
  shows "insert_before (\<lambda>x. sint (cmp x el) < 0) el xs = insort_key key el xs"
  using assms by (induction xs) (auto simp: insert_before_def cmp_less)

lemma sorted_insert_before:
  assumes "\<forall>x \<in> set xs. valid x" "valid el" "sorted (map key xs)"
  shows "sorted (map key (insert_before (\<lambda>x. sint (cmp x el) < 0) el xs))"
  using assms by (simp add: insert_before_insort sorted_insort_key)

end

interpretation default_cmp: cmp_key "default_cmp_func m" "\<lambda>p. unat p < 2147483648" unat
  for m
  by unfold_locales (simp add: default_cmp_func_def sint_diff_less)

subsection \<open>A run of insertions\<close>

fun insert_all :: "sorted_array \<Rightarrow> u32 list \<Rightarrow> memory \<Rightarrow> (sorted_array \<times> memory) res" where
  "insert_all a [] m = Inr (a, m)"
| "insert_all a (el # els) m =
     bindr (insert_sorted_array a el m) (\<lambda>(a, m). insert_all a els m)"

lemma default_cmp_insort:
  assumes "sa_wf a" "sa_size a < sa_maxsize a" "sa_cmp a = Some default_cmp_func"
    "\<forall>x \<in> set (sa_list a m). unat x < 2147483648" "unat el < 2147483648"
  shows "\<exists>m'. insert_sorted_array a el m = Inr (a\<lparr>sa_size := sa_size a + 1\<rparr>, m') \<and>
    sa_list (a\<lparr>sa_size := sa_size a + 1\<rparr>) m' = insort_key unat el (sa_list a m)"
  using insert_sorted_array_ok [OF assms(1-3), of el m]
    default_cmp.insert_before_insort [OF assms(4,5), of m] by auto

lemma insert_all_sorts:
  assumes "sa_wf a" "sa_cmp a = Some default_cmp_func"
    "unat (sa_size a) + length els \<le> unat (sa_maxsize a)"
    "\<forall>x \<in> set (sa_list a m) \<union> set els. unat x < 2147483648"
  shows "\<exists>a' m'. insert_all a els m = Inr (a', m') \<and> sa_wf a' \<and>
    sa_list a' m' = fold (insort_key unat) els (sa_list a m)"
  using assms
proof (induction els arbitrary: a m)
  case Nil
  then show ?case by simp
next
  case (Cons el els)
  let ?a = "a\<lparr>sa_size := sa_size a + 1\<rparr>"
  have room: "sa_size a < sa_maxsize a" using Cons.prems(3) by (simp add: u32_less_iff)
  then have n: "unat (sa_size ?a) = Suc (unat (sa_size a))"
    using unat_Suc_of_nat [of "unat (sa_size a)"] unat_u32_less [of "sa_maxsize a"]
    by (simp add: u32_less_iff)
  obtain m' where m': "insert_sorted_array a el m = Inr (?a, m')"
      "sa_list ?a m' = insort_key unat el (sa_list a m)"
    using default_cmp_insort [OF Cons.prems(1) room Cons.prems(2), of m el] Cons.prems(4) by auto
  have "sa_wf ?a" using Cons.prems(1) room n by (auto simp: sa_wf_def u32_le_iff u32_less_iff)
  then show ?case
    using Cons.IH [of ?a m'] Cons.prems m' n by (auto simp: set_insort_key)
qed

text \<open>
  Property C9.  Inserting any numbers below \<open>2^31\<close> one by one into a freshly placed array with
  room for them, with the default comparison, succeeds and leaves exactly these numbers in
  ascending order.
\<close>

theorem insertions_sort:
  assumes "place_sorted_array p n (Some default_cmp_func) m = (a, m0)" "unat n < 1073741824"
    "length els \<le> unat n" "\<forall>x \<in> set els. unat x < 2147483648"
  shows "\<exists>a' m'. insert_all a els m0 = Inr (a', m') \<and> sa_list a' m' = sort_key unat els"
proof -
  have a: "sa_wf a" "sa_cmp a = Some default_cmp_func" "sa_size a = 0" "sa_maxsize a = n"
    using assms(1,2) by (auto simp: place_sorted_array_def sa_wf_def)
  then have "\<exists>a' m'. insert_all a els m0 = Inr (a', m') \<and> sa_list a' m' = fold (insort_key unat) els []"
    using insert_all_sorts [of a els m0] assms(3,4) by (auto simp: sa_list_def)
  moreover have "fold (insort_key unat) els [] = sort_key unat els"
    by (rule sort_key_conv_fold [symmetric]) (simp add: inj_on_def word_unat_eq_iff)
  ultimately show ?thesis by simp
qed

theorem insertions_sort_witness:
  "\<exists>a' m'. insert_all \<lparr>sa_array = 0x1000, sa_size = 0, sa_maxsize = 4, sa_cmp = Some default_cmp_func\<rparr>
      [3, 1, 2] (bzero (\<lambda>_. 0) 0x1000 16) = Inr (a', m') \<and> sa_list a' m' = [1, 2, 3]"
  using insertions_sort [of "0x1000" 4 "\<lambda>_. 0"
      "\<lparr>sa_array = 0x1000, sa_size = 0, sa_maxsize = 4, sa_cmp = Some default_cmp_func\<rparr>"
      "bzero (\<lambda>_. 0) 0x1000 16" "[3, 1, 2]"]
  by (simp add: place_sorted_array_def)

text \<open>
  Property C11.  Removing index \<open>i\<close> of a well-formed array drops exactly the element at \<open>i\<close>, keeps
  the order of the others (so an array sorted by any key stays sorted) and touches no byte outside
  the array's cells; an index out of range panics.
\<close>

theorem remove_keeps_sorted:
  assumes "sa_wf a" "sorted (map key (sa_list a m))"
  shows "if i < sa_size a
    then \<exists>a' m'. remove_sorted_array a i m = Inr (a', m') \<and> sa_wf a' \<and>
      sa_list a' m' = take (unat i) (sa_list a m) @ drop (Suc (unat i)) (sa_list a m) \<and>
      sorted (map key (sa_list a' m')) \<and>
      (\<forall>x. \<not> in_range (sa_array a) (4 * unat (sa_size a)) x \<longrightarrow> m' x = m x)
    else remove_sorted_array a i m = Inl (Panic ''index in range'')"
proof (cases "i < sa_size a")
  case True
  let ?a = "a\<lparr>sa_size := sa_size a - 1\<rparr>"
  have n: "unat (sa_size ?a) = unat (sa_size a) - 1"
    using True by (simp add: unat_pred_u32 u32_less_iff unat_gt_0 flip: unat_gt_0)
  have "sa_wf ?a" using assms(1) n by (auto simp: sa_wf_def u32_le_iff)
  moreover have "sorted (map key (remove_nth (unat i) (sa_list a m)))"
    using assms(2) by (rule sorted_remove_nth)
  ultimately show ?thesis
    using True remove_sorted_array_ok [OF assms(1) True, of m] by (auto simp: remove_nth_def)
qed (simp add: remove_sorted_array_def)

theorem remove_keeps_sorted_witness:
  "\<exists>a' m'. remove_sorted_array \<lparr>sa_array = 0, sa_size = 2, sa_maxsize = 4, sa_cmp = None\<rparr> 0
      (store32 (store32 (\<lambda>_. 0) 0 1) 4 2) = Inr (a', m') \<and> sa_list a' m' = [2]"
proof -
  let ?a = "\<lparr>sa_array = 0, sa_size = 2, sa_maxsize = 4, sa_cmp = None\<rparr>"
    and ?m = "store32 (store32 (\<lambda>_. 0) 0 1) 4 2"
  have l: "sa_list ?a ?m = [1, 2]"
    by (simp add: sa_list_def words_at_def upt_conv_Cons store_same load32_store32_other sep_def)
  show ?thesis using remove_keeps_sorted [of ?a unat ?m 0] unfolding l by (auto simp: sa_wf_def)
qed

end
