(* ===== verification/Monitor.thy ===== *)
theory Monitor
  imports Memory
begin

unbundle bit_operations_syntax

section \<open>Port output and the text monitor (\<open>monitor.c\<close>)\<close>

text \<open>
  The machine state is an extensible record: \<open>machine\<close> holds the memory and the history of
  \<open>outb\<close>; each component extends it with the static variables of its C file, so the
  operations of a component also run on the states of the components built on top of it.
  \<open>monitor.c\<close> keeps the cursor and writes the 80 by 25 cells of the VGA text buffer.

  The lemmas show the cursor invariant, the effect of every kind of character on the list of
  screen cells, that nothing but the frame buffer is written, and that the four port writes
  after each character transmit the cursor position.
\<close>

record machine =
  mem :: memory
  ports :: "(u16 \<times> u8) list"   \<comment> \<open>\<open>outb\<close> calls, oldest first\<close>

definition outb :: "u16 \<Rightarrow> u8 \<Rightarrow> 'a machine_scheme \<Rightarrow> 'a machine_scheme" where
  "outb port v s = s\<lparr>ports := ports s @ [(port, v)]\<rparr>"

record monitor = machine +
  cursor_x :: u8
  cursor_y :: u8

definition MON_WIDTH :: nat where "MON_WIDTH = 80"
definition MON_HEIGHT :: nat where "MON_HEIGHT = 25"

definition MON_DEFAULT_ATTR_BYTE :: u16 where
  "MON_DEFAULT_ATTR_BYTE = push_bit 4 0 OR (15 AND 0x0F)"

definition MON_BLANK_CHAR :: u16 where
  "MON_BLANK_CHAR = 0x20 OR push_bit 8 MON_DEFAULT_ATTR_BYTE"

definition video_memory :: u32 where "video_memory = 0xB8000"

text \<open>The address of \<open>video_memory[i]\<close>.\<close>

definition vcell :: "nat \<Rightarrow> u32" where
  "vcell i = video_memory + 2 * of_nat i"

definition move_cursor :: "'a monitor_scheme \<Rightarrow> 'a monitor_scheme" where
  "move_cursor s =
     (let cl = ucast (cursor_y s) * 80 + ucast (cursor_x s) :: u16;
          s = outb 0x3D4 14 s;
          s = outb 0x3D5 (ucast (drop_bit 8 cl)) s;
          s = outb 0x3D4 15 s
      in outb 0x3D5 (ucast cl) s)"

text \<open>The two \<open>for\<close> loops of \<open>scroll\<close>: from index \<open>i\<close>, \<open>n\<close> more iterations.\<close>

fun scroll_lines :: "memory \<Rightarrow> nat \<Rightarrow> nat \<Rightarrow> memory" where
  "scroll_lines m i 0 = m"
| "scroll_lines m i (Suc n) =
     scroll_lines (store16 m (vcell i) (load16 m (vcell (i + MON_WIDTH)))) (Suc i) n"

fun blank_cells :: "memory \<Rightarrow> nat \<Rightarrow> nat \<Rightarrow> memory" where
  "blank_cells m i 0 = m"
| "blank_cells m i (Suc n) = blank_cells (store16 m (vcell i) MON_BLANK_CHAR) (Suc i) n"

definition scroll :: "'a monitor_scheme \<Rightarrow> 'a monitor_scheme" where
  "scroll s =
     (if MON_HEIGHT \<le> unat (cursor_y s)
      then let m = scroll_lines (mem s) 0 (MON_WIDTH * (MON_HEIGHT - 1));
               m = blank_cells m (MON_WIDTH * (MON_HEIGHT - 1)) MON_WIDTH
           in s\<lparr>mem := m, cursor_y := of_nat (MON_HEIGHT - 1)\<rparr>
      else s)"

text \<open>
  \<open>char\<close> is signed on i386, so bytes from 0x80 on are not printable for the last test.
  \<open>c | attr\<close> is computed at width 32 and stored in 16 bits.
\<close>

definition mon_attr :: u16 where
  "mon_attr = push_bit 8 (push_bit 4 0 OR (2 AND 0x0F))"

definition mon_putchar :: "u8 \<Rightarrow> 'a monitor_scheme \<Rightarrow> 'a monitor_scheme" where
  "mon_putchar c s =
     (let s =
        (if c = 0x08 \<and> 0 < cursor_x s then s\<lparr>cursor_x := cursor_x s - 1\<rparr>
         else if c = 0x09 then s\<lparr>cursor_x := (cursor_x s + 8) AND NOT (8 - 1)\<rparr>
         else if c = 0x0D then s\<lparr>cursor_x := 0\<rparr>
         else if c = 0x0A then s\<lparr>cursor_x := 0, cursor_y := cursor_y s + 1\<rparr>
         else if 32 \<le> sint c
         then s\<lparr>mem := store16 (mem s) (vcell (unat (cursor_x s) + MON_WIDTH * unat (cursor_y s)))
                         (scast c OR mon_attr),
                cursor_x := cursor_x s + 1\<rparr>
         else s);
          s = (if MON_WIDTH \<le> unat (cursor_x s)
               then s\<lparr>cursor_x := 0, cursor_y := cursor_y s + 1\<rparr> else s)
      in move_cursor (scroll s))"

definition mon_clear :: "'a monitor_scheme \<Rightarrow> 'a monitor_scheme" where
  "mon_clear s =
     move_cursor (s\<lparr>mem := blank_cells (mem s) 0 (MON_WIDTH * MON_HEIGHT),
                    cursor_x := 0, cursor_y := 0\<rparr>)"

lemmas mon_consts = MON_WIDTH_def MON_HEIGHT_def

subsection \<open>The cursor stays on the screen\<close>

definition cursor_ok :: "'a monitor_scheme \<Rightarrow> bool" where
  "cursor_ok s \<longleftrightarrow> unat (cursor_x s) < MON_WIDTH \<and> unat (cursor_y s) < MON_HEIGHT"

lemma move_cursor_frame [simp]:
  "mem (move_cursor s) = mem s" "cursor_x (move_cursor s) = cursor_x s"
  "cursor_y (move_cursor s) = cursor_y s"
  by (simp_all add: move_cursor_def outb_def Let_def)

lemma unat_u8_less [simp]: "unat (x :: u8) < 256"
  using unsigned_less [of x, where 'a = nat] by simp

lemma unat_Suc_u8: "unat (x :: u8) < 255 \<Longrightarrow> unat (x + 1) = Suc (unat x)"
  by (simp add: unat_word_ariths)

lemma unat_tab_stop:
  assumes "unat (x :: u8) < 248"
  shows "unat ((x + 8) AND NOT (8 - 1)) = unat x div 8 * 8 + 8"
proof -
  have "unat ((x + 8) AND NOT (mask 3)) = unat (x + 8) div 8 * 8"
    by (simp add: unat_and_not_mask)
  moreover have "unat (x + 8) = unat x + 8" using assms by (simp add: unat_word_ariths)
  moreover have "(n + 8) div 8 * 8 = n div 8 * 8 + 8" for n :: nat by presburger
  ultimately show ?thesis by (simp add: mask_eq_exp_minus_1)
qed

lemma cursor_ok_putchar: "cursor_ok s \<Longrightarrow> cursor_ok (mon_putchar c s)"
proof -
  assume ok: "cursor_ok s"
  then have x: "unat (cursor_x s) < 80" and y: "unat (cursor_y s) < 25"
    by (simp_all add: cursor_ok_def mon_consts)
  have y1: "unat (cursor_y s + 1) = Suc (unat (cursor_y s))" using y by (intro unat_Suc_u8) simp
  have x1: "unat (cursor_x s + 1) = Suc (unat (cursor_x s))" using x by (intro unat_Suc_u8) simp
  have xp: "unat (cursor_x s - 1) < 80" if "0 < cursor_x s"
    using that x by (simp add: word_less_nat_alt unat_sub word_le_nat_alt)
  have t: "unat ((cursor_x s + 8) AND NOT (8 - 1)) \<le> 80"
  proof -
    have "unat (cursor_x s) div 8 \<le> 9" using x by simp
    then have "unat (cursor_x s) div 8 * 8 + 8 \<le> 80" by simp
    then show ?thesis using unat_tab_stop [of "cursor_x s"] x by simp
  qed
  show ?thesis
    using x y x1 y1 xp t
    by (auto simp: mon_putchar_def cursor_ok_def scroll_def mon_consts Let_def)
qed

subsection \<open>The screen as a list of cells\<close>

definition screen :: "memory \<Rightarrow> u16 list" where
  "screen m = map (\<lambda>i. load16 m (vcell i)) [0..<MON_WIDTH * MON_HEIGHT]"

lemma length_screen [simp]: "length (screen m) = 2000"
  by (simp add: screen_def mon_consts)

lemma nth_screen: "i < 2000 \<Longrightarrow> screen m ! i = load16 m (vcell i)"
  by (simp add: screen_def mon_consts)

lemma unat_vcell: "i < 2000 \<Longrightarrow> unat (vcell i) = 0xB8000 + 2 * i"
  using unat_of_nat_u32 [of "2 * i"]
  by (simp add: vcell_def video_memory_def unat_add_u32)

lemma vcell_sep: "i < 2000 \<Longrightarrow> j < 2000 \<Longrightarrow> i \<noteq> j \<Longrightarrow> sep (vcell i) 2 (vcell j) 2"
  by (cases "i < j") (auto simp: sep_def unat_sub_u32 unat_vcell)

lemma screen_store: "i < 2000 \<Longrightarrow> screen (store16 m (vcell i) v) = (screen m)[i := v]"
proof (rule nth_equalityI)
  fix j assume i: "i < 2000" and "j < length (screen (store16 m (vcell i) v))"
  then have "j < 2000" by simp
  with i show "screen (store16 m (vcell i) v) ! j = (screen m)[i := v] ! j"
    by (cases "i = j") (simp_all add: nth_screen load16_store16_other vcell_sep)
qed simp

lemma screen_scroll_lines:
  "i + n + 80 \<le> 2000 \<Longrightarrow> screen (scroll_lines m i n) =
     take i (screen m) @ take n (drop (i + 80) (screen m)) @ drop (i + n) (screen m)"
proof (induction m i n rule: scroll_lines.induct)
  case (1 m i)
  then show ?case by simp
next
  case (2 m i n)
  let ?S = "screen m" and ?v = "load16 m (vcell (i + 80))"
  let ?m = "store16 m (vcell i) ?v"
  have v: "?v = ?S ! (i + 80)" using "2.prems" by (simp add: nth_screen)
  have S: "screen ?m = ?S[i := ?v]" using "2.prems" by (intro screen_store) simp
  have "screen (scroll_lines m i (Suc n)) = take (Suc i) (?S[i := ?v]) @
      take n (drop (Suc i + 80) (?S[i := ?v])) @ drop (Suc i + n) (?S[i := ?v])"
    using 2 S by (simp add: mon_consts)
  also have "\<dots> = take i ?S @ [?v] @ take n (drop (Suc i + 80) ?S) @ drop (Suc i + n) ?S"
    using "2.prems" by (simp add: take_Suc_conv_app_nth)
  also have "\<dots> = take i ?S @ take (Suc n) (drop (i + 80) ?S) @ drop (i + Suc n) ?S"
    using "2.prems" v by (simp add: Cons_nth_drop_Suc [symmetric])
  finally show ?case .
qed

lemma screen_blank_cells:
  "i + n \<le> 2000 \<Longrightarrow> screen (blank_cells m i n) =
     take i (screen m) @ replicate n MON_BLANK_CHAR @ drop (i + n) (screen m)"
proof (induction m i n rule: blank_cells.induct)
  case (1 m i)
  then show ?case by simp
next
  case (2 m i n)
  have "screen (store16 m (vcell i) MON_BLANK_CHAR) = (screen m)[i := MON_BLANK_CHAR]"
    using "2.prems" by (intro screen_store) simp
  with 2 show ?case by (simp add: take_Suc_conv_app_nth replicate_app_Cons_same)
qed

text \<open>\<open>scroll\<close> drops the first line and appends a blank one.\<close>

lemma screen_scroll:
  "screen (mem (scroll s)) =
     (if MON_HEIGHT \<le> unat (cursor_y s)
      then drop MON_WIDTH (screen (mem s)) @ replicate MON_WIDTH MON_BLANK_CHAR
      else screen (mem s))"
  by (simp add: scroll_def mon_consts screen_blank_cells screen_scroll_lines Let_def)

lemma screen_clear: "screen (mem (mon_clear s)) = replicate 2000 MON_BLANK_CHAR"
  by (simp add: mon_clear_def mon_consts screen_blank_cells)

subsection \<open>Writes stay in the frame buffer\<close>

definition in_vga :: "u32 \<Rightarrow> bool" where
  "in_vga x \<longleftrightarrow> in_range video_memory 4000 x"

lemma store16_vga: "i < 2000 \<Longrightarrow> \<not> in_vga x \<Longrightarrow> store16 m (vcell i) v x = m x"
proof (rule store16_other)
  assume i: "i < 2000" and x: "\<not> in_vga x"
  have "unat (vcell i) + 2 \<le> 4294967296" using i by (simp add: unat_vcell)
  then show "\<not> in_range (vcell i) 2 x"
    using i x by (simp add: in_vga_def in_range_no_wrap unat_vcell video_memory_def) linarith
qed

lemma scroll_lines_vga: "i + n \<le> 2000 \<Longrightarrow> \<not> in_vga x \<Longrightarrow> scroll_lines m i n x = m x"
  by (induction m i n rule: scroll_lines.induct) (simp_all add: store16_vga)

lemma blank_cells_vga: "i + n \<le> 2000 \<Longrightarrow> \<not> in_vga x \<Longrightarrow> blank_cells m i n x = m x"
  by (induction m i n rule: blank_cells.induct) (simp_all add: store16_vga)

lemma scroll_vga: "\<not> in_vga x \<Longrightarrow> mem (scroll s) x = mem s x"
  by (simp add: scroll_def mon_consts blank_cells_vga scroll_lines_vga Let_def)

lemma mon_putchar_vga:
  assumes "cursor_ok s" "\<not> in_vga x"
  shows "mem (mon_putchar c s) x = mem s x"
proof -
  have "unat (cursor_x s) + 80 * unat (cursor_y s) < 2000"
    using assms(1) by (simp add: cursor_ok_def mon_consts)
  with assms(2) show ?thesis
    by (simp add: mon_putchar_def Let_def scroll_vga store16_vga mon_consts)
qed

subsection \<open>An abstract terminal\<close>

text \<open>
  What the monitor promises, over plain lists and numbers: a grid of cells in row-major order,
  a column and a row.  \<open>mon_putchar\<close> refines \<open>tputc\<close> under the cursor invariant.
\<close>

type_synonym terminal = "u16 list \<times> nat \<times> nat"

definition twrap :: "terminal \<Rightarrow> terminal" where
  "twrap t = (case t of (cs, x, y) \<Rightarrow> if 80 \<le> x then (cs, 0, Suc y) else t)"

definition tscroll :: "terminal \<Rightarrow> terminal" where
  "tscroll t = (case t of (cs, x, y) \<Rightarrow>
     if 25 \<le> y then (drop 80 cs @ replicate 80 MON_BLANK_CHAR, x, 24) else t)"

definition tstep :: "u8 \<Rightarrow> terminal \<Rightarrow> terminal" where
  "tstep c t = (case t of (cs, x, y) \<Rightarrow>
     if c = 0x08 \<and> 0 < x then (cs, x - 1, y)
     else if c = 0x09 then (cs, 8 * (x div 8 + 1), y)
     else if c = 0x0D then (cs, 0, y)
     else if c = 0x0A then (cs, 0, Suc y)
     else if 32 \<le> sint c then (cs[80 * y + x := scast c OR mon_attr], Suc x, y)
     else t)"

definition tputc :: "u8 \<Rightarrow> terminal \<Rightarrow> terminal" where
  "tputc c t = tscroll (twrap (tstep c t))"

definition terminal_of :: "'a monitor_scheme \<Rightarrow> terminal" where
  "terminal_of s = (screen (mem s), unat (cursor_x s), unat (cursor_y s))"

text \<open>The three stages of \<open>mon_putchar\<close>, each related to its abstract counterpart.\<close>

definition mon_step :: "u8 \<Rightarrow> 'a monitor_scheme \<Rightarrow> 'a monitor_scheme" where
  "mon_step c s =
     (if c = 0x08 \<and> 0 < cursor_x s then s\<lparr>cursor_x := cursor_x s - 1\<rparr>
      else if c = 0x09 then s\<lparr>cursor_x := (cursor_x s + 8) AND NOT (8 - 1)\<rparr>
      else if c = 0x0D then s\<lparr>cursor_x := 0\<rparr>
      else if c = 0x0A then s\<lparr>cursor_x := 0, cursor_y := cursor_y s + 1\<rparr>
      else if 32 \<le> sint c
      then s\<lparr>mem := store16 (mem s) (vcell (unat (cursor_x s) + MON_WIDTH * unat (cursor_y s)))
                      (scast c OR mon_attr),
             cursor_x := cursor_x s + 1\<rparr>
      else s)"

definition mon_wrap :: "'a monitor_scheme \<Rightarrow> 'a monitor_scheme" where
  "mon_wrap s = (if MON_WIDTH \<le> unat (cursor_x s)
     then s\<lparr>cursor_x := 0, cursor_y := cursor_y s + 1\<rparr> else s)"

lemma mon_putchar_stages: "mon_putchar c s = move_cursor (scroll (mon_wrap (mon_step c s)))"
  by (simp add: mon_putchar_def mon_step_def mon_wrap_def Let_def)

lemma terminal_of_move_cursor [simp]: "terminal_of (move_cursor s) = terminal_of s"
  by (simp add: terminal_of_def)

lemma terminal_of_scroll: "terminal_of (scroll s) = tscroll (terminal_of s)"
proof -
  have "cursor_x (scroll s) = cursor_x s" by (simp add: scroll_def Let_def)
  moreover have "unat (cursor_y (scroll s)) =
      (if 25 \<le> unat (cursor_y s) then 24 else unat (cursor_y s))"
    by (simp add: scroll_def mon_consts Let_def)
  ultimately show ?thesis
    by (simp add: terminal_of_def tscroll_def screen_scroll mon_consts)
qed

lemma terminal_of_wrap:
  "unat (cursor_y s) < 255 \<Longrightarrow> terminal_of (mon_wrap s) = twrap (terminal_of s)"
  by (simp add: terminal_of_def twrap_def mon_wrap_def mon_consts unat_Suc_u8)

lemma terminal_of_step:
  assumes "cursor_ok s"
  shows "terminal_of (mon_step c s) = tstep c (terminal_of s)"
proof -
  have x: "unat (cursor_x s) < 80" and y: "unat (cursor_y s) < 25"
    using assms by (simp_all add: cursor_ok_def mon_consts)
  have x1: "unat (cursor_x s + 1) = Suc (unat (cursor_x s))"
    and y1: "unat (cursor_y s + 1) = Suc (unat (cursor_y s))"
    using x y by (simp_all add: unat_Suc_u8)
  have t: "unat ((cursor_x s + 8) AND NOT (8 - 1)) = 8 * (unat (cursor_x s) div 8 + 1)"
    using unat_tab_stop [of "cursor_x s"] x by simp
  have xm: "0 < cursor_x s \<Longrightarrow> unat (cursor_x s - 1) = unat (cursor_x s) - 1"
    by (simp add: word_less_nat_alt unat_sub word_le_nat_alt)
  have pos: "0 < cursor_x s \<longleftrightarrow> 0 < unat (cursor_x s)" by (simp add: word_less_nat_alt)
  have "unat (cursor_x s) + 80 * unat (cursor_y s) < 2000" using x y by linarith
  then have st: "screen (store16 (mem s) (vcell (unat (cursor_x s) + 80 * unat (cursor_y s))) v) =
      (screen (mem s))[80 * unat (cursor_y s) + unat (cursor_x s) := v]" for v
    by (simp add: screen_store add.commute)
  show ?thesis
    using xm t x1 y1 st pos
    by (auto simp: terminal_of_def tstep_def mon_step_def mon_consts)
qed

lemma cursor_y_step: "cursor_ok s \<Longrightarrow> unat (cursor_y (mon_step c s)) < 26"
  by (auto simp: mon_step_def cursor_ok_def mon_consts unat_Suc_u8)

lemma mon_putchar_refines:
  "cursor_ok s \<Longrightarrow> terminal_of (mon_putchar c s) = tputc c (terminal_of s)"
  using cursor_y_step [of s c]
  by (simp add: mon_putchar_stages tputc_def terminal_of_scroll terminal_of_wrap terminal_of_step)

text \<open>The port writes carry the new position, high byte first.\<close>

lemma ports_move_cursor:
  "ports (move_cursor s) = ports s @
     (let cl = ucast (cursor_y s) * 80 + ucast (cursor_x s) :: u16
      in [(0x3D4, 14), (0x3D5, ucast (drop_bit 8 cl)), (0x3D4, 15), (0x3D5, ucast cl)])"
  by (simp add: move_cursor_def outb_def Let_def)

lemma u16_bytes: "unat (w :: u16) = 256 * unat (ucast (drop_bit 8 w) :: u8) + unat (ucast w :: u8)"
proof -
  have w: "unat w < 65536" using unsigned_less [of w, where 'a = nat] by simp
  have "unat (ucast (drop_bit 8 w) :: u8) = unat w div 256 mod 256"
    by (simp only: unsigned_ucast_eq unat_drop_bit_eq) (simp add: take_bit_eq_mod drop_bit_eq_div)
  moreover have "unat (ucast w :: u8) = unat w mod 256"
    by (simp add: unsigned_ucast_eq take_bit_eq_mod)
  ultimately show ?thesis using w by simp
qed

lemma cursor_location:
  assumes "cursor_ok s"
  shows "unat (ucast (cursor_y s) * 80 + ucast (cursor_x s) :: u16) =
    80 * unat (cursor_y s) + unat (cursor_x s)"
proof -
  have "unat (ucast z :: u16) = unat z" for z :: u8
    using unat_u8_less [of z] by (simp add: unsigned_ucast_eq take_bit_eq_mod del: unat_u8_less)
  with assms show ?thesis
    by (simp add: unat_word_ariths cursor_ok_def mon_consts)
qed

lemma ports_scroll [simp]: "ports (scroll s) = ports s"
  by (simp add: scroll_def Let_def)

lemma ports_wrap_step [simp]: "ports (mon_wrap (mon_step c s)) = ports s"
  by (simp add: mon_wrap_def mon_step_def Let_def)

lemma putchar_ports:
  assumes "cursor_ok s"
  shows "\<exists>hi lo. ports (mon_putchar c s) = ports s @ [(0x3D4, 14), (0x3D5, hi), (0x3D4, 15), (0x3D5, lo)] \<and>
    256 * unat hi + unat lo =
      80 * unat (cursor_y (mon_putchar c s)) + unat (cursor_x (mon_putchar c s))"
proof -
  let ?s = "scroll (mon_wrap (mon_step c s))"
  let ?cl = "ucast (cursor_y ?s) * 80 + ucast (cursor_x ?s) :: u16"
  have ok: "cursor_ok ?s" using cursor_ok_putchar [OF assms, of c] by (simp add: mon_putchar_stages cursor_ok_def)
  have "ports (mon_putchar c s) = ports s @
      [(0x3D4, 14), (0x3D5, ucast (drop_bit 8 ?cl)), (0x3D4, 15), (0x3D5, ucast ?cl)]"
    by (simp only: mon_putchar_stages ports_move_cursor Let_def ports_scroll ports_wrap_step)
  moreover have "256 * unat (ucast (drop_bit 8 ?cl) :: u8) + unat (ucast ?cl :: u8) =
      80 * unat (cursor_y ?s) + unat (cursor_x ?s)"
    using cursor_location [OF ok] u16_bytes [of ?cl] by (simp only:)
  moreover have "cursor_y (mon_putchar c s) = cursor_y ?s" "cursor_x (mon_putchar c s) = cursor_x ?s"
    by (simp_all add: mon_putchar_stages)
  ultimately show ?thesis by (simp only:) blast
qed

text \<open>
  Property C7.  With the cursor on the screen, \<open>mon_putchar\<close> refines the abstract terminal (printing,
  backspace, tab, return, line feed, wrap-around and scrolling), keeps the cursor on the screen,
  writes no byte outside the frame buffer, and sends the new cursor position, as one 16-bit cell
  number split in two bytes, to the display's ports.
\<close>

theorem putchar_refines_terminal:
  assumes "cursor_ok s"
  shows "terminal_of (mon_putchar c s) = tputc c (terminal_of s) \<and> cursor_ok (mon_putchar c s) \<and>
    (\<forall>x. \<not> in_vga x \<longrightarrow> mem (mon_putchar c s) x = mem s x) \<and>
    (\<exists>hi lo. ports (mon_putchar c s) = ports s @ [(0x3D4, 14), (0x3D5, hi), (0x3D4, 15), (0x3D5, lo)] \<and>
       256 * unat hi + unat lo =
         80 * unat (cursor_y (mon_putchar c s)) + unat (cursor_x (mon_putchar c s)))"
  using assms mon_putchar_refines cursor_ok_putchar putchar_ports mon_putchar_vga by blast

theorem putchar_refines_terminal_witness:
  "terminal_of (mon_putchar 65 \<lparr>mem = (\<lambda>_. 0), ports = [], cursor_x = 79, cursor_y = 24\<rparr>) =
     tputc 65 (terminal_of \<lparr>mem = (\<lambda>_. 0), ports = [], cursor_x = 79, cursor_y = 24\<rparr>)"
  using putchar_refines_terminal [of "\<lparr>mem = (\<lambda>_. 0), ports = [], cursor_x = 79, cursor_y = 24\<rparr>" 65]
  by (simp add: cursor_ok_def mon_consts)

end
