(* ===== verification/Digits.thy ===== *)
theory Digits
  imports Prelude
begin

section \<open>Positional notation\<close>

text \<open>The digits of a number in any base and their value, for the routines that print numbers.\<close>

fun digits_of :: "nat \<Rightarrow> nat \<Rightarrow> nat list" where
  "digits_of b n = (if b \<le> 1 \<or> n < b then [n] else digits_of b (n div b) @ [n mod b])"

declare digits_of.simps [simp del]

definition value_of :: "nat \<Rightarrow> nat list \<Rightarrow> nat" where
  "value_of b ds = foldl (\<lambda>v d. v * b + d) 0 ds"

lemma value_digits: "2 \<le> b \<Longrightarrow> value_of b (digits_of b n) = n"
proof (induction b n rule: digits_of.induct)
  case (1 b n)
  show ?case
  proof (cases "n < b")
    case True
    then show ?thesis by (simp add: digits_of.simps [of b n] value_of_def)
  next
    case False
    with 1 have "foldl (\<lambda>v d. v * b + d) 0 (digits_of b (n div b)) = n div b"
      by (simp add: value_of_def)
    with False 1 show ?thesis by (simp add: digits_of.simps [of b n] value_of_def)
  qed
qed

lemma digits_less: "2 \<le> b \<Longrightarrow> d \<in> set (digits_of b n) \<Longrightarrow> d < b"
proof (induction b n rule: digits_of.induct)
  case (1 b n)
  then show ?case
    by (cases "n < b") (auto simp: digits_of.simps [of b n])
qed

lemma length_digits: "2 \<le> b \<Longrightarrow> n < b ^ k \<Longrightarrow> 0 < k \<Longrightarrow> length (digits_of b n) \<le> k"
proof (induction k arbitrary: n)
  case 0
  then show ?case by simp
next
  case (Suc k)
  show ?case
  proof (cases "n < b")
    case True
    then show ?thesis by (simp add: digits_of.simps [of b n])
  next
    case False
    with Suc.prems have "0 < k" by (cases k) auto
    moreover have "n div b < b ^ k" using Suc.prems by (simp add: less_mult_imp_div_less mult.commute)
    ultimately have "length (digits_of b (n div b)) \<le> k" using Suc by simp
    with False Suc.prems show ?thesis by (simp add: digits_of.simps [of b n])
  qed
qed

end
