(* ===== verification/Printf.thy ===== *)
theory Printf
  imports Monitor Digits
begin

unbundle bit_operations_syntax

section \<open>Formatted output (\<open>freebsd/printf.c\<close>)\<close>

text \<open>
  \<open>vprintf\<close> walks the format string and writes characters to the monitor as it goes.  The
  format is the list of bytes up to its terminator, the argument area (\<open>va_list\<close>) a list of
  32-bit slots; reading past either is a \<open>Fault\<close>.  Numbers are converted into the local
  buffer \<open>buf\<close> least significant digit first and dumped backwards.

  The specification \<open>formats\<close> says which byte string a format denotes; \<open>vprintf\<close> returns
  its length and puts exactly these bytes on the monitor, in order.
\<close>

text \<open>\<open>do *s++ = '0' + u % 10U; while (u /= 10U);\<close> the bytes of \<open>buf\<close> in the order stored.\<close>

function dec_buf :: "u32 \<Rightarrow> u8 list" where
  "dec_buf u = (0x30 + ucast (u mod 10)) # (if u div 10 = 0 then [] else dec_buf (u div 10))"
  by pat_completeness auto
termination
proof (relation "measure unat")
  fix u :: u32
  assume "u div 10 \<noteq> 0"
  then have "unat u div 10 \<noteq> 0" by (simp add: unat_div flip: unat_eq_zero)
  then show "(u div 10, u) \<in> measure unat" by (simp add: unat_div)
qed simp

definition hex_digit :: "u32 \<Rightarrow> u8" where
  "hex_digit d = (if d < 10 then 0x30 + ucast d else 0x61 + ucast (d - 10))"

function hex_buf :: "u32 \<Rightarrow> u8 list" where
  "hex_buf u = hex_digit (u AND 0xf) # (if drop_bit 4 u = 0 then [] else hex_buf (drop_bit 4 u))"
  by pat_completeness auto
termination
proof (relation "measure unat")
  fix u :: u32
  assume "drop_bit 4 u \<noteq> 0"
  then have "unat (drop_bit 4 u) \<noteq> 0" by (simp only: unat_eq_zero not_False_eq_True)
  moreover have "unat (drop_bit 4 u) = unat u div 16" by (simp add: drop_bit_eq_div unat_div)
  ultimately show "(drop_bit 4 u, u) \<in> measure unat" by simp
qed simp

declare dec_buf.simps [simp del] hex_buf.simps [simp del]

text \<open>The \<open>%s\<close> loop and the \<open>dumpbuf\<close> loop.\<close>

partial_function (option) put_str ::
    "u32 \<Rightarrow> u32 \<Rightarrow> 'a monitor_scheme \<Rightarrow> (u32 \<times> 'a monitor_scheme) option" where
  "put_str p ret s =
     (if load8 (mem s) p = 0 then Some (ret, s)
      else put_str (p + 1) (ret + 1) (mon_putchar (load8 (mem s) p) s))"

fun dumpbuf :: "u8 list \<Rightarrow> u32 \<Rightarrow> 'a monitor_scheme \<Rightarrow> u32 \<times> 'a monitor_scheme" where
  "dumpbuf [] ret s = (ret, s)"
| "dumpbuf (c # cs) ret s = dumpbuf cs (ret + 1) (mon_putchar c s)"

fun vprintf_loop :: "u8 list \<Rightarrow> u32 list \<Rightarrow> u32 \<Rightarrow> 'a monitor_scheme \<Rightarrow>
    (u32 \<times> 'a monitor_scheme) res" where
  "vprintf_loop [] ap ret s = Inr (ret, s)"
| "vprintf_loop (c # fmt) ap ret s =
    (if c = 0 then Inr (ret, s)
     else if c = 0x25
     then (case fmt of
        [] \<Rightarrow> Inl (Fault ''format ends after %'')
      | d # fmt' \<Rightarrow>
         if d = 0x63
         then (case ap of [] \<Rightarrow> Inl (Fault ''va_arg'')
               | a # ap' \<Rightarrow> vprintf_loop fmt' ap' (ret + 1) (mon_putchar (ucast a) s))
         else if d = 0x73
         then (case ap of [] \<Rightarrow> Inl (Fault ''va_arg'')
               | a # ap' \<Rightarrow> bindr (of_option Diverge (put_str a ret s))
                   (\<lambda>(ret', s'). vprintf_loop fmt' ap' ret' s'))
         else if d = 0x64
         then (case ap of [] \<Rightarrow> Inl (Fault ''va_arg'')
               | i # ap' \<Rightarrow>
                   let u = (if sint i < 0 then - i else i);
                       buf = dec_buf u @ (if sint i < 0 then [0x2D] else []);
                       (ret', s') = dumpbuf (rev buf) ret s
                   in vprintf_loop fmt' ap' ret' s')
         else if d = 0x75
         then (case ap of [] \<Rightarrow> Inl (Fault ''va_arg'')
               | u # ap' \<Rightarrow>
                   let (ret', s') = dumpbuf (rev (dec_buf u)) ret s
                   in vprintf_loop fmt' ap' ret' s')
         else if d = 0x78
         then (case ap of [] \<Rightarrow> Inl (Fault ''va_arg'')
               | u # ap' \<Rightarrow>
                   let (ret', s') = dumpbuf (rev (hex_buf u)) ret s
                   in vprintf_loop fmt' ap' ret' s')
         else if d = 0 then Inl (Fault ''format ends after %'')
         else vprintf_loop fmt' ap (ret + 1) (mon_putchar d s))
     else vprintf_loop fmt ap (ret + 1) (mon_putchar c s))"

definition vprintf :: "u8 list \<Rightarrow> u32 list \<Rightarrow> 'a monitor_scheme \<Rightarrow> (u32 \<times> 'a monitor_scheme) res" where
  "vprintf fmt ap s = vprintf_loop fmt ap 0 s"

text \<open>\<open>printf\<close> starts the argument list after the format and returns what \<open>vprintf\<close> does.\<close>

definition printf :: "u8 list \<Rightarrow> u32 list \<Rightarrow> 'a monitor_scheme \<Rightarrow> (u32 \<times> 'a monitor_scheme) res" where
  "printf fmt args s = vprintf fmt args s"

subsection \<open>Number conversion\<close>

definition dec_char :: "nat \<Rightarrow> u8" where "dec_char d = 0x30 + of_nat d"

definition hex_char :: "nat \<Rightarrow> u8" where
  "hex_char d = (if d < 10 then 0x30 + of_nat d else 0x61 + of_nat (d - 10))"

lemma ucast_of_nat_u8: "(ucast (u :: u32) :: u8) = of_nat (unat u)"
  by (simp add: word_unat_eq_iff unsigned_ucast_eq unat_of_nat)

lemma dec_buf_digits: "rev (dec_buf u) = map dec_char (digits_of 10 (unat u))"
proof (induction u rule: dec_buf.induct)
  case (1 u)
  have m: "(0x30 + ucast (u mod 10) :: u8) = dec_char (unat u mod 10)"
    by (simp add: dec_char_def ucast_of_nat_u8 unat_mod)
  show ?case
  proof (cases "u div 10 = 0")
    case True
    then have "unat u div 10 = 0" using unat_div [of u 10] by simp
    with True m show ?thesis by (simp add: dec_buf.simps [of u] digits_of.simps [of 10])
  next
    case False
    then have "\<not> unat u < 10" by (simp add: unat_div flip: unat_eq_zero)
    with False m 1 show ?thesis
      by (simp add: dec_buf.simps [of u] digits_of.simps [of 10 "unat u"] unat_div)
  qed
qed

lemma unat_nibble: "unat (u AND 0xf :: u32) = unat u mod 16"
proof -
  have "u AND 0xf = take_bit 4 u" by (simp add: take_bit_eq_mask mask_eq_exp_minus_1)
  then show ?thesis by (simp only: unsigned_take_bit_eq) (simp add: take_bit_eq_mod)
qed

lemma unat_shift4: "unat (drop_bit 4 u :: u32) = unat u div 16"
  by (simp add: drop_bit_eq_div unat_div)

lemma hex_digit_char: "hex_digit u = hex_char (unat u)"
proof (cases "u < 10")
  case True
  then show ?thesis by (simp add: hex_digit_def hex_char_def u32_less_iff)
next
  case False
  then have ge: "10 \<le> unat u" by (simp add: u32_less_iff)
  then have "unat u - 10 = unat (u - 10)" by (subst unat_sub_no_wrap) auto
  then have "hex_char (unat u) = 0x61 + of_nat (unat (u - 10))"
    using ge by (simp only: hex_char_def) simp
  then show ?thesis using False by (simp only: hex_digit_def) simp
qed

lemma hex_buf_digits: "rev (hex_buf u) = map hex_char (digits_of 16 (unat u))"
proof (induction u rule: hex_buf.induct)
  case (1 u)
  have m: "hex_digit (u AND 0xf) = hex_char (unat u mod 16)"
    using hex_digit_char [of "u AND 0xf"] by (simp add: unat_nibble)
  have z: "drop_bit 4 u = 0 \<longleftrightarrow> unat u div 16 = 0"
    by (metis unat_eq_zero unat_shift4)
  show ?case
  proof (cases "drop_bit 4 u = 0")
    case True
    moreover have "unat u < 16" using True z by simp
    ultimately show ?thesis using m by (simp add: hex_buf.simps [of u] digits_of.simps [of 16])
  next
    case False
    moreover have "\<not> unat u < 16" using False z by simp
    ultimately show ?thesis using m 1
      by (simp add: hex_buf.simps [of u] digits_of.simps [of 16 "unat u"] unat_shift4)
  qed
qed

lemma dec_buf_length: "length (dec_buf u) = length (digits_of 10 (unat u))"
  using arg_cong [OF dec_buf_digits [of u], of length] by simp

lemma hex_buf_length: "length (hex_buf u) = length (digits_of 16 (unat u))"
  using arg_cong [OF hex_buf_digits [of u], of length] by simp

text \<open>The local \<open>char buf[11]\<close> is large enough for every conversion.\<close>

lemma length_dec_buf: "length (dec_buf u) \<le> 10"
  unfolding dec_buf_length using less_trans [OF unat_u32_less [of u], of "10 ^ 10"]
  by (intro length_digits) simp_all

lemma length_hex_buf: "length (hex_buf u) \<le> 8"
  unfolding hex_buf_length using unat_u32_less [of u] by (intro length_digits) simp_all

subsection \<open>What a format denotes\<close>

definition show_nat :: "nat \<Rightarrow> u8 list" where
  "show_nat n = map dec_char (digits_of 10 n)"

definition show_int :: "int \<Rightarrow> u8 list" where
  "show_int i = (if i < 0 then 0x2D # show_nat (nat (- i)) else show_nat (nat i))"

definition show_hex :: "nat \<Rightarrow> u8 list" where
  "show_hex n = map hex_char (digits_of 16 n)"

text \<open>A string argument: terminated, and not stored in the frame buffer the output goes to.\<close>

definition str_arg :: "memory \<Rightarrow> u32 \<Rightarrow> u8 list \<Rightarrow> bool" where
  "str_arg m a xs \<longleftrightarrow> cstr m a xs \<and> (\<forall>i \<le> length xs. \<not> in_vga (a + of_nat i))"

inductive formats :: "memory \<Rightarrow> u8 list \<Rightarrow> u32 list \<Rightarrow> u8 list \<Rightarrow> bool" where
  fmt_end: "formats m [] ap []"
| fmt_lit: "c \<noteq> 0 \<Longrightarrow> c \<noteq> 0x25 \<Longrightarrow> formats m fmt ap out \<Longrightarrow> formats m (c # fmt) ap (c # out)"
| fmt_c: "formats m fmt ap out \<Longrightarrow> formats m (0x25 # 0x63 # fmt) (a # ap) (ucast a # out)"
| fmt_s: "str_arg m a xs \<Longrightarrow> formats m fmt ap out \<Longrightarrow>
    formats m (0x25 # 0x73 # fmt) (a # ap) (xs @ out)"
| fmt_d: "formats m fmt ap out \<Longrightarrow>
    formats m (0x25 # 0x64 # fmt) (a # ap) (show_int (sint a) @ out)"
| fmt_u: "formats m fmt ap out \<Longrightarrow>
    formats m (0x25 # 0x75 # fmt) (a # ap) (show_nat (unat a) @ out)"
| fmt_x: "formats m fmt ap out \<Longrightarrow>
    formats m (0x25 # 0x78 # fmt) (a # ap) (show_hex (unat a) @ out)"
| fmt_other: "d \<notin> {0, 0x63, 0x73, 0x64, 0x75, 0x78} \<Longrightarrow> formats m fmt ap out \<Longrightarrow>
    formats m (0x25 # d # fmt) ap (d # out)"

lemma cursor_ok_fold: "cursor_ok s \<Longrightarrow> cursor_ok (fold mon_putchar cs s)"
  by (induction cs arbitrary: s) (simp_all add: cursor_ok_putchar)

lemma fold_putchar_vga:
  "cursor_ok s \<Longrightarrow> \<not> in_vga x \<Longrightarrow> mem (fold mon_putchar cs s) x = mem s x"
  by (induction cs arbitrary: s) (simp_all add: cursor_ok_putchar mon_putchar_vga)

lemma dumpbuf_eq: "dumpbuf cs ret s = (ret + of_nat (length cs), fold mon_putchar cs s)"
  by (induction cs arbitrary: ret s) (simp_all add: add.commute add.left_commute)

lemma cstr_cong:
  "(\<And>i. i \<le> length xs \<Longrightarrow> m (a + of_nat i) = m' (a + of_nat i)) \<Longrightarrow> cstr m a xs = cstr m' a xs"
proof (induction xs arbitrary: a)
  case Nil
  from Nil [of 0] show ?case by (simp add: load8_def)
next
  case (Cons x xs)
  have "cstr m (a + 1) xs = cstr m' (a + 1) xs"
  proof (rule Cons.IH)
    fix i assume "i \<le> length xs"
    with Cons.prems [of "Suc i"] show "m (a + 1 + of_nat i) = m' (a + 1 + of_nat i)"
      by (simp add: add.assoc)
  qed
  with Cons.prems [of 0] show ?case by (simp add: load8_def)
qed

lemma str_arg_putchar:
  "cursor_ok s \<Longrightarrow> str_arg (mem s) a xs \<Longrightarrow> str_arg (mem (fold mon_putchar cs s)) a xs"
  using cstr_cong [of xs "mem s" a "mem (fold mon_putchar cs s)"]
  by (auto simp: str_arg_def fold_putchar_vga)

lemma put_str_eq:
  "cursor_ok s \<Longrightarrow> str_arg (mem s) a xs \<Longrightarrow>
   put_str a ret s = Some (ret + of_nat (length xs), fold mon_putchar xs s)"
proof (induction xs arbitrary: a ret s)
  case Nil
  then show ?case by (simp add: put_str.simps str_arg_def)
next
  case (Cons x xs)
  have "str_arg (mem s) (a + 1) xs"
    unfolding str_arg_def
  proof (intro conjI allI impI)
    show "cstr (mem s) (a + 1) xs" using Cons.prems by (simp add: str_arg_def)
    fix i assume "i \<le> length xs"
    with Cons.prems(2) have "\<not> in_vga (a + of_nat (Suc i))" unfolding str_arg_def by (metis Suc_le_mono length_Cons)
    then show "\<not> in_vga (a + 1 + of_nat i)" by (simp add: add.assoc)
  qed
  then have "str_arg (mem (mon_putchar x s)) (a + 1) xs"
    using str_arg_putchar [of s "a + 1" xs "[x]"] Cons.prems by simp
  then have "put_str (a + 1) (ret + 1) (mon_putchar x s) =
      Some (ret + 1 + of_nat (length xs), fold mon_putchar xs (mon_putchar x s))"
    using Cons by (simp add: cursor_ok_putchar)
  with Cons.prems show ?case
    by (simp add: put_str.simps [of a] str_arg_def add.commute add.left_commute)
qed

lemma dec_buf_int:
  "rev (dec_buf (if sint i < 0 then - i else i) @ (if sint i < 0 then [0x2D] else [])) = show_int (sint i)"
proof (cases "sint i < 0")
  case True
  then have ge: "2147483648 \<le> unat i" by (simp only: sint_neg_iff)
  then have "sint i = int (unat i) - 4294967296" by (simp only: sint_u32) simp
  moreover have "unat (- i) = 4294967296 - unat i" using unat_sub_u32 [of 0 i] ge by simp
  ultimately have "unat (- i) = nat (- sint i)" by linarith
  with True show ?thesis by (simp add: dec_buf_digits show_int_def show_nat_def)
next
  case False
  then have "unat i < 2147483648" by (simp only: sint_neg_iff not_le)
  then have "sint i = int (unat i)" by (simp only: sint_u32 if_True)
  then have "unat i = nat (sint i)" by linarith
  with False show ?thesis by (simp add: dec_buf_digits show_int_def show_nat_def)
qed

lemma str_arg_cong:
  "(\<And>x. \<not> in_vga x \<Longrightarrow> m' x = m x) \<Longrightarrow> str_arg m a xs \<Longrightarrow> str_arg m' a xs"
  using cstr_cong [of xs m a m'] by (auto simp: str_arg_def)

lemma vprintf_loop_formats:
  "formats m fmt ap out \<Longrightarrow> (\<And>x. \<not> in_vga x \<Longrightarrow> mem s x = m x) \<Longrightarrow> cursor_ok s \<Longrightarrow>
   vprintf_loop fmt ap ret s = Inr (ret + of_nat (length out), fold mon_putchar out s)"
proof (induction arbitrary: ret s rule: formats.induct)
  case (fmt_s m a xs fmt ap out)
  have "str_arg (mem s) a xs" using str_arg_cong [OF fmt_s.prems(1) fmt_s.hyps(1)] .
  with fmt_s show ?case
    by (simp add: put_str_eq cursor_ok_fold fold_putchar_vga add.assoc)
next
  case (fmt_d m fmt ap out a)
  then show ?case
    by (simp only: vprintf_loop.simps dec_buf_int dumpbuf_eq Let_def)
      (simp add: cursor_ok_fold fold_putchar_vga add.assoc)
qed (simp_all add: cursor_ok_putchar mon_putchar_vga cursor_ok_fold fold_putchar_vga dumpbuf_eq
    dec_buf_digits hex_buf_digits show_nat_def show_hex_def add.assoc dec_buf_length hex_buf_length)

lemma terminal_of_fold:
  "cursor_ok s \<Longrightarrow> terminal_of (fold mon_putchar cs s) = fold tputc cs (terminal_of s)"
  by (induction cs arbitrary: s) (simp_all add: cursor_ok_putchar mon_putchar_refines)

lemma printf_formats:
  "formats (mem s) fmt ap out \<Longrightarrow> cursor_ok s \<Longrightarrow>
   printf fmt ap s = Inr (of_nat (length out), fold mon_putchar out s)"
  using vprintf_loop_formats [of "mem s" fmt ap out s 0] by (simp add: printf_def vprintf_def)

text \<open>
  Property C8.  For every format string whose conversions have their arguments (\<open>%s\<close> arguments being
  terminated strings outside the frame buffer), \<open>printf\<close> puts exactly the characters the format
  denotes on the terminal - signed decimal, unsigned decimal and hexadecimal numerals of the
  argument words included -, returns their number, and changes no byte outside the frame buffer.
\<close>

theorem printf_prints_format:
  assumes "formats (mem s) fmt ap out" "cursor_ok s"
  shows "\<exists>s'. printf fmt ap s = Inr (of_nat (length out), s') \<and>
    terminal_of s' = fold tputc out (terminal_of s) \<and> cursor_ok s' \<and>
    (\<forall>x. \<not> in_vga x \<longrightarrow> mem s' x = mem s x)"
  using printf_formats [OF assms] terminal_of_fold [OF assms(2)] cursor_ok_fold [OF assms(2)]
    fold_putchar_vga [OF assms(2)] by auto

theorem printf_prints_format_witness:
  "\<exists>s'. printf [0x6E, 0x3D, 0x25, 0x64] [- 42] \<lparr>mem = (\<lambda>_. 0), ports = [], cursor_x = 0, cursor_y = 0\<rparr>
       = Inr (5, s') \<and>
     terminal_of s' = fold tputc [0x6E, 0x3D, 0x2D, 0x34, 0x32]
       (terminal_of \<lparr>mem = (\<lambda>_. 0), ports = [], cursor_x = 0, cursor_y = 0\<rparr>)"
proof -
  let ?s = "\<lparr>mem = (\<lambda>_. 0), ports = [], cursor_x = 0, cursor_y = 0\<rparr>"
  have "show_int (sint (- 42 :: u32)) = [0x2D, 0x34, 0x32]"
    by (simp add: show_int_def show_nat_def dec_char_def digits_of.simps)
  moreover have "formats (mem ?s) [0x6E, 0x3D, 0x25, 0x64] [- 42]
      (0x6E # 0x3D # (show_int (sint (- 42 :: u32)) @ []))"
    by (intro formats.intros) simp_all
  ultimately show ?thesis
    using printf_prints_format [of ?s] by (fastforce simp: cursor_ok_def mon_consts)
qed

end
