(* ===== verification/Isr.thy ===== *)
theory Isr
  imports Printf
begin

unbundle bit_operations_syntax

section \<open>Interrupt dispatch, the timer and the page-fault handler\<close>

text \<open>
  \<open>isr.c\<close> keeps a table of 256 handlers, called by the assembly stubs with the saved
  registers.  Function pointers are modelled by the names of the two handlers the kernel
  registers: \<open>timer_callback\<close> (\<open>timer.c\<close>) and \<open>page_fault_handler\<close> (\<open>paging.c\<close>);
  a null entry is \<open>None\<close>.  \<open>_panic\<close> (\<open>common.c\<close>) writes its banner and message and then
  never returns.
\<close>

definition lit :: "string \<Rightarrow> u8 list" where
  "lit s = map of_char s"

definition print_lit :: "string \<Rightarrow> 'a monitor_scheme \<Rightarrow> 'a monitor_scheme res" where
  "print_lit str s = bindr (printf (lit str) [] s) (\<lambda>(_, s). Inr s)"

text \<open>The screen with which \<open>_panic\<close> enters its endless loop.\<close>

definition panic_screen :: "u8 list \<Rightarrow> u32 list \<Rightarrow> 'a monitor_scheme \<Rightarrow> 'a monitor_scheme res" where
  "panic_screen fmt ap s =
     bindr (printf (0x0A # lit ''***** Kernel panic! *****'' @ [0x0A]) [] s) (\<lambda>(_, s).
     bindr (vprintf fmt ap s) (\<lambda>(_, s).
     bindr (printf (0x0A # lit ''*************************'' @ [0x0A]) [] s) (\<lambda>(_, s).
     Inr s)))"

record cpu_regs =
  r_ds :: u32
  r_edi :: u32
  r_esi :: u32
  r_ebp :: u32
  r_esp :: u32
  r_ebx :: u32
  r_edx :: u32
  r_ecx :: u32
  r_eax :: u32
  int_no :: u32
  err_code :: u32
  r_eip :: u32
  r_cs :: u32
  r_eflags :: u32
  r_useresp :: u32
  r_ss :: u32

datatype isrhdl_t = Timer_callback | Page_fault_handler

definition IRQ0 :: u32 where "IRQ0 = 32"

record isr_state = monitor +
  interrupt_handlers :: "isrhdl_t option list"   \<comment> \<open>256 entries\<close>
  tick :: u32                                    \<comment> \<open>static in \<open>timer_callback\<close>\<close>
  cr2 :: u32                                     \<comment> \<open>the faulting address\<close>

definition register_interrupt_handler ::
    "u32 \<Rightarrow> isrhdl_t option \<Rightarrow> 'a isr_state_scheme \<Rightarrow> 'a isr_state_scheme res" where
  "register_interrupt_handler n handler s =
     (if unat n \<ge> 256 then Inl (Panic ''Bad interrupt handler index.'')
      else Inr (s\<lparr>interrupt_handlers := (interrupt_handlers s)[unat n := handler]\<rparr>))"

definition timer_callback :: "cpu_regs \<Rightarrow> 'a isr_state_scheme \<Rightarrow> 'a isr_state_scheme res" where
  "timer_callback regs s =
     (let s = s\<lparr>tick := tick s + 1\<rparr> in
      bindr (printf (lit ''Tick: %d'' @ [0x0A]) [tick s] s) (\<lambda>(_, s). Inr s))"

text \<open>
  \<open>present\<close> is set when bit 0 of the error code is clear; the other flags are the bits
  themselves.  The last call is \<open>PANIC\<close>, so the handler has no normal result.
\<close>

definition print_if :: "bool \<Rightarrow> string \<Rightarrow> 'a monitor_scheme \<Rightarrow> 'a monitor_scheme res" where
  "print_if b str s = (if b then print_lit str s else Inr s)"

definition page_fault_screen :: "cpu_regs \<Rightarrow> 'a isr_state_scheme \<Rightarrow> 'a isr_state_scheme res" where
  "page_fault_screen regs s =
     (let faulting_address = cr2 s;
          present = (err_code regs AND 0x1 = 0);
          rw = (err_code regs AND 0x2 \<noteq> 0);
          us = (err_code regs AND 0x4 \<noteq> 0);
          reserved = (err_code regs AND 0x8 \<noteq> 0) in
      bindr (print_lit ''Page fault ('' s) (\<lambda>s.
      bindr (print_if present ''present '' s) (\<lambda>s.
      bindr (print_if rw ''read-only '' s) (\<lambda>s.
      bindr (print_if us ''user-mode '' s) (\<lambda>s.
      bindr (print_if reserved ''reserved '' s) (\<lambda>s.
      bindr (printf (lit '') at %x'' @ [0x0A]) [faulting_address] s) (\<lambda>(_, s).
      Inr s)))))))"

definition page_fault_handler :: "cpu_regs \<Rightarrow> 'a isr_state_scheme \<Rightarrow> 'a isr_state_scheme res" where
  "page_fault_handler regs s = bindr (page_fault_screen regs s) (\<lambda>_. Inl (Panic ''Page fault''))"

definition call_handler :: "isrhdl_t \<Rightarrow> cpu_regs \<Rightarrow> 'a isr_state_scheme \<Rightarrow> 'a isr_state_scheme res" where
  "call_handler h regs s =
     (case h of Timer_callback \<Rightarrow> timer_callback regs s
      | Page_fault_handler \<Rightarrow> page_fault_handler regs s)"

text \<open>
  The handlers index the table by \<open>regs.int_no\<close> without a check; the stubs only push
  numbers below 48.  An index outside the table is a fault of the model.
\<close>

definition handler_at :: "u32 \<Rightarrow> 'a isr_state_scheme \<Rightarrow> isrhdl_t option res" where
  "handler_at n s =
     (if unat n < length (interrupt_handlers s) then Inr (interrupt_handlers s ! unat n)
      else Inl (Fault ''interrupt_handlers''))"

definition isr_handler :: "cpu_regs \<Rightarrow> 'a isr_state_scheme \<Rightarrow> 'a isr_state_scheme res" where
  "isr_handler regs s =
     bindr (handler_at (int_no regs) s) (\<lambda>h.
       case h of
         Some handler \<Rightarrow> call_handler handler regs s
       | None \<Rightarrow> bindr (printf (lit ''unhandled interrupt: %d'' @ [0x0A]) [int_no regs] s)
                  (\<lambda>(_, s). Inr s))"

definition irq_handler :: "cpu_regs \<Rightarrow> 'a isr_state_scheme \<Rightarrow> 'a isr_state_scheme res" where
  "irq_handler regs s =
     (let s = (if int_no regs \<ge> 40 then outb 0xA0 0x20 s else s);
          s = outb 0x20 0x20 s in
      bindr (handler_at (int_no regs) s) (\<lambda>h.
        case h of
          Some handler \<Rightarrow> call_handler handler regs s
        | None \<Rightarrow> Inr s))"

text \<open>
  \<open>init_timer\<close>: the division \<open>1193180 / freq\<close> traps for \<open>freq = 0\<close>.
\<close>

definition init_timer :: "u32 \<Rightarrow> 'a isr_state_scheme \<Rightarrow> 'a isr_state_scheme res" where
  "init_timer freq s =
     bindr (register_interrupt_handler IRQ0 (Some Timer_callback) s) (\<lambda>s.
       if freq = 0 then Inl (Fault ''division by zero'')
       else let div' = 1193180 div freq;
                s = outb 0x43 0x36 s;
                lo = ucast (div' AND 0xFF);
                hi = ucast (drop_bit 8 div' AND 0xFF);
                s = outb 0x40 lo s
            in Inr (outb 0x40 hi s))"

subsection \<open>The table after registration\<close>

lemma register_lookup:
  assumes "register_interrupt_handler n h s = Inr s'" "length (interrupt_handlers s) = 256"
  shows "handler_at n s' = Inr h \<and> (\<forall>k. k \<noteq> n \<longrightarrow> handler_at k s' = handler_at k s)"
  using assms
  by (auto simp: register_interrupt_handler_def handler_at_def word_unat_eq_iff split: if_splits)

lemma register_length:
  "register_interrupt_handler n h s = Inr s' \<Longrightarrow>
   length (interrupt_handlers s') = length (interrupt_handlers s)"
  by (auto simp: register_interrupt_handler_def split: if_splits)

subsection \<open>Printing literals\<close>

lemma formats_lit:
  "\<forall>c \<in> set cs. c \<noteq> 0 \<and> c \<noteq> 0x25 \<Longrightarrow> formats m cs ap cs"
  by (induction cs) (auto intro: formats.intros)

lemma formats_append_lit:
  "\<forall>c \<in> set cs. c \<noteq> 0 \<and> c \<noteq> 0x25 \<Longrightarrow> formats m fmt ap out \<Longrightarrow> formats m (cs @ fmt) ap (cs @ out)"
  by (induction cs) (auto intro: formats.intros)

lemma print_lit_eq:
  "\<forall>c \<in> set (lit str). c \<noteq> 0 \<and> c \<noteq> 0x25 \<Longrightarrow> cursor_ok s \<Longrightarrow>
   print_lit str s = Inr (fold mon_putchar (lit str) s)"
  using printf_formats [OF formats_lit, of "lit str" s "[]"] by (simp add: print_lit_def)

text \<open>Fields the monitor does not own are untouched by printing.\<close>

lemma mon_putchar_more [simp]: "monitor.more (mon_putchar c s) = monitor.more s"
  by (simp add: mon_putchar_def move_cursor_def outb_def scroll_def Let_def)

lemma fold_putchar_more [simp]: "monitor.more (fold mon_putchar cs s) = monitor.more s"
  by (induction cs arbitrary: s) simp_all

lemma isr_fields_more:
  assumes "monitor.more s = monitor.more s'"
  shows "tick s = tick s'" "interrupt_handlers s = interrupt_handlers s'" "cr2 s = cr2 s'"
    "isr_state.more s = isr_state.more s'"
  using assms by (cases s, cases s', simp)+

lemmas fold_putchar_isr [simp] = isr_fields_more [OF fold_putchar_more]

subsection \<open>The timer interrupt\<close>

lemma formats_tick:
  "formats m (lit ''Tick: %d'' @ [0x0A]) [t] (lit ''Tick: '' @ show_int (sint t) @ [0x0A])"
proof -
  have "formats m ([0x25, 0x64, 0x0A]) [t] (show_int (sint t) @ [0x0A])"
    by (intro formats.intros) simp_all
  moreover have "\<forall>c \<in> set (lit ''Tick: ''). c \<noteq> 0 \<and> c \<noteq> 0x25" by (simp add: lit_def)
  ultimately have "formats m (lit ''Tick: '' @ [0x25, 0x64, 0x0A]) [t]
      (lit ''Tick: '' @ show_int (sint t) @ [0x0A])"
    by (rule formats_append_lit [rotated])
  then show ?thesis by (simp add: lit_def)
qed

lemma timer_callback_ok:
  assumes "cursor_ok s"
  shows "\<exists>s'. timer_callback regs s = Inr s' \<and> tick s' = tick s + 1 \<and> cursor_ok s' \<and>
    interrupt_handlers s' = interrupt_handlers s \<and>
    terminal_of s' = fold tputc (lit ''Tick: '' @ show_int (sint (tick s + 1)) @ [0x0A]) (terminal_of s) \<and>
    (\<forall>x. \<not> in_vga x \<longrightarrow> mem s' x = mem s x)"
proof -
  let ?s = "s\<lparr>tick := tick s + 1\<rparr>"
  define out where "out = lit ''Tick: '' @ show_int (sint (tick s + 1)) @ [0x0A]"
  let ?s' = "fold mon_putchar out ?s"
  have ok: "cursor_ok ?s" using assms by (simp add: cursor_ok_def)
  have "printf (lit ''Tick: %d'' @ [0x0A]) [tick s + 1] ?s = Inr (of_nat (length out), ?s')"
    unfolding out_def using formats_tick ok by (intro printf_formats) simp_all
  then have "timer_callback regs s = Inr ?s'" by (simp add: timer_callback_def)
  moreover have "terminal_of ?s = terminal_of s" by (simp add: terminal_of_def)
  moreover have "tick ?s' = tick s + 1 \<and> interrupt_handlers ?s' = interrupt_handlers s"
    by (simp only: fold_putchar_isr) simp
  ultimately show ?thesis
    using ok by (auto simp: terminal_of_fold cursor_ok_fold fold_putchar_vga simp flip: out_def)
qed

lemma timer_irq:
  assumes "handler_at IRQ0 s = Inr (Some Timer_callback)" "cursor_ok s" "int_no regs = IRQ0"
  shows "\<exists>s'. irq_handler regs s = Inr s' \<and> tick s' = tick s + 1 \<and> cursor_ok s' \<and>
    handler_at IRQ0 s' = Inr (Some Timer_callback) \<and>
    terminal_of s' = fold tputc (lit ''Tick: '' @ show_int (sint (tick s + 1)) @ [0x0A]) (terminal_of s)"
proof -
  let ?s = "outb 0x20 0x20 s"
  have fields: "cursor_ok ?s" "terminal_of ?s = terminal_of s" "tick ?s = tick s"
      "interrupt_handlers ?s = interrupt_handlers s"
    using assms(2) by (simp_all add: outb_def cursor_ok_def terminal_of_def)
  then have "handler_at IRQ0 ?s = Inr (Some Timer_callback)"
    using assms(1) by (simp add: handler_at_def split: if_splits)
  then have "irq_handler regs s = timer_callback regs ?s"
    using assms(3) by (simp add: irq_handler_def call_handler_def IRQ0_def)
  with timer_callback_ok [OF fields(1), of regs] assms(1) fields show ?thesis
    by (auto simp: handler_at_def split: if_splits)
qed

text \<open>The divisor that reaches the PIT, low byte first.\<close>

lemma unat_and_FF: "unat (x AND 0xFF :: u32) = unat x mod 256"
proof -
  have "x AND 0xFF = take_bit 8 x" by (simp add: take_bit_eq_mask mask_eq_exp_minus_1)
  then show ?thesis by (simp only: unsigned_take_bit_eq) (simp add: take_bit_eq_mod)
qed

lemma unat_ucast_u32_u8: "unat (ucast (x :: u32) :: u8) = unat x mod 256"
  by (simp add: unsigned_ucast_eq take_bit_eq_mod)

lemma unat_drop8: "unat (drop_bit 8 (x :: u32)) = unat x div 256"
  by (simp add: drop_bit_eq_div unat_div)

lemma init_timer_divisor:
  assumes "freq \<noteq> 0" "init_timer freq s = Inr s'"
  shows "\<exists>lo hi. ports s' = ports s @ [(0x43, 0x36), (0x40, lo), (0x40, hi)] \<and>
    unat lo + 256 * unat hi = 1193180 div unat freq mod 65536"
proof -
  let ?d = "1193180 div freq :: u32"
  let ?lo = "ucast (?d AND 0xFF) :: u8" and ?hi = "ucast (drop_bit 8 ?d AND 0xFF) :: u8"
  have "ports s' = ports s @ [(0x43, 0x36), (0x40, ?lo), (0x40, ?hi)]"
    using assms by (auto simp: init_timer_def register_interrupt_handler_def IRQ0_def outb_def Let_def)
  moreover have "unat ?lo + 256 * unat ?hi = 1193180 div unat freq mod 65536"
  proof -
    have d: "unat ?d = 1193180 div unat freq" by (simp add: unat_div)
    have "unat ?lo = unat ?d mod 256" by (simp only: unat_ucast_u32_u8 unat_and_FF) simp
    moreover have "unat ?hi = unat ?d div 256 mod 256"
      by (simp only: unat_ucast_u32_u8 unat_and_FF unat_drop8) simp
    moreover have "n mod 256 + 256 * (n div 256 mod 256) = n mod 65536" for n :: nat
      using mod_mult2_eq [of n 256 256] by simp
    ultimately show ?thesis using d by (simp only:)
  qed
  ultimately show ?thesis by blast
qed

subsection \<open>A run of timer interrupts\<close>

text \<open>\<open>run_irqs n\<close>: \<open>n\<close> timer interrupts in a row.\<close>

fun run_irqs :: "nat \<Rightarrow> cpu_regs \<Rightarrow> 'a isr_state_scheme \<Rightarrow> 'a isr_state_scheme res" where
  "run_irqs 0 regs s = Inr s"
| "run_irqs (Suc n) regs s = bindr (irq_handler regs s) (run_irqs n regs)"

lemma run_irqs_ok:
  assumes "handler_at IRQ0 s = Inr (Some Timer_callback)" "cursor_ok s" "int_no regs = IRQ0"
  shows "\<exists>s'. run_irqs n regs s = Inr s' \<and> tick s' = tick s + of_nat n \<and> cursor_ok s' \<and>
    terminal_of s' = fold tputc (concat (map (\<lambda>k. lit ''Tick: '' @
        show_int (sint (tick s + of_nat (Suc k))) @ [0x0A]) [0..<n])) (terminal_of s)"
  using assms(1,2)
proof (induction n arbitrary: s)
  case 0
  then show ?case by simp
next
  case (Suc n)
  obtain s1 where s1: "irq_handler regs s = Inr s1" "tick s1 = tick s + 1" "cursor_ok s1"
      "handler_at IRQ0 s1 = Inr (Some Timer_callback)"
      "terminal_of s1 = fold tputc (lit ''Tick: '' @ show_int (sint (tick s + 1)) @ [0x0A]) (terminal_of s)"
    using timer_irq [OF Suc.prems assms(3)] by auto
  have "[0..<Suc n] = 0 # map Suc [0..<n]" by (simp add: upt_conv_Cons map_Suc_upt del: upt_Suc)
  then show ?case
    using Suc.IH [OF s1(4,3)] s1 by (auto simp: comp_def add.assoc simp del: upt_Suc)
qed

text \<open>
  Property C12.  Once \<open>init_timer\<close> has installed the callback, any number \<open>n\<close> of IRQ0 interrupts is
  handled without a fault: the tick counter advances by \<open>n\<close> and the terminal shows one line
  \<open>Tick: k\<close> for each of them, in order.
\<close>

theorem timer_ticks:
  assumes "init_timer freq s = Inr s0" "length (interrupt_handlers s) = 256" "cursor_ok s"
    "int_no regs = IRQ0"
  shows "\<exists>s'. run_irqs n regs s0 = Inr s' \<and> tick s' = tick s + of_nat n \<and>
    terminal_of s' = fold tputc (concat (map (\<lambda>k. lit ''Tick: '' @
        show_int (sint (tick s + of_nat (Suc k))) @ [0x0A]) [0..<n])) (terminal_of s)"
proof -
  have "handler_at IRQ0 s0 = Inr (Some Timer_callback)" "cursor_ok s0" "tick s0 = tick s"
      "terminal_of s0 = terminal_of s"
    using assms(1-3)
    by (auto simp: init_timer_def register_interrupt_handler_def IRQ0_def handler_at_def outb_def
        cursor_ok_def terminal_of_def Let_def split: if_splits)
  then show ?thesis using run_irqs_ok [of s0 regs n] assms(4) by auto
qed

theorem timer_ticks_witness:
  "\<exists>s0 s'. init_timer 50 \<lparr>mem = (\<lambda>_. 0), ports = [], cursor_x = 0, cursor_y = 0,
      interrupt_handlers = replicate 256 None, tick = 0, cr2 = 0\<rparr> = Inr s0 \<and>
    run_irqs 3 \<lparr>r_ds = 0, r_edi = 0, r_esi = 0, r_ebp = 0, r_esp = 0, r_ebx = 0, r_edx = 0, r_ecx = 0, r_eax = 0,
      int_no = 32, err_code = 0, r_eip = 0, r_cs = 0, r_eflags = 0, r_useresp = 0, r_ss = 0\<rparr> s0 = Inr s' \<and>
    tick s' = 3"
proof -
  let ?s = "\<lparr>mem = (\<lambda>_. 0), ports = [], cursor_x = 0, cursor_y = 0,
      interrupt_handlers = replicate 256 None, tick = 0, cr2 = 0\<rparr>"
  let ?r = "\<lparr>r_ds = 0, r_edi = 0, r_esi = 0, r_ebp = 0, r_esp = 0, r_ebx = 0, r_edx = 0, r_ecx = 0, r_eax = 0,
      int_no = 32, err_code = 0, r_eip = 0, r_cs = 0, r_eflags = 0, r_useresp = 0, r_ss = 0\<rparr>"
  obtain s0 where s0: "init_timer 50 ?s = Inr s0"
    by (auto simp: init_timer_def register_interrupt_handler_def IRQ0_def Let_def)
  show ?thesis
    using timer_ticks [OF s0, of ?r 3] s0
    by (auto simp: cursor_ok_def mon_consts IRQ0_def)
qed

end
