(* ===== verification/Descriptor_Tables.thy ===== *)
theory Descriptor_Tables
  imports Isr
begin

unbundle bit_operations_syntax

section \<open>The GDT and the IDT (\<open>descriptor_tables.c\<close>)\<close>

text \<open>
  The packed descriptors are records of words.  The addresses of the two tables and of the
  48 assembly stubs are chosen by the linker: they are the parameters \<open>gdt_addr\<close>,
  \<open>idt_addr\<close> and \<open>stub\<close>.  The flush routines load the descriptor registers.

  The lemmas show that a gate stores its base, limit and handler address so that the CPU
  reads back the arguments, that the four segments are flat 4 GiB segments with the intended
  rings, and that after \<open>init_idt\<close> vectors 0 to 47 and no others lead to their stubs.
\<close>

record gdt_entry =
  ge_limit_lo :: u16
  ge_base_lo :: u16
  ge_base_mi :: u8
  ge_access :: u8
  ge_granularity :: u8
  ge_base_hi :: u8

record gdt_ptr =
  gp_limit :: u16
  gp_base :: u32

record idt_entry =
  ie_base_lo :: u16
  ie_sel :: u16
  ie_always0 :: u8
  ie_flags :: u8
  ie_base_hi :: u16

record idt_ptr =
  ip_limit :: u16
  ip_base :: u32

record dt_state = isr_state +
  gdt_entries :: "gdt_entry list"   \<comment> \<open>5 entries\<close>
  gdtp :: gdt_ptr
  idt_entries :: "idt_entry list"   \<comment> \<open>256 entries\<close>
  idtp :: idt_ptr
  gdtr :: "gdt_ptr option"          \<comment> \<open>loaded by \<open>lgdt\<close>\<close>
  idtr :: "idt_ptr option"          \<comment> \<open>loaded by \<open>lidt\<close>\<close>

definition make_gdt_entry :: "u32 \<Rightarrow> u32 \<Rightarrow> u8 \<Rightarrow> u8 \<Rightarrow> gdt_entry" where
  "make_gdt_entry base limit access gran =
     \<lparr>ge_limit_lo = ucast (limit AND 0xFFFF),
      ge_base_lo = ucast (base AND 0xFFFF),
      ge_base_mi = ucast (drop_bit 16 base AND 0xFF),
      ge_access = access,
      ge_granularity = ucast (drop_bit 16 limit AND 0x0F) OR (gran AND 0xF0),
      ge_base_hi = ucast (drop_bit 24 base AND 0xFF)\<rparr>"

definition gdt_set_gate ::
    "u32 \<Rightarrow> u32 \<Rightarrow> u32 \<Rightarrow> u8 \<Rightarrow> u8 \<Rightarrow> 'a dt_state_scheme \<Rightarrow> 'a dt_state_scheme res" where
  "gdt_set_gate n base limit access gran s =
     (if unat n \<ge> 5 then Inl (Panic ''bad gdt_entries index'')
      else Inr (s\<lparr>gdt_entries := (gdt_entries s)[unat n := make_gdt_entry base limit access gran]\<rparr>))"

definition gdt_flush :: "'a dt_state_scheme \<Rightarrow> 'a dt_state_scheme" where
  "gdt_flush s = s\<lparr>gdtr := Some (gdtp s)\<rparr>"

definition init_gdt :: "u32 \<Rightarrow> 'a dt_state_scheme \<Rightarrow> 'a dt_state_scheme res" where
  "init_gdt gdt_addr s =
     (let s = s\<lparr>gdtp := \<lparr>gp_limit = 5 * 8 - 1, gp_base = gdt_addr\<rparr>\<rparr> in
      bindr (gdt_set_gate 0 0 0 0 0 s) (\<lambda>s.
      bindr (gdt_set_gate 1 0 0xFFFFFFFF 0x9A 0xCF s) (\<lambda>s.
      bindr (gdt_set_gate 2 0 0xFFFFFFFF 0x92 0xCF s) (\<lambda>s.
      bindr (gdt_set_gate 3 0 0xFFFFFFFF 0xFA 0xCF s) (\<lambda>s.
      bindr (gdt_set_gate 4 0 0xFFFFFFFF 0xF2 0xCF s) (\<lambda>s.
      Inr (gdt_flush s)))))))"

definition make_idt_entry :: "u32 \<Rightarrow> u16 \<Rightarrow> u8 \<Rightarrow> idt_entry" where
  "make_idt_entry base sel flags =
     \<lparr>ie_base_lo = ucast (base AND 0xFFFF), ie_sel = sel, ie_always0 = 0, ie_flags = flags,
      ie_base_hi = ucast (drop_bit 16 base AND 0xFFFF)\<rparr>"

definition idt_set_gate ::
    "u32 \<Rightarrow> u32 \<Rightarrow> u16 \<Rightarrow> u8 \<Rightarrow> 'a dt_state_scheme \<Rightarrow> 'a dt_state_scheme res" where
  "idt_set_gate n base sel flags s =
     (if unat n \<ge> 256 then Inl (Panic ''Bad idt_entries index'')
      else Inr (s\<lparr>idt_entries := (idt_entries s)[unat n := make_idt_entry base sel flags]\<rparr>))"

definition idt_flush :: "'a dt_state_scheme \<Rightarrow> 'a dt_state_scheme" where
  "idt_flush s = s\<lparr>idtr := Some (idtp s)\<rparr>"

definition null_idt_entry :: idt_entry where
  "null_idt_entry = \<lparr>ie_base_lo = 0, ie_sel = 0, ie_always0 = 0, ie_flags = 0, ie_base_hi = 0\<rparr>"

text \<open>The initialisation words of the two interrupt controllers.\<close>

definition remap_irq :: "'a machine_scheme \<Rightarrow> 'a machine_scheme" where
  "remap_irq s =
     (let s = outb 0x20 0x11 s; s = outb 0xA0 0x11 s;
          s = outb 0x21 0x20 s; s = outb 0xA1 0x28 s;
          s = outb 0x21 0x04 s; s = outb 0xA1 0x02 s;
          s = outb 0x21 0x01 s; s = outb 0xA1 0x01 s;
          s = outb 0x21 0x0 s
      in outb 0xA1 0x0 s)"

text \<open>
  The 48 calls \<open>idt_set_gate(n, isr_n, 0x08, 0x8E)\<close>, in order; \<open>stub n\<close> is the
  address of \<open>isr<n>\<close> for \<open>n < 32\<close> and of \<open>irq<n-32>\<close> above.
\<close>

fun set_gates :: "(nat \<Rightarrow> u32) \<Rightarrow> nat list \<Rightarrow> 'a dt_state_scheme \<Rightarrow> 'a dt_state_scheme res" where
  "set_gates stub [] s = Inr s"
| "set_gates stub (n # ns) s =
     bindr (idt_set_gate (of_nat n) (stub n) 0x08 0x8E s) (\<lambda>s. set_gates stub ns s)"

definition init_idt :: "u32 \<Rightarrow> (nat \<Rightarrow> u32) \<Rightarrow> 'a dt_state_scheme \<Rightarrow> 'a dt_state_scheme res" where
  "init_idt idt_addr stub s =
     (let s = s\<lparr>idtp := \<lparr>ip_limit = 256 * 8 - 1, ip_base = idt_addr\<rparr>,
                idt_entries := replicate 256 null_idt_entry\<rparr>;
          s = remap_irq s in
      bindr (set_gates stub [0..<48] s) (\<lambda>s. Inr (idt_flush s)))"

definition init_descriptor_tables ::
    "u32 \<Rightarrow> u32 \<Rightarrow> (nat \<Rightarrow> u32) \<Rightarrow> 'a dt_state_scheme \<Rightarrow> 'a dt_state_scheme res" where
  "init_descriptor_tables gdt_addr idt_addr stub s =
     bindr (init_gdt gdt_addr s) (\<lambda>s. init_idt idt_addr stub s)"

subsection \<open>What the CPU reads from a descriptor\<close>

text \<open>Base, limit (in bytes, with 4 KiB granularity when bit 7 is set) and privilege level.\<close>

definition seg_base :: "gdt_entry \<Rightarrow> u32" where
  "seg_base e = ucast (ge_base_lo e) OR push_bit 16 (ucast (ge_base_mi e))
     OR push_bit 24 (ucast (ge_base_hi e))"

definition seg_limit20 :: "gdt_entry \<Rightarrow> u32" where
  "seg_limit20 e = ucast (ge_limit_lo e) OR push_bit 16 (ucast (ge_granularity e AND 0x0F))"

definition seg_limit :: "gdt_entry \<Rightarrow> u32" where
  "seg_limit e = (if bit (ge_granularity e) 7 then push_bit 12 (seg_limit20 e) OR 0xFFF else seg_limit20 e)"

definition seg_dpl :: "gdt_entry \<Rightarrow> nat" where
  "seg_dpl e = unat (drop_bit 5 (ge_access e) AND 3)"

definition gate_offset :: "idt_entry \<Rightarrow> u32" where
  "gate_offset e = ucast (ie_base_lo e) OR push_bit 16 (ucast (ie_base_hi e))"

definition gate_present :: "idt_entry \<Rightarrow> bool" where
  "gate_present e \<longleftrightarrow> bit (ie_flags e) 7"

lemma seg_base_make: "seg_base (make_gdt_entry base limit access gran) = base"
proof (rule bit_word_eqI)
  fix n assume "n < LENGTH(32)"
  then consider "n < 16" | "16 \<le> n \<and> n < 24" | "24 \<le> n \<and> n < 32" by force
  then show "bit (seg_base (make_gdt_entry base limit access gran)) n = bit base n"
    by cases (auto simp: seg_base_def make_gdt_entry_def and_mask_take_bit bit_simps)
qed

lemma gate_offset_make: "gate_offset (make_idt_entry base sel flags) = base"
proof (rule bit_word_eqI)
  fix n assume "n < LENGTH(32)"
  then consider "n < 16" | "16 \<le> n \<and> n < 32" by force
  then show "bit (gate_offset (make_idt_entry base sel flags)) n = bit base n"
    by cases (auto simp: gate_offset_def make_idt_entry_def and_mask_take_bit bit_simps)
qed

lemma and_F0: "(x :: u8) AND 0xF0 = x AND NOT (mask 4)"
proof -
  have "(0xF0 :: u8) = NOT (mask 4)" by (simp add: mask_eq_exp_minus_1)
  then show ?thesis by simp
qed

lemma seg_limit20_make: "seg_limit20 (make_gdt_entry base limit access gran) = take_bit 20 limit"
proof (rule bit_word_eqI)
  fix n assume "n < LENGTH(32)"
  then consider "n < 16" | "16 \<le> n \<and> n < 20" | "20 \<le> n \<and> n < 32" by force
  then show "bit (seg_limit20 (make_gdt_entry base limit access gran)) n = bit (take_bit 20 limit) n"
    by cases (auto simp: seg_limit20_def make_gdt_entry_def and_mask_take_bit and_F0 bit_simps)
qed

text \<open>With 4 KiB granularity a limit of \<open>0xFFFFFFFF\<close> spans the whole address space.\<close>

lemma flat_segment:
  assumes "bit gran 7"
  shows "seg_limit (make_gdt_entry 0 0xFFFFFFFF access gran) = 0xFFFFFFFF"
proof -
  have "bit (ge_granularity (make_gdt_entry 0 0xFFFFFFFF access gran)) 7"
    using assms by (simp add: make_gdt_entry_def and_F0 and_mask_take_bit bit_simps)
  then show ?thesis by (simp add: seg_limit_def seg_limit20_make) 
qed

lemma init_gdt_entries:
  assumes "length (gdt_entries s) = 5" "init_gdt gdt_addr s = Inr s'"
  shows "gdt_entries s' =
     [make_gdt_entry 0 0 0 0, make_gdt_entry 0 0xFFFFFFFF 0x9A 0xCF, make_gdt_entry 0 0xFFFFFFFF 0x92 0xCF,
      make_gdt_entry 0 0xFFFFFFFF 0xFA 0xCF, make_gdt_entry 0 0xFFFFFFFF 0xF2 0xCF]"
    and "gdtr s' = Some \<lparr>gp_limit = 39, gp_base = gdt_addr\<rparr>"
proof -
  obtain a b c d e where g: "gdt_entries s = [a, b, c, d, e]"
    using assms(1) by (auto simp: length_Suc_conv numeral_eq_Suc)
  show "gdt_entries s' =
     [make_gdt_entry 0 0 0 0, make_gdt_entry 0 0xFFFFFFFF 0x9A 0xCF, make_gdt_entry 0 0xFFFFFFFF 0x92 0xCF,
      make_gdt_entry 0 0xFFFFFFFF 0xFA 0xCF, make_gdt_entry 0 0xFFFFFFFF 0xF2 0xCF]"
    "gdtr s' = Some \<lparr>gp_limit = 39, gp_base = gdt_addr\<rparr>"
    using assms(2) g by (auto simp: init_gdt_def gdt_set_gate_def gdt_flush_def Let_def)
qed

lemma init_gdt_total: "\<exists>s'. init_gdt gdt_addr s = Inr s'"
  by (simp add: init_gdt_def gdt_set_gate_def Let_def)

lemma set_gates_ok:
  assumes "length (idt_entries s) = 256" "\<forall>n \<in> set ns. n < 256" "distinct ns"
  shows "\<exists>s'. set_gates stub ns s = Inr s' \<and> length (idt_entries s') = 256 \<and>
    idtp s' = idtp s \<and> ports s' = ports s \<and>
    (\<forall>n < 256. idt_entries s' ! n =
       (if n \<in> set ns then make_idt_entry (stub n) 0x08 0x8E else idt_entries s ! n))"
  using assms
proof (induction ns arbitrary: s)
  case Nil
  then show ?case by simp
next
  case (Cons n ns)
  let ?s = "s\<lparr>idt_entries := (idt_entries s)[n := make_idt_entry (stub n) 0x08 0x8E]\<rparr>"
  have n: "unat (of_nat n :: u32) = n" using Cons.prems by (intro unat_of_nat_u32) simp
  have step: "set_gates stub (n # ns) s = set_gates stub ns ?s"
    using Cons.prems n by (simp add: idt_set_gate_def)
  obtain s' where s': "set_gates stub ns ?s = Inr s'" "length (idt_entries s') = 256"
      "idtp s' = idtp s" "ports s' = ports s"
      "\<forall>k < 256. idt_entries s' ! k = (if k \<in> set ns then make_idt_entry (stub k) 0x08 0x8E
         else idt_entries ?s ! k)"
    using Cons.IH [of ?s] Cons.prems by auto
  then show ?case using step Cons.prems by (auto simp: nth_list_update)
qed

lemma init_idt_gates:
  "\<exists>s'. init_idt idt_addr stub s = Inr s' \<and> length (idt_entries s') = 256 \<and>
    idtr s' = Some \<lparr>ip_limit = 2047, ip_base = idt_addr\<rparr> \<and>
    (\<forall>n < 256. idt_entries s' ! n =
       (if n < 48 then make_idt_entry (stub n) 0x08 0x8E else null_idt_entry))"
proof -
  let ?s = "remap_irq (s\<lparr>idtp := \<lparr>ip_limit = 256 * 8 - 1, ip_base = idt_addr\<rparr>,
                idt_entries := replicate 256 null_idt_entry\<rparr>)"
  have e: "idt_entries ?s = replicate 256 null_idt_entry"
    and p: "idtp ?s = \<lparr>ip_limit = 2047, ip_base = idt_addr\<rparr>"
    by (simp_all add: remap_irq_def outb_def Let_def)
  obtain s' where s': "set_gates stub [0..<48] ?s = Inr s'" "length (idt_entries s') = 256"
      "idtp s' = idtp ?s" "\<forall>n < 256. idt_entries s' ! n =
       (if n \<in> set [0..<48] then make_idt_entry (stub n) 0x08 0x8E else idt_entries ?s ! n)"
    using set_gates_ok [of ?s "[0..<48]" stub] e by auto
  have "init_idt idt_addr stub s = bindr (set_gates stub [0..<48] ?s) (\<lambda>s. Inr (idt_flush s))"
    unfolding init_idt_def Let_def ..
  then show ?thesis using s' e p by (simp add: idt_flush_def)
qed

lemma gdt_frame:
  assumes "init_gdt gdt_addr s = Inr s'"
  shows "length (gdt_entries s') = length (gdt_entries s)"
  using assms by (auto simp: init_gdt_def gdt_set_gate_def gdt_flush_def Let_def)

lemma set_gates_frame:
  "set_gates stub ns s = Inr s' \<Longrightarrow> gdt_entries s' = gdt_entries s \<and> gdtr s' = gdtr s"
  by (induction ns arbitrary: s) (auto simp: bindr_eq_Inr idt_set_gate_def split: if_splits)

lemma init_idt_frame:
  "init_idt idt_addr stub s = Inr s' \<Longrightarrow> gdt_entries s' = gdt_entries s \<and> gdtr s' = gdtr s"
  by (auto simp: init_idt_def bindr_eq_Inr idt_flush_def remap_irq_def outb_def Let_def
      dest!: set_gates_frame)

lemma ie_sel_make: "ie_sel (make_idt_entry b sel f) = sel"
  by (simp add: make_idt_entry_def)

lemma ring_of_access:
  "seg_dpl (make_gdt_entry b l 0x9A g) = 0" "seg_dpl (make_gdt_entry b l 0x92 g) = 0"
  "seg_dpl (make_gdt_entry b l 0xFA g) = 3" "seg_dpl (make_gdt_entry b l 0xF2 g) = 3"
  by (simp_all add: seg_dpl_def make_gdt_entry_def)

text \<open>
  Property C13.  Setting up the descriptor tables always succeeds.  Afterwards the CPU's GDT register
  covers five entries: segments 1 to 4 are flat (base 0, limit 4 GiB - 1), the first two for ring 0
  and the last two for ring 3; and vectors 0 to 47, and no others, are present interrupt gates that
  enter the kernel code segment at the address of their own assembly stub.
\<close>

theorem descriptor_tables_ready:
  assumes "length (gdt_entries s) = 5"
  shows "\<exists>s'. init_descriptor_tables gdt_addr idt_addr stub s = Inr s' \<and>
    gdtr s' = Some \<lparr>gp_limit = 39, gp_base = gdt_addr\<rparr> \<and>
    idtr s' = Some \<lparr>ip_limit = 2047, ip_base = idt_addr\<rparr> \<and>
    map (\<lambda>e. (seg_base e, seg_limit e, seg_dpl e)) (tl (gdt_entries s')) =
      [(0, 0xFFFFFFFF, 0), (0, 0xFFFFFFFF, 0), (0, 0xFFFFFFFF, 3), (0, 0xFFFFFFFF, 3)] \<and>
    length (idt_entries s') = 256 \<and>
    (\<forall>n < 256. gate_present (idt_entries s' ! n) \<longleftrightarrow> n < 48) \<and>
    (\<forall>n < 48. gate_offset (idt_entries s' ! n) = stub n \<and> ie_sel (idt_entries s' ! n) = 0x08)"
proof -
  obtain s1 where s1: "init_gdt gdt_addr s = Inr s1" using init_gdt_total by blast
  note g = init_gdt_entries [OF assms s1]
  obtain s' where s': "init_idt idt_addr stub s1 = Inr s'" "length (idt_entries s') = 256"
      "idtr s' = Some \<lparr>ip_limit = 2047, ip_base = idt_addr\<rparr>"
      "\<forall>n < 256. idt_entries s' ! n =
         (if n < 48 then make_idt_entry (stub n) 0x08 0x8E else null_idt_entry)"
    using init_idt_gates [of idt_addr stub s1] by auto
  have "gate_present (make_idt_entry x 0x08 0x8E)" "\<not> gate_present null_idt_entry" for x
    by (simp_all add: gate_present_def make_idt_entry_def null_idt_entry_def bit_numeral_rec)
  moreover have "bit (0xCF :: u8) 7" by simp
  ultimately show ?thesis
    using s1 s' g init_idt_frame [OF s'(1)]
    by (auto simp: init_descriptor_tables_def seg_base_make flat_segment ring_of_access gate_offset_make
        ie_sel_make)
qed

theorem descriptor_tables_ready_witness:
  "\<exists>s'. init_descriptor_tables 0x5000 0x6000 (\<lambda>n. 0x100000 + of_nat n)
      \<lparr>mem = (\<lambda>_. 0), ports = [], cursor_x = 0, cursor_y = 0,
       interrupt_handlers = replicate 256 None, tick = 0, cr2 = 0,
       gdt_entries = replicate 5 (make_gdt_entry 0 0 0 0), gdtp = \<lparr>gp_limit = 0, gp_base = 0\<rparr>,
       idt_entries = replicate 256 null_idt_entry, idtp = \<lparr>ip_limit = 0, ip_base = 0\<rparr>,
       gdtr = None, idtr = None\<rparr> = Inr s' \<and> gate_offset (idt_entries s' ! 14) = 0x10000E"
  using descriptor_tables_ready [of "\<lparr>mem = (\<lambda>_. 0), ports = [], cursor_x = 0, cursor_y = 0,
       interrupt_handlers = replicate 256 None, tick = 0, cr2 = 0,
       gdt_entries = replicate 5 (make_gdt_entry 0 0 0 0), gdtp = \<lparr>gp_limit = 0, gp_base = 0\<rparr>,
       idt_entries = replicate 256 null_idt_entry, idtp = \<lparr>ip_limit = 0, ip_base = 0\<rparr>,
       gdtr = None, idtr = None\<rparr>" "0x5000" "0x6000" "\<lambda>n. 0x100000 + of_nat n"]
  by fastforce

end
