(* ===== verification/Vm.thy ===== *)
theory Vm
  imports Sorted_Array Descriptor_Tables
begin

unbundle bit_operations_syntax

section \<open>Frames, paging, the kernel heap and \<open>kmalloc\<close>: definitions\<close>

text \<open>
  \<open>paging.c\<close>, \<open>heap.c\<close> and \<open>kmalloc.c\<close> call each other: expanding the heap maps pages,
  mapping a page may need a page table, a page table is \<open>kmalloc\<close>ed, and after boot
  \<open>kmalloc\<close> is \<open>alloc\<close> on the kernel heap.  The bodies of the routines therefore take the
  routine they call back as an argument (\<open>km\<close>: \<open>kmalloc0_ap\<close>; \<open>al\<close>: \<open>alloc\<close>), and
  \<open>alloc\<close> ties the knot with a bound on the depth of the recursion; a deeper recursion is
  \<open>Diverge\<close>.  Everything that lives behind a pointer in C (the frame bitset, directories,
  tables, heap headers and footers, the index cells) lives in the byte memory of the state;
  the \<open>struct vm_heap\<close> objects are kept in a store from their addresses to records.
\<close>

subsection \<open>State\<close>

record vm_heap =
  h_index :: sorted_array
  h_addr_start :: u32
  h_addr_end :: u32
  h_addr_max :: u32
  h_su :: u32
  h_ro :: u32

record vm_state = dt_state +
  frames :: u32               \<comment> \<open>address of the bitset (\<open>uint32_t *frames\<close>)\<close>
  nframes :: u32
  kernel_directory :: u32
  current_directory :: u32
  placement_address :: u32
  kernel_heap :: u32          \<comment> \<open>null until the heap is set up\<close>
  vm_heaps :: "u32 \<Rightarrow> vm_heap"
  cr0 :: u32
  cr3 :: u32

subsection \<open>The frame bitset\<close>

definition INDEX_FROM_BIT :: "u32 \<Rightarrow> u32" where "INDEX_FROM_BIT a = a div (8 * 4)"
definition OFFSET_FROM_BIT :: "u32 \<Rightarrow> u32" where "OFFSET_FROM_BIT a = a mod (8 * 4)"

definition set_frame :: "u32 \<Rightarrow> u32 \<Rightarrow> memory \<Rightarrow> memory" where
  "set_frame fr frame_addr m =
     (let frame = frame_addr div 0x1000; idx = INDEX_FROM_BIT frame; off = OFFSET_FROM_BIT frame
      in store32 m (fr + 4 * idx) (load32 m (fr + 4 * idx) OR push_bit (unat off) 1))"

definition clear_frame :: "u32 \<Rightarrow> u32 \<Rightarrow> memory \<Rightarrow> memory" where
  "clear_frame fr frame_addr m =
     (let frame = frame_addr div 0x1000; idx = INDEX_FROM_BIT frame; off = OFFSET_FROM_BIT frame
      in store32 m (fr + 4 * idx) (load32 m (fr + 4 * idx) AND NOT (push_bit (unat off) 1)))"

definition test_frame :: "u32 \<Rightarrow> u32 \<Rightarrow> memory \<Rightarrow> u32" where
  "test_frame fr frame_addr m =
     (let frame = frame_addr div 0x1000; idx = INDEX_FROM_BIT frame; off = OFFSET_FROM_BIT frame
      in load32 m (fr + 4 * idx) AND push_bit (unat off) 1)"

text \<open>The inner loop of \<open>first_frame\<close> from bit \<open>j\<close> with \<open>k\<close> bits left, and the outer loop.\<close>

fun first_bit :: "u32 \<Rightarrow> nat \<Rightarrow> nat \<Rightarrow> nat option" where
  "first_bit w j 0 = None"
| "first_bit w j (Suc k) = (if w AND push_bit j 1 = 0 then Some j else first_bit w (Suc j) k)"

fun first_frame_loop :: "u32 \<Rightarrow> memory \<Rightarrow> nat \<Rightarrow> nat \<Rightarrow> u32" where
  "first_frame_loop fr m i 0 = - 1"
| "first_frame_loop fr m i (Suc k) =
     (if load32 m (fr + 4 * of_nat i) = 0xFFFFFFFF then first_frame_loop fr m (Suc i) k
      else case first_bit (load32 m (fr + 4 * of_nat i)) 0 32 of
             Some j \<Rightarrow> of_nat i * 4 * 8 + of_nat j
           | None \<Rightarrow> first_frame_loop fr m (Suc i) k)"

definition first_frame :: "u32 \<Rightarrow> u32 \<Rightarrow> memory \<Rightarrow> u32" where
  "first_frame fr nfr m = first_frame_loop fr m 0 (unat (INDEX_FROM_BIT nfr))"

subsection \<open>Page table entries\<close>

text \<open>\<open>struct vm_page\<close>: bit fields of one 32-bit word, first field lowest.\<close>

record vm_page =
  p_present :: bool
  p_rw :: bool
  p_user :: bool
  p_accessed :: bool
  p_dirty :: bool
  p_unused :: "7 word"
  p_frame :: "20 word"

definition page_of_word :: "u32 \<Rightarrow> vm_page" where
  "page_of_word w =
     \<lparr>p_present = bit w 0, p_rw = bit w 1, p_user = bit w 2, p_accessed = bit w 3,
      p_dirty = bit w 4, p_unused = ucast (drop_bit 5 w), p_frame = ucast (drop_bit 12 w)\<rparr>"

definition word_of_page :: "vm_page \<Rightarrow> u32" where
  "word_of_page p =
     of_bool (p_present p) OR push_bit 1 (of_bool (p_rw p)) OR push_bit 2 (of_bool (p_user p))
     OR push_bit 3 (of_bool (p_accessed p)) OR push_bit 4 (of_bool (p_dirty p))
     OR push_bit 5 (ucast (p_unused p)) OR push_bit 12 (ucast (p_frame p))"

definition load_page :: "memory \<Rightarrow> u32 \<Rightarrow> vm_page" where
  "load_page m p = page_of_word (load32 m p)"

definition store_page :: "memory \<Rightarrow> u32 \<Rightarrow> vm_page \<Rightarrow> memory" where
  "store_page m p pg = store32 m p (word_of_page pg)"

definition alloc_frame :: "u32 \<Rightarrow> u32 \<Rightarrow> u32 \<Rightarrow> 'a vm_state_scheme \<Rightarrow> 'a vm_state_scheme res" where
  "alloc_frame p is_kernel is_writeable s =
     (if p_frame (load_page (mem s) p) \<noteq> 0 then Inr s
      else let idx = first_frame (frames s) (nframes s) (mem s) in
        if idx = - 1 then Inl (Panic ''No free frame.'')
        else let m = set_frame (frames s) (idx * 0x1000) (mem s);
                 pg = (load_page m p)\<lparr>p_present := True, p_frame := ucast idx,
                        p_rw := (is_writeable \<noteq> 0), p_user := (is_kernel = 0)\<rparr>
             in Inr (s\<lparr>mem := store_page m p pg\<rparr>))"

definition free_frame :: "u32 \<Rightarrow> 'a vm_state_scheme \<Rightarrow> 'a vm_state_scheme" where
  "free_frame p s =
     (if p_frame (load_page (mem s) p) = 0 then s
      else let m = clear_frame (frames s) (ucast (p_frame (load_page (mem s) p))) (mem s)
           in s\<lparr>mem := store_page m p ((load_page m p)\<lparr>p_frame := 0\<rparr>)\<rparr>)"

definition switch_page_directory :: "u32 \<Rightarrow> 'a vm_state_scheme \<Rightarrow> 'a vm_state_scheme" where
  "switch_page_directory dir s =
     s\<lparr>current_directory := dir, cr3 := dir + 4096, cr0 := cr0 s OR 0x80000000\<rparr>"

text \<open>
  \<open>get_page\<close>: \<open>pd_tables\<close> is at offset 0 of the directory, \<open>pd_tblphys\<close> at 4096.
  \<open>km\<close> stands for \<open>kmalloc0_ap\<close>, which returns the address and the physical address.
\<close>

definition get_page_with ::
    "(u32 \<Rightarrow> 'a vm_state_scheme \<Rightarrow> (u32 \<times> u32 \<times> 'a vm_state_scheme) res) \<Rightarrow>
     u32 \<Rightarrow> bool \<Rightarrow> u32 \<Rightarrow> 'a vm_state_scheme \<Rightarrow> (u32 \<times> 'a vm_state_scheme) res" where
  "get_page_with km address create dir s =
     (let address = address div 0x1000; table_idx = address div 1024;
          tbl = load32 (mem s) (dir + 4 * table_idx) in
      if tbl \<noteq> 0 then Inr (tbl + 4 * (address mod 1024), s)
      else if create
      then bindr (km 4096 s) (\<lambda>(t, tmp, s).
             let s = s\<lparr>mem := store32 (mem s) (dir + 4 * table_idx) t\<rparr>;
                 s = s\<lparr>mem := store32 (mem s) (dir + 4096 + 4 * table_idx) (tmp OR 0x7)\<rparr>
             in Inr (load32 (mem s) (dir + 4 * table_idx) + 4 * (address mod 1024), s))
      else Inr (0, s))"

subsection \<open>\<open>kmalloc\<close>\<close>

definition M_ALIGNED :: u32 where "M_ALIGNED = 0x1"
definition M_ZERO :: u32 where "M_ZERO = 0x2"

text \<open>
  \<open>_kmalloc\<close>: the result carries the physical address when one is asked for (\<open>phys\<close> not
  null).  The look-up of the page of a fresh block never creates a table.
\<close>

definition kmalloc_with ::
    "(u32 \<Rightarrow> bool \<Rightarrow> u32 \<Rightarrow> 'a vm_state_scheme \<Rightarrow> (u32 \<times> 'a vm_state_scheme) res) \<Rightarrow>
     u32 \<Rightarrow> bool \<Rightarrow> u32 \<Rightarrow> 'a vm_state_scheme \<Rightarrow> (u32 \<times> u32 option \<times> 'a vm_state_scheme) res" where
  "kmalloc_with al len want_phys flags s =
     bindr
      (if kernel_heap s = 0
       then let s = (if flags AND M_ALIGNED \<noteq> 0 \<and> placement_address s AND 0xFFFFF000 \<noteq> 0
                     then s\<lparr>placement_address := (placement_address s AND 0xFFFFF000) + 0x1000\<rparr>
                     else s);
                phys = (if want_phys then Some (placement_address s) else None);
                s = s\<lparr>placement_address := placement_address s + len\<rparr>
            in Inr (placement_address s - len, phys, s)
       else bindr (al len (flags AND M_ALIGNED \<noteq> 0) (kernel_heap s) s) (\<lambda>(addr, s).
              if want_phys
              then bindr (get_page_with (\<lambda>_ _. Inl Diverge) addr False (kernel_directory s) s)
                     (\<lambda>(page, s).
                       Inr (addr, Some (ucast (p_frame (load_page (mem s) page)) * 0x1000
                                        + (addr AND 0xFFF)), s))
              else Inr (addr, None, s)))
      (\<lambda>(addr, phys, s).
        Inr (addr, phys, if flags AND M_ZERO \<noteq> 0 then s\<lparr>mem := bzero (mem s) addr len\<rparr> else s))"

definition kmalloc0_ap_with ::
    "(u32 \<Rightarrow> bool \<Rightarrow> u32 \<Rightarrow> 'a vm_state_scheme \<Rightarrow> (u32 \<times> 'a vm_state_scheme) res) \<Rightarrow>
     u32 \<Rightarrow> 'a vm_state_scheme \<Rightarrow> (u32 \<times> u32 \<times> 'a vm_state_scheme) res" where
  "kmalloc0_ap_with al len s =
     bindr (kmalloc_with al len True (M_ALIGNED OR M_ZERO) s)
       (\<lambda>(addr, phys, s). Inr (addr, case phys of None \<Rightarrow> 0 | Some x \<Rightarrow> x, s))"

subsection \<open>Heap headers, footers and holes\<close>

definition VM_KERN_HEAP_START :: u32 where "VM_KERN_HEAP_START = 0xC0000000"
definition VM_KERN_HEAP_INITIAL_SIZE :: u32 where "VM_KERN_HEAP_INITIAL_SIZE = 0x100000"
definition VM_HEAP_INDEX_SIZE :: u32 where "VM_HEAP_INDEX_SIZE = 0x20000"
definition VM_HEAP_HDR_MAGIC :: u32 where "VM_HEAP_HDR_MAGIC = 0x123890AB"
definition VM_HEAP_FTR_MAGIC :: u32 where "VM_HEAP_FTR_MAGIC = 0xBA098321"
definition VM_HEAP_MIN_SIZE :: u32 where "VM_HEAP_MIN_SIZE = 0x70000"

text \<open>\<open>struct vm_heap_header\<close> (12 bytes) and \<open>struct vm_heap_footer\<close> (8 bytes) by offset.\<close>

definition hh_magic :: "memory \<Rightarrow> u32 \<Rightarrow> u32" where "hh_magic m p = load32 m p"
definition hh_is_hole :: "memory \<Rightarrow> u32 \<Rightarrow> u32" where "hh_is_hole m p = load32 m (p + 4)"
definition hh_size :: "memory \<Rightarrow> u32 \<Rightarrow> u32" where "hh_size m p = load32 m (p + 8)"
definition hf_magic :: "memory \<Rightarrow> u32 \<Rightarrow> u32" where "hf_magic m p = load32 m p"
definition hf_header :: "memory \<Rightarrow> u32 \<Rightarrow> u32" where "hf_header m p = load32 m (p + 4)"

definition set_hh_size :: "u32 \<Rightarrow> u32 \<Rightarrow> memory \<Rightarrow> memory" where
  "set_hh_size p v m = store32 m (p + 8) v"

definition set_hh_is_hole :: "u32 \<Rightarrow> u32 \<Rightarrow> memory \<Rightarrow> memory" where
  "set_hh_is_hole p v m = store32 m (p + 4) v"

definition write_header :: "u32 \<Rightarrow> u32 \<Rightarrow> u32 \<Rightarrow> memory \<Rightarrow> memory" where
  "write_header p is_hole sz m =
     store32 (store32 (store32 m p VM_HEAP_HDR_MAGIC) (p + 4) is_hole) (p + 8) sz"

definition write_footer :: "u32 \<Rightarrow> u32 \<Rightarrow> memory \<Rightarrow> memory" where
  "write_footer p header m = store32 (store32 m p VM_HEAP_FTR_MAGIC) (p + 4) header"

definition vm_heap_header_cmp :: cmp_func_t where
  "vm_heap_header_cmp m a b = hh_size m a - hh_size m b"

definition hole_fits :: "u32 \<Rightarrow> bool \<Rightarrow> u32 \<Rightarrow> memory \<Rightarrow> bool" where
  "hole_fits sz page_align hdr m =
     (if page_align
      then let location = hdr;
               offset = (if (location + 12) AND 0xFFFFF000 \<noteq> 0
                         then 0x1000 - (location + 12) mod 0x1000 else 0);
               hole_size = hh_size m hdr - offset
           in sint hole_size \<ge> sint sz
      else hh_size m hdr \<ge> sz)"

function find_hole_loop :: "u32 \<Rightarrow> bool \<Rightarrow> sorted_array \<Rightarrow> memory \<Rightarrow> u32 \<Rightarrow> u32" where
  "find_hole_loop sz page_align idx m i =
     (if i < sa_size idx \<and> \<not> hole_fits sz page_align (load32 m (cell idx i)) m
      then find_hole_loop sz page_align idx m (i + 1) else i)"
  by pat_completeness auto
termination
  by (relation "measure (\<lambda>(sz, al, idx, m, i). unat (sa_size idx - i))")
    (auto simp: u32_step_measure)

declare find_hole_loop.simps [simp del]

definition find_smallest_hole :: "u32 \<Rightarrow> bool \<Rightarrow> vm_heap \<Rightarrow> memory \<Rightarrow> u32" where
  "find_smallest_hole sz page_align h m =
     (let i = find_hole_loop sz page_align (h_index h) m 0
      in if i = sa_size (h_index h) then - 1 else i)"

subsection \<open>Expanding and contracting\<close>

text \<open>
  The mapping loop of \<open>expand\<close>.  Its counter runs through page offsets modulo \<open>2^32\<close>, of
  which there are \<open>2^20\<close>, so \<open>2^20\<close> iterations without leaving the loop mean it never ends.
\<close>

fun expand_loop ::
    "(u32 \<Rightarrow> 'a vm_state_scheme \<Rightarrow> (u32 \<times> u32 \<times> 'a vm_state_scheme) res) \<Rightarrow>
     nat \<Rightarrow> u32 \<Rightarrow> u32 \<Rightarrow> u32 \<Rightarrow> 'a vm_state_scheme \<Rightarrow> 'a vm_state_scheme res" where
  "expand_loop km n new_size heap i s =
     (if \<not> i < new_size then Inr s
      else if n = 0 then Inl Diverge
      else bindr (get_page_with km (h_addr_start (vm_heaps s heap) + i) True (kernel_directory s) s)
             (\<lambda>(p, s).
           bindr (alloc_frame p (h_su (vm_heaps s heap)) (h_ro (vm_heaps s heap)) s) (\<lambda>s.
           expand_loop km (n - 1) new_size heap (i + 0x1000) s)))"

declare expand_loop.simps [simp del]

definition upd_heap :: "u32 \<Rightarrow> (vm_heap \<Rightarrow> vm_heap) \<Rightarrow> 'a vm_state_scheme \<Rightarrow> 'a vm_state_scheme" where
  "upd_heap heap f s = s\<lparr>vm_heaps := (vm_heaps s)(heap := f (vm_heaps s heap))\<rparr>"

definition expand_with ::
    "(u32 \<Rightarrow> 'a vm_state_scheme \<Rightarrow> (u32 \<times> u32 \<times> 'a vm_state_scheme) res) \<Rightarrow>
     u32 \<Rightarrow> u32 \<Rightarrow> 'a vm_state_scheme \<Rightarrow> 'a vm_state_scheme res" where
  "expand_with km new_size heap s =
     (let h = vm_heaps s heap in
      kassert ''expand to a greater size'' (new_size > h_addr_end h - h_addr_start h)
      (let new_size = (if new_size AND 0xFFFFF000 \<noteq> 0
                       then (new_size AND 0xFFFFF000) + 0x1000 else new_size) in
       kassert ''don't overflow the heap'' (h_addr_start h + new_size \<le> h_addr_max h)
       (let old_size = h_addr_end h - h_addr_start h in
        bindr (expand_loop km 0x100000 new_size heap old_size s) (\<lambda>s.
        Inr (upd_heap heap (\<lambda>h. h\<lparr>h_addr_end := h_addr_start h + new_size\<rparr>) s)))))"

text \<open>\<open>contract\<close>; its loop counts down from the last page.\<close>

fun contract_loop :: "nat \<Rightarrow> u32 \<Rightarrow> u32 \<Rightarrow> u32 \<Rightarrow> 'a vm_state_scheme \<Rightarrow> 'a vm_state_scheme res" where
  "contract_loop n new_size heap i s =
     (if \<not> new_size < i then Inr s
      else if n = 0 then Inl Diverge
      else bindr (get_page_with (\<lambda>_ _. Inl Diverge) (h_addr_start (vm_heaps s heap) + i) False
                    (kernel_directory s) s) (\<lambda>(p, s).
           contract_loop (n - 1) new_size heap (i - 0x1000) (free_frame p s)))"

declare contract_loop.simps [simp del]

definition contract_size :: "u32 \<Rightarrow> u32" where
  "contract_size new_size =
     (let new_size = (if new_size AND 0x1000 \<noteq> 0 then (new_size AND 0x1000) + 0x1000 else new_size)
      in if new_size < VM_HEAP_MIN_SIZE then VM_HEAP_MIN_SIZE else new_size)"

definition contract :: "u32 \<Rightarrow> u32 \<Rightarrow> 'a vm_state_scheme \<Rightarrow> (u32 \<times> 'a vm_state_scheme) res" where
  "contract new_size heap s =
     (let h = vm_heaps s heap in
      kassert ''expand contract a smaller size'' (new_size < h_addr_end h - h_addr_start h)
      (let new_size = contract_size new_size;
           old_size = h_addr_end h - h_addr_start h;
           i = old_size - 0x1000 in
       bindr (contract_loop 0x100000 new_size heap i s) (\<lambda>s.
       Inr (new_size, upd_heap heap (\<lambda>h. h\<lparr>h_addr_end := h_addr_start h + new_size\<rparr>) s))))"

subsection \<open>\<open>alloc\<close>\<close>

text \<open>
  The part of \<open>alloc\<close> after a hole was found (from \<open>orig_hole_header\<close> on): split the hole,
  put a free hole in front of a page-aligned block, write the block, return the rest of the
  hole to the index.  It works on the heap structure and the memory only.
\<close>

definition alloc_front ::
    "bool \<Rightarrow> u32 \<Rightarrow> u32 \<Rightarrow> u32 \<Rightarrow> vm_heap \<Rightarrow> memory \<Rightarrow> (u32 \<times> u32 \<times> vm_heap \<times> memory) res" where
  "alloc_front page_align i orig_hole_pos orig_hole_size h m =
     (if page_align \<and> orig_hole_pos AND 0xFFFFF000 \<noteq> 0
      then let new_location = orig_hole_pos + 0x1000 - (orig_hole_pos AND 0xFFF) - 12;
               m = write_header orig_hole_pos 1 (0x1000 - (orig_hole_pos AND 0xFFF) - 12) m;
               m = write_footer (new_location - 8) orig_hole_pos m
           in Inr (new_location, orig_hole_size - hh_size m orig_hole_pos, h, m)
      else bindr (remove_sorted_array (h_index h) i m) (\<lambda>(a, m).
             Inr (orig_hole_pos, orig_hole_size, h\<lparr>h_index := a\<rparr>, m)))"

definition alloc_rest ::
    "u32 \<Rightarrow> u32 \<Rightarrow> u32 \<Rightarrow> u32 \<Rightarrow> vm_heap \<Rightarrow> memory \<Rightarrow> (vm_heap \<times> memory) res" where
  "alloc_rest sz new_size orig_hole_pos orig_hole_size h m =
     (if orig_hole_size - new_size > 0
      then let hole_header = orig_hole_pos + 12 + sz + 8;
               m = write_header hole_header 1 (orig_hole_size - new_size) m;
               hole_footer = hole_header + orig_hole_size - new_size - 8;
               m = (if hole_footer < h_addr_end h then write_footer hole_footer hole_header m else m)
           in bindr (insert_sorted_array (h_index h) hole_header m) (\<lambda>(a, m).
                Inr (h\<lparr>h_index := a\<rparr>, m))
      else Inr (h, m))"

definition alloc_place ::
    "u32 \<Rightarrow> u32 \<Rightarrow> bool \<Rightarrow> u32 \<Rightarrow> vm_heap \<Rightarrow> memory \<Rightarrow> (u32 \<times> vm_heap \<times> memory) res" where
  "alloc_place sz new_size page_align i h m =
     bindr (lookup_sorted_array (h_index h) i m) (\<lambda>orig_hole_pos.
     let orig_hole_size = hh_size m orig_hole_pos;
         (sz, new_size) = (if orig_hole_size - new_size < 12 + 8
                           then (sz + (orig_hole_size - new_size), orig_hole_size)
                           else (sz, new_size)) in
     bindr (alloc_front page_align i orig_hole_pos orig_hole_size h m)
       (\<lambda>(orig_hole_pos, orig_hole_size, h, m).
     let m = write_header orig_hole_pos 0 new_size m;
         m = write_footer (orig_hole_pos + 12 + sz) orig_hole_pos m in
     bindr (alloc_rest sz new_size orig_hole_pos orig_hole_size h m) (\<lambda>(h, m).
     Inr (orig_hole_pos + 12, h, m))))"

text \<open>The search for the endmost header: the index and the address found so far.\<close>

function endmost_loop :: "sorted_array \<Rightarrow> memory \<Rightarrow> u32 \<Rightarrow> u32 \<Rightarrow> u32 \<Rightarrow> u32" where
  "endmost_loop a m i idx val =
     (if i < sa_size a
      then let tmp = load32 m (cell a i) in
           if tmp > val then endmost_loop a m (i + 1) i tmp
           else endmost_loop a m (i + 1) idx val
      else idx)"
  by pat_completeness auto
termination
  by (relation "measure (\<lambda>(a, m, i, idx, val). unat (sa_size a - i))")
    (auto simp: u32_step_measure)

declare endmost_loop.simps [simp del]

definition grow_hole :: "u32 \<Rightarrow> u32 \<Rightarrow> vm_heap \<Rightarrow> memory \<Rightarrow> (vm_heap \<times> memory) res" where
  "grow_hole old_end_address delta h m =
     (let idx = endmost_loop (h_index h) m 0 (- 1) 0 in
      if idx = - 1
      then let header = old_end_address;
               m = write_header header 1 delta m;
               m = write_footer (old_end_address + hh_size m header - 8) header m
           in bindr (insert_sorted_array (h_index h) header m) (\<lambda>(a, m). Inr (h\<lparr>h_index := a\<rparr>, m))
      else bindr (lookup_sorted_array (h_index h) idx m) (\<lambda>header.
           let m = set_hh_size header (hh_size m header + delta) m;
               m = write_footer (header + hh_size m header - 8) header m
           in Inr (h, m)))"

definition alloc_expand ::
    "(u32 \<Rightarrow> 'a vm_state_scheme \<Rightarrow> (u32 \<times> u32 \<times> 'a vm_state_scheme) res) \<Rightarrow>
     u32 \<Rightarrow> u32 \<Rightarrow> 'a vm_state_scheme \<Rightarrow> 'a vm_state_scheme res" where
  "alloc_expand km new_size heap s =
     (let h = vm_heaps s heap;
          old_length = h_addr_end h - h_addr_start h;
          old_end_address = h_addr_end h in
      bindr (expand_with km (old_length + new_size) heap s) (\<lambda>s.
      let h = vm_heaps s heap;
          new_length = h_addr_end h - h_addr_start h in
      bindr (grow_hole old_end_address (new_length - old_length) h (mem s)) (\<lambda>(h, m).
      Inr (upd_heap heap (\<lambda>_. h) (s\<lparr>mem := m\<rparr>)))))"

definition alloc_body ::
    "(u32 \<Rightarrow> bool \<Rightarrow> u32 \<Rightarrow> 'a vm_state_scheme \<Rightarrow> (u32 \<times> 'a vm_state_scheme) res) \<Rightarrow>
     u32 \<Rightarrow> bool \<Rightarrow> u32 \<Rightarrow> 'a vm_state_scheme \<Rightarrow> (u32 \<times> 'a vm_state_scheme) res" where
  "alloc_body al sz page_align heap s =
     (let new_size = sz + 12 + 8;
          i = find_smallest_hole new_size page_align (vm_heaps s heap) (mem s) in
      if i = - 1
      then bindr (alloc_expand (kmalloc0_ap_with al) new_size heap s) (\<lambda>s. al sz page_align heap s)
      else bindr (alloc_place sz new_size page_align i (vm_heaps s heap) (mem s)) (\<lambda>(addr, h, m).
             Inr (addr, upd_heap heap (\<lambda>_. h) (s\<lparr>mem := m\<rparr>))))"

text \<open>\<open>alloc n\<close>: at most \<open>n\<close> nested activations of \<open>alloc\<close>.\<close>

fun alloc :: "nat \<Rightarrow> u32 \<Rightarrow> bool \<Rightarrow> u32 \<Rightarrow> 'a vm_state_scheme \<Rightarrow> (u32 \<times> 'a vm_state_scheme) res" where
  "alloc 0 sz page_align heap s = Inl Diverge"
| "alloc (Suc n) sz page_align heap s = alloc_body (alloc n) sz page_align heap s"

subsection \<open>\<open>free\<close>\<close>

function find_entry :: "sorted_array \<Rightarrow> memory \<Rightarrow> u32 \<Rightarrow> u32 \<Rightarrow> u32" where
  "find_entry a m el i =
     (if i < sa_size a \<and> load32 m (cell a i) \<noteq> el then find_entry a m el (i + 1) else i)"
  by pat_completeness auto
termination
  by (relation "measure (\<lambda>(a, m, el, i). unat (sa_size a - i))") (auto simp: u32_step_measure)

declare find_entry.simps [simp del]

text \<open>
  The two unification steps of \<open>free\<close>.  Each returns the header (and the footer) of the hole
  so far; the left one also whether the hole still has to be added to the index.
\<close>

definition unify_left :: "u32 \<Rightarrow> u32 \<Rightarrow> memory \<Rightarrow> bool \<times> u32 \<times> memory" where
  "unify_left header footer m =
     (let test_footer = header - 8 in
      if hf_magic m test_footer = VM_HEAP_FTR_MAGIC \<and> hh_is_hole m (hf_header m test_footer) = 1
      then let cache_size = hh_size m header;
               header = hf_header m test_footer;
               m = store32 m (footer + 4) header;
               m = set_hh_size header (hh_size m header + cache_size) m
           in (False, header, m)
      else (True, header, m))"

definition unify_right ::
    "u32 \<Rightarrow> u32 \<Rightarrow> vm_heap \<Rightarrow> memory \<Rightarrow> (u32 \<times> vm_heap \<times> memory) res" where
  "unify_right header footer h m =
     (let test_header = footer + 8 in
      if hh_magic m test_header = VM_HEAP_HDR_MAGIC \<and> hh_is_hole m test_header \<noteq> 0
      then let m = set_hh_size header (hh_size m header + hh_size m test_header) m;
               test_footer = test_header + hh_size m test_header - 8;
               i = find_entry (h_index h) m test_header 0 in
           kassert ''found an item while unifying right'' (i < sa_size (h_index h))
             (bindr (remove_sorted_array (h_index h) i m) (\<lambda>(a, m).
                Inr (test_footer, h\<lparr>h_index := a\<rparr>, m)))
      else Inr (footer, h, m))"

text \<open>
  The contraction at the end of the heap.  \<open>test_header\<close> still is the block to the right of
  the one that was freed.
\<close>

definition free_contract ::
    "u32 \<Rightarrow> u32 \<Rightarrow> u32 \<Rightarrow> u32 \<Rightarrow> 'a vm_state_scheme \<Rightarrow> 'a vm_state_scheme res" where
  "free_contract header footer test_header heap s =
     (let h = vm_heaps s heap in
      if footer + 8 = h_addr_end h
      then let old_length = h_addr_end h - h_addr_start h in
        bindr (contract (header - h_addr_start h) heap s) (\<lambda>(new_length, s).
        if hh_size (mem s) header - (old_length - new_length) > 0
        then let m = set_hh_size header (hh_size (mem s) header - (old_length - new_length)) (mem s);
                 footer = header + hh_size m header - 8
             in Inr (s\<lparr>mem := write_footer footer header m\<rparr>)
        else let a = h_index (vm_heaps s heap);
                 i = find_entry a (mem s) test_header 0 in
             if i < sa_size a
             then bindr (remove_sorted_array a i (mem s)) (\<lambda>(a, m).
                    Inr (upd_heap heap (\<lambda>h. h\<lparr>h_index := a\<rparr>) (s\<lparr>mem := m\<rparr>)))
             else Inr s)
      else Inr s)"

definition free :: "u32 \<Rightarrow> u32 \<Rightarrow> 'a vm_state_scheme \<Rightarrow> 'a vm_state_scheme res" where
  "free p heap s =
     (if p = 0 \<or> heap = 0 then Inr s
      else let header = p - 12;
               footer = header + hh_size (mem s) header - 8 in
        kassert ''header magic match'' (hh_magic (mem s) header = VM_HEAP_HDR_MAGIC)
       (kassert ''footer magic match'' (hf_magic (mem s) footer = VM_HEAP_FTR_MAGIC)
        (let m = set_hh_is_hole header 1 (mem s);
             (do_add, header, m) = unify_left header footer m;
             test_header = footer + 8 in
         bindr (unify_right header footer (vm_heaps s heap) m) (\<lambda>(footer, h, m).
         bindr (free_contract header footer test_header heap (upd_heap heap (\<lambda>_. h) (s\<lparr>mem := m\<rparr>))) (\<lambda>s.
         if do_add
         then bindr (insert_sorted_array (h_index (vm_heaps s heap)) header (mem s)) (\<lambda>(a, m).
                Inr (upd_heap heap (\<lambda>h. h\<lparr>h_index := a\<rparr>) (s\<lparr>mem := m\<rparr>)))
         else Inr s)))))"

subsection \<open>\<open>kmalloc\<close>, \<open>kfree\<close> and their variants\<close>

definition kmalloc_flags ::
    "nat \<Rightarrow> u32 \<Rightarrow> bool \<Rightarrow> u32 \<Rightarrow> 'a vm_state_scheme \<Rightarrow> (u32 \<times> u32 option \<times> 'a vm_state_scheme) res" where
  "kmalloc_flags n len want_phys flags s = kmalloc_with (alloc n) len want_phys flags s"

definition drop_phys :: "(u32 \<times> u32 option \<times> 's) res \<Rightarrow> (u32 \<times> 's) res" where
  "drop_phys r = bindr r (\<lambda>(addr, _, s). Inr (addr, s))"

definition kmalloc :: "nat \<Rightarrow> u32 \<Rightarrow> 'a vm_state_scheme \<Rightarrow> (u32 \<times> 'a vm_state_scheme) res" where
  "kmalloc n len s = drop_phys (kmalloc_flags n len False 0 s)"

definition kmalloc0 :: "nat \<Rightarrow> u32 \<Rightarrow> 'a vm_state_scheme \<Rightarrow> (u32 \<times> 'a vm_state_scheme) res" where
  "kmalloc0 n len s = drop_phys (kmalloc_flags n len False M_ZERO s)"

definition kmalloc_a :: "nat \<Rightarrow> u32 \<Rightarrow> 'a vm_state_scheme \<Rightarrow> (u32 \<times> 'a vm_state_scheme) res" where
  "kmalloc_a n len s = drop_phys (kmalloc_flags n len False M_ALIGNED s)"

definition kmalloc0_a :: "nat \<Rightarrow> u32 \<Rightarrow> 'a vm_state_scheme \<Rightarrow> (u32 \<times> 'a vm_state_scheme) res" where
  "kmalloc0_a n len s = drop_phys (kmalloc_flags n len False (M_ALIGNED OR M_ZERO) s)"

definition kmalloc_p ::
    "nat \<Rightarrow> u32 \<Rightarrow> 'a vm_state_scheme \<Rightarrow> (u32 \<times> u32 option \<times> 'a vm_state_scheme) res" where
  "kmalloc_p n len s = kmalloc_flags n len True 0 s"

definition kmalloc0_p ::
    "nat \<Rightarrow> u32 \<Rightarrow> 'a vm_state_scheme \<Rightarrow> (u32 \<times> u32 option \<times> 'a vm_state_scheme) res" where
  "kmalloc0_p n len s = kmalloc_flags n len True M_ZERO s"

definition kmalloc_ap ::
    "nat \<Rightarrow> u32 \<Rightarrow> 'a vm_state_scheme \<Rightarrow> (u32 \<times> u32 option \<times> 'a vm_state_scheme) res" where
  "kmalloc_ap n len s = kmalloc_flags n len True M_ALIGNED s"

definition kmalloc0_ap ::
    "nat \<Rightarrow> u32 \<Rightarrow> 'a vm_state_scheme \<Rightarrow> (u32 \<times> u32 option \<times> 'a vm_state_scheme) res" where
  "kmalloc0_ap n len s = kmalloc_flags n len True (M_ALIGNED OR M_ZERO) s"

definition kfree :: "u32 \<Rightarrow> 'a vm_state_scheme \<Rightarrow> 'a vm_state_scheme res" where
  "kfree ptr s = free ptr (kernel_heap s) s"

definition get_page ::
    "nat \<Rightarrow> u32 \<Rightarrow> bool \<Rightarrow> u32 \<Rightarrow> 'a vm_state_scheme \<Rightarrow> (u32 \<times> 'a vm_state_scheme) res" where
  "get_page n address create dir s = get_page_with (kmalloc0_ap_with (alloc n)) address create dir s"

definition new_sorted_array ::
    "nat \<Rightarrow> u32 \<Rightarrow> cmp_func_t option \<Rightarrow> 'a vm_state_scheme \<Rightarrow> (sorted_array \<times> 'a vm_state_scheme) res" where
  "new_sorted_array n maxsize cmp s =
     bindr (kmalloc0 n (maxsize * 4) s) (\<lambda>(a, s).
       if a = 0 then Inl (Panic ''kmalloc'')
       else Inr (\<lparr>sa_array = a, sa_size = 0, sa_maxsize = maxsize, sa_cmp = cmp\<rparr>, s))"

definition delete_sorted_array :: "sorted_array \<Rightarrow> 'a vm_state_scheme \<Rightarrow> 'a vm_state_scheme res" where
  "delete_sorted_array a s = kfree (sa_array a) s"

subsection \<open>Setting up the heap and paging\<close>

definition init_heap ::
    "u32 \<Rightarrow> u32 \<Rightarrow> u32 \<Rightarrow> u32 \<Rightarrow> u32 \<Rightarrow> u32 \<Rightarrow> 'a vm_state_scheme \<Rightarrow> (u32 \<times> 'a vm_state_scheme) res" where
  "init_heap heap start hend hmax su ro s =
     kassert ''start of the heap is page aligned'' (start mod 0x1000 = 0)
    (kassert ''end of the heap is page aligned'' (hend mod 0x1000 = 0)
      (let (idx, m) = place_sorted_array start VM_HEAP_INDEX_SIZE (Some vm_heap_header_cmp) (mem s);
           start = start + 4 * VM_HEAP_INDEX_SIZE;
           start = (if start AND 0xFFFFF000 \<noteq> 0 then (start AND 0xFFFFF000) + 0x1000 else start);
           m = write_header start 1 (hend - start) m in
       bindr (insert_sorted_array idx start m) (\<lambda>(idx, m).
         Inr (heap, upd_heap heap (\<lambda>_. \<lparr>h_index = idx, h_addr_start = start, h_addr_end = hend,
                h_addr_max = hmax, h_su = su, h_ro = ro\<rparr>) (s\<lparr>mem := m\<rparr>)))))"

definition new_heap ::
    "nat \<Rightarrow> u32 \<Rightarrow> u32 \<Rightarrow> u32 \<Rightarrow> u32 \<Rightarrow> u32 \<Rightarrow> 'a vm_state_scheme \<Rightarrow> (u32 \<times> 'a vm_state_scheme) res" where
  "new_heap n start hend hmax su ro s =
     bindr (kmalloc0 n 36 s) (\<lambda>(heap, s).
       if heap = 0 then Inl (Panic ''kmalloc'') else init_heap heap start hend hmax su ro s)"

text \<open>
  The three loops of \<open>init_paging\<close>: creating the tables of the heap area, mapping from 0 up to
  the placement address (which moves while tables are allocated), and giving frames to the
  heap area.  Before the heap exists \<open>kmalloc\<close> never calls \<open>alloc\<close>, so the depth bound
  passed to \<open>get_page\<close> is 0.
\<close>

fun map_tables :: "nat \<Rightarrow> u32 \<Rightarrow> 'a vm_state_scheme \<Rightarrow> 'a vm_state_scheme res" where
  "map_tables 0 i s = Inr s"
| "map_tables (Suc k) i s =
     bindr (get_page 0 i True (kernel_directory s) s) (\<lambda>(_, s). map_tables k (i + 0x1000) s)"

fun identity_map :: "nat \<Rightarrow> u32 \<Rightarrow> 'a vm_state_scheme \<Rightarrow> 'a vm_state_scheme res" where
  "identity_map n i s =
     (if \<not> i < placement_address s then Inr s
      else if n = 0 then Inl Diverge
      else bindr (get_page 0 i True (kernel_directory s) s) (\<lambda>(p, s).
           bindr (alloc_frame p 0 0 s) (\<lambda>s. identity_map (n - 1) (i + 0x1000) s)))"

declare identity_map.simps [simp del]

fun map_heap_area :: "nat \<Rightarrow> u32 \<Rightarrow> 'a vm_state_scheme \<Rightarrow> 'a vm_state_scheme res" where
  "map_heap_area 0 i s = Inr s"
| "map_heap_area (Suc k) i s =
     bindr (get_page 0 i False (kernel_directory s) s) (\<lambda>(p, s).
     bindr (alloc_frame p 0 0 s) (\<lambda>s. map_heap_area k (i + 0x1000) s))"

definition HEAP_PAGES :: nat where "HEAP_PAGES = 256"     \<comment> \<open>\<open>VM_KERN_HEAP_INITIAL_SIZE / 0x1000\<close>\<close>

definition init_paging :: "'a vm_state_scheme \<Rightarrow> 'a vm_state_scheme res" where
  "init_paging s =
     (let mem_end_page = 0x1000000;
          s = s\<lparr>nframes := mem_end_page div 0x1000\<rparr> in
      bindr (kmalloc0 0 (INDEX_FROM_BIT (nframes s)) s) (\<lambda>(a, s).
      let s = s\<lparr>frames := a\<rparr> in
      bindr (kmalloc0_a 0 8196 s) (\<lambda>(a, s).
      let s = s\<lparr>kernel_directory := a\<rparr> in
      bindr (map_tables HEAP_PAGES VM_KERN_HEAP_START s) (\<lambda>s.
      bindr (kmalloc0 0 36 s) (\<lambda>(heap, s).
      bindr (identity_map 0x100000 0 s) (\<lambda>s.
      bindr (map_heap_area HEAP_PAGES VM_KERN_HEAP_START s) (\<lambda>s.
      bindr (register_interrupt_handler 14 (Some Page_fault_handler) s) (\<lambda>s.
      let s = switch_page_directory (kernel_directory s) s in
      bindr (init_heap heap VM_KERN_HEAP_START (VM_KERN_HEAP_START + VM_KERN_HEAP_INITIAL_SIZE)
               0xCFFFF000 0 0 s) (\<lambda>(heap, s).
      Inr (s\<lparr>kernel_heap := heap\<rparr>))))))))))"

text \<open>
  The state in which the boot loader enters the kernel, with zeroed memory: every static variable
  is null, \<open>placement_address\<close> is the end of the kernel image.
\<close>

definition boot_state :: "u32 \<Rightarrow> vm_state" where
  "boot_state p = \<lparr>mem = (\<lambda>_. 0), ports = [], cursor_x = 0, cursor_y = 0,
     interrupt_handlers = replicate 256 None, tick = 0, cr2 = 0,
     gdt_entries = replicate 5 (make_gdt_entry 0 0 0 0), gdtp = \<lparr>gp_limit = 0, gp_base = 0\<rparr>,
     idt_entries = replicate 256 null_idt_entry, idtp = \<lparr>ip_limit = 0, ip_base = 0\<rparr>, gdtr = None, idtr = None,
     frames = 0, nframes = 0, kernel_directory = 0, current_directory = 0,
     placement_address = p, kernel_heap = 0,
     vm_heaps = (\<lambda>_. \<lparr>h_index = \<lparr>sa_array = 0, sa_size = 0, sa_maxsize = 0, sa_cmp = None\<rparr>,
       h_addr_start = 0, h_addr_end = 0, h_addr_max = 0, h_su = 0, h_ro = 0\<rparr>),
     cr0 = 0, cr3 = 0\<rparr>"

end
