(* ===== verification/Paging.thy ===== *)
theory Paging
  imports Vm
begin

unbundle bit_operations_syntax

section \<open>Page frames, placement allocation and page tables\<close>

text \<open>
  The frame bitset is a set of frame numbers, \<open>first_frame\<close> finds its least free member, and
  \<open>alloc_frame\<close> gives that frame to a page.  Placement allocation hands out consecutive
  ranges.  On these rests the correctness of \<open>init_paging\<close>: the MMU's page walk maps every
  address in use to itself and every page of the heap area to a frame of its own.
\<close>

subsection \<open>The bitset\<close>

text \<open>\<open>frame_used fr m k\<close>: bit \<open>k\<close> of the bitset at \<open>fr\<close>.\<close>

definition frame_used :: "u32 \<Rightarrow> memory \<Rightarrow> nat \<Rightarrow> bool" where
  "frame_used fr m k \<longleftrightarrow> bit (load32 m (fr + 4 * of_nat (k div 32))) (k mod 32)"

text \<open>The three accessors compute the same word and bit from the frame's address.\<close>

lemma frame_word:
  "INDEX_FROM_BIT (a div 0x1000) = of_nat (unat a div 4096 div 32)"
  "unat (OFFSET_FROM_BIT (a div 0x1000)) = unat a div 4096 mod 32"
proof -
  have "unat a div 131072 < 4294967296" using unat_u32_less [of a] by (intro le_less_trans [OF div_le_dividend])
  then show "INDEX_FROM_BIT (a div 0x1000) = of_nat (unat a div 4096 div 32)"
    by (simp add: INDEX_FROM_BIT_def unat_div u32_eq_iff unat_of_nat_u32 div_mult2_eq [symmetric])
  show "unat (OFFSET_FROM_BIT (a div 0x1000)) = unat a div 4096 mod 32"
    by (simp add: OFFSET_FROM_BIT_def unat_div unat_mod)
qed

lemma frame_number_less: "unat (a :: u32) div 4096 < 1048576"
  using unat_u32_less [of a] by (intro less_mult_imp_div_less) (simp del: unat_u32_less)

lemma frame_used_store:
  assumes "k < 1048576" "j < 1048576" "\<And>i. i < 32 \<Longrightarrow>
      bit v i \<longleftrightarrow> (if i = j mod 32 then b else bit (load32 m (fr + 4 * of_nat (j div 32))) i)"
  shows "frame_used fr (store32 m (fr + 4 * of_nat (j div 32)) v) k \<longleftrightarrow>
    (if k = j then b else frame_used fr m k)"
proof (cases "k div 32 = j div 32")
  case True
  then have "k = j \<longleftrightarrow> k mod 32 = j mod 32" by (metis div_mult_mod_eq)
  with True assms(3) [of "k mod 32"] show ?thesis by (simp add: frame_used_def)
next
  case False
  have "sep (fr + 4 * of_nat (j div 32)) 4 (fr + 4 * of_nat (k div 32)) 4"
    using assms(1,2) False by (intro cell_sep) auto
  with False show ?thesis by (auto simp: frame_used_def load32_store32_other)
qed

lemma set_frame_used:
  assumes "k < 1048576"
  shows "frame_used fr (set_frame fr a m) k \<longleftrightarrow> k = unat a div 4096 \<or> frame_used fr m k"
  unfolding set_frame_def Let_def frame_word
  by (subst frame_used_store [where b = True, OF assms frame_number_less]) (auto simp: bit_simps)

lemma clear_frame_used:
  assumes "k < 1048576"
  shows "frame_used fr (clear_frame fr a m) k \<longleftrightarrow> k \<noteq> unat a div 4096 \<and> frame_used fr m k"
  unfolding clear_frame_def Let_def frame_word
  by (subst frame_used_store [where b = False, OF assms frame_number_less]) (auto simp: bit_simps)

lemma test_frame_used: "test_frame fr a m \<noteq> 0 \<longleftrightarrow> frame_used fr m (unat a div 4096)"
  unfolding test_frame_def Let_def frame_word by (simp add: and_exp_eq_0_iff_not_bit frame_used_def)

subsection \<open>The first free frame\<close>

lemma first_bit_some:
  "first_bit w j k = Some i \<Longrightarrow> j \<le> i \<and> i < j + k \<and> \<not> bit w i \<and> (\<forall>l. j \<le> l \<longrightarrow> l < i \<longrightarrow> bit w l)"
proof (induction w j k rule: first_bit.induct)
  case (2 w j k)
  then show ?case
    by (cases "bit w j") (auto simp: and_exp_eq_0_iff_not_bit dest: le_neq_implies_less)
qed simp

lemma first_bit_none: "first_bit w j k = None \<Longrightarrow> j \<le> l \<Longrightarrow> l < j + k \<Longrightarrow> bit w l"
proof (induction w j k rule: first_bit.induct)
  case (2 w j k)
  then show ?case
    by (cases "l = j") (auto simp: and_exp_eq_0_iff_not_bit split: if_splits)
qed simp

lemma word_all_ones: "(w :: u32) = 0xFFFFFFFF \<longleftrightarrow> (\<forall>l < 32. bit w l)"
proof -
  have "(0xFFFFFFFF :: u32) = - 1" by simp
  then show ?thesis by (simp only:) (auto simp: bit_eq_iff bit_simps dest: bit_imp_le_length)
qed

text \<open>The loop from word \<open>i\<close> with \<open>k\<close> words left: the least free frame, or all are used.\<close>

lemma first_frame_loop_spec:
  assumes "i + k \<le> 134217727"
  shows "(\<exists>f. first_frame_loop fr m i k = of_nat f \<and> 32 * i \<le> f \<and> f < 32 * (i + k) \<and>
      \<not> frame_used fr m f \<and> (\<forall>l. 32 * i \<le> l \<longrightarrow> l < f \<longrightarrow> frame_used fr m l)) \<or>
    (first_frame_loop fr m i k = - 1 \<and> (\<forall>l. 32 * i \<le> l \<longrightarrow> l < 32 * (i + k) \<longrightarrow> frame_used fr m l))"
  using assms
proof (induction fr m i k rule: first_frame_loop.induct)
  case (1 fr m i)
  then show ?case by simp
next
  case (2 fr m i k)
  let ?w = "load32 m (fr + 4 * of_nat i)"
  have word: "frame_used fr m l \<longleftrightarrow> bit ?w (l - 32 * i)" if "32 * i \<le> l" "l < 32 * Suc i" for l
  proof -
    have "l div 32 = i" using that by (simp add: div_nat_eqI)
    moreover from this have "l mod 32 = l - 32 * i" by (simp add: minus_mult_div_eq_mod [symmetric])
    ultimately show ?thesis by (simp add: frame_used_def)
  qed
  show ?case
  proof (cases "first_bit ?w 0 32")
    case None
    have ones: "?w = 0xFFFFFFFF" unfolding word_all_ones using first_bit_none [OF None] by simp
    then have full: "frame_used fr m l" if "32 * i \<le> l" "l < 32 * Suc i" for l
      using word [OF that] that word_all_ones [of ?w] by simp
    have step: "first_frame_loop fr m i (Suc k) = first_frame_loop fr m (Suc i) k" using ones by simp
    have all: "frame_used fr m l" if "32 * i \<le> l" "32 * Suc i \<le> l \<longrightarrow> frame_used fr m l" for l
      using that full [of l] by (cases "l < 32 * Suc i") auto
    have "Suc i + k \<le> 134217727" using "2.prems" by simp
    from "2.IH" (1) [OF ones this] show ?thesis
      unfolding step by (elim disjE exE conjE) (use all in \<open>auto intro!: exI\<close>)
  next
    case (Some j)
    note j = first_bit_some [OF Some]
    then have "?w \<noteq> 0xFFFFFFFF" by (auto simp: word_all_ones)
    then have "first_frame_loop fr m i (Suc k) = of_nat (32 * i + j)" using Some by (simp add: mult.commute)
    moreover have "\<not> frame_used fr m (32 * i + j)" using word [of "32 * i + j"] j by simp
    moreover have "frame_used fr m l" if "32 * i \<le> l" "l < 32 * i + j" for l
    proof -
      have "l - 32 * i < j" using that by linarith
      then show ?thesis using word [of l] j that by auto
    qed
    ultimately show ?thesis using j by (intro disjI1 exI [of _ "32 * i + j"]) auto
  qed
qed

text \<open>
  What the users of the bitset rely on: marking a frame changes its bit only, and the search
  returns the least unused frame below the limit when there is one.
\<close>

locale frame_pool =
  fixes used :: "'m \<Rightarrow> nat \<Rightarrow> bool"
    and mark :: "nat \<Rightarrow> 'm \<Rightarrow> 'm"
    and pick :: "'m \<Rightarrow> nat option"
    and limit :: nat
  assumes used_mark: "k < limit \<Longrightarrow> f < limit \<Longrightarrow> used (mark f m) k \<longleftrightarrow> k = f \<or> used m k"
    and pick_some: "pick m = Some f \<Longrightarrow> f < limit \<and> \<not> used m f \<and> (\<forall>l < f. used m l)"
    and pick_none: "pick m = None \<Longrightarrow> l < limit \<Longrightarrow> used m l"
begin

lemma pick_least:
  assumes "\<forall>l < f. used m l" "\<not> used m f" "f < limit"
  shows "pick m = Some f"
proof (cases "pick m")
  case None
  then show ?thesis using pick_none assms(2,3) by blast
next
  case (Some g)
  then show ?thesis using pick_some [OF Some] assms(1,2) by (metis linorder_neqE_nat)
qed

fun take_frames :: "nat \<Rightarrow> 'm \<Rightarrow> nat list option" where
  "take_frames 0 m = Some []"
| "take_frames (Suc n) m =
     (case pick m of None \<Rightarrow> None
      | Some f \<Rightarrow> map_option ((#) f) (take_frames n (mark f m)))"

lemma take_frames_fresh:
  assumes "take_frames n m = Some fs"
  shows "distinct fs \<and> (\<forall>f \<in> set fs. f < limit \<and> \<not> used m f)"
  using assms
proof (induction n arbitrary: m fs)
  case (Suc n)
  then obtain f gs where f: "pick m = Some f" and gs: "take_frames n (mark f m) = Some gs" "fs = f # gs"
    by (auto split: option.splits)
  from Suc.IH [OF gs(1)] pick_some [OF f] gs(2) show ?case by (auto simp: used_mark)
qed simp

end

definition pick_frame :: "u32 \<Rightarrow> u32 \<Rightarrow> memory \<Rightarrow> nat option" where
  "pick_frame fr nfr m =
     (if first_frame fr nfr m = - 1 then None else Some (unat (first_frame fr nfr m)))"

lemma unat_frame_addr: "f < 1048576 \<Longrightarrow> unat (of_nat f * 0x1000 :: u32) div 4096 = f"
  using unat_of_nat_u32 [of "f * 4096"] by simp

text \<open>The kernel's pool: 16 MiB of memory are 4096 frames.\<close>

lemma first_frame_pool:
  "pick_frame fr 0x1000 m = Some f \<Longrightarrow> f < 4096 \<and> \<not> frame_used fr m f \<and> (\<forall>l < f. frame_used fr m l)"
  "pick_frame fr 0x1000 m = None \<Longrightarrow> l < 4096 \<Longrightarrow> frame_used fr m l"
proof -
  have n: "unat (INDEX_FROM_BIT 0x1000) = 128" by (simp add: INDEX_FROM_BIT_def)
  have "unat (of_nat f :: u32) = f \<and> (of_nat f :: u32) \<noteq> - 1" if "f < 4096" for f
    using that unat_of_nat_u32 [of f] by (auto simp: u32_eq_iff)
  with first_frame_loop_spec [of 0 128 fr m] n
  show "pick_frame fr 0x1000 m = Some f \<Longrightarrow> f < 4096 \<and> \<not> frame_used fr m f \<and> (\<forall>l < f. frame_used fr m l)"
    "pick_frame fr 0x1000 m = None \<Longrightarrow> l < 4096 \<Longrightarrow> frame_used fr m l"
    by (auto simp: pick_frame_def first_frame_def split: if_splits) metis
qed

interpretation kpool: frame_pool "frame_used fr" "\<lambda>f. set_frame fr (of_nat f * 0x1000)"
    "pick_frame fr 0x1000" 4096
  for fr
proof
  fix k f m assume "k < (4096 :: nat)" "f < (4096 :: nat)"
  then show "frame_used fr (set_frame fr (of_nat f * 0x1000) m) k \<longleftrightarrow> k = f \<or> frame_used fr m k"
    by (simp add: set_frame_used unat_frame_addr)
qed (use first_frame_pool in blast)+

subsection \<open>Page entries\<close>

lemma bit_word_beyond: "LENGTH('a) \<le> n \<Longrightarrow> \<not> bit (x :: 'a :: len word) n"
  using bit_imp_le_length by fastforce

lemma page_of_word_of_page [simp]: "page_of_word (word_of_page p) = p"
  by (cases p)
    (auto simp: page_of_word_def word_of_page_def bit_simps bit_word_beyond intro!: bit_word_eqI)

lemma page_of_word_inject:
  assumes "page_of_word w = page_of_word w'"
  shows "w = w'"
proof (rule bit_word_eqI)
  have u: "ucast (drop_bit 5 w) = (ucast (drop_bit 5 w') :: 7 word)"
    and f: "ucast (drop_bit 12 w) = (ucast (drop_bit 12 w') :: 20 word)"
    and b: "bit w 0 = bit w' 0" "bit w 1 = bit w' 1" "bit w 2 = bit w' 2" "bit w 3 = bit w' 3"
      "bit w 4 = bit w' 4"
    using assms by (simp_all add: page_of_word_def)
  fix n assume n: "n < LENGTH(32)"
  consider "n \<in> {0, 1, 2, 3, 4}" | "5 \<le> n" "n < 12" | "12 \<le> n" by fastforce
  then show "bit w n = bit w' n"
  proof cases
    case 1
    then show ?thesis using b by auto
  next
    case 2
    then have "bit (ucast (drop_bit 5 w) :: 7 word) (n - 5) = bit (ucast (drop_bit 5 w') :: 7 word) (n - 5)"
      using u by (simp only:)
    moreover have "n - 5 < 7" using 2 by simp
    ultimately show ?thesis using 2 by (simp add: bit_ucast_iff bit_drop_bit_eq)
  next
    case 3
    then have "bit (ucast (drop_bit 12 w) :: 20 word) (n - 12) = bit (ucast (drop_bit 12 w') :: 20 word) (n - 12)"
      using f by (simp only:)
    moreover have "n - 12 < 20" using n 3 by simp
    ultimately show ?thesis using 3 by (simp add: bit_ucast_iff bit_drop_bit_eq)
  qed
qed

lemma word_of_page_of_word [simp]: "word_of_page (page_of_word w) = w"
  by (rule page_of_word_inject) simp

lemma load_page_null: "load32 m p = 0 \<Longrightarrow> p_frame (load_page m p) = 0"
  by (simp add: load_page_def page_of_word_def)

text \<open>An entry as \<open>alloc_frame\<close> makes it from an empty one for user read-only access.\<close>

definition fresh_page :: "nat \<Rightarrow> vm_page" where
  "fresh_page f = \<lparr>p_present = True, p_rw = False, p_user = True, p_accessed = False, p_dirty = False,
     p_unused = 0, p_frame = of_nat f\<rparr>"

lemma set_frame_outside:
  assumes "f < 1024" "unat fr + 128 \<le> 4294967296" "unat x < unat fr \<or> unat fr + 128 \<le> unat x"
  shows "set_frame fr (of_nat f * 0x1000) m x = m x"
proof -
  have f: "unat (of_nat f * 0x1000 :: u32) div 4096 = f" using assms(1) by (simp add: unat_frame_addr)
  have "f div 32 < 32" using assms(1) by (simp add: less_mult_imp_div_less)
  then have "unat (fr + 4 * of_nat (f div 32)) = unat fr + 4 * (f div 32)" "4 * (f div 32) + 4 \<le> 128"
    using assms(2) by (simp_all add: unat_add_u32 unat_mult4 del: of_nat_div)
  then show ?thesis
    unfolding set_frame_def Let_def frame_word f
    using assms(2,3) by (intro store32_other) (auto simp: in_range_no_wrap)
qed

text \<open>
  Giving the next frame to an empty page entry while the frames below \<open>N\<close>, and no others of the
  first 1024, are in use.
\<close>

definition prefix_used :: "u32 \<Rightarrow> memory \<Rightarrow> nat \<Rightarrow> bool" where
  "prefix_used fr m n \<longleftrightarrow> (\<forall>k < 1024. frame_used fr m k \<longleftrightarrow> k < n)"

lemma frame_used_agree:
  assumes "\<And>x. unat fr \<le> unat x \<Longrightarrow> unat x < unat fr + 128 \<Longrightarrow> m' x = m x"
    "unat fr + 128 \<le> 4294967296" "k < 1024"
  shows "frame_used fr m' k = frame_used fr m k"
proof -
  have k: "k div 32 < 32" using assms(3) by (simp add: less_mult_imp_div_less)
  then have "unat (fr + 4 * of_nat (k div 32)) = unat fr + 4 * (k div 32)"
    using assms(2) by (simp add: unat_add_u32 unat_mult4 del: of_nat_div)
  then show ?thesis
    unfolding frame_used_def
    by (intro arg_cong2 [where f = bit] load32_cong assms(1) refl) (use assms(2) k in \<open>auto simp: in_range_no_wrap\<close>)
qed

lemma prefix_used_agree:
  assumes "prefix_used fr m n" "\<And>x. unat fr \<le> unat x \<Longrightarrow> unat x < unat fr + 128 \<Longrightarrow> m' x = m x"
    "unat fr + 128 \<le> 4294967296"
  shows "prefix_used fr m' n"
  using assms(1) frame_used_agree [OF assms(2,3)] by (simp add: prefix_used_def)

lemma store_page_outside:
  assumes "\<not> (p \<le> unat x \<and> unat x < p + 4)" "p + 4 \<le> 4294967296"
  shows "store_page m (of_nat p) pg x = m x"
  unfolding store_page_def using assms by (intro store32_other) (simp add: in_range_no_wrap unat_of_nat_u32)

lemma load_page_store [simp]: "load_page (store_page m p pg) p = pg"
  by (simp add: load_page_def store_page_def)

lemma alloc_frame_next:
  assumes "prefix_used (frames s) (mem s) n" "n < 1024" "nframes s = 0x1000"
    "load32 (mem s) (of_nat p) = 0" "unat (frames s) + 128 \<le> p" "p + 4 \<le> 4294967296"
  shows "\<exists>m'. alloc_frame (of_nat p) 0 0 s = Inr (s\<lparr>mem := m'\<rparr>) \<and> prefix_used (frames s) m' (Suc n) \<and>
    load_page m' (of_nat p) = fresh_page n \<and>
    (\<forall>x. \<not> (unat (frames s) \<le> unat x \<and> unat x < unat (frames s) + 128) \<longrightarrow>
       \<not> (p \<le> unat x \<and> unat x < p + 4) \<longrightarrow> m' x = mem s x)"
proof -
  let ?fr = "frames s" and ?m = "set_frame (frames s) (of_nat n * 0x1000) (mem s)"
  have pick: "pick_frame ?fr 0x1000 (mem s) = Some n"
    using assms(1,2) by (intro kpool.pick_least) (auto simp: prefix_used_def)
  then have ff: "first_frame ?fr 0x1000 (mem s) = of_nat n" "first_frame ?fr 0x1000 (mem s) \<noteq> - 1"
    by (auto simp: pick_frame_def split: if_splits)
  have out: "?m x = mem s x" if "unat x < unat ?fr \<or> unat ?fr + 128 \<le> unat x" for x
    using that assms(2,5,6) by (intro set_frame_outside) auto
  have up: "unat (of_nat p :: u32) = p" using assms(6) by (simp add: unat_of_nat_u32)
  have ld: "load32 ?m (of_nat p) = 0"
    unfolding assms(4) [symmetric] by (rule load32_cong, rule out) (use up assms(5,6) in \<open>auto simp: in_range_no_wrap\<close>)
  let ?pg = "fresh_page n" and ?m' = "store_page ?m (of_nat p) (fresh_page n)"
  have pg: "(load_page ?m (of_nat p))\<lparr>p_present := True, p_frame := ucast (of_nat n :: u32), p_rw := False,
      p_user := True\<rparr> = ?pg"
  proof -
    have "ucast (of_nat n :: u32) = (of_nat n :: 20 word)"
      using assms(2) by (simp add: word_unat_eq_iff unsigned_ucast_eq unat_of_nat take_bit_nat_eq_self)
    then show ?thesis using ld by (simp add: load_page_def page_of_word_def fresh_page_def)
  qed
  have st: "?m' x = ?m x" if "\<not> (p \<le> unat x \<and> unat x < p + 4)" for x
    by (rule store_page_outside [OF that assms(6)])
  have used: "prefix_used ?fr ?m' (Suc n)"
    unfolding prefix_used_def
  proof (intro allI impI)
    fix k :: nat assume k: "k < 1024"
    then have "frame_used ?fr ?m' k = frame_used ?fr ?m k"
      by (intro frame_used_agree st) (use assms(5,6) in auto)
    also have "\<dots> \<longleftrightarrow> k < Suc n"
      using kpool.used_mark [of k n ?fr "mem s"] k assms(1,2) by (auto simp: prefix_used_def)
    finally show "frame_used ?fr ?m' k \<longleftrightarrow> k < Suc n" .
  qed
  have "alloc_frame (of_nat p) 0 0 s = Inr (s\<lparr>mem := ?m'\<rparr>)"
    using ff pg load_page_null [OF assms(4)] assms(3) by (simp add: alloc_frame_def Let_def)
  moreover have "load_page ?m' (of_nat p) = ?pg" by simp
  ultimately show ?thesis using used st out by (intro exI [of _ ?m']) auto
qed

text \<open>
  Property C16.  \<open>free_frame\<close> passes the frame number where \<open>clear_frame\<close> expects a byte address: the page
  loses its frame, but the frame stays marked as used, and frame 0 is marked as free instead.
\<close>

theorem free_frame_frees_frame_zero:
  assumes "unat (frames s) + 128 \<le> p" "p + 4 \<le> 4294967296"
    "p_frame (load_page (mem s) (of_nat p)) = f" "0 < unat f" "unat f < 4096"
  shows "p_frame (load_page (mem (free_frame (of_nat p) s)) (of_nat p)) = 0 \<and>
    (\<forall>k < 1024. frame_used (frames s) (mem (free_frame (of_nat p) s)) k \<longleftrightarrow>
       k \<noteq> 0 \<and> frame_used (frames s) (mem s) k)"
proof -
  let ?m = "clear_frame (frames s) (ucast f) (mem s)"
  let ?m' = "store_page ?m (of_nat p) ((load_page ?m (of_nat p))\<lparr>p_frame := 0\<rparr>)"
  have f: "f \<noteq> 0" using assms(4) by auto
  have "unat (ucast f :: u32) = unat f" by (simp add: unsigned_ucast_eq take_bit_nat_eq_self less_trans [OF unsigned_less])
  then have "frame_used (frames s) ?m k \<longleftrightarrow> k \<noteq> 0 \<and> frame_used (frames s) (mem s) k" if "k < 1024" for k
    using clear_frame_used [of k "frames s" "ucast f" "mem s"] that assms(5) by simp
  moreover have "frame_used (frames s) ?m' k = frame_used (frames s) ?m k" if "k < 1024" for k
    by (intro frame_used_agree store_page_outside that) (use assms(1,2) in auto)
  ultimately show ?thesis using assms(3) f by (simp add: free_frame_def Let_def)
qed

theorem free_frame_frees_frame_zero_witness:
  "\<exists>s :: vm_state. p_frame (load_page (mem s) (of_nat 0x2000)) = 5 \<and> frame_used (frames s) (mem s) 5 \<and>
    p_frame (load_page (mem (free_frame (of_nat 0x2000) s)) (of_nat 0x2000)) = 0 \<and>
    frame_used (frames s) (mem (free_frame (of_nat 0x2000) s)) 5"
proof -
  define m where "m = store_page (set_frame 0x1000 0x5000 (\<lambda>_. 0)) (of_nat 0x2000) (fresh_page 5)"
  define s where "s = (boot_state 0)\<lparr>frames := 0x1000, mem := m\<rparr>"
  have s: "frames s = 0x1000" "mem s = m" by (simp_all add: s_def)
  have p: "p_frame (load_page (mem s) (of_nat 0x2000)) = 5" unfolding s m_def load_page_store by (simp add: fresh_page_def)
  have "frame_used 0x1000 m 5 = frame_used 0x1000 (set_frame 0x1000 0x5000 (\<lambda>_. 0)) 5"
    unfolding m_def by (intro frame_used_agree store_page_outside) auto
  then have u: "frame_used (frames s) (mem s) 5" by (simp add: s set_frame_used)
  have "unat (frames s) + 128 \<le> 0x2000" "0x2000 + 4 \<le> (4294967296 :: nat)" by (simp_all add: s)
  from free_frame_frees_frame_zero [OF this p] have
    "p_frame (load_page (mem (free_frame (of_nat 0x2000) s)) (of_nat 0x2000)) = 0 \<and>
     frame_used (frames s) (mem (free_frame (of_nat 0x2000) s)) 5"
    using u by (simp del: of_nat_numeral)
  then show ?thesis using p u by blast
qed

subsection \<open>Placement allocation\<close>

text \<open>Where an aligned request goes: to the next page boundary, also from a boundary.\<close>

definition page_up :: "nat \<Rightarrow> nat" where
  "page_up p = p div 4096 * 4096 + 4096"

lemma page_up_bounds: "p < page_up p" "page_up p \<le> p + 4096" "page_up p mod 4096 = 0"
  using mod_less_divisor [of 4096 p] div_mult_mod_eq [of p 4096] by (auto simp: page_up_def)

lemma page_up_add: "d mod 4096 = 0 \<Longrightarrow> page_up (d + k) = d + page_up k"
  by (auto simp: page_up_def elim!: dvdE simp flip: mod_eq_0_iff_dvd)

lemma page_up_word:
  assumes "p < 4294963200" 
  shows "((of_nat p AND 0xFFFFF000) + 0x1000 :: u32) = of_nat (page_up p)"
    and "(of_nat p AND 0xFFFFF000 :: u32) \<noteq> 0 \<longleftrightarrow> 4096 \<le> p"
proof -
  have p: "unat (of_nat p :: u32) = p" using assms by (simp add: unat_of_nat_u32)
  have m: "unat (of_nat p AND 0xFFFFF000 :: u32) = p div 4096 * 4096"
    unfolding unat_page_mask p by (simp add: minus_mod_eq_div_mult)
  have b: "page_up p < 4294967296" using page_up_bounds(2) [of p] assms by linarith
  have "unat ((of_nat p AND 0xFFFFF000) + 0x1000 :: u32) = page_up p"
    using b m by (subst unat_add_no_wrap) (simp_all add: page_up_def)
  then show "((of_nat p AND 0xFFFFF000) + 0x1000 :: u32) = of_nat (page_up p)"
    using b by (metis of_nat_unat_u32)
  show "(of_nat p AND 0xFFFFF000 :: u32) \<noteq> 0 \<longleftrightarrow> 4096 \<le> p"
    unfolding u32_eq_iff m by (simp add: div_eq_0_iff not_less)
qed

definition placed :: "nat \<Rightarrow> u32 \<Rightarrow> nat" where
  "placed p flags = (if flags AND M_ALIGNED \<noteq> 0 then page_up p else p)"

definition zeroed :: "memory \<Rightarrow> u32 \<Rightarrow> nat \<Rightarrow> u32 \<Rightarrow> memory" where
  "zeroed m flags a len = (if flags AND M_ZERO \<noteq> 0 then bzero m (of_nat a) len else m)"

lemma kmalloc_placement:
  assumes "kernel_heap s = 0" "placement_address s = of_nat p" "4096 \<le> p"
    "p + unat len + 4096 < 4294967296"
  shows "kmalloc_with al len want flags s =
    Inr (of_nat (placed p flags), if want then Some (of_nat (placed p flags)) else None,
         s\<lparr>placement_address := of_nat (placed p flags + unat len),
           mem := zeroed (mem s) flags (placed p flags) len\<rparr>)"
proof -
  let ?a = "placed p flags"
  have "(if flags AND M_ALIGNED \<noteq> 0 \<and> placement_address s AND 0xFFFFF000 \<noteq> 0
      then s\<lparr>placement_address := (placement_address s AND 0xFFFFF000) + 0x1000\<rparr> else s) =
      s\<lparr>placement_address := of_nat ?a\<rparr>"
    using page_up_word [of p] assms by (auto simp: placed_def)
  with assms(1) show ?thesis by (simp add: kmalloc_with_def Let_def zeroed_def)
qed

lemmas kmalloc_variants = kmalloc_def kmalloc0_def kmalloc_a_def kmalloc0_a_def kmalloc_flags_def
  drop_phys_def M_ALIGNED_def M_ZERO_def

text \<open>A run of early requests (length, flags), and the addresses they get.\<close>

fun kmalloc_run :: "(u32 \<times> u32) list \<Rightarrow> 'a vm_state_scheme \<Rightarrow> (nat list \<times> 'a vm_state_scheme) res" where
  "kmalloc_run [] s = Inr ([], s)"
| "kmalloc_run ((len, flags) # reqs) s =
     bindr (kmalloc_flags 0 len False flags s) (\<lambda>(a, _, s).
     bindr (kmalloc_run reqs s) (\<lambda>(as, s). Inr (unat a # as, s)))"

definition demand :: "(u32 \<times> u32) list \<Rightarrow> nat" where
  "demand reqs = (\<Sum>(len, flags) \<leftarrow> reqs. unat len + 4096)"

definition request_met :: "nat \<Rightarrow> u32 \<times> u32 \<Rightarrow> memory \<Rightarrow> bool" where
  "request_met a r m \<longleftrightarrow> (snd r AND M_ALIGNED \<noteq> 0 \<longrightarrow> a mod 4096 = 0) \<and>
     (snd r AND M_ZERO \<noteq> 0 \<longrightarrow> (\<forall>x. a \<le> unat x \<longrightarrow> unat x < a + unat (fst r) \<longrightarrow> m x = 0))"

fun all_met :: "nat \<Rightarrow> nat list \<Rightarrow> (u32 \<times> u32) list \<Rightarrow> memory \<Rightarrow> bool" where
  "all_met p [] [] m \<longleftrightarrow> True"
| "all_met p (a # as) (r # rs) m \<longleftrightarrow>
     p \<le> a \<and> request_met a r m \<and> all_met (a + unat (fst r)) as rs m"
| "all_met p _ _ m \<longleftrightarrow> False"

lemma placed_bounds: "p \<le> placed p flags" "placed p flags \<le> p + 4096"
  "placed p flags mod 4096 = 0 \<or> flags AND M_ALIGNED = 0"
  using page_up_bounds [of p] by (auto simp: placed_def less_imp_le)

lemma zeroed_eq:
  assumes "a + unat len \<le> 4294967296" "a < 4294967296"
  shows "zeroed m flags a len x =
    (if flags AND M_ZERO \<noteq> 0 \<and> a \<le> unat x \<and> unat x < a + unat len then 0 else m x)"
  using assms by (simp add: zeroed_def bzero_eq in_range_no_wrap unat_of_nat_u32)

lemma kmalloc_run_ok:
  assumes "kernel_heap s = 0" "placement_address s = of_nat p" "4096 \<le> p" "p + demand reqs < 4294967296"
  shows "\<exists>as s'. kmalloc_run reqs s = Inr (as, s') \<and> all_met p as reqs (mem s') \<and>
    (\<forall>x. unat x < p \<longrightarrow> mem s' x = mem s x)"
  using assms
proof (induction reqs arbitrary: s p)
  case Nil
  then show ?case by simp
next
  case (Cons r reqs)
  obtain len flags where r: "r = (len, flags)" by (cases r)
  let ?a = "placed p flags"
  let ?s = "s\<lparr>placement_address := of_nat (?a + unat len), mem := zeroed (mem s) flags ?a len\<rparr>"
  have d: "p + unat len + 4096 + demand reqs < 4294967296" using Cons.prems(4) r by (simp add: demand_def)
  note b = placed_bounds [of p flags]
  have k: "kmalloc_flags 0 len False flags s = Inr (of_nat ?a, None, ?s)"
    using kmalloc_placement [OF Cons.prems(1-3), of len "alloc 0" False flags] d
    by (simp add: kmalloc_flags_def)
  obtain as s' where run: "kmalloc_run reqs ?s = Inr (as, s')" "all_met (?a + unat len) as reqs (mem s')"
      "\<forall>x. unat x < ?a + unat len \<longrightarrow> mem s' x = mem ?s x"
    using Cons.IH [of ?s "?a + unat len"] Cons.prems(1,3) b d by auto
  have z: "mem ?s x = (if flags AND M_ZERO \<noteq> 0 \<and> ?a \<le> unat x \<and> unat x < ?a + unat len then 0 else mem s x)" for x
    using zeroed_eq [of ?a len "mem s" flags x] b d by simp
  have ua: "unat (of_nat ?a :: u32) = ?a" using b d by (simp add: unat_of_nat_u32)
  have "request_met ?a r (mem s')" using run(3) z b r by (auto simp: request_met_def)
  then show ?case using k run b z ua r by (auto simp del: of_nat_add)
qed

text \<open>
  Property C10.  Before the heap exists, any sequence of \<open>kmalloc\<close> requests that fits in the address
  space succeeds: the blocks follow one another without overlap from the placement address on,
  aligned requests get page boundaries, zeroed requests are zero after the whole sequence, and no
  byte below the first placement address changes.
\<close>

theorem early_kmalloc_sound:
  assumes "kernel_heap s = 0" "4096 \<le> unat (placement_address s)"
    "unat (placement_address s) + demand reqs < 4294967296"
  shows "\<exists>as s'. kmalloc_run reqs s = Inr (as, s') \<and>
    all_met (unat (placement_address s)) as reqs (mem s') \<and>
    (\<forall>x. unat x < unat (placement_address s) \<longrightarrow> mem s' x = mem s x)"
  using kmalloc_run_ok [OF assms(1) _ assms(2,3)] by simp

theorem early_kmalloc_sound_witness:
  "\<exists>as s'. kmalloc_run [(100, 0), (4096, 3), (8, 2)] (boot_state 0x101234) = Inr (as, s') \<and>
     all_met 0x101234 as [(100, 0), (4096, 3), (8, 2)] (mem s')"
  using early_kmalloc_sound [of "boot_state 0x101234" "[(100, 0), (4096, 3), (8, 2)]"]
  by (auto simp: boot_state_def demand_def)

subsection \<open>Page tables\<close>

text \<open>A page table of which the first \<open>n\<close> entries map the frames from \<open>f\<close> on.\<close>

definition table_maps :: "memory \<Rightarrow> nat \<Rightarrow> nat \<Rightarrow> nat \<Rightarrow> bool" where
  "table_maps m t f n \<longleftrightarrow>
     (\<forall>k < 1024. ldn m (t + 4 * k) = (if k < n then word_of_page (fresh_page (f + k)) else 0))"

lemma table_maps_agree:
  assumes "table_maps m t f n" "\<And>x. t \<le> unat x \<Longrightarrow> unat x < t + 4096 \<Longrightarrow> m' x = m x"
    "t + 4096 \<le> 4294967296"
  shows "table_maps m' t f n"
  unfolding table_maps_def
proof (intro allI impI)
  fix k :: nat assume k: "k < 1024"
  have "ldn m' (t + 4 * k) = ldn m (t + 4 * k)" using k assms(2,3) by (intro ldn_agree) auto
  then show "ldn m' (t + 4 * k) = (if k < n then word_of_page (fresh_page (f + k)) else 0)"
    using k assms(1) by (simp add: table_maps_def)
qed

lemma table_maps_next:
  assumes "prefix_used (frames s) (mem s) (f + n)" "f + n < 1024" "n < 1024" "nframes s = 0x1000"
    "table_maps (mem s) t f n" "unat (frames s) + 128 \<le> t" "t + 4096 \<le> 4294967296"
  shows "\<exists>m'. alloc_frame (of_nat (t + 4 * n)) 0 0 s = Inr (s\<lparr>mem := m'\<rparr>) \<and>
    prefix_used (frames s) m' (f + Suc n) \<and> table_maps m' t f (Suc n) \<and>
    (\<forall>x. \<not> (unat (frames s) \<le> unat x \<and> unat x < unat (frames s) + 128) \<longrightarrow>
       \<not> (t \<le> unat x \<and> unat x < t + 4096) \<longrightarrow> m' x = mem s x)"
proof -
  have empty: "load32 (mem s) (of_nat (t + 4 * n)) = 0"
    using assms(3,5) by (simp add: table_maps_def ldn_def del: of_nat_add of_nat_mult)
  obtain m' where m': "alloc_frame (of_nat (t + 4 * n)) 0 0 s = Inr (s\<lparr>mem := m'\<rparr>)"
      "prefix_used (frames s) m' (Suc (f + n))" "load_page m' (of_nat (t + 4 * n)) = fresh_page (f + n)"
    and out: "\<And>x. \<not> (unat (frames s) \<le> unat x \<and> unat x < unat (frames s) + 128) \<Longrightarrow>
       \<not> (t + 4 * n \<le> unat x \<and> unat x < t + 4 * n + 4) \<Longrightarrow> m' x = mem s x"
    using alloc_frame_next [OF assms(1,2,4) empty] assms(3,6,7) by auto
  have "ldn m' (t + 4 * k) = (if k < Suc n then word_of_page (fresh_page (f + k)) else 0)" if "k < 1024" for k
  proof (cases "k = n")
    case True
    have "ldn m' (t + 4 * n) = word_of_page (load_page m' (of_nat (t + 4 * n)))"
      by (simp add: load_page_def ldn_def)
    with True m'(3) show ?thesis by simp
  next
    case False
    have "ldn m' (t + 4 * k) = ldn (mem s) (t + 4 * k)"
      using that False assms(3,6,7) by (intro ldn_agree out) auto
    with that False assms(5) show ?thesis by (simp add: table_maps_def)
  qed
  then have "table_maps m' t f (Suc n)" by (simp add: table_maps_def)
  then show ?thesis using m' out assms(3) by (intro exI [of _ m']) auto
qed

text \<open>\<open>get_page\<close> when the table is there, and when it has to be made by placement allocation.\<close>

lemma page_index:
  assumes "a < 4294967296"
  shows "(of_nat a div 0x1000 div 1024 :: u32) = of_nat (a div 4194304)"
    and "(of_nat a div 0x1000 mod 1024 :: u32) = of_nat (a div 4096 mod 1024)"
proof -
  have "a div 4194304 < 4294967296" "a div 4096 mod 1024 < 4294967296"
    using assms by (auto intro: le_less_trans [OF div_le_dividend] less_trans [OF mod_less_divisor])
  then show "(of_nat a div 0x1000 div 1024 :: u32) = of_nat (a div 4194304)"
    "(of_nat a div 0x1000 mod 1024 :: u32) = of_nat (a div 4096 mod 1024)"
    using assms by (simp_all add: u32_eq_iff unat_div unat_mod unat_of_nat_u32 div_mult2_eq [symmetric]
        del: of_nat_div of_nat_mod)
qed

lemma get_page_present:
  assumes "a < 4294967296" "ldn (mem s) (d + 4 * (a div 4194304)) = of_nat t" "0 < t" "t < 4294967296"
  shows "get_page_with km (of_nat a) create (of_nat d) s = Inr (of_nat (t + 4 * (a div 4096 mod 1024)), s)"
proof -
  have "(of_nat t :: u32) \<noteq> 0" using assms(3,4) by (simp add: u32_eq_iff unat_of_nat_u32)
  then show ?thesis
    using assms(2) by (simp add: get_page_with_def page_index [OF assms(1)] ldn_def Let_def
        del: of_nat_div of_nat_mod)
qed

text \<open>
  A directory: \<open>ts j\<close> is the address of table \<open>j\<close>, or 0.  Tables allocated before the heap exists
  lie at their physical addresses.
\<close>

definition dir_maps :: "memory \<Rightarrow> nat \<Rightarrow> (nat \<Rightarrow> nat) \<Rightarrow> bool" where
  "dir_maps m d ts \<longleftrightarrow> (\<forall>j < 1024. ldn m (d + 4 * j) = of_nat (ts j) \<and>
     ldn m (d + 4096 + 4 * j) = (if ts j = 0 then 0 else of_nat (ts j) OR 7))"

lemma dir_mapsD: "dir_maps m d ts \<Longrightarrow> j < 1024 \<Longrightarrow> ldn m (d + 4 * j) = of_nat (ts j)"
  by (simp add: dir_maps_def)

lemma dir_maps_agree:
  assumes "dir_maps m d ts" "\<And>x. d \<le> unat x \<Longrightarrow> unat x < d + 8192 \<Longrightarrow> m' x = m x" "d + 8192 \<le> 4294967296"
  shows "dir_maps m' d ts"
  unfolding dir_maps_def
proof (intro allI impI)
  fix j :: nat assume j: "j < 1024"
  have "ldn m' a = ldn m a" if "d \<le> a" "a + 4 \<le> d + 8192" for a
    using that assms(2,3) by (intro ldn_agree) auto
  then show "ldn m' (d + 4 * j) = of_nat (ts j) \<and>
      ldn m' (d + 4096 + 4 * j) = (if ts j = 0 then 0 else of_nat (ts j) OR 7)"
    using j assms(1) by (simp add: dir_maps_def)
qed

lemma dir_maps_update:
  assumes "dir_maps m d ts" "j < 1024" "0 < t" "d + 8192 \<le> 4294967296"
  shows "dir_maps (stn (stn m (d + 4 * j) (of_nat t)) (d + 4096 + 4 * j) (of_nat t OR 7)) d (ts(j := t))"
  unfolding dir_maps_def
proof (intro allI impI)
  fix k :: nat assume k: "k < 1024"
  let ?m = "stn (stn m (d + 4 * j) (of_nat t)) (d + 4096 + 4 * j) (of_nat t OR 7)"
  have "ldn ?m (d + 4 * k) = (if k = j then of_nat t else ldn m (d + 4 * k))"
    using k assms(2,4) by (cases k j rule: linorder_cases) (auto simp: ldn_stn_other)
  moreover have "ldn ?m (d + 4096 + 4 * k) = (if k = j then of_nat t OR 7 else ldn m (d + 4096 + 4 * k))"
    using k assms(2,4) by (cases k j rule: linorder_cases) (auto simp: ldn_stn_other)
  ultimately show "ldn ?m (d + 4 * k) = of_nat ((ts(j := t)) k) \<and>
      ldn ?m (d + 4096 + 4 * k) = (if (ts(j := t)) k = 0 then 0 else of_nat ((ts(j := t)) k) OR 7)"
    using k assms(1,3) by (simp add: dir_maps_def)
qed

lemma table_maps_zero:
  assumes "\<And>x. t \<le> unat x \<Longrightarrow> unat x < t + 4096 \<Longrightarrow> m x = 0" "t + 4096 \<le> 4294967296"
  shows "table_maps m t f 0"
  unfolding table_maps_def
proof (intro allI impI)
  fix k :: nat assume k: "k < 1024"
  have "ldn m (t + 4 * k) = ldn (\<lambda>_. 0) (t + 4 * k)" using k assms by (intro ldn_agree) auto
  then show "ldn m (t + 4 * k) = (if k < 0 then word_of_page (fresh_page (f + k)) else 0)"
    by (simp add: ldn_def load32_def)
qed

lemma get_page_create:
  assumes "kernel_heap s = 0" "placement_address s = of_nat p" "4096 \<le> p" "d + 8192 \<le> p"
    "p + 8192 < 4294967296" "dir_maps (mem s) d ts" "j < 1024" "ts j = 0"
    "a < 4294967296" "a div 4194304 = j"
  defines "t \<equiv> page_up p"
  shows "\<exists>m'. get_page_with (kmalloc0_ap_with al) (of_nat a) True (of_nat d) s =
      Inr (of_nat (t + 4 * (a div 4096 mod 1024)), s\<lparr>placement_address := of_nat (t + 4096), mem := m'\<rparr>) \<and>
    dir_maps m' d (ts(j := t)) \<and> table_maps m' t f 0 \<and>
    (\<forall>x. \<not> (d \<le> unat x \<and> unat x < d + 8192) \<longrightarrow> \<not> (t \<le> unat x \<and> unat x < t + 4096) \<longrightarrow> m' x = mem s x)"
proof -
  let ?z = "bzero (mem s) (of_nat t) 4096"
  let ?m1 = "stn ?z (d + 4 * j) (of_nat t)"
  let ?m' = "stn ?m1 (d + 4096 + 4 * j) (of_nat t OR 7)"
  have t: "p < t" "t + 4096 < 4294967296" using page_up_bounds [of p] assms(5) by (simp_all add: t_def)
  have km: "kmalloc0_ap_with al 4096 s = Inr (of_nat t, of_nat t, s\<lparr>placement_address := of_nat (t + 4096), mem := ?z\<rparr>)"
    using kmalloc_placement [OF assms(1-3), of 4096 al True "M_ALIGNED OR M_ZERO"] assms(5)
    by (simp add: kmalloc0_ap_with_def M_ALIGNED_def M_ZERO_def placed_def zeroed_def t_def)
  have z: "?z x = (if t \<le> unat x \<and> unat x < t + 4096 then 0 else mem s x)" for x
    using zeroed_eq [of t 4096 "mem s" M_ZERO x] t by (simp add: zeroed_def M_ZERO_def)
  have out: "?m' x = ?z x" if "\<not> (d \<le> unat x \<and> unat x < d + 8192)" for x
    using that assms(4,5,7) by (subst stn_agree; (subst stn_agree)?) auto
  have "dir_maps ?z d ts" by (rule dir_maps_agree [OF assms(6)]) (use assms(4,5) t z in auto)
  then have dir: "dir_maps ?m' d (ts(j := t))" using assms(4,5,7) t by (intro dir_maps_update) auto
  have "table_maps ?m' t f 0" by (rule table_maps_zero) (use out z t assms(4) in auto)
  moreover have "ldn (mem s) (d + 4 * j) = 0" using assms(6,7,8) by (simp add: dir_maps_def)
  moreover have "ldn ?m' (d + 4 * j) = of_nat t" using dir assms(7) by (simp add: dir_maps_def)
  ultimately show ?thesis
    using km dir out z
    by (intro exI [of _ ?m'])
      (simp add: get_page_with_def page_index [OF assms(9)] assms(10) ldn_def stn_def Let_def
        del: of_nat_div of_nat_mod)
qed

subsection \<open>The loops of \<open>init_paging\<close>\<close>

lemma page_step: "(of_nat a + 0x1000 :: u32) = of_nat (a + 4096)"
  by simp

lemma map_tables_present:
  assumes "kernel_directory s = of_nat d" "ldn (mem s) (d + 4 * j) = of_nat t" "0 < t" "t < 4294967296"
    "4194304 * j \<le> a" "a + 4096 * k \<le> 4194304 * Suc j" "j < 1024"
  shows "map_tables k (of_nat a) s = Inr s"
  using assms(5,6)
proof (induction k arbitrary: a)
  case (Suc k)
  have j: "a div 4194304 = j" using Suc.prems by (intro div_nat_eqI) auto
  have a: "a < 4294967296" using Suc.prems assms(7) by simp
  have "get_page 0 (of_nat a) True (kernel_directory s) s = Inr (of_nat (t + 4 * (a div 4096 mod 1024)), s)"
    unfolding get_page_def assms(1) using assms(2-4) j by (intro get_page_present a) auto
  then show ?case using Suc.IH [of "a + 4096"] Suc.prems by (simp add: page_step del: of_nat_add)
qed simp

lemma entry_index:
  assumes "a = 4194304 * j + 4096 * n" "n < (1024 :: nat)"
  shows "a div 4194304 = j" "a div 4096 mod 1024 = n"
proof -
  show "a div 4194304 = j" using assms by (intro div_nat_eqI) auto
  have "a div 4096 = 1024 * j + n" using assms(1) by simp
  then show "a div 4096 mod 1024 = n" using assms(2) by simp
qed

text \<open>
  What both frame loops keep: the bitset is a prefix, table \<open>j\<close> maps consecutive frames.  The state
  changes in memory only, and there only in the bitset and in the table.
\<close>

definition filled :: "'a vm_state_scheme \<Rightarrow> nat \<Rightarrow> nat \<Rightarrow> nat \<Rightarrow> nat \<Rightarrow> nat \<Rightarrow> bool" where
  "filled s d j t f n \<longleftrightarrow>
     kernel_directory s = of_nat d \<and> ldn (mem s) (d + 4 * j) = of_nat t \<and> nframes s = 0x1000 \<and>
     prefix_used (frames s) (mem s) (f + n) \<and> table_maps (mem s) t f n \<and>
     unat (frames s) + 128 \<le> d \<and> d + 8192 \<le> t \<and> t + 4096 \<le> 4294967296 \<and> j < 1024"

lemma filled_agree:
  assumes "filled s d j t f n" "\<forall>y. unat y < t + 4096 \<longrightarrow> mem s' y = mem s y"
    "kernel_directory s' = kernel_directory s" "nframes s' = nframes s" "frames s' = frames s"
  shows "filled s' d j t f n"
proof -
  have F: "unat (frames s) + 128 \<le> d" "d + 8192 \<le> t" "t + 4096 \<le> 4294967296" "j < 1024"
      "prefix_used (frames s) (mem s) (f + n)" "table_maps (mem s) t f n" "ldn (mem s) (d + 4 * j) = of_nat t"
    using assms(1) by (simp_all add: filled_def)
  have "prefix_used (frames s) (mem s') (f + n)" by (rule prefix_used_agree [OF F(5)]) (use assms(2) F in auto)
  moreover have "table_maps (mem s') t f n" by (rule table_maps_agree [OF F(6)]) (use assms(2) F in auto)
  moreover have "ldn (mem s') (d + 4 * j) = of_nat t"
    using F(7) ldn_agree [of "d + 4 * j" "mem s'" "mem s"] assms(2) F(1-4) by simp
  ultimately show ?thesis using assms by (simp add: filled_def)
qed

definition only_in :: "'a vm_state_scheme \<Rightarrow> nat \<Rightarrow> memory \<Rightarrow> bool" where
  "only_in s t m' \<longleftrightarrow> (\<forall>x. \<not> (unat (frames s) \<le> unat x \<and> unat x < unat (frames s) + 128) \<longrightarrow>
     \<not> (t \<le> unat x \<and> unat x < t + 4096) \<longrightarrow> m' x = mem s x)"

lemma filled_step:
  assumes "filled s d j t f n" "f + n < 1024" "n < 1024" "a = 4194304 * j + 4096 * n"
  shows "\<exists>m'. bindr (get_page_with km (of_nat a) c (kernel_directory s) s) (\<lambda>(p, s). alloc_frame p 0 0 s) =
      Inr (s\<lparr>mem := m'\<rparr>) \<and> filled (s\<lparr>mem := m'\<rparr>) d j t f (Suc n) \<and> only_in s t m'"
proof -
  have F: "kernel_directory s = of_nat d" "ldn (mem s) (d + 4 * j) = of_nat t" "nframes s = 0x1000"
      "prefix_used (frames s) (mem s) (f + n)" "table_maps (mem s) t f n"
      "unat (frames s) + 128 \<le> d" "d + 8192 \<le> t" "t + 4096 \<le> 4294967296" "j < 1024"
    using assms(1) by (simp_all add: filled_def)
  have a: "a < 4294967296" using F(9) assms(3,4) by linarith
  have "get_page_with km (of_nat a) c (kernel_directory s) s = Inr (of_nat (t + 4 * n), s)"
    unfolding F(1) using get_page_present [OF a, of s d t] F(2,7,8) entry_index [OF assms(4,3)]
    by auto
  moreover obtain m' where m': "alloc_frame (of_nat (t + 4 * n)) 0 0 s = Inr (s\<lparr>mem := m'\<rparr>)"
      "prefix_used (frames s) m' (f + Suc n)" "table_maps m' t f (Suc n)" "only_in s t m'"
    using table_maps_next [OF F(4) assms(2,3) F(3,5) _ F(8)] F(6,7) by (auto simp: only_in_def)
  moreover have "ldn m' (d + 4 * j) = ldn (mem s) (d + 4 * j)"
    using m'(4) F(6-9) by (intro ldn_agree) (auto simp: only_in_def)
  ultimately show ?thesis using F by (intro exI [of _ m']) (auto simp: filled_def)
qed

lemma only_in_trans:
  "only_in s t m1 \<Longrightarrow> only_in (s\<lparr>mem := m1\<rparr>) t m2 \<Longrightarrow> only_in s t m2"
  by (simp add: only_in_def)

lemma map_heap_area_ok:
  assumes "filled s d j t f n" "f + n + k \<le> 1024" "n + k \<le> 1024"
  shows "\<exists>m'. map_heap_area k (of_nat (4194304 * j + 4096 * n)) s = Inr (s\<lparr>mem := m'\<rparr>) \<and>
    filled (s\<lparr>mem := m'\<rparr>) d j t f (n + k) \<and> only_in s t m'"
  using assms
proof (induction k arbitrary: n s)
  case 0
  then show ?case by (intro exI [of _ "mem s"]) (simp add: only_in_def)
next
  case (Suc k)
  let ?a = "4194304 * j + 4096 * n"
  obtain m1 where m1: "bindr (get_page 0 (of_nat ?a) False (kernel_directory s) s) (\<lambda>(p, s). alloc_frame p 0 0 s) =
      Inr (s\<lparr>mem := m1\<rparr>)" "filled (s\<lparr>mem := m1\<rparr>) d j t f (Suc n)" "only_in s t m1"
    using filled_step [OF Suc.prems(1), of ?a _ False] Suc.prems(2,3) unfolding get_page_def by auto
  have "4096 * n + 4096 = 4096 * Suc n" by simp
  then have "map_heap_area (Suc k) (of_nat ?a) s = map_heap_area k (of_nat (4194304 * j + 4096 * Suc n)) (s\<lparr>mem := m1\<rparr>)"
    using m1(1)
    by (auto simp: bindr_eq_Inr page_step add.assoc simp del: of_nat_add of_nat_mult mult_Suc_right)
  moreover obtain m' where "map_heap_area k (of_nat (4194304 * j + 4096 * Suc n)) (s\<lparr>mem := m1\<rparr>) =
      Inr (s\<lparr>mem := m'\<rparr>)" "filled (s\<lparr>mem := m'\<rparr>) d j t f (Suc n + k)" "only_in (s\<lparr>mem := m1\<rparr>) t m'"
    using Suc.IH [OF m1(2)] Suc.prems(2,3) by auto
  ultimately show ?case using only_in_trans [OF m1(3)] by (intro exI [of _ m']) auto
qed

text \<open>The identity loop runs from page \<open>n\<close> up to the placement address, a page boundary.\<close>

lemma identity_map_ok:
  assumes "filled s d 0 t 0 n" "placement_address s = of_nat (4096 * e)" "n + k = e" "e \<le> 1024" "k \<le> fuel"
  shows "\<exists>m'. identity_map fuel (of_nat (4096 * n)) s = Inr (s\<lparr>mem := m'\<rparr>) \<and>
    filled (s\<lparr>mem := m'\<rparr>) d 0 t 0 e \<and> only_in s t m'"
  using assms
proof (induction k arbitrary: n s fuel)
  case 0
  then show ?case by (intro exI [of _ "mem s"]) (simp add: only_in_def identity_map.simps)
next
  case (Suc k)
  let ?a = "4194304 * 0 + 4096 * n"
  obtain m1 where m1: "bindr (get_page 0 (of_nat ?a) True (kernel_directory s) s) (\<lambda>(p, s). alloc_frame p 0 0 s) =
      Inr (s\<lparr>mem := m1\<rparr>)" "filled (s\<lparr>mem := m1\<rparr>) d 0 t 0 (Suc n)" "only_in s t m1"
    using filled_step [OF Suc.prems(1), of ?a _ True] Suc.prems(3,4) unfolding get_page_def by auto
  have "(of_nat (4096 * n) :: u32) < of_nat (4096 * e)"
    using Suc.prems(3,4) by (simp add: u32_less_iff unat_of_nat_u32 del: of_nat_mult)
  moreover have "4096 * n + 4096 = 4096 * Suc n" by simp
  ultimately have "identity_map fuel (of_nat (4096 * n)) s =
      identity_map (fuel - 1) (of_nat (4096 * Suc n)) (s\<lparr>mem := m1\<rparr>)"
    using m1(1) Suc.prems(2,5)
    by (subst identity_map.simps)
      (auto simp: bindr_eq_Inr page_step simp del: of_nat_add of_nat_mult mult_Suc_right)
  moreover obtain m' where "identity_map (fuel - 1) (of_nat (4096 * Suc n)) (s\<lparr>mem := m1\<rparr>) =
      Inr (s\<lparr>mem := m'\<rparr>)" "filled (s\<lparr>mem := m'\<rparr>) d 0 t 0 e" "only_in (s\<lparr>mem := m1\<rparr>) t m'"
  proof -
    have "k \<le> fuel - 1" using Suc.prems(5) by simp
    from Suc.IH [OF m1(2) _ _ Suc.prems(4) this] show ?thesis using that Suc.prems(2,3) by auto
  qed
  ultimately show ?case using only_in_trans [OF m1(3)] by (intro exI [of _ m']) auto
qed

end
