(* ===== verification/Heap.thy ===== *)
theory Heap
  imports Paging
begin

unbundle bit_operations_syntax

section \<open>The kernel heap: layout invariant, \<open>alloc\<close> and \<open>free\<close>\<close>

text \<open>
  The heap between \<open>h_addr_start\<close> and \<open>h_addr_end\<close> is described by a list of blocks
  \<open>(size, is_hole)\<close> that tile it from left to right.  \<open>heap_inv\<close> relates the list to the
  headers and footers in memory and to the index, which holds exactly the addresses of the
  holes.  \<open>alloc\<close> and \<open>free\<close> are shown to act on the list as their specifications say,
  to keep the invariant, and to leave every byte of the other allocated blocks alone.
\<close>

subsection \<open>Header fields at natural-number addresses\<close>

lemma write_header_nat:
  "write_header (of_nat x) h n m = stn (stn (stn m x VM_HEAP_HDR_MAGIC) (x + 4) h) (x + 8) n"
  by (simp add: write_header_def stn_def)

lemma write_footer_nat:
  "write_footer (of_nat x) p m = stn (stn m x VM_HEAP_FTR_MAGIC) (x + 4) p"
  by (simp add: write_footer_def stn_def)

lemma header_fields_nat:
  "hh_magic m (of_nat x) = ldn m x" "hh_is_hole m (of_nat x) = ldn m (x + 4)"
  "hh_size m (of_nat x) = ldn m (x + 8)" "hf_magic m (of_nat x) = ldn m x"
  "hf_header m (of_nat x) = ldn m (x + 4)" "set_hh_size (of_nat x) v m = stn m (x + 8) v"
  "set_hh_is_hole (of_nat x) v m = stn m (x + 4) v"
  by (simp_all add: hh_magic_def hh_is_hole_def hh_size_def hf_magic_def hf_header_def
      set_hh_size_def set_hh_is_hole_def ldn_def stn_def)

subsection \<open>Blocks\<close>

type_synonym block = "nat \<times> bool"   \<comment> \<open>size in bytes with header and footer, hole?\<close>

fun addrs :: "nat \<Rightarrow> block list \<Rightarrow> (nat \<times> nat \<times> bool) list" where
  "addrs a [] = []"
| "addrs a ((n, h) # bs) = (a, n, h) # addrs (a + n) bs"

definition extent :: "block list \<Rightarrow> nat" where
  "extent bs = sum_list (map fst bs)"

lemma extent_simps [simp]:
  "extent [] = 0" "extent ((n, h) # bs) = n + extent bs" "extent (xs @ ys) = extent xs + extent ys"
  by (simp_all add: extent_def)

lemma addrs_append: "addrs a (xs @ ys) = addrs a xs @ addrs (a + extent xs) ys"
  by (induction a xs rule: addrs.induct) (simp_all add: add.assoc)

lemma addrs_bounds: "(x, n, h) \<in> set (addrs a bs) \<Longrightarrow> a \<le> x \<and> x + n \<le> a + extent bs"
  by (induction a bs rule: addrs.induct) fastforce+

lemma addrs_split:
  "(x, n, h) \<in> set (addrs a bs) \<Longrightarrow> \<exists>pre post. bs = pre @ (n, h) # post \<and> x = a + extent pre"
proof (induction a bs rule: addrs.induct)
  case (1 a)
  then show ?case by simp
next
  case (2 a n' h' bs)
  show ?case
  proof (cases "(x, n, h) = (a, n', h')")
    case True
    then show ?thesis by (metis add.right_neutral append_Nil prod.inject extent_simps(1))
  next
    case False
    with 2 obtain pre post where "bs = pre @ (n, h) # post" "x = a + n' + extent pre" by auto
    then have "(n', h') # bs = ((n', h') # pre) @ (n, h) # post" "x = a + extent ((n', h') # pre)" by auto
    then show ?thesis by blast
  qed
qed

definition header_at :: "memory \<Rightarrow> nat \<Rightarrow> nat \<Rightarrow> bool \<Rightarrow> bool" where
  "header_at m x n h \<longleftrightarrow> ldn m x = VM_HEAP_HDR_MAGIC \<and>
     ldn m (x + 4) = of_bool h \<and> ldn m (x + 8) = of_nat n"

definition footer_at :: "memory \<Rightarrow> nat \<Rightarrow> nat \<Rightarrow> bool" where
  "footer_at m x n \<longleftrightarrow> ldn m (x + n - 8) = VM_HEAP_FTR_MAGIC \<and> ldn m (x + n - 4) = of_nat x"

text \<open>
  A well-formed block.  The hole that \<open>init_heap\<close> makes has no footer; it ends at the end of
  the heap, where no block to its right ever looks for one.
\<close>

definition block_ok :: "memory \<Rightarrow> nat \<Rightarrow> nat \<times> nat \<times> bool \<Rightarrow> bool" where
  "block_ok m e b = (case b of (x, n, h) \<Rightarrow>
     20 \<le> n \<and> header_at m x n h \<and> (h \<and> x + n = e \<or> footer_at m x n))"

definition heap_ok :: "memory \<Rightarrow> nat \<Rightarrow> block list \<Rightarrow> nat \<Rightarrow> bool" where
  "heap_ok m a bs e \<longleftrightarrow> a + extent bs = e \<and> (\<forall>b \<in> set (addrs a bs). block_ok m e b)"

lemma block_ok_agree:
  assumes "block_ok m e (x, n, h)" "\<And>y. x \<le> unat y \<Longrightarrow> unat y < x + n \<Longrightarrow> m' y = m y"
    "x + n \<le> 4294967296"
  shows "block_ok m' e (x, n, h)"
proof -
  have n: "20 \<le> n" using assms(1) by (simp add: block_ok_def)
  have "ldn m' k = ldn m k" if "x \<le> k" "k + 4 \<le> x + n" for k
    using that assms(2,3) by (intro ldn_agree) auto
  with n assms(1) show ?thesis by (simp add: block_ok_def header_at_def footer_at_def)
qed

definition holes :: "nat \<Rightarrow> block list \<Rightarrow> nat set" where
  "holes a bs = {x. \<exists>n. (x, n, True) \<in> set (addrs a bs)}"

lemma holes_append: "holes a (xs @ ys) = holes a xs \<union> holes (a + extent xs) ys"
  by (auto simp: holes_def addrs_append)

lemma holes_simps [simp]:
  "holes a [] = {}" "holes a ((n, True) # bs) = insert a (holes (a + n) bs)"
  "holes a ((n, False) # bs) = holes (a + n) bs"
  by (auto simp: holes_def)

lemma holes_bounds: "x \<in> holes a bs \<Longrightarrow> \<forall>b \<in> set bs. 0 < fst b \<Longrightarrow> a \<le> x \<and> x < a + extent bs"
proof -
  assume "x \<in> holes a bs" and pos: "\<forall>b \<in> set bs. 0 < fst b"
  then obtain n where n: "(x, n, True) \<in> set (addrs a bs)" by (auto simp: holes_def)
  from addrs_split [OF n] pos have "0 < n" by force
  with addrs_bounds [OF n] show ?thesis by linarith
qed

subsection \<open>The invariant\<close>

text \<open>
  The index lies below the heap (with room for the footer word the first block looks for),
  compares by hole size, and lists every hole exactly once.
\<close>

definition index_ok :: "sorted_array \<Rightarrow> nat \<Rightarrow> bool" where
  "index_ok ix a \<longleftrightarrow> sa_wf ix \<and> sa_cmp ix = Some vm_heap_header_cmp \<and>
     unat (sa_array ix) + 4 * unat (sa_maxsize ix) + 8 \<le> a"

definition heap_inv :: "vm_heap \<Rightarrow> memory \<Rightarrow> block list \<Rightarrow> bool" where
  "heap_inv h m bs \<longleftrightarrow>
     heap_ok m (unat (h_addr_start h)) bs (unat (h_addr_end h)) \<and>
     index_ok (h_index h) (unat (h_addr_start h)) \<and>
     distinct (sa_list (h_index h) m) \<and>
     unat ` set (sa_list (h_index h) m) = holes (unat (h_addr_start h)) bs"

lemma heap_inv_block:
  assumes "heap_inv h m bs" "(x, n, b) \<in> set (addrs (unat (h_addr_start h)) bs)"
  shows "block_ok m (unat (h_addr_end h)) (x, n, b)"
    "unat (h_addr_start h) \<le> x" "x + n \<le> unat (h_addr_end h)" "x + n \<le> 4294967295" "20 \<le> n"
proof -
  show ok: "block_ok m (unat (h_addr_end h)) (x, n, b)"
    using assms by (auto simp: heap_inv_def heap_ok_def)
  show "unat (h_addr_start h) \<le> x" using addrs_bounds [OF assms(2)] by simp
  show e: "x + n \<le> unat (h_addr_end h)"
    using addrs_bounds [OF assms(2)] assms(1) by (simp add: heap_inv_def heap_ok_def)
  show "x + n \<le> 4294967295" using e unat_u32_le [of "h_addr_end h"] by linarith
  show "20 \<le> n" using ok by (simp add: block_ok_def)
qed

lemma heap_inv_hole_bounds:
  assumes "heap_inv h m bs" "w \<in> set (sa_list (h_index h) m)"
  shows "unat (h_addr_start h) \<le> unat w \<and> unat w + 20 \<le> unat (h_addr_end h)"
proof -
  have "unat w \<in> holes (unat (h_addr_start h)) bs" using assms by (auto simp: heap_inv_def)
  then obtain n where "(unat w, n, True) \<in> set (addrs (unat (h_addr_start h)) bs)" by (auto simp: holes_def)
  from heap_inv_block [OF assms(1) this] show ?thesis by linarith
qed

text \<open>The cells of the index and the bytes of the heap do not overlap.\<close>

lemma index_cells_below:
  assumes "index_ok ix a" "k \<le> unat (sa_maxsize ix)" "a \<le> unat x"
  shows "\<not> in_range (sa_array ix) (4 * k) x"
proof -
  have "unat (sa_array ix) + 4 * k + 8 \<le> unat x" using assms by (auto simp: index_ok_def)
  moreover from this have "unat (sa_array ix) + 4 * k \<le> 4294967296"
    using unat_u32_less [of x] by linarith
  ultimately show ?thesis by (simp add: in_range_no_wrap)
qed

lemma sa_list_agree:
  assumes "index_ok ix a" "\<And>x. unat x < a \<Longrightarrow> m' x = m x" "a \<le> 4294967296"
  shows "sa_list ix m' = sa_list ix m"
proof (rule nth_equalityI)
  fix i assume "i < length (sa_list ix m')"
  then have i: "i < unat (sa_size ix)" by simp
  have b: "unat (sa_array ix) + 4 * Suc i \<le> a"
    using assms(1) i by (auto simp: index_ok_def sa_wf_def u32_le_iff)
  have "cell ix (of_nat i) = of_nat (unat (sa_array ix) + 4 * i)" by (simp add: cell_def)
  then show "sa_list ix m' ! i = sa_list ix m ! i"
    using i b assms(2,3) ldn_agree [of "unat (sa_array ix) + 4 * i" m' m]
    by (simp only: nth_sa_list length_sa_list) (simp add: ldn_def)
qed simp

subsection \<open>The index as a set\<close>

lemma unat_image_remove: "unat ` (A - {w}) = unat ` A - {unat (w :: u32)}"
  by (auto simp: u32_eq_iff)

lemma index_remove:
  assumes "index_ok ix a" "i < sa_size ix" "distinct (sa_list ix m)"
  shows "\<exists>ix' m'. remove_sorted_array ix i m = Inr (ix', m') \<and> index_ok ix' a \<and>
    sa_array ix' = sa_array ix \<and> sa_maxsize ix' = sa_maxsize ix \<and> sa_size ix' < sa_maxsize ix' \<and>
    distinct (sa_list ix' m') \<and> set (sa_list ix' m') = set (sa_list ix m) - {sa_list ix m ! unat i} \<and>
    sa_list ix' m' = remove_nth (unat i) (sa_list ix m) \<and>
    (\<forall>y. \<not> in_range (sa_array ix) (4 * unat (sa_maxsize ix)) y \<longrightarrow> m' y = m y)"
proof -
  let ?ix = "ix\<lparr>sa_size := sa_size ix - 1\<rparr>"
  have wf: "sa_wf ix" using assms(1) by (simp add: index_ok_def)
  obtain m' where m': "remove_sorted_array ix i m = Inr (?ix, m')"
      "sa_list ?ix m' = remove_nth (unat i) (sa_list ix m)"
      "\<forall>x. \<not> in_range (sa_array ix) (4 * unat (sa_size ix)) x \<longrightarrow> m' x = m x"
    using remove_sorted_array_ok [OF wf assms(2)] by blast
  have i: "unat i < unat (sa_size ix)" using assms(2) by (simp add: u32_less_iff)
  then have n: "unat (sa_size ix - 1) = unat (sa_size ix) - 1" by (intro unat_pred_u32) auto
  have le: "unat (sa_size ix) \<le> unat (sa_maxsize ix)" using wf by (simp add: sa_wf_def u32_le_iff)
  have "index_ok ?ix a" "sa_size ?ix < sa_maxsize ?ix"
    using assms(1) i n le by (auto simp: index_ok_def sa_wf_def u32_le_iff u32_less_iff)
  moreover have "m' y = m y" if "\<not> in_range (sa_array ix) (4 * unat (sa_maxsize ix)) y" for y
    using that le m'(3) by (auto simp: in_range_def)
  ultimately show ?thesis
    using m' remove_nth_set [OF assms(3), of "unat i"] i by (intro exI [of _ ?ix] exI [of _ m']) auto
qed

lemma index_insert:
  assumes "index_ok ix a" "sa_size ix < sa_maxsize ix" "distinct (sa_list ix m)" "el \<notin> set (sa_list ix m)"
  shows "\<exists>ix' m'. insert_sorted_array ix el m = Inr (ix', m') \<and> index_ok ix' a \<and>
    sa_array ix' = sa_array ix \<and> sa_maxsize ix' = sa_maxsize ix \<and>
    distinct (sa_list ix' m') \<and> set (sa_list ix' m') = insert el (set (sa_list ix m)) \<and>
    sa_list ix' m' = insert_before (\<lambda>x. sint (vm_heap_header_cmp m x el) < 0) el (sa_list ix m) \<and>
    (\<forall>y. \<not> in_range (sa_array ix) (4 * unat (sa_maxsize ix)) y \<longrightarrow> m' y = m y)"
proof -
  let ?ix = "ix\<lparr>sa_size := sa_size ix + 1\<rparr>" and ?p = "\<lambda>x. sint (vm_heap_header_cmp m x el) < 0"
  have wf: "sa_wf ix" and cmp: "sa_cmp ix = Some vm_heap_header_cmp" using assms(1) by (simp_all add: index_ok_def)
  obtain m' where m': "insert_sorted_array ix el m = Inr (?ix, m')"
      "sa_list ?ix m' = insert_before ?p el (sa_list ix m)"
      "\<forall>x. \<not> in_range (sa_array ix) (4 * Suc (unat (sa_size ix))) x \<longrightarrow> m' x = m x"
    using insert_sorted_array_ok [OF wf assms(2) cmp] by blast
  have lt: "unat (sa_size ix) < unat (sa_maxsize ix)" using assms(2) by (simp add: u32_less_iff)
  then have n: "unat (sa_size ix + 1) = Suc (unat (sa_size ix))"
    using unat_Suc_of_nat [of "unat (sa_size ix)"] unat_u32_less [of "sa_maxsize ix"] by simp
  have "index_ok ?ix a" using assms(1) lt n by (auto simp: index_ok_def sa_wf_def u32_le_iff)
  moreover have "m' y = m y" if "\<not> in_range (sa_array ix) (4 * unat (sa_maxsize ix)) y" for y
    using that lt m'(3) by (auto simp: in_range_def)
  moreover have "distinct (insert_before ?p el (sa_list ix m))"
    using assms(3,4) mset_insert_before [of ?p el "sa_list ix m"]
    by (metis distinct.simps(2) mset.simps(2) mset_eq_imp_distinct_iff)
  ultimately show ?thesis using m' by (intro exI [of _ ?ix] exI [of _ m']) auto
qed

subsection \<open>Replacing a run of blocks\<close>

lemma heap_ok_splice:
  assumes "heap_ok m a (pre @ old @ post) e" "extent mid = extent old" "e \<le> 4294967296"
    "\<forall>b \<in> set (addrs (a + extent pre) mid). block_ok m' e b"
    "\<And>y. a \<le> unat y \<Longrightarrow> \<not> (a + extent pre \<le> unat y \<and> unat y < a + extent pre + extent old) \<Longrightarrow> m' y = m y"
  shows "heap_ok m' a (pre @ mid @ post) e"
  unfolding heap_ok_def
proof (intro conjI ballI)
  have e: "a + extent (pre @ old @ post) = e" using assms(1) by (simp add: heap_ok_def)
  then show "a + extent (pre @ mid @ post) = e" using assms(2) by simp
  have keep: "block_ok m' e b"
    if b: "b \<in> set (addrs a pre) \<union> set (addrs (a + extent pre + extent old) post)" for b
  proof -
    obtain x n h where xb: "b = (x, n, h)" by (cases b)
    have ok: "block_ok m e (x, n, h)"
      using b xb assms(1) by (auto simp: heap_ok_def addrs_append)
    have "a \<le> x \<and> x + n \<le> a + extent pre \<or> a + extent pre + extent old \<le> x \<and> x + n \<le> e"
      using b xb addrs_bounds [of x n h] e by fastforce
    then show ?thesis
      unfolding xb using e assms(3,5) by (intro block_ok_agree [OF ok]) auto
  qed
  fix b assume "b \<in> set (addrs a (pre @ mid @ post))"
  then show "block_ok m' e b" using keep [of b] assms(2,4) by (auto simp: addrs_append)
qed

lemma holes_apart:
  assumes "\<forall>b \<in> set (pre @ post). 0 < fst b" "a + extent pre \<le> z" "z < y"
  shows "z \<notin> holes a pre" "z \<notin> holes y post"
  using holes_bounds [of z a pre] holes_bounds [of z y post] assms by auto

lemma heap_ok_pos: "heap_ok m a bs e \<Longrightarrow> b \<in> set bs \<Longrightarrow> 20 \<le> fst b"
proof -
  assume ok: "heap_ok m a bs e" and b: "b \<in> set bs"
  then obtain pre post where bs: "bs = pre @ b # post" by (auto simp: in_set_conv_decomp)
  obtain n h where nh: "b = (n, h)" by (cases b)
  have "(a + extent pre, n, h) \<in> set (addrs a bs)" by (simp add: bs nh addrs_append)
  then show "20 \<le> fst b" using ok nh by (fastforce simp: heap_ok_def block_ok_def)
qed

lemma heap_ok_all_pos: "heap_ok m a bs e \<Longrightarrow> set cs \<subseteq> set bs \<Longrightarrow> \<forall>b \<in> set cs. 0 < fst b"
  using heap_ok_pos by (metis less_le_trans subsetD zero_less_numeral)

subsection \<open>A new heap\<close>

lemma insert_before_Nil [simp]: "insert_before p el [] = [el]"
  by (simp add: insert_before_def)

lemma header_at_write: "x + 12 \<le> 4294967296 \<Longrightarrow>
    header_at (write_header (of_nat x) (of_bool h) (of_nat n) m) x n h"
  unfolding header_at_def write_header_nat by (simp add: ldn_stn_other)

lemma write_header_agree:
  assumes "unat y < x \<or> x + 12 \<le> unat y" "x + 12 \<le> 4294967296"
  shows "write_header (of_nat x) h n m y = m y"
  unfolding write_header_nat using assms by (subst stn_agree; (subst stn_agree)?; (subst stn_agree)?) auto

lemma header_at_agree:
  assumes "header_at m x n h" "\<And>y. x \<le> unat y \<Longrightarrow> unat y < x + 12 \<Longrightarrow> m' y = m y" "x + 12 \<le> 4294967296"
  shows "header_at m' x n h"
proof -
  have "ldn m' k = ldn m k" if "x \<le> k" "k + 4 \<le> x + 12" for k
    using that assms(2,3) by (intro ldn_agree) auto
  then show ?thesis using assms(1) by (simp add: header_at_def)
qed

text \<open>
  \<open>init_heap\<close> reserves the index at the front, starts the heap on the next page boundary after it
  (skipping a page when the index ends on one) and makes the rest one hole.
\<close>

lemma init_heap_ok:
  assumes "a mod 4096 = 0" "e mod 4096 = 0" "page_up (a + 0x80000) + 20 \<le> e" "e < 4294967296"
  defines "b \<equiv> page_up (a + 0x80000)"
  shows "\<exists>h m'. init_heap heap (of_nat a) (of_nat e) hmax su ro s =
      Inr (heap, upd_heap heap (\<lambda>_. h) (s\<lparr>mem := m'\<rparr>)) \<and>
    heap_inv h m' [(e - b, True)] \<and> h_addr_start h = of_nat b \<and> h_addr_end h = of_nat e \<and>
    h_addr_max h = hmax \<and> sa_array (h_index h) = of_nat a \<and> sa_maxsize (h_index h) = VM_HEAP_INDEX_SIZE \<and>
    h_su h = su \<and> h_ro h = ro \<and> (\<forall>x. unat x < a \<longrightarrow> m' x = mem s x)"
proof -
  have b: "a + 0x81000 \<le> b" "b + 20 \<le> e"
    using page_up_add [OF assms(1)] assms(3) by (simp_all add: b_def page_up_def)
  have u: "unat (of_nat a :: u32) = a" "unat (of_nat e :: u32) = e" "unat (of_nat b :: u32) = b"
    using b assms(4) by (simp_all add: unat_of_nat_u32)
  let ?ix = "\<lparr>sa_array = of_nat a, sa_size = 0, sa_maxsize = VM_HEAP_INDEX_SIZE, sa_cmp = Some vm_heap_header_cmp\<rparr>"
  let ?ix' = "?ix\<lparr>sa_size := 1\<rparr>"
  let ?m0 = "bzero (mem s) (of_nat a) 0x80000"
  let ?m1 = "write_header (of_nat b) 1 (of_nat (e - b)) ?m0"
  let ?h = "\<lparr>h_index = ?ix', h_addr_start = of_nat b, h_addr_end = of_nat e, h_addr_max = hmax, h_su = su, h_ro = ro\<rparr>"
  have wf: "sa_wf ?ix" by (simp add: sa_wf_def VM_HEAP_INDEX_SIZE_def)
  obtain m' where ins: "insert_sorted_array ?ix (of_nat b) ?m1 = Inr (?ix', m')" "sa_list ?ix' m' = [of_nat b]"
      "\<forall>x. \<not> in_range (of_nat a) 4 x \<longrightarrow> m' x = ?m1 x"
    using insert_sorted_array_ok [OF wf, of vm_heap_header_cmp "of_nat b" ?m1]
    by (auto simp: VM_HEAP_INDEX_SIZE_def sa_list_def)
  have out: "m' x = ?m1 x" if "\<not> (a \<le> unat x \<and> unat x < a + 4)" for x
    using ins(3) that u(1) b assms(4) by (simp add: in_range_no_wrap)
  have "header_at ?m1 b (e - b) True"
    using header_at_write [of b True "e - b" ?m0] b assms(4) by (simp del: of_nat_diff)
  then have hd: "header_at m' b (e - b) True"
    by (rule header_at_agree) (use out b assms(4) in auto)
  have "heap_ok m' b [(e - b, True)] e" using hd b by (simp add: heap_ok_def block_ok_def)
  then have inv: "heap_inv ?h m' [(e - b, True)]"
    using u b wf ins(2) by (simp add: heap_inv_def index_ok_def VM_HEAP_INDEX_SIZE_def sa_wf_def)
  have st: "(of_nat a + 4 * VM_HEAP_INDEX_SIZE :: u32) = of_nat (a + 0x80000)" by (simp add: VM_HEAP_INDEX_SIZE_def)
  have "a + 0x80000 < 4294963200" using b assms(4) by linarith
  then have start: "(if (of_nat a + 4 * VM_HEAP_INDEX_SIZE) AND 0xFFFFF000 \<noteq> (0 :: u32)
      then ((of_nat a + 4 * VM_HEAP_INDEX_SIZE) AND 0xFFFFF000) + 0x1000
      else of_nat a + 4 * VM_HEAP_INDEX_SIZE) = of_nat b"
    unfolding st using page_up_word [of "a + 0x80000"] by (simp add: b_def del: of_nat_add)
  have al: "of_nat a mod 0x1000 = (0 :: u32)" "of_nat e mod 0x1000 = (0 :: u32)"
    using assms(1,2) u by (simp_all add: u32_eq_iff unat_mod)
  have sz: "(of_nat e - of_nat b :: u32) = of_nat (e - b)" using b by simp
  have "m' x = mem s x" if "unat x < a" for x
  proof -
    have "?m0 x = mem s x" using that u b assms(4) by (simp add: bzero_eq in_range_no_wrap)
    moreover have "?m1 x = ?m0 x" using that b assms(4) by (intro write_header_agree) auto
    ultimately show ?thesis using out [of x] that by simp
  qed
  moreover have "place_sorted_array (of_nat a) VM_HEAP_INDEX_SIZE (Some vm_heap_header_cmp) (mem s) = (?ix, ?m0)"
    by (simp add: place_sorted_array_def VM_HEAP_INDEX_SIZE_def)
  moreover have "init_heap heap (of_nat a) (of_nat e) hmax su ro s =
      Inr (heap, upd_heap heap (\<lambda>_. ?h) (s\<lparr>mem := m'\<rparr>))"
    using ins(1) unfolding init_heap_def calculation(2) Let_def prod.case start al sz
    by simp
  ultimately show ?thesis using inv by (intro exI [of _ ?h] exI [of _ m']) simp
qed

subsection \<open>Writing a block\<close>

lemma write_footer_agree:
  assumes "unat y < x \<or> x + 8 \<le> unat y" "x + 8 \<le> 4294967296"
  shows "write_footer (of_nat x) p m y = m y"
  unfolding write_footer_nat using assms by (subst stn_agree; (subst stn_agree)?) auto

lemma footer_at_write:
  assumes "8 \<le> n" "x + n \<le> 4294967296"
  shows "footer_at (write_footer (of_nat (x + n - 8)) (of_nat x) m) x n"
proof -
  have "x + n - 8 + 4 = x + n - 4" using assms(1) by simp
  then show ?thesis
    unfolding footer_at_def write_footer_nat using assms by (simp add: ldn_stn_other)
qed

definition write_block :: "nat \<Rightarrow> nat \<Rightarrow> bool \<Rightarrow> memory \<Rightarrow> memory" where
  "write_block x n h m =
     write_footer (of_nat (x + n - 8)) (of_nat x) (write_header (of_nat x) (of_bool h) (of_nat n) m)"

lemma write_block_ok:
  assumes "20 \<le> n" "x + n \<le> 4294967296"
  shows "block_ok (write_block x n h m) e (x, n, h)"
proof -
  have "header_at (write_header (of_nat x) (of_bool h) (of_nat n) m) x n h"
    using assms by (intro header_at_write) auto
  then have "header_at (write_block x n h m) x n h"
    unfolding write_block_def
    by (rule header_at_agree, intro write_footer_agree) (use assms in auto)
  then show ?thesis
    using assms footer_at_write [of n x] by (simp add: block_ok_def write_block_def)
qed

lemma write_block_agree:
  assumes "\<not> (x \<le> unat y \<and> unat y < x + n)" "20 \<le> n" "x + n \<le> 4294967296"
  shows "write_block x n h m y = m y"
proof -
  have "write_header (of_nat x) (of_bool h) (of_nat n) m y = m y"
    using assms by (intro write_header_agree) auto
  then show ?thesis
    unfolding write_block_def using assms by (subst write_footer_agree) auto
qed

subsection \<open>\<open>alloc\<close> in a hole that is there\<close>

text \<open>What becomes of a hole of \<open>size\<close> bytes when a block of \<open>need\<close> bytes is put into it.\<close>

definition carve :: "nat \<Rightarrow> nat \<Rightarrow> block list" where
  "carve need hole = (if hole - need < 20 then [(hole, False)] else [(need, False), (hole - need, True)])"

lemma extent_carve [simp]: "need \<le> hole \<Longrightarrow> extent (carve need hole) = hole"
  by (auto simp: carve_def)

text \<open>The part of \<open>alloc_place\<close> after the index entry is gone.\<close>

lemma alloc_rest_none:
  "alloc_rest sz (of_nat n) p (of_nat n) h m = Inr (h, m)"
  by (simp add: alloc_rest_def)

lemma alloc_rest_split:
  assumes "need + 20 \<le> hole" "x + hole \<le> unat (h_addr_end h)" "20 \<le> need"
  shows "alloc_rest (of_nat (need - 20)) (of_nat need) (of_nat x) (of_nat hole) h m =
    bindr (insert_sorted_array (h_index h) (of_nat (x + need)) (write_block (x + need) (hole - need) True m))
      (\<lambda>(a, m). Inr (h\<lparr>h_index := a\<rparr>, m))"
proof -
  have e: "unat (h_addr_end h) < 4294967296" by simp
  have d: "(of_nat hole - of_nat need :: u32) = of_nat (hole - need)" using assms(1) by simp
  have "hole - need < 4294967296" using assms(2) e by linarith
  then have pos: "(of_nat (hole - need) :: u32) > 0"
    using assms(1) unat_of_nat_u32 [of "hole - need"] by (simp add: u32_less_iff del: of_nat_diff)
  have hh: "(of_nat x + 12 + of_nat (need - 20) + 8 :: u32) = of_nat (x + need)"
  proof -
    have "of_nat x + 12 + of_nat (need - 20) + 8 = (of_nat (x + 12 + (need - 20) + 8) :: u32)" by simp
    also have "x + 12 + (need - 20) + 8 = x + need" using assms(3) by simp
    finally show ?thesis .
  qed
  have hf: "(of_nat (x + need) + of_nat hole - of_nat need - 8 :: u32) = of_nat (x + need + (hole - need) - 8)"
  proof -
    have "8 \<le> x + need + (hole - need)" using assms(3) by simp
    then have "(of_nat (x + need + (hole - need) - 8) :: u32) = of_nat (x + need + (hole - need)) - 8"
      by (simp only: of_nat_diff of_nat_numeral)
    then show ?thesis using assms(1) by simp
  qed
  have lt: "x + need + (hole - need) - 8 < unat (h_addr_end h)" using assms by simp
  have "(of_nat (x + need + (hole - need) - 8) :: u32) < h_addr_end h"
    unfolding u32_less_iff unat_of_nat_u32 [OF less_trans [OF lt e]] by (rule lt)
  then show ?thesis
    unfolding alloc_rest_def d Let_def hh hf
    using pos by (simp add: write_block_def del: of_nat_diff of_nat_add)
qed

lemma alloc_place_words:
  assumes "lookup_sorted_array (h_index h) i m = Inr (of_nat x)" "ldn m (x + 8) = of_nat hole"
    "unat sz + 20 \<le> hole" "hole < 4294967296"
    "remove_sorted_array (h_index h) i m = Inr (ix, m1)"
  defines "need \<equiv> (if hole - (unat sz + 20) < 20 then hole else unat sz + 20)"
  shows "alloc_place sz (sz + 12 + 8) False i h m =
    bindr (alloc_rest (of_nat (need - 20)) (of_nat need) (of_nat x) (of_nat hole) (h\<lparr>h_index := ix\<rparr>)
             (write_block x need False m1))
      (\<lambda>(h, m). Inr (of_nat x + 12, h, m))"
proof -
  have s: "sz = of_nat (unat sz)" by simp
  have new: "(sz + 12 + 8 :: u32) = of_nat (unat sz + 20)" by (simp add: add.assoc)
  have diff: "(of_nat hole - of_nat (unat sz + 20) :: u32) = of_nat (hole - (unat sz + 20))"
    using assms(3) by (simp only: of_nat_diff)
  have less: "(of_nat (hole - (unat sz + 20)) :: u32) < 12 + 8 \<longleftrightarrow> hole - (unat sz + 20) < 20"
    using assms(4) by (simp add: u32_less_iff unat_of_nat_u32 del: of_nat_diff)
  have sum: "sz + of_nat (hole - (unat sz + 20)) = (of_nat (hole - 20) :: u32)"
  proof -
    have "unat sz + (hole - (unat sz + 20)) = hole - 20" using assms(3) by simp
    then show ?thesis by (subst s) (simp only: of_nat_add [symmetric])
  qed
  have pick: "(if (of_nat (hole - (unat sz + 20)) :: u32) < 12 + 8
      then (sz + of_nat (hole - (unat sz + 20)), of_nat hole) else (sz, of_nat (unat sz + 20))) =
      (of_nat (need - 20), of_nat need)"
    unfolding less sum need_def by simp
  have n20: "20 \<le> need" using assms(3) by (simp add: need_def)
  have foot: "(of_nat x + 12 + of_nat (need - 20) :: u32) = of_nat (x + need - 8)"
  proof -
    have "x + 12 + (need - 20) = x + need - 8" using n20 by simp
    then show ?thesis by (metis of_nat_add of_nat_numeral)
  qed
  show ?thesis
    unfolding alloc_place_def assms(1) bindr_Inr header_fields_nat assms(2) Let_def new diff pick prod.case
      alloc_front_def
    using assms(5) by (simp add: foot write_block_def del: of_nat_add of_nat_diff)
qed

text \<open>
  The order of the index: by hole size, as the comparison intends.  The comparison subtracts
  sizes and looks at the sign, so it is an order for sizes below \<open>2^31\<close> only.
\<close>

abbreviation hole_size :: "memory \<Rightarrow> u32 \<Rightarrow> nat" where
  "hole_size m w \<equiv> unat (hh_size m w)"

interpretation size_cmp: cmp_key "vm_heap_header_cmp m" "\<lambda>w. hole_size m w < 2147483648" "hole_size m"
  for m
  by unfold_locales (simp add: vm_heap_header_cmp_def sint_diff_less)

definition index_sorted :: "sorted_array \<Rightarrow> memory \<Rightarrow> bool" where
  "index_sorted ix m \<longleftrightarrow> sorted (map (hole_size m) (sa_list ix m)) \<and>
     (\<forall>w \<in> set (sa_list ix m). hole_size m w < 2147483648)"

lemma index_sorted_remove:
  assumes "index_sorted ix m" "sa_list ix' m' = remove_nth i (sa_list ix m)"
    "\<forall>w \<in> set (sa_list ix' m'). hole_size m' w = hole_size m w"
  shows "index_sorted ix' m'"
proof -
  have eq: "map (hole_size m') (sa_list ix' m') = map (hole_size m) (remove_nth i (sa_list ix m))"
    using assms(2,3) by auto
  show ?thesis
    unfolding index_sorted_def eq
    using assms sorted_remove_nth [of "hole_size m" "sa_list ix m" i] set_remove_nth_subset [of i "sa_list ix m"]
    by (auto simp: index_sorted_def)
qed

lemma index_sorted_insert:
  assumes "index_sorted ix m" "sa_list ix' m' = insert_before (\<lambda>x. sint (vm_heap_header_cmp m x el) < 0) el (sa_list ix m)"
    "\<forall>w \<in> set (sa_list ix' m'). hole_size m' w = hole_size m w" "hole_size m el < 2147483648"
  shows "index_sorted ix' m'"
proof -
  have eq: "map (hole_size m') (sa_list ix' m') = map (hole_size m) (sa_list ix' m')" using assms(3) by auto
  show ?thesis
    unfolding index_sorted_def eq
    using assms size_cmp.sorted_insert_before [of "sa_list ix m" m el] by (auto simp: index_sorted_def)
qed

lemma index_sorted_agree:
  assumes "index_sorted ix m" "sa_list ix m' = sa_list ix m"
    "\<forall>w \<in> set (sa_list ix m). hole_size m' w = hole_size m w"
  shows "index_sorted ix m'"
  using assms by (auto simp: index_sorted_def cong: map_cong)

text \<open>
  Placing a block into hole \<open>x\<close>: the list of blocks changes there only, the invariant holds for
  the new list, and outside the hole and the index no byte changes.
\<close>

definition in_index :: "vm_heap \<Rightarrow> u32 \<Rightarrow> bool" where
  "in_index h y \<longleftrightarrow> in_range (sa_array (h_index h)) (4 * unat (sa_maxsize (h_index h))) y"

definition same_region :: "vm_heap \<Rightarrow> vm_heap \<Rightarrow> bool" where
  "same_region h h' \<longleftrightarrow> h_addr_start h' = h_addr_start h \<and> h_addr_end h' = h_addr_end h \<and>
     h_addr_max h' = h_addr_max h \<and> sa_array (h_index h') = sa_array (h_index h) \<and>
     sa_maxsize (h_index h') = sa_maxsize (h_index h) \<and> h_su h' = h_su h \<and> h_ro h' = h_ro h"

lemma not_in_index: "heap_inv h m bs \<Longrightarrow> unat (h_addr_start h) \<le> unat y \<Longrightarrow> \<not> in_index h y"
  unfolding in_index_def heap_inv_def by (intro index_cells_below [of _ "unat (h_addr_start h)"]) auto

lemma below_index:
  assumes "heap_inv h m bs" "unat y < unat (sa_array (h_index h))"
  shows "\<not> in_index h y"
proof -
  have "unat (sa_array (h_index h)) + 4 * unat (sa_maxsize (h_index h)) \<le> unat (h_addr_start h)"
    using assms(1) by (simp add: heap_inv_def index_ok_def)
  then have "unat (sa_array (h_index h)) + 4 * unat (sa_maxsize (h_index h)) \<le> 4294967296"
    using unat_u32_le [of "h_addr_start h"] by linarith
  from in_range_no_wrap [OF this, of y] show ?thesis using assms(2) by (simp add: in_index_def)
qed

lemma hole_entry:
  assumes "heap_inv h m (pre @ (n, True) # post)"
  shows "\<exists>i. i < sa_size (h_index h) \<and>
    lookup_sorted_array (h_index h) i m = Inr (of_nat (unat (h_addr_start h) + extent pre))"
proof -
  let ?x = "unat (h_addr_start h) + extent pre"
  have "?x \<in> holes (unat (h_addr_start h)) (pre @ (n, True) # post)" by (simp add: holes_append)
  then obtain w where w: "w \<in> set (sa_list (h_index h) m)" "unat w = ?x"
    using assms unfolding heap_inv_def by (metis imageE)
  then obtain i where i: "i < unat (sa_size (h_index h))" "sa_list (h_index h) m ! i = w"
    by (auto simp: in_set_conv_nth)
  have "w = of_nat ?x" using w(2) by (metis of_nat_unat_u32)
  moreover have "(of_nat i :: u32) < sa_size (h_index h)"
    unfolding u32_less_iff unat_of_nat_u32 [OF less_trans [OF i(1) unat_u32_less]] by (rule i(1))
  ultimately show ?thesis using i lookup_sorted_array_eq [OF i(1), of m] by (intro exI [of _ "of_nat i"]) simp
qed

subsection \<open>Gaps\<close>

text \<open>
  While an operation works on a stretch of the heap, the rest of the invariant is kept: \<open>gap\<close>
  bytes between the blocks \<open>pre\<close> and \<open>post\<close> are unaccounted for, and the index lists the holes of
  the two sides.  Operations open a gap, write into it, and close it with new blocks.
\<close>

abbreviation hstart :: "vm_heap \<Rightarrow> nat" where "hstart h \<equiv> unat (h_addr_start h)"
abbreviation hend :: "vm_heap \<Rightarrow> nat" where "hend h \<equiv> unat (h_addr_end h)"

definition gap_inv :: "vm_heap \<Rightarrow> memory \<Rightarrow> block list \<Rightarrow> nat \<Rightarrow> block list \<Rightarrow> bool" where
  "gap_inv h m pre gap post \<longleftrightarrow>
     hstart h + extent pre + gap + extent post = hend h \<and>
     (\<forall>b \<in> set (addrs (hstart h) pre) \<union> set (addrs (hstart h + extent pre + gap) post).
        block_ok m (hend h) b) \<and>
     index_ok (h_index h) (hstart h) \<and> distinct (sa_list (h_index h) m) \<and>
     unat ` set (sa_list (h_index h) m) = holes (hstart h) pre \<union> holes (hstart h + extent pre + gap) post"

lemma hend_le: "hend h \<le> 4294967296"
  by (rule less_imp_le) simp

lemma gap_not_in_index: "gap_inv h m pre gap post \<Longrightarrow> hstart h \<le> unat y \<Longrightarrow> \<not> in_index h y"
  unfolding in_index_def gap_inv_def by (intro index_cells_below [of _ "hstart h"]) auto

lemma gap_block:
  assumes "gap_inv h m pre gap post"
    "(x, n, b) \<in> set (addrs (hstart h) pre) \<union> set (addrs (hstart h + extent pre + gap) post)"
  shows "block_ok m (hend h) (x, n, b)" "20 \<le> n"
    "hstart h \<le> x \<and> x + n \<le> hstart h + extent pre \<or> hstart h + extent pre + gap \<le> x \<and> x + n \<le> hend h"
proof -
  show ok: "block_ok m (hend h) (x, n, b)" using assms by (auto simp: gap_inv_def)
  then show "20 \<le> n" by (simp add: block_ok_def)
  show "hstart h \<le> x \<and> x + n \<le> hstart h + extent pre \<or> hstart h + extent pre + gap \<le> x \<and> x + n \<le> hend h"
    using assms addrs_bounds [of x n b] by (fastforce simp: gap_inv_def)
qed

text \<open>The side blocks depend on the bytes above the index and outside the gap only.\<close>

definition agree_sides :: "vm_heap \<Rightarrow> block list \<Rightarrow> nat \<Rightarrow> memory \<Rightarrow> memory \<Rightarrow> bool" where
  "agree_sides h pre gap m m' \<longleftrightarrow> (\<forall>y. hstart h \<le> unat y \<longrightarrow>
     \<not> (hstart h + extent pre \<le> unat y \<and> unat y < hstart h + extent pre + gap) \<longrightarrow> m' y = m y)"

lemma gap_blocks_agree:
  assumes "gap_inv h m pre gap post" "agree_sides h pre gap m m'"
    "b \<in> set (addrs (hstart h) pre) \<union> set (addrs (hstart h + extent pre + gap) post)"
  shows "block_ok m' (hend h) b"
proof -
  obtain x n k where b: "b = (x, n, k)" by (cases b)
  note B = gap_block [OF assms(1) assms(3) [unfolded b]]
  have "extent post + gap + extent pre + hstart h = hend h" using assms(1) by (simp add: gap_inv_def)
  then have "x + n \<le> 4294967296" using B(3) hend_le [of h] by linarith
  then show ?thesis
    unfolding b using assms(2) B(3) by (intro block_ok_agree [OF B(1)]) (auto simp: agree_sides_def)
qed

lemma gap_sizes:
  assumes "gap_inv h m pre gap post" "agree_sides h pre gap m m'" "w \<in> set (sa_list (h_index h) m)"
  shows "hole_size m' w = hole_size m w"
proof -
  have "unat w \<in> holes (hstart h) pre \<union> holes (hstart h + extent pre + gap) post"
    using assms(1,3) unfolding gap_inv_def by (metis imageI)
  then obtain n where
    n: "(unat w, n, True) \<in> set (addrs (hstart h) pre) \<union> set (addrs (hstart h + extent pre + gap) post)"
    by (auto simp: holes_def)
  have "ldn m' (unat w + 8) = of_nat n" "ldn m (unat w + 8) = of_nat n"
    using gap_blocks_agree [OF assms(1,2) n] gap_block(1) [OF assms(1) n]
    by (simp_all add: block_ok_def header_at_def)
  then show ?thesis using header_fields_nat(3) [of _ "unat w"] by simp
qed

text \<open>Writing inside the gap.\<close>

lemma gap_write:
  assumes "gap_inv h m pre gap post"
    "\<And>y. \<not> (hstart h + extent pre \<le> unat y \<and> unat y < hstart h + extent pre + gap) \<Longrightarrow> m' y = m y"
  shows "gap_inv h m' pre gap post" "sa_list (h_index h) m' = sa_list (h_index h) m"
    "index_sorted (h_index h) m \<Longrightarrow> index_sorted (h_index h) m'"
proof -
  have ag: "agree_sides h pre gap m m'" using assms(2) by (simp add: agree_sides_def)
  have "index_ok (h_index h) (hstart h)" using assms(1) by (simp add: gap_inv_def)
  then show l: "sa_list (h_index h) m' = sa_list (h_index h) m"
    using assms(2) less_imp_le [OF unat_u32_less] by (intro sa_list_agree [of _ "hstart h"]) auto
  have "\<forall>b \<in> set (addrs (hstart h) pre) \<union> set (addrs (hstart h + extent pre + gap) post). block_ok m' (hend h) b"
    using gap_blocks_agree [OF assms(1) ag] by (intro ballI)
  then show "gap_inv h m' pre gap post"
    using assms(1) unfolding gap_inv_def l by (elim conjE) (intro conjI)
  show "index_sorted (h_index h) m'" if "index_sorted (h_index h) m"
    by (rule index_sorted_agree [OF that l], rule ballI, rule gap_sizes [OF assms(1) ag])
qed

text \<open>Opening a gap: by taking a hole out of the index, or in place of blocks without holes.\<close>

lemma gap_of_blocks:
  assumes "heap_inv h m (pre @ old @ post)" "holes (hstart h + extent pre) old = {}"
  shows "gap_inv h m pre (extent old) post"
  using assms by (auto simp: heap_inv_def gap_inv_def heap_ok_def addrs_append holes_append)

lemma gap_open:
  assumes "heap_inv h m (pre @ (n, True) # post)" "i < sa_size (h_index h)"
    "lookup_sorted_array (h_index h) i m = Inr (of_nat (hstart h + extent pre))"
  shows "\<exists>ix m'. remove_sorted_array (h_index h) i m = Inr (ix, m') \<and>
    gap_inv (h\<lparr>h_index := ix\<rparr>) m' pre n post \<and> sa_size ix < sa_maxsize ix \<and>
    same_region h (h\<lparr>h_index := ix\<rparr>) \<and> (\<forall>y. \<not> in_index h y \<longrightarrow> m' y = m y) \<and>
    (index_sorted (h_index h) m \<longrightarrow> index_sorted ix m')"
proof -
  let ?x = "hstart h + extent pre" and ?ix = "h_index h"
  have ok: "heap_ok m (hstart h) (pre @ (n, True) # post) (hend h)" and ixok: "index_ok ?ix (hstart h)"
      and dist: "distinct (sa_list ?ix m)" and hs: "unat ` set (sa_list ?ix m) = holes (hstart h) (pre @ (n, True) # post)"
    using assms(1) by (simp_all add: heap_inv_def)
  have el: "sa_list ?ix m ! unat i = of_nat ?x" using assms(2,3) by (simp add: lookup_sorted_array_range)
  obtain ix m' where rem: "remove_sorted_array ?ix i m = Inr (ix, m')" "index_ok ix (hstart h)"
      "sa_array ix = sa_array ?ix" "sa_maxsize ix = sa_maxsize ?ix" "sa_size ix < sa_maxsize ix"
      "distinct (sa_list ix m')" "set (sa_list ix m') = set (sa_list ?ix m) - {of_nat ?x}"
      "sa_list ix m' = remove_nth (unat i) (sa_list ?ix m)" "\<forall>y. \<not> in_index h y \<longrightarrow> m' y = m y"
    using index_remove [OF ixok assms(2) dist] el by (auto simp: in_index_def)
  have hi: "m' y = m y" if "hstart h \<le> unat y" for y using rem(9) not_in_index [OF assms(1) that] by simp
  have le: "?x + n + extent post = hend h" using ok by (simp add: heap_ok_def)
  moreover have n20: "20 \<le> n" using heap_ok_pos [OF ok, of "(n, True)"] by simp
  ultimately have "?x < 4294967296" using unat_u32_less [of "h_addr_end h"] by linarith
  then have ux: "unat (of_nat ?x :: u32) = ?x" by (rule unat_of_nat_u32)
  have pos: "\<forall>b \<in> set (pre @ post). 0 < fst b" by (rule heap_ok_all_pos [OF ok]) auto
  have "unat ` set (sa_list ix m') = holes (hstart h) pre \<union> holes (?x + n) post"
    using holes_apart [OF pos, of "hstart h" ?x "?x + n"] heap_ok_pos [OF ok, of "(n, True)"] ux
    unfolding rem(7) unat_image_remove hs by (auto simp: holes_append)
  moreover have blocks: "block_ok m' (hend h) b" if "block_ok m (hend h) b" "b \<in> set (addrs (hstart h) (pre @ (n, True) # post))" for b
  proof -
    obtain z k v where b: "b = (z, k, v)" by (cases b)
    note B = heap_inv_block [OF assms(1) that(2) [unfolded b]]
    show ?thesis
      unfolding b by (rule block_ok_agree [OF B(1)]) (use B hi in auto)
  qed
  ultimately have gap: "gap_inv (h\<lparr>h_index := ix\<rparr>) m' pre n post"
    using ok rem(2,6) le by (auto simp: gap_inv_def heap_ok_def addrs_append)
  have "index_sorted ix m'" if "index_sorted ?ix m"
  proof (rule index_sorted_remove [OF that rem(8)], rule ballI)
    fix w assume "w \<in> set (sa_list ix m')"
    then have "w \<in> set (sa_list ?ix m)" using rem(7) by simp
    then have "ldn m' (unat w + 8) = ldn m (unat w + 8)"
      using heap_inv_hole_bounds [OF assms(1)] hi hend_le [of h] by (intro ldn_agree) fastforce+
    then show "hole_size m' w = hole_size m w" using header_fields_nat(3) [of _ "unat w"] by simp
  qed
  then show ?thesis using rem gap by (auto simp: same_region_def)
qed

text \<open>Closing a gap with blocks that contain no hole, or exactly one, which enters the index.\<close>

lemma gap_close:
  assumes "gap_inv h m pre gap post" "extent mid = gap" "holes (hstart h + extent pre) mid = {}"
    "\<forall>b \<in> set (addrs (hstart h + extent pre) mid). block_ok m (hend h) b"
  shows "heap_inv h m (pre @ mid @ post)"
  using assms by (auto simp: heap_inv_def gap_inv_def heap_ok_def addrs_append holes_append)

lemma gap_close_hole:
  assumes "gap_inv h m pre gap post" "extent mid = gap" "holes (hstart h + extent pre) mid = {z}"
    "\<forall>b \<in> set (addrs (hstart h + extent pre) mid). block_ok m (hend h) b"
    "sa_size (h_index h) < sa_maxsize (h_index h)"
  shows "\<exists>ix m'. insert_sorted_array (h_index h) (of_nat z) m = Inr (ix, m') \<and>
    heap_inv (h\<lparr>h_index := ix\<rparr>) m' (pre @ mid @ post) \<and> same_region h (h\<lparr>h_index := ix\<rparr>) \<and>
    (\<forall>y. \<not> in_index h y \<longrightarrow> m' y = m y) \<and>
    (index_sorted (h_index h) m \<longrightarrow> hole_size m (of_nat z) < 2147483648 \<longrightarrow> index_sorted ix m')"
proof -
  let ?ix = "h_index h" and ?x = "hstart h + extent pre"
  have ends: "?x + gap + extent post = hend h" and ixok: "index_ok ?ix (hstart h)" and dist: "distinct (sa_list ?ix m)"
      and hs: "unat ` set (sa_list ?ix m) = holes (hstart h) pre \<union> holes (?x + gap) post"
    using assms(1) by (simp_all add: gap_inv_def)
  let ?bs = "pre @ mid @ post"
  have ok: "heap_ok m (hstart h) ?bs (hend h)"
    using assms(1,2,4) by (auto simp: heap_ok_def gap_inv_def addrs_append)
  obtain nz where nz: "(z, nz, True) \<in> set (addrs ?x mid)" using assms(3) by (auto simp: holes_def)
  have z: "?x \<le> z" "z + 20 \<le> ?x + gap" "20 \<le> nz"
    using addrs_bounds [OF nz] assms(2,4) nz by (auto simp: block_ok_def)
  have uz: "unat (of_nat z :: u32) = z"
    using z ends hend_le [of h] by (intro unat_of_nat_u32) linarith
  have pos: "\<forall>b \<in> set (pre @ post). 0 < fst b" by (rule heap_ok_all_pos [OF ok]) auto
  have "z \<notin> unat ` set (sa_list ?ix m)" using holes_apart [OF pos, of "hstart h" z "?x + gap"] z hs by auto
  then have fresh: "of_nat z \<notin> set (sa_list ?ix m)" using uz by (metis imageI)
  obtain ix m' where ins: "insert_sorted_array ?ix (of_nat z) m = Inr (ix, m')" "index_ok ix (hstart h)"
      "sa_array ix = sa_array ?ix" "sa_maxsize ix = sa_maxsize ?ix" "distinct (sa_list ix m')"
      "set (sa_list ix m') = insert (of_nat z) (set (sa_list ?ix m))"
      "sa_list ix m' = insert_before (\<lambda>w. sint (vm_heap_header_cmp m w (of_nat z)) < 0) (of_nat z) (sa_list ?ix m)"
      "\<forall>y. \<not> in_index h y \<longrightarrow> m' y = m y"
    using index_insert [OF ixok assms(5) dist fresh] by (auto simp: in_index_def)
  have hi: "m' y = m y" if "hstart h \<le> unat y" for y using ins(8) gap_not_in_index [OF assms(1) that] by simp
  have "heap_ok m' (hstart h) ([] @ [] @ ?bs) (hend h)"
    by (rule heap_ok_splice [where old = "[]" and mid = "[]", OF _ _ hend_le]) (use ok hi in auto)
  moreover have "unat ` set (sa_list ix m') = holes (hstart h) ?bs"
    unfolding ins(6) image_insert hs uz using assms(2,3) by (auto simp: holes_append)
  ultimately have inv: "heap_inv (h\<lparr>h_index := ix\<rparr>) m' ?bs" using ins(2,5) by (simp add: heap_inv_def)
  have "index_sorted ix m'" if srt: "index_sorted ?ix m" "hole_size m (of_nat z) < 2147483648"
  proof (rule index_sorted_insert [OF srt(1) ins(7) _ srt(2)], rule ballI)
    fix w assume "w \<in> set (sa_list ix m')"
    then have "hstart h \<le> unat w" "unat w + 20 \<le> hend h"
      using heap_inv_hole_bounds [OF inv] by simp_all
    then have "ldn m' (unat w + 8) = ldn m (unat w + 8)"
      using hi hend_le [of h] by (intro ldn_agree) auto
    then show "hole_size m' w = hole_size m w" using header_fields_nat(3) [of _ "unat w"] by simp
  qed
  then show ?thesis using ins inv by (auto simp: same_region_def)
qed

subsection \<open>\<open>alloc\<close> in a hole that is there: correctness\<close>

text \<open>
  Placing a block into hole \<open>x\<close>: the list of blocks changes there only, the invariant holds for
  the new list, and outside the hole and the index no byte changes.
\<close>

lemma same_region_trans: "same_region h h1 \<Longrightarrow> same_region h1 h2 \<Longrightarrow> same_region h h2"
  by (simp add: same_region_def)

lemma same_region_in_index: "same_region h h' \<Longrightarrow> in_index h' y = in_index h y"
  by (simp add: same_region_def in_index_def)

text \<open>The two ways the hole is filled, from the gap it leaves.\<close>

lemma fill_whole:
  assumes "gap_inv h m pre hole post" "20 \<le> hole"
  defines "x \<equiv> hstart h + extent pre"
  shows "heap_inv h (write_block x hole False m) (pre @ [(hole, False)] @ post)"
    and "index_sorted (h_index h) m \<Longrightarrow> index_sorted (h_index h) (write_block x hole False m)"
proof -
  let ?m = "write_block x hole False m"
  have x: "x + hole \<le> 4294967296" using assms(1) hend_le [of h] by (simp add: gap_inv_def x_def)
  have ag: "\<not> (hstart h + extent pre \<le> unat y \<and> unat y < hstart h + extent pre + hole) \<Longrightarrow> ?m y = m y" for y
    using assms(2) x by (intro write_block_agree) (simp_all add: x_def)
  note G = gap_write [OF assms(1) ag]
  show "index_sorted (h_index h) m \<Longrightarrow> index_sorted (h_index h) ?m" by (rule G(3))
  have "block_ok ?m (hend h) (x, hole, False)" using assms(2) x by (rule write_block_ok)
  then show "heap_inv h ?m (pre @ [(hole, False)] @ post)"
    by (intro gap_close [OF G(1)]) (simp_all add: x_def)
qed

lemma fill_split:
  assumes "gap_inv h m pre hole post" "20 \<le> n" "n + 20 \<le> hole" "sa_size (h_index h) < sa_maxsize (h_index h)"
  defines "x \<equiv> hstart h + extent pre"
  defines "m' \<equiv> write_block (x + n) (hole - n) True (write_block x n False m)"
  shows "\<exists>ix m''. insert_sorted_array (h_index h) (of_nat (x + n)) m' = Inr (ix, m'') \<and>
    heap_inv (h\<lparr>h_index := ix\<rparr>) m'' (pre @ [(n, False), (hole - n, True)] @ post) \<and>
    same_region h (h\<lparr>h_index := ix\<rparr>) \<and>
    (\<forall>y. \<not> in_index h y \<longrightarrow> \<not> (x \<le> unat y \<and> unat y < x + hole) \<longrightarrow> m'' y = m y) \<and>
    (index_sorted (h_index h) m \<longrightarrow> hole < 2147483648 \<longrightarrow> index_sorted ix m'')"
proof -
  let ?mid = "[(n, False), (hole - n, True)]"
  have x: "x + hole \<le> 4294967296" using assms(1) hend_le [of h] by (simp add: gap_inv_def x_def)
  have w1: "write_block x n False m y = m y" if "\<not> (x \<le> unat y \<and> unat y < x + n)" for y
    using that assms(2,3) x by (intro write_block_agree) auto
  have w2: "m' y = write_block x n False m y" if "\<not> (x + n \<le> unat y \<and> unat y < x + hole)" for y
    unfolding m'_def using that assms(2,3) x by (intro write_block_agree) auto
  have ag: "m' y = m y" if "\<not> (x \<le> unat y \<and> unat y < x + hole)" for y
    using that w1 [of y] w2 [of y] assms(3) by auto
  note G = gap_write [OF assms(1), of m', folded x_def, OF ag]
  have "block_ok (write_block x n False m) (hend h) (x, n, False)"
    using assms(2,3) x by (intro write_block_ok) auto
  then have "block_ok m' (hend h) (x, n, False)"
    by (rule block_ok_agree) (use w2 assms(3) x in auto)
  moreover have hb: "block_ok m' (hend h) (x + n, hole - n, True)"
    unfolding m'_def using assms(3) x by (intro write_block_ok) auto
  ultimately have blocks: "\<forall>b \<in> set (addrs (hstart h + extent pre) ?mid). block_ok m' (hend h) b"
    by (simp add: x_def)
  have sz: "hole_size m' (of_nat (x + n)) = hole - n" if "hole < 2147483648"
    using hb that unfolding header_fields_nat
    by (simp add: block_ok_def header_at_def unat_of_nat_u32 del: of_nat_diff)
  obtain ix m'' where "insert_sorted_array (h_index h) (of_nat (x + n)) m' = Inr (ix, m'')"
      "heap_inv (h\<lparr>h_index := ix\<rparr>) m'' (pre @ ?mid @ post)" "same_region h (h\<lparr>h_index := ix\<rparr>)"
      "\<forall>y. \<not> in_index h y \<longrightarrow> m'' y = m' y"
      "index_sorted (h_index h) m' \<longrightarrow> hole_size m' (of_nat (x + n)) < 2147483648 \<longrightarrow> index_sorted ix m''"
    using gap_close_hole [OF G(1) _ _ blocks assms(4), of "x + n"] assms(2,3) by (auto simp: x_def)
  then show ?thesis using G(3) ag sz by (intro exI [of _ ix] exI [of _ m'']) auto
qed

lemma alloc_place_ok:
  assumes inv: "heap_inv h m (pre @ (hole, True) # post)"
    and x: "x = hstart h + extent pre"
    and look: "lookup_sorted_array (h_index h) i m = Inr (of_nat x)" and i: "i < sa_size (h_index h)"
    and fits: "unat sz + 20 \<le> hole"
  shows "\<exists>h' m'. alloc_place sz (sz + 12 + 8) False i h m = Inr (of_nat (x + 12), h', m') \<and>
    heap_inv h' m' (pre @ carve (unat sz + 20) hole @ post) \<and> same_region h h' \<and>
    (index_sorted (h_index h) m \<longrightarrow> index_sorted (h_index h') m') \<and>
    (\<forall>y. \<not> in_index h y \<longrightarrow> \<not> (x \<le> unat y \<and> unat y < x + hole) \<longrightarrow> m' y = m y)"
proof -
  let ?n = "unat sz + 20"
  have B: "block_ok m (hend h) (x, hole, True)" "x + hole \<le> hend h" "x + hole \<le> 4294967295"
    using heap_inv_block [OF inv, of x hole True] x by (simp_all add: addrs_append)
  then have sz: "ldn m (x + 8) = of_nat hole" by (simp add: block_ok_def header_at_def)
  have small: "hole < 2147483648" if "index_sorted (h_index h) m"
  proof -
    have "of_nat x \<in> set (sa_list (h_index h) m)"
      using look i by (auto simp: lookup_sorted_array_range u32_less_iff in_set_conv_nth split: if_splits)
    then have "hole_size m (of_nat x) < 2147483648" using that by (simp add: index_sorted_def)
    then show ?thesis using sz B(3) unfolding header_fields_nat by (simp add: unat_of_nat_u32)
  qed
  obtain ix m1 where rem: "remove_sorted_array (h_index h) i m = Inr (ix, m1)"
      "gap_inv (h\<lparr>h_index := ix\<rparr>) m1 pre hole post" "sa_size ix < sa_maxsize ix"
      "same_region h (h\<lparr>h_index := ix\<rparr>)" "\<forall>y. \<not> in_index h y \<longrightarrow> m1 y = m y"
      "index_sorted (h_index h) m \<longrightarrow> index_sorted ix m1"
    using gap_open [OF inv i] look x by auto
  note words = alloc_place_words [OF look sz fits _ rem(1)]
  show ?thesis
  proof (cases "hole - ?n < 20")
    case True
    let ?m2 = "write_block x hole False m1"
    have "alloc_place sz (sz + 12 + 8) False i h m = Inr (of_nat (x + 12), h\<lparr>h_index := ix\<rparr>, ?m2)"
      using words True B(3) by (simp add: alloc_rest_none)
    moreover have "?m2 y = m y" if "\<not> in_index h y" "\<not> (x \<le> unat y \<and> unat y < x + hole)" for y
      using that rem(5) fits B(3) by (simp add: write_block_agree)
    ultimately show ?thesis
      using fill_whole [OF rem(2)] fits x rem(4,6) True
      by (intro exI [of _ "h\<lparr>h_index := ix\<rparr>"] exI [of _ ?m2]) (simp add: carve_def)
  next
    case False
    let ?m3 = "write_block (x + ?n) (hole - ?n) True (write_block x ?n False m1)"
    have n: "?n + 20 \<le> hole" using False by simp
    obtain ix' m' where fill: "insert_sorted_array ix (of_nat (x + ?n)) ?m3 = Inr (ix', m')"
        "heap_inv (h\<lparr>h_index := ix'\<rparr>) m' (pre @ [(?n, False), (hole - ?n, True)] @ post)"
        "same_region (h\<lparr>h_index := ix\<rparr>) (h\<lparr>h_index := ix'\<rparr>)"
        "\<forall>y. \<not> in_index (h\<lparr>h_index := ix\<rparr>) y \<longrightarrow> \<not> (x \<le> unat y \<and> unat y < x + hole) \<longrightarrow> m' y = m1 y"
        "index_sorted ix m1 \<longrightarrow> hole < 2147483648 \<longrightarrow> index_sorted ix' m'"
      using fill_split [OF rem(2) _ n] rem(3) x by auto
    have "alloc_place sz (sz + 12 + 8) False i h m = Inr (of_nat (x + 12), h\<lparr>h_index := ix'\<rparr>, m')"
      using words fill(1) B False alloc_rest_split [of ?n hole x "h\<lparr>h_index := ix\<rparr>"]
      by (simp del: of_nat_add of_nat_diff) simp
    then show ?thesis
      using fill rem(4-6) small False same_region_trans [OF rem(4) fill(3)] same_region_in_index [OF rem(4)]
      by (intro exI [of _ "h\<lparr>h_index := ix'\<rparr>"] exI [of _ m']) (simp add: carve_def)
  qed
qed

subsection \<open>The search for a hole\<close>

interpretation hole_scan: scan ix m "\<lambda>w. \<not> hole_fits sz al w m" "find_hole_loop sz al ix m"
  for ix m sz al
  by unfold_locales (subst find_hole_loop.simps, simp)

text \<open>The result: the first hole of the index that fits; with a sorted index, the smallest.\<close>

lemma find_smallest_hole_none:
  assumes "find_smallest_hole sz al h m = - 1" "sa_wf (h_index h)"
  shows "\<forall>w \<in> set (sa_list (h_index h) m). \<not> hole_fits sz al w m"
proof -
  let ?i = "find_hole_loop sz al (h_index h) m 0"
  have "\<not> ?i < sa_size (h_index h)"
  proof
    assume lt: "?i < sa_size (h_index h)"
    then have "?i = - 1" using assms(1) by (simp add: find_smallest_hole_def Let_def split: if_splits)
    then show False using lt unat_u32_less [of "sa_size (h_index h)"] by (simp add: u32_less_iff)
  qed
  then show ?thesis by (simp only: hole_scan.loop_missing)
qed

lemma find_smallest_hole_some:
  assumes "find_smallest_hole sz al h m = i" "i \<noteq> - 1"
  shows "i < sa_size (h_index h)" "hole_fits sz al (sa_list (h_index h) m ! unat i) m"
    "index_sorted (h_index h) m \<Longrightarrow> w \<in> set (sa_list (h_index h) m) \<Longrightarrow> hole_fits sz al w m \<Longrightarrow>
     hole_size m (sa_list (h_index h) m ! unat i) \<le> hole_size m w"
proof -
  let ?i = "find_hole_loop sz al (h_index h) m 0" and ?xs = "sa_list (h_index h) m"
  have i: "?i = i" "i \<noteq> sa_size (h_index h)"
    using assms by (auto simp: find_smallest_hole_def Let_def split: if_splits)
  then show lt: "i < sa_size (h_index h)" using hole_scan.loop_end [of sz al "h_index h" m] by auto
  show "hole_fits sz al (?xs ! unat i) m"
    using hole_scan.loop_found(1) [of sz al "h_index h" m] lt i(1) by simp
  assume srt: "index_sorted (h_index h) m" and w: "w \<in> set ?xs" "hole_fits sz al w m"
  from w(1) obtain j where j: "j < length ?xs" "w = ?xs ! j" by (auto simp: in_set_conv_nth)
  have "\<not> j < unat i" using hole_scan.loop_found(2) [of sz al "h_index h" m j] lt i(1) w(2) j(2) by auto
  then show "hole_size m (?xs ! unat i) \<le> hole_size m w"
    using srt j sorted_nth_mono [of "map (hole_size m) ?xs" "unat i" j] by (simp add: index_sorted_def)
qed

text \<open>In the terms of the block list: a hole \<open>(n, True)\<close> fits a request of \<open>sz\<close> bytes.\<close>

lemma index_hole:
  assumes "heap_inv h m bs" "w \<in> set (sa_list (h_index h) m)"
  shows "\<exists>pre n post. bs = pre @ (n, True) # post \<and> unat w = hstart h + extent pre \<and>
    hole_size m w = n"
proof -
  have "unat w \<in> holes (hstart h) bs" using assms unfolding heap_inv_def by (metis imageI)
  then obtain n where n: "(unat w, n, True) \<in> set (addrs (hstart h) bs)" by (auto simp: holes_def)
  note B = heap_inv_block [OF assms(1) n]
  have "ldn m (unat w + 8) = of_nat n" using B(1) by (simp add: block_ok_def header_at_def)
  moreover have "n < 4294967296" using B(4) by linarith
  ultimately have "hole_size m w = n"
    using header_fields_nat(3) [of m "unat w"] by (simp add: unat_of_nat_u32)
  with addrs_split [OF n] show ?thesis by blast
qed

lemma hole_in_index:
  assumes "heap_inv h m bs" "bs = pre @ (n, True) # post"
  shows "\<exists>w \<in> set (sa_list (h_index h) m). unat w = hstart h + extent pre \<and> hole_size m w = n"
proof -
  have "hstart h + extent pre \<in> holes (hstart h) bs" by (simp add: assms(2) holes_append)
  then obtain w where w: "w \<in> set (sa_list (h_index h) m)" "unat w = hstart h + extent pre"
    using assms(1) unfolding heap_inv_def by (metis imageE)
  have n: "(unat w, n, True) \<in> set (addrs (hstart h) bs)" using w(2) assms(2) by (simp add: addrs_append)
  note B = heap_inv_block [OF assms(1) n]
  have "ldn m (unat w + 8) = of_nat n" using B(1) by (simp add: block_ok_def header_at_def)
  moreover have "n < 4294967296" using B(4) by linarith
  ultimately have "hole_size m w = n"
    using header_fields_nat(3) [of m "unat w"] by (simp add: unat_of_nat_u32)
  with w show ?thesis by blast
qed

subsection \<open>\<open>alloc\<close> on the state\<close>

lemma alloc_ok:
  assumes inv: "heap_inv (vm_heaps s heap) (mem s) bs" and sz: "unat sz + 20 < 4294967296"
    and hole: "(n, True) \<in> set bs" "unat sz + 20 \<le> n"
  shows "\<exists>pre hole post h' m'. bs = pre @ (hole, True) # post \<and> unat sz + 20 \<le> hole \<and>
    alloc (Suc k) sz False heap s =
      Inr (of_nat (hstart (vm_heaps s heap) + extent pre + 12), upd_heap heap (\<lambda>_. h') (s\<lparr>mem := m'\<rparr>)) \<and>
    heap_inv h' m' (pre @ carve (unat sz + 20) hole @ post) \<and> same_region (vm_heaps s heap) h' \<and>
    (index_sorted (h_index (vm_heaps s heap)) (mem s) \<longrightarrow> index_sorted (h_index h') m' \<and>
       (\<forall>n. (n, True) \<in> set bs \<longrightarrow> unat sz + 20 \<le> n \<longrightarrow> hole \<le> n)) \<and>
    (\<forall>y. \<not> in_index (vm_heaps s heap) y \<longrightarrow>
       \<not> (hstart (vm_heaps s heap) + extent pre \<le> unat y \<and>
          unat y < hstart (vm_heaps s heap) + extent pre + hole) \<longrightarrow> m' y = mem s y)"
proof -
  let ?h = "vm_heaps s heap" and ?m = "mem s" and ?ix = "h_index (vm_heaps s heap)"
  let ?i = "find_smallest_hole (sz + 12 + 8) False ?h ?m"
  have new: "unat (sz + 12 + 8) = unat sz + 20" using sz by (simp add: unat_add_u32 add.assoc)
  have fits: "hole_fits (sz + 12 + 8) False w m \<longleftrightarrow> unat sz + 20 \<le> hole_size m w" for w m
    using new by (simp add: hole_fits_def u32_le_iff)
  have wf: "sa_wf ?ix" using inv by (simp add: heap_inv_def index_ok_def)
  obtain pr po where "bs = pr @ (n, True) # po" using hole(1) by (auto simp: in_set_conv_decomp)
  then obtain w0 where "w0 \<in> set (sa_list ?ix ?m)" "hole_size ?m w0 = n" using hole_in_index [OF inv] by blast
  then have i: "?i \<noteq> - 1" using find_smallest_hole_none [OF _ wf, of "sz + 12 + 8" False ?m] fits hole(2) by auto
  note F = find_smallest_hole_some [OF refl i]
  let ?w = "sa_list ?ix ?m ! unat ?i"
  have w: "?w \<in> set (sa_list ?ix ?m)" using F(1) by (simp add: u32_less_iff)
  obtain pre hole post where P: "bs = pre @ (hole, True) # post" "unat ?w = hstart ?h + extent pre" "hole_size ?m ?w = hole"
    using index_hole [OF inv w] by blast
  have fit: "unat sz + 20 \<le> hole" using F(2) fits P(3) by simp
  have look: "lookup_sorted_array ?ix ?i ?m = Inr (of_nat (hstart ?h + extent pre))"
    using F(1) P(2) by (metis lookup_sorted_array_range of_nat_unat_u32)
  obtain h' m' where A: "alloc_place sz (sz + 12 + 8) False ?i ?h ?m = Inr (of_nat (hstart ?h + extent pre + 12), h', m')"
      "heap_inv h' m' (pre @ carve (unat sz + 20) hole @ post)" "same_region ?h h'"
      "index_sorted ?ix ?m \<longrightarrow> index_sorted (h_index h') m'"
      "\<forall>y. \<not> in_index ?h y \<longrightarrow> \<not> (hstart ?h + extent pre \<le> unat y \<and> unat y < hstart ?h + extent pre + hole) \<longrightarrow> m' y = ?m y"
    using alloc_place_ok [OF inv [unfolded P(1)] refl look F(1) fit] by auto
  have best: "hole \<le> n" if "index_sorted ?ix ?m" "(n, True) \<in> set bs" "unat sz + 20 \<le> n" for n
  proof -
    obtain pr po where "bs = pr @ (n, True) # po" using \<open>(n, True) \<in> set bs\<close> by (auto simp: in_set_conv_decomp)
    then obtain w' where "w' \<in> set (sa_list ?ix ?m)" "hole_size ?m w' = n" using hole_in_index [OF inv] by blast
    then show ?thesis using F(3) [OF that(1), of w'] fits that(3) P(3) by simp
  qed
  have "alloc (Suc k) sz False heap s =
      Inr (of_nat (hstart ?h + extent pre + 12), upd_heap heap (\<lambda>_. h') (s\<lparr>mem := m'\<rparr>))"
    using A(1) i by (simp add: alloc_body_def Let_def)
  then show ?thesis using P(1) fit A(2-5) best by blast
qed

subsection \<open>Disjointness of allocated blocks\<close>

text \<open>
  The contract every allocator has to meet: the block it returns for a valid request is apart from
  all blocks handed out before.  \<open>inv s rs\<close> relates a state to the ranges (address, length) in
  use.  Then all blocks of a run of requests are pairwise apart.
\<close>

definition apart :: "nat \<times> nat \<Rightarrow> nat \<times> nat \<Rightarrow> bool" where
  "apart r q \<longleftrightarrow> fst r + snd r \<le> fst q \<or> fst q + snd q \<le> fst r"

locale allocator =
  fixes allocate :: "'r \<Rightarrow> 's \<Rightarrow> (u32 \<times> 's) res"
    and len :: "'r \<Rightarrow> nat"
    and valid :: "'r \<Rightarrow> bool"
    and inv :: "'s \<Rightarrow> (nat \<times> nat) list \<Rightarrow> bool"
  assumes fresh: "inv s rs \<Longrightarrow> valid r \<Longrightarrow> allocate r s = Inr (a, s') \<Longrightarrow> q \<in> set rs \<Longrightarrow> apart (unat a, len r) q"
    and keeps: "inv s rs \<Longrightarrow> valid r \<Longrightarrow> allocate r s = Inr (a, s') \<Longrightarrow> inv s' ((unat a, len r) # rs)"
begin

fun allocate_all :: "'r list \<Rightarrow> 's \<Rightarrow> ((nat \<times> nat) list \<times> 's) res" where
  "allocate_all [] s = Inr ([], s)"
| "allocate_all (r # rs) s =
     bindr (allocate r s) (\<lambda>(a, s). bindr (allocate_all rs s) (\<lambda>(qs, s). Inr ((unat a, len r) # qs, s)))"

lemma apart_sym: "apart r q \<Longrightarrow> apart q r"
  by (auto simp: apart_def)

lemma allocate_all_apart:
  assumes "inv s rs" "allocate_all reqs s = Inr (qs, s')" "\<forall>r \<in> set reqs. valid r" "sorted_wrt apart rs"
  shows "sorted_wrt apart (rev qs @ rs) \<and> inv s' (rev qs @ rs)"
  using assms
proof (induction reqs arbitrary: s rs qs)
  case (Cons r reqs)
  from Cons.prems(2) obtain a s1 qs' where a: "allocate r s = Inr (a, s1)"
      and rest: "allocate_all reqs s1 = Inr (qs', s')" "qs = (unat a, len r) # qs'"
    by (auto simp: bindr_eq_Inr)
  have v: "valid r" "\<forall>r \<in> set reqs. valid r" using Cons.prems(3) by simp_all
  have "sorted_wrt apart ((unat a, len r) # rs)"
    using fresh [OF Cons.prems(1) v(1) a] Cons.prems(4) by auto
  then show ?case
    using Cons.IH [OF keeps [OF Cons.prems(1) v(1) a] rest(1) v(2)] rest(2) by simp
qed simp

end

text \<open>
  For the heap a range is in use when it is the payload of a block in use, or a part of it.
\<close>

definition payload_of :: "vm_heap \<Rightarrow> block list \<Rightarrow> nat \<times> nat \<Rightarrow> bool" where
  "payload_of h bs r \<longleftrightarrow> (\<exists>pre n post. bs = pre @ (n, False) # post \<and>
     fst r = hstart h + extent pre + 12 \<and> snd r + 20 \<le> n)"

definition heap_ranges :: "u32 \<Rightarrow> 'a vm_state_scheme \<Rightarrow> (nat \<times> nat) list \<Rightarrow> bool" where
  "heap_ranges heap s rs \<longleftrightarrow>
     (\<exists>bs. heap_inv (vm_heaps s heap) (mem s) bs \<and> (\<forall>r \<in> set rs. payload_of (vm_heaps s heap) bs r))"

lemma append_cases_at:
  assumes "pre @ b # post = pre' @ c # post'" "b \<noteq> c"
  shows "(\<exists>us. pre' = pre @ b # us \<and> post = us @ c # post') \<or> (\<exists>us. pre = pre' @ c # us \<and> post' = us @ b # post)"
  using assms by (auto simp: append_eq_append_conv2 Cons_eq_append_conv append_eq_Cons_conv)

lemma payload_apart_hole:
  assumes "payload_of h (pre @ (hole, True) # post) r" "len + 20 \<le> hole"
  shows "apart (hstart h + extent pre + 12, len) r"
    and "extent mid = hole \<Longrightarrow> payload_of h (pre @ mid @ post) r"
proof -
  obtain pre' n post' where r: "pre @ (hole, True) # post = pre' @ (n, False) # post'"
      "fst r = hstart h + extent pre' + 12" "snd r + 20 \<le> n"
    using assms(1) by (auto simp: payload_of_def)
  from append_cases_at [OF r(1)] consider
      (right) us where "pre' = pre @ (hole, True) # us" "post = us @ (n, False) # post'"
    | (left) us where "pre = pre' @ (n, False) # us" "post' = us @ (hole, True) # post"
    by blast
  then show "apart (hstart h + extent pre + 12, len) r"
    by cases (use r(2,3) assms(2) in \<open>auto simp: apart_def\<close>)
  assume mid: "extent mid = hole"
  from append_cases_at [OF r(1)] consider
      (right) us where "pre' = pre @ (hole, True) # us" "post = us @ (n, False) # post'"
    | (left) us where "pre = pre' @ (n, False) # us" "post' = us @ (hole, True) # post"
    by blast
  then show "payload_of h (pre @ mid @ post) r"
  proof cases
    case right
    then have "pre @ mid @ post = (pre @ mid @ us) @ (n, False) # post'" by simp
    then show ?thesis unfolding payload_of_def
      using right r(2,3) mid by (intro exI [of _ "pre @ mid @ us"] exI [of _ n] exI [of _ post']) simp
  next
    case left
    then have "pre @ mid @ post = pre' @ (n, False) # (us @ mid @ post)" by simp
    then show ?thesis unfolding payload_of_def using r(2,3) by blast
  qed
qed

lemma payload_carve:
  "need \<le> hole \<Longrightarrow> payload_of h (pre @ carve need hole @ post) (hstart h + extent pre + 12, need - 20)
    \<or> need < 20"
proof -
  assume n: "need \<le> hole"
  show ?thesis
  proof (cases "hole - need < 20")
    case True
    then have "pre @ carve need hole @ post = pre @ (hole, False) # post" by (simp add: carve_def)
    then show ?thesis unfolding payload_of_def using n by (cases "need < 20") auto
  next
    case False
    then have "pre @ carve need hole @ post = pre @ (need, False) # (hole - need, True) # post" by (simp add: carve_def)
    then show ?thesis unfolding payload_of_def by (cases "need < 20") auto
  qed
qed

text \<open>A successful \<open>alloc\<close> that needs no expansion went through \<open>alloc_place\<close>.\<close>

lemma alloc_once_hole:
  assumes "alloc (Suc 0) sz False heap s = Inr (p, s')" "heap_inv (vm_heaps s heap) (mem s) bs"
    "unat sz + 20 < 4294967296"
  shows "\<exists>n. (n, True) \<in> set bs \<and> unat sz + 20 \<le> n"
proof -
  let ?h = "vm_heaps s heap" and ?i = "find_smallest_hole (sz + 12 + 8) False (vm_heaps s heap) (mem s)"
  have i: "?i \<noteq> - 1"
    using assms(1) by (auto simp: alloc_body_def Let_def bindr_eq_Inr)
  note F = find_smallest_hole_some [OF refl i]
  have w: "sa_list (h_index ?h) (mem s) ! unat ?i \<in> set (sa_list (h_index ?h) (mem s))"
    using F(1) by (simp add: u32_less_iff)
  obtain pre n post where "bs = pre @ (n, True) # post"
      "hole_size (mem s) (sa_list (h_index ?h) (mem s) ! unat ?i) = n"
    using index_hole [OF assms(2) w] by blast
  moreover have "unat (sz + 12 + 8) = unat sz + 20" using assms(3) by (simp add: unat_add_u32 add.assoc)
  ultimately show ?thesis using F(2) by (auto simp: hole_fits_def u32_le_iff)
qed

lemma heap_alloc_law:
  assumes "heap_ranges heap s rs" "unat sz + 20 < 4294967296" "alloc (Suc 0) sz False heap s = Inr (p, s')"
  shows "\<forall>q \<in> set rs. apart (unat p, unat sz) q" "heap_ranges heap s' ((unat p, unat sz) # rs)"
proof -
  let ?h = "vm_heaps s heap"
  obtain bs where bs: "heap_inv ?h (mem s) bs" "\<forall>r \<in> set rs. payload_of ?h bs r"
    using assms(1) by (auto simp: heap_ranges_def)
  obtain n where n: "(n, True) \<in> set bs" "unat sz + 20 \<le> n" using alloc_once_hole [OF assms(3) bs(1) assms(2)] by blast
  obtain pre hole post h' m' where A: "bs = pre @ (hole, True) # post" "unat sz + 20 \<le> hole"
      "Inr (p, s') = (Inr (of_nat (hstart ?h + extent pre + 12), upd_heap heap (\<lambda>_. h') (s\<lparr>mem := m'\<rparr>)) :: _ res)"
      "heap_inv h' m' (pre @ carve (unat sz + 20) hole @ post)" "same_region ?h h'"
    using alloc_ok [OF bs(1) assms(2) n, of 0] unfolding assms(3) by blast
  have "(hstart ?h + extent pre, hole, True) \<in> set (addrs (hstart ?h) bs)" by (simp add: A(1) addrs_append)
  from heap_inv_block(4) [OF bs(1) this] have up: "unat p = hstart ?h + extent pre + 12"
    using A(2,3) by (simp add: unat_of_nat_u32 del: of_nat_add)
  have st: "hstart h' = hstart ?h" using A(5) by (simp add: same_region_def)
  show "\<forall>q \<in> set rs. apart (unat p, unat sz) q"
    using bs(2) payload_apart_hole(1) [OF _ A(2)] unfolding up A(1) by blast
  have "\<forall>r \<in> set ((unat p, unat sz) # rs). payload_of h' (pre @ carve (unat sz + 20) hole @ post) r"
    using bs(2) payload_apart_hole(2) [OF _ A(2) extent_carve [OF A(2)]] payload_carve [OF A(2), of h' pre post] A(1)
    by (auto simp: up payload_of_def st)
  then show "heap_ranges heap s' ((unat p, unat sz) # rs)"
    using A(3,4) by (auto simp: heap_ranges_def upd_heap_def)
qed

interpretation heap_alloc: allocator "\<lambda>sz s. alloc (Suc 0) sz False heap s" unat "\<lambda>sz. unat sz + 20 < 4294967296"
    "heap_ranges heap"
  for heap
  by unfold_locales (use heap_alloc_law in blast)+

subsection \<open>Properties\<close>

text \<open>A run of unaligned requests to one heap, each with at most \<open>n\<close> nested activations of \<open>alloc\<close>.\<close>

fun alloc_run :: "nat \<Rightarrow> u32 \<Rightarrow> u32 list \<Rightarrow> 'a vm_state_scheme \<Rightarrow> ((nat \<times> nat) list \<times> 'a vm_state_scheme) res" where
  "alloc_run n heap [] s = Inr ([], s)"
| "alloc_run n heap (sz # szs) s =
     bindr (alloc n sz False heap s) (\<lambda>(p, s).
     bindr (alloc_run n heap szs s) (\<lambda>(rs, s). Inr ((unat p, unat sz) # rs, s)))"

lemma alloc_run_allocator: "alloc_run (Suc 0) heap szs s = heap_alloc.allocate_all heap szs s"
  by (induction szs arbitrary: s) (auto simp del: alloc.simps intro!: bindr_cong)

text \<open>A heap to apply the properties to.\<close>

lemma sample_heap:
  "\<exists>s. init_heap 64 0x100000 0x200000 0x300000 0 0 (boot_state 0x80000) = Inr (64, s) \<and>
    heap_inv (vm_heaps s 64) (mem s) [(0x7F000, True)] \<and> hstart (vm_heaps s 64) = 0x181000 \<and>
    sa_maxsize (h_index (vm_heaps s 64)) = 0x20000"
proof -
  obtain h m' where "init_heap 64 (of_nat 0x100000) (of_nat 0x200000) 0x300000 0 0 (boot_state 0x80000) =
      Inr (64, upd_heap 64 (\<lambda>_. h) ((boot_state 0x80000)\<lparr>mem := m'\<rparr>))"
      "heap_inv h m' [(0x7F000, True)]" "h_addr_start h = of_nat 0x181000" "sa_maxsize (h_index h) = 0x20000"
    using init_heap_ok [of "0x100000" "0x200000" 64 "0x300000" 0 0 "boot_state 0x80000"]
    by (auto simp: page_up_def VM_HEAP_INDEX_SIZE_def)
  then show ?thesis
    by (intro exI [of _ "upd_heap 64 (\<lambda>_. h) ((boot_state 0x80000)\<lparr>mem := m'\<rparr>)"]) (simp add: upd_heap_def)
qed

text \<open>Successive allocations from a heap with one hole, at its end, stack up in front of the hole.\<close>

lemma alloc_from_last:
  assumes "heap_inv (vm_heaps s heap) (mem s) (us @ [(n, True)])" "\<forall>b \<in> set us. \<not> snd b"
    "unat sz + 40 \<le> n" "n < 4294967296"
  shows "\<exists>s'. alloc (Suc 0) sz False heap s = Inr (of_nat (hstart (vm_heaps s heap) + extent us + 12), s') \<and>
    heap_inv (vm_heaps s' heap) (mem s') (us @ [(unat sz + 20, False), (n - (unat sz + 20), True)]) \<and>
    same_region (vm_heaps s heap) (vm_heaps s' heap)"
proof -
  have "unat sz + 20 < 4294967296" "(n, True) \<in> set (us @ [(n, True)])" "unat sz + 20 \<le> n"
    using assms(3,4) by auto
  from alloc_ok [OF assms(1) this, of 0]
  obtain pre hole post h' m' where A: "us @ [(n, True)] = pre @ (hole, True) # post"
      "alloc (Suc 0) sz False heap s =
        Inr (of_nat (hstart (vm_heaps s heap) + extent pre + 12), upd_heap heap (\<lambda>_. h') (s\<lparr>mem := m'\<rparr>))"
      "heap_inv h' m' (pre @ carve (unat sz + 20) hole @ post)" "same_region (vm_heaps s heap) h'"
    by blast
  have "post = []"
  proof (rule ccontr)
    assume "post \<noteq> []"
    then have "(hole, True) \<in> set us" using A(1) by (cases post rule: rev_cases) auto
    then show False using assms(2) by fastforce
  qed
  then have eq: "pre = us" "hole = n" "post = []" using A(1) by auto
  have "\<not> n - (unat sz + 20) < 20" using assms(3) by linarith
  then show ?thesis
    unfolding A(2) using A(3,4) unfolding eq by (simp add: carve_def upd_heap_def)
qed

lemma sample_run:
  "\<exists>s0 s1 s2 s. init_heap 64 0x100000 0x200000 0x300000 0 0 (boot_state 0x80000) = Inr (64, s0) \<and>
    alloc 1 100 False 64 s0 = Inr (0x18100C, s1) \<and> alloc 1 100 False 64 s1 = Inr (0x181084, s2) \<and>
    alloc 1 100 False 64 s2 = Inr (0x1810FC, s) \<and>
    heap_inv (vm_heaps s 64) (mem s) [(120, False), (120, False), (120, False), (0x7EE98, True)] \<and>
    hstart (vm_heaps s 64) = 0x181000 \<and> sa_maxsize (h_index (vm_heaps s 64)) = 0x20000"
proof -
  obtain s0 where s0: "init_heap 64 0x100000 0x200000 0x300000 0 0 (boot_state 0x80000) = Inr (64, s0)"
      "heap_inv (vm_heaps s0 64) (mem s0) ([] @ [(0x7F000, True)])" "hstart (vm_heaps s0 64) = 0x181000"
      "sa_maxsize (h_index (vm_heaps s0 64)) = 0x20000"
    using sample_heap by auto
  have st: "h_addr_start (vm_heaps s0 64) = 0x181000" using s0(3) by (simp add: u32_eq_iff)
  obtain s1 where s1: "alloc 1 100 False 64 s0 = Inr (0x18100C, s1)" "same_region (vm_heaps s0 64) (vm_heaps s1 64)"
      "heap_inv (vm_heaps s1 64) (mem s1) ([(120, False)] @ [(0x7EF88, True)])"
    using alloc_from_last [OF s0(2), of 100] s0(3) by (auto simp del: alloc.simps)
  obtain s2 where s2: "alloc 1 100 False 64 s1 = Inr (0x181084, s2)" "same_region (vm_heaps s1 64) (vm_heaps s2 64)"
      "heap_inv (vm_heaps s2 64) (mem s2) ([(120, False), (120, False)] @ [(0x7EF10, True)])"
    using alloc_from_last [OF s1(3), of 100] s1(2) st by (auto simp: same_region_def simp del: alloc.simps)
  obtain s where "alloc 1 100 False 64 s2 = Inr (0x1810FC, s)" "same_region (vm_heaps s2 64) (vm_heaps s 64)"
      "heap_inv (vm_heaps s 64) (mem s) [(120, False), (120, False), (120, False), (0x7EE98, True)]"
    using alloc_from_last [OF s2(3), of 100] s1(2) s2(2) st by (auto simp: same_region_def simp del: alloc.simps)
  with s0 s1 s2 show ?thesis by (auto simp: same_region_def simp del: alloc.simps)
qed

text \<open>
  Whatever sequence of unaligned requests \<open>alloc\<close> serves from the holes of a heap, without growing it, the
  payloads it returns never overlap one another.
\<close>

theorem alloc_blocks_apart:
  assumes "heap_inv (vm_heaps s heap) (mem s) bs" "\<forall>sz \<in> set szs. unat sz + 20 < 4294967296"
    "alloc_run (Suc 0) heap szs s = Inr (rs, s')"
  shows "sorted_wrt (\<lambda>r q. fst r + snd r \<le> fst q \<or> fst q + snd q \<le> fst r) (rev rs)"
proof -
  have "heap_ranges heap s []" using assms(1) by (auto simp: heap_ranges_def)
  then have "sorted_wrt apart (rev rs @ [])"
    using heap_alloc.allocate_all_apart [of heap s "[]" szs rs s'] assms(2,3) by (simp add: alloc_run_allocator)
  then show ?thesis by (simp add: apart_def [abs_def])
qed

theorem alloc_blocks_apart_witness:
  "\<exists>s rs s'. init_heap 64 0x100000 0x200000 0x300000 0 0 (boot_state 0x80000) = Inr (64, s) \<and>
    alloc_run (Suc 0) 64 [100, 5000] s = Inr (rs, s') \<and> length rs = 2 \<and>
    sorted_wrt (\<lambda>r q. fst r + snd r \<le> fst q \<or> fst q + snd q \<le> fst r) (rev rs)"
proof -
  obtain s where s: "init_heap 64 0x100000 0x200000 0x300000 0 0 (boot_state 0x80000) = Inr (64, s)"
      "heap_inv (vm_heaps s 64) (mem s) [(0x7F000, True)]"
    using sample_heap by blast
  obtain p1 h1 m1 where s1: "alloc (Suc 0) 100 False 64 s = Inr (p1, upd_heap 64 (\<lambda>_. h1) (s\<lparr>mem := m1\<rparr>))"
      "heap_inv h1 m1 [(120, False), (0x7EF88, True)]"
    using alloc_ok [OF s(2), of 100 "0x7F000" 0] by (auto simp: Cons_eq_append_conv carve_def simp del: alloc.simps)
  let ?s1 = "upd_heap 64 (\<lambda>_. h1) (s\<lparr>mem := m1\<rparr>)"
  have "heap_inv (vm_heaps ?s1 64) (mem ?s1) [(120, False), (0x7EF88, True)]"
    using s1(2) by (simp add: upd_heap_def)
  from alloc_ok [OF this, of 5000 "0x7EF88" 0]
  obtain p2 s2 where "alloc (Suc 0) 5000 False 64 ?s1 = Inr (p2, s2)" by (auto simp del: alloc.simps)
  then have "alloc_run (Suc 0) 64 [100, 5000] s = Inr ([(unat p1, 100), (unat p2, 5000)], s2)"
    using s1(1) by (simp del: alloc.simps)
  with alloc_blocks_apart [OF s(2) _ this] s(1) show ?thesis by auto
qed

end
