(* ===== verification/Heap_Align.thy ===== *)
theory Heap_Align
  imports Heap
begin

section \<open>Requests with page alignment\<close>

text \<open>
  Requests with page alignment.  \<open>alloc\<close> leaves a hole in front of the block so that the payload starts on a
  page boundary; the entry of the index stays and now names that hole.  The code does not check that the front has
  room for a header and a footer, nor that a rest behind the block has: \<open>aligned_room\<close> says when both do.
\<close>

subsection \<open>The hole in front\<close>

definition front :: "nat \<Rightarrow> nat" where
  "front x = 4096 - x mod 4096 - 12"

definition aligned_room :: "nat \<Rightarrow> nat \<times> nat \<times> bool \<Rightarrow> bool" where
  "aligned_room need b = (case b of (x, n, hole) \<Rightarrow> hole \<longrightarrow>
     4096 \<le> x \<and> x mod 4096 \<le> 4064 \<and> n < 2147483648 \<and> (n \<le> front x + need \<or> front x + need + 20 \<le> n))"

lemma front_bounds:
  assumes "x mod 4096 \<le> 4064"
  shows "20 \<le> front x" "front x \<le> 4084" "(x + front x + 12) mod 4096 = 0" "x mod 4096 + 12 + front x = 4096"
proof -
  show a: "20 \<le> front x" "front x \<le> 4084" "x mod 4096 + 12 + front x = 4096" using assms by (simp_all add: front_def)
  have "x + front x + 12 = x div 4096 * 4096 + (x mod 4096 + 12 + front x)" by simp
  then show "(x + front x + 12) mod 4096 = 0" unfolding a(3) by simp
qed

lemma front_words:
  assumes "4096 \<le> x" "x < 4294967296" "x mod 4096 \<le> 4064"
  shows "of_nat x AND 0xFFFFF000 \<noteq> (0 :: u32)"
    "0x1000 - (of_nat x AND 0xFFF) - 12 = (of_nat (front x) :: u32)"
    "of_nat x + 0x1000 - (of_nat x AND 0xFFF) - 12 = (of_nat (x + front x) :: u32)"
proof -
  have "unat (of_nat x AND 0xFFFFF000 :: u32) = x - x mod 4096" using assms(2) by (simp add: unat_page_mask unat_of_nat_u32)
  moreover have "x mod 4096 < x" using assms(1,3) by linarith
  ultimately show "of_nat x AND 0xFFFFF000 \<noteq> (0 :: u32)" by (metis unat_0 zero_less_diff less_irrefl)
  have "unat (of_nat x AND 0xFFF :: u32) = x mod 4096" using assms(2) by (simp add: unat_and_FFF unat_of_nat_u32)
  then have m: "(of_nat x AND 0xFFF :: u32) = of_nat (x mod 4096)" by (metis of_nat_unat_u32)
  have "(of_nat (x mod 4096 + 12 + front x) :: u32) = 0x1000" unfolding front_bounds(4) [OF assms(3)] by simp
  then have f: "(of_nat (x mod 4096) + 12 + of_nat (front x) :: u32) = 0x1000" by simp
  show "0x1000 - (of_nat x AND 0xFFF) - 12 = (of_nat (front x) :: u32)" unfolding m f [symmetric] by simp
  then show "of_nat x + 0x1000 - (of_nat x AND 0xFFF) - 12 = (of_nat (x + front x) :: u32)"
    by (simp add: algebra_simps)
qed

lemma fits_aligned:
  assumes "aligned_room need (unat w, hole_size m w, True)" "need < 2147483648" "unat w + 12 < 4294967296"
  shows "hole_fits (of_nat need) True w m \<longleftrightarrow> front (unat w) + need \<le> hole_size m w"
proof -
  let ?x = "unat w" and ?n = "hole_size m w"
  have x: "4096 \<le> ?x" "?x mod 4096 \<le> 4064" "?n < 2147483648" using assms(1) by (simp_all add: aligned_room_def)
  have w: "w + 12 = of_nat (?x + 12)" by simp
  have u: "unat (w + 12) = ?x + 12" using assms(3) by (simp add: unat_add_u32)
  have "?x mod 4096 + 12 < 4096" using x(2) by linarith
  then have "(?x + 12) mod 4096 = ?x mod 4096 + 12" by (metis mod_add_left_eq mod_less)
  then have o1: "unat (0x1000 - (w + 12) mod 0x1000 :: u32) = front ?x"
    using u x(2) by (simp add: unat_sub_u32 u32_le_iff unat_mod front_def)
  have "(?x + 12) mod 4096 < ?x + 12" using x(1) mod_less_divisor [of 4096 "?x + 12"] by linarith
  then have "unat ((w + 12) AND 0xFFFFF000) \<noteq> 0" unfolding unat_page_mask u by simp
  then have o2: "(w + 12) AND 0xFFFFF000 \<noteq> 0" by auto
  have "front ?x < 2147483648" using front_bounds(2) [OF x(2)] by simp
  then have d: "sint (hh_size m w - (0x1000 - (w + 12) mod 0x1000)) = int ?n - int (front ?x)"
    using sint_diff [of "hh_size m w" "0x1000 - (w + 12) mod 0x1000"] x(3) unfolding o1 by blast
  have "sint (of_nat need :: u32) = int need" using assms(2) sint_u32 [of "of_nat need"] by (simp add: unat_of_nat_u32)
  then show ?thesis using o2 d by (simp only: hole_fits_def Let_def if_True simp_thms) linarith
qed

subsection \<open>The block behind the front\<close>

lemma gap_front:
  assumes inv: "heap_inv h m (pre @ (hole, True) # post)" and "20 \<le> n" "n \<le> hole"
  defines "x \<equiv> hstart h + extent pre"
  shows "gap_inv h (write_block x n True m) (pre @ [(n, True)]) (hole - n) post"
proof -
  let ?m = "write_block x n True m"
  have B: "x + hole \<le> 4294967295" using heap_inv_block(4) [OF inv, of x hole True] by (simp add: addrs_append x_def)
  have ag: "?m y = m y" if "\<not> (x \<le> unat y \<and> unat y < x + hole)" for y
    using that assms(2,3) B by (intro write_block_agree) auto
  have ix: "index_ok (h_index h) (hstart h)" using inv by (simp add: heap_inv_def)
  have l: "sa_list (h_index h) ?m = sa_list (h_index h) m"
    by (rule sa_list_agree [OF ix]) (use ag in \<open>auto simp: x_def less_imp_le\<close>)
  have "block_ok ?m (hend h) (x, n, True)" using assms(2,3) B by (intro write_block_ok) auto
  moreover have "block_ok ?m (hend h) (z, k, v)"
    if b: "(z, k, v) \<in> set (addrs (hstart h) pre) \<union> set (addrs (x + hole) post)" for z k v
  proof -
    have "(z, k, v) \<in> set (addrs (hstart h) (pre @ (hole, True) # post))" using b by (auto simp: addrs_append x_def)
    note K = heap_inv_block [OF inv this]
    have "z + k \<le> x \<or> x + hole \<le> z" using b addrs_bounds by (fastforce simp: x_def)
    then show ?thesis by (intro block_ok_agree [OF K(1)]) (use K(4) ag in auto)
  qed
  ultimately show ?thesis
    using inv assms(3) unfolding gap_inv_def l
    by (auto simp: heap_inv_def heap_ok_def addrs_append holes_append x_def add.assoc)
qed

lemma alloc_place_aligned_words:
  assumes look: "lookup_sorted_array (h_index h) i m = Inr (of_nat x)" and hd: "ldn m (x + 8) = of_nat hole"
    and x: "4096 \<le> x" "x mod 4096 \<le> 4064" "x + hole < 4294967296" and fits: "front x + (unat sz + 20) \<le> hole"
  shows "alloc_place sz (sz + 12 + 8) True i h m =
    bindr (alloc_rest (of_nat (unat sz + 20 - 20)) (of_nat (unat sz + 20)) (of_nat (x + front x)) (of_nat (hole - front x)) h
             (write_block (x + front x) (unat sz + 20) False (write_block x (front x) True m)))
      (\<lambda>(h, m). Inr (of_nat (x + front x) + 12, h, m))"
proof -
  let ?F = "front x" and ?m = "write_block x (front x) True m"
  note F = front_bounds(1,2) [OF x(2)] and w = front_words [OF x(1) _ x(2)]
  have x32: "x < 4294967296" using x(3) by simp
  have new: "(sz + 12 + 8 :: u32) = of_nat (unat sz + 20)" by (simp add: add.assoc)
  have diff: "(of_nat hole - of_nat (unat sz + 20) :: u32) = of_nat (hole - (unat sz + 20))"
    using fits by (simp only: of_nat_diff)
  have less: "\<not> (of_nat (hole - (unat sz + 20)) :: u32) < 12 + 8"
    using fits F(1) x(3) by (simp add: u32_less_iff unat_of_nat_u32 del: of_nat_diff)
  have foot: "(of_nat (x + ?F) - 8 :: u32) = of_nat (x + ?F - 8)"
    "(of_nat (x + ?F) + 12 + sz :: u32) = of_nat (x + ?F + (unat sz + 20) - 8)"
    using F(1) by (simp_all add: of_nat_diff)
  have "block_ok ?m (hend h) (x, ?F, True)" using F fits x(3) by (intro write_block_ok) auto
  then have sz: "hh_size ?m (of_nat x) = of_nat ?F" by (simp add: block_ok_def header_at_def header_fields_nat)
  have front: "alloc_front True i (of_nat x) (of_nat hole) h m = Inr (of_nat (x + ?F), of_nat (hole - ?F), h, ?m)"
    using sz fits unfolding alloc_front_def w [OF x32] Let_def foot(1)
    by (simp add: w(1) [OF x32] write_block_def of_nat_diff del: of_nat_add)
  show ?thesis
    unfolding alloc_place_def look bindr_Inr header_fields_nat hd Let_def new diff if_not_P [OF less] prod.case front foot(2)
    by (simp add: write_block_def del: of_nat_add of_nat_diff)
qed

lemma alloc_place_aligned:
  assumes inv: "heap_inv h m (pre @ (hole, True) # post)" and x: "x = hstart h + extent pre"
    and look: "lookup_sorted_array (h_index h) i m = Inr (of_nat x)"
    and room: "aligned_room (unat sz + 20) (x, hole, True)" and fits: "front x + (unat sz + 20) \<le> hole"
    and full: "sa_size (h_index h) < sa_maxsize (h_index h)"
  shows "\<exists>h' m'. alloc_place sz (sz + 12 + 8) True i h m = Inr (of_nat (x + front x + 12), h', m') \<and>
    heap_inv h' m' (pre @ (front x, True) # carve (unat sz + 20) (hole - front x) @ post) \<and> same_region h h' \<and>
    (\<forall>y. \<not> in_index h y \<longrightarrow> \<not> (x \<le> unat y \<and> unat y < x + hole) \<longrightarrow> m' y = m y)"
proof -
  let ?n = "unat sz + 20" and ?F = "front x" and ?z = "x + front x" and ?m = "write_block x (front x) True m"
  have R: "4096 \<le> x" "x mod 4096 \<le> 4064" "hole \<le> ?F + ?n \<or> ?F + ?n + 20 \<le> hole" using room by (auto simp: aligned_room_def)
  note F = front_bounds(1,2) [OF R(2)]
  have B: "block_ok m (hend h) (x, hole, True)" "x + hole \<le> hend h" "x + hole < 4294967296"
    using heap_inv_block [OF inv, of x hole True] x by (simp_all add: addrs_append)
  then have hd: "ldn m (x + 8) = of_nat hole" by (simp add: block_ok_def header_at_def)
  have gap: "gap_inv h ?m (pre @ [(?F, True)]) (hole - ?F) post"
    using gap_front [OF inv F(1)] fits x by simp
  have z: "hstart h + extent (pre @ [(?F, True)]) = ?z" by (simp add: x)
  have ag: "?m y = m y" if "\<not> (x \<le> unat y \<and> unat y < x + hole)" for y
    using that F fits B(3) by (intro write_block_agree) auto
  note words = alloc_place_aligned_words [OF look hd R(1,2) B(3) fits]
  show ?thesis
  proof (cases "hole = ?F + ?n")
    case True
    let ?m2 = "write_block ?z ?n False ?m"
    have n: "hole - ?F = ?n" using True by simp
    have "alloc_place sz (sz + 12 + 8) True i h m = Inr (of_nat (?z + 12), h, ?m2)"
      unfolding words n alloc_rest_none by simp
    moreover have "heap_inv h ?m2 ((pre @ [(?F, True)]) @ [(?n, False)] @ post)"
      using fill_whole(1) [OF gap] unfolding z n by simp
    moreover have "?m2 y = m y" if "\<not> (x \<le> unat y \<and> unat y < x + hole)" for y
      using ag [OF that] that True B(3) write_block_agree [of ?z y ?n False ?m] by auto
    ultimately show ?thesis unfolding n
      by (intro exI [of _ h] exI [of _ ?m2]) (simp add: carve_def same_region_def)
  next
    case False
    then have n: "?n + 20 \<le> hole - ?F" using R(3) fits by linarith
    have e: "?z + (hole - ?F) = x + hole" using fits by simp
    obtain ix m' where fill: "insert_sorted_array (h_index h) (of_nat (?z + ?n))
          (write_block (?z + ?n) (hole - ?F - ?n) True (write_block ?z ?n False ?m)) = Inr (ix, m')"
        "heap_inv (h\<lparr>h_index := ix\<rparr>) m' ((pre @ [(?F, True)]) @ [(?n, False), (hole - ?F - ?n, True)] @ post)"
        "same_region h (h\<lparr>h_index := ix\<rparr>)"
        "\<forall>y. \<not> in_index h y \<longrightarrow> \<not> (?z \<le> unat y \<and> unat y < x + hole) \<longrightarrow> m' y = ?m y"
      using fill_split [OF gap _ n full] unfolding z e by auto
    have "alloc_place sz (sz + 12 + 8) True i h m = Inr (of_nat (?z + 12), h\<lparr>h_index := ix\<rparr>, m')"
      using B(2) alloc_rest_split [OF n, of ?z h] fill(1) unfolding words e by simp
    moreover have "m' y = m y" if "\<not> in_index h y" "\<not> (x \<le> unat y \<and> unat y < x + hole)" for y
      using ag [OF that(2)] fill(4) that by auto
    moreover have "carve ?n (hole - ?F) = [(?n, False), (hole - ?F - ?n, True)]" using n unfolding carve_def by (intro if_not_P) linarith
    ultimately show ?thesis
      using fill(2,3) by (intro exI [of _ "h\<lparr>h_index := ix\<rparr>"] exI [of _ m']) simp
  qed
qed

subsection \<open>\<open>alloc\<close> with page alignment\<close>

lemma alloc_aligned_ok:
  assumes inv: "heap_inv (vm_heaps s heap) (mem s) bs" and sz: "unat sz + 20 < 2147483648"
    and full: "sa_size (h_index (vm_heaps s heap)) < sa_maxsize (h_index (vm_heaps s heap))"
    and room: "\<forall>b \<in> set (addrs (hstart (vm_heaps s heap)) bs). aligned_room (unat sz + 20) b"
    and hole: "(x0, n, True) \<in> set (addrs (hstart (vm_heaps s heap)) bs)" "front x0 + (unat sz + 20) \<le> n"
  shows "\<exists>pre hole post x h' m'. bs = pre @ (hole, True) # post \<and> x = hstart (vm_heaps s heap) + extent pre \<and>
    front x + (unat sz + 20) \<le> hole \<and> x mod 4096 \<le> 4064 \<and>
    alloc (Suc k) sz True heap s = Inr (of_nat (x + front x + 12), upd_heap heap (\<lambda>_. h') (s\<lparr>mem := m'\<rparr>)) \<and>
    heap_inv h' m' (pre @ (front x, True) # carve (unat sz + 20) (hole - front x) @ post) \<and> same_region (vm_heaps s heap) h' \<and>
    (index_sorted (h_index (vm_heaps s heap)) (mem s) \<longrightarrow>
       (\<forall>x n. (x, n, True) \<in> set (addrs (hstart (vm_heaps s heap)) bs) \<longrightarrow> front x + (unat sz + 20) \<le> n \<longrightarrow> hole \<le> n)) \<and>
    (\<forall>y. \<not> in_index (vm_heaps s heap) y \<longrightarrow> \<not> (x \<le> unat y \<and> unat y < x + hole) \<longrightarrow> m' y = mem s y)"
proof -
  let ?h = "vm_heaps s heap" and ?m = "mem s" and ?ix = "h_index (vm_heaps s heap)" and ?need = "unat sz + 20"
  let ?i = "find_smallest_hole (sz + 12 + 8) True ?h ?m"
  have new: "(sz + 12 + 8 :: u32) = of_nat ?need" by (simp add: add.assoc)
  have fits: "hole_fits (sz + 12 + 8) True w ?m \<longleftrightarrow> front (unat w) + ?need \<le> hole_size ?m w"
    if w: "w \<in> set (sa_list ?ix ?m)" for w
  proof -
    obtain pre n post where P: "bs = pre @ (n, True) # post" "unat w = hstart ?h + extent pre" "hole_size ?m w = n"
      using index_hole [OF inv w] by blast
    then have b: "(unat w, n, True) \<in> set (addrs (hstart ?h) bs)" by (simp add: addrs_append)
    show ?thesis unfolding new
      by (rule fits_aligned [OF _ sz]) (use room b P(3) heap_inv_block(4,5) [OF inv b] in auto)
  qed
  have listed: "\<exists>w \<in> set (sa_list ?ix ?m). unat w = x \<and> hole_size ?m w = n" if b: "(x, n, True) \<in> set (addrs (hstart ?h) bs)" for x n
  proof -
    from addrs_split [OF b] obtain pr po where "bs = pr @ (n, True) # po" "x = hstart ?h + extent pr" by blast
    then show ?thesis using hole_in_index [OF inv] by blast
  qed
  have wf: "sa_wf ?ix" using inv by (simp add: heap_inv_def index_ok_def)
  have i: "?i \<noteq> - 1"
    using listed [OF hole(1)] fits hole(2) find_smallest_hole_none [OF _ wf, of "sz + 12 + 8" True ?m] by blast
  note F = find_smallest_hole_some [OF refl i]
  let ?w = "sa_list ?ix ?m ! unat ?i"
  have w: "?w \<in> set (sa_list ?ix ?m)" using F(1) by (simp add: u32_less_iff)
  obtain pre hole post where P: "bs = pre @ (hole, True) # post" "unat ?w = hstart ?h + extent pre" "hole_size ?m ?w = hole"
    using index_hole [OF inv w] by blast
  let ?x = "hstart ?h + extent pre"
  have fit: "front ?x + ?need \<le> hole" using F(2) fits [OF w] P by simp
  have rm: "aligned_room ?need (?x, hole, True)" using room P(1) by (simp add: addrs_append)
  have look: "lookup_sorted_array ?ix ?i ?m = Inr (of_nat ?x)" using F(1) P(2) by (metis lookup_sorted_array_range of_nat_unat_u32)
  obtain h' m' where A: "alloc_place sz (sz + 12 + 8) True ?i ?h ?m = Inr (of_nat (?x + front ?x + 12), h', m')"
      "heap_inv h' m' (pre @ (front ?x, True) # carve ?need (hole - front ?x) @ post)" "same_region ?h h'"
      "\<forall>y. \<not> in_index ?h y \<longrightarrow> \<not> (?x \<le> unat y \<and> unat y < ?x + hole) \<longrightarrow> m' y = ?m y"
    using alloc_place_aligned [OF inv [unfolded P(1)] refl look rm fit full] by blast
  have best: "hole \<le> n" if "index_sorted ?ix ?m" "(x, n, True) \<in> set (addrs (hstart ?h) bs)" "front x + ?need \<le> n" for x n
    using listed [OF that(2)] fits F(3) [OF that(1)] that(3) P(3) by blast
  have "alloc (Suc k) sz True heap s = Inr (of_nat (?x + front ?x + 12), upd_heap heap (\<lambda>_. h') (s\<lparr>mem := m'\<rparr>))"
    using A(1) i by (simp add: alloc_body_def Let_def)
  moreover have "?x mod 4096 \<le> 4064" using rm by (simp add: aligned_room_def)
  ultimately show ?thesis using P(1) fit A(2-4) best by blast
qed

text \<open>The bytes \<open>alloc\<close> leaves free in front of a block at the start of a hole at \<open>x\<close>.\<close>

definition skip :: "bool \<Rightarrow> nat \<Rightarrow> nat" where
  "skip page_align x = (if page_align then front x else 0)"

lemma skip_simps [simp]: "skip False x = 0" "skip True x = front x"
  by (simp_all add: skip_def)

text \<open>
  Property C2.  On a heap that satisfies the invariant, whenever some hole is large enough for a request with its header and footer -
  and, if it asks for page alignment, with the bytes up to the next page boundary -, \<open>alloc\<close> succeeds: it puts the block into
  a large enough hole - the smallest one, if the index is sorted by size, and without alignment it then stays
  sorted -, at its start or so that the payload starts on a page boundary behind a hole in front, splits off
  the rest as a new hole unless the rest is too small for one, keeps the invariant, and changes no byte outside the hole it
  uses and the index.  With alignment this needs what the code does not check: a free entry in the index and holes, behind the first page and below \<open>2^31\<close> bytes, whose front, and whose rest if any,
  have room for a header and a footer.
\<close>

theorem alloc_correct:
  assumes "heap_inv (vm_heaps s heap) (mem s) bs" "unat sz + 20 < 4294967296"
    "page_align \<longrightarrow> unat sz + 20 < 2147483648 \<and> sa_size (h_index (vm_heaps s heap)) < sa_maxsize (h_index (vm_heaps s heap)) \<and>
       (\<forall>b \<in> set (addrs (hstart (vm_heaps s heap)) bs). aligned_room (unat sz + 20) b)"
    "(x0, n, True) \<in> set (addrs (hstart (vm_heaps s heap)) bs)" "skip page_align x0 + (unat sz + 20) \<le> n"
  shows "\<exists>pre hole post x k s'. bs = pre @ (hole, True) # post \<and> x = hstart (vm_heaps s heap) + extent pre \<and>
    k = skip page_align x \<and> k + (unat sz + 20) \<le> hole \<and> (page_align \<longrightarrow> 4096 dvd x + k + 12) \<and>
    alloc (Suc d) sz page_align heap s = Inr (of_nat (x + k + 12), s') \<and>
    heap_inv (vm_heaps s' heap) (mem s')
      (pre @ (if page_align then [(k, True)] else []) @
        (if hole - k - (unat sz + 20) < 20 then [(hole - k, False)]
         else [(unat sz + 20, False), (hole - k - (unat sz + 20), True)]) @ post) \<and>
    same_region (vm_heaps s heap) (vm_heaps s' heap) \<and>
    (index_sorted (h_index (vm_heaps s heap)) (mem s) \<longrightarrow>
       (\<not> page_align \<longrightarrow> index_sorted (h_index (vm_heaps s' heap)) (mem s')) \<and>
       (\<forall>y n. (y, n, True) \<in> set (addrs (hstart (vm_heaps s heap)) bs) \<longrightarrow> skip page_align y + (unat sz + 20) \<le> n \<longrightarrow> hole \<le> n)) \<and>
    (\<forall>y. \<not> in_index (vm_heaps s heap) y \<longrightarrow> \<not> (x \<le> unat y \<and> unat y < x + hole) \<longrightarrow> mem s' y = mem s y)"
proof -
  let ?h = "vm_heaps s heap" and ?n = "unat sz + 20"
  have set: "(n, True) \<in> set bs" if b: "(x, n, True) \<in> set (addrs (hstart ?h) bs)" for x n using addrs_split [OF b] by auto
  obtain pre hole post x h' m' where A: "bs = pre @ (hole, True) # post" "x = hstart ?h + extent pre"
      "skip page_align x + ?n \<le> hole" "page_align \<longrightarrow> x mod 4096 \<le> 4064"
      "alloc (Suc d) sz page_align heap s = Inr (of_nat (x + skip page_align x + 12), upd_heap heap (\<lambda>_. h') (s\<lparr>mem := m'\<rparr>))"
      "heap_inv h' m' (pre @ (if page_align then [(skip page_align x, True)] else []) @ carve ?n (hole - skip page_align x) @ post)"
      "same_region ?h h'" "index_sorted (h_index ?h) (mem s) \<longrightarrow> (\<not> page_align \<longrightarrow> index_sorted (h_index h') m') \<and>
        (\<forall>y n. (y, n, True) \<in> set (addrs (hstart ?h) bs) \<longrightarrow> skip page_align y + ?n \<le> n \<longrightarrow> hole \<le> n)"
      "\<forall>y. \<not> in_index ?h y \<longrightarrow> \<not> (x \<le> unat y \<and> unat y < x + hole) \<longrightarrow> m' y = mem s y"
  proof (cases page_align)
    case True
    with alloc_aligned_ok [OF assms(1) _ _ _ assms(4), of sz d] assms(3,5) that show ?thesis
      by (simp del: alloc.simps) blast
  next
    case False
    then obtain pre hole post h' m' where U: "bs = pre @ (hole, True) # post" "?n \<le> hole"
        "alloc (Suc d) sz False heap s = Inr (of_nat (hstart ?h + extent pre + 12), upd_heap heap (\<lambda>_. h') (s\<lparr>mem := m'\<rparr>))"
        "heap_inv h' m' (pre @ carve ?n hole @ post)" "same_region ?h h'"
        "index_sorted (h_index ?h) (mem s) \<longrightarrow> index_sorted (h_index h') m' \<and> (\<forall>n. (n, True) \<in> set bs \<longrightarrow> ?n \<le> n \<longrightarrow> hole \<le> n)"
        "\<forall>y. \<not> in_index ?h y \<longrightarrow> \<not> (hstart ?h + extent pre \<le> unat y \<and> unat y < hstart ?h + extent pre + hole) \<longrightarrow> m' y = mem s y"
      using alloc_ok [OF assms(1,2) set [OF assms(4)], of d] assms(5) by auto
    show ?thesis
      by (rule that [OF U(1) refl]) (use False U set in \<open>simp_all del: alloc.simps\<close>, blast)
  qed
  have al: "page_align \<longrightarrow> 4096 dvd x + skip page_align x + 12" using A(4) front_bounds(3) [of x] by (auto simp: dvd_eq_mod_eq_0)
  have s': "vm_heaps (upd_heap heap (\<lambda>_. h') (s\<lparr>mem := m'\<rparr>)) heap = h'" "mem (upd_heap heap (\<lambda>_. h') (s\<lparr>mem := m'\<rparr>)) = m'"
    by (simp_all add: upd_heap_def)
  show ?thesis
    by (rule exI [of _ pre], rule exI [of _ hole], rule exI [of _ post], rule exI [of _ x], rule exI [of _ "skip page_align x"],
        rule exI [of _ "upd_heap heap (\<lambda>_. h') (s\<lparr>mem := m'\<rparr>)"], unfold s')
      (use A al in \<open>simp only: carve_def simp_thms\<close>)
qed

theorem alloc_correct_witness:
  "\<exists>s s1 s2. init_heap 64 0x100000 0x200000 0x300000 0 0 (boot_state 0x80000) = Inr (64, s) \<and>
    alloc 1 100 False 64 s = Inr (0x18100C, s1) \<and> heap_inv (vm_heaps s1 64) (mem s1) [(120, False), (0x7EF88, True)] \<and>
    alloc 1 100 True 64 s = Inr (0x182000, s2) \<and>
    heap_inv (vm_heaps s2 64) (mem s2) [(4084, True), (120, False), (0x7DF94, True)]"
proof -
  obtain s where s: "init_heap 64 0x100000 0x200000 0x300000 0 0 (boot_state 0x80000) = Inr (64, s)"
      "heap_inv (vm_heaps s 64) (mem s) [(0x7F000, True)]" "hstart (vm_heaps s 64) = 0x181000"
      "sa_maxsize (h_index (vm_heaps s 64)) = 0x20000"
    using sample_heap by blast
  let ?l = "sa_list (h_index (vm_heaps s 64)) (mem s)"
  have "distinct ?l" "unat ` set ?l = {0x181000}" using s(2,3) by (simp_all add: heap_inv_def)
  then have "length ?l = 1" by (metis card_image card_1_singleton_iff distinct_card inj_on_def u32_eq_iff One_nat_def)
  then have size: "sa_size (h_index (vm_heaps s 64)) < sa_maxsize (h_index (vm_heaps s 64))" by (simp add: s(4) u32_less_iff)
  have fr: "front 0x181000 = 4084" by (simp add: front_def)
  have "\<exists>s1. alloc 1 100 False 64 s = Inr (0x18100C, s1) \<and> heap_inv (vm_heaps s1 64) (mem s1) [(120, False), (0x7EF88, True)]"
    using alloc_correct [OF s(2), of 100 False "0x181000" "0x7F000" 0] s(3)
    by (auto simp: Cons_eq_append_conv simp del: alloc.simps)
  moreover have "\<exists>s2. alloc 1 100 True 64 s = Inr (0x182000, s2) \<and>
      heap_inv (vm_heaps s2 64) (mem s2) [(4084, True), (120, False), (0x7DF94, True)]"
    using alloc_correct [OF s(2), of 100 True "0x181000" "0x7F000" 0] s(3) size fr
    by (auto simp: Cons_eq_append_conv aligned_room_def simp del: alloc.simps)
  ultimately show ?thesis using s(1) by blast
qed

end
