(* ===== verification/Heap_Free.thy ===== *)
theory Heap_Free
  imports Heap
begin

unbundle bit_operations_syntax

section \<open>\<open>free\<close>\<close>

text \<open>
  Freeing a block whose right neighbour is in use: it becomes a hole, or it is added to the hole
  on its left.
\<close>

definition guard_word :: "vm_heap \<Rightarrow> memory \<Rightarrow> bool" where
  "guard_word h m \<longleftrightarrow> ldn m (hstart h - 8) \<noteq> VM_HEAP_FTR_MAGIC"

lemma of_nat_minus: "k \<le> x \<Longrightarrow> (of_nat x - of_nat k :: u32) = of_nat (x - k)"
  by (simp only: of_nat_diff)

lemma magic_words [simp]: "VM_HEAP_HDR_MAGIC \<noteq> 0" "VM_HEAP_FTR_MAGIC \<noteq> 0"
  by (simp_all add: VM_HEAP_HDR_MAGIC_def VM_HEAP_FTR_MAGIC_def)

text \<open>What \<open>free\<close> reads of the neighbours.\<close>

lemma left_neighbour:
  assumes "heap_inv h m (pre @ (k, b) # (n, c) # post)"
  defines "x \<equiv> hstart h + extent pre + k"
  shows "ldn m (x - 8) = VM_HEAP_FTR_MAGIC" "ldn m (x - 4) = of_nat (x - k)" "ldn m (x - k + 4) = of_bool b"
    "ldn m (x - k + 8) = of_nat k" "20 \<le> k" "k \<le> x"
proof -
  let ?z = "hstart h + extent pre"
  have "(?z, k, b) \<in> set (addrs (hstart h) (pre @ (k, b) # (n, c) # post))" by (simp add: addrs_append)
  note B = heap_inv_block [OF assms(1) this]
  have "(?z + k, n, c) \<in> set (addrs (hstart h) (pre @ (k, b) # (n, c) # post))" by (simp add: addrs_append)
  note C = heap_inv_block [OF assms(1) this]
  have "?z + k \<noteq> hend h" using C(3,5) by linarith
  then have "footer_at m ?z k" "header_at m ?z k b" using B(1) by (auto simp: block_ok_def)
  then show "ldn m (x - 8) = VM_HEAP_FTR_MAGIC" "ldn m (x - 4) = of_nat (x - k)" "ldn m (x - k + 4) = of_bool b"
      "ldn m (x - k + 8) = of_nat k"
    by (simp_all add: footer_at_def header_at_def x_def)
  show "20 \<le> k" "k \<le> x" using B(5) by (simp_all add: x_def)
qed

lemma right_neighbour:
  assumes "heap_inv h m (pre @ (n, c) # (k, b) # post)"
  defines "x \<equiv> hstart h + extent pre"
  shows "ldn m (x + n) = VM_HEAP_HDR_MAGIC" "ldn m (x + n + 4) = of_bool b" "ldn m (x + n + 8) = of_nat k"
    "x + n + 20 \<le> hend h" "x + n + k \<le> hend h" "20 \<le> n" "20 \<le> k"
proof -
  have "(x + n, k, b) \<in> set (addrs (hstart h) (pre @ (n, c) # (k, b) # post))" by (simp add: addrs_append x_def)
  note B = heap_inv_block [OF assms(1) this]
  have "(x, n, c) \<in> set (addrs (hstart h) (pre @ (n, c) # (k, b) # post))" by (simp add: addrs_append x_def)
  note C = heap_inv_block [OF assms(1) this]
  show "ldn m (x + n) = VM_HEAP_HDR_MAGIC" "ldn m (x + n + 4) = of_bool b" "ldn m (x + n + 8) = of_nat k"
    using B(1) by (simp_all add: block_ok_def header_at_def)
  show "x + n + 20 \<le> hend h" "x + n + k \<le> hend h" "20 \<le> n" "20 \<le> k" using B(3,5) C(5) by linarith+
qed

text \<open>The start of \<open>free\<close>, up to the two unification steps.\<close>

lemma free_start:
  assumes "ldn (mem s) x = VM_HEAP_HDR_MAGIC" "ldn (mem s) (x + 8) = of_nat n"
    "ldn (mem s) (x + n - 8) = VM_HEAP_FTR_MAGIC" "20 \<le> n" "x + n < 4294967296" "heap \<noteq> 0"
  shows "free (of_nat (x + 12)) heap s =
    (let (do_add, header, m) = unify_left (of_nat x) (of_nat (x + n - 8)) (stn (mem s) (x + 4) 1) in
     bindr (unify_right header (of_nat (x + n - 8)) (vm_heaps s heap) m) (\<lambda>(footer, h, m).
     bindr (free_contract header footer (of_nat (x + n)) heap (upd_heap heap (\<lambda>_. h) (s\<lparr>mem := m\<rparr>))) (\<lambda>s.
     if do_add
     then bindr (insert_sorted_array (h_index (vm_heaps s heap)) header (mem s)) (\<lambda>(a, m).
            Inr (upd_heap heap (\<lambda>h. h\<lparr>h_index := a\<rparr>) (s\<lparr>mem := m\<rparr>)))
     else Inr s)))"
proof -
  have p: "(of_nat (x + 12) :: u32) \<noteq> 0"
    using assms(4,5) unat_of_nat_u32 [of "x + 12"] by (simp add: u32_eq_iff del: of_nat_add)
  have h: "(of_nat (x + 12) - 12 :: u32) = of_nat x" by simp
  have f: "(of_nat x + of_nat n - 8 :: u32) = of_nat (x + n - 8)"
    using of_nat_minus [of 8 "x + n"] assms(4) by simp
  have r: "(of_nat (x + n - 8) + 8 :: u32) = of_nat (x + n)"
  proof -
    have "x + n - 8 + 8 = x + n" using assms(4) by simp
    then show ?thesis by (metis of_nat_add of_nat_numeral)
  qed
  show ?thesis
    unfolding free_def h header_fields_nat assms(1,2) f assms(3) Let_def r
    using p assms(6) by (simp del: of_nat_add of_nat_diff)
qed

lemma unify_right_used:
  assumes "ldn m (x + 4) = 0" "8 \<le> x"
  shows "unify_right header (of_nat (x - 8)) h m = Inr (of_nat (x - 8), h, m)"
proof -
  have "(of_nat (x - 8) + 8 :: u32) = of_nat x"
    using of_nat_add [of "x - 8" 8, where 'a = u32] assms(2) by (simp del: of_nat_diff)
  then show ?thesis
    unfolding unify_right_def Let_def using assms(1) by (simp only: header_fields_nat) simp
qed

lemma free_contract_inner:
  assumes "x < hend (vm_heaps s heap)" "8 \<le> x"
  shows "free_contract header (of_nat (x - 8)) t heap s = Inr s"
proof -
  have "(of_nat (x - 8) + 8 :: u32) = of_nat x"
    using of_nat_add [of "x - 8" 8, where 'a = u32] assms(2) by (simp del: of_nat_diff)
  moreover have "unat (of_nat x :: u32) = x"
    using assms(1) less_trans [OF _ unat_u32_less] by (intro unat_of_nat_u32) blast
  then have "(of_nat x :: u32) \<noteq> h_addr_end (vm_heaps s heap)" using assms(1) by (metis nat_neq_iff)
  ultimately show ?thesis by (simp add: free_contract_def Let_def)
qed

lemma unify_left_none:
  assumes "ldn m (x - 8) \<noteq> VM_HEAP_FTR_MAGIC \<or> ldn m (x - 4) = of_nat z \<and> ldn m (z + 4) = 0" "8 \<le> x"
  shows "unify_left (of_nat x) f m = (True, of_nat x, m)"
proof -
  have "(of_nat x - 8 :: u32) = of_nat (x - 8)" using of_nat_minus [of 8 x] assms(2) by simp
  moreover have "x - 8 + 4 = x - 4" using assms(2) by simp
  ultimately show ?thesis
    unfolding unify_left_def Let_def using assms(1)
    by (auto simp: header_fields_nat simp del: of_nat_diff)
qed

lemma unify_left_merge:
  assumes "ldn m (x - 8) = VM_HEAP_FTR_MAGIC" "ldn m (x - 4) = of_nat z" "ldn m (z + 4) = 1"
    "ldn m (x + 8) = of_nat n" "ldn m (z + 8) = of_nat k" "z + 20 \<le> x" "20 \<le> n" "x + n < 4294967296"
  shows "unify_left (of_nat x) (of_nat (x + n - 8)) m =
    (False, of_nat z, stn (stn m (x + n - 4) (of_nat z)) (z + 8) (of_nat (k + n)))"
proof -
  have f: "(of_nat x - 8 :: u32) = of_nat (x - 8)" using of_nat_minus [of 8 x] assms(6) by simp
  have i: "x - 8 + 4 = x - 4" "x + n - 8 + 4 = x + n - 4" using assms(6,7) by simp_all
  have ft: "store32 m (of_nat (x + n - 8) + 4) v = stn m (x + n - 4) v" for v
    unfolding i(2) [symmetric] stn_def by (simp del: of_nat_diff)
  have same: "ldn (stn m (x + n - 4) (of_nat z)) (z + 8) = of_nat k"
    using assms(5-8) by (subst ldn_stn_other) auto
  have "hf_magic m (of_nat x - 8) = VM_HEAP_FTR_MAGIC" "hf_header m (of_nat x - 8) = of_nat z"
    unfolding f header_fields_nat i(1) using assms(1,2) by simp_all
  then show ?thesis
    unfolding unify_left_def Let_def using assms(3,4) same
    by (simp add: header_fields_nat ft)
qed

text \<open>The block's bytes when it is only marked.\<close>

lemma mark_hole:
  assumes "block_ok m e (x, n, False)" "x + n \<le> 4294967296"
  shows "block_ok (stn m (x + 4) 1) e (x, n, True)"
proof -
  have n: "20 \<le> n" using assms(1) by (simp add: block_ok_def)
  have keep: "ldn (stn m (x + 4) 1) j = ldn m j" if "j + 4 \<le> x + 4 \<or> x + 8 \<le> j" "j + 4 \<le> x + n" for j
    using that assms(2) n by (intro ldn_stn_other) auto
  have "ldn (stn m (x + 4) 1) x = ldn m x" "ldn (stn m (x + 4) 1) (x + 8) = ldn m (x + 8)"
      "ldn (stn m (x + 4) 1) (x + n - 8) = ldn m (x + n - 8)" "ldn (stn m (x + 4) 1) (x + n - 4) = ldn m (x + n - 4)"
    by (intro keep; use n in arith)+
  then show ?thesis using assms(1) n by (auto simp: block_ok_def header_at_def footer_at_def)
qed

lemma free_isolated:
  assumes inv: "heap_inv (vm_heaps s heap) (mem s) (pre @ (n, False) # (k, False) # post)" "heap \<noteq> 0"
    and left: "pre = [] \<and> guard_word (vm_heaps s heap) (mem s) \<or> (\<exists>pre' j. pre = pre' @ [(j, False)])"
    and room: "sa_size (h_index (vm_heaps s heap)) < sa_maxsize (h_index (vm_heaps s heap))"
  defines "x \<equiv> hstart (vm_heaps s heap) + extent pre"
  shows "\<exists>h' m'. free (of_nat (x + 12)) heap s = Inr (upd_heap heap (\<lambda>_. h') (s\<lparr>mem := m'\<rparr>)) \<and>
    heap_inv h' m' (pre @ (n, True) # (k, False) # post) \<and> same_region (vm_heaps s heap) h' \<and>
    (\<forall>y. \<not> in_index (vm_heaps s heap) y \<longrightarrow> \<not> (x \<le> unat y \<and> unat y < x + n) \<longrightarrow> m' y = mem s y)"
proof -
  let ?h = "vm_heaps s heap" and ?m1 = "stn (mem s) (x + 4) 1"
  have "(x, n, False) \<in> set (addrs (hstart ?h) (pre @ (n, False) # (k, False) # post))"
    by (simp add: addrs_append x_def)
  note B = heap_inv_block [OF inv(1) this]
  note R = right_neighbour [OF inv(1), folded x_def]
  have H: "ldn (mem s) x = VM_HEAP_HDR_MAGIC" "ldn (mem s) (x + 8) = of_nat n"
      "ldn (mem s) (x + n - 8) = VM_HEAP_FTR_MAGIC"
    using B(1) by (simp_all add: block_ok_def header_at_def footer_at_def)
  have x8: "8 \<le> x" using inv(1) by (auto simp: heap_inv_def index_ok_def x_def)
  have xn: "x + n < 4294967296" using B(4) by linarith
  have ul: "unify_left (of_nat x) (of_nat (x + n - 8)) ?m1 = (True, of_nat x, ?m1)"
    using left
  proof (elim disjE conjE exE)
    assume "pre = []" "guard_word ?h (mem s)"
    then have "ldn ?m1 (x - 8) \<noteq> VM_HEAP_FTR_MAGIC"
      using x8 xn B(5) by (subst ldn_stn_other) (auto simp: guard_word_def x_def)
    then show ?thesis using x8 by (intro unify_left_none) auto
  next
    fix pre' j assume pre: "pre = pre' @ [(j, False)]"
    note L = left_neighbour [of ?h "mem s" pre' j False n False "(k, False) # post"]
    have xx: "hstart ?h + extent pre' + j = x" by (simp add: x_def pre)
    have L: "ldn (mem s) (x - 4) = of_nat (x - j)" "ldn (mem s) (x - j + 4) = 0" "20 \<le> j" "j \<le> x"
      using L inv(1) unfolding pre xx by simp_all
    have "ldn ?m1 i = ldn (mem s) i" if "i \<le> x" for i
      using that xn B(5) by (intro ldn_stn_other) auto
    then have "ldn ?m1 (x - 4) = of_nat (x - j)" "ldn ?m1 (x - j + 4) = 0"
      using L by (simp_all del: of_nat_diff)
    then show ?thesis using x8 by (intro unify_left_none [where z = "x - j"]) auto
  qed
  have "x + n + 20 \<le> 4294967296" using R(4) hend_le [of ?h] by linarith
  then have "ldn ?m1 (x + n + 4) = 0" using R by (subst ldn_stn_other) auto
  then have ur: "unify_right (of_nat x) (of_nat (x + n - 8)) ?h ?m1 = Inr (of_nat (x + n - 8), ?h, ?m1)"
    using x8 by (intro unify_right_used) auto
  let ?s1 = "upd_heap heap (\<lambda>_. ?h) (s\<lparr>mem := ?m1\<rparr>)"
  have s1: "vm_heaps ?s1 heap = ?h" "mem ?s1 = ?m1" by (simp_all add: upd_heap_def)
  have fc: "free_contract (of_nat x) (of_nat (x + n - 8)) (of_nat (x + n)) heap ?s1 = Inr ?s1"
    using R x8 s1 by (intro free_contract_inner) auto
  have gap: "gap_inv ?h (mem s) pre n ((k, False) # post)"
    using gap_of_blocks [of ?h "mem s" pre "[(n, False)]" "(k, False) # post"] inv(1) by simp
  have "gap_inv ?h ?m1 pre n ((k, False) # post)"
    by (rule gap_write(1) [OF gap], rule stn_agree) (use B in \<open>auto simp: x_def\<close>)
  moreover have "\<forall>b \<in> set (addrs (hstart ?h + extent pre) [(n, True)]). block_ok ?m1 (hend ?h) b"
    using mark_hole [OF B(1)] xn by (simp add: x_def)
  ultimately obtain ix m' where ins: "insert_sorted_array (h_index ?h) (of_nat x) ?m1 = Inr (ix, m')"
      "heap_inv (?h\<lparr>h_index := ix\<rparr>) m' (pre @ [(n, True)] @ (k, False) # post)" "same_region ?h (?h\<lparr>h_index := ix\<rparr>)"
      "\<forall>y. \<not> in_index ?h y \<longrightarrow> m' y = ?m1 y"
    using gap_close_hole [of ?h ?m1 pre n "(k, False) # post" "[(n, True)]" x] room by (auto simp: x_def)
  have "free (of_nat (x + 12)) heap s = Inr (upd_heap heap (\<lambda>_. ?h\<lparr>h_index := ix\<rparr>) (s\<lparr>mem := m'\<rparr>))"
    unfolding free_start [OF H B(5) xn inv(2)] ul Let_def prod.case ur bindr_Inr fc s1 ins(1) if_True
    by (simp add: upd_heap_def)
  moreover have "m' y = mem s y" if "\<not> in_index ?h y" "\<not> (x \<le> unat y \<and> unat y < x + n)" for y
    using that ins(4) B(5) xn by (auto simp: stn_agree)
  ultimately show ?thesis using ins(2,3) by (intro exI [of _ "?h\<lparr>h_index := ix\<rparr>"] exI [of _ m']) simp
qed

text \<open>
  With a hole on the left, the block is added to it.  Its entry in the index keeps its place,
  although its size grew.
\<close>

lemma merged_block:
  assumes "block_ok m e (z, k, True)" "block_ok m e (z + k, n, False)" "z + k + n \<le> 4294967296"
  defines "x \<equiv> z + k"
  defines "m' \<equiv> stn (stn (stn m (x + 4) 1) (x + n - 4) (of_nat z)) (z + 8) (of_nat (k + n))"
  shows "block_ok m' e (z, k + n, True)"
    and "\<not> (z \<le> unat y \<and> unat y < z + (k + n)) \<Longrightarrow> m' y = m y"
proof -
  have n: "20 \<le> k" "20 \<le> n" using assms(1,2) by (simp_all add: block_ok_def)
  have keep: "ldn m' j = ldn m j"
    if "j + 4 \<le> z + 8 \<or> z + 12 \<le> j" "j + 4 \<le> x + 4 \<or> x + 8 \<le> j" "j + 4 \<le> x + n - 4 \<or> x + n \<le> j" "j + 4 \<le> x + n"
    for j
    unfolding m'_def using that assms(3) n
    by (subst ldn_stn_other; (subst ldn_stn_other)?; (subst ldn_stn_other)?) (auto simp: x_def)
  have "ldn m' z = ldn m z" "ldn m' (z + 4) = ldn m (z + 4)" "ldn m' (x + n - 8) = ldn m (x + n - 8)"
    by (intro keep; use n in \<open>simp add: x_def; arith?\<close>)+
  moreover have "ldn m' (z + 8) = of_nat (k + n)" by (simp only: m'_def ldn_stn_same)
  moreover have "ldn m' (x + n - 4) = of_nat z"
    unfolding m'_def using n assms(3) by (subst ldn_stn_other) (auto simp: x_def)
  ultimately show "block_ok m' e (z, k + n, True)"
    using assms(1,2) n
    by (simp add: block_ok_def header_at_def footer_at_def x_def add.assoc del: of_nat_add)
  show "m' y = m y" if "\<not> (z \<le> unat y \<and> unat y < z + (k + n))"
    unfolding m'_def using that assms(3) n
    by (subst stn_agree; (subst stn_agree)?; (subst stn_agree)?) (auto simp: x_def)
qed

lemma free_merge_left:
  assumes inv: "heap_inv (vm_heaps s heap) (mem s) (pre @ (k, True) # (n, False) # (j, False) # post)" "heap \<noteq> 0"
  defines "z \<equiv> hstart (vm_heaps s heap) + extent pre"
  shows "\<exists>m'. free (of_nat (z + k + 12)) heap s = Inr (s\<lparr>mem := m'\<rparr>) \<and>
    heap_inv (vm_heaps s heap) m' (pre @ (k + n, True) # (j, False) # post) \<and>
    (\<forall>y. \<not> (z \<le> unat y \<and> unat y < z + (k + n)) \<longrightarrow> m' y = mem s y)"
proof -
  let ?h = "vm_heaps s heap" and ?x = "z + k" and ?m1 = "stn (mem s) (z + k + 4) 1"
  let ?m' = "stn (stn ?m1 (?x + n - 4) (of_nat z)) (z + 8) (of_nat (k + n))"
  let ?bs = "pre @ (k, True) # (n, False) # (j, False) # post"
  have "(z, k, True) \<in> set (addrs (hstart ?h) ?bs)" "(?x, n, False) \<in> set (addrs (hstart ?h) ?bs)"
    by (simp_all add: addrs_append z_def)
  note Z = heap_inv_block [OF inv(1) this(1)] and B = heap_inv_block [OF inv(1) this(2)]
  note R = right_neighbour [of ?h "mem s" "pre @ [(k, True)]" n False j False post, simplified, OF inv(1)]
  note L = left_neighbour [OF inv(1), folded z_def]
  have H: "ldn (mem s) ?x = VM_HEAP_HDR_MAGIC" "ldn (mem s) (?x + 8) = of_nat n"
      "ldn (mem s) (?x + n - 8) = VM_HEAP_FTR_MAGIC"
    using B(1) by (simp_all add: block_ok_def header_at_def footer_at_def)
  have xn: "?x + n < 4294967296" "?x + n + 20 \<le> 4294967296" "?x + n < hend ?h"
    using B(4) R(4) hend_le [of ?h] by (simp_all add: z_def)
  have keep: "ldn ?m1 i = ldn (mem s) i" if "i \<le> ?x \<or> ?x + 8 \<le> i" "i + 4 \<le> 4294967296" for i
    using that xn B(5) by (intro ldn_stn_other) auto
  have "ldn ?m1 (?x - 8) = VM_HEAP_FTR_MAGIC" "ldn ?m1 (?x - 4) = of_nat z" "ldn ?m1 (z + 4) = 1"
      "ldn ?m1 (?x + 8) = of_nat n" "ldn ?m1 (z + 8) = of_nat k"
    using L H Z(5) xn by (simp_all add: keep)
  then have ul: "unify_left (of_nat ?x) (of_nat (?x + n - 8)) ?m1 = (False, of_nat z, ?m')"
    using Z(5) B(5) xn by (intro unify_left_merge) auto
  note M = merged_block [OF Z(1) B(1)]
  have "ldn ?m' (?x + n + 4) = ldn (mem s) (?x + n + 4)"
    using M(2) xn by (intro ldn_agree) auto
  then have ur: "unify_right (of_nat z) (of_nat (?x + n - 8)) ?h ?m' = Inr (of_nat (?x + n - 8), ?h, ?m')"
    using R(2) Z(5) by (intro unify_right_used) (auto simp: z_def add.assoc)
  let ?s1 = "upd_heap heap (\<lambda>_. ?h) (s\<lparr>mem := ?m'\<rparr>)"
  have fc: "free_contract (of_nat z) (of_nat (?x + n - 8)) (of_nat (?x + n)) heap ?s1 = Inr ?s1"
    using xn Z(5) by (intro free_contract_inner) (auto simp: upd_heap_def)
  have "?s1 = s\<lparr>mem := ?m'\<rparr>" by (simp add: upd_heap_def)
  then have "free (of_nat (?x + 12)) heap s = Inr (s\<lparr>mem := ?m'\<rparr>)"
    unfolding free_start [OF H B(5) xn(1) inv(2)] ul Let_def prod.case ur bindr_Inr fc if_False by simp
  moreover have "heap_inv ?h ?m' (pre @ (k + n, True) # (j, False) # post)"
  proof -
    have ok: "heap_ok (mem s) (hstart ?h) (pre @ [(k, True), (n, False)] @ (j, False) # post) (hend ?h)"
      and ix: "index_ok (h_index ?h) (hstart ?h)"
      using inv(1) by (simp_all add: heap_inv_def)
    have "heap_ok ?m' (hstart ?h) (pre @ [(k + n, True)] @ (j, False) # post) (hend ?h)"
      by (rule heap_ok_splice [OF ok _ hend_le]) (use M xn in \<open>auto simp: z_def add.assoc\<close>)
    moreover have "sa_list (h_index ?h) ?m' = sa_list (h_index ?h) (mem s)"
      using ix M(2) xn by (intro sa_list_agree [of _ "hstart ?h"]) (auto simp: z_def less_imp_le)
    ultimately show ?thesis using inv(1) by (simp add: heap_inv_def holes_append add.assoc)
  qed
  ultimately show ?thesis using M(2) xn by (intro exI [of _ ?m']) auto
qed

subsection \<open>The contract of \<open>free\<close>\<close>

text \<open>What freeing a block of \<open>n\<close> bytes does to the blocks on its left.\<close>

definition coalesce :: "block list \<Rightarrow> nat \<Rightarrow> block list" where
  "coalesce pre n = (if pre \<noteq> [] \<and> snd (last pre) then butlast pre @ [(fst (last pre) + n, True)]
     else pre @ [(n, True)])"

lemma free_ok:
  assumes inv: "heap_inv (vm_heaps s heap) (mem s) (pre @ (n, False) # (k, False) # post)" "heap \<noteq> 0"
    and guard: "pre = [] \<longrightarrow> guard_word (vm_heaps s heap) (mem s)"
    and room: "sa_size (h_index (vm_heaps s heap)) < sa_maxsize (h_index (vm_heaps s heap))"
  defines "x \<equiv> hstart (vm_heaps s heap) + extent pre"
  shows "\<exists>h' m'. free (of_nat (x + 12)) heap s = Inr (upd_heap heap (\<lambda>_. h') (s\<lparr>mem := m'\<rparr>)) \<and>
    heap_inv h' m' (coalesce pre n @ (k, False) # post) \<and> same_region (vm_heaps s heap) h' \<and>
    (\<forall>y. \<not> in_index (vm_heaps s heap) y \<longrightarrow>
       \<not> (hstart (vm_heaps s heap) + extent (butlast (coalesce pre n)) \<le> unat y \<and> unat y < x + n) \<longrightarrow>
       m' y = mem s y)"
proof (cases "pre \<noteq> [] \<and> snd (last pre)")
  case True
  then obtain pre' j where pre: "pre = pre' @ [(j, True)]"
    by (cases pre rule: rev_cases) (auto simp: prod_eq_iff)
  have c: "coalesce pre n = pre' @ [(j + n, True)]" by (simp add: coalesce_def pre)
  obtain m' where m': "free (of_nat (x + 12)) heap s = Inr (s\<lparr>mem := m'\<rparr>)"
      "heap_inv (vm_heaps s heap) m' (pre' @ (j + n, True) # (k, False) # post)"
      "\<forall>y. \<not> (hstart (vm_heaps s heap) + extent pre' \<le> unat y \<and> unat y < x + n) \<longrightarrow> m' y = mem s y"
    using free_merge_left [of s heap pre' j n k post] inv by (auto simp: pre x_def add.assoc)
  have "s\<lparr>mem := m'\<rparr> = upd_heap heap (\<lambda>_. vm_heaps s heap) (s\<lparr>mem := m'\<rparr>)" by (simp add: upd_heap_def)
  then show ?thesis
    using m' unfolding c by (intro exI [of _ "vm_heaps s heap"] exI [of _ m']) (simp add: same_region_def)
next
  case False
  then have left: "pre = [] \<and> guard_word (vm_heaps s heap) (mem s) \<or> (\<exists>pre' j. pre = pre' @ [(j, False)])"
    using guard by (cases pre rule: rev_cases) (auto simp: prod_eq_iff)
  have c: "coalesce pre n = pre @ [(n, True)]" using False by (auto simp: coalesce_def)
  obtain h' m' where "free (of_nat (x + 12)) heap s = Inr (upd_heap heap (\<lambda>_. h') (s\<lparr>mem := m'\<rparr>))"
      "heap_inv h' m' (pre @ (n, True) # (k, False) # post)" "same_region (vm_heaps s heap) h'"
      "\<forall>y. \<not> in_index (vm_heaps s heap) y \<longrightarrow> \<not> (x \<le> unat y \<and> unat y < x + n) \<longrightarrow> m' y = mem s y"
    using free_isolated [OF inv left room] unfolding x_def by blast
  then show ?thesis unfolding c by (intro exI [of _ h'] exI [of _ m']) (simp add: x_def)
qed

subsection \<open>Unification with the block on the right\<close>

interpretation entry_scan: scan a m "\<lambda>w. w \<noteq> el" "find_entry a m el"
  for a m el
  by unfold_locales (subst find_entry.simps, simp)

lemma find_entry_found:
  assumes "el \<in> set (sa_list a m)"
  shows "find_entry a m el 0 < sa_size a" "sa_list a m ! unat (find_entry a m el 0) = el"
proof -
  show "find_entry a m el 0 < sa_size a" using entry_scan.loop_missing [of a m el] assms by blast
  then show "sa_list a m ! unat (find_entry a m el 0) = el" using entry_scan.loop_found(1) [of a m el] by simp
qed

text \<open>
  A hole on the right that is not the end of the heap: the sizes are added and the right entry
  leaves the index, but the footer of the merged hole is not rewritten.
\<close>

lemma unify_right_hole:
  assumes "ldn m t = VM_HEAP_HDR_MAGIC" "ldn m (t + 4) = 1" "ldn m (t + 8) = of_nat k" "ldn m (x + 8) = of_nat n"
    "x + 12 \<le> t" "t + k \<le> 4294967296" "20 \<le> k" "8 \<le> t"
    "of_nat t \<in> set (sa_list (h_index h) (stn m (x + 8) (of_nat (n + k))))"
    "remove_sorted_array (h_index h) (find_entry (h_index h) (stn m (x + 8) (of_nat (n + k))) (of_nat t) 0)
       (stn m (x + 8) (of_nat (n + k))) = Inr (ix, m')"
  shows "unify_right (of_nat x) (of_nat (t - 8)) h m = Inr (of_nat (t + k - 8), h\<lparr>h_index := ix\<rparr>, m')"
proof -
  have t: "(of_nat (t - 8) + 8 :: u32) = of_nat t"
    using of_nat_add [of "t - 8" 8, where 'a = u32] assms(8) by (simp del: of_nat_diff)
  have f: "(of_nat t + of_nat k - 8 :: u32) = of_nat (t + k - 8)"
    using of_nat_minus [of 8 "t + k"] assms(7) by simp
  have same: "ldn (stn m (x + 8) (of_nat (n + k))) (t + 8) = of_nat k"
    using assms(3,5,6,7) by (subst ldn_stn_other) auto
  have sum: "(of_nat n + of_nat k :: u32) = of_nat (n + k)" by simp
  show ?thesis
    unfolding unify_right_def t Let_def header_fields_nat assms(1-4) sum same f
    using find_entry_found(1) [OF assms(9)] assms(10) by simp
qed

lemma used_not_hole:
  assumes "heap_inv h m (pre @ (n, False) # post)"
  shows "hstart h + extent pre \<notin> holes (hstart h) (pre @ (n, False) # post)"
proof -
  let ?x = "hstart h + extent pre"
  have ok: "heap_ok m (hstart h) (pre @ (n, False) # post) (hend h)" using assms by (simp add: heap_inv_def)
  have "\<forall>b \<in> set (pre @ post). 0 < fst b" by (rule heap_ok_all_pos [OF ok]) auto
  from holes_apart [OF this, of "hstart h" ?x "?x + n"] show ?thesis
    using heap_ok_pos [OF ok, of "(n, False)"] by (simp add: holes_append)
qed

lemma free_right_hole:
  assumes inv: "heap_inv (vm_heaps s heap) (mem s) (pre @ (j, False) # (n, False) # (k, True) # (i, b) # post)" "heap \<noteq> 0"
  defines "x \<equiv> hstart (vm_heaps s heap) + extent pre + j"
  shows "\<exists>s'. free (of_nat (x + 12)) heap s = Inr s' \<and> hh_is_hole (mem s') (of_nat x) = 1 \<and>
    hh_size (mem s') (of_nat x) = of_nat (n + k) \<and>
    hf_magic (mem s') (of_nat (x + n + k - 8)) = VM_HEAP_FTR_MAGIC \<and>
    hf_header (mem s') (of_nat (x + n + k - 8)) = of_nat (x + n)"
proof -
  let ?h = "vm_heaps s heap" and ?ix = "h_index (vm_heaps s heap)" and ?t = "x + n"
  let ?bs = "pre @ (j, False) # (n, False) # (k, True) # (i, b) # post"
  have "(x, n, False) \<in> set (addrs (hstart ?h) ?bs)" by (simp add: addrs_append x_def)
  note B = heap_inv_block [OF inv(1) this]
  note R = right_neighbour [of ?h "mem s" "pre @ [(j, False)]" n False k True "(i, b) # post", simplified, OF inv(1)]
  note R2 = right_neighbour [of ?h "mem s" "pre @ [(j, False), (n, False)]" k True i b post, simplified, OF inv(1)]
  note L = left_neighbour [OF inv(1), folded x_def]
  have inv2: "heap_inv ?h (mem s) ((pre @ [(j, False), (n, False)]) @ (k, True) # (i, b) # post)"
    using inv(1) by simp
  have e2: "hstart ?h + extent (pre @ [(j, False), (n, False)]) = ?t" by (simp add: x_def)
  note K = left_neighbour(1,2) [OF inv2, unfolded e2 add_diff_cancel_right']
  have xx: "hstart ?h + (extent pre + j) = x" "hstart ?h + (extent pre + (j + n)) = x + n" by (simp_all add: x_def)
  have R: "ldn (mem s) ?t = VM_HEAP_HDR_MAGIC" "ldn (mem s) (?t + 4) = 1" "ldn (mem s) (?t + 8) = of_nat k"
      "20 \<le> n" "20 \<le> k" "?t + k + 20 \<le> hend ?h"
      "ldn (mem s) (?t + k - 8) = VM_HEAP_FTR_MAGIC" "ldn (mem s) (?t + k - 4) = of_nat ?t"
    using R R2 K by (simp_all add: xx add.assoc del: of_nat_add)
  have lim: "?t + k + 20 \<le> 4294967296" using R(6) hend_le [of ?h] by linarith
  have x8: "8 \<le> x" using L(5,6) by simp
  have xn: "x + n < 4294967296" using lim by simp
  have H: "ldn (mem s) x = VM_HEAP_HDR_MAGIC" "ldn (mem s) (x + 8) = of_nat n" "ldn (mem s) (?t - 8) = VM_HEAP_FTR_MAGIC"
    using B(1) by (simp_all add: block_ok_def header_at_def footer_at_def)
  let ?m1 = "stn (mem s) (x + 4) 1" and ?m2 = "stn (stn (mem s) (x + 4) 1) (x + 8) (of_nat (n + k))"
  have keep: "ldn ?m1 q = ldn (mem s) q" if "q \<le> x \<or> x + 8 \<le> q" "q + 4 \<le> 4294967296" for q
    using that lim by (intro ldn_stn_other) auto
  have ul: "unify_left (of_nat x) (of_nat (?t - 8)) ?m1 = (True, of_nat x, ?m1)"
  proof (rule unify_left_none [where z = "x - j"])
    have "x - j + 4 \<le> x" using L(5,6) by simp
    then have "ldn ?m1 (x - 4) = of_nat (x - j)" "ldn ?m1 (x - j + 4) = 0"
      using L(2,3) lim keep [of "x - 4"] keep [of "x - j + 4"] by (simp_all del: of_nat_diff)
    then show "ldn ?m1 (x - 8) \<noteq> VM_HEAP_FTR_MAGIC \<or> ldn ?m1 (x - 4) = of_nat (x - j) \<and> ldn ?m1 (x - j + 4) = 0"
      by blast
  qed (rule x8)
  have ixok: "index_ok ?ix (hstart ?h)" and dist: "distinct (sa_list ?ix (mem s))"
    using inv(1) by (simp_all add: heap_inv_def)
  have a: "?m2 y = mem s y" if "\<not> (x \<le> unat y \<and> unat y < x + 12)" for y
    using that lim R(4) by (subst stn_agree; (subst stn_agree)?) auto
  have l2: "sa_list ?ix ?m2 = sa_list ?ix (mem s)"
    using ixok a B(2) by (intro sa_list_agree [of _ "hstart ?h"]) (auto simp: less_imp_le)
  obtain w where w: "w \<in> set (sa_list ?ix (mem s))" "unat w = ?t"
    using hole_in_index [OF inv(1), of "pre @ [(j, False), (n, False)]" k "(i, b) # post"] by (auto simp: xx)
  then have w': "of_nat ?t \<in> set (sa_list ?ix ?m2)" unfolding l2 by (metis of_nat_unat_u32)
  obtain ix m3 where rem: "remove_sorted_array ?ix (find_entry ?ix ?m2 (of_nat ?t) 0) ?m2 = Inr (ix, m3)"
      "index_ok ix (hstart ?h)" "sa_size ix < sa_maxsize ix" "distinct (sa_list ix m3)" "sa_maxsize ix = sa_maxsize ?ix"
      "set (sa_list ix m3) = set (sa_list ?ix (mem s)) - {of_nat ?t}" "\<forall>y. \<not> in_index ?h y \<longrightarrow> m3 y = ?m2 y"
      "sa_array ix = sa_array ?ix"
  proof -
    have "distinct (sa_list ?ix ?m2)" using dist l2 by simp
    from index_remove [OF ixok find_entry_found(1) [OF w'] this] show ?thesis
      unfolding find_entry_found(2) [OF w'] unfolding l2 using that by (elim exE conjE) (simp add: in_index_def)
  qed
  have ur: "unify_right (of_nat x) (of_nat (?t - 8)) ?h ?m1 = Inr (of_nat (?t + k - 8), ?h\<lparr>h_index := ix\<rparr>, m3)"
    using R H lim x8 w' rem(1) by (intro unify_right_hole) (simp_all add: keep del: of_nat_add)
  let ?s1 = "upd_heap heap (\<lambda>_. ?h\<lparr>h_index := ix\<rparr>) (s\<lparr>mem := m3\<rparr>)"
  have s1: "vm_heaps ?s1 heap = ?h\<lparr>h_index := ix\<rparr>" "mem ?s1 = m3" by (simp_all add: upd_heap_def)
  have fc: "free_contract (of_nat x) (of_nat (?t + k - 8)) (of_nat ?t) heap ?s1 = Inr ?s1"
    using R(6) x8 s1 by (intro free_contract_inner) auto
  have "x \<notin> holes (hstart ?h) ?bs"
    using used_not_hole [of ?h "mem s" "pre @ [(j, False)]" n "(k, True) # (i, b) # post"] inv(1)
    by (simp add: x_def add.assoc)
  then have "unat (of_nat x :: u32) \<notin> unat ` set (sa_list ?ix (mem s))"
    using inv(1) lim unat_of_nat_u32 [of x] by (simp add: heap_inv_def)
  then have fresh: "of_nat x \<notin> set (sa_list ix m3)" using rem(6) by (metis DiffD1 imageI)
  obtain ix' m4 where ins: "insert_sorted_array ix (of_nat x) m3 = Inr (ix', m4)" "\<forall>y. \<not> in_index ?h y \<longrightarrow> m4 y = m3 y"
    using index_insert [OF rem(2,3,4) fresh] rem(5,8) by (auto simp: in_index_def)
  have eq: "ldn m4 q = ldn ?m2 q" if "hstart ?h \<le> q" "q + 4 \<le> 4294967296" for q
    using that ins(2) rem(7) not_in_index [OF inv(1)] by (intro ldn_agree) simp_all
  let ?s' = "upd_heap heap (\<lambda>_. ?h\<lparr>h_index := ix'\<rparr>) (s\<lparr>mem := m4\<rparr>)"
  have "free (of_nat (x + 12)) heap s = Inr ?s'"
    unfolding free_start [OF H R(4) xn inv(2)] ul Let_def prod.case ur bindr_Inr fc s1 if_True
    using ins(1) by (simp add: upd_heap_def)
  moreover have "ldn m4 (x + 4) = 1" "ldn m4 (x + 8) = of_nat (n + k)"
      "ldn m4 (?t + k - 8) = VM_HEAP_FTR_MAGIC" "ldn m4 (?t + k - 4) = of_nat ?t"
  proof -
    have far: "ldn m4 q = ldn (mem s) q" if "x + 12 \<le> q" "q + 4 \<le> 4294967296" for q
      using that a B(2) by (subst eq) (auto intro: ldn_agree)
    have "x + 12 \<le> ?t + k - 8" "x + 12 \<le> ?t + k - 4" "?t + k - 8 + 4 \<le> 4294967296" "?t + k - 4 + 4 \<le> 4294967296"
      using R(4,5) lim by simp_all
    then show "ldn m4 (?t + k - 8) = VM_HEAP_FTR_MAGIC" "ldn m4 (?t + k - 4) = of_nat ?t"
      using far R(7,8) by simp_all
    show "ldn m4 (x + 4) = 1" "ldn m4 (x + 8) = of_nat (n + k)"
      using B(2) R(4) lim by (simp_all add: eq ldn_stn_other del: of_nat_add)
  qed
  moreover have "mem ?s' = m4" by (simp add: upd_heap_def)
  moreover have "?t + k - 8 + 4 = ?t + k - 4" using R(5) by simp
  ultimately show ?thesis unfolding header_fields_nat by (intro exI [of _ ?s']) simp
qed

subsection \<open>Properties\<close>

lemma index_length:
  assumes "heap_inv h m bs"
  shows "unat (sa_size (h_index h)) \<le> length (filter snd bs)"
proof -
  have c: "card (holes a cs) \<le> length (filter snd cs)" for a cs
  proof (induction cs arbitrary: a)
    case (Cons c cs)
    obtain n b where c: "c = (n, b)" by (cases c)
    have "finite (holes (a + n) cs)" by (rule finite_subset [of _ "fst ` set (addrs (a + n) cs)"]) (force simp: holes_def, simp)
    then show ?case using Cons.IH [of "a + n"] unfolding c by (cases b) (auto simp: card_insert_if)
  qed simp
  have "unat (sa_size (h_index h)) = card (set (sa_list (h_index h) m))"
    using assms distinct_card [of "sa_list (h_index h) m"] by (simp add: heap_inv_def)
  also have "\<dots> = card (holes (hstart h) bs)"
    using assms card_image [of unat "set (sa_list (h_index h) m)"] by (simp add: heap_inv_def inj_on_def u32_eq_iff)
  finally show ?thesis using c [of "hstart h" bs] by simp
qed

text \<open>
  Property C3.  Freeing a block that lies between a block in use and anything on its left keeps the heap
  invariant: the block becomes a hole, united with the hole on its left if there is one, no other
  block moves or changes, and memory outside the hole and the index is untouched.  (The first block
  of the heap needs the word before the heap not to look like a footer.)
\<close>

theorem free_correct:
  assumes "heap_inv (vm_heaps s heap) (mem s) (pre @ (n, False) # (k, False) # post)" "heap \<noteq> 0"
    "pre = [] \<longrightarrow> guard_word (vm_heaps s heap) (mem s)"
    "sa_size (h_index (vm_heaps s heap)) < sa_maxsize (h_index (vm_heaps s heap))"
  shows "\<exists>s'. free (of_nat (hstart (vm_heaps s heap) + extent pre + 12)) heap s = Inr s' \<and>
    heap_inv (vm_heaps s' heap) (mem s')
      (case rev pre of (j, True) # rpre \<Rightarrow> rev rpre @ (j + n, True) # (k, False) # post
                     | _ \<Rightarrow> pre @ (n, True) # (k, False) # post) \<and>
    same_region (vm_heaps s heap) (vm_heaps s' heap) \<and>
    (\<forall>y. unat y < unat (sa_array (h_index (vm_heaps s heap))) \<or>
         hstart (vm_heaps s heap) + extent pre + n \<le> unat y \<longrightarrow> mem s' y = mem s y)"
proof -
  let ?h = "vm_heaps s heap" and ?x = "hstart (vm_heaps s heap) + extent pre"
  obtain h' m' where F: "free (of_nat (?x + 12)) heap s = Inr (upd_heap heap (\<lambda>_. h') (s\<lparr>mem := m'\<rparr>))"
      "heap_inv h' m' (coalesce pre n @ (k, False) # post)" "same_region ?h h'"
      "\<forall>y. \<not> in_index ?h y \<longrightarrow>
         \<not> (hstart ?h + extent (butlast (coalesce pre n)) \<le> unat y \<and> unat y < ?x + n) \<longrightarrow> m' y = mem s y"
    using free_ok [OF assms] by blast
  have ix: "unat (sa_array (h_index ?h)) \<le> hstart ?h" using assms(1) by (simp add: heap_inv_def index_ok_def)
  have "m' y = mem s y" if "unat y < unat (sa_array (h_index ?h)) \<or> ?x + n \<le> unat y" for y
    using F(4) that ix below_index [OF assms(1), of y] not_in_index [OF assms(1), of y] by auto
  moreover have "coalesce pre n @ (k, False) # post =
      (case rev pre of (j, True) # rpre \<Rightarrow> rev rpre @ (j + n, True) # (k, False) # post
                     | _ \<Rightarrow> pre @ (n, True) # (k, False) # post)"
    by (cases pre rule: rev_cases) (auto simp: coalesce_def split: bool.split)
  ultimately show ?thesis using F(1-3) by (simp add: upd_heap_def)
qed

theorem free_correct_witness:
  "\<exists>(s :: vm_state) s'. heap_inv (vm_heaps s 64) (mem s) [(120, False), (120, False), (120, False), (0x7EE98, True)] \<and>
    free 0x181084 64 s = Inr s' \<and>
    heap_inv (vm_heaps s' 64) (mem s') [(120, False), (120, True), (120, False), (0x7EE98, True)]"
proof -
  obtain s :: vm_state where s: "heap_inv (vm_heaps s 64) (mem s) [(120, False), (120, False), (120, False), (0x7EE98, True)]"
      "hstart (vm_heaps s 64) = 0x181000" "sa_maxsize (h_index (vm_heaps s 64)) = 0x20000"
    using sample_run by blast
  have "sa_size (h_index (vm_heaps s 64)) < sa_maxsize (h_index (vm_heaps s 64))"
    using index_length [OF s(1)] s(3) by (simp add: u32_less_iff)
  with free_correct [of s 64 "[(120, False)]" 120 120 "[(0x7EE98, True)]"] s show ?thesis by auto
qed

text \<open>
  Property C14.  Freeing a block whose right neighbour is a hole unites the two in the header - one hole of
  their total size - but leaves the footer at the end of the united hole pointing to the header of
  the right part, so the footer no longer names the header of its hole.
\<close>

theorem free_right_stale_footer:
  assumes "heap_inv (vm_heaps s heap) (mem s) (pre @ (j, False) # (n, False) # (k, True) # (i, b) # post)" "heap \<noteq> 0"
    "x = hstart (vm_heaps s heap) + extent pre + j"
  shows "\<exists>s'. free (of_nat (x + 12)) heap s = Inr s' \<and> hh_is_hole (mem s') (of_nat x) = 1 \<and>
    hh_size (mem s') (of_nat x) = of_nat (n + k) \<and>
    hf_magic (mem s') (of_nat (x + n + k - 8)) = VM_HEAP_FTR_MAGIC \<and>
    hf_header (mem s') (of_nat (x + n + k - 8)) = of_nat (x + n)"
  unfolding assms(3) by (rule free_right_hole [OF assms(1,2)])

theorem free_right_stale_footer_witness:
  "\<exists>(s :: vm_state) s'. heap_inv (vm_heaps s 64) (mem s)
      [(120, False), (120, False), (120, True), (120, False), (0x7EE20, True)] \<and>
    free 0x181084 64 s = Inr s' \<and> hh_size (mem s') 0x181078 = 240 \<and> hf_header (mem s') 0x181160 = 0x1810F0"
proof -
  obtain s :: vm_state where s: "heap_inv (vm_heaps s 64) (mem s)
      ([(120, False), (120, False), (120, False)] @ [(0x7EE98, True)])"
      "hstart (vm_heaps s 64) = 0x181000" "sa_maxsize (h_index (vm_heaps s 64)) = 0x20000"
    using sample_run by auto
  obtain s1 :: vm_state where s1: "heap_inv (vm_heaps s1 64) (mem s1)
      ([(120, False), (120, False)] @ (120, False) # (120, False) # [(0x7EE20, True)])"
      "same_region (vm_heaps s 64) (vm_heaps s1 64)"
    using alloc_from_last [OF s(1), of 100] by (auto simp del: alloc.simps)
  have "sa_size (h_index (vm_heaps s1 64)) < sa_maxsize (h_index (vm_heaps s1 64))"
    using index_length [OF s1(1)] s(3) s1(2) by (simp add: u32_less_iff same_region_def)
  with free_ok [OF s1(1)] obtain h' m' where f: "heap_inv h' m'
      [(120, False), (120, False), (120, True), (120, False), (0x7EE20, True)]" "same_region (vm_heaps s1 64) h'"
    by (auto simp: coalesce_def)
  let ?s = "upd_heap 64 (\<lambda>_. h') (s1\<lparr>mem := m'\<rparr>)"
  have v: "vm_heaps ?s 64 = h'" "mem ?s = m'" "hstart h' = 0x181000"
    using s(2) s1(2) f(2) by (simp_all add: upd_heap_def same_region_def)
  from free_right_stale_footer [of ?s 64 "[]" 120 120 120 120 False "[(0x7EE20, True)]" "0x181078"] f(1) v
  obtain s' where "free 0x181084 64 ?s = Inr s'" "hh_size (mem s') 0x181078 = 240" "hf_header (mem s') 0x181160 = 0x1810F0"
    by auto
  then show ?thesis using f(1) v by (intro exI [of _ ?s] exI [of _ s']) simp
qed

text \<open>
  The length \<open>contract\<close> rounds to is wrong for every length with bit 12 set: masking with
  \<open>0x1000\<close> instead of \<open>0xFFFFF000\<close> drops the whole length, so the heap shrinks to its minimal size
  whatever the length asked for; other lengths are not rounded at all, only raised to the minimum.
\<close>

lemma contract_size_cases:
  "contract_size n = (if bit n 12 then VM_HEAP_MIN_SIZE else if n < VM_HEAP_MIN_SIZE then VM_HEAP_MIN_SIZE else n)"
proof -
  have "bit (0x1000 :: u32) k \<longleftrightarrow> k = 12" if "k < 32" for k
  proof -
    have "bit (push_bit 12 1 :: u32) k \<longleftrightarrow> k = 12" using that by (subst bit_push_bit_iff) (auto simp: bit_1_iff)
    then show ?thesis by simp
  qed
  then have "n AND 0x1000 = (if bit n 12 then 0x1000 else 0)"
    by (intro bit_word_eqI) (auto simp: bit_and_iff simp del: bit_numeral_simps)
  then show ?thesis by (simp add: contract_size_def VM_HEAP_MIN_SIZE_def)
qed

end
