(* ===== verification/Heap_Grow.thy ===== *)
theory Heap_Grow
  imports Heap_Free
begin

unbundle bit_operations_syntax

section \<open>Growing the last hole after the heap was expanded\<close>

text \<open>
  After \<open>expand\<close> has moved the end of the heap by \<open>delta\<close> bytes, \<open>alloc\<close> gives the new space to the
  hole with the highest address, or makes it a hole of its own when there is none.  This is right
  when that hole is the last block of the heap.
\<close>

lemma endmost_from:
  fixes a :: sorted_array and m :: memory
  assumes "i \<le> unat (sa_size a)"
  defines "xs \<equiv> sa_list a m"
  shows "(endmost_loop a m (of_nat i) idx val = idx \<and> (\<forall>w \<in> set (drop i xs). w \<le> val)) \<or>
    (\<exists>j. i \<le> j \<and> j < length xs \<and> endmost_loop a m (of_nat i) idx val = of_nat j \<and> val < xs ! j \<and>
      (\<forall>w \<in> set (drop i xs). w \<le> xs ! j))"
  using assms(1)
proof (induction "unat (sa_size a) - i" arbitrary: i idx val)
  case 0
  then have "i = unat (sa_size a)" by simp
  then show ?case by (simp add: endmost_loop.simps [of a m "sa_size a"] xs_def)
next
  case (Suc k)
  then have i: "i < unat (sa_size a)" by simp
  have ui: "unat (of_nat i :: u32) = i"
    using i unat_u32_less [of "sa_size a"] by (intro unat_of_nat_u32) linarith
  have w: "load32 m (cell a (of_nat i)) = xs ! i" using i by (simp add: xs_def nth_sa_list)
  have d: "drop i xs = xs ! i # drop (Suc i) xs" using i by (simp add: xs_def Cons_nth_drop_Suc)
  have step: "endmost_loop a m (of_nat i) idx val =
      (if xs ! i > val then endmost_loop a m (of_nat (Suc i)) (of_nat i) (xs ! i)
       else endmost_loop a m (of_nat (Suc i)) idx val)"
    using i ui w by (subst endmost_loop.simps) (simp add: u32_less_iff add.commute Let_def)
  have IH: "(endmost_loop a m (of_nat (Suc i)) idx val = idx \<and> (\<forall>w \<in> set (drop (Suc i) xs). w \<le> val)) \<or>
    (\<exists>j. Suc i \<le> j \<and> j < length xs \<and> endmost_loop a m (of_nat (Suc i)) idx val = of_nat j \<and> val < xs ! j \<and>
      (\<forall>w \<in> set (drop (Suc i) xs). w \<le> xs ! j))" for idx val
    using Suc.hyps(1) [of "Suc i" idx val] Suc.hyps(2) i by simp
  have len: "i < length xs" using i by (simp add: xs_def)
  show ?case
  proof (cases "val < xs ! i")
    case True
    then have st: "endmost_loop a m (of_nat i) idx val = endmost_loop a m (of_nat (Suc i)) (of_nat i) (xs ! i)"
      using step by simp
    from IH [of "of_nat i" "xs ! i"] show ?thesis
    proof (elim disjE exE conjE)
      fix j assume "Suc i \<le> j" "j < length xs" "endmost_loop a m (of_nat (Suc i)) (of_nat i) (xs ! i) = of_nat j"
        "xs ! i < xs ! j" "\<forall>w \<in> set (drop (Suc i) xs). w \<le> xs ! j"
      then show ?thesis using True st d by (intro disjI2 exI [of _ j]) (auto intro: less_trans)
    qed (use True st d len in auto)
  next
    case False
    then have st: "endmost_loop a m (of_nat i) idx val = endmost_loop a m (of_nat (Suc i)) idx val" using step by simp
    from IH [of idx val] show ?thesis
    proof (elim disjE exE conjE)
      fix j assume "Suc i \<le> j" "j < length xs" "endmost_loop a m (of_nat (Suc i)) idx val = of_nat j"
        "val < xs ! j" "\<forall>w \<in> set (drop (Suc i) xs). w \<le> xs ! j"
      then show ?thesis using False st d by (intro disjI2 exI [of _ j]) auto
    qed (use False st d in auto)
  qed
qed

lemma endmost_none: "sa_list a m = [] \<Longrightarrow> endmost_loop a m 0 (- 1) 0 = - 1"
  using endmost_from [of 0 a m "- 1" 0] by simp

lemma endmost_some:
  assumes "w \<in> set (sa_list a m)" "\<forall>v \<in> set (sa_list a m). v \<le> w" "0 < w" 
  shows "\<exists>i. endmost_loop a m 0 (- 1) 0 = i \<and> i \<noteq> - 1 \<and> lookup_sorted_array a i m = Inr w"
proof -
  let ?xs = "sa_list a m"
  have "\<not> w \<le> 0" using assms(3) by simp
  then obtain j where j: "j < length ?xs" "endmost_loop a m 0 (- 1) 0 = of_nat j" "\<forall>v \<in> set ?xs. v \<le> ?xs ! j"
    using endmost_from [of 0 a m "- 1" 0] assms(1) by auto
  then have "?xs ! j = w" using assms(1,2) by (simp add: order_antisym)
  moreover have "unat (of_nat j :: u32) = j"
    using j(1) less_trans [OF _ unat_u32_less [of "sa_size a"]] by (intro unat_of_nat_u32) simp
  moreover from this have "(of_nat j :: u32) \<noteq> - 1"
    using j(1) unat_u32_le [of "sa_size a"] by (metis length_sa_list not_less unat_minus_one_u32)
  ultimately show ?thesis using j lookup_sorted_array_eq [of j a m] by auto
qed

text \<open>The endmost hole is the last one of the block list.\<close>

lemma last_hole_max:
  assumes "heap_inv h m (pre @ (k, True) # post)" "holes (hstart h + extent pre + k) post = {}"
    "v \<in> set (sa_list (h_index h) m)"
  shows "unat v \<le> hstart h + extent pre"
proof -
  have ok: "heap_ok m (hstart h) (pre @ (k, True) # post) (hend h)" using assms(1) by (simp add: heap_inv_def)
  have "unat v \<in> holes (hstart h) (pre @ (k, True) # post)" using assms(1,3) unfolding heap_inv_def by (metis imageI)
  then have "unat v \<in> holes (hstart h) pre \<or> unat v = hstart h + extent pre"
    using assms(2) by (auto simp: holes_append)
  moreover have "\<forall>b \<in> set pre. 0 < fst b" by (rule heap_ok_all_pos [OF ok]) auto
  ultimately show ?thesis using holes_bounds [of "unat v" "hstart h" pre] by auto
qed

lemma grow_last_hole:
  assumes "lookup_sorted_array (h_index h) i m = Inr (of_nat x)"
    "endmost_loop (h_index h) m 0 (- 1) 0 = i" "i \<noteq> - 1" "ldn m (x + 8) = of_nat k" "20 \<le> k"
  shows "grow_hole old_end (of_nat delta) h m =
    Inr (h, write_footer (of_nat (x + (k + delta) - 8)) (of_nat x) (stn m (x + 8) (of_nat (k + delta))))"
proof -
  have "(of_nat x + of_nat (k + delta) - 8 :: u32) = of_nat (x + (k + delta) - 8)"
    using of_nat_minus [of 8 "x + (k + delta)"] assms(5) by simp
  moreover have "(of_nat k + of_nat delta :: u32) = of_nat (k + delta)" by simp
  ultimately show ?thesis
    unfolding grow_hole_def assms(2) Let_def using assms(1,3)
    by (simp add: header_fields_nat assms(4) del: of_nat_add of_nat_diff)
qed

text \<open>A block whose size word and footer are rewritten.\<close>

lemma resize_block:
  assumes "header_at m x k True" "20 \<le> k" "x + (k + d) \<le> 4294967296"
  defines "m' \<equiv> write_footer (of_nat (x + (k + d) - 8)) (of_nat x) (stn m (x + 8) (of_nat (k + d)))"
  shows "block_ok m' e (x, k + d, True)"
    and "\<not> (x \<le> unat y \<and> unat y < x + (k + d)) \<Longrightarrow> m' y = m y"
proof -
  let ?m1 = "stn m (x + 8) (of_nat (k + d))"
  have "header_at ?m1 x (k + d) True"
    using assms(1-3) by (simp add: header_at_def ldn_stn_other del: of_nat_add)
  then have "header_at m' x (k + d) True"
    unfolding m'_def by (rule header_at_agree, intro write_footer_agree) (use assms(2,3) in auto)
  moreover have "footer_at m' x (k + d)" unfolding m'_def using assms(2,3) by (intro footer_at_write) auto
  ultimately show "block_ok m' e (x, k + d, True)" using assms(2) by (simp add: block_ok_def)
  assume y: "\<not> (x \<le> unat y \<and> unat y < x + (k + d))"
  have "?m1 y = m y" using y assms(2,3) by (intro stn_agree) auto
  then show "m' y = m y"
    unfolding m'_def using y assms(2,3) by (subst write_footer_agree) auto
qed

text \<open>Moving the end of the heap away leaves a block well formed, footer included.\<close>

lemma heap_ok_moved_end:
  assumes "heap_ok m a bs e" "b \<in> set (addrs a cs)" "bs = cs @ ds" "ds \<noteq> [] \<or> holes a cs = {}"
  shows "block_ok m e' b"
proof -
  obtain x n h where b: "b = (x, n, h)" by (cases b)
  have ok: "block_ok m e (x, n, h)" using assms(1,2,3) b by (auto simp: heap_ok_def addrs_append)
  have "h \<Longrightarrow> x + n \<noteq> e"
  proof
    assume h: "h" "x + n = e"
    have "ds \<noteq> []" using assms(2,4) b h(1) by (auto simp: holes_def)
    then obtain c where "c \<in> set ds" by (cases ds) auto
    then have "20 \<le> fst c" using heap_ok_pos [OF assms(1)] assms(3) by auto
    then have "20 \<le> extent ds" using \<open>c \<in> set ds\<close> member_le_sum_list [of "fst c" "map fst ds"] by (simp add: extent_def)
    then show False
      using addrs_bounds [of x n h a cs] assms(1,2,3) b h(2) by (simp add: heap_ok_def)
  qed
  then show ?thesis using ok b by (auto simp: block_ok_def)
qed

lemma grow_hole_last:
  assumes inv: "heap_inv h m (pre @ [(k, True)])" and e: "hend h + delta < 4294967296"
  defines "h' \<equiv> h\<lparr>h_addr_end := of_nat (hend h + delta)\<rparr>"
  shows "\<exists>m'. grow_hole (h_addr_end h) (of_nat delta) h' m = Inr (h', m') \<and>
    heap_inv h' m' (pre @ [(k + delta, True)]) \<and>
    (\<forall>y. \<not> (hstart h + extent pre \<le> unat y \<and> unat y < hend h + delta) \<longrightarrow> m' y = m y)"
proof -
  let ?x = "hstart h + extent pre"
  let ?m = "write_footer (of_nat (?x + (k + delta) - 8)) (of_nat ?x) (stn m (?x + 8) (of_nat (k + delta)))"
  have ok: "heap_ok m (hstart h) (pre @ [(k, True)]) (hend h)" and ix: "index_ok (h_index h) (hstart h)"
    using inv by (simp_all add: heap_inv_def)
  have "(?x, k, True) \<in> set (addrs (hstart h) (pre @ [(k, True)]))" by (simp add: addrs_append)
  note B = heap_inv_block [OF inv this]
  have end': "?x + k = hend h" using ok by (simp add: heap_ok_def)
  have hd: "header_at m ?x k True" using B(1) by (simp add: block_ok_def)
  have ux: "unat (of_nat ?x :: u32) = ?x" using end' e by (intro unat_of_nat_u32) linarith
  have ue: "hend h' = hend h + delta" using e by (simp add: h'_def unat_of_nat_u32 del: of_nat_add)
  obtain w where w: "w \<in> set (sa_list (h_index h) m)" "unat w = ?x" using hole_in_index [OF inv refl] by blast
  have wx: "w = of_nat ?x" using w(2) by (metis of_nat_unat_u32)
  have "v \<le> w" if "v \<in> set (sa_list (h_index h) m)" for v
    using last_hole_max [OF inv _ that] w(2) by (simp add: u32_le_iff)
  moreover have "0 < w" using w(2) ix by (auto simp: u32_less_iff index_ok_def)
  ultimately obtain i where i: "endmost_loop (h_index h) m 0 (- 1) 0 = i" "i \<noteq> - 1"
      "lookup_sorted_array (h_index h) i m = Inr (of_nat ?x)"
    using endmost_some [OF w(1)] wx by blast
  have grow: "grow_hole (h_addr_end h) (of_nat delta) h' m = Inr (h', ?m)"
    using i hd B(5) by (intro grow_last_hole [where i = i]) (simp_all add: h'_def header_at_def)
  have "?x + (k + delta) \<le> 4294967296" using end' e by simp
  note M = resize_block [OF hd B(5) this]
  have out: "?m y = m y" if "\<not> (?x \<le> unat y \<and> unat y < hend h + delta)" for y
  proof (rule M(2))
    show "\<not> (?x \<le> unat y \<and> unat y < ?x + (k + delta))" using that end' by linarith
  qed
  have pre_ok: "block_ok ?m (hend h') b" if b: "b \<in> set (addrs (hstart h) pre)" for b
  proof -
    obtain z n c where zb: "b = (z, n, c)" by (cases b)
    have z: "z + n \<le> ?x" using addrs_bounds [of z n c] b zb by auto
    have bm: "block_ok m (hend h') (z, n, c)" using heap_ok_moved_end [OF ok b] zb by simp
    show ?thesis
      unfolding zb by (rule block_ok_agree [OF bm], rule out) (use z end' e in linarith)+
  qed
  have "heap_ok ?m (hstart h) (pre @ [(k + delta, True)]) (hend h')"
    using pre_ok M(1) ue end' by (auto simp: heap_ok_def addrs_append)
  moreover have "sa_list (h_index h) ?m = sa_list (h_index h) m"
    by (rule sa_list_agree [OF ix], rule out) (simp_all add: less_imp_le)
  ultimately have "heap_inv h' ?m (pre @ [(k + delta, True)])"
    using inv by (simp add: heap_inv_def h'_def holes_append)
  then show ?thesis using grow out by blast
qed

lemma grow_hole_none:
  assumes inv: "heap_inv h m bs" and e: "hend h + delta < 4294967296" and d: "20 \<le> delta"
    and none: "holes (hstart h) bs = {}" and room: "0 < sa_maxsize (h_index h)"
  defines "h' \<equiv> h\<lparr>h_addr_end := of_nat (hend h + delta)\<rparr>"
  shows "\<exists>ix m'. grow_hole (h_addr_end h) (of_nat delta) h' m = Inr (h'\<lparr>h_index := ix\<rparr>, m') \<and>
    heap_inv (h'\<lparr>h_index := ix\<rparr>) m' (bs @ [(delta, True)]) \<and> same_region h' (h'\<lparr>h_index := ix\<rparr>) \<and>
    (\<forall>y. \<not> in_index h y \<longrightarrow> \<not> (hend h \<le> unat y \<and> unat y < hend h + delta) \<longrightarrow> m' y = m y)"
proof -
  let ?x = "hend h" and ?m = "write_block (hend h) delta True m"
  have ok: "heap_ok m (hstart h) bs (hend h)" using inv by (simp add: heap_inv_def)
  have end': "hstart h + extent bs = hend h" using ok by (simp add: heap_ok_def)
  have nil: "sa_list (h_index h) m = []" using inv none by (simp add: heap_inv_def)
  have ue: "hend h' = hend h + delta" using e by (simp add: h'_def unat_of_nat_u32 del: of_nat_add)
  have "gap_inv h' m bs delta []"
    using inv ue end' none heap_ok_moved_end [OF ok] by (auto simp: gap_inv_def heap_inv_def h'_def)
  moreover have ag: "?m y = m y" if "\<not> (hstart h' + extent bs \<le> unat y \<and> unat y < hstart h' + extent bs + delta)" for y
    using that e d end' by (intro write_block_agree) (auto simp: h'_def)
  ultimately have G: "gap_inv h' ?m bs delta []" by (rule gap_write(1))
  have blk: "\<forall>b \<in> set (addrs (hstart h' + extent bs) [(delta, True)]). block_ok ?m (hend h') b"
    using write_block_ok [OF d, of "hend h" True m] e end' by (simp add: h'_def)
  have sz: "sa_size (h_index h') < sa_maxsize (h_index h')"
  proof -
    have "unat (sa_size (h_index h)) = 0" using arg_cong [OF nil, of length] by simp
    then have "sa_size (h_index h) = 0" by (simp add: u32_eq_iff)
    then show ?thesis using room by (simp add: h'_def)
  qed
  obtain ix m' where I: "insert_sorted_array (h_index h') (of_nat (hend h)) ?m = Inr (ix, m')"
      "heap_inv (h'\<lparr>h_index := ix\<rparr>) m' (bs @ [(delta, True)] @ [])" "same_region h' (h'\<lparr>h_index := ix\<rparr>)"
      "\<forall>y. \<not> in_index h' y \<longrightarrow> m' y = ?m y"
    using gap_close_hole [OF G _ _ blk sz, of "hend h"] end' by (auto simp: h'_def)
  have f: "(h_addr_end h + of_nat delta - 8 :: u32) = of_nat (hend h + delta - 8)"
    using of_nat_minus [of 8 "hend h + delta"] d by simp
  have hs: "hh_size (write_header (h_addr_end h) 1 (of_nat delta) m) (h_addr_end h) = of_nat delta"
    using header_at_write [of "hend h" True delta m] e d header_fields_nat(3) [of _ "hend h"]
    by (simp add: header_at_def)
  have "grow_hole (h_addr_end h) (of_nat delta) h' m = Inr (h'\<lparr>h_index := ix\<rparr>, m')"
    unfolding grow_hole_def using endmost_none [OF nil] I(1)
    by (simp add: h'_def Let_def hs f write_block_def del: of_nat_diff of_nat_add)
  moreover have "m' y = m y" if "\<not> in_index h y" "\<not> (hend h \<le> unat y \<and> unat y < hend h + delta)" for y
    using that I(4) ag [of y] end' by (auto simp: in_index_def h'_def)
  ultimately show ?thesis using I(2,3) by auto
qed

subsection \<open>Expanding the heap\<close>

text \<open>
  The heap area lies in the part of the address space that table \<open>j\<close> at \<open>t\<close> describes, and its
  first \<open>n\<close> pages, up to the end of the heap, are mapped.  The paging structures lie below the index.
\<close>

definition paged :: "vm_heap \<Rightarrow> 'a vm_state_scheme \<Rightarrow> nat \<Rightarrow> nat \<Rightarrow> nat \<Rightarrow> nat \<Rightarrow> nat \<Rightarrow> bool" where
  "paged h s d j t f n \<longleftrightarrow> filled s d j t f n \<and> hend h = 4194304 * j + 4096 * n \<and>
     hstart h mod 4096 = 0 \<and> 4194304 * j \<le> hstart h \<and> t + 4096 \<le> unat (sa_array (h_index h)) \<and>
     h_su h = 0 \<and> h_ro h = 0"

lemma paged_length:
  assumes "paged h s d j t f n" "hstart h + l = hend h"
  shows "l mod 4096 = 0"
proof -
  have e: "hend h = 4194304 * j + 4096 * n" "4096 dvd hstart h" using assms(1) by (auto simp: paged_def)
  have "4096 dvd hstart h + l" unfolding assms(2) e(1) by simp
  then show ?thesis using e(2) by (simp only: mod_eq_0_iff_dvd dvd_add_right_iff)
qed

lemma paged_bitset: "paged h s d j t f n \<Longrightarrow> unat (frames s) + 128 \<le> unat (sa_array (h_index h))"
  by (simp add: paged_def filled_def)

lemma heap_inv_above:
  assumes "heap_inv h m bs" "\<And>y. unat (sa_array (h_index h)) \<le> unat y \<Longrightarrow> m' y = m y"
  shows "heap_inv h m' bs" "index_sorted (h_index h) m \<Longrightarrow> index_sorted (h_index h) m'"
proof -
  have ix: "index_ok (h_index h) (hstart h)" and ok: "heap_ok m (hstart h) bs (hend h)" using assms(1) by (simp_all add: heap_inv_def)
  have le: "unat (sa_array (h_index h)) \<le> hstart h" using ix by (simp add: index_ok_def)
  have "sa_list (h_index h) m' = sa_list (h_index h) m"
  proof (rule nth_equalityI)
    fix i assume "i < length (sa_list (h_index h) m')"
    then have i: "i < unat (sa_size (h_index h))" by simp
    have b: "unat (sa_array (h_index h)) + 4 * Suc i \<le> hstart h"
      using ix i by (auto simp: index_ok_def sa_wf_def u32_le_iff)
    have "cell (h_index h) (of_nat i) = of_nat (unat (sa_array (h_index h)) + 4 * i)" by (simp add: cell_def)
    then show "sa_list (h_index h) m' ! i = sa_list (h_index h) m ! i"
      using i b assms(2) ldn_agree [of "unat (sa_array (h_index h)) + 4 * i" m' m] unat_u32_le [of "h_addr_start h"]
      by (simp only: nth_sa_list length_sa_list) (simp add: ldn_def)
  qed simp
  note l = this
  have "heap_ok m' (hstart h) ([] @ [] @ bs) (hend h)"
    by (rule heap_ok_splice [where old = "[]" and mid = "[]", OF _ _ hend_le]) (use ok le assms(2) in auto)
  then show inv': "heap_inv h m' bs" using assms(1) l by (simp add: heap_inv_def)
  show "index_sorted (h_index h) m'" if "index_sorted (h_index h) m"
  proof (rule index_sorted_agree [OF that l], rule ballI)
    fix w assume "w \<in> set (sa_list (h_index h) m)"
    from heap_inv_hole_bounds [OF assms(1) this] have "ldn m' (unat w + 8) = ldn m (unat w + 8)"
      using le assms(2) hend_le [of h] by (intro ldn_agree) auto
    then show "hole_size m' w = hole_size m w" using header_fields_nat(3) [of _ "unat w"] by simp
  qed
qed

lemma filled_get_page:
  assumes "filled s d j t f n" "n < 1024"
  shows "get_page_with km (of_nat (4194304 * j + 4096 * n)) c (kernel_directory s) s = Inr (of_nat (t + 4 * n), s)"
proof -
  have F: "kernel_directory s = of_nat d" "ldn (mem s) (d + 4 * j) = of_nat t" "d + 8192 \<le> t" "t + 4096 \<le> 4294967296" "j < 1024"
    using assms(1) by (simp_all add: filled_def)
  have a: "4194304 * j + 4096 * n < 4294967296" using F(5) assms(2) by linarith
  show ?thesis
    unfolding F(1) using get_page_present [OF a, of s d t] F(2,3,4) entry_index [OF refl assms(2), of j] by auto
qed

lemma expand_loop_ok:
  assumes "filled s d j t f n" "f + n + r \<le> 1024" "n + r \<le> 1024" "r \<le> fuel"
    "hstart (vm_heaps s heap) + l = 4194304 * j + 4096 * n" "l + 4096 * r < 4294967296"
    "h_su (vm_heaps s heap) = 0" "h_ro (vm_heaps s heap) = 0"
  shows "\<exists>m'. expand_loop km fuel (of_nat (l + 4096 * r)) heap (of_nat l) s = Inr (s\<lparr>mem := m'\<rparr>) \<and>
    filled (s\<lparr>mem := m'\<rparr>) d j t f (n + r) \<and> only_in s t m'"
  using assms
proof (induction r arbitrary: n s l fuel)
  case 0
  then show ?case by (intro exI [of _ "mem s"]) (simp add: only_in_def expand_loop.simps)
next
  case (Suc r)
  let ?a = "4194304 * j + 4096 * n"
  have lt: "(of_nat l :: u32) < of_nat (l + 4096 * Suc r)"
    using Suc.prems(6) by (simp add: u32_less_iff unat_of_nat_u32 del: of_nat_add of_nat_mult)
  have ad: "h_addr_start (vm_heaps s heap) + of_nat l = of_nat ?a"
    using arg_cong [OF Suc.prems(5), of "of_nat :: nat \<Rightarrow> u32"] by simp
  have get: "get_page_with km (of_nat ?a) True (kernel_directory s) s = Inr (of_nat (t + 4 * n), s)"
    using filled_get_page [OF Suc.prems(1)] Suc.prems(3) by simp
  obtain m1 where m1: "alloc_frame (of_nat (t + 4 * n)) 0 0 s = Inr (s\<lparr>mem := m1\<rparr>)"
      "filled (s\<lparr>mem := m1\<rparr>) d j t f (Suc n)" "only_in s t m1"
    using filled_step [OF Suc.prems(1), of ?a km True] Suc.prems(2,3) get by auto
  let ?s1 = "s\<lparr>mem := m1\<rparr>"
  have "f + Suc n + r \<le> 1024" "Suc n + r \<le> 1024" "r \<le> fuel - 1"
      "hstart (vm_heaps ?s1 heap) + (l + 4096) = 4194304 * j + 4096 * Suc n" "l + 4096 + 4096 * r < 4294967296"
    using Suc.prems(2-6) by auto
  from Suc.IH [OF m1(2) this] Suc.prems(7,8)
  obtain m2 where m2: "expand_loop km (fuel - 1) (of_nat (l + 4096 + 4096 * r)) heap (of_nat (l + 4096)) ?s1 = Inr (s\<lparr>mem := m2\<rparr>)"
      "filled (s\<lparr>mem := m2\<rparr>) d j t f (Suc n + r)" "only_in ?s1 t m2"
    by auto
  have eq: "l + 4096 * Suc r = l + 4096 + 4096 * r" and i: "of_nat l + 0x1000 = (of_nat (l + 4096) :: u32)" by simp_all
  have "fuel \<noteq> 0" using Suc.prems(4) by simp
  then have "expand_loop km fuel (of_nat (l + 4096 * Suc r)) heap (of_nat l) s = Inr (s\<lparr>mem := m2\<rparr>)"
    by (subst expand_loop.simps)
      (simp only: lt ad get m1(1) m2(1) [folded eq i] Suc.prems(7,8) bindr_Inr not_True_eq_False if_False split)
  then show ?case using m2(2) only_in_trans [OF m1(3) m2(3)] by auto
qed

text \<open>
  The length that a heap of length \<open>l\<close> has after a request for \<open>n\<close> more bytes, and the number of
  pages \<open>expand\<close> maps for it.
\<close>

definition grown :: "nat \<Rightarrow> nat \<Rightarrow> nat" where
  "grown l n = page_up (l + n) - l"

lemma grown_bounds:
  assumes "l mod 4096 = 0"
  shows "n < grown l n" "grown l n \<le> n + 4096" "4096 * (grown l n div 4096) = grown l n" "l + grown l n = page_up (l + n)"
proof -
  note B = page_up_bounds [of "l + n"]
  show "n < grown l n" "grown l n \<le> n + 4096" "l + grown l n = page_up (l + n)" using B(1,2) by (simp_all add: grown_def)
  have "4096 dvd grown l n"
    unfolding grown_def by (rule dvd_diff_nat) (use B(3) assms in \<open>simp_all only: mod_eq_0_iff_dvd\<close>)
  then show "4096 * (grown l n div 4096) = grown l n" by simp
qed

lemma expand_ok:
  assumes P: "paged (vm_heaps s heap) s d j t f n" and le: "hstart (vm_heaps s heap) + l = hend (vm_heaps s heap)"
    and ns: "0 < ns" "4096 \<le> l + ns" "l + ns < 4294963200"
    and top: "hend (vm_heaps s heap) + grown l ns \<le> unat (h_addr_max (vm_heaps s heap))"
    and fr: "f + n + grown l ns div 4096 \<le> 1024" "n + grown l ns div 4096 \<le> 1024"
  shows "\<exists>m'. expand_with km (of_nat (l + ns)) heap s =
      Inr (upd_heap heap (\<lambda>h. h\<lparr>h_addr_end := of_nat (hend h + grown l ns)\<rparr>) (s\<lparr>mem := m'\<rparr>)) \<and>
    filled (s\<lparr>mem := m'\<rparr>) d j t f (n + grown l ns div 4096) \<and> only_in s t m'"
proof -
  let ?h = "vm_heaps s heap"
  have F: "filled s d j t f n" "hend ?h = 4194304 * j + 4096 * n" "hstart ?h mod 4096 = 0" "h_su ?h = 0" "h_ro ?h = 0"
    using P by (simp_all add: paged_def)
  note lm = paged_length [OF P le]
  note G = grown_bounds [OF lm, of ns]
  have ul: "h_addr_end ?h - h_addr_start ?h = of_nat l"
    using arg_cong [OF le, of "of_nat :: nat \<Rightarrow> u32"] by (simp add: algebra_simps)
  have lt: "l + grown l ns < 4294967296" "hend ?h + grown l ns < 4294967296"
    using le top unat_u32_le [of "h_addr_max ?h"] by linarith+
  note R = page_up_word [OF ns(3)]
  have up: "of_nat (l + grown l ns) = (of_nat (l + ns) AND 0xFFFFF000) + (0x1000 :: u32)" "(of_nat (l + ns) AND 0xFFFFF000 :: u32) \<noteq> 0"
    using R ns(2) G(4) by simp_all
  have "h_addr_start ?h + of_nat (l + grown l ns) = of_nat (hend ?h + grown l ns)"
    unfolding le [symmetric] by (simp add: add.assoc)
  moreover have "of_nat (hend ?h + grown l ns) \<le> h_addr_max ?h"
    using top lt(2) by (simp add: u32_le_iff unat_of_nat_u32 del: of_nat_add)
  moreover have "(of_nat l :: u32) < of_nat (l + ns)"
    using ns lt by (simp add: u32_less_iff unat_of_nat_u32 del: of_nat_add)
  moreover obtain m' where "expand_loop km 0x100000 (of_nat (l + grown l ns)) heap (of_nat l) s = Inr (s\<lparr>mem := m'\<rparr>)"
      "filled (s\<lparr>mem := m'\<rparr>) d j t f (n + grown l ns div 4096)" "only_in s t m'"
    using expand_loop_ok [OF F(1) fr, of "0x100000" heap l km] F(2,4,5) le lt fr(2) unfolding G(3) by auto
  ultimately show ?thesis
    by (intro exI [of _ m'])
      (simp add: expand_with_def Let_def ul kassert_def up(2) upd_heap_def del: of_nat_add flip: up(1))
qed

lemma only_in_above:
  assumes "paged h s d j t f n" "only_in s t m'" "unat (sa_array (h_index h)) \<le> unat y"
  shows "m' y = mem s y"
  using assms(2,3) paged_bitset [OF assms(1)] assms(1) by (simp add: only_in_def paged_def)

lemma alloc_expand_step:
  fixes heap :: u32 and s :: "'a vm_state_scheme"
  defines "h \<equiv> vm_heaps s heap"
  assumes inv: "heap_inv h (mem s) bs" and P: "paged h s d j t f n"
    and ns: "0 < ns" "4096 \<le> extent bs + ns" "extent bs + ns < 4294963200"
    and top: "hend h + grown (extent bs) ns \<le> unat (h_addr_max h)"
    and fr: "f + n + grown (extent bs) ns div 4096 \<le> 1024" "n + grown (extent bs) ns div 4096 \<le> 1024"
  shows "\<exists>m1. alloc_expand km (of_nat ns) heap s =
      bindr (grow_hole (h_addr_end h) (of_nat (grown (extent bs) ns))
               (h\<lparr>h_addr_end := of_nat (hend h + grown (extent bs) ns)\<rparr>) m1)
        (\<lambda>(h, m). Inr (upd_heap heap (\<lambda>_. h) (s\<lparr>mem := m\<rparr>))) \<and>
    heap_inv h m1 bs \<and> filled (s\<lparr>mem := m1\<rparr>) d j t f (n + grown (extent bs) ns div 4096) \<and>
    (\<forall>y. unat (sa_array (h_index h)) \<le> unat y \<longrightarrow> m1 y = mem s y)"
proof -
  let ?g = "grown (extent bs) ns"
  have le: "hstart h + extent bs = hend h" using inv by (simp add: heap_inv_def heap_ok_def)
  obtain m1 where m1: "expand_with km (of_nat (extent bs + ns)) heap s =
      Inr (upd_heap heap (\<lambda>h. h\<lparr>h_addr_end := of_nat (hend h + ?g)\<rparr>) (s\<lparr>mem := m1\<rparr>))"
      "filled (s\<lparr>mem := m1\<rparr>) d j t f (n + ?g div 4096)" "only_in s t m1"
    using expand_ok [of s heap d j t f n "extent bs" ns km] P le ns top fr by (auto simp: h_def)
  have A: "\<forall>y. unat (sa_array (h_index h)) \<le> unat y \<longrightarrow> m1 y = mem s y" using only_in_above [OF P m1(3)] by blast
  have l: "h_addr_end h - h_addr_start h = of_nat (extent bs)"
    using arg_cong [OF le, of "of_nat :: nat \<Rightarrow> u32"] by (simp add: algebra_simps)
  have dl: "h_addr_end h + of_nat ?g - h_addr_start h - of_nat (extent bs) = of_nat ?g"
    unfolding l [symmetric] by simp
  have "alloc_expand km (of_nat ns) heap s =
      bindr (grow_hole (h_addr_end h) (of_nat ?g) (h\<lparr>h_addr_end := of_nat (hend h + ?g)\<rparr>) m1)
        (\<lambda>(h, m). Inr (upd_heap heap (\<lambda>_. h) (s\<lparr>mem := m\<rparr>)))"
    using m1(1) l by (simp add: dl alloc_expand_def Let_def upd_heap_def flip: h_def)
  then show ?thesis using m1(2) A heap_inv_above(1) [OF inv, of m1] by blast
qed

text \<open>
  Growing a heap whose last block is a hole of size \<open>k\<close>, or (\<open>k = 0\<close>) which has no hole: the new
  space extends the last hole, or becomes one.
\<close>

definition last_hole :: "nat \<Rightarrow> block list" where
  "last_hole k = (if k = 0 then [] else [(k, True)])"

lemma grow_ok:
  assumes inv: "heap_inv h m (pre @ last_hole k)" and e: "hend h + delta < 4294967296" and d: "20 \<le> delta"
    and none: "k = 0 \<Longrightarrow> holes (hstart h) pre = {}" and room: "0 < sa_maxsize (h_index h)"
  defines "h' \<equiv> h\<lparr>h_addr_end := of_nat (hend h + delta)\<rparr>"
  shows "\<exists>ix m'. grow_hole (h_addr_end h) (of_nat delta) h' m = Inr (h'\<lparr>h_index := ix\<rparr>, m') \<and>
    heap_inv (h'\<lparr>h_index := ix\<rparr>) m' (pre @ [(k + delta, True)]) \<and> same_region h' (h'\<lparr>h_index := ix\<rparr>) \<and>
    (\<forall>y. \<not> in_index h y \<longrightarrow> unat y < hstart h + extent pre \<longrightarrow> m' y = m y)"
proof (cases "k = 0")
  case True
  have "hstart h + extent pre = hend h" using inv True by (simp add: heap_inv_def heap_ok_def last_hole_def)
  then show ?thesis
    using grow_hole_none [of h m pre delta, OF _ e d none room] inv True unfolding h'_def last_hole_def by fastforce
next
  case False
  then obtain m' where "grow_hole (h_addr_end h) (of_nat delta) h' m = Inr (h', m')"
      "heap_inv h' m' (pre @ [(k + delta, True)])"
      "\<forall>y. \<not> (hstart h + extent pre \<le> unat y \<and> unat y < hend h + delta) \<longrightarrow> m' y = m y"
    using grow_hole_last [of h m pre k delta, OF _ e] inv unfolding h'_def last_hole_def by auto
  then show ?thesis by (intro exI [of _ "h_index h'"] exI [of _ m']) (auto simp: same_region_def)
qed

lemma paged_agree:
  assumes "paged h s d j t f n" "same_region h h'" "\<forall>y. unat y < t + 4096 \<longrightarrow> mem s' y = mem s y"
    "kernel_directory s' = kernel_directory s" "nframes s' = nframes s" "frames s' = frames s"
  shows "paged h' s' d j t f n"
  using assms filled_agree [of s d j t f n s'] by (auto simp: paged_def same_region_def)

lemma alloc_expand_ok:
  fixes pre :: "block list" and k ns :: nat and heap :: u32 and s :: "'a vm_state_scheme"
  defines "h \<equiv> vm_heaps s heap" and "g \<equiv> grown (extent pre + k) ns"
  assumes inv: "heap_inv h (mem s) (pre @ last_hole k)" and P: "paged h s d j t f n"
    and ns: "20 \<le> ns" "4096 \<le> extent pre + k + ns" "extent pre + k + ns < 4294963200"
    and none: "k = 0 \<Longrightarrow> holes (hstart h) pre = {}" and room: "0 < sa_maxsize (h_index h)"
    and top: "hend h + g \<le> unat (h_addr_max h)" and fr: "f + n + g div 4096 \<le> 1024" "n + g div 4096 \<le> 1024"
  shows "\<exists>h' m'. alloc_expand km (of_nat ns) heap s = Inr (upd_heap heap (\<lambda>_. h') (s\<lparr>mem := m'\<rparr>)) \<and>
    heap_inv h' m' (pre @ [(k + g, True)]) \<and> paged h' (s\<lparr>mem := m'\<rparr>) d j t f (n + g div 4096) \<and>
    hstart h' = hstart h \<and> hend h' = hend h + g \<and> ns < g \<and> h_addr_max h' = h_addr_max h \<and>
    sa_maxsize (h_index h') = sa_maxsize (h_index h) \<and>
    (\<forall>y. hstart h \<le> unat y \<longrightarrow> unat y < hstart h + extent pre \<longrightarrow> m' y = mem s y)"
proof -
  have ext: "extent (pre @ last_hole k) = extent pre + k" by (simp add: last_hole_def)
  have le: "hstart h + extent (pre @ last_hole k) = hend h" using inv by (simp add: heap_inv_def heap_ok_def)
  obtain m1 where m1: "alloc_expand km (of_nat ns) heap s =
      bindr (grow_hole (h_addr_end h) (of_nat g) (h\<lparr>h_addr_end := of_nat (hend h + g)\<rparr>) m1)
        (\<lambda>(h, m). Inr (upd_heap heap (\<lambda>_. h) (s\<lparr>mem := m\<rparr>)))"
      "heap_inv h m1 (pre @ last_hole k)" "filled (s\<lparr>mem := m1\<rparr>) d j t f (n + g div 4096)"
      "\<forall>y. unat (sa_array (h_index h)) \<le> unat y \<longrightarrow> m1 y = mem s y"
    using alloc_expand_step [OF inv [unfolded h_def] P [unfolded h_def], of ns km] ns top fr
    unfolding ext h_def [symmetric] g_def [symmetric] by auto
  have e: "hend h + g < 4294967296" using top unat_u32_le [of "h_addr_max h"] by linarith
  note G = grown_bounds [OF paged_length [OF P le, unfolded ext], of ns, folded g_def]
  define h1 where "h1 = h\<lparr>h_addr_end := of_nat (hend h + g)\<rparr>"
  obtain ix m2 where m2: "grow_hole (h_addr_end h) (of_nat g) h1 m1 = Inr (h1\<lparr>h_index := ix\<rparr>, m2)"
      "heap_inv (h1\<lparr>h_index := ix\<rparr>) m2 (pre @ [(k + g, True)])" "same_region h1 (h1\<lparr>h_index := ix\<rparr>)"
      "\<forall>y. \<not> in_index h y \<longrightarrow> unat y < hstart h + extent pre \<longrightarrow> m2 y = m1 y"
    using grow_ok [OF m1(2) e _ none room] G(1) ns(1) unfolding h1_def by fastforce
  have h1: "hend h1 = hend h + g" "hstart h1 = hstart h" "sa_array (h_index h1) = sa_array (h_index h)"
    using e by (simp_all add: h1_def unat_of_nat_u32 del: of_nat_add)
  have ix: "unat (sa_array (h_index h)) \<le> hstart h" using inv by (simp add: heap_inv_def index_ok_def)
  have "paged h1 (s\<lparr>mem := m1\<rparr>) d j t f (n + g div 4096)"
    using P m1(3) h1 G(3) by (simp add: paged_def) (simp add: h1_def)
  then have "paged (h1\<lparr>h_index := ix\<rparr>) (s\<lparr>mem := m2\<rparr>) d j t f (n + g div 4096)"
  proof (rule paged_agree [OF _ m2(3)])
    have "t + 4096 \<le> unat (sa_array (h_index h))" using P by (simp add: paged_def)
    then show "\<forall>y. unat y < t + 4096 \<longrightarrow> mem (s\<lparr>mem := m2\<rparr>) y = mem (s\<lparr>mem := m1\<rparr>) y"
      using m2(4) below_index [OF inv] ix by simp
  qed simp_all
  moreover have "\<forall>y. hstart h \<le> unat y \<longrightarrow> unat y < hstart h + extent pre \<longrightarrow> m2 y = mem s y"
    using m2(4) m1(4) not_in_index [OF inv] ix by (metis le_trans)
  moreover have "alloc_expand km (of_nat ns) heap s = Inr (upd_heap heap (\<lambda>_. h1\<lparr>h_index := ix\<rparr>) (s\<lparr>mem := m2\<rparr>))"
    using m1(1) m2(1) by (simp add: h1_def)
  moreover have "h_addr_max h1 = h_addr_max h" "sa_maxsize ix = sa_maxsize (h_index h)" using m2(3) by (simp_all add: same_region_def h1_def)
  ultimately show ?thesis using m2(2) h1 G(1) by (intro exI [of _ "h1\<lparr>h_index := ix\<rparr>"] exI [of _ m2]) simp
qed

lemma no_hole_fits:
  assumes "heap_inv h m bs" "\<forall>i. (i, True) \<in> set bs \<longrightarrow> i < unat sz"
  shows "find_smallest_hole sz False h m = - 1"
proof (rule ccontr)
  let ?i = "find_smallest_hole sz False h m" and ?xs = "sa_list (h_index h) m"
  assume "?i \<noteq> - 1"
  note F = find_smallest_hole_some [OF refl this]
  have "?xs ! unat ?i \<in> set ?xs" using F(1) by (simp add: u32_less_iff)
  from index_hole [OF assms(1) this] assms(2) F(2) show False by (auto simp: hole_fits_def u32_le_iff)
qed

lemma alloc_grow_ok:
  fixes pre :: "block list" and k :: nat and heap sz :: u32 and s :: "'a vm_state_scheme"
  defines "h \<equiv> vm_heaps s heap" and "g \<equiv> grown (extent pre + k) (unat sz + 20)"
  assumes inv: "heap_inv h (mem s) (pre @ last_hole k)" and P: "paged h s d j t f n"
    and sz: "4096 \<le> extent pre + k + (unat sz + 20)" "extent pre + k + (unat sz + 20) < 4294963200"
    and small: "\<forall>i. (i, True) \<in> set (pre @ last_hole k) \<longrightarrow> i < unat sz + 20"
    and none: "k = 0 \<Longrightarrow> holes (hstart h) pre = {}" and room: "0 < sa_maxsize (h_index h)"
    and top: "hend h + g \<le> unat (h_addr_max h)" and fr: "f + n + g div 4096 \<le> 1024" "n + g div 4096 \<le> 1024"
  shows "\<exists>h' m'. alloc (Suc (Suc q)) sz False heap s =
      Inr (of_nat (hstart h + extent pre + 12), upd_heap heap (\<lambda>_. h') (s\<lparr>mem := m'\<rparr>)) \<and>
    heap_inv h' m' (pre @ carve (unat sz + 20) (k + g)) \<and> paged h' (s\<lparr>mem := m'\<rparr>) d j t f (n + g div 4096) \<and>
    hstart h' = hstart h \<and> hend h' = hend h + g \<and> h_addr_max h' = h_addr_max h \<and>
    sa_maxsize (h_index h') = sa_maxsize (h_index h) \<and>
    (\<forall>y. hstart h \<le> unat y \<longrightarrow> unat y < hstart h + extent pre \<longrightarrow> m' y = mem s y)"
proof -
  have new: "of_nat (unat sz + 20) = sz + 12 + 8" "unat (sz + 12 + 8) = unat sz + 20"
    using sz(2) by (simp_all add: unat_add_u32 add.assoc)
  obtain h2 m2 where m2: "alloc_expand (kmalloc0_ap_with (alloc (Suc q))) (sz + 12 + 8) heap s =
        Inr (upd_heap heap (\<lambda>_. h2) (s\<lparr>mem := m2\<rparr>))"
      "heap_inv h2 m2 (pre @ [(k + g, True)])" "paged h2 (s\<lparr>mem := m2\<rparr>) d j t f (n + g div 4096)"
      "hstart h2 = hstart h" "hend h2 = hend h + g" "unat sz + 20 < g"
      "\<forall>y. hstart h \<le> unat y \<longrightarrow> unat y < hstart h + extent pre \<longrightarrow> m2 y = mem s y"
      "h_addr_max h2 = h_addr_max h" "sa_maxsize (h_index h2) = sa_maxsize (h_index h)"
    using alloc_expand_ok [where heap = heap and s = s and pre = pre and k = k and ns = "unat sz + 20", folded h_def g_def,
        OF inv P _ sz none room top fr, of "kmalloc0_ap_with (alloc (Suc q))"]
    unfolding new(1) by (auto simp del: alloc.simps)
  let ?s2 = "upd_heap heap (\<lambda>_. h2) (s\<lparr>mem := m2\<rparr>)"
  have s2: "vm_heaps ?s2 heap = h2" "mem ?s2 = m2" by (simp_all add: upd_heap_def)
  have "heap_inv (vm_heaps ?s2 heap) (mem ?s2) (pre @ [(k + g, True)])" "unat sz + 20 < 4294967296"
      "(k + g, True) \<in> set (pre @ [(k + g, True)])" "unat sz + 20 \<le> k + g"
    using m2(2,6) s2 sz(2) by auto
  from alloc_ok [OF this, of q]
  obtain pre' hole post h' m' where A: "pre @ [(k + g, True)] = pre' @ (hole, True) # post" "unat sz + 20 \<le> hole"
      "alloc (Suc q) sz False heap ?s2 = Inr (of_nat (hstart h2 + extent pre' + 12), upd_heap heap (\<lambda>_. h') (?s2\<lparr>mem := m'\<rparr>))"
      "heap_inv h' m' (pre' @ carve (unat sz + 20) hole @ post)" "same_region h2 h'"
      "\<forall>y. \<not> in_index h2 y \<longrightarrow> \<not> (hstart h2 + extent pre' \<le> unat y \<and> unat y < hstart h2 + extent pre' + hole) \<longrightarrow> m' y = m2 y"
    unfolding s2 by blast
  have "post = []"
  proof (rule ccontr)
    assume "post \<noteq> []"
    then have "(hole, True) \<in> set pre" using A(1) by (cases post rule: rev_cases) auto
    then show False using small A(2) by fastforce
  qed
  then have eq: "pre' = pre" "hole = k + g" "post = []" using A(1) by auto
  have i: "find_smallest_hole (sz + 12 + 8) False h (mem s) = - 1"
    by (rule no_hole_fits [OF inv]) (use small new(2) in simp)
  have "alloc (Suc (Suc q)) sz False heap s = bindr (alloc_expand (kmalloc0_ap_with (alloc (Suc q))) (sz + 12 + 8) heap s)
      (\<lambda>s. alloc (Suc q) sz False heap s)"
    using i by (subst alloc.simps(2)) (simp add: alloc_body_def Let_def h_def del: alloc.simps)
  then have "alloc (Suc (Suc q)) sz False heap s = Inr (of_nat (hstart h + extent pre + 12), upd_heap heap (\<lambda>_. h') (s\<lparr>mem := m'\<rparr>))"
    unfolding m2(1) bindr_Inr A(3) eq m2(4) by (simp add: upd_heap_def)
  moreover have "paged h' (s\<lparr>mem := m'\<rparr>) d j t f (n + g div 4096)"
  proof (rule paged_agree [OF m2(3) A(5)])
    have "t + 4096 \<le> unat (sa_array (h_index h2))" "unat (sa_array (h_index h2)) \<le> hstart h2"
      using m2(3,2) by (simp_all add: paged_def heap_inv_def index_ok_def)
    then show "\<forall>y. unat y < t + 4096 \<longrightarrow> mem (s\<lparr>mem := m'\<rparr>) y = mem (s\<lparr>mem := m2\<rparr>) y"
      using A(6) below_index [OF m2(2)] by simp
  qed simp_all
  moreover have "\<forall>y. hstart h \<le> unat y \<longrightarrow> unat y < hstart h + extent pre \<longrightarrow> m' y = mem s y"
    using A(6) m2(4,7) not_in_index [OF m2(2)] eq by simp
  ultimately show ?thesis
    using A(4,5) eq m2(4,5,8,9) by (intro exI [of _ h'] exI [of _ m']) (simp add: same_region_def del: alloc.simps)
qed

subsection \<open>A hole that is not the last block\<close>

lemma grow_hole_inner:
  assumes inv: "heap_inv h m (pre @ (k, True) # (n, False) # post)"
    and none: "holes (hstart h + extent pre + k) ((n, False) # post) = {}"
    and d: "20 \<le> delta" "hend h + delta < 4294967296"
  defines "x \<equiv> hstart h + extent pre"
  shows "\<exists>m'. grow_hole (h_addr_end h) (of_nat delta) (h\<lparr>h_addr_end := e\<rparr>) m = Inr (h\<lparr>h_addr_end := e\<rparr>, m') \<and>
    header_at m' x (k + delta) True \<and> header_at m' (x + k) n False"
proof -
  let ?bs = "pre @ (k, True) # (n, False) # post" and ?h = "h\<lparr>h_addr_end := e\<rparr>"
  let ?m = "write_footer (of_nat (x + (k + delta) - 8)) (of_nat x) (stn m (x + 8) (of_nat (k + delta)))"
  have "(x, k, True) \<in> set (addrs (hstart h) ?bs)" "(x + k, n, False) \<in> set (addrs (hstart h) ?bs)"
    by (simp_all add: addrs_append x_def)
  note B = heap_inv_block [OF inv this(1)] and N = heap_inv_block [OF inv this(2)]
  have H: "header_at m x k True" "header_at m (x + k) n False" "20 \<le> k" using B(1) N(1) by (simp_all add: block_ok_def)
  have xk: "x + (k + delta) \<le> 4294967296" using d(2) N(3) by linarith
  have "x \<in> holes (hstart h) ?bs" by (simp add: holes_append x_def)
  then obtain w where w: "w \<in> set (sa_list (h_index h) m)" "unat w = x" using inv unfolding heap_inv_def by (metis imageE)
  have "\<forall>v \<in> set (sa_list (h_index h) m). v \<le> w"
    using last_hole_max [OF inv none] w(2) by (auto simp: u32_le_iff x_def)
  moreover have "0 < w" using inv w(2) by (auto simp: heap_inv_def index_ok_def x_def u32_less_iff)
  ultimately obtain i where "endmost_loop (h_index h) m 0 (- 1) 0 = i" "i \<noteq> - 1" "lookup_sorted_array (h_index h) i m = Inr w"
    using endmost_some w(1) by blast
  moreover have "w = of_nat x" using w(2) by (metis of_nat_unat_u32)
  ultimately have "grow_hole (h_addr_end h) (of_nat delta) ?h m = Inr (?h, ?m)"
    using H by (intro grow_last_hole) (auto simp: header_at_def)
  moreover have "header_at ?m x (k + delta) True"
    using resize_block(1) [OF H(1,3) xk, of 0] by (simp add: block_ok_def del: of_nat_add of_nat_diff)
  moreover have "header_at (stn m (x + 8) (of_nat (k + delta))) (x + k) n False"
    by (rule header_at_agree [OF H(2)], intro stn_agree) (use H(3) xk d in auto)
  then have "header_at ?m (x + k) n False"
    by (rule header_at_agree, intro write_footer_agree) (use H(3) xk d in auto)
  ultimately show ?thesis by blast
qed

text \<open>
  Property C15.  When the hole with the highest address is not the last block, growing the heap by \<open>delta\<close>
  bytes adds them to that hole in place, so that the hole now reaches over the block after it, whose
  header still marks it as in use: the next allocation from the hole overwrites live data.
\<close>

theorem grow_hole_swallows_live_block:
  assumes "heap_inv h m (pre @ (k, True) # (n, False) # post)" "\<forall>b \<in> set post. \<not> snd b"
    "20 \<le> delta" "hend h + delta < 4294967296" "x = hstart h + extent pre"
  shows "\<exists>m'. grow_hole (h_addr_end h) (of_nat delta) (h\<lparr>h_addr_end := of_nat (hend h + delta)\<rparr>) m =
      Inr (h\<lparr>h_addr_end := of_nat (hend h + delta)\<rparr>, m') \<and>
    hh_is_hole m' (of_nat x) = 1 \<and> hh_size m' (of_nat x) = of_nat (k + delta) \<and>
    hh_magic m' (of_nat (x + k)) = VM_HEAP_HDR_MAGIC \<and> hh_is_hole m' (of_nat (x + k)) = 0"
proof -
  have "holes a post = {}" for a using assms(2) by (induction post arbitrary: a) auto
  then obtain m' where "grow_hole (h_addr_end h) (of_nat delta) (h\<lparr>h_addr_end := of_nat (hend h + delta)\<rparr>) m =
      Inr (h\<lparr>h_addr_end := of_nat (hend h + delta)\<rparr>, m')" "header_at m' x (k + delta) True" "header_at m' (x + k) n False"
    using grow_hole_inner [OF assms(1) _ assms(3,4), of "of_nat (hend h + delta)"] assms(5) by auto
  then show ?thesis
    by (auto simp: header_at_def header_fields_nat simp del: of_nat_add)
qed

lemma sample_full:
  "\<exists>s :: vm_state. heap_inv (vm_heaps s 64) (mem s) [(120, False), (120, True), (120, False), (0x7EE98, False)] \<and>
    h_addr_start (vm_heaps s 64) = 0x181000"
proof -
  obtain s :: vm_state where s: "heap_inv (vm_heaps s 64) (mem s) [(120, False), (120, False), (120, False), (0x7EE98, True)]"
      "hstart (vm_heaps s 64) = 0x181000" "sa_maxsize (h_index (vm_heaps s 64)) = 0x20000"
    using sample_run by blast
  obtain h1 m1 where a: "heap_inv h1 m1 ([(120, False)] @ (120, False) # (120, False) # [(0x7EE98, False)])"
      "same_region (vm_heaps s 64) h1"
    using alloc_ok [OF s(1), of "0x7EE84" "0x7EE98" 0] by (auto simp: Cons_eq_append_conv carve_def simp del: alloc.simps)
  let ?s1 = "upd_heap 64 (\<lambda>_. h1) (s\<lparr>mem := m1\<rparr>)"
  have v: "vm_heaps ?s1 64 = h1" "mem ?s1 = m1" by (simp_all add: upd_heap_def)
  have "sa_size (h_index h1) < sa_maxsize (h_index h1)"
    using index_length [OF a(1)] s(3) a(2) by (simp add: u32_less_iff same_region_def)
  with free_ok [of ?s1 64 "[(120, False)]" 120 120 "[(0x7EE98, False)]"] a(1) v
  obtain h2 m2 where f: "heap_inv h2 m2 [(120, False), (120, True), (120, False), (0x7EE98, False)]" "same_region h1 h2"
    by (auto simp: coalesce_def)
  then show ?thesis
    using a(2) s(2) by (intro exI [of _ "upd_heap 64 (\<lambda>_. h2) (s\<lparr>mem := m2\<rparr>)"]) (simp add: upd_heap_def same_region_def u32_eq_iff)
qed

theorem grow_hole_swallows_live_block_witness:
  "\<exists>(s :: vm_state) m'. heap_inv (vm_heaps s 64) (mem s) [(120, False), (120, True), (120, False), (0x7EE98, False)] \<and>
    grow_hole 0x200000 4096 ((vm_heaps s 64)\<lparr>h_addr_end := 0x201000\<rparr>) (mem s) =
      Inr ((vm_heaps s 64)\<lparr>h_addr_end := 0x201000\<rparr>, m') \<and>
    hh_size m' 0x181078 = 4216 \<and> hh_is_hole m' 0x1810F0 = 0"
proof -
  obtain s :: vm_state where s: "heap_inv (vm_heaps s 64) (mem s) [(120, False), (120, True), (120, False), (0x7EE98, False)]"
      "h_addr_start (vm_heaps s 64) = 0x181000"
    using sample_full by blast
  have "hend (vm_heaps s 64) = 0x200000" using s by (simp add: heap_inv_def heap_ok_def)
  moreover from this have "h_addr_end (vm_heaps s 64) = 0x200000" by (simp add: u32_eq_iff)
  ultimately show ?thesis
    using grow_hole_swallows_live_block [of "vm_heaps s 64" "mem s" "[(120, False)]" 120 120 "[(0x7EE98, False)]" 4096 "0x181078"] s
    by auto
qed

end
