(* ===== verification/Boot.thy ===== *)
theory Boot
  imports Heap_Grow
begin

unbundle bit_operations_syntax

section \<open>\<open>init_paging\<close>: from placement allocation to a paged kernel with a heap\<close>

text \<open>
  The placement address on entry is \<open>p\<close>.  The bitset goes to \<open>p\<close>, the directory to the next page
  boundary \<open>d\<close>, the table of the heap area to \<open>d + 0x3000\<close>, the heap structure to
  \<open>d + 0x4000\<close> and the table of the low addresses to \<open>d + 0x5000\<close>.
\<close>

lemma prefix_used_zero:
  assumes "\<And>x. unat fr \<le> unat x \<Longrightarrow> unat x < unat fr + 128 \<Longrightarrow> m x = 0" "unat fr + 128 \<le> 4294967296"
  shows "prefix_used fr m 0"
  unfolding prefix_used_def
proof (intro allI impI)
  fix k :: nat assume "k < 1024"
  then have k: "k div 32 < 32" by (simp add: less_mult_imp_div_less)
  then have "unat (fr + 4 * of_nat (k div 32)) = unat fr + 4 * (k div 32)"
    using assms(2) by (simp add: unat_add_u32 unat_mult4 del: of_nat_div)
  then have "load32 m (fr + 4 * of_nat (k div 32)) = load32 (\<lambda>_. 0) (fr + 4 * of_nat (k div 32))"
    using k assms by (intro load32_cong) (auto simp: in_range_no_wrap)
  then show "frame_used fr m k \<longleftrightarrow> k < 0" by (simp add: frame_used_def load32_def)
qed

lemma dir_maps_zero:
  assumes "\<And>x. d \<le> unat x \<Longrightarrow> unat x < d + 8192 \<Longrightarrow> m x = 0" "d + 8192 \<le> 4294967296"
  shows "dir_maps m d (\<lambda>_. 0)"
proof -
  have "ldn (\<lambda>_. 0) a = 0" for a by (simp add: ldn_def load32_def)
  then have "dir_maps (\<lambda>_. 0) d (\<lambda>_. 0)" by (simp add: dir_maps_def)
  then show ?thesis by (rule dir_maps_agree) (use assms in auto)
qed

text \<open>Bitset and directory.\<close>

definition boot_dir :: "'a vm_state_scheme \<Rightarrow> 'a vm_state_scheme res" where
  "boot_dir s =
     (let s = s\<lparr>nframes := 0x1000000 div 0x1000\<rparr> in
      bindr (kmalloc0 0 (INDEX_FROM_BIT (nframes s)) s) (\<lambda>(a, s).
      let s = s\<lparr>frames := a\<rparr> in
      bindr (kmalloc0_a 0 8196 s) (\<lambda>(a, s).
      Inr (s\<lparr>kernel_directory := a\<rparr>))))"

lemma init_paging_stages:
  "init_paging s =
     bindr (boot_dir s) (\<lambda>s.
     bindr (map_tables HEAP_PAGES VM_KERN_HEAP_START s) (\<lambda>s.
     bindr (kmalloc0 0 36 s) (\<lambda>(heap, s).
     bindr (identity_map 0x100000 0 s) (\<lambda>s.
     bindr (map_heap_area HEAP_PAGES VM_KERN_HEAP_START s) (\<lambda>s.
     bindr (register_interrupt_handler 14 (Some Page_fault_handler) s) (\<lambda>s.
     let s = switch_page_directory (kernel_directory s) s in
     bindr (init_heap heap VM_KERN_HEAP_START (VM_KERN_HEAP_START + VM_KERN_HEAP_INITIAL_SIZE)
               0xCFFFF000 0 0 s) (\<lambda>(heap, s).
      Inr (s\<lparr>kernel_heap := heap\<rparr>))))))))"
  unfolding init_paging_def boot_dir_def Let_def bindr_assoc by (simp add: bindr_assoc case_prod_unfold)

lemma boot_dir_ok:
  assumes "kernel_heap s = 0" "placement_address s = of_nat p" "4096 \<le> p" "p < 0x3F0000"
  defines "d \<equiv> page_up (p + 128)"
  shows "\<exists>m'. boot_dir s = Inr (s\<lparr>nframes := 0x1000, frames := of_nat p, kernel_directory := of_nat d,
      placement_address := of_nat (d + 8196), mem := m'\<rparr>) \<and>
    prefix_used (of_nat p) m' 0 \<and> dir_maps m' d (\<lambda>_. 0) \<and>
    (\<forall>x. unat x < p \<or> d + 8196 \<le> unat x \<longrightarrow> m' x = mem s x)"
proof -
  have d: "p + 128 < d" "d \<le> p + 128 + 4096" using page_up_bounds [of "p + 128"] by (simp_all add: d_def)
  let ?m1 = "bzero (mem s) (of_nat p) 128"
  let ?m2 = "bzero ?m1 (of_nat d) 8196"
  let ?s0 = "s\<lparr>nframes := 0x1000\<rparr>"
  let ?s1 = "?s0\<lparr>placement_address := of_nat (p + 128), mem := ?m1, frames := of_nat p\<rparr>"
  have n: "INDEX_FROM_BIT 0x1000 = 128" by (simp add: INDEX_FROM_BIT_def)
  have k1: "kmalloc0 0 128 ?s0 = Inr (of_nat p, ?s0\<lparr>placement_address := of_nat (p + 128), mem := ?m1\<rparr>)"
    using kmalloc_placement [of ?s0 p 128 "alloc 0" False M_ZERO] assms(1-4)
    by (simp add: kmalloc_variants placed_def zeroed_def)
  have k2: "kmalloc0_a 0 8196 ?s1 = Inr (of_nat d, ?s1\<lparr>placement_address := of_nat (d + 8196), mem := ?m2\<rparr>)"
    using kmalloc_placement [of ?s1 "p + 128" 8196 "alloc 0" False "M_ALIGNED OR M_ZERO"] assms(1-4)
    by (simp add: kmalloc_variants placed_def zeroed_def d_def)
  have z1: "?m1 x = (if p \<le> unat x \<and> unat x < p + 128 then 0 else mem s x)" for x
    using zeroed_eq [of p 128 "mem s" M_ZERO x] assms(4) by (simp add: zeroed_def M_ZERO_def)
  have z2: "?m2 x = (if d \<le> unat x \<and> unat x < d + 8196 then 0 else ?m1 x)" for x
    using zeroed_eq [of d 8196 ?m1 M_ZERO x] assms(4) d by (simp add: zeroed_def M_ZERO_def)
  have up: "unat (of_nat p :: u32) = p" using assms(4) by (simp add: unat_of_nat_u32)
  have "prefix_used (of_nat p) ?m2 0" by (rule prefix_used_zero) (use z1 z2 d up assms(4) in auto)
  moreover have "dir_maps ?m2 d (\<lambda>_. 0)" by (rule dir_maps_zero) (use z2 d assms(4) in auto)
  moreover have "boot_dir s = Inr (?s1\<lparr>kernel_directory := of_nat d,
      placement_address := of_nat (d + 8196), mem := ?m2\<rparr>)"
    using k1 k2 by (simp add: boot_dir_def Let_def n)
  moreover have "?m2 x = mem s x" if "unat x < p \<or> d + 8196 \<le> unat x" for x
    using that d z1 z2 by auto
  ultimately show ?thesis by (intro exI [of _ ?m2]) simp
qed

text \<open>The table of the heap area, made by the first of the 256 calls.\<close>

lemma map_tables_ok:
  assumes "kernel_heap s = 0" "placement_address s = of_nat e" "4096 \<le> e" "d + 8192 \<le> e" "e < 0x3F8000"
    "kernel_directory s = of_nat d" "dir_maps (mem s) d ts" "ts 768 = 0"
  defines "t \<equiv> page_up e"
  shows "\<exists>m'. map_tables HEAP_PAGES VM_KERN_HEAP_START s =
      Inr (s\<lparr>placement_address := of_nat (t + 4096), mem := m'\<rparr>) \<and>
    dir_maps m' d (ts(768 := t)) \<and> table_maps m' t f 0 \<and>
    (\<forall>x. \<not> (d \<le> unat x \<and> unat x < d + 8192) \<longrightarrow> \<not> (t \<le> unat x \<and> unat x < t + 4096) \<longrightarrow> m' x = mem s x)"
proof -
  have hp: "HEAP_PAGES = Suc 255" by (simp add: HEAP_PAGES_def)
  have t: "e < t" "t \<le> e + 4096" using page_up_bounds [of e] by (simp_all add: t_def)
  have start: "VM_KERN_HEAP_START = of_nat 3221225472" by (simp add: VM_KERN_HEAP_START_def)
  obtain m' where m': "get_page 0 (of_nat 3221225472) True (of_nat d) s =
      Inr (of_nat (t + 4 * (3221225472 div 4096 mod 1024)), s\<lparr>placement_address := of_nat (t + 4096), mem := m'\<rparr>)"
      "dir_maps m' d (ts(768 := t))" "table_maps m' t f 0"
      "\<forall>x. \<not> (d \<le> unat x \<and> unat x < d + 8192) \<longrightarrow> \<not> (t \<le> unat x \<and> unat x < t + 4096) \<longrightarrow> m' x = mem s x"
    using get_page_create [of s e d ts 768 3221225472 "alloc 0" f] assms unfolding get_page_def by auto
  let ?s = "s\<lparr>placement_address := of_nat (t + 4096), mem := m'\<rparr>"
  have "ldn (mem ?s) (d + 4 * 768) = of_nat t" using dir_mapsD [OF m'(2), of 768] by simp
  then have "map_tables 255 (of_nat (3221225472 + 4096)) ?s = Inr ?s"
    using assms(5,6) t by (intro map_tables_present [where d = d and j = 768 and t = t]) auto
  then have "map_tables HEAP_PAGES VM_KERN_HEAP_START s = Inr ?s"
    using m'(1) assms(6) by (simp only: hp start map_tables.simps page_step) simp
  with m' show ?thesis by blast
qed

text \<open>
  The identity loop starts without the table of the low addresses; its first \<open>get_page\<close> makes it
  and moves the placement address, after which the loop is as from the beginning.
\<close>

lemma identity_map_first:
  assumes "get_page 0 0 True (kernel_directory s) s = Inr (p, s')"
    "get_page 0 0 True (kernel_directory s') s' = Inr (p, s')"
    "0 < placement_address s" "0 < placement_address s'"
  shows "identity_map n 0 s = identity_map n 0 s'"
  using assms by (simp add: identity_map.simps)

lemma identity_map_whole:
  assumes "kernel_heap s = 0" "placement_address s = of_nat e" "4096 \<le> e" "d + 8192 \<le> e" "e + 8192 \<le> 0x400000"
    "kernel_directory s = of_nat d" "dir_maps (mem s) d ts" "ts 0 = 0" "nframes s = 0x1000"
    "prefix_used (frames s) (mem s) 0" "unat (frames s) + 128 \<le> d"
  defines "t \<equiv> page_up e"
  shows "\<exists>m'. identity_map 0x100000 0 s = Inr (s\<lparr>placement_address := of_nat (t + 4096), mem := m'\<rparr>) \<and>
    dir_maps m' d (ts(0 := t)) \<and> table_maps m' t 0 ((t + 4096) div 4096) \<and>
    prefix_used (frames s) m' ((t + 4096) div 4096) \<and>
    (\<forall>x. d + 8192 \<le> unat x \<longrightarrow> \<not> (t \<le> unat x \<and> unat x < t + 4096) \<longrightarrow> m' x = mem s x)"
proof -
  have t: "e < t" "t \<le> e + 4096" "t mod 4096 = 0" using page_up_bounds [of e] by (simp_all add: t_def)
  obtain m1 where m1: "get_page 0 0 True (of_nat d) s = Inr (of_nat t, s\<lparr>placement_address := of_nat (t + 4096), mem := m1\<rparr>)"
      "dir_maps m1 d (ts(0 := t))" "table_maps m1 t 0 0"
      "\<forall>x. \<not> (d \<le> unat x \<and> unat x < d + 8192) \<longrightarrow> \<not> (t \<le> unat x \<and> unat x < t + 4096) \<longrightarrow> m1 x = mem s x"
    using get_page_create [of s e d ts 0 0 "alloc 0" 0] assms unfolding get_page_def by auto
  let ?s1 = "s\<lparr>placement_address := of_nat (t + 4096), mem := m1\<rparr>"
  have l0: "ldn m1 (d + 4 * 0) = of_nat t" using dir_mapsD [OF m1(2), of 0] by simp
  have again: "get_page 0 0 True (of_nat d) ?s1 = Inr (of_nat t, ?s1)"
    using get_page_present [of 0 ?s1 d t "kmalloc0_ap_with (alloc 0)" True] l0 t assms(5) by (simp add: get_page_def)
  have pos: "0 < (of_nat e :: u32)" "0 < (of_nat (t + 4096) :: u32)"
    using assms(3,5) t by (simp_all add: u32_less_iff unat_of_nat_u32 del: of_nat_add)
  have first: "identity_map 0x100000 0 s = identity_map 0x100000 0 ?s1"
    using m1(1) again pos assms(2,6) by (intro identity_map_first) auto
  have e: "t + 4096 = 4096 * ((t + 4096) div 4096)" using t(3) by (auto elim!: dvdE simp flip: mod_eq_0_iff_dvd)
  have "prefix_used (frames s) m1 0" by (rule prefix_used_agree [OF assms(10)]) (use m1(4) t assms(4,5,11) in auto)
  then have "filled ?s1 d 0 t 0 0" using assms(4-6,9,11) l0 m1(3) t by (auto simp: filled_def)
  then obtain m' where m': "identity_map 0x100000 (of_nat (4096 * 0)) ?s1 = Inr (?s1\<lparr>mem := m'\<rparr>)"
      "filled (?s1\<lparr>mem := m'\<rparr>) d 0 t 0 ((t + 4096) div 4096)" "only_in ?s1 t m'"
    using identity_map_ok [of ?s1 d t 0 "(t + 4096) div 4096" "(t + 4096) div 4096" "0x100000"] e t(2) assms(5)
    by auto
  have "dir_maps m' d (ts(0 := t))"
    by (rule dir_maps_agree [OF m1(2)]) (use m'(3) t assms(4,5,11) in \<open>auto simp: only_in_def\<close>)
  moreover have "m' x = mem s x" if "d + 8192 \<le> unat x" "\<not> (t \<le> unat x \<and> unat x < t + 4096)" for x
    using that m'(3) m1(4) assms(11) by (auto simp: only_in_def)
  moreover have "prefix_used (frames s) m' ((t + 4096) div 4096)" "table_maps m' t 0 ((t + 4096) div 4096)"
    using m'(2) by (simp_all add: filled_def)
  moreover have "identity_map 0x100000 0 s = Inr (s\<lparr>placement_address := of_nat (t + 4096), mem := m'\<rparr>)"
    using first m'(1) by simp
  ultimately show ?thesis by blast
qed

subsection \<open>The page walk\<close>

text \<open>
  What the MMU does with an address once paging is on: CR3 leads to the directory, the directory
  to a table, the table to a frame.  The structures it reads lie at low physical addresses, which
  the tables map to themselves, so reading them in the kernel's memory is reading physical memory.
\<close>

definition translate :: "memory \<Rightarrow> u32 \<Rightarrow> u32 \<Rightarrow> u32 option" where
  "translate m pdbr va =
     (let pde = load32 m (pdbr + 4 * (va div 0x400000)) in
      if \<not> bit pde 0 then None
      else let pte = load_page m ((pde AND 0xFFFFF000) + 4 * (va div 0x1000 mod 1024)) in
        if p_present pte then Some (ucast (p_frame pte) * 0x1000 + (va AND 0xFFF)) else None)"

lemma table_entry_word:
  assumes "t mod 4096 = 0" "t < 4294967296"
  shows "bit (of_nat t OR 7 :: u32) 0" "((of_nat t OR 7) AND 0xFFFFF000 :: u32) = of_nat t"
proof -
  show "bit (of_nat t OR 7 :: u32) 0" by (simp add: bit_simps)
  have "unat (of_nat t AND 0xFFFFF000 :: u32) = unat (of_nat t :: u32)"
    unfolding unat_page_mask using assms by (simp add: unat_of_nat_u32)
  then have "(of_nat t AND 0xFFFFF000 :: u32) = of_nat t" by (simp add: u32_eq_iff)
  moreover have "((x OR 7) AND 0xFFFFF000 :: u32) = x AND 0xFFFFF000" for x
    by (simp add: bit.conj_disj_distrib2)
  ultimately show "((of_nat t OR 7) AND 0xFFFFF000 :: u32) = of_nat t" by simp
qed

lemma ucast_frame: "g < 1048576 \<Longrightarrow> (ucast (of_nat g :: 20 word) :: u32) = of_nat g"
  by (simp add: u32_eq_iff unsigned_ucast_eq unat_of_nat take_bit_nat_eq_self unat_of_nat_u32)

lemma translate_mapped:
  assumes "dir_maps m d ts" "table_maps m t f n" "ts j = t" "0 < t" "t mod 4096 = 0" "t + 4096 \<le> 4294967296"
    "j < 1024" "k < n" "n \<le> 1024" "o' < 4096" "f + k < 1048576"
  shows "translate m (of_nat (d + 4096)) (of_nat (4194304 * j + 4096 * k + o')) =
    Some (of_nat (4096 * (f + k) + o'))"
proof -
  let ?a = "4194304 * j + 4096 * k + o'"
  have a: "?a < 4294967296" using assms(7-10) by linarith
  have ix: "?a div 4194304 = j" "?a div 4096 mod 1024 = k" "?a mod 4096 = o'"
  proof -
    show "?a div 4194304 = j" using assms(8-10) by (intro div_nat_eqI) auto
    have "?a div 4096 = 1024 * j + k" using assms(10) by (intro div_nat_eqI) auto
    then show "?a div 4096 mod 1024 = k" using assms(8,9) by simp
    have "?a mod 4096 = (o' + (1024 * j + k) * 4096) mod 4096" by (simp add: algebra_simps)
    then show "?a mod 4096 = o'" using assms(10) by (simp only: mod_mult_self1) simp
  qed
  have pde: "load32 m (of_nat (d + 4096) + 4 * of_nat j) = of_nat t OR 7"
    using assms(1,3,4,7) by (auto simp: dir_maps_def ldn_def)
  have "load_page m (of_nat t + 4 * of_nat k) = fresh_page (f + k)"
  proof -
    have "ldn m (t + 4 * k) = word_of_page (fresh_page (f + k))" using assms(2,8,9) by (simp add: table_maps_def)
    then show ?thesis by (simp add: load_page_def ldn_def)
  qed
  moreover have "(of_nat ?a div 0x400000 :: u32) = of_nat j"
    using page_index(1) [OF a] ix(1) by (simp add: u32_eq_iff unat_div div_mult2_eq [symmetric] del: of_nat_add of_nat_mult)
  moreover have "(of_nat ?a div 0x1000 mod 1024 :: u32) = of_nat k" using page_index(2) [OF a] ix(2) by simp
  moreover have "(of_nat ?a AND 0xFFF :: u32) = of_nat o'"
    using a ix(3) by (simp add: u32_eq_iff unat_and_FFF unat_of_nat_u32 assms(10) del: of_nat_add of_nat_mult)
  moreover have "(ucast (of_nat (f + k) :: 20 word) :: u32) = of_nat (f + k)"
    using assms(11) by (rule ucast_frame)
  ultimately show ?thesis
    using table_entry_word [of t] assms(5,6) pde
    by (simp add: translate_def Let_def fresh_page_def del: of_nat_add of_nat_mult) (simp add: algebra_simps)
qed

subsection \<open>The whole of \<open>init_paging\<close>\<close>

text \<open>Everything up to the call of \<open>init_heap\<close>.\<close>

lemma init_paging_maps:
  assumes "kernel_heap s = 0" "placement_address s = of_nat p" "4096 \<le> p" "p \<le> 0x2F8000"
    "length (interrupt_handlers s) = 256"
  defines "d \<equiv> page_up (p + 128)"
  defines "n \<equiv> (d + 0x6000) div 4096"
  shows "\<exists>s'. init_paging s =
      bindr (init_heap (of_nat (d + 0x4000)) (of_nat 0xC0000000) (of_nat 0xC0100000) 0xCFFFF000 0 0 s')
        (\<lambda>(heap, s). Inr (s\<lparr>kernel_heap := heap\<rparr>)) \<and>
    placement_address s' = of_nat (d + 0x6000) \<and> cr3 s' = of_nat (d + 0x1000) \<and> bit (cr0 s') 31 \<and>
    kernel_directory s' = of_nat d \<and> current_directory s' = of_nat d \<and>
    handler_at 14 s' = Inr (Some Page_fault_handler) \<and>
    frames s' = of_nat p \<and> prefix_used (of_nat p) (mem s') (n + 256) \<and>
    dir_maps (mem s') d ((\<lambda>_. 0)(768 := d + 0x3000, 0 := d + 0x5000)) \<and>
    table_maps (mem s') (d + 0x5000) 0 n \<and> filled s' d 768 (d + 0x3000) n 256"
proof -
  have d: "p + 128 < d" "d \<le> p + 128 + 4096" "d mod 4096 = 0"
    using page_up_bounds [of "p + 128"] by (simp_all add: d_def)
  have up: "page_up (d + 8196) = d + 0x3000" "page_up (d + 0x4024) = d + 0x5000"
    using page_up_add [OF d(3)] by (simp_all add: page_up_def)
  have lim: "n + 256 \<le> 1024" using d(2) assms(4) by (simp add: n_def)
  have uf: "unat (of_nat p :: u32) = p" using assms(4) by (simp add: unat_of_nat_u32)
  have sums: "d + 0x3000 + 4096 = d + 0x4000" "d + 0x5000 + 4096 = d + 0x6000" by simp_all
  let ?t1 = "d + 0x3000" and ?t0 = "d + 0x5000"
  obtain m1 where m1: "boot_dir s = Inr (s\<lparr>nframes := 0x1000, frames := of_nat p, kernel_directory := of_nat d,
      placement_address := of_nat (d + 8196), mem := m1\<rparr>)" "prefix_used (of_nat p) m1 0" "dir_maps m1 d (\<lambda>_. 0)"
    using boot_dir_ok [OF assms(1-3)] assms(4) unfolding d_def by auto
  define s1 where "s1 = s\<lparr>nframes := 0x1000, frames := of_nat p, kernel_directory := of_nat d,
      placement_address := of_nat (d + 8196), mem := m1\<rparr>"
  obtain m2 where m2: "map_tables HEAP_PAGES VM_KERN_HEAP_START s1 =
      Inr (s1\<lparr>placement_address := of_nat (d + 0x4000), mem := m2\<rparr>)"
      "dir_maps m2 d ((\<lambda>_. 0)(768 := ?t1))" "table_maps m2 ?t1 n 0"
      "\<forall>x. \<not> (d \<le> unat x \<and> unat x < d + 8192) \<longrightarrow> \<not> (?t1 \<le> unat x \<and> unat x < d + 0x4000) \<longrightarrow> m2 x = m1 x"
  proof -
    have "kernel_heap s1 = 0" "placement_address s1 = of_nat (d + 8196)" "kernel_directory s1 = of_nat d" "mem s1 = m1"
      using assms(1) by (simp_all add: s1_def)
    then show ?thesis
      using map_tables_ok [of s1 "d + 8196" d "\<lambda>_. 0" n] that assms(4) m1(3) d unfolding up(1) sums by auto
  qed
  let ?s2 = "s1\<lparr>placement_address := of_nat (d + 0x4000), mem := m2\<rparr>"
  let ?m3 = "bzero m2 (of_nat (d + 0x4000)) 36"
  define s3 where "s3 = s1\<lparr>placement_address := of_nat (d + 0x4024), mem := ?m3\<rparr>"
  have k3: "kmalloc0 0 36 ?s2 = Inr (of_nat (d + 0x4000), s3)"
    using kmalloc_placement [of ?s2 "d + 0x4000" 36 "alloc 0" False M_ZERO] assms(1,4) d
    by (simp add: kmalloc_variants placed_def zeroed_def s1_def s3_def)
  have m3: "?m3 x = m2 x" if "\<not> (d + 0x4000 \<le> unat x \<and> unat x < d + 0x4024)" for x
    using zeroed_eq [of "d + 0x4000" 36 m2 M_ZERO x] that assms(4) d by (auto simp: zeroed_def M_ZERO_def)
  have dir3: "dir_maps ?m3 d ((\<lambda>_. 0)(768 := ?t1))"
    by (rule dir_maps_agree [OF m2(2)]) (use m3 d assms(4) in auto)
  have tab3: "table_maps ?m3 ?t1 n 0" by (rule table_maps_agree [OF m2(3)]) (use m3 d assms(4) in auto)
  have pre3: "prefix_used (of_nat p) ?m3 0"
    by (rule prefix_used_agree [OF m1(2)]) (use m3 m2(4) d uf assms(4) in auto)
  obtain m4 where m4: "identity_map 0x100000 0 s3 = Inr (s3\<lparr>placement_address := of_nat (d + 0x6000), mem := m4\<rparr>)"
      "dir_maps m4 d ((\<lambda>_. 0)(768 := ?t1, 0 := ?t0))" "table_maps m4 ?t0 0 n" "prefix_used (of_nat p) m4 n"
      "\<forall>x. d + 8192 \<le> unat x \<longrightarrow> \<not> (?t0 \<le> unat x \<and> unat x < d + 0x6000) \<longrightarrow> m4 x = ?m3 x"
  proof -
    have "kernel_heap s3 = 0" "placement_address s3 = of_nat (d + 0x4024)" "kernel_directory s3 = of_nat d"
        "mem s3 = ?m3" "frames s3 = of_nat p" "nframes s3 = 0x1000"
      using assms(1) by (simp_all add: s3_def s1_def)
    then show ?thesis
      using identity_map_whole [of s3 "d + 0x4024" d "(\<lambda>_. 0)(768 := ?t1)"] that assms(4) dir3 pre3 d uf
      unfolding up(2) sums n_def by auto
  qed
  define s4 where "s4 = s3\<lparr>placement_address := of_nat (d + 0x6000), mem := m4\<rparr>"
  have tab4: "table_maps m4 ?t1 n 0" by (rule table_maps_agree [OF tab3]) (use m4(5) d assms(4) in auto)
  have "ldn m4 (d + 4 * 768) = of_nat ?t1" using dir_mapsD [OF m4(2), of 768] by simp
  then have "filled s4 d 768 ?t1 n 0"
    using m4(4) tab4 d uf assms(4) by (auto simp: filled_def s4_def s3_def s1_def)
  then obtain m5 where m5: "map_heap_area 256 (of_nat (4194304 * 768 + 4096 * 0)) s4 = Inr (s4\<lparr>mem := m5\<rparr>)"
      "filled (s4\<lparr>mem := m5\<rparr>) d 768 ?t1 n 256" "only_in s4 ?t1 m5"
    using map_heap_area_ok [of s4 d 768 ?t1 n 0 256] lim by auto
  have fr4: "frames s4 = of_nat p" by (simp add: s4_def s3_def s1_def)
  have dir5: "dir_maps m5 d ((\<lambda>_. 0)(768 := ?t1, 0 := ?t0))"
    by (rule dir_maps_agree [OF m4(2)]) (use m5(3) d uf fr4 assms(4) in \<open>auto simp: only_in_def s4_def\<close>)
  have tab5: "table_maps m5 ?t0 0 n"
    by (rule table_maps_agree [OF m4(3)]) (use m5(3) d uf fr4 assms(4) in \<open>auto simp: only_in_def s4_def\<close>)
  define s5 where "s5 = s4\<lparr>mem := m5\<rparr>"
  define s6 where "s6 = switch_page_directory (of_nat d)
      (s5\<lparr>interrupt_handlers := (interrupt_handlers s5)[14 := Some Page_fault_handler]\<rparr>)"
  have kd: "kernel_directory s5 = of_nat d" "interrupt_handlers s5 = interrupt_handlers s"
    by (simp_all add: s5_def s4_def s3_def s1_def)
  have "init_paging s = bindr (init_heap (of_nat (d + 0x4000)) (of_nat 0xC0000000) (of_nat 0xC0100000) 0xCFFFF000 0 0 s6)
        (\<lambda>(heap, s). Inr (s\<lparr>kernel_heap := heap\<rparr>))"
    using m5(1) unfolding init_paging_stages m1(1) s1_def [symmetric] bindr_Inr m2(1) k3 prod.case m4(1)
      s4_def [symmetric]
    by (simp add: VM_KERN_HEAP_START_def VM_KERN_HEAP_INITIAL_SIZE_def HEAP_PAGES_def register_interrupt_handler_def
        kd s6_def Let_def flip: s5_def)
  moreover have "filled s6 d 768 ?t1 n 256"
    using m5(2) by (rule filled_agree) (simp_all add: s6_def switch_page_directory_def s5_def)
  moreover have "prefix_used (of_nat p) m5 (n + 256)" using m5(2) fr4 by (simp add: filled_def)
  moreover have "mem s6 = m5" "placement_address s6 = of_nat (d + 0x6000)" "cr3 s6 = of_nat (d + 0x1000)"
      "kernel_directory s6 = of_nat d" "current_directory s6 = of_nat d" "frames s6 = of_nat p" "bit (cr0 s6) 31"
    by (simp_all add: s6_def switch_page_directory_def s5_def s4_def s3_def s1_def bit_or_iff)
  moreover have "handler_at 14 s6 = Inr (Some Page_fault_handler)"
    using kd assms(5) by (simp add: s6_def switch_page_directory_def handler_at_def)
  ultimately show ?thesis using dir5 tab5 by (intro exI [of _ s6]) simp
qed

lemma page_decomp: obtains k o' where "a = 4096 * k + o'" "o' < (4096 :: nat)"
  using that [of "a div 4096" "a mod 4096"] by simp

lemma translate_low:
  assumes "dir_maps m d ts" "table_maps m t 0 n" "ts 0 = t" "0 < t" "t mod 4096 = 0" "t + 4096 \<le> 4294967296"
    "n \<le> 1024" "unat a < 4096 * n"
  shows "translate m (of_nat (d + 4096)) a = Some a"
proof -
  obtain k o' where a: "unat a = 4096 * k + o'" "o' < 4096" by (rule page_decomp)
  then have "translate m (of_nat (d + 4096)) (of_nat (4194304 * 0 + 4096 * k + o')) = Some (of_nat (4096 * (0 + k) + o'))"
    using assms by (intro translate_mapped [OF assms(1,2)]) auto
  then show ?thesis using a(1) by (metis add_0 mult_0_right of_nat_unat_u32)
qed

lemma translate_area:
  assumes "dir_maps m d ts" "table_maps m t f n" "ts j = t" "0 < t" "t mod 4096 = 0" "t + 4096 \<le> 4294967296"
    "j < 1024" "n \<le> 1024" "f + n \<le> 1048576" "i < 4096 * n"
  shows "translate m (of_nat (d + 4096)) (of_nat (4194304 * j + i)) = Some (of_nat (4096 * f + i))"
proof -
  obtain k o' where i: "i = 4096 * k + o'" "o' < 4096" by (rule page_decomp)
  have "translate m (of_nat (d + 4096)) (of_nat (4194304 * j + 4096 * k + o')) = Some (of_nat (4096 * (f + k) + o'))"
    using i assms by (intro translate_mapped [OF assms(1,2)]) auto
  then show ?thesis by (simp only: i(1) distrib_left add.assoc)
qed

lemma memory_below_agree:
  assumes "\<forall>x. unat x < 0xC0000000 \<longrightarrow> m' x = m x" "d < 0x400000"
  shows "dir_maps m d ts \<Longrightarrow> dir_maps m' d ts" "table_maps m (d + 0x5000) f n \<Longrightarrow> table_maps m' (d + 0x5000) f n"
    "table_maps m (d + 0x3000) f n \<Longrightarrow> table_maps m' (d + 0x3000) f n"
  using assms by (auto intro: dir_maps_agree table_maps_agree)

text \<open>The state that \<open>init_paging\<close> leaves: the directory is at \<open>d\<close>, \<open>n\<close> pages are identity-mapped.\<close>

lemma boot_ok:
  assumes "kernel_heap s = 0" "4096 \<le> unat (placement_address s)" "unat (placement_address s) \<le> 0x2F8000"
    "length (interrupt_handlers s) = 256"
  shows "\<exists>d n s'. init_paging s = Inr s' \<and> bit (cr0 s') 31 \<and> handler_at 14 s' = Inr (Some Page_fault_handler) \<and>
    placement_address s' = of_nat (d + 0x6000) \<and> cr3 s' = of_nat (d + 4096) \<and> kernel_heap s' = of_nat (d + 0x4000) \<and>
    unat (placement_address s) + 128 < d \<and> d \<le> unat (placement_address s) + 4224 \<and> d < 0x400000 \<and> d mod 4096 = 0 \<and> 4096 * n = d + 0x6000 \<and> n + 256 \<le> 1024 \<and>
    dir_maps (mem s') d ((\<lambda>_. 0)(768 := d + 0x3000, 0 := d + 0x5000)) \<and> table_maps (mem s') (d + 0x5000) 0 n \<and>
    paged (vm_heaps s' (kernel_heap s')) s' d 768 (d + 0x3000) n 256 \<and>
    heap_inv (vm_heaps s' (kernel_heap s')) (mem s') [(0x7F000, True)] \<and>
    h_addr_max (vm_heaps s' (kernel_heap s')) = 0xCFFFF000 \<and>
    sa_maxsize (h_index (vm_heaps s' (kernel_heap s'))) = VM_HEAP_INDEX_SIZE"
proof -
  define p where "p = unat (placement_address s)"
  define d where "d = page_up (p + 128)"
  define n where "n = (d + 0x6000) div 4096"
  have d: "p + 128 < d" "d \<le> p + 128 + 4096" "d mod 4096 = 0"
    using page_up_bounds [of "p + 128"] by (simp_all add: d_def)
  have n: "4096 * n = d + 0x6000" "n + 256 \<le> 1024" "d < 0x400000"
    using d assms(3) by (auto simp: n_def p_def elim!: dvdE simp flip: mod_eq_0_iff_dvd)
  obtain s4 where s4: "init_paging s =
      bindr (init_heap (of_nat (d + 0x4000)) (of_nat 0xC0000000) (of_nat 0xC0100000) 0xCFFFF000 0 0 s4)
        (\<lambda>(heap, s). Inr (s\<lparr>kernel_heap := heap\<rparr>))"
      "placement_address s4 = of_nat (d + 0x6000)" "cr3 s4 = of_nat (d + 4096)" "bit (cr0 s4) 31"
      "handler_at 14 s4 = Inr (Some Page_fault_handler)"
      "dir_maps (mem s4) d ((\<lambda>_. 0)(768 := d + 0x3000, 0 := d + 0x5000))"
      "table_maps (mem s4) (d + 0x5000) 0 n" "filled s4 d 768 (d + 0x3000) n 256"
    using init_paging_maps [OF assms(1) _ assms(2,3,4)] unfolding d_def [symmetric] n_def [symmetric] p_def [symmetric]
    by (auto simp: p_def)
  obtain h m' where h: "init_heap (of_nat (d + 0x4000)) (of_nat 0xC0000000) (of_nat 0xC0100000) 0xCFFFF000 0 0 s4 =
      Inr (of_nat (d + 0x4000), upd_heap (of_nat (d + 0x4000)) (\<lambda>_. h) (s4\<lparr>mem := m'\<rparr>))"
      "heap_inv h m' [(0x7F000, True)]" "h_addr_start h = of_nat 0xC0081000" "h_addr_end h = of_nat 0xC0100000"
      "h_addr_max h = 0xCFFFF000" "sa_array (h_index h) = of_nat 0xC0000000" "sa_maxsize (h_index h) = VM_HEAP_INDEX_SIZE"
      "h_su h = 0" "h_ro h = 0" "\<forall>x. unat x < 0xC0000000 \<longrightarrow> m' x = mem s4 x"
    using init_heap_ok [of "0xC0000000" "0xC0100000" "of_nat (d + 0x4000)" "0xCFFFF000" 0 0 s4]
    by (auto simp: page_up_def)
  define s' where "s' = (upd_heap (of_nat (d + 0x4000)) (\<lambda>_. h) (s4\<lparr>mem := m'\<rparr>))\<lparr>kernel_heap := of_nat (d + 0x4000)\<rparr>"
  have F: "mem s' = m'" "cr3 s' = of_nat (d + 4096)" "cr0 s' = cr0 s4" "placement_address s' = of_nat (d + 0x6000)"
      "kernel_heap s' = of_nat (d + 0x4000)" "vm_heaps s' (kernel_heap s') = h" "handler_at 14 s' = handler_at 14 s4"
      "init_paging s = Inr s'" "kernel_directory s' = kernel_directory s4" "nframes s' = nframes s4" "frames s' = frames s4"
    using s4(1,2,3) h(1) by (simp_all add: s'_def upd_heap_def handler_at_def)
  have "filled s' d 768 (d + 0x3000) n 256"
    by (rule filled_agree [OF s4(8)]) (use F h(10) n(3) in auto)
  then have "paged h s' d 768 (d + 0x3000) n 256" using h n(3) by (simp add: paged_def)
  then show ?thesis
    using F h(2,5,7) s4(4,5) d n p_def memory_below_agree [OF h(10) n(3)] s4(6,7)
    by (intro exI [of _ d] exI [of _ n] exI [of _ s']) simp
qed

text \<open>
  Property C1.  From a boot state whose kernel image ends below \<open>0x2F8000\<close>, \<open>init_paging\<close> succeeds and turns
  paging on with the page-fault handler installed; the page walk then maps every address below the
  new placement address to itself and the 1 MiB heap area to consecutive physical memory directly
  above it (so no two pages share a frame), and the kernel heap satisfies the heap invariant with
  one hole that fills it.
\<close>

theorem init_paging_correct:
  assumes "kernel_heap s = 0" "4096 \<le> unat (placement_address s)" "unat (placement_address s) \<le> 0x2F8000"
    "length (interrupt_handlers s) = 256"
  shows "\<exists>s'. init_paging s = Inr s' \<and> bit (cr0 s') 31 \<and>
    handler_at 14 s' = Inr (Some Page_fault_handler) \<and>
    placement_address s < placement_address s' \<and>
    (\<forall>a. a < placement_address s' \<longrightarrow> translate (mem s') (cr3 s') a = Some a) \<and>
    (\<forall>i < 0x100000. translate (mem s') (cr3 s') (VM_KERN_HEAP_START + of_nat i) =
       Some (placement_address s' + of_nat i)) \<and>
    kernel_heap s' \<noteq> 0 \<and> heap_inv (vm_heaps s' (kernel_heap s')) (mem s') [(0x7F000, True)]"
proof -
  obtain d n s' where B: "init_paging s = Inr s'" "bit (cr0 s') 31" "handler_at 14 s' = Inr (Some Page_fault_handler)"
      "placement_address s' = of_nat (d + 0x6000)" "cr3 s' = of_nat (d + 4096)" "kernel_heap s' = of_nat (d + 0x4000)"
      "heap_inv (vm_heaps s' (kernel_heap s')) (mem s') [(0x7F000, True)]"
    and d: "unat (placement_address s) + 128 < d" "d < 0x400000" "d mod 4096 = 0" "4096 * n = d + 0x6000" "n + 256 \<le> 1024"
    and M: "dir_maps (mem s') d ((\<lambda>_. 0)(768 := d + 0x3000, 0 := d + 0x5000))" "table_maps (mem s') (d + 0x5000) 0 n"
      "paged (vm_heaps s' (kernel_heap s')) s' d 768 (d + 0x3000) n 256"
    using boot_ok [OF assms] by (elim exE conjE) (rule that, assumption+)
  have t1: "table_maps (mem s') (d + 0x3000) n 256" using M(3) by (simp add: paged_def filled_def)
  have "translate (mem s') (of_nat (d + 4096)) a = Some a" if "a < of_nat (d + 0x6000)" for a
  proof (rule translate_low [OF M(1,2)])
    show "unat a < 4096 * n"
      using that d(2,4) unat_of_nat_u32 [of "d + 0x6000"] by (simp add: u32_less_iff del: of_nat_add)
  qed (use d in auto)
  moreover have "translate (mem s') (of_nat (d + 4096)) (VM_KERN_HEAP_START + of_nat i) = Some (of_nat (d + 0x6000) + of_nat i)"
    if "i < 0x100000" for i
  proof -
    have "translate (mem s') (of_nat (d + 4096)) (of_nat (4194304 * 768 + i)) = Some (of_nat (4096 * n + i))"
      using that d by (intro translate_area [OF M(1) t1]) auto
    then show ?thesis by (simp add: VM_KERN_HEAP_START_def d(4))
  qed
  moreover have "placement_address s < of_nat (d + 0x6000)" "(of_nat (d + 0x4000) :: u32) \<noteq> 0"
    using d(1,2) unat_of_nat_u32 [of "d + 0x6000"] unat_of_nat_u32 [of "d + 0x4000"]
    by (simp_all add: u32_less_iff u32_eq_iff del: of_nat_add)
  ultimately show ?thesis using B by (intro exI [of _ s']) simp
qed

theorem init_paging_correct_witness:
  "\<exists>s'. init_paging (boot_state 0x102030) = Inr s' \<and> translate (mem s') (cr3 s') 0xB8000 = Some 0xB8000"
proof -
  obtain s' where s': "init_paging (boot_state 0x102030) = Inr s'" "placement_address (boot_state 0x102030) < placement_address s'"
      "\<forall>a. a < placement_address s' \<longrightarrow> translate (mem s') (cr3 s') a = Some a"
    using init_paging_correct [of "boot_state 0x102030"] by (auto simp: boot_state_def)
  moreover have "0xB8000 < placement_address s'" using s'(2) by (simp add: boot_state_def u32_less_iff)
  ultimately show ?thesis by blast
qed

end
