(* ===== verification/Kernel_Heap.thy ===== *)
theory Kernel_Heap
  imports Boot
begin

section \<open>The kernel heap after boot\<close>

text \<open>
  The paths of \<open>alloc\<close> that need paging: a request that no hole can serve makes \<open>expand\<close> map new
  pages at the end of the heap.  The heap that \<open>init_paging\<close> sets up satisfies what these paths rely on.
\<close>

lemma page_up_small:
  assumes "page_up x < 4294967296"
  shows "x < 4294963200"
proof (rule ccontr)
  assume "\<not> x < 4294963200"
  then have "4294963200 div 4096 \<le> x div 4096" by (intro div_le_mono) simp
  then show False using assms by (simp add: page_up_def)
qed

text \<open>
  Property C4.  When no hole fits an unaligned request, \<open>alloc\<close> grows the heap and succeeds, provided the last block is
  a hole or the heap has no hole at all, and the page table, the frames and the limit of the heap
  have room and the new length is at least a page: the block goes to the end of the old blocks, which keep their place and contents, the
  rest of the new pages is a hole, and every page up to the new end of the heap is mapped.  The pages of a heap
  that is not read-only are mapped without the bit for writing, since \<open>expand\<close> passes \<open>h_ro\<close> on as \<open>is_writeable\<close>.
\<close>

theorem alloc_grows_heap:
  assumes "heap_inv (vm_heaps s heap) (mem s) (pre @ last_hole k)" "paged (vm_heaps s heap) s d j t f n"
    "\<forall>i. (i, True) \<in> set (pre @ last_hole k) \<longrightarrow> i < unat sz + 20" "k = 0 \<longrightarrow> (\<forall>b \<in> set pre. \<not> snd b)"
    "0 < sa_maxsize (h_index (vm_heaps s heap))"
    "4096 \<le> extent pre + k + (unat sz + 20)" "g = page_up (extent pre + k + (unat sz + 20)) - (extent pre + k)"
    "hend (vm_heaps s heap) + g \<le> unat (h_addr_max (vm_heaps s heap))" "n + g div 4096 \<le> 1024" "f + n + g div 4096 \<le> 1024"
  shows "\<exists>s'. alloc (Suc (Suc q)) sz False heap s = Inr (of_nat (hstart (vm_heaps s heap) + extent pre + 12), s') \<and>
    heap_inv (vm_heaps s' heap) (mem s')
      (pre @ (if k + g - (unat sz + 20) < 20 then [(k + g, False)]
              else [(unat sz + 20, False), (k + g - (unat sz + 20), True)])) \<and>
    paged (vm_heaps s' heap) s' d j t f (n + g div 4096) \<and> hend (vm_heaps s' heap) = hend (vm_heaps s heap) + g \<and>
    (\<forall>y. hstart (vm_heaps s heap) \<le> unat y \<longrightarrow> unat y < hstart (vm_heaps s heap) + extent pre \<longrightarrow> mem s' y = mem s y)"
proof -
  let ?h = "vm_heaps s heap"
  have g: "grown (extent pre + k) (unat sz + 20) = g" by (simp add: grown_def assms(7))
  have none: "k = 0 \<Longrightarrow> holes (hstart ?h) pre = {}"
  proof -
    have "\<forall>b \<in> set bs. \<not> snd b \<Longrightarrow> holes a bs = {}" for a bs by (induction bs arbitrary: a) auto
    then show "k = 0 \<Longrightarrow> holes (hstart ?h) pre = {}" using assms(4) by blast
  qed
  have "hstart ?h + (extent pre + k) = hend ?h"
    using assms(1) by (simp add: heap_inv_def heap_ok_def last_hole_def split: if_splits)
  moreover have "extent pre + k + g = page_up (extent pre + k + (unat sz + 20))"
    using page_up_bounds(1) [of "extent pre + k + (unat sz + 20)"] assms(7) by simp
  ultimately have up: "page_up (extent pre + k + (unat sz + 20)) < 4294967296"
    using assms(8) unat_u32_le [of "h_addr_max ?h"] by linarith
  note lt = page_up_small [OF up]
  obtain h' m' where A: "alloc (Suc (Suc q)) sz False heap s =
        Inr (of_nat (hstart ?h + extent pre + 12), upd_heap heap (\<lambda>_. h') (s\<lparr>mem := m'\<rparr>))"
      "heap_inv h' m' (pre @ carve (unat sz + 20) (k + g))" "paged h' (s\<lparr>mem := m'\<rparr>) d j t f (n + g div 4096)"
      "hend h' = hend ?h + g" "\<forall>y. hstart ?h \<le> unat y \<longrightarrow> unat y < hstart ?h + extent pre \<longrightarrow> m' y = mem s y"
    using alloc_grow_ok [OF assms(1,2,6) lt assms(3) none assms(5), of q] assms(8,9,10) unfolding g by blast
  let ?s' = "upd_heap heap (\<lambda>_. h') (s\<lparr>mem := m'\<rparr>)"
  have v: "vm_heaps ?s' heap = h'" "mem ?s' = m'" by (simp_all add: upd_heap_def)
  have "paged h' ?s' d j t f (n + g div 4096)"
    using A(3) by (rule paged_agree) (simp_all add: same_region_def upd_heap_def)
  with A v show ?thesis by (intro exI [of _ ?s']) (simp add: carve_def del: alloc.simps)
qed

text \<open>The kernel of the multiboot image, then a request for 1 MiB, twice what the heap holds.\<close>

theorem alloc_grows_heap_witness:
  "\<exists>s s'. init_paging (boot_state 0x102030) = Inr s \<and>
    alloc (Suc (Suc 0)) 0x100000 False (kernel_heap s) s = Inr (0xC008100C, s') \<and>
    heap_inv (vm_heaps s' (kernel_heap s)) (mem s') [(0x100014, False), (0x7FFEC, True)] \<and>
    hend (vm_heaps s' (kernel_heap s)) = 0xC0201000"
proof -
  have "kernel_heap (boot_state 0x102030) = 0" "4096 \<le> unat (placement_address (boot_state 0x102030))"
      "unat (placement_address (boot_state 0x102030)) \<le> 0x2F8000" "length (interrupt_handlers (boot_state 0x102030)) = 256"
    by (simp_all add: boot_state_def)
  from boot_ok [OF this] obtain d n s where s: "init_paging (boot_state 0x102030) = Inr s" "d \<le> 0x1030B0" "4096 * n = d + 0x6000"
      "paged (vm_heaps s (kernel_heap s)) s d 768 (d + 0x3000) n 256"
      "heap_inv (vm_heaps s (kernel_heap s)) (mem s) ([] @ last_hole 0x7F000)"
      "h_addr_max (vm_heaps s (kernel_heap s)) = 0xCFFFF000"
      "sa_maxsize (h_index (vm_heaps s (kernel_heap s))) = VM_HEAP_INDEX_SIZE"
    by (auto simp: last_hole_def boot_state_def)
  have e: "hend (vm_heaps s (kernel_heap s)) = 0xC0100000" using s(4) by (simp add: paged_def)
  moreover from this have "hstart (vm_heaps s (kernel_heap s)) = 0xC0081000"
    using s(5) by (simp add: heap_inv_def heap_ok_def last_hole_def)
  moreover from this have "h_addr_start (vm_heaps s (kernel_heap s)) = 0xC0081000" by (simp add: u32_eq_iff)
  moreover have "n \<le> 265" using s(2,3) by linarith
  ultimately obtain s' where "alloc (Suc (Suc 0)) 0x100000 False (kernel_heap s) s = Inr (0xC008100C, s')"
      "heap_inv (vm_heaps s' (kernel_heap s)) (mem s') [(0x100014, False), (0x7FFEC, True)]"
      "hend (vm_heaps s' (kernel_heap s)) = 0xC0201000"
    using alloc_grows_heap [OF s(5,4), of "0x100000" "0x101000" 0] s(6,7)
    by (auto simp: last_hole_def page_up_def VM_HEAP_INDEX_SIZE_def simp del: alloc.simps)
  with s(1) show ?thesis by blast
qed

subsection \<open>Runs of allocations\<close>

text \<open>
  A heap from which nothing has been freed: its blocks in use lie before its only hole.  An unaligned request is placed
  behind the blocks in use, if necessary after growing the heap, and leaves a heap of the same kind.
\<close>

lemma last_carve: "need \<le> hole \<Longrightarrow> \<exists>b k. carve need hole = (b, False) # last_hole k \<and> need \<le> b"
proof (cases "hole - need < 20")
  case True
  assume "need \<le> hole"
  with True show ?thesis by (intro exI [of _ hole] exI [of _ 0]) (simp add: carve_def last_hole_def)
next
  case False
  then show ?thesis by (intro exI [of _ need] exI [of _ "hole - need"]) (simp add: carve_def last_hole_def)
qed

lemma only_hole:
  assumes "us @ last_hole k = pre @ (hole, True) # post" "\<forall>b \<in> set us. \<not> snd b"
  shows "pre = us" "hole = k" "post = []"
proof -
  have "(hole, True) \<notin> set us" using assms(2) by fastforce
  moreover have "(hole, True) \<in> set us" if "k = 0" using assms(1) that by (simp add: last_hole_def)
  ultimately have k: "k \<noteq> 0" by blast
  have "post = []"
  proof (rule ccontr)
    assume "post \<noteq> []"
    then have "(hole, True) \<in> set us" using assms(1) k by (cases post rule: rev_cases) (auto simp: last_hole_def)
    with assms(2) show False by fastforce
  qed
  then show "pre = us" "hole = k" "post = []" using assms(1) k by (auto simp: last_hole_def)
qed

lemma alloc_stacks:
  fixes heap sz :: u32 and s :: "'a vm_state_scheme"
  defines "h \<equiv> vm_heaps s heap" and "G \<equiv> page_up (unat sz + 20)"
  assumes inv: "heap_inv h (mem s) (us @ last_hole k)" and used: "\<forall>b \<in> set us. \<not> snd b" and P: "paged h s d j t f n"
    and room: "0 < sa_maxsize (h_index h)" and big: "4096 \<le> extent us + k"
    and top: "hend h + G \<le> unat (h_addr_max h)" and fr: "n + G div 4096 \<le> 1024" "f + n + G div 4096 \<le> 1024"
  shows "\<exists>s' b k' g. alloc (Suc (Suc q)) sz False heap s = Inr (of_nat (hstart h + extent us + 12), s') \<and> unat sz + 20 \<le> b \<and>
    heap_inv (vm_heaps s' heap) (mem s') (us @ (b, False) # last_hole k') \<and> paged (vm_heaps s' heap) s' d j t f (n + g div 4096) \<and>
    (g = 0 \<or> g = G) \<and> hstart (vm_heaps s' heap) = hstart h \<and> hend (vm_heaps s' heap) = hend h + g \<and>
    h_addr_max (vm_heaps s' heap) = h_addr_max h \<and> sa_maxsize (h_index (vm_heaps s' heap)) = sa_maxsize (h_index h) \<and>
    (\<forall>y. hstart h \<le> unat y \<longrightarrow> unat y < hstart h + extent us \<longrightarrow> mem s' y = mem s y)"
proof -
  have le: "hstart h + (extent us + k) = hend h" using inv by (simp add: heap_inv_def heap_ok_def last_hole_def split: if_splits)
  have g: "grown (extent us + k) (unat sz + 20) = G"
    using page_up_add [OF paged_length [OF P le]] by (simp add: grown_def G_def)
  have lt: "extent us + k + G < 4294967296" using le top unat_u32_le [of "h_addr_max h"] by linarith
  have "unat sz + 20 < G" unfolding G_def by (rule page_up_bounds(1))
  show ?thesis
  proof (cases "unat sz + 20 \<le> k")
    case True
    have "heap_inv (vm_heaps s heap) (mem s) (us @ last_hole k)" "unat sz + 20 < 4294967296" "(k, True) \<in> set (us @ last_hole k)"
      using inv lt True by (auto simp: h_def last_hole_def)
    from alloc_ok [OF this True, of "Suc q"] obtain pre hole post h' m' where A: "us @ last_hole k = pre @ (hole, True) # post"
        "alloc (Suc (Suc q)) sz False heap s = Inr (of_nat (hstart h + extent pre + 12), upd_heap heap (\<lambda>_. h') (s\<lparr>mem := m'\<rparr>))"
        "heap_inv h' m' (pre @ carve (unat sz + 20) hole @ post)" "same_region h h'"
        "\<forall>y. \<not> in_index h y \<longrightarrow> \<not> (hstart h + extent pre \<le> unat y \<and> unat y < hstart h + extent pre + hole) \<longrightarrow> m' y = mem s y"
      unfolding h_def by blast
    note eq = only_hole [OF A(1) used]
    obtain b k' where c: "carve (unat sz + 20) k = (b, False) # last_hole k'" "unat sz + 20 \<le> b" using last_carve [OF True] by blast
    let ?s' = "upd_heap heap (\<lambda>_. h') (s\<lparr>mem := m'\<rparr>)"
    have v: "vm_heaps ?s' heap = h'" "mem ?s' = m'" by (simp_all add: upd_heap_def)
    have "t + 4096 \<le> unat (sa_array (h_index h))" "unat (sa_array (h_index h)) \<le> hstart h"
      using P inv by (simp_all add: paged_def heap_inv_def index_ok_def)
    then have "paged h' ?s' d j t f n"
      by (intro paged_agree [OF P A(4)]) (use A(5) below_index [OF inv] in \<open>simp_all add: upd_heap_def\<close>)
    moreover have "\<forall>y. hstart h \<le> unat y \<longrightarrow> unat y < hstart h + extent us \<longrightarrow> m' y = mem s y"
      using A(5) not_in_index [OF inv] eq by simp
    ultimately show ?thesis using A(2-4) c unfolding eq
      by (intro exI [of _ ?s'] exI [of _ b] exI [of _ k'] exI [of _ 0]) (simp add: v same_region_def del: alloc.simps)
  next
    case False
    have small: "\<forall>i. (i, True) \<in> set (us @ last_hole k) \<longrightarrow> i < unat sz + 20"
      using used False by (auto simp: last_hole_def split: if_splits)
    have none: "holes (hstart h) us = {}"
    proof -
      have "\<forall>b \<in> set bs. \<not> snd b \<Longrightarrow> holes a bs = {}" for a bs by (induction bs arbitrary: a) auto
      then show ?thesis using used by blast
    qed
    have "unat sz + 20 + (extent us + k) < 4294963200"
    proof -
      have "page_up (extent us + k + (unat sz + 20)) < 4294967296"
        using lt page_up_add [OF paged_length [OF P le], of "unat sz + 20"] by (simp add: G_def)
      then show ?thesis using page_up_small by (simp add: add.commute)
    qed
    then obtain h' m' where A: "alloc (Suc (Suc q)) sz False heap s =
          Inr (of_nat (hstart h + extent us + 12), upd_heap heap (\<lambda>_. h') (s\<lparr>mem := m'\<rparr>))"
        "heap_inv h' m' (us @ carve (unat sz + 20) (k + G))" "paged h' (s\<lparr>mem := m'\<rparr>) d j t f (n + G div 4096)"
        "hstart h' = hstart h" "hend h' = hend h + G" "h_addr_max h' = h_addr_max h" "sa_maxsize (h_index h') = sa_maxsize (h_index h)"
        "\<forall>y. hstart h \<le> unat y \<longrightarrow> unat y < hstart h + extent us \<longrightarrow> m' y = mem s y"
      using alloc_grow_ok [OF inv [unfolded h_def] P [unfolded h_def] _ _ small none [unfolded h_def] room [unfolded h_def], of q, folded h_def,
          unfolded g] big top fr by (auto simp: add.commute)
    obtain b k' where c: "carve (unat sz + 20) (k + G) = (b, False) # last_hole k'" "unat sz + 20 \<le> b"
      using last_carve [of "unat sz + 20" "k + G"] \<open>unat sz + 20 < G\<close> by auto
    let ?s' = "upd_heap heap (\<lambda>_. h') (s\<lparr>mem := m'\<rparr>)"
    have v: "vm_heaps ?s' heap = h'" "mem ?s' = m'" by (simp_all add: upd_heap_def)
    have "paged h' ?s' d j t f (n + G div 4096)" using A(3) by (rule paged_agree) (simp_all add: same_region_def upd_heap_def)
    then show ?thesis using A c
      by (intro exI [of _ ?s'] exI [of _ b] exI [of _ k'] exI [of _ G]) (simp add: v del: alloc.simps)
  qed
qed

text \<open>The bytes by which a run of requests can make the heap grow.\<close>

definition growth :: "u32 list \<Rightarrow> nat" where
  "growth szs = (\<Sum>sz \<leftarrow> szs. page_up (unat sz + 20))"

lemma growth_simps [simp]: "growth [] = 0" "growth (sz # szs) = page_up (unat sz + 20) + growth szs"
  by (simp_all add: growth_def)

lemma growth_div: "(page_up x + m) div 4096 = page_up x div 4096 + m div 4096"
  using page_up_bounds(3) [of x] by (simp add: div_plus_div_distrib_dvd_left mod_eq_0_iff_dvd)

text \<open>
  Property C6.  On a heap whose blocks in use lie before its only hole - as after the start, while nothing is freed -
  every run of unaligned requests is served, with the heap growing wherever its hole is too small, as long as the limit
  of the heap, its page table and the frames have room for the growth.  The payloads come one after the other,
  behind the blocks that were in use before, so that none overlaps another; the old blocks keep their contents
  and the heap its invariant.
\<close>

theorem allocations_apart:
  assumes "heap_inv (vm_heaps s heap) (mem s) (us @ last_hole k)" "\<forall>b \<in> set us. \<not> snd b" "paged (vm_heaps s heap) s d j t f n"
    "0 < sa_maxsize (h_index (vm_heaps s heap))" "4096 \<le> extent us + k"
    "hend (vm_heaps s heap) + growth szs \<le> unat (h_addr_max (vm_heaps s heap))"
    "n + growth szs div 4096 \<le> 1024" "f + n + growth szs div 4096 \<le> 1024"
  shows "\<exists>rs s' bs k'. alloc_run (Suc (Suc q)) heap szs s = Inr (rs, s') \<and> map snd rs = map unat szs \<and>
    hstart (vm_heaps s' heap) = hstart (vm_heaps s heap) \<and> sorted_wrt (\<lambda>r r'. fst r + snd r \<le> fst r') rs \<and>
    (\<forall>r \<in> set rs. hstart (vm_heaps s heap) + extent us \<le> fst r \<and> fst r + snd r \<le> hend (vm_heaps s' heap)) \<and>
    heap_inv (vm_heaps s' heap) (mem s') (us @ bs @ last_hole k') \<and> (\<forall>b \<in> set bs. \<not> snd b) \<and>
    (\<forall>y. hstart (vm_heaps s heap) \<le> unat y \<longrightarrow> unat y < hstart (vm_heaps s heap) + extent us \<longrightarrow> mem s' y = mem s y)"
  using assms
proof (induction szs arbitrary: s us k n)
  case Nil
  then show ?case by (intro exI [of _ "[]"] exI [of _ s] exI [of _ k]) simp
next
  case (Cons sz szs)
  let ?h = "vm_heaps s heap" and ?G = "page_up (unat sz + 20)"
  have b: "hend ?h + ?G \<le> unat (h_addr_max ?h)" "n + ?G div 4096 \<le> 1024" "f + n + ?G div 4096 \<le> 1024"
    using Cons.prems(6-8) by (simp_all add: growth_div)
  obtain s1 b1 k1 g where A: "alloc (Suc (Suc q)) sz False heap s = Inr (of_nat (hstart ?h + extent us + 12), s1)" "unat sz + 20 \<le> b1"
      "heap_inv (vm_heaps s1 heap) (mem s1) ((us @ [(b1, False)]) @ last_hole k1)" "paged (vm_heaps s1 heap) s1 d j t f (n + g div 4096)"
      "g = 0 \<or> g = ?G" "hstart (vm_heaps s1 heap) = hstart ?h" "hend (vm_heaps s1 heap) = hend ?h + g"
      "h_addr_max (vm_heaps s1 heap) = h_addr_max ?h" "sa_maxsize (h_index (vm_heaps s1 heap)) = sa_maxsize (h_index ?h)"
      "\<forall>y. hstart ?h \<le> unat y \<longrightarrow> unat y < hstart ?h + extent us \<longrightarrow> mem s1 y = mem s y"
    using alloc_stacks [OF Cons.prems(1-5) b, of q] by auto
  let ?h1 = "vm_heaps s1 heap"
  have ends: "hstart ?h + (extent us + k) = hend ?h" "hstart ?h + (extent us + b1 + k1) = hend ?h1"
    using Cons.prems(1) A(3,6) by (simp_all add: heap_inv_def heap_ok_def last_hole_def split: if_splits)
  have IH: "\<forall>b \<in> set (us @ [(b1, False)]). \<not> snd b" "0 < sa_maxsize (h_index ?h1)" "4096 \<le> extent (us @ [(b1, False)]) + k1"
      "hend ?h1 + growth szs \<le> unat (h_addr_max ?h1)" "n + g div 4096 + growth szs div 4096 \<le> 1024"
      "f + (n + g div 4096) + growth szs div 4096 \<le> 1024"
    using Cons.prems(2,4-8) A(5,7-9) ends by (auto simp: growth_div)
  obtain rs s2 bs k2 where R: "alloc_run (Suc (Suc q)) heap szs s1 = Inr (rs, s2)" "map snd rs = map unat szs"
      "sorted_wrt (\<lambda>r r'. fst r + snd r \<le> fst r') rs"
      "\<forall>r \<in> set rs. hstart ?h1 + extent (us @ [(b1, False)]) \<le> fst r \<and> fst r + snd r \<le> hend (vm_heaps s2 heap)"
      "heap_inv (vm_heaps s2 heap) (mem s2) ((us @ [(b1, False)]) @ bs @ last_hole k2)" "\<forall>b \<in> set bs. \<not> snd b" "hstart (vm_heaps s2 heap) = hstart ?h1"
      "\<forall>y. hstart ?h1 \<le> unat y \<longrightarrow> unat y < hstart ?h1 + extent (us @ [(b1, False)]) \<longrightarrow> mem s2 y = mem s1 y"
    using Cons.IH [OF A(3) IH(1) A(4) IH(2-6)] by blast
  have "(hstart ?h1 + extent us, b1, False) \<in> set (addrs (hstart ?h1) ((us @ [(b1, False)]) @ last_hole k1))" by (simp add: addrs_append)
  from heap_inv_block(3,4) [OF A(3) this] have top: "hstart ?h + extent us + b1 \<le> hend ?h1" "hstart ?h + extent us + b1 \<le> 4294967295"
    unfolding A(6) by simp_all
  then have p: "unat (of_nat (hstart ?h + extent us + 12) :: u32) = hstart ?h + extent us + 12"
    using A(2) by (intro unat_of_nat_u32) simp
  have e: "hstart ?h + (extent us + b1) \<le> hend (vm_heaps s2 heap)"
    using R(5,7) A(6) by (auto simp: heap_inv_def heap_ok_def)
  let ?r = "(hstart ?h + extent us + 12, unat sz)"
  have "alloc_run (Suc (Suc q)) heap (sz # szs) s = Inr (?r # rs, s2)" using A(1) R(1) p by (simp del: alloc.simps of_nat_add)
  moreover have "sorted_wrt (\<lambda>r r'. fst r + snd r \<le> fst r') (?r # rs)" using R(3,4) A(2,6) by fastforce
  moreover have "\<forall>r \<in> set (?r # rs). hstart ?h + extent us \<le> fst r \<and> fst r + snd r \<le> hend (vm_heaps s2 heap)"
    using R(4) A(2,6) e by fastforce
  moreover have "\<forall>y. hstart ?h \<le> unat y \<longrightarrow> unat y < hstart ?h + extent us \<longrightarrow> mem s2 y = mem s y" using R(8) A(6,10) by simp
  ultimately show ?case using R(2,5-7) A(6)
    by (intro exI [of _ "?r # rs"] exI [of _ s2] exI [of _ "(b1, False) # bs"] exI [of _ k2]) (simp del: alloc_run.simps)
qed

text \<open>The kernel of the multiboot image: the second request is for 1 MiB, twice what the heap holds.\<close>

theorem allocations_apart_witness:
  "\<exists>s rs s'. init_paging (boot_state 0x102030) = Inr s \<and>
    alloc_run (Suc (Suc 0)) (kernel_heap s) [100, 0x100000, 5000] s = Inr (rs, s') \<and> map snd rs = [100, 0x100000, 5000] \<and>
    sorted_wrt (\<lambda>r r'. fst r + snd r \<le> fst r') rs"
proof -
  have "kernel_heap (boot_state 0x102030) = 0" "4096 \<le> unat (placement_address (boot_state 0x102030))"
      "unat (placement_address (boot_state 0x102030)) \<le> 0x2F8000" "length (interrupt_handlers (boot_state 0x102030)) = 256"
    by (simp_all add: boot_state_def)
  from boot_ok [OF this] obtain d n s where s: "init_paging (boot_state 0x102030) = Inr s" "d \<le> 0x1030B0" "4096 * n = d + 0x6000"
      "paged (vm_heaps s (kernel_heap s)) s d 768 (d + 0x3000) n 256"
      "heap_inv (vm_heaps s (kernel_heap s)) (mem s) ([] @ last_hole 0x7F000)"
      "h_addr_max (vm_heaps s (kernel_heap s)) = 0xCFFFF000"
      "sa_maxsize (h_index (vm_heaps s (kernel_heap s))) = VM_HEAP_INDEX_SIZE"
    by (auto simp: last_hole_def boot_state_def)
  have e: "hend (vm_heaps s (kernel_heap s)) = 0xC0100000" using s(4) by (simp add: paged_def)
  have g: "growth [100, 0x100000, 5000] = 0x104000" by (simp add: page_up_def)
  have "n \<le> 265" using s(2,3) by linarith
  then show ?thesis
    using allocations_apart [OF s(5) _ s(4), of "[100, 0x100000, 5000]" 0] s(1,6,7) e g
    by (auto simp: VM_HEAP_INDEX_SIZE_def simp del: alloc_run.simps growth_simps)
qed

end
