(* ===== verification/Fresh_Blocks.thy ===== *)
theory Fresh_Blocks
  imports Boot
begin

section \<open>Allocating from the end of the kernel heap\<close>

text \<open>
  A heap whose only hole is the last block hands out blocks in address order.  \<open>fresh s us n\<close>: the kernel
  heap holds the blocks \<open>us\<close>, all in use, and then a hole of \<open>n\<close> bytes.  An allocation changes
  nothing but the index and that hole; writing to the payload of blocks in use keeps the heap intact.
  \<open>bytes_at\<close> describes strings of bytes in memory.
\<close>

unbundle bit_operations_syntax

abbreviation kheap :: "'a vm_state_scheme \<Rightarrow> vm_heap" where "kheap s \<equiv> vm_heaps s (kernel_heap s)"

definition fresh :: "'a vm_state_scheme \<Rightarrow> block list \<Rightarrow> nat \<Rightarrow> bool" where
  "fresh s us n \<longleftrightarrow> kernel_heap s \<noteq> 0 \<and> heap_inv (kheap s) (mem s) (us @ [(n, True)]) \<and> (\<forall>b \<in> set us. \<not> snd b)"

definition htop :: "'a vm_state_scheme \<Rightarrow> block list \<Rightarrow> nat" where
  "htop s us = hstart (kheap s) + extent us"

definition in_payload :: "nat \<Rightarrow> block list \<Rightarrow> u32 \<Rightarrow> bool" where
  "in_payload a us y \<longleftrightarrow> (\<exists>x k h. (x, k, h) \<in> set (addrs a us) \<and> x + 12 \<le> unat y \<and> unat y + 8 < x + k)"

lemma htop_snoc: "htop s (us @ [(k, b)]) = htop s us + k"
  by (simp add: htop_def)

lemma fresh_bounds:
  assumes "fresh s us n"
  shows "htop s us + n \<le> 4294967295" "20 \<le> n" "unat (sa_array (h_index (kheap s))) + 8 \<le> hstart (kheap s)"
proof -
  have "(htop s us, n, True) \<in> set (addrs (hstart (kheap s)) (us @ [(n, True)]))" by (simp add: addrs_append htop_def)
  then show "htop s us + n \<le> 4294967295" "20 \<le> n"
    using heap_inv_block [of "kheap s" "mem s"] assms by (auto simp: fresh_def)
  show "unat (sa_array (h_index (kheap s))) + 8 \<le> hstart (kheap s)"
    using assms by (simp add: fresh_def heap_inv_def index_ok_def)
qed

lemma in_payload_bounds: "in_payload a us y \<Longrightarrow> a + 12 \<le> unat y \<and> unat y + 8 < a + extent us"
  unfolding in_payload_def using addrs_bounds by fastforce

lemma in_payload_append: "in_payload a (us @ vs) y \<longleftrightarrow> in_payload a us y \<or> in_payload (a + extent us) vs y"
  unfolding in_payload_def addrs_append set_append by blast

lemma in_payload_single: "in_payload a [(k, b)] y \<longleftrightarrow> a + 12 \<le> unat y \<and> unat y + 8 < a + k"
  by (auto simp: in_payload_def)

lemma addrs_disjoint:
  assumes "(x, n, h) \<in> set (addrs a bs)" "(x', n', h') \<in> set (addrs a bs)"
  shows "(x, n, h) = (x', n', h') \<or> x + n \<le> x' \<or> x' + n' \<le> x"
  using assms
proof (induction bs arbitrary: a)
  case (Cons b bs)
  obtain k g where b: "b = (k, g)" by (cases b)
  have "a + k \<le> y" if "(y, l, z) \<in> set (addrs (a + k) bs)" for y l z using addrs_bounds [OF that] by simp
  then show ?case using Cons b by auto
qed simp

text \<open>Changing the payload of blocks in use does not hurt the heap.\<close>

lemma fresh_write:
  assumes F: "fresh s us n" and W: "\<And>y. m' y \<noteq> mem s y \<Longrightarrow> in_payload (hstart (kheap s)) us y"
  shows "fresh (s\<lparr>mem := m'\<rparr>) us n"
proof -
  let ?h = "kheap s" and ?bs = "us @ [(n, True)]"
  have inv: "heap_inv ?h (mem s) ?bs" using F by (simp add: fresh_def)
  have blk: "block_ok m' (hend ?h) (x, k, b)" if x: "(x, k, b) \<in> set (addrs (hstart ?h) ?bs)" for x k b
  proof -
    note B = heap_inv_block [OF inv x]
    have same: "m' y = mem s y" if "x \<le> unat y" "unat y < x + k" "unat y < x + 12 \<or> x + k \<le> unat y + 8" for y
    proof (rule ccontr)
      assume "m' y \<noteq> mem s y"
      from W [OF this]
      obtain x' k' b' where p: "(x', k', b') \<in> set (addrs (hstart ?h) us)" "x' + 12 \<le> unat y" "unat y + 8 < x' + k'"
        unfolding in_payload_def by blast
      then have "(x', k', b') \<in> set (addrs (hstart ?h) ?bs)" by (simp add: addrs_append)
      from addrs_disjoint [OF x this] p that show False by auto
    qed
    have "ldn m' j = ldn (mem s) j" if "x \<le> j" "j + 4 \<le> x + k" "j + 4 \<le> x + 12 \<or> x + k \<le> j + 8" for j
      using that B(4) by (intro ldn_agree same) auto
    then show ?thesis using B(1,5) by (simp add: block_ok_def header_at_def footer_at_def)
  qed
  have low: "m' y = mem s y" if "unat y < hstart ?h" for y
    using W in_payload_bounds that by fastforce
  have "sa_list (h_index ?h) m' = sa_list (h_index ?h) (mem s)"
    using inv low by (intro sa_list_agree [of _ "hstart ?h"]) (auto simp: heap_inv_def less_imp_le)
  then show ?thesis using F inv blk by (auto simp: fresh_def heap_inv_def heap_ok_def)
qed

text \<open>An allocation from the last hole.\<close>

lemma alloc_fresh:
  assumes F: "fresh s us n" and len: "unat len + 40 \<le> n"
  shows "\<exists>h' m' s'. alloc (Suc k) len False (kernel_heap s) s = Inr (of_nat (htop s us + 12), s') \<and>
    s' = upd_heap (kernel_heap s) (\<lambda>_. h') (s\<lparr>mem := m'\<rparr>) \<and>
    fresh s' (us @ [(unat len + 20, False)]) (n - (unat len + 20)) \<and> same_region (kheap s) h' \<and>
    (\<forall>y. \<not> in_index (kheap s) y \<longrightarrow> \<not> (htop s us \<le> unat y \<and> unat y < htop s us + n) \<longrightarrow> m' y = mem s y)"
proof -
  have inv: "heap_inv (kheap s) (mem s) (us @ [(n, True)])" and us: "\<forall>b \<in> set us. \<not> snd b" and k: "kernel_heap s \<noteq> 0"
    using F by (simp_all add: fresh_def)
  have "unat len + 20 < 4294967296" "(n, True) \<in> set (us @ [(n, True)])" "unat len + 20 \<le> n"
    using len fresh_bounds(1) [OF F] by auto
  from alloc_ok [OF inv this, of k]
  obtain pre hole post h' m' where A: "us @ [(n, True)] = pre @ (hole, True) # post"
      "alloc (Suc k) len False (kernel_heap s) s =
        Inr (of_nat (hstart (kheap s) + extent pre + 12), upd_heap (kernel_heap s) (\<lambda>_. h') (s\<lparr>mem := m'\<rparr>))"
      "heap_inv h' m' (pre @ carve (unat len + 20) hole @ post)" "same_region (kheap s) h'"
      "\<forall>y. \<not> in_index (kheap s) y \<longrightarrow> \<not> (hstart (kheap s) + extent pre \<le> unat y \<and>
          unat y < hstart (kheap s) + extent pre + hole) \<longrightarrow> m' y = mem s y"
    by blast
  have "post = []"
  proof (rule ccontr)
    assume "post \<noteq> []"
    then have "(hole, True) \<in> set us" using A(1) by (cases post rule: rev_cases) auto
    then show False using us by fastforce
  qed
  then have eq: "pre = us" "hole = n" "post = []" using A(1) by auto
  have "\<not> n - (unat len + 20) < 20" using len by linarith
  then show ?thesis
    using A(2-5) us k unfolding eq
    by (intro exI [of _ h'] exI [of _ m'] exI [of _ "upd_heap (kernel_heap s) (\<lambda>_. h') (s\<lparr>mem := m'\<rparr>)"])
      (simp add: carve_def upd_heap_def fresh_def htop_def del: alloc.simps)
qed

lemma kmalloc_heap:
  assumes "kernel_heap s \<noteq> 0"
  shows "kmalloc n len s = alloc n len False (kernel_heap s) s"
    "kmalloc0 n len s = bindr (alloc n len False (kernel_heap s) s) (\<lambda>(a, s). Inr (a, s\<lparr>mem := bzero (mem s) a len\<rparr>))"
  using assms
  by (cases "alloc n len False (kernel_heap s) s";
      simp add: kmalloc_def kmalloc0_def kmalloc_flags_def kmalloc_with_def drop_phys_def M_ZERO_def M_ALIGNED_def split_beta)+

lemma kmalloc_fresh:
  assumes F: "fresh s us n" and len: "unat len + 40 \<le> n"
  shows "\<exists>h' m' s'. kmalloc (Suc k) len s = Inr (of_nat (htop s us + 12), s') \<and>
    s' = upd_heap (kernel_heap s) (\<lambda>_. h') (s\<lparr>mem := m'\<rparr>) \<and>
    fresh s' (us @ [(unat len + 20, False)]) (n - (unat len + 20)) \<and> same_region (kheap s) h' \<and>
    (\<forall>y. \<not> in_index (kheap s) y \<longrightarrow> \<not> (htop s us \<le> unat y \<and> unat y < htop s us + n) \<longrightarrow> m' y = mem s y)"
proof -
  have "kernel_heap s \<noteq> 0" using F by (simp add: fresh_def)
  then show ?thesis using alloc_fresh [OF assms, of k] by (simp add: kmalloc_heap del: alloc.simps)
qed

lemma kmalloc0_fresh:
  assumes F: "fresh s us n" and len: "unat len + 40 \<le> n"
  shows "\<exists>h' m' s'. kmalloc0 (Suc k) len s = Inr (of_nat (htop s us + 12), s') \<and>
    s' = upd_heap (kernel_heap s) (\<lambda>_. h') (s\<lparr>mem := m'\<rparr>) \<and>
    fresh s' (us @ [(unat len + 20, False)]) (n - (unat len + 20)) \<and> same_region (kheap s) h' \<and>
    (\<forall>y. \<not> in_index (kheap s) y \<longrightarrow> \<not> (htop s us \<le> unat y \<and> unat y < htop s us + n) \<longrightarrow> m' y = mem s y) \<and>
    (\<forall>y. htop s us + 12 \<le> unat y \<longrightarrow> unat y < htop s us + 12 + unat len \<longrightarrow> m' y = 0)"
proof -
  have k: "kernel_heap s \<noteq> 0" using F by (simp add: fresh_def)
  obtain h' m' s' where A: "alloc (Suc k) len False (kernel_heap s) s = Inr (of_nat (htop s us + 12), s')"
      "s' = upd_heap (kernel_heap s) (\<lambda>_. h') (s\<lparr>mem := m'\<rparr>)"
      "fresh s' (us @ [(unat len + 20, False)]) (n - (unat len + 20))" "same_region (kheap s) h'"
      "\<forall>y. \<not> in_index (kheap s) y \<longrightarrow> \<not> (htop s us \<le> unat y \<and> unat y < htop s us + n) \<longrightarrow> m' y = mem s y"
    using alloc_fresh [OF assms, of k] by blast
  let ?m = "bzero m' (of_nat (htop s us + 12)) len"
  have b: "htop s us + n \<le> 4294967295" by (rule fresh_bounds(1) [OF F])
  then have u: "unat (of_nat (htop s us + 12) :: u32) = htop s us + 12"
    using len by (intro unat_of_nat_u32) linarith
  have z: "?m y = (if htop s us + 12 \<le> unat y \<and> unat y < htop s us + 12 + unat len then 0 else m' y)" for y
    using len b by (simp only: bzero_eq in_range_no_wrap u)
  have st: "kernel_heap s' = kernel_heap s" "hstart (kheap s') = hstart (kheap s)" "mem s' = m'"
    using A(2,4) by (simp_all add: upd_heap_def same_region_def)
  have "fresh (s'\<lparr>mem := ?m\<rparr>) (us @ [(unat len + 20, False)]) (n - (unat len + 20))"
  proof (rule fresh_write [OF A(3)])
    fix y assume "?m y \<noteq> mem s' y"
    then have "htop s us + 12 \<le> unat y" "unat y < htop s us + 12 + unat len" using z [of y] st(3) by (simp_all split: if_splits)
    then show "in_payload (hstart (kheap s')) (us @ [(unat len + 20, False)]) y"
      by (simp add: in_payload_append in_payload_single st(2) htop_def)
  qed
  moreover have "s'\<lparr>mem := ?m\<rparr> = upd_heap (kernel_heap s) (\<lambda>_. h') (s\<lparr>mem := ?m\<rparr>)" using A(2) by (simp add: upd_heap_def)
  ultimately show ?thesis
    using A(1,4,5) z k len st(3)
    by (intro exI [of _ h'] exI [of _ ?m] exI [of _ "s'\<lparr>mem := ?m\<rparr>"]) (simp add: kmalloc_heap del: alloc.simps)
qed

text \<open>The bytes \<open>bs\<close> stand at the address \<open>a\<close>.\<close>

definition bytes_at :: "memory \<Rightarrow> nat \<Rightarrow> u8 list \<Rightarrow> bool" where
  "bytes_at m a bs \<longleftrightarrow> (\<forall>i < length bs. m (of_nat (a + i)) = bs ! i)"

lemma bytes_at_Nil [simp]: "bytes_at m a []"
  by (simp add: bytes_at_def)

lemma bytes_at_append: "bytes_at m a (xs @ ys) \<longleftrightarrow> bytes_at m a xs \<and> bytes_at m (a + length xs) ys"
proof
  assume L: "bytes_at m a (xs @ ys)"
  have "m (of_nat (a + i)) = xs ! i" if "i < length xs" for i
    using L that by (auto simp: bytes_at_def nth_append dest: spec [of _ i])
  moreover have "m (of_nat (a + length xs + i)) = ys ! i" if "i < length ys" for i
    using L that by (auto simp: bytes_at_def nth_append add.assoc dest: spec [of _ "length xs + i"])
  ultimately show "bytes_at m a xs \<and> bytes_at m (a + length xs) ys" by (simp add: bytes_at_def)
next
  assume R: "bytes_at m a xs \<and> bytes_at m (a + length xs) ys"
  show "bytes_at m a (xs @ ys)"
    unfolding bytes_at_def
  proof (intro allI impI)
    fix i assume i: "i < length (xs @ ys)"
    show "m (of_nat (a + i)) = (xs @ ys) ! i"
    proof (cases "i < length xs")
      case True
      then show ?thesis using R by (simp add: bytes_at_def nth_append)
    next
      case False
      have "\<forall>j < length ys. m (of_nat (a + length xs + j)) = ys ! j" using R unfolding bytes_at_def by blast
      from this [THEN spec, of "i - length xs"] show ?thesis using False i by (simp add: nth_append del: of_nat_add)
    qed
  qed
qed

lemma bytes_at_Cons: "bytes_at m a (x # xs) \<longleftrightarrow> m (of_nat a) = x \<and> bytes_at m (a + 1) xs"
  using bytes_at_append [of m a "[x]" xs] by (simp add: bytes_at_def)

lemma bytes_at_agree:
  assumes "\<And>y. a \<le> unat y \<Longrightarrow> unat y < a + length bs \<Longrightarrow> m' y = m y" "a + length bs \<le> 4294967296"
  shows "bytes_at m' a bs = bytes_at m a bs"
  using assms by (auto simp: bytes_at_def unat_of_nat_u32 simp del: of_nat_add)

lemma cstr_bytes: "cstr m (of_nat a) xs \<longleftrightarrow> 0 \<notin> set xs \<and> bytes_at m a (xs @ [0])"
proof (induction xs arbitrary: a)
  case (Cons x xs)
  have "(of_nat a :: u32) + 1 = of_nat (a + 1)" by simp
  then have "cstr m (of_nat a + 1) xs \<longleftrightarrow> 0 \<notin> set xs \<and> bytes_at m (a + 1) (xs @ [0])" using Cons by metis
  then show ?case by (auto simp: bytes_at_Cons load8_def)
qed (simp add: bytes_at_Cons load8_def)

lemma load32_cong_nat:
  assumes "\<And>y. a \<le> unat y \<Longrightarrow> unat y < a + 4 \<Longrightarrow> m' y = m y" "a + 4 \<le> 4294967296"
  shows "load32 m' (of_nat a) = load32 m (of_nat a)"
  using ldn_agree [of a m' m] assms by (simp add: ldn_def)

lemma in_range_nat:
  assumes "a + n \<le> 4294967296"
  shows "in_range (of_nat a) n y \<longleftrightarrow> a \<le> unat y \<and> unat y < a + n"
proof (cases "n = 0")
  case False
  then have "unat (of_nat a :: u32) = a" using assms by (intro unat_of_nat_u32) linarith
  then show ?thesis using in_range_no_wrap [of "of_nat a" n y] assms by simp
qed (simp add: in_range_def)

subsection \<open>Steps that change only the heap\<close>

definition heap_step :: "'a vm_state_scheme \<Rightarrow> 'a vm_state_scheme \<Rightarrow> bool" where
  "heap_step s s' \<longleftrightarrow> (\<exists>h' m'. s' = upd_heap (kernel_heap s) (\<lambda>_. h') (s\<lparr>mem := m'\<rparr>) \<and> same_region (kheap s) h')"

lemma heap_step_mem: "heap_step s s' \<Longrightarrow> heap_step s (s'\<lparr>mem := m\<rparr>)"
  unfolding heap_step_def
proof (elim exE conjE)
  fix h' m' assume "s' = upd_heap (kernel_heap s) (\<lambda>_. h') (s\<lparr>mem := m'\<rparr>)" "same_region (kheap s) h'"
  then show "\<exists>h' m'. s'\<lparr>mem := m\<rparr> = upd_heap (kernel_heap s) (\<lambda>_. h') (s\<lparr>mem := m'\<rparr>) \<and> same_region (kheap s) h'"
    by (intro exI [of _ h'] exI [of _ m]) (simp add: upd_heap_def)
qed

lemma heap_step_refl: "heap_step s s"
  unfolding heap_step_def by (intro exI [of _ "kheap s"] exI [of _ "mem s"]) (simp add: upd_heap_def same_region_def)

lemma heap_step_trans: "heap_step s s' \<Longrightarrow> heap_step s' s'' \<Longrightarrow> heap_step s s''"
  unfolding heap_step_def
proof (elim exE conjE)
  fix h1 m1 h2 m2
  assume "s' = upd_heap (kernel_heap s) (\<lambda>_. h1) (s\<lparr>mem := m1\<rparr>)" "same_region (kheap s) h1"
    "s'' = upd_heap (kernel_heap s') (\<lambda>_. h2) (s'\<lparr>mem := m2\<rparr>)" "same_region (kheap s') h2"
  then show "\<exists>h' m'. s'' = upd_heap (kernel_heap s) (\<lambda>_. h') (s\<lparr>mem := m'\<rparr>) \<and> same_region (kheap s) h'"
    by (intro exI [of _ h2] exI [of _ m2]) (auto simp: upd_heap_def same_region_def)
qed

lemma heap_stepD:
  assumes "heap_step s s'"
  shows "kernel_heap s' = kernel_heap s" "hstart (kheap s') = hstart (kheap s)" "hend (kheap s') = hend (kheap s)"
    "in_index (kheap s') y = in_index (kheap s) y"
    "sa_array (h_index (kheap s')) = sa_array (h_index (kheap s))" "htop s' us = htop s us"
  using assms by (auto simp: heap_step_def upd_heap_def same_region_def in_index_def htop_def)

lemma heap_step_upd: "same_region (kheap s) h' \<Longrightarrow> heap_step s (upd_heap (kernel_heap s) (\<lambda>_. h') (s\<lparr>mem := m'\<rparr>))"
  by (auto simp: heap_step_def)

text \<open>The bytes that an allocation from the last hole may change, and a set of others.\<close>

definition keeps :: "'a vm_state_scheme \<Rightarrow> block list \<Rightarrow> nat \<Rightarrow> (u32 \<Rightarrow> bool) \<Rightarrow> 'a vm_state_scheme \<Rightarrow> bool" where
  "keeps s us n W s' \<longleftrightarrow> (\<forall>y. \<not> in_index (kheap s) y \<longrightarrow> \<not> (htop s us \<le> unat y \<and> unat y < htop s us + n) \<longrightarrow> \<not> W y \<longrightarrow>
     mem s' y = mem s y)"

lemma keeps_refl [simp]: "keeps s us n W s"
  by (simp add: keeps_def)

lemma keeps_trans:
  assumes "keeps s us n W s'" "heap_step s s'" "keeps s' (us @ vs) n' V s''" "extent vs + n' \<le> n"
    "\<And>y. V y \<Longrightarrow> W y \<or> (htop s us \<le> unat y \<and> unat y < htop s us + n)"
  shows "keeps s us n W s''"
  unfolding keeps_def
proof (intro allI impI)
  fix y assume y: "\<not> in_index (kheap s) y" "\<not> (htop s us \<le> unat y \<and> unat y < htop s us + n)" "\<not> W y"
  have t: "htop s' (us @ vs) = htop s us + extent vs" using heap_stepD(6) [OF assms(2)] by (simp add: htop_def)
  have "\<not> (htop s' (us @ vs) \<le> unat y \<and> unat y < htop s' (us @ vs) + n')" using y(2) assms(4) t by linarith
  moreover have "\<not> V y" using assms(5) y by blast
  ultimately have "mem s'' y = mem s' y" using assms(3) y(1) heap_stepD(4) [OF assms(2)] unfolding keeps_def by blast
  then show "mem s'' y = mem s y" using assms(1) y unfolding keeps_def by simp
qed

lemma keeps_low: "fresh s us n \<Longrightarrow> keeps s us n (\<lambda>y. hstart (kheap s) \<le> unat y) s' \<Longrightarrow> unat y < unat (sa_array (h_index (kheap s))) \<Longrightarrow> mem s' y = mem s y"
  using below_index [of "kheap s" "mem s" _ y] fresh_bounds(3) [of s us n]
  unfolding keeps_def fresh_def by (auto simp: htop_def)

lemma keeps_used:
  assumes "fresh s us n" "keeps s us n W s'" "hstart (kheap s) \<le> unat y" "unat y < htop s us" "\<not> W y"
  shows "mem s' y = mem s y"
  using assms not_in_index [of "kheap s" "mem s" _ y] unfolding keeps_def fresh_def by auto

lemma kmalloc_step:
  assumes "fresh s us n" "unat len + 40 \<le> n"
  obtains s' where "kmalloc (Suc k) len s = Inr (of_nat (htop s us + 12), s')" "heap_step s s'"
    "fresh s' (us @ [(unat len + 20, False)]) (n - (unat len + 20))" "keeps s us n (\<lambda>_. False) s'"
proof -
  obtain h' m' s' where A: "kmalloc (Suc k) len s = Inr (of_nat (htop s us + 12), s')"
      "s' = upd_heap (kernel_heap s) (\<lambda>_. h') (s\<lparr>mem := m'\<rparr>)" "fresh s' (us @ [(unat len + 20, False)]) (n - (unat len + 20))"
      "same_region (kheap s) h'"
      "\<forall>y. \<not> in_index (kheap s) y \<longrightarrow> \<not> (htop s us \<le> unat y \<and> unat y < htop s us + n) \<longrightarrow> m' y = mem s y"
    using kmalloc_fresh [OF assms, of k] by blast
  have "mem s' = m'" using A(2) by (simp add: upd_heap_def)
  then show thesis using A by (intro that [of s']) (auto simp: keeps_def heap_step_def)
qed

lemma kmalloc0_step:
  assumes "fresh s us n" "unat len + 40 \<le> n"
  obtains s' where "kmalloc0 (Suc k) len s = Inr (of_nat (htop s us + 12), s')" "heap_step s s'"
    "fresh s' (us @ [(unat len + 20, False)]) (n - (unat len + 20))" "keeps s us n (\<lambda>_. False) s'"
    "\<forall>y. htop s us + 12 \<le> unat y \<longrightarrow> unat y < htop s us + 12 + unat len \<longrightarrow> mem s' y = 0"
proof -
  obtain h' m' s' where A: "kmalloc0 (Suc k) len s = Inr (of_nat (htop s us + 12), s')"
      "s' = upd_heap (kernel_heap s) (\<lambda>_. h') (s\<lparr>mem := m'\<rparr>)" "fresh s' (us @ [(unat len + 20, False)]) (n - (unat len + 20))"
      "same_region (kheap s) h'"
      "\<forall>y. \<not> in_index (kheap s) y \<longrightarrow> \<not> (htop s us \<le> unat y \<and> unat y < htop s us + n) \<longrightarrow> m' y = mem s y"
      "\<forall>y. htop s us + 12 \<le> unat y \<longrightarrow> unat y < htop s us + 12 + unat len \<longrightarrow> m' y = 0"
    using kmalloc0_fresh [OF assms, of k] by (elim exE conjE) (rule that, assumption+)
  have "mem s' = m'" using A(2) by (simp add: upd_heap_def)
  then show thesis using A by (intro that [of s']) (auto simp: keeps_def heap_step_def)
qed

end
