(* ===== verification/Queue.thy ===== *)
theory Queue
  imports Memory
begin

section \<open>Linked lists: the macros of \<open>freebsd/sys/queue.h\<close>\<close>

text \<open>
  The four list kinds of the header over the byte memory.  A macro's \<open>field\<close> argument is the offset
  \<open>fo\<close> of the link field in the element structure; heads and elements are addresses.  The debugging
  hooks (\<open>QMD_*\<close>, \<open>TRASHIT\<close>) are empty in the kernel's build, which defines neither
  \<open>QUEUE_MACRO_DEBUG\<close> nor \<open>INVARIANTS\<close>; the checks of the latter are in \<open>Queue_Checks\<close>.  The order of the stores is that of the macros.
\<close>

subsection \<open>Singly-linked lists\<close>

definition SLIST_FIRST :: "memory \<Rightarrow> u32 \<Rightarrow> u32" where
  "SLIST_FIRST m head = load32 m head"

definition SLIST_NEXT :: "u32 \<Rightarrow> memory \<Rightarrow> u32 \<Rightarrow> u32" where
  "SLIST_NEXT fo m elm = load32 m (elm + fo)"

definition SLIST_EMPTY :: "memory \<Rightarrow> u32 \<Rightarrow> bool" where
  "SLIST_EMPTY m head \<longleftrightarrow> load32 m head = 0"

definition SLIST_INIT :: "u32 \<Rightarrow> memory \<Rightarrow> memory" where
  "SLIST_INIT head m = store32 m head 0"

definition SLIST_INSERT_AFTER :: "u32 \<Rightarrow> u32 \<Rightarrow> u32 \<Rightarrow> memory \<Rightarrow> memory" where
  "SLIST_INSERT_AFTER fo slistelm elm m =
     (let m = store32 m (elm + fo) (SLIST_NEXT fo m slistelm)
      in store32 m (slistelm + fo) elm)"

definition SLIST_INSERT_HEAD :: "u32 \<Rightarrow> u32 \<Rightarrow> u32 \<Rightarrow> memory \<Rightarrow> memory" where
  "SLIST_INSERT_HEAD fo head elm m =
     (let m = store32 m (elm + fo) (SLIST_FIRST m head)
      in store32 m head elm)"

definition SLIST_REMOVE_AFTER :: "u32 \<Rightarrow> u32 \<Rightarrow> memory \<Rightarrow> memory" where
  "SLIST_REMOVE_AFTER fo elm m = store32 m (elm + fo) (SLIST_NEXT fo m (SLIST_NEXT fo m elm))"

definition SLIST_REMOVE_HEAD :: "u32 \<Rightarrow> u32 \<Rightarrow> memory \<Rightarrow> memory" where
  "SLIST_REMOVE_HEAD fo head m = store32 m head (SLIST_NEXT fo m (SLIST_FIRST m head))"

text \<open>The search for the predecessor; it does not end when \<open>elm\<close> is not in the list.\<close>

partial_function (option) find_prev :: "(memory \<Rightarrow> u32 \<Rightarrow> u32) \<Rightarrow> memory \<Rightarrow> u32 \<Rightarrow> u32 \<Rightarrow> u32 option" where
  "find_prev nx m elm curelm =
     (if nx m curelm \<noteq> elm then find_prev nx m elm (nx m curelm) else Some curelm)"

definition SLIST_REMOVE :: "u32 \<Rightarrow> u32 \<Rightarrow> u32 \<Rightarrow> memory \<Rightarrow> memory option" where
  "SLIST_REMOVE fo head elm m =
     (if SLIST_FIRST m head = elm then Some (SLIST_REMOVE_HEAD fo head m)
      else Option.bind (find_prev (SLIST_NEXT fo) m elm (SLIST_FIRST m head))
             (\<lambda>curelm. Some (SLIST_REMOVE_AFTER fo curelm m)))"

definition SLIST_SWAP :: "u32 \<Rightarrow> u32 \<Rightarrow> memory \<Rightarrow> memory" where
  "SLIST_SWAP head1 head2 m =
     (let swap_first = SLIST_FIRST m head1;
          m = store32 m head1 (SLIST_FIRST m head2)
      in store32 m head2 swap_first)"

text \<open>
  The loops.  The body changes a state that holds the memory and may itself not return; the safe
  variant reads the next link before it runs the body.
\<close>

partial_function (option) foreach_loop ::
    "('s \<Rightarrow> memory) \<Rightarrow> (memory \<Rightarrow> u32 \<Rightarrow> u32) \<Rightarrow> (u32 \<Rightarrow> 's \<Rightarrow> 's option) \<Rightarrow> u32 \<Rightarrow> 's \<Rightarrow> 's option" where
  "foreach_loop mm nx body var s =
     (if var = 0 then Some s
      else Option.bind (body var s) (\<lambda>s. foreach_loop mm nx body (nx (mm s) var) s))"

partial_function (option) foreach_safe_loop ::
    "('s \<Rightarrow> memory) \<Rightarrow> (memory \<Rightarrow> u32 \<Rightarrow> u32) \<Rightarrow> (u32 \<Rightarrow> 's \<Rightarrow> 's option) \<Rightarrow> u32 \<Rightarrow> 's \<Rightarrow> 's option" where
  "foreach_safe_loop mm nx body var s =
     (if var = 0 then Some s
      else let tvar = nx (mm s) var in
           Option.bind (body var s) (\<lambda>s. foreach_safe_loop mm nx body tvar s))"

definition SLIST_FOREACH ::
    "('s \<Rightarrow> memory) \<Rightarrow> u32 \<Rightarrow> u32 \<Rightarrow> (u32 \<Rightarrow> 's \<Rightarrow> 's option) \<Rightarrow> 's \<Rightarrow> 's option" where
  "SLIST_FOREACH mm fo head body s = foreach_loop mm (SLIST_NEXT fo) body (SLIST_FIRST (mm s) head) s"

definition SLIST_FOREACH_SAFE ::
    "('s \<Rightarrow> memory) \<Rightarrow> u32 \<Rightarrow> u32 \<Rightarrow> (u32 \<Rightarrow> 's \<Rightarrow> 's option) \<Rightarrow> 's \<Rightarrow> 's option" where
  "SLIST_FOREACH_SAFE mm fo head body s = foreach_safe_loop mm (SLIST_NEXT fo) body (SLIST_FIRST (mm s) head) s"

subsection \<open>Singly-linked tail queues\<close>

definition STAILQ_FIRST :: "memory \<Rightarrow> u32 \<Rightarrow> u32" where
  "STAILQ_FIRST m head = load32 m head"

definition stqh_last :: "memory \<Rightarrow> u32 \<Rightarrow> u32" where
  "stqh_last m head = load32 m (head + 4)"

definition STAILQ_NEXT :: "u32 \<Rightarrow> memory \<Rightarrow> u32 \<Rightarrow> u32" where
  "STAILQ_NEXT fo m elm = load32 m (elm + fo)"

definition STAILQ_EMPTY :: "memory \<Rightarrow> u32 \<Rightarrow> bool" where
  "STAILQ_EMPTY m head \<longleftrightarrow> load32 m head = 0"

definition STAILQ_INIT :: "u32 \<Rightarrow> memory \<Rightarrow> memory" where
  "STAILQ_INIT head m = store32 (store32 m head 0) (head + 4) head"

definition STAILQ_CONCAT :: "u32 \<Rightarrow> u32 \<Rightarrow> memory \<Rightarrow> memory" where
  "STAILQ_CONCAT head1 head2 m =
     (if \<not> STAILQ_EMPTY m head2
      then let m = store32 m (stqh_last m head1) (STAILQ_FIRST m head2);
               m = store32 m (head1 + 4) (stqh_last m head2)
           in STAILQ_INIT head2 m
      else m)"

definition STAILQ_INSERT_AFTER :: "u32 \<Rightarrow> u32 \<Rightarrow> u32 \<Rightarrow> u32 \<Rightarrow> memory \<Rightarrow> memory" where
  "STAILQ_INSERT_AFTER fo head tqelm elm m =
     (let m = store32 m (elm + fo) (STAILQ_NEXT fo m tqelm);
          m = (if STAILQ_NEXT fo m elm = 0 then store32 m (head + 4) (elm + fo) else m)
      in store32 m (tqelm + fo) elm)"

definition STAILQ_INSERT_HEAD :: "u32 \<Rightarrow> u32 \<Rightarrow> u32 \<Rightarrow> memory \<Rightarrow> memory" where
  "STAILQ_INSERT_HEAD fo head elm m =
     (let m = store32 m (elm + fo) (STAILQ_FIRST m head);
          m = (if STAILQ_NEXT fo m elm = 0 then store32 m (head + 4) (elm + fo) else m)
      in store32 m head elm)"

definition STAILQ_INSERT_TAIL :: "u32 \<Rightarrow> u32 \<Rightarrow> u32 \<Rightarrow> memory \<Rightarrow> memory" where
  "STAILQ_INSERT_TAIL fo head elm m =
     (let m = store32 m (elm + fo) 0;
          m = store32 m (stqh_last m head) elm
      in store32 m (head + 4) (elm + fo))"

definition STAILQ_LAST :: "u32 \<Rightarrow> memory \<Rightarrow> u32 \<Rightarrow> u32" where
  "STAILQ_LAST fo m head = (if STAILQ_EMPTY m head then 0 else stqh_last m head - fo)"

definition STAILQ_REMOVE_AFTER :: "u32 \<Rightarrow> u32 \<Rightarrow> u32 \<Rightarrow> memory \<Rightarrow> memory" where
  "STAILQ_REMOVE_AFTER fo head elm m =
     (let m = store32 m (elm + fo) (STAILQ_NEXT fo m (STAILQ_NEXT fo m elm))
      in if STAILQ_NEXT fo m elm = 0 then store32 m (head + 4) (elm + fo) else m)"

definition STAILQ_REMOVE_HEAD :: "u32 \<Rightarrow> u32 \<Rightarrow> memory \<Rightarrow> memory" where
  "STAILQ_REMOVE_HEAD fo head m =
     (let m = store32 m head (STAILQ_NEXT fo m (STAILQ_FIRST m head))
      in if STAILQ_FIRST m head = 0 then store32 m (head + 4) head else m)"

definition STAILQ_REMOVE :: "u32 \<Rightarrow> u32 \<Rightarrow> u32 \<Rightarrow> memory \<Rightarrow> memory option" where
  "STAILQ_REMOVE fo head elm m =
     (if STAILQ_FIRST m head = elm then Some (STAILQ_REMOVE_HEAD fo head m)
      else Option.bind (find_prev (STAILQ_NEXT fo) m elm (STAILQ_FIRST m head))
             (\<lambda>curelm. Some (STAILQ_REMOVE_AFTER fo head curelm m)))"

definition STAILQ_SWAP :: "u32 \<Rightarrow> u32 \<Rightarrow> memory \<Rightarrow> memory" where
  "STAILQ_SWAP head1 head2 m =
     (let swap_first = STAILQ_FIRST m head1;
          swap_last = stqh_last m head1;
          m = store32 m head1 (STAILQ_FIRST m head2);
          m = store32 m (head1 + 4) (stqh_last m head2);
          m = store32 m head2 swap_first;
          m = store32 m (head2 + 4) swap_last;
          m = (if STAILQ_EMPTY m head1 then store32 m (head1 + 4) head1 else m)
      in if STAILQ_EMPTY m head2 then store32 m (head2 + 4) head2 else m)"

definition STAILQ_FOREACH ::
    "('s \<Rightarrow> memory) \<Rightarrow> u32 \<Rightarrow> u32 \<Rightarrow> (u32 \<Rightarrow> 's \<Rightarrow> 's option) \<Rightarrow> 's \<Rightarrow> 's option" where
  "STAILQ_FOREACH mm fo head body s = foreach_loop mm (STAILQ_NEXT fo) body (STAILQ_FIRST (mm s) head) s"

definition STAILQ_FOREACH_SAFE ::
    "('s \<Rightarrow> memory) \<Rightarrow> u32 \<Rightarrow> u32 \<Rightarrow> (u32 \<Rightarrow> 's \<Rightarrow> 's option) \<Rightarrow> 's \<Rightarrow> 's option" where
  "STAILQ_FOREACH_SAFE mm fo head body s = foreach_safe_loop mm (STAILQ_NEXT fo) body (STAILQ_FIRST (mm s) head) s"

subsection \<open>Lists\<close>

definition LIST_FIRST :: "memory \<Rightarrow> u32 \<Rightarrow> u32" where
  "LIST_FIRST m head = load32 m head"

definition LIST_NEXT :: "u32 \<Rightarrow> memory \<Rightarrow> u32 \<Rightarrow> u32" where
  "LIST_NEXT fo m elm = load32 m (elm + fo)"

definition le_prev :: "u32 \<Rightarrow> memory \<Rightarrow> u32 \<Rightarrow> u32" where
  "le_prev fo m elm = load32 m (elm + fo + 4)"

definition LIST_EMPTY :: "memory \<Rightarrow> u32 \<Rightarrow> bool" where
  "LIST_EMPTY m head \<longleftrightarrow> load32 m head = 0"

definition LIST_INIT :: "u32 \<Rightarrow> memory \<Rightarrow> memory" where
  "LIST_INIT head m = store32 m head 0"

definition LIST_INSERT_AFTER :: "u32 \<Rightarrow> u32 \<Rightarrow> u32 \<Rightarrow> memory \<Rightarrow> memory" where
  "LIST_INSERT_AFTER fo listelm elm m =
     (let m = store32 m (elm + fo) (LIST_NEXT fo m listelm);
          m = (if LIST_NEXT fo m elm \<noteq> 0
               then store32 m (LIST_NEXT fo m listelm + fo + 4) (elm + fo) else m);
          m = store32 m (listelm + fo) elm
      in store32 m (elm + fo + 4) (listelm + fo))"

definition LIST_INSERT_BEFORE :: "u32 \<Rightarrow> u32 \<Rightarrow> u32 \<Rightarrow> memory \<Rightarrow> memory" where
  "LIST_INSERT_BEFORE fo listelm elm m =
     (let m = store32 m (elm + fo + 4) (le_prev fo m listelm);
          m = store32 m (elm + fo) listelm;
          m = store32 m (le_prev fo m listelm) elm
      in store32 m (listelm + fo + 4) (elm + fo))"

definition LIST_INSERT_HEAD :: "u32 \<Rightarrow> u32 \<Rightarrow> u32 \<Rightarrow> memory \<Rightarrow> memory" where
  "LIST_INSERT_HEAD fo head elm m =
     (let m = store32 m (elm + fo) (LIST_FIRST m head);
          m = (if LIST_NEXT fo m elm \<noteq> 0
               then store32 m (LIST_FIRST m head + fo + 4) (elm + fo) else m);
          m = store32 m head elm
      in store32 m (elm + fo + 4) head)"

definition LIST_REMOVE :: "u32 \<Rightarrow> u32 \<Rightarrow> memory \<Rightarrow> memory" where
  "LIST_REMOVE fo elm m =
     (let m = (if LIST_NEXT fo m elm \<noteq> 0
               then store32 m (LIST_NEXT fo m elm + fo + 4) (le_prev fo m elm) else m)
      in store32 m (le_prev fo m elm) (LIST_NEXT fo m elm))"

definition LIST_SWAP :: "u32 \<Rightarrow> u32 \<Rightarrow> u32 \<Rightarrow> memory \<Rightarrow> memory" where
  "LIST_SWAP fo head1 head2 m =
     (let swap_tmp = LIST_FIRST m head1;
          m = store32 m head1 (LIST_FIRST m head2);
          m = store32 m head2 swap_tmp;
          swap_tmp = LIST_FIRST m head1;
          m = (if swap_tmp \<noteq> 0 then store32 m (swap_tmp + fo + 4) head1 else m);
          swap_tmp = LIST_FIRST m head2
      in if swap_tmp \<noteq> 0 then store32 m (swap_tmp + fo + 4) head2 else m)"

definition LIST_FOREACH ::
    "('s \<Rightarrow> memory) \<Rightarrow> u32 \<Rightarrow> u32 \<Rightarrow> (u32 \<Rightarrow> 's \<Rightarrow> 's option) \<Rightarrow> 's \<Rightarrow> 's option" where
  "LIST_FOREACH mm fo head body s = foreach_loop mm (LIST_NEXT fo) body (LIST_FIRST (mm s) head) s"

definition LIST_FOREACH_SAFE ::
    "('s \<Rightarrow> memory) \<Rightarrow> u32 \<Rightarrow> u32 \<Rightarrow> (u32 \<Rightarrow> 's \<Rightarrow> 's option) \<Rightarrow> 's \<Rightarrow> 's option" where
  "LIST_FOREACH_SAFE mm fo head body s = foreach_safe_loop mm (LIST_NEXT fo) body (LIST_FIRST (mm s) head) s"

subsection \<open>Tail queues\<close>

definition TAILQ_FIRST :: "memory \<Rightarrow> u32 \<Rightarrow> u32" where
  "TAILQ_FIRST m head = load32 m head"

definition tqh_last :: "memory \<Rightarrow> u32 \<Rightarrow> u32" where
  "tqh_last m head = load32 m (head + 4)"

definition TAILQ_NEXT :: "u32 \<Rightarrow> memory \<Rightarrow> u32 \<Rightarrow> u32" where
  "TAILQ_NEXT fo m elm = load32 m (elm + fo)"

definition tqe_prev :: "u32 \<Rightarrow> memory \<Rightarrow> u32 \<Rightarrow> u32" where
  "tqe_prev fo m elm = load32 m (elm + fo + 4)"

definition TAILQ_EMPTY :: "memory \<Rightarrow> u32 \<Rightarrow> bool" where
  "TAILQ_EMPTY m head \<longleftrightarrow> load32 m head = 0"

definition TAILQ_LAST :: "memory \<Rightarrow> u32 \<Rightarrow> u32" where
  "TAILQ_LAST m head = load32 m (tqh_last m (tqh_last m head))"

definition TAILQ_PREV :: "u32 \<Rightarrow> memory \<Rightarrow> u32 \<Rightarrow> u32" where
  "TAILQ_PREV fo m elm = load32 m (tqh_last m (tqe_prev fo m elm))"

definition TAILQ_INIT :: "u32 \<Rightarrow> memory \<Rightarrow> memory" where
  "TAILQ_INIT head m = store32 (store32 m head 0) (head + 4) head"

definition TAILQ_CONCAT :: "u32 \<Rightarrow> u32 \<Rightarrow> u32 \<Rightarrow> memory \<Rightarrow> memory" where
  "TAILQ_CONCAT fo head1 head2 m =
     (if \<not> TAILQ_EMPTY m head2
      then let m = store32 m (tqh_last m head1) (TAILQ_FIRST m head2);
               m = store32 m (TAILQ_FIRST m head2 + fo + 4) (tqh_last m head1);
               m = store32 m (head1 + 4) (tqh_last m head2)
           in TAILQ_INIT head2 m
      else m)"

definition TAILQ_INSERT_AFTER :: "u32 \<Rightarrow> u32 \<Rightarrow> u32 \<Rightarrow> u32 \<Rightarrow> memory \<Rightarrow> memory" where
  "TAILQ_INSERT_AFTER fo head listelm elm m =
     (let m = store32 m (elm + fo) (TAILQ_NEXT fo m listelm);
          m = (if TAILQ_NEXT fo m elm \<noteq> 0
               then store32 m (TAILQ_NEXT fo m elm + fo + 4) (elm + fo)
               else store32 m (head + 4) (elm + fo));
          m = store32 m (listelm + fo) elm
      in store32 m (elm + fo + 4) (listelm + fo))"

definition TAILQ_INSERT_BEFORE :: "u32 \<Rightarrow> u32 \<Rightarrow> u32 \<Rightarrow> memory \<Rightarrow> memory" where
  "TAILQ_INSERT_BEFORE fo listelm elm m =
     (let m = store32 m (elm + fo + 4) (tqe_prev fo m listelm);
          m = store32 m (elm + fo) listelm;
          m = store32 m (tqe_prev fo m listelm) elm
      in store32 m (listelm + fo + 4) (elm + fo))"

definition TAILQ_INSERT_HEAD :: "u32 \<Rightarrow> u32 \<Rightarrow> u32 \<Rightarrow> memory \<Rightarrow> memory" where
  "TAILQ_INSERT_HEAD fo head elm m =
     (let m = store32 m (elm + fo) (TAILQ_FIRST m head);
          m = (if TAILQ_NEXT fo m elm \<noteq> 0
               then store32 m (TAILQ_FIRST m head + fo + 4) (elm + fo)
               else store32 m (head + 4) (elm + fo));
          m = store32 m head elm
      in store32 m (elm + fo + 4) head)"

definition TAILQ_INSERT_TAIL :: "u32 \<Rightarrow> u32 \<Rightarrow> u32 \<Rightarrow> memory \<Rightarrow> memory" where
  "TAILQ_INSERT_TAIL fo head elm m =
     (let m = store32 m (elm + fo) 0;
          m = store32 m (elm + fo + 4) (tqh_last m head);
          m = store32 m (tqh_last m head) elm
      in store32 m (head + 4) (elm + fo))"

definition TAILQ_REMOVE :: "u32 \<Rightarrow> u32 \<Rightarrow> u32 \<Rightarrow> memory \<Rightarrow> memory" where
  "TAILQ_REMOVE fo head elm m =
     (let m = (if TAILQ_NEXT fo m elm \<noteq> 0
               then store32 m (TAILQ_NEXT fo m elm + fo + 4) (tqe_prev fo m elm)
               else store32 m (head + 4) (tqe_prev fo m elm))
      in store32 m (tqe_prev fo m elm) (TAILQ_NEXT fo m elm))"

definition TAILQ_SWAP :: "u32 \<Rightarrow> u32 \<Rightarrow> u32 \<Rightarrow> memory \<Rightarrow> memory" where
  "TAILQ_SWAP fo head1 head2 m =
     (let swap_first = TAILQ_FIRST m head1;
          swap_last = tqh_last m head1;
          m = store32 m head1 (TAILQ_FIRST m head2);
          m = store32 m (head1 + 4) (tqh_last m head2);
          m = store32 m head2 swap_first;
          m = store32 m (head2 + 4) swap_last;
          swap_first = TAILQ_FIRST m head1;
          m = (if swap_first \<noteq> 0 then store32 m (swap_first + fo + 4) head1
               else store32 m (head1 + 4) head1);
          swap_first = TAILQ_FIRST m head2
      in if swap_first \<noteq> 0 then store32 m (swap_first + fo + 4) head2
         else store32 m (head2 + 4) head2)"

definition TAILQ_FOREACH ::
    "('s \<Rightarrow> memory) \<Rightarrow> u32 \<Rightarrow> u32 \<Rightarrow> (u32 \<Rightarrow> 's \<Rightarrow> 's option) \<Rightarrow> 's \<Rightarrow> 's option" where
  "TAILQ_FOREACH mm fo head body s = foreach_loop mm (TAILQ_NEXT fo) body (TAILQ_FIRST (mm s) head) s"

definition TAILQ_FOREACH_SAFE ::
    "('s \<Rightarrow> memory) \<Rightarrow> u32 \<Rightarrow> u32 \<Rightarrow> (u32 \<Rightarrow> 's \<Rightarrow> 's option) \<Rightarrow> 's \<Rightarrow> 's option" where
  "TAILQ_FOREACH_SAFE mm fo head body s = foreach_safe_loop mm (TAILQ_NEXT fo) body (TAILQ_FIRST (mm s) head) s"

definition TAILQ_FOREACH_REVERSE ::
    "('s \<Rightarrow> memory) \<Rightarrow> u32 \<Rightarrow> u32 \<Rightarrow> (u32 \<Rightarrow> 's \<Rightarrow> 's option) \<Rightarrow> 's \<Rightarrow> 's option" where
  "TAILQ_FOREACH_REVERSE mm fo head body s = foreach_loop mm (TAILQ_PREV fo) body (TAILQ_LAST (mm s) head) s"

definition TAILQ_FOREACH_REVERSE_SAFE ::
    "('s \<Rightarrow> memory) \<Rightarrow> u32 \<Rightarrow> u32 \<Rightarrow> (u32 \<Rightarrow> 's \<Rightarrow> 's option) \<Rightarrow> 's \<Rightarrow> 's option" where
  "TAILQ_FOREACH_REVERSE_SAFE mm fo head body s =
     foreach_safe_loop mm (TAILQ_PREV fo) body (TAILQ_LAST (mm s) head) s"

end
