(* ===== verification/Tar.thy ===== *)
theory Tar
  imports Vm Queue
begin

unbundle bit_operations_syntax

section \<open>Tape archives in memory (\<open>tar.c\<close>, \<open>tar.h\<close>)\<close>

text \<open>
  \<open>struct tar_header\<close> has the file name at offset 0 (100 bytes) and the size, in octal ASCII digits, at
  124.  \<open>struct tar_file\<close> is 120 bytes: \<open>tf_filename\<close> at 0 (101 bytes), \<open>tf_datasiz\<close> at 104,
  \<open>tf_data\<close> at 108 and the queue links \<open>entries\<close> at 112.
\<close>

definition tar_header_size :: u32 where "tar_header_size = 124"     \<comment> \<open>offset of \<open>size\<close>\<close>

definition tar_file_size :: u32 where "tar_file_size = 120"
definition tf_entries :: u32 where "tf_entries = 112"
definition tar_fileQ_size :: u32 where "tar_fileQ_size = 8"

definition tf_datasiz :: "memory \<Rightarrow> u32 \<Rightarrow> u32" where "tf_datasiz m tf = load32 m (tf + 104)"
definition tf_data :: "memory \<Rightarrow> u32 \<Rightarrow> u32" where "tf_data m tf = load32 m (tf + 108)"

text \<open>
  \<open>getsize\<close>: the digits from the eleventh down to the first, each times the next power of eight.  The
  digits are (signed) chars, the sum is an \<open>unsigned int\<close>.
\<close>

fun getsize_loop :: "memory \<Rightarrow> u32 \<Rightarrow> nat \<Rightarrow> u32 \<Rightarrow> u32 \<Rightarrow> u32" where
  "getsize_loop m inp 0 cnt sz = sz"
| "getsize_loop m inp (Suc j) cnt sz =
     getsize_loop m inp j (cnt * 8) (sz + (scast (load8 m (inp + of_nat j)) - 0x30) * cnt)"

definition getsize :: "memory \<Rightarrow> u32 \<Rightarrow> u32" where
  "getsize m inp = getsize_loop m inp 11 1 0"

text \<open>
  One round of the loop for the header at \<open>p\<close>: \<open>None\<close> for a failed allocation.  The loop ends at
  an empty name; it returns the queue only on success (\<open>*q_p\<close> is left alone when it fails).
\<close>

definition tar_add ::
    "nat \<Rightarrow> u32 \<Rightarrow> u32 \<Rightarrow> 'a vm_state_scheme \<Rightarrow> (u32 option \<times> 'a vm_state_scheme) res" where
  "tar_add n q p s =
     (let siz = getsize (mem s) (p + tar_header_size) in
      bindr (kmalloc0 n tar_file_size s) (\<lambda>(tf, s).
      if tf = 0 then Inr (None, s)
      else let m = memcpy (mem s) tf p 100;
               m = store32 m (tf + 104) siz;
               m = store32 m (tf + 108) (p + 512);
               m = TAILQ_INSERT_TAIL tf_entries q tf m;
               p = p + (siz div 512 + 1) * 512;
               p = (if siz mod 512 \<noteq> 0 then p + 512 else p)
           in Inr (Some p, s\<lparr>mem := m\<rparr>)))"

partial_function (option) tar_loop ::
    "nat \<Rightarrow> u32 \<Rightarrow> u32 \<Rightarrow> u32 \<Rightarrow> 'a vm_state_scheme \<Rightarrow> (u32 \<times> u32 option \<times> 'a vm_state_scheme) res option" where
  "tar_loop n q p i s =
     (if load8 (mem s) p = 0 then Some (Inr (i, Some q, s))
      else case tar_add n q p s of
          Inl e \<Rightarrow> Some (Inl e)
        | Inr (p', s) \<Rightarrow>
            (case p' of None \<Rightarrow> Some (Inr (- 1, None, s)) | Some p' \<Rightarrow> tar_loop n q p' (i + 1) s))"

definition tar_parse_mem ::
    "nat \<Rightarrow> u32 \<Rightarrow> 'a vm_state_scheme \<Rightarrow> (u32 \<times> u32 option \<times> 'a vm_state_scheme) res" where
  "tar_parse_mem n addr s =
     bindr (kmalloc0 n tar_fileQ_size s) (\<lambda>(q, s).
     if q = 0 then Inr (- 1, None, s)
     else let s = s\<lparr>mem := TAILQ_INIT q (mem s)\<rparr> in
          bindr (of_option Diverge (tar_loop n q addr 0 s)) (\<lambda>r. r))"

end
