(* ===== verification/Linked_Lists.thy ===== *)
theory Linked_Lists
  imports Queue
begin

section \<open>The lists that linked structures in memory denote\<close>

text \<open>
  Every link cell is a word of memory.  \<open>ap\<close> says that two words do not overlap; a structure is well
  formed when all its cells are pairwise apart, so that a store to one of them leaves the others alone.
\<close>

definition ap :: "u32 \<Rightarrow> u32 \<Rightarrow> bool" where
  "ap a b \<longleftrightarrow> sep a 4 b 4"

lemma ap_sym: "ap a b \<longleftrightarrow> ap b a"
  by (simp add: ap_def sep_sym)

lemma not_ap_self [simp]: "\<not> ap a a"
  by (simp add: ap_def sep_def)

lemma load32_store32_ap [simp]: "ap a b \<Longrightarrow> load32 (store32 m a v) b = load32 m b"
  by (simp add: ap_def load32_store32_other)

lemma load32_store32_ap' [simp]: "ap b a \<Longrightarrow> load32 (store32 m a v) b = load32 m b"
  by (simp add: ap_sym load32_store32_other ap_def sep_sym)

subsection \<open>Chains of links\<close>

text \<open>
  \<open>slinks m fo pa xs q\<close>: from the link cell \<open>pa\<close> the elements \<open>xs\<close> follow, and the last link holds \<open>q\<close>.
  \<open>dlinks\<close> also has each element's back link hold the address of the cell that points to it.
  \<open>end_cell\<close> is the last link cell.
\<close>

primrec slinks :: "memory \<Rightarrow> u32 \<Rightarrow> u32 \<Rightarrow> u32 list \<Rightarrow> u32 \<Rightarrow> bool" where
  "slinks m fo pa [] q \<longleftrightarrow> load32 m pa = q"
| "slinks m fo pa (x # xs) q \<longleftrightarrow> load32 m pa = x \<and> x \<noteq> 0 \<and> slinks m fo (x + fo) xs q"

primrec dlinks :: "memory \<Rightarrow> u32 \<Rightarrow> u32 \<Rightarrow> u32 list \<Rightarrow> u32 \<Rightarrow> bool" where
  "dlinks m fo pa [] q \<longleftrightarrow> load32 m pa = q"
| "dlinks m fo pa (x # xs) q \<longleftrightarrow>
     load32 m pa = x \<and> x \<noteq> 0 \<and> load32 m (x + fo + 4) = pa \<and> dlinks m fo (x + fo) xs q"

primrec end_cell :: "u32 \<Rightarrow> u32 \<Rightarrow> u32 list \<Rightarrow> u32" where
  "end_cell fo pa [] = pa"
| "end_cell fo pa (x # xs) = end_cell fo (x + fo) xs"

definition scells :: "u32 \<Rightarrow> u32 list \<Rightarrow> u32 list" where
  "scells fo xs = map (\<lambda>x. x + fo) xs"

definition dcells :: "u32 \<Rightarrow> u32 list \<Rightarrow> u32 list" where
  "dcells fo xs = concat (map (\<lambda>x. [x + fo, x + fo + 4]) xs)"

lemma cells_simps [simp]:
  "scells fo [] = []" "scells fo (x # xs) = (x + fo) # scells fo xs" "scells fo (xs @ ys) = scells fo xs @ scells fo ys"
  "dcells fo [] = []" "dcells fo (x # xs) = (x + fo) # (x + fo + 4) # dcells fo xs"
  "dcells fo (xs @ ys) = dcells fo xs @ dcells fo ys"
  by (simp_all add: scells_def dcells_def)

lemma end_cell_append [simp]: "end_cell fo pa (xs @ ys) = end_cell fo (end_cell fo pa xs) ys"
  by (induction xs arbitrary: pa) auto

lemma end_cell_last: "end_cell fo pa xs = (if xs = [] then pa else last xs + fo)"
  by (induction xs arbitrary: pa) auto

lemma end_cell_in: "end_cell fo pa xs \<in> set (pa # scells fo xs)" "end_cell fo pa xs \<in> set (pa # dcells fo xs)"
  by (induction xs arbitrary: pa) auto

lemma slinks_append:
  "slinks m fo pa (xs @ ys) q \<longleftrightarrow>
     (\<exists>p. slinks m fo pa xs p \<and> slinks m fo (end_cell fo pa xs) ys q)"
proof (induction xs arbitrary: pa)
  case Nil
  then show ?case by (cases ys) auto
qed auto

lemma dlinks_append:
  "dlinks m fo pa (xs @ ys) q \<longleftrightarrow>
     (\<exists>p. dlinks m fo pa xs p \<and> dlinks m fo (end_cell fo pa xs) ys q)"
proof (induction xs arbitrary: pa)
  case Nil
  then show ?case by (cases ys) auto
qed auto

lemma slinks_end: "slinks m fo pa xs q \<Longrightarrow> load32 m (end_cell fo pa xs) = q"
  by (induction xs arbitrary: pa) auto

lemma dlinks_end: "dlinks m fo pa xs q \<Longrightarrow> load32 m (end_cell fo pa xs) = q"
  by (induction xs arbitrary: pa) auto

lemma slinks_snoc: "slinks m fo pa (xs @ [x]) q \<longleftrightarrow> slinks m fo pa xs x \<and> x \<noteq> 0 \<and> load32 m (x + fo) = q"
  using slinks_end [of m fo pa xs] by (auto simp: slinks_append)

lemma dlinks_snoc: "dlinks m fo pa (xs @ [x]) q \<longleftrightarrow>
    dlinks m fo pa xs x \<and> x \<noteq> 0 \<and> load32 m (x + fo + 4) = end_cell fo pa xs \<and> load32 m (x + fo) = q"
  using dlinks_end [of m fo pa xs] by (auto simp: dlinks_append)

lemma slinks_mid: "slinks m fo pa (xs @ x # ys) q \<longleftrightarrow> slinks m fo pa xs x \<and> x \<noteq> 0 \<and> slinks m fo (x + fo) ys q"
  using slinks_end [of m fo pa xs] by (auto simp: slinks_append)

lemma dlinks_mid: "dlinks m fo pa (xs @ x # ys) q \<longleftrightarrow>
    dlinks m fo pa xs x \<and> x \<noteq> 0 \<and> load32 m (x + fo + 4) = end_cell fo pa xs \<and> dlinks m fo (x + fo) ys q"
  using dlinks_end [of m fo pa xs] by (auto simp: dlinks_append)

lemma slinks_0: "slinks m fo pa xs 0 \<Longrightarrow> load32 m pa = 0 \<longleftrightarrow> xs = []"
  by (cases xs) auto

lemma dlinks_0: "dlinks m fo pa xs 0 \<Longrightarrow> load32 m pa = 0 \<longleftrightarrow> xs = []"
  by (cases xs) auto

text \<open>A store to a cell apart from the chain does not matter; a store to the last link redirects it.\<close>

lemma slinks_store: "\<forall>c \<in> set (pa # scells fo xs). ap a c \<Longrightarrow> slinks (store32 m a v) fo pa xs q = slinks m fo pa xs q"
  by (induction xs arbitrary: pa) auto

lemma dlinks_store: "\<forall>c \<in> set (pa # dcells fo xs). ap a c \<Longrightarrow> dlinks (store32 m a v) fo pa xs q = dlinks m fo pa xs q"
  by (induction xs arbitrary: pa) auto

lemma slinks_redirect:
  assumes "sorted_wrt ap (pa # scells fo xs)"
  shows "slinks (store32 m (end_cell fo pa xs) v) fo pa xs v \<longleftrightarrow> (\<exists>q. slinks m fo pa xs q)"
  using assms
proof (induction xs arbitrary: pa)
  case Nil
  show ?case by (auto intro: exI [of _ "load32 m pa"])
next
  case (Cons x xs)
  have "ap pa (end_cell fo (x + fo) xs)" using Cons.prems end_cell_in(1) [of fo "x + fo" xs] by auto
  then show ?case using Cons by simp
qed

lemma dlinks_redirect:
  assumes "sorted_wrt ap (pa # dcells fo xs)"
  shows "dlinks (store32 m (end_cell fo pa xs) v) fo pa xs v \<longleftrightarrow> (\<exists>q. dlinks m fo pa xs q)"
  using assms
proof (induction xs arbitrary: pa)
  case Nil
  show ?case by (auto intro: exI [of _ "load32 m pa"])
next
  case (Cons x xs)
  have "ap pa (end_cell fo (x + fo) xs)" using Cons.prems end_cell_in(2) [of fo "x + fo" xs] by auto
  moreover have "ap (x + fo + 4) (end_cell fo (x + fo) xs)"
    using Cons.prems end_cell_in(2) [of fo "x + fo" xs] by (auto simp: ap_sym)
  ultimately show ?case using Cons by simp
qed

text \<open>On a set of cells that are pairwise apart, memory behaves like a map.\<close>

lemma sorted_wrt_apD:
  assumes "sorted_wrt ap S" "a \<in> set S" "c \<in> set S" "a \<noteq> c"
  shows "ap a c"
  using assms
proof (induction S)
  case (Cons x S)
  then show ?case by (cases "a = x"; cases "c = x") (auto simp: ap_sym)
qed simp

lemma load32_cells:
  assumes "sorted_wrt ap S" "a \<in> set S" "c \<in> set S"
  shows "load32 (store32 m a v) c = (if a = c then v else load32 m c)"
  using sorted_wrt_apD [OF assms] by auto

lemma sorted_wrt_ap_distinct: "sorted_wrt ap S \<Longrightarrow> distinct S"
  by (induction S) auto

lemma dlinks_cong:
  "(\<And>c. c \<in> set (pa # dcells fo xs) \<Longrightarrow> load32 m' c = load32 m c) \<Longrightarrow> dlinks m' fo pa xs q = dlinks m fo pa xs q"
  by (induction xs arbitrary: pa) auto

lemma slinks_cong:
  "(\<And>c. c \<in> set (pa # scells fo xs) \<Longrightarrow> load32 m' c = load32 m c) \<Longrightarrow> slinks m' fo pa xs q = slinks m fo pa xs q"
  by (induction xs arbitrary: pa) auto

text \<open>Only the last link of the first part and the first back link of the second part change.\<close>

lemma dlinks_agree_but_end:
  assumes "dlinks m fo pa xs q" "distinct (pa # dcells fo xs)"
    "\<forall>c \<in> set (pa # dcells fo xs). c \<noteq> end_cell fo pa xs \<longrightarrow> load32 m' c = load32 m c"
  shows "dlinks m' fo pa xs (load32 m' (end_cell fo pa xs))"
  using assms
proof (induction xs arbitrary: pa)
  case (Cons x xs)
  have "end_cell fo (x + fo) xs \<in> set ((x + fo) # dcells fo xs)" by (rule end_cell_in)
  then have n: "pa \<noteq> end_cell fo (x + fo) xs" "x + fo + 4 \<noteq> end_cell fo (x + fo) xs" using Cons.prems(2) by auto
  then have "load32 m' pa = load32 m pa" "load32 m' (x + fo + 4) = load32 m (x + fo + 4)" using Cons.prems(3) by auto
  then show ?case using Cons by simp
qed simp

lemma dlinks_insert:
  assumes L: "dlinks m fo h (xs @ ys) q" and e: "e \<noteq> 0" and D: "distinct (h # dcells fo (xs @ e # ys))"
    and same: "\<forall>c \<in> set (h # dcells fo (xs @ ys)). c \<noteq> end_cell fo h xs \<longrightarrow>
      (ys \<noteq> [] \<longrightarrow> c \<noteq> List.hd ys + fo + 4) \<longrightarrow> load32 m' c = load32 m c"
    and new: "load32 m' (end_cell fo h xs) = e" "load32 m' (e + fo + 4) = end_cell fo h xs"
      "load32 m' (e + fo) = load32 m (end_cell fo h xs)" "ys \<noteq> [] \<longrightarrow> load32 m' (List.hd ys + fo + 4) = e + fo"
  shows "dlinks m' fo h (xs @ e # ys) q"
proof -
  obtain p where p: "dlinks m fo h xs p" "dlinks m fo (end_cell fo h xs) ys q" using L by (auto simp: dlinks_append)
  have c: "end_cell fo h xs \<in> set (h # dcells fo xs)" by (rule end_cell_in)
  have "dlinks m' fo h xs e"
    unfolding new(1) [symmetric]
    by (rule dlinks_agree_but_end [OF p(1)]) (use D same in \<open>auto simp: neq_Nil_conv\<close>)
  moreover have "dlinks m' fo (e + fo) ys q"
  proof (cases ys)
    case Nil
    then show ?thesis using p(2) new(3) by simp
  next
    case (Cons y zs)
    have "\<forall>c \<in> set ((y + fo) # dcells fo zs). c \<noteq> end_cell fo h xs \<and> c \<noteq> y + fo + 4"
      using D c Cons by (auto simp: disjoint_iff)
    then have "dlinks m' fo (y + fo) zs q = dlinks m fo (y + fo) zs q"
      by (intro dlinks_cong) (use same Cons in auto)
    then show ?thesis using p(2) new(3,4) Cons by simp
  qed
  ultimately show ?thesis using e new(2) by (simp add: dlinks_mid)
qed

lemma dlinks_remove:
  assumes L: "dlinks m fo h (xs @ e # ys) q" and D: "distinct (h # dcells fo (xs @ e # ys))"
    and same: "\<forall>c \<in> set (h # dcells fo (xs @ ys)). c \<noteq> end_cell fo h xs \<longrightarrow>
      (ys \<noteq> [] \<longrightarrow> c \<noteq> List.hd ys + fo + 4) \<longrightarrow> load32 m' c = load32 m c"
    and new: "load32 m' (end_cell fo h xs) = load32 m (e + fo)"
      "ys \<noteq> [] \<longrightarrow> load32 m' (List.hd ys + fo + 4) = end_cell fo h xs"
  shows "dlinks m' fo h (xs @ ys) q"
proof -
  have p: "dlinks m fo h xs e" "dlinks m fo (e + fo) ys q" using L by (auto simp: dlinks_mid)
  have c: "end_cell fo h xs \<in> set (h # dcells fo xs)" by (rule end_cell_in)
  have "dlinks m' fo h xs (load32 m (e + fo))"
    unfolding new(1) [symmetric]
    by (rule dlinks_agree_but_end [OF p(1)]) (use D same in \<open>auto simp: neq_Nil_conv\<close>)
  moreover have "dlinks m' fo (end_cell fo h xs) ys q"
  proof (cases ys)
    case Nil
    then show ?thesis using p(2) new(1) by simp
  next
    case (Cons y zs)
    have "\<forall>c \<in> set ((y + fo) # dcells fo zs). c \<noteq> end_cell fo h xs \<and> c \<noteq> y + fo + 4"
      using D c Cons by (auto simp: disjoint_iff)
    then have "dlinks m' fo (y + fo) zs q = dlinks m fo (y + fo) zs q"
      by (intro dlinks_cong) (use same Cons in auto)
    then show ?thesis using p(2) new(1,2) Cons by simp
  qed
  ultimately show ?thesis by (auto simp: dlinks_append)
qed

lemma dlinks_hd: "dlinks m fo pa ys 0 \<Longrightarrow> load32 m pa = (case ys of [] \<Rightarrow> 0 | y # _ \<Rightarrow> y) \<and> (ys \<noteq> [] \<longrightarrow> List.hd ys \<noteq> 0)"
  by (cases ys) auto

text \<open>A macro's stores as a list, and what they leave in the cells.\<close>

fun stores :: "memory \<Rightarrow> (u32 \<times> u32) list \<Rightarrow> memory" where
  "stores m [] = m"
| "stores m ((a, v) # ws) = stores (store32 m a v) ws"

lemma load32_stores:
  assumes "sorted_wrt ap S" "fst ` set ws \<subseteq> set S" "c \<in> set S"
  shows "load32 (stores m ws) c = (case map_of (rev ws) c of None \<Rightarrow> load32 m c | Some v \<Rightarrow> v)"
  using assms(2)
proof (induction m ws rule: stores.induct)
  case (2 m a v ws)
  then show ?case using load32_cells [OF assms(1) _ assms(3), of a m v] by (auto simp: map_add_def split: option.split)
qed simp

lemma load32_stores_in:
  assumes "sorted_wrt ap S" "fst ` set ws \<subseteq> set S" "distinct (map fst ws)" "(c, v) \<in> set ws"
  shows "load32 (stores m ws) c = v"
proof -
  have "c \<in> set S" using assms(2,4) by force
  moreover have "map_of (rev ws) c = Some v" using assms(3,4) by (simp add: map_of_eq_Some_iff rev_map [symmetric])
  ultimately show ?thesis using load32_stores [OF assms(1,2), of c m] by simp
qed

lemma load32_stores_notin:
  assumes "sorted_wrt ap S" "fst ` set ws \<subseteq> set S" "c \<in> set S" "c \<notin> fst ` set ws"
  shows "load32 (stores m ws) c = load32 m c"
proof -
  have "map_of (rev ws) c = None" using assms(4) by (simp add: map_of_eq_None_iff)
  then show ?thesis using load32_stores [OF assms(1-3), of m] by simp
qed

text \<open>\<open>X\<close>: the further cells of the structure, such as the tail pointer.\<close>

lemma insert_cells:
  assumes "distinct (h # X @ dcells fo (xs @ e # ys))"
  shows "end_cell fo h xs \<notin> {e + fo, e + fo + 4} \<union> set X" "e + fo \<noteq> e + fo + 4" "{e + fo, e + fo + 4} \<inter> set X = {}"
    "ys \<noteq> [] \<Longrightarrow> List.hd ys + fo + 4 \<notin> {e + fo, e + fo + 4, end_cell fo h xs} \<union> set X"
proof -
  have c: "end_cell fo h xs \<in> set (h # dcells fo xs)" by (rule end_cell_in)
  show "end_cell fo h xs \<notin> {e + fo, e + fo + 4} \<union> set X" using assms c by (auto simp: disjoint_iff)
  show "e + fo \<noteq> e + fo + 4" "{e + fo, e + fo + 4} \<inter> set X = {}" using assms by auto
  show "List.hd ys + fo + 4 \<notin> {e + fo, e + fo + 4, end_cell fo h xs} \<union> set X" if "ys \<noteq> []"
    using assms c that by (cases ys) (auto simp: disjoint_iff)
qed

lemma dlinks_insert_stores:
  assumes L: "dlinks m fo h (xs @ ys) q" and e: "e \<noteq> 0" and S: "sorted_wrt ap (h # X @ dcells fo (xs @ e # ys))"
    and ws: "fst ` set ws \<subseteq> {end_cell fo h xs, e + fo, e + fo + 4} \<union> set X \<union> (if ys = [] then {} else {List.hd ys + fo + 4})"
      "distinct (map fst ws)"
    and new: "{(end_cell fo h xs, e), (e + fo + 4, end_cell fo h xs), (e + fo, load32 m (end_cell fo h xs))} \<subseteq> set ws"
      "ys \<noteq> [] \<longrightarrow> (List.hd ys + fo + 4, e + fo) \<in> set ws"
  shows "dlinks (stores m ws) fo h (xs @ e # ys) q"
proof -
  have D: "distinct (h # X @ dcells fo (xs @ e # ys))" by (rule sorted_wrt_ap_distinct [OF S])
  have c: "end_cell fo h xs \<in> set (h # dcells fo xs)" by (rule end_cell_in)
  have sub: "fst ` set ws \<subseteq> set (h # X @ dcells fo (xs @ e # ys))" using ws(1) c by (cases ys) auto
  note I = load32_stores_in [OF S sub ws(2), of _ _ m]
  show ?thesis
  proof (rule dlinks_insert [OF L e])
    show "\<forall>c \<in> set (h # dcells fo (xs @ ys)). c \<noteq> end_cell fo h xs \<longrightarrow>
      (ys \<noteq> [] \<longrightarrow> c \<noteq> List.hd ys + fo + 4) \<longrightarrow> load32 (stores m ws) c = load32 m c"
    proof (intro ballI impI)
      fix z assume z: "z \<in> set (h # dcells fo (xs @ ys))" "z \<noteq> end_cell fo h xs" "ys \<noteq> [] \<longrightarrow> z \<noteq> List.hd ys + fo + 4"
      have "z \<noteq> e + fo" "z \<noteq> e + fo + 4" "z \<notin> set X" using z(1) D by auto
      then have "z \<notin> fst ` set ws" using ws(1) z(2,3) by (auto split: if_splits)
      then show "load32 (stores m ws) z = load32 m z" using z(1) by (intro load32_stores_notin [OF S sub]) auto
    qed
    show "distinct (h # dcells fo (xs @ e # ys))" using D by simp
  qed (use new in \<open>auto intro: I\<close>)
qed

lemma dlinks_remove_stores:
  assumes L: "dlinks m fo h (xs @ e # ys) q" and S: "sorted_wrt ap (h # X @ dcells fo (xs @ e # ys))"
    and ws: "fst ` set ws \<subseteq> {end_cell fo h xs} \<union> set X \<union> (if ys = [] then {} else {List.hd ys + fo + 4})"
      "distinct (map fst ws)"
    and new: "(end_cell fo h xs, load32 m (e + fo)) \<in> set ws" "ys \<noteq> [] \<longrightarrow> (List.hd ys + fo + 4, end_cell fo h xs) \<in> set ws"
  shows "dlinks (stores m ws) fo h (xs @ ys) q"
proof -
  have D: "distinct (h # X @ dcells fo (xs @ e # ys))" by (rule sorted_wrt_ap_distinct [OF S])
  have c: "end_cell fo h xs \<in> set (h # dcells fo xs)" by (rule end_cell_in)
  have sub: "fst ` set ws \<subseteq> set (h # X @ dcells fo (xs @ e # ys))" using ws(1) c by (cases ys) auto
  note I = load32_stores_in [OF S sub ws(2), of _ _ m]
  show ?thesis
  proof (rule dlinks_remove [OF L])
    show "\<forall>c \<in> set (h # dcells fo (xs @ ys)). c \<noteq> end_cell fo h xs \<longrightarrow>
      (ys \<noteq> [] \<longrightarrow> c \<noteq> List.hd ys + fo + 4) \<longrightarrow> load32 (stores m ws) c = load32 m c"
    proof (intro ballI impI)
      fix z assume z: "z \<in> set (h # dcells fo (xs @ ys))" "z \<noteq> end_cell fo h xs" "ys \<noteq> [] \<longrightarrow> z \<noteq> List.hd ys + fo + 4"
      have "z \<notin> set X" using z(1) D by auto
      then have "z \<notin> fst ` set ws" using ws(1) z(2,3) by (auto split: if_splits)
      then show "load32 (stores m ws) z = load32 m z" using z(1) by (intro load32_stores_notin [OF S sub]) auto
    qed
    show "distinct (h # dcells fo (xs @ e # ys))" using D by simp
  qed (use new in \<open>auto intro: I\<close>)
qed

subsection \<open>Tail queues\<close>

definition tailq :: "memory \<Rightarrow> u32 \<Rightarrow> u32 \<Rightarrow> u32 list \<Rightarrow> bool" where
  "tailq m fo h xs \<longleftrightarrow> dlinks m fo h xs 0 \<and> load32 m (h + 4) = end_cell fo h xs \<and>
     sorted_wrt ap (h # (h + 4) # dcells fo xs)"

lemma TAILQ_INIT_ok: "ap h (h + 4) \<Longrightarrow> tailq (TAILQ_INIT h m) fo h []"
  by (simp add: tailq_def TAILQ_INIT_def)

text \<open>Insertion anywhere in a tail queue: four stores, in any order.\<close>

lemma tailq_insert:
  assumes T: "tailq m fo h (xs @ ys)" and e: "e \<noteq> 0" and S: "sorted_wrt ap (h # (h + 4) # dcells fo (xs @ e # ys))"
    and ws: "set ws = {(end_cell fo h xs, e), (e + fo + 4, end_cell fo h xs), (e + fo, load32 m (end_cell fo h xs)),
      (if ys = [] then h + 4 else List.hd ys + fo + 4, e + fo)}" "length ws = 4"
  shows "tailq (stores m ws) fo h (xs @ e # ys)"
proof -
  let ?c = "end_cell fo h xs" and ?t = "if ys = [] then h + 4 else List.hd ys + fo + 4"
  have S': "sorted_wrt ap (h # [h + 4] @ dcells fo (xs @ e # ys))" using S by simp
  note D = sorted_wrt_ap_distinct [OF S'] and N = insert_cells [OF sorted_wrt_ap_distinct [OF S']]
  have L: "dlinks m fo h (xs @ ys) 0" "load32 m (h + 4) = end_cell fo h (xs @ ys)" using T by (simp_all add: tailq_def)
  have "card {?c, e + fo + 4, e + fo, ?t} = 4" using N by (cases "ys = []") auto
  moreover have im: "fst ` set ws = {?c, e + fo + 4, e + fo, ?t}" unfolding ws(1) by auto
  ultimately have dw: "distinct (map fst ws)" using ws(2) by (intro card_distinct) simp
  have "dlinks (stores m ws) fo h (xs @ e # ys) 0"
    by (rule dlinks_insert_stores [OF L(1) e S' _ dw]) (use ws(1) im in auto)
  moreover have "load32 (stores m ws) (h + 4) = end_cell fo h (xs @ e # ys)"
  proof (cases ys)
    case Nil
    then show ?thesis
      using im ws(1) end_cell_in(2) [of fo h xs] by (intro load32_stores_in [OF S _ dw]) auto
  next
    case (Cons y zs)
    have "load32 (stores m ws) (h + 4) = load32 m (h + 4)"
      by (rule load32_stores_notin [OF S]) (use im N Cons end_cell_in(2) [of fo h xs] in auto)
    then show ?thesis using L(2) Cons by simp
  qed
  ultimately show ?thesis using S by (simp add: tailq_def)
qed

lemma tailq_parts:
  assumes "tailq m fo h (xs @ ys)"
  shows "dlinks m fo h (xs @ ys) 0" "load32 m (h + 4) = end_cell fo h (xs @ ys)" "ap h (h + 4)"
    "load32 m (end_cell fo h xs) = (case ys of [] \<Rightarrow> 0 | y # _ \<Rightarrow> y)" "ys \<noteq> [] \<Longrightarrow> List.hd ys \<noteq> 0"
    "ys \<noteq> [] \<Longrightarrow> load32 m (List.hd ys + fo + 4) = end_cell fo h xs"
proof -
  show L: "dlinks m fo h (xs @ ys) 0" "load32 m (h + 4) = end_cell fo h (xs @ ys)" "ap h (h + 4)"
    using assms by (simp_all add: tailq_def)
  then have "dlinks m fo (end_cell fo h xs) ys 0" by (auto simp: dlinks_append)
  then show "load32 m (end_cell fo h xs) = (case ys of [] \<Rightarrow> 0 | y # _ \<Rightarrow> y)" "ys \<noteq> [] \<Longrightarrow> List.hd ys \<noteq> 0"
      "ys \<noteq> [] \<Longrightarrow> load32 m (List.hd ys + fo + 4) = end_cell fo h xs"
    by (cases ys; simp)+
qed

lemma TAILQ_INSERT_TAIL_ok:
  assumes "tailq m fo h xs" "e \<noteq> 0" "sorted_wrt ap (h # (h + 4) # dcells fo (xs @ [e]))"
  shows "tailq (TAILQ_INSERT_TAIL fo h e m) fo h (xs @ [e])"
proof -
  have T: "tailq m fo h (xs @ [])" using assms(1) by simp
  have A: "ap (e + fo) (h + 4)" "ap (e + fo + 4) (h + 4)" using assms(3) by (auto simp: ap_sym)
  have op: "TAILQ_INSERT_TAIL fo h e m =
      stores m [(e + fo, 0), (e + fo + 4, end_cell fo h xs), (end_cell fo h xs, e), (h + 4, e + fo)]"
    using A tailq_parts(2) [OF T] by (simp add: TAILQ_INSERT_TAIL_def tqh_last_def)
  show ?thesis
    unfolding op using tailq_parts(4) [OF T] by (intro tailq_insert [OF T assms(2,3)]) auto
qed

lemma TAILQ_INSERT_HEAD_ok:
  assumes "tailq m fo h xs" "e \<noteq> 0" "sorted_wrt ap (h # (h + 4) # dcells fo (e # xs))"
  shows "tailq (TAILQ_INSERT_HEAD fo h e m) fo h (e # xs)"
proof -
  have T: "tailq m fo h ([] @ xs)" using assms(1) by simp
  have S: "sorted_wrt ap (h # (h + 4) # dcells fo ([] @ e # xs))" using assms(3) by simp
  let ?p = "case xs of [] \<Rightarrow> 0 | y # _ \<Rightarrow> y"
  have op: "TAILQ_INSERT_HEAD fo h e m =
      stores m [(e + fo, ?p), (if xs = [] then h + 4 else List.hd xs + fo + 4, e + fo), (h, e), (e + fo + 4, h)]"
    using tailq_parts(4,5) [OF T] assms(3)
    by (cases xs) (simp_all add: TAILQ_INSERT_HEAD_def TAILQ_FIRST_def TAILQ_NEXT_def Let_def)
  show ?thesis
    unfolding op using tailq_parts(4) [OF T] by (intro tailq_insert [OF T assms(2) S, simplified]) auto
qed

lemma TAILQ_INSERT_AFTER_ok:
  assumes "tailq m fo h (xs @ x # ys)" "e \<noteq> 0" "sorted_wrt ap (h # (h + 4) # dcells fo (xs @ x # e # ys))"
  shows "tailq (TAILQ_INSERT_AFTER fo h x e m) fo h (xs @ x # e # ys)"
proof -
  have T: "tailq m fo h ((xs @ [x]) @ ys)" using assms(1) by simp
  have S: "sorted_wrt ap (h # (h + 4) # dcells fo ((xs @ [x]) @ e # ys))" using assms(3) by simp
  let ?p = "case ys of [] \<Rightarrow> 0 | y # _ \<Rightarrow> y"
  have op: "TAILQ_INSERT_AFTER fo h x e m =
      stores m [(e + fo, ?p), (if ys = [] then h + 4 else List.hd ys + fo + 4, e + fo), (x + fo, e), (e + fo + 4, x + fo)]"
    using tailq_parts(4,5) [OF T] by (cases ys) (simp_all add: TAILQ_INSERT_AFTER_def TAILQ_NEXT_def Let_def)
  show ?thesis
    unfolding op using tailq_parts(4) [OF T] by (intro tailq_insert [OF T assms(2) S, simplified]) auto
qed

lemma TAILQ_INSERT_BEFORE_ok:
  assumes "tailq m fo h (xs @ y # ys)" "e \<noteq> 0" "sorted_wrt ap (h # (h + 4) # dcells fo (xs @ e # y # ys))"
  shows "tailq (TAILQ_INSERT_BEFORE fo y e m) fo h (xs @ e # y # ys)"
proof -
  have A: "ap (e + fo) (y + fo + 4)" "ap (e + fo + 4) (y + fo + 4)"
    using sorted_wrt_apD [OF assms(3)] sorted_wrt_ap_distinct [OF assms(3)] by auto
  have op: "TAILQ_INSERT_BEFORE fo y e m =
      stores m [(e + fo + 4, end_cell fo h xs), (e + fo, y), (end_cell fo h xs, e), (y + fo + 4, e + fo)]"
    using A tailq_parts(6) [OF assms(1)] by (simp add: TAILQ_INSERT_BEFORE_def tqe_prev_def)
  show ?thesis
    unfolding op using tailq_parts(4) [OF assms(1)] by (intro tailq_insert [OF assms]) auto
qed

lemma TAILQ_REMOVE_ok:
  assumes "tailq m fo h (xs @ e # ys)"
  shows "tailq (TAILQ_REMOVE fo h e m) fo h (xs @ ys)"
proof -
  let ?c = "end_cell fo h xs" and ?t = "if ys = [] then h + 4 else List.hd ys + fo + 4"
  let ?p = "case ys of [] \<Rightarrow> 0 | y # _ \<Rightarrow> y"
  have T: "tailq m fo h ((xs @ [e]) @ ys)" using assms by simp
  have S: "sorted_wrt ap (h # [h + 4] @ dcells fo (xs @ e # ys))" using assms by (simp add: tailq_def)
  note D = sorted_wrt_ap_distinct [OF S] and N = insert_cells [OF sorted_wrt_ap_distinct [OF S]]
  note P = tailq_parts [OF T] and E = tailq_parts(6) [OF assms, simplified]
  have c: "?c \<in> set (h # dcells fo xs)" by (rule end_cell_in)
  have ne: "?t \<notin> {?c, e + fo, e + fo + 4}" using N by (cases ys) auto
  have t: "?t \<in> set (h # [h + 4] @ dcells fo (xs @ e # ys))" by (cases ys) auto
  have "ap ?t (e + fo)" "ap ?t (e + fo + 4)" using sorted_wrt_apD [OF S t] ne by auto
  then have op: "TAILQ_REMOVE fo h e m = stores m [(?t, ?c), (?c, ?p)]"
    using P(4,5) E by (cases ys) (simp_all add: TAILQ_REMOVE_def TAILQ_NEXT_def tqe_prev_def Let_def)
  have "dlinks (stores m [(?t, ?c), (?c, ?p)]) fo h (xs @ ys) 0"
    using P(1,4) ne c by (intro dlinks_remove_stores [OF _ S]) auto
  moreover have "load32 (stores m [(?t, ?c), (?c, ?p)]) (h + 4) = end_cell fo h (xs @ ys)"
  proof (cases ys)
    case Nil
    then show ?thesis using ne c by (intro load32_stores_in [OF S]) auto
  next
    case (Cons y zs)
    have "load32 (stores m [(?t, ?c), (?c, ?p)]) (h + 4) = load32 m (h + 4)"
      by (rule load32_stores_notin [OF S]) (use N Cons c t in auto)
    then show ?thesis using P(2) Cons by simp
  qed
  moreover have "sorted_wrt ap (h # (h + 4) # dcells fo (xs @ ys))" using S by (auto simp: sorted_wrt_append)
  ultimately show ?thesis unfolding op by (simp add: tailq_def)
qed

text \<open>Joining and exchanging two queues.\<close>

lemma dlinks_keep:
  assumes "dlinks m fo pa xs q" "sorted_wrt ap S" "fst ` set ws \<subseteq> set S" "set (pa # dcells fo xs) \<subseteq> set S"
    "fst ` set ws \<inter> set (pa # dcells fo xs) = {}"
  shows "dlinks (stores m ws) fo pa xs q"
proof -
  have "load32 (stores m ws) c = load32 m c" if "c \<in> set (pa # dcells fo xs)" for c
    using that assms by (intro load32_stores_notin [OF assms(2,3)]) auto
  then show ?thesis using assms(1) dlinks_cong by blast
qed

lemma dlinks_new_end:
  assumes "dlinks m fo pa xs q" "sorted_wrt ap S" "fst ` set ws \<subseteq> set S" "set (pa # dcells fo xs) \<subseteq> set S"
    "distinct (pa # dcells fo xs)" "fst ` set ws \<inter> set (pa # dcells fo xs) \<subseteq> {end_cell fo pa xs}"
    "distinct (map fst ws)" "(end_cell fo pa xs, v) \<in> set ws"
  shows "dlinks (stores m ws) fo pa xs v"
proof -
  have "load32 (stores m ws) c = load32 m c" if "c \<in> set (pa # dcells fo xs)" "c \<noteq> end_cell fo pa xs" for c
    using that assms(4,6) by (intro load32_stores_notin [OF assms(2,3)]) auto
  moreover have "load32 (stores m ws) (end_cell fo pa xs) = v" by (rule load32_stores_in [OF assms(2,3,7,8)])
  ultimately show ?thesis using dlinks_agree_but_end [OF assms(1,5), of "stores m ws"] by simp
qed

text \<open>The same chain behind another first cell: the first back link is redirected.\<close>

lemma dlinks_new_start:
  assumes "dlinks m fo pa (y # ys) q" "sorted_wrt ap S" "fst ` set ws \<subseteq> set S" "set (dcells fo (y # ys)) \<subseteq> set S"
    "distinct (dcells fo (y # ys))" "fst ` set ws \<inter> set (dcells fo (y # ys)) \<subseteq> {y + fo + 4}"
    "map_of (rev ws) pb = Some y" "map_of (rev ws) (y + fo + 4) = Some pb" "pb \<in> set S"
  shows "dlinks (stores m ws) fo pb (y # ys) q"
proof -
  have "dlinks (stores m ws) fo (y + fo) ys q"
    using assms(1,4,5,6) by (intro dlinks_keep [OF _ assms(2,3)]) auto
  then show ?thesis
    using assms(1,4,7,8,9) load32_stores [OF assms(2,3), of pb m] load32_stores [OF assms(2,3), of "y + fo + 4" m] by auto
qed

lemma TAILQ_CONCAT_ok:
  assumes T1: "tailq m fo h1 xs" and T2: "tailq m fo h2 ys"
    and S: "sorted_wrt ap ([h1, h1 + 4, h2, h2 + 4] @ dcells fo (xs @ ys))"
  shows "tailq (TAILQ_CONCAT fo h1 h2 m) fo h1 (xs @ ys) \<and> tailq (TAILQ_CONCAT fo h1 h2 m) fo h2 []"
proof (cases ys)
  case Nil
  then show ?thesis using T1 T2 by (simp add: TAILQ_CONCAT_def TAILQ_EMPTY_def tailq_def)
next
  case (Cons y zs)
  let ?c = "end_cell fo h1 xs" and ?ws = "[(end_cell fo h1 xs, y), (y + fo + 4, end_cell fo h1 xs),
      (h1 + 4, end_cell fo h2 ys), (h2, 0), (h2 + 4, h2)]"
  note D = sorted_wrt_ap_distinct [OF S]
  have L: "dlinks m fo h1 xs 0" "dlinks m fo h2 (y # zs) 0" "load32 m (h1 + 4) = ?c" "load32 m (h2 + 4) = end_cell fo h2 ys"
      "y \<noteq> 0" "load32 m h2 = y"
    using T1 T2 Cons by (simp_all add: tailq_def)
  have c: "?c \<in> set (h1 # dcells fo xs)" by (rule end_cell_in)
  have sub: "fst ` set ?ws \<subseteq> set ([h1, h1 + 4, h2, h2 + 4] @ dcells fo (xs @ ys))" using c Cons by auto
  have ne: "?c \<notin> set [h1 + 4, h2, h2 + 4] \<union> set (dcells fo ys)" using c D by (auto simp: disjoint_iff)
  have dw: "distinct (map fst ?ws)" using D ne Cons by auto
  have ap: "ap ?c (h1 + 4)" "ap ?c (h2 + 4)" "ap ?c h2" "ap (y + fo + 4) (h1 + 4)" "ap (y + fo + 4) (h2 + 4)" "ap (h1 + 4) (h2 + 4)"
    by (rule sorted_wrt_apD [OF S]; use c ne D Cons in auto)+
  have op: "TAILQ_CONCAT fo h1 h2 m = stores m ?ws"
    using L(3-6) ap by (simp add: TAILQ_CONCAT_def TAILQ_EMPTY_def TAILQ_FIRST_def tqh_last_def TAILQ_INIT_def Let_def)
  have "dlinks (stores m ?ws) fo h1 xs y"
    by (rule dlinks_new_end [OF L(1) S sub _ _ _ dw]) (use D Cons in auto)
  moreover have "dlinks (stores m ?ws) fo ?c (y # zs) 0"
    by (rule dlinks_new_start [OF L(2) S sub]) (use D ne c Cons in auto)
  moreover have "load32 (stores m ?ws) (h1 + 4) = end_cell fo h1 (xs @ ys)" "load32 (stores m ?ws) h2 = 0"
      "load32 (stores m ?ws) (h2 + 4) = h2"
    by (rule load32_stores_in [OF S sub dw]; use Cons in simp)+
  ultimately show ?thesis
    unfolding op using S Cons by (simp add: tailq_def dlinks_append) blast
qed

lemma tailq_moved:
  assumes T: "tailq m fo g zs" and S: "sorted_wrt ap S" and sub: "fst ` set ws \<subseteq> set S"
    and cells: "set (h # (h + 4) # dcells fo zs) \<subseteq> set S" "sorted_wrt ap (h # (h + 4) # dcells fo zs)"
    and other: "fst ` set ws \<inter> set (dcells fo zs) \<subseteq> (if zs = [] then {} else {List.hd zs + fo + 4})"
    and new: "map_of (rev ws) h = Some (case zs of [] \<Rightarrow> 0 | z # _ \<Rightarrow> z)"
      "map_of (rev ws) (h + 4) = Some (end_cell fo h zs)" "zs \<noteq> [] \<longrightarrow> map_of (rev ws) (List.hd zs + fo + 4) = Some h"
  shows "tailq (stores m ws) fo h zs"
proof -
  have "dlinks (stores m ws) fo h zs 0"
  proof (cases zs)
    case Nil
    then show ?thesis using new(1) cells(1) load32_stores [OF S sub, of h m] by simp
  next
    case (Cons z zs')
    have "dlinks m fo g (z # zs') 0" using T Cons by (simp add: tailq_def)
    then show ?thesis
      unfolding Cons by (rule dlinks_new_start [OF _ S sub])
        (use cells sorted_wrt_ap_distinct [OF cells(2)] other new Cons in auto)
  qed
  then show ?thesis using cells new(2) load32_stores [OF S sub, of "h + 4" m] by (simp add: tailq_def)
qed

lemma TAILQ_SWAP_ok:
  assumes T1: "tailq m fo h1 xs" and T2: "tailq m fo h2 ys"
    and S: "sorted_wrt ap ([h1, h1 + 4, h2, h2 + 4] @ dcells fo (xs @ ys))"
  shows "tailq (TAILQ_SWAP fo h1 h2 m) fo h1 ys \<and> tailq (TAILQ_SWAP fo h1 h2 m) fo h2 xs"
proof -
  let ?f = "\<lambda>zs. case zs of [] \<Rightarrow> 0 | z # _ \<Rightarrow> z"
  let ?b = "\<lambda>h zs. if zs = [] then (h + 4, h) else (List.hd zs + fo + 4, h)"
  let ?ws = "[(h1, ?f ys), (h1 + 4, end_cell fo h2 ys), (h2, ?f xs), (h2 + 4, end_cell fo h1 xs), ?b h1 ys, ?b h2 xs]"
  note D = sorted_wrt_ap_distinct [OF S]
  have L: "load32 m h1 = ?f xs" "load32 m h2 = ?f ys" "load32 m (h1 + 4) = end_cell fo h1 xs" "load32 m (h2 + 4) = end_cell fo h2 ys"
      "xs \<noteq> [] \<longrightarrow> List.hd xs \<noteq> 0" "ys \<noteq> [] \<longrightarrow> List.hd ys \<noteq> 0"
    using tailq_parts(2,4,5) [of m fo h1 "[]" xs] tailq_parts(2,4,5) [of m fo h2 "[]" ys] T1 T2 by auto
  have sub: "fst ` set ?ws \<subseteq> set ([h1, h1 + 4, h2, h2 + 4] @ dcells fo (xs @ ys))"
    by (cases xs; cases ys) auto
  have ap: "ap h1 h2" "ap h1 (h1 + 4)" "ap h1 (h2 + 4)" "ap h2 (h1 + 4)" "ap h2 (h2 + 4)" "ap (h1 + 4) (h2 + 4)"
      "ys \<noteq> [] \<longrightarrow> ap (List.hd ys + fo + 4) h2" "ap (h1 + 4) h2"
    using S by (cases ys; auto simp: ap_sym)+
  have op: "TAILQ_SWAP fo h1 h2 m = stores m ?ws"
    using L ap by (cases xs; cases ys) (simp_all add: TAILQ_SWAP_def TAILQ_FIRST_def tqh_last_def Let_def ap_sym)
  show ?thesis
    unfolding op
  proof
    show "tailq (stores m ?ws) fo h1 ys"
      by (rule tailq_moved [OF T2 S sub]) (use S D in \<open>cases xs; cases ys; auto simp: sorted_wrt_append\<close>)+
    show "tailq (stores m ?ws) fo h2 xs"
      by (rule tailq_moved [OF T1 S sub]) (use S D in \<open>cases xs; cases ys; auto simp: sorted_wrt_append\<close>)+
  qed
qed
subsection \<open>Traversal\<close>

text \<open>\<open>follows nx p xs\<close>: starting at \<open>p\<close> and following \<open>nx\<close>, one visits \<open>xs\<close> and ends at null.\<close>

primrec follows :: "(u32 \<Rightarrow> u32) \<Rightarrow> u32 \<Rightarrow> u32 list \<Rightarrow> bool" where
  "follows nx p [] \<longleftrightarrow> p = 0"
| "follows nx p (x # xs) \<longleftrightarrow> p = x \<and> x \<noteq> 0 \<and> follows nx (nx x) xs"

primrec foldo :: "(u32 \<Rightarrow> 's \<Rightarrow> 's option) \<Rightarrow> u32 list \<Rightarrow> 's \<Rightarrow> 's option" where
  "foldo body [] s = Some s"
| "foldo body (x # xs) s = Option.bind (body x s) (foldo body xs)"

text \<open>A loop whose body leaves the links alone runs the body on each element in order, and ends.\<close>

lemma foreach_loop_fold:
  assumes "follows nx0 p xs" "J s" "\<And>x s s'. x \<in> set xs \<Longrightarrow> J s \<Longrightarrow> body x s = Some s' \<Longrightarrow> J s'"
    "\<And>x s. x \<in> set xs \<Longrightarrow> J s \<Longrightarrow> nx (mm s) x = nx0 x"
  shows "foreach_loop mm nx body p s = foldo body xs s"
  using assms
proof (induction xs arbitrary: p s)
  case Nil
  then show ?case by (simp add: foreach_loop.simps)
next
  case (Cons x xs)
  then have x: "p = x" "x \<noteq> 0" "follows nx0 (nx0 x) xs" by simp_all
  show ?case
  proof (cases "body x s")
    case None
    then show ?thesis using x by (simp add: foreach_loop.simps)
  next
    case (Some s')
    have J: "J s'" by (rule Cons.prems(3) [OF _ Cons.prems(2) Some]) simp
    have "nx (mm s') x = nx0 x" by (rule Cons.prems(4) [OF _ J]) simp
    moreover have "foreach_loop mm nx body (nx0 x) s' = foldo body xs s'"
      by (rule Cons.IH [OF x(3) J]) (use Cons.prems(3,4) in auto)
    ultimately show ?thesis using Some x by (simp add: foreach_loop.simps [of mm nx body x])
  qed
qed

text \<open>In the safe loop the body may destroy the element it is given.\<close>

lemma foreach_safe_loop_fold:
  assumes "follows nx0 p xs" "J xs s" "\<And>x xs s s'. J (x # xs) s \<Longrightarrow> body x s = Some s' \<Longrightarrow> J xs s'"
    "\<And>x xs s. J (x # xs) s \<Longrightarrow> nx (mm s) x = nx0 x"
  shows "foreach_safe_loop mm nx body p s = foldo body xs s"
  using assms
proof (induction xs arbitrary: p s)
  case Nil
  then show ?case by (simp add: foreach_safe_loop.simps)
next
  case (Cons x xs)
  then have x: "p = x" "x \<noteq> 0" "follows nx0 (nx0 x) xs" by simp_all
  have n: "nx (mm s) x = nx0 x" by (rule Cons.prems(4) [OF Cons.prems(2)])
  show ?case
  proof (cases "body x s")
    case None
    then show ?thesis using x by (simp add: foreach_safe_loop.simps Let_def)
  next
    case (Some s')
    have "foreach_safe_loop mm nx body (nx0 x) s' = foldo body xs s'"
      by (rule Cons.IH [OF x(3) Cons.prems(3) [OF Cons.prems(2) Some]]) (use Cons.prems(3,4) in auto)
    then show ?thesis using Some x n by (simp add: foreach_safe_loop.simps [of mm nx body x] Let_def)
  qed
qed

lemma slinks_follows: "slinks m fo pa xs 0 \<Longrightarrow> follows (\<lambda>x. load32 m (x + fo)) (load32 m pa) xs"
  by (induction xs arbitrary: pa) auto

lemma dlinks_follows: "dlinks m fo pa xs 0 \<Longrightarrow> follows (\<lambda>x. load32 m (x + fo)) (load32 m pa) xs"
  by (induction xs arbitrary: pa) auto

lemma tailq_follows: "tailq m fo h xs \<Longrightarrow> follows (TAILQ_NEXT fo m) (TAILQ_FIRST m h) xs"
  using dlinks_follows by (simp add: tailq_def TAILQ_NEXT_def [abs_def] TAILQ_FIRST_def)

text \<open>Backwards: the tail pointer of the cell before an element leads to the element before it.\<close>

lemma tailq_first_prev:
  assumes "tailq m fo h xs"
  shows "load32 m (load32 m (h + 4)) = 0"
  using assms dlinks_end by (auto simp: tailq_def)

lemma tailq_follows_back:
  assumes "tailq m fo h xs"
  shows "follows (TAILQ_PREV fo m) (TAILQ_LAST m h) (rev xs)"
proof -
  have "follows (TAILQ_PREV fo m) (load32 m (load32 m (end_cell fo h ys + 4))) (rev ys)" if "xs = ys @ zs" for ys zs
    using that
  proof (induction ys arbitrary: zs rule: rev_induct)
    case Nil
    then show ?case using tailq_first_prev [OF assms] by simp
  next
    case (snoc y ys)
    have T: "tailq m fo h (ys @ y # zs)" using assms snoc.prems by simp
    have p: "TAILQ_PREV fo m y = load32 m (load32 m (end_cell fo h ys + 4))"
      using tailq_parts(6) [OF T] by (simp add: TAILQ_PREV_def tqe_prev_def tqh_last_def)
    have "load32 m (load32 m (y + fo + 4)) = y" "y \<noteq> 0" using tailq_parts(4,5,6) [OF T] by simp_all
    then show ?case using snoc.IH [of "y # zs"] snoc.prems p by simp
  qed
  from this [of xs "[]"] show ?thesis using assms by (simp add: TAILQ_LAST_def tqh_last_def tailq_def)
qed

end
