(* ===== verification/List_Kinds.thy ===== *)
theory List_Kinds
  imports Linked_Lists
begin

text \<open>
  The doubly linked lists, the singly linked lists and the singly linked tail queues of \<open>freebsd/sys/queue.h\<close>:
  for each kind the assertion that a header and its elements' link cells hold a given list, and for each macro
  the list it leaves.  The two kinds with a tail pointer share a queue interface, \<open>fifo\<close>.
\<close>
subsection \<open>Lists\<close>

definition llist :: "memory \<Rightarrow> u32 \<Rightarrow> u32 \<Rightarrow> u32 list \<Rightarrow> bool" where
  "llist m fo h xs \<longleftrightarrow> dlinks m fo h xs 0 \<and> sorted_wrt ap (h # dcells fo xs)"

lemma LIST_INIT_ok: "llist (LIST_INIT h m) fo h []"
  by (simp add: llist_def LIST_INIT_def)

lemma llist_parts:
  assumes "llist m fo h (xs @ ys)"
  shows "dlinks m fo h (xs @ ys) 0" "load32 m (end_cell fo h xs) = (case ys of [] \<Rightarrow> 0 | y # _ \<Rightarrow> y)"
    "ys \<noteq> [] \<Longrightarrow> List.hd ys \<noteq> 0" "ys \<noteq> [] \<Longrightarrow> load32 m (List.hd ys + fo + 4) = end_cell fo h xs"
proof -
  show L: "dlinks m fo h (xs @ ys) 0" using assms by (simp add: llist_def)
  then have "dlinks m fo (end_cell fo h xs) ys 0" by (auto simp: dlinks_append)
  then show "load32 m (end_cell fo h xs) = (case ys of [] \<Rightarrow> 0 | y # _ \<Rightarrow> y)" "ys \<noteq> [] \<Longrightarrow> List.hd ys \<noteq> 0"
      "ys \<noteq> [] \<Longrightarrow> load32 m (List.hd ys + fo + 4) = end_cell fo h xs"
    by (cases ys; simp)+
qed

lemma llist_insert:
  assumes L: "llist m fo h (xs @ ys)" and e: "e \<noteq> 0" and S: "sorted_wrt ap (h # dcells fo (xs @ e # ys))"
    and ws: "set ws = {(end_cell fo h xs, e), (e + fo + 4, end_cell fo h xs), (e + fo, load32 m (end_cell fo h xs))} \<union>
      (if ys = [] then {} else {(List.hd ys + fo + 4, e + fo)})" "length ws = (if ys = [] then 3 else 4)"
  shows "llist (stores m ws) fo h (xs @ e # ys)"
proof -
  have S': "sorted_wrt ap (h # [] @ dcells fo (xs @ e # ys))" using S by simp
  note N = insert_cells [OF sorted_wrt_ap_distinct [OF S']]
  have im: "fst ` set ws = {end_cell fo h xs, e + fo + 4, e + fo} \<union> (if ys = [] then {} else {List.hd ys + fo + 4})"
    unfolding ws(1) by auto
  moreover have "card (fst ` set ws) = length ws" unfolding im ws(2) using N by (cases "ys = []") auto
  ultimately have dw: "distinct (map fst ws)" by (intro card_distinct) simp
  have "dlinks (stores m ws) fo h (xs @ e # ys) 0"
    by (rule dlinks_insert_stores [OF llist_parts(1) [OF L] e S' _ dw]) (use ws(1) im in auto)
  then show ?thesis using S by (simp add: llist_def)
qed

lemma LIST_INSERT_HEAD_ok:
  assumes "llist m fo h xs" "e \<noteq> 0" "sorted_wrt ap (h # dcells fo (e # xs))"
  shows "llist (LIST_INSERT_HEAD fo h e m) fo h (e # xs)"
proof -
  have L: "llist m fo h ([] @ xs)" and S: "sorted_wrt ap (h # dcells fo ([] @ e # xs))" using assms(1,3) by simp_all
  let ?p = "case xs of [] \<Rightarrow> 0 | y # _ \<Rightarrow> y"
  have op: "LIST_INSERT_HEAD fo h e m =
      stores m ([(e + fo, ?p)] @ (if xs = [] then [] else [(List.hd xs + fo + 4, e + fo)]) @ [(h, e), (e + fo + 4, h)])"
    using llist_parts(2,3) [OF L] assms(3)
    by (cases xs) (simp_all add: LIST_INSERT_HEAD_def LIST_FIRST_def LIST_NEXT_def Let_def)
  show ?thesis
    unfolding op using llist_parts(2) [OF L] by (intro llist_insert [OF L assms(2) S, simplified]) auto
qed

lemma LIST_INSERT_AFTER_ok:
  assumes "llist m fo h (xs @ x # ys)" "e \<noteq> 0" "sorted_wrt ap (h # dcells fo (xs @ x # e # ys))"
  shows "llist (LIST_INSERT_AFTER fo x e m) fo h (xs @ x # e # ys)"
proof -
  have L: "llist m fo h ((xs @ [x]) @ ys)" and S: "sorted_wrt ap (h # dcells fo ((xs @ [x]) @ e # ys))"
    using assms(1,3) by simp_all
  have A: "ap (e + fo) (x + fo)" using assms(3) by (auto simp: sorted_wrt_append ap_sym)
  let ?p = "case ys of [] \<Rightarrow> 0 | y # _ \<Rightarrow> y"
  have op: "LIST_INSERT_AFTER fo x e m =
      stores m ([(e + fo, ?p)] @ (if ys = [] then [] else [(List.hd ys + fo + 4, e + fo)]) @ [(x + fo, e), (e + fo + 4, x + fo)])"
    using llist_parts(2,3) [OF L] A by (cases ys) (simp_all add: LIST_INSERT_AFTER_def LIST_NEXT_def Let_def)
  show ?thesis
    unfolding op using llist_parts(2) [OF L] by (intro llist_insert [OF L assms(2) S, simplified]) auto
qed

lemma LIST_INSERT_BEFORE_ok:
  assumes "llist m fo h (xs @ y # ys)" "e \<noteq> 0" "sorted_wrt ap (h # dcells fo (xs @ e # y # ys))"
  shows "llist (LIST_INSERT_BEFORE fo y e m) fo h (xs @ e # y # ys)"
proof -
  have A: "ap (e + fo) (y + fo + 4)" "ap (e + fo + 4) (y + fo + 4)"
    using sorted_wrt_apD [OF assms(3)] sorted_wrt_ap_distinct [OF assms(3)] by auto
  have op: "LIST_INSERT_BEFORE fo y e m =
      stores m [(e + fo + 4, end_cell fo h xs), (e + fo, y), (end_cell fo h xs, e), (y + fo + 4, e + fo)]"
    using A llist_parts(4) [OF assms(1)] by (simp add: LIST_INSERT_BEFORE_def le_prev_def)
  show ?thesis
    unfolding op using llist_parts(2) [OF assms(1)] by (intro llist_insert [OF assms]) auto
qed

lemma LIST_REMOVE_ok:
  assumes "llist m fo h (xs @ e # ys)"
  shows "llist (LIST_REMOVE fo e m) fo h (xs @ ys)"
proof -
  let ?c = "end_cell fo h xs" and ?p = "case ys of [] \<Rightarrow> 0 | y # _ \<Rightarrow> y"
  let ?ws = "(if ys = [] then [] else [(List.hd ys + fo + 4, ?c)]) @ [(?c, ?p)]"
  have L: "llist m fo h ((xs @ [e]) @ ys)" using assms by simp
  have S: "sorted_wrt ap (h # [] @ dcells fo (xs @ e # ys))" using assms by (simp add: llist_def)
  note N = insert_cells [OF sorted_wrt_ap_distinct [OF S]] and P = llist_parts [OF L] and E = llist_parts(4) [OF assms, simplified]
  have "ap (List.hd ys + fo + 4) (e + fo)" "ap (List.hd ys + fo + 4) (e + fo + 4)" if "ys \<noteq> []"
    using sorted_wrt_apD [OF S, of "List.hd ys + fo + 4"] N(4) [OF that] that by (cases ys, auto)+
  then have op: "LIST_REMOVE fo e m = stores m ?ws"
    using P(2,3) E by (cases ys) (simp_all add: LIST_REMOVE_def LIST_NEXT_def le_prev_def Let_def)
  have "dlinks (stores m ?ws) fo h (xs @ ys) 0"
    using P(1,2) N(1,4) by (intro dlinks_remove_stores [OF _ S]) auto
  moreover have "sorted_wrt ap (h # dcells fo (xs @ ys))" using S by (auto simp: sorted_wrt_append)
  ultimately show ?thesis unfolding op by (simp add: llist_def)
qed
lemma llist_moved:
  assumes L: "llist m fo g zs" and S: "sorted_wrt ap S" and sub: "fst ` set ws \<subseteq> set S"
    and cells: "set (h # dcells fo zs) \<subseteq> set S" "sorted_wrt ap (h # dcells fo zs)"
    and other: "fst ` set ws \<inter> set (dcells fo zs) \<subseteq> (if zs = [] then {} else {List.hd zs + fo + 4})"
    and new: "map_of (rev ws) h = Some (case zs of [] \<Rightarrow> 0 | z # _ \<Rightarrow> z)"
      "zs \<noteq> [] \<longrightarrow> map_of (rev ws) (List.hd zs + fo + 4) = Some h"
  shows "llist (stores m ws) fo h zs"
proof (cases zs)
  case Nil
  then show ?thesis using new(1) cells load32_stores [OF S sub, of h m] by (simp add: llist_def)
next
  case (Cons z zs')
  have "dlinks m fo g (z # zs') 0" using L Cons by (simp add: llist_def)
  then have "dlinks (stores m ws) fo h (z # zs') 0"
    by (rule dlinks_new_start [OF _ S sub])
      (use cells sorted_wrt_ap_distinct [OF cells(2)] other new Cons in auto)
  then show ?thesis using cells Cons by (simp add: llist_def)
qed

lemma LIST_SWAP_ok:
  assumes L1: "llist m fo h1 xs" and L2: "llist m fo h2 ys" and S: "sorted_wrt ap ([h1, h2] @ dcells fo (xs @ ys))"
  shows "llist (LIST_SWAP fo h1 h2 m) fo h1 ys \<and> llist (LIST_SWAP fo h1 h2 m) fo h2 xs"
proof -
  let ?f = "\<lambda>zs. case zs of [] \<Rightarrow> 0 | z # _ \<Rightarrow> z"
  let ?b = "\<lambda>h zs. if zs = [] then [] else [(List.hd zs + fo + 4, h)]"
  let ?ws = "[(h1, ?f ys), (h2, ?f xs)] @ ?b h1 ys @ ?b h2 xs"
  note D = sorted_wrt_ap_distinct [OF S]
  have F: "load32 m h1 = ?f xs" "load32 m h2 = ?f ys" "xs \<noteq> [] \<longrightarrow> List.hd xs \<noteq> 0" "ys \<noteq> [] \<longrightarrow> List.hd ys \<noteq> 0"
    using llist_parts(2,3) [of m fo h1 "[]" xs] llist_parts(2,3) [of m fo h2 "[]" ys] L1 L2 by auto
  have sub: "fst ` set ?ws \<subseteq> set ([h1, h2] @ dcells fo (xs @ ys))" by (cases xs; cases ys) auto
  have ap: "ap h1 h2" "ys \<noteq> [] \<longrightarrow> ap (List.hd ys + fo + 4) h2" using S by (cases ys; auto simp: ap_sym)+
  have op: "LIST_SWAP fo h1 h2 m = stores m ?ws"
    using F ap by (cases xs; cases ys) (simp_all add: LIST_SWAP_def LIST_FIRST_def Let_def ap_sym)
  show ?thesis
    unfolding op
  proof
    show "llist (stores m ?ws) fo h1 ys"
      by (rule llist_moved [OF L2 S sub]) (use S D in \<open>cases xs; cases ys; auto simp: sorted_wrt_append\<close>)+
    show "llist (stores m ?ws) fo h2 xs"
      by (rule llist_moved [OF L1 S sub]) (use S D in \<open>cases xs; cases ys; auto simp: sorted_wrt_append\<close>)+
  qed
qed

subsection \<open>Singly-linked lists and tail queues\<close>

lemma slinks_keep:
  assumes "slinks m fo pa xs q" "sorted_wrt ap S" "fst ` set ws \<subseteq> set S" "set (pa # scells fo xs) \<subseteq> set S"
    "fst ` set ws \<inter> set (pa # scells fo xs) = {}"
  shows "slinks (stores m ws) fo pa xs q"
proof -
  have "load32 (stores m ws) c = load32 m c" if "c \<in> set (pa # scells fo xs)" for c
    using that assms by (intro load32_stores_notin [OF assms(2,3)]) auto
  then show ?thesis using assms(1) slinks_cong by blast
qed

lemma slinks_new_end:
  assumes "slinks m fo pa xs q" "sorted_wrt ap S" "fst ` set ws \<subseteq> set S" "set (pa # scells fo xs) \<subseteq> set S"
    "distinct (pa # scells fo xs)" "fst ` set ws \<inter> set (pa # scells fo xs) \<subseteq> {end_cell fo pa xs}"
    "map_of (rev ws) (end_cell fo pa xs) = Some v"
  shows "slinks (stores m ws) fo pa xs v"
  using assms(1,4,5,6,7)
proof (induction xs arbitrary: pa)
  case Nil
  then show ?case using load32_stores [OF assms(2,3), of pa m] by simp
next
  case (Cons x xs)
  have "end_cell fo (x + fo) xs \<in> set ((x + fo) # scells fo xs)" by (rule end_cell_in)
  then have "pa \<notin> fst ` set ws" using Cons.prems(3,4) by auto
  then have "load32 (stores m ws) pa = load32 m pa" using Cons.prems(2) by (intro load32_stores_notin [OF assms(2,3)]) auto
  then show ?case using Cons by auto
qed

lemma slinks_insert_stores:
  assumes L: "slinks m fo h (xs @ ys) q" and e: "e \<noteq> 0" and S: "sorted_wrt ap (h # X @ scells fo (xs @ e # ys))"
    and ws: "fst ` set ws \<subseteq> {end_cell fo h xs, e + fo} \<union> set X"
      "map_of (rev ws) (end_cell fo h xs) = Some e" "map_of (rev ws) (e + fo) = Some (load32 m (end_cell fo h xs))"
  shows "slinks (stores m ws) fo h (xs @ e # ys) q"
proof -
  note D = sorted_wrt_ap_distinct [OF S]
  have c: "end_cell fo h xs \<in> set (h # scells fo xs)" by (rule end_cell_in)
  have sub: "fst ` set ws \<subseteq> set (h # X @ scells fo (xs @ e # ys))" using ws(1) c by auto
  obtain p where p: "slinks m fo h xs p" "slinks m fo (end_cell fo h xs) ys q" using L by (auto simp: slinks_append)
  have "slinks (stores m ws) fo h xs e"
    by (rule slinks_new_end [OF p(1) S sub]) (use D ws in \<open>auto simp: disjoint_iff\<close>)
  moreover have "slinks (stores m ws) fo (e + fo) ys q"
  proof (cases ys)
    case Nil
    then show ?thesis using p(2) ws(3) load32_stores [OF S sub, of "e + fo" m] by simp
  next
    case (Cons y zs)
    have "({end_cell fo h xs, e + fo} \<union> set X) \<inter> set ((y + fo) # scells fo zs) = {}"
      using D c Cons by (auto simp: disjoint_iff)
    then have "fst ` set ws \<inter> set ((y + fo) # scells fo zs) = {}" using ws(1) by blast
    then have "slinks (stores m ws) fo (y + fo) zs q"
      by (rule slinks_keep [OF _ S sub, rotated 2]) (use p(2) Cons in auto)
    then show ?thesis using p(2) ws(3) load32_stores [OF S sub, of "e + fo" m] Cons by simp
  qed
  ultimately show ?thesis using e by (simp add: slinks_mid)
qed

lemma slinks_remove_stores:
  assumes L: "slinks m fo h (xs @ e # ys) q" and S: "sorted_wrt ap (h # X @ scells fo (xs @ e # ys))"
    and ws: "fst ` set ws \<subseteq> {end_cell fo h xs} \<union> set X"
      "map_of (rev ws) (end_cell fo h xs) = Some (load32 m (e + fo))"
  shows "slinks (stores m ws) fo h (xs @ ys) q"
proof -
  note D = sorted_wrt_ap_distinct [OF S]
  have c: "end_cell fo h xs \<in> set (h # scells fo xs)" by (rule end_cell_in)
  have sub: "fst ` set ws \<subseteq> set (h # X @ scells fo (xs @ e # ys))" using ws(1) c by auto
  have p: "slinks m fo h xs e" "slinks m fo (e + fo) ys q" using L by (auto simp: slinks_mid)
  have xs: "slinks (stores m ws) fo h xs (load32 m (e + fo))"
    by (rule slinks_new_end [OF p(1) S sub]) (use D ws in \<open>auto simp: disjoint_iff\<close>)
  moreover have "slinks (stores m ws) fo (end_cell fo h xs) ys q"
  proof (cases ys)
    case Nil
    then show ?thesis using p(2) slinks_end [OF xs] by simp
  next
    case (Cons y zs)
    have "({end_cell fo h xs, e + fo} \<union> set X) \<inter> set ((y + fo) # scells fo zs) = {}"
      using D c Cons by (auto simp: disjoint_iff)
    then have "fst ` set ws \<inter> set ((y + fo) # scells fo zs) = {}" using ws(1) by blast
    then have "slinks (stores m ws) fo (y + fo) zs q"
      by (rule slinks_keep [OF _ S sub, rotated 2]) (use p(2) Cons in auto)
    then show ?thesis using p(2) slinks_end [OF xs] Cons by simp
  qed
  ultimately show ?thesis by (auto simp: slinks_append)
qed

definition slist :: "memory \<Rightarrow> u32 \<Rightarrow> u32 \<Rightarrow> u32 list \<Rightarrow> bool" where
  "slist m fo h xs \<longleftrightarrow> slinks m fo h xs 0 \<and> sorted_wrt ap (h # scells fo xs)"

definition stailq :: "memory \<Rightarrow> u32 \<Rightarrow> u32 \<Rightarrow> u32 list \<Rightarrow> bool" where
  "stailq m fo h xs \<longleftrightarrow> slinks m fo h xs 0 \<and> load32 m (h + 4) = end_cell fo h xs \<and>
     sorted_wrt ap (h # (h + 4) # scells fo xs)"

lemma SLIST_INIT_ok: "slist (SLIST_INIT h m) fo h []"
  by (simp add: slist_def SLIST_INIT_def)

lemma STAILQ_INIT_ok: "ap h (h + 4) \<Longrightarrow> stailq (STAILQ_INIT h m) fo h []"
  by (simp add: stailq_def STAILQ_INIT_def)

lemma slist_parts:
  assumes "slist m fo h (xs @ ys)"
  shows "slinks m fo h (xs @ ys) 0" "load32 m (end_cell fo h xs) = (case ys of [] \<Rightarrow> 0 | y # _ \<Rightarrow> y)"
    "ys \<noteq> [] \<Longrightarrow> List.hd ys \<noteq> 0"
proof -
  show L: "slinks m fo h (xs @ ys) 0" using assms by (simp add: slist_def)
  then have "slinks m fo (end_cell fo h xs) ys 0" by (auto simp: slinks_append)
  then show "load32 m (end_cell fo h xs) = (case ys of [] \<Rightarrow> 0 | y # _ \<Rightarrow> y)" "ys \<noteq> [] \<Longrightarrow> List.hd ys \<noteq> 0"
    by (cases ys; simp)+
qed

lemma slist_insert:
  assumes "slist m fo h (xs @ ys)" "e \<noteq> 0" "sorted_wrt ap (h # scells fo (xs @ e # ys))"
  shows "slist (store32 (store32 m (e + fo) (load32 m (end_cell fo h xs))) (end_cell fo h xs) e) fo h (xs @ e # ys)"
proof -
  have S: "sorted_wrt ap (h # [] @ scells fo (xs @ e # ys))" using assms(3) by simp
  have "e + fo \<noteq> end_cell fo h xs" using sorted_wrt_ap_distinct [OF S] end_cell_in(1) [of fo h xs] by auto
  then have "slinks (stores m [(e + fo, load32 m (end_cell fo h xs)), (end_cell fo h xs, e)]) fo h (xs @ e # ys) 0"
    by (intro slinks_insert_stores [OF slist_parts(1) [OF assms(1)] assms(2) S]) auto
  then show ?thesis using assms(3) by (simp add: slist_def)
qed

lemma slist_remove:
  assumes "slist m fo h (xs @ e # ys)"
  shows "slist (store32 m (end_cell fo h xs) (load32 m (e + fo))) fo h (xs @ ys)"
proof -
  have S: "sorted_wrt ap (h # [] @ scells fo (xs @ e # ys))" using assms by (simp add: slist_def)
  have "slinks (stores m [(end_cell fo h xs, load32 m (e + fo))]) fo h (xs @ ys) 0"
    by (rule slinks_remove_stores [OF slist_parts(1) [OF assms] S]) auto
  moreover have "sorted_wrt ap (h # scells fo (xs @ ys))" using S by (auto simp: sorted_wrt_append)
  ultimately show ?thesis by (simp add: slist_def)
qed

lemma SLIST_INSERT_HEAD_ok:
  "slist m fo h xs \<Longrightarrow> e \<noteq> 0 \<Longrightarrow> sorted_wrt ap (h # scells fo (e # xs)) \<Longrightarrow>
   slist (SLIST_INSERT_HEAD fo h e m) fo h (e # xs)"
  using slist_insert [of m fo h "[]" xs e] by (simp add: SLIST_INSERT_HEAD_def SLIST_FIRST_def)

lemma SLIST_INSERT_AFTER_ok:
  "slist m fo h (xs @ x # ys) \<Longrightarrow> e \<noteq> 0 \<Longrightarrow> sorted_wrt ap (h # scells fo (xs @ x # e # ys)) \<Longrightarrow>
   slist (SLIST_INSERT_AFTER fo x e m) fo h (xs @ x # e # ys)"
  using slist_insert [of m fo h "xs @ [x]" ys e] by (simp add: SLIST_INSERT_AFTER_def SLIST_NEXT_def)

lemma SLIST_REMOVE_HEAD_ok: "slist m fo h (e # ys) \<Longrightarrow> slist (SLIST_REMOVE_HEAD fo h m) fo h ys"
  using slist_remove [of m fo h "[]" e ys] slist_parts(2) [of m fo h "[]" "e # ys"]
  by (simp add: SLIST_REMOVE_HEAD_def SLIST_FIRST_def SLIST_NEXT_def)

lemma SLIST_REMOVE_AFTER_ok: "slist m fo h (xs @ x # e # ys) \<Longrightarrow> slist (SLIST_REMOVE_AFTER fo x m) fo h (xs @ x # ys)"
  using slist_remove [of m fo h "xs @ [x]" e ys] slist_parts(2) [of m fo h "xs @ [x]" "e # ys"]
  by (simp add: SLIST_REMOVE_AFTER_def SLIST_NEXT_def)

text \<open>The search for the predecessor ends at it when the element is in the list but not first.\<close>

lemma find_prev_found:
  assumes "follows (nx m) p (xs @ x # e # ys)" "e \<notin> set xs" "e \<noteq> x"
  shows "find_prev nx m e p = Some x"
  using assms
proof (induction xs arbitrary: p)
  case Nil
  then show ?case by (simp add: find_prev.simps)
next
  case (Cons z zs)
  have "nx m z \<noteq> e" using Cons.prems by (cases zs) auto
  moreover have "find_prev nx m e (nx m z) = Some x" using Cons by simp
  ultimately show ?case using Cons.prems by (simp add: find_prev.simps [of nx m e z])
qed

lemma slinks_distinct:
  assumes "sorted_wrt ap (h # scells fo xs)"
  shows "distinct xs"
proof -
  have "distinct (scells fo xs)" using sorted_wrt_ap_distinct [OF assms] by simp
  then show ?thesis by (simp add: scells_def distinct_map)
qed

lemma SLIST_REMOVE_ok:
  assumes "slist m fo h (xs @ e # ys)"
  shows "\<exists>m'. SLIST_REMOVE fo h e m = Some m' \<and> slist m' fo h (xs @ ys)"
proof (cases xs rule: rev_cases)
  case Nil
  then show ?thesis
    using assms SLIST_REMOVE_HEAD_ok [of m fo h e ys] slist_parts(2) [of m fo h "[]" "e # ys"]
    by (simp add: SLIST_REMOVE_def SLIST_FIRST_def)
next
  case (snoc zs x)
  have L: "slist m fo h (zs @ x # e # ys)" using assms snoc by simp
  have "sorted_wrt ap (h # scells fo (zs @ x # e # ys))" using L unfolding slist_def by blast
  then have d: "distinct (zs @ x # e # ys)" by (rule slinks_distinct)
  have F: "follows (SLIST_NEXT fo m) (SLIST_FIRST m h) (zs @ x # e # ys)"
    using L slinks_follows by (simp add: slist_def SLIST_NEXT_def [abs_def] SLIST_FIRST_def)
  have "SLIST_FIRST m h \<noteq> e" using F d by (cases zs) auto
  moreover have "find_prev (SLIST_NEXT fo) m e (SLIST_FIRST m h) = Some x" using find_prev_found [of "SLIST_NEXT fo", OF F] d by auto
  ultimately show ?thesis using SLIST_REMOVE_AFTER_ok [OF L] snoc by (simp add: SLIST_REMOVE_def)
qed

text \<open>A singly-linked tail queue is such a list with the address of its last link.\<close>

lemma stailq_slist: "stailq m fo h xs \<Longrightarrow> slist m fo h xs"
  by (simp add: stailq_def slist_def)

lemma stailq_insert:
  assumes T: "stailq m fo h (xs @ ys)" and e: "e \<noteq> 0" and S: "sorted_wrt ap (h # (h + 4) # scells fo (xs @ e # ys))"
    and ws: "ws = (if ys = [] then [(e + fo, load32 m (end_cell fo h xs)), (h + 4, e + fo), (end_cell fo h xs, e)]
        else [(e + fo, load32 m (end_cell fo h xs)), (end_cell fo h xs, e)]) \<or>
      ys = [] \<and> ws = [(e + fo, load32 m (end_cell fo h xs)), (end_cell fo h xs, e), (h + 4, e + fo)]"
  shows "stailq (stores m ws) fo h (xs @ e # ys)"
proof -
  have S': "sorted_wrt ap (h # [h + 4] @ scells fo (xs @ e # ys))" using S by simp
  note D = sorted_wrt_ap_distinct [OF S']
  have c: "end_cell fo h xs \<in> set (h # scells fo xs)" by (rule end_cell_in)
  have ne: "end_cell fo h xs \<noteq> e + fo" "end_cell fo h xs \<noteq> h + 4" "e + fo \<noteq> h + 4" using D c by auto
  have "slinks m fo h (xs @ ys) 0" "load32 m (h + 4) = end_cell fo h (xs @ ys)" using T by (simp_all add: stailq_def)
  moreover from this have "slinks (stores m ws) fo h (xs @ e # ys) 0"
    by (intro slinks_insert_stores [OF _ e S']) (use ws ne in \<open>auto split: if_splits\<close>)
  moreover have "load32 (stores m ws) (h + 4) = (if ys = [] then e + fo else load32 m (h + 4))"
    by (subst load32_stores [OF S]) (use ws ne c in \<open>auto split: if_splits\<close>)
  ultimately show ?thesis using S by (cases ys) (simp_all add: stailq_def)
qed

lemma stailq_remove:
  assumes T: "stailq m fo h (xs @ e # ys)"
    and ws: "ws = (end_cell fo h xs, load32 m (e + fo)) # (if ys = [] then [(h + 4, end_cell fo h xs)] else [])"
  shows "stailq (stores m ws) fo h (xs @ ys)"
proof -
  have S: "sorted_wrt ap (h # [h + 4] @ scells fo (xs @ e # ys))" using T by (simp add: stailq_def)
  have c: "end_cell fo h xs \<in> set (h # scells fo xs)" by (rule end_cell_in)
  have ne: "end_cell fo h xs \<noteq> h + 4" using sorted_wrt_ap_distinct [OF S] c by auto
  have L: "slinks m fo h (xs @ e # ys) 0" "load32 m (h + 4) = end_cell fo h (xs @ e # ys)" using T by (simp_all add: stailq_def)
  have "slinks (stores m ws) fo h (xs @ ys) 0" by (rule slinks_remove_stores [OF L(1) S]) (use ws ne in \<open>auto split: if_splits\<close>)
  moreover have "load32 (stores m ws) (h + 4) = (if ys = [] then end_cell fo h xs else load32 m (h + 4))"
    by (subst load32_stores [OF S]) (use ws ne c in \<open>auto split: if_splits\<close>)
  moreover have "sorted_wrt ap (h # (h + 4) # scells fo (xs @ ys))" using S by (auto simp: sorted_wrt_append)
  ultimately show ?thesis using L(2) by (cases ys) (simp_all add: stailq_def)
qed

lemma stailq_parts:
  assumes "stailq m fo h (xs @ ys)"
  shows "load32 m (end_cell fo h xs) = (case ys of [] \<Rightarrow> 0 | y # _ \<Rightarrow> y)" "ys \<noteq> [] \<Longrightarrow> List.hd ys \<noteq> 0"
    "load32 m (h + 4) = end_cell fo h (xs @ ys)" "ap h (h + 4)"
  using slist_parts(2,3) [OF stailq_slist [OF assms]] assms by (simp_all add: stailq_def)

lemma STAILQ_INSERT_TAIL_ok:
  assumes "stailq m fo h xs" "e \<noteq> 0" "sorted_wrt ap (h # (h + 4) # scells fo (xs @ [e]))"
  shows "stailq (STAILQ_INSERT_TAIL fo h e m) fo h (xs @ [e])"
proof -
  have T: "stailq m fo h (xs @ [])" using assms(1) by simp
  have "ap (e + fo) (h + 4)" using assms(3) by (auto simp: ap_sym)
  then have op: "STAILQ_INSERT_TAIL fo h e m = stores m [(e + fo, 0), (end_cell fo h xs, e), (h + 4, e + fo)]"
    using stailq_parts(3) [OF T] by (simp add: STAILQ_INSERT_TAIL_def stqh_last_def)
  show ?thesis unfolding op using stailq_parts(1) [OF T] by (intro stailq_insert [OF T assms(2,3)]) auto
qed

lemma STAILQ_INSERT_HEAD_ok:
  assumes "stailq m fo h xs" "e \<noteq> 0" "sorted_wrt ap (h # (h + 4) # scells fo (e # xs))"
  shows "stailq (STAILQ_INSERT_HEAD fo h e m) fo h (e # xs)"
proof -
  let ?p = "case xs of [] \<Rightarrow> 0 | y # _ \<Rightarrow> y"
  have T: "stailq m fo h ([] @ xs)" and S: "sorted_wrt ap (h # (h + 4) # scells fo ([] @ e # xs))" using assms(1,3) by simp_all
  have op: "STAILQ_INSERT_HEAD fo h e m =
      stores m (if xs = [] then [(e + fo, ?p), (h + 4, e + fo), (h, e)] else [(e + fo, ?p), (h, e)])"
    using stailq_parts(1,2) [OF T]
    by (cases xs) (simp_all add: STAILQ_INSERT_HEAD_def STAILQ_FIRST_def STAILQ_NEXT_def Let_def)
  show ?thesis
    unfolding op using stailq_parts(1) [OF T] by (intro stailq_insert [OF T assms(2) S, simplified]) auto
qed

lemma STAILQ_INSERT_AFTER_ok:
  assumes "stailq m fo h (xs @ x # ys)" "e \<noteq> 0" "sorted_wrt ap (h # (h + 4) # scells fo (xs @ x # e # ys))"
  shows "stailq (STAILQ_INSERT_AFTER fo h x e m) fo h (xs @ x # e # ys)"
proof -
  let ?p = "case ys of [] \<Rightarrow> 0 | y # _ \<Rightarrow> y"
  have T: "stailq m fo h ((xs @ [x]) @ ys)" and S: "sorted_wrt ap (h # (h + 4) # scells fo ((xs @ [x]) @ e # ys))"
    using assms(1,3) by simp_all
  have op: "STAILQ_INSERT_AFTER fo h x e m =
      stores m (if ys = [] then [(e + fo, ?p), (h + 4, e + fo), (x + fo, e)] else [(e + fo, ?p), (x + fo, e)])"
    using stailq_parts(1,2) [OF T] by (cases ys) (simp_all add: STAILQ_INSERT_AFTER_def STAILQ_NEXT_def Let_def)
  show ?thesis
    unfolding op using stailq_parts(1) [OF T] by (intro stailq_insert [OF T assms(2) S, simplified]) auto
qed

lemma STAILQ_REMOVE_HEAD_ok:
  assumes "stailq m fo h (e # ys)"
  shows "stailq (STAILQ_REMOVE_HEAD fo h m) fo h ys"
proof -
  have T: "stailq m fo h ([] @ e # ys)" and T': "stailq m fo h ([e] @ ys)" using assms by simp_all
  have op: "STAILQ_REMOVE_HEAD fo h m = stores m ((h, load32 m (e + fo)) # (if ys = [] then [(h + 4, h)] else []))"
    using stailq_parts(1) [OF T] stailq_parts(1,2) [OF T']
    by (cases ys) (simp_all add: STAILQ_REMOVE_HEAD_def STAILQ_FIRST_def STAILQ_NEXT_def Let_def)
  show ?thesis unfolding op by (rule stailq_remove [OF T, simplified]) simp
qed

lemma STAILQ_REMOVE_AFTER_ok:
  assumes "stailq m fo h (xs @ x # e # ys)"
  shows "stailq (STAILQ_REMOVE_AFTER fo h x m) fo h (xs @ x # ys)"
proof -
  have T: "stailq m fo h ((xs @ [x]) @ e # ys)" and T': "stailq m fo h ((xs @ [x, e]) @ ys)" using assms by simp_all
  have op: "STAILQ_REMOVE_AFTER fo h x m =
      stores m ((x + fo, load32 m (e + fo)) # (if ys = [] then [(h + 4, x + fo)] else []))"
    using stailq_parts(1) [OF T] stailq_parts(1,2) [OF T']
    by (cases ys) (simp_all add: STAILQ_REMOVE_AFTER_def STAILQ_NEXT_def Let_def)
  show ?thesis unfolding op by (rule stailq_remove [OF T, simplified]) simp
qed

lemma STAILQ_REMOVE_ok:
  assumes "stailq m fo h (xs @ e # ys)"
  shows "\<exists>m'. STAILQ_REMOVE fo h e m = Some m' \<and> stailq m' fo h (xs @ ys)"
proof (cases xs rule: rev_cases)
  case Nil
  then show ?thesis
    using assms STAILQ_REMOVE_HEAD_ok [of m fo h e ys] stailq_parts(1) [of m fo h "[]" "e # ys"]
    by (simp add: STAILQ_REMOVE_def STAILQ_FIRST_def)
next
  case (snoc zs x)
  have L: "stailq m fo h (zs @ x # e # ys)" using assms snoc by simp
  have "sorted_wrt ap (h # scells fo (zs @ x # e # ys))" using stailq_slist [OF L] unfolding slist_def by blast
  then have d: "distinct (zs @ x # e # ys)" by (rule slinks_distinct)
  have F: "follows (STAILQ_NEXT fo m) (STAILQ_FIRST m h) (zs @ x # e # ys)"
    using L slinks_follows by (simp add: stailq_def STAILQ_NEXT_def [abs_def] STAILQ_FIRST_def)
  have "STAILQ_FIRST m h \<noteq> e" using F d by (cases zs) auto
  moreover have "find_prev (STAILQ_NEXT fo) m e (STAILQ_FIRST m h) = Some x"
    using find_prev_found [of "STAILQ_NEXT fo", OF F] d by auto
  ultimately show ?thesis using STAILQ_REMOVE_AFTER_ok [OF L] snoc by (simp add: STAILQ_REMOVE_def)
qed

lemma STAILQ_LAST_ok: "stailq m fo h xs \<Longrightarrow> STAILQ_LAST fo m h = (if xs = [] then 0 else last xs)"
  using stailq_parts(1,2,3) [of m fo h "[]" xs]
  by (cases xs) (auto simp: STAILQ_LAST_def STAILQ_EMPTY_def stqh_last_def end_cell_last)
lemma slinks_moved:
  assumes "slinks m fo g zs 0" "sorted_wrt ap S" "fst ` set ws \<subseteq> set S" "set (h # scells fo zs) \<subseteq> set S"
    "fst ` set ws \<inter> set (scells fo zs) = {}" "map_of (rev ws) h = Some (case zs of [] \<Rightarrow> 0 | z # _ \<Rightarrow> z)"
  shows "slinks (stores m ws) fo h zs 0"
proof (cases zs)
  case Nil
  then show ?thesis using assms(4,6) load32_stores [OF assms(2,3), of h m] by simp
next
  case (Cons z zs')
  have "slinks (stores m ws) fo (z + fo) zs' 0"
    using assms(1,4,5) Cons by (intro slinks_keep [OF _ assms(2,3)]) auto
  then show ?thesis using assms(1,4,6) load32_stores [OF assms(2,3), of h m] Cons by simp
qed

lemma SLIST_SWAP_ok:
  assumes L: "slist m fo h1 xs" "slist m fo h2 ys" and S: "sorted_wrt ap ([h1, h2] @ scells fo (xs @ ys))"
  shows "slist (SLIST_SWAP h1 h2 m) fo h1 ys \<and> slist (SLIST_SWAP h1 h2 m) fo h2 xs"
proof -
  let ?f = "\<lambda>zs. case zs of [] \<Rightarrow> 0 | z # _ \<Rightarrow> z" and ?ws = "[(h1, load32 m h2), (h2, load32 m h1)]"
  have f: "load32 m h1 = ?f xs" "load32 m h2 = ?f ys"
    using slist_parts(2) [of m fo h1 "[]" xs] slist_parts(2) [of m fo h2 "[]" ys] L by simp_all
  note D = sorted_wrt_ap_distinct [OF S]
  have op: "SLIST_SWAP h1 h2 m = stores m ?ws" by (simp add: SLIST_SWAP_def SLIST_FIRST_def Let_def)
  have "slinks (stores m ?ws) fo h1 ys 0"
    by (rule slinks_moved [of m fo h2, OF _ S]) (use L D f in \<open>auto simp: slist_def\<close>)
  moreover have "slinks (stores m ?ws) fo h2 xs 0"
    by (rule slinks_moved [of m fo h1, OF _ S]) (use L D f in \<open>auto simp: slist_def\<close>)
  ultimately show ?thesis unfolding op using S by (auto simp: slist_def sorted_wrt_append)
qed

lemma STAILQ_CONCAT_ok:
  assumes T: "stailq m fo h1 xs" "stailq m fo h2 ys" and S: "sorted_wrt ap ([h1, h1 + 4, h2, h2 + 4] @ scells fo (xs @ ys))"
  shows "stailq (STAILQ_CONCAT h1 h2 m) fo h1 (xs @ ys) \<and> stailq (STAILQ_CONCAT h1 h2 m) fo h2 []"
proof (cases ys)
  case Nil
  then show ?thesis using T by (simp add: STAILQ_CONCAT_def STAILQ_EMPTY_def stailq_def)
next
  case (Cons y zs)
  let ?c = "end_cell fo h1 xs" and ?ws = "[(end_cell fo h1 xs, y), (h1 + 4, end_cell fo h2 ys), (h2, 0), (h2 + 4, h2)]"
  note D = sorted_wrt_ap_distinct [OF S]
  have L: "slinks m fo h1 xs 0" "slinks m fo h2 (y # zs) 0" "load32 m (h1 + 4) = ?c" "load32 m (h2 + 4) = end_cell fo h2 ys"
    using T Cons by (simp_all add: stailq_def)
  have c: "?c \<in> set (h1 # scells fo xs)" by (rule end_cell_in)
  have sub: "fst ` set ?ws \<subseteq> set ([h1, h1 + 4, h2, h2 + 4] @ scells fo (xs @ ys))" using c by auto
  have ne: "?c \<notin> set [h1 + 4, h2, h2 + 4] \<union> set (scells fo ys)" using c D by (auto simp: disjoint_iff)
  have dw: "distinct (map fst ?ws)" using D ne by auto
  have ap: "ap ?c (h1 + 4)" "ap ?c (h2 + 4)" "ap (h1 + 4) (h2 + 4)"
    by (rule sorted_wrt_apD [OF S]; use c ne D in auto)+
  have op: "STAILQ_CONCAT h1 h2 m = stores m ?ws"
    using L ap by (simp add: STAILQ_CONCAT_def STAILQ_EMPTY_def STAILQ_FIRST_def stqh_last_def STAILQ_INIT_def Let_def)
  have "slinks (stores m ?ws) fo h1 xs y"
    by (rule slinks_new_end [OF L(1) S sub]) (use D ne in auto)
  moreover have "slinks (stores m ?ws) fo (y + fo) zs 0"
    by (rule slinks_keep [OF _ S sub]) (use L(2) D ne Cons in auto)
  moreover have "y \<noteq> 0" using L(2) by simp
  moreover have "load32 (stores m ?ws) (h1 + 4) = end_cell fo h1 (xs @ ys)" "load32 (stores m ?ws) h2 = 0"
      "load32 (stores m ?ws) (h2 + 4) = h2"
    by (rule load32_stores_in [OF S sub dw]; use Cons in simp)+
  ultimately show ?thesis unfolding op using S Cons by (simp add: stailq_def slinks_mid)
qed

subsection \<open>The queue interface\<close>

text \<open>
  What a client of a tail queue relies on: it can be initialised, elements can be appended, and a walk
  along the links visits them in order.  Both tail queues of the header provide it.
\<close>

locale fifo =
  fixes repr :: "memory \<Rightarrow> u32 \<Rightarrow> u32 \<Rightarrow> u32 list \<Rightarrow> bool" and cells :: "u32 \<Rightarrow> u32 list \<Rightarrow> u32 list"
    and init :: "u32 \<Rightarrow> memory \<Rightarrow> memory" and insert_tail :: "u32 \<Rightarrow> u32 \<Rightarrow> u32 \<Rightarrow> memory \<Rightarrow> memory"
    and front :: "memory \<Rightarrow> u32 \<Rightarrow> u32" and after :: "u32 \<Rightarrow> memory \<Rightarrow> u32 \<Rightarrow> u32"
  assumes init_ok: "ap h (h + 4) \<Longrightarrow> repr (init h m) fo h []"
    and insert_ok: "repr m fo h xs \<Longrightarrow> e \<noteq> 0 \<Longrightarrow> sorted_wrt ap (h # (h + 4) # cells fo (xs @ [e])) \<Longrightarrow>
      repr (insert_tail fo h e m) fo h (xs @ [e])"
    and visit: "repr m fo h xs \<Longrightarrow> follows (after fo m) (front m h) xs"
    and cells_append: "cells fo (xs @ ys) = cells fo xs @ cells fo ys"
begin

lemma fill_repr:
  "repr m fo h xs \<Longrightarrow> 0 \<notin> set es \<Longrightarrow> sorted_wrt ap (h # (h + 4) # cells fo (xs @ es)) \<Longrightarrow>
   repr (fold (insert_tail fo h) es m) fo h (xs @ es)"
proof (induction es arbitrary: m xs)
  case (Cons e es)
  have "sorted_wrt ap (h # (h + 4) # cells fo (xs @ [e]))" "sorted_wrt ap (h # (h + 4) # cells fo ((xs @ [e]) @ es))"
    using Cons.prems(3) cells_append [of fo "xs @ [e]" es] by (simp_all add: sorted_wrt_append)
  moreover from this have "repr (insert_tail fo h e m) fo h (xs @ [e])" using Cons.prems by (intro insert_ok) auto
  ultimately show ?case using Cons.IH [of "insert_tail fo h e m" "xs @ [e]"] Cons.prems(2) by simp
qed simp

lemma fill_visits:
  assumes "0 \<notin> set es" "sorted_wrt ap (h # (h + 4) # cells fo es)"
  shows "repr (fold (insert_tail fo h) es (init h m)) fo h es"
    and "follows (after fo (fold (insert_tail fo h) es (init h m))) (front (fold (insert_tail fo h) es (init h m)) h) es"
proof -
  have "repr (init h m) fo h []" using assms(2) by (intro init_ok) simp
  then show r: "repr (fold (insert_tail fo h) es (init h m)) fo h es" using fill_repr [of "init h m" fo h "[]" es] assms by simp
  show "follows (after fo (fold (insert_tail fo h) es (init h m))) (front (fold (insert_tail fo h) es (init h m)) h) es"
    by (rule visit [OF r])
qed

end

interpretation tq: fifo tailq dcells TAILQ_INIT TAILQ_INSERT_TAIL TAILQ_FIRST TAILQ_NEXT
  by unfold_locales (simp_all add: TAILQ_INIT_ok TAILQ_INSERT_TAIL_ok tailq_follows del: sorted_wrt.simps)

interpretation stq: fifo stailq scells STAILQ_INIT STAILQ_INSERT_TAIL STAILQ_FIRST STAILQ_NEXT
proof
  fix m fo h xs assume "stailq m fo h xs"
  then show "follows (STAILQ_NEXT fo m) (STAILQ_FIRST m h) xs"
    using slinks_follows by (simp add: stailq_def STAILQ_NEXT_def [abs_def] STAILQ_FIRST_def)
qed (simp_all add: STAILQ_INIT_ok STAILQ_INSERT_TAIL_ok del: sorted_wrt.simps)

end
