(* ===== verification/Tail_Queue_Refinement.thy ===== *)
theory Tail_Queue_Refinement
  imports List_Kinds
begin

text \<open>
  Tail queues against their abstract specification: sequences of insertions and removals act on the list a
  header stands for, and the traversal macros visit that list in order.
\<close>

subsection \<open>Sequences of tail queue operations refine operations on lists\<close>

datatype tq_op = Ins_Head u32 | Ins_Tail u32 | Ins_After u32 u32 | Ins_Before u32 u32 | Remove u32

primrec op_tailq :: "u32 \<Rightarrow> u32 \<Rightarrow> tq_op \<Rightarrow> memory \<Rightarrow> memory" where
  "op_tailq fo h (Ins_Head e) m = TAILQ_INSERT_HEAD fo h e m"
| "op_tailq fo h (Ins_Tail e) m = TAILQ_INSERT_TAIL fo h e m"
| "op_tailq fo h (Ins_After x e) m = TAILQ_INSERT_AFTER fo h x e m"
| "op_tailq fo h (Ins_Before x e) m = TAILQ_INSERT_BEFORE fo x e m"
| "op_tailq fo h (Remove e) m = TAILQ_REMOVE fo h e m"

primrec ins_at :: "bool \<Rightarrow> u32 \<Rightarrow> u32 \<Rightarrow> u32 list \<Rightarrow> u32 list" where
  "ins_at aft x e [] = []"
| "ins_at aft x e (y # ys) = (if y = x then (if aft then x # e # ys else e # x # ys) else y # ins_at aft x e ys)"

text \<open>On lists: an element is inserted only when it is not there, the others must be there.\<close>

primrec op_list :: "tq_op \<Rightarrow> u32 list \<Rightarrow> u32 list option" where
  "op_list (Ins_Head e) xs = (if e \<notin> set xs then Some (e # xs) else None)"
| "op_list (Ins_Tail e) xs = (if e \<notin> set xs then Some (xs @ [e]) else None)"
| "op_list (Ins_After x e) xs = (if e \<notin> set xs \<and> x \<in> set xs then Some (ins_at True x e xs) else None)"
| "op_list (Ins_Before x e) xs = (if e \<notin> set xs \<and> x \<in> set xs then Some (ins_at False x e xs) else None)"
| "op_list (Remove e) xs = (if e \<in> set xs then Some (remove1 e xs) else None)"

primrec op_new :: "tq_op \<Rightarrow> u32 list" where
  "op_new (Ins_Head e) = [e]" | "op_new (Ins_Tail e) = [e]" | "op_new (Ins_After x e) = [e]"
| "op_new (Ins_Before x e) = [e]" | "op_new (Remove e) = []"

fun run_list :: "tq_op list \<Rightarrow> u32 list \<Rightarrow> u32 list option" where
  "run_list [] xs = Some xs"
| "run_list (a # as) xs = Option.bind (op_list a xs) (run_list as)"

lemma ins_at_split: "x \<notin> set xs \<Longrightarrow> ins_at aft x e (xs @ x # ys) = xs @ (if aft then [x, e] else [e, x]) @ ys"
  by (induction xs) auto

text \<open>Any distinct elements of a pool whose cells are apart have cells that are apart.\<close>

lemma dcells_subset: "set xs \<subseteq> set E \<Longrightarrow> set (dcells fo xs) \<subseteq> set (dcells fo E)"
  by (auto simp: dcells_def)

lemma sorted_wrt_ap_subset:
  assumes "sorted_wrt ap S" "set cs \<subseteq> set S" "distinct cs"
  shows "sorted_wrt ap cs"
  using assms(2,3)
proof (induction cs)
  case (Cons c cs)
  have "ap c d" if "d \<in> set cs" for d using sorted_wrt_apD [OF assms(1)] Cons.prems that by auto
  then show ?case using Cons by auto
qed simp

lemma dcells_distinct:
  assumes "distinct (dcells fo E)" "set xs \<subseteq> set E" "distinct xs"
  shows "distinct (dcells fo xs)"
  using assms(2,3)
proof (induction xs)
  case (Cons x xs)
  obtain A B where E: "E = A @ x # B" using Cons.prems(1) by (auto simp: in_set_conv_decomp)
  have "set (dcells fo xs) \<subseteq> set (dcells fo (A @ B))"
    using Cons.prems E by (intro dcells_subset) auto
  then show ?case using Cons assms(1) E by auto
qed simp

lemma pool_cells:
  assumes "sorted_wrt ap (h # (h + 4) # dcells fo E)" "set xs \<subseteq> set E" "distinct xs"
  shows "sorted_wrt ap (h # (h + 4) # dcells fo xs)"
proof (rule sorted_wrt_ap_subset [OF assms(1)])
  have D: "distinct (h # (h + 4) # dcells fo E)" by (rule sorted_wrt_ap_distinct [OF assms(1)])
  then have "distinct (dcells fo xs)" using dcells_distinct assms(2,3) by auto
  then show "set (h # (h + 4) # dcells fo xs) \<subseteq> set (h # (h + 4) # dcells fo E)" "distinct (h # (h + 4) # dcells fo xs)"
    using D dcells_subset [OF assms(2), of fo] by auto
qed

lemma op_list_pool:
  assumes "op_list a xs = Some ys" "distinct xs"
  shows "distinct ys \<and> set ys \<subseteq> set xs \<union> set (op_new a)"
proof -
  have ins: "distinct (ins_at aft x e xs) \<and> set (ins_at aft x e xs) \<subseteq> insert e (set xs)" if x: "x \<in> set xs" and e: "e \<notin> set xs" for x e aft
  proof -
    obtain us vs where "xs = us @ x # vs" "x \<notin> set us" using split_list_first [OF x] by blast
    then show ?thesis using assms(2) e by (auto simp: ins_at_split)
  qed
  show ?thesis
    using assms set_remove1_subset [of _ xs] by (cases a) (auto split: if_splits dest: ins)
qed

lemma op_refines:
  assumes "tailq m fo h xs" "op_list a xs = Some ys" "0 \<notin> set (op_new a)" "sorted_wrt ap (h # (h + 4) # dcells fo ys)"
  shows "tailq (op_tailq fo h a m) fo h ys"
proof (cases a)
  case (Ins_After x e)
  then have x: "x \<in> set xs" "ys = ins_at True x e xs" using assms(2) by (simp_all split: if_splits)
  then obtain us vs where "xs = us @ x # vs" "x \<notin> set us" using split_list_first [OF x(1)] by blast
  moreover from this have "ys = us @ x # e # vs" using x(2) by (simp add: ins_at_split)
  ultimately show ?thesis using Ins_After assms(1,3,4) by (simp add: TAILQ_INSERT_AFTER_ok del: sorted_wrt.simps)
next
  case (Ins_Before x e)
  then have x: "x \<in> set xs" "ys = ins_at False x e xs" using assms(2) by (simp_all split: if_splits)
  then obtain us vs where "xs = us @ x # vs" "x \<notin> set us" using split_list_first [OF x(1)] by blast
  moreover from this have "ys = us @ e # x # vs" using x(2) by (simp add: ins_at_split)
  ultimately show ?thesis using Ins_Before assms(1,3,4) by (simp add: TAILQ_INSERT_BEFORE_ok del: sorted_wrt.simps)
next
  case (Remove e)
  then have e: "e \<in> set xs" "ys = remove1 e xs" using assms(2) by (simp_all split: if_splits)
  then obtain us vs where "xs = us @ e # vs" "e \<notin> set us" using split_list_first [OF e(1)] by blast
  moreover from this have "ys = us @ vs" using e(2) by (simp add: remove1_append)
  ultimately show ?thesis using Remove assms(1) by (simp add: TAILQ_REMOVE_ok)
next
  case (Ins_Head e)
  then have "ys = e # xs" "e \<noteq> 0" using assms(2,3) by (simp_all split: if_splits)
  then show ?thesis using Ins_Head assms(1,4) by (simp add: TAILQ_INSERT_HEAD_ok del: sorted_wrt.simps cells_simps)
next
  case (Ins_Tail e)
  then have "ys = xs @ [e]" "e \<noteq> 0" using assms(2,3) by (simp_all split: if_splits)
  then show ?thesis using Ins_Tail assms(1,4) by (simp add: TAILQ_INSERT_TAIL_ok del: sorted_wrt.simps cells_simps)
qed

text \<open>
  Property C17.  Any sequence of insertions and removals on a tail queue, over elements of a pool whose link
  cells do not overlap, does to the queue what it does to the abstract list.
\<close>

theorem tailq_refines_list:
  assumes "tailq m fo h xs" "run_list ops xs = Some ys" "sorted_wrt ap (h # (h + 4) # dcells fo E)"
    "set xs \<subseteq> set E" "\<forall>a \<in> set ops. set (op_new a) \<subseteq> set E - {0}"
  shows "tailq (fold (op_tailq fo h) ops m) fo h ys"
proof -
  have "distinct (h # (h + 4) # dcells fo xs)" using assms(1) sorted_wrt_ap_distinct unfolding tailq_def by blast
  then have "distinct xs" by (induction xs) (auto simp: dcells_def)
  with assms(1,2,4,5) show ?thesis
  proof (induction ops arbitrary: m xs)
    case (Cons a ops)
    obtain zs where zs: "op_list a xs = Some zs" "run_list ops zs = Some ys"
      using Cons.prems(2) by (auto simp: Option.bind_eq_Some_conv)
    have P: "distinct zs" "set zs \<subseteq> set E"
      using op_list_pool [OF zs(1) Cons.prems(5)] Cons.prems(3,4) by auto
    have "tailq (op_tailq fo h a m) fo h zs"
      by (rule op_refines [OF Cons.prems(1) zs(1) _ pool_cells [OF assms(3) P(2,1)]]) (use Cons.prems(4) in auto)
    then show ?case using Cons.IH [of "op_tailq fo h a m" zs] zs(2) P Cons.prems(4) by simp
  qed simp
qed

text \<open>Cells at the listed addresses are apart when they are at least four bytes apart in the list's order.\<close>

lemma apart_ascending:
  assumes "sorted_wrt (\<lambda>a b. a + 4 \<le> b) ns" "\<forall>n \<in> set ns. n + 4 \<le> 4294967296"
  shows "sorted_wrt ap (map of_nat ns)"
  using assms by (induction ns) (auto simp: ap_def intro!: sep_of_nat)

theorem tailq_refines_list_witness:
  "tailq (fold (op_tailq 8 0x1000) [Ins_Tail 0x2000, Ins_Head 0x3000, Ins_After 0x3000 0x4000, Remove 0x2000]
     (TAILQ_INIT 0x1000 (\<lambda>_. 0))) 8 0x1000 [0x3000, 0x4000]"
proof -
  have "sorted_wrt ap (map of_nat [0x1000, 0x1004, 0x2008, 0x200C, 0x3008, 0x300C, 0x4008, 0x400C])"
    by (rule apart_ascending) simp_all
  then have S: "sorted_wrt ap (0x1000 # (0x1000 + 4) # dcells 8 [0x2000, 0x3000, 0x4000])" by simp
  then have "tailq (TAILQ_INIT 0x1000 (\<lambda>_. 0)) 8 0x1000 []" by (intro TAILQ_INIT_ok) simp
  from tailq_refines_list [OF this _ S, of "[Ins_Tail 0x2000, Ins_Head 0x3000, Ins_After 0x3000 0x4000, Remove 0x2000]"]
  show ?thesis by simp
qed

text \<open>
  The elements appended to a fresh tail queue are visited by \<open>TAILQ_FOREACH\<close> in the order of
  their insertion and by \<open>TAILQ_FOREACH_REVERSE\<close> in the opposite order, and both loops end.
\<close>

theorem tailq_traversal:
  assumes "0 \<notin> set es" "sorted_wrt ap (h # (h + 4) # dcells fo es)"
    "m' = fold (TAILQ_INSERT_TAIL fo h) es (TAILQ_INIT h m)"
  shows "TAILQ_FOREACH (\<lambda>_. m') fo h (\<lambda>x seen. Some (seen @ [x])) [] = Some es \<and>
    TAILQ_FOREACH_REVERSE (\<lambda>_. m') fo h (\<lambda>x seen. Some (seen @ [x])) [] = Some (rev es)"
proof -
  have T: "tailq m' fo h es" "follows (TAILQ_NEXT fo m') (TAILQ_FIRST m' h) es"
    unfolding assms(3) by (rule tq.fill_visits [OF assms(1,2)])+
  have f: "foldo (\<lambda>x seen. Some (seen @ [x])) xs acc = Some (acc @ xs)" for xs and acc :: "u32 list"
    by (induction xs arbitrary: acc) auto
  have "foreach_loop (\<lambda>_. m') nx (\<lambda>x seen. Some (seen @ [x])) p [] = Some xs" if "follows (nx m') p xs" for nx p xs
    by (subst foreach_loop_fold [OF that, of "\<lambda>_. True"]) (simp_all add: f)
  from this [of "TAILQ_NEXT fo", OF T(2)] this [of "TAILQ_PREV fo", OF tailq_follows_back [OF T(1)]]
  show ?thesis by (simp add: TAILQ_FOREACH_def TAILQ_FOREACH_REVERSE_def)
qed

theorem tailq_traversal_witness:
  "TAILQ_FOREACH (\<lambda>_. fold (TAILQ_INSERT_TAIL 8 0x1000) [0x2000, 0x3000] (TAILQ_INIT 0x1000 (\<lambda>_. 0))) 8 0x1000
     (\<lambda>x seen. Some (seen @ [x])) [] = Some [0x2000, 0x3000]"
proof -
  have "sorted_wrt ap (map of_nat [0x1000, 0x1004, 0x2008, 0x200C, 0x3008, 0x300C])"
    by (rule apart_ascending) simp_all
  then have "sorted_wrt ap (0x1000 # (0x1000 + 4) # dcells 8 [0x2000, 0x3000])" by simp
  from tailq_traversal [OF _ this refl, of "\<lambda>_. 0"] show ?thesis by simp
qed

end
