(* ===== verification/Tar_Parse.thy ===== *)
theory Tar_Parse
  imports Fresh_Blocks Tar Tail_Queue_Refinement
begin

text \<open>
  Correctness of the archive parser of \<open>tar.c\<close>: the size field, one header, the whole archive.  The archive
  lies below the kernel heap, whose last block is the hole from which the parser's structures are taken.
\<close>

unbundle bit_operations_syntax

subsection \<open>The size field\<close>

definition octal :: "nat \<Rightarrow> nat \<Rightarrow> u8 list" where
  "octal k n = map (\<lambda>i. 0x30 + of_nat (n div 8 ^ (k - 1 - i) mod 8)) [0..<k]"

lemma length_octal [simp]: "length (octal k n) = k"
  by (simp add: octal_def)

lemma octal_Suc: "octal (Suc k) n = octal k (n div 8) @ [0x30 + of_nat (n mod 8)]"
proof -
  have "n div 8 div 8 ^ (k - 1 - i) = n div 8 ^ (k - i)" if "i < k" for i
  proof -
    have "k - i = Suc (k - 1 - i)" using that by simp
    then show ?thesis by (metis div_mult2_eq power_Suc)
  qed
  then show ?thesis by (auto simp: octal_def)
qed

lemma digit_value: "n < 8 \<Longrightarrow> scast (0x30 + of_nat n :: u8) - 0x30 = (of_nat n :: u32)"
proof -
  assume "n < 8"
  then have "n \<in> {0, 1, 2, 3, 4, 5, 6, 7}" by auto
  then show ?thesis by auto
qed

lemma getsize_loop_octal:
  assumes "bytes_at m a (octal k n)" "n < 8 ^ k"
  shows "getsize_loop m (of_nat a) k cnt sz = sz + cnt * of_nat n"
  using assms
proof (induction k arbitrary: n cnt sz)
  case (Suc k)
  have B: "bytes_at m a (octal k (n div 8))" "m (of_nat (a + k)) = 0x30 + of_nat (n mod 8)"
    using Suc.prems(1) by (simp_all add: octal_Suc bytes_at_append bytes_at_Cons)
  have "n div 8 < 8 ^ k" using Suc.prems(2) by (simp add: less_mult_imp_div_less mult.commute)
  note IH = Suc.IH [OF B(1) this]
  have d: "scast (load8 m (of_nat a + of_nat k)) - 0x30 = (of_nat (n mod 8) :: u32)"
    using B(2) digit_value [of "n mod 8"] by (simp add: load8_def)
  have "n = n mod 8 + 8 * (n div 8)" by simp
  then have "(of_nat n :: u32) = of_nat (n mod 8) + 8 * of_nat (n div 8)" by (metis of_nat_add of_nat_mult of_nat_numeral)
  then show ?case using IH [of "cnt * 8"] d by (simp add: algebra_simps)
qed simp

text \<open>
  \<open>getsize\<close> inverts the octal notation of the size field: eleven digits denote every size
  below \<open>8 ^ 11\<close>, taken modulo \<open>2 ^ 32\<close>.
\<close>

lemma getsize_octal:
  assumes "bytes_at m a (octal 11 n)" "n < 8 ^ 11"
  shows "getsize m (of_nat a) = of_nat n"
  using getsize_loop_octal [OF assms] by (simp add: getsize_def)

subsection \<open>Archives\<close>

type_synonym tfile = "u8 list \<times> u8 list"     \<comment> \<open>name and contents\<close>

definition tar_next :: "nat \<Rightarrow> nat \<Rightarrow> nat" where
  "tar_next p len = p + 512 + 512 * ((len + 511) div 512)"

text \<open>The header of a file: its name, filled up with a NUL when there is room, and its size.\<close>

definition header_of :: "memory \<Rightarrow> nat \<Rightarrow> tfile \<Rightarrow> bool" where
  "header_of m p f \<longleftrightarrow> fst f \<noteq> [] \<and> length (fst f) \<le> 100 \<and> 0 \<notin> set (fst f) \<and>
     bytes_at m p (fst f) \<and> (length (fst f) < 100 \<longrightarrow> m (of_nat (p + length (fst f))) = 0) \<and>
     bytes_at m (p + 124) (octal 11 (length (snd f)))"

fun tar_at :: "memory \<Rightarrow> nat \<Rightarrow> tfile list \<Rightarrow> bool" where
  "tar_at m p [] \<longleftrightarrow> m (of_nat p) = 0"
| "tar_at m p (f # fs) \<longleftrightarrow>
     header_of m p f \<and> bytes_at m (p + 512) (snd f) \<and> tar_at m (tar_next p (length (snd f))) fs"

fun tar_end :: "nat \<Rightarrow> tfile list \<Rightarrow> nat" where
  "tar_end p [] = p + 1"
| "tar_end p (f # fs) = tar_end (tar_next p (length (snd f))) fs"

lemma tar_next_le: "p + 512 + len \<le> tar_next p len"
  by (simp add: tar_next_def)

lemma tar_end_le: "p < tar_end p fs"
proof (induction fs arbitrary: p)
  case (Cons f fs)
  then have "tar_next p (length (snd f)) < tar_end p (f # fs)" by simp
  then show ?case using tar_next_le [of p "length (snd f)"] by linarith
qed simp

lemma tar_end_Cons: "p + 512 + length (snd f) < tar_end p (f # fs)"
  using tar_end_le [of "tar_next p (length (snd f))" fs] tar_next_le [of p "length (snd f)"] by simp

lemma header_agree:
  assumes "\<And>y. p \<le> unat y \<Longrightarrow> unat y < p + 512 \<Longrightarrow> m' y = m y" "p + 512 \<le> 4294967296"
  shows "header_of m' p f = header_of m p f"
proof (cases "length (fst f) \<le> 100")
  case True
  have "bytes_at m' p (fst f) = bytes_at m p (fst f)" using True assms by (intro bytes_at_agree) auto
  moreover have "bytes_at m' (p + 124) (octal 11 (length (snd f))) = bytes_at m (p + 124) (octal 11 (length (snd f)))"
    using assms by (intro bytes_at_agree) auto
  moreover have "m' (of_nat (p + length (fst f))) = m (of_nat (p + length (fst f)))"
    using True assms by (simp add: unat_of_nat_u32 del: of_nat_add)
  ultimately show ?thesis by (simp add: header_of_def)
qed (simp add: header_of_def)

lemma tar_at_agree:
  assumes "\<And>y. p \<le> unat y \<Longrightarrow> unat y < tar_end p fs \<Longrightarrow> m' y = m y" "tar_end p fs \<le> 4294967296"
  shows "tar_at m' p fs = tar_at m p fs"
  using assms
proof (induction fs arbitrary: p)
  case Nil
  then show ?case by (simp add: unat_of_nat_u32)
next
  case (Cons f fs)
  let ?p = "tar_next p (length (snd f))"
  have b: "p + 512 + length (snd f) < tar_end p (f # fs)" by (rule tar_end_Cons)
  have n: "p \<le> ?p" by (simp add: tar_next_def)
  have "tar_at m' ?p fs = tar_at m ?p fs" using Cons.prems n by (intro Cons.IH) auto
  moreover have "header_of m' p f = header_of m p f" using Cons.prems b by (intro header_agree) auto
  moreover have "bytes_at m' (p + 512) (snd f) = bytes_at m (p + 512) (snd f)"
    using Cons.prems b by (intro bytes_at_agree) auto
  ultimately show ?case by simp
qed

subsection \<open>One file\<close>

abbreviation qcells :: "u32 \<Rightarrow> u32 list \<Rightarrow> u32 list" where "qcells q xs \<equiv> q # (q + 4) # dcells tf_entries xs"

definition in_cells :: "u32 list \<Rightarrow> u32 \<Rightarrow> bool" where
  "in_cells cs y \<longleftrightarrow> (\<exists>c \<in> set cs. in_range c 4 y)"

lemma tail_insert_frame:
  assumes T: "tailq m fo h xs" and S: "sorted_wrt ap (h # (h + 4) # dcells fo (xs @ [e]))"
    and y: "\<not> in_cells (h # (h + 4) # dcells fo (xs @ [e])) y"
  shows "TAILQ_INSERT_TAIL fo h e m y = m y"
proof -
  have A: "ap (e + fo) (h + 4)" "ap (e + fo + 4) (h + 4)" using S by (auto simp: ap_sym)
  have l: "load32 m (h + 4) = end_cell fo h xs" using T by (simp add: tailq_def)
  have c: "end_cell fo h xs \<in> set (h # dcells fo xs)" by (rule end_cell_in)
  have "\<not> in_range (e + fo) 4 y" "\<not> in_range (e + fo + 4) 4 y" "\<not> in_range (h + 4) 4 y" "\<not> in_range (end_cell fo h xs) 4 y"
    using y c by (auto simp: in_cells_def)
  then show ?thesis using A l by (simp add: TAILQ_INSERT_TAIL_def Let_def tqh_last_def store32_other)
qed

lemma tailq_agree:
  assumes "tailq m fo h xs" "\<And>y. in_cells (h # (h + 4) # dcells fo xs) y \<Longrightarrow> m' y = m y"
  shows "tailq m' fo h xs"
proof -
  have "load32 m' c = load32 m c" if "c \<in> set (h # (h + 4) # dcells fo xs)" for c
    using that assms(2) by (intro load32_cong) (auto simp: in_cells_def)
  moreover from this have "dlinks m' fo h xs 0 = dlinks m fo h xs 0" by (intro dlinks_cong) auto
  ultimately show ?thesis using assms(1) by (simp add: tailq_def)
qed

text \<open>A \<open>struct tar_file\<close> for a file whose header is at \<open>p\<close>.\<close>

definition tf_ok :: "memory \<Rightarrow> nat \<Rightarrow> nat \<Rightarrow> tfile \<Rightarrow> bool" where
  "tf_ok m x p f \<longleftrightarrow> cstr m (of_nat x) (fst f) \<and> length (fst f) \<le> 100 \<and>
     tf_datasiz m (of_nat x) = of_nat (length (snd f)) \<and> tf_data m (of_nat x) = of_nat (p + 512)"

lemma tf_ok_agree:
  assumes "tf_ok m x p f" "\<And>y. x \<le> unat y \<Longrightarrow> unat y < x + 112 \<Longrightarrow> m' y = m y" "x + 112 \<le> 4294967296"
  shows "tf_ok m' x p f"
proof -
  have l: "length (fst f) \<le> 100" using assms(1) by (simp add: tf_ok_def)
  have "bytes_at m' x (fst f @ [0]) = bytes_at m x (fst f @ [0])" using l assms by (intro bytes_at_agree) auto
  moreover have "load32 m' (of_nat (x + k)) = load32 m (of_nat (x + k))" if "k + 4 \<le> 112" for k
    using that assms by (intro load32_cong_nat) auto
  from this [of 104] this [of 108] have "load32 m' (of_nat x + 104) = load32 m (of_nat x + 104)"
    "load32 m' (of_nat x + 108) = load32 m (of_nat x + 108)" by simp_all
  ultimately show ?thesis using assms(1) by (simp add: tf_ok_def cstr_bytes tf_datasiz_def tf_data_def)
qed

lemma fill_tf:
  fixes x p :: nat and m :: memory and f :: tfile
  defines "m' \<equiv> store32 (store32 (memcpy m (of_nat x) (of_nat p) 100) (of_nat x + 104) (of_nat (length (snd f)))) (of_nat x + 108) (of_nat (p + 512))"
  assumes h: "header_of m p f" and z: "\<forall>y. x \<le> unat y \<longrightarrow> unat y < x + 120 \<longrightarrow> m y = 0"
    and b: "p + 512 \<le> x" "x + 120 \<le> 4294967296"
  shows "tf_ok m' x p f" "\<not> (x \<le> unat y \<and> unat y < x + 112) \<Longrightarrow> m' y = m y"
proof -
  let ?c = "memcpy m (of_nat x) (of_nat p) 100"
  have ux: "unat (of_nat x :: u32) = x" and up: "unat (of_nat p :: u32) = p" using b by (simp_all add: unat_of_nat_u32)
  have sp: "sep (of_nat x) (unat (100 :: u32)) (of_nat p) (unat (100 :: u32))"
    using sep_of_nat [of p 100 x 100] b by (simp add: sep_sym)
  have c: "?c y = (if x \<le> unat y \<and> unat y < x + 100 then m (of_nat p + (y - of_nat x)) else m y)" for y
    using memcpy_eq [OF sp, of m y] b in_range_nat [of x 100 y] by simp
  have a: "(of_nat x :: u32) + 104 = of_nat (x + 104)" "(of_nat x :: u32) + 108 = of_nat (x + 108)" by simp_all
  have out: "m' y = ?c y" if "\<not> (x + 104 \<le> unat y \<and> unat y < x + 112)" for y
  proof -
    have "\<not> in_range (of_nat (x + 104)) 4 y" "\<not> in_range (of_nat (x + 108)) 4 y"
      using that b by (auto simp: in_range_nat simp del: of_nat_add)
    then show ?thesis unfolding m'_def a by (simp add: store32_other del: of_nat_add)
  qed
  show "\<not> (x \<le> unat y \<and> unat y < x + 112) \<Longrightarrow> m' y = m y" using out [of y] c [of y] by auto
  have copied: "m' (of_nat (x + i)) = (if i < 100 then m (of_nat (p + i)) else 0)" if "i \<le> 100" for i
  proof -
    have u: "unat (of_nat (x + i) :: u32) = x + i" using b that by (intro unat_of_nat_u32) linarith
    have "(of_nat p :: u32) + (of_nat (x + i) - of_nat x) = of_nat (p + i)" by simp
    then show ?thesis using out [of "of_nat (x + i)"] c [of "of_nat (x + i)"] z that u by (auto simp del: of_nat_add)
  qed
  have n: "length (fst f) \<le> 100" "0 \<notin> set (fst f)" "bytes_at m p (fst f)"
      "length (fst f) < 100 \<longrightarrow> m (of_nat (p + length (fst f))) = 0"
    using h by (simp_all add: header_of_def)
  have "bytes_at m' x (fst f @ [0])"
    unfolding bytes_at_def
  proof (intro allI impI)
    fix i assume "i < length (fst f @ [0])"
    then have i: "i \<le> length (fst f)" by simp
    with n copied [of i] show "m' (of_nat (x + i)) = (fst f @ [0]) ! i"
      by (cases "i = length (fst f)") (auto simp: nth_append bytes_at_def simp del: of_nat_add)
  qed
  moreover have "load32 m' (of_nat x + 108) = of_nat (p + 512)" unfolding m'_def by (rule load32_store32_same)
  moreover have "sep (of_nat (x + 108)) 4 (of_nat (x + 104)) 4"
    using sep_of_nat [of "x + 104" 4 "x + 108" 4] b by (simp add: sep_sym del: of_nat_add)
  then have "load32 m' (of_nat x + 104) = of_nat (length (snd f))"
    unfolding m'_def a by (simp add: load32_store32_other load32_store32_same del: of_nat_add)
  ultimately show "tf_ok m' x p f" using n(1,2) by (simp add: tf_ok_def cstr_bytes tf_datasiz_def tf_data_def)
qed

lemma next_header:
  assumes "tar_next p len < 4294967296"
  shows "(let p' = of_nat p + (of_nat len div 512 + 1) * 512 in if (of_nat len :: u32) mod 512 \<noteq> 0 then p' + 512 else p') =
    (of_nat (tar_next p len) :: u32)"
proof -
  have l: "len < 4294967296" using assms tar_next_le [of p len] by linarith
  have d: "(of_nat len :: u32) div 512 = of_nat (len div 512)" "(of_nat len :: u32) mod 512 = of_nat (len mod 512)"
    using l by (simp_all add: u32_eq_iff unat_div unat_mod unat_of_nat_u32 le_less_trans [OF div_le_dividend]
        le_less_trans [OF mod_less_eq_dividend])
  have z: "(of_nat (len mod 512) :: u32) \<noteq> 0 \<longleftrightarrow> len mod 512 \<noteq> 0"
    using l by (simp add: u32_eq_iff unat_of_nat_u32 le_less_trans [OF mod_less_eq_dividend])
  have e: "(len + 511) div 512 = len div 512 + (if len mod 512 = 0 then 0 else 1)"
  proof -
    define q r where "q = len div 512" and "r = len mod 512"
    then have "len = 512 * q + r" "r < 512" by simp_all
    then show ?thesis unfolding q_def [symmetric] r_def [symmetric] by (intro div_nat_eqI) auto
  qed
  show ?thesis unfolding d Let_def z by (simp add: tar_next_def e algebra_simps)
qed

definition cells_used :: "'a vm_state_scheme \<Rightarrow> block list \<Rightarrow> u32 list \<Rightarrow> bool" where
  "cells_used s us cs \<longleftrightarrow> (\<forall>y. in_cells cs y \<longrightarrow> in_payload (hstart (kheap s)) us y)"

lemma cells_bounds:
  "cells_used s us cs \<Longrightarrow> in_cells cs y \<Longrightarrow> hstart (kheap s) + 12 \<le> unat y \<and> unat y + 8 < htop s us"
  using in_payload_bounds [of "hstart (kheap s)" us y] by (simp add: cells_used_def htop_def)

lemma cell_below:
  assumes "cells_used s us cs" "c \<in> set cs" "htop s us \<le> 4294967296"
  shows "hstart (kheap s) + 12 \<le> unat c" "unat c + 12 \<le> htop s us"
proof -
  have P: "in_payload (hstart (kheap s)) us y" if "in_range c 4 y" for y
    using assms(1,2) that by (auto simp: cells_used_def in_cells_def)
  have "unat (3 :: u32) < 4" by simp
  then have r: "in_range c 4 c" "in_range c 4 (c + 3)" by (simp_all add: in_range_def)
  note B = in_payload_bounds [OF P [OF r(1)]] in_payload_bounds [OF P [OF r(2)]]
  show "hstart (kheap s) + 12 \<le> unat c" using B(1) by simp
  have "unat (c + 3) = unat c + 3"
    using B assms(3) by (simp add: unat_add_u32 htop_def mod_if split: if_splits)
  then show "unat c + 12 \<le> htop s us" using B(2) by (simp add: htop_def)
qed

lemma cells_sorted_snoc:
  assumes S: "sorted_wrt ap (qcells q xs)" and C: "cells_used s us (qcells q xs)" and x: "htop s us \<le> x" "x + 120 \<le> 4294967296"
  shows "sorted_wrt ap (qcells q (xs @ [of_nat x]))"
proof -
  have a: "of_nat x + tf_entries = of_nat (x + 112)" "(of_nat (x + 112) :: u32) + 4 = of_nat (x + 116)"
    by (simp_all add: tf_entries_def)
  have "ap c (of_nat (x + k))" if "c \<in> set (qcells q xs)" "k = 112 \<or> k = 116" for c k
    unfolding ap_def using sep_of_nat [of "unat c" 4 "x + k" 4] cell_below [OF C that(1)] x that(2) by auto
  moreover have "ap (of_nat (x + 112)) (of_nat (x + 116))"
    unfolding ap_def using sep_of_nat [of "x + 112" 4 "x + 116" 4] x by simp
  ultimately show ?thesis using S by (simp add: sorted_wrt_append a del: of_nat_add)
qed

lemma cells_snoc:
  assumes "x + 120 \<le> 4294967296"
  shows "in_cells (qcells q (xs @ [of_nat x])) y \<longleftrightarrow> in_cells (qcells q xs) y \<or> (x + 112 \<le> unat y \<and> unat y < x + 120)"
proof -
  have a: "of_nat x + tf_entries = of_nat (x + 112)" "(of_nat (x + 112) :: u32) + 4 = of_nat (x + 116)"
    by (simp_all add: tf_entries_def)
  have r: "in_range (of_nat (x + 112)) 4 y \<longleftrightarrow> x + 112 \<le> unat y \<and> unat y < x + 112 + 4"
      "in_range (of_nat (x + 116)) 4 y \<longleftrightarrow> x + 116 \<le> unat y \<and> unat y < x + 116 + 4"
    by (rule in_range_nat, use assms in simp)+
  show ?thesis by (auto simp: in_cells_def a r simp del: of_nat_add)
qed

lemma tar_add_ok:
  assumes F: "fresh s us n" and n: "160 \<le> n" and T: "tailq (mem s) tf_entries q xs" and C: "cells_used s us (qcells q xs)"
    and h: "header_of (mem s) p f" and b: "tar_next p (length (snd f)) \<le> unat (sa_array (h_index (kheap s)))"
  obtains s' where "tar_add (Suc k) q (of_nat p) s = Inr (Some (of_nat (tar_next p (length (snd f)))), s')" "heap_step s s'"
    "fresh s' (us @ [(140, False)]) (n - 140)" "tailq (mem s') tf_entries q (xs @ [of_nat (htop s us + 12)])"
    "cells_used s' (us @ [(140, False)]) (qcells q (xs @ [of_nat (htop s us + 12)]))"
    "tf_ok (mem s') (htop s us + 12) p f" "keeps s us n (in_cells (qcells q xs)) s'"
proof -
  let ?x = "htop s us + 12" and ?len = "length (snd f)"
  note FB = fresh_bounds [OF F]
  have pb: "p + 512 + ?len \<le> unat (sa_array (h_index (kheap s)))" using b tar_next_le [of p ?len] by linarith
  have px: "p + 512 \<le> ?x" "?x + 120 \<le> 4294967296" using pb FB n by (simp_all add: htop_def)
  have low: "unat y < unat (sa_array (h_index (kheap s)))" if "unat y < p + 512" for y :: u32 using that pb by linarith
  obtain s1 where A: "kmalloc0 (Suc k) tar_file_size s = Inr (of_nat ?x, s1)" "heap_step s s1"
      "fresh s1 (us @ [(140, False)]) (n - 140)" "keeps s us n (\<lambda>_. False) s1"
      "\<forall>y. ?x \<le> unat y \<longrightarrow> unat y < ?x + 120 \<longrightarrow> mem s1 y = 0"
    using kmalloc0_step [OF F, of tar_file_size k] n by (auto simp: tar_file_size_def)
  note st = heap_stepD [OF A(2)]
  have used: "mem s1 y = mem s y" if "hstart (kheap s) \<le> unat y" "unat y < htop s us" for y
    using keeps_used [OF F A(4) that] by simp
  have low1: "mem s1 y = mem s y" if "unat y < p + 512" for y
    using keeps_low [OF F, of s1 y] A(4) low [OF that] by (auto simp: keeps_def)
  have cell: "mem s1 y = mem s y" if "in_cells (qcells q xs) y" for y
    using cells_bounds [OF C that] by (intro used) auto
  have h1: "header_of (mem s1) p f" using h header_agree [of p "mem s1" "mem s" f] low1 px by auto
  have siz: "getsize (mem s) (of_nat p + tar_header_size) = of_nat ?len"
  proof -
    have "?len < 4294967296" using pb FB(3) unat_u32_le [of "h_addr_start (kheap s)"] by linarith
    then have "?len < 8 ^ 11" by simp
    then have "getsize_loop (mem s) (of_nat (p + 124)) 11 1 0 = 0 + 1 * of_nat ?len"
      using h by (intro getsize_loop_octal) (simp add: header_of_def)
    then show ?thesis by (simp add: getsize_def tar_header_size_def)
  qed
  define m2 where "m2 = store32 (store32 (memcpy (mem s1) (of_nat ?x) (of_nat p) 100) (of_nat ?x + 104) (of_nat ?len)) (of_nat ?x + 108) (of_nat (p + 512))"
  have tf2: "tf_ok m2 ?x p f" and m2: "\<And>y. \<not> (?x \<le> unat y \<and> unat y < ?x + 112) \<Longrightarrow> m2 y = mem s1 y"
    using fill_tf [OF h1 A(5) px] unfolding m2_def by blast+
  have cb: "unat y < htop s us" if "in_cells (qcells q xs) y" for y
    using cells_bounds [OF C that] by simp
  have T2: "tailq m2 tf_entries q xs"
    by (rule tailq_agree [OF T]) (use m2 cell cb in fastforce)
  define m3 where "m3 = TAILQ_INSERT_TAIL tf_entries q (of_nat ?x) m2"
  have S: "sorted_wrt ap (qcells q (xs @ [of_nat ?x]))"
    using T px FB by (intro cells_sorted_snoc [OF _ C]) (simp_all add: tailq_def)
  have nz: "of_nat ?x \<noteq> (0 :: u32)" using px by (simp add: u32_eq_iff unat_of_nat_u32 del: of_nat_add)
  have T3: "tailq m3 tf_entries q (xs @ [of_nat ?x])" unfolding m3_def by (rule TAILQ_INSERT_TAIL_ok [OF T2 nz S])
  have cx: "in_cells (qcells q (xs @ [of_nat ?x])) y \<longleftrightarrow> in_cells (qcells q xs) y \<or> (?x + 112 \<le> unat y \<and> unat y < ?x + 120)" for y
    using px(2) by (rule cells_snoc)
  have m3: "m3 y = m2 y" if "\<not> in_cells (qcells q xs) y" "\<not> (?x + 112 \<le> unat y \<and> unat y < ?x + 120)" for y
    unfolding m3_def using tail_insert_frame [OF T2 S, of y] cx that by blast
  let ?s' = "s1\<lparr>mem := m3\<rparr>"
  have U: "cells_used s1 (us @ [(140, False)]) (qcells q (xs @ [of_nat ?x]))"
    unfolding cells_used_def cx st(2) in_payload_append in_payload_single
    using C by (auto simp: cells_used_def htop_def)
  show thesis
  proof (rule that [of ?s'])
    have "tar_next p ?len < 4294967296" using b FB(3) unat_u32_le [of "h_addr_start (kheap s)"] by linarith
    from next_header [OF this]
    show "tar_add (Suc k) q (of_nat p) s = Inr (Some (of_nat (tar_next p ?len)), ?s')"
      using A(1) nz unfolding tar_add_def siz Let_def m3_def m2_def by simp
    show "heap_step s ?s'" by (rule heap_step_mem [OF A(2)])
    show "fresh ?s' (us @ [(140, False)]) (n - 140)"
    proof (rule fresh_write [OF A(3)])
      fix y assume "m3 y \<noteq> mem s1 y"
      then have "in_cells (qcells q (xs @ [of_nat ?x])) y \<or> (?x \<le> unat y \<and> unat y < ?x + 112)" using m3 m2 cx by metis
      then show "in_payload (hstart (kheap s1)) (us @ [(140, False)]) y"
        using U unfolding cells_used_def st(2) in_payload_append in_payload_single by (auto simp: htop_def)
    qed
    show "tailq (mem ?s') tf_entries q (xs @ [of_nat ?x])" using T3 by simp
    show "cells_used ?s' (us @ [(140, False)]) (qcells q (xs @ [of_nat ?x]))" using U by (simp add: cells_used_def)
    have "m3 y = m2 y" if "?x \<le> unat y" "unat y < ?x + 112" for y using that cb [of y] by (intro m3) auto
    then have "tf_ok m3 ?x p f" using px by (intro tf_ok_agree [OF tf2]) auto
    then show "tf_ok (mem ?s') ?x p f" by simp
    show "keeps s us n (in_cells (qcells q xs)) ?s'"
      unfolding keeps_def
    proof (intro allI impI)
      fix y assume y: "\<not> in_index (kheap s) y" "\<not> (htop s us \<le> unat y \<and> unat y < htop s us + n)" "\<not> in_cells (qcells q xs) y"
      have o: "\<not> (?x \<le> unat y \<and> unat y < ?x + 112)" "\<not> (?x + 112 \<le> unat y \<and> unat y < ?x + 120)" using y(2) n by auto
      have "m3 y = mem s1 y" using m3 [OF y(3) o(2)] m2 [OF o(1)] by simp
      then show "mem ?s' y = mem s y" using A(4) y by (simp add: keeps_def)
    qed
  qed
qed

subsection \<open>The whole archive\<close>

text \<open>The \<open>struct tar_file\<close>s of an archive lie 140 bytes apart: 120 bytes and their block's header and footer.\<close>

primrec tfs :: "nat \<Rightarrow> nat \<Rightarrow> u32 list" where
  "tfs x 0 = []"
| "tfs x (Suc k) = of_nat x # tfs (x + 140) k"

fun parsed :: "memory \<Rightarrow> nat \<Rightarrow> tfile list \<Rightarrow> nat \<Rightarrow> bool" where
  "parsed m p [] x \<longleftrightarrow> True"
| "parsed m p (f # fs) x \<longleftrightarrow> tf_ok m x p f \<and> parsed m (tar_next p (length (snd f))) fs (x + 140)"

lemma length_tfs [simp]: "length (tfs x k) = k"
  by (induction k arbitrary: x) auto

lemma tar_loop_ok:
  assumes "fresh s us n" "140 * length fs + 20 \<le> n" "tailq (mem s) tf_entries q xs" "cells_used s us (qcells q xs)"
    "tar_at (mem s) p fs" "tar_end p fs \<le> unat (sa_array (h_index (kheap s)))"
  shows "\<exists>s'. tar_loop (Suc k) q (of_nat p) i s = Some (Inr (i + of_nat (length fs), Some q, s')) \<and> heap_step s s' \<and>
    fresh s' (us @ replicate (length fs) (140, False)) (n - 140 * length fs) \<and>
    tailq (mem s') tf_entries q (xs @ tfs (htop s us + 12) (length fs)) \<and>
    cells_used s' (us @ replicate (length fs) (140, False)) (qcells q (xs @ tfs (htop s us + 12) (length fs))) \<and>
    parsed (mem s') p fs (htop s us + 12) \<and> keeps s us n (in_cells (qcells q xs)) s'"
  using assms
proof (induction fs arbitrary: s us n xs p i)
  case Nil
  then show ?case by (subst tar_loop.simps) (simp add: load8_def heap_step_refl)
next
  case (Cons f fs)
  let ?p = "tar_next p (length (snd f))" and ?x = "htop s us + 12"
  have h: "header_of (mem s) p f" "tar_at (mem s) ?p fs" using Cons.prems(5) by simp_all
  have e: "?p < tar_end p (f # fs)" using tar_end_le [of ?p fs] by simp
  have n: "160 \<le> n" using Cons.prems(2) by simp
  obtain s1 where A: "tar_add (Suc k) q (of_nat p) s = Inr (Some (of_nat ?p), s1)" "heap_step s s1"
      "fresh s1 (us @ [(140, False)]) (n - 140)" "tailq (mem s1) tf_entries q (xs @ [of_nat ?x])"
      "cells_used s1 (us @ [(140, False)]) (qcells q (xs @ [of_nat ?x]))"
      "tf_ok (mem s1) ?x p f" "keeps s us n (in_cells (qcells q xs)) s1"
    using tar_add_ok [OF Cons.prems(1) n Cons.prems(3,4) h(1), of k] e Cons.prems(6) by auto
  note st = heap_stepD [OF A(2)] and FB = fresh_bounds [OF Cons.prems(1)]
  have low: "mem s1 y = mem s y" if "unat y < tar_end p (f # fs)" for y
  proof -
    have "keeps s us n (\<lambda>y. hstart (kheap s) \<le> unat y) s1"
      using A(7) cells_bounds [OF Cons.prems(4)] by (fastforce simp: keeps_def)
    then show ?thesis using that Cons.prems(6) by (intro keeps_low [OF Cons.prems(1)]) auto
  qed
  have "tar_end ?p fs \<le> 4294967296"
    using Cons.prems(6) FB(3) unat_u32_le [of "h_addr_start (kheap s)"] by (simp del: unat_u32_le)
  then have R1: "tar_at (mem s1) ?p fs"
    using h(2) low by (subst tar_at_agree [of _ _ _ "mem s"]) auto
  have R2: "140 * length fs + 20 \<le> n - 140" using Cons.prems(2) by simp
  have R3: "tar_end ?p fs \<le> unat (sa_array (h_index (kheap s1)))" using Cons.prems(6) st(5) by simp
  obtain s' where B: "tar_loop (Suc k) q (of_nat ?p) (i + 1) s1 = Some (Inr (i + 1 + of_nat (length fs), Some q, s'))"
      "heap_step s1 s'" "fresh s' ((us @ [(140, False)]) @ replicate (length fs) (140, False)) (n - 140 - 140 * length fs)"
      "tailq (mem s') tf_entries q ((xs @ [of_nat ?x]) @ tfs (htop s1 (us @ [(140, False)]) + 12) (length fs))"
      "cells_used s' ((us @ [(140, False)]) @ replicate (length fs) (140, False))
        (qcells q ((xs @ [of_nat ?x]) @ tfs (htop s1 (us @ [(140, False)]) + 12) (length fs)))"
      "parsed (mem s') ?p fs (htop s1 (us @ [(140, False)]) + 12)"
      "keeps s1 (us @ [(140, False)]) (n - 140) (in_cells (qcells q (xs @ [of_nat ?x]))) s'"
    using Cons.IH [OF A(3) R2 A(4,5) R1 R3, of "i + 1"] by (elim exE conjE) (rule that, assumption+)
  have t: "htop s1 (us @ [(140, False)]) = htop s us + 140" by (simp add: htop_snoc st(6))
  have xb: "?x + 120 \<le> 4294967296" using FB n by linarith
  have cell: "\<not> in_cells (qcells q (xs @ [of_nat ?x])) y" if "?x \<le> unat y" "unat y < ?x + 112" for y
    unfolding cells_snoc [OF xb] using that cells_bounds [OF Cons.prems(4), of y] by auto
  have same: "mem s' y = mem s1 y" if "?x \<le> unat y" "unat y < ?x + 112" for y
  proof (rule keeps_used [OF A(3) B(7)])
    show "hstart (kheap s1) \<le> unat y" using that st(2) by (simp add: htop_def)
    show "unat y < htop s1 (us @ [(140, False)])" using that t by simp
  qed (rule cell [OF that])
  have "tf_ok (mem s') ?x p f" using same xb by (intro tf_ok_agree [OF A(6)]) auto
  moreover have "keeps s us n (in_cells (qcells q xs)) s'"
  proof (rule keeps_trans [OF A(7,2) B(7)])
    show "extent [(140, False)] + (n - 140) \<le> n" using n by simp
    show "in_cells (qcells q xs) y \<or> htop s us \<le> unat y \<and> unat y < htop s us + n"
      if "in_cells (qcells q (xs @ [of_nat ?x])) y" for y
      using that n unfolding cells_snoc [OF xb] by auto
  qed
  moreover have "tar_loop (Suc k) q (of_nat p) i s = Some (Inr (i + of_nat (length (f # fs)), Some q, s'))"
  proof -
    have "load8 (mem s) (of_nat p) \<noteq> 0"
      using h(1) by (cases "fst f") (auto simp: header_of_def bytes_at_Cons load8_def)
    then show ?thesis using A(1) B(1) by (subst tar_loop.simps) (simp add: add.assoc)
  qed
  ultimately show ?case
    using heap_step_trans [OF A(2) B(2)] B(3-6) t by (intro exI [of _ s']) (simp add: add.assoc add.commute)
qed

lemma tar_parse_ok:
  assumes F: "fresh s us n" and n: "140 * length fs + 48 \<le> n" and t: "tar_at (mem s) p fs"
    and e: "tar_end p fs \<le> unat (sa_array (h_index (kheap s)))"
  obtains s' where "tar_parse_mem (Suc k) (of_nat p) s = Inr (of_nat (length fs), Some (of_nat (htop s us + 12)), s')"
    "heap_step s s'" "fresh s' (us @ (28, False) # replicate (length fs) (140, False)) (n - 28 - 140 * length fs)"
    "tailq (mem s') tf_entries (of_nat (htop s us + 12)) (tfs (htop s us + 40) (length fs))"
    "cells_used s' (us @ (28, False) # replicate (length fs) (140, False))
      (qcells (of_nat (htop s us + 12)) (tfs (htop s us + 40) (length fs)))"
    "parsed (mem s') p fs (htop s us + 40)" "keeps s us n (\<lambda>_. False) s'"
proof -
  let ?q = "of_nat (htop s us + 12) :: u32"
  note FB = fresh_bounds [OF F]
  obtain s1 where A: "kmalloc0 (Suc k) tar_fileQ_size s = Inr (?q, s1)" "heap_step s s1"
      "fresh s1 (us @ [(28, False)]) (n - 28)" "keeps s us n (\<lambda>_. False) s1"
    using kmalloc0_step [OF F, of tar_fileQ_size k] n by (auto simp: tar_fileQ_size_def)
  note st = heap_stepD [OF A(2)]
  have qb: "htop s us + 12 + 8 \<le> 4294967296" using FB n by linarith
  have q4: "?q + 4 = of_nat (htop s us + 16)" by simp
  have nz: "?q \<noteq> 0" using qb by (simp add: u32_eq_iff unat_of_nat_u32 del: of_nat_add)
  let ?m = "TAILQ_INIT ?q (mem s1)" and ?s = "s1\<lparr>mem := TAILQ_INIT ?q (mem s1)\<rparr>"
  have c: "in_cells (qcells ?q []) y \<longleftrightarrow> htop s us + 12 \<le> unat y \<and> unat y < htop s us + 20" for y
  proof -
    have "in_range ?q 4 y \<longleftrightarrow> htop s us + 12 \<le> unat y \<and> unat y < htop s us + 12 + 4"
        "in_range (?q + 4) 4 y \<longleftrightarrow> htop s us + 16 \<le> unat y \<and> unat y < htop s us + 16 + 4"
      unfolding q4 by (rule in_range_nat, use qb in simp)+
    then show ?thesis by (auto simp: in_cells_def simp del: of_nat_add)
  qed
  have U: "cells_used s1 (us @ [(28, False)]) (qcells ?q [])"
    unfolding cells_used_def c st(2) in_payload_append in_payload_single by (auto simp: htop_def)
  have w: "?m y = mem s1 y" if "\<not> in_cells (qcells ?q []) y" for y
    using that by (simp add: TAILQ_INIT_def Let_def store32_other in_cells_def)
  have F1: "fresh ?s (us @ [(28, False)]) (n - 28)"
    by (rule fresh_write [OF A(3)]) (use w U in \<open>auto simp: cells_used_def\<close>)
  have "ap ?q (?q + 4)" unfolding ap_def q4 using sep_of_nat [of "htop s us + 12" 4 "htop s us + 16" 4] qb by simp
  then have T: "tailq (mem ?s) tf_entries ?q []" using TAILQ_INIT_ok by simp
  have U1: "cells_used ?s (us @ [(28, False)]) (qcells ?q [])" using U by (simp add: cells_used_def)
  have K: "keeps s us n (\<lambda>_. False) ?s"
    unfolding keeps_def
  proof (intro allI impI)
    fix y assume y: "\<not> in_index (kheap s) y" "\<not> (htop s us \<le> unat y \<and> unat y < htop s us + n)"
    then have "\<not> in_cells (qcells ?q []) y" unfolding c using n by auto
    then show "mem ?s y = mem s y" using w y A(4) by (simp add: keeps_def)
  qed
  have low: "mem ?s y = mem s y" if "unat y < tar_end p fs" for y
    using K that e by (intro keeps_low [OF F]) (auto simp: keeps_def)
  have "tar_end p fs \<le> 4294967296" using e FB(3) unat_u32_le [of "h_addr_start (kheap s)"] by linarith
  then have R1: "tar_at (mem ?s) p fs" using t low by (subst tar_at_agree [of _ _ _ "mem s"]) auto
  have R2: "140 * length fs + 20 \<le> n - 28" using n by simp
  have S: "heap_step s ?s" by (rule heap_step_mem [OF A(2)])
  have R3: "tar_end p fs \<le> unat (sa_array (h_index (kheap ?s)))" using e heap_stepD(5) [OF S] by metis
  have tp: "htop ?s (us @ [(28, False)]) + 12 = htop s us + 40" using heap_stepD(6) [OF S] by (simp add: htop_snoc)
  obtain s' where B: "tar_loop (Suc k) ?q (of_nat p) 0 ?s = Some (Inr (0 + of_nat (length fs), Some ?q, s'))"
      "heap_step ?s s'" "fresh s' ((us @ [(28, False)]) @ replicate (length fs) (140, False)) (n - 28 - 140 * length fs)"
      "tailq (mem s') tf_entries ?q ([] @ tfs (htop ?s (us @ [(28, False)]) + 12) (length fs))"
      "cells_used s' ((us @ [(28, False)]) @ replicate (length fs) (140, False))
        (qcells ?q ([] @ tfs (htop ?s (us @ [(28, False)]) + 12) (length fs)))"
      "parsed (mem s') p fs (htop ?s (us @ [(28, False)]) + 12)"
      "keeps ?s (us @ [(28, False)]) (n - 28) (in_cells (qcells ?q [])) s'"
    using tar_loop_ok [OF F1 R2 T U1 R1 R3, of k 0] by (elim exE conjE) (rule that, assumption+)
  have KK: "keeps s us n (\<lambda>_. False) s'"
    by (rule keeps_trans [OF K S B(7)]) (use n in \<open>simp_all only: c extent_simps, auto\<close>)
  have "tar_parse_mem (Suc k) (of_nat p) s = Inr (of_nat (length fs), Some ?q, s')"
    using A(1) B(1) nz by (simp add: tar_parse_mem_def Let_def del: of_nat_add)
  then show thesis
    using B(3-6) KK heap_step_trans [OF S B(2)] unfolding tp by (intro that [of s']) (simp_all del: of_nat_add)
qed

text \<open>The image of an archive: names and sizes in the headers, contents filled up to whole records.\<close>

definition tar_image :: "tfile \<Rightarrow> u8 list" where
  "tar_image f = fst f @ replicate (124 - length (fst f)) 0 @ octal 11 (length (snd f)) @ replicate 377 0 @
     snd f @ replicate (512 * ((length (snd f) + 511) div 512) - length (snd f)) 0"

definition tar_archive :: "tfile list \<Rightarrow> u8 list" where
  "tar_archive fs = concat (map tar_image fs) @ [0]"

definition tar_name :: "u8 list \<Rightarrow> bool" where
  "tar_name name \<longleftrightarrow> name \<noteq> [] \<and> length name \<le> 100 \<and> 0 \<notin> set name"

lemma bytes_zero: "bytes_at m a (replicate n 0) \<Longrightarrow> 0 < n \<Longrightarrow> m (of_nat a) = 0"
  unfolding bytes_at_def by (auto dest: spec [of _ 0])

lemma length_tar_image: "length (fst f) \<le> 100 \<Longrightarrow> p + length (tar_image f) = tar_next p (length (snd f))"
proof -
  have "n \<le> 512 * ((n + 511) div 512)" for n :: nat
    using div_mult_mod_eq [of "n + 511" 512] mod_less_divisor [of 512 "n + 511"] by linarith
  then show "length (fst f) \<le> 100 \<Longrightarrow> ?thesis" by (simp add: tar_image_def tar_next_def)
qed

lemma tar_archive_at:
  assumes "bytes_at m p (tar_archive fs)" "\<forall>f \<in> set fs. tar_name (fst f)"
  shows "tar_at m p fs" "p + length (tar_archive fs) = tar_end p fs"
proof -
  have "tar_at m p fs \<and> p + length (tar_archive fs) = tar_end p fs"
    using assms
  proof (induction fs arbitrary: p)
    case Nil
    then show ?case by (simp add: tar_archive_def bytes_at_Cons)
  next
    case (Cons f fs)
    let ?n = "length (fst f)"
    have nm: "tar_name (fst f)" "?n \<le> 100" using Cons.prems(2) by (simp_all add: tar_name_def)
    have s: "tar_archive (f # fs) = tar_image f @ tar_archive fs" by (simp add: tar_archive_def)
    have B: "bytes_at m p (tar_image f)" "bytes_at m (tar_next p (length (snd f))) (tar_archive fs)"
      using Cons.prems(1) length_tar_image [OF nm(2), of p] by (simp_all add: s bytes_at_append)
    have pos: "p + ?n + (124 - ?n) = p + 124" using nm(2) by simp
    have I: "bytes_at m p (fst f)" "bytes_at m (p + ?n) (replicate (124 - ?n) 0)"
        "bytes_at m (p + 124) (octal 11 (length (snd f)))" "bytes_at m (p + 124 + 11 + 377) (snd f)"
      using B(1) by (simp_all only: tar_image_def bytes_at_append length_replicate length_octal pos)
    have "header_of m p f"
      using nm I bytes_zero [OF I(2)] by (simp add: header_of_def tar_name_def)
    moreover have "bytes_at m (p + 512) (snd f)" using I(4) by (simp add: add.assoc)
    ultimately show ?case
      using Cons.IH [OF B(2)] Cons.prems(2) length_tar_image [OF nm(2), of p] by (simp add: s)
  qed
  then show "tar_at m p fs" "p + length (tar_archive fs) = tar_end p fs" by simp_all
qed

lemma parsed_files:
  assumes "parsed m p fs x" "tar_at m p fs" "tar_end p fs \<le> 4294967296"
  shows "list_all2 (\<lambda>f t. cstr m t (fst f) \<and> tf_datasiz m t = of_nat (length (snd f)) \<and>
    bytes_at m (unat (tf_data m t)) (snd f)) fs (tfs x (length fs))"
  using assms
proof (induction fs arbitrary: p x)
  case (Cons f fs)
  have "unat (of_nat (p + 512) :: u32) = p + 512"
    using Cons.prems(3) tar_end_Cons [of p f fs] by (intro unat_of_nat_u32) linarith
  moreover have "list_all2 (\<lambda>f t. cstr m t (fst f) \<and> tf_datasiz m t = of_nat (length (snd f)) \<and>
      bytes_at m (unat (tf_data m t)) (snd f)) fs (tfs (x + 140) (length fs))"
    using Cons.prems by (intro Cons.IH [of "tar_next p (length (snd f))"]) simp_all
  ultimately show ?case using Cons.prems(1,2) by (simp add: tf_ok_def del: of_nat_add)
qed simp

text \<open>
  Property C19.  Parsing undoes archiving: when memory below the kernel heap holds the image of a list of
  files, \<open>tar_parse_mem\<close> returns their number and a queue that has one entry for every file, in order, with
  the file's name and size and a pointer to its contents; memory below the heap is left alone.
\<close>

theorem tar_parse_roundtrip:
  assumes "fresh s us n" "140 * length fs + 48 \<le> n" "\<forall>f \<in> set fs. tar_name (fst f)"
    "bytes_at (mem s) p (tar_archive fs)" "p + length (tar_archive fs) \<le> unat (sa_array (h_index (kheap s)))"
  shows "\<exists>s' q ts. tar_parse_mem (Suc k) (of_nat p) s = Inr (of_nat (length fs), Some q, s') \<and>
    tailq (mem s') tf_entries q ts \<and>
    list_all2 (\<lambda>f t. cstr (mem s') t (fst f) \<and> tf_datasiz (mem s') t = of_nat (length (snd f)) \<and>
      bytes_at (mem s') (unat (tf_data (mem s') t)) (snd f)) fs ts \<and>
    (\<forall>y. unat y < unat (sa_array (h_index (kheap s))) \<longrightarrow> mem s' y = mem s y)"
proof -
  note A = tar_archive_at [OF assms(4,3)]
  have e: "tar_end p fs \<le> unat (sa_array (h_index (kheap s)))" using assms(5) A(2) by simp
  obtain s' where P: "tar_parse_mem (Suc k) (of_nat p) s = Inr (of_nat (length fs), Some (of_nat (htop s us + 12)), s')"
      "tailq (mem s') tf_entries (of_nat (htop s us + 12)) (tfs (htop s us + 40) (length fs))"
      "parsed (mem s') p fs (htop s us + 40)" "keeps s us n (\<lambda>_. False) s'"
    by (rule tar_parse_ok [OF assms(1,2) A(1) e])
  have low: "mem s' y = mem s y" if "unat y < unat (sa_array (h_index (kheap s)))" for y
    using P(4) that by (intro keeps_low [OF assms(1)]) (auto simp: keeps_def)
  have b: "tar_end p fs \<le> 4294967296" using e unat_u32_le [of "sa_array (h_index (kheap s))"] by linarith
  have "tar_at (mem s') p fs" using A(1) low e b by (subst tar_at_agree [of _ _ _ "mem s"]) auto
  from parsed_files [OF P(3) this b] P(1,2) low show ?thesis by blast
qed

text \<open>Two files in the memory below the sample heap.\<close>

definition sample_files :: "tfile list" where
  "sample_files = [([0x61], [0x68, 0x69]), ([0x62, 0x63], replicate 600 0x78)]"

definition sample_memory :: "u8 list \<Rightarrow> nat \<Rightarrow> memory" where
  "sample_memory bs p y = (if p \<le> unat y \<and> unat y < p + length bs then bs ! (unat y - p) else 0)"

lemma sample_memory_bytes: "p + length bs \<le> 4294967296 \<Longrightarrow> bytes_at (sample_memory bs p) p bs"
  by (auto simp: bytes_at_def sample_memory_def unat_of_nat_u32 simp del: of_nat_add)

lemma sample_disk:
  assumes b: "mem b = sample_memory (tar_archive sample_files) 0x1000"
  shows "\<exists>s. init_heap 64 0x100000 0x200000 0x300000 0 0 b = Inr (64, s) \<and>
    fresh (s\<lparr>kernel_heap := 64\<rparr>) [] 0x7F000 \<and> bytes_at (mem s) 0x1000 (tar_archive sample_files) \<and>
    sa_array (h_index (vm_heaps s 64)) = 0x100000 \<and> hstart (vm_heaps s 64) = 0x181000"
proof -
  obtain h m' where I: "init_heap 64 (of_nat 0x100000) (of_nat 0x200000) 0x300000 0 0 b =
      Inr (64, upd_heap 64 (\<lambda>_. h) (b\<lparr>mem := m'\<rparr>))"
      "heap_inv h m' [(0x7F000, True)]" "h_addr_start h = of_nat 0x181000" "sa_array (h_index h) = of_nat 0x100000"
      "\<forall>x. unat x < 0x100000 \<longrightarrow> m' x = mem b x"
    using init_heap_ok [of "0x100000" "0x200000" 64 "0x300000" 0 0 b]
    by (auto simp: page_up_def VM_HEAP_INDEX_SIZE_def)
  have l: "length (tar_archive sample_files) = 2561"
    by (simp add: tar_archive_def sample_files_def tar_image_def)
  have "bytes_at (mem b) 0x1000 (tar_archive sample_files)"
    unfolding b by (rule sample_memory_bytes) (simp add: l)
  then have "bytes_at m' 0x1000 (tar_archive sample_files)"
    using I(5) l by (subst bytes_at_agree [of _ _ _ "mem b"]) auto
  then show ?thesis
    using I by (intro exI [of _ "upd_heap 64 (\<lambda>_. h) (b\<lparr>mem := m'\<rparr>)"]) (simp add: upd_heap_def fresh_def)
qed

theorem tar_parse_roundtrip_witness:
  "\<exists>(s :: vm_state) s' q ts. fresh s [] 0x7F000 \<and> tar_parse_mem 1 0x1000 s = Inr (2, Some q, s') \<and>
    tailq (mem s') tf_entries q ts \<and> cstr (mem s') (ts ! 1) [0x62, 0x63] \<and> tf_datasiz (mem s') (ts ! 1) = 600"
proof -
  have "mem ((boot_state 0x80000)\<lparr>mem := sample_memory (tar_archive sample_files) 0x1000\<rparr>) = sample_memory (tar_archive sample_files) 0x1000"
    by simp
  from sample_disk [OF this] obtain s :: vm_state where s: "fresh (s\<lparr>kernel_heap := 64\<rparr>) [] 0x7F000"
      "bytes_at (mem s) 0x1000 (tar_archive sample_files)" "sa_array (h_index (vm_heaps s 64)) = 0x100000"
    by blast
  have l: "length (tar_archive sample_files) = 2561"
    by (simp add: tar_archive_def sample_files_def tar_image_def)
  obtain s' q ts where "tar_parse_mem (Suc 0) (of_nat 0x1000) (s\<lparr>kernel_heap := 64\<rparr>) = Inr (of_nat (length sample_files), Some q, s')"
      "tailq (mem s') tf_entries q ts"
      "list_all2 (\<lambda>f t. cstr (mem s') t (fst f) \<and> tf_datasiz (mem s') t = of_nat (length (snd f)) \<and>
        bytes_at (mem s') (unat (tf_data (mem s') t)) (snd f)) sample_files ts"
    using tar_parse_roundtrip [OF s(1), of sample_files "0x1000" 0] s(2,3) l
    by (fastforce simp: sample_files_def tar_name_def)
  moreover from this(3) have "cstr (mem s') (ts ! 1) [0x62, 0x63] \<and> tf_datasiz (mem s') (ts ! 1) = 600"
    by (auto simp: sample_files_def list_all2_Cons1)
  ultimately show ?thesis
    using s(1) by (intro exI [of _ "s\<lparr>kernel_heap := 64\<rparr>"] exI [of _ s'] exI [of _ q] exI [of _ ts]) (simp add: sample_files_def)
qed

end
