(* ===== verification/Vfs.thy ===== *)
theory Vfs
  imports Vm
begin

unbundle bit_operations_syntax

section \<open>The virtual file system (\<open>vfs.c\<close>, \<open>vfs.h\<close>)\<close>

text \<open>
  A \<open>struct vfs_node\<close> lies in memory: a name of 256 bytes, seven words, six function pointers and a
  pointer, 312 bytes in all.  A function pointer is the address of code; the functions below take as
  an argument what a call of the code at an address does.
\<close>

record vfs_state = vm_state +
  vfs_root :: u32

definition VFS_FILE :: u32 where "VFS_FILE = 0x01"
definition VFS_DIRECTORY :: u32 where "VFS_DIRECTORY = 0x02"

definition vfs_node_size :: u32 where "vfs_node_size = 312"

definition vn_flags :: "memory \<Rightarrow> u32 \<Rightarrow> u32" where "vn_flags m node = load32 m (node + 268)"
definition vn_inode :: "memory \<Rightarrow> u32 \<Rightarrow> u32" where "vn_inode m node = load32 m (node + 272)"
definition vn_length :: "memory \<Rightarrow> u32 \<Rightarrow> u32" where "vn_length m node = load32 m (node + 276)"
definition vn_read :: "memory \<Rightarrow> u32 \<Rightarrow> u32" where "vn_read m node = load32 m (node + 284)"
definition vn_write :: "memory \<Rightarrow> u32 \<Rightarrow> u32" where "vn_write m node = load32 m (node + 288)"
definition vn_open :: "memory \<Rightarrow> u32 \<Rightarrow> u32" where "vn_open m node = load32 m (node + 292)"
definition vn_close :: "memory \<Rightarrow> u32 \<Rightarrow> u32" where "vn_close m node = load32 m (node + 296)"
definition vn_readdir :: "memory \<Rightarrow> u32 \<Rightarrow> u32" where "vn_readdir m node = load32 m (node + 300)"
definition vn_finddir :: "memory \<Rightarrow> u32 \<Rightarrow> u32" where "vn_finddir m node = load32 m (node + 304)"

definition VFS_ISDIR :: "memory \<Rightarrow> u32 \<Rightarrow> bool" where
  "VFS_ISDIR m node \<longleftrightarrow> vn_flags m node AND 0x7 = VFS_DIRECTORY"

type_synonym 's vfs_io = "u32 \<Rightarrow> u32 \<Rightarrow> u32 \<Rightarrow> u32 \<Rightarrow> 's \<Rightarrow> (u32 \<times> 's) res"

definition vfs_read :: "(u32 \<Rightarrow> 'a machine_scheme vfs_io) \<Rightarrow> 'a machine_scheme vfs_io" where
  "vfs_read call node offset len buf s =
     (if vn_read (mem s) node \<noteq> 0 then call (vn_read (mem s) node) node offset len buf s else Inr (0, s))"

definition vfs_write :: "(u32 \<Rightarrow> 'a machine_scheme vfs_io) \<Rightarrow> 'a machine_scheme vfs_io" where
  "vfs_write call node offset len buf s =
     (if vn_write (mem s) node \<noteq> 0 then call (vn_write (mem s) node) node offset len buf s else Inr (0, s))"

definition vfs_open ::
    "(u32 \<Rightarrow> u32 \<Rightarrow> u32 \<Rightarrow> 'a machine_scheme \<Rightarrow> (u32 \<times> 'a machine_scheme) res) \<Rightarrow>
     u32 \<Rightarrow> u32 \<Rightarrow> 'a machine_scheme \<Rightarrow> (u32 \<times> 'a machine_scheme) res" where
  "vfs_open call node mode s =
     (if vn_open (mem s) node \<noteq> 0 then call (vn_open (mem s) node) node mode s else Inr (0, s))"

definition vfs_close ::
    "(u32 \<Rightarrow> u32 \<Rightarrow> 'a machine_scheme \<Rightarrow> 'a machine_scheme res) \<Rightarrow>
     u32 \<Rightarrow> 'a machine_scheme \<Rightarrow> 'a machine_scheme res" where
  "vfs_close call node s =
     (if vn_close (mem s) node \<noteq> 0 then call (vn_close (mem s) node) node s else Inr s)"

definition vfs_readdir ::
    "(u32 \<Rightarrow> u32 \<Rightarrow> u32 \<Rightarrow> 'a machine_scheme \<Rightarrow> (u32 \<times> 'a machine_scheme) res) \<Rightarrow>
     u32 \<Rightarrow> u32 \<Rightarrow> 'a machine_scheme \<Rightarrow> (u32 \<times> 'a machine_scheme) res" where
  "vfs_readdir call node index s =
     (if VFS_ISDIR (mem s) node \<and> vn_readdir (mem s) node \<noteq> 0
      then call (vn_readdir (mem s) node) node index s else Inr (0, s))"

definition vfs_finddir ::
    "(u32 \<Rightarrow> u32 \<Rightarrow> u32 \<Rightarrow> 'a machine_scheme \<Rightarrow> (u32 \<times> 'a machine_scheme) res) \<Rightarrow>
     u32 \<Rightarrow> u32 \<Rightarrow> 'a machine_scheme \<Rightarrow> (u32 \<times> 'a machine_scheme) res" where
  "vfs_finddir call node name s =
     (if VFS_ISDIR (mem s) node \<and> vn_finddir (mem s) node \<noteq> 0
      then call (vn_finddir (mem s) node) node name s else Inr (0, s))"

end
