(* ===== verification/Initrd.thy ===== *)
theory Initrd
  imports Vfs Tar
begin

unbundle bit_operations_syntax

section \<open>The initial ram disk (\<open>initrd.c\<close>)\<close>

text \<open>
  The static variables of \<open>initrd.c\<close>; \<open>dirent\<close> is the address of the one directory entry that
  \<open>initrd_readdir\<close> returns.  The linker chooses it, and the addresses of the three callbacks.
\<close>

record initrd_state = vfs_state +
  tar_files :: u32
  initrd_root :: u32
  initrd_dev :: u32
  root_nodes :: u32
  nroot_nodes :: u32
  dirent :: u32

record initrd_code =
  initrd_read_p :: u32
  initrd_readdir_p :: u32
  initrd_finddir_p :: u32

text \<open>\<open>memcpy\<close> of a string literal, terminator included, and \<open>strcmp\<close> with one as second argument.\<close>

fun put_bytes :: "memory \<Rightarrow> u32 \<Rightarrow> u8 list \<Rightarrow> memory" where
  "put_bytes m a [] = m"
| "put_bytes m a (b # bs) = put_bytes (store8 m a b) (a + 1) bs"

fun strcmp_lit :: "memory \<Rightarrow> u32 \<Rightarrow> u8 list \<Rightarrow> u32" where
  "strcmp_lit m p [] = ucast (load8 m p)"
| "strcmp_lit m p (b # bs) =
     (if load8 m p = b then strcmp_lit m (p + 1) bs else ucast (load8 m p) - ucast b)"

text \<open>The search of \<open>initrd_read\<close>: the body runs before the first test of \<open>tf\<close>.\<close>

partial_function (option) find_tf :: "memory \<Rightarrow> u32 \<Rightarrow> u32 \<Rightarrow> u32 option" where
  "find_tf m name tf =
     Option.bind (strcmp m tf name) (\<lambda>r.
       if r = 0 then Some tf
       else let tf = TAILQ_NEXT tf_entries m tf in
            if tf = 0 then Some 0 else find_tf m name tf)"

definition initrd_read :: "'a initrd_state_scheme vfs_io" where
  "initrd_read node offset len buffer s =
     bindr (of_option Diverge (find_tf (mem s) node (TAILQ_FIRST (mem s) (tar_files s)))) (\<lambda>tf.
     if tf = 0 \<or> offset > tf_datasiz (mem s) tf then Inr (0, s)
     else let len = (if offset + len > tf_datasiz (mem s) tf then tf_datasiz (mem s) tf - offset else len)
          in Inr (len, s\<lparr>mem := memcpy (mem s) buffer (tf_data (mem s) tf + offset) len\<rparr>))"

definition root_node :: "'a initrd_state_scheme \<Rightarrow> u32 \<Rightarrow> u32" where
  "root_node s i = root_nodes s + vfs_node_size * i"

definition initrd_readdir :: "u32 \<Rightarrow> u32 \<Rightarrow> 'a initrd_state_scheme \<Rightarrow> (u32 \<times> 'a initrd_state_scheme) res" where
  "initrd_readdir node index s =
     (if node = initrd_root s \<and> index = 0
      then let m = put_bytes (mem s) (dirent s) (lit ''dev'' @ [0]);
               m = store8 m (dirent s + 3) 0;
               m = store32 m (dirent s + 128) 0
           in Inr (dirent s, s\<lparr>mem := m\<rparr>)
      else if index - 1 \<ge> nroot_nodes s then Inr (0, s)
      else let name = root_node s (index - 1) in
        bindr (printf (lit ''found %s for index=%d'' @ [0x0A]) [name, index] s) (\<lambda>(_, s).
        bindr (of_option Diverge (strlen (mem s) name)) (\<lambda>l.
        let m = memcpy (mem s) (dirent s) name (l + 1) in
        bindr (of_option Diverge (strlen m name)) (\<lambda>l.
        let m = store8 m (dirent s + l) 0;
            m = store32 m (dirent s + 128) (vn_inode m name)
        in Inr (dirent s, s\<lparr>mem := m\<rparr>)))))"

function finddir_loop :: "u32 \<Rightarrow> u32 \<Rightarrow> 'a initrd_state_scheme \<Rightarrow> u32 res" where
  "finddir_loop name i s =
     (if i < nroot_nodes s
      then bindr (of_option Diverge (strcmp (mem s) name (root_node s i))) (\<lambda>r.
             if r = 0 then Inr (root_node s i) else finddir_loop name (i + 1) s)
      else Inr 0)"
  by pat_completeness auto
termination
  by (relation "measure (\<lambda>(name, i, s). unat (nroot_nodes s - i))") (auto simp: u32_step_measure)

declare finddir_loop.simps [simp del]

definition initrd_finddir :: "u32 \<Rightarrow> u32 \<Rightarrow> 'a initrd_state_scheme \<Rightarrow> (u32 \<times> 'a initrd_state_scheme) res" where
  "initrd_finddir node name s =
     (if node = initrd_root s \<and> strcmp_lit (mem s) name (lit ''dev'') = 0 then Inr (initrd_dev s, s)
      else bindr (finddir_loop name 0 s) (\<lambda>p. Inr (p, s)))"

subsection \<open>Setting up the ram disk\<close>

text \<open>
  The stores to a directory node, to \<open>initrd_root\<close> and to \<open>initrd_dev\<close> alike, and those to the node
  of a file; \<open>ptr\<close> of a file node is not written.
\<close>

definition set_words :: "memory \<Rightarrow> u32 \<Rightarrow> (u32 \<times> u32) list \<Rightarrow> memory" where
  "set_words m node ws = fold (\<lambda>(off, v) m. store32 m (node + off) v) ws m"

definition dir_node :: "initrd_code \<Rightarrow> u32 \<Rightarrow> string \<Rightarrow> memory \<Rightarrow> memory" where
  "dir_node c node name m =
     set_words (put_bytes m node (lit name @ [0])) node
       [(276, 0), (272, 0), (264, 0), (260, 0), (256, 0), (268, VFS_DIRECTORY),
        (284, 0), (288, 0), (292, 0), (296, 0), (300, initrd_readdir_p c), (304, initrd_finddir_p c),
        (308, 0), (280, 0)]"

definition file_node :: "initrd_code \<Rightarrow> u32 \<Rightarrow> u32 \<Rightarrow> u32 \<Rightarrow> memory \<Rightarrow> memory option" where
  "file_node c tf node i m =
     Option.bind (strlen m tf) (\<lambda>l.
     let m = memcpy m node tf (l + 1);
         m = set_words m node [(264, 0), (260, 0), (256, 0)];
         m = store32 m (node + 276) (tf_datasiz m tf)
     in Some (set_words m node
       [(272, i), (268, VFS_FILE), (284, initrd_read_p c), (288, 0), (300, 0), (304, 0), (292, 0),
        (296, 0), (280, 0)]))"

definition init_nodes :: "initrd_code \<Rightarrow> u32 \<Rightarrow> u32 \<Rightarrow> memory \<Rightarrow> memory option" where
  "init_nodes c q nodes m =
     map_option fst (TAILQ_FOREACH fst tf_entries q
       (\<lambda>tf (m, i). map_option (\<lambda>m. (m, i + 1)) (file_node c tf (nodes + vfs_node_size * i) i m)) (m, 0))"

definition init_initrd ::
    "initrd_code \<Rightarrow> nat \<Rightarrow> u32 \<Rightarrow> 'a initrd_state_scheme \<Rightarrow> (u32 \<times> 'a initrd_state_scheme) res" where
  "init_initrd c n addr s =
     bindr (kmalloc n vfs_node_size s) (\<lambda>(a, s).
     let s = s\<lparr>initrd_root := a, mem := dir_node c a ''initrd'' (mem s)\<rparr> in
     bindr (kmalloc n vfs_node_size s) (\<lambda>(a, s).
     let s = s\<lparr>initrd_dev := a, mem := dir_node c a ''dev'' (mem s)\<rparr> in
     bindr (tar_parse_mem n addr s) (\<lambda>(x, q, s).
     let s = (case q of None \<Rightarrow> s | Some q \<Rightarrow> s\<lparr>tar_files := q\<rparr>) in
     if x = - 1 then Inl (Panic ''tar_parse_mem'')
     else bindr (kmalloc n (vfs_node_size * x) s) (\<lambda>(a, s).
     let s = s\<lparr>root_nodes := a, nroot_nodes := x\<rparr> in
     bindr (of_option Diverge (init_nodes c (tar_files s) (root_nodes s) (mem s))) (\<lambda>m.
     Inr (initrd_root s, s\<lparr>mem := m\<rparr>))))))"

text \<open>What a call through a function pointer of a node does: the three callbacks are all there are.\<close>

definition call_read :: "initrd_code \<Rightarrow> u32 \<Rightarrow> 'a initrd_state_scheme vfs_io" where
  "call_read c fp node offset len buf s =
     (if fp = initrd_read_p c then initrd_read node offset len buf s else Inl (Fault ''call of unknown code''))"

definition call_readdir ::
    "initrd_code \<Rightarrow> u32 \<Rightarrow> u32 \<Rightarrow> u32 \<Rightarrow> 'a initrd_state_scheme \<Rightarrow> (u32 \<times> 'a initrd_state_scheme) res" where
  "call_readdir c fp node index s =
     (if fp = initrd_readdir_p c then initrd_readdir node index s else Inl (Fault ''call of unknown code''))"

definition call_finddir ::
    "initrd_code \<Rightarrow> u32 \<Rightarrow> u32 \<Rightarrow> u32 \<Rightarrow> 'a initrd_state_scheme \<Rightarrow> (u32 \<times> 'a initrd_state_scheme) res" where
  "call_finddir c fp node name s =
     (if fp = initrd_finddir_p c then initrd_finddir node name s else Inl (Fault ''call of unknown code''))"

end
