(* ===== verification/Initrd_Disk.thy ===== *)
theory Initrd_Disk
  imports Tar_Parse Initrd
begin

text \<open>
  Correctness of the initial ram disk: the nodes that \<open>init_initrd\<close> writes, and lookup and reading of files
  through the virtual file system.  The predicate \<open>disk\<close> describes the structures of the ram disk in memory.
\<close>

unbundle bit_operations_syntax

subsection \<open>Writing a node\<close>

lemma put_bytes_eq:
  assumes "a + length bs \<le> 4294967296"
  shows "put_bytes m (of_nat a) bs y = (if a \<le> unat y \<and> unat y < a + length bs then bs ! (unat y - a) else m y)"
  using assms
proof (induction bs arbitrary: m a)
  case (Cons b bs)
  have "(of_nat a :: u32) + 1 = of_nat (a + 1)" by simp
  then have IH: "put_bytes (store8 m (of_nat a) b) (of_nat a + 1) bs y =
      (if a + 1 \<le> unat y \<and> unat y < a + 1 + length bs then bs ! (unat y - (a + 1)) else store8 m (of_nat a) b y)"
    using Cons.IH [of "a + 1" "store8 m (of_nat a) b"] Cons.prems by (simp only: list.size)
  have u: "unat (of_nat a :: u32) = a" using Cons.prems by (intro unat_of_nat_u32) simp
  have "y = of_nat a \<longleftrightarrow> unat y = a" using u by (metis of_nat_unat_u32)
  then show ?case using IH by (auto simp: store8_apply nth_Cons')
qed auto

definition node_words :: "u32 list" where
  "node_words = map (\<lambda>k. of_nat (256 + 4 * k)) [0..<14]"

lemma set_words_stores: "set_words m a ws = stores m (map (\<lambda>(off, v). (a + off, v)) ws)"
proof -
  have "fold (\<lambda>(off, v) m. store32 m (a + off) v) ws m = stores m (map (\<lambda>(off, v). (a + off, v)) ws)"
    by (induction ws arbitrary: m) auto
  then show ?thesis by (simp add: set_words_def)
qed

lemma node_cells:
  assumes "x + 312 \<le> 4294967296"
  shows "sorted_wrt ap (map (\<lambda>o'. of_nat x + o') node_words)"
proof -
  have "map (\<lambda>o'. of_nat x + o') node_words = map of_nat (map (\<lambda>k. x + 256 + 4 * k) [0..<14])"
    by (simp add: node_words_def add.assoc)
  moreover have "sorted_wrt ap (map of_nat (map (\<lambda>k. x + 256 + 4 * k) [0..<14]))"
    by (rule apart_ascending) (use assms in \<open>auto simp: sorted_wrt_iff_nth_less\<close>)
  ultimately show ?thesis by metis
qed

lemma set_words_load:
  assumes "x + 312 \<le> 4294967296" "fst ` set ws \<subseteq> set node_words" "off \<in> set node_words"
  shows "load32 (set_words m (of_nat x) ws) (of_nat x + off) =
    (case map_of (rev ws) off of None \<Rightarrow> load32 m (of_nat x + off) | Some v \<Rightarrow> v)"
proof -
  let ?ws = "map (\<lambda>(off, v). (of_nat x + off, v)) ws"
  have "map_of (rev ?ws) (of_nat x + off) = map_of (rev ws) off"
  proof -
    have "map_of (map (\<lambda>(o', v). (of_nat x + o', v)) vs) (of_nat x + off) = map_of vs off" for vs :: "(u32 \<times> u32) list"
      by (induction vs) auto
    from this [of "rev ws"] show ?thesis by (simp add: rev_map)
  qed
  moreover have "fst ` set ?ws \<subseteq> set (map (\<lambda>o'. of_nat x + o') node_words)" using assms(2) by force
  ultimately show ?thesis
    unfolding set_words_stores using load32_stores [OF node_cells [OF assms(1)], of ?ws "of_nat x + off" m] assms(3) by simp
qed

lemma set_words_frame:
  assumes "x + 312 \<le> 4294967296" "fst ` set ws \<subseteq> set node_words" "\<not> (x + 256 \<le> unat y \<and> unat y < x + 312)"
  shows "set_words m (of_nat x) ws y = m y"
  using assms(2)
proof (induction ws arbitrary: m)
  case (Cons w ws)
  obtain off v where w: "w = (off, v)" by (cases w)
  then obtain k where k: "k < 14" "off = of_nat (256 + 4 * k)" using Cons.prems by (auto simp: node_words_def)
  have a: "(of_nat x :: u32) + of_nat (256 + 4 * k) = of_nat (x + (256 + 4 * k))" by simp
  have "\<not> in_range (of_nat x + off) 4 y"
    unfolding k(2) a using k(1) assms(1,3) by (subst in_range_nat) auto
  then show ?case using Cons by (simp add: set_words_def w store32_other)
qed (simp add: set_words_def)

definition dir_ok :: "initrd_code \<Rightarrow> memory \<Rightarrow> nat \<Rightarrow> bool" where
  "dir_ok c m x \<longleftrightarrow> vn_flags m (of_nat x) = VFS_DIRECTORY \<and> vn_readdir m (of_nat x) = initrd_readdir_p c \<and>
     vn_finddir m (of_nat x) = initrd_finddir_p c"

lemma node_words_list:
  "node_words = [256, 260, 264, 268, 272, 276, 280, 284, 288, 292, 296, 300, 304, 308]"
  by (simp add: node_words_def upt_rec)

lemma dir_node_ok:
  assumes "x + 312 \<le> 4294967296" "length name < 256"
  shows "dir_ok c (dir_node c (of_nat x) name m) x"
    "\<not> (x \<le> unat y \<and> unat y < x + 312) \<Longrightarrow> dir_node c (of_nat x) name m y = m y"
proof -
  let ?ws = "[(276, 0), (272, 0), (264, 0), (260, 0), (256, 0), (268, VFS_DIRECTORY),
        (284, 0), (288, 0), (292, 0), (296, 0), (300, initrd_readdir_p c), (304, initrd_finddir_p c),
        (308, 0), (280, 0)]"
  have sub: "fst ` set ?ws \<subseteq> set node_words" by (simp add: node_words_list)
  show "dir_ok c (dir_node c (of_nat x) name m) x"
    unfolding dir_ok_def vn_flags_def vn_readdir_def vn_finddir_def dir_node_def
    by (simp add: set_words_load [OF assms(1) sub] node_words_list)
  assume y: "\<not> (x \<le> unat y \<and> unat y < x + 312)"
  have "length (lit name) = length name" by (simp add: lit_def)
  then have "put_bytes m (of_nat x) (lit name @ [0]) y = m y" using y assms by (subst put_bytes_eq) auto
  then show "dir_node c (of_nat x) name m y = m y"
    unfolding dir_node_def using set_words_frame [OF assms(1) sub] y by auto
qed

definition file_ok :: "initrd_code \<Rightarrow> memory \<Rightarrow> nat \<Rightarrow> u32 \<Rightarrow> tfile \<Rightarrow> bool" where
  "file_ok c m x i f \<longleftrightarrow> cstr m (of_nat x) (fst f) \<and> length (fst f) \<le> 100 \<and> vn_length m (of_nat x) = of_nat (length (snd f)) \<and>
     vn_inode m (of_nat x) = i \<and> vn_flags m (of_nat x) = VFS_FILE \<and> vn_read m (of_nat x) = initrd_read_p c"

lemma file_ok_agree:
  assumes "file_ok c m x i f" "\<And>y. x \<le> unat y \<Longrightarrow> unat y < x + 312 \<Longrightarrow> m' y = m y" "x + 312 \<le> 4294967296"
  shows "file_ok c m' x i f"
proof -
  have "length (fst f) \<le> 100" using assms(1) by (simp add: file_ok_def)
  then have "bytes_at m' x (fst f @ [0]) = bytes_at m x (fst f @ [0])" using assms by (intro bytes_at_agree) auto
  moreover have "load32 m' (of_nat (x + k)) = load32 m (of_nat (x + k))" if "k + 4 \<le> 312" for k
    using that assms by (intro load32_cong_nat) auto
  from this [of 268] this [of 272] this [of 276] this [of 284]
  have "load32 m' (of_nat x + 268) = load32 m (of_nat x + 268)" "load32 m' (of_nat x + 272) = load32 m (of_nat x + 272)"
    "load32 m' (of_nat x + 276) = load32 m (of_nat x + 276)" "load32 m' (of_nat x + 284) = load32 m (of_nat x + 284)"
    by simp_all
  ultimately show ?thesis
    using assms(1) by (simp add: file_ok_def cstr_bytes vn_length_def vn_inode_def vn_flags_def vn_read_def)
qed

lemma dir_ok_agree:
  assumes "dir_ok c m x" "\<And>y. x \<le> unat y \<Longrightarrow> unat y < x + 312 \<Longrightarrow> m' y = m y" "x + 312 \<le> 4294967296"
  shows "dir_ok c m' x"
proof -
  have "load32 m' (of_nat (x + k)) = load32 m (of_nat (x + k))" if "k + 4 \<le> 312" for k
    using that assms by (intro load32_cong_nat) auto
  from this [of 268] this [of 300] this [of 304]
  have "load32 m' (of_nat x + 268) = load32 m (of_nat x + 268)" "load32 m' (of_nat x + 300) = load32 m (of_nat x + 300)"
    "load32 m' (of_nat x + 304) = load32 m (of_nat x + 304)" by simp_all
  then show ?thesis using assms(1) by (simp add: dir_ok_def vn_flags_def vn_readdir_def vn_finddir_def)
qed

lemma memcpy_nat:
  assumes "s + n \<le> d \<or> d + n \<le> s" "d + n \<le> 4294967296" "s + n \<le> 4294967296" "0 < n" "n < 4294967296"
  shows "memcpy m (of_nat d) (of_nat s) (of_nat n) y =
    (if d \<le> unat y \<and> unat y < d + n then m (of_nat (s + (unat y - d))) else m y)"
proof -
  have n: "unat (of_nat n :: u32) = n" using assms(5) by (rule unat_of_nat_u32)
  have "sep (of_nat d) n (of_nat s) n"
    using assms(1)
  proof
    assume "s + n \<le> d"
    then show ?thesis using sep_of_nat [of s n d n] assms by (simp add: sep_sym)
  next
    assume "d + n \<le> s"
    then show ?thesis using sep_of_nat [of d n s n] assms by simp
  qed
  then have "memcpy m (of_nat d) (of_nat s) (of_nat n) y = (if in_range (of_nat d) n y then m (of_nat s + (y - of_nat d)) else m y)"
    using memcpy_eq [of "of_nat d" "of_nat n" "of_nat s" m y] by (simp add: n)
  moreover have "(of_nat s :: u32) + (y - of_nat d) = of_nat (s + (unat y - d))" if "d \<le> unat y"
    using that by (simp add: of_nat_diff)
  ultimately show ?thesis using in_range_nat [OF assms(2), of y] by metis
qed

lemma file_node_ok:
  assumes t: "tf_ok m a p f" and d: "a + 112 \<le> x" "x + 312 \<le> 4294967296" and l: "length (snd f) < 4294967296"
  obtains m' where "file_node c (of_nat a) (of_nat x) i m = Some m'" "file_ok c m' x i f"
    "\<And>y. \<not> (x \<le> unat y \<and> unat y < x + 312) \<Longrightarrow> m' y = m y"
proof -
  let ?n = "length (fst f)"
  have n: "cstr m (of_nat a) (fst f)" "?n \<le> 100" "tf_datasiz m (of_nat a) = of_nat (length (snd f))" using t by (simp_all add: tf_ok_def)
  have sl: "strlen m (of_nat a) = Some (of_nat ?n)" by (rule strlen_cstr [OF n(1)])
  have e: "(of_nat ?n :: u32) + 1 = of_nat (?n + 1)" by simp
  define m1 where "m1 = memcpy m (of_nat x) (of_nat a) (of_nat (?n + 1))"
  define m2 where "m2 = set_words m1 (of_nat x) [(264, 0), (260, 0), (256, 0)]"
  define ws :: "(u32 \<times> u32) list" where "ws = [(276, of_nat (length (snd f))), (272, i), (268, VFS_FILE), (284, initrd_read_p c), (288, 0), (300, 0), (304, 0), (292, 0),
        (296, 0), (280, 0)]"
  have W: "fst ` set [(264 :: u32, 0 :: u32), (260, 0), (256, 0)] \<subseteq> set node_words" "fst ` set ws \<subseteq> set node_words"
    by (simp_all add: node_words_list ws_def)
  have m1: "m1 y = (if x \<le> unat y \<and> unat y < x + (?n + 1) then m (of_nat (a + (unat y - x))) else m y)" for y
    unfolding m1_def using n(2) d by (intro memcpy_nat) auto
  have m2: "m2 y = m1 y" if "\<not> (x + 256 \<le> unat y \<and> unat y < x + 312)" for y
    unfolding m2_def by (rule set_words_frame [OF d(2) W(1) that])
  have "load32 m2 (of_nat (a + 104)) = load32 m (of_nat (a + 104))"
    using d m1 m2 by (intro load32_cong_nat) auto
  then have ds: "tf_datasiz m2 (of_nat a) = of_nat (length (snd f))" using n(3) by (simp add: tf_datasiz_def)
  let ?m = "set_words m2 (of_nat x) ws"
  have "file_node c (of_nat a) (of_nat x) i m = Some ?m"
    using ds unfolding file_node_def sl m1_def m2_def e ws_def by (simp add: set_words_def Let_def e del: of_nat_add)
  moreover have out: "?m y = m1 y" if "\<not> (x + 256 \<le> unat y \<and> unat y < x + 312)" for y
    using set_words_frame [OF d(2) W(2) that] m2 [OF that] by simp
  moreover have "file_ok c ?m x i f"
  proof -
    have "bytes_at ?m x (fst f @ [0])"
      unfolding bytes_at_def
    proof (intro allI impI)
      fix j assume j: "j < length (fst f @ [0])"
      then have u: "unat (of_nat (x + j) :: u32) = x + j" using n(2) d by (intro unat_of_nat_u32) simp
      have "m (of_nat (a + j)) = (fst f @ [0]) ! j" using n(1) j by (simp add: cstr_bytes bytes_at_def del: of_nat_add)
      then show "?m (of_nat (x + j)) = (fst f @ [0]) ! j"
        using out [of "of_nat (x + j)"] m1 [of "of_nat (x + j)"] u j n(2) by (simp del: of_nat_add)
    qed
    moreover have "load32 ?m (of_nat x + 276) = of_nat (length (snd f))" "load32 ?m (of_nat x + 272) = i"
        "load32 ?m (of_nat x + 268) = VFS_FILE" "load32 ?m (of_nat x + 284) = initrd_read_p c"
      by (subst set_words_load [OF d(2) W(2)]; simp add: node_words_list ws_def)+
    ultimately show ?thesis
      using n by (simp add: file_ok_def vn_length_def vn_inode_def vn_flags_def vn_read_def cstr_bytes)
  qed
  moreover have "?m y = m y" if "\<not> (x \<le> unat y \<and> unat y < x + 312)" for y using out [of y] m1 [of y] that n(2) by auto
  ultimately show thesis by (intro that [of ?m]) auto
qed

subsection \<open>The nodes of all files\<close>

fun nodes_ok :: "initrd_code \<Rightarrow> memory \<Rightarrow> nat \<Rightarrow> u32 \<Rightarrow> tfile list \<Rightarrow> bool" where
  "nodes_ok c m x i [] \<longleftrightarrow> True"
| "nodes_ok c m x i (f # fs) \<longleftrightarrow> file_ok c m x i f \<and> nodes_ok c m (x + 312) (i + 1) fs"

lemma nodes_ok_agree:
  assumes "nodes_ok c m x i fs" "\<And>y. x \<le> unat y \<Longrightarrow> unat y < x + 312 * length fs \<Longrightarrow> m' y = m y" "x + 312 * length fs \<le> 4294967296"
  shows "nodes_ok c m' x i fs"
  using assms
proof (induction fs arbitrary: x i)
  case (Cons f fs)
  have "file_ok c m' x i f" using Cons.prems by (intro file_ok_agree [of c m x i f m']) auto
  moreover have "nodes_ok c m' (x + 312) (i + 1) fs" using Cons.prems by (intro Cons.IH) auto
  ultimately show ?case by simp
qed simp

lemma parsed_agree:
  assumes "parsed m p fs x" "\<And>y. x \<le> unat y \<Longrightarrow> unat y + 28 < x + 140 * length fs \<Longrightarrow> m' y = m y" "x + 140 * length fs \<le> 4294967296"
  shows "parsed m' p fs x"
  using assms
proof (induction fs arbitrary: x p)
  case (Cons f fs)
  have "tf_ok m' x p f" using Cons.prems by (intro tf_ok_agree [of m x p f m']) auto
  moreover have "parsed m' (tar_next p (length (snd f))) fs (x + 140)" using Cons.prems by (intro Cons.IH) auto
  ultimately show ?case by simp
qed simp

lemma tfs_bounds: "t \<in> set (tfs x k) \<Longrightarrow> \<exists>a. t = of_nat a \<and> x \<le> a \<and> a + 140 \<le> x + 140 * k"
  by (induction k arbitrary: x) fastforce+

lemma follows_cong: "(\<And>x. x \<in> set xs \<Longrightarrow> nx' x = nx x) \<Longrightarrow> follows nx' p xs = follows nx p xs"
  by (induction xs arbitrary: p) auto

abbreviation node_body :: "initrd_code \<Rightarrow> u32 \<Rightarrow> u32 \<Rightarrow> memory \<times> u32 \<Rightarrow> (memory \<times> u32) option" where
  "node_body c nodes \<equiv> \<lambda>tf (m, i). map_option (\<lambda>m. (m, i + 1)) (file_node c tf (nodes + vfs_node_size * i) i m)"

lemma nodes_loop:
  assumes "parsed m p fs x" "follows (TAILQ_NEXT tf_entries m) q (tfs x (length fs))"
    "x + 140 * length fs \<le> nd + 312 * i" "nd + 312 * (i + length fs) \<le> 4294967296" "\<forall>f \<in> set fs. length (snd f) < 4294967296"
  shows "\<exists>m'. foreach_loop fst (TAILQ_NEXT tf_entries) (node_body c (of_nat nd)) q (m, of_nat i) = Some (m', of_nat (i + length fs)) \<and>
    nodes_ok c m' (nd + 312 * i) (of_nat i) fs \<and>
    (\<forall>y. \<not> (nd + 312 * i \<le> unat y \<and> unat y < nd + 312 * (i + length fs)) \<longrightarrow> m' y = m y)"
  using assms
proof (induction fs arbitrary: m p x q i)
  case Nil
  then show ?case by (subst foreach_loop.simps) simp
next
  case (Cons f fs)
  let ?nd = "nd + 312 * i"
  have t: "tf_ok m x p f" "q = of_nat x" "q \<noteq> 0" "follows (TAILQ_NEXT tf_entries m) (TAILQ_NEXT tf_entries m q) (tfs (x + 140) (length fs))"
    using Cons.prems(1,2) by simp_all
  obtain m1 where A: "file_node c (of_nat x) (of_nat ?nd) (of_nat i) m = Some m1" "file_ok c m1 ?nd (of_nat i) f"
      "\<And>y. \<not> (?nd \<le> unat y \<and> unat y < ?nd + 312) \<Longrightarrow> m1 y = m y"
    using file_node_ok [OF t(1), of ?nd c "of_nat i"] Cons.prems by auto
  have low: "m1 y = m y" if "unat y < x + 140 * length (f # fs)" for y using A(3) [of y] that Cons.prems(3) by simp
  have nx: "TAILQ_NEXT tf_entries m1 t = TAILQ_NEXT tf_entries m t" if tt: "t \<in> set (tfs x (length (f # fs)))" for t
  proof -
    obtain a where a: "t = of_nat a" "x \<le> a" "a + 140 \<le> x + 140 * length (f # fs)" using tfs_bounds [OF tt] by blast
    have "load32 m1 (of_nat (a + 112)) = load32 m (of_nat (a + 112))"
      using a(3) Cons.prems(3,4) by (intro load32_cong_nat low) auto
    then show ?thesis by (simp add: TAILQ_NEXT_def a(1) tf_entries_def)
  qed
  have P: "parsed m1 (tar_next p (length (snd f))) fs (x + 140)"
    using Cons.prems low by (intro parsed_agree [of m _ fs "x + 140" m1]) auto
  have FW: "follows (TAILQ_NEXT tf_entries m1) (TAILQ_NEXT tf_entries m1 q) (tfs (x + 140) (length fs))"
  proof -
    have "TAILQ_NEXT tf_entries m1 q = TAILQ_NEXT tf_entries m q" using nx [of q] t(2) by simp
    moreover have "follows (TAILQ_NEXT tf_entries m1) p (tfs (x + 140) (length fs)) = follows (TAILQ_NEXT tf_entries m) p (tfs (x + 140) (length fs))" for p
      by (rule follows_cong) (use nx in simp)
    ultimately show ?thesis using t(4) by simp
  qed
  obtain m' where B: "foreach_loop fst (TAILQ_NEXT tf_entries) (node_body c (of_nat nd)) (TAILQ_NEXT tf_entries m1 q) (m1, of_nat (Suc i)) =
        Some (m', of_nat (Suc i + length fs))" "nodes_ok c m' (nd + 312 * Suc i) (of_nat (Suc i)) fs"
      "\<forall>y. \<not> (nd + 312 * Suc i \<le> unat y \<and> unat y < nd + 312 * (Suc i + length fs)) \<longrightarrow> m' y = m1 y"
    using Cons.IH [OF P FW, of "Suc i"] Cons.prems by auto
  have ad: "(of_nat nd :: u32) + vfs_node_size * of_nat i = of_nat ?nd" by (simp add: vfs_node_size_def)
  have "node_body c (of_nat nd) q (m, of_nat i) = Some (m1, of_nat (Suc i))"
    using A(1) unfolding t(2) prod.case ad by (simp add: add.commute)
  then have "foreach_loop fst (TAILQ_NEXT tf_entries) (node_body c (of_nat nd)) q (m, of_nat i) = Some (m', of_nat (i + length (f # fs)))"
    using t(3) B(1) by (subst foreach_loop.simps) (simp add: add.commute add.left_commute)
  moreover have "file_ok c m' ?nd (of_nat i) f"
    using B(3) Cons.prems(4) by (intro file_ok_agree [OF A(2)]) auto
  moreover have "\<forall>y. \<not> (?nd \<le> unat y \<and> unat y < nd + 312 * (i + length (f # fs))) \<longrightarrow> m' y = m y"
    using B(3) A(3) by auto
  ultimately show ?case using B(2) by (intro exI [of _ m']) (simp add: add.commute add.left_commute)
qed

subsection \<open>The ram disk\<close>

definition disk :: "initrd_code \<Rightarrow> 'a initrd_state_scheme \<Rightarrow> nat \<Rightarrow> tfile list \<Rightarrow> nat \<Rightarrow> bool" where
  "disk c s p fs a \<longleftrightarrow>
     initrd_root s = of_nat (a + 12) \<and> initrd_dev s = of_nat (a + 344) \<and> tar_files s = of_nat (a + 676) \<and>
     root_nodes s = of_nat (a + 704 + 140 * length fs) \<and> nroot_nodes s = of_nat (length fs) \<and>
     dir_ok c (mem s) (a + 12) \<and> dir_ok c (mem s) (a + 344) \<and>
     tailq (mem s) tf_entries (tar_files s) (tfs (a + 704) (length fs)) \<and> parsed (mem s) p fs (a + 704) \<and>
     nodes_ok c (mem s) (a + 704 + 140 * length fs) 0 fs \<and> tar_at (mem s) p fs \<and> tar_end p fs \<le> a \<and>
     a + 712 + 452 * length fs \<le> 4294967295"

lemma fresh_fields:
  "kernel_heap s' = kernel_heap s \<Longrightarrow> vm_heaps s' = vm_heaps s \<Longrightarrow> mem s' = mem s \<Longrightarrow> fresh s' us n = fresh s us n"
  by (simp add: fresh_def)

text \<open>A node allocated from the last hole and filled in: \<open>upd\<close> stores its address in a static variable.\<close>

lemma dir_step:
  fixes s :: "'a initrd_state_scheme" and upd :: "u32 \<Rightarrow> 'a initrd_state_scheme \<Rightarrow> 'a initrd_state_scheme"
  assumes F: "fresh s us n" and n: "352 \<le> n" and name: "length name < 256"
    and upd: "\<And>a s. mem (upd a s) = mem s \<and> kernel_heap (upd a s) = kernel_heap s \<and> vm_heaps (upd a s) = vm_heaps s"
  obtains s1 where "kmalloc (Suc k) vfs_node_size s = Inr (of_nat (htop s us + 12), s1)" "heap_step s s1"
    "fresh ((upd (of_nat (htop s us + 12)) s1)\<lparr>mem := dir_node c (of_nat (htop s us + 12)) name (mem s1)\<rparr>) (us @ [(332, False)]) (n - 332)"
    "dir_ok c (dir_node c (of_nat (htop s us + 12)) name (mem s1)) (htop s us + 12)"
    "\<forall>y. \<not> in_index (kheap s) y \<longrightarrow> \<not> (htop s us \<le> unat y \<and> unat y < htop s us + n) \<longrightarrow>
       dir_node c (of_nat (htop s us + 12)) name (mem s1) y = mem s y"
proof -
  let ?x = "htop s us + 12"
  obtain s1 where A: "kmalloc (Suc k) vfs_node_size s = Inr (of_nat ?x, s1)" "heap_step s s1"
      "fresh s1 (us @ [(332, False)]) (n - 332)" "keeps s us n (\<lambda>_. False) s1"
    using kmalloc_step [OF F, of vfs_node_size k] n by (auto simp: vfs_node_size_def)
  let ?m = "dir_node c (of_nat ?x) name (mem s1)"
  have b: "?x + 312 \<le> 4294967296" using fresh_bounds(1) [OF F] n by linarith
  note D = dir_node_ok [OF b name, where c = c and m = "mem s1"]
  have "fresh (s1\<lparr>mem := ?m\<rparr>) (us @ [(332, False)]) (n - 332)"
  proof (rule fresh_write [OF A(3)])
    fix y assume "?m y \<noteq> mem s1 y"
    then have "?x \<le> unat y \<and> unat y < ?x + 312" using D(2) by blast
    then show "in_payload (hstart (kheap s1)) (us @ [(332, False)]) y"
      unfolding in_payload_append in_payload_single heap_stepD(2) [OF A(2)] by (simp add: htop_def)
  qed
  then have "fresh ((upd (of_nat ?x) s1)\<lparr>mem := ?m\<rparr>) (us @ [(332, False)]) (n - 332)"
    by (subst fresh_fields [of _ "s1\<lparr>mem := ?m\<rparr>"]) (simp_all add: upd)
  moreover have "?m y = mem s y" if "\<not> in_index (kheap s) y" "\<not> (htop s us \<le> unat y \<and> unat y < htop s us + n)" for y
    using that D(2) [of y] A(4) n by (auto simp: keeps_def)
  ultimately show thesis using A(1,2) D(1) by (intro that [of s1]) auto
qed

lemma heap_step_fields:
  fixes s :: "'a initrd_state_scheme"
  assumes "heap_step s s'"
  shows "tar_files s' = tar_files s" "initrd_root s' = initrd_root s" "initrd_dev s' = initrd_dev s"
    "root_nodes s' = root_nodes s" "nroot_nodes s' = nroot_nodes s" "dirent s' = dirent s" "vfs_root s' = vfs_root s"
  using assms by (auto simp: heap_step_def upd_heap_def)

lemma init_initrd_ok:
  fixes s :: "'a initrd_state_scheme"
  assumes F: "fresh s us n" and n: "452 * length fs + 732 \<le> n" and t: "tar_at (mem s) p fs"
    and e: "tar_end p fs \<le> unat (sa_array (h_index (kheap s)))"
  obtains s' where "init_initrd c (Suc k) (of_nat p) s = Inr (of_nat (htop s us + 12), s')" "disk c s' p fs (htop s us)"
    "\<forall>y. unat y < unat (sa_array (h_index (kheap s))) \<longrightarrow> mem s' y = mem s y"
proof -
  define a where "a = htop s us"
  define l where "l = length fs"
  let ?ii = "in_index (kheap s)"
  note FB = fresh_bounds [OF F, folded a_def]
  have l: "452 * l + 732 \<le> n" using n l_def by simp
  have ha: "hstart (kheap s) \<le> a" by (simp add: a_def htop_def)
  have hi: "\<not> ?ii y" if "hstart (kheap s) \<le> unat y \<or> unat y < unat (sa_array (h_index (kheap s)))" for y
    using that F not_in_index [of "kheap s" "mem s"] below_index [of "kheap s" "mem s"] unfolding fresh_def by blast
  \<comment> \<open>the two directories\<close>
  obtain s1 where A: "kmalloc (Suc k) vfs_node_size s = Inr (of_nat (a + 12), s1)" "heap_step s s1"
      "fresh (s1\<lparr>initrd_root := of_nat (a + 12), mem := dir_node c (of_nat (a + 12)) ''initrd'' (mem s1)\<rparr>) (us @ [(332, False)]) (n - 332)"
      "dir_ok c (dir_node c (of_nat (a + 12)) ''initrd'' (mem s1)) (a + 12)"
      "\<forall>y. \<not> ?ii y \<longrightarrow> \<not> (a \<le> unat y \<and> unat y < a + n) \<longrightarrow> dir_node c (of_nat (a + 12)) ''initrd'' (mem s1) y = mem s y"
    by (rule dir_step [OF F, where upd = "\<lambda>a s. s\<lparr>initrd_root := a\<rparr>" and k = k and c = c and name = "''initrd''"])
      (use l in \<open>simp_all add: a_def del: of_nat_add\<close>)
  define s1' where "s1' = s1\<lparr>initrd_root := of_nat (a + 12), mem := dir_node c (of_nat (a + 12)) ''initrd'' (mem s1)\<rparr>"
  have k1: "kheap s1' = kheap s1" by (simp add: s1'_def)
  have t1: "htop s1' (us @ [(332, False)]) = a + 332"
    using heap_stepD(6) [OF A(2), of us] by (simp add: htop_def k1 a_def)
  obtain s2 where B: "kmalloc (Suc k) vfs_node_size s1' = Inr (of_nat (a + 344), s2)" "heap_step s1' s2"
      "fresh (s2\<lparr>initrd_dev := of_nat (a + 344), mem := dir_node c (of_nat (a + 344)) ''dev'' (mem s2)\<rparr>) ((us @ [(332, False)]) @ [(332, False)]) (n - 332 - 332)"
      "dir_ok c (dir_node c (of_nat (a + 344)) ''dev'' (mem s2)) (a + 344)"
      "\<forall>y. \<not> in_index (kheap s1') y \<longrightarrow> \<not> (a + 332 \<le> unat y \<and> unat y < a + 332 + (n - 332)) \<longrightarrow> dir_node c (of_nat (a + 344)) ''dev'' (mem s2) y = mem s1' y"
    by (rule dir_step [OF A(3) [folded s1'_def], where upd = "\<lambda>a s. s\<lparr>initrd_dev := a\<rparr>" and k = k and c = c and name = "''dev''"])
      (use l in \<open>simp_all add: t1 add.assoc del: of_nat_add\<close>)
  define s2' where "s2' = s2\<lparr>initrd_dev := of_nat (a + 344), mem := dir_node c (of_nat (a + 344)) ''dev'' (mem s2)\<rparr>"
  have k2: "kheap s2' = kheap s2" by (simp add: s2'_def)
  let ?us = "(us @ [(332, False)]) @ [(332, False)]"
  have t2: "htop s2' ?us = a + 664"
    using heap_stepD(6) [OF B(2), of "us @ [(332, False)]"] t1 by (simp add: htop_def k2)
  have i1: "in_index (kheap s1') y = ?ii y" for y unfolding k1 by (rule heap_stepD(4) [OF A(2)])
  have i2: "in_index (kheap s2') y = ?ii y" for y unfolding k2 i1 [symmetric] by (rule heap_stepD(4) [OF B(2)])
  have sa: "sa_array (h_index (kheap s2')) = sa_array (h_index (kheap s))"
    unfolding k2 heap_stepD(5) [OF B(2)] k1 by (rule heap_stepD(5) [OF A(2)])
  have low2: "mem s2' y = mem s y" if "unat y < unat (sa_array (h_index (kheap s)))" for y
  proof -
    have "unat y < a" using that FB(3) ha by linarith
    then show ?thesis using A(5) B(5) hi [of y] that i1 [of y] by (simp add: s1'_def s2'_def)
  qed
  \<comment> \<open>the archive\<close>
  have eb: "tar_end p fs \<le> 4294967296" using e unat_u32_le [of "sa_array (h_index (kheap s))"] by linarith
  have R1: "tar_at (mem s2') p fs" using t low2 e eb by (subst tar_at_agree [of _ _ _ "mem s"]) auto
  have R2: "tar_end p fs \<le> unat (sa_array (h_index (kheap s2')))" using e sa by simp
  have R3: "140 * length fs + 48 \<le> n - 332 - 332" using l by (simp add: l_def)
  have e12: "htop s2' ?us + 12 = a + 676" and e40: "htop s2' ?us + 40 = a + 704" by (simp_all only: t2)
  obtain s3 where C: "tar_parse_mem (Suc k) (of_nat p) s2' = Inr (of_nat l, Some (of_nat (a + 676)), s3)" "heap_step s2' s3"
      "fresh s3 (?us @ (28, False) # replicate l (140, False)) (n - 332 - 332 - 28 - 140 * l)"
      "tailq (mem s3) tf_entries (of_nat (a + 676)) (tfs (a + 704) l)" "parsed (mem s3) p fs (a + 704)"
      "cells_used s3 (?us @ (28, False) # replicate l (140, False)) (qcells (of_nat (a + 676)) (tfs (a + 704) l))" "keeps s2' ?us (n - 332 - 332) (\<lambda>_. False) s3"
    by (rule tar_parse_ok [OF B(3) [folded s2'_def] R3 R1 R2, of k, unfolded e12 e40, folded l_def]) blast
  define s3' where "s3' = s3\<lparr>tar_files := of_nat (a + 676)\<rparr>"
  let ?vs = "?us @ (28, False) # replicate l (140, False)" and ?nd = "a + 704 + 140 * l"
  have k3: "kheap s3' = kheap s3" "mem s3' = mem s3" by (simp_all add: s3'_def)
  have ext: "extent (replicate l (140, False)) = 140 * l" by (induction l) auto
  have t3: "htop s3' ?vs = a + 692 + 140 * l"
    using heap_stepD(6) [OF C(2), of ?us] t2 ext by (simp add: htop_def k3)
  have F3: "fresh s3' ?vs (n - 332 - 332 - 28 - 140 * l)" using C(3) fresh_fields [of s3' s3] by (simp add: s3'_def)
  \<comment> \<open>the file nodes\<close>
  have sz: "vfs_node_size * of_nat l = of_nat (312 * l)" by (simp add: vfs_node_size_def)
  have un: "unat (of_nat (312 * l) :: u32) = 312 * l" using FB(1) l by (intro unat_of_nat_u32) linarith
  obtain s4 where D: "kmalloc (Suc k) (vfs_node_size * of_nat l) s3' = Inr (of_nat ?nd, s4)" "heap_step s3' s4"
      "keeps s3' ?vs (n - 332 - 332 - 28 - 140 * l) (\<lambda>_. False) s4"
    by (rule kmalloc_step [OF F3, of "vfs_node_size * of_nat l" k]) (use l un t3 in \<open>simp_all add: sz add.assoc del: of_nat_add of_nat_mult\<close>)
  have i3: "in_index (kheap s3') y = ?ii y" for y unfolding k3 i2 [symmetric] by (rule heap_stepD(4) [OF C(2)])
  have M4: "mem s4 y = mem s3 y" if "\<not> ?ii y" "unat y < a + 692 + 140 * l" for y
    using D(3) that t3 i3 [of y] by (simp add: keeps_def k3)
  have M3: "mem s3 y = mem s2' y" if "\<not> ?ii y" "unat y < a + 664" for y
    using C(7) that t2 i2 [of y] by (simp add: keeps_def)
  have hi': "\<not> ?ii y" if "a \<le> unat y" for y using hi that ha by (meson le_trans)
  have P4: "parsed (mem s4) p fs (a + 704)"
  proof (rule parsed_agree [OF C(5)])
    show "mem s4 y = mem s3 y" if "a + 704 \<le> unat y" "unat y + 28 < a + 704 + 140 * length fs" for y
      using that hi' [of y] by (intro M4) (simp_all add: l_def)
    show "a + 704 + 140 * length fs \<le> 4294967296" using FB(1) n by linarith
  qed
  have T4: "tailq (mem s4) tf_entries (of_nat (a + 676)) (tfs (a + 704) l)"
  proof (rule tailq_agree [OF C(4)])
    fix y assume "in_cells (qcells (of_nat (a + 676)) (tfs (a + 704) l)) y"
    from cells_bounds [OF C(6) this] have "hstart (kheap s) \<le> unat y" "unat y < a + 692 + 140 * l"
      using t3 heap_stepD(2) [OF C(2)] heap_stepD(2) [OF B(2)] heap_stepD(2) [OF A(2)] by (simp_all add: htop_def k1 k2 k3)
    then show "mem s4 y = mem s3 y" using M4 hi by blast
  qed
  have lens: "\<forall>f \<in> set fs. length (snd f) < 4294967296"
  proof -
    have "\<forall>f \<in> set fs. length (snd f) < tar_end p fs"
    proof (induction fs arbitrary: p)
      case (Cons f fs)
      then show ?case using tar_end_Cons [of p f fs] by auto
    qed simp
    then show ?thesis using eb by fastforce
  qed
  have P1: "parsed (mem s4) p fs (a + 704)" "follows (TAILQ_NEXT tf_entries (mem s4)) (TAILQ_FIRST (mem s4) (of_nat (a + 676))) (tfs (a + 704) (length fs))"
    using P4 tailq_follows [OF T4] by (simp_all add: l_def)
  obtain m5 where E: "foreach_loop fst (TAILQ_NEXT tf_entries) (node_body c (of_nat ?nd)) (TAILQ_FIRST (mem s4) (of_nat (a + 676))) (mem s4, of_nat 0) =
        Some (m5, of_nat (0 + length fs))" "nodes_ok c m5 (?nd + 312 * 0) (of_nat 0) fs"
      "\<forall>y. \<not> (?nd + 312 * 0 \<le> unat y \<and> unat y < ?nd + 312 * (0 + length fs)) \<longrightarrow> m5 y = mem s4 y"
    using nodes_loop [OF P1, of ?nd 0 c] lens FB(1) l unfolding l_def by auto
  define s' where "s' = s4\<lparr>root_nodes := of_nat ?nd, nroot_nodes := of_nat l, mem := m5\<rparr>"
  have M5: "m5 y = mem s4 y" if "unat y < ?nd" for y using E(3) that by simp
  show thesis
  proof (rule that [of s'])
    have x: "(of_nat l :: u32) \<noteq> - 1"
      using FB(1) l by (simp add: u32_eq_iff unat_of_nat_u32)
    have "init_nodes c (of_nat (a + 676)) (of_nat ?nd) (mem s4) = Some m5"
      using E(1) by (simp add: init_nodes_def TAILQ_FOREACH_def del: of_nat_add)
    moreover have "tar_files s4 = of_nat (a + 676)" "initrd_root s4 = of_nat (a + 12)"
      using heap_step_fields [OF D(2)] heap_step_fields [OF C(2)] heap_step_fields [OF B(2)] by (simp_all add: s1'_def s2'_def s3'_def del: of_nat_add)
    ultimately show "init_initrd c (Suc k) (of_nat p) s = Inr (of_nat (htop s us + 12), s')"
      using A(1) B(1) C(1) D(1) x unfolding init_initrd_def a_def [symmetric] s'_def
      by (simp add: Let_def flip: s1'_def s2'_def s3'_def del: of_nat_add)
    show low: "\<forall>y. unat y < unat (sa_array (h_index (kheap s))) \<longrightarrow> mem s' y = mem s y"
      using M5 M4 M3 low2 hi FB(3) ha by (simp add: s'_def)
    have "mem s' y = mem s2' y" if "a \<le> unat y" "unat y < a + 664" for y
      using M5 [of y] M4 [of y] M3 [of y] hi' [of y] that by (simp add: s'_def)
    moreover from this have "mem s' y = mem s1' y" if "a \<le> unat y" "unat y < a + 332" for y
      using B(5) hi' [of y] i1 [of y] that by (simp add: s2'_def)
    ultimately have "dir_ok c (mem s') (a + 12)" "dir_ok c (mem s') (a + 344)"
      using A(4) B(4) FB(1) l by (intro dir_ok_agree [of c "mem s1'" _ "mem s'"] dir_ok_agree [of c "mem s2'" _ "mem s'"];
        simp add: s1'_def s2'_def del: of_nat_add)+
    moreover have "tar_at (mem s') p fs" using t low e eb by (subst tar_at_agree [of _ _ _ "mem s"]) auto
    moreover have "parsed (mem s') p fs (a + 704)"
    proof (rule parsed_agree [OF P4])
      show "mem s' y = mem s4 y" if "a + 704 \<le> unat y" "unat y + 28 < a + 704 + 140 * length fs" for y
        using that M5 [of y] by (simp add: s'_def l_def)
      show "a + 704 + 140 * length fs \<le> 4294967296" using FB(1) n by linarith
    qed
    moreover have "tailq (mem s') tf_entries (of_nat (a + 676)) (tfs (a + 704) l)"
      using T4 by (rule tailq_agree) (use cells_bounds [OF C(6)] M5 t3 in \<open>force simp: s'_def htop_def k3\<close>)
    ultimately show "disk c s' p fs (htop s us)"
      using E(2) FB l e ha heap_step_fields [OF D(2)] heap_step_fields [OF C(2)] heap_step_fields [OF B(2)]
      unfolding disk_def a_def [symmetric] by (simp add: s1'_def s2'_def s3'_def s'_def l_def del: of_nat_add of_nat_mult)
  qed
qed

subsection \<open>Looking up and reading files\<close>

lemma ucast_u8_zero [simp]: "(ucast (y :: u8) :: u32) = 0 \<longleftrightarrow> y = 0"
  using ucast_u8_u32_inj [of y 0] by simp

lemma strcmp_spec_zero: "0 \<notin> set xs \<Longrightarrow> 0 \<notin> set ys \<Longrightarrow> strcmp_spec xs ys = 0 \<longleftrightarrow> xs = ys"
  by (induction xs ys rule: strcmp_spec.induct) (auto simp: ucast_u8_u32_inj)

lemma cstr_nonzero: "cstr m a xs \<Longrightarrow> 0 \<notin> set xs"
  by (induction xs arbitrary: a) auto

lemma strcmp_same: "cstr m a xs \<Longrightarrow> cstr m b ys \<Longrightarrow> strcmp m a b = Some (strcmp_spec xs ys) \<and> (strcmp_spec xs ys = 0 \<longleftrightarrow> xs = ys)"
  using strcmp_cstr strcmp_spec_zero cstr_nonzero by blast

lemma strcmp_lit_cstr: "cstr m a xs \<Longrightarrow> 0 \<notin> set bs \<Longrightarrow> strcmp_lit m a bs = 0 \<longleftrightarrow> xs = bs"
proof (induction bs arbitrary: a xs)
  case Nil
  then show ?case by (cases xs) auto
next
  case (Cons b bs)
  then show ?case by (cases xs) (auto simp: ucast_u8_u32_inj)
qed

lemma nodes_ok_nth:
  "nodes_ok c m x j fs \<Longrightarrow> i < length fs \<Longrightarrow> file_ok c m (x + 312 * i) (j + of_nat i) (fs ! i)"
proof (induction fs arbitrary: x j i)
  case (Cons f fs)
  show ?case
  proof (cases i)
    case (Suc i')
    then have "file_ok c m (x + 312 + 312 * i') (j + 1 + of_nat i') (fs ! i')" using Cons by simp
    moreover have "x + 312 + 312 * i' = x + 312 * i" "j + 1 + of_nat i' = j + of_nat i" using Suc by simp_all
    ultimately show ?thesis using Suc by simp
  qed (use Cons.prems in simp)
qed simp

primrec header_addr :: "nat \<Rightarrow> tfile list \<Rightarrow> nat \<Rightarrow> nat" where
  "header_addr p fs 0 = p"
| "header_addr p fs (Suc i) = (case fs of [] \<Rightarrow> p | f # fs \<Rightarrow> header_addr (tar_next p (length (snd f))) fs i)"

lemma parsed_nth:
  assumes "parsed m p fs x" "tar_at m p fs" "i < length fs"
  shows "tf_ok m (x + 140 * i) (header_addr p fs i) (fs ! i)" "bytes_at m (header_addr p fs i + 512) (snd (fs ! i))"
    "p \<le> header_addr p fs i" "header_addr p fs i + 512 + length (snd (fs ! i)) < tar_end p fs"
proof -
  have "tf_ok m (x + 140 * i) (header_addr p fs i) (fs ! i) \<and> bytes_at m (header_addr p fs i + 512) (snd (fs ! i)) \<and>
    p \<le> header_addr p fs i \<and> header_addr p fs i + 512 + length (snd (fs ! i)) < tar_end p fs"
    using assms
  proof (induction fs arbitrary: p x i)
    case (Cons f fs)
    show ?case
    proof (cases i)
      case 0
      then show ?thesis using Cons.prems tar_end_Cons [of p f fs] by simp
    next
      case (Suc i')
      have "x + 140 + 140 * i' = x + 140 * i" using Suc by simp
      moreover have "p \<le> tar_next p (length (snd f))" by (simp add: tar_next_def)
      ultimately show ?thesis using Cons.IH [of "tar_next p (length (snd f))" "x + 140" i'] Cons.prems Suc by (simp add: add.assoc)
    qed
  qed simp
  then show "tf_ok m (x + 140 * i) (header_addr p fs i) (fs ! i)" "bytes_at m (header_addr p fs i + 512) (snd (fs ! i))"
    "p \<le> header_addr p fs i" "header_addr p fs i + 512 + length (snd (fs ! i)) < tar_end p fs" by simp_all
qed

lemma find_tf_ok:
  assumes "follows (TAILQ_NEXT tf_entries m) t (tfs x (length fs))" "parsed m p fs x" "i < length fs"
    "cstr m node (fst (fs ! i))" "\<forall>j < i. fst (fs ! j) \<noteq> fst (fs ! i)"
  shows "find_tf m node t = Some (of_nat (x + 140 * i))"
  using assms
proof (induction fs arbitrary: t p x i)
  case (Cons f fs)
  have t: "t = of_nat x" "t \<noteq> 0" "follows (TAILQ_NEXT tf_entries m) (TAILQ_NEXT tf_entries m t) (tfs (x + 140) (length fs))" "cstr m t (fst f)"
    using Cons.prems(1,2) by (simp_all add: tf_ok_def)
  note S = strcmp_same [OF t(4) Cons.prems(4)]
  show ?case
  proof (cases i)
    case 0
    then show ?thesis using S t(1) by (subst find_tf.simps) simp
  next
    case (Suc i')
    have "fst f \<noteq> fst ((f # fs) ! i)" using Cons.prems(5) Suc by (metis nth_Cons_0 zero_less_Suc)
    moreover have "find_tf m node (TAILQ_NEXT tf_entries m t) = Some (of_nat (x + 140 + 140 * i'))"
      using Cons.prems Suc by (intro Cons.IH [OF t(3)]) auto
    moreover have "TAILQ_NEXT tf_entries m t \<noteq> 0" using t(3) Cons.prems(3) Suc by (cases fs) auto
    moreover have "x + 140 + 140 * i' = x + 140 * i" using Suc by simp
    ultimately show ?thesis using S by (subst find_tf.simps) (simp add: Let_def del: of_nat_add)
  qed
qed simp

lemma finddir_loop_ok:
  assumes "nodes_ok c (mem s) nd 0 fs" "root_nodes s = of_nat nd" "nroot_nodes s = of_nat (length fs)" "length fs < 4294967296"
    "cstr (mem s) nm name" "i \<le> length fs" "\<forall>j < i. fst (fs ! j) \<noteq> name"
  shows "finddir_loop nm (of_nat i) s =
    (if name \<in> set (map fst fs) then Inr (of_nat (nd + 312 * (LEAST j. j < length fs \<and> fst (fs ! j) = name))) else Inr 0)"
  using assms(6,7)
proof (induction "length fs - i" arbitrary: i)
  case 0
  then have i: "i = length fs" by simp
  have "name \<notin> set (map fst fs)"
  proof
    assume "name \<in> set (map fst fs)"
    then obtain j where "j < length (map fst fs)" "map fst fs ! j = name" unfolding in_set_conv_nth by blast
    then show False using 0 i by simp
  qed
  then show ?case using i assms(3) by (subst finddir_loop.simps) simp
next
  case (Suc d)
  then have i: "i < length fs" by simp
  have lt: "(of_nat i :: u32) < nroot_nodes s" using i assms(3,4) by (simp add: u32_less_iff unat_of_nat_u32)
  have node: "root_node s (of_nat i) = of_nat (nd + 312 * i)" by (simp add: root_node_def assms(2) vfs_node_size_def)
  have "cstr (mem s) (of_nat (nd + 312 * i)) (fst (fs ! i))" using nodes_ok_nth [OF assms(1) i] by (simp add: file_ok_def)
  note S = strcmp_same [OF assms(5) this]
  show ?case
  proof (cases "name = fst (fs ! i)")
    case True
    then have "(LEAST j. j < length fs \<and> fst (fs ! j) = name) = i" using i Suc.prems(2) by (intro Least_equality) (auto simp: not_less [symmetric])
    moreover have "name \<in> set (map fst fs)" using True nth_mem [OF i] by auto
    ultimately show ?thesis using S True lt by (subst finddir_loop.simps) (simp add: node del: of_nat_add)
  next
    case False
    have "finddir_loop nm (of_nat (Suc i)) s =
        (if name \<in> set (map fst fs) then Inr (of_nat (nd + 312 * (LEAST j. j < length fs \<and> fst (fs ! j) = name))) else Inr 0)"
      using Suc.prems i False by (intro Suc.hyps(1)) (use Suc.hyps(2) in \<open>auto simp: less_Suc_eq\<close>)
    then show ?thesis using S False lt by (subst finddir_loop.simps) (simp add: node add.commute del: of_nat_add)
  qed
qed

lemma map_of_first:
  "map_of fs name = Some d \<Longrightarrow> \<exists>i < length fs. fs ! i = (name, d) \<and> (\<forall>j < i. fst (fs ! j) \<noteq> name)"
proof (induction fs)
  case (Cons f fs)
  show ?case
  proof (cases "fst f = name")
    case True
    then show ?thesis using Cons.prems by (intro exI [of _ 0]) (cases f, simp)
  next
    case False
    then obtain i where "i < length fs" "fs ! i = (name, d)" "\<forall>j < i. fst (fs ! j) \<noteq> name" using Cons by (cases f) auto
    then show ?thesis using False by (intro exI [of _ "Suc i"]) (auto simp: less_Suc_eq_0_disj)
  qed
qed simp

lemma least_first:
  assumes "i < length fs" "fst (fs ! i) = name" "\<forall>j < i. fst (fs ! j) \<noteq> name"
  shows "(LEAST j. j < length fs \<and> fst (fs ! j) = name) = i"
  using assms by (intro Least_equality) (auto simp: not_less [symmetric])

lemma dev_literal: "0 \<notin> set (lit ''dev'')"
  by (simp add: lit_def)

lemma finddir_disk:
  assumes D: "disk c s p fs a" and c: "initrd_finddir_p c \<noteq> 0" and nm: "cstr (mem s) nm name"
  shows "name = lit ''dev'' \<Longrightarrow> vfs_finddir (call_finddir c) (initrd_root s) nm s = Inr (initrd_dev s, s)"
    "name \<noteq> lit ''dev'' \<Longrightarrow> map_of fs name = None \<Longrightarrow> vfs_finddir (call_finddir c) (initrd_root s) nm s = Inr (0, s)"
    "name \<noteq> lit ''dev'' \<Longrightarrow> i < length fs \<Longrightarrow> fs ! i = (name, data) \<Longrightarrow> (\<forall>j < i. fst (fs ! j) \<noteq> name) \<Longrightarrow>
      vfs_finddir (call_finddir c) (initrd_root s) nm s = Inr (of_nat (a + 704 + 140 * length fs + 312 * i), s)"
proof -
  have r: "initrd_root s = of_nat (a + 12)" "dir_ok c (mem s) (a + 12)" using D by (simp_all add: disk_def del: of_nat_add)
  have N: "nodes_ok c (mem s) (a + 704 + 140 * length fs) 0 fs" "root_nodes s = of_nat (a + 704 + 140 * length fs)"
      "nroot_nodes s = of_nat (length fs)" "length fs < 4294967296"
    using D by (simp_all add: disk_def del: of_nat_add of_nat_mult)
  have v: "vfs_finddir (call_finddir c) (initrd_root s) nm s = initrd_finddir (initrd_root s) nm s"
    using r c by (simp add: vfs_finddir_def VFS_ISDIR_def call_finddir_def dir_ok_def VFS_DIRECTORY_def)
  have l: "strcmp_lit (mem s) nm (lit ''dev'') = 0 \<longleftrightarrow> name = lit ''dev''" by (rule strcmp_lit_cstr [OF nm dev_literal])
  note L = finddir_loop_ok [OF N nm, of 0]
  show "name = lit ''dev'' \<Longrightarrow> vfs_finddir (call_finddir c) (initrd_root s) nm s = Inr (initrd_dev s, s)"
    unfolding v using l by (simp add: initrd_finddir_def)
  show "name \<noteq> lit ''dev'' \<Longrightarrow> map_of fs name = None \<Longrightarrow> vfs_finddir (call_finddir c) (initrd_root s) nm s = Inr (0, s)"
    unfolding v using l L by (simp add: initrd_finddir_def map_of_eq_None_iff)
  assume i: "name \<noteq> lit ''dev''" "i < length fs" "fs ! i = (name, data)" "\<forall>j < i. fst (fs ! j) \<noteq> name"
  have "name \<in> set (map fst fs)" using nth_mem [OF i(2)] i(3) by force
  moreover have "(LEAST j. j < length fs \<and> fst (fs ! j) = name) = i" using i by (intro least_first) auto
  ultimately show "vfs_finddir (call_finddir c) (initrd_root s) nm s = Inr (of_nat (a + 704 + 140 * length fs + 312 * i), s)"
    unfolding v using l L i(1) by (simp add: initrd_finddir_def del: of_nat_add of_nat_mult)
qed

text \<open>What reading the \<open>i\<close>-th file comes down to.\<close>

lemma read_disk_eq:
  assumes D: "disk c s p fs a" and c: "initrd_read_p c \<noteq> 0"
    and i: "i < length fs" "fs ! i = (name, data)" "\<forall>j < i. fst (fs ! j) \<noteq> name"
  shows "vfs_read (call_read c) (of_nat (a + 704 + 140 * length fs + 312 * i)) off len buf s =
    (if off > of_nat (length data) then Inr (0, s)
     else let len' = (if off + len > of_nat (length data) then of_nat (length data) - off else len) in
       Inr (len', s\<lparr>mem := memcpy (mem s) buf (of_nat (header_addr p fs i + 512) + off) len'\<rparr>))"
    "bytes_at (mem s) (header_addr p fs i + 512) data" "p \<le> header_addr p fs i"
    "header_addr p fs i + 512 + length data < tar_end p fs" "tar_end p fs \<le> a" "a \<le> 4294967295"
proof -
  let ?nd = "a + 704 + 140 * length fs + 312 * i" and ?t = "a + 704 + 140 * i" and ?h = "header_addr p fs i"
  have d: "nodes_ok c (mem s) (a + 704 + 140 * length fs) 0 fs" "parsed (mem s) p fs (a + 704)" "tar_at (mem s) p fs"
      "tailq (mem s) tf_entries (tar_files s) (tfs (a + 704) (length fs))" "tar_end p fs \<le> a" "a + 712 + 452 * length fs \<le> 4294967295"
    using D unfolding disk_def by blast+
  have f: "file_ok c (mem s) ?nd (0 + of_nat i) (name, data)" using nodes_ok_nth [OF d(1) i(1)] i(2) by simp
  note P = parsed_nth [OF d(2,3) i(1), unfolded i(2)]
  have ft: "find_tf (mem s) (of_nat ?nd) (TAILQ_FIRST (mem s) (tar_files s)) = Some (of_nat ?t)"
    using f i by (intro find_tf_ok [OF tailq_follows [OF d(4)] d(2) i(1)]) (simp_all add: file_ok_def del: of_nat_add)
  have "?t < 4294967296" using d(6) i(1) by linarith
  then have tz: "of_nat ?t \<noteq> (0 :: u32)" by (simp add: u32_eq_iff unat_of_nat_u32 del: of_nat_add)
  have tf: "tf_datasiz (mem s) (of_nat ?t) = of_nat (length data)" "tf_data (mem s) (of_nat ?t) = of_nat (?h + 512)"
    using P(1) by (simp_all add: tf_ok_def del: of_nat_add)
  show "vfs_read (call_read c) (of_nat ?nd) off len buf s =
    (if off > of_nat (length data) then Inr (0, s)
     else let len' = (if off + len > of_nat (length data) then of_nat (length data) - off else len) in
       Inr (len', s\<lparr>mem := memcpy (mem s) buf (of_nat (?h + 512) + off) len'\<rparr>))"
    using f c ft tz by (simp add: vfs_read_def call_read_def initrd_read_def file_ok_def tf del: of_nat_add)
  show "bytes_at (mem s) (?h + 512) data" "p \<le> ?h" "?h + 512 + length data < tar_end p fs" "tar_end p fs \<le> a" "a \<le> 4294967295"
    using P d(5,6) by simp_all
qed

lemma read_disk:
  assumes D: "disk c s p fs a" and c: "initrd_read_p c \<noteq> 0"
    and i: "i < length fs" "fs ! i = (name, data)" "\<forall>j < i. fst (fs ! j) \<noteq> name"
    and off: "unat off + unat len < 4294967296"
    and buf: "unat buf + unat len \<le> p \<or> tar_end p fs \<le> unat buf" "unat buf + unat len \<le> 4294967296"
  shows "\<exists>s'. vfs_read (call_read c) (of_nat (a + 704 + 140 * length fs + 312 * i)) off len buf s =
      Inr (of_nat (length (take (unat len) (drop (unat off) data))), s') \<and>
    bytes_at (mem s') (unat buf) (take (unat len) (drop (unat off) data)) \<and>
    (\<forall>y. \<not> (unat buf \<le> unat y \<and> unat y < unat buf + length (take (unat len) (drop (unat off) data))) \<longrightarrow> mem s' y = mem s y)"
proof (cases "unat off \<le> length data")
  case False
  have "length data < 4294967296" using read_disk_eq(4-6) [OF D c i] by linarith
  with False have "of_nat (length data) < off" by (simp add: u32_less_iff unat_of_nat_u32)
  with False show ?thesis using read_disk_eq(1) [OF D c i, of off len buf] by (simp add: bytes_at_def)
next
  case in_file: True
  let ?nd = "a + 704 + 140 * length fs + 312 * i" and ?out = "take (unat len) (drop (unat off) data)"
  let ?h = "header_addr p fs i"
  note R = read_disk_eq [OF D c i]
  have ld: "length data < 4294967296" using R(4-6) by linarith
  have len': "(if off + len > of_nat (length data) then of_nat (length data) - off else len) = of_nat (length ?out)"
  proof -
    have "unat (off + len) = unat off + unat len" using off by (rule unat_add_no_wrap)
    moreover have "(of_nat (length data) :: u32) - off = of_nat (length data - unat off)" using in_file by (simp add: of_nat_diff)
    moreover have "length ?out = (if length data < unat off + unat len then length data - unat off else unat len)" using in_file by auto
    ultimately show ?thesis using ld by (simp add: u32_less_iff unat_of_nat_u32 del: length_take length_drop)
  qed
  have no: "\<not> of_nat (length data) < off" using in_file ld by (simp add: u32_less_iff unat_of_nat_u32)
  have src: "of_nat (?h + 512) + off = of_nat (?h + 512 + unat off)" by simp
  define m' where "m' = memcpy (mem s) buf (of_nat (?h + 512 + unat off)) (of_nat (length ?out))"
  have "vfs_read (call_read c) (of_nat ?nd) off len buf s = Inr (of_nat (length ?out), s\<lparr>mem := m'\<rparr>)"
    using no unfolding m'_def R(1) Let_def len' src by simp
  moreover have mm: "m' y = (if unat buf \<le> unat y \<and> unat y < unat buf + length ?out then mem s (of_nat (?h + 512 + unat off + (unat y - unat buf))) else mem s y)" for y
  proof (cases "?out = []")
    case True
    show ?thesis unfolding m'_def True by (auto simp: memcpy_def)
  next
    case False
    have "m' y = memcpy (mem s) (of_nat (unat buf)) (of_nat (?h + 512 + unat off)) (of_nat (length ?out)) y" by (simp add: m'_def)
    also have "\<dots> = (if unat buf \<le> unat y \<and> unat y < unat buf + length ?out then mem s (of_nat (?h + 512 + unat off + (unat y - unat buf))) else mem s y)"
      using False buf R(3-6) ld off in_file by (intro memcpy_nat) auto
    finally show ?thesis .
  qed
  moreover have "bytes_at m' (unat buf) ?out"
    unfolding bytes_at_def
  proof (intro allI impI)
    fix j assume j: "j < length ?out"
    then have u: "unat (of_nat (unat buf + j) :: u32) = unat buf + j" using buf(2) by (intro unat_of_nat_u32) simp
    have "unat off + j < length data" using j by (simp add: less_diff_conv add.commute)
    then have "mem s (of_nat (?h + 512 + (unat off + j))) = data ! (unat off + j)" using R(2) by (simp add: bytes_at_def del: of_nat_add)
    then show "m' (of_nat (unat buf + j)) = ?out ! j" using mm [of "of_nat (unat buf + j)"] u j in_file by (simp add: add.assoc del: of_nat_add)
  qed
  ultimately show ?thesis by (intro exI [of _ "s\<lparr>mem := m'\<rparr>"]) simp
qed

text \<open>
  Property C20.  After \<open>init_initrd\<close> on an archive of files, looking up a name in the root directory finds the
  \<open>dev\<close> directory under that name, the first file of that name with its size, type and name, and nothing
  under any other name.
\<close>

theorem initrd_lookup:
  assumes "fresh s us n" "452 * length fs + 732 \<le> n" "\<forall>f \<in> set fs. tar_name (fst f)"
    "bytes_at (mem s) p (tar_archive fs)" "p + length (tar_archive fs) \<le> unat (sa_array (h_index (kheap s)))"
    "initrd_finddir_p c \<noteq> 0"
  shows "\<exists>root s'. init_initrd c (Suc k) (of_nat p) s = Inr (root, s') \<and> VFS_ISDIR (mem s') root \<and>
    (\<forall>nm name. cstr (mem s') nm name \<longrightarrow>
      (if name = lit ''dev'' then vfs_finddir (call_finddir c) root nm s' = Inr (initrd_dev s', s')
       else case map_of fs name of
           None \<Rightarrow> vfs_finddir (call_finddir c) root nm s' = Inr (0, s')
         | Some data \<Rightarrow> \<exists>node. vfs_finddir (call_finddir c) root nm s' = Inr (node, s') \<and>
             cstr (mem s') node name \<and> vn_length (mem s') node = of_nat (length data) \<and>
             \<not> VFS_ISDIR (mem s') node))"
proof -
  note A = tar_archive_at [OF assms(4,3)]
  have e: "tar_end p fs \<le> unat (sa_array (h_index (kheap s)))" using assms(5) A(2) by simp
  obtain s' where I: "init_initrd c (Suc k) (of_nat p) s = Inr (of_nat (htop s us + 12), s')" "disk c s' p fs (htop s us)"
    by (rule init_initrd_ok [OF assms(1,2) A(1) e])
  let ?a = "htop s us"
  have r: "initrd_root s' = of_nat (?a + 12)" "dir_ok c (mem s') (?a + 12)" and
      N: "nodes_ok c (mem s') (?a + 704 + 140 * length fs) 0 fs"
    using I(2) unfolding disk_def by blast+
  note FD = finddir_disk [OF I(2) assms(6), unfolded r(1)]
  have "if name = lit ''dev'' then vfs_finddir (call_finddir c) (of_nat (?a + 12)) nm s' = Inr (initrd_dev s', s')
       else case map_of fs name of
           None \<Rightarrow> vfs_finddir (call_finddir c) (of_nat (?a + 12)) nm s' = Inr (0, s')
         | Some data \<Rightarrow> \<exists>node. vfs_finddir (call_finddir c) (of_nat (?a + 12)) nm s' = Inr (node, s') \<and>
             cstr (mem s') node name \<and> vn_length (mem s') node = of_nat (length data) \<and> \<not> VFS_ISDIR (mem s') node"
    if nm: "cstr (mem s') nm name" for nm name
  proof (cases "name = lit ''dev'' \<or> map_of fs name = None")
    case True
    then show ?thesis using FD(1,2) [OF nm] by auto
  next
    case False
    then obtain data where d: "map_of fs name = Some data" by auto
    then obtain i where i: "i < length fs" "fs ! i = (name, data)" "\<forall>j < i. fst (fs ! j) \<noteq> name" using map_of_first [OF d] by blast
    have "file_ok c (mem s') (?a + 704 + 140 * length fs + 312 * i) (0 + of_nat i) (name, data)"
      using nodes_ok_nth [OF N i(1)] i(2) by simp
    then have G: "cstr (mem s') (of_nat (?a + 704 + 140 * length fs + 312 * i)) name"
        "vn_length (mem s') (of_nat (?a + 704 + 140 * length fs + 312 * i)) = of_nat (length data)"
        "\<not> VFS_ISDIR (mem s') (of_nat (?a + 704 + 140 * length fs + 312 * i))"
      by (simp_all add: file_ok_def VFS_ISDIR_def VFS_FILE_def VFS_DIRECTORY_def del: of_nat_add of_nat_mult)
    have ne: "name \<noteq> lit ''dev''" using False by blast
    show ?thesis
      unfolding if_not_P [OF ne] d option.case by (intro exI conjI, rule FD(3) [OF nm ne i], (rule G)+)
  qed
  moreover have "VFS_ISDIR (mem s') (of_nat (?a + 12))" using r(2) by (simp add: dir_ok_def VFS_ISDIR_def VFS_DIRECTORY_def)
  ultimately show ?thesis using I(1) by blast
qed

text \<open>
  Property C18.  What goes into the archive comes out of the file system: after \<open>init_initrd\<close>, reading a file
  that was looked up by name copies to the buffer exactly the bytes of the file from the given offset on, up
  to the given length or the end of the file - none at all when the offset lies behind it -, returns their number, and
  changes nothing else.  Offset and length may be anything whose sum does not exceed 32 bits, and the buffer must
  not overlap the archive.
\<close>

theorem initrd_reads_back:
  assumes "fresh s us n" "452 * length fs + 732 \<le> n" "\<forall>f \<in> set fs. tar_name (fst f)"
    "bytes_at (mem s) p (tar_archive fs)" "p + length (tar_archive fs) \<le> unat (sa_array (h_index (kheap s)))"
    "initrd_finddir_p c \<noteq> 0" "initrd_read_p c \<noteq> 0"
  shows "\<exists>root s'. init_initrd c (Suc k) (of_nat p) s = Inr (root, s') \<and>
    (\<forall>nm name data off len buf. cstr (mem s') nm name \<and> name \<noteq> lit ''dev'' \<and> map_of fs name = Some data \<and>
      unat off + unat len < 4294967296 \<and> unat buf + unat len \<le> 4294967296 \<and>
      (unat buf + unat len \<le> p \<or> p + length (tar_archive fs) \<le> unat buf) \<longrightarrow>
      (\<exists>node s''. vfs_finddir (call_finddir c) root nm s' = Inr (node, s') \<and>
        vfs_read (call_read c) node off len buf s' = Inr (of_nat (length (take (unat len) (drop (unat off) data))), s'') \<and>
        bytes_at (mem s'') (unat buf) (take (unat len) (drop (unat off) data)) \<and>
        (\<forall>y. \<not> (unat buf \<le> unat y \<and> unat y < unat buf + length (take (unat len) (drop (unat off) data))) \<longrightarrow> mem s'' y = mem s' y)))"
proof -
  note A = tar_archive_at [OF assms(4,3)]
  have e: "tar_end p fs \<le> unat (sa_array (h_index (kheap s)))" using assms(5) A(2) by simp
  obtain s' where I: "init_initrd c (Suc k) (of_nat p) s = Inr (of_nat (htop s us + 12), s')" "disk c s' p fs (htop s us)"
    by (rule init_initrd_ok [OF assms(1,2) A(1) e])
  have r: "initrd_root s' = of_nat (htop s us + 12)" using I(2) unfolding disk_def by blast
  show ?thesis
  proof (rule exI [of _ "of_nat (htop s us + 12)"], rule exI [of _ s'], intro conjI allI impI, rule I(1), elim conjE)
    fix nm name data and off len buf :: u32
    assume nm: "cstr (mem s') nm name" "name \<noteq> lit ''dev''" "map_of fs name = Some data"
      and off: "unat off + unat len < 4294967296"
      and buf: "unat buf + unat len \<le> 4294967296" "unat buf + unat len \<le> p \<or> p + length (tar_archive fs) \<le> unat buf"
    obtain i where i: "i < length fs" "fs ! i = (name, data)" "\<forall>j < i. fst (fs ! j) \<noteq> name" using map_of_first [OF nm(3)] by blast
    obtain s'' where R: "vfs_read (call_read c) (of_nat (htop s us + 704 + 140 * length fs + 312 * i)) off len buf s' =
          Inr (of_nat (length (take (unat len) (drop (unat off) data))), s'')"
        "bytes_at (mem s'') (unat buf) (take (unat len) (drop (unat off) data))"
        "\<forall>y. \<not> (unat buf \<le> unat y \<and> unat y < unat buf + length (take (unat len) (drop (unat off) data))) \<longrightarrow> mem s'' y = mem s' y"
      using read_disk [OF I(2) assms(7) i off buf(2) [unfolded A(2)] buf(1)] by (elim exE conjE) (rule that, assumption+)
    show "\<exists>node s''. vfs_finddir (call_finddir c) (of_nat (htop s us + 12)) nm s' = Inr (node, s') \<and>
        vfs_read (call_read c) node off len buf s' = Inr (of_nat (length (take (unat len) (drop (unat off) data))), s'') \<and>
        bytes_at (mem s'') (unat buf) (take (unat len) (drop (unat off) data)) \<and>
        (\<forall>y. \<not> (unat buf \<le> unat y \<and> unat y < unat buf + length (take (unat len) (drop (unat off) data))) \<longrightarrow> mem s'' y = mem s' y)"
      by (intro exI conjI, rule finddir_disk(3) [OF I(2) assms(6) nm(1,2) i, unfolded r], (rule R)+)
  qed
qed

definition fs_boot_state :: "u32 \<Rightarrow> u32 \<Rightarrow> memory \<Rightarrow> initrd_state" where
  "fs_boot_state p d m = (vfs_state.extend (vm_state.extend (boot_state p) (vfs_state.fields 0))
     (initrd_state.fields 0 0 0 0 0 d))\<lparr>mem := m\<rparr>"

lemma mem_fs_boot [simp]: "mem (fs_boot_state p d m) = m"
  by (simp add: fs_boot_state_def)

definition sample_code :: initrd_code where
  "sample_code = \<lparr>initrd_read_p = 0x101000, initrd_readdir_p = 0x101100, initrd_finddir_p = 0x101200\<rparr>"

lemma sample_names: "\<forall>f \<in> set sample_files. tar_name (fst f)" "length sample_files = 2" "length (tar_archive sample_files) = 2561"
    "map_of sample_files [0x61] = Some [0x68, 0x69]"
  by (simp_all add: sample_files_def tar_name_def tar_archive_def tar_image_def)

lemma sample_ram_disk:
  obtains s :: initrd_state where "fresh s [] 0x7F000" "bytes_at (mem s) 0x1000 (tar_archive sample_files)"
    "sa_array (h_index (kheap s)) = 0x100000"
proof -
  obtain s where "init_heap 64 0x100000 0x200000 0x300000 0 0 (fs_boot_state 0x80000 0 (sample_memory (tar_archive sample_files) 0x1000)) = Inr (64, s)"
      "fresh (s\<lparr>kernel_heap := 64\<rparr>) [] 0x7F000" "bytes_at (mem s) 0x1000 (tar_archive sample_files)"
      "sa_array (h_index (vm_heaps s 64)) = 0x100000"
    using sample_disk [OF mem_fs_boot, of "0x80000" 0] by blast
  then show thesis by (intro that [of "s\<lparr>kernel_heap := 64\<rparr>"]) simp_all
qed

theorem initrd_lookup_witness:
  "\<exists>(s :: initrd_state) root s'. fresh s [] 0x7F000 \<and> init_initrd sample_code 1 0x1000 s = Inr (root, s') \<and>
    VFS_ISDIR (mem s') root"
proof -
  obtain s :: initrd_state where s: "fresh s [] 0x7F000" "bytes_at (mem s) 0x1000 (tar_archive sample_files)"
      "sa_array (h_index (kheap s)) = 0x100000"
    by (rule sample_ram_disk)
  have "\<exists>root s'. init_initrd sample_code (Suc 0) (of_nat 0x1000) s = Inr (root, s') \<and> VFS_ISDIR (mem s') root"
    using initrd_lookup [OF s(1), of sample_files "0x1000" sample_code 0] s(2,3) sample_names
    by (auto simp: sample_code_def)
  then show ?thesis using s(1) by auto
qed

theorem initrd_reads_back_witness:
  "\<exists>(s :: initrd_state) root s'. fresh s [] 0x7F000 \<and> init_initrd sample_code 1 0x1000 s = Inr (root, s') \<and>
    (\<forall>nm. cstr (mem s') nm [0x61] \<longrightarrow> (\<exists>node s''. vfs_finddir (call_finddir sample_code) root nm s' = Inr (node, s') \<and>
       vfs_read (call_read sample_code) node 1 100 0x8000 s' = Inr (1, s'') \<and> mem s'' 0x8000 = 0x69))"
proof -
  obtain s :: initrd_state where s: "fresh s [] 0x7F000" "bytes_at (mem s) 0x1000 (tar_archive sample_files)"
      "sa_array (h_index (kheap s)) = 0x100000"
    by (rule sample_ram_disk)
  have pre: "452 * length sample_files + 732 \<le> 0x7F000" "0x1000 + length (tar_archive sample_files) \<le> unat (sa_array (h_index (kheap s)))"
      "initrd_finddir_p sample_code \<noteq> 0" "initrd_read_p sample_code \<noteq> 0"
    using s(3) sample_names by (simp_all add: sample_code_def)
  obtain root s' where I: "init_initrd sample_code (Suc 0) (of_nat 0x1000) s = Inr (root, s')"
    and R: "\<forall>nm name data off len buf. cstr (mem s') nm name \<and> name \<noteq> lit ''dev'' \<and> map_of sample_files name = Some data \<and>
      unat off + unat len < 4294967296 \<and> unat buf + unat len \<le> 4294967296 \<and>
      (unat buf + unat len \<le> 0x1000 \<or> 0x1000 + length (tar_archive sample_files) \<le> unat buf) \<longrightarrow>
      (\<exists>node s''. vfs_finddir (call_finddir sample_code) root nm s' = Inr (node, s') \<and>
        vfs_read (call_read sample_code) node off len buf s' = Inr (of_nat (length (take (unat len) (drop (unat off) data))), s'') \<and>
        bytes_at (mem s'') (unat buf) (take (unat len) (drop (unat off) data)) \<and>
        (\<forall>y. \<not> (unat buf \<le> unat y \<and> unat y < unat buf + length (take (unat len) (drop (unat off) data))) \<longrightarrow> mem s'' y = mem s' y))"
    using initrd_reads_back [OF s(1) pre(1) sample_names(1) s(2) pre(2-4), of 0] by (elim exE conjE) (rule that)
  have "\<exists>node s''. vfs_finddir (call_finddir sample_code) root nm s' = Inr (node, s') \<and>
       vfs_read (call_read sample_code) node 1 100 0x8000 s' = Inr (1, s'') \<and> mem s'' 0x8000 = 0x69"
    if "cstr (mem s') nm [0x61]" for nm
    using R [rule_format, of nm "[0x61]" "[0x68, 0x69]" 1 100 "0x8000"] that sample_names(3,4) by (auto simp: lit_def bytes_at_def)
  then show ?thesis using s(1) I by auto
qed





end
