(* ===== verification/Kernel_Main.thy ===== *)
theory Kernel_Main
  imports Initrd
begin

unbundle bit_operations_syntax

section \<open>The kernel's entry point (\<open>main.c\<close>)\<close>

text \<open>
  \<open>vfs_print_content\<close> lists the root directory.  Its buffer of 1025 bytes is on the stack, at the
  address \<open>buf\<close>.  The loop runs until the root directory returns no entry.
\<close>

definition print_entry ::
    "initrd_code \<Rightarrow> u32 \<Rightarrow> u32 \<Rightarrow> 'a initrd_state_scheme \<Rightarrow> 'a initrd_state_scheme res" where
  "print_entry c buf node s =
     bindr (printf (lit ''Found file %s'') [node] s) (\<lambda>(_, s).
     bindr (vfs_finddir (call_finddir c) (vfs_root s) node s) (\<lambda>(fsnode, s).
     if VFS_ISDIR (mem s) fsnode
     then bindr (printf ([0x0A, 0x09] @ lit ''(directory)'' @ [0x0A]) [] s) (\<lambda>(_, s). Inr s)
     else bindr (printf ([0x0A, 0x09] @ lit '' contents:'' @ [0x0A]) [] s) (\<lambda>(_, s).
          bindr (vfs_read (call_read c) fsnode 0 1024 buf s) (\<lambda>(sz, s).
          let s = s\<lparr>mem := store8 (mem s) (buf + sz) 0\<rparr> in
          bindr (printf (lit ''%s'' @ [0x0A]) [buf] s) (\<lambda>(_, s). Inr s)))))"

partial_function (option) print_loop ::
    "initrd_code \<Rightarrow> u32 \<Rightarrow> u32 \<Rightarrow> 'a initrd_state_scheme \<Rightarrow> 'a initrd_state_scheme res option" where
  "print_loop c buf i s =
     (case vfs_readdir (call_readdir c) (vfs_root s) i s of
        Inl e \<Rightarrow> Some (Inl e)
      | Inr (node, s) \<Rightarrow>
          if node = 0 then Some (Inr s)
          else (case print_entry c buf node s of
              Inl e \<Rightarrow> Some (Inl e)
            | Inr s \<Rightarrow> print_loop c buf (i + 1) s))"

definition vfs_print_content :: "initrd_code \<Rightarrow> u32 \<Rightarrow> 'a initrd_state_scheme \<Rightarrow> 'a initrd_state_scheme res" where
  "vfs_print_content c buf s = bindr (of_option Diverge (print_loop c buf 0 s)) (\<lambda>r. r)"

text \<open>\<open>struct multiboot\<close>: the number and the address of the module descriptors.\<close>

definition mb_mods_count :: "memory \<Rightarrow> u32 \<Rightarrow> u32" where "mb_mods_count m p = load32 m (p + 20)"
definition mb_mods_addr :: "memory \<Rightarrow> u32 \<Rightarrow> u32" where "mb_mods_addr m p = load32 m (p + 24)"

text \<open>The addresses the linker chose: the descriptor tables, the interrupt stubs and the callbacks.\<close>

record kern_image =
  ki_gdt :: u32
  ki_idt :: u32
  ki_stub :: "nat \<Rightarrow> u32"
  ki_code :: initrd_code

definition kern_boot ::
    "kern_image \<Rightarrow> nat \<Rightarrow> u32 \<Rightarrow> u32 \<Rightarrow> 'a initrd_state_scheme \<Rightarrow> 'a initrd_state_scheme res" where
  "kern_boot k n buf mboot_ptr s =
     (let s = mon_clear s in
      bindr (print_lit ''+ booting.\<newline>'' s) (\<lambda>s.
      bindr (print_lit ''+ descriptor tables init...'' s) (\<lambda>s.
      bindr (init_descriptor_tables (ki_gdt k) (ki_idt k) (ki_stub k) s) (\<lambda>s.
      bindr (print_lit ''OK\<newline>'' s) (\<lambda>s.
      bindr (print_lit ''+ multiboot...'' s) (\<lambda>s.
      kassert ''multiboot modules'' (mb_mods_count (mem s) mboot_ptr > 0)
      (let initrd_start = load32 (mem s) (mb_mods_addr (mem s) mboot_ptr);
           initrd_end = load32 (mem s) (mb_mods_addr (mem s) mboot_ptr + 4);
           s = s\<lparr>placement_address := initrd_end\<rparr> in
      bindr (print_lit ''OK\<newline>'' s) (\<lambda>s.
      bindr (print_lit ''+ switching to paged mode...'' s) (\<lambda>s.
      bindr (init_paging s) (\<lambda>s.
      bindr (print_lit ''OK\<newline>'' s) (\<lambda>s.
      bindr (print_lit ''+ VFS...'' s) (\<lambda>s.
      bindr (init_initrd (ki_code k) n initrd_start s) (\<lambda>(root, s).
      let s = s\<lparr>vfs_root := root\<rparr> in
      bindr (print_lit ''OK\<newline>'' s) (\<lambda>s.
      vfs_print_content (ki_code k) buf s))))))))))))))"

definition kern_main ::
    "kern_image \<Rightarrow> nat \<Rightarrow> u32 \<Rightarrow> u32 \<Rightarrow> 'a initrd_state_scheme \<Rightarrow> u32 res" where
  "kern_main k n buf mboot_ptr s =
     bindr (kern_boot k n buf mboot_ptr s) (\<lambda>_. Inl (Panic ''end of kern_main()''))"

end
