(* ===== verification/Linux_Sched.thy ===== *)
theory Linux_Sched
  imports Prelude
begin

unbundle bit_operations_syntax

section \<open>Scheduling in linux-0.01 (\<open>kernel/sched.c\<close>)\<close>

text \<open>
  The vendored linux-0.01 is a kernel of its own.  Its scheduler works on a table of pointers to task
  structures; the structures themselves are kept in a store from addresses to records, so that two
  pointers to the same task share it.  A \<open>long\<close> is a 32-bit word read as a signed number.  Pointers to
  inodes and to open files are indices of the tables that hold them, \<open>None\<close> for \<open>NULL\<close>; a segment
  descriptor is the pair of its two words.  The saved state of the coprocessor is left out.
\<close>

record tss_struct =
  tss_back_link :: u32
  tss_esp0 :: u32
  tss_ss0 :: u32
  tss_esp1 :: u32
  tss_ss1 :: u32
  tss_esp2 :: u32
  tss_ss2 :: u32
  tss_cr3 :: u32
  tss_eip :: u32
  tss_eflags :: u32
  tss_eax :: u32
  tss_ecx :: u32
  tss_edx :: u32
  tss_ebx :: u32
  tss_esp :: u32
  tss_ebp :: u32
  tss_esi :: u32
  tss_edi :: u32
  tss_es :: u32
  tss_cs :: u32
  tss_ss :: u32
  tss_ds :: u32
  tss_fs :: u32
  tss_gs :: u32
  tss_ldt :: u32
  tss_trace_bitmap :: u32

record task_struct =
  t_state :: u32
  t_counter :: u32
  t_priority :: u32
  t_signal :: u32
  t_sig_restorer :: u32
  t_sig_fn :: "u32 list"
  t_exit_code :: u32
  t_end_code :: u32
  t_end_data :: u32
  t_brk :: u32
  t_start_stack :: u32
  t_pid :: u32
  t_father :: u32
  t_pgrp :: u32
  t_session :: u32
  t_leader :: u32
  t_uid :: u16
  t_euid :: u16
  t_suid :: u16
  t_gid :: u16
  t_egid :: u16
  t_sgid :: u16
  t_alarm :: u32
  t_utime :: u32
  t_stime :: u32
  t_cutime :: u32
  t_cstime :: u32
  t_start_time :: u32
  t_used_math :: u16
  t_tty :: u32
  t_umask :: u16
  t_pwd :: "nat option"
  t_root :: "nat option"
  t_close_on_exec :: u32
  t_filp :: "nat option list"         \<comment> \<open>\<open>NR_OPEN\<close> pointers\<close>
  t_ldt :: "(u32 \<times> u32) list"         \<comment> \<open>zero, code, data and stack\<close>
  t_tss :: tss_struct

record sched_state =
  task :: "u32 list"                  \<comment> \<open>\<open>NR_TASKS\<close> pointers\<close>
  tasks :: "u32 \<Rightarrow> task_struct"        \<comment> \<open>the structures they point to\<close>
  current :: u32
  jiffies :: u32
  startup_time :: u32
  init_task :: u32                    \<comment> \<open>address of the task that runs when no other can\<close>
  wait_queues :: "u32 \<Rightarrow> u32"          \<comment> \<open>the variables that \<open>sleep_on\<close> is given the address of\<close>
  last_pid :: u32
  last_task_used_math :: u32

definition NR_TASKS :: nat where "NR_TASKS = 64"
definition HZ :: u32 where "HZ = 100"
definition TASK_RUNNING :: u32 where "TASK_RUNNING = 0"
definition TASK_INTERRUPTIBLE :: u32 where "TASK_INTERRUPTIBLE = 1"
definition TASK_UNINTERRUPTIBLE :: u32 where "TASK_UNINTERRUPTIBLE = 2"
definition TASK_ZOMBIE :: u32 where "TASK_ZOMBIE = 3"
definition SIGALRM :: nat where "SIGALRM = 14"

definition upd_task :: "u32 \<Rightarrow> (task_struct \<Rightarrow> task_struct) \<Rightarrow> 'a sched_state_scheme \<Rightarrow> 'a sched_state_scheme" where
  "upd_task p f s = s\<lparr>tasks := (tasks s)(p := f (tasks s p))\<rparr>"

text \<open>The slots from the last one down to 1: \<open>for(p = &LAST_TASK ; p > &FIRST_TASK ; --p)\<close>.\<close>

definition slots_down :: "nat list" where
  "slots_down = rev [1..<NR_TASKS]"

text \<open>Alarms that have expired raise their signal; interruptible tasks with a signal wake up.\<close>

definition check_alarm :: "u32 \<Rightarrow> task_struct \<Rightarrow> task_struct" where
  "check_alarm now t =
     (let t = (if t_alarm t \<noteq> 0 \<and> sint (t_alarm t) < sint now
               then t\<lparr>t_signal := t_signal t OR push_bit (SIGALRM - 1) 1, t_alarm := 0\<rparr> else t)
      in if t_signal t \<noteq> 0 \<and> t_state t = TASK_INTERRUPTIBLE then t\<lparr>t_state := TASK_RUNNING\<rparr> else t)"

definition for_tasks :: "(task_struct \<Rightarrow> task_struct) \<Rightarrow> 'a sched_state_scheme \<Rightarrow> 'a sched_state_scheme" where
  "for_tasks f s = fold (\<lambda>i s. if task s ! i \<noteq> 0 then upd_task (task s ! i) f s else s) slots_down s"

definition check_alarms :: "'a sched_state_scheme \<Rightarrow> 'a sched_state_scheme" where
  "check_alarms s = for_tasks (check_alarm (jiffies s)) s"

text \<open>One pass over the table: the counter \<open>c\<close> and the slot \<open>next\<close> chosen so far.\<close>

definition pick_step :: "'a sched_state_scheme \<Rightarrow> nat \<Rightarrow> u32 \<times> nat \<Rightarrow> u32 \<times> nat" where
  "pick_step s i cn =
     (let (c, nxt) = cn; p = task s ! i in
      if p \<noteq> 0 \<and> t_state (tasks s p) = TASK_RUNNING \<and> sint (t_counter (tasks s p)) > sint c
      then (t_counter (tasks s p), i) else (c, nxt))"

definition pick_next :: "'a sched_state_scheme \<Rightarrow> u32 \<times> nat" where
  "pick_next s = fold (pick_step s) slots_down (- 1, 0)"

definition recharge :: "task_struct \<Rightarrow> task_struct" where
  "recharge t = t\<lparr>t_counter := signed_drop_bit 1 (t_counter t) + t_priority t\<rparr>"

text \<open>The loop \<open>while (1)\<close>: \<open>None\<close> when no pass ever finds a nonzero counter.\<close>

partial_function (option) schedule_loop :: "'a sched_state_scheme \<Rightarrow> (nat \<times> 'a sched_state_scheme) option" where
  "schedule_loop s =
     (if fst (pick_next s) \<noteq> 0 then Some (snd (pick_next s), s)
      else schedule_loop (for_tasks recharge s))"

definition switch_to :: "nat \<Rightarrow> 'a sched_state_scheme \<Rightarrow> 'a sched_state_scheme" where
  "switch_to n s = (if task s ! n = current s then s else s\<lparr>current := task s ! n\<rparr>)"

definition schedule :: "'a sched_state_scheme \<Rightarrow> 'a sched_state_scheme option" where
  "schedule s = map_option (\<lambda>(nxt, s). switch_to nxt s) (schedule_loop (check_alarms s))"

definition sys_pause :: "'a sched_state_scheme \<Rightarrow> 'a sched_state_scheme option" where
  "sys_pause s = schedule (upd_task (current s) (\<lambda>t. t\<lparr>t_state := TASK_INTERRUPTIBLE\<rparr>) s)"

text \<open>
  Sleeping.  The first half of \<open>sleep_on\<close> runs up to the call of \<open>schedule\<close> and leaves the former
  head of the queue in the local variable \<open>tmp\<close> of the sleeping task; the second half runs when
  the task is scheduled again.
\<close>

definition sleep_on_enter :: "u32 \<Rightarrow> u32 \<Rightarrow> 'a sched_state_scheme \<Rightarrow> (u32 \<times> 'a sched_state_scheme) res" where
  "sleep_on_enter st p s =
     (if current s = init_task s then Inl (Panic ''task[0] trying to sleep'')
      else let tmp = wait_queues s p;
               s = s\<lparr>wait_queues := (wait_queues s)(p := current s)\<rparr>
           in Inr (tmp, upd_task (current s) (\<lambda>t. t\<lparr>t_state := st\<rparr>) s))"

definition sleep_on_leave :: "u32 \<Rightarrow> 'a sched_state_scheme \<Rightarrow> 'a sched_state_scheme" where
  "sleep_on_leave tmp s = (if tmp \<noteq> 0 then upd_task tmp (\<lambda>t. t\<lparr>t_state := 0\<rparr>) s else s)"

definition sleep_on :: "u32 \<Rightarrow> 'a sched_state_scheme \<Rightarrow> (u32 \<times> 'a sched_state_scheme) res" where
  "sleep_on p s =
     (if p = 0 then Inr (0, s)
      else bindr (sleep_on_enter TASK_UNINTERRUPTIBLE p s) (\<lambda>(tmp, s).
           bindr (of_option Diverge (schedule s)) (\<lambda>s. Inr (tmp, s))))"

text \<open>
  \<open>interruptible_sleep_on\<close>: when it resumes it wakes a task that queued up after it and sleeps again;
  \<open>True\<close> says that it has to sleep once more.
\<close>

definition interruptible_sleep_on :: "u32 \<Rightarrow> 'a sched_state_scheme \<Rightarrow> (u32 \<times> 'a sched_state_scheme) res" where
  "interruptible_sleep_on p s =
     (if p = 0 then Inr (0, s)
      else bindr (sleep_on_enter TASK_INTERRUPTIBLE p s) (\<lambda>(tmp, s).
           bindr (of_option Diverge (schedule s)) (\<lambda>s. Inr (tmp, s))))"

definition interruptible_leave :: "u32 \<Rightarrow> u32 \<Rightarrow> 'a sched_state_scheme \<Rightarrow> (bool \<times> 'a sched_state_scheme) res" where
  "interruptible_leave p tmp s =
     (if wait_queues s p \<noteq> 0 \<and> wait_queues s p \<noteq> current s
      then let s = upd_task (wait_queues s p) (\<lambda>t. t\<lparr>t_state := 0\<rparr>) s;
               s = upd_task (current s) (\<lambda>t. t\<lparr>t_state := TASK_INTERRUPTIBLE\<rparr>) s
           in bindr (of_option Diverge (schedule s)) (\<lambda>s. Inr (True, s))
      else Inr (False, sleep_on_leave tmp (s\<lparr>wait_queues := (wait_queues s)(p := 0)\<rparr>)))"

definition wake_up :: "u32 \<Rightarrow> 'a sched_state_scheme \<Rightarrow> 'a sched_state_scheme" where
  "wake_up p s =
     (if p \<noteq> 0 \<and> wait_queues s p \<noteq> 0
      then let s = upd_task (wait_queues s p) (\<lambda>t. t\<lparr>t_state := 0\<rparr>) s
           in s\<lparr>wait_queues := (wait_queues s)(p := 0)\<rparr>
      else s)"

definition do_timer :: "u32 \<Rightarrow> 'a sched_state_scheme \<Rightarrow> 'a sched_state_scheme option" where
  "do_timer cpl s =
     (let s = (if cpl \<noteq> 0 then upd_task (current s) (\<lambda>t. t\<lparr>t_utime := t_utime t + 1\<rparr>) s
               else upd_task (current s) (\<lambda>t. t\<lparr>t_stime := t_stime t + 1\<rparr>) s);
          s = upd_task (current s) (\<lambda>t. t\<lparr>t_counter := t_counter t - 1\<rparr>) s in
      if sint (t_counter (tasks s (current s))) > 0 then Some s
      else let s = upd_task (current s) (\<lambda>t. t\<lparr>t_counter := 0\<rparr>) s in
           if cpl = 0 then Some s else schedule s)"

subsection \<open>System calls on the current task\<close>

abbreviation cur :: "'a sched_state_scheme \<Rightarrow> task_struct" where "cur s \<equiv> tasks s (current s)"

definition sys_alarm :: "u32 \<Rightarrow> 'a sched_state_scheme \<Rightarrow> u32 \<times> 'a sched_state_scheme" where
  "sys_alarm seconds s =
     (seconds, upd_task (current s) (\<lambda>t. t\<lparr>t_alarm := if sint seconds > 0 then jiffies s + HZ * seconds else 0\<rparr>) s)"

definition sys_getpid :: "'a sched_state_scheme \<Rightarrow> u32" where "sys_getpid s = t_pid (cur s)"
definition sys_getppid :: "'a sched_state_scheme \<Rightarrow> u32" where "sys_getppid s = t_father (cur s)"
definition sys_getuid :: "'a sched_state_scheme \<Rightarrow> u32" where "sys_getuid s = ucast (t_uid (cur s))"
definition sys_geteuid :: "'a sched_state_scheme \<Rightarrow> u32" where "sys_geteuid s = ucast (t_euid (cur s))"
definition sys_getgid :: "'a sched_state_scheme \<Rightarrow> u32" where "sys_getgid s = ucast (t_gid (cur s))"
definition sys_getegid :: "'a sched_state_scheme \<Rightarrow> u32" where "sys_getegid s = ucast (t_egid (cur s))"

definition sys_nice :: "u32 \<Rightarrow> 'a sched_state_scheme \<Rightarrow> u32 \<times> 'a sched_state_scheme" where
  "sys_nice increment s =
     (0, if sint (t_priority (cur s) - increment) > 0
         then upd_task (current s) (\<lambda>t. t\<lparr>t_priority := t_priority t - increment\<rparr>) s else s)"

definition catchable :: "u32 \<Rightarrow> bool" where
  "catchable sg \<longleftrightarrow> sg \<in> {1, 2, 3, 4, 5, 6, 8, 10, 11, 12, 13, 14, 17}"

definition sys_signal :: "u32 \<Rightarrow> u32 \<Rightarrow> u32 \<Rightarrow> 'a sched_state_scheme \<Rightarrow> u32 \<times> 'a sched_state_scheme" where
  "sys_signal sg addr restorer s =
     (if catchable sg
      then let i = t_sig_fn (cur s) ! unat (sg - 1) in
           (i, upd_task (current s) (\<lambda>t. t\<lparr>t_sig_fn := (t_sig_fn t)[unat (sg - 1) := addr], t_sig_restorer := restorer\<rparr>) s)
      else (- 1, s))"

end
