(* ===== verification/Linux_Sys.thy ===== *)
theory Linux_Sys
  imports Linux_Sched
begin

unbundle bit_operations_syntax

section \<open>Process system calls of linux-0.01 (\<open>kernel/sys.c\<close>, \<open>kernel/exit.c\<close>, \<open>kernel/fork.c\<close>)\<close>

text \<open>
  The calls that read and change the task table only.  An \<open>int\<close> or \<open>long\<close> argument and result is a
  32-bit word; an error number is returned negated.
\<close>

definition EPERM :: u32 where "EPERM = 1"
definition ESRCH :: u32 where "ESRCH = 3"
definition EINTR :: u32 where "EINTR = 4"
definition ECHILD :: u32 where "ECHILD = 10"
definition EAGAIN :: u32 where "EAGAIN = 11"
definition ENOMEM :: u32 where "ENOMEM = 12"
definition ENOSYS :: u32 where "ENOSYS = 38"
definition SIGCHLD :: nat where "SIGCHLD = 17"

subsection \<open>Calls that are not implemented\<close>

definition sys_ftime :: u32 where "sys_ftime = - ENOSYS"
definition sys_mknod :: u32 where "sys_mknod = - ENOSYS"
definition sys_break :: u32 where "sys_break = - ENOSYS"
definition sys_mount :: u32 where "sys_mount = - ENOSYS"
definition sys_umount :: u32 where "sys_umount = - ENOSYS"
definition sys_ustat :: "u32 \<Rightarrow> u32 \<Rightarrow> u32" where "sys_ustat dev ubuf = - 1"
definition sys_ptrace :: u32 where "sys_ptrace = - ENOSYS"
definition sys_stty :: u32 where "sys_stty = - ENOSYS"
definition sys_gtty :: u32 where "sys_gtty = - ENOSYS"
definition sys_rename :: u32 where "sys_rename = - ENOSYS"
definition sys_prof :: u32 where "sys_prof = - ENOSYS"
definition sys_acct :: u32 where "sys_acct = - ENOSYS"
definition sys_phys :: u32 where "sys_phys = - ENOSYS"
definition sys_lock :: u32 where "sys_lock = - ENOSYS"
definition sys_mpx :: u32 where "sys_mpx = - ENOSYS"
definition sys_ulimit :: u32 where "sys_ulimit = - ENOSYS"

subsection \<open>Identity\<close>

definition upd_cur :: "(task_struct \<Rightarrow> task_struct) \<Rightarrow> 'a sched_state_scheme \<Rightarrow> 'a sched_state_scheme" where
  "upd_cur f s = upd_task (current s) f s"

definition sys_setgid :: "u32 \<Rightarrow> 'a sched_state_scheme \<Rightarrow> u32 \<times> 'a sched_state_scheme" where
  "sys_setgid gid s =
     (if t_euid (cur s) \<noteq> 0 \<and> t_uid (cur s) \<noteq> 0
      then if ucast (t_gid (cur s)) = gid \<or> ucast (t_sgid (cur s)) = gid
           then (0, upd_cur (\<lambda>t. t\<lparr>t_egid := ucast gid\<rparr>) s)
           else (- EPERM, s)
      else (0, upd_cur (\<lambda>t. t\<lparr>t_gid := ucast gid, t_egid := ucast gid\<rparr>) s))"

definition sys_setuid :: "u32 \<Rightarrow> 'a sched_state_scheme \<Rightarrow> u32 \<times> 'a sched_state_scheme" where
  "sys_setuid uid s =
     (if t_euid (cur s) \<noteq> 0 \<and> t_uid (cur s) \<noteq> 0
      then if uid = ucast (t_uid (cur s)) \<or> t_suid (cur s) = t_uid (cur s)
           then (0, upd_cur (\<lambda>t. t\<lparr>t_euid := ucast uid\<rparr>) s)
           else (- EPERM, s)
      else (0, upd_cur (\<lambda>t. t\<lparr>t_euid := ucast uid, t_uid := ucast uid\<rparr>) s))"

definition sys_brk :: "u32 \<Rightarrow> 'a sched_state_scheme \<Rightarrow> u32 \<times> 'a sched_state_scheme" where
  "sys_brk end_data_seg s =
     (let s = (if end_data_seg \<ge> t_end_code (cur s) \<and> end_data_seg < t_start_stack (cur s) - 16384
               then upd_cur (\<lambda>t. t\<lparr>t_brk := end_data_seg\<rparr>) s else s)
      in (t_brk (cur s), s))"

definition find_pid :: "u32 \<Rightarrow> 'a sched_state_scheme \<Rightarrow> nat option" where
  "find_pid pid s = find (\<lambda>i. task s ! i \<noteq> 0 \<and> t_pid (tasks s (task s ! i)) = pid) [0..<NR_TASKS]"

definition sys_setpgid :: "u32 \<Rightarrow> u32 \<Rightarrow> 'a sched_state_scheme \<Rightarrow> u32 \<times> 'a sched_state_scheme" where
  "sys_setpgid pid pgid s =
     (let pid = (if pid = 0 then t_pid (cur s) else pid);
          pgid = (if pgid = 0 then pid else pgid) in
      case find_pid pid s of
        None \<Rightarrow> (- ESRCH, s)
      | Some i \<Rightarrow>
          if t_leader (tasks s (task s ! i)) \<noteq> 0 then (- EPERM, s)
          else if t_session (tasks s (task s ! i)) \<noteq> t_session (cur s) then (- EPERM, s)
          else (0, upd_task (task s ! i) (\<lambda>t. t\<lparr>t_pgrp := pgid\<rparr>) s))"

definition sys_getpgrp :: "'a sched_state_scheme \<Rightarrow> u32" where
  "sys_getpgrp s = t_pgrp (cur s)"

definition sys_setsid :: "'a sched_state_scheme \<Rightarrow> u32 \<times> 'a sched_state_scheme" where
  "sys_setsid s =
     (if t_uid (cur s) \<noteq> 0 \<and> t_euid (cur s) \<noteq> 0 then (- EPERM, s)
      else if t_leader (cur s) \<noteq> 0 then (- EPERM, s)
      else let s = upd_cur (\<lambda>t. t\<lparr>t_leader := 1, t_pgrp := t_pid t, t_session := t_pid t, t_tty := - 1\<rparr>) s
           in (t_pgrp (cur s), s))"

definition sys_umask :: "u32 \<Rightarrow> 'a sched_state_scheme \<Rightarrow> u32 \<times> 'a sched_state_scheme" where
  "sys_umask msk s = (ucast (t_umask (cur s)), upd_cur (\<lambda>t. t\<lparr>t_umask := ucast (msk AND 0x1FF)\<rparr>) s)"

subsection \<open>Signals\<close>

definition may_signal :: "task_struct \<Rightarrow> task_struct \<Rightarrow> bool" where
  "may_signal c p \<longleftrightarrow> t_uid c = t_uid p \<or> t_euid c = t_uid p \<or> t_uid c = t_euid p \<or> t_euid c = t_euid p"

definition send_sig :: "u32 \<Rightarrow> u32 \<Rightarrow> bool \<Rightarrow> 'a sched_state_scheme \<Rightarrow> 'a sched_state_scheme" where
  "send_sig sg p priv s =
     (if p = 0 \<or> sint sg < 1 \<or> sint sg > 32 then s
      else if priv \<or> may_signal (cur s) (tasks s p)
      then upd_task p (\<lambda>t. t\<lparr>t_signal := t_signal t OR push_bit (unat (sg - 1)) 1\<rparr>) s
      else s)"

text \<open>Which tasks a \<open>pid\<close> argument selects; the four loops of \<open>do_kill\<close> differ in this test only.\<close>

definition kill_selects :: "u32 \<Rightarrow> task_struct \<Rightarrow> task_struct \<Rightarrow> bool" where
  "kill_selects pid c t =
     (if pid = 0 then t_pgrp t = t_pid c
      else if sint pid > 0 then t_pid t = pid
      else if pid = - 1 then True
      else t_pgrp t = - pid)"

definition do_kill :: "u32 \<Rightarrow> u32 \<Rightarrow> bool \<Rightarrow> 'a sched_state_scheme \<Rightarrow> 'a sched_state_scheme" where
  "do_kill pid sg priv s =
     fold (\<lambda>i s. if task s ! i \<noteq> 0 \<and> kill_selects pid (cur s) (tasks s (task s ! i))
                then send_sig sg (task s ! i) priv s else s) slots_down s"

definition sys_kill :: "u32 \<Rightarrow> u32 \<Rightarrow> 'a sched_state_scheme \<Rightarrow> u32 \<times> 'a sched_state_scheme" where
  "sys_kill pid sg s = (0, do_kill pid sg (\<not> (t_uid (cur s) \<noteq> 0 \<or> t_euid (cur s) \<noteq> 0)) s)"

subsection \<open>Process numbers\<close>

definition pid_used :: "'a sched_state_scheme \<Rightarrow> u32 \<Rightarrow> bool" where
  "pid_used s pid \<longleftrightarrow> (\<exists>i \<in> set [0..<NR_TASKS]. task s ! i \<noteq> 0 \<and> t_pid (tasks s (task s ! i)) = pid)"

definition succ_pid :: "u32 \<Rightarrow> u32" where
  "succ_pid p = (if sint (p + 1) < 0 then 1 else p + 1)"

text \<open>The loop \<open>repeat: \<dots> goto repeat\<close>.\<close>

partial_function (option) next_pid :: "'a sched_state_scheme \<Rightarrow> u32 \<Rightarrow> u32 option" where
  "next_pid s p = (let q = succ_pid p in if pid_used s q then next_pid s q else Some q)"

definition find_empty_process :: "'a sched_state_scheme \<Rightarrow> (u32 \<times> 'a sched_state_scheme) option" where
  "find_empty_process s =
     map_option (\<lambda>q. (case find (\<lambda>i. task s ! i = 0) [1..<NR_TASKS] of Some i \<Rightarrow> of_nat i | None \<Rightarrow> - EAGAIN,
       s\<lparr>last_pid := q\<rparr>)) (next_pid s (last_pid s))"

end
