(* ===== verification/Linux_Scheduler.thy ===== *)
theory Linux_Scheduler
  imports Linux_Sched
begin

section \<open>Correctness of the linux-0.01 scheduler\<close>

text \<open>
  \<open>schedule\<close> ends, picks the runnable task with the largest counter, and lets every runnable task run.
  The bounds on counters and priorities (\<open>sched_ok\<close>) rule out signed overflow in the recharge
  \<open>counter/2 + priority\<close>; they hold from \<open>INIT_TASK\<close> on (counter and priority 15).
\<close>

subsection \<open>Loops over the task table\<close>

definition occupied :: "'a sched_state_scheme \<Rightarrow> nat set" where
  "occupied s = {i. 1 \<le> i \<and> i < NR_TASKS \<and> task s ! i \<noteq> 0}"

definition runnable :: "'a sched_state_scheme \<Rightarrow> nat \<Rightarrow> bool" where
  "runnable s i \<longleftrightarrow> i \<in> occupied s \<and> t_state (tasks s (task s ! i)) = TASK_RUNNING"

abbreviation counter :: "'a sched_state_scheme \<Rightarrow> nat \<Rightarrow> int" where
  "counter s i \<equiv> sint (t_counter (tasks s (task s ! i)))"

lemma slots_down_set [simp]: "set slots_down = {1..<NR_TASKS}" "distinct slots_down"
  by (auto simp: slots_down_def)

lemma fold_tasks:
  assumes "distinct is" "inj_on (\<lambda>i. task s ! i) {i \<in> set is. task s ! i \<noteq> 0}"
  shows "fold (\<lambda>i s. if task s ! i \<noteq> 0 then upd_task (task s ! i) f s else s) is s =
    s\<lparr>tasks := (\<lambda>p. if p \<noteq> 0 \<and> p \<in> (\<lambda>i. task s ! i) ` set is then f (tasks s p) else tasks s p)\<rparr>"
  using assms
proof (induction "is" arbitrary: s)
  case (Cons i js)
  have inj: "inj_on (\<lambda>i. task s ! i) {j \<in> set js. task s ! j \<noteq> 0}" using Cons.prems(2) by (rule inj_on_subset) auto
  show ?case
  proof (cases "task s ! i = 0")
    case True
    then show ?thesis using Cons.IH [of s] Cons.prems(1) inj by (simp cong: conj_cong)
  next
    case False
    let ?s = "upd_task (task s ! i) f s"
    have t: "task ?s = task s" by (simp add: upd_task_def)
    have n: "task s ! i \<notin> (\<lambda>j. task s ! j) ` set js"
    proof
      assume "task s ! i \<in> (\<lambda>j. task s ! j) ` set js"
      then obtain j where "j \<in> set js" "task s ! i = task s ! j" by auto
      then have "i = j" using inj_onD [OF Cons.prems(2), of i j] False by simp
      then show False using \<open>j \<in> set js\<close> Cons.prems(1) by simp
    qed
    have "fold (\<lambda>i s. if task s ! i \<noteq> 0 then upd_task (task s ! i) f s else s) js ?s =
      ?s\<lparr>tasks := (\<lambda>p. if p \<noteq> 0 \<and> p \<in> (\<lambda>i. task s ! i) ` set js then f (tasks ?s p) else tasks ?s p)\<rparr>"
      using Cons.IH [of ?s] Cons.prems(1) inj t by simp
    also have "\<dots> = s\<lparr>tasks := (\<lambda>p. if p \<noteq> 0 \<and> p \<in> (\<lambda>i. task s ! i) ` set (i # js) then f (tasks s p) else tasks s p)\<rparr>"
      using n False by (auto simp: upd_task_def fun_eq_iff)
    finally show ?thesis using False by simp
  qed
qed simp

definition table_ok :: "'a sched_state_scheme \<Rightarrow> bool" where
  "table_ok s \<longleftrightarrow> inj_on (\<lambda>i. task s ! i) (occupied s)"

lemma for_tasks_eq:
  assumes "table_ok s"
  shows "for_tasks f s = s\<lparr>tasks := (\<lambda>p. if p \<in> (\<lambda>i. task s ! i) ` occupied s then f (tasks s p) else tasks s p)\<rparr>"
proof -
  have "{i \<in> set slots_down. task s ! i \<noteq> 0} = occupied s" by (auto simp: occupied_def)
  then have "for_tasks f s = s\<lparr>tasks := (\<lambda>p. if p \<noteq> 0 \<and> p \<in> (\<lambda>i. task s ! i) ` set slots_down then f (tasks s p) else tasks s p)\<rparr>"
    unfolding for_tasks_def using assms by (intro fold_tasks) (simp_all add: table_ok_def)
  moreover have "p \<noteq> 0 \<and> p \<in> (\<lambda>i. task s ! i) ` set slots_down \<longleftrightarrow> p \<in> (\<lambda>i. task s ! i) ` occupied s" for p
    by (auto simp: occupied_def)
  ultimately show ?thesis by simp
qed

lemma for_tasks_fields [simp]:
  assumes "table_ok s"
  shows "task (for_tasks f s) = task s" "current (for_tasks f s) = current s" "occupied (for_tasks f s) = occupied s"
    "table_ok (for_tasks f s)" "i \<in> occupied s \<Longrightarrow> tasks (for_tasks f s) (task s ! i) = f (tasks s (task s ! i))"
  using assms by (simp_all add: for_tasks_eq occupied_def table_ok_def)

text \<open>The pass over the table finds the largest counter above \<open>c\<close>; of several, the first in list order.\<close>

lemma pick_fold:
  assumes "fold (pick_step s) is (c, n) = (c', n')"
  shows "(c', n') = (c, n) \<and> (\<forall>i \<in> set is. task s ! i \<noteq> 0 \<and> t_state (tasks s (task s ! i)) = TASK_RUNNING \<longrightarrow> counter s i \<le> sint c) \<or>
    (\<exists>xs ys. is = xs @ n' # ys \<and> task s ! n' \<noteq> 0 \<and> t_state (tasks s (task s ! n')) = TASK_RUNNING \<and>
      c' = t_counter (tasks s (task s ! n')) \<and> sint c < sint c' \<and>
      (\<forall>i \<in> set xs. task s ! i \<noteq> 0 \<and> t_state (tasks s (task s ! i)) = TASK_RUNNING \<longrightarrow> counter s i < sint c') \<and>
      (\<forall>i \<in> set ys. task s ! i \<noteq> 0 \<and> t_state (tasks s (task s ! i)) = TASK_RUNNING \<longrightarrow> counter s i \<le> sint c'))"
  using assms
proof (induction "is" arbitrary: c n)
  case (Cons i js)
  let ?r = "\<lambda>i. task s ! i \<noteq> 0 \<and> t_state (tasks s (task s ! i)) = TASK_RUNNING"
  let ?take = "?r i \<and> counter s i > sint c"
  obtain d k where dk: "pick_step s i (c, n) = (d, k)" by (cases "pick_step s i (c, n)")
  have step: "(d, k) = (if ?take then (t_counter (tasks s (task s ! i)), i) else (c, n))"
    using dk by (auto simp: pick_step_def Let_def)
  from Cons.IH [of d k] Cons.prems dk
  consider (keep) "(c', n') = (d, k)" "\<forall>j \<in> set js. ?r j \<longrightarrow> counter s j \<le> sint d"
    | (new) xs ys where "js = xs @ n' # ys" "?r n'" "c' = t_counter (tasks s (task s ! n'))" "sint d < sint c'"
        "\<forall>j \<in> set xs. ?r j \<longrightarrow> counter s j < sint c'" "\<forall>j \<in> set ys. ?r j \<longrightarrow> counter s j \<le> sint c'"
    by auto
  then show ?case
  proof cases
    case keep
    show ?thesis
    proof (cases ?take)
      case True
      then show ?thesis using keep step by (intro disjI2 exI [of _ "[]"] exI [of _ js]) auto
    next
      case False
      then show ?thesis using keep step by (intro disjI1) auto
    qed
  next
    case new
    have "sint c < sint c' \<and> (?r i \<longrightarrow> counter s i < sint c')" using step new(4) by (auto split: if_splits)
    then show ?thesis using new by (intro disjI2 exI [of _ "i # xs"] exI [of _ ys]) auto
  qed
qed simp

subsection \<open>The scheduler's choice\<close>

text \<open>
  \<open>chosen s i\<close>: slot 0 when no task is runnable; otherwise a runnable task with the largest counter, in the
  last such slot of the table.
\<close>

definition chosen :: "'a sched_state_scheme \<Rightarrow> nat \<Rightarrow> bool" where
  "chosen s i \<longleftrightarrow> (if \<exists>j. runnable s j then runnable s i \<and> 0 < counter s i \<and>
     (\<forall>j. runnable s j \<longrightarrow> counter s j \<le> counter s i) \<and> (\<forall>j > i. runnable s j \<longrightarrow> counter s j < counter s i) else i = 0)"

text \<open>Counters and priorities stay far from the ends of the signed range.\<close>

definition sched_ok :: "'a sched_state_scheme \<Rightarrow> bool" where
  "sched_ok s \<longleftrightarrow> table_ok s \<and> (\<forall>i \<in> occupied s. 0 \<le> counter s i \<and> counter s i \<le> 2 ^ 30 \<and>
     0 < sint (t_priority (tasks s (task s ! i))) \<and> sint (t_priority (tasks s (task s ! i))) \<le> 2 ^ 29)"

lemma sint_zero: "sint (x :: u32) = 0 \<longleftrightarrow> x = 0"
  by (metis signed_0 signed_word_eqI)

lemma pick_next_spec:
  assumes ok: "sched_ok s" and p: "pick_next s = (c, n)"
  shows "c \<noteq> 0 \<Longrightarrow> chosen s n" "c = 0 \<Longrightarrow> (\<exists>j. runnable s j) \<and> (\<forall>j. runnable s j \<longrightarrow> counter s j = 0)"
proof -
  have m1: "sint (- 1 :: u32) = - 1" by simp
  have r: "runnable s i \<longleftrightarrow> i \<in> set slots_down \<and> task s ! i \<noteq> 0 \<and> t_state (tasks s (task s ! i)) = TASK_RUNNING" for i
    by (auto simp: runnable_def occupied_def)
  have pos: "0 \<le> counter s j" if "runnable s j" for j using ok that by (simp add: sched_ok_def runnable_def)
  have "(c \<noteq> 0 \<longrightarrow> chosen s n) \<and> (c = 0 \<longrightarrow> (\<exists>j. runnable s j) \<and> (\<forall>j. runnable s j \<longrightarrow> counter s j = 0))"
    using pick_fold [OF p [unfolded pick_next_def]]
  proof (elim disjE exE conjE)
    assume A: "(c, n) = (- 1, 0)" and B: "\<forall>i \<in> set slots_down. task s ! i \<noteq> 0 \<and> t_state (tasks s (task s ! i)) = TASK_RUNNING \<longrightarrow> counter s i \<le> sint (- 1 :: u32)"
    have "\<not> runnable s j" for j using pos [of j] B r [of j] m1 by force
    then show ?thesis using A by (simp add: chosen_def)
  next
    fix xs ys
    assume S: "slots_down = xs @ n # ys" "task s ! n \<noteq> 0" "t_state (tasks s (task s ! n)) = TASK_RUNNING"
      and c: "c = t_counter (tasks s (task s ! n))"
      and X: "\<forall>i \<in> set xs. task s ! i \<noteq> 0 \<and> t_state (tasks s (task s ! i)) = TASK_RUNNING \<longrightarrow> counter s i < sint c"
      and Y: "\<forall>i \<in> set ys. task s ! i \<noteq> 0 \<and> t_state (tasks s (task s ! i)) = TASK_RUNNING \<longrightarrow> counter s i \<le> sint c"
    have "n \<in> set slots_down" unfolding S(1) by simp
    then have run: "runnable s n" using r S(2,3) by blast
    have all: "counter s j \<le> counter s n" if "runnable s j" for j
    proof -
      have "j \<in> set (xs @ n # ys)" unfolding S(1) [symmetric] using that r by blast
      then show ?thesis using X Y c that r [of j] by auto
    qed
    have gt: "counter s j < counter s n" if j: "runnable s j" "n < j" for j
    proof -
      have "sorted (rev (xs @ n # ys))" unfolding S(1) [symmetric] by (simp add: slots_down_def)
      then have "\<forall>k \<in> set ys. k \<le> n" by (auto simp: sorted_append)
      moreover have "j \<in> set (xs @ n # ys)" unfolding S(1) [symmetric] using j(1) r by blast
      ultimately have "j \<in> set xs" using j(2) by auto
      then show ?thesis using X c j(1) r [of j] by auto
    qed
    have "c = 0 \<longleftrightarrow> counter s n = 0" using c by (simp add: sint_zero)
    moreover have "counter s n = 0 \<Longrightarrow> runnable s j \<Longrightarrow> counter s j = 0" for j using all [of j] pos [of j] by simp
    ultimately show ?thesis using run all gt pos [OF run] by (auto simp: chosen_def)
  qed
  then show "c \<noteq> 0 \<Longrightarrow> chosen s n" "c = 0 \<Longrightarrow> (\<exists>j. runnable s j) \<and> (\<forall>j. runnable s j \<longrightarrow> counter s j = 0)" by blast+
qed

lemma sint_half: "sint (signed_drop_bit (Suc 0) (x :: u32)) = sint x div 2"
  by (simp add: sint_signed_drop_bit_eq drop_bit_eq_div)

lemma sint_add_small:
  assumes "- (2 ^ 31) \<le> sint a + sint b" "sint a + sint b < 2 ^ 31"
  shows "sint (a + b :: u32) = sint a + sint b"
  using assms by (simp add: sint_word_ariths signed_take_bit_int_eq_self)

lemma sint_pred: "0 < sint (a :: u32) \<Longrightarrow> sint (a - 1) = sint a - 1"
  using sint_range_size [of a] by (simp add: sint_word_ariths signed_take_bit_int_eq_self word_size)

lemma recharge_counter:
  assumes "0 \<le> sint (t_counter t)" "sint (t_counter t) \<le> 2 ^ 30" "0 < sint (t_priority t)" "sint (t_priority t) \<le> 2 ^ 29"
  shows "sint (t_counter (recharge t)) = sint (t_counter t) div 2 + sint (t_priority t)"
  unfolding recharge_def using assms by (simp add: sint_half sint_add_small)

lemma check_alarm_keeps [simp]:
  "t_counter (check_alarm now t) = t_counter t" "t_priority (check_alarm now t) = t_priority t"
  by (simp_all add: check_alarm_def Let_def)

lemma recharge_keeps [simp]: "t_priority (recharge t) = t_priority t" "t_state (recharge t) = t_state t"
  by (simp_all add: recharge_def)

lemma sched_ok_table: "sched_ok s \<Longrightarrow> table_ok s"
  by (simp add: sched_ok_def)

lemma sched_ok_check: "sched_ok s \<Longrightarrow> sched_ok (check_alarms s)"
  by (auto simp: sched_ok_def check_alarms_def)

lemma sched_ok_recharge:
  assumes "sched_ok s"
  shows "sched_ok (for_tasks recharge s)"
proof -
  have T: "table_ok s" by (rule sched_ok_table [OF assms])
  have "0 \<le> sint (t_counter (recharge t)) \<and> sint (t_counter (recharge t)) \<le> 2 ^ 30"
    if "0 \<le> sint (t_counter t)" "sint (t_counter t) \<le> 2 ^ 30" "0 < sint (t_priority t)" "sint (t_priority t) \<le> 2 ^ 29" for t
    unfolding recharge_counter [OF that] using that by (auto simp: pos_imp_zdiv_nonneg_iff)
  then show ?thesis using assms T by (auto simp: sched_ok_def)
qed

lemma runnable_recharge: "table_ok s \<Longrightarrow> runnable (for_tasks recharge s) i = runnable s i"
  by (auto simp: runnable_def)

text \<open>The loop ends: when all counters are zero, one recharge makes them the priorities.\<close>

lemma schedule_loop_ends:
  assumes "sched_ok s"
  shows "\<exists>n s'. schedule_loop s = Some (n, s') \<and> sched_ok s' \<and> chosen s' n \<and>
    (s' = s \<or> (\<exists>j. runnable s j) \<and> (\<forall>j. runnable s j \<longrightarrow> counter s j = 0) \<and> s' = for_tasks recharge s)"
proof -
  note P = pick_next_spec [OF assms surjective_pairing]
  show ?thesis
  proof (cases "fst (pick_next s) = 0")
    case False
    then show ?thesis using P(1) assms by (subst schedule_loop.simps) simp
  next
    case True
    let ?s = "for_tasks recharge s"
    have T: "table_ok s" by (rule sched_ok_table [OF assms])
    have z: "\<exists>j. runnable s j" "\<forall>j. runnable s j \<longrightarrow> counter s j = 0" using P(2) [OF True] by blast+
    have ok: "sched_ok ?s" by (rule sched_ok_recharge [OF assms])
    note Q = pick_next_spec [OF ok surjective_pairing]
    have "fst (pick_next ?s) \<noteq> 0"
    proof
      assume "fst (pick_next ?s) = 0"
      from Q(2) [OF this] obtain j where j: "runnable ?s j" "counter ?s j = 0" by blast
      then have o: "j \<in> occupied s" using T by (simp add: runnable_def)
      have "0 < sint (t_priority (tasks s (task s ! j)))" "counter s j = 0"
        using assms o z(2) j(1) runnable_recharge [OF T] by (auto simp: sched_ok_def)
      moreover have "counter ?s j = counter s j div 2 + sint (t_priority (tasks s (task s ! j)))"
        using assms o T by (simp add: sched_ok_def recharge_counter)
      ultimately show False using j(2) by simp
    qed
    then have "schedule_loop ?s = Some (snd (pick_next ?s), ?s)" "chosen ?s (snd (pick_next ?s))"
      using Q(1) by (simp_all add: schedule_loop.simps [of ?s])
    moreover have "schedule_loop s = schedule_loop ?s" using True by (subst schedule_loop.simps) simp
    ultimately show ?thesis using ok z by auto
  qed
qed

lemma switch_to_fields [simp]:
  "task (switch_to n s) = task s" "tasks (switch_to n s) = tasks s" "current (switch_to n s) = task s ! n"
  "jiffies (switch_to n s) = jiffies s"
  by (simp_all add: switch_to_def)

lemma switch_to_occupied [simp]: "occupied (switch_to n s) = occupied s"
  by (simp add: occupied_def)

lemma switch_to_preds [simp]:
  "runnable (switch_to n s) = runnable s" "table_ok (switch_to n s) = table_ok s" "sched_ok (switch_to n s) = sched_ok s"
  by (simp_all add: runnable_def sched_ok_def table_ok_def fun_eq_iff)

lemma switch_to_chosen [simp]: "chosen (switch_to n s) = chosen s"
  unfolding chosen_def fun_eq_iff switch_to_preds switch_to_fields by (rule allI) (rule refl)

text \<open>
  Property C31.  When all tasks have positive priorities, \<open>schedule\<close> always returns: it switches to a runnable
  task with the largest counter (the last such one in the table), which is positive, or to task 0 when no
  other task is runnable, and it keeps counters and priorities within their bounds.
\<close>

theorem schedule_chooses:
  assumes "sched_ok s"
  shows "\<exists>s' n. schedule s = Some s' \<and> chosen s' n \<and> current s' = task s' ! n \<and> task s' = task s \<and> sched_ok s'"
proof -
  have T: "table_ok s" by (rule sched_ok_table [OF assms])
  obtain n s1 where S: "schedule_loop (check_alarms s) = Some (n, s1)" "sched_ok s1" "chosen s1 n"
      "s1 = check_alarms s \<or> s1 = for_tasks recharge (check_alarms s)"
    using schedule_loop_ends [OF sched_ok_check [OF assms]] by blast
  have "task s1 = task s" using S(4) T by (auto simp: check_alarms_def)
  then show ?thesis using S by (intro exI [of _ "switch_to n s1"] exI [of _ n]) (simp add: schedule_def)
qed

text \<open>The values of the macro \<open>INIT_TASK\<close>, with the structure at address 0x1000 and the page directory at 0.\<close>

definition init_tss :: tss_struct where
  "init_tss = \<lparr>tss_back_link = 0, tss_esp0 = 0x2000, tss_ss0 = 0x10, tss_esp1 = 0, tss_ss1 = 0, tss_esp2 = 0, tss_ss2 = 0,
     tss_cr3 = 0, tss_eip = 0, tss_eflags = 0, tss_eax = 0, tss_ecx = 0, tss_edx = 0, tss_ebx = 0, tss_esp = 0, tss_ebp = 0,
     tss_esi = 0, tss_edi = 0, tss_es = 0x17, tss_cs = 0x17, tss_ss = 0x17, tss_ds = 0x17, tss_fs = 0x17, tss_gs = 0x17,
     tss_ldt = 0x28, tss_trace_bitmap = 0x80000000\<rparr>"

definition idle_task :: task_struct where
  "idle_task = \<lparr>t_state = 0, t_counter = 15, t_priority = 15, t_signal = 0, t_sig_restorer = 0, t_sig_fn = replicate 32 0,
     t_exit_code = 0, t_end_code = 0, t_end_data = 0, t_brk = 0, t_start_stack = 0, t_pid = 0, t_father = - 1,
     t_pgrp = 0, t_session = 0, t_leader = 0, t_uid = 0, t_euid = 0, t_suid = 0, t_gid = 0, t_egid = 0, t_sgid = 0,
     t_alarm = 0, t_utime = 0, t_stime = 0, t_cutime = 0, t_cstime = 0, t_start_time = 0, t_used_math = 0,
     t_tty = - 1, t_umask = 0x5B, t_pwd = None, t_root = None, t_close_on_exec = 0, t_filp = replicate 20 None,
     t_ldt = [(0, 0), (0x9F, 0xC0FA00), (0x9F, 0xC0F200)], t_tss = init_tss\<rparr>"

text \<open>Task 0 and two tasks in the slots 1 and 2, task 0 running.\<close>

definition sample_tasks :: "unit sched_state_scheme" where
  "sample_tasks = \<lparr>task = [0x1000, 0x2000, 0x3000] @ replicate 61 0, tasks = (\<lambda>_. idle_task), current = 0x1000, jiffies = 7,
     startup_time = 0, init_task = 0x1000, wait_queues = (\<lambda>_. 0), last_pid = 2, last_task_used_math = 0\<rparr>"

lemma sample_occupied: "occupied sample_tasks = {1, 2}"
proof -
  have S: "task sample_tasks ! i \<noteq> 0 \<longleftrightarrow> i \<in> {0, 1, 2}" if "i < NR_TASKS" for i
    using that by (auto simp: sample_tasks_def NR_TASKS_def nth_append nth_Cons' less_Suc_eq)
  have "occupied sample_tasks = {i. 1 \<le> i \<and> i < NR_TASKS \<and> i \<in> {0, 1, 2}}" 
    unfolding occupied_def by (intro Collect_cong conj_cong refl S)
  also have "\<dots> = {1, 2}" unfolding NR_TASKS_def by auto
  finally show ?thesis .
qed

lemma sample_sched_ok: "sched_ok sample_tasks"
  by (simp add: sched_ok_def table_ok_def sample_occupied) (simp add: sample_tasks_def idle_task_def)

theorem schedule_chooses_witness:
  "sched_ok sample_tasks \<and> (\<exists>(s' :: unit sched_state_scheme) n. schedule sample_tasks = Some s' \<and> chosen s' n \<and>
     current s' = task s' ! n \<and> task s' = task sample_tasks \<and> sched_ok s')"
  using schedule_chooses [OF sample_sched_ok] sample_sched_ok by blast

subsection \<open>Every runnable task gets the processor\<close>

definition ptrs :: "'a sched_state_scheme \<Rightarrow> u32 set" where
  "ptrs s = insert (task s ! 0) ((\<lambda>i. task s ! i) ` occupied s)"

text \<open>All time slices left, of the tasks in the table and of task 0.\<close>

definition slices :: "'a sched_state_scheme \<Rightarrow> nat" where
  "slices s = (\<Sum>p \<in> ptrs s. nat (sint (t_counter (tasks s p))))"

text \<open>
  No alarm and no signal is pending, task 0 is not in any other slot, the current task has time left and
  some task is runnable.
\<close>

definition live :: "'a sched_state_scheme \<Rightarrow> bool" where
  "live s \<longleftrightarrow> sched_ok s \<and> (\<forall>i \<in> occupied s. t_alarm (tasks s (task s ! i)) = 0 \<and> t_signal (tasks s (task s ! i)) = 0) \<and>
     task s ! 0 \<notin> (\<lambda>i. task s ! i) ` occupied s \<and> current s \<in> ptrs s \<and> 0 < sint (t_counter (cur s)) \<and> (\<exists>i. runnable s i)"

fun ticks :: "nat \<Rightarrow> 'a sched_state_scheme \<Rightarrow> 'a sched_state_scheme option" where
  "ticks 0 s = Some s"
| "ticks (Suc n) s = Option.bind (do_timer 1 s) (ticks n)"

lemma check_alarms_quiet:
  assumes "table_ok s" "\<forall>i \<in> occupied s. t_alarm (tasks s (task s ! i)) = 0 \<and> t_signal (tasks s (task s ! i)) = 0"
  shows "check_alarms s = s"
proof -
  have "(\<lambda>p. if p \<in> (\<lambda>i. task s ! i) ` occupied s then check_alarm (jiffies s) (tasks s p) else tasks s p) = tasks s"
    using assms(2) by (auto simp: check_alarm_def fun_eq_iff)
  then show ?thesis using assms(1) by (simp add: check_alarms_def for_tasks_eq)
qed

lemma finite_ptrs [simp]: "finite (ptrs s)"
  by (simp add: ptrs_def occupied_def)

text \<open>The current task uses up one slice.\<close>

definition spend :: "'a sched_state_scheme \<Rightarrow> 'a sched_state_scheme" where
  "spend s = upd_task (current s) (\<lambda>t. t\<lparr>t_utime := t_utime t + 1, t_counter := t_counter t - 1\<rparr>) s"

lemma spend_fields [simp]:
  "task (spend s) = task s" "current (spend s) = current s" "occupied (spend s) = occupied s" "ptrs (spend s) = ptrs s"
  "t_state (tasks (spend s) p) = t_state (tasks s p)" "t_alarm (tasks (spend s) p) = t_alarm (tasks s p)"
  "t_signal (tasks (spend s) p) = t_signal (tasks s p)" "t_priority (tasks (spend s) p) = t_priority (tasks s p)"
  "t_counter (tasks (spend s) p) = (if p = current s then t_counter (tasks s p) - 1 else t_counter (tasks s p))"
  by (simp_all add: spend_def upd_task_def occupied_def ptrs_def)

lemma spend_ok:
  assumes "live s"
  shows "sched_ok (spend s)" "runnable (spend s) = runnable s" "slices (spend s) = slices s - 1" "0 < slices s" "check_alarms (spend s) = spend s"
proof -
  have c: "0 < sint (t_counter (cur s))" "current s \<in> ptrs s" using assms by (simp_all add: live_def)
  show ok: "sched_ok (spend s)"
    using assms sint_pred [OF c(1)] c(1) by (auto simp: live_def sched_ok_def table_ok_def)
  show "runnable (spend s) = runnable s" by (simp add: runnable_def fun_eq_iff)
  have "slices s = nat (sint (t_counter (cur s))) + (\<Sum>p \<in> ptrs s - {current s}. nat (sint (t_counter (tasks s p))))"
    unfolding slices_def by (rule sum.remove) (use c in simp_all)
  moreover have "slices (spend s) = nat (sint (t_counter (cur s) - 1)) + (\<Sum>p \<in> ptrs s - {current s}. nat (sint (t_counter (tasks s p))))"
    unfolding slices_def spend_fields by (subst sum.remove [of _ "current s"]) (use c in simp_all)
  ultimately show "slices (spend s) = slices s - 1" "0 < slices s" using c sint_pred [OF c(1)] by auto
  show "check_alarms (spend s) = spend s"
    using assms sched_ok_table [OF ok] by (intro check_alarms_quiet) (auto simp: live_def)
qed

lemma do_timer_live:
  assumes "live s"
  shows "do_timer 1 s = (if sint (t_counter (cur s)) > 1 then Some (spend s) else schedule (spend s))"
proof -
  have c: "0 < sint (t_counter (cur s))" using assms by (simp add: live_def)
  have "upd_task (current s) (\<lambda>t. t\<lparr>t_counter := 0\<rparr>) (spend s) = spend s" if "\<not> sint (t_counter (cur s)) > 1"
  proof -
    have "sint (t_counter (cur s)) = sint (1 :: u32)" using that c by simp
    then have "t_counter (cur s) = 1" by (rule signed_word_eqI)
    then have "(tasks (spend s) (current s))\<lparr>t_counter := 0\<rparr> = tasks (spend s) (current s)"
      by (simp add: spend_def upd_task_def)
    then show ?thesis by (simp add: upd_task_def fun_upd_idem)
  qed
  then show ?thesis
    using sint_pred [OF c] by (simp add: do_timer_def Let_def spend_def upd_task_def)
qed

lemma recharge_quiet [simp]: "t_alarm (recharge t) = t_alarm t" "t_signal (recharge t) = t_signal t"
  by (simp_all add: recharge_def)

text \<open>A live state stays live over a tick: either a slice was spent, or all slices were spent and the tasks are recharged.\<close>

lemma live_switch:
  assumes L: "live s" and t: "task u = task s" "runnable u = runnable s" and ok: "sched_ok u" and c: "chosen u n"
    and q: "\<forall>i \<in> occupied u. t_alarm (tasks u (task u ! i)) = 0 \<and> t_signal (tasks u (task u ! i)) = 0"
  shows "live (switch_to n u)"
proof -
  have o: "occupied u = occupied s" using t(1) by (simp add: occupied_def)
  have "runnable u n \<and> 0 < counter u n" using c L t(2) by (auto simp: chosen_def live_def)
  moreover have "task s ! n \<in> ptrs u" if "runnable u n" using that t(1) by (auto simp: ptrs_def runnable_def)
  ultimately show ?thesis using L t o ok q by (auto simp: live_def ptrs_def)
qed

lemma tick:
  assumes L: "live s"
  obtains s' where "do_timer 1 s = Some s'" "live s'" "runnable s' = runnable s" "task s' = task s"
    "slices s' < slices s \<and> (\<forall>j. task s ! j \<noteq> current s \<longrightarrow> counter s' j = counter s j) \<or>
     (\<forall>j. runnable s j \<longrightarrow> task s ! j \<noteq> current s \<longrightarrow> counter s j = 0) \<and> (\<forall>j. runnable s j \<longrightarrow> 0 < counter s' j)"
proof (cases "sint (t_counter (cur s)) > 1")
  case True
  have "live (spend s)" using L spend_ok(1,2) [OF L] True sint_pred [of "t_counter (cur s)"] by (auto simp: live_def)
  then show ?thesis using that [of "spend s"] True spend_ok [OF L] do_timer_live [OF L] by auto
next
  case False
  let ?u = "spend s"
  note sp = spend_ok [OF L]
  have T: "table_ok ?u" by (rule sched_ok_table [OF sp(1)])
  have q: "\<forall>i \<in> occupied s. t_alarm (tasks s (task s ! i)) = 0 \<and> t_signal (tasks s (task s ! i)) = 0" using L by (simp add: live_def)
  obtain n v where V: "schedule_loop ?u = Some (n, v)" "sched_ok v" "chosen v n"
      "v = ?u \<or> (\<exists>j. runnable ?u j) \<and> (\<forall>j. runnable ?u j \<longrightarrow> counter ?u j = 0) \<and> v = for_tasks recharge ?u"
    using schedule_loop_ends [OF sp(1)] by blast
  have D: "do_timer 1 s = Some (switch_to n v)" using do_timer_live [OF L] False V(1) sp(5) by (simp add: schedule_def)
  from V(4) show ?thesis
  proof (elim disjE conjE)
    assume v: "v = ?u"
    have "live (switch_to n v)" using q by (intro live_switch [OF L _ _ V(2,3)]) (simp_all add: v sp(2))
    moreover have "slices (switch_to n v) = slices ?u" by (simp add: v slices_def ptrs_def)
    ultimately show ?thesis using that [OF D] sp v by auto
  next
    assume z: "\<forall>j. runnable ?u j \<longrightarrow> counter ?u j = 0" and v: "v = for_tasks recharge ?u"
    have r: "runnable v = runnable s" using runnable_recharge [OF T] sp(2) v by (simp add: fun_eq_iff)
    have at: "tasks v (task s ! j) = recharge (tasks ?u (task s ! j))" if "j \<in> occupied s" for j
      using for_tasks_fields(5) [OF T, of j recharge] that by (simp add: v)
    have "live (switch_to n v)" using q T at by (intro live_switch [OF L _ r V(2,3)]) (simp_all add: v)
    moreover have "0 < counter v j" if "runnable s j" for j
    proof -
      have o: "j \<in> occupied s" using that by (simp add: runnable_def)
      have "counter v j = counter ?u j div 2 + sint (t_priority (tasks ?u (task s ! j)))"
        using sp(1) o at [OF o] T recharge_counter [of "tasks ?u (task s ! j)"] by (simp add: v sched_ok_def)
      then show ?thesis using z that sp(1,2) o by (auto simp: sched_ok_def)
    qed
    moreover have "counter s j = 0" if "runnable s j" "task s ! j \<noteq> current s" for j using z sp(2) that by fastforce
    ultimately show ?thesis using that [OF D] r T by (auto simp: v)
  qed
qed

lemma runs_with_slices:
  "live s \<Longrightarrow> runnable s i \<Longrightarrow> 0 < counter s i \<Longrightarrow> \<exists>k s'. ticks k s = Some s' \<and> current s' = task s' ! i"
proof (induction "slices s" arbitrary: s rule: less_induct)
  case less
  show ?case
  proof (cases "current s = task s ! i")
    case True
    then show ?thesis by (intro exI [of _ 0] exI [of _ s]) simp
  next
    case False
    obtain u where u: "do_timer 1 s = Some u" "live u" "runnable u = runnable s" "task u = task s"
        "slices u < slices s \<and> (\<forall>j. task s ! j \<noteq> current s \<longrightarrow> counter u j = counter s j) \<or>
         (\<forall>j. runnable s j \<longrightarrow> task s ! j \<noteq> current s \<longrightarrow> counter s j = 0) \<and> (\<forall>j. runnable s j \<longrightarrow> 0 < counter u j)"
      by (rule tick [OF less.prems(1)])
    have "slices u < slices s" "counter u i = counter s i" using u(5) less.prems False by auto
    then obtain k s' where "ticks k u = Some s'" "current s' = task s' ! i"
      using less.hyps [of u] u(2,3) less.prems(2,3) by auto
    then show ?thesis using u(1) by (intro exI [of _ "Suc k"] exI [of _ s']) simp
  qed
qed

text \<open>
  Property C32.  No runnable task starves: while the timer interrupts user code and no task changes its
  state, every runnable task of the table becomes the current one after finitely many ticks.
\<close>

theorem scheduler_fair:
  assumes "live s" "runnable s i"
  shows "\<exists>k s'. ticks k s = Some s' \<and> current s' = task s' ! i"
  using assms
proof (induction "slices s" arbitrary: s rule: less_induct)
  case less
  obtain u where u: "do_timer 1 s = Some u" "live u" "runnable u = runnable s" "task u = task s"
      "slices u < slices s \<and> (\<forall>j. task s ! j \<noteq> current s \<longrightarrow> counter u j = counter s j) \<or>
       (\<forall>j. runnable s j \<longrightarrow> task s ! j \<noteq> current s \<longrightarrow> counter s j = 0) \<and> (\<forall>j. runnable s j \<longrightarrow> 0 < counter u j)"
    by (rule tick [OF less.prems(1)])
  have "\<exists>k s'. ticks k u = Some s' \<and> current s' = task s' ! i"
    using u(5) less.hyps [of u] runs_with_slices [OF u(2)] u(2,3) less.prems by auto
  then obtain k s' where "ticks k u = Some s'" "current s' = task s' ! i" by blast
  then show ?case using u(1) by (intro exI [of _ "Suc k"] exI [of _ s']) simp
qed

lemma sample_live: "live sample_tasks" "runnable sample_tasks 2"
proof -
  show r: "runnable sample_tasks 2"
    by (simp add: runnable_def sample_occupied) (simp add: sample_tasks_def idle_task_def TASK_RUNNING_def)
  then show "live sample_tasks" using sample_sched_ok
    by (simp add: live_def ptrs_def sample_occupied) (auto simp: sample_tasks_def idle_task_def)
qed

theorem scheduler_fair_witness:
  "live sample_tasks \<and> runnable sample_tasks 2 \<and>
   (\<exists>k (s' :: unit sched_state_scheme). ticks k sample_tasks = Some s' \<and> current s' = task s' ! 2)"
  using scheduler_fair [OF sample_live] sample_live by blast

end
