(* ===== verification/Linux_Processes.thy ===== *)
theory Linux_Processes
  imports Linux_Sys Linux_Scheduler
begin

unbundle bit_operations_syntax

section \<open>Process numbers, signals and identities of linux-0.01\<close>

text \<open>
  \<open>find_empty_process\<close> always finds an unused process number, \<open>sys_kill\<close> signals exactly the tasks
  that are selected and that the caller may signal.
\<close>

subsection \<open>Process numbers\<close>

text \<open>The successor of a process number runs through \<open>1, \<dots>, 2^31 - 1\<close> and starts again.\<close>

abbreviation pid_cycle :: nat where "pid_cycle \<equiv> 2147483647"

lemma succ_pid_nat:
  assumes "unat p \<le> pid_cycle"
  shows "unat (succ_pid p) = unat p mod pid_cycle + 1"
proof (cases "unat p = pid_cycle")
  case True
  then have "unat (p + 1) = 2147483648" by (simp add: unat_add_u32)
  then show ?thesis using True by (simp add: succ_pid_def sint_neg_iff)
next
  case False
  then have "unat p < pid_cycle" using assms by simp
  moreover from this have "unat (p + 1) = unat p + 1" by (simp add: unat_add_u32)
  ultimately show ?thesis using assms by (simp add: succ_pid_def sint_neg_iff)
qed

lemma succ_pid_iter:
  assumes "unat p \<le> pid_cycle"
  shows "unat ((succ_pid ^^ Suc k) p) = (unat p + k) mod pid_cycle + 1"
proof (induction k)
  case (Suc k)
  have "(unat p + k) mod pid_cycle + 1 \<le> pid_cycle" using mod_less_divisor [of pid_cycle "unat p + k"] by linarith
  then have "unat (succ_pid ((succ_pid ^^ Suc k) p)) = ((unat p + k) mod pid_cycle + 1) mod pid_cycle + 1"
    by (subst succ_pid_nat) (simp_all only: Suc)
  then show ?case by (simp add: mod_Suc_eq)
qed (simp add: succ_pid_nat [OF assms])

lemma pids_used_finite: "card {q. pid_used s q} \<le> NR_TASKS" "finite {q. pid_used s q}"
proof -
  have sub: "{q. pid_used s q} \<subseteq> (\<lambda>i. t_pid (tasks s (task s ! i))) ` {0..<NR_TASKS}" by (auto simp: pid_used_def)
  show "finite {q. pid_used s q}" by (rule finite_subset [OF sub]) simp
  have "card {q. pid_used s q} \<le> card ((\<lambda>i. t_pid (tasks s (task s ! i))) ` {0..<NR_TASKS})" by (rule card_mono [OF _ sub]) simp
  also have "\<dots> \<le> NR_TASKS" using card_image_le [of "{0..<NR_TASKS}" "\<lambda>i. t_pid (tasks s (task s ! i))"] by simp
  finally show "card {q. pid_used s q} \<le> NR_TASKS" .
qed

lemma some_pid_free:
  assumes "unat p \<le> pid_cycle"
  shows "\<exists>k. \<not> pid_used s ((succ_pid ^^ Suc k) p)"
proof (rule ccontr)
  assume "\<not> ?thesis"
  then have sub: "(\<lambda>k. (succ_pid ^^ Suc k) p) ` {0..<NR_TASKS + 1} \<subseteq> {q. pid_used s q}" by blast
  have "inj_on (\<lambda>k. (succ_pid ^^ Suc k) p) {0..<NR_TASKS + 1}"
  proof (rule inj_onI)
    fix j k assume jk: "j \<in> {0..<NR_TASKS + 1}" "k \<in> {0..<NR_TASKS + 1}" "(succ_pid ^^ Suc j) p = (succ_pid ^^ Suc k) p"
    then have "(unat p + j) mod pid_cycle = (unat p + k) mod pid_cycle"
      using succ_pid_iter [OF assms, of j] succ_pid_iter [OF assms, of k] by simp
    then have "int (unat p + j) mod int pid_cycle = int (unat p + k) mod int pid_cycle" by (simp only: of_nat_mod [symmetric])
    then have "int pid_cycle dvd int (unat p + j) - int (unat p + k)" by (simp only: mod_eq_dvd_iff)
    then show "j = k" using jk(1,2) dvd_imp_le_int [of "int j - int k" "int pid_cycle"] by (force simp: NR_TASKS_def)
  qed
  then have "NR_TASKS + 1 \<le> card {q. pid_used s q}" using card_mono [OF pids_used_finite(2) sub] by (simp add: card_image)
  then show False using pids_used_finite(1) [of s] by simp
qed

lemma next_pid_iter:
  "(\<forall>j < k. pid_used s ((succ_pid ^^ Suc j) p)) \<Longrightarrow> \<not> pid_used s ((succ_pid ^^ Suc k) p) \<Longrightarrow>
   next_pid s p = Some ((succ_pid ^^ Suc k) p)"
proof (induction k arbitrary: p)
  case (Suc k)
  have sw: "(succ_pid ^^ Suc j) (succ_pid p) = (succ_pid ^^ Suc (Suc j)) p" for j by (simp add: funpow_swap1)
  have "pid_used s (succ_pid p)" using Suc.prems(1) by (force dest: spec [of _ 0])
  moreover have "next_pid s (succ_pid p) = Some ((succ_pid ^^ Suc k) (succ_pid p))"
    using Suc.prems by (intro Suc.IH) (simp_all only: sw not_False_eq_True, blast)
  ultimately show ?case by (subst next_pid.simps) (simp only: sw Let_def if_True)
qed (simp add: next_pid.simps)

text \<open>
  Property C33.  \<open>find_empty_process\<close> always returns, however many of the 64 slots are taken: it leaves in
  \<open>last_pid\<close> a positive process number that no task has (also when the numbers wrap around), and returns
  the first free slot, or \<open>-EAGAIN\<close> when there is none.
\<close>

theorem find_empty_process_returns:
  assumes "sint (last_pid s) \<ge> 0"
  shows "\<exists>q r. find_empty_process s = Some (r, s\<lparr>last_pid := q\<rparr>) \<and> \<not> pid_used s q \<and> 0 < sint q \<and>
    (if \<exists>i. 1 \<le> i \<and> i < NR_TASKS \<and> task s ! i = 0
     then \<exists>i. 1 \<le> i \<and> i < NR_TASKS \<and> task s ! i = 0 \<and> r = of_nat i \<and> (\<forall>j. 1 \<le> j \<and> j < i \<longrightarrow> task s ! j \<noteq> 0)
     else r = - EAGAIN)"
proof -
  let ?p = "last_pid s" and ?f = "find (\<lambda>i. task s ! i = 0) [1..<NR_TASKS]"
  have p: "unat ?p \<le> pid_cycle" using assms sint_neg_iff [of ?p] by linarith
  define k where "k = (LEAST k. \<not> pid_used s ((succ_pid ^^ Suc k) ?p))"
  have k: "\<not> pid_used s ((succ_pid ^^ Suc k) ?p)" unfolding k_def by (rule LeastI_ex [OF some_pid_free [OF p]])
  have less: "\<forall>j < k. pid_used s ((succ_pid ^^ Suc j) ?p)" unfolding k_def using not_less_Least by blast
  define q where "q = (succ_pid ^^ Suc k) ?p"
  have q: "next_pid s ?p = Some q" "\<not> pid_used s q" using next_pid_iter [OF less k] k by (simp_all add: q_def)
  have "unat q = (unat ?p + k) mod pid_cycle + 1" unfolding q_def by (rule succ_pid_iter [OF p])
  moreover have "(unat ?p + k) mod pid_cycle < pid_cycle" by simp
  ultimately have "0 < unat q" "unat q < 2147483648" by linarith+
  then have pos: "0 < sint q" using sint_u32 [of q] by (simp only: if_True of_nat_0_less_iff)
  show ?thesis
  proof (cases ?f)
    case None
    then have "\<not> (\<exists>i. 1 \<le> i \<and> i < NR_TASKS \<and> task s ! i = 0)" by (auto simp: find_None_iff)
    then show ?thesis using None q pos by (auto simp: find_empty_process_def)
  next
    case (Some i)
    then obtain n where n: "n < length [1..<NR_TASKS]" "task s ! ([1..<NR_TASKS] ! n) = 0" "i = [1..<NR_TASKS] ! n"
        "\<forall>j < n. task s ! ([1..<NR_TASKS] ! j) \<noteq> 0" by (auto simp: find_Some_iff)
    then have i: "i = Suc n" "i < NR_TASKS" by auto
    have "\<forall>j. 1 \<le> j \<and> j < i \<longrightarrow> task s ! j \<noteq> 0"
    proof (intro allI impI)
      fix j assume j: "1 \<le> j \<and> j < i"
      then have "j - 1 < n" using i by auto
      then have "task s ! ([1..<NR_TASKS] ! (j - 1)) \<noteq> 0" using n(4) by blast
      then show "task s ! j \<noteq> 0" using j i by simp
    qed
    moreover have "1 \<le> i \<and> i < NR_TASKS \<and> task s ! i = 0" using n i by simp
    ultimately show ?thesis using Some q pos unfolding find_empty_process_def by auto
  qed
qed

theorem find_empty_process_returns_witness:
  "sint (last_pid sample_tasks) \<ge> 0 \<and> (\<exists>q r. find_empty_process sample_tasks = Some (r, sample_tasks\<lparr>last_pid := q\<rparr>) \<and>
     \<not> pid_used sample_tasks q \<and> 0 < sint q)"
  using find_empty_process_returns [of sample_tasks] by (auto simp: sample_tasks_def)

subsection \<open>Signals\<close>

definition sig_target :: "u32 \<Rightarrow> u32 \<Rightarrow> bool \<Rightarrow> task_struct \<Rightarrow> task_struct \<Rightarrow> bool" where
  "sig_target pid sg priv c t \<longleftrightarrow> 1 \<le> sint sg \<and> sint sg \<le> 32 \<and> kill_selects pid c t \<and> (priv \<or> may_signal c t)"

definition add_sig :: "u32 \<Rightarrow> task_struct \<Rightarrow> task_struct" where
  "add_sig sg t = t\<lparr>t_signal := t_signal t OR push_bit (unat (sg - 1)) 1\<rparr>"

text \<open>Signals do not change what decides about them, so every task is treated by its state before the call.\<close>

lemma sig_target_add [simp]:
  "sig_target pid sg priv (add_sig sg c) t = sig_target pid sg priv c t"
  by (simp add: sig_target_def add_sig_def kill_selects_def may_signal_def)

lemma do_kill_for_tasks:
  "do_kill pid sg priv s = for_tasks (\<lambda>t. if sig_target pid sg priv (cur s) t then add_sig sg t else t) s"
proof -
  have step: "(if task u ! i \<noteq> 0 \<and> kill_selects pid (cur u) (tasks u (task u ! i)) then send_sig sg (task u ! i) priv u else u) =
      (if task u ! i \<noteq> 0 then upd_task (task u ! i) (\<lambda>t. if sig_target pid sg priv (cur u) t then add_sig sg t else t) u else u)" for i u
    by (auto simp: send_sig_def sig_target_def add_sig_def upd_task_def)
  have "fold (\<lambda>i u. if task u ! i \<noteq> 0 \<and> kill_selects pid (cur u) (tasks u (task u ! i)) then send_sig sg (task u ! i) priv u else u) js u =
      fold (\<lambda>i u. if task u ! i \<noteq> 0 then upd_task (task u ! i) (\<lambda>t. if sig_target pid sg priv (cur s) t then add_sig sg t else t) u else u) js u"
    if "\<And>t. sig_target pid sg priv (cur u) t = sig_target pid sg priv (cur s) t" for js u
    using that
  proof (induction js arbitrary: u)
    case (Cons i js)
    let ?v = "if task u ! i \<noteq> 0 then upd_task (task u ! i) (\<lambda>t. if sig_target pid sg priv (cur s) t then add_sig sg t else t) u else u"
    have "sig_target pid sg priv (cur ?v) t = sig_target pid sg priv (cur s) t" for t
      using Cons.prems [of t] by (auto simp: upd_task_def)
    from Cons.IH [OF this] show ?case unfolding fold.simps comp_apply step Cons.prems by simp
  qed simp
  from this [of s slots_down] show ?thesis unfolding do_kill_def for_tasks_def by simp
qed

text \<open>
  Property C34.  \<open>sys_kill\<close> adds the signal to exactly the tasks in the table that \<open>pid\<close> selects and
  that the caller may signal (it is root, or one of its two user ids is one of the task's); no other
  task and no other field changes, and a signal number outside 1..32 changes nothing.
\<close>

theorem kill_exact:
  assumes "table_ok s" "sys_kill pid sg s = (r, s')"
  shows "r = 0 \<and> s' = s\<lparr>tasks := tasks s'\<rparr> \<and>
    (\<forall>i \<in> occupied s. tasks s' (task s ! i) =
       (if 1 \<le> sint sg \<and> sint sg \<le> 32 \<and> kill_selects pid (cur s) (tasks s (task s ! i)) \<and>
           (t_uid (cur s) = 0 \<and> t_euid (cur s) = 0 \<or> may_signal (cur s) (tasks s (task s ! i)))
        then (tasks s (task s ! i))\<lparr>t_signal := t_signal (tasks s (task s ! i)) OR push_bit (unat (sg - 1)) 1\<rparr>
        else tasks s (task s ! i))) \<and>
    (\<forall>p. p \<notin> (\<lambda>i. task s ! i) ` occupied s \<longrightarrow> tasks s' p = tasks s p)"
  using assms by (auto simp: sys_kill_def do_kill_for_tasks for_tasks_eq sig_target_def add_sig_def)

theorem kill_exact_witness:
  "table_ok sample_tasks \<and> (\<exists>s'. sys_kill (- 1) 9 sample_tasks = (0, s') \<and> t_signal (tasks s' 0x2000) = 0x100)"
proof -
  obtain r s' where k: "sys_kill (- 1) 9 sample_tasks = (r, s')" by (cases "sys_kill (- 1) 9 sample_tasks")
  have t: "table_ok sample_tasks" using sample_sched_ok by (simp add: sched_ok_def)
  note K = kill_exact [OF t k]
  have "task sample_tasks ! 1 = 0x2000" by (simp add: sample_tasks_def)
  moreover have "1 \<in> occupied sample_tasks" by (simp add: sample_occupied)
  ultimately have "tasks s' 0x2000 = (tasks sample_tasks 0x2000)\<lparr>t_signal := t_signal (tasks sample_tasks 0x2000) OR push_bit 8 1\<rparr>"
    using K by (force simp: kill_selects_def sample_tasks_def idle_task_def)
  then have "t_signal (tasks s' 0x2000) = 0x100" by (simp add: sample_tasks_def idle_task_def push_bit_eq_mult)
  then show ?thesis using t k K by auto
qed

subsection \<open>Identities\<close>

text \<open>The test of \<open>sys_setuid\<close> does not look at its argument: with equal saved and real ids any id is granted.\<close>

lemma setuid_unchecked:
  assumes "t_euid (cur s) \<noteq> 0" "t_uid (cur s) \<noteq> 0" "t_suid (cur s) = t_uid (cur s)"
  shows "sys_setuid 0 s = (0, upd_cur (\<lambda>t. t\<lparr>t_euid := 0\<rparr>) s)"
  using assms by (simp add: sys_setuid_def)

end
