(* ===== verification/Linux_Mm.thy ===== *)
theory Linux_Mm
  imports Linux_Sched
begin

unbundle bit_operations_syntax

section \<open>Memory management of linux-0.01 (\<open>mm/memory.c\<close>)\<close>

text \<open>
  The kernel runs with physical memory mapped one to one, so its pointers are physical addresses.  All
  accesses of this file are to aligned 32-bit words; \<open>phys\<close> gives the word at an address.  The page
  directory is at address 0.  \<open>mem_map\<close> counts the users of every page frame above \<open>LOW_MEM\<close>.  An
  index outside \<open>mem_map\<close> is a \<open>Fault\<close>.  \<open>printk\<close> changes nothing here, and \<open>invalidate\<close> only
  flushes the translation cache.  Where the code calls \<open>do_exit\<close>, which does not return, the result
  carries \<open>Some\<close> of its argument.
\<close>

record mm_state = sched_state +
  mem_map :: "u16 list"
  phys :: "u32 \<Rightarrow> u32"

definition LOW_MEM :: u32 where "LOW_MEM = 0x200000"
definition HIGH_MEMORY :: u32 where "HIGH_MEMORY = 0x800000"
definition PAGING_PAGES :: nat where "PAGING_PAGES = 1536"
definition SIGSEGV :: u32 where "SIGSEGV = 11"

definition MAP_NR :: "u32 \<Rightarrow> nat" where
  "MAP_NR addr = unat (drop_bit 12 (addr - LOW_MEM))"

definition wr :: "u32 \<Rightarrow> u32 \<Rightarrow> 'a mm_state_scheme \<Rightarrow> 'a mm_state_scheme" where
  "wr a v s = s\<lparr>phys := (phys s)(a := v)\<rparr>"

definition set_map :: "nat \<Rightarrow> u16 \<Rightarrow> 'a mm_state_scheme \<Rightarrow> 'a mm_state_scheme" where
  "set_map i v s = s\<lparr>mem_map := (mem_map s)[i := v]\<rparr>"

text \<open>A step on \<open>mem_map[i]\<close> that is undefined when the index is out of range.\<close>

definition with_map :: "nat \<Rightarrow> 'a mm_state_scheme \<Rightarrow> (u16 \<Rightarrow> 'b res) \<Rightarrow> 'b res" where
  "with_map i s k = (if i < length (mem_map s) then k (mem_map s ! i) else Inl (Fault ''mem_map''))"

text \<open>\<open>rep stosl\<close> with the direction flag set: \<open>n\<close> words down from \<open>a\<close>.\<close>

fun stosl_down :: "nat \<Rightarrow> u32 \<Rightarrow> u32 \<Rightarrow> 'a mm_state_scheme \<Rightarrow> 'a mm_state_scheme" where
  "stosl_down 0 a v s = s"
| "stosl_down (Suc n) a v s = stosl_down n (a - 4) v (wr a v s)"

text \<open>\<open>rep movsl\<close> with the direction flag clear.\<close>

fun movsl_up :: "nat \<Rightarrow> u32 \<Rightarrow> u32 \<Rightarrow> 'a mm_state_scheme \<Rightarrow> 'a mm_state_scheme" where
  "movsl_up 0 a b s = s"
| "movsl_up (Suc n) a b s = movsl_up n (a + 4) (b + 4) (wr b (phys s a) s)"

definition copy_page :: "u32 \<Rightarrow> u32 \<Rightarrow> 'a mm_state_scheme \<Rightarrow> 'a mm_state_scheme" where
  "copy_page from to s = movsl_up 1024 from to s"

text \<open>
  \<open>std; repne; scasw\<close> on \<open>mem_map\<close> from its last entry: with \<open>ecx = n\<close> the entry \<open>n - 1\<close> is compared and
  \<open>ecx\<close> is decremented, so after a hit \<open>ecx\<close> is the index of the free entry.
\<close>

fun scasw_down :: "u16 list \<Rightarrow> nat \<Rightarrow> nat option" where
  "scasw_down m 0 = None"
| "scasw_down m (Suc n) = (if m ! n = 0 then Some n else scasw_down m n)"

definition get_free_page :: "'a mm_state_scheme \<Rightarrow> u32 \<times> 'a mm_state_scheme" where
  "get_free_page s =
     (case scasw_down (mem_map s) PAGING_PAGES of
        None \<Rightarrow> (0, s)
      | Some ecx \<Rightarrow>
          let s = set_map ecx 1 s;
              edx = push_bit 12 (of_nat ecx) + LOW_MEM
          in (edx, stosl_down 1024 (edx + 4092) 0 s))"

definition free_page :: "u32 \<Rightarrow> 'a mm_state_scheme \<Rightarrow> 'a mm_state_scheme res" where
  "free_page addr s =
     (if addr < LOW_MEM then Inr s
      else if addr > HIGH_MEMORY then Inl (Panic ''trying to free nonexistent page'')
      else with_map (MAP_NR addr) s (\<lambda>c.
        if c \<noteq> 0 then Inr (set_map (MAP_NR addr) (c - 1) s)
        else Inl (Panic ''trying to free free page'')))"

text \<open>The inner loop over the entries of one page table.\<close>

fun free_entries :: "nat \<Rightarrow> u32 \<Rightarrow> 'a mm_state_scheme \<Rightarrow> 'a mm_state_scheme res" where
  "free_entries 0 pg_table s = Inr s"
| "free_entries (Suc n) pg_table s =
     bindr (if phys s pg_table AND 1 \<noteq> 0 then free_page (phys s pg_table AND 0xFFFFF000) s else Inr s) (\<lambda>s.
     free_entries n (pg_table + 4) (wr pg_table 0 s))"

fun free_tables :: "nat \<Rightarrow> u32 \<Rightarrow> 'a mm_state_scheme \<Rightarrow> 'a mm_state_scheme res" where
  "free_tables 0 dir s = Inr s"
| "free_tables (Suc n) dir s =
     (if phys s dir AND 1 = 0 then free_tables n (dir + 4) s
      else bindr (free_entries 1024 (phys s dir AND 0xFFFFF000) s) (\<lambda>s.
           bindr (free_page (phys s dir AND 0xFFFFF000) s) (\<lambda>s.
           free_tables n (dir + 4) (wr dir 0 s))))"

definition pde_addr :: "u32 \<Rightarrow> u32" where
  "pde_addr address = drop_bit 20 address AND 0xFFC"

definition free_page_tables :: "u32 \<Rightarrow> u32 \<Rightarrow> 'a mm_state_scheme \<Rightarrow> 'a mm_state_scheme res" where
  "free_page_tables from sz s =
     (if from AND 0x3FFFFF \<noteq> 0 then Inl (Panic ''free_page_tables called with wrong alignment'')
      else if from = 0 then Inl (Panic ''Trying to free up swapper memory space'')
      else free_tables (unat (drop_bit 22 (sz + 0x3FFFFF))) (pde_addr from) s)"

fun copy_entries :: "nat \<Rightarrow> u32 \<Rightarrow> u32 \<Rightarrow> 'a mm_state_scheme \<Rightarrow> 'a mm_state_scheme res" where
  "copy_entries 0 from_page_table to_page_table s = Inr s"
| "copy_entries (Suc n) from_page_table to_page_table s =
     (let this_page = phys s from_page_table in
      bindr (if this_page AND 1 = 0 then Inr s
             else let this_page = this_page AND NOT 2;
                      s = wr to_page_table this_page s
                  in if this_page > LOW_MEM
                     then let s = wr from_page_table this_page s
                          in with_map (MAP_NR this_page) s (\<lambda>c. Inr (set_map (MAP_NR this_page) (c + 1) s))
                     else Inr s)
        (copy_entries n (from_page_table + 4) (to_page_table + 4)))"

text \<open>The loop over the directory entries; \<open>False\<close> says that memory ran out (\<open>return -1\<close>).\<close>

fun copy_tables :: "nat \<Rightarrow> nat \<Rightarrow> u32 \<Rightarrow> u32 \<Rightarrow> 'a mm_state_scheme \<Rightarrow> (bool \<times> 'a mm_state_scheme) res" where
  "copy_tables nr 0 from_dir to_dir s = Inr (True, s)"
| "copy_tables nr (Suc n) from_dir to_dir s =
     (if phys s to_dir AND 1 \<noteq> 0 then Inl (Panic ''copy_page_tables: already exist'')
      else if phys s from_dir AND 1 = 0 then copy_tables nr n (from_dir + 4) (to_dir + 4) s
      else let from_page_table = phys s from_dir AND 0xFFFFF000;
               (to_page_table, s) = get_free_page s
           in if to_page_table = 0 then Inr (False, s)
              else bindr (copy_entries nr from_page_table to_page_table (wr to_dir (to_page_table OR 7) s))
                     (copy_tables nr n (from_dir + 4) (to_dir + 4)))"

definition copy_page_tables :: "u32 \<Rightarrow> u32 \<Rightarrow> u32 \<Rightarrow> 'a mm_state_scheme \<Rightarrow> (u32 \<times> 'a mm_state_scheme) res" where
  "copy_page_tables from to sz s =
     (if from AND 0x3FFFFF \<noteq> 0 \<or> to AND 0x3FFFFF \<noteq> 0
      then Inl (Panic ''copy_page_tables called with wrong alignment'')
      else bindr (copy_tables (if from = 0 then 0xA0 else 1024) (unat (drop_bit 22 (sz + 0x3FFFFF)))
                    (pde_addr from) (pde_addr to) s) (\<lambda>(ok, s).
           Inr (if ok then 0 else - 1, s)))"

definition put_page :: "u32 \<Rightarrow> u32 \<Rightarrow> 'a mm_state_scheme \<Rightarrow> (u32 \<times> 'a mm_state_scheme) res" where
  "put_page page address s =
     with_map (MAP_NR page) s (\<lambda>_.
       let e = pde_addr address; i = push_bit 2 (drop_bit 12 address AND 0x3FF) in
       if phys s e AND 1 \<noteq> 0
       then Inr (page, wr ((phys s e AND 0xFFFFF000) + i) (page OR 7) s)
       else let (tmp, s) = get_free_page s in
            if tmp = 0 then Inr (0, s)
            else Inr (page, wr (tmp + i) (page OR 7) (wr e (tmp OR 7) s)))"

definition un_wp_page :: "u32 \<Rightarrow> 'a mm_state_scheme \<Rightarrow> (u32 option \<times> 'a mm_state_scheme) res" where
  "un_wp_page table_entry s =
     (let old_page = phys s table_entry AND 0xFFFFF000 in
      bindr (if old_page \<ge> LOW_MEM then with_map (MAP_NR old_page) s (\<lambda>c. Inr (c = 1)) else Inr False) (\<lambda>single.
      if single then Inr (None, wr table_entry (phys s table_entry OR 2) s)
      else let (new_page, s) = get_free_page s in
           if new_page = 0 then Inr (Some SIGSEGV, s)
           else bindr (if old_page \<ge> LOW_MEM
                       then with_map (MAP_NR old_page) s (\<lambda>c. Inr (set_map (MAP_NR old_page) (c - 1) s))
                       else Inr s) (\<lambda>s.
                Inr (None, copy_page old_page new_page (wr table_entry (new_page OR 7) s)))))"

definition pte_addr :: "u32 \<Rightarrow> 'a mm_state_scheme \<Rightarrow> u32" where
  "pte_addr address s = (drop_bit 10 address AND 0xFFC) + (phys s (pde_addr address) AND 0xFFFFF000)"

definition do_wp_page :: "u32 \<Rightarrow> u32 \<Rightarrow> 'a mm_state_scheme \<Rightarrow> (u32 option \<times> 'a mm_state_scheme) res" where
  "do_wp_page error_code address s = un_wp_page (pte_addr address s) s"

definition write_verify :: "u32 \<Rightarrow> 'a mm_state_scheme \<Rightarrow> (u32 option \<times> 'a mm_state_scheme) res" where
  "write_verify address s =
     (if phys s (pde_addr address) AND 1 = 0 then Inr (None, s)
      else if phys s (pte_addr address s) AND 3 = 1 then un_wp_page (pte_addr address s) s
      else Inr (None, s))"

definition do_no_page :: "u32 \<Rightarrow> u32 \<Rightarrow> 'a mm_state_scheme \<Rightarrow> (u32 option \<times> 'a mm_state_scheme) res" where
  "do_no_page error_code address s =
     (let (tmp, s) = get_free_page s in
      if tmp = 0 then Inr (Some SIGSEGV, s)
      else bindr (put_page tmp address s) (\<lambda>(r, s). Inr (if r \<noteq> 0 then None else Some SIGSEGV, s)))"

text \<open>\<open>calc_mem\<close>: the numbers it prints.\<close>

definition calc_mem :: "'a mm_state_scheme \<Rightarrow> nat \<times> (nat \<times> nat) list" where
  "calc_mem s =
     (length (filter (\<lambda>i. mem_map s ! i = 0) [0..<PAGING_PAGES]),
      map (\<lambda>i. (i, length (filter (\<lambda>j. phys s ((phys s (of_nat (4 * i)) AND 0xFFFFF000) + of_nat (4 * j)) AND 1 \<noteq> 0) [0..<1024])))
        (filter (\<lambda>i. phys s (of_nat (4 * i)) AND 1 \<noteq> 0) [2..<1024]))"

end
