(* ===== verification/Linux_Paging.thy ===== *)
theory Linux_Paging
  imports Linux_Mm
begin

section \<open>Page frames and copy on write in linux-0.01\<close>

text \<open>
  What allocation and release of page frames do to the frame counts, and that a write fault on a shared
  page separates its users.
\<close>

unbundle bit_operations_syntax

lemma wr_fields [simp]: "phys (wr a v s) = (phys s)(a := v)" "mem_map (wr a v s) = mem_map s"
  by (simp_all add: wr_def)

lemma set_map_fields [simp]: "phys (set_map i v s) = phys s" "mem_map (set_map i v s) = (mem_map s)[i := v]"
  by (simp_all add: set_map_def)

lemma wr_set_map: "wr a v (set_map i c s) = set_map i c (wr a v s)"
  by (simp add: wr_def set_map_def)

lemma scasw_down_spec:
  "scasw_down m n = None \<longleftrightarrow> (\<forall>i < n. m ! i \<noteq> 0)"
  "scasw_down m n = Some i \<longleftrightarrow> i < n \<and> m ! i = 0 \<and> (\<forall>j. i < j \<and> j < n \<longrightarrow> m ! j \<noteq> 0)"
  by (induction n) (auto simp: less_Suc_eq)

text \<open>The words of the \<open>n\<close>-word block at \<open>p\<close>.\<close>

definition words :: "u32 \<Rightarrow> nat \<Rightarrow> u32 set" where
  "words p n = (\<lambda>k. p + 4 * of_nat k) ` {..<n}"

abbreviation page_words :: "u32 \<Rightarrow> u32 set" where "page_words p \<equiv> words p 1024"

lemma words_Suc: "words p (Suc n) = insert p (words (p + 4) n)"
proof -
  have "words p (Suc n) = insert p ((\<lambda>k. p + 4 * of_nat k) ` (Suc ` {..<n}))"
    unfolding words_def lessThan_Suc_eq_insert_0 by simp
  also have "(\<lambda>k. p + 4 * of_nat k) ` (Suc ` {..<n}) = words (p + 4) n"
    unfolding words_def image_image by (intro image_cong refl) (simp add: algebra_simps)
  finally show ?thesis .
qed

lemma words_Suc_last: "words p (Suc n) = insert (p + 4 * of_nat n) (words p n)"
  by (auto simp: words_def lessThan_Suc)

lemma stosl_down_eq:
  "stosl_down n (p + 4 * of_nat n - 4) v s = s\<lparr>phys := (\<lambda>x. if x \<in> words p n then v else phys s x)\<rparr>"
proof (induction n arbitrary: s)
  case (Suc n)
  have a: "p + 4 * of_nat (Suc n) - 4 = p + 4 * of_nat n" by (simp add: algebra_simps)
  show ?case unfolding a stosl_down.simps Suc.IH by (auto simp: wr_def words_Suc_last fun_eq_iff)
qed (simp add: words_def)

lemma movsl_up_eq:
  assumes "words a n \<inter> words b n = {}" "inj_on (\<lambda>k. b + 4 * of_nat k) {..<n}"
  shows "\<exists>m. movsl_up n a b s = s\<lparr>phys := m\<rparr> \<and> (\<forall>k < n. m (b + 4 * of_nat k) = phys s (a + 4 * of_nat k)) \<and> (\<forall>x. x \<notin> words b n \<longrightarrow> m x = phys s x)"
  using assms
proof (induction n arbitrary: a b s)
  case (Suc n)
  have dis: "words (a + 4) n \<inter> words (b + 4) n = {}" "b \<notin> words (a + 4) n" using Suc.prems(1) by (auto simp: words_Suc)
  have sh: "c + 4 + 4 * of_nat k = c + 4 * of_nat (Suc k)" for c :: u32 and k by (simp add: algebra_simps)
  have inj: "inj_on (\<lambda>k. b + 4 + 4 * of_nat k) {..<n}"
    unfolding sh using Suc.prems(2) by (auto simp: inj_on_def)
  have nb: "b \<notin> words (b + 4) n"
  proof
    assume "b \<in> words (b + 4) n"
    then obtain k where "k < n" "b + 4 * of_nat 0 = b + 4 * of_nat (Suc k)" unfolding words_def sh by auto
    then show False using inj_onD [OF Suc.prems(2), of 0 "Suc k"] by simp
  qed
  obtain m where m: "movsl_up n (a + 4) (b + 4) (wr b (phys s a) s) = (wr b (phys s a) s)\<lparr>phys := m\<rparr>"
      "\<forall>k < n. m (b + 4 + 4 * of_nat k) = phys (wr b (phys s a) s) (a + 4 + 4 * of_nat k)"
      "\<forall>x. x \<notin> words (b + 4) n \<longrightarrow> m x = phys (wr b (phys s a) s) x"
    using Suc.IH [OF dis(1) inj] by blast
  have "m (b + 4 * of_nat k) = phys s (a + 4 * of_nat k)" if "k < Suc n" for k
  proof (cases k)
    case 0
    then show ?thesis using m(3) nb by simp
  next
    case (Suc j)
    then have "a + 4 + 4 * of_nat j \<in> words (a + 4) n" using that by (auto simp: words_def)
    then have "a + 4 + 4 * of_nat j \<noteq> b" using dis(2) by blast
    moreover have "m (b + 4 + 4 * of_nat j) = phys (wr b (phys s a) s) (a + 4 + 4 * of_nat j)" using m(2) Suc that by blast
    ultimately show ?thesis unfolding Suc sh [symmetric] by simp
  qed
  moreover have "m x = phys s x" if "x \<notin> words b (Suc n)" for x using m(3) that by (simp add: words_Suc)
  ultimately show ?case using m(1) by (intro exI [of _ m]) (simp add: wr_def)
next
  case 0
  show ?case by (rule exI [of _ "phys s"]) simp
qed

definition mm_ok :: "'a mm_state_scheme \<Rightarrow> bool" where
  "mm_ok s \<longleftrightarrow> length (mem_map s) = PAGING_PAGES"

text \<open>The address of a frame; frame numbers and page addresses correspond.\<close>

definition frame :: "nat \<Rightarrow> u32" where
  "frame i = LOW_MEM + 4096 * of_nat i"

lemma unat_frame: "i < PAGING_PAGES \<Longrightarrow> unat (frame i) = 0x200000 + 4096 * i"
  by (simp add: frame_def LOW_MEM_def PAGING_PAGES_def unat_word_ariths unat_of_nat take_bit_nat_eq_self)

lemma MAP_NR_unat: "LOW_MEM \<le> a \<Longrightarrow> MAP_NR a = (unat a - 0x200000) div 4096"
  by (simp add: MAP_NR_def LOW_MEM_def u32_le_iff unat_drop_bit_eq unat_sub_no_wrap)
    (simp add: drop_bit_eq_div)

lemma frame_facts:
  assumes "i < PAGING_PAGES"
  shows "frame i \<noteq> 0" "LOW_MEM \<le> frame i" "\<not> frame i < LOW_MEM" "MAP_NR (frame i) = i" "frame i < HIGH_MEMORY"
proof -
  note u = unat_frame [OF assms]
  show "LOW_MEM \<le> frame i" "\<not> frame i < LOW_MEM" using u by (simp_all add: u32_le_iff u32_less_iff LOW_MEM_def)
  then show "MAP_NR (frame i) = i" by (simp add: MAP_NR_unat u)
  show "frame i \<noteq> 0" "frame i < HIGH_MEMORY" using u assms by (auto simp: u32_less_iff HIGH_MEMORY_def PAGING_PAGES_def)
qed

lemma get_free_page_eq:
  "get_free_page s = (case scasw_down (mem_map s) PAGING_PAGES of None \<Rightarrow> (0, s)
     | Some i \<Rightarrow> (frame i, s\<lparr>mem_map := (mem_map s)[i := 1], phys := (\<lambda>x. if x \<in> page_words (frame i) then 0 else phys s x)\<rparr>))"
proof -
  have f: "push_bit 12 (of_nat i) + LOW_MEM = frame i" for i by (simp add: frame_def push_bit_eq_mult)
  have "p + 4092 = p + 4 * of_nat 1024 - 4" for p :: u32 by simp
  then show ?thesis unfolding get_free_page_def Let_def f by (simp only: stosl_down_eq) (simp add: set_map_def cong: option.case_cong if_cong)
qed

text \<open>
  Property C35.  \<open>get_free_page\<close> takes the free frame with the highest number, counts it as used once and
  clears its 1024 words; nothing else changes.  When no frame is free it returns 0 and changes nothing.
\<close>

theorem get_free_page_spec:
  assumes "get_free_page s = (p, s')"
  shows "if \<exists>i < PAGING_PAGES. mem_map s ! i = 0
    then \<exists>i < PAGING_PAGES. mem_map s ! i = 0 \<and> (\<forall>j. i < j \<and> j < PAGING_PAGES \<longrightarrow> mem_map s ! j \<noteq> 0) \<and>
      unat p = 0x200000 + 4096 * i \<and>
      s' = s\<lparr>mem_map := (mem_map s)[i := 1], phys := (\<lambda>x. if x \<in> page_words p then 0 else phys s x)\<rparr>
    else p = 0 \<and> s' = s"
proof (cases "scasw_down (mem_map s) PAGING_PAGES")
  case None
  then have "p = 0 \<and> s' = s" using assms by (simp add: get_free_page_eq)
  then show ?thesis using None by (auto simp: scasw_down_spec)
next
  case (Some i)
  then have "i < PAGING_PAGES \<and> mem_map s ! i = 0 \<and> (\<forall>j. i < j \<and> j < PAGING_PAGES \<longrightarrow> mem_map s ! j \<noteq> 0)"
    by (simp add: scasw_down_spec)
  then show ?thesis using assms Some by (auto simp: get_free_page_eq unat_frame)
qed

lemma get_free_page_cases:
  obtains (none) "\<forall>i < PAGING_PAGES. mem_map s ! i \<noteq> 0" "get_free_page s = (0, s)"
  | (page) i where "i < PAGING_PAGES" "mem_map s ! i = 0"
      "get_free_page s = (frame i, s\<lparr>mem_map := (mem_map s)[i := 1], phys := (\<lambda>x. if x \<in> page_words (frame i) then 0 else phys s x)\<rparr>)"
  by (cases "scasw_down (mem_map s) PAGING_PAGES") (auto simp: get_free_page_eq scasw_down_spec)

text \<open>
  Freeing a page that was just allocated gives back the frame counts from before the allocation.
\<close>

lemma get_free_page_roundtrip:
  assumes "mm_ok s" "get_free_page s = (p, s')" "p \<noteq> 0"
  shows "\<exists>s''. free_page p s' = Inr s'' \<and> mem_map s'' = mem_map s"
proof (cases rule: get_free_page_cases [of s])
  case none
  then show ?thesis using assms by simp
next
  case (page i)
  then have "mem_map s' ! i = 1" "(mem_map s')[i := 0] = mem_map s" "i < length (mem_map s')" "p = frame i"
    using assms by (auto simp: mm_ok_def list_update_same_conv)
  moreover have "\<not> HIGH_MEMORY < frame i" using frame_facts(5) [OF page(1)] by (simp add: not_less order_less_imp_le)
  ultimately show ?thesis using frame_facts [OF page(1)] by (simp add: free_page_def with_map_def)
qed

definition sample_mm :: mm_state where
  "sample_mm = \<lparr>task = replicate 64 0, tasks = (\<lambda>_. undefined), current = 0, jiffies = 0, startup_time = 0, init_task = 0,
     wait_queues = (\<lambda>_. 0), last_pid = 0, last_task_used_math = 0, mem_map = replicate PAGING_PAGES 0, phys = (\<lambda>_. 7)\<rparr>"

lemma sample_get_free_page: "fst (get_free_page sample_mm) = 0x7FF000" "mm_ok sample_mm"
proof -
  have "scasw_down (mem_map sample_mm) PAGING_PAGES = Some 1535"
    by (simp add: scasw_down_spec sample_mm_def PAGING_PAGES_def)
  then show "fst (get_free_page sample_mm) = 0x7FF000" by (simp add: get_free_page_eq frame_def LOW_MEM_def)
  show "mm_ok sample_mm" by (simp add: mm_ok_def sample_mm_def)
qed

theorem get_free_page_spec_witness:
  "\<exists>(s' :: mm_state) i. get_free_page sample_mm = (0x7FF000, s') \<and> i < PAGING_PAGES \<and> mem_map s' = (mem_map sample_mm)[i := 1] \<and>
     (\<forall>x \<in> page_words 0x7FF000. phys s' x = 0)"
proof -
  obtain p s' where g: "get_free_page sample_mm = (p, s')" by (cases "get_free_page sample_mm")
  have p: "p = 0x7FF000" using g sample_get_free_page(1) by simp
  have "\<exists>i < PAGING_PAGES. mem_map sample_mm ! i = 0" by (intro exI [of _ 0]) (simp add: sample_mm_def PAGING_PAGES_def)
  then obtain i where "i < PAGING_PAGES"
      "s' = sample_mm\<lparr>mem_map := (mem_map sample_mm)[i := 1], phys := (\<lambda>x. if x \<in> page_words p then 0 else phys sample_mm x)\<rparr>"
    using get_free_page_spec [OF g] by (auto simp only: if_True)
  then show ?thesis using g p by (intro exI [of _ s'] exI [of _ i]) simp
qed

subsection \<open>Copy on write\<close>

lemma unat_frame_word:
  assumes "i < PAGING_PAGES" "k < 1024"
  shows "unat (frame i + 4 * of_nat k) = 0x200000 + 4096 * i + 4 * k"
proof -
  have "unat (4 * of_nat k :: u32) = 4 * k" using assms(2) by (simp add: unat_word_ariths unat_of_nat take_bit_nat_eq_self)
  then show ?thesis using unat_frame [OF assms(1)] assms by (simp add: unat_add_u32 PAGING_PAGES_def)
qed

lemma page_words_frame:
  assumes "i < PAGING_PAGES" "x \<in> page_words (frame i)"
  shows "LOW_MEM \<le> x" "MAP_NR x = i"
proof -
  obtain k where k: "k < 1024" "x = frame i + 4 * of_nat k" using assms(2) by (auto simp: words_def)
  then have u: "unat x = 0x200000 + 4096 * i + 4 * k" using unat_frame_word [OF assms(1)] by simp
  then show "LOW_MEM \<le> x" by (simp add: u32_le_iff LOW_MEM_def)
  then have "MAP_NR x = (4096 * i + 4 * k) div 4096" by (simp add: MAP_NR_unat u)
  then show "MAP_NR x = i" using k(1) by simp
qed

lemma inj_frame_words: "i < PAGING_PAGES \<Longrightarrow> inj_on (\<lambda>k. frame i + 4 * of_nat k) {..<1024}"
  by (rule inj_onI) (metis add_left_cancel lessThan_iff mult_left_cancel unat_frame_word zero_neq_numeral)

lemma frame_disjoint: "i < PAGING_PAGES \<Longrightarrow> j < PAGING_PAGES \<Longrightarrow> i \<noteq> j \<Longrightarrow> page_words (frame i) \<inter> page_words (frame j) = {}"
  using page_words_frame(2) by blast

lemma copy_page_frame:
  assumes "i < PAGING_PAGES" "j < PAGING_PAGES" "i \<noteq> j"
  obtains m where "copy_page (frame j) (frame i) s = s\<lparr>phys := m\<rparr>"
    "\<forall>k < 1024. m (frame i + 4 * of_nat k) = phys s (frame j + 4 * of_nat k)"
    "\<forall>x. x \<notin> page_words (frame i) \<longrightarrow> m x = phys s x"
  using movsl_up_eq [OF frame_disjoint [OF assms(2,1)] inj_frame_words [OF assms(1)], of s] assms(3)
  unfolding copy_page_def by blast

text \<open>The address is in low memory or in a frame that is in use.\<close>

definition in_use :: "'a mm_state_scheme \<Rightarrow> u32 \<Rightarrow> bool" where
  "in_use s a \<longleftrightarrow> a < LOW_MEM \<or> mem_map s ! MAP_NR a \<noteq> 0"

text \<open>
  Property C36.  Copy on write separates two users of a page.  When the entry at \<open>te\<close> maps frame \<open>j\<close>, which is
  shared, \<open>un_wp_page\<close> takes a free frame \<open>i\<close>, makes the entry map it writably, copies the whole page into
  it and drops one reference to \<open>j\<close>; every word outside the new page and the entry is kept, so the
  other users of \<open>j\<close> see the old contents.
\<close>

theorem un_wp_page_isolates:
  assumes ok: "mm_ok s" and te: "phys s te AND 0xFFFFF000 = frame j" "j < PAGING_PAGES" "in_use s te" "te \<notin> page_words (frame j)"
    and shared: "1 < mem_map s ! j" and free: "\<exists>i < PAGING_PAGES. mem_map s ! i = 0"
  shows "\<exists>s' i. un_wp_page te s = Inr (None, s') \<and> i < PAGING_PAGES \<and> mem_map s ! i = 0 \<and>
    phys s' te = (frame i OR 7) \<and> mem_map s' = (mem_map s)[i := 1, j := mem_map s ! j - 1] \<and>
    (\<forall>k < 1024. phys s' (frame i + 4 * of_nat k) = phys s (frame j + 4 * of_nat k)) \<and>
    (\<forall>x. x \<noteq> te \<longrightarrow> x \<notin> page_words (frame i) \<longrightarrow> phys s' x = phys s x)"
proof (cases rule: get_free_page_cases [of s])
  case none
  then show ?thesis using free by blast
next
  case (page i)
  note F = frame_facts [OF te(2)]
  have ij: "i \<noteq> j" using page(2) shared by auto
  have te_i: "te \<notin> page_words (frame i)" using page_words_frame [OF page(1), of te] te(3) page(2) by (auto simp: in_use_def not_less [symmetric])
  let ?s1 = "s\<lparr>mem_map := (mem_map s)[i := 1], phys := (\<lambda>x. if x \<in> page_words (frame i) then 0 else phys s x)\<rparr>"
  let ?s2 = "wr te (frame i OR 7) (set_map j (mem_map s ! j - 1) ?s1)"
  obtain m where m: "copy_page (frame j) (frame i) ?s2 = ?s2\<lparr>phys := m\<rparr>"
      "\<forall>k < 1024. m (frame i + 4 * of_nat k) = phys ?s2 (frame j + 4 * of_nat k)" "\<forall>x. x \<notin> page_words (frame i) \<longrightarrow> m x = phys ?s2 x"
    by (rule copy_page_frame [OF page(1) te(2) ij])
  have "mem_map s ! j \<noteq> 1" using shared by auto
  then have "un_wp_page te s = Inr (None, ?s2\<lparr>phys := m\<rparr>)"
    using ok te F page ij frame_facts(1) [OF page(1)] m(1) by (simp add: un_wp_page_def with_map_def mm_ok_def)
  moreover have "m te = (frame i OR 7)" using m(3) te_i by simp
  moreover have "m (frame i + 4 * of_nat k) = phys s (frame j + 4 * of_nat k)" if "k < 1024" for k
  proof -
    have "frame j + 4 * of_nat k \<in> page_words (frame j)" using that by (auto simp: words_def)
    then have "frame j + 4 * of_nat k \<noteq> te" "frame j + 4 * of_nat k \<notin> page_words (frame i)"
      using te(4) frame_disjoint [OF page(1) te(2) ij] by blast+
    then show ?thesis using m(2) that by simp
  qed
  moreover have "m x = phys s x" if "x \<noteq> te" "x \<notin> page_words (frame i)" for x using m(3) that by simp
  ultimately show ?thesis using page(1,2) ij by (intro exI [of _ "?s2\<lparr>phys := m\<rparr>"] exI [of _ i]) (auto simp: list_update_swap)
qed

text \<open>A page with a single user is made writable in place; a page that cannot be copied ends the process.\<close>

lemma un_wp_page_single:
  assumes "mm_ok s" "phys s te AND 0xFFFFF000 = frame j" "j < PAGING_PAGES" "mem_map s ! j = 1"
  shows "un_wp_page te s = Inr (None, wr te (phys s te OR 2) s)"
  using assms frame_facts [OF assms(3)] by (simp add: un_wp_page_def with_map_def mm_ok_def)

lemma un_wp_page_out_of_memory:
  assumes "mm_ok s" "phys s te AND 0xFFFFF000 = frame j" "j < PAGING_PAGES" "1 < mem_map s ! j" "\<forall>i < PAGING_PAGES. mem_map s ! i \<noteq> 0"
  shows "un_wp_page te s = Inr (Some SIGSEGV, s)"
proof -
  have "mem_map s ! j \<noteq> 1" using assms(4) by auto
  moreover have "get_free_page s = (0, s)" using assms(5) by (cases rule: get_free_page_cases [of s]) auto
  ultimately show ?thesis using assms frame_facts [OF assms(3)] by (simp add: un_wp_page_def with_map_def mm_ok_def)
qed

text \<open>An entry in low memory maps frame 5, which has two users.\<close>

definition sample_cow :: mm_state where
  "sample_cow = sample_mm\<lparr>mem_map := (replicate PAGING_PAGES 0)[5 := 2], phys := (\<lambda>x. if x = 0x1000 then 0x205005 else x)\<rparr>"

theorem un_wp_page_isolates_witness:
  "\<exists>(s' :: mm_state) i. un_wp_page 0x1000 sample_cow = Inr (None, s') \<and> mem_map s' = (mem_map sample_cow)[i := 1, 5 := 1] \<and>
     phys s' (frame i + 4) = 0x205004"
proof -
  have f: "frame 5 = 0x205000" by (simp add: frame_def LOW_MEM_def)
  have A: "mm_ok sample_cow" "phys sample_cow 0x1000 AND 0xFFFFF000 = frame 5" "5 < PAGING_PAGES" "in_use sample_cow 0x1000" "1 < mem_map sample_cow ! 5"
    "\<exists>i < PAGING_PAGES. mem_map sample_cow ! i = 0"
    by (simp_all add: mm_ok_def sample_cow_def f PAGING_PAGES_def in_use_def LOW_MEM_def)
      (intro exI [of _ 0], simp)
  have B: "0x1000 \<notin> page_words (frame 5)" using page_words_frame(1) [of 5 "0x1000"] by (auto simp: PAGING_PAGES_def LOW_MEM_def)
  obtain s' i where S: "un_wp_page 0x1000 sample_cow = Inr (None, s')" "mem_map s' = (mem_map sample_cow)[i := 1, 5 := mem_map sample_cow ! 5 - 1]"
      "\<forall>k < 1024. phys s' (frame i + 4 * of_nat k) = phys sample_cow (frame 5 + 4 * of_nat k)"
    using un_wp_page_isolates [OF A(1,2,3,4) B A(5,6)] by blast
  have "mem_map sample_cow ! 5 - 1 = 1" by (simp add: sample_cow_def PAGING_PAGES_def)
  moreover have "phys s' (frame i + 4) = 0x205004" using S(3) [rule_format, of 1] by (simp add: sample_cow_def f)
  ultimately show ?thesis using S(1,2) by auto
qed

subsection \<open>Two flaws\<close>

text \<open>\<open>free_page\<close> lets the address \<open>HIGH_MEMORY\<close> pass, one page past the end of \<open>mem_map\<close>.\<close>

lemma free_page_past_end: "mm_ok s \<Longrightarrow> free_page HIGH_MEMORY s = Inl (Fault ''mem_map'')"
  by (simp add: free_page_def with_map_def mm_ok_def MAP_NR_def HIGH_MEMORY_def LOW_MEM_def PAGING_PAGES_def)

text \<open>
  With one free frame and no page table for the address, \<open>do_no_page\<close> kills the process and leaks the
  frame it had taken.
\<close>

lemma do_no_page_leaks:
  assumes ok: "mm_ok s" and i: "i < PAGING_PAGES" "mem_map s ! i = 0" "\<forall>j < PAGING_PAGES. j \<noteq> i \<longrightarrow> mem_map s ! j \<noteq> 0"
    and no: "phys s (pde_addr address) AND 1 = 0"
  shows "\<exists>s'. do_no_page e address s = Inr (Some SIGSEGV, s') \<and> mem_map s' = (mem_map s)[i := 1]"
proof (cases rule: get_free_page_cases [of s])
  case none
  then show ?thesis using i by blast
next
  case (page k)
  let ?s1 = "s\<lparr>mem_map := (mem_map s)[i := 1], phys := (\<lambda>x. if x \<in> page_words (frame i) then 0 else phys s x)\<rparr>"
  have k: "k = i" using page i by blast
  have "\<forall>j < PAGING_PAGES. mem_map ?s1 ! j \<noteq> 0" using ok i by (auto simp: nth_list_update mm_ok_def)
  then have g: "get_free_page ?s1 = (0, ?s1)" by (cases rule: get_free_page_cases [of ?s1]) auto
  have p: "phys ?s1 (pde_addr address) AND 1 = 0" using no by simp
  have "put_page (frame i) address ?s1 = Inr (0, ?s1)"
    unfolding put_page_def using g p ok i frame_facts(4) [OF i(1)] by (simp add: with_map_def mm_ok_def)
  then show ?thesis using page(3) frame_facts(1) [OF i(1)] unfolding k by (simp add: do_no_page_def)
qed

end
