(* ===== verification/Linux_String.thy ===== *)
theory Linux_String
  imports Memory
begin

unbundle bit_operations_syntax

section \<open>The string routines of linux-0.01 (\<open>include/string.h\<close>)\<close>

text \<open>
  The routines are inline assembly around the i386 string instructions.  The instructions are
  modelled on the byte memory, with the registers \<open>esi\<close>, \<open>edi\<close> and \<open>ecx\<close> as words and the flags
  they leave as booleans: an instruction repeated zero times leaves the flags as they were.  A loop that only a
  terminator stops is a partial function (\<open>None\<close>: it never ends); a loop that counts \<open>ecx\<close> down is total.
  \<open>char\<close> is signed, so \<open>jl\<close> after a comparison of bytes compares signed values.
\<close>

subsection \<open>Repeated string instructions\<close>

text \<open>\<open>repne scasb\<close>: scan for \<open>al\<close>; the result is \<open>edi\<close>, \<open>ecx\<close> and the zero flag.\<close>

function repne_scasb :: "memory \<Rightarrow> u8 \<Rightarrow> u32 \<Rightarrow> u32 \<Rightarrow> bool \<Rightarrow> u32 \<times> u32 \<times> bool" where
  "repne_scasb m al edi ecx zf =
     (if ecx = 0 then (edi, ecx, zf)
      else if load8 m edi = al then (edi + 1, ecx - 1, True)
      else repne_scasb m al (edi + 1) (ecx - 1) False)"
  by pat_completeness auto
termination
  by (relation "measure (\<lambda>(m, al, edi, ecx, zf). unat ecx)") (auto simp: unat_pred_u32 unat_gt_0)

text \<open>\<open>repe cmpsb\<close>: the result is \<open>esi\<close>, the zero flag and the less flag of the last comparison \<open>[esi] - [edi]\<close>.\<close>

function repe_cmpsb :: "memory \<Rightarrow> u32 \<Rightarrow> u32 \<Rightarrow> u32 \<Rightarrow> bool \<times> bool \<Rightarrow> u32 \<times> bool \<times> bool" where
  "repe_cmpsb m esi edi ecx fl =
     (if ecx = 0 then (esi, fl)
      else if load8 m esi = load8 m edi then repe_cmpsb m (esi + 1) (edi + 1) (ecx - 1) (True, False)
      else (esi + 1, False, sint (load8 m esi) < sint (load8 m edi)))"
  by pat_completeness auto
termination
  by (relation "measure (\<lambda>(m, esi, edi, ecx, fl). unat ecx)") (auto simp: unat_pred_u32 unat_gt_0)

text \<open>\<open>rep movsb\<close> with the direction flag clear (\<open>d = 1\<close>) or set (\<open>d = -1\<close>), and \<open>rep stosb\<close>.\<close>

function rep_movsb :: "u32 \<Rightarrow> memory \<Rightarrow> u32 \<Rightarrow> u32 \<Rightarrow> u32 \<Rightarrow> memory" where
  "rep_movsb d m esi edi ecx =
     (if ecx = 0 then m else rep_movsb d (store8 m edi (load8 m esi)) (esi + d) (edi + d) (ecx - 1))"
  by pat_completeness auto
termination
  by (relation "measure (\<lambda>(d, m, esi, edi, ecx). unat ecx)") (auto simp: unat_pred_u32 unat_gt_0)

function rep_stosb :: "memory \<Rightarrow> u8 \<Rightarrow> u32 \<Rightarrow> u32 \<Rightarrow> memory" where
  "rep_stosb m al edi ecx = (if ecx = 0 then m else rep_stosb (store8 m edi al) al (edi + 1) (ecx - 1))"
  by pat_completeness auto
termination
  by (relation "measure (\<lambda>(m, al, edi, ecx). unat ecx)") (auto simp: unat_pred_u32 unat_gt_0)

declare repne_scasb.simps [simp del] repe_cmpsb.simps [simp del] rep_movsb.simps [simp del] rep_stosb.simps [simp del]

subsection \<open>Copying\<close>

text \<open>The loop \<open>1: lodsb; stosb; testb al,al; jne 1b\<close>.\<close>

partial_function (option) copy_to_nul :: "memory \<Rightarrow> u32 \<Rightarrow> u32 \<Rightarrow> memory option" where
  "copy_to_nul m esi edi =
     (let al = load8 m esi; m = store8 m edi al in
      if al = 0 then Some m else copy_to_nul m (esi + 1) (edi + 1))"

definition lx_strcpy :: "memory \<Rightarrow> u32 \<Rightarrow> u32 \<Rightarrow> (u32 \<times> memory) option" where
  "lx_strcpy m dest src = map_option (Pair dest) (copy_to_nul m src dest)"

text \<open>
  The counted loop \<open>1: decl ecx; js 2f; lodsb; stosb; testb al,al; jne 1b\<close>: the result says whether the
  terminator was copied, and where \<open>edi\<close> and \<open>ecx\<close> stand.
\<close>

function copy_counted :: "memory \<Rightarrow> u32 \<Rightarrow> u32 \<Rightarrow> u32 \<Rightarrow> memory \<times> bool \<times> u32 \<times> u32" where
  "copy_counted m esi edi ecx =
     (if sint (ecx - 1) < 0 then (m, False, edi, ecx - 1)
      else let al = load8 m esi; m = store8 m edi al in
           if al = 0 then (m, True, edi + 1, ecx - 1)
           else copy_counted m (esi + 1) (edi + 1) (ecx - 1))"
  by pat_completeness auto
termination
proof (relation "measure (\<lambda>(m, esi, edi, ecx). unat ecx)")
  fix m esi edi and ecx :: u32
  assume "\<not> sint (ecx - 1) < 0"
  then have "ecx \<noteq> 0" by auto
  then show "((m, esi + 1, edi + 1, ecx - 1), (n, esi, edi, ecx)) \<in> measure (\<lambda>(m, esi, edi, ecx). unat ecx)" for n
    by (auto simp: unat_pred_u32 unat_gt_0)
qed auto

declare copy_counted.simps [simp del]

definition lx_strncpy :: "memory \<Rightarrow> u32 \<Rightarrow> u32 \<Rightarrow> u32 \<Rightarrow> u32 \<times> memory" where
  "lx_strncpy m dest src cnt =
     (case copy_counted m src dest cnt of
        (m, nul, edi, ecx) \<Rightarrow> (dest, if nul then rep_stosb m 0 edi ecx else m))"

definition lx_strcat :: "memory \<Rightarrow> u32 \<Rightarrow> u32 \<Rightarrow> (u32 \<times> memory) option" where
  "lx_strcat m dest src =
     (case repne_scasb m 0 dest 0xFFFFFFFF False of
        (edi, ecx, zf) \<Rightarrow> map_option (Pair dest) (copy_to_nul m src (edi - 1)))"

definition lx_strncat :: "memory \<Rightarrow> u32 \<Rightarrow> u32 \<Rightarrow> u32 \<Rightarrow> u32 \<times> memory" where
  "lx_strncat m dest src cnt =
     (case repne_scasb m 0 dest 0xFFFFFFFF False of
        (edi, ecx, zf) \<Rightarrow>
          case copy_counted m src (edi - 1) cnt of
            (m, nul, edi, ecx) \<Rightarrow> (dest, store8 m edi 0))"

subsection \<open>Comparing\<close>

text \<open>\<open>lodsb\<close> loads from \<open>ct\<close>, \<open>scasb\<close> subtracts the byte of \<open>cs\<close> from it.\<close>

partial_function (option) lx_strcmp :: "memory \<Rightarrow> u32 \<Rightarrow> u32 \<Rightarrow> u32 option" where
  "lx_strcmp m cs ct =
     (let al = load8 m ct; b = load8 m cs in
      if al \<noteq> b then Some (if sint al < sint b then 1 else - 1)
      else if al = 0 then Some 0 else lx_strcmp m (cs + 1) (ct + 1))"

function lx_strncmp :: "memory \<Rightarrow> u32 \<Rightarrow> u32 \<Rightarrow> u32 \<Rightarrow> u32" where
  "lx_strncmp m cs ct cnt =
     (if sint (cnt - 1) < 0 then 0
      else let al = load8 m ct; b = load8 m cs in
           if al \<noteq> b then (if sint al < sint b then 1 else - 1)
           else if al = 0 then 0 else lx_strncmp m (cs + 1) (ct + 1) (cnt - 1))"
  by pat_completeness auto
termination
proof (relation "measure (\<lambda>(m, cs, ct, cnt). unat cnt)")
  fix m cs ct and cnt :: u32
  assume "\<not> sint (cnt - 1) < 0"
  then have "cnt \<noteq> 0" by auto
  then show "((m, cs + 1, ct + 1, cnt - 1), (m, cs, ct, cnt)) \<in> measure (\<lambda>(m, cs, ct, cnt). unat cnt)"
    by (auto simp: unat_pred_u32 unat_gt_0)
qed auto

declare lx_strncmp.simps [simp del]

subsection \<open>Searching\<close>

text \<open>The loop of \<open>strchr\<close> leaves \<open>esi\<close> behind the character found, or 1 when there is none.\<close>

partial_function (option) strchr_loop :: "memory \<Rightarrow> u32 \<Rightarrow> u8 \<Rightarrow> u32 option" where
  "strchr_loop m esi ah =
     (let al = load8 m esi in
      if al = ah then Some (esi + 1) else if al = 0 then Some 1 else strchr_loop m (esi + 1) ah)"

definition lx_strchr :: "memory \<Rightarrow> u32 \<Rightarrow> u8 \<Rightarrow> u32 option" where
  "lx_strchr m s c = map_option (\<lambda>esi. esi - 1) (strchr_loop m s c)"

partial_function (option) strrchr_loop :: "memory \<Rightarrow> u32 \<Rightarrow> u8 \<Rightarrow> u32 \<Rightarrow> u32 option" where
  "strrchr_loop m esi ah edx =
     (let al = load8 m esi; edx = (if al = ah then esi + 1 - 1 else edx) in
      if al = 0 then Some edx else strrchr_loop m (esi + 1) ah edx)"

definition lx_strrchr :: "memory \<Rightarrow> u32 \<Rightarrow> u8 \<Rightarrow> u32 option" where
  "lx_strrchr m s c = strrchr_loop m s c 0"

definition lx_strlen :: "memory \<Rightarrow> u32 \<Rightarrow> u32" where
  "lx_strlen m s = (case repne_scasb m 0 s 0xFFFFFFFF False of (edi, ecx, zf) \<Rightarrow> NOT ecx - 1)"

text \<open>
  The common loop of \<open>strspn\<close>, \<open>strcspn\<close> and \<open>strpbrk\<close>: load a byte, stop at the terminator, look the byte up among the
  \<open>edx\<close> bytes at \<open>ct\<close>, and go on when the zero flag is \<open>want\<close>.  The result is \<open>esi\<close> and whether the terminator stopped it.
\<close>

partial_function (option) span_loop :: "bool \<Rightarrow> memory \<Rightarrow> u32 \<Rightarrow> u32 \<Rightarrow> u32 \<Rightarrow> (u32 \<times> bool) option" where
  "span_loop want m ct edx esi =
     (let al = load8 m esi in
      if al = 0 then Some (esi + 1, True)
      else case repne_scasb m al ct edx False of (edi, ecx, zf) \<Rightarrow>
        if zf = want then span_loop want m ct edx (esi + 1) else Some (esi + 1, False))"

definition lx_strspn :: "memory \<Rightarrow> u32 \<Rightarrow> u32 \<Rightarrow> u32 option" where
  "lx_strspn m cs ct = map_option (\<lambda>(esi, nul). esi - 1 - cs) (span_loop True m ct (lx_strlen m ct) cs)"

definition lx_strcspn :: "memory \<Rightarrow> u32 \<Rightarrow> u32 \<Rightarrow> u32 option" where
  "lx_strcspn m cs ct = map_option (\<lambda>(esi, nul). esi - 1 - cs) (span_loop False m ct (lx_strlen m ct) cs)"

definition lx_strpbrk :: "memory \<Rightarrow> u32 \<Rightarrow> u32 \<Rightarrow> u32 option" where
  "lx_strpbrk m cs ct = map_option (\<lambda>(esi, nul). if nul then 0 else esi - 1) (span_loop False m ct (lx_strlen m ct) cs)"

text \<open>
  \<open>strstr\<close>: compare the \<open>edx\<close> bytes of \<open>ct\<close> with the bytes at \<open>esi\<close>; after a mismatch at the terminator
  of \<open>cs\<close> there is no occurrence.  The zero flag before the first comparison is the one of \<open>decl ecx\<close>.
\<close>

partial_function (option) strstr_loop :: "memory \<Rightarrow> u32 \<Rightarrow> u32 \<Rightarrow> bool \<Rightarrow> u32 \<Rightarrow> u32 option" where
  "strstr_loop m ct edx zf esi =
     (case repe_cmpsb m esi ct edx (zf, False) of (esi', zf', lt) \<Rightarrow>
        if zf' then Some esi
        else if load8 m (esi' - 1) = 0 then Some 0
        else strstr_loop m ct edx False (esi + 1))"

definition lx_strstr :: "memory \<Rightarrow> u32 \<Rightarrow> u32 \<Rightarrow> u32 option" where
  "lx_strstr m cs ct = (let edx = lx_strlen m ct in strstr_loop m ct edx (edx = 0) cs)"

subsection \<open>\<open>strtok\<close>\<close>

text \<open>
  The static pointer \<open>___strtok\<close> is passed and returned.  Labels 1 to 8 of the assembly: skip delimiters (2),
  find the end of the token (3), cut it off (4 to 6), and clear the pointer when there is no token (7).
\<close>

definition strtok_cut :: "memory \<Rightarrow> u32 \<Rightarrow> u32 \<times> bool \<Rightarrow> u32 \<times> u32 \<times> memory" where
  "strtok_cut m ebx r =
     (let (esi, nul) = r;
          (esi, m) = (if nul then (0, m)
                      else let esi = esi - 1 in
                           if load8 m esi = 0 then (0, m) else (esi + 1, store8 m esi 0));
          ebx = (if load8 m ebx = 0 then 0 else ebx)
      in if ebx \<noteq> 0 then (ebx, esi, m) else (0, 0, m))"

definition lx_strtok :: "memory \<Rightarrow> u32 \<Rightarrow> u32 \<Rightarrow> u32 \<Rightarrow> (u32 \<times> u32 \<times> memory) option" where
  "lx_strtok m strtok s ct =
     (if s = 0 \<and> strtok = 0 then Some (0, 0, m)
      else let esi = (if s \<noteq> 0 then s else strtok); edx = lx_strlen m ct in
           if edx = 0 then Some (0, 0, m)
           else Option.bind (span_loop True m ct edx esi) (\<lambda>(esi, nul).
             if nul then Some (0, 0, m)
             else let esi = esi - 1 in
                  if load8 m esi = 0 then Some (0, 0, m)
                  else map_option (strtok_cut m esi) (span_loop False m ct edx esi)))"

subsection \<open>Blocks of memory\<close>

definition lx_memcpy :: "memory \<Rightarrow> u32 \<Rightarrow> u32 \<Rightarrow> u32 \<Rightarrow> u32 \<times> memory" where
  "lx_memcpy m dest src n = (dest, rep_movsb 1 m src dest n)"

definition lx_memmove :: "memory \<Rightarrow> u32 \<Rightarrow> u32 \<Rightarrow> u32 \<Rightarrow> u32 \<times> memory" where
  "lx_memmove m dest src n =
     (dest, if dest < src then rep_movsb 1 m src dest n
            else rep_movsb (- 1) m (src + n - 1) (dest + n - 1) n)"

text \<open>\<open>memcmp\<close> depends on the flags \<open>fl\<close> it is entered with when \<open>cnt\<close> is 0.\<close>

definition lx_memcmp :: "bool \<times> bool \<Rightarrow> memory \<Rightarrow> u32 \<Rightarrow> u32 \<Rightarrow> u32 \<Rightarrow> u32" where
  "lx_memcmp fl m cs ct cnt =
     (case repe_cmpsb m ct cs cnt fl of (esi, zf, lt) \<Rightarrow> if zf then 0 else if lt then 1 else - 1)"

definition lx_memchr :: "memory \<Rightarrow> u32 \<Rightarrow> u8 \<Rightarrow> u32 \<Rightarrow> u32" where
  "lx_memchr m cs c cnt =
     (if cnt = 0 then 0
      else case repne_scasb m c cs cnt False of (edi, ecx, zf) \<Rightarrow> (if zf then edi else 1) - 1)"

definition lx_memset :: "memory \<Rightarrow> u32 \<Rightarrow> u8 \<Rightarrow> u32 \<Rightarrow> u32 \<times> memory" where
  "lx_memset m s c cnt = (s, rep_stosb m c s cnt)"

end
