(* ===== verification/Linux_Strings.thy ===== *)
theory Linux_Strings
  imports Linux_String "HOL-Library.Sublist"
begin

section \<open>Correctness of the string routines of linux-0.01\<close>

text \<open>
  The assembly routines against list definitions, on memory that holds terminated strings (\<open>cstr\<close>).  Lengths
  are below \<open>2^32 - 1\<close>, which is what \<open>repne scasb\<close> with \<open>ecx = 0xFFFFFFFF\<close> can scan.
\<close>

subsection \<open>Scanning terminated strings\<close>

lemma scasb_nul:
  "cstr m a xs \<Longrightarrow> length xs < unat ecx \<Longrightarrow>
   repne_scasb m 0 a ecx zf = (a + of_nat (length xs) + 1, ecx - of_nat (length xs) - 1, True)"
proof (induction xs arbitrary: a ecx zf)
  case Nil
  then show ?case by (auto simp: repne_scasb.simps [of m 0 a ecx])
next
  case (Cons x xs)
  have e: "ecx \<noteq> 0" using Cons.prems(2) by auto
  then have "length xs < unat (ecx - 1)" using Cons.prems(2) by (simp add: unat_pred_u32)
  from Cons.IH [OF _ this] show ?case using Cons.prems(1) e by (simp add: repne_scasb.simps [of m 0 a ecx] algebra_simps)
qed

lemma lx_strlen_cstr:
  assumes "cstr m s xs" "length xs < 0xFFFFFFFF"
  shows "lx_strlen m s = of_nat (length xs)"
proof -
  have "length xs < unat (0xFFFFFFFF :: u32)" using assms(2) by simp
  from scasb_nul [OF assms(1) this] show ?thesis by (simp add: lx_strlen_def not_eq_complement)
qed

lemma scasb_mem:
  "cstr m a ys \<Longrightarrow> length ys < 0x100000000 \<Longrightarrow> snd (snd (repne_scasb m al a (of_nat (length ys)) False)) = (al \<in> set ys)"
proof (induction ys arbitrary: a)
  case Nil
  then show ?case by (simp add: repne_scasb.simps)
next
  case (Cons y ys)
  have "(of_nat (length (y # ys)) :: u32) \<noteq> 0" using Cons.prems(2) unat_of_nat_u32 [of "length (y # ys)"] by auto
  moreover have "of_nat (length (y # ys)) - 1 = (of_nat (length ys) :: u32)" by simp
  ultimately show ?case using Cons by (subst repne_scasb.simps) auto
qed

lemma length_takeWhile_eq: "length (takeWhile P xs) = length xs \<longleftrightarrow> (\<forall>x \<in> set xs. P x)"
  by (induction xs) auto

text \<open>The bytes before the first one whose membership in \<open>ys\<close> is not \<open>want\<close>.\<close>

abbreviation spanned :: "bool \<Rightarrow> u8 list \<Rightarrow> u8 list \<Rightarrow> u8 list" where
  "spanned want ys xs \<equiv> takeWhile (\<lambda>x. (x \<in> set ys) = want) xs"

lemma span_loop_cstr:
  assumes "cstr m ct ys" "length ys < 0x100000000" "cstr m a xs"
  shows "span_loop want m ct (of_nat (length ys)) a =
    Some (a + of_nat (length (spanned want ys xs)) + 1, length (spanned want ys xs) = length xs)"
  using assms(3)
proof (induction xs arbitrary: a)
  case Nil
  then show ?case by (simp add: span_loop.simps)
next
  case (Cons x xs)
  obtain edi ecx zf where r: "repne_scasb m x ct (of_nat (length ys)) False = (edi, ecx, zf)" by (cases "repne_scasb m x ct (of_nat (length ys)) False")
  then have "zf = (x \<in> set ys)" using scasb_mem [OF assms(1,2), of x] by simp
  then show ?case using Cons r by (subst span_loop.simps) (auto simp: algebra_simps)
qed

lemma strchr_loop_cstr:
  "cstr m a xs \<Longrightarrow> strchr_loop m a c = Some (if c \<in> set (xs @ [0]) then a + of_nat (length (takeWhile ((\<noteq>) c) xs)) + 1 else 1)"
proof (induction xs arbitrary: a)
  case Nil
  then show ?case by (simp add: strchr_loop.simps)
next
  case (Cons x xs)
  then show ?case by (subst strchr_loop.simps) (auto simp: algebra_simps)
qed

text \<open>
  On terminated strings the scanning routines, written around \<open>repne scasb\<close>, agree with their list
  definitions: \<open>strlen\<close> is the length, \<open>strspn\<close> and \<open>strcspn\<close> the length of the longest prefix inside and
  outside the set, \<open>strpbrk\<close> the first byte in the set (or NULL) and \<open>strchr\<close> the first
  occurrence of the byte, where 0 finds the terminator.
\<close>

theorem string_scans:
  assumes "cstr m cs xs" "cstr m ct ys" "length ys < 0xFFFFFFFF" "length xs < 0xFFFFFFFF"
  shows "lx_strlen m cs = of_nat (length xs) \<and>
    lx_strspn m cs ct = Some (of_nat (length (takeWhile (\<lambda>x. x \<in> set ys) xs))) \<and>
    lx_strcspn m cs ct = Some (of_nat (length (takeWhile (\<lambda>x. x \<notin> set ys) xs))) \<and>
    lx_strpbrk m cs ct = Some (if set xs \<inter> set ys = {} then 0 else cs + of_nat (length (takeWhile (\<lambda>x. x \<notin> set ys) xs))) \<and>
    lx_strchr m cs c = Some (if c \<in> set (xs @ [0]) then cs + of_nat (length (takeWhile (\<lambda>x. x \<noteq> c) xs)) else 0)"
proof -
  have l: "lx_strlen m ct = of_nat (length ys)" by (rule lx_strlen_cstr [OF assms(2,3)])
  have "length ys < 0x100000000" using assms(3) by simp
  note sp = span_loop_cstr [OF assms(2) this assms(1), folded l]
  have "length (takeWhile (\<lambda>x. x \<notin> set ys) xs) = length xs \<longleftrightarrow> set xs \<inter> set ys = {}"
    by (auto simp: length_takeWhile_eq)
  moreover have "takeWhile ((\<noteq>) c) xs = takeWhile (\<lambda>x. x \<noteq> c) xs" by (intro takeWhile_cong) auto
  ultimately show ?thesis
    unfolding lx_strspn_def lx_strcspn_def lx_strpbrk_def lx_strchr_def sp strchr_loop_cstr [OF assms(1)] lx_strlen_cstr [OF assms(1,4)]
    by simp
qed

text \<open>The string ``abca'' at address 16 and ``ca'' at 32.\<close>

definition sample_bytes :: memory where
  "sample_bytes = (\<lambda>_. 0)(16 := 97, 17 := 98, 18 := 99, 19 := 97, 32 := 99, 33 := 97)"

lemma sample_bytes_cstr: "cstr sample_bytes 16 [97, 98, 99, 97]" "cstr sample_bytes 32 [99, 97]"
  by (simp_all add: sample_bytes_def load8_def)

theorem string_scans_witness:
  "cstr sample_bytes 16 [97, 98, 99, 97] \<and> cstr sample_bytes 32 [99, 97] \<and> lx_strlen sample_bytes 16 = 4 \<and>
   lx_strspn sample_bytes 16 32 = Some 1 \<and> lx_strpbrk sample_bytes 16 32 = Some 16 \<and> lx_strchr sample_bytes 16 98 = Some 17"
  using string_scans [OF sample_bytes_cstr, of 98] sample_bytes_cstr by simp

subsection \<open>Searching for a string\<close>

fun common :: "u8 list \<Rightarrow> u8 list \<Rightarrow> nat" where
  "common [] ys = 0"
| "common (x # xs) [] = 0"
| "common (x # xs) (y # ys) = (if x = y then Suc (common xs ys) else 0)"

lemma cmpsb_cstr:
  "cstr m a xs \<Longrightarrow> cstr m b ys \<Longrightarrow> length ys < 0x100000000 \<Longrightarrow> (ys = [] \<longrightarrow> fst fl) \<Longrightarrow>
   \<exists>lt. repe_cmpsb m a b (of_nat (length ys)) fl =
     (if prefix ys xs then (a + of_nat (length ys), True, lt) else (a + of_nat (common xs ys) + 1, False, lt))"
proof (induction xs ys arbitrary: a b fl rule: common.induct)
  case (1 ys)
  then show ?case
  proof (cases ys)
    case (Cons y zs)
    have nz: "(of_nat (length (y # zs)) :: u32) \<noteq> 0" using 1(3) Cons unat_of_nat_u32 [of "length (y # zs)"] by auto
    then show ?thesis using 1 Cons by (subst repe_cmpsb.simps) auto
  qed (subst repe_cmpsb.simps, cases fl, auto)
next
  case (2 x xs)
  then show ?case by (subst repe_cmpsb.simps) (cases fl, auto)
next
  case (3 x xs y ys)
  have nz: "(of_nat (length (y # ys)) :: u32) \<noteq> 0" using "3.prems"(3) unat_of_nat_u32 [of "length (y # ys)"] by auto
  have d: "of_nat (length (y # ys)) - 1 = (of_nat (length ys) :: u32)" by simp
  show ?case
  proof (cases "x = y")
    case True
    have "\<exists>lt. repe_cmpsb m (a + 1) (b + 1) (of_nat (length ys)) (True, False) =
       (if prefix ys xs then (a + 1 + of_nat (length ys), True, lt) else (a + 1 + of_nat (common xs ys) + 1, False, lt))"
      using "3.prems" True by (intro "3.IH") auto
    then show ?thesis using "3.prems" True nz d by (subst repe_cmpsb.simps) (auto simp: algebra_simps)
  next
    case False
    then show ?thesis using "3.prems" nz by (subst repe_cmpsb.simps) auto
  qed
qed

lemma common_load:
  "cstr m a xs \<Longrightarrow> \<not> prefix ys xs \<Longrightarrow> load8 m (a + of_nat (common xs ys)) = 0 \<longleftrightarrow> prefix xs ys"
  by (induction xs ys arbitrary: a rule: common.induct) (auto simp: add.assoc [symmetric])

text \<open>The first place where \<open>ys\<close> occurs in \<open>xs\<close>.\<close>

definition first_occurrence :: "u8 list \<Rightarrow> u8 list \<Rightarrow> nat \<Rightarrow> bool" where
  "first_occurrence ys xs i \<longleftrightarrow> i \<le> length xs \<and> prefix ys (drop i xs) \<and> (\<forall>j < i. \<not> prefix ys (drop j xs))"

lemma first_occurrence_Cons:
  "\<not> prefix ys (x # xs) \<Longrightarrow> first_occurrence ys (x # xs) (Suc i) \<longleftrightarrow> first_occurrence ys xs i"
  unfolding first_occurrence_def by (force simp: less_Suc_eq_0_disj)

lemma strstr_loop_cstr:
  assumes ys: "cstr m b ys" "length ys < 0x100000000"
  shows "cstr m a xs \<Longrightarrow> (ys = [] \<longrightarrow> zf) \<Longrightarrow>
    (\<exists>i. first_occurrence ys xs i \<and> strstr_loop m b (of_nat (length ys)) zf a = Some (a + of_nat i)) \<or>
    \<not> sublist ys xs \<and> strstr_loop m b (of_nat (length ys)) zf a = Some 0"
proof (induction xs arbitrary: a zf)
  case Nil
  obtain lt where c: "repe_cmpsb m a b (of_nat (length ys)) (zf, False) =
      (if prefix ys [] then (a + of_nat (length ys), True, lt) else (a + of_nat (common [] ys) + 1, False, lt))"
    using cmpsb_cstr [OF Nil(1) ys, of "(zf, False)"] Nil(2) by auto
  show ?case using Nil c by (cases "ys = []") (auto simp: strstr_loop.simps [of m b _ _ a] first_occurrence_def)
next
  case (Cons x xs)
  obtain lt where c: "repe_cmpsb m a b (of_nat (length ys)) (zf, False) =
      (if prefix ys (x # xs) then (a + of_nat (length ys), True, lt) else (a + of_nat (common (x # xs) ys) + 1, False, lt))"
    using cmpsb_cstr [OF Cons.prems(1) ys, of "(zf, False)"] Cons.prems(2) by auto
  show ?case
  proof (cases "prefix ys (x # xs)")
    case True
    then have "first_occurrence ys (x # xs) 0" by (simp add: first_occurrence_def)
    moreover have "strstr_loop m b (of_nat (length ys)) zf a = Some (a + of_nat 0)"
      using c True by (simp add: strstr_loop.simps [of m b _ _ a])
    ultimately show ?thesis by blast
  next
    case False
    note cl = common_load [OF Cons.prems(1) False]
    show ?thesis
    proof (cases "prefix (x # xs) ys")
      case True
      then have "length (x # xs) < length ys" using False by (metis prefix_length_less prefix_order.less_le)
      then have "\<not> sublist ys (x # xs)" using sublist_length_le leD by blast
      moreover have "strstr_loop m b (of_nat (length ys)) zf a = Some 0"
        using c cl True False by (subst strstr_loop.simps) (simp only: if_False prod.case add_diff_cancel_right', simp)
      ultimately show ?thesis by blast
    next
      case nz: False
      have "ys \<noteq> []" using False by auto
      have "strstr_loop m b (of_nat (length ys)) zf a = strstr_loop m b (of_nat (length ys)) False (a + 1)"
        using c cl nz False by (subst strstr_loop.simps) (simp only: if_False prod.case add_diff_cancel_right')
      then have eq: "strstr_loop m b (of_nat (length ys)) zf a = r" if "strstr_loop m b (of_nat (length ys)) False (a + 1) = r" for r
        using that by simp
      have sub: "sublist ys (x # xs) \<longleftrightarrow> sublist ys xs" using False by (auto simp: sublist_Cons_right)
      have "(\<exists>i. first_occurrence ys xs i \<and> strstr_loop m b (of_nat (length ys)) False (a + 1) = Some (a + 1 + of_nat i)) \<or>
          \<not> sublist ys xs \<and> strstr_loop m b (of_nat (length ys)) False (a + 1) = Some 0"
        using Cons.prems(1) \<open>ys \<noteq> []\<close> by (intro Cons.IH) simp_all
      then show ?thesis
      proof (elim disjE exE conjE)
        fix i assume "first_occurrence ys xs i" "strstr_loop m b (of_nat (length ys)) False (a + 1) = Some (a + 1 + of_nat i)"
        then show ?thesis using eq first_occurrence_Cons [OF False, of i] by (intro disjI1 exI [of _ "Suc i"]) (simp add: add.assoc)
      qed (use eq sub in blast)
    qed
  qed
qed

text \<open>
  Property C37.  \<open>strstr\<close> always returns on terminated strings: a pointer to the first occurrence of \<open>ct\<close> in
  \<open>cs\<close>, or NULL when \<open>ct\<close> does not occur; the empty string occurs at the start.
\<close>

theorem strstr_first:
  assumes "cstr m cs xs" "cstr m ct ys" "length ys < 0xFFFFFFFF"
  shows "(\<exists>i. first_occurrence ys xs i \<and> lx_strstr m cs ct = Some (cs + of_nat i)) \<or>
    \<not> sublist ys xs \<and> lx_strstr m cs ct = Some 0"
proof -
  have l: "lx_strlen m ct = of_nat (length ys)" by (rule lx_strlen_cstr [OF assms(2,3)])
  have "ys = [] \<longrightarrow> (of_nat (length ys) :: u32) = 0" by simp
  then show ?thesis using strstr_loop_cstr [OF assms(2) _ assms(1), of "of_nat (length ys) = (0 :: u32)"] assms(3)
    unfolding lx_strstr_def l Let_def by simp
qed

theorem strstr_first_witness:
  "cstr sample_bytes 16 [97, 98, 99, 97] \<and> cstr sample_bytes 32 [99, 97] \<and> lx_strstr sample_bytes 16 32 = Some 18"
proof -
  have "sublist [99, 97] [97, 98, 99, 97 :: u8]" by (simp add: sublist_code)
  then obtain i where i: "first_occurrence [99, 97] [97, 98, 99, 97] i" "lx_strstr sample_bytes 16 32 = Some (16 + of_nat i)"
    using strstr_first [OF sample_bytes_cstr] by (simp del: One_nat_def) blast
  then have "i < 5" "prefix [99, 97] (drop i [97, 98, 99, 97 :: u8])" by (simp_all add: first_occurrence_def)
  then have "i = 2" by (auto simp: less_Suc_eq numeral_eq_Suc)
  then show ?thesis using i(2) sample_bytes_cstr by simp
qed

subsection \<open>\<open>memmove\<close>\<close>

lemma of_nat_Suc_u32: "Suc n < 0x100000000 \<Longrightarrow> (of_nat (Suc n) :: u32) \<noteq> 0"
  using unat_of_nat_u32 [of "Suc n"] by (metis Suc_neq_Zero unat_0)

lemma unat_sub_offset: "unat (x - a :: u32) < n \<Longrightarrow> unat a + n \<le> 0x100000000 \<Longrightarrow> unat (a + (x - a)) = unat a + unat (x - a)"
  by (intro unat_add_no_wrap) linarith

text \<open>Forwards, a byte is read before it is overwritten when the destination is not behind the source.\<close>

lemma movsb_up:
  assumes "unat d \<le> unat s" "unat s + n \<le> 0x100000000" "n < 0x100000000"
  shows "rep_movsb 1 m s d (of_nat n) x = (if in_range d n x then m (s + (x - d)) else m x)"
  using assms
proof (induction n arbitrary: m s d)
  case 0
  then show ?case by (simp add: rep_movsb.simps in_range_def)
next
  case (Suc n)
  let ?m = "store8 m d (load8 m s)"
  have step: "rep_movsb 1 m s d (of_nat (Suc n)) = rep_movsb 1 ?m (s + 1) (d + 1) (of_nat n)"
    using of_nat_Suc_u32 [OF Suc.prems(3)] by (subst rep_movsb.simps) simp
  show ?case
  proof (cases "n = 0")
    case True
    then show ?thesis unfolding step by (auto simp: rep_movsb.simps store8_def load8_def in_range_def unat_eq_zero)
  next
    case False
    have u: "unat (s + 1) = unat s + 1" "unat (d + 1) = unat d + 1" using Suc.prems False by (simp_all add: unat_add_u32)
    have IH: "rep_movsb 1 ?m (s + 1) (d + 1) (of_nat n) x = (if in_range (d + 1) n x then ?m (s + 1 + (x - (d + 1))) else ?m x)"
      using Suc.prems u by (intro Suc.IH) simp_all
    have src: "s + (x - d) \<noteq> d" if "in_range d (Suc n) x" "x \<noteq> d"
    proof -
      have lt: "unat (x - d) < Suc n" using that(1) by (simp add: in_range_def)
      have pos: "0 < unat (x - d)" using that(2) by (simp add: unat_gt_0)
      have "unat (s + (x - d)) = unat s + unat (x - d)" using lt Suc.prems(2) by (intro unat_add_no_wrap) linarith
      then have "unat (s + (x - d)) \<noteq> unat d" using pos Suc.prems(1) by linarith
      then show ?thesis by metis
    qed
    have "\<not> in_range (d + 1) n d" using Suc.prems by (simp add: in_range_def)
    then show ?thesis unfolding step IH using src by (auto simp: store8_def load8_def in_range_Suc)
  qed
qed

lemma in_range_Suc_last:
  assumes "n < 0x100000000"
  shows "in_range a (Suc n) x \<longleftrightarrow> x = a + of_nat n \<or> in_range a n x"
proof -
  have "unat (x - a) = n \<longleftrightarrow> x - a = of_nat n" using unat_of_nat_u32 [OF assms] by (metis u32_eq_iff)
  also have "\<dots> \<longleftrightarrow> x = a + of_nat n" by (simp add: diff_eq_eq add.commute)
  finally show ?thesis by (auto simp: in_range_def less_Suc_eq)
qed

text \<open>Backwards, when the destination is not before the source.\<close>

lemma movsb_down:
  assumes "unat s \<le> unat d" "unat d + n \<le> 0x100000000" "n < 0x100000000"
  shows "rep_movsb (- 1) m (s + of_nat n - 1) (d + of_nat n - 1) (of_nat n) x = (if in_range d n x then m (s + (x - d)) else m x)"
  using assms
proof (induction n arbitrary: m)
  case 0
  then show ?case by (simp add: rep_movsb.simps in_range_def)
next
  case (Suc n)
  let ?m = "store8 m (d + of_nat n) (load8 m (s + of_nat n))"
  have a: "s + of_nat (Suc n) - 1 = s + of_nat n" "d + of_nat (Suc n) - 1 = d + of_nat n" by simp_all
  have step: "rep_movsb (- 1) m (s + of_nat n) (d + of_nat n) (of_nat (Suc n)) =
      rep_movsb (- 1) ?m (s + of_nat n - 1) (d + of_nat n - 1) (of_nat n)"
    using of_nat_Suc_u32 [OF Suc.prems(3)] by (subst rep_movsb.simps) simp
  have IH: "rep_movsb (- 1) ?m (s + of_nat n - 1) (d + of_nat n - 1) (of_nat n) x = (if in_range d n x then ?m (s + (x - d)) else ?m x)"
    using Suc.prems by (intro Suc.IH) simp_all
  have dn: "unat (d + of_nat n) = unat d + n" using Suc.prems by (simp add: unat_add_u32 unat_of_nat_u32)
  have src: "s + (x - d) \<noteq> d + of_nat n" if "in_range d n x"
  proof -
    have lt: "unat (x - d) < n" using that by (simp add: in_range_def)
    have "unat (s + (x - d)) = unat s + unat (x - d)" using lt Suc.prems by (intro unat_add_no_wrap) linarith
    then have "unat (s + (x - d)) \<noteq> unat (d + of_nat n)" using lt dn Suc.prems(1) by linarith
    then show ?thesis by metis
  qed
  have "\<not> in_range d n (d + of_nat n)" using Suc.prems by (simp add: in_range_def unat_of_nat_u32)
  then show ?case unfolding a step IH using src Suc.prems(3)
    by (auto simp: store8_def load8_def in_range_Suc_last)
qed

text \<open>
  \<open>memmove\<close> copies the \<open>n\<close> source bytes as they were before the call, also when the two ranges
  overlap either way, and changes no byte outside the destination.  (The ranges do not wrap around the
  end of memory.)
\<close>

theorem memmove_copies:
  assumes "unat src + unat n \<le> 0x100000000" "unat dest + unat n \<le> 0x100000000" "lx_memmove m dest src n = (r, m')"
  shows "r = dest \<and> m' x = (if in_range dest (unat n) x then m (src + (x - dest)) else m x)"
proof (cases "dest < src")
  case True
  then have "unat dest \<le> unat src" by (simp add: u32_less_iff)
  from movsb_up [OF this assms(1) unat_u32_less] show ?thesis using True assms(3) by (auto simp: lx_memmove_def)
next
  case False
  then have "unat src \<le> unat dest" by (simp add: u32_less_iff)
  from movsb_down [OF this assms(2) unat_u32_less] show ?thesis using False assms(3) by (auto simp: lx_memmove_def)
qed

theorem memmove_copies_witness:
  "snd (lx_memmove sample_bytes 17 16 3) 17 = 97 \<and> snd (lx_memmove sample_bytes 17 16 3) 19 = 99 \<and> snd (lx_memmove sample_bytes 17 16 3) 20 = 0"
  using memmove_copies [OF _ _ prod.collapse [symmetric], of 16 3 17 sample_bytes 17] memmove_copies [OF _ _ prod.collapse [symmetric], of 16 3 17 sample_bytes 19]
    memmove_copies [OF _ _ prod.collapse [symmetric], of 16 3 17 sample_bytes 20]
  by (simp add: in_range_def sample_bytes_def)

subsection \<open>\<open>strtok\<close>\<close>

lemma cstr_append: "cstr m a (us @ vs) \<Longrightarrow> cstr m (a + of_nat (length us)) vs"
  by (induction us arbitrary: a) (auto simp: add.assoc [symmetric])

lemma cstr_store_other:
  "(\<And>k. k \<le> length xs \<Longrightarrow> a + of_nat k \<noteq> b) \<Longrightarrow> cstr (store8 m b v) a xs = cstr m a xs"
proof (induction xs arbitrary: a)
  case Nil
  from Nil [of 0] show ?case by (simp add: load8_def store8_def)
next
  case (Cons x xs)
  have "a + 1 + of_nat k \<noteq> b" if "k \<le> length xs" for k using Cons.prems [of "Suc k"] that by (simp add: add.assoc)
  then show ?case using Cons.IH [of "a + 1"] Cons.prems [of 0] by (simp add: load8_def store8_def)
qed

lemma of_nat_inj_u32: "j < 0x100000000 \<Longrightarrow> k < 0x100000000 \<Longrightarrow> (of_nat j :: u32) = of_nat k \<longleftrightarrow> j = k"
  by (metis unat_of_nat_u32)

lemma cstr_cut:
  assumes "cstr m a (us @ v # vs)" "length us < 0x100000000"
  shows "cstr (store8 m (a + of_nat (length us)) 0) a us"
  using assms
proof (induction us arbitrary: a)
  case Nil
  then show ?case by (simp add: load8_def store8_def)
next
  case (Cons u us)
  have "(of_nat (Suc (length us)) :: u32) \<noteq> 0" using of_nat_Suc_u32 [of "length us"] Cons.prems(2) by simp
  then have "load8 (store8 m (a + of_nat (length (u # us))) 0) a = load8 m a" by (simp add: load8_def store8_def)
  moreover have "a + of_nat (length (u # us)) = a + 1 + of_nat (length us)" by simp
  ultimately show ?case using Cons.prems Cons.IH [of "a + 1"] by (simp only: append_Cons cstr.simps) simp
qed

text \<open>Cutting off the token \<open>tok\<close> in front of \<open>more\<close>.\<close>

lemma strtok_cut_token:
  assumes cr: "cstr m r (tok @ more)" and tok: "tok \<noteq> []" and r0: "r \<noteq> 0" and lens: "length tok + length more < 0x100000000"
  shows "\<exists>p m'. strtok_cut m r (r + of_nat (length tok) + 1, more = []) = (r, p, m') \<and> cstr m' r tok \<and>
    (case more of [] \<Rightarrow> p = 0 \<and> m' = m
     | d # left \<Rightarrow> p = r + of_nat (length tok) + 1 \<and> cstr m' p left \<and> m' = store8 m (p - 1) 0)"
proof (cases more)
  case Nil
  moreover have "load8 m r \<noteq> 0" using cr tok by (cases tok) auto
  ultimately show ?thesis using r0 cr by (simp add: strtok_cut_def)
next
  case (Cons d left)
  let ?q = "r + of_nat (length tok)" and ?m = "store8 m (r + of_nat (length tok)) 0"
  have cq: "cstr m ?q (d # left)" using cr Cons cstr_append by metis
  have cut: "cstr ?m r tok" using cr Cons lens by (intro cstr_cut) auto
  have "?q + 1 + of_nat k \<noteq> ?q" if "k \<le> length left" for k
    using of_nat_Suc_u32 [of k] that lens Cons by (simp add: add.assoc)
  then have left: "cstr ?m (?q + 1) left" using cq by (subst cstr_store_other) simp_all
  have "load8 ?m r \<noteq> 0" using cut tok by (cases tok) auto
  then have "strtok_cut m r (r + of_nat (length tok) + 1, more = []) = (r, ?q + 1, ?m)"
    using Cons cq r0 by (auto simp: strtok_cut_def Let_def)
  then show ?thesis using Cons cut left by simp
qed

text \<open>
  \<open>strtok\<close> on a string \<open>xs\<close> (given as its argument, or with NULL as the pointer kept from the call
  before): after the leading delimiters, the longest run of other bytes is returned as a terminated
  string of its own and the kept pointer is the terminated rest behind the delimiter that was cut; when only
  delimiters are left it returns NULL, and with the string used up the kept pointer is NULL.
\<close>

theorem strtok_splits:
  assumes src: "a = (if s \<noteq> 0 then s else keep)" "a \<noteq> 0" "cstr m a xs" "unat a + length xs < 0x100000000"
    and ct: "cstr m ct ys" "ys \<noteq> []" "length ys < 0xFFFFFFFF"
    and parts: "pre = takeWhile (\<lambda>x. x \<in> set ys) xs" "rest = dropWhile (\<lambda>x. x \<in> set ys) xs"
      "tok = takeWhile (\<lambda>x. x \<notin> set ys) rest" "more = dropWhile (\<lambda>x. x \<notin> set ys) rest"
  shows "\<exists>r p m'. lx_strtok m keep s ct = Some (r, p, m') \<and>
    (if rest = [] then r = 0 \<and> p = 0 \<and> m' = m
     else r = a + of_nat (length pre) \<and> r \<noteq> 0 \<and> tok \<noteq> [] \<and> cstr m' r tok \<and>
       (case more of [] \<Rightarrow> p = 0 \<and> m' = m
        | d # left \<Rightarrow> p = r + of_nat (length tok) + 1 \<and> d \<in> set ys \<and> cstr m' p left \<and> m' = store8 m (p - 1) 0))"
proof -
  have l: "lx_strlen m ct = of_nat (length ys)" by (rule lx_strlen_cstr [OF ct(1,3)])
  have ly: "length ys < 0x100000000" "(of_nat (length ys) :: u32) \<noteq> 0"
    using ct(2,3) unat_of_nat_u32 [of "length ys"] by auto
  note sp = span_loop_cstr [OF ct(1) ly(1)]
  have xs: "xs = pre @ rest" "rest = tok @ more" using parts by simp_all
  have s1: "span_loop True m ct (of_nat (length ys)) a = Some (a + of_nat (length pre) + 1, rest = [])"
  proof -
    have "length pre = length xs \<longleftrightarrow> rest = []" using xs(1) by auto
    then show ?thesis using sp [OF src(3), of True] parts(1) by simp
  qed
  define r where "r = a + of_nat (length pre)"
  have cr: "cstr m r rest" unfolding r_def using src(3) xs(1) cstr_append by metis
  have start: "lx_strtok m keep s ct = (if rest = [] then Some (0, 0, m)
     else if load8 m r = 0 then Some (0, 0, m) else map_option (strtok_cut m r) (span_loop False m ct (of_nat (length ys)) r))"
    using src(1,2) ly(2) s1 by (auto simp: lx_strtok_def l r_def Let_def)
  show ?thesis
  proof (cases "rest = []")
    case True
    then show ?thesis using start by simp
  next
    case False
    obtain c rest' where rest: "rest = c # rest'" using False by (cases rest) auto
    have "dropWhile (\<lambda>x. x \<in> set ys) xs = c # rest'" using parts(2) rest by simp
    then have c: "c \<notin> set ys" "c \<noteq> 0" "load8 m r = c" using rest cr by (auto simp: dropWhile_eq_Cons_conv)
    then have tok: "tok \<noteq> []" using parts(3) rest by simp
    have ur: "unat r = unat a + length pre"
      unfolding r_def using src(4) xs(1) by (simp add: unat_add_u32 unat_of_nat_u32)
    have r0: "r \<noteq> 0"
    proof
      assume "r = 0"
      then have "unat a = 0" using ur by simp
      then show False using src(2) by (simp add: unat_eq_zero)
    qed
    have s2: "span_loop False m ct (of_nat (length ys)) r = Some (r + of_nat (length tok) + 1, more = [])"
    proof -
      have "length tok = length rest \<longleftrightarrow> more = []" using xs(2) by auto
      then show ?thesis using sp [OF cr, of False] parts(3) by simp
    qed
    have S: "lx_strtok m keep s ct = Some (strtok_cut m r (r + of_nat (length tok) + 1, more = []))"
      using start False c s2 by simp
    have "length tok + length more < 0x100000000" using src(4) xs by simp
    then obtain p m' where "strtok_cut m r (r + of_nat (length tok) + 1, more = []) = (r, p, m')" "cstr m' r tok"
        "case more of [] \<Rightarrow> p = 0 \<and> m' = m | d # left \<Rightarrow> p = r + of_nat (length tok) + 1 \<and> cstr m' p left \<and> m' = store8 m (p - 1) 0"
      using strtok_cut_token [OF cr [unfolded xs(2)] tok r0] by blast
    moreover have "d \<in> set ys" if "more = d # left" for d left using parts(4) [symmetric] that by (auto simp: dropWhile_eq_Cons_conv)
    ultimately show ?thesis using S False r0 tok by (cases more) (auto simp: r_def)
  qed
qed

theorem strtok_splits_witness:
  "\<exists>r p m'. lx_strtok sample_bytes 0 16 32 = Some (r, p, m') \<and> r = 17 \<and> p = 19 \<and> cstr m' 17 [98] \<and> cstr m' 19 [97]"
proof -
  have d: "dropWhile (\<lambda>x. x \<in> set [99, 97 :: u8]) [97, 98, 99, 97] = [98, 99, 97]"
    "takeWhile (\<lambda>x. x \<notin> set [99, 97 :: u8]) [98, 99, 97] = [98]" "dropWhile (\<lambda>x. x \<notin> set [99, 97 :: u8]) [98, 99, 97] = [99, 97]"
    "takeWhile (\<lambda>x. x \<in> set [99, 97 :: u8]) [97, 98, 99, 97] = [97]" by simp_all
  show ?thesis
    using strtok_splits [OF refl _ _ _ sample_bytes_cstr(2) _ _ refl refl refl refl, of 16 0 "[97, 98, 99, 97]"] sample_bytes_cstr(1)
    unfolding d by (simp del: set_simps)
qed

subsection \<open>Copying and comparing strings\<close>

text \<open>The memory with the bytes \<open>bs\<close> written at \<open>a\<close>.\<close>

definition write_at :: "memory \<Rightarrow> u32 \<Rightarrow> u8 list \<Rightarrow> memory" where
  "write_at m a bs = (\<lambda>x. if in_range a (length bs) x then bs ! unat (x - a) else m x)"

lemma write_at_Cons:
  assumes "length bs < 0x100000000"
  shows "write_at (store8 m a b) (a + 1) bs = write_at m a (b # bs)"
proof
  fix x
  have n: "\<not> in_range (a + 1) (length bs) a" using assms by (simp add: in_range_def)
  show "write_at (store8 m a b) (a + 1) bs x = write_at m a (b # bs) x"
  proof (cases "x = a")
    case True
    then show ?thesis using n by (simp add: write_at_def store8_def in_range_Suc)
  next
    case False
    then have "x - a \<noteq> 0" by simp
    moreover have "x - (a + 1) = x - a - 1" by simp
    ultimately have "unat (x - a) = Suc (unat (x - (a + 1)))" by (metis Suc_pred unat_gt_0 unat_pred_u32 One_nat_def)
    then show ?thesis using False by (simp add: write_at_def store8_def in_range_Suc)
  qed
qed

lemma cstr_write_other:
  assumes "\<And>x. in_range a (Suc (length xs)) x \<Longrightarrow> m' x = m x"
  shows "cstr m' a xs = cstr m a xs"
  using assms
proof (induction xs arbitrary: a)
  case Nil
  then show ?case by (simp add: load8_def in_range_def)
next
  case (Cons x xs)
  have "m' a = m a" by (rule Cons.prems) (simp add: in_range_def)
  moreover have "m' z = m z" if "in_range (a + 1) (Suc (length xs)) z" for z
    using that by (intro Cons.prems) (simp add: in_range_Suc [of a])
  ultimately show ?case using Cons.IH [of "a + 1"] by (simp add: load8_def)
qed

lemma cstr_next:
  assumes "cstr m s (x # xs)" "sep d (Suc (Suc (length xs))) s (Suc (Suc (length xs)))"
  shows "cstr (store8 m d v) (s + 1) xs" "sep (d + 1) (Suc (length xs)) (s + 1) (Suc (length xs))"
proof -
  let ?n = "Suc (length xs)"
  have sp: "Suc ?n \<le> unat (s - d)" "Suc ?n \<le> unat (d - s)" using assms(2) by (simp_all add: sep_def)
  have "s + 1 - (d + 1) = s - d" "d + 1 - (s + 1) = d - s" by simp_all
  then show "sep (d + 1) ?n (s + 1) ?n" using sp unfolding sep_def by (metis Suc_leD)
  show "cstr (store8 m d v) (s + 1) xs"
  proof (subst cstr_write_other)
    fix z assume "in_range (s + 1) (Suc (length xs)) z"
    then have "in_range s (Suc ?n) z" by (simp add: in_range_Suc [of s])
    moreover have "in_range d (Suc ?n) d" by (simp add: in_range_def)
    ultimately show "store8 m d v z = m z" using sep_disjoint [OF assms(2), of d] by (auto simp: store8_def)
  qed (use assms(1) in simp)
qed

lemma copy_to_nul_cstr:
  "cstr m s xs \<Longrightarrow> sep d (Suc (length xs)) s (Suc (length xs)) \<Longrightarrow> Suc (length xs) < 0x100000000 \<Longrightarrow>
   copy_to_nul m s d = Some (write_at m d (xs @ [0]))"
proof (induction xs arbitrary: m s d)
  case Nil
  then show ?case using write_at_Cons [of "[]" m d 0] by (simp add: copy_to_nul.simps write_at_def in_range_def)
next
  case (Cons x xs)
  let ?m = "store8 m d x"
  note nx = cstr_next [OF Cons.prems(1,2) [unfolded length_Cons]]
  from Cons.IH [OF nx] Cons.prems(3) have "copy_to_nul ?m (s + 1) (d + 1) = Some (write_at ?m (d + 1) (xs @ [0]))" by simp
  then show ?case using Cons.prems(1,3) write_at_Cons [of "xs @ [0]" m d x] by (subst copy_to_nul.simps) auto
qed

lemma cstr_write_at: "0 \<notin> set xs \<Longrightarrow> Suc (length xs) < 0x100000000 \<Longrightarrow> cstr (write_at m a (xs @ [0])) a xs"
proof (induction xs arbitrary: m a)
  case Nil
  then show ?case by (simp add: write_at_def load8_def in_range_def)
next
  case (Cons x xs)
  have eq: "write_at m a ((x # xs) @ [0]) = write_at (store8 m a x) (a + 1) (xs @ [0])" using Cons.prems write_at_Cons [of "xs @ [0]" m a x] by simp
  have "write_at m a ((x # xs) @ [0]) a = x" by (simp add: write_at_def in_range_def)
  then show ?case using Cons.IH [of "store8 m a x" "a + 1"] Cons.prems unfolding eq [symmetric] by (auto simp: load8_def)
qed

lemma strcpy_cstr:
  assumes "cstr m src xs" "sep dest (Suc (length xs)) src (Suc (length xs))" "Suc (length xs) < 0x100000000"
  shows "lx_strcpy m dest src = Some (dest, write_at m dest (xs @ [0]))"
  using copy_to_nul_cstr [OF assms] by (simp add: lx_strcpy_def)

lemma strcat_cstr:
  assumes "cstr m dest ys" "length ys < 0xFFFFFFFF" "cstr m src xs"
    "sep (dest + of_nat (length ys)) (Suc (length xs)) src (Suc (length xs))" "Suc (length xs) < 0x100000000"
  shows "lx_strcat m dest src = Some (dest, write_at m (dest + of_nat (length ys)) (xs @ [0]))"
proof -
  have "length ys < unat (0xFFFFFFFF :: u32)" using assms(2) by simp
  from scasb_nul [OF assms(1) this] show ?thesis using copy_to_nul_cstr [OF assms(3-5)] by (simp add: lx_strcat_def)
qed

lemma copy_counted_short:
  "copy_to_nul m s d = Some m' \<Longrightarrow> cstr m s xs \<Longrightarrow> sep d (Suc (length xs)) s (Suc (length xs)) \<Longrightarrow> length xs < unat cnt \<Longrightarrow>
   unat cnt < 0x80000000 \<Longrightarrow> fst (copy_counted m s d cnt) = m' \<and> fst (snd (snd (copy_counted m s d cnt))) = d + of_nat (length xs) + 1"
proof (induction xs arbitrary: m s d cnt)
  case Nil
  have "\<not> sint (cnt - 1) < 0" using Nil by (auto simp: sint_neg_iff unat_pred_u32 unat_gt_0)
  then show ?case using Nil(1,2) by (subst copy_counted.simps, subst (2) copy_counted.simps) (auto simp: copy_to_nul.simps)
next
  case (Cons x xs)
  let ?m = "store8 m d x" and ?n = "Suc (length xs)"
  have c: "unat (cnt - 1) = unat cnt - 1" using Cons.prems(4) by (intro unat_pred_u32) auto
  have js: "\<not> sint (cnt - 1) < 0" using Cons.prems(5) c by (simp add: sint_neg_iff)
  note nx = cstr_next [OF Cons.prems(2,3) [unfolded length_Cons]]
  have x: "load8 m s = x" "x \<noteq> 0" using Cons.prems(2) by auto
  have "copy_to_nul ?m (s + 1) (d + 1) = Some m'" using Cons.prems(1) x by (subst (asm) copy_to_nul.simps) auto
  from Cons.IH [OF this nx] c Cons.prems(4,5)
  have "fst (copy_counted ?m (s + 1) (d + 1) (cnt - 1)) = m' \<and> fst (snd (snd (copy_counted ?m (s + 1) (d + 1) (cnt - 1)))) = d + 1 + of_nat (length xs) + 1" by simp
  moreover have "copy_counted m s d cnt = copy_counted ?m (s + 1) (d + 1) (cnt - 1)" using js x by (subst copy_counted.simps) simp
  ultimately show ?case by (simp add: add.assoc add.commute)
qed

text \<open>
  \<open>strncat\<close> writes a second terminator behind the first when the source is shorter than the count: one byte more
  than the strings need.
\<close>

lemma strncat_overrun:
  assumes "cstr m dest ys" "length ys < 0xFFFFFFFF" "cstr m src xs"
    "sep (dest + of_nat (length ys)) (Suc (length xs)) src (Suc (length xs))" "Suc (length xs) < 0x100000000"
    "length xs < unat cnt" "unat cnt < 0x80000000"
  shows "snd (lx_strncat m dest src cnt) (dest + of_nat (length ys) + of_nat (length xs) + 1) = 0"
proof -
  have "length ys < unat (0xFFFFFFFF :: u32)" using assms(2) by simp
  note e = scasb_nul [OF assms(1) this, of False]
  obtain m' nul edi ecx where c: "copy_counted m src (dest + of_nat (length ys)) cnt = (m', nul, edi, ecx)"
    by (cases "copy_counted m src (dest + of_nat (length ys)) cnt")
  have "edi = dest + of_nat (length ys) + of_nat (length xs) + 1"
    using copy_counted_short [OF copy_to_nul_cstr [OF assms(3-5)] assms(3,4,6,7)] c by simp
  then show ?thesis using e c by (simp add: lx_strncat_def store8_def)
qed

text \<open>\<open>strcmp\<close> gives 0 on equal strings only, and otherwise 1 or -1.\<close>

lemma lx_strcmp_cstr:
  "cstr m a xs \<Longrightarrow> cstr m b ys \<Longrightarrow> \<exists>r. lx_strcmp m a b = Some r \<and> (r = 0 \<longleftrightarrow> xs = ys) \<and> r \<in> {0, 1, - 1}"
proof (induction xs arbitrary: a b ys)
  case Nil
  then show ?case by (cases ys) (auto simp: lx_strcmp.simps [of m a b])
next
  case (Cons x xs)
  show ?case
  proof (cases ys)
    case Nil
    then show ?thesis using Cons.prems by (auto simp: lx_strcmp.simps [of m a b])
  next
    case (Cons y zs)
    then show ?thesis using Cons.prems Cons.IH [of "a + 1" "b + 1" zs] by (auto simp: lx_strcmp.simps [of m a b])
  qed
qed

text \<open>With a count of 0, \<open>memcmp\<close> returns what the flags happen to say.\<close>

lemma memcmp_zero_count: "lx_memcmp (zf, lt) m cs ct 0 = (if zf then 0 else if lt then 1 else - 1)"
  by (simp add: lx_memcmp_def repe_cmpsb.simps)

end
