(* ===== verification/Linux_Time.thy ===== *)
theory Linux_Time
  imports Prelude
begin

unbundle bit_operations_syntax

section \<open>\<open>kernel_mktime\<close> of linux-0.01 (\<open>kernel/mktime.c\<close>)\<close>

text \<open>
  The conversion of the clock's calendar date to seconds since 1970, and its equivalence with the
  Gregorian calendar for the dates that a signed 32-bit number of seconds can hold.
\<close>

record tm =
  tm_sec :: u32
  tm_min :: u32
  tm_hour :: u32
  tm_mday :: u32
  tm_mon :: u32
  tm_year :: u32
  tm_wday :: u32
  tm_yday :: u32
  tm_isdst :: u32

definition MINUTE :: u32 where "MINUTE = 60"
definition HOUR :: u32 where "HOUR = 60 * MINUTE"
definition DAY :: u32 where "DAY = 24 * HOUR"
definition YEAR :: u32 where "YEAR = 365 * DAY"

definition month :: "u32 list" where
  "month = [0, DAY * 31, DAY * (31 + 29), DAY * (31 + 29 + 31), DAY * (31 + 29 + 31 + 30),
     DAY * (31 + 29 + 31 + 30 + 31), DAY * (31 + 29 + 31 + 30 + 31 + 30), DAY * (31 + 29 + 31 + 30 + 31 + 30 + 31),
     DAY * (31 + 29 + 31 + 30 + 31 + 30 + 31 + 31), DAY * (31 + 29 + 31 + 30 + 31 + 30 + 31 + 31 + 30),
     DAY * (31 + 29 + 31 + 30 + 31 + 30 + 31 + 31 + 30 + 31),
     DAY * (31 + 29 + 31 + 30 + 31 + 30 + 31 + 31 + 30 + 31 + 30)]"

definition kernel_mktime :: "tm \<Rightarrow> u32 res" where
  "kernel_mktime t =
     (let year = tm_year t - 70;
          res = YEAR * year + DAY * sdivi (year + 1) 4 in
      if sint (tm_mon t) < 0 \<or> 12 \<le> sint (tm_mon t) then Inl (Fault ''month'')
      else let res = res + month ! unat (tm_mon t);
               res = (if sint (tm_mon t) > 1 \<and> smodi (year + 2) 4 \<noteq> 0 then res - DAY else res)
           in Inr (res + DAY * (tm_mday t - 1) + HOUR * tm_hour t + MINUTE * tm_min t + tm_sec t))"

subsection \<open>Reading the clock (\<open>init/main.c\<close>)\<close>

text \<open>
  The CMOS clock is hardware: \<open>cmos\<close> gives the value of a register, in binary coded decimals, as it is read.
  The loop of \<open>time_init\<close> reads all registers again when the seconds have changed meanwhile; \<open>cmos k\<close> are
  the values in its round \<open>k\<close>, and \<open>again k\<close> the second reading of the seconds.
\<close>

definition BCD_TO_BIN :: "u32 \<Rightarrow> u32" where
  "BCD_TO_BIN v = (v AND 15) + signed_drop_bit 4 v * 10"

definition read_clock :: "(u32 \<Rightarrow> u32) \<Rightarrow> tm" where
  "read_clock cmos = \<lparr>tm_sec = cmos 0, tm_min = cmos 2, tm_hour = cmos 4, tm_mday = cmos 7, tm_mon = cmos 8 - 1,
     tm_year = cmos 9, tm_wday = 0, tm_yday = 0, tm_isdst = 0\<rparr>"

partial_function (option) stable_clock :: "(nat \<Rightarrow> u32 \<Rightarrow> u32) \<Rightarrow> (nat \<Rightarrow> u32) \<Rightarrow> nat \<Rightarrow> tm option" where
  "stable_clock cmos again k =
     (if tm_sec (read_clock (cmos k)) \<noteq> again k then stable_clock cmos again (k + 1) else Some (read_clock (cmos k)))"

definition from_bcd :: "tm \<Rightarrow> tm" where
  "from_bcd t = t\<lparr>tm_sec := BCD_TO_BIN (tm_sec t), tm_min := BCD_TO_BIN (tm_min t), tm_hour := BCD_TO_BIN (tm_hour t),
     tm_mday := BCD_TO_BIN (tm_mday t), tm_mon := BCD_TO_BIN (tm_mon t), tm_year := BCD_TO_BIN (tm_year t)\<rparr>"

text \<open>The value stored in \<open>startup_time\<close>.\<close>

definition time_init :: "(nat \<Rightarrow> u32 \<Rightarrow> u32) \<Rightarrow> (nat \<Rightarrow> u32) \<Rightarrow> u32 res" where
  "time_init cmos again = bindr (of_option Diverge (stable_clock cmos again 0)) (\<lambda>t. kernel_mktime (from_bcd t))"

subsection \<open>The Gregorian calendar\<close>

definition leap :: "nat \<Rightarrow> bool" where
  "leap y \<longleftrightarrow> y mod 4 = 0 \<and> (y mod 100 \<noteq> 0 \<or> y mod 400 = 0)"

definition month_days :: "nat \<Rightarrow> nat \<Rightarrow> nat" where
  "month_days y k = [31, if leap y then 29 else 28, 31, 30, 31, 30, 31, 31, 30, 31, 30, 31] ! k"

definition year_days :: "nat \<Rightarrow> nat" where
  "year_days y = (if leap y then 366 else 365)"

text \<open>Seconds from the start of 1970 to a date (month 0 to 11, day 1 to 31).\<close>

definition epoch_seconds :: "nat \<Rightarrow> nat \<Rightarrow> nat \<Rightarrow> nat \<Rightarrow> nat \<Rightarrow> nat \<Rightarrow> int" where
  "epoch_seconds y mon day h mi sec =
     86400 * (int (\<Sum>k \<in> {1970..<y}. year_days k) + int (\<Sum>k < mon. month_days y k) + int day - 1) +
     3600 * int h + 60 * int mi + int sec"

lemma leap_1970:
  assumes "n < 130"
  shows "leap (1970 + n) \<longleftrightarrow> (n + 2) mod 4 = 0"
proof -
  have "(1970 + n) mod 4 = (n + 2) mod 4" by presburger
  moreover have "(1970 + n) mod 100 = (if n < 30 then n + 70 else n - 30)"
  proof (cases "n < 30")
    case False
    then have "1970 + n = (n - 30) + 20 * 100" by simp
    then have "(1970 + n) mod 100 = (n - 30) mod 100" by (simp only: mod_mult_self1)
    then show ?thesis using False assms by simp
  next
    case True
    have "1970 + n = (n + 70) + 19 * 100" by simp
    then have "(1970 + n) mod 100 = (n + 70) mod 100" by (simp only: mod_mult_self1)
    then show ?thesis using True by simp
  qed
  ultimately show ?thesis by (cases "n = 30") (auto simp: leap_def split: if_splits)
qed

lemma years_from_1970: "n \<le> 130 \<Longrightarrow> (\<Sum>k \<in> {1970..<1970 + n}. year_days k) = 365 * n + (n + 1) div 4"
proof (induction n)
  case (Suc n)
  have "(n + 1) div 4 + (if (n + 2) mod 4 = 0 then 1 else 0) = (Suc n + 1) div 4" by presburger
  then have "365 * n + (n + 1) div 4 + year_days (1970 + n) = 365 * Suc n + (Suc n + 1) div 4"
    using leap_1970 [of n] Suc.prems by (simp add: year_days_def split: if_splits)
  moreover have "(\<Sum>k \<in> {1970..<1970 + Suc n}. year_days k) = (\<Sum>k \<in> {1970..<1970 + n}. year_days k) + year_days (1970 + n)"
    unfolding add_Suc_right by (rule sum.atLeastLessThan_Suc) simp
  ultimately show ?case using Suc by simp
qed simp

text \<open>Days before a month in a leap year, as in the table \<open>month\<close>.\<close>

definition leap_days_before :: "nat \<Rightarrow> nat" where
  "leap_days_before mon = [0, 31, 60, 91, 121, 152, 182, 213, 244, 274, 305, 335] ! mon"

lemma month_table:
  assumes "mon < 12"
  shows "month ! mon = of_int (86400 * int (leap_days_before mon))"
proof -
  have "mon \<in> {0, 1, 2, 3, 4, 5, 6, 7, 8, 9, 10, 11}" using assms by (auto simp: less_Suc_eq numeral_eq_Suc)
  then show ?thesis by (auto simp: month_def leap_days_before_def DAY_def HOUR_def MINUTE_def)
qed

lemma months_before:
  assumes "mon < 12"
  shows "int (\<Sum>k < mon. month_days y k) = int (leap_days_before mon) - (if 1 < mon \<and> \<not> leap y then 1 else 0)"
proof -
  have "mon \<in> {0, 1, 2, 3, 4, 5, 6, 7, 8, 9, 10, 11}" using assms by (auto simp: less_Suc_eq numeral_eq_Suc)
  then show ?thesis by (auto simp: leap_days_before_def month_days_def numeral_eq_Suc)
qed

lemma leap_days_bound: "mon < 12 \<Longrightarrow> leap_days_before mon \<le> 335"
  by (auto simp: leap_days_before_def less_Suc_eq numeral_eq_Suc)

lemma sint_of_nat_small: "n < 2 ^ 31 \<Longrightarrow> sint (of_nat n :: u32) = int n"
  by (simp add: sint_u32 unat_of_nat_u32)

lemma sint_of_int_small: "0 \<le> k \<Longrightarrow> k < 2 ^ 31 \<Longrightarrow> sint (of_int k :: u32) = k"
  using sint_of_nat_small [of "nat k"] by simp

lemma mktime_formula:
  assumes "n \<le> 67" "mon < 12" "tm_year t = of_nat (n + 70)" "tm_mon t = of_nat mon" "tm_mday t = of_nat day"
    "tm_hour t = of_nat h" "tm_min t = of_nat mi" "tm_sec t = of_nat sec"
  shows "kernel_mktime t = Inr (of_int (31536000 * int n + 86400 * int ((n + 1) div 4) + 86400 * int (leap_days_before mon)
    - (if 1 < mon \<and> (n + 2) mod 4 \<noteq> 0 then 86400 else 0) + 86400 * (int day - 1) + 3600 * int h + 60 * int mi + int sec))"
proof -
  have y: "tm_year t - 70 = of_nat n" using assms(3) by simp
  have m: "sint (tm_mon t) = int mon" "unat (tm_mon t) = mon" using assms(2,4) by (simp_all add: sint_of_nat_small unat_of_nat_u32)
  have s1: "sint (of_nat n + 1 :: u32) = int (n + 1)" "sint (of_nat n + 2 :: u32) = int (n + 2)"
    using sint_of_nat_small [of "n + 1"] sint_of_nat_small [of "n + 2"] assms(1) by (simp_all add: add.commute)
  have d: "sdivi (of_nat n + 1) 4 = of_nat ((n + 1) div 4)"
  proof -
    have "int (n + 1) sdiv 4 = int ((n + 1) div 4)" by (simp add: signed_divide_int_def zdiv_int)
    then show ?thesis by (simp add: sdivi_def s1 del: of_nat_add)
  qed
  have r: "smodi (of_nat n + 2) 4 \<noteq> 0 \<longleftrightarrow> (n + 2) mod 4 \<noteq> 0"
  proof -
    have "sint (of_nat n + 2 :: u32) smod 4 = int ((n + 2) mod 4)" unfolding s1 by (simp add: signed_modulo_int_def signed_divide_int_def zmod_int)
    then have "smodi (of_nat n + 2) 4 = of_nat ((n + 2) mod 4)" by (simp add: smodi_def)
    moreover have "unat (of_nat ((n + 2) mod 4) :: u32) = (n + 2) mod 4" by (intro unat_of_nat_u32) (simp add: less_trans [OF mod_less_divisor])
    ultimately show ?thesis by (metis unat_0 u32_eq_iff)
  qed
  show ?thesis unfolding kernel_mktime_def Let_def y d r m month_table [OF assms(2)] assms(5-8)
    using assms(2) by (simp add: YEAR_def DAY_def HOUR_def MINUTE_def algebra_simps)
qed

text \<open>
  Property C38.  For every date from 1970 to 2037, \<open>kernel_mktime\<close> returns the seconds since 1970 in the
  Gregorian calendar: its constant-time leap year correction agrees with summing up the years and months.
\<close>

theorem mktime_gregorian:
  assumes "1970 \<le> y" "y \<le> 2037" "mon < 12" "1 \<le> day" "day \<le> 31" "h < 24" "mi < 60" "sec < 60"
    and "tm_year t = of_nat (y - 1900)" "tm_mon t = of_nat mon" "tm_mday t = of_nat day"
    "tm_hour t = of_nat h" "tm_min t = of_nat mi" "tm_sec t = of_nat sec"
  shows "\<exists>r. kernel_mktime t = Inr r \<and> sint r = epoch_seconds y mon day h mi sec"
proof -
  define n where "n = y - 1970"
  have y: "y = 1970 + n" and n: "n \<le> 67" "n \<le> 130" "y - 1900 = n + 70" using assms(1,2) by (auto simp: n_def)
  let ?E = "31536000 * int n + 86400 * int ((n + 1) div 4) + 86400 * int (leap_days_before mon)
    - (if 1 < mon \<and> (n + 2) mod 4 \<noteq> 0 then 86400 else 0) + 86400 * (int day - 1) + 3600 * int h + 60 * int mi + int sec"
  have k: "kernel_mktime t = Inr (of_int ?E)" by (rule mktime_formula [OF n(1) assms(3)]) (use assms(9-) n(3) in simp_all)
  have E: "epoch_seconds y mon day h mi sec = ?E"
    using leap_1970 [of n] n unfolding epoch_seconds_def y years_from_1970 [OF n(2)] months_before [OF assms(3)]
    by (simp add: algebra_simps)
  have "(n + 1) div 4 \<le> 17" using n(1) by simp
  moreover have "leap_days_before mon \<le> 335" "1 < mon \<Longrightarrow> 1 \<le> leap_days_before mon"
    using leap_days_bound [OF assms(3)] assms(3) by (auto simp: leap_days_before_def less_Suc_eq numeral_eq_Suc)
  ultimately have "0 \<le> ?E" "?E < 2 ^ 31" using n(1) assms(4-8) by auto
  then have "sint (of_int ?E :: u32) = ?E" by (rule sint_of_int_small)
  then show ?thesis using k E by simp
qed

theorem mktime_gregorian_witness:
  "kernel_mktime \<lparr>tm_sec = 0, tm_min = 0, tm_hour = 12, tm_mday = 29, tm_mon = 1, tm_year = 100, tm_wday = 0, tm_yday = 0, tm_isdst = 0\<rparr>
     = Inr 951825600"
proof -
  let ?t = "\<lparr>tm_sec = 0, tm_min = 0, tm_hour = 12, tm_mday = 29, tm_mon = 1, tm_year = 100, tm_wday = 0, tm_yday = 0, tm_isdst = 0\<rparr>"
  have "\<exists>r. kernel_mktime ?t = Inr r \<and> sint r = epoch_seconds 2000 1 29 12 0 0" by (rule mktime_gregorian) simp_all
  moreover have "epoch_seconds 2000 1 29 12 0 0 = sint (951825600 :: u32)"
    using years_from_1970 [of 30] by (simp add: epoch_seconds_def month_days_def)
  ultimately show ?thesis by (metis signed_word_eqI)
qed

text \<open>
  The clock counts months from 1 in binary coded decimals; \<open>time_init\<close> subtracts 1 before it decodes
  them.  This is wrong in one month: October (\<open>0x10\<close>) becomes \<open>0x0F\<close>, which decodes to 15, and
  \<open>kernel_mktime\<close> reads behind the end of its table.  In every other month the decoded month is the right one.
\<close>

lemma time_init_months:
  assumes "cmos 0 0 = again 0"
  shows "(cmos 0 8 = 0x10 \<longrightarrow> time_init cmos again = Inl (Fault ''month'')) \<and>
    (\<forall>mon \<in> {1..9} \<union> {11, 12}. cmos 0 8 = of_nat (mon div 10 * 16 + mon mod 10) \<longrightarrow>
       (\<exists>t r. stable_clock cmos again 0 = Some t \<and> tm_mon (from_bcd t) = of_nat (mon - 1) \<and> time_init cmos again = Inr r))"
proof -
  have st: "stable_clock cmos again 0 = Some (read_clock (cmos 0))" using assms by (simp add: stable_clock.simps read_clock_def)
  have ti: "time_init cmos again = kernel_mktime (from_bcd (read_clock (cmos 0)))" by (simp add: time_init_def st)
  have mon: "tm_mon (from_bcd (read_clock (cmos 0))) = BCD_TO_BIN (cmos 0 8 - 1)" by (simp add: from_bcd_def read_clock_def)
  have oct: "time_init cmos again = Inl (Fault ''month'')" if "cmos 0 8 = 0x10"
  proof -
    have "sint (BCD_TO_BIN (cmos 0 8 - 1)) = 15" by (simp add: that BCD_TO_BIN_def)
    then show ?thesis unfolding ti kernel_mktime_def mon Let_def by simp
  qed
  have rest: "BCD_TO_BIN (cmos 0 8 - 1) = of_nat (k - 1)" if "k \<in> {1..9} \<union> {11, 12}" "cmos 0 8 = of_nat (k div 10 * 16 + k mod 10)" for k
  proof -
    have "k \<in> {1, 2, 3, 4, 5, 6, 7, 8, 9, 11, 12}" using that(1) by auto
    then show ?thesis unfolding that(2) BCD_TO_BIN_def by (elim insertE emptyE) simp_all
  qed
  have "\<exists>r. time_init cmos again = Inr r" if k: "k \<in> {1..9} \<union> {11, 12}" "cmos 0 8 = of_nat (k div 10 * 16 + k mod 10)" for k
  proof -
    have "sint (BCD_TO_BIN (cmos 0 8 - 1)) = int (k - 1)" unfolding rest [OF k] using k(1) by (intro sint_of_nat_small) auto
    then have "\<not> (sint (BCD_TO_BIN (cmos 0 8 - 1)) < 0 \<or> 12 \<le> sint (BCD_TO_BIN (cmos 0 8 - 1)))" using k(1) by auto
    then show ?thesis unfolding ti kernel_mktime_def mon Let_def by simp
  qed
  then show ?thesis using oct rest st mon by auto
qed

end
