(* ===== verification/Linux_Vsprintf.thy ===== *)
theory Linux_Vsprintf
  imports Linux_String
begin

unbundle bit_operations_syntax

section \<open>\<open>vsprintf\<close> of linux-0.01 (\<open>kernel/vsprintf.c\<close>)\<close>

text \<open>
  The format is the list of its bytes without the terminator (the end of the list is the terminator), the argument
  area a list of 32-bit slots; taking an argument that is not there is a \<open>Fault\<close>.  The bytes written through
  \<open>str\<close> are collected in a list, in order; the buffer is not read and does not overlap what is.  Memory is read by
  \<open>%s\<close> and written by \<open>%n\<close>.  All \<open>int\<close> variables are 32-bit words read as signed numbers.
\<close>

definition ZEROPAD :: u32 where "ZEROPAD = 1"
definition SIGN :: u32 where "SIGN = 2"
definition PLUS :: u32 where "PLUS = 4"
definition SPACE :: u32 where "SPACE = 8"
definition LEFT :: u32 where "LEFT = 16"
definition SPECIAL :: u32 where "SPECIAL = 32"
definition SMALL :: u32 where "SMALL = 64"

definition is_digit :: "u8 \<Rightarrow> bool" where
  "is_digit c \<longleftrightarrow> 0x30 \<le> c \<and> c \<le> 0x39"

fun skip_atoi :: "u32 \<Rightarrow> u8 list \<Rightarrow> u32 \<times> u8 list" where
  "skip_atoi i [] = (i, [])"
| "skip_atoi i (c # s) = (if is_digit c then skip_atoi (i * 10 + ucast c - 0x30) s else (i, c # s))"

text \<open>\<open>while (num != 0) tmp[i++] = digits[do_div(num, base)]\<close>; the division is unsigned.\<close>

definition digit_char :: "bool \<Rightarrow> u32 \<Rightarrow> u8" where
  "digit_char small d = (if d < 10 then 0x30 + ucast d else (if small then 0x61 else 0x41) + ucast (d - 10))"

function num_digits :: "bool \<Rightarrow> u32 \<Rightarrow> u32 \<Rightarrow> u8 list" where
  "num_digits small base num =
     (if num = 0 \<or> base \<le> 1 then [] else digit_char small (num mod base) # num_digits small base (num div base))"
  by pat_completeness auto
termination
proof (relation "measure (\<lambda>(small, base, num). unat num)")
  fix small :: bool and base num :: u32
  assume "\<not> (num = 0 \<or> base \<le> 1)"
  then have "1 < unat base" "0 < unat num" by (auto simp: u32_le_iff unat_gt_0)
  then show "((small, base, num div base), small, base, num) \<in> measure (\<lambda>(small, base, num). unat num)"
    by (simp add: unat_div)
qed simp

declare num_digits.simps [simp del]

text \<open>\<open>while (size-- > 0) *str++ = c\<close>: the bytes and what is left of \<open>size\<close>.\<close>

definition pad :: "u8 \<Rightarrow> u32 \<Rightarrow> u8 list \<times> u32" where
  "pad c sz = (replicate (nat (sint sz)) c, if sint sz > 0 then - 1 else sz - 1)"

text \<open>\<open>number\<close>: the bytes it writes, or \<open>None\<close> where it writes nothing and returns a null pointer.\<close>

definition number :: "u32 \<Rightarrow> u32 \<Rightarrow> u32 \<Rightarrow> u32 \<Rightarrow> u32 \<Rightarrow> u8 list option" where
  "number num base sz prec typ =
     (if sint base < 2 \<or> sint base > 36 then None else
      let small = (typ AND SMALL \<noteq> 0);
          typ = (if typ AND LEFT \<noteq> 0 then typ AND NOT ZEROPAD else typ);
          c = (if typ AND ZEROPAD \<noteq> 0 then 0x30 else 0x20);
          neg = (typ AND SIGN \<noteq> 0 \<and> sint num < 0);
          sign = (if neg then [0x2D] else if typ AND PLUS \<noteq> 0 then [0x2B] else if typ AND SPACE \<noteq> 0 then [0x20] else []);
          num = (if neg then - num else num);
          sz = (if sign \<noteq> [] then sz - 1 else sz);
          sz = (if typ AND SPECIAL \<noteq> 0 then if base = 16 then sz - 2 else if base = 8 then sz - 1 else sz else sz);
          tmp = (if num = 0 then [0x30] else num_digits small base num);
          i = of_nat (length tmp);
          prec = (if sint i > sint prec then i else prec);
          sz = sz - prec;
          (left, sz) = (if typ AND (ZEROPAD + LEFT) = 0 then pad 0x20 sz else ([], sz));
          prefix = (if typ AND SPECIAL \<noteq> 0
                    then if base = 8 then [0x30] else if base = 16 then [0x30, digit_char small 33] else []
                    else []);
          (fill, sz) = (if typ AND LEFT = 0 then pad c sz else ([], sz));
          zeros = replicate (nat (sint prec - sint i)) 0x30
      in Some (left @ sign @ prefix @ fill @ zeros @ rev tmp @ fst (pad 0x20 sz)))"

subsection \<open>Parsing a conversion\<close>

fun parse_flags :: "u32 \<Rightarrow> u8 list \<Rightarrow> u32 \<times> u8 list" where
  "parse_flags flags [] = (flags, [])"
| "parse_flags flags (c # fmt) =
     (if c = 0x2D then parse_flags (flags OR LEFT) fmt
      else if c = 0x2B then parse_flags (flags OR PLUS) fmt
      else if c = 0x20 then parse_flags (flags OR SPACE) fmt
      else if c = 0x23 then parse_flags (flags OR SPECIAL) fmt
      else if c = 0x30 then parse_flags (flags OR ZEROPAD) fmt
      else (flags, c # fmt))"

definition va_arg :: "u32 list \<Rightarrow> (u32 \<times> u32 list) res" where
  "va_arg args = (case args of [] \<Rightarrow> Inl (Fault ''va_arg'') | a # rest \<Rightarrow> Inr (a, rest))"

text \<open>The field width; a \<open>*\<close> takes an argument but is not skipped.\<close>

definition parse_width :: "u8 list \<Rightarrow> u32 list \<Rightarrow> u32 \<Rightarrow> (u32 \<times> u32 \<times> u8 list \<times> u32 list) res" where
  "parse_width fmt args flags =
     (case fmt of
        [] \<Rightarrow> Inr (- 1, flags, fmt, args)
      | c # _ \<Rightarrow>
          if is_digit c then let (w, fmt) = skip_atoi 0 fmt in Inr (w, flags, fmt, args)
          else if c = 0x2A
          then bindr (va_arg args) (\<lambda>(w, args).
                 if sint w < 0 then Inr (- w, flags OR LEFT, fmt, args) else Inr (w, flags, fmt, args))
          else Inr (- 1, flags, fmt, args))"

definition parse_precision :: "u8 list \<Rightarrow> u32 list \<Rightarrow> (u32 \<times> u8 list \<times> u32 list) res" where
  "parse_precision fmt args =
     (case fmt of
        [] \<Rightarrow> Inr (- 1, fmt, args)
      | c # fmt' \<Rightarrow>
          if c \<noteq> 0x2E then Inr (- 1, fmt, args)
          else bindr (case fmt' of
                        [] \<Rightarrow> Inr (- 1, fmt', args)
                      | d # _ \<Rightarrow>
                          if is_digit d then let (p, rest) = skip_atoi 0 fmt' in Inr (p, rest, args)
                          else if d = 0x2A then bindr (va_arg args) (\<lambda>(p, args). Inr (p, fmt', args))
                          else Inr (- 1, fmt', args))
                 (\<lambda>(p, rest, args). Inr (if sint p < 0 then 0 else p, rest, args)))"

definition skip_qualifier :: "u8 list \<Rightarrow> u8 list" where
  "skip_qualifier fmt = (case fmt of [] \<Rightarrow> [] | c # rest \<Rightarrow> if c \<in> {0x68, 0x6C, 0x4C} then rest else fmt)"

subsection \<open>The conversions\<close>

text \<open>\<open>while (--field_width > 0)\<close> of \<open>%c\<close> and \<open>while (len < field_width--)\<close> of \<open>%s\<close>.\<close>

definition pad_char :: "u32 \<Rightarrow> u8 list \<times> u32" where
  "pad_char w = (replicate (nat (sint (w - 1))) 0x20, if sint (w - 1) > 0 then 0 else w - 1)"

definition pad_str :: "u32 \<Rightarrow> u32 \<Rightarrow> u8 list \<times> u32" where
  "pad_str len w = (replicate (nat (sint w - sint len)) 0x20, if sint len < sint w then len - 1 else w - 1)"

definition conv_char :: "u32 \<Rightarrow> u32 \<Rightarrow> u32 \<Rightarrow> u8 list" where
  "conv_char a flags w =
     (let (left, w) = (if flags AND LEFT = 0 then pad_char w else ([], w))
      in left @ [ucast a] @ fst (pad_char w))"

definition conv_str :: "memory \<Rightarrow> u32 \<Rightarrow> u32 \<Rightarrow> u32 \<Rightarrow> u32 \<Rightarrow> u8 list" where
  "conv_str m s flags w prec =
     (let len = lx_strlen m s;
          len = (if \<not> sint prec < 0 \<and> sint len > sint prec then prec else len);
          (left, w) = (if flags AND LEFT = 0 then pad_str len w else ([], w))
      in left @ map (\<lambda>i. load8 m (s + of_nat i)) [0..<nat (sint len)] @ fst (pad_str len w))"

text \<open>After a null pointer from \<open>number\<close> the output would go to address 0.\<close>

definition conv_num :: "u32 \<Rightarrow> u32 list \<Rightarrow> u32 \<Rightarrow> u32 \<Rightarrow> u32 \<Rightarrow> (u8 list \<times> u32 list) res" where
  "conv_num base args flags w prec = bindr (va_arg args) (\<lambda>(a, args).
       bindr (of_option (Fault ''str'') (number a base w prec flags)) (\<lambda>out. Inr (out, args)))"

text \<open>The \<open>switch (*fmt)\<close>: the bytes, the rest of the format and of the arguments, and the memory.\<close>

definition convert :: "memory \<Rightarrow> nat \<Rightarrow> u8 list \<Rightarrow> u32 list \<Rightarrow> u32 \<Rightarrow> u32 \<Rightarrow> u32 \<Rightarrow>
    (memory \<times> u8 list \<times> u8 list \<times> u32 list) res" where
  "convert m n fmt args flags w prec =
     (case fmt of
        [] \<Rightarrow> Inr (m, [0x25], [], args)
      | c # rest \<Rightarrow>
          if c = 0x63 then bindr (va_arg args) (\<lambda>(a, args). Inr (m, conv_char a flags w, rest, args))
          else if c = 0x73 then bindr (va_arg args) (\<lambda>(s, args). Inr (m, conv_str m s flags w prec, rest, args))
          else if c = 0x6F then bindr (conv_num 8 args flags w prec) (\<lambda>(out, args). Inr (m, out, rest, args))
          else if c = 0x70
          then let (w, flags) = (if w = - 1 then (8, flags OR ZEROPAD) else (w, flags))
               in bindr (conv_num 16 args flags w prec) (\<lambda>(out, args). Inr (m, out, rest, args))
          else if c = 0x78 then bindr (conv_num 16 args (flags OR SMALL) w prec) (\<lambda>(out, args). Inr (m, out, rest, args))
          else if c = 0x58 then bindr (conv_num 16 args flags w prec) (\<lambda>(out, args). Inr (m, out, rest, args))
          else if c = 0x64 \<or> c = 0x69
          then bindr (conv_num 10 args (flags OR SIGN) w prec) (\<lambda>(out, args). Inr (m, out, rest, args))
          else if c = 0x75 then bindr (conv_num 10 args flags w prec) (\<lambda>(out, args). Inr (m, out, rest, args))
          else if c = 0x6E then bindr (va_arg args) (\<lambda>(ip, args). Inr (store32 m ip (of_nat n), [], rest, args))
          else Inr (m, (if c \<noteq> 0x25 then [0x25] else []) @ [c], rest, args))"

lemma skip_atoi_length: "length (snd (skip_atoi i s)) \<le> length s"
  by (induction i s rule: skip_atoi.induct) auto

lemma parse_flags_length: "length (snd (parse_flags f s)) \<le> length s"
  by (induction f s rule: parse_flags.induct) auto

lemma parse_width_length: "parse_width fmt args flags = Inr (w, flags', fmt', args') \<Longrightarrow> length fmt' \<le> length fmt"
  using skip_atoi_length [of 0 fmt]
  by (auto simp: parse_width_def bindr_eq_Inr split: list.splits if_splits prod.splits)

lemma parse_precision_length: "parse_precision fmt args = Inr (p, fmt', args') \<Longrightarrow> length fmt' \<le> length fmt"
  using skip_atoi_length [of 0 "tl fmt"]
  by (auto simp: parse_precision_def bindr_eq_Inr split: list.splits if_splits prod.splits)

lemma skip_qualifier_length: "length (skip_qualifier fmt) \<le> length fmt"
  by (auto simp: skip_qualifier_def split: list.split)

lemma convert_length: "convert m n fmt args flags w prec = Inr (m', out, fmt', args') \<Longrightarrow> length fmt' \<le> length fmt"
  by (auto simp: convert_def bindr_eq_Inr split: list.splits if_splits)

subsection \<open>The loop\<close>

function vsprintf_loop :: "memory \<Rightarrow> u8 list \<Rightarrow> u8 list \<Rightarrow> u32 list \<Rightarrow> (memory \<times> u8 list) res" where
  "vsprintf_loop m out [] args = Inr (m, out)"
| "vsprintf_loop m out (c # fmt) args =
     (if c \<noteq> 0x25 then vsprintf_loop m (out @ [c]) fmt args
      else let (flags, fmt) = parse_flags 0 fmt in
           bindr (parse_width fmt args flags) (\<lambda>(w, flags, fmt, args).
           bindr (parse_precision fmt args) (\<lambda>(prec, fmt, args).
           bindr (convert m (length out) (skip_qualifier fmt) args flags w prec) (\<lambda>(m, bs, fmt, args).
             vsprintf_loop m (out @ bs) fmt args))))"
  by pat_completeness auto
termination
proof (relation "measure (\<lambda>(m, out, fmt, args). length fmt)", goal_cases)
  case (3 m out c fmt args x flags fmt1)
  then show ?case using parse_flags_length [of 0 fmt] skip_qualifier_length
    by (auto dest!: parse_width_length parse_precision_length convert_length) (metis le_imp_less_Suc le_trans snd_conv)
qed auto

text \<open>\<open>vsprintf\<close> returns the number of bytes it wrote and terminates them.\<close>

definition vsprintf :: "memory \<Rightarrow> u8 list \<Rightarrow> u32 list \<Rightarrow> (u32 \<times> memory \<times> u8 list) res" where
  "vsprintf m fmt args =
     bindr (vsprintf_loop m [] fmt args) (\<lambda>(m, out). Inr (of_nat (length out), m, out @ [0]))"

end
