(* ===== verification/Linux_Format.thy ===== *)
theory Linux_Format
  imports Linux_Vsprintf Digits
begin

unbundle bit_operations_syntax

section \<open>What \<open>vsprintf\<close> of linux-0.01 prints\<close>

text \<open>
  Numbers are laid out as sign, prefix, padding zeros and the digits of the value, filled up to the field
  width on the side that the flags say.  A width given as \<open>*\<close> does not work.
\<close>

subsection \<open>Digits\<close>

abbreviation digit_bytes :: "bool \<Rightarrow> u32 \<Rightarrow> u32 \<Rightarrow> u8 list" where
  "digit_bytes small base num \<equiv> map (\<lambda>d. digit_char small (of_nat d)) (digits_of (unat base) (unat num))"

lemma num_digits_eq: "2 \<le> unat base \<Longrightarrow> num \<noteq> 0 \<Longrightarrow> rev (num_digits small base num) = digit_bytes small base num"
proof (induction small base num rule: num_digits.induct)
  case (1 small base num)
  have b: "\<not> base \<le> 1" using "1.prems"(1) by (simp add: u32_le_iff)
  have m: "of_nat (unat num mod unat base) = num mod base" by (metis of_nat_unat_u32 unat_mod)
  show ?case
  proof (cases "num div base = 0")
    case True
    then have "unat num < unat base" using unat_div [of num base] "1.prems"(1) by (metis div_eq_0_iff not_numeral_le_zero unat_0)
    then show ?thesis using True b "1.prems" m by (simp add: num_digits.simps [of small base] digits_of.simps [of "unat base" "unat num"])
  next
    case False
    then have "\<not> unat num < unat base" using unat_div [of num base] by (metis div_less unat_eq_zero)
    then show ?thesis using 1 False b m
      by (simp add: num_digits.simps [of small base num] digits_of.simps [of "unat base" "unat num"] unat_div)
  qed
qed

lemma number_tmp:
  assumes "2 \<le> unat base"
  shows "rev (if num = 0 then [0x30] else num_digits small base num) = digit_bytes small base num"
proof (cases "num = 0")
  case True
  then show ?thesis using assms by (simp add: digits_of.simps [of "unat base" 0] digit_char_def)
qed (simp add: num_digits_eq [OF assms])

lemma length_digit_bytes: "2 \<le> unat base \<Longrightarrow> length (digit_bytes small base num) \<le> 32"
proof -
  assume b: "2 \<le> unat base"
  have "unat num < 2 ^ 32" by simp
  also have "(2 :: nat) ^ 32 \<le> unat base ^ 32" using b by (rule power_mono) simp
  finally show ?thesis using length_digits [OF b, of "unat num" 32] by simp
qed

subsection \<open>Flags and sizes\<close>

lemma flags_left:
  "(ty AND NOT ZEROPAD) AND ZEROPAD = 0" "(ty AND NOT ZEROPAD) AND LEFT = ty AND LEFT"
  "(ty AND NOT ZEROPAD) AND SIGN = ty AND SIGN" "(ty AND NOT ZEROPAD) AND PLUS = ty AND PLUS"
  "(ty AND NOT ZEROPAD) AND SPACE = ty AND SPACE" "(ty AND NOT ZEROPAD) AND SPECIAL = ty AND SPECIAL"
  by (simp_all only: and.assoc ZEROPAD_def LEFT_def SIGN_def PLUS_def SPACE_def SPECIAL_def) simp_all

lemma flags_both: "ty AND (ZEROPAD + LEFT) = 0 \<longleftrightarrow> ty AND ZEROPAD = 0 \<and> ty AND LEFT = 0"
proof -
  have "ZEROPAD + LEFT = ZEROPAD OR LEFT" by (simp add: ZEROPAD_def LEFT_def)
  then have "ty AND (ZEROPAD + LEFT) = (ty AND ZEROPAD) OR (ty AND LEFT)" by (simp add: bit.conj_disj_distrib)
  then show ?thesis by (simp only: or_eq_0_iff)
qed

lemma sint_sub_small:
  assumes "- (2 ^ 31) \<le> sint a - sint b" "sint a - sint b < 2 ^ 31"
  shows "sint (a - b :: u32) = sint a - sint b"
  using assms by (simp add: sint_word_ariths signed_take_bit_int_eq_self)

lemma pad_used:
  assumes "- (2 ^ 31) < sint sz"
  shows "fst (pad c (snd (pad d sz))) = []"
proof -
  have "sint (sz - 1) < 0" if "\<not> 0 < sint sz" using that assms sint_sub_small [of sz 1] by simp
  then show ?thesis by (auto simp: pad_def)
qed

definition sign_bytes :: "u32 \<Rightarrow> u32 \<Rightarrow> u8 list" where
  "sign_bytes num ty =
     (if ty AND SIGN \<noteq> 0 \<and> sint num < 0 then [0x2D] else if ty AND PLUS \<noteq> 0 then [0x2B]
      else if ty AND SPACE \<noteq> 0 then [0x20] else [])"

definition prefix_bytes :: "u32 \<Rightarrow> u32 \<Rightarrow> u8 list" where
  "prefix_bytes base ty =
     (if ty AND SPECIAL = 0 then [] else if base = 8 then [0x30]
      else if base = 16 then [0x30, if ty AND SMALL \<noteq> 0 then 0x78 else 0x58] else [])"

definition magnitude :: "u32 \<Rightarrow> u32 \<Rightarrow> u32" where
  "magnitude num ty = (if ty AND SIGN \<noteq> 0 \<and> sint num < 0 then - num else num)"

lemma length_sign_prefix: "length (sign_bytes num ty) \<le> 1" "length (prefix_bytes base ty) \<le> 2"
  by (simp_all add: sign_bytes_def prefix_bytes_def)

text \<open>The size left after sign, prefix and digits.\<close>

definition room :: "u32 \<Rightarrow> u32 \<Rightarrow> u32 \<Rightarrow> u32 \<Rightarrow> u32 \<Rightarrow> nat \<Rightarrow> u32" where
  "room num base sz prec ty n =
     (let sz = (if sign_bytes num ty \<noteq> [] then sz - 1 else sz);
          sz = (if ty AND SPECIAL \<noteq> 0 then if base = 16 then sz - 2 else if base = 8 then sz - 1 else sz else sz)
      in sz - (if sint (of_nat n :: u32) > sint prec then of_nat n else prec))"

lemma room_sint:
  assumes "- 1 \<le> sint sz" "sint sz \<le> 2 ^ 30" "- 1 \<le> sint prec" "sint prec \<le> 2 ^ 30" "n \<le> 32"
  shows "sint (room num base sz prec ty n) =
    sint sz - int (length (sign_bytes num ty)) - int (length (prefix_bytes base ty)) - max (sint prec) (int n)"
proof -
  have n: "sint (of_nat n :: u32) = int n" using assms(5) sint_u32 [of "of_nat n"] by (simp add: unat_of_nat_u32)
  have sub: "sint (x - k) = sint x - sint k" if "- 10 \<le> sint x" "sint x \<le> 2 ^ 30" "0 \<le> sint k" "sint k \<le> 2 ^ 30" for x k :: u32
    using that by (intro sint_sub_small) auto
  let ?a = "if sign_bytes num ty \<noteq> [] then sz - 1 else sz"
  have a: "sint ?a = sint sz - int (length (sign_bytes num ty))" using assms sub [of sz 1] by (simp add: sign_bytes_def)
  let ?b = "if ty AND SPECIAL \<noteq> 0 then if base = 16 then ?a - 2 else if base = 8 then ?a - 1 else ?a else ?a"
  have la: "int (length (sign_bytes num ty)) \<le> 1" "int (length (prefix_bytes base ty)) \<le> 2"
    using length_sign_prefix(1) [of num ty] length_sign_prefix(2) [of base ty] by simp_all
  have b: "sint ?b = sint ?a - int (length (prefix_bytes base ty))"
    using assms a la sub [of ?a 1] sub [of ?a 2] by (simp add: prefix_bytes_def)
  have p: "sint (if sint (of_nat n :: u32) > sint prec then of_nat n else prec :: u32) = max (sint prec) (int n)"
    unfolding n by (simp add: n max_def)
  have "sint (?b - (if sint (of_nat n :: u32) > sint prec then of_nat n else prec)) = sint ?b - max (sint prec) (int n)"
    unfolding p [symmetric] by (rule sub) (use assms la a b p in auto)
  then show ?thesis unfolding room_def Let_def using a b by simp
qed

lemma sign_prefix_left:
  "sign_bytes num (ty AND NOT ZEROPAD) = sign_bytes num ty" "prefix_bytes base (ty AND NOT ZEROPAD) = prefix_bytes base ty"
  "room num base sz prec (ty AND NOT ZEROPAD) n = room num base sz prec ty n" "magnitude num (ty AND NOT ZEROPAD) = magnitude num ty"
proof -
  have "(ty AND NOT ZEROPAD) AND SMALL = ty AND SMALL" unfolding and.assoc by (simp add: ZEROPAD_def SMALL_def)
  then show "sign_bytes num (ty AND NOT ZEROPAD) = sign_bytes num ty" "prefix_bytes base (ty AND NOT ZEROPAD) = prefix_bytes base ty"
    "magnitude num (ty AND NOT ZEROPAD) = magnitude num ty"
    by (simp_all add: sign_bytes_def prefix_bytes_def magnitude_def flags_left)
  then show "room num base sz prec (ty AND NOT ZEROPAD) n = room num base sz prec ty n" by (simp add: room_def flags_left)
qed

text \<open>\<open>number\<close> in terms of these parts.\<close>

lemma number_parts:
  assumes ds: "ds = (if magnitude num ty = 0 then [0x30] else num_digits (ty AND SMALL \<noteq> 0) base (magnitude num ty))"
    and r: "r = room num base sz prec ty (length ds)"
    and zs: "zs = replicate (nat (sint (if sint (of_nat (length ds) :: u32) > sint prec then of_nat (length ds) else prec :: u32) - sint (of_nat (length ds) :: u32))) (0x30 :: u8)"
    and base: "2 \<le> unat base" "unat base \<le> 36"
  shows "number num base sz prec ty = Some
    (if ty AND LEFT \<noteq> 0
     then sign_bytes num ty @ prefix_bytes base ty @ zs @ rev ds @ fst (pad 0x20 r)
     else if ty AND ZEROPAD \<noteq> 0
     then sign_bytes num ty @ prefix_bytes base ty @ fst (pad 0x30 r) @ zs @ rev ds @ fst (pad 0x20 (snd (pad 0x30 r)))
     else fst (pad 0x20 r) @ sign_bytes num ty @ prefix_bytes base ty @ fst (pad 0x20 (snd (pad 0x20 r))) @ zs @ rev ds @
       fst (pad 0x20 (snd (pad 0x20 (snd (pad 0x20 r))))))"
proof -
  define ty' where "ty' = (if ty AND LEFT \<noteq> 0 then ty AND NOT ZEROPAD else ty)"
  have t: "sign_bytes num ty' = sign_bytes num ty" "prefix_bytes base ty' = prefix_bytes base ty"
    "room num base sz prec ty' n = room num base sz prec ty n" "magnitude num ty' = magnitude num ty"
    "ty' AND LEFT = ty AND LEFT" "ty' AND SPECIAL = ty AND SPECIAL" for n
    using sign_prefix_left flags_left by (simp_all add: ty'_def)
  have z: "ty' AND ZEROPAD = (if ty AND LEFT \<noteq> 0 then 0 else ty AND ZEROPAD)" by (simp add: ty'_def flags_left)
  have "unat base < 2147483648" using base(2) by linarith
  then have "sint base = int (unat base)" unfolding sint_u32 by (simp only: if_True)
  then have b: "\<not> (sint base < 2 \<or> sint base > 36)" using base by linarith
  have pf: "(if ty AND SPECIAL \<noteq> 0 then if base = 8 then [0x30] else if base = 16 then [0x30, digit_char (ty AND SMALL \<noteq> 0) 33] else [] else []) = prefix_bytes base ty"
    by (simp add: prefix_bytes_def digit_char_def)
  show ?thesis
    unfolding number_def if_not_P [OF b] Let_def ty'_def [symmetric] flags_both z t(5,6) pf
    unfolding sign_bytes_def [of num ty', symmetric] magnitude_def [of num ty', symmetric] t(1,4) ds [symmetric] zs r room_def Let_def
    by (simp add: case_prod_beta)
qed

lemma number_accepted:
  assumes base: "2 \<le> unat base" "unat base \<le> 36" and w: "- 1 \<le> sint sz" "sint sz \<le> 2 ^ 30" and p: "- 1 \<le> sint prec" "sint prec \<le> 2 ^ 30"
    and ds: "ds = digit_bytes (ty AND SMALL \<noteq> 0) base (magnitude num ty)" and zs: "zs = replicate (nat (sint prec) - length ds) 0x30"
    and k: "k = nat (sint sz) - length (sign_bytes num ty @ prefix_bytes base ty @ zs @ ds)"
  shows "number num base sz prec ty = Some
    (if ty AND LEFT \<noteq> 0 then sign_bytes num ty @ prefix_bytes base ty @ zs @ ds @ replicate k 0x20
     else if ty AND ZEROPAD \<noteq> 0 then sign_bytes num ty @ prefix_bytes base ty @ replicate k 0x30 @ zs @ ds
     else replicate k 0x20 @ sign_bytes num ty @ prefix_bytes base ty @ zs @ ds)"
proof -
  let ?tmp = "if magnitude num ty = 0 then [0x30] else num_digits (ty AND SMALL \<noteq> 0) base (magnitude num ty)"
  let ?r = "room num base sz prec ty (length ?tmp)"
  have rt: "rev ?tmp = ds" unfolding ds by (rule number_tmp [OF base(1)])
  then have lt: "length ?tmp = length ds" by (metis length_rev)
  have l32: "length ds \<le> 32" unfolding ds by (rule length_digit_bytes [OF base(1)])
  have n: "sint (of_nat (length ds) :: u32) = int (length ds)" using l32 sint_u32 [of "of_nat (length ds)"] by (simp add: unat_of_nat_u32)
  have r: "sint ?r = sint sz - int (length (sign_bytes num ty)) - int (length (prefix_bytes base ty)) - max (sint prec) (int (length ds))"
    unfolding lt by (rule room_sint [OF w p l32])
  have kr: "nat (sint ?r) = k" unfolding r k using p(1) by (simp add: zs)
  have low: "- (2 ^ 31) < sint ?r - 1" unfolding r using w(1) p(2) l32 length_sign_prefix(1) [of num ty] length_sign_prefix(2) [of base ty] by simp
  have z: "replicate (nat (sint (if sint (of_nat (length ?tmp) :: u32) > sint prec then of_nat (length ?tmp) else prec :: u32) - sint (of_nat (length ?tmp) :: u32))) (0x30 :: u8) = zs"
    unfolding lt n zs using n p(1) by (simp add: nat_diff_distrib')
  have once: "fst (pad c ?r) = replicate k c" "fst (pad c (snd (pad d ?r))) = []" for c d
    using kr pad_used [of ?r c d] low by (simp_all add: pad_def)
  have twice: "fst (pad c (snd (pad d (snd (pad e ?r))))) = []" for c d e
  proof -
    have "- (2 ^ 31) < sint (snd (pad e ?r))" using low sint_sub_small [of ?r 1] sint_range_size [of ?r] by (simp add: pad_def word_size)
    then show ?thesis using pad_used [of "snd (pad e ?r)" c d] by simp
  qed
  show ?thesis unfolding number_parts [OF refl refl refl base] rt z once twice by simp
qed

text \<open>
  Property C39.  The layout of a number in a base from 2 to 36: sign, prefix and at least \<open>precision\<close> digits of its magnitude
  in the base, the most significant first; a wider field is filled with spaces on the right (flag \<open>-\<close>), with
  zeros between prefix and digits (flag \<open>0\<close>), or with spaces on the left, to exactly the field width.  Any other base is
  refused with a null pointer.  Width and precision lie between -1, which means none, and \<open>2^30\<close>.
\<close>

theorem number_layout:
  assumes "- 1 \<le> sint sz" "sint sz \<le> 2 ^ 30" "- 1 \<le> sint prec" "sint prec \<le> 2 ^ 30"
    and "ds = digit_bytes (ty AND SMALL \<noteq> 0) base (magnitude num ty)" "zs = replicate (nat (sint prec) - length ds) 0x30"
    and "k = nat (sint sz) - length (sign_bytes num ty @ prefix_bytes base ty @ zs @ ds)"
  shows "number num base sz prec ty =
    (if sint base < 2 \<or> 36 < sint base then None
     else if ty AND LEFT \<noteq> 0 then Some (sign_bytes num ty @ prefix_bytes base ty @ zs @ ds @ replicate k 0x20)
     else if ty AND ZEROPAD \<noteq> 0 then Some (sign_bytes num ty @ prefix_bytes base ty @ replicate k 0x30 @ zs @ ds)
     else Some (replicate k 0x20 @ sign_bytes num ty @ prefix_bytes base ty @ zs @ ds)) \<and>
    (2 \<le> sint base \<and> sint base \<le> 36 \<longrightarrow>
     value_of (unat base) (digits_of (unat base) (unat (magnitude num ty))) = unat (magnitude num ty))"
proof (cases "sint base < 2 \<or> 36 < sint base")
  case True
  then show ?thesis by (auto simp: number_def)
next
  case False
  then have b: "2 \<le> unat base" "unat base \<le> 36"
    using sint_u32 [of base] unat_u32_less [of base] by (cases "unat base < 2147483648"; simp only: if_True if_False; linarith)+
  from number_accepted [OF b assms] value_digits [OF b(1)] False show ?thesis by simp
qed

theorem number_layout_witness:
  "number 255 16 6 (- 1) 33 = Some [0x30, 0x58, 0x30, 0x30, 0x46, 0x46]"
proof -
  have f: "(33 :: u32) AND LEFT = 0" "(33 :: u32) AND ZEROPAD \<noteq> 0" "(33 :: u32) AND SMALL = 0" "(33 :: u32) AND SIGN = 0"
    "(33 :: u32) AND PLUS = 0" "(33 :: u32) AND SPACE = 0" "(33 :: u32) AND SPECIAL \<noteq> 0"
    by (simp_all add: LEFT_def ZEROPAD_def SMALL_def SIGN_def PLUS_def SPACE_def SPECIAL_def)
  have m: "magnitude 255 33 = 255" "sign_bytes 255 33 = []" "prefix_bytes 16 33 = [0x30, 0x58]"
    using f by (simp_all add: magnitude_def sign_bytes_def prefix_bytes_def)
  have d: "digit_bytes False 16 255 = [0x46, 0x46]" by (simp add: digits_of.simps [of 16 255] digits_of.simps [of 16 15] digit_char_def)
  have P: "- 1 \<le> sint (6 :: u32)" "sint (6 :: u32) \<le> 2 ^ 30" "- 1 \<le> sint (- 1 :: u32)" "sint (- 1 :: u32) \<le> 2 ^ 30"
    by simp_all
  have b: "\<not> (sint (16 :: u32) < 2 \<or> 36 < sint (16 :: u32))" by simp
  have ds: "[0x46, 0x46] = digit_bytes ((33 :: u32) AND SMALL \<noteq> 0) 16 (magnitude 255 33)" unfolding m f(3) using d by simp
  have zs: "[] = replicate (nat (sint (- 1 :: u32)) - length [0x46, 0x46 :: u8]) (0x30 :: u8)" by simp
  have k: "2 = nat (sint (6 :: u32)) - length (sign_bytes 255 33 @ prefix_bytes 16 33 @ [] @ [0x46, 0x46])" unfolding m by simp
  have "number 255 16 6 (- 1) 33 = Some (sign_bytes 255 33 @ prefix_bytes 16 33 @ replicate 2 0x30 @ [] @ [0x46, 0x46])"
    using conjunct1 [OF number_layout [OF P ds zs k]] by (simp only: f b if_False if_True simp_thms)
  then show ?thesis unfolding m by (simp add: numeral_2_eq_2)
qed

subsection \<open>A width or precision given as \<open>*\<close>\<close>

text \<open>
  A \<open>*\<close> in a format takes an argument, as the comment in the code says, but is not skipped: it is
  then read as an unknown conversion.  So \<open>%*d\<close> prints \<open>%*d\<close>, whatever the arguments, and so does \<open>%.*d\<close>
  without its dot; the number that was meant is not printed.
\<close>

lemma star_printed_literally:
  "vsprintf m [0x25, 0x2A, 0x64] (w # args) = Inr (3, m, [0x25, 0x2A, 0x64, 0]) \<and>
   vsprintf m [0x25, 0x2E, 0x2A, 0x64] (w # args) = Inr (3, m, [0x25, 0x2A, 0x64, 0])"
  by (simp add: vsprintf_def parse_width_def parse_precision_def is_digit_def va_arg_def skip_qualifier_def convert_def)

end
