(* ===== verification/Linux_Segments.thy ===== *)
theory Linux_Segments
  imports Linux_Mm Linux_Sys
begin

unbundle bit_operations_syntax

section \<open>Segments and user areas of linux-0.01 (\<open>sched.h\<close>, \<open>kernel/fork.c\<close>)\<close>

text \<open>
  A segment descriptor is the pair of its low and high word.  The base sits in the upper half of the low
  word and in the lowest and the highest byte of the high word; the limit in the lower half of the low word
  and in bits 16 to 19 of the high word, counted in pages when bit 23 is set.
\<close>

definition get_base :: "u32 \<times> u32 \<Rightarrow> u32" where
  "get_base d = (snd d AND 0xFF000000) OR push_bit 16 (snd d AND 0xFF) OR drop_bit 16 (fst d)"

definition set_base :: "u32 \<times> u32 \<Rightarrow> u32 \<Rightarrow> u32 \<times> u32" where
  "set_base d base =
     ((fst d AND 0xFFFF) OR push_bit 16 base,
      (snd d AND 0x00FFFF00) OR (drop_bit 16 base AND 0xFF) OR (base AND 0xFF000000))"

definition set_limit :: "u32 \<times> u32 \<Rightarrow> u32 \<Rightarrow> u32 \<times> u32" where
  "set_limit d limit =
     (let l = drop_bit 12 (limit - 1) in
      ((fst d AND 0xFFFF0000) OR (l AND 0xFFFF),
       (snd d AND NOT 0x00FF0000) OR ((snd d AND 0x00F00000) OR (l AND 0x00FF0000))))"

text \<open>\<open>lsll\<close> and \<open>incl\<close> on the descriptor that a selector of the current task refers to.\<close>

definition lsl_limit :: "u32 \<times> u32 \<Rightarrow> u32" where
  "lsl_limit d =
     (let l = (fst d AND 0xFFFF) OR (snd d AND 0xF0000)
      in (if bit (snd d) 23 then push_bit 12 l OR 0xFFF else l) + 1)"

definition get_limit :: "u32 \<Rightarrow> 'a sched_state_scheme \<Rightarrow> u32" where
  "get_limit segment s = lsl_limit (t_ldt (cur s) ! unat (drop_bit 3 segment))"

subsection \<open>\<open>verify_area\<close> and \<open>copy_mem\<close>\<close>

text \<open>A call of \<open>do_exit\<close> inside \<open>write_verify\<close> does not come back.\<close>

fun verify_pages :: "nat \<Rightarrow> u32 \<Rightarrow> 'a mm_state_scheme \<Rightarrow> 'a mm_state_scheme res" where
  "verify_pages 0 start s = Inr s"
| "verify_pages (Suc n) start s =
     bindr (write_verify start s) (\<lambda>(e, s).
       case e of Some sg \<Rightarrow> Inl (Exits sg) | None \<Rightarrow> verify_pages n (start + 4096) s)"

text \<open>The loop \<open>while (size>0) { size -= 4096; \<dots> }\<close> runs once for every started page.\<close>

definition verify_area :: "u32 \<Rightarrow> u32 \<Rightarrow> 'a mm_state_scheme \<Rightarrow> 'a mm_state_scheme res" where
  "verify_area addr sz s =
     (let sz = sz + (addr AND 0xFFF);
          start = (addr AND 0xFFFFF000) + get_base (t_ldt (cur s) ! 2)
      in verify_pages (nat ((sint sz + 4095) div 4096)) start s)"

definition copy_mem :: "nat \<Rightarrow> u32 \<Rightarrow> 'a mm_state_scheme \<Rightarrow> (u32 \<times> 'a mm_state_scheme) res" where
  "copy_mem nr p s =
     (let code_limit = get_limit 0x0F s;
          data_limit = get_limit 0x17 s;
          old_code_base = get_base (t_ldt (cur s) ! 1);
          old_data_base = get_base (t_ldt (cur s) ! 2) in
      if old_data_base \<noteq> old_code_base then Inl (Panic ''We don't support separate I&D'')
      else if data_limit < code_limit then Inl (Panic ''Bad data_limit'')
      else let new_data_base = of_nat nr * 0x4000000;
               s = upd_task p (\<lambda>t. t\<lparr>t_ldt := (t_ldt t)[1 := set_base (t_ldt t ! 1) new_data_base]\<rparr>) s;
               s = upd_task p (\<lambda>t. t\<lparr>t_ldt := (t_ldt t)[2 := set_base (t_ldt t ! 2) new_data_base]\<rparr>) s
           in bindr (copy_page_tables old_data_base new_data_base data_limit s) (\<lambda>(r, s).
              if r \<noteq> 0
              then bindr (free_page_tables new_data_base data_limit s) (\<lambda>s. Inr (- ENOMEM, s))
              else Inr (0, s)))"

end
