(* ===== verification/Linux_Fs.thy ===== *)
theory Linux_Fs
  imports Linux_Segments "HOL-Library.Stream"
begin

unbundle bit_operations_syntax

section \<open>The state of the file system of linux-0.01 (\<open>include/linux/fs.h\<close>)\<close>

text \<open>
  The tables of the file system and the kernel they live in.  A pointer to a buffer head, an in-core inode,
  an open file or a super block is an index of its table, \<open>None\<close> for \<open>NULL\<close>; a buffer head holds the 1024
  bytes its \<open>b_data\<close> points to.  A process runs alone: where the code sleeps until another process or an
  interrupt other than the disk's changes something, the result is \<open>Blocks\<close>.  The wait queues are those of
  the scheduler, at the addresses of the \<open>b_wait\<close> and \<open>i_wait\<close> fields.  The segment \<open>fs\<close>, through which
  the kernel sees the memory of the process, is a byte memory of its own.
\<close>

record buffer_head =
  b_data :: "u8 list"
  b_dev :: u16
  b_blocknr :: u16
  b_uptodate :: u8
  b_dirt :: u8
  b_count :: u8
  b_lock :: u8
  b_prev :: "nat option"
  b_next :: "nat option"
  b_prev_free :: "nat option"
  b_next_free :: "nat option"

record d_inode =
  i_mode :: u16
  i_uid :: u16
  i_size :: u32
  i_mtime :: u32
  i_gid :: u8
  i_nlinks :: u8
  i_zone :: "u16 list"

record m_inode = d_inode +
  i_atime :: u32
  i_ctime :: u32
  i_dev :: u16
  i_num :: u16
  i_count :: u16
  i_lock :: u8
  i_dirt :: u8
  i_pipe :: u8
  i_mount :: u8
  i_seek :: u8
  i_update :: u8

record open_file =
  f_mode :: u16
  f_flags :: u16
  f_count :: u16
  f_inode :: "nat option"
  f_pos :: u32

record d_super_block =
  s_ninodes :: u16
  s_nzones :: u16
  s_imap_blocks :: u16
  s_zmap_blocks :: u16
  s_firstdatazone :: u16
  s_log_zone_size :: u16
  s_max_size :: u32
  s_magic :: u16

record super_block = d_super_block +
  s_imap :: "nat option list"
  s_zmap :: "nat option list"
  s_dev :: u16
  s_isup :: "nat option"
  s_imount :: "nat option"
  s_time :: u32
  s_rd_only :: u8
  s_dirt :: u8

record hd_struct =
  start_sect :: u32
  nr_sects :: u32

record hd_request =
  r_hd :: u32                         \<comment> \<open>\<open>-1\<close> if no request\<close>
  r_nsector :: u32
  r_sector :: u32
  r_head :: u32
  r_cyl :: u32
  r_cmd :: u32
  r_errors :: u32
  r_bh :: nat
  r_next :: "nat option"

text \<open>The routine that \<open>do_hd\<close> points to.\<close>

datatype hd_handler = Read_intr | Write_intr | Do_request

record fs_state = mm_state +
  buffers :: "buffer_head list"       \<comment> \<open>\<open>NR_BUFFERS\<close> heads from \<open>start_buffer\<close> on\<close>
  start_buffer :: u32                 \<comment> \<open>address of the first head\<close>
  hash_table :: "nat option list"
  free_list :: "nat option"
  inode_table :: "m_inode list"
  inode_table_addr :: u32
  last_allocated_inode :: nat
  file_table :: "open_file list"
  super_blocks :: "super_block list"
  buffer_wait_addr :: u32
  wait_for_request_addr :: u32
  user :: "u32 \<Rightarrow> u8"                 \<comment> \<open>the segment \<open>fs\<close>\<close>
  hd_parts :: "hd_struct list"        \<comment> \<open>the array \<open>hd\<close>\<close>
  request :: "hd_request list"
  this_request :: "nat option"
  do_hd :: "hd_handler option"
  sorting :: bool
  setup_callable :: bool
  dsk_sectors :: "nat \<Rightarrow> nat \<Rightarrow> u8 list"   \<comment> \<open>drive, sector number: 512 bytes\<close>
  dsk_pos :: "nat \<times> nat"                  \<comment> \<open>drive and sector the running command is at\<close>
  dsk_buffer :: "u8 list"                 \<comment> \<open>sector given to the controller, not yet written\<close>
  dsk_status :: "u8 stream"               \<comment> \<open>what the next reads of the status register at an interrupt return\<close>
  dsk_drq :: "bool stream"                \<comment> \<open>whether the next write commands raise the data request\<close>
  dsk_ready :: bool

definition NR_OPEN :: nat where "NR_OPEN = 20"
definition NR_INODE :: nat where "NR_INODE = 32"
definition NR_FILE :: nat where "NR_FILE = 64"
definition NR_SUPER :: nat where "NR_SUPER = 8"
definition NR_HASH :: nat where "NR_HASH = 307"
definition BLOCK_SIZE :: nat where "BLOCK_SIZE = 1024"
definition NAME_LEN :: nat where "NAME_LEN = 14"
definition SUPER_MAGIC :: u16 where "SUPER_MAGIC = 0x137F"
definition INODES_PER_BLOCK :: nat where "INODES_PER_BLOCK = BLOCK_SIZE div 32"
definition DIR_ENTRIES_PER_BLOCK :: nat where "DIR_ENTRIES_PER_BLOCK = BLOCK_SIZE div 16"

definition MAJOR :: "u32 \<Rightarrow> u32" where "MAJOR a = drop_bit 8 a"
definition MINOR :: "u32 \<Rightarrow> u32" where "MINOR a = a AND 0xFF"

definition S_ISREG :: "u16 \<Rightarrow> bool" where "S_ISREG m \<longleftrightarrow> m AND 0xF000 = 0x8000"
definition S_ISDIR :: "u16 \<Rightarrow> bool" where "S_ISDIR m \<longleftrightarrow> m AND 0xF000 = 0x4000"
definition S_ISCHR :: "u16 \<Rightarrow> bool" where "S_ISCHR m \<longleftrightarrow> m AND 0xF000 = 0x2000"
definition S_ISBLK :: "u16 \<Rightarrow> bool" where "S_ISBLK m \<longleftrightarrow> m AND 0xF000 = 0x6000"

definition CURRENT_TIME :: "'a sched_state_scheme \<Rightarrow> u32" where
  "CURRENT_TIME s = startup_time s + sdivi (jiffies s) 100"

subsection \<open>Following pointers\<close>

definition deref :: "string \<Rightarrow> 'p option \<Rightarrow> ('p \<Rightarrow> 'b res) \<Rightarrow> 'b res" where
  "deref what p k = (case p of None \<Rightarrow> Inl (Fault what) | Some i \<Rightarrow> k i)"

lemma deref_simps [simp]: "deref w (Some i) k = k i" "deref w None k = Inl (Fault w)"
  by (simp_all add: deref_def)

abbreviation buf :: "'a fs_state_scheme \<Rightarrow> nat \<Rightarrow> buffer_head" where "buf s i \<equiv> buffers s ! i"
abbreviation inode :: "'a fs_state_scheme \<Rightarrow> nat \<Rightarrow> m_inode" where "inode s i \<equiv> inode_table s ! i"
abbreviation filp :: "'a fs_state_scheme \<Rightarrow> nat \<Rightarrow> open_file" where "filp s i \<equiv> file_table s ! i"
abbreviation super :: "'a fs_state_scheme \<Rightarrow> nat \<Rightarrow> super_block" where "super s i \<equiv> super_blocks s ! i"

definition upd_buf :: "nat \<Rightarrow> (buffer_head \<Rightarrow> buffer_head) \<Rightarrow> 'a fs_state_scheme \<Rightarrow> 'a fs_state_scheme" where
  "upd_buf i f s = s\<lparr>buffers := (buffers s)[i := f (buffers s ! i)]\<rparr>"

definition upd_inode :: "nat \<Rightarrow> (m_inode \<Rightarrow> m_inode) \<Rightarrow> 'a fs_state_scheme \<Rightarrow> 'a fs_state_scheme" where
  "upd_inode i f s = s\<lparr>inode_table := (inode_table s)[i := f (inode_table s ! i)]\<rparr>"

definition upd_file :: "nat \<Rightarrow> (open_file \<Rightarrow> open_file) \<Rightarrow> 'a fs_state_scheme \<Rightarrow> 'a fs_state_scheme" where
  "upd_file i f s = s\<lparr>file_table := (file_table s)[i := f (file_table s ! i)]\<rparr>"

definition upd_super :: "nat \<Rightarrow> (super_block \<Rightarrow> super_block) \<Rightarrow> 'a fs_state_scheme \<Rightarrow> 'a fs_state_scheme" where
  "upd_super i f s = s\<lparr>super_blocks := (super_blocks s)[i := f (super_blocks s ! i)]\<rparr>"

text \<open>Addresses of the wait queues in a buffer head (36 bytes) and in an inode (56 bytes).\<close>

definition buf_addr :: "nat \<Rightarrow> 'a fs_state_scheme \<Rightarrow> u32" where
  "buf_addr i s = start_buffer s + of_nat (36 * i)"

definition b_wait :: "nat \<Rightarrow> 'a fs_state_scheme \<Rightarrow> u32" where "b_wait i s = buf_addr i s + 12"

definition i_wait :: "nat \<Rightarrow> 'a fs_state_scheme \<Rightarrow> u32" where
  "i_wait i s = inode_table_addr s + of_nat (56 * i) + 32"

definition get_super :: "u32 \<Rightarrow> 'a fs_state_scheme \<Rightarrow> nat option" where
  "get_super dev s = find (\<lambda>i. ucast (s_dev (super s i)) = dev) [0..<NR_SUPER]"

subsection \<open>Little-endian words in a block, and the memory of the process\<close>

definition get16 :: "u8 list \<Rightarrow> nat \<Rightarrow> u16" where
  "get16 l i = ucast (l ! i) OR push_bit 8 (ucast (l ! (i + 1)))"

definition put16 :: "nat \<Rightarrow> u16 \<Rightarrow> u8 list \<Rightarrow> u8 list" where
  "put16 i v l = l[i := ucast v, i + 1 := ucast (drop_bit 8 v)]"

definition get32 :: "u8 list \<Rightarrow> nat \<Rightarrow> u32" where
  "get32 l i = ucast (get16 l i) OR push_bit 16 (ucast (get16 l (i + 2)))"

definition put32 :: "nat \<Rightarrow> u32 \<Rightarrow> u8 list \<Rightarrow> u8 list" where
  "put32 i v l = put16 (i + 2) (ucast (drop_bit 16 v)) (put16 i (ucast v) l)"

definition put_fs_byte :: "u8 \<Rightarrow> u32 \<Rightarrow> 'a fs_state_scheme \<Rightarrow> 'a fs_state_scheme" where
  "put_fs_byte v a s = s\<lparr>user := (user s)(a := v)\<rparr>"

fun put_fs_bytes :: "u8 list \<Rightarrow> u32 \<Rightarrow> 'a fs_state_scheme \<Rightarrow> 'a fs_state_scheme" where
  "put_fs_bytes [] a s = s"
| "put_fs_bytes (v # vs) a s = put_fs_bytes vs (a + 1) (put_fs_byte v a s)"

definition get_fs_byte :: "u32 \<Rightarrow> 'a fs_state_scheme \<Rightarrow> u8" where
  "get_fs_byte a s = user s a"

definition get_fs_bytes :: "nat \<Rightarrow> u32 \<Rightarrow> 'a fs_state_scheme \<Rightarrow> u8 list" where
  "get_fs_bytes n a s = map (\<lambda>i. get_fs_byte (a + of_nat i) s) [0..<n]"

definition get_fs_long :: "u32 \<Rightarrow> 'a fs_state_scheme \<Rightarrow> u32" where
  "get_fs_long a s = get32 (get_fs_bytes 4 a s) 0"

definition put_fs_long :: "u32 \<Rightarrow> u32 \<Rightarrow> 'a fs_state_scheme \<Rightarrow> 'a fs_state_scheme" where
  "put_fs_long v a s = put_fs_bytes (put32 0 v (replicate 4 0)) a s"

text \<open>Overwriting part of a block; a range that leaves it is a fault.\<close>

definition splice :: "nat \<Rightarrow> 'b list \<Rightarrow> 'b list \<Rightarrow> 'b list" where
  "splice i new l = take i l @ new @ drop (i + length new) l"

subsection \<open>Inodes and super blocks as they are on the disk\<close>

definition d_inode_of :: "u8 list \<Rightarrow> nat \<Rightarrow> m_inode \<Rightarrow> m_inode" where
  "d_inode_of l k m =
     m\<lparr>i_mode := get16 l k, i_uid := get16 l (k + 2), i_size := get32 l (k + 4), i_mtime := get32 l (k + 8),
       i_gid := l ! (k + 12), i_nlinks := l ! (k + 13), i_zone := map (\<lambda>j. get16 l (k + 14 + 2 * j)) [0..<9]\<rparr>"

definition bytes_of_inode :: "m_inode \<Rightarrow> u8 list" where
  "bytes_of_inode m =
     put16 0 (i_mode m) (put16 2 (i_uid m) (put32 4 (i_size m) (put32 8 (i_mtime m) (replicate 12 0))))
     @ [i_gid m, i_nlinks m] @ concat (map (\<lambda>z. put16 0 z [0, 0]) (i_zone m))"

definition zero_inode :: m_inode where
  "zero_inode = \<lparr>i_mode = 0, i_uid = 0, i_size = 0, i_mtime = 0, i_gid = 0, i_nlinks = 0, i_zone = replicate 9 0,
     i_atime = 0, i_ctime = 0, i_dev = 0, i_num = 0, i_count = 0, i_lock = 0, i_dirt = 0, i_pipe = 0, i_mount = 0,
     i_seek = 0, i_update = 0\<rparr>"

end
