(* ===== verification/Linux_Hd.thy ===== *)
theory Linux_Hd
  imports Linux_Fs
begin

unbundle bit_operations_syntax

section \<open>The hard disk driver of linux-0.01 (\<open>kernel/hd.c\<close>)\<close>

text \<open>
  The driver queues requests, starts the one at the head of the queue and goes on from the interrupt routine
  that \<open>do_hd\<close> points to.  The controller is the part of the state with the prefix \<open>dsk_\<close>: a read
  command presents one sector after another from the addressed one on, a write command takes them; at every
  interrupt the status register says whether the sector was transferred, and a sector whose status is bad
  has not been written.  What the status register returns at one interrupt after the other is the stream
  \<open>dsk_status\<close>, and whether the controller asks for data within the 3000 polls that follow a write command is the
  stream \<open>dsk_drq\<close>; both may be anything.  A process that waits for its buffer lets the disk interrupts through.
\<close>

definition MAX_ERRORS :: u32 where "MAX_ERRORS = 5"
definition NR_HD :: u32 where "NR_HD = 2"
definition NR_REQUEST :: nat where "NR_REQUEST = 32"
definition WIN_READ :: u32 where "WIN_READ = 0x20"
definition WIN_WRITE :: u32 where "WIN_WRITE = 0x30"
definition WIN_SPECIFY :: u32 where "WIN_SPECIFY = 0x91"
definition READ :: u32 where "READ = 0"
definition WRITE :: u32 where "WRITE = 1"

record hd_i_struct =
  head :: u32
  sect :: u32
  cyl :: u32

definition hd_info :: "hd_i_struct list" where
  "hd_info = replicate 2 \<lparr>head = 5, sect = 17, cyl = 980\<rparr>"

definition IN_ORDER :: "hd_request \<Rightarrow> hd_request \<Rightarrow> bool" where
  "IN_ORDER s1 s2 \<longleftrightarrow>
     sint (r_hd s1) < sint (r_hd s2) \<or> r_hd s1 = r_hd s2 \<and>
     (sint (r_cyl s1) < sint (r_cyl s2) \<or> r_cyl s1 = r_cyl s2 \<and>
     (sint (r_head s1) < sint (r_head s2) \<or> r_head s1 = r_head s2 \<and>
     sint (r_sector s1) < sint (r_sector s2)))"

abbreviation req :: "'a fs_state_scheme \<Rightarrow> nat \<Rightarrow> hd_request" where "req s i \<equiv> request s ! i"

definition upd_req :: "nat \<Rightarrow> (hd_request \<Rightarrow> hd_request) \<Rightarrow> 'a fs_state_scheme \<Rightarrow> 'a fs_state_scheme" where
  "upd_req i f s = s\<lparr>request := (request s)[i := f (request s ! i)]\<rparr>"

definition lock_buffer :: "nat \<Rightarrow> 'a fs_state_scheme \<Rightarrow> 'a fs_state_scheme" where
  "lock_buffer bh s = upd_buf bh (\<lambda>b. b\<lparr>b_lock := 1\<rparr>) s"

definition unlock_buffer :: "nat \<Rightarrow> 'a fs_state_scheme \<Rightarrow> 'a fs_state_scheme" where
  "unlock_buffer bh s = wake_up (b_wait bh s) (upd_buf bh (\<lambda>b. b\<lparr>b_lock := 0\<rparr>) s)"

subsection \<open>The controller\<close>

text \<open>The sector that the registers written by \<open>hd_out\<close> address.\<close>

definition sector_number :: "u32 \<Rightarrow> u32 \<Rightarrow> u32 \<Rightarrow> nat" where
  "sector_number sec hed cy = (unat (cy AND 0xFFFF) * 5 + unat hed) * 17 + unat (sec AND 0xFF) - 1"

definition dsk_command :: "u32 \<Rightarrow> u32 \<Rightarrow> u32 \<Rightarrow> u32 \<Rightarrow> u32 \<Rightarrow> 'a fs_state_scheme \<Rightarrow> 'a fs_state_scheme" where
  "dsk_command drive sec hed cy cmd s =
     (if cmd = WIN_READ \<or> cmd = WIN_WRITE then s\<lparr>dsk_pos := (unat drive, sector_number sec hed cy)\<rparr> else s)"

definition dsk_current :: "'a fs_state_scheme \<Rightarrow> u8 list" where
  "dsk_current s = dsk_sectors s (fst (dsk_pos s)) (snd (dsk_pos s))"

definition dsk_advance :: "'a fs_state_scheme \<Rightarrow> 'a fs_state_scheme" where
  "dsk_advance s = s\<lparr>dsk_pos := (fst (dsk_pos s), snd (dsk_pos s) + 1)\<rparr>"

definition dsk_commit :: "'a fs_state_scheme \<Rightarrow> 'a fs_state_scheme" where
  "dsk_commit s =
     (let (d, n) = dsk_pos s
      in dsk_advance (s\<lparr>dsk_sectors := (dsk_sectors s)(d := (dsk_sectors s d)(n := dsk_buffer s))\<rparr>))"

definition win_result :: "'a fs_state_scheme \<Rightarrow> bool \<times> 'a fs_state_scheme" where
  "win_result s =
     (let i = shd (dsk_status s)
      in (i AND 0xF1 \<noteq> 0x50, s\<lparr>dsk_status := stl (dsk_status s)\<rparr>))"

text \<open>The test at the end of \<open>drive_busy\<close>, with the precedence of C: \<open>(i == READY_STAT) | SEEK_STAT\<close>.\<close>

definition drive_busy :: "u8 \<Rightarrow> u32" where
  "drive_busy st =
     (let i = ucast st AND (0xD0 :: u32)
      in if ((if i = 0x40 then 1 else 0) OR (0x10 :: u32)) \<noteq> 0 then 0 else 1)"

definition hd_out :: "u32 \<Rightarrow> u32 \<Rightarrow> u32 \<Rightarrow> u32 \<Rightarrow> u32 \<Rightarrow> u32 \<Rightarrow> hd_handler \<Rightarrow>
    'a fs_state_scheme \<Rightarrow> 'a fs_state_scheme res" where
  "hd_out drive nsect sec hed cy cmd intr_addr s =
     (if drive > 1 \<or> hed > 15 then Inl (Panic ''Trying to write bad sector'')
      else if \<not> dsk_ready s then Inl (Panic ''HD controller not ready'')
      else Inr (dsk_command drive sec hed cy cmd (s\<lparr>do_hd := Some intr_addr\<rparr>)))"

text \<open>\<open>reset_controller\<close> changes nothing but ports (\<open>Linux_Controller\<close>); the drive parameters are set again.\<close>

definition reset_hd :: "u32 \<Rightarrow> 'a fs_state_scheme \<Rightarrow> 'a fs_state_scheme res" where
  "reset_hd nr s = hd_out nr 17 17 4 977 WIN_SPECIFY Do_request s"

subsection \<open>Interrupts\<close>

definition do_request :: "'a fs_state_scheme \<Rightarrow> 'a fs_state_scheme res" where
  "do_request s =
     (if sorting s then Inr s
      else case this_request s of
        None \<Rightarrow> Inr (s\<lparr>do_hd := None\<rparr>)
      | Some t \<Rightarrow>
          let r = req s t in
          if r_cmd r = WIN_WRITE
          then bindr (hd_out (r_hd r) (r_nsector r) (r_sector r) (r_head r) (r_cyl r) (r_cmd r) Write_intr s) (\<lambda>s.
               let drq = shd (dsk_drq s);
                   s = s\<lparr>dsk_drq := stl (dsk_drq s)\<rparr> in
               if \<not> drq then reset_hd (r_hd r) s
               else Inr (s\<lparr>dsk_buffer := take 512 (drop (512 * unat (r_nsector r AND 1)) (b_data (buf s (r_bh r))))\<rparr>))
          else if r_cmd r = WIN_READ
          then hd_out (r_hd r) (r_nsector r) (r_sector r) (r_head r) (r_cyl r) (r_cmd r) Read_intr s
          else Inl (Panic ''unknown hd-command''))"

text \<open>The end of a request, good or bad.\<close>

definition drop_request :: "nat \<Rightarrow> 'a fs_state_scheme \<Rightarrow> 'a fs_state_scheme" where
  "drop_request t s = (upd_req t (\<lambda>r. r\<lparr>r_hd := - 1\<rparr>) s)\<lparr>this_request := r_next (req s t)\<rparr>"

definition bad_rw_intr :: "'a fs_state_scheme \<Rightarrow> 'a fs_state_scheme res" where
  "bad_rw_intr s =
     deref ''this_request'' (this_request s) (\<lambda>t.
       let i = r_hd (req s t);
           errors = r_errors (req s t);
           s = upd_req t (\<lambda>r. r\<lparr>r_errors := r_errors r + 1\<rparr>) s;
           s = (if sint errors \<ge> sint MAX_ERRORS
                then let s = upd_buf (r_bh (req s t)) (\<lambda>b. b\<lparr>b_uptodate := 0\<rparr>) s;
                         s = unlock_buffer (r_bh (req s t)) s;
                         s = wake_up (wait_for_request_addr s) s
                     in drop_request t s
                else s)
       in reset_hd i s)"

definition end_request :: "nat \<Rightarrow> 'a fs_state_scheme \<Rightarrow> 'a fs_state_scheme res" where
  "end_request t s =
     (let bh = r_bh (req s t);
          s = upd_buf bh (\<lambda>b. b\<lparr>b_uptodate := 1, b_dirt := 0\<rparr>) s;
          s = wake_up (wait_for_request_addr s) s;
          s = unlock_buffer bh s
      in do_request (drop_request t s))"

definition read_intr :: "'a fs_state_scheme \<Rightarrow> 'a fs_state_scheme res" where
  "read_intr s =
     (let (bad, s) = win_result s in
      if bad then bad_rw_intr s
      else deref ''this_request'' (this_request s) (\<lambda>t.
        let off = 512 * unat (r_nsector (req s t) AND 1);
            s = dsk_advance (upd_buf (r_bh (req s t)) (\<lambda>b. b\<lparr>b_data := splice off (dsk_current s) (b_data b)\<rparr>) s);
            s = upd_req t (\<lambda>r. r\<lparr>r_errors := 0, r_nsector := r_nsector r - 1\<rparr>) s
        in if r_nsector (req s t) \<noteq> 0 then Inr s else end_request t s))"

definition write_intr :: "'a fs_state_scheme \<Rightarrow> 'a fs_state_scheme res" where
  "write_intr s =
     (let (bad, s) = win_result s in
      if bad then bad_rw_intr s
      else deref ''this_request'' (this_request s) (\<lambda>t.
        let s = upd_req t (\<lambda>r. r\<lparr>r_nsector := r_nsector r - 1\<rparr>) (dsk_commit s)
        in if r_nsector (req s t) \<noteq> 0
           then Inr (s\<lparr>dsk_buffer := take 512 (drop 512 (b_data (buf s (r_bh (req s t)))))\<rparr>)
           else end_request t s))"

definition hd_interrupt :: "'a fs_state_scheme \<Rightarrow> 'a fs_state_scheme res" where
  "hd_interrupt s =
     (case do_hd s of
        None \<Rightarrow> Inl (Panic ''Unexpected HD interrupt'')
      | Some Read_intr \<Rightarrow> read_intr s
      | Some Write_intr \<Rightarrow> write_intr s
      | Some Do_request \<Rightarrow> do_request s)"

text \<open>\<open>wait_on_buffer\<close> of the driver: asleep while the buffer is locked, with interrupts coming in.\<close>

partial_function (option) hd_wait_on_buffer :: "nat \<Rightarrow> 'a fs_state_scheme \<Rightarrow> 'a fs_state_scheme res option" where
  "hd_wait_on_buffer bh s =
     (if b_lock (buf s bh) = 0 then Some (Inr s)
      else if do_hd s = None then Some (Inl (Blocks ''b_wait''))
      else bindo (hd_interrupt s) (hd_wait_on_buffer bh))"

subsection \<open>The queue of requests\<close>

text \<open>The loop of \<open>add_request\<close>; a walk of more than \<open>NR_REQUEST\<close> steps is on a circular list.\<close>

fun elevator :: "nat \<Rightarrow> nat \<Rightarrow> nat \<Rightarrow> 'a fs_state_scheme \<Rightarrow> nat res" where
  "elevator 0 rq tmp s = Inl Diverge"
| "elevator (Suc n) rq tmp s =
     (case r_next (req s tmp) of
        None \<Rightarrow> Inr tmp
      | Some nx \<Rightarrow>
          if (IN_ORDER (req s tmp) (req s rq) \<or> \<not> IN_ORDER (req s tmp) (req s nx)) \<and> IN_ORDER (req s rq) (req s nx)
          then Inr tmp
          else elevator n rq nx s)"

definition link_request :: "nat \<Rightarrow> nat \<Rightarrow> 'a fs_state_scheme \<Rightarrow> 'a fs_state_scheme" where
  "link_request rq tmp s =
     upd_req tmp (\<lambda>r. r\<lparr>r_next := Some rq\<rparr>) (upd_req rq (\<lambda>r. r\<lparr>r_next := r_next (req s tmp)\<rparr>) s)"

definition enqueue_request :: "nat \<Rightarrow> 'a fs_state_scheme \<Rightarrow> 'a fs_state_scheme res" where
  "enqueue_request rq s =
     (case this_request s of
        None \<Rightarrow> Inr (s\<lparr>this_request := Some rq\<rparr>)
      | Some tmp \<Rightarrow>
          (case r_next (req s tmp) of
             None \<Rightarrow> Inr (upd_req tmp (\<lambda>r. r\<lparr>r_next := Some rq\<rparr>) s)
           | Some tmp \<Rightarrow> bindr (elevator (Suc NR_REQUEST) rq tmp s) (\<lambda>tmp. Inr (link_request rq tmp s))))"

definition add_request :: "nat \<Rightarrow> 'a fs_state_scheme \<Rightarrow> 'a fs_state_scheme res" where
  "add_request rq s =
     (if r_nsector (req s rq) \<noteq> 2 then Inl (Panic ''nsector!=2 not implemented'')
      else bindr (enqueue_request rq (s\<lparr>sorting := True\<rparr>)) (\<lambda>s.
        let s = s\<lparr>sorting := False\<rparr>
        in if do_hd s = None then do_request s else Inr s))"

definition rw_abs_hd :: "u32 \<Rightarrow> u32 \<Rightarrow> u32 \<Rightarrow> u32 \<Rightarrow> u32 \<Rightarrow> nat \<Rightarrow> 'a fs_state_scheme \<Rightarrow> 'a fs_state_scheme res" where
  "rw_abs_hd rw nr sec hed cy bh s =
     (if rw \<noteq> READ \<and> rw \<noteq> WRITE then Inl (Panic ''Bad hd command, must be R/W'')
      else let s = lock_buffer bh s in
           case find (\<lambda>i. sint (r_hd (req s i)) < 0) [0..<NR_REQUEST] of
             None \<Rightarrow> Inl (Blocks ''wait_for_request'')
           | Some rq \<Rightarrow>
               let s = upd_req rq (\<lambda>r. \<lparr>r_hd = nr, r_nsector = 2, r_sector = sec, r_head = hed, r_cyl = cy,
                         r_cmd = (if rw = READ then WIN_READ else WIN_WRITE), r_errors = 0, r_bh = bh, r_next = None\<rparr>) s
               in bindr (add_request rq s) (\<lambda>s. loop_res (hd_wait_on_buffer bh s)))"

definition rw_hd :: "u32 \<Rightarrow> nat \<Rightarrow> 'a fs_state_scheme \<Rightarrow> 'a fs_state_scheme res" where
  "rw_hd rw bh s =
     (let block = push_bit 1 (ucast (b_blocknr (buf s bh)));
          dev = MINOR (ucast (b_dev (buf s bh))) in
      if dev \<ge> 5 * NR_HD \<or> block + 2 > nr_sects (hd_parts s ! unat dev) then Inr s
      else let block = block + start_sect (hd_parts s ! unat dev);
               dev = dev div 5;
               sec = block mod sect (hd_info ! unat dev);
               block = block div sect (hd_info ! unat dev);
               hed = block mod head (hd_info ! unat dev);
               cy = block div head (hd_info ! unat dev)
           in rw_abs_hd rw dev (sec + 1) hed cy bh s)"

definition hd_init :: "'a fs_state_scheme \<Rightarrow> 'a fs_state_scheme" where
  "hd_init s =
     (let s = s\<lparr>request := map (\<lambda>r. r\<lparr>r_hd := - 1, r_next := None\<rparr>) (request s)\<rparr>
      in s\<lparr>hd_parts := fold (\<lambda>i p. p[5 * i := \<lparr>start_sect = 0,
             nr_sects = head (hd_info ! i) * sect (hd_info ! i) * cyl (hd_info ! i)\<rparr>]) [0..<2] (hd_parts s)\<rparr>)"

subsection \<open>\<open>ll_rw_block\<close> (\<open>fs/block_dev.c\<close>)\<close>

text \<open>The table \<open>rd_blk\<close> has seven entries, of which only that of the hard disk is not \<open>NULL\<close>.\<close>

definition ll_rw_block :: "u32 \<Rightarrow> nat \<Rightarrow> 'a fs_state_scheme \<Rightarrow> 'a fs_state_scheme res" where
  "ll_rw_block rw bh s =
     (if MAJOR (ucast (b_dev (buf s bh))) = 3 then rw_hd rw bh s
      else Inl (Panic ''Trying to read nonexistent block-device''))"

end
