(* ===== verification/Linux_Buffer.thy ===== *)
theory Linux_Buffer
  imports Linux_Hd
begin

unbundle bit_operations_syntax

section \<open>The buffer cache of linux-0.01 (\<open>fs/buffer.c\<close>)\<close>

text \<open>
  Every buffer head is on a circular free list, in the order of use, and on a hash queue when it has a
  device.  A hash queue longer than the number of buffers is circular, and the walk along it does not end.
  \<open>getblk\<close> never returns \<open>NULL\<close>, so its result here is the index of a buffer.
\<close>

definition wait_on_buffer :: "nat \<Rightarrow> 'a fs_state_scheme \<Rightarrow> 'a fs_state_scheme res" where
  "wait_on_buffer bh s = (if b_lock (buf s bh) \<noteq> 0 then Inl (Blocks ''b_wait'') else Inr s)"

text \<open>One step of the loops of \<open>sys_sync\<close> and \<open>sync_dev\<close>.\<close>

definition sync_buffer :: "nat \<Rightarrow> 'a fs_state_scheme \<Rightarrow> 'a fs_state_scheme res" where
  "sync_buffer bh s =
     bindr (wait_on_buffer bh s) (\<lambda>s. if b_dirt (buf s bh) \<noteq> 0 then ll_rw_block WRITE bh s else Inr s)"

fun sync_dev_from :: "nat list \<Rightarrow> u32 \<Rightarrow> 'a fs_state_scheme \<Rightarrow> 'a fs_state_scheme res" where
  "sync_dev_from [] dev s = Inr s"
| "sync_dev_from (i # is) dev s =
     (if ucast (b_dev (buf s i)) \<noteq> dev then sync_dev_from is dev s
      else bindr (sync_buffer i s) (sync_dev_from is dev))"

definition sync_dev :: "u32 \<Rightarrow> 'a fs_state_scheme \<Rightarrow> 'a fs_state_scheme res" where
  "sync_dev dev s = sync_dev_from [0..<length (buffers s)] dev s"

definition hashfn :: "u32 \<Rightarrow> u32 \<Rightarrow> nat" where
  "hashfn dev block = unat ((dev XOR block) mod of_nat NR_HASH)"

definition hash_of :: "buffer_head \<Rightarrow> nat" where
  "hash_of b = hashfn (ucast (b_dev b)) (ucast (b_blocknr b))"

definition set_hash :: "nat \<Rightarrow> nat option \<Rightarrow> 'a fs_state_scheme \<Rightarrow> 'a fs_state_scheme" where
  "set_hash k p s = s\<lparr>hash_table := (hash_table s)[k := p]\<rparr>"

definition upd_buf_ptr :: "nat option \<Rightarrow> (buffer_head \<Rightarrow> buffer_head) \<Rightarrow> 'a fs_state_scheme \<Rightarrow> 'a fs_state_scheme" where
  "upd_buf_ptr p f s = (case p of None \<Rightarrow> s | Some i \<Rightarrow> upd_buf i f s)"

definition remove_from_hash :: "nat \<Rightarrow> 'a fs_state_scheme \<Rightarrow> 'a fs_state_scheme" where
  "remove_from_hash bh s =
     (let s = upd_buf_ptr (b_next (buf s bh)) (\<lambda>b. b\<lparr>b_prev := b_prev (buf s bh)\<rparr>) s;
          s = upd_buf_ptr (b_prev (buf s bh)) (\<lambda>b. b\<lparr>b_next := b_next (buf s bh)\<rparr>) s
      in if hash_table s ! hash_of (buf s bh) = Some bh
         then set_hash (hash_of (buf s bh)) (b_next (buf s bh)) s else s)"

definition remove_from_free :: "nat \<Rightarrow> 'a fs_state_scheme \<Rightarrow> 'a fs_state_scheme res" where
  "remove_from_free bh s =
     (case (b_prev_free (buf s bh), b_next_free (buf s bh)) of
        (Some p, Some n) \<Rightarrow>
          let s = upd_buf p (\<lambda>b. b\<lparr>b_next_free := b_next_free (buf s bh)\<rparr>) s;
              s = upd_buf n (\<lambda>b. b\<lparr>b_prev_free := b_prev_free (buf s bh)\<rparr>) s
          in Inr (if free_list s = Some bh then s\<lparr>free_list := b_next_free (buf s bh)\<rparr> else s)
      | _ \<Rightarrow> Inl (Panic ''Free block list corrupted''))"

definition remove_from_queues :: "nat \<Rightarrow> 'a fs_state_scheme \<Rightarrow> 'a fs_state_scheme res" where
  "remove_from_queues bh s = remove_from_free bh (remove_from_hash bh s)"

definition insert_into_free :: "nat \<Rightarrow> 'a fs_state_scheme \<Rightarrow> 'a fs_state_scheme res" where
  "insert_into_free bh s =
     deref ''free_list'' (free_list s) (\<lambda>fl.
       let s = upd_buf bh (\<lambda>b. b\<lparr>b_next_free := Some fl\<rparr>) s;
           s = upd_buf bh (\<lambda>b. b\<lparr>b_prev_free := b_prev_free (buf s fl)\<rparr>) s
       in deref ''b_prev_free'' (b_prev_free (buf s fl)) (\<lambda>last.
          let s = upd_buf last (\<lambda>b. b\<lparr>b_next_free := Some bh\<rparr>) s
          in Inr (upd_buf fl (\<lambda>b. b\<lparr>b_prev_free := Some bh\<rparr>) s)))"

text \<open>
  \<open>bh->b_next->b_prev = bh\<close> is executed also when \<open>b_next\<close> is \<open>NULL\<close>: it then writes the word at address
  16, the offset of \<open>b_prev\<close>, which is an entry of the page directory.
\<close>

definition insert_into_hash :: "nat \<Rightarrow> 'a fs_state_scheme \<Rightarrow> 'a fs_state_scheme" where
  "insert_into_hash bh s =
     (let s = upd_buf bh (\<lambda>b. b\<lparr>b_prev := None, b_next := None\<rparr>) s in
      if b_dev (buf s bh) = 0 then s
      else let s = upd_buf bh (\<lambda>b. b\<lparr>b_next := hash_table s ! hash_of b\<rparr>) s;
               s = set_hash (hash_of (buf s bh)) (Some bh) s
           in case b_next (buf s bh) of
                None \<Rightarrow> wr 16 (buf_addr bh s) s
              | Some n \<Rightarrow> upd_buf n (\<lambda>b. b\<lparr>b_prev := Some bh\<rparr>) s)"

definition insert_into_queues :: "nat \<Rightarrow> 'a fs_state_scheme \<Rightarrow> 'a fs_state_scheme res" where
  "insert_into_queues bh s = bindr (insert_into_free bh s) (\<lambda>s. Inr (insert_into_hash bh s))"

fun find_from :: "nat \<Rightarrow> nat option \<Rightarrow> u32 \<Rightarrow> u32 \<Rightarrow> 'a fs_state_scheme \<Rightarrow> nat option res" where
  "find_from n None dev block s = Inr None"
| "find_from 0 (Some t) dev block s = Inl Diverge"
| "find_from (Suc n) (Some t) dev block s =
     (if ucast (b_dev (buf s t)) = dev \<and> ucast (b_blocknr (buf s t)) = block then Inr (Some t)
      else find_from n (b_next (buf s t)) dev block s)"

definition find_buffer :: "u32 \<Rightarrow> u32 \<Rightarrow> 'a fs_state_scheme \<Rightarrow> nat option res" where
  "find_buffer dev block s = find_from (length (buffers s)) (hash_table s ! hashfn dev block) dev block s"

definition brelse :: "nat \<Rightarrow> 'a fs_state_scheme \<Rightarrow> 'a fs_state_scheme res" where
  "brelse bh s =
     bindr (wait_on_buffer bh s) (\<lambda>s.
       if b_count (buf s bh) = 0 then Inl (Panic ''Trying to free free buffer'')
       else let s = upd_buf bh (\<lambda>b. b\<lparr>b_count := b_count b - 1\<rparr>) s
            in Inr (wake_up (buffer_wait_addr s) s))"

partial_function (option) get_hash_loop ::
    "u32 \<Rightarrow> u32 \<Rightarrow> 'a fs_state_scheme \<Rightarrow> (nat option \<times> 'a fs_state_scheme) res option" where
  "get_hash_loop dev block s =
     bindo (find_buffer dev block s) (\<lambda>r.
       case r of
         None \<Rightarrow> Some (Inr (None, s))
       | Some bh \<Rightarrow>
           bindo (wait_on_buffer bh (upd_buf bh (\<lambda>b. b\<lparr>b_count := b_count b + 1\<rparr>) s)) (\<lambda>s.
           if ucast (b_dev (buf s bh)) \<noteq> dev \<or> ucast (b_blocknr (buf s bh)) \<noteq> block
           then bindo (brelse bh s) (get_hash_loop dev block)
           else Some (Inr (Some bh, s))))"

definition get_hash_table :: "u32 \<Rightarrow> u32 \<Rightarrow> 'a fs_state_scheme \<Rightarrow> (nat option \<times> 'a fs_state_scheme) res" where
  "get_hash_table dev block s = loop_res (get_hash_loop dev block s)"

text \<open>
  The loop over the free list from \<open>tmp\<close> on: the first buffer nobody uses, \<open>None\<close> when the walk is back at
  the head of the list.
\<close>

fun free_buffer :: "nat \<Rightarrow> nat \<Rightarrow> 'a fs_state_scheme \<Rightarrow> nat option res" where
  "free_buffer 0 tmp s = Inl Diverge"
| "free_buffer (Suc n) tmp s =
     bindr (if b_count (buf s tmp) = 0 then bindr (wait_on_buffer tmp s) (\<lambda>_. Inr True) else Inr False) (\<lambda>found.
       if found then Inr (Some tmp)
       else deref ''b_next_free'' (b_next_free (buf s tmp)) (\<lambda>tmp.
         if Some tmp = free_list s then Inr None else free_buffer n tmp s))"

partial_function (option) getblk_loop ::
    "u32 \<Rightarrow> u32 \<Rightarrow> 'a fs_state_scheme \<Rightarrow> (nat \<times> 'a fs_state_scheme) res option" where
  "getblk_loop dev block s =
     bindo (get_hash_table dev block s) (\<lambda>(r, s).
       case r of
         Some bh \<Rightarrow> Some (Inr (bh, s))
       | None \<Rightarrow>
           bindo (deref ''free_list'' (free_list s) (\<lambda>fl. free_buffer (length (buffers s)) fl s)) (\<lambda>t.
           case t of
             None \<Rightarrow> Some (Inl (Blocks ''buffer_wait''))
           | Some tmp \<Rightarrow>
               bindo (remove_from_queues tmp (upd_buf tmp (\<lambda>b. b\<lparr>b_count := b_count b + 1\<rparr>) s)) (\<lambda>s.
               bindo (if b_dirt (buf s tmp) \<noteq> 0 then sync_dev (ucast (b_dev (buf s tmp))) s else Inr s) (\<lambda>s.
               let s = upd_buf tmp (\<lambda>b. b\<lparr>b_dev := ucast dev, b_blocknr := ucast block, b_dirt := 0, b_uptodate := 0\<rparr>) s in
               bindo (find_buffer dev block s) (\<lambda>r.
               if r \<noteq> None
               then bindo (insert_into_queues tmp
                        (upd_buf tmp (\<lambda>b. b\<lparr>b_dev := 0, b_blocknr := 0, b_count := 0\<rparr>) s)) (getblk_loop dev block)
               else bindo (insert_into_queues tmp s) (\<lambda>s. Some (Inr (tmp, s))))))))"

definition getblk :: "u32 \<Rightarrow> u32 \<Rightarrow> 'a fs_state_scheme \<Rightarrow> (nat \<times> 'a fs_state_scheme) res" where
  "getblk dev block s = loop_res (getblk_loop dev block s)"

definition bread :: "u32 \<Rightarrow> u32 \<Rightarrow> 'a fs_state_scheme \<Rightarrow> (nat option \<times> 'a fs_state_scheme) res" where
  "bread dev block s =
     bindr (getblk dev block s) (\<lambda>(bh, s).
       if b_uptodate (buf s bh) \<noteq> 0 then Inr (Some bh, s)
       else bindr (ll_rw_block READ bh s) (\<lambda>s.
         if b_uptodate (buf s bh) \<noteq> 0 then Inr (Some bh, s)
         else bindr (brelse bh s) (\<lambda>s. Inr (None, s))))"

text \<open>\<open>brelse\<close> of a pointer that may be \<open>NULL\<close>.\<close>

definition brelse_ptr :: "nat option \<Rightarrow> 'a fs_state_scheme \<Rightarrow> 'a fs_state_scheme res" where
  "brelse_ptr p s = (case p of None \<Rightarrow> Inr s | Some bh \<Rightarrow> brelse bh s)"

subsection \<open>\<open>buffer_init\<close>\<close>

text \<open>
  The addresses of the data blocks, taken down from \<open>b\<close> while the next head fits below them, the area of
  the video memory and the BIOS left out.
\<close>

function block_addrs :: "nat \<Rightarrow> nat \<Rightarrow> nat list" where
  "block_addrs h b =
     (let b = b - BLOCK_SIZE in
      if b < h + 36 then []
      else b # block_addrs (h + 36) (if b = 0x100000 then 0xA0000 else b))"
  by pat_completeness auto
termination
  by (relation "measure snd") (auto simp: BLOCK_SIZE_def Let_def)

text \<open>\<open>raw i\<close> is what memory holds where the head \<open>i\<close> and its block are placed.\<close>

definition init_head :: "nat \<Rightarrow> nat \<Rightarrow> buffer_head \<Rightarrow> buffer_head" where
  "init_head n i h =
     h\<lparr>b_dev := 0, b_dirt := 0, b_count := 0, b_lock := 0, b_uptodate := 0, b_next := None, b_prev := None,
       b_prev_free := Some (if i = 0 then n - 1 else i - 1), b_next_free := Some (if i = n - 1 then 0 else i + 1)\<rparr>"

definition buffer_init :: "(nat \<Rightarrow> buffer_head) \<Rightarrow> 'a fs_state_scheme \<Rightarrow> 'a fs_state_scheme" where
  "buffer_init raw s =
     (let n = length (block_addrs (unat (start_buffer s)) 0x200000)
      in s\<lparr>buffers := map (\<lambda>i. init_head n i (raw i)) [0..<n], free_list := Some 0, hash_table := replicate NR_HASH None\<rparr>)"

end
