(* ===== verification/Linux_Bitmap.thy ===== *)
theory Linux_Bitmap
  imports Linux_Buffer
begin

unbundle bit_operations_syntax

section \<open>The bitmaps of linux-0.01 (\<open>fs/bitmap.c\<close>)\<close>

text \<open>
  A bitmap block holds 8192 bits, bit \<open>nr\<close> being bit \<open>nr mod 8\<close> of byte \<open>nr div 8\<close>.  \<open>bsfl\<close> finds the
  lowest bit of a word that is set.
\<close>

definition map_bit :: "u8 list \<Rightarrow> nat \<Rightarrow> bool" where
  "map_bit l nr = bit (l ! (nr div 8)) (nr mod 8)"

definition put_bit :: "nat \<Rightarrow> bool \<Rightarrow> u8 list \<Rightarrow> u8 list" where
  "put_bit nr v l =
     l[nr div 8 := if v then Bit_Operations.set_bit (nr mod 8) (l ! (nr div 8)) else unset_bit (nr mod 8) (l ! (nr div 8))]"

text \<open>\<open>btsl\<close>/\<open>setb\<close> returns the bit there was, \<open>btrl\<close>/\<open>setnb\<close> its complement.\<close>

definition set_map_bit :: "nat \<Rightarrow> nat \<Rightarrow> 'a fs_state_scheme \<Rightarrow> bool \<times> 'a fs_state_scheme" where
  "set_map_bit nr bh s =
     (map_bit (b_data (buf s bh)) nr, upd_buf bh (\<lambda>b. b\<lparr>b_data := put_bit nr True (b_data b)\<rparr>) s)"

definition clear_map_bit :: "nat \<Rightarrow> nat \<Rightarrow> 'a fs_state_scheme \<Rightarrow> bool \<times> 'a fs_state_scheme" where
  "clear_map_bit nr bh s =
     (\<not> map_bit (b_data (buf s bh)) nr, upd_buf bh (\<lambda>b. b\<lparr>b_data := put_bit nr False (b_data b)\<rparr>) s)"

definition bsfl :: "u32 \<Rightarrow> nat option" where
  "bsfl w = find (\<lambda>i. bit w i) [0..<32]"

text \<open>The loop over the words of the block, \<open>n\<close> of them left.\<close>

fun first_zero_from :: "nat \<Rightarrow> nat \<Rightarrow> u8 list \<Rightarrow> nat" where
  "first_zero_from 0 ecx l = ecx"
| "first_zero_from (Suc n) ecx l =
     (case bsfl (NOT (get32 l (ecx div 8))) of
        Some edx \<Rightarrow> ecx + edx
      | None \<Rightarrow> first_zero_from n (ecx + 32) l)"

definition find_first_zero :: "u8 list \<Rightarrow> nat" where
  "find_first_zero l = first_zero_from 256 0 l"

definition free_block :: "u32 \<Rightarrow> u32 \<Rightarrow> 'a fs_state_scheme \<Rightarrow> 'a fs_state_scheme res" where
  "free_block dev block s =
     (case get_super dev s of
        None \<Rightarrow> Inl (Panic ''trying to free block on nonexistent device'')
      | Some i \<Rightarrow>
          let sb = super s i in
          if sint block < int (unat (s_firstdatazone sb)) \<or> sint block \<ge> int (unat (s_nzones sb))
          then Inl (Panic ''trying to free block not in datazone'')
          else bindr (get_hash_table dev block s) (\<lambda>(r, s).
            bindr (case r of
                     None \<Rightarrow> Inr (True, s)
                   | Some bh \<Rightarrow>
                       if b_count (buf s bh) \<noteq> 1 then Inr (False, s)
                       else bindr (brelse bh (upd_buf bh (\<lambda>b. b\<lparr>b_dirt := 0, b_uptodate := 0\<rparr>) s)) (\<lambda>s. Inr (True, s))) (\<lambda>(go, s).
            if \<not> go then Inr s
            else let block = nat (sint block - int (unat (s_firstdatazone sb)) + 1) in
                 deref ''s_zmap'' (s_zmap sb ! (block div 8192)) (\<lambda>bh.
                   let (already, s) = clear_map_bit (block mod 8192) bh s in
                   if already then Inl (Panic ''free_block: bit already cleared'')
                   else Inr (upd_buf bh (\<lambda>b. b\<lparr>b_dirt := 1\<rparr>) s)))))"

text \<open>The search over the eight bitmap buffers: the slot, the buffer and the bit.\<close>

fun first_free :: "nat \<Rightarrow> nat option list \<Rightarrow> 'a fs_state_scheme \<Rightarrow> (nat \<times> nat \<times> nat) option" where
  "first_free i [] s = None"
| "first_free i (p # ps) s =
     (case p of
        None \<Rightarrow> first_free (i + 1) ps s
      | Some bh \<Rightarrow>
          let j = find_first_zero (b_data (buf s bh))
          in if j < 8192 then Some (i, bh, j) else first_free (i + 1) ps s)"

definition new_block :: "u32 \<Rightarrow> 'a fs_state_scheme \<Rightarrow> (u32 \<times> 'a fs_state_scheme) res" where
  "new_block dev s =
     (case get_super dev s of
        None \<Rightarrow> Inl (Panic ''trying to get new block from nonexistant device'')
      | Some i \<Rightarrow>
          let sb = super s i in
          case first_free 0 (s_zmap sb) s of
            None \<Rightarrow> Inr (0, s)
          | Some (i, bh, j) \<Rightarrow>
              let (already, s) = set_map_bit j bh s in
              if already then Inl (Panic ''new_block: bit already set'')
              else let s = upd_buf bh (\<lambda>b. b\<lparr>b_dirt := 1\<rparr>) s;
                       j = int (j + i * 8192 + unat (s_firstdatazone sb)) - 1
                   in if j \<ge> int (unat (s_nzones sb)) then Inr (0, s)
                      else bindr (getblk dev (word_of_int j) s) (\<lambda>(bh, s).
                        if b_count (buf s bh) \<noteq> 1 then Inl (Panic ''new block: count is != 1'')
                        else let s = upd_buf bh (\<lambda>b. b\<lparr>b_data := replicate BLOCK_SIZE 0, b_uptodate := 1, b_dirt := 1\<rparr>) s
                             in bindr (brelse bh s) (\<lambda>s. Inr (word_of_int j, s))))"

text \<open>\<open>memset(inode,0,sizeof(*inode))\<close> clears the wait queue in the inode too.\<close>

definition clear_inode :: "nat \<Rightarrow> 'a fs_state_scheme \<Rightarrow> 'a fs_state_scheme" where
  "clear_inode ino s = (upd_inode ino (\<lambda>_. zero_inode) s)\<lparr>wait_queues := (wait_queues s)(i_wait ino s := 0)\<rparr>"

definition free_inode :: "nat \<Rightarrow> 'a fs_state_scheme \<Rightarrow> 'a fs_state_scheme res" where
  "free_inode ino s =
     (let m = inode s ino in
      if i_dev m = 0 then Inr (clear_inode ino s)
      else if i_count m > 1 then Inl (Panic ''free_inode'')
      else if i_nlinks m \<noteq> 0 then Inl (Panic ''trying to free inode with links'')
      else case get_super (ucast (i_dev m)) s of
        None \<Rightarrow> Inl (Panic ''trying to free inode on nonexistent device'')
      | Some i \<Rightarrow>
          if i_num m < 1 \<or> i_num m > s_ninodes (super s i) then Inl (Panic ''trying to free inode 0 or nonexistant inode'')
          else case s_imap (super s i) ! unat (drop_bit 13 (i_num m)) of
            None \<Rightarrow> Inl (Panic ''nonexistent imap in superblock'')
          | Some bh \<Rightarrow>
              let (already, s) = clear_map_bit (unat (i_num m AND 8191)) bh s in
              if already then Inl (Panic ''free_inode: bit already cleared'')
              else Inr (clear_inode ino (upd_buf bh (\<lambda>b. b\<lparr>b_dirt := 1\<rparr>) s)))"

end
