(* ===== verification/Linux_Inode.thy ===== *)
theory Linux_Inode
  imports Linux_Bitmap
begin

unbundle bit_operations_syntax

section \<open>Inodes of linux-0.01 (\<open>fs/inode.c\<close>, \<open>fs/truncate.c\<close>, \<open>new_inode\<close> of \<open>fs/bitmap.c\<close>)\<close>

text \<open>
  An inode of the table that is dirty is written to its buffer before it is given up or used again.  The
  zones of an inode are seven blocks, a block of block numbers and a block of such blocks.
\<close>

definition wait_on_inode :: "nat \<Rightarrow> 'a fs_state_scheme \<Rightarrow> 'a fs_state_scheme res" where
  "wait_on_inode ino s = (if i_lock (inode s ino) \<noteq> 0 then Inl (Blocks ''i_wait'') else Inr s)"

definition lock_inode :: "nat \<Rightarrow> 'a fs_state_scheme \<Rightarrow> 'a fs_state_scheme res" where
  "lock_inode ino s =
     (if i_lock (inode s ino) \<noteq> 0 then Inl (Blocks ''i_wait'') else Inr (upd_inode ino (\<lambda>m. m\<lparr>i_lock := 1\<rparr>) s))"

definition unlock_inode :: "nat \<Rightarrow> 'a fs_state_scheme \<Rightarrow> 'a fs_state_scheme" where
  "unlock_inode ino s = wake_up (i_wait ino s) (upd_inode ino (\<lambda>m. m\<lparr>i_lock := 0\<rparr>) s)"

text \<open>
  The block of an inode and its place there.  \<open>INODES_PER_BLOCK\<close> is unsigned, so the division of
  \<open>i_num - 1\<close> is too.
\<close>

definition inode_block :: "super_block \<Rightarrow> m_inode \<Rightarrow> u32" where
  "inode_block sb m =
     2 + ucast (s_imap_blocks sb) + ucast (s_zmap_blocks sb) + (ucast (i_num m) - 1) div of_nat INODES_PER_BLOCK"

definition inode_offset :: "m_inode \<Rightarrow> nat" where
  "inode_offset m = 32 * unat ((ucast (i_num m) - 1 :: u32) mod of_nat INODES_PER_BLOCK)"

text \<open>What \<open>read_inode\<close> and \<open>write_inode\<close> share: the locked inode and the buffer of its block.\<close>

definition with_inode_block ::
    "nat \<Rightarrow> (nat \<Rightarrow> 'a fs_state_scheme \<Rightarrow> 'a fs_state_scheme) \<Rightarrow> 'a fs_state_scheme \<Rightarrow> 'a fs_state_scheme res" where
  "with_inode_block ino copy s =
     bindr (lock_inode ino s) (\<lambda>s.
     deref ''get_super'' (get_super (ucast (i_dev (inode s ino))) s) (\<lambda>sb.
     bindr (bread (ucast (i_dev (inode s ino))) (inode_block (super s sb) (inode s ino)) s) (\<lambda>(r, s).
     case r of
       None \<Rightarrow> Inl (Panic ''unable to read i-node block'')
     | Some bh \<Rightarrow> bindr (brelse bh (copy bh s)) (\<lambda>s. Inr (unlock_inode ino s)))))"

definition read_inode :: "nat \<Rightarrow> 'a fs_state_scheme \<Rightarrow> 'a fs_state_scheme res" where
  "read_inode ino s =
     with_inode_block ino (\<lambda>bh s.
       upd_inode ino (\<lambda>m. d_inode_of (b_data (buf s bh)) (inode_offset m) m) s) s"

definition write_inode :: "nat \<Rightarrow> 'a fs_state_scheme \<Rightarrow> 'a fs_state_scheme res" where
  "write_inode ino s =
     with_inode_block ino (\<lambda>bh s.
       let m = inode s ino;
           s = upd_buf bh (\<lambda>b. b\<lparr>b_data := splice (inode_offset m) (bytes_of_inode m) (b_data b), b_dirt := 1\<rparr>) s
       in upd_inode ino (\<lambda>m. m\<lparr>i_dirt := 0\<rparr>) s) s"

fun sync_inodes_from :: "nat list \<Rightarrow> 'a fs_state_scheme \<Rightarrow> 'a fs_state_scheme res" where
  "sync_inodes_from [] s = Inr s"
| "sync_inodes_from (i # is) s =
     bindr (wait_on_inode i s) (\<lambda>s.
     bindr (if i_dirt (inode s i) \<noteq> 0 \<and> i_pipe (inode s i) = 0 then write_inode i s else Inr s) (sync_inodes_from is))"

definition sync_inodes :: "'a fs_state_scheme \<Rightarrow> 'a fs_state_scheme res" where
  "sync_inodes s = sync_inodes_from [0..<NR_INODE] s"

fun sync_from :: "nat list \<Rightarrow> 'a fs_state_scheme \<Rightarrow> 'a fs_state_scheme res" where
  "sync_from [] s = Inr s"
| "sync_from (i # is) s = bindr (sync_buffer i s) (sync_from is)"

definition sys_sync :: "'a fs_state_scheme \<Rightarrow> (u32 \<times> 'a fs_state_scheme) res" where
  "sys_sync s =
     bindr (sync_inodes s) (\<lambda>s. bindr (sync_from [0..<length (buffers s)] s) (\<lambda>s. Inr (0, s)))"

subsection \<open>The blocks of a file\<close>

text \<open>The number in a zone of the inode, created if asked for.\<close>

definition zone_slot :: "bool \<Rightarrow> nat \<Rightarrow> nat \<Rightarrow> 'a fs_state_scheme \<Rightarrow> (u32 \<times> 'a fs_state_scheme) res" where
  "zone_slot create ino z s =
     bindr (if create \<and> i_zone (inode s ino) ! z = 0
            then bindr (new_block (ucast (i_dev (inode s ino))) s) (\<lambda>(b, s).
                 let s = upd_inode ino (\<lambda>m. m\<lparr>i_zone := (i_zone m)[z := ucast b]\<rparr>) s
                 in Inr (if (ucast b :: u16) \<noteq> 0
                         then upd_inode ino (\<lambda>m. m\<lparr>i_ctime := CURRENT_TIME s, i_dirt := 1\<rparr>) s else s))
            else Inr s) (\<lambda>s. Inr (ucast (i_zone (inode s ino) ! z), s))"

text \<open>The number at an index of a block of numbers, created if asked for; the block is released.\<close>

definition ind_slot :: "bool \<Rightarrow> u32 \<Rightarrow> nat \<Rightarrow> nat \<Rightarrow> 'a fs_state_scheme \<Rightarrow> (u32 \<times> 'a fs_state_scheme) res" where
  "ind_slot create dev bh k s =
     (let i = ucast (get16 (b_data (buf s bh)) (2 * k)) in
      bindr (if create \<and> i = 0
             then bindr (new_block dev s) (\<lambda>(i, s).
                  Inr (i, if i \<noteq> 0
                          then upd_buf bh (\<lambda>b. b\<lparr>b_data := put16 (2 * k) (ucast i) (b_data b), b_dirt := 1\<rparr>) s else s))
             else Inr (i, s)) (\<lambda>(i, s).
      bindr (brelse bh s) (\<lambda>s. Inr (i, s))))"

text \<open>\<open>bread\<close> of a block of numbers and the entry in it; 0 when there is no block or it cannot be read.\<close>

definition ind_block :: "bool \<Rightarrow> u32 \<Rightarrow> u32 \<Rightarrow> nat \<Rightarrow> 'a fs_state_scheme \<Rightarrow> (u32 \<times> 'a fs_state_scheme) res" where
  "ind_block create dev nr k s =
     (if nr = 0 then Inr (0, s)
      else bindr (bread dev nr s) (\<lambda>(r, s).
        case r of None \<Rightarrow> Inr (0, s) | Some bh \<Rightarrow> ind_slot create dev bh k s))"

definition bmap_create :: "bool \<Rightarrow> nat \<Rightarrow> u32 \<Rightarrow> 'a fs_state_scheme \<Rightarrow> (u32 \<times> 'a fs_state_scheme) res" where
  "bmap_create create ino block s =
     (if sint block < 0 then Inl (Panic ''_bmap: block<0'')
      else if sint block \<ge> 7 + 512 + 512 * 512 then Inl (Panic ''_bmap: block>big'')
      else let dev = ucast (i_dev (inode s ino)); k = unat block in
           if k < 7 then zone_slot create ino k s
           else let k = k - 7 in
                if k < 512
                then bindr (zone_slot create ino 7 s) (\<lambda>(z, s). ind_block create dev z k s)
                else let k = k - 512 in
                     bindr (zone_slot create ino 8 s) (\<lambda>(z, s).
                     bindr (ind_block create dev z (k div 512) s) (\<lambda>(i, s).
                     ind_block create dev i (k mod 512) s)))"

definition bmap :: "nat \<Rightarrow> u32 \<Rightarrow> 'a fs_state_scheme \<Rightarrow> (u32 \<times> 'a fs_state_scheme) res" where
  "bmap ino block s = bmap_create False ino block s"

definition create_block :: "nat \<Rightarrow> u32 \<Rightarrow> 'a fs_state_scheme \<Rightarrow> (u32 \<times> 'a fs_state_scheme) res" where
  "create_block ino block s = bmap_create True ino block s"

subsection \<open>Truncation\<close>

fun free_numbers :: "nat list \<Rightarrow> (u32 \<Rightarrow> 'a fs_state_scheme \<Rightarrow> 'a fs_state_scheme res) \<Rightarrow> nat \<Rightarrow>
    'a fs_state_scheme \<Rightarrow> 'a fs_state_scheme res" where
  "free_numbers [] f bh s = Inr s"
| "free_numbers (k # ks) f bh s =
     bindr (if get16 (b_data (buf s bh)) (2 * k) \<noteq> 0 then f (ucast (get16 (b_data (buf s bh)) (2 * k))) s else Inr s)
       (free_numbers ks f bh)"

text \<open>The common shape of \<open>free_ind\<close> and \<open>free_dind\<close>, which differ in what they do with a number.\<close>

definition free_indirect :: "(u32 \<Rightarrow> 'a fs_state_scheme \<Rightarrow> 'a fs_state_scheme res) \<Rightarrow> u32 \<Rightarrow> u32 \<Rightarrow>
    'a fs_state_scheme \<Rightarrow> 'a fs_state_scheme res" where
  "free_indirect f dev block s =
     (if block = 0 then Inr s
      else bindr (bread dev block s) (\<lambda>(r, s).
           bindr (case r of
                    None \<Rightarrow> Inr s
                  | Some bh \<Rightarrow> bindr (free_numbers [0..<512] f bh s) (brelse bh)) (free_block dev block)))"

definition free_ind :: "u32 \<Rightarrow> u32 \<Rightarrow> 'a fs_state_scheme \<Rightarrow> 'a fs_state_scheme res" where
  "free_ind dev block s = free_indirect (free_block dev) dev block s"

definition free_dind :: "u32 \<Rightarrow> u32 \<Rightarrow> 'a fs_state_scheme \<Rightarrow> 'a fs_state_scheme res" where
  "free_dind dev block s = free_indirect (free_ind dev) dev block s"

fun free_zones :: "nat list \<Rightarrow> nat \<Rightarrow> 'a fs_state_scheme \<Rightarrow> 'a fs_state_scheme res" where
  "free_zones [] ino s = Inr s"
| "free_zones (z # zs) ino s =
     (if i_zone (inode s ino) ! z \<noteq> 0
      then bindr (free_block (ucast (i_dev (inode s ino))) (ucast (i_zone (inode s ino) ! z)) s) (\<lambda>s.
           free_zones zs ino (upd_inode ino (\<lambda>m. m\<lparr>i_zone := (i_zone m)[z := 0]\<rparr>) s))
      else free_zones zs ino s)"

definition truncate_inode :: "nat \<Rightarrow> 'a fs_state_scheme \<Rightarrow> 'a fs_state_scheme res" where
  "truncate_inode ino s =
     (if \<not> (S_ISREG (i_mode (inode s ino)) \<or> S_ISDIR (i_mode (inode s ino))) then Inr s
      else bindr (free_zones [0..<7] ino s) (\<lambda>s.
           bindr (free_ind (ucast (i_dev (inode s ino))) (ucast (i_zone (inode s ino) ! 7)) s) (\<lambda>s.
           bindr (free_dind (ucast (i_dev (inode s ino))) (ucast (i_zone (inode s ino) ! 8)) s) (\<lambda>s.
           Inr (upd_inode ino (\<lambda>m. m\<lparr>i_zone := (i_zone m)[7 := 0, 8 := 0], i_size := 0, i_dirt := 1,
                  i_mtime := CURRENT_TIME s, i_ctime := CURRENT_TIME s\<rparr>) s)))))"

subsection \<open>Taking and giving up inodes\<close>

partial_function (option) iput_loop :: "nat \<Rightarrow> 'a fs_state_scheme \<Rightarrow> 'a fs_state_scheme res option" where
  "iput_loop ino s =
     (if i_nlinks (inode s ino) = 0 then Some (bindr (truncate_inode ino s) (free_inode ino))
      else if i_dirt (inode s ino) \<noteq> 0
      then bindo (write_inode ino s) (\<lambda>s. bindo (wait_on_inode ino s) (iput_loop ino))
      else Some (Inr (upd_inode ino (\<lambda>m. m\<lparr>i_count := i_count m - 1\<rparr>) s)))"

definition iput :: "nat \<Rightarrow> 'a fs_state_scheme \<Rightarrow> 'a fs_state_scheme res" where
  "iput ino s =
     bindr (wait_on_inode ino s) (\<lambda>s.
     if i_count (inode s ino) = 0 then Inl (Panic ''iput: trying to free free inode'')
     else if i_pipe (inode s ino) \<noteq> 0
     then let s = wake_up (i_wait ino s) s;
              s = upd_inode ino (\<lambda>m. m\<lparr>i_count := i_count m - 1\<rparr>) s in
          if i_count (inode s ino) \<noteq> 0 then Inr s
          else bindr (free_page (i_size (inode s ino)) s) (\<lambda>s.
               Inr (upd_inode ino (\<lambda>m. m\<lparr>i_count := 0, i_dirt := 0, i_pipe := 0\<rparr>) s))
     else if i_dev (inode s ino) = 0 \<or> i_count (inode s ino) > 1
     then Inr (upd_inode ino (\<lambda>m. m\<lparr>i_count := i_count m - 1\<rparr>) s)
     else loop_res (iput_loop ino s))"

definition iput_ptr :: "nat option \<Rightarrow> 'a fs_state_scheme \<Rightarrow> 'a fs_state_scheme res" where
  "iput_ptr p s = (case p of None \<Rightarrow> Inr s | Some ino \<Rightarrow> iput ino s)"

text \<open>\<open>while (inode->i_dirt)\<close> in \<open>get_empty_inode\<close>.\<close>

partial_function (option) clean_inode :: "nat \<Rightarrow> 'a fs_state_scheme \<Rightarrow> 'a fs_state_scheme res option" where
  "clean_inode ino s =
     (if i_dirt (inode s ino) = 0 then Some (Inr s)
      else bindo (write_inode ino s) (\<lambda>s. bindo (wait_on_inode ino s) (clean_inode ino)))"

definition unused_inode :: "'a fs_state_scheme \<Rightarrow> nat option" where
  "unused_inode s =
     find (\<lambda>i. i_count (inode s i) = 0) ([last_allocated_inode s..<NR_INODE] @ [0..<last_allocated_inode s])"

partial_function (option) empty_inode_loop :: "'a fs_state_scheme \<Rightarrow> (nat \<times> 'a fs_state_scheme) res option" where
  "empty_inode_loop s =
     (case unused_inode s of
        None \<Rightarrow> Some (Inl (Panic ''No free inodes in mem''))
      | Some ino \<Rightarrow>
          bindo (wait_on_inode ino (s\<lparr>last_allocated_inode := ino\<rparr>)) (\<lambda>s.
          bindo (loop_res (clean_inode ino s)) (\<lambda>s.
          if i_count (inode s ino) = 0 then Some (Inr (ino, s)) else empty_inode_loop s)))"

definition get_empty_inode :: "'a fs_state_scheme \<Rightarrow> (nat \<times> 'a fs_state_scheme) res" where
  "get_empty_inode s =
     bindr (loop_res (empty_inode_loop s)) (\<lambda>(ino, s).
     Inr (ino, upd_inode ino (\<lambda>m. m\<lparr>i_count := 1\<rparr>) (clear_inode ino s)))"

definition get_pipe_inode :: "'a fs_state_scheme \<Rightarrow> (nat option \<times> 'a fs_state_scheme) res" where
  "get_pipe_inode s =
     bindr (get_empty_inode s) (\<lambda>(ino, s).
     let (page, s) = get_free_page s;
         s = upd_inode ino (\<lambda>m. m\<lparr>i_size := page\<rparr>) s in
     if page = 0 then Inr (None, upd_inode ino (\<lambda>m. m\<lparr>i_count := 0\<rparr>) s)
     else Inr (Some ino, upd_inode ino (\<lambda>m. m\<lparr>i_count := 2, i_zone := (i_zone m)[0 := 0, 1 := 0, 2 := 0, 3 := 0],
            i_pipe := 1\<rparr>) s))"

definition iget :: "u32 \<Rightarrow> u32 \<Rightarrow> 'a fs_state_scheme \<Rightarrow> (nat \<times> 'a fs_state_scheme) res" where
  "iget dev nr s =
     (if dev = 0 then Inl (Panic ''iget with dev==0'')
      else bindr (get_empty_inode s) (\<lambda>(empty, s).
        case find (\<lambda>i. ucast (i_dev (inode s i)) = dev \<and> ucast (i_num (inode s i)) = nr) [0..<NR_INODE] of
          Some ino \<Rightarrow>
            bindr (wait_on_inode ino s) (\<lambda>s.
            bindr (iput empty (upd_inode ino (\<lambda>m. m\<lparr>i_count := i_count m + 1\<rparr>) s)) (\<lambda>s. Inr (ino, s)))
        | None \<Rightarrow>
            bindr (read_inode empty (upd_inode empty (\<lambda>m. m\<lparr>i_dev := ucast dev, i_num := ucast nr\<rparr>) s)) (\<lambda>s.
            Inr (empty, s))))"

definition new_inode :: "u32 \<Rightarrow> 'a fs_state_scheme \<Rightarrow> (nat option \<times> 'a fs_state_scheme) res" where
  "new_inode dev s =
     bindr (get_empty_inode s) (\<lambda>(ino, s).
     case get_super dev s of
       None \<Rightarrow> Inl (Panic ''new_inode with unknown device'')
     | Some sb \<Rightarrow>
         case first_free 0 (s_imap (super s sb)) s of
           None \<Rightarrow> bindr (iput ino s) (\<lambda>s. Inr (None, s))
         | Some (i, bh, j) \<Rightarrow>
             if j + i * 8192 > unat (s_ninodes (super s sb)) then bindr (iput ino s) (\<lambda>s. Inr (None, s))
             else let (already, s) = set_map_bit j bh s in
                  if already then Inl (Panic ''new_inode: bit already set'')
                  else let s = upd_buf bh (\<lambda>b. b\<lparr>b_dirt := 1\<rparr>) s
                       in Inr (Some ino, upd_inode ino (\<lambda>m. m\<lparr>i_count := 1, i_nlinks := 1, i_dev := ucast dev, i_dirt := 1,
                            i_num := of_nat (j + i * 8192), i_mtime := CURRENT_TIME s, i_atime := CURRENT_TIME s,
                            i_ctime := CURRENT_TIME s\<rparr>) s))"

end
