(* ===== verification/Linux_Super.thy ===== *)
theory Linux_Super
  imports Linux_Inode
begin

unbundle bit_operations_syntax

section \<open>Mounting in linux-0.01 (\<open>fs/super.c\<close>, \<open>sys_setup\<close> of \<open>kernel/hd.c\<close>)\<close>

text \<open>
  The super block is copied from block 1 of the device, its part that is only in memory included; of that
  part the device number is modelled as read, the pointers keep what the table held until they are set.  A
  store beyond the end of the table of super blocks or of the arrays of bitmap buffers is a fault.
\<close>

definition ROOT_DEV :: u32 where "ROOT_DEV = 0x306"

definition super_of :: "u8 list \<Rightarrow> super_block \<Rightarrow> super_block" where
  "super_of l p =
     p\<lparr>s_ninodes := get16 l 0, s_nzones := get16 l 2, s_imap_blocks := get16 l 4, s_zmap_blocks := get16 l 6,
       s_firstdatazone := get16 l 8, s_log_zone_size := get16 l 10, s_max_size := get32 l 12, s_magic := get16 l 16,
       s_dev := get16 l 84\<rparr>"

text \<open>
  The two loops that read the bitmaps: \<open>n\<close> blocks from \<open>block\<close> on into the slots from \<open>i\<close> on, stopping at
  one that cannot be read.
\<close>

fun read_maps :: "nat \<Rightarrow> nat \<Rightarrow> u32 \<Rightarrow> u32 \<Rightarrow> (nat \<Rightarrow> nat option \<Rightarrow> 'a fs_state_scheme \<Rightarrow> 'a fs_state_scheme) \<Rightarrow>
    'a fs_state_scheme \<Rightarrow> (u32 \<times> 'a fs_state_scheme) res" where
  "read_maps 0 i dev block store s = Inr (block, s)"
| "read_maps (Suc n) i dev block store s =
     bindr (bread dev block s) (\<lambda>(r, s).
     if i \<ge> 8 then Inl (Fault ''bitmap slot'')
     else case r of
       None \<Rightarrow> Inr (block, store i None s)
     | Some bh \<Rightarrow> read_maps n (i + 1) dev (block + 1) store (store i (Some bh) s))"

definition store_imap :: "nat \<Rightarrow> nat \<Rightarrow> nat option \<Rightarrow> 'a fs_state_scheme \<Rightarrow> 'a fs_state_scheme" where
  "store_imap p i v s = upd_super p (\<lambda>sb. sb\<lparr>s_imap := (s_imap sb)[i := v]\<rparr>) s"

definition store_zmap :: "nat \<Rightarrow> nat \<Rightarrow> nat option \<Rightarrow> 'a fs_state_scheme \<Rightarrow> 'a fs_state_scheme" where
  "store_zmap p i v s = upd_super p (\<lambda>sb. sb\<lparr>s_zmap := (s_zmap sb)[i := v]\<rparr>) s"

fun brelse_all :: "nat option list \<Rightarrow> 'a fs_state_scheme \<Rightarrow> 'a fs_state_scheme res" where
  "brelse_all [] s = Inr s"
| "brelse_all (p # ps) s = bindr (brelse_ptr p s) (brelse_all ps)"

definition set_first_bit :: "nat \<Rightarrow> 'a fs_state_scheme \<Rightarrow> 'a fs_state_scheme" where
  "set_first_bit bh s = upd_buf bh (\<lambda>b. b\<lparr>b_data := (b_data b)[0 := b_data b ! 0 OR 1]\<rparr>) s"

definition do_mount :: "u32 \<Rightarrow> 'a fs_state_scheme \<Rightarrow> (nat option \<times> 'a fs_state_scheme) res" where
  "do_mount dev s =
     (case find (\<lambda>i. s_dev (super s i) = 0) [0..<NR_SUPER] of
        None \<Rightarrow> Inl (Fault ''super_block'')
      | Some p \<Rightarrow>
          bindr (bread dev 1 (upd_super p (\<lambda>sb. sb\<lparr>s_dev := - 1\<rparr>) s)) (\<lambda>(r, s).
          case r of
            None \<Rightarrow> Inr (None, s)
          | Some bh \<Rightarrow>
              bindr (brelse bh (upd_super p (super_of (b_data (buf s bh))) s)) (\<lambda>s.
              if s_magic (super s p) \<noteq> SUPER_MAGIC then Inr (None, upd_super p (\<lambda>sb. sb\<lparr>s_dev := 0\<rparr>) s)
              else
                let s = upd_super p (\<lambda>sb. sb\<lparr>s_imap := replicate 8 None, s_zmap := replicate 8 None\<rparr>) s in
                bindr (read_maps (unat (s_imap_blocks (super s p))) 0 dev 2 (store_imap p) s) (\<lambda>(block, s).
                bindr (read_maps (unat (s_zmap_blocks (super s p))) 0 dev block (store_zmap p) s) (\<lambda>(block, s).
                if block \<noteq> 2 + ucast (s_imap_blocks (super s p)) + ucast (s_zmap_blocks (super s p))
                then bindr (brelse_all (s_imap (super s p) @ s_zmap (super s p)) s) (\<lambda>s.
                     Inr (None, upd_super p (\<lambda>sb. sb\<lparr>s_dev := 0\<rparr>) s))
                else deref ''s_imap'' (s_imap (super s p) ! 0) (\<lambda>im.
                     deref ''s_zmap'' (s_zmap (super s p) ! 0) (\<lambda>zm.
                     let s = set_first_bit zm (set_first_bit im s)
                     in Inr (Some p, upd_super p (\<lambda>sb. sb\<lparr>s_dev := ucast dev, s_isup := None, s_imount := None,
                          s_time := 0, s_rd_only := 0, s_dirt := 0\<rparr>) s))))))))"

text \<open>The loops that count the clear bits below \<open>n\<close>, from the highest down.\<close>

fun count_clear :: "nat option list \<Rightarrow> nat \<Rightarrow> 'a fs_state_scheme \<Rightarrow> nat res" where
  "count_clear maps 0 s = Inr 0"
| "count_clear maps (Suc i) s =
     deref ''bitmap'' (maps ! (i div 8192)) (\<lambda>bh.
     bindr (count_clear maps i s) (\<lambda>n.
     Inr (if map_bit (b_data (buf s bh)) (i mod 8192) then n else n + 1)))"

text \<open>\<open>mount_root\<close> with the two numbers that it prints.\<close>

definition mount_root :: "'a fs_state_scheme \<Rightarrow> ((nat \<times> nat) \<times> 'a fs_state_scheme) res" where
  "mount_root s =
     (let s = s\<lparr>file_table := map (\<lambda>f. f\<lparr>f_count := 0\<rparr>) (file_table s),
                super_blocks := map (\<lambda>sb. sb\<lparr>s_dev := 0\<rparr>) (super_blocks s)\<rparr> in
      bindr (do_mount ROOT_DEV s) (\<lambda>(r, s).
      case r of
        None \<Rightarrow> Inl (Panic ''Unable to mount root'')
      | Some p \<Rightarrow>
          bindr (iget ROOT_DEV 1 s) (\<lambda>(mi, s).
          let s = upd_inode mi (\<lambda>m. m\<lparr>i_count := i_count m + 3\<rparr>) s;
              s = upd_super p (\<lambda>sb. sb\<lparr>s_isup := Some mi, s_imount := Some mi\<rparr>) s;
              s = upd_cur (\<lambda>t. t\<lparr>t_pwd := Some mi, t_root := Some mi\<rparr>) s in
          bindr (count_clear (s_zmap (super s p)) (unat (s_nzones (super s p))) s) (\<lambda>free_blocks.
          bindr (count_clear (s_imap (super s p)) (unat (s_ninodes (super s p)) + 1) s) (\<lambda>free_inodes.
          Inr ((free_blocks, free_inodes), s))))))"

subsection \<open>The partition tables\<close>

definition partition_of :: "u8 list \<Rightarrow> nat \<Rightarrow> hd_struct" where
  "partition_of l i =
     \<lparr>start_sect = get32 l (0x1BE + 16 * (i - 1) + 8), nr_sects = get32 l (0x1BE + 16 * (i - 1) + 12)\<rparr>"

definition read_partitions :: "nat \<Rightarrow> 'a fs_state_scheme \<Rightarrow> 'a fs_state_scheme res" where
  "read_partitions drive s =
     bindr (rw_abs_hd READ (of_nat drive) 1 0 0 0 s) (\<lambda>s.
     let l = b_data (buf s 0) in
     if b_uptodate (buf s 0) = 0 then Inl (Panic ''Unable to read partition table'')
     else if l ! 510 \<noteq> 0x55 \<or> l ! 511 \<noteq> 0xAA then Inl (Panic ''Bad partition table'')
     else Inr (s\<lparr>hd_parts := fold (\<lambda>i p. p[i + 5 * drive := partition_of l i]) [1..<5] (hd_parts s)\<rparr>))"

definition sys_setup :: "'a fs_state_scheme \<Rightarrow> (u32 \<times> 'a fs_state_scheme) res" where
  "sys_setup s =
     (if \<not> setup_callable s then Inr (- 1, s)
      else bindr (read_partitions 0 (s\<lparr>setup_callable := False\<rparr>)) (\<lambda>s.
           bindr (read_partitions 1 s) (\<lambda>s.
           bindr (mount_root s) (\<lambda>(_, s). Inr (0, s)))))"

end
