(* ===== verification/Linux_File.thy ===== *)
theory Linux_File
  imports Linux_Super
begin

unbundle bit_operations_syntax

section \<open>Reading and writing in linux-0.01 (\<open>fs/file_dev.c\<close>, \<open>fs/block_dev.c\<close>, \<open>fs/pipe.c\<close>)\<close>

text \<open>
  A loop that moves bytes between a block and the memory of the process is one transfer; a range that is not
  inside the block is a fault.  Positions are signed, so their quotient and remainder by \<open>BLOCK_SIZE\<close> are
  those of C.
\<close>

definition ERROR :: u32 where "ERROR = 99"
definition EIO :: u32 where "EIO = 5"
definition SIGPIPE :: nat where "SIGPIPE = 13"
definition O_APPEND :: u16 where "O_APPEND = 0x400"

text \<open>\<open>put_fs_byte(*(p++),buf++)\<close> and \<open>*(p++) = get_fs_byte(buf++)\<close>, \<open>n\<close> times, from offset \<open>off\<close> of a block.\<close>

definition block_to_user :: "nat \<Rightarrow> int \<Rightarrow> nat \<Rightarrow> u32 \<Rightarrow> 'a fs_state_scheme \<Rightarrow> 'a fs_state_scheme res" where
  "block_to_user bh off n dst s =
     (if off < 0 \<or> off + int n > int BLOCK_SIZE then Inl (Fault ''b_data'')
      else Inr (put_fs_bytes (take n (drop (nat off) (b_data (buf s bh)))) dst s))"

definition user_to_block :: "nat \<Rightarrow> int \<Rightarrow> nat \<Rightarrow> u32 \<Rightarrow> 'a fs_state_scheme \<Rightarrow> 'a fs_state_scheme res" where
  "user_to_block bh off n src s =
     (if off < 0 \<or> off + int n > int BLOCK_SIZE then Inl (Fault ''b_data'')
      else Inr (upd_buf bh (\<lambda>b. b\<lparr>b_data := splice (nat off) (get_fs_bytes n src s) (b_data b)\<rparr>) s))"

subsection \<open>Regular files and directories\<close>

lemma smod_1024_less: "(x :: int) smod 1024 < 1024"
  using smod_int_range [of 1024 x] by simp

definition chars_of :: "u32 \<Rightarrow> nat \<Rightarrow> nat" where
  "chars_of pos left = min (nat (1024 - sint pos smod 1024)) left"

lemma chars_of_pos: "left \<noteq> 0 \<Longrightarrow> 0 < chars_of pos left"
  using smod_1024_less [of "sint pos"] by (simp add: chars_of_def)

text \<open>The body of the loop of \<open>file_read\<close> up to the transfer: \<open>None\<close> says that it breaks.\<close>

definition read_block :: "nat \<Rightarrow> nat \<Rightarrow> 'a fs_state_scheme \<Rightarrow> (nat option option \<times> 'a fs_state_scheme) res" where
  "read_block ino fi s =
     bindr (bmap ino (sdivi (f_pos (filp s fi)) 1024) s) (\<lambda>(nr, s).
     if nr = 0 then Inr (Some None, s)
     else bindr (bread (ucast (i_dev (inode s ino))) nr s) (\<lambda>(r, s).
       Inr (case r of None \<Rightarrow> None | Some bh \<Rightarrow> Some (Some bh), s)))"

definition read_chars :: "nat option \<Rightarrow> int \<Rightarrow> nat \<Rightarrow> u32 \<Rightarrow> 'a fs_state_scheme \<Rightarrow> 'a fs_state_scheme res" where
  "read_chars b off chars dst s =
     (case b of
        None \<Rightarrow> Inr (put_fs_bytes (replicate chars 0) dst s)
      | Some bh \<Rightarrow> bindr (block_to_user bh off chars dst s) (brelse bh))"

function file_read_loop :: "nat \<Rightarrow> nat \<Rightarrow> u32 \<Rightarrow> nat \<Rightarrow> 'a fs_state_scheme \<Rightarrow> (nat \<times> 'a fs_state_scheme) res" where
  "file_read_loop ino fi dst left s =
     (if left = 0 then Inr (0, s)
      else bindr (read_block ino fi s) (\<lambda>(b, s).
        case b of
          None \<Rightarrow> Inr (left, s)
        | Some b \<Rightarrow>
            let pos = f_pos (filp s fi);
                chars = chars_of pos left;
                s = upd_file fi (\<lambda>f. f\<lparr>f_pos := f_pos f + of_nat chars\<rparr>) s
            in bindr (read_chars b (sint pos smod 1024) chars dst s) (\<lambda>s.
               file_read_loop ino fi (dst + of_nat chars) (left - chars) s)))"
  by pat_completeness auto
termination
  by (relation "measure (\<lambda>(_, _, _, left, _). left)") (simp_all add: chars_of_pos)

definition file_read :: "nat \<Rightarrow> nat \<Rightarrow> u32 \<Rightarrow> u32 \<Rightarrow> 'a fs_state_scheme \<Rightarrow> (u32 \<times> 'a fs_state_scheme) res" where
  "file_read ino fi dst cnt s =
     (if sint cnt \<le> 0 then Inr (0, s)
      else bindr (file_read_loop ino fi dst (unat cnt) s) (\<lambda>(left, s).
        let s = upd_inode ino (\<lambda>m. m\<lparr>i_atime := CURRENT_TIME s\<rparr>) s
        in Inr (if unat cnt - left \<noteq> 0 then of_nat (unat cnt - left) else - ERROR, s)))"

text \<open>The loop of \<open>file_write\<close>: the position and the number of bytes still to write are returned.\<close>

function file_write_loop :: "nat \<Rightarrow> u32 \<Rightarrow> u32 \<Rightarrow> nat \<Rightarrow> 'a fs_state_scheme \<Rightarrow> (u32 \<times> nat \<times> 'a fs_state_scheme) res" where
  "file_write_loop ino pos src left s =
     (if left = 0 then Inr (pos, 0, s)
      else bindr (create_block ino (sdivi pos 1024) s) (\<lambda>(block, s).
        if block = 0 then Inr (pos, left, s)
        else bindr (bread (ucast (i_dev (inode s ino))) block s) (\<lambda>(r, s).
          case r of
            None \<Rightarrow> Inr (pos, left, s)
          | Some bh \<Rightarrow>
              let c = chars_of pos left;
                  s = upd_buf bh (\<lambda>b. b\<lparr>b_dirt := 1\<rparr>) s;
                  s = (if pos + of_nat c > i_size (inode s ino)
                       then upd_inode ino (\<lambda>m. m\<lparr>i_size := pos + of_nat c, i_dirt := 1\<rparr>) s else s)
              in bindr (user_to_block bh (sint pos smod 1024) c src s) (\<lambda>s.
                 bindr (brelse bh s) (\<lambda>s.
                 file_write_loop ino (pos + of_nat c) (src + of_nat c) (left - c) s)))))"
  by pat_completeness auto
termination
  by (relation "measure (\<lambda>(_, _, _, left, _). left)") (simp_all add: chars_of_pos)

definition file_write :: "nat \<Rightarrow> nat \<Rightarrow> u32 \<Rightarrow> u32 \<Rightarrow> 'a fs_state_scheme \<Rightarrow> (u32 \<times> 'a fs_state_scheme) res" where
  "file_write ino fi src cnt s =
     (let app = f_flags (filp s fi) AND O_APPEND \<noteq> 0;
          pos = (if app then i_size (inode s ino) else f_pos (filp s fi));
          n = nat (sint cnt) in
      bindr (file_write_loop ino pos src n s) (\<lambda>(pos, left, s).
      let s = upd_inode ino (\<lambda>m. m\<lparr>i_mtime := CURRENT_TIME s\<rparr>) s;
          s = (if f_flags (filp s fi) AND O_APPEND = 0
               then upd_inode ino (\<lambda>m. m\<lparr>i_ctime := CURRENT_TIME s\<rparr>) (upd_file fi (\<lambda>f. f\<lparr>f_pos := pos\<rparr>) s) else s)
      in Inr (if n - left \<noteq> 0 then of_nat (n - left) else - 1, s)))"

subsection \<open>Block devices\<close>

text \<open>
  Every round moves \<open>min count BLOCK_SIZE\<close> bytes, also the first one, which starts at the offset in the
  block.
\<close>

function block_write_loop :: "u32 \<Rightarrow> nat \<Rightarrow> u32 \<Rightarrow> int \<Rightarrow> u32 \<Rightarrow> nat \<Rightarrow> u32 \<Rightarrow> 'a fs_state_scheme \<Rightarrow>
    (u32 \<times> 'a fs_state_scheme) res" where
  "block_write_loop dev fi block offset src cnt written s =
     (if cnt = 0 then Inr (written, s)
      else bindr (bread dev block s) (\<lambda>(r, s).
        case r of
          None \<Rightarrow> Inr (if written \<noteq> 0 then written else - EIO, s)
        | Some bh \<Rightarrow>
            let chars = min cnt BLOCK_SIZE;
                s = upd_file fi (\<lambda>f. f\<lparr>f_pos := f_pos f + of_nat chars\<rparr>) s
            in bindr (user_to_block bh offset chars src s) (\<lambda>s.
               bindr (brelse bh (upd_buf bh (\<lambda>b. b\<lparr>b_dirt := 1\<rparr>) s)) (\<lambda>s.
               block_write_loop dev fi (block + 1) 0 (src + of_nat chars) (cnt - chars) (written + of_nat chars) s))))"
  by pat_completeness auto
termination
  by (relation "measure (\<lambda>(_, _, _, _, _, cnt, _, _). cnt)") (simp_all add: BLOCK_SIZE_def)

definition block_write :: "u32 \<Rightarrow> nat \<Rightarrow> u32 \<Rightarrow> u32 \<Rightarrow> 'a fs_state_scheme \<Rightarrow> (u32 \<times> 'a fs_state_scheme) res" where
  "block_write dev fi src cnt s =
     (let pos = f_pos (filp s fi)
      in block_write_loop dev fi (sdivi pos 1024) (sint pos smod 1024) src (nat (sint cnt)) 0 s)"

function block_read_loop :: "u32 \<Rightarrow> nat \<Rightarrow> u32 \<Rightarrow> int \<Rightarrow> u32 \<Rightarrow> nat \<Rightarrow> u32 \<Rightarrow> 'a fs_state_scheme \<Rightarrow>
    (u32 \<times> 'a fs_state_scheme) res" where
  "block_read_loop dev fi block offset dst cnt read s =
     (if cnt = 0 then Inr (read, s)
      else bindr (bread dev block s) (\<lambda>(r, s).
        case r of
          None \<Rightarrow> Inr (if read \<noteq> 0 then read else - EIO, s)
        | Some bh \<Rightarrow>
            let chars = min cnt BLOCK_SIZE;
                s = upd_file fi (\<lambda>f. f\<lparr>f_pos := f_pos f + of_nat chars\<rparr>) s
            in bindr (block_to_user bh offset chars dst s) (\<lambda>s.
               bindr (brelse bh (upd_buf bh (\<lambda>b. b\<lparr>b_dirt := 1\<rparr>) s)) (\<lambda>s.
               block_read_loop dev fi (block + 1) 0 (dst + of_nat chars) (cnt - chars) (read + of_nat chars) s))))"
  by pat_completeness auto
termination
  by (relation "measure (\<lambda>(_, _, _, _, _, cnt, _, _). cnt)") (simp_all add: BLOCK_SIZE_def)

text \<open>Here the position is unsigned.\<close>

definition block_read :: "u32 \<Rightarrow> nat \<Rightarrow> u32 \<Rightarrow> u32 \<Rightarrow> 'a fs_state_scheme \<Rightarrow> (u32 \<times> 'a fs_state_scheme) res" where
  "block_read dev fi dst cnt s =
     (let pos = f_pos (filp s fi)
      in block_read_loop dev fi (pos div 1024) (int (unat pos mod 1024)) dst (nat (sint cnt)) 0 s)"

subsection \<open>Pipes\<close>

text \<open>
  The head and the tail of a pipe are the first two long words of \<open>i_zone\<close>; its page is at the physical
  address \<open>i_size\<close>.
\<close>

definition phys_byte :: "u32 \<Rightarrow> 'a mm_state_scheme \<Rightarrow> u8" where
  "phys_byte a s = ucast (drop_bit (8 * unat (a AND 3)) (phys s (a AND NOT 3)))"

definition set_phys_byte :: "u32 \<Rightarrow> u8 \<Rightarrow> 'a mm_state_scheme \<Rightarrow> 'a mm_state_scheme" where
  "set_phys_byte a v s =
     (let k = 8 * unat (a AND 3); w = a AND NOT 3
      in wr w ((phys s w AND NOT (push_bit k 0xFF)) OR push_bit k (ucast v)) s)"

definition zone_long :: "nat \<Rightarrow> m_inode \<Rightarrow> u32" where
  "zone_long k m = ucast (i_zone m ! (2 * k)) OR push_bit 16 (ucast (i_zone m ! (2 * k + 1)))"

definition set_zone_long :: "nat \<Rightarrow> u32 \<Rightarrow> m_inode \<Rightarrow> m_inode" where
  "set_zone_long k v m = m\<lparr>i_zone := (i_zone m)[2 * k := ucast v, 2 * k + 1 := ucast (drop_bit 16 v)]\<rparr>"

abbreviation PIPE_HEAD :: "m_inode \<Rightarrow> u32" where "PIPE_HEAD m \<equiv> zone_long 0 m"
abbreviation PIPE_TAIL :: "m_inode \<Rightarrow> u32" where "PIPE_TAIL m \<equiv> zone_long 1 m"

definition PIPE_SIZE :: "m_inode \<Rightarrow> u32" where "PIPE_SIZE m = (PIPE_HEAD m - PIPE_TAIL m) AND 4095"
definition PIPE_EMPTY :: "m_inode \<Rightarrow> bool" where "PIPE_EMPTY m \<longleftrightarrow> PIPE_HEAD m = PIPE_TAIL m"
definition PIPE_FULL :: "m_inode \<Rightarrow> bool" where "PIPE_FULL m \<longleftrightarrow> PIPE_SIZE m = 4095"
definition INC_PIPE :: "nat \<Rightarrow> m_inode \<Rightarrow> m_inode" where "INC_PIPE k m = set_zone_long k ((zone_long k m + 1) AND 4095) m"

fun read_pipe_loop :: "nat \<Rightarrow> nat \<Rightarrow> u32 \<Rightarrow> 'a fs_state_scheme \<Rightarrow> u32 \<times> 'a fs_state_scheme" where
  "read_pipe_loop 0 ino b s = (b, s)"
| "read_pipe_loop (Suc cnt) ino b s =
     (if PIPE_EMPTY (inode s ino) then (b, s)
      else let s = put_fs_byte (phys_byte (i_size (inode s ino) + PIPE_TAIL (inode s ino)) s) b s
           in read_pipe_loop cnt ino (b + 1) (upd_inode ino (INC_PIPE 1) s))"

definition read_pipe :: "nat \<Rightarrow> u32 \<Rightarrow> u32 \<Rightarrow> 'a fs_state_scheme \<Rightarrow> (u32 \<times> 'a fs_state_scheme) res" where
  "read_pipe ino dst cnt s =
     (let s' = wake_up (i_wait ino s) s in
      if PIPE_EMPTY (inode s ino)
      then if i_count (inode s ino) \<noteq> 2 then Inr (0, s') else Inl (Blocks ''i_wait'')
      else let (b, s) = read_pipe_loop (nat (sint cnt)) ino dst s
           in Inr (b - dst, wake_up (i_wait ino s) s))"

definition raise_sigpipe :: "'a fs_state_scheme \<Rightarrow> 'a fs_state_scheme" where
  "raise_sigpipe s = upd_cur (\<lambda>t. t\<lparr>t_signal := t_signal t OR push_bit (SIGPIPE - 1) 1\<rparr>) s"

fun write_pipe_loop :: "nat \<Rightarrow> nat \<Rightarrow> u32 \<Rightarrow> 'a fs_state_scheme \<Rightarrow> (u32 \<times> 'a fs_state_scheme) res" where
  "write_pipe_loop 0 ino b s = Inr (b, wake_up (i_wait ino s) s)"
| "write_pipe_loop (Suc cnt) ino b s =
     (if PIPE_FULL (inode s ino)
      then let s = wake_up (i_wait ino s) s in
           if i_count (inode s ino) \<noteq> 2 then Inr (b, raise_sigpipe s) else Inl (Blocks ''i_wait'')
      else let s = set_phys_byte (i_size (inode s ino) + PIPE_HEAD (inode s ino)) (get_fs_byte b s) s;
               s = upd_inode ino (INC_PIPE 0) s
           in write_pipe_loop cnt ino (b + 1) (wake_up (i_wait ino s) s))"

definition write_pipe :: "nat \<Rightarrow> u32 \<Rightarrow> u32 \<Rightarrow> 'a fs_state_scheme \<Rightarrow> (u32 \<times> 'a fs_state_scheme) res" where
  "write_pipe ino src cnt s =
     (let s = wake_up (i_wait ino s) s in
      if i_count (inode s ino) \<noteq> 2 then Inr (- 1, raise_sigpipe s)
      else bindr (write_pipe_loop (nat (sint cnt)) ino src s) (\<lambda>(b, s). Inr (b - src, s)))"

text \<open>The first two entries of a list that satisfy a test, as the loops of \<open>sys_pipe\<close> find them.\<close>

definition first_two :: "('b \<Rightarrow> bool) \<Rightarrow> 'b list \<Rightarrow> 'b list" where
  "first_two P xs = take 2 (filter P xs)"

definition set_filp :: "nat \<Rightarrow> nat option \<Rightarrow> 'a sched_state_scheme \<Rightarrow> 'a sched_state_scheme" where
  "set_filp fd f s = upd_cur (\<lambda>t. t\<lparr>t_filp := (t_filp t)[fd := f]\<rparr>) s"

definition sys_pipe :: "u32 \<Rightarrow> 'a fs_state_scheme \<Rightarrow> (u32 \<times> 'a fs_state_scheme) res" where
  "sys_pipe fildes s =
     (case first_two (\<lambda>i. f_count (filp s i) = 0) [0..<NR_FILE] of
        [f0, f1] \<Rightarrow>
          (let s1 = upd_file f1 (\<lambda>f. f\<lparr>f_count := f_count f + 1\<rparr>) (upd_file f0 (\<lambda>f. f\<lparr>f_count := f_count f + 1\<rparr>) s);
               drop_files = (\<lambda>s. upd_file f1 (\<lambda>f. f\<lparr>f_count := 0\<rparr>) (upd_file f0 (\<lambda>f. f\<lparr>f_count := 0\<rparr>) s)) in
           case first_two (\<lambda>i. t_filp (cur s) ! i = None) [0..<NR_OPEN] of
             [fd0, fd1] \<Rightarrow>
               bindr (get_pipe_inode (set_filp fd1 (Some f1) (set_filp fd0 (Some f0) s1))) (\<lambda>(r, s).
               case r of
                 None \<Rightarrow> Inr (- 1, drop_files (set_filp fd1 None (set_filp fd0 None s)))
               | Some ino \<Rightarrow>
                   let s = upd_file f0 (\<lambda>f. f\<lparr>f_inode := Some ino, f_pos := 0, f_mode := 1\<rparr>) s;
                       s = upd_file f1 (\<lambda>f. f\<lparr>f_inode := Some ino, f_pos := 0, f_mode := 2\<rparr>) s
                   in Inr (0, put_fs_long (of_nat fd1) (fildes + 4) (put_fs_long (of_nat fd0) fildes s)))
           | _ \<Rightarrow> Inr (- 1, drop_files s1))
      | [f0] \<Rightarrow> Inr (- 1, upd_file f0 (\<lambda>f. f\<lparr>f_count := 0\<rparr>) s)
      | _ \<Rightarrow> Inr (- 1, s))"

end
