(* ===== verification/Linux_Namei.thy ===== *)
theory Linux_Namei
  imports Linux_File
begin

unbundle bit_operations_syntax

section \<open>Names and directories of linux-0.01 (\<open>fs/namei.c\<close>)\<close>

text \<open>
  A directory is a file of entries of 16 bytes, an inode number and a name of at most 14 bytes padded with
  zeros.  A pointer to an entry is the buffer it is in and its offset there.  Path names are read from the
  memory of the process up to the byte 0; a loop that reads on for ever has no result.
\<close>

definition ENOENT :: u32 where "ENOENT = 2"
definition EACCES :: u32 where "EACCES = 13"
definition EEXIST :: u32 where "EEXIST = 17"
definition EXDEV :: u32 where "EXDEV = 18"
definition ENOTDIR :: u32 where "ENOTDIR = 20"
definition EISDIR :: u32 where "EISDIR = 21"
definition ENOSPC :: u32 where "ENOSPC = 28"
definition ENOTEMPTY :: u32 where "ENOTEMPTY = 39"
definition O_ACCMODE :: u32 where "O_ACCMODE = 3"
definition O_WRONLY :: u32 where "O_WRONLY = 1"
definition O_CREAT :: u32 where "O_CREAT = 0x40"
definition O_EXCL :: u32 where "O_EXCL = 0x80"
definition O_TRUNC :: u32 where "O_TRUNC = 0x200"
definition I_REGULAR :: u32 where "I_REGULAR = 0x8000"
definition I_DIRECTORY :: u32 where "I_DIRECTORY = 0x4000"
definition MAY_EXEC :: u32 where "MAY_EXEC = 1"
definition MAY_WRITE :: u32 where "MAY_WRITE = 2"

definition ACC_MODE :: "u32 \<Rightarrow> u32" where
  "ACC_MODE x = [4, 2, 6, - 1] ! unat (x AND O_ACCMODE)"

definition permission :: "m_inode \<Rightarrow> u32 \<Rightarrow> 'a sched_state_scheme \<Rightarrow> u32" where
  "permission m msk s =
     (let mode = ucast (i_mode m); t = cur s in
      if i_dev m \<noteq> 0 \<and> i_nlinks m = 0 then 0
      else let mode = (if \<not> (t_uid t \<noteq> 0 \<and> t_euid t \<noteq> 0) then 0x1FF
                       else if t_uid t = i_uid m \<or> t_euid t = i_uid m then drop_bit 6 mode
                       else if t_gid t = ucast (i_gid m) \<or> t_egid t = ucast (i_gid m) then drop_bit 3 mode
                       else mode)
           in mode AND msk AND 7)"

subsection \<open>Directory entries\<close>

definition de_inode :: "nat \<times> nat \<Rightarrow> 'a fs_state_scheme \<Rightarrow> u16" where
  "de_inode de s = get16 (b_data (buf s (fst de))) (snd de)"

definition de_name :: "nat \<times> nat \<Rightarrow> 'a fs_state_scheme \<Rightarrow> u8 list" where
  "de_name de s = take NAME_LEN (drop (snd de + 2) (b_data (buf s (fst de))))"

definition set_de_inode :: "nat \<times> nat \<Rightarrow> u16 \<Rightarrow> 'a fs_state_scheme \<Rightarrow> 'a fs_state_scheme" where
  "set_de_inode de v s = upd_buf (fst de) (\<lambda>b. b\<lparr>b_data := put16 (snd de) v (b_data b)\<rparr>) s"

definition set_de_name :: "nat \<times> nat \<Rightarrow> u8 list \<Rightarrow> 'a fs_state_scheme \<Rightarrow> 'a fs_state_scheme" where
  "set_de_name de v s = upd_buf (fst de) (\<lambda>b. b\<lparr>b_data := splice (snd de + 2) v (b_data b)\<rparr>) s"

text \<open>\<open>match\<close> is called with \<open>len > 0\<close> only, so that \<open>repe cmpsb\<close> compares at least one byte.\<close>

definition match :: "nat \<Rightarrow> u32 \<Rightarrow> nat \<times> nat \<Rightarrow> 'a fs_state_scheme \<Rightarrow> bool" where
  "match len name de s \<longleftrightarrow>
     de_inode de s \<noteq> 0 \<and> len \<le> NAME_LEN \<and> \<not> (len < NAME_LEN \<and> de_name de s ! len \<noteq> 0) \<and>
     get_fs_bytes len name s = take len (de_name de s)"

text \<open>
  The loop of \<open>find_entry\<close>, at entry \<open>i\<close> and offset \<open>off\<close> of the buffer \<open>bh\<close>.  After a block that is
  missing or unreadable \<open>bh\<close> is \<open>NULL\<close>, and the next round reads \<open>bh->b_data\<close>.
\<close>

function find_entry_loop :: "nat \<Rightarrow> u32 \<Rightarrow> nat \<Rightarrow> nat \<Rightarrow> nat \<Rightarrow> nat option \<Rightarrow> nat \<Rightarrow> 'a fs_state_scheme \<Rightarrow>
    ((nat \<times> nat) option \<times> 'a fs_state_scheme) res" where
  "find_entry_loop dir name namelen entries i bh off s =
     (if i \<ge> entries then bindr (brelse_ptr bh s) (\<lambda>s. Inr (None, s))
      else deref ''bh'' bh (\<lambda>b.
        let test = (\<lambda>b off s. if match namelen name (b, off) s then Inr (Some (b, off), s)
                     else find_entry_loop dir name namelen entries (i + 1) (Some b) (off + 16) s)
        in if off < BLOCK_SIZE then test b off s
           else bindr (brelse b s) (\<lambda>s.
                bindr (bmap dir (of_nat (i div DIR_ENTRIES_PER_BLOCK)) s) (\<lambda>(block, s).
                if block = 0
                then find_entry_loop dir name namelen entries (i + DIR_ENTRIES_PER_BLOCK) None off s
                else bindr (bread (ucast (i_dev (inode s dir))) block s) (\<lambda>(r, s).
                  case r of
                    None \<Rightarrow> find_entry_loop dir name namelen entries (i + DIR_ENTRIES_PER_BLOCK) None off s
                  | Some b \<Rightarrow> test b 0 s)))))"
  by pat_completeness auto
termination
  by (relation "measure (\<lambda>(_, _, _, entries, i, _). entries - i)")
     (auto simp: DIR_ENTRIES_PER_BLOCK_def BLOCK_SIZE_def)

definition lx_find_entry :: "nat \<Rightarrow> u32 \<Rightarrow> nat \<Rightarrow> 'a fs_state_scheme \<Rightarrow> ((nat \<times> nat) option \<times> 'a fs_state_scheme) res" where
  "lx_find_entry dir name namelen s =
     (let namelen = min namelen NAME_LEN;
          entries = unat (i_size (inode s dir)) div 16;
          block = i_zone (inode s dir) ! 0 in
      if namelen = 0 \<or> block = 0 then Inr (None, s)
      else bindr (bread (ucast (i_dev (inode s dir))) (ucast block) s) (\<lambda>(r, s).
        case r of
          None \<Rightarrow> Inr (None, s)
        | Some bh \<Rightarrow> find_entry_loop dir name namelen entries 0 (Some bh) 0 s))"

text \<open>What \<open>add_entry\<close> does at an entry: \<open>True\<close> says that it has been taken.\<close>

definition take_entry :: "nat \<Rightarrow> u32 \<Rightarrow> nat \<Rightarrow> nat \<Rightarrow> nat \<times> nat \<Rightarrow> 'a fs_state_scheme \<Rightarrow> bool \<times> 'a fs_state_scheme" where
  "take_entry dir name namelen i de s =
     (let s = (if of_nat i * 16 \<ge> i_size (inode s dir)
               then upd_inode dir (\<lambda>m. m\<lparr>i_size := (of_nat i + 1) * 16, i_dirt := 1, i_ctime := CURRENT_TIME s\<rparr>)
                      (set_de_inode de 0 s)
               else s)
      in if de_inode de s \<noteq> 0 then (False, s)
         else let s = upd_inode dir (\<lambda>m. m\<lparr>i_mtime := CURRENT_TIME s\<rparr>) s;
                  s = set_de_name de (get_fs_bytes namelen name s @ replicate (NAME_LEN - namelen) 0) s
              in (True, upd_buf (fst de) (\<lambda>b. b\<lparr>b_dirt := 1\<rparr>) s))"

partial_function (option) add_entry_loop :: "nat \<Rightarrow> u32 \<Rightarrow> nat \<Rightarrow> nat \<Rightarrow> nat \<Rightarrow> nat \<Rightarrow> 'a fs_state_scheme \<Rightarrow>
    ((nat \<times> nat) option \<times> 'a fs_state_scheme) res option" where
  "add_entry_loop dir name namelen i b off s =
     bindo (if off < BLOCK_SIZE then Inr (Some (b, off), s)
            else bindr (brelse b s) (\<lambda>s.
                 bindr (create_block dir (of_nat (i div DIR_ENTRIES_PER_BLOCK)) s) (\<lambda>(block, s).
                 if block = 0 then Inr (None, s)
                 else bindr (bread (ucast (i_dev (inode s dir))) block s) (\<lambda>(r, s).
                   deref ''bh'' r (\<lambda>b. Inr (Some (b, 0), s)))))) (\<lambda>(r, s).
     case r of
       None \<Rightarrow> Some (Inr (None, s))
     | Some de \<Rightarrow>
         let (taken, s) = take_entry dir name namelen i de s in
         if taken then Some (Inr (Some de, s))
         else add_entry_loop dir name namelen (i + 1) (fst de) (snd de + 16) s)"

definition add_entry :: "nat \<Rightarrow> u32 \<Rightarrow> nat \<Rightarrow> 'a fs_state_scheme \<Rightarrow> ((nat \<times> nat) option \<times> 'a fs_state_scheme) res" where
  "add_entry dir name namelen s =
     (let namelen = min namelen NAME_LEN;
          block = i_zone (inode s dir) ! 0 in
      if namelen = 0 \<or> block = 0 then Inr (None, s)
      else bindr (bread (ucast (i_dev (inode s dir))) (ucast block) s) (\<lambda>(r, s).
        case r of
          None \<Rightarrow> Inr (None, s)
        | Some bh \<Rightarrow> loop_res (add_entry_loop dir name namelen 0 bh 0 s)))"

subsection \<open>Walking a path\<close>

text \<open>\<open>for(namelen=0;(c=get_fs_byte(pathname++))&&(c!='/');namelen++)\<close>\<close>

partial_function (option) scan_name :: "(u32 \<Rightarrow> u8) \<Rightarrow> u32 \<Rightarrow> nat \<Rightarrow> (u8 \<times> nat) option" where
  "scan_name m pathname namelen =
     (let c = m pathname in
      if c = 0 \<or> c = 47 then Some (c, namelen) else scan_name m (pathname + 1) (namelen + 1))"

partial_function (option) get_dir_loop :: "nat \<Rightarrow> u32 \<Rightarrow> 'a fs_state_scheme \<Rightarrow>
    (nat option \<times> 'a fs_state_scheme) res option" where
  "get_dir_loop ino thisname s =
     (if \<not> S_ISDIR (i_mode (inode s ino)) \<or> permission (inode s ino) MAY_EXEC s = 0
      then bindo (iput ino s) (\<lambda>s. Some (Inr (None, s)))
      else bindo (of_option Diverge (scan_name (user s) thisname 0)) (\<lambda>(c, namelen).
        if c = 0 then Some (Inr (Some ino, s))
        else bindo (lx_find_entry ino thisname namelen s) (\<lambda>(r, s).
          case r of
            None \<Rightarrow> bindo (iput ino s) (\<lambda>s. Some (Inr (None, s)))
          | Some de \<Rightarrow>
              let inr = ucast (de_inode de s); idev = ucast (i_dev (inode s ino)) in
              bindo (brelse (fst de) s) (\<lambda>s.
              bindo (iput ino s) (\<lambda>s.
              bindo (iget idev inr s) (\<lambda>(ino, s).
              get_dir_loop ino (thisname + of_nat namelen + 1) s))))))"

definition get_dir :: "u32 \<Rightarrow> 'a fs_state_scheme \<Rightarrow> (nat option \<times> 'a fs_state_scheme) res" where
  "get_dir pathname s =
     (case (t_root (cur s), t_pwd (cur s)) of
        (None, _) \<Rightarrow> Inl (Panic ''No root inode'')
      | (Some root, pwd) \<Rightarrow>
          if i_count (inode s root) = 0 then Inl (Panic ''No root inode'')
          else case pwd of
            None \<Rightarrow> Inl (Panic ''No cwd inode'')
          | Some pwd \<Rightarrow>
              if i_count (inode s pwd) = 0 then Inl (Panic ''No cwd inode'')
              else let c = get_fs_byte pathname s; inc = (\<lambda>ino. upd_inode ino (\<lambda>m. m\<lparr>i_count := i_count m + 1\<rparr>) s) in
                   if c = 47 then loop_res (get_dir_loop root (pathname + 1) (inc root))
                   else if c \<noteq> 0 then loop_res (get_dir_loop pwd pathname (inc pwd))
                   else Inr (None, s))"

partial_function (option) last_name :: "(u32 \<Rightarrow> u8) \<Rightarrow> u32 \<Rightarrow> u32 \<Rightarrow> (u32 \<times> nat) option" where
  "last_name m pathname base =
     (let c = m pathname; pathname' = pathname + 1 in
      if c = 0 then Some (base, unat (pathname' - base - 1))
      else last_name m pathname' (if c = 47 then pathname' else base))"

text \<open>The inode of the directory, and the address and the length of the last name.\<close>

definition dir_namei :: "u32 \<Rightarrow> 'a fs_state_scheme \<Rightarrow> ((nat \<times> u32 \<times> nat) option \<times> 'a fs_state_scheme) res" where
  "dir_namei pathname s =
     bindr (get_dir pathname s) (\<lambda>(r, s).
     case r of
       None \<Rightarrow> Inr (None, s)
     | Some dir \<Rightarrow>
         bindr (of_option Diverge (last_name (user s) pathname pathname)) (\<lambda>(base, namelen).
         Inr (Some (dir, base, namelen), s)))"

definition namei :: "u32 \<Rightarrow> 'a fs_state_scheme \<Rightarrow> (nat option \<times> 'a fs_state_scheme) res" where
  "namei pathname s =
     bindr (dir_namei pathname s) (\<lambda>(r, s).
     case r of
       None \<Rightarrow> Inr (None, s)
     | Some (dir, base, namelen) \<Rightarrow>
         if namelen = 0 then Inr (Some dir, s)
         else bindr (lx_find_entry dir base namelen s) (\<lambda>(r, s).
           case r of
             None \<Rightarrow> bindr (iput dir s) (\<lambda>s. Inr (None, s))
           | Some de \<Rightarrow>
               let inr = ucast (de_inode de s); dev = ucast (i_dev (inode s dir)) in
               bindr (brelse (fst de) s) (\<lambda>s.
               bindr (iput dir s) (\<lambda>s.
               bindr (iget dev inr s) (\<lambda>(ino, s).
               Inr (Some ino, upd_inode ino (\<lambda>m. m\<lparr>i_atime := CURRENT_TIME s, i_dirt := 1\<rparr>) s))))))"

subsection \<open>\<open>open_namei\<close>\<close>

text \<open>\<open>iput(inode); return r;\<close>\<close>

definition iput_return :: "nat \<Rightarrow> 'r \<Rightarrow> 'a fs_state_scheme \<Rightarrow> ('r \<times> 'a fs_state_scheme) res" where
  "iput_return ino r s = bindr (iput ino s) (\<lambda>s. Inr (r, s))"

definition open_create :: "u32 \<Rightarrow> u32 \<Rightarrow> nat \<Rightarrow> u32 \<Rightarrow> nat \<Rightarrow> 'a fs_state_scheme \<Rightarrow> ((u32 \<times> nat option) \<times> 'a fs_state_scheme) res" where
  "open_create flag mode dir base namelen s =
     (if flag AND O_CREAT = 0 then iput_return dir (- ENOENT, None) s
      else if permission (inode s dir) MAY_WRITE s = 0 then iput_return dir (- EACCES, None) s
      else bindr (new_inode (ucast (i_dev (inode s dir))) s) (\<lambda>(r, s).
        case r of
          None \<Rightarrow> iput_return dir (- ENOSPC, None) s
        | Some ino \<Rightarrow>
            bindr (add_entry dir base namelen (upd_inode ino (\<lambda>m. m\<lparr>i_mode := ucast mode, i_dirt := 1\<rparr>) s)) (\<lambda>(r, s).
            case r of
              None \<Rightarrow>
                bindr (iput ino (upd_inode ino (\<lambda>m. m\<lparr>i_nlinks := i_nlinks m - 1\<rparr>) s)) (iput_return dir (- ENOSPC, None))
            | Some de \<Rightarrow>
                let s = set_de_inode de (i_num (inode s ino)) s;
                    s = upd_buf (fst de) (\<lambda>b. b\<lparr>b_dirt := 1\<rparr>) s
                in bindr (brelse (fst de) s) (iput_return dir (0, Some ino)))))"

definition open_existing :: "u32 \<Rightarrow> nat \<Rightarrow> nat \<times> nat \<Rightarrow> 'a fs_state_scheme \<Rightarrow> ((u32 \<times> nat option) \<times> 'a fs_state_scheme) res" where
  "open_existing flag dir de s =
     (let inr = ucast (de_inode de s); dev = ucast (i_dev (inode s dir)) in
      bindr (brelse (fst de) s) (\<lambda>s.
      bindr (iput dir s) (\<lambda>s.
      if flag AND O_EXCL \<noteq> 0 then Inr ((- EEXIST, None), s)
      else bindr (iget dev inr s) (\<lambda>(ino, s).
        if S_ISDIR (i_mode (inode s ino)) \<and> flag AND O_ACCMODE \<noteq> 0 \<or>
           permission (inode s ino) (ACC_MODE flag) s \<noteq> ACC_MODE flag
        then iput_return ino (- EPERM, None) s
        else let s = upd_inode ino (\<lambda>m. m\<lparr>i_atime := CURRENT_TIME s\<rparr>) s
             in bindr (if flag AND O_TRUNC \<noteq> 0 then truncate_inode ino s else Inr s) (\<lambda>s. Inr ((0, Some ino), s))))))"

definition open_namei :: "u32 \<Rightarrow> u32 \<Rightarrow> u32 \<Rightarrow> 'a fs_state_scheme \<Rightarrow> ((u32 \<times> nat option) \<times> 'a fs_state_scheme) res" where
  "open_namei pathname flag mode s =
     (let flag = (if flag AND O_TRUNC \<noteq> 0 \<and> flag AND O_ACCMODE = 0 then flag OR O_WRONLY else flag);
          mode = (mode AND 0x1FF AND NOT (ucast (t_umask (cur s)))) OR I_REGULAR in
      bindr (dir_namei pathname s) (\<lambda>(r, s).
      case r of
        None \<Rightarrow> Inr ((- ENOENT, None), s)
      | Some (dir, base, namelen) \<Rightarrow>
          if namelen = 0
          then if flag AND (O_ACCMODE OR O_CREAT OR O_TRUNC) = 0 then Inr ((0, Some dir), s)
               else iput_return dir (- EISDIR, None) s
          else bindr (lx_find_entry dir base namelen s) (\<lambda>(r, s).
            case r of
              None \<Rightarrow> open_create flag mode dir base namelen s
            | Some de \<Rightarrow> open_existing flag dir de s)))"

subsection \<open>Making and removing entries\<close>

definition user_not_root :: "'a sched_state_scheme \<Rightarrow> bool" where
  "user_not_root s \<longleftrightarrow> t_euid (cur s) \<noteq> 0 \<and> t_uid (cur s) \<noteq> 0"

text \<open>The entries \<open>.\<close> and \<open>..\<close> of a new directory; \<open>strcpy\<close> writes the terminating zero too.\<close>

definition init_directory :: "nat \<Rightarrow> u16 \<Rightarrow> u16 \<Rightarrow> 'a fs_state_scheme \<Rightarrow> 'a fs_state_scheme" where
  "init_directory bh self parent s =
     (let s = set_de_name (bh, 0) [46, 0] (set_de_inode (bh, 0) self s);
          s = set_de_name (bh, 16) [46, 46, 0] (set_de_inode (bh, 16) parent s)
      in upd_buf bh (\<lambda>b. b\<lparr>b_dirt := 1\<rparr>) s)"

definition mkdir_entry :: "nat \<Rightarrow> nat \<Rightarrow> u32 \<Rightarrow> nat \<Rightarrow> 'a fs_state_scheme \<Rightarrow> (u32 \<times> 'a fs_state_scheme) res" where
  "mkdir_entry dir ino base namelen s =
     bindr (add_entry dir base namelen s) (\<lambda>(r, s).
     case r of
       None \<Rightarrow>
         bindr (iput dir s) (\<lambda>s.
         bindr (free_block (ucast (i_dev (inode s ino))) (ucast (i_zone (inode s ino) ! 0)) s) (\<lambda>s.
         iput_return ino (- ENOSPC) (upd_inode ino (\<lambda>m. m\<lparr>i_nlinks := 0\<rparr>) s)))
     | Some de \<Rightarrow>
         let s = set_de_inode de (i_num (inode s ino)) s;
             s = upd_buf (fst de) (\<lambda>b. b\<lparr>b_dirt := 1\<rparr>) s;
             s = upd_inode dir (\<lambda>m. m\<lparr>i_nlinks := i_nlinks m + 1, i_dirt := 1\<rparr>) s in
         bindr (iput dir s) (\<lambda>s.
         bindr (iput ino s) (\<lambda>s.
         bindr (brelse (fst de) s) (\<lambda>s. Inr (0, s)))))"

definition mkdir_block :: "u32 \<Rightarrow> nat \<Rightarrow> nat \<Rightarrow> u32 \<Rightarrow> nat \<Rightarrow> 'a fs_state_scheme \<Rightarrow> (u32 \<times> 'a fs_state_scheme) res" where
  "mkdir_block mode dir ino base namelen s =
     (let s = upd_inode ino (\<lambda>m. m\<lparr>i_size := 32, i_dirt := 1, i_mtime := CURRENT_TIME s, i_atime := CURRENT_TIME s\<rparr>) s;
          dev = ucast (i_dev (inode s ino));
          unlinked = (\<lambda>r s. iput_return ino r (upd_inode ino (\<lambda>m. m\<lparr>i_nlinks := i_nlinks m - 1\<rparr>) s)) in
      bindr (new_block dev s) (\<lambda>(b, s).
      let s = upd_inode ino (\<lambda>m. m\<lparr>i_zone := (i_zone m)[0 := ucast b]\<rparr>) s in
      if (ucast b :: u16) = 0 then bindr (iput dir s) (unlinked (- ENOSPC))
      else bindr (bread dev (ucast (i_zone (inode s ino) ! 0)) (upd_inode ino (\<lambda>m. m\<lparr>i_dirt := 1\<rparr>) s)) (\<lambda>(r, s).
        case r of
          None \<Rightarrow>
            bindr (iput dir s) (\<lambda>s.
            bindr (free_block dev (ucast (i_zone (inode s ino) ! 0)) s) (unlinked (- ERROR)))
        | Some bh \<Rightarrow>
            let s = init_directory bh (i_num (inode s ino)) (i_num (inode s dir)) s;
                s = upd_inode ino (\<lambda>m. m\<lparr>i_nlinks := 2\<rparr>) s in
            bindr (brelse bh s) (\<lambda>s.
            mkdir_entry dir ino base namelen
              (upd_inode ino (\<lambda>m. m\<lparr>i_mode := ucast (I_DIRECTORY OR (mode AND 0x1FF AND NOT (ucast (t_umask (cur s))))),
                 i_dirt := 1\<rparr>) s)))))"

definition sys_mkdir :: "u32 \<Rightarrow> u32 \<Rightarrow> 'a fs_state_scheme \<Rightarrow> (u32 \<times> 'a fs_state_scheme) res" where
  "sys_mkdir pathname mode s =
     (if user_not_root s then Inr (- EPERM, s)
      else bindr (dir_namei pathname s) (\<lambda>(r, s).
        case r of
          None \<Rightarrow> Inr (- ENOENT, s)
        | Some (dir, base, namelen) \<Rightarrow>
            if namelen = 0 then iput_return dir (- ENOENT) s
            else if permission (inode s dir) MAY_WRITE s = 0 then iput_return dir (- EPERM) s
            else bindr (lx_find_entry dir base namelen s) (\<lambda>(r, s).
              case r of
                Some de \<Rightarrow> bindr (brelse (fst de) s) (iput_return dir (- EEXIST))
              | None \<Rightarrow>
                  bindr (new_inode (ucast (i_dev (inode s dir))) s) (\<lambda>(r, s).
                  case r of
                    None \<Rightarrow> iput_return dir (- ENOSPC) s
                  | Some ino \<Rightarrow> mkdir_block mode dir ino base namelen s))))"

text \<open>
  The loop of \<open>empty_dir\<close> at entry \<open>nr\<close> and offset \<open>off\<close>.  When a block is missing the loop goes on with
  the buffer it has already released.
\<close>

function empty_dir_loop :: "nat \<Rightarrow> nat \<Rightarrow> nat \<Rightarrow> nat \<Rightarrow> nat \<Rightarrow> 'a fs_state_scheme \<Rightarrow> (bool \<times> 'a fs_state_scheme) res" where
  "empty_dir_loop ino len nr bh off s =
     (if nr \<ge> len then bindr (brelse bh s) (\<lambda>s. Inr (True, s))
      else
        let test = (\<lambda>bh off s.
              if de_inode (bh, off) s \<noteq> 0 then bindr (brelse bh s) (\<lambda>s. Inr (False, s))
              else empty_dir_loop ino len (nr + 1) bh (off + 16) s)
        in if off < BLOCK_SIZE then test bh off s
           else bindr (brelse bh s) (\<lambda>s.
                bindr (bmap ino (of_nat (nr div DIR_ENTRIES_PER_BLOCK)) s) (\<lambda>(block, s).
                if block = 0 then empty_dir_loop ino len (nr + DIR_ENTRIES_PER_BLOCK) bh off s
                else bindr (bread (ucast (i_dev (inode s ino))) block s) (\<lambda>(r, s).
                  case r of None \<Rightarrow> Inr (False, s) | Some bh \<Rightarrow> test bh 0 s))))"
  by pat_completeness auto
termination
  by (relation "measure (\<lambda>(_, len, nr, _). len - nr)") (auto simp: DIR_ENTRIES_PER_BLOCK_def BLOCK_SIZE_def)

definition is_dot :: "nat \<times> nat \<Rightarrow> 'a fs_state_scheme \<Rightarrow> bool" where
  "is_dot de s \<longleftrightarrow> take 2 (de_name de s) = [46, 0]"

definition is_dotdot :: "nat \<times> nat \<Rightarrow> 'a fs_state_scheme \<Rightarrow> bool" where
  "is_dotdot de s \<longleftrightarrow> take 3 (de_name de s) = [46, 46, 0]"

definition empty_dir :: "nat \<Rightarrow> 'a fs_state_scheme \<Rightarrow> (bool \<times> 'a fs_state_scheme) res" where
  "empty_dir ino s =
     (let len = unat (i_size (inode s ino)) div 16; z = i_zone (inode s ino) ! 0 in
      if len < 2 \<or> z = 0 then Inr (False, s)
      else bindr (bread (ucast (i_dev (inode s ino))) (ucast z) s) (\<lambda>(r, s).
        case r of
          None \<Rightarrow> Inr (False, s)
        | Some bh \<Rightarrow>
            if de_inode (bh, 0) s \<noteq> i_num (inode s ino) \<or> de_inode (bh, 16) s = 0 \<or> \<not> is_dot (bh, 0) s \<or> \<not> is_dotdot (bh, 16) s
            then Inr (False, s)
            else empty_dir_loop ino len 2 bh 32 s))"

text \<open>Leaving \<open>sys_rmdir\<close> or \<open>sys_unlink\<close> with an error, the inode, the directory and the buffer given up.\<close>

definition release_return :: "nat list \<Rightarrow> nat \<Rightarrow> 'r \<Rightarrow> 'a fs_state_scheme \<Rightarrow> ('r \<times> 'a fs_state_scheme) res" where
  "release_return inos bh r s =
     bindr (foldl (\<lambda>t ino. bindr t (iput ino)) (Inr s) inos) (\<lambda>s. bindr (brelse bh s) (\<lambda>s. Inr (r, s)))"

definition rmdir_entry :: "nat \<Rightarrow> nat \<Rightarrow> nat \<times> nat \<Rightarrow> 'a fs_state_scheme \<Rightarrow> (u32 \<times> 'a fs_state_scheme) res" where
  "rmdir_entry dir ino de s =
     (let s = upd_buf (fst de) (\<lambda>b. b\<lparr>b_dirt := 1\<rparr>) (set_de_inode de 0 s) in
      bindr (brelse (fst de) s) (\<lambda>s.
      let s = upd_inode ino (\<lambda>m. m\<lparr>i_nlinks := 0, i_dirt := 1\<rparr>) s;
          s = upd_inode dir (\<lambda>m. m\<lparr>i_nlinks := i_nlinks m - 1, i_ctime := CURRENT_TIME s, i_mtime := CURRENT_TIME s,
                i_dirt := 1\<rparr>) s
      in bindr (iput dir s) (iput_return ino 0)))"

definition sys_rmdir :: "u32 \<Rightarrow> 'a fs_state_scheme \<Rightarrow> (u32 \<times> 'a fs_state_scheme) res" where
  "sys_rmdir name s =
     (if user_not_root s then Inr (- EPERM, s)
      else bindr (dir_namei name s) (\<lambda>(r, s).
        case r of
          None \<Rightarrow> Inr (- ENOENT, s)
        | Some (dir, base, namelen) \<Rightarrow>
            if namelen = 0 then iput_return dir (- ENOENT) s
            else bindr (lx_find_entry dir base namelen s) (\<lambda>(r, s).
              case r of
                None \<Rightarrow> iput_return dir (- ENOENT) s
              | Some de \<Rightarrow>
                  if permission (inode s dir) MAY_WRITE s = 0 then release_return [dir] (fst de) (- EPERM) s
                  else bindr (iget (ucast (i_dev (inode s dir))) (ucast (de_inode de s)) s) (\<lambda>(ino, s).
                    if ino = dir then release_return [ino, dir] (fst de) (- EPERM) s
                    else if \<not> S_ISDIR (i_mode (inode s ino)) then release_return [ino, dir] (fst de) (- ENOTDIR) s
                    else bindr (empty_dir ino s) (\<lambda>(e, s).
                      if \<not> e then release_return [ino, dir] (fst de) (- ENOTEMPTY) s
                      else rmdir_entry dir ino de s)))))"

definition unlink_entry :: "nat \<Rightarrow> nat \<Rightarrow> nat \<times> nat \<Rightarrow> 'a fs_state_scheme \<Rightarrow> (u32 \<times> 'a fs_state_scheme) res" where
  "unlink_entry dir ino de s =
     (let s = (if i_nlinks (inode s ino) = 0 then upd_inode ino (\<lambda>m. m\<lparr>i_nlinks := 1\<rparr>) s else s);
          s = upd_buf (fst de) (\<lambda>b. b\<lparr>b_dirt := 1\<rparr>) (set_de_inode de 0 s) in
      bindr (brelse (fst de) s) (\<lambda>s.
      bindr (iput ino (upd_inode ino (\<lambda>m. m\<lparr>i_nlinks := i_nlinks m - 1, i_dirt := 1, i_ctime := CURRENT_TIME s\<rparr>) s))
        (iput_return dir 0)))"

definition sys_unlink :: "u32 \<Rightarrow> 'a fs_state_scheme \<Rightarrow> (u32 \<times> 'a fs_state_scheme) res" where
  "sys_unlink name s =
     bindr (dir_namei name s) (\<lambda>(r, s).
     case r of
       None \<Rightarrow> Inr (- ENOENT, s)
     | Some (dir, base, namelen) \<Rightarrow>
         if namelen = 0 then iput_return dir (- ENOENT) s
         else if permission (inode s dir) MAY_WRITE s = 0 then iput_return dir (- EPERM) s
         else bindr (lx_find_entry dir base namelen s) (\<lambda>(r, s).
           case r of
             None \<Rightarrow> iput_return dir (- ENOENT) s
           | Some de \<Rightarrow>
               bindr (iget (ucast (i_dev (inode s dir))) (ucast (de_inode de s)) s) (\<lambda>(ino, s).
               if \<not> S_ISREG (i_mode (inode s ino)) then release_return [ino, dir] (fst de) (- EPERM) s
               else unlink_entry dir ino de s)))"

definition link_entry :: "nat \<Rightarrow> nat \<Rightarrow> u32 \<Rightarrow> nat \<Rightarrow> 'a fs_state_scheme \<Rightarrow> (u32 \<times> 'a fs_state_scheme) res" where
  "link_entry oldinode dir base namelen s =
     bindr (add_entry dir base namelen s) (\<lambda>(r, s).
     case r of
       None \<Rightarrow> bindr (iput dir s) (iput_return oldinode (- ENOSPC))
     | Some de \<Rightarrow>
         let s = set_de_inode de (i_num (inode s oldinode)) s;
             s = upd_buf (fst de) (\<lambda>b. b\<lparr>b_dirt := 1\<rparr>) s in
         bindr (brelse (fst de) s) (\<lambda>s.
         bindr (iput dir s) (\<lambda>s.
         iput_return oldinode 0
           (upd_inode oldinode (\<lambda>m. m\<lparr>i_nlinks := i_nlinks m + 1, i_ctime := CURRENT_TIME s, i_dirt := 1\<rparr>) s))))"

definition sys_link :: "u32 \<Rightarrow> u32 \<Rightarrow> 'a fs_state_scheme \<Rightarrow> (u32 \<times> 'a fs_state_scheme) res" where
  "sys_link oldname newname s =
     bindr (namei oldname s) (\<lambda>(r, s).
     case r of
       None \<Rightarrow> Inr (- ENOENT, s)
     | Some old \<Rightarrow>
         if \<not> S_ISREG (i_mode (inode s old)) then iput_return old (- EPERM) s
         else bindr (dir_namei newname s) (\<lambda>(r, s).
           case r of
             None \<Rightarrow> iput_return old (- EACCES) s
           | Some (dir, base, namelen) \<Rightarrow>
               if namelen = 0 then bindr (iput old s) (iput_return dir (- EPERM))
               else if i_dev (inode s dir) \<noteq> i_dev (inode s old) then bindr (iput dir s) (iput_return old (- EXDEV))
               else if permission (inode s dir) MAY_WRITE s = 0 then bindr (iput dir s) (iput_return old (- EACCES))
               else bindr (lx_find_entry dir base namelen s) (\<lambda>(r, s).
                 case r of
                   Some de \<Rightarrow> bindr (brelse (fst de) s) (\<lambda>s. bindr (iput dir s) (iput_return old (- EEXIST)))
                 | None \<Rightarrow> link_entry old dir base namelen s)))"

end
