(* ===== verification/Linux_Console.thy ===== *)
theory Linux_Console
  imports Linux_Namei
begin

unbundle bit_operations_syntax

section \<open>The console of linux-0.01 (\<open>kernel/console.c\<close>, \<open>include/linux/tty.h\<close>)\<close>

text \<open>
  Terminals are a table of three, each with three circular queues of 1024 bytes.  The video memory is a
  memory of 16-bit cells at even addresses, and of the display controller the registers that hold the start
  of the screen and the cursor are kept.  \<open>lines\<close> and \<open>columns\<close> never change.  A \<open>char\<close> is signed, the
  control characters of a terminal are not, so a byte from 128 on equals none of them.
\<close>

record termios =
  c_iflag :: u32
  c_oflag :: u32
  c_cflag :: u32
  c_lflag :: u32
  c_line :: u8
  c_cc :: "u8 list"
  c_pad :: "u8 list"                  \<comment> \<open>the two bytes that fill the structure up to 36\<close>

record tty_queue =
  q_data :: u32
  q_head :: u32
  q_tail :: u32
  q_buf :: "u8 list"

datatype tty_driver = Con_write | Rs_write

record tty_struct =
  tty_termios :: termios
  tty_pgrp :: u32
  tty_stopped :: u32
  tty_write_fn :: tty_driver
  read_q :: tty_queue
  write_q :: tty_queue
  secondary :: tty_queue

record console =
  con_origin :: u32
  con_scr_end :: u32
  con_pos :: u32
  con_x :: u32
  con_y :: u32
  con_top :: u32
  con_bottom :: u32
  con_state :: u32
  con_npar :: u32
  con_par :: "u32 list"
  con_ques :: bool
  con_attr :: u8
  con_saved_x :: u32
  con_saved_y :: u32
  con_vid :: "u32 \<Rightarrow> u16"
  con_crt :: "nat \<Rightarrow> u8"              \<comment> \<open>registers of the display controller\<close>

definition SCREEN_START :: u32 where "SCREEN_START = 0xB8000"
definition SCREEN_END :: u32 where "SCREEN_END = 0xC0000"
definition LINES :: u32 where "LINES = 25"
definition COLUMNS :: u32 where "COLUMNS = 80"
definition NPAR :: nat where "NPAR = 16"
definition BLANK :: u16 where "BLANK = 0x0720"

text \<open>\<open>RESPONSE\<close>: the bytes of \<open>ESC [ ? 1 ; 2 c\<close>.\<close>

definition RESPONSE :: "u8 list" where "RESPONSE = [27, 91, 63, 49, 59, 50, 99]"

subsection \<open>Queues\<close>

definition EMPTY :: "tty_queue \<Rightarrow> bool" where "EMPTY q \<longleftrightarrow> q_head q = q_tail q"
definition TTY_LEFT :: "tty_queue \<Rightarrow> u32" where "TTY_LEFT q = (q_tail q - q_head q - 1) AND 1023"
definition FULL :: "tty_queue \<Rightarrow> bool" where "FULL q \<longleftrightarrow> TTY_LEFT q = 0"
definition CHARS :: "tty_queue \<Rightarrow> u32" where "CHARS q = (q_head q - q_tail q) AND 1023"
definition LAST :: "tty_queue \<Rightarrow> u8" where "LAST q = q_buf q ! unat ((q_head q - 1) AND 1023)"

definition GETCH :: "tty_queue \<Rightarrow> u8 \<times> tty_queue" where
  "GETCH q = (q_buf q ! unat (q_tail q), q\<lparr>q_tail := (q_tail q + 1) AND 1023\<rparr>)"

definition PUTCH :: "u8 \<Rightarrow> tty_queue \<Rightarrow> tty_queue" where
  "PUTCH c q = q\<lparr>q_buf := (q_buf q)[unat (q_head q) := c], q_head := (q_head q + 1) AND 1023\<rparr>"

definition DEC_HEAD :: "tty_queue \<Rightarrow> tty_queue" where
  "DEC_HEAD q = q\<lparr>q_head := (q_head q - 1) AND 1023\<rparr>"

text \<open>Comparison of a \<open>char\<close> with an \<open>unsigned char\<close>.\<close>

definition is_char :: "u8 \<Rightarrow> u8 \<Rightarrow> bool" where "is_char c e \<longleftrightarrow> sint c = uint e"

subsection \<open>The screen\<close>

definition stosw :: "nat \<Rightarrow> u32 \<Rightarrow> (u32 \<Rightarrow> u16) \<Rightarrow> u32 \<Rightarrow> u16" where
  "stosw n a v = fold (\<lambda>i v. v(a + 2 * of_nat i := BLANK)) [0..<n] v"

definition stosw_down :: "nat \<Rightarrow> u32 \<Rightarrow> (u32 \<Rightarrow> u16) \<Rightarrow> u32 \<Rightarrow> u16" where
  "stosw_down n a v = fold (\<lambda>i v. v(a - 2 * of_nat i := BLANK)) [0..<n] v"

text \<open>\<open>movsl\<close> moves two cells; \<open>n\<close> of them with the direction flag clear and set.\<close>

fun movsl_vid :: "nat \<Rightarrow> u32 \<Rightarrow> u32 \<Rightarrow> (u32 \<Rightarrow> u16) \<Rightarrow> u32 \<Rightarrow> u16" where
  "movsl_vid 0 src dst v = v"
| "movsl_vid (Suc n) src dst v = movsl_vid n (src + 4) (dst + 4) (v(dst := v src, dst + 2 := v (src + 2)))"

fun movsl_vid_down :: "nat \<Rightarrow> u32 \<Rightarrow> u32 \<Rightarrow> (u32 \<Rightarrow> u16) \<Rightarrow> u32 \<Rightarrow> u16" where
  "movsl_vid_down 0 src dst v = v"
| "movsl_vid_down (Suc n) src dst v = movsl_vid_down n (src - 4) (dst - 4) (v(dst := v src, dst + 2 := v (src + 2)))"

definition gotoxy :: "u32 \<Rightarrow> u32 \<Rightarrow> console \<Rightarrow> console" where
  "gotoxy new_x new_y k =
     (if new_x \<ge> COLUMNS \<or> new_y \<ge> LINES then k
      else k\<lparr>con_x := new_x, con_y := new_y, con_pos := con_origin k + push_bit 1 (new_y * COLUMNS + new_x)\<rparr>)"

definition set_origin :: "console \<Rightarrow> console" where
  "set_origin k =
     k\<lparr>con_crt := (con_crt k)(12 := ucast (drop_bit 9 (con_origin k - SCREEN_START)),
                            13 := ucast (drop_bit 1 (con_origin k - SCREEN_START)))\<rparr>"

definition scrup_all :: "console \<Rightarrow> console" where
  "scrup_all k =
     (let k = k\<lparr>con_origin := con_origin k + 160, con_pos := con_pos k + 160, con_scr_end := con_scr_end k + 160\<rparr> in
      set_origin
        (if con_scr_end k > SCREEN_END
         then k\<lparr>con_vid := stosw 80 (SCREEN_START + 4 * 960) (movsl_vid 960 (con_origin k) SCREEN_START (con_vid k)),
                con_scr_end := con_scr_end k - (con_origin k - SCREEN_START),
                con_pos := con_pos k - (con_origin k - SCREEN_START),
                con_origin := SCREEN_START\<rparr>
         else k\<lparr>con_vid := stosw 80 (con_scr_end k - 160) (con_vid k)\<rparr>))"

definition scrup_region :: "console \<Rightarrow> console" where
  "scrup_region k =
     (let n = unat (drop_bit 1 ((con_bottom k - con_top k - 1) * COLUMNS));
          dst = con_origin k + 160 * con_top k;
          src = con_origin k + 160 * (con_top k + 1)
      in k\<lparr>con_vid := stosw 80 (dst + 4 * of_nat n) (movsl_vid n src dst (con_vid k))\<rparr>)"

definition scrup :: "console \<Rightarrow> console" where
  "scrup k = (if con_top k = 0 \<and> con_bottom k = LINES then scrup_all k else scrup_region k)"

definition scrdown :: "console \<Rightarrow> console" where
  "scrdown k =
     (let n = unat (drop_bit 1 ((con_bottom k - con_top k - 1) * COLUMNS));
          dst = con_origin k + 160 * con_bottom k - 4;
          src = con_origin k + 160 * (con_bottom k - 1) - 4
      in k\<lparr>con_vid := stosw_down 80 (dst - 4 * of_nat n + 2) (movsl_vid_down n src dst (con_vid k))\<rparr>)"

definition lf :: "console \<Rightarrow> console" where
  "lf k = (if con_y k + 1 < con_bottom k then k\<lparr>con_y := con_y k + 1, con_pos := con_pos k + 160\<rparr> else scrup k)"

definition ri :: "console \<Rightarrow> console" where
  "ri k = (if con_y k > con_top k then k\<lparr>con_y := con_y k - 1, con_pos := con_pos k - 160\<rparr> else scrdown k)"

definition cr :: "console \<Rightarrow> console" where
  "cr k = k\<lparr>con_pos := con_pos k - push_bit 1 (con_x k), con_x := 0\<rparr>"

definition del_char :: "console \<Rightarrow> console" where
  "del_char k =
     (if con_x k \<noteq> 0
      then k\<lparr>con_pos := con_pos k - 2, con_x := con_x k - 1, con_vid := (con_vid k)(con_pos k - 2 := BLANK)\<rparr> else k)"

definition blank :: "u32 \<Rightarrow> u32 \<Rightarrow> console \<Rightarrow> console" where
  "blank n a k = k\<lparr>con_vid := stosw (unat n) a (con_vid k)\<rparr>"

definition csi_J :: "u32 \<Rightarrow> console \<Rightarrow> console" where
  "csi_J p k =
     (if p = 0 then blank (drop_bit 1 (con_scr_end k - con_pos k)) (con_pos k) k
      else if p = 1 then blank (drop_bit 1 (con_pos k - con_origin k)) (con_origin k) k
      else if p = 2 then blank (COLUMNS * LINES) (con_origin k) k
      else k)"

definition csi_K :: "u32 \<Rightarrow> console \<Rightarrow> console" where
  "csi_K p k =
     (if p = 0 then if con_x k \<ge> COLUMNS then k else blank (COLUMNS - con_x k) (con_pos k) k
      else if p = 1 then blank (if con_x k < COLUMNS then con_x k else COLUMNS) (con_pos k - push_bit 1 (con_x k)) k
      else if p = 2 then blank COLUMNS (con_pos k - push_bit 1 (con_x k)) k
      else k)"

definition attr_of :: "u32 \<Rightarrow> u8 \<Rightarrow> u8" where
  "attr_of p a = (if p = 0 then 0x07 else if p = 1 then 0x0F else if p = 4 then 0x0F else if p = 7 then 0x70
                  else if p = 27 then 0x07 else a)"

definition csi_m :: "console \<Rightarrow> console" where
  "csi_m k = k\<lparr>con_attr := fold (\<lambda>i a. attr_of (con_par k ! i) a) [0..<Suc (unat (con_npar k))] (con_attr k)\<rparr>"

definition set_cursor :: "console \<Rightarrow> console" where
  "set_cursor k =
     k\<lparr>con_crt := (con_crt k)(14 := ucast (drop_bit 9 (con_pos k - SCREEN_START)),
                            15 := ucast (drop_bit 1 (con_pos k - SCREEN_START)))\<rparr>"

fun shift_cells :: "nat \<Rightarrow> u32 \<Rightarrow> u16 \<Rightarrow> (u32 \<Rightarrow> u16) \<Rightarrow> u32 \<Rightarrow> u16" where
  "shift_cells 0 p old v = v"
| "shift_cells (Suc n) p old v = shift_cells n (p + 2) (v p) (v(p := old))"

definition insert_char :: "console \<Rightarrow> console" where
  "insert_char k = k\<lparr>con_vid := shift_cells (unat COLUMNS - unat (con_x k)) (con_pos k) BLANK (con_vid k)\<rparr>"

definition insert_line :: "console \<Rightarrow> console" where
  "insert_line k =
     (scrdown (k\<lparr>con_top := con_y k, con_bottom := LINES\<rparr>))\<lparr>con_top := con_top k, con_bottom := con_bottom k\<rparr>"

fun pull_cells :: "nat \<Rightarrow> u32 \<Rightarrow> (u32 \<Rightarrow> u16) \<Rightarrow> u32 \<Rightarrow> u16" where
  "pull_cells 0 p v = v(p := BLANK)"
| "pull_cells (Suc n) p v = pull_cells n (p + 2) (v(p := v (p + 2)))"

definition delete_char :: "console \<Rightarrow> console" where
  "delete_char k =
     (if con_x k \<ge> COLUMNS then k
      else k\<lparr>con_vid := pull_cells (unat COLUMNS - unat (con_x k) - 1) (con_pos k) (con_vid k)\<rparr>)"

definition delete_line :: "console \<Rightarrow> console" where
  "delete_line k =
     (scrup (k\<lparr>con_top := con_y k, con_bottom := LINES\<rparr>))\<lparr>con_top := con_top k, con_bottom := con_bottom k\<rparr>"

text \<open>How often \<open>csi_at\<close>, \<open>csi_L\<close>, \<open>csi_P\<close> and \<open>csi_M\<close> repeat.\<close>

definition times :: "u32 \<Rightarrow> u32 \<Rightarrow> nat" where
  "times mx nr = (if nr > mx then unat mx else if nr = 0 then 1 else unat nr)"

definition csi_at :: "u32 \<Rightarrow> console \<Rightarrow> console" where "csi_at nr k = (insert_char ^^ times COLUMNS nr) k"
definition csi_L :: "u32 \<Rightarrow> console \<Rightarrow> console" where "csi_L nr k = (insert_line ^^ times LINES nr) k"
definition csi_P :: "u32 \<Rightarrow> console \<Rightarrow> console" where "csi_P nr k = (delete_char ^^ times COLUMNS nr) k"
definition csi_M :: "u32 \<Rightarrow> console \<Rightarrow> console" where "csi_M nr k = (delete_line ^^ times LINES nr) k"

definition save_cur :: "console \<Rightarrow> console" where
  "save_cur k = k\<lparr>con_saved_x := con_x k, con_saved_y := con_y k\<rparr>"

definition restore_cur :: "console \<Rightarrow> console" where
  "restore_cur k =
     k\<lparr>con_x := con_saved_x k, con_y := con_saved_y k,
       con_pos := con_origin k + push_bit 1 (con_saved_y k * COLUMNS + con_saved_x k)\<rparr>"

subsection \<open>The characters written to the console\<close>

definition put_char :: "u8 \<Rightarrow> console \<Rightarrow> console" where
  "put_char c k =
     (let k = (if con_x k \<ge> COLUMNS then lf (k\<lparr>con_x := con_x k - COLUMNS, con_pos := con_pos k - 160\<rparr>) else k)
      in k\<lparr>con_vid := (con_vid k)(con_pos k := push_bit 8 (ucast (con_attr k)) OR ucast c),
           con_pos := con_pos k + 2, con_x := con_x k + 1\<rparr>)"

definition tab :: "console \<Rightarrow> console" where
  "tab k =
     (let c = 8 - (con_x k AND 7);
          k = k\<lparr>con_x := con_x k + c, con_pos := con_pos k + push_bit 1 c\<rparr>
      in if con_x k > COLUMNS then lf (k\<lparr>con_x := con_x k - COLUMNS, con_pos := con_pos k - 160\<rparr>) else k)"

definition plain_char :: "u8 \<Rightarrow> u8 \<Rightarrow> console \<Rightarrow> console" where
  "plain_char erase c k =
     (if 31 < sint c \<and> sint c < 127 then put_char c k
      else if c = 27 then k\<lparr>con_state := 1\<rparr>
      else if c = 10 \<or> c = 11 \<or> c = 12 then lf k
      else if c = 13 then cr k
      else if is_char c erase then del_char k
      else if c = 8 then if con_x k \<noteq> 0 then k\<lparr>con_x := con_x k - 1, con_pos := con_pos k - 2\<rparr> else k
      else if c = 9 then tab k
      else k)"

text \<open>After \<open>ESC\<close>; the tests for 7 and 8 are on \<open>x\<close>, not on the character.  \<open>True\<close> asks for an answer.\<close>

definition escape_char :: "u8 \<Rightarrow> console \<Rightarrow> bool \<times> console" where
  "escape_char c k =
     (let k = k\<lparr>con_state := 0\<rparr> in
      if c = 91 then (False, k\<lparr>con_state := 2\<rparr>)
      else if c = 69 then (False, gotoxy 0 (con_y k + 1) k)
      else if c = 77 then (False, ri k)
      else if c = 68 then (False, lf k)
      else if c = 90 then (True, k)
      else if con_x k = 55 then (False, save_cur k)
      else if con_x k = 56 then (False, restore_cur k)
      else (False, k))"

text \<open>\<open>if (!par[0]) par[0]++\<close> and \<open>if (par[0]) par[0]--\<close>.\<close>

definition at_least_one :: "nat \<Rightarrow> console \<Rightarrow> console" where
  "at_least_one i k = (if con_par k ! i = 0 then k\<lparr>con_par := (con_par k)[i := 1]\<rparr> else k)"

definition minus_one :: "nat \<Rightarrow> console \<Rightarrow> console" where
  "minus_one i k = (if con_par k ! i \<noteq> 0 then k\<lparr>con_par := (con_par k)[i := con_par k ! i - 1]\<rparr> else k)"

definition csi_move :: "u8 \<Rightarrow> console \<Rightarrow> console" where
  "csi_move c k =
     (let j = minus_one 0 k; i = at_least_one 0 k; x = con_x k; y = con_y k; p = con_par i ! 0; q = con_par j ! 0 in
      if c = 71 \<or> c = 96 then gotoxy q y j
      else if c = 65 then gotoxy x (y - p) i
      else if c = 66 \<or> c = 101 then gotoxy x (y + p) i
      else if c = 67 \<or> c = 97 then gotoxy (x + p) y i
      else if c = 68 then gotoxy (x - p) y i
      else if c = 69 then gotoxy 0 (y + p) i
      else if c = 70 then gotoxy 0 (y - p) i
      else if c = 100 then gotoxy x q j
      else let j = minus_one 1 j in gotoxy (con_par j ! 1) (con_par j ! 0) j)"

definition set_region :: "console \<Rightarrow> console" where
  "set_region k =
     (let k = minus_one 0 k;
          k = (if con_par k ! 1 = 0 then k\<lparr>con_par := (con_par k)[1 := LINES]\<rparr> else k)
      in if con_par k ! 0 < con_par k ! 1 \<and> con_par k ! 1 \<le> LINES
         then k\<lparr>con_top := con_par k ! 0, con_bottom := con_par k ! 1\<rparr> else k)"

text \<open>State 4, the last character of a control sequence.\<close>

definition csi_final :: "u8 \<Rightarrow> console \<Rightarrow> console" where
  "csi_final c k =
     (let k = k\<lparr>con_state := 0\<rparr>; p = con_par k ! 0 in
      if c \<in> {71, 96, 65, 66, 101, 67, 97, 68, 69, 70, 100, 72, 102} then csi_move c k
      else if c = 74 then csi_J p k
      else if c = 75 then csi_K p k
      else if c = 76 then csi_L p k
      else if c = 77 then csi_M p k
      else if c = 80 then csi_P p k
      else if c = 64 then csi_at p k
      else if c = 109 then csi_m k
      else if c = 114 then set_region k
      else if c = 115 then save_cur k
      else if c = 117 then restore_cur k
      else k)"

text \<open>State 3, the parameters.\<close>

definition csi_param :: "u8 \<Rightarrow> console \<Rightarrow> console" where
  "csi_param c k =
     (if c = 59 \<and> unat (con_npar k) < NPAR - 1 then k\<lparr>con_npar := con_npar k + 1\<rparr>
      else if 48 \<le> sint c \<and> sint c \<le> 57
      then k\<lparr>con_par := (con_par k)[unat (con_npar k) := 10 * con_par k ! unat (con_npar k) + ucast c - 48]\<rparr>
      else csi_final c k)"

definition csi_start :: "u8 \<Rightarrow> console \<Rightarrow> console" where
  "csi_start c k =
     (let k = k\<lparr>con_par := replicate NPAR 0, con_npar := 0, con_state := 3, con_ques := (c = 63)\<rparr>
      in if c = 63 then k else csi_param c k)"

definition con_char :: "u8 \<Rightarrow> u8 \<Rightarrow> console \<Rightarrow> bool \<times> console" where
  "con_char erase c k =
     (if con_state k = 0 then (False, plain_char erase c k)
      else if con_state k = 1 then escape_char c k
      else if con_state k = 2 then (False, csi_start c k)
      else if con_state k = 3 then (False, csi_param c k)
      else if con_state k = 4 then (False, csi_final c k)
      else (False, k))"

text \<open>The part of \<open>con_init\<close> that sets the cursor, from the two bytes the boot sector left.\<close>

definition con_init :: "u8 \<Rightarrow> u8 \<Rightarrow> console \<Rightarrow> console" where
  "con_init bx bY k = gotoxy (ucast bx) (ucast bY) k"

end
