(* ===== verification/Linux_Ctype.thy ===== *)
theory Linux_Ctype
  imports Prelude
begin

unbundle bit_operations_syntax

section \<open>Character classes of linux-0.01 (\<open>lib/ctype.c\<close>, \<open>include/ctype.h\<close>)\<close>

text \<open>
  The table of classes has an entry for the end of file before the entries of the 256 bytes.  The macros index it
  with an \<open>int\<close>; the argument is a number from \<open>-1\<close> to 255 here, as outside of it they read beyond the table.
\<close>

definition ct_U :: u8 where "ct_U = 0x01"
definition ct_L :: u8 where "ct_L = 0x02"
definition ct_D :: u8 where "ct_D = 0x04"
definition ct_C :: u8 where "ct_C = 0x08"
definition ct_P :: u8 where "ct_P = 0x10"
definition ct_S :: u8 where "ct_S = 0x20"
definition ct_X :: u8 where "ct_X = 0x40"
definition ct_SP :: u8 where "ct_SP = 0x80"

lemmas ct_bits = ct_U_def ct_L_def ct_D_def ct_C_def ct_P_def ct_S_def ct_X_def ct_SP_def

definition ctype :: "u8 list" where
  "ctype =
     [0x00,
      ct_C, ct_C, ct_C, ct_C, ct_C, ct_C, ct_C, ct_C,
      ct_C, ct_C OR ct_S, ct_C OR ct_S, ct_C OR ct_S, ct_C OR ct_S, ct_C OR ct_S, ct_C, ct_C,
      ct_C, ct_C, ct_C, ct_C, ct_C, ct_C, ct_C, ct_C,
      ct_C, ct_C, ct_C, ct_C, ct_C, ct_C, ct_C, ct_C,
      ct_S OR ct_SP, ct_P, ct_P, ct_P, ct_P, ct_P, ct_P, ct_P,
      ct_P, ct_P, ct_P, ct_P, ct_P, ct_P, ct_P, ct_P,
      ct_D, ct_D, ct_D, ct_D, ct_D, ct_D, ct_D, ct_D,
      ct_D, ct_D, ct_P, ct_P, ct_P, ct_P, ct_P, ct_P,
      ct_P, ct_U OR ct_X, ct_U OR ct_X, ct_U OR ct_X, ct_U OR ct_X, ct_U OR ct_X, ct_U OR ct_X, ct_U,
      ct_U, ct_U, ct_U, ct_U, ct_U, ct_U, ct_U, ct_U,
      ct_U, ct_U, ct_U, ct_U, ct_U, ct_U, ct_U, ct_U,
      ct_U, ct_U, ct_U, ct_P, ct_P, ct_P, ct_P, ct_P,
      ct_P, ct_L OR ct_X, ct_L OR ct_X, ct_L OR ct_X, ct_L OR ct_X, ct_L OR ct_X, ct_L OR ct_X, ct_L,
      ct_L, ct_L, ct_L, ct_L, ct_L, ct_L, ct_L, ct_L,
      ct_L, ct_L, ct_L, ct_L, ct_L, ct_L, ct_L, ct_L,
      ct_L, ct_L, ct_L, ct_P, ct_P, ct_P, ct_P, ct_C] @ replicate 128 0"

definition ctype_has :: "u8 \<Rightarrow> int \<Rightarrow> bool" where
  "ctype_has bits c \<longleftrightarrow> ctype ! nat (c + 1) AND bits \<noteq> 0"

definition isalnum :: "int \<Rightarrow> bool" where "isalnum = ctype_has (ct_U OR ct_L OR ct_D)"
definition isalpha :: "int \<Rightarrow> bool" where "isalpha = ctype_has (ct_U OR ct_L)"
definition iscntrl :: "int \<Rightarrow> bool" where "iscntrl = ctype_has ct_C"
definition isdigit :: "int \<Rightarrow> bool" where "isdigit = ctype_has ct_D"
definition isgraph :: "int \<Rightarrow> bool" where "isgraph = ctype_has (ct_P OR ct_U OR ct_L OR ct_D)"
definition islower :: "int \<Rightarrow> bool" where "islower = ctype_has ct_L"
definition isprint :: "int \<Rightarrow> bool" where "isprint = ctype_has (ct_P OR ct_U OR ct_L OR ct_D OR ct_SP)"
definition ispunct :: "int \<Rightarrow> bool" where "ispunct = ctype_has ct_P"
definition isspace :: "int \<Rightarrow> bool" where "isspace = ctype_has ct_S"
definition isupper :: "int \<Rightarrow> bool" where "isupper = ctype_has ct_U"
definition isxdigit :: "int \<Rightarrow> bool" where "isxdigit = ctype_has (ct_D OR ct_X)"

definition isascii :: "u32 \<Rightarrow> bool" where "isascii c \<longleftrightarrow> c \<le> 0x7F"
definition toascii :: "u32 \<Rightarrow> u32" where "toascii c = c AND 0x7F"

text \<open>\<open>_ctmp\<close> is a \<open>char\<close>; \<open>tolower\<close> adds \<open>'a'+'A'\<close> where it should add the difference.\<close>

definition tolower :: "u8 \<Rightarrow> u8" where
  "tolower c = (if isupper (sint c) then c + (97 + 65) else c)"

definition toupper :: "u8 \<Rightarrow> u8" where
  "toupper c = (if islower (sint c) then c + (65 - 97) else c)"

lemmas ctype_macros = isalnum_def isalpha_def iscntrl_def isdigit_def isgraph_def islower_def isprint_def ispunct_def
  isspace_def isupper_def isxdigit_def

text \<open>The classes of C for the ASCII characters, one bit at a time.\<close>

definition ascii_class :: "nat \<Rightarrow> u8" where
  "ascii_class c =
     (if 65 \<le> c \<and> c \<le> 90 then ct_U else 0) OR (if 97 \<le> c \<and> c \<le> 122 then ct_L else 0) OR (if 48 \<le> c \<and> c \<le> 57 then ct_D else 0) OR
     (if c < 32 \<or> c = 127 then ct_C else 0) OR
     (if 32 < c \<and> c < 48 \<or> 57 < c \<and> c < 65 \<or> 90 < c \<and> c < 97 \<or> 122 < c \<and> c < 127 then ct_P else 0) OR
     (if 9 \<le> c \<and> c \<le> 13 \<or> c = 32 then ct_S else 0) OR (if 65 \<le> c \<and> c \<le> 70 \<or> 97 \<le> c \<and> c \<le> 102 then ct_X else 0) OR
     (if c = 32 then ct_SP else 0)"

lemma ctype_table: "ctype = 0 # map ascii_class [0..<128] @ replicate 128 0"
  by code_simp

lemma ctype_entry: "c < 256 \<Longrightarrow> ctype ! Suc c = (if c < 128 then ascii_class c else 0)"
  by (simp add: ctype_table nth_append)

lemma ctype_has_nat: "c < 256 \<Longrightarrow> ctype_has b (int c) \<longleftrightarrow> c < 128 \<and> ascii_class c AND b \<noteq> 0"
  by (simp add: ctype_has_def ctype_entry nat_add_distrib)

lemma ctype_has_eof: "\<not> ctype_has b (- 1)"
  by (simp add: ctype_has_def ctype_table)

text \<open>So \<open>toupper\<close> moves exactly the small letters, and \<open>tolower\<close> moves the capitals to the wrong place.\<close>

lemma sint_ascii:
  assumes "c < 128"
  shows "sint (c :: u8) = int (unat c)"
proof -
  have "uint c < 128" "- 128 \<le> uint c" using assms uint_ge_0 [of c] by (simp add: word_less_def, linarith)
  then have "signed_take_bit 7 (uint c) = uint c" by (intro signed_take_bit_int_eq_self) simp_all
  then show ?thesis by (simp add: sint_uint)
qed

lemma ctype_has_ascii: "c < (128 :: u8) \<Longrightarrow> ctype_has b (sint c) \<longleftrightarrow> ascii_class (unat c) AND b \<noteq> 0"
  using ctype_has_nat [of "unat c" b] by (simp add: sint_ascii word_less_nat_alt)

lemma toupper_ascii: "c < 128 \<Longrightarrow> toupper c = (if 97 \<le> c \<and> c \<le> 122 then c - 32 else c)"
  by (simp add: toupper_def islower_def ctype_has_ascii ascii_class_def ct_bits word_le_nat_alt)

lemma tolower_ascii: "c < 128 \<Longrightarrow> tolower c = (if 65 \<le> c \<and> c \<le> 90 then c - 94 else c)"
  by (simp add: tolower_def isupper_def ctype_has_ascii ascii_class_def ct_bits word_le_nat_alt)

end
