(* ===== verification/Linux_Tty.thy ===== *)
theory Linux_Tty
  imports Linux_Console Linux_Ctype
begin

unbundle bit_operations_syntax

section \<open>Terminals of linux-0.01 (\<open>kernel/tty_io.c\<close>, \<open>fs/tty_ioctl.c\<close>, \<open>fs/char_dev.c\<close>)\<close>

text \<open>
  \<open>copy_to_cooked\<close> calls the \<open>write\<close> routine of the terminal for the echo, and \<open>con_write\<close> calls
  \<open>copy_to_cooked\<close> when it answers a query, so the two are one recursion here, over the calls of
  \<open>tty_call\<close>.  The wait queues of the tables are at their addresses; a process that would sleep \<open>Blocks\<close>.
  \<open>schedule\<close> in \<open>tty_write\<close> only gives the other tasks a turn.
\<close>

record kernel_state = fs_state +
  tty_table :: "tty_struct list"
  tty_table_addr :: u32
  con :: console
  cr_flag :: bool
  ports :: "u32 \<Rightarrow> u8"

abbreviation tty :: "'a kernel_state_scheme \<Rightarrow> nat \<Rightarrow> tty_struct" where "tty s t \<equiv> tty_table s ! t"

definition upd_tty :: "nat \<Rightarrow> (tty_struct \<Rightarrow> tty_struct) \<Rightarrow> 'a kernel_state_scheme \<Rightarrow> 'a kernel_state_scheme" where
  "upd_tty t f s = s\<lparr>tty_table := (tty_table s)[t := f (tty_table s ! t)]\<rparr>"

definition l_flag :: "u32 \<Rightarrow> tty_struct \<Rightarrow> bool" where "l_flag f t \<longleftrightarrow> c_lflag (tty_termios t) AND f \<noteq> 0"
definition i_flag :: "u32 \<Rightarrow> tty_struct \<Rightarrow> bool" where "i_flag f t \<longleftrightarrow> c_iflag (tty_termios t) AND f \<noteq> 0"
definition o_flag :: "u32 \<Rightarrow> tty_struct \<Rightarrow> bool" where "o_flag f t \<longleftrightarrow> c_oflag (tty_termios t) AND f \<noteq> 0"

definition ISIG :: u32 where "ISIG = 1"
definition ICANON :: u32 where "ICANON = 2"
definition ECHO :: u32 where "ECHO = 8"
definition ECHOCTL :: u32 where "ECHOCTL = 0x200"
definition ECHOKE :: u32 where "ECHOKE = 0x800"
definition INLCR :: u32 where "INLCR = 0x40"
definition IGNCR :: u32 where "IGNCR = 0x80"
definition ICRNL :: u32 where "ICRNL = 0x100"
definition IUCLC :: u32 where "IUCLC = 0x200"
definition OPOST :: u32 where "OPOST = 1"
definition OLCUC :: u32 where "OLCUC = 2"
definition ONLCR :: u32 where "ONLCR = 4"
definition OCRNL :: u32 where "OCRNL = 8"
definition ONLRET :: u32 where "ONLRET = 0x20"
definition SIGINT :: nat where "SIGINT = 2"

definition cc_char :: "nat \<Rightarrow> tty_struct \<Rightarrow> u8" where "cc_char i t = c_cc (tty_termios t) ! i"

abbreviation INTR_CHAR :: "tty_struct \<Rightarrow> u8" where "INTR_CHAR t \<equiv> cc_char 0 t"
abbreviation ERASE_CHAR :: "tty_struct \<Rightarrow> u8" where "ERASE_CHAR t \<equiv> cc_char 2 t"
abbreviation EOF_CHAR :: "tty_struct \<Rightarrow> u8" where "EOF_CHAR t \<equiv> cc_char 4 t"
abbreviation START_CHAR :: "tty_struct \<Rightarrow> u8" where "START_CHAR t \<equiv> cc_char 8 t"
abbreviation STOP_CHAR :: "tty_struct \<Rightarrow> u8" where "STOP_CHAR t \<equiv> cc_char 9 t"

definition INIT_C_CC :: "u8 list" where
  "INIT_C_CC = [3, 28, 127, 21, 4, 0, 1, 0, 17, 19, 25, 0, 18, 15, 23, 22, 0]"

definition empty_queue :: "u32 \<Rightarrow> tty_queue" where
  "empty_queue d = \<lparr>q_data = d, q_head = 0, q_tail = 0, q_buf = replicate 1024 0\<rparr>"

definition serial_tty :: "u32 \<Rightarrow> tty_struct" where
  "serial_tty port =
     \<lparr>tty_termios = \<lparr>c_iflag = 0, c_oflag = OPOST OR ONLRET, c_cflag = 0x3B, c_lflag = 0, c_line = 0, c_cc = INIT_C_CC,
        c_pad = [0, 0]\<rparr>,
      tty_pgrp = 0, tty_stopped = 0, tty_write_fn = Rs_write,
      read_q = empty_queue port, write_q = empty_queue port, secondary = empty_queue 0\<rparr>"

text \<open>The initial value of \<open>tty_table\<close>.\<close>

definition tty_table_init :: "tty_struct list" where
  "tty_table_init =
     [\<lparr>tty_termios = \<lparr>c_iflag = 0, c_oflag = OPOST OR ONLCR, c_cflag = 0, c_lflag = ICANON OR ECHO OR ECHOCTL OR ECHOKE,
         c_line = 0, c_cc = INIT_C_CC, c_pad = [0, 0]\<rparr>,
       tty_pgrp = 0, tty_stopped = 0, tty_write_fn = Con_write,
       read_q = empty_queue 0, write_q = empty_queue 0, secondary = empty_queue 0\<rparr>,
      serial_tty 0x3F8, serial_tty 0x2F8]"

text \<open>A byte from 128 to 254 is a \<open>char\<close> below \<open>-1\<close>, an index before the table of the character classes.\<close>

definition ctype_index :: "u8 \<Rightarrow> 'b res \<Rightarrow> 'b res" where
  "ctype_index c r = (if sint c < - 1 then Inl (Fault ''_ctype'') else r)"

definition tty_intr :: "nat \<Rightarrow> nat \<Rightarrow> 'a kernel_state_scheme \<Rightarrow> 'a kernel_state_scheme" where
  "tty_intr t sig s =
     (if sint (tty_pgrp (tty s t)) \<le> 0 then s
      else fold (\<lambda>i s. if task s ! i \<noteq> 0 \<and> t_pgrp (tasks s (task s ! i)) = tty_pgrp (tty s t)
                      then upd_task (task s ! i) (\<lambda>p. p\<lparr>t_signal := t_signal p OR push_bit (sig - 1) 1\<rparr>) s else s)
             [0..<NR_TASKS] s)"

text \<open>Address of \<open>secondary.proc_list\<close> in entry \<open>t\<close> (3168 bytes each).\<close>

definition secondary_wait :: "nat \<Rightarrow> 'a kernel_state_scheme \<Rightarrow> u32" where
  "secondary_wait t s = tty_table_addr s + of_nat (3168 * t) + 2128 + 12"

definition put_write :: "nat \<Rightarrow> u8 \<Rightarrow> 'a kernel_state_scheme \<Rightarrow> 'a kernel_state_scheme" where
  "put_write t c s = upd_tty t (\<lambda>y. y\<lparr>write_q := PUTCH c (write_q y)\<rparr>) s"

definition rs_write :: "nat \<Rightarrow> 'a kernel_state_scheme \<Rightarrow> 'a kernel_state_scheme" where
  "rs_write t s =
     (if EMPTY (write_q (tty s t)) then s
      else let p = q_data (write_q (tty s t)) + 1 in s\<lparr>ports := (ports s)(p := ports s p OR 2)\<rparr>)"

subsection \<open>Cooking the input\<close>

text \<open>What becomes of a character after its echo.\<close>

datatype cooked = Skip | Erase | Store u8

text \<open>\<open>if (c==13) \<dots> else if (c==10 && I_NLCR(tty)) c=13\<close>; \<open>None\<close> is the \<open>continue\<close>.\<close>

definition map_cr :: "tty_struct \<Rightarrow> u8 \<Rightarrow> u8 option" where
  "map_cr y c =
     (if c = 13 then if i_flag ICRNL y then Some 10 else if i_flag IGNCR y then None else Some 13
      else if c = 10 \<and> i_flag INLCR y then Some 13 else Some c)"

definition echo_char :: "nat \<Rightarrow> u8 \<Rightarrow> 'a kernel_state_scheme \<Rightarrow> 'a kernel_state_scheme" where
  "echo_char t c s =
     (if c = 10 then put_write t 13 (put_write t 10 s)
      else if sint c < 32
      then if l_flag ECHOCTL (tty s t) then put_write t (c + 64) (put_write t 94 s) else s
      else put_write t c s)"

definition cook_erase :: "nat \<Rightarrow> 'a kernel_state_scheme \<Rightarrow> bool \<times> cooked \<times> 'a kernel_state_scheme" where
  "cook_erase t s =
     (let y = tty s t; c = LAST (secondary y) in
      if EMPTY (secondary y) \<or> c = 10 \<or> is_char c (EOF_CHAR y) then (False, Skip, s)
      else if l_flag ECHO y
      then (True, Erase, put_write t 127 (if sint c < 32 then put_write t 127 s else s))
      else (False, Erase, s))"

definition cook_store :: "nat \<Rightarrow> u8 \<Rightarrow> 'a kernel_state_scheme \<Rightarrow> bool \<times> cooked \<times> 'a kernel_state_scheme" where
  "cook_store t c s =
     (let s = (if c = 10 \<or> is_char c (EOF_CHAR (tty s t))
               then upd_tty t (\<lambda>y. y\<lparr>secondary := (secondary y)\<lparr>q_data := q_data (secondary y) + 1\<rparr>\<rparr>) s else s)
      in if l_flag ECHO (tty s t) then (True, Store c, echo_char t c s) else (False, Store c, s))"

text \<open>One character taken from the raw queue, up to the call of \<open>tty->write\<close>; the flag says whether it is called.\<close>

definition cook_char :: "nat \<Rightarrow> u8 \<Rightarrow> 'a kernel_state_scheme \<Rightarrow> bool \<times> cooked \<times> 'a kernel_state_scheme" where
  "cook_char t c s =
     (let y = tty s t in
      if l_flag ICANON y \<and> is_char c (ERASE_CHAR y) then cook_erase t s
      else if l_flag ICANON y \<and> is_char c (STOP_CHAR y) then (False, Skip, upd_tty t (\<lambda>y. y\<lparr>tty_stopped := 1\<rparr>) s)
      else if l_flag ICANON y \<and> is_char c (START_CHAR y) then (False, Skip, upd_tty t (\<lambda>y. y\<lparr>tty_stopped := 0\<rparr>) s)
      else if \<not> l_flag ISIG y \<and> is_char c (INTR_CHAR y) then (False, Skip, tty_intr t SIGINT s)
      else cook_store t c s)"

definition cook_step :: "nat \<Rightarrow> 'a kernel_state_scheme \<Rightarrow> (bool \<times> cooked \<times> 'a kernel_state_scheme) res" where
  "cook_step t s =
     (let (c, q) = GETCH (read_q (tty s t));
          s = upd_tty t (\<lambda>y. y\<lparr>read_q := q\<rparr>) s
      in case map_cr (tty s t) c of
           None \<Rightarrow> Inr (False, Skip, s)
         | Some c \<Rightarrow>
             if i_flag IUCLC (tty s t) then ctype_index c (Inr (cook_char t (tolower c) s))
             else Inr (cook_char t c s))"

definition cook_finish :: "cooked \<Rightarrow> nat \<Rightarrow> 'a kernel_state_scheme \<Rightarrow> 'a kernel_state_scheme" where
  "cook_finish a t s =
     (case a of
        Skip \<Rightarrow> s
      | Erase \<Rightarrow> upd_tty t (\<lambda>y. y\<lparr>secondary := DEC_HEAD (secondary y)\<rparr>) s
      | Store c \<Rightarrow> upd_tty t (\<lambda>y. y\<lparr>secondary := PUTCH c (secondary y)\<rparr>) s)"

subsection \<open>\<open>copy_to_cooked\<close>, \<open>con_write\<close> and \<open>respond\<close>\<close>

datatype tty_call = Cooked | Tty_write | Con_loop nat

definition con_step :: "nat \<Rightarrow> 'a kernel_state_scheme \<Rightarrow> bool \<times> 'a kernel_state_scheme" where
  "con_step t s =
     (let (c, q) = GETCH (write_q (tty s t));
          s = upd_tty t (\<lambda>y. y\<lparr>write_q := q\<rparr>) s;
          (ask, k) = con_char (ERASE_CHAR (tty s t)) c (con s)
      in (ask, s\<lparr>con := k\<rparr>))"

definition respond :: "nat \<Rightarrow> 'a kernel_state_scheme \<Rightarrow> 'a kernel_state_scheme" where
  "respond t s = upd_tty t (\<lambda>y. y\<lparr>read_q := fold PUTCH RESPONSE (read_q y)\<rparr>) s"

partial_function (option) tty_run :: "tty_call \<Rightarrow> nat \<Rightarrow> 'a kernel_state_scheme \<Rightarrow> 'a kernel_state_scheme res option" where
  "tty_run f t s =
     (case f of
        Cooked \<Rightarrow>
          if EMPTY (read_q (tty s t)) \<or> FULL (secondary (tty s t)) then Some (Inr (wake_up (secondary_wait t s) s))
          else bindo (cook_step t s) (\<lambda>(echo, a, s).
               Option.bind (if echo then tty_run Tty_write t s else Some (Inr s)) (\<lambda>r.
               bindo r (\<lambda>s. tty_run Cooked t (cook_finish a t s))))
      | Tty_write \<Rightarrow>
          (case tty_write_fn (tty s t) of
             Con_write \<Rightarrow> tty_run (Con_loop (unat (CHARS (write_q (tty s t))))) t s
           | Rs_write \<Rightarrow> Some (Inr (rs_write t s)))
      | Con_loop n \<Rightarrow>
          (case n of
             0 \<Rightarrow> Some (Inr (s\<lparr>con := set_cursor (con s)\<rparr>))
           | Suc n \<Rightarrow>
               let (ask, s) = con_step t s in
               Option.bind (if ask then tty_run Cooked t (respond t s) else Some (Inr s)) (\<lambda>r.
               bindo r (tty_run (Con_loop n) t))))"

definition copy_to_cooked :: "nat \<Rightarrow> 'a kernel_state_scheme \<Rightarrow> 'a kernel_state_scheme res" where
  "copy_to_cooked t s = loop_res (tty_run Cooked t s)"

definition con_write :: "nat \<Rightarrow> 'a kernel_state_scheme \<Rightarrow> 'a kernel_state_scheme res" where
  "con_write t s = loop_res (tty_run (Con_loop (unat (CHARS (write_q (tty s t))))) t s)"

definition do_tty_interrupt :: "nat \<Rightarrow> 'a kernel_state_scheme \<Rightarrow> 'a kernel_state_scheme res" where
  "do_tty_interrupt t s = copy_to_cooked t s"

subsection \<open>Reading and writing a terminal\<close>

definition ALRMMASK :: u32 where "ALRMMASK = push_bit (SIGALRM - 1) 1"

text \<open>The inner loop of \<open>tty_read\<close>: \<open>True\<close> says that the end-of-file character makes it return.\<close>

fun tty_get :: "nat \<Rightarrow> nat \<Rightarrow> u32 \<Rightarrow> 'a kernel_state_scheme \<Rightarrow> bool \<times> nat \<times> u32 \<times> 'a kernel_state_scheme" where
  "tty_get t 0 b s = (False, 0, b, s)"
| "tty_get t (Suc nr) b s =
     (let y = tty s t;
          (c, q) = GETCH (secondary y);
          q = (if is_char c (EOF_CHAR y) \<or> c = 10 then q\<lparr>q_data := q_data q - 1\<rparr> else q);
          s = upd_tty t (\<lambda>y. y\<lparr>secondary := q\<rparr>) s in
      if is_char c (EOF_CHAR y) \<and> l_flag ICANON y then (True, Suc nr, b, s)
      else let s = put_fs_byte c b s in
           if nr = 0 \<or> EMPTY (secondary (tty s t)) then (False, nr, b + 1, s)
           else tty_get t nr (b + 1) s)"

definition set_alarm :: "u32 \<Rightarrow> 'a sched_state_scheme \<Rightarrow> 'a sched_state_scheme" where
  "set_alarm a s = upd_cur (\<lambda>t. t\<lparr>t_alarm := a\<rparr>) s"

text \<open>
  \<open>if (flag=(!oldalarm || time+jiffies<oldalarm)) current->alarm = time+jiffies;\<close> with the value for the
  other case.
\<close>

definition time_alarm :: "u32 \<Rightarrow> u32 \<Rightarrow> 'a sched_state_scheme \<Rightarrow> bool \<times> u32" where
  "time_alarm time oldalarm s =
     (let flag = (oldalarm = 0 \<or> sint (time + jiffies s) < sint oldalarm)
      in (flag, if flag then time + jiffies s else oldalarm))"

text \<open>The result of the loop: the number of bytes when it returned from inside, and the state.\<close>

partial_function (option) tty_read_loop :: "nat \<Rightarrow> u32 \<Rightarrow> u32 \<Rightarrow> u32 \<Rightarrow> u32 \<Rightarrow> bool \<Rightarrow> nat \<Rightarrow> u32 \<Rightarrow> 'a kernel_state_scheme \<Rightarrow>
    (bool \<times> u32 \<times> 'a kernel_state_scheme) res option" where
  "tty_read_loop t dst time minimum oldalarm flag nr b s =
     (if nr = 0 then Some (Inr (False, b, s))
      else if flag \<and> t_signal (cur s) AND ALRMMASK \<noteq> 0
      then Some (Inr (False, b, upd_cur (\<lambda>p. p\<lparr>t_signal := t_signal p AND NOT ALRMMASK\<rparr>) s))
      else if t_signal (cur s) \<noteq> 0 then Some (Inr (False, b, s))
      else if EMPTY (secondary (tty s t)) then Some (Inl (Blocks ''proc_list''))
      else if l_flag ICANON (tty s t) \<and> q_data (secondary (tty s t)) = 0 \<and> TTY_LEFT (secondary (tty s t)) > 20
      then tty_read_loop t dst time minimum oldalarm flag nr b s
      else
        let (eof, nr, b, s) = tty_get t nr b s in
        if eof then Some (Inr (True, b, s))
        else
          let canon = l_flag ICANON (tty s t);
              (flag, s) = (if time \<noteq> 0 \<and> \<not> canon
                           then let (f, a) = time_alarm time oldalarm s in (f, set_alarm a s) else (flag, s))
          in if (if canon then b \<noteq> dst else sint (b - dst) \<ge> sint minimum) then Some (Inr (False, b, s))
             else tty_read_loop t dst time minimum oldalarm flag nr b s)"

definition tty_read :: "u32 \<Rightarrow> u32 \<Rightarrow> u32 \<Rightarrow> 'a kernel_state_scheme \<Rightarrow> (u32 \<times> 'a kernel_state_scheme) res" where
  "tty_read channel dst nr s =
     (if channel > 2 \<or> sint nr < 0 then Inr (- 1, s)
      else
        let t = unat channel;
            oldalarm = t_alarm (cur s);
            time = 10 * ucast (cc_char 5 (tty s t));
            minimum = ucast (cc_char 6 (tty s t));
            (minimum, flag, s) =
              (if time \<noteq> 0 \<and> minimum = 0
               then let (f, a) = time_alarm time oldalarm s in (1, f, if f then set_alarm a s else s)
               else (minimum, False, s));
            minimum = (if sint minimum > sint nr then nr else minimum)
        in bindr (loop_res (tty_read_loop t dst time minimum oldalarm flag (unat nr) dst s)) (\<lambda>(eof, b, s).
           if eof then Inr (b - dst, s)
           else let s = set_alarm oldalarm s
                in Inr (if t_signal (cur s) \<noteq> 0 \<and> b = dst then - EINTR else b - dst, s)))"

text \<open>The inner loop of \<open>tty_write\<close>, until the queue is full or nothing is left.\<close>

partial_function (option) tty_put :: "nat \<Rightarrow> nat \<Rightarrow> u32 \<Rightarrow> 'a kernel_state_scheme \<Rightarrow> (nat \<times> u32 \<times> 'a kernel_state_scheme) res option" where
  "tty_put t nr b s =
     (if nr = 0 \<or> FULL (write_q (tty s t)) then Some (Inr (nr, b, s))
      else
        let y = tty s t;
            c = get_fs_byte b s;
            post = o_flag OPOST y;
            c = (if post \<and> c = 13 \<and> o_flag OCRNL y then 10 else if post \<and> c = 10 \<and> o_flag ONLRET y then 13 else c)
        in if post \<and> c = 10 \<and> \<not> cr_flag s \<and> o_flag ONLCR y
           then tty_put t nr b (put_write t 13 (s\<lparr>cr_flag := True\<rparr>))
           else bindo (if post \<and> o_flag OLCUC y then ctype_index c (Inr (toupper c)) else Inr c) (\<lambda>c.
                tty_put t (nr - 1) (b + 1) (put_write t c (s\<lparr>cr_flag := False\<rparr>))))"

definition sleep_if_full :: "tty_queue \<Rightarrow> 'a kernel_state_scheme \<Rightarrow> 'a kernel_state_scheme res" where
  "sleep_if_full q s =
     (if FULL q \<and> t_signal (cur s) = 0 \<and> TTY_LEFT q < 128 then Inl (Blocks ''proc_list'') else Inr s)"

partial_function (option) tty_write_loop :: "nat \<Rightarrow> nat \<Rightarrow> u32 \<Rightarrow> 'a kernel_state_scheme \<Rightarrow> (u32 \<times> 'a kernel_state_scheme) res option" where
  "tty_write_loop t nr b s =
     (if nr = 0 then Some (Inr (b, s))
      else bindo (sleep_if_full (write_q (tty s t)) s) (\<lambda>s.
           if t_signal (cur s) \<noteq> 0 then Some (Inr (b, s))
           else bindo (loop_res (tty_put t nr b s)) (\<lambda>(nr, b, s).
                bindo (loop_res (tty_run Tty_write t s)) (tty_write_loop t nr b))))"

definition tty_write :: "u32 \<Rightarrow> u32 \<Rightarrow> u32 \<Rightarrow> 'a kernel_state_scheme \<Rightarrow> (u32 \<times> 'a kernel_state_scheme) res" where
  "tty_write channel src nr s =
     (if channel > 2 \<or> sint nr < 0 then Inr (- 1, s)
      else bindr (loop_res (tty_write_loop (unat channel) (unat nr) src s)) (\<lambda>(b, s). Inr (b - src, s)))"

subsection \<open>\<open>tty_ioctl\<close>\<close>

definition EINVAL :: u32 where "EINVAL = 22"

text \<open>A terminal number that is not in the table.\<close>

definition with_tty :: "u32 \<Rightarrow> 'a kernel_state_scheme \<Rightarrow> (nat \<Rightarrow> 'b res) \<Rightarrow> 'b res" where
  "with_tty d s k = (if unat d < length (tty_table s) then k (unat d) else Inl (Fault ''tty_table''))"

definition termios_bytes :: "termios \<Rightarrow> u8 list" where
  "termios_bytes m =
     put32 0 (c_iflag m) (put32 4 (c_oflag m) (put32 8 (c_cflag m) (put32 12 (c_lflag m) (replicate 16 0))))
     @ [c_line m] @ c_cc m @ c_pad m"

definition termios_of :: "u8 list \<Rightarrow> termios" where
  "termios_of l =
     \<lparr>c_iflag = get32 l 0, c_oflag = get32 l 4, c_cflag = get32 l 8, c_lflag = get32 l 12, c_line = l ! 16,
      c_cc = take 17 (drop 17 l), c_pad = take 2 (drop 34 l)\<rparr>"

definition get_termios :: "nat \<Rightarrow> u32 \<Rightarrow> 'a kernel_state_scheme \<Rightarrow> (u32 \<times> 'a kernel_state_scheme) res" where
  "get_termios t a s =
     bindr (verify_area a 36 s) (\<lambda>s. Inr (0, put_fs_bytes (termios_bytes (tty_termios (tty s t))) a s))"

definition set_termios :: "nat \<Rightarrow> u32 \<Rightarrow> 'a kernel_state_scheme \<Rightarrow> (u32 \<times> 'a kernel_state_scheme) res" where
  "set_termios t a s = Inr (0, upd_tty t (\<lambda>y. y\<lparr>tty_termios := termios_of (get_fs_bytes 36 a s)\<rparr>) s)"

text \<open>
  \<open>struct termio\<close> has 16-bit flags and eight control characters: 18 bytes, the last one padding on the
  stack of \<open>get_termio\<close>.
\<close>

definition get_termio :: "nat \<Rightarrow> u8 \<Rightarrow> u32 \<Rightarrow> 'a kernel_state_scheme \<Rightarrow> (u32 \<times> 'a kernel_state_scheme) res" where
  "get_termio t pad a s =
     bindr (verify_area a 18 s) (\<lambda>s.
     let m = tty_termios (tty s t);
         l = put16 0 (ucast (c_iflag m)) (put16 2 (ucast (c_oflag m)) (put16 4 (ucast (c_cflag m))
               (put16 6 (ucast (c_lflag m)) (replicate 8 0)))) @ [c_line m] @ take 8 (c_cc m) @ [pad]
     in Inr (0, put_fs_bytes l a s))"

definition low16 :: "u16 \<Rightarrow> u32 \<Rightarrow> u32" where "low16 v w = (w AND 0xFFFF0000) OR ucast v"

definition set_termio :: "nat \<Rightarrow> u32 \<Rightarrow> 'a kernel_state_scheme \<Rightarrow> (u32 \<times> 'a kernel_state_scheme) res" where
  "set_termio t a s =
     (let l = get_fs_bytes 18 a s
      in Inr (0, upd_tty t (\<lambda>y. y\<lparr>tty_termios := (tty_termios y)\<lparr>
             c_iflag := low16 (get16 l 0) (c_iflag (tty_termios y)), c_oflag := low16 (get16 l 2) (c_oflag (tty_termios y)),
             c_cflag := low16 (get16 l 4) (c_cflag (tty_termios y)), c_lflag := low16 (get16 l 6) (c_lflag (tty_termios y)),
             c_line := l ! 8, c_cc := take 8 (drop 9 l) @ drop 8 (c_cc (tty_termios y))\<rparr>\<rparr>) s))"

definition flush_queue :: "tty_queue \<Rightarrow> tty_queue" where "flush_queue q = q\<lparr>q_head := q_tail q\<rparr>"

definition flush_read :: "nat \<Rightarrow> 'a kernel_state_scheme \<Rightarrow> 'a kernel_state_scheme" where
  "flush_read t s = upd_tty t (\<lambda>y. y\<lparr>read_q := flush_queue (read_q y)\<rparr>) s"

definition flush_write :: "nat \<Rightarrow> 'a kernel_state_scheme \<Rightarrow> 'a kernel_state_scheme" where
  "flush_write t s = upd_tty t (\<lambda>y. y\<lparr>write_q := flush_queue (write_q y)\<rparr>) s"

definition tty_command :: "nat \<Rightarrow> u8 \<Rightarrow> u32 \<Rightarrow> u32 \<Rightarrow> 'a kernel_state_scheme \<Rightarrow> (u32 \<times> 'a kernel_state_scheme) res" where
  "tty_command t pad cmd arg s =
     (if cmd = 0x5401 then get_termios t arg s
      else if cmd = 0x5404 then set_termios t arg (flush_read t s)
      else if cmd = 0x5403 \<or> cmd = 0x5402 then set_termios t arg s
      else if cmd = 0x5405 then get_termio t pad arg s
      else if cmd = 0x5408 then set_termio t arg (flush_read t s)
      else if cmd = 0x5407 \<or> cmd = 0x5406 then set_termio t arg s
      else if cmd = 0x5409 then Inr (0, s)
      else if cmd = 0x540B
      then if arg = 0 then Inr (0, flush_read t s)
           else if arg = 1 then Inr (0, flush_write t s)
           else if arg = 2 then Inr (0, flush_write t (flush_read t s))
           else Inr (- EINVAL, s)
      else if cmd = 0x540F then bindr (verify_area arg 4 s) (\<lambda>s. Inr (0, put_fs_long (tty_pgrp (tty s t)) arg s))
      else if cmd = 0x5410 then Inr (0, upd_tty t (\<lambda>y. y\<lparr>tty_pgrp := get_fs_long arg s\<rparr>) s)
      else if cmd = 0x5411 then bindr (verify_area arg 4 s) (\<lambda>s. Inr (0, put_fs_long (CHARS (write_q (tty s t))) arg s))
      else Inr (- EINVAL, s))"

text \<open>\<open>pad\<close> is the byte of the stack that \<open>get_termio\<close> copies out uninitialised.\<close>

definition tty_ioctl :: "u8 \<Rightarrow> u32 \<Rightarrow> u32 \<Rightarrow> u32 \<Rightarrow> 'a kernel_state_scheme \<Rightarrow> (u32 \<times> 'a kernel_state_scheme) res" where
  "tty_ioctl pad dev cmd arg s =
     (if MAJOR dev = 5 \<and> sint (t_tty (cur s)) < 0 then Inl (Panic ''tty_ioctl: dev<0'')
      else with_tty (if MAJOR dev = 5 then t_tty (cur s) else MINOR dev) s (\<lambda>t. tty_command t pad cmd arg s))"

subsection \<open>Character devices (\<open>fs/char_dev.c\<close>)\<close>

definition rw_ttyx :: "u32 \<Rightarrow> u32 \<Rightarrow> u32 \<Rightarrow> u32 \<Rightarrow> 'a kernel_state_scheme \<Rightarrow> (u32 \<times> 'a kernel_state_scheme) res" where
  "rw_ttyx rw minor b cnt s = (if rw = READ then tty_read minor b cnt s else tty_write minor b cnt s)"

definition rw_tty :: "u32 \<Rightarrow> u32 \<Rightarrow> u32 \<Rightarrow> u32 \<Rightarrow> 'a kernel_state_scheme \<Rightarrow> (u32 \<times> 'a kernel_state_scheme) res" where
  "rw_tty rw minor b cnt s =
     (if sint (t_tty (cur s)) < 0 then Inr (- EPERM, s) else rw_ttyx rw (t_tty (cur s)) b cnt s)"

definition rw_char :: "u32 \<Rightarrow> u32 \<Rightarrow> u32 \<Rightarrow> u32 \<Rightarrow> 'a kernel_state_scheme \<Rightarrow> (u32 \<times> 'a kernel_state_scheme) res" where
  "rw_char rw dev b cnt s =
     (if MAJOR dev \<ge> 8 then Inl (Panic ''rw_char: dev>NRDEV'')
      else if MAJOR dev = 4 then rw_ttyx rw (MINOR dev) b cnt s
      else if MAJOR dev = 5 then rw_tty rw (MINOR dev) b cnt s
      else Inl (Panic ''Trying to r/w from/to nonexistent character device''))"

end
