(* ===== verification/Linux_Open.thy ===== *)
theory Linux_Open
  imports Linux_Tty Linux_Vsprintf
begin

unbundle bit_operations_syntax

section \<open>File system calls of linux-0.01 (\<open>fs/read_write.c\<close>, \<open>open.c\<close>, \<open>fcntl.c\<close>, \<open>stat.c\<close>, \<open>ioctl.c\<close>)\<close>

text \<open>
  The calls on file descriptors and path names.  A descriptor is the index of a pointer in the current task to
  an entry of \<open>file_table\<close>; \<open>verify_area\<close> makes the pages of the process writable before the kernel stores
  into them.
\<close>

definition EBADF :: u32 where "EBADF = 9"
definition EMFILE :: u32 where "EMFILE = 24"
definition ENOTTY :: u32 where "ENOTTY = 25"
definition ESPIPE :: u32 where "ESPIPE = 29"

definition IS_BLOCKDEV :: "u32 \<Rightarrow> bool" where "IS_BLOCKDEV x \<longleftrightarrow> x = 2 \<or> x = 3"

text \<open>\<open>fd >= NR_OPEN || !(file=current->filp[fd])\<close>\<close>

definition fd_file :: "u32 \<Rightarrow> 'a sched_state_scheme \<Rightarrow> nat option" where
  "fd_file fd s = (if unat fd \<ge> NR_OPEN then None else t_filp (cur s) ! unat fd)"

subsection \<open>\<open>printk\<close> (\<open>kernel/printk.c\<close>)\<close>

text \<open>
  \<open>printk\<close> formats into a static buffer at address \<open>printk_buf\<close> and writes it to the console with \<open>fs\<close> set to the
  segment of the kernel, so that \<open>tty_write\<close> takes the bytes from there; \<open>fs\<close> is restored afterwards.
  \<open>m\<close> is the memory that the pointers among the arguments refer to.
\<close>

definition bytes_of :: "string \<Rightarrow> u8 list" where "bytes_of = map of_char"

definition printk_buf :: u32 where "printk_buf = 0"

definition kernel_buf :: "u8 list \<Rightarrow> u32 \<Rightarrow> u8" where
  "kernel_buf l a = (if unat (a - printk_buf) < length l then l ! unat (a - printk_buf) else 0)"

definition printk :: "memory \<Rightarrow> string \<Rightarrow> u32 list \<Rightarrow> 'a kernel_state_scheme \<Rightarrow> 'a kernel_state_scheme res" where
  "printk m fmt args s =
     bindr (vsprintf m (bytes_of fmt) args) (\<lambda>(i, _, out).
     bindr (tty_write 0 printk_buf i (s\<lparr>user := kernel_buf out\<rparr>)) (\<lambda>(_, s').
     Inr (s'\<lparr>user := user s\<rparr>)))"

text \<open>Line ends and tabs of the messages.\<close>

definition crlf :: string where "crlf = [CHR 0x0A, CHR 0x0D]"
definition lf_str :: string where "lf_str = [CHR 0x0A]"
definition tab_str :: string where "tab_str = [CHR 0x09]"

subsection \<open>Positions, reading and writing\<close>

definition sys_lseek :: "u32 \<Rightarrow> u32 \<Rightarrow> u32 \<Rightarrow> 'a fs_state_scheme \<Rightarrow> u32 \<times> 'a fs_state_scheme" where
  "sys_lseek fd offset origin s =
     (case fd_file fd s of
        None \<Rightarrow> (- EBADF, s)
      | Some fi \<Rightarrow>
          case f_inode (filp s fi) of
            None \<Rightarrow> (- EBADF, s)
          | Some ino \<Rightarrow>
              let m = inode s ino; f = filp s fi; to = (\<lambda>p. (p, upd_file fi (\<lambda>f. f\<lparr>f_pos := p\<rparr>) s)) in
              if \<not> IS_BLOCKDEV (MAJOR (ucast (i_dev m))) then (- EBADF, s)
              else if i_pipe m \<noteq> 0 then (- ESPIPE, s)
              else if origin = 0 then if sint offset < 0 then (- EINVAL, s) else to offset
              else if origin = 1 then if sint (f_pos f + offset) < 0 then (- EINVAL, s) else to (f_pos f + offset)
              else if origin = 2 then if sint (i_size m + offset) < 0 then (- EINVAL, s) else to (i_size m + offset)
              else (- EINVAL, s))"

definition sys_read :: "u32 \<Rightarrow> u32 \<Rightarrow> u32 \<Rightarrow> 'a kernel_state_scheme \<Rightarrow> (u32 \<times> 'a kernel_state_scheme) res" where
  "sys_read fd dst cnt s =
     (case fd_file fd s of
        None \<Rightarrow> Inr (- EINVAL, s)
      | Some fi \<Rightarrow>
          if sint cnt < 0 then Inr (- EINVAL, s)
          else if cnt = 0 then Inr (0, s)
          else bindr (verify_area dst cnt s) (\<lambda>s.
            deref ''f_inode'' (f_inode (filp s fi)) (\<lambda>ino.
            let m = inode s ino; f = filp s fi in
            if i_pipe m \<noteq> 0 then if f_mode f AND 1 \<noteq> 0 then read_pipe ino dst cnt s else Inr (- 1, s)
            else if S_ISCHR (i_mode m) then rw_char READ (ucast (i_zone m ! 0)) dst cnt s
            else if S_ISBLK (i_mode m) then block_read (ucast (i_zone m ! 0)) fi dst cnt s
            else if S_ISDIR (i_mode m) \<or> S_ISREG (i_mode m)
            then let cnt = (if cnt + f_pos f > i_size m then i_size m - f_pos f else cnt)
                 in if sint cnt \<le> 0 then Inr (0, s) else file_read ino fi dst cnt s
            else bindr (printk (\<lambda>_. 0) (''(Read)inode->i_mode=%06o'' @ crlf) [ucast (i_mode m)] s) (\<lambda>s. Inr (- EINVAL, s)))))"

definition sys_write :: "u32 \<Rightarrow> u32 \<Rightarrow> u32 \<Rightarrow> 'a kernel_state_scheme \<Rightarrow> (u32 \<times> 'a kernel_state_scheme) res" where
  "sys_write fd src cnt s =
     (case fd_file fd s of
        None \<Rightarrow> Inr (- EINVAL, s)
      | Some fi \<Rightarrow>
          if sint cnt < 0 then Inr (- EINVAL, s)
          else if cnt = 0 then Inr (0, s)
          else deref ''f_inode'' (f_inode (filp s fi)) (\<lambda>ino.
            let m = inode s ino; f = filp s fi in
            if i_pipe m \<noteq> 0 then if f_mode f AND 2 \<noteq> 0 then write_pipe ino src cnt s else Inr (- 1, s)
            else if S_ISCHR (i_mode m) then rw_char WRITE (ucast (i_zone m ! 0)) src cnt s
            else if S_ISBLK (i_mode m) then block_write (ucast (i_zone m ! 0)) fi src cnt s
            else if S_ISREG (i_mode m) then file_write ino fi src cnt s
            else bindr (printk (\<lambda>_. 0) (''(Write)inode->i_mode=%06o'' @ crlf) [ucast (i_mode m)] s) (\<lambda>s. Inr (- EINVAL, s))))"

subsection \<open>Attributes\<close>

definition sys_utime :: "u32 \<Rightarrow> u32 \<Rightarrow> 'a fs_state_scheme \<Rightarrow> (u32 \<times> 'a fs_state_scheme) res" where
  "sys_utime filename tp s =
     bindr (namei filename s) (\<lambda>(r, s).
     case r of
       None \<Rightarrow> Inr (- ENOENT, s)
     | Some ino \<Rightarrow>
         let (actime, modtime) = (if tp \<noteq> 0 then (get_fs_long tp s, get_fs_long (tp + 4) s)
                                  else (CURRENT_TIME s, CURRENT_TIME s))
         in iput_return ino 0 (upd_inode ino (\<lambda>m. m\<lparr>i_atime := actime, i_mtime := modtime, i_dirt := 1\<rparr>) s))"

text \<open>The mode bits \<open>sys_access\<close> tests, from the mode and the owner of the inode it has given up.\<close>

definition access_bits :: "u32 \<Rightarrow> m_inode \<Rightarrow> task_struct \<Rightarrow> u32" where
  "access_bits mode m t =
     (let r = (if \<not> (t_euid t \<noteq> 0 \<and> t_uid t \<noteq> 0) then if mode AND 0x49 \<noteq> 0 then 0x1FF else 0x1B6 else mode)
      in if t_euid t = i_uid m then drop_bit 6 r
         else if t_egid t = ucast (i_gid m) then drop_bit 6 r
         else r)"

definition sys_access :: "u32 \<Rightarrow> u32 \<Rightarrow> 'a fs_state_scheme \<Rightarrow> (u32 \<times> 'a fs_state_scheme) res" where
  "sys_access filename mode s =
     (let mode = mode AND 7 in
      bindr (namei filename s) (\<lambda>(r, s).
      case r of
        None \<Rightarrow> Inr (- EACCES, s)
      | Some ino \<Rightarrow>
          let imode = ucast (i_mode (inode s ino)) AND 0x1FF in
          bindr (iput ino s) (\<lambda>s.
          Inr (if access_bits imode (inode s ino) (cur s) AND 7 AND mode = mode then 0 else - EACCES, s))))"

definition sys_chdir :: "u32 \<Rightarrow> 'a fs_state_scheme \<Rightarrow> (u32 \<times> 'a fs_state_scheme) res" where
  "sys_chdir filename s =
     bindr (namei filename s) (\<lambda>(r, s).
     case r of
       None \<Rightarrow> Inr (- ENOENT, s)
     | Some ino \<Rightarrow>
         if \<not> S_ISDIR (i_mode (inode s ino)) then iput_return ino (- ENOTDIR) s
         else bindr (iput_ptr (t_pwd (cur s)) s) (\<lambda>s. Inr (0, upd_cur (\<lambda>t. t\<lparr>t_pwd := Some ino\<rparr>) s)))"

definition sys_chroot :: "u32 \<Rightarrow> 'a fs_state_scheme \<Rightarrow> (u32 \<times> 'a fs_state_scheme) res" where
  "sys_chroot filename s =
     bindr (namei filename s) (\<lambda>(r, s).
     case r of
       None \<Rightarrow> Inr (- ENOENT, s)
     | Some ino \<Rightarrow>
         if \<not> S_ISDIR (i_mode (inode s ino)) then iput_return ino (- ENOTDIR) s
         else bindr (iput_ptr (t_root (cur s)) s) (\<lambda>s. Inr (0, upd_cur (\<lambda>t. t\<lparr>t_root := Some ino\<rparr>) s)))"

definition sys_chmod :: "u32 \<Rightarrow> u32 \<Rightarrow> 'a fs_state_scheme \<Rightarrow> (u32 \<times> 'a fs_state_scheme) res" where
  "sys_chmod filename mode s =
     bindr (namei filename s) (\<lambda>(r, s).
     case r of
       None \<Rightarrow> Inr (- ENOENT, s)
     | Some ino \<Rightarrow>
         let m = inode s ino; t = cur s; limited = (t_uid t \<noteq> 0 \<and> t_euid t \<noteq> 0) in
         if limited \<and> t_uid t \<noteq> i_uid m \<and> t_euid t \<noteq> i_uid m then iput_return ino (- EACCES) s
         else let mode = (if limited then (mode AND 0x1FF) OR (ucast (i_mode m) AND 0xE00) else mode)
              in iput_return ino 0 (upd_inode ino (\<lambda>m. m\<lparr>i_mode := ucast ((mode AND 0xFFF) OR (ucast (i_mode m) AND NOT 0xFFF)),
                   i_dirt := 1\<rparr>) s))"

definition sys_chown :: "u32 \<Rightarrow> u32 \<Rightarrow> u32 \<Rightarrow> 'a fs_state_scheme \<Rightarrow> (u32 \<times> 'a fs_state_scheme) res" where
  "sys_chown filename uid gid s =
     bindr (namei filename s) (\<lambda>(r, s).
     case r of
       None \<Rightarrow> Inr (- ENOENT, s)
     | Some ino \<Rightarrow>
         if t_uid (cur s) \<noteq> 0 \<and> t_euid (cur s) \<noteq> 0 then iput_return ino (- EACCES) s
         else iput_return ino 0 (upd_inode ino (\<lambda>m. m\<lparr>i_uid := ucast uid, i_gid := ucast gid, i_dirt := 1\<rparr>) s))"

text \<open>\<open>struct stat\<close> is 32 bytes; \<open>padding\<close> gives the four that fill it up, left as the stack has them.\<close>

definition stat_bytes :: "u8 list \<Rightarrow> m_inode \<Rightarrow> u8 list" where
  "stat_bytes padding m =
     put16 0 (i_dev m) (put16 2 (i_num m) (put16 4 (i_mode m) (replicate 6 0))) @ [i_nlinks m, padding ! 0]
     @ put16 0 (i_uid m) [0, 0] @ [i_gid m, padding ! 1] @ put16 0 (i_zone m ! 0) [0, 0] @ [padding ! 2, padding ! 3]
     @ put32 0 (i_size m) (put32 4 (i_atime m) (put32 8 (i_mtime m) (put32 12 (i_ctime m) (replicate 16 0))))"

definition cp_stat :: "u8 list \<Rightarrow> nat \<Rightarrow> u32 \<Rightarrow> 'a fs_state_scheme \<Rightarrow> (u32 \<times> 'a fs_state_scheme) res" where
  "cp_stat padding ino statbuf s =
     bindr (verify_area statbuf 32 s) (\<lambda>s. Inr (0, put_fs_bytes (stat_bytes padding (inode s ino)) statbuf s))"

definition sys_stat :: "u8 list \<Rightarrow> u32 \<Rightarrow> u32 \<Rightarrow> 'a fs_state_scheme \<Rightarrow> (u32 \<times> 'a fs_state_scheme) res" where
  "sys_stat padding filename statbuf s =
     bindr (namei filename s) (\<lambda>(r, s).
     case r of
       None \<Rightarrow> Inr (- ENOENT, s)
     | Some ino \<Rightarrow> bindr (cp_stat padding ino statbuf s) (\<lambda>(i, s). iput_return ino i s))"

definition sys_fstat :: "u8 list \<Rightarrow> u32 \<Rightarrow> u32 \<Rightarrow> 'a fs_state_scheme \<Rightarrow> (u32 \<times> 'a fs_state_scheme) res" where
  "sys_fstat padding fd statbuf s =
     (case fd_file fd s of
        None \<Rightarrow> Inr (- ENOENT, s)
      | Some fi \<Rightarrow> (case f_inode (filp s fi) of None \<Rightarrow> Inr (- ENOENT, s) | Some ino \<Rightarrow> cp_stat padding ino statbuf s))"

subsection \<open>Descriptors\<close>

definition clear_close_on_exec :: "nat \<Rightarrow> 'a sched_state_scheme \<Rightarrow> 'a sched_state_scheme" where
  "clear_close_on_exec fd s = upd_cur (\<lambda>t. t\<lparr>t_close_on_exec := t_close_on_exec t AND NOT (push_bit fd 1)\<rparr>) s"

text \<open>Opening a terminal; \<open>None\<close> means that the file is given up with \<open>EPERM\<close>.\<close>

definition open_tty :: "nat \<Rightarrow> 'a kernel_state_scheme \<Rightarrow> 'a kernel_state_scheme option res" where
  "open_tty ino s =
     (let z = ucast (i_zone (inode s ino) ! 0) in
      if \<not> S_ISCHR (i_mode (inode s ino)) then Inr (Some s)
      else if MAJOR z = 4
      then if t_leader (cur s) \<noteq> 0 \<and> sint (t_tty (cur s)) < 0
           then let s = upd_cur (\<lambda>t. t\<lparr>t_tty := MINOR z\<rparr>) s
                in with_tty (MINOR z) s (\<lambda>t. Inr (Some (upd_tty t (\<lambda>y. y\<lparr>tty_pgrp := t_pgrp (cur s)\<rparr>) s)))
           else Inr (Some s)
      else if MAJOR z = 5 \<and> sint (t_tty (cur s)) < 0 then Inr None
      else Inr (Some s))"

definition drop_fd :: "nat \<Rightarrow> nat \<Rightarrow> 'a fs_state_scheme \<Rightarrow> 'a fs_state_scheme" where
  "drop_fd fd fi s = upd_file fi (\<lambda>f. f\<lparr>f_count := 0\<rparr>) (set_filp fd None s)"

definition sys_open :: "u32 \<Rightarrow> u32 \<Rightarrow> u32 \<Rightarrow> 'a kernel_state_scheme \<Rightarrow> (u32 \<times> 'a kernel_state_scheme) res" where
  "sys_open filename flag mode s =
     (let mode = mode AND 0x1FF AND NOT (ucast (t_umask (cur s))) in
      case find (\<lambda>i. t_filp (cur s) ! i = None) [0..<NR_OPEN] of
        None \<Rightarrow> Inr (- EINVAL, s)
      | Some fd \<Rightarrow>
          let s = clear_close_on_exec fd s in
          case find (\<lambda>i. f_count (filp s i) = 0) [0..<NR_FILE] of
            None \<Rightarrow> Inr (- EINVAL, s)
          | Some fi \<Rightarrow>
              bindr (open_namei filename flag mode (upd_file fi (\<lambda>f. f\<lparr>f_count := f_count f + 1\<rparr>) (set_filp fd (Some fi) s)))
                (\<lambda>((i, r), s).
                if sint i < 0 then Inr (i, drop_fd fd fi s)
                else deref ''inode'' r (\<lambda>ino.
                  bindr (open_tty ino s) (\<lambda>opened.
                  case opened of
                    None \<Rightarrow> bindr (iput ino s) (\<lambda>s. Inr (- EPERM, drop_fd fd fi s))
                  | Some s \<Rightarrow>
                      Inr (of_nat fd, upd_file fi (\<lambda>f. f\<lparr>f_mode := i_mode (inode s ino), f_flags := ucast flag, f_count := 1,
                        f_inode := Some ino, f_pos := 0\<rparr>) s)))))"

definition sys_creat :: "u32 \<Rightarrow> u32 \<Rightarrow> 'a kernel_state_scheme \<Rightarrow> (u32 \<times> 'a kernel_state_scheme) res" where
  "sys_creat pathname mode s = sys_open pathname (O_CREAT OR O_TRUNC) mode s"

definition sys_close :: "u32 \<Rightarrow> 'a fs_state_scheme \<Rightarrow> (u32 \<times> 'a fs_state_scheme) res" where
  "sys_close fd s =
     (if unat fd \<ge> NR_OPEN then Inr (- EINVAL, s)
      else let s = clear_close_on_exec (unat fd) s in
           case t_filp (cur s) ! unat fd of
             None \<Rightarrow> Inr (- EINVAL, s)
           | Some fi \<Rightarrow>
               let s = set_filp (unat fd) None s in
               if f_count (filp s fi) = 0 then Inl (Panic ''Close: file count is 0'')
               else let s = upd_file fi (\<lambda>f. f\<lparr>f_count := f_count f - 1\<rparr>) s in
                    if f_count (filp s fi) \<noteq> 0 then Inr (0, s)
                    else bindr (iput_ptr (f_inode (filp s fi)) s) (\<lambda>s. Inr (0, s)))"

definition dupfd :: "u32 \<Rightarrow> u32 \<Rightarrow> 'a fs_state_scheme \<Rightarrow> u32 \<times> 'a fs_state_scheme" where
  "dupfd fd arg s =
     (case fd_file fd s of
        None \<Rightarrow> (- EBADF, s)
      | Some fi \<Rightarrow>
          if unat arg \<ge> NR_OPEN then (- EINVAL, s)
          else case find (\<lambda>i. t_filp (cur s) ! i = None) [unat arg..<NR_OPEN] of
            None \<Rightarrow> (- EMFILE, s)
          | Some a \<Rightarrow>
              let s = set_filp a (Some fi) (clear_close_on_exec a s)
              in (of_nat a, upd_file fi (\<lambda>f. f\<lparr>f_count := f_count f + 1\<rparr>) s))"

definition sys_dup2 :: "u32 \<Rightarrow> u32 \<Rightarrow> 'a fs_state_scheme \<Rightarrow> (u32 \<times> 'a fs_state_scheme) res" where
  "sys_dup2 oldfd newfd s = bindr (sys_close newfd s) (\<lambda>(_, s). Inr (dupfd oldfd newfd s))"

definition sys_dup :: "u32 \<Rightarrow> 'a fs_state_scheme \<Rightarrow> u32 \<times> 'a fs_state_scheme" where
  "sys_dup fildes s = dupfd fildes 0 s"

definition SETTABLE :: u16 where "SETTABLE = 0xC00"   \<comment> \<open>\<open>O_APPEND | O_NONBLOCK\<close>\<close>

definition sys_fcntl :: "u32 \<Rightarrow> u32 \<Rightarrow> u32 \<Rightarrow> 'a fs_state_scheme \<Rightarrow> u32 \<times> 'a fs_state_scheme" where
  "sys_fcntl fd cmd arg s =
     (case fd_file fd s of
        None \<Rightarrow> (- EBADF, s)
      | Some fi \<Rightarrow>
          if cmd = 0 then dupfd fd arg s
          else if cmd = 1 then (drop_bit (unat fd) (t_close_on_exec (cur s)) AND 1, s)
          else if cmd = 2
          then (0, if arg AND 1 \<noteq> 0
                   then upd_cur (\<lambda>t. t\<lparr>t_close_on_exec := t_close_on_exec t OR push_bit (unat fd) 1\<rparr>) s
                   else clear_close_on_exec (unat fd) s)
          else if cmd = 3 then (ucast (f_flags (filp s fi)), s)
          else if cmd = 4
          then (0, upd_file fi (\<lambda>f. f\<lparr>f_flags := (f_flags f AND NOT SETTABLE) OR (ucast arg AND SETTABLE)\<rparr>) s)
          else (- 1, s))"

definition sys_ioctl :: "u8 \<Rightarrow> u32 \<Rightarrow> u32 \<Rightarrow> u32 \<Rightarrow> 'a kernel_state_scheme \<Rightarrow> (u32 \<times> 'a kernel_state_scheme) res" where
  "sys_ioctl padding fd cmd arg s =
     (case fd_file fd s of
        None \<Rightarrow> Inr (- EBADF, s)
      | Some fi \<Rightarrow>
          deref ''f_inode'' (f_inode (filp s fi)) (\<lambda>ino.
          let mode = i_mode (inode s ino); dev = ucast (i_zone (inode s ino) ! 0) in
          if \<not> S_ISCHR mode \<and> \<not> S_ISBLK mode then Inr (- EINVAL, s)
          else if MAJOR dev \<ge> 8 then Inl (Panic ''unknown device for ioctl'')
          else if MAJOR dev = 4 \<or> MAJOR dev = 5 then tty_ioctl padding dev cmd arg s
          else Inr (- ENOTTY, s)))"

end
