(* ===== verification/Linux_Exit.thy ===== *)
theory Linux_Exit
  imports Linux_Open
begin

unbundle bit_operations_syntax

section \<open>Making and ending processes in linux-0.01 (\<open>kernel/fork.c\<close>, \<open>kernel/exit.c\<close>, \<open>kernel/sys.c\<close>)\<close>

text \<open>
  \<open>copy_process\<close> makes a child that shares the pages, files and directories of its parent, \<open>do_exit\<close>
  gives them up.  The task structure of a child lies in a page of its own, whose address is the pointer to it.
  The descriptors of the child in the global table and its coprocessor state are added by \<open>fork_process\<close> of
  \<open>Linux_Start\<close>.  Where \<open>release\<close>
  calls \<open>schedule\<close> the other tasks get a turn; \<open>do_exit\<close> gives the state in which the process is gone.
\<close>

definition child_task :: "u32 \<Rightarrow> nat \<Rightarrow> tss_struct \<Rightarrow> 'a sched_state_scheme \<Rightarrow> task_struct" where
  "child_task p nr regs s =
     (cur s)\<lparr>t_state := TASK_RUNNING, t_pid := last_pid s, t_father := t_pid (cur s), t_counter := t_priority (cur s),
       t_signal := 0, t_alarm := 0, t_leader := 0, t_utime := 0, t_stime := 0, t_cutime := 0, t_cstime := 0,
       t_start_time := jiffies s,
       t_tss := (t_tss (cur s))\<lparr>tss_back_link := 0, tss_esp0 := 4096 + p, tss_ss0 := 0x10, tss_eip := tss_eip regs,
         tss_eflags := tss_eflags regs, tss_eax := 0, tss_ecx := tss_ecx regs, tss_edx := tss_edx regs,
         tss_ebx := tss_ebx regs, tss_esp := tss_esp regs, tss_ebp := tss_ebp regs, tss_esi := tss_esi regs,
         tss_edi := tss_edi regs, tss_es := tss_es regs AND 0xFFFF, tss_cs := tss_cs regs AND 0xFFFF,
         tss_ss := tss_ss regs AND 0xFFFF, tss_ds := tss_ds regs AND 0xFFFF, tss_fs := tss_fs regs AND 0xFFFF,
         tss_gs := tss_gs regs AND 0xFFFF, tss_ldt := push_bit 4 (of_nat nr) + 0x28, tss_trace_bitmap := 0x80000000\<rparr>\<rparr>"

definition inc_file :: "nat option \<Rightarrow> 'a fs_state_scheme \<Rightarrow> 'a fs_state_scheme" where
  "inc_file p s = (case p of None \<Rightarrow> s | Some fi \<Rightarrow> upd_file fi (\<lambda>f. f\<lparr>f_count := f_count f + 1\<rparr>) s)"

definition inc_inode :: "nat option \<Rightarrow> 'a fs_state_scheme \<Rightarrow> 'a fs_state_scheme" where
  "inc_inode p s = (case p of None \<Rightarrow> s | Some ino \<Rightarrow> upd_inode ino (\<lambda>m. m\<lparr>i_count := i_count m + 1\<rparr>) s)"

text \<open>The arguments of \<open>copy_process\<close> are the registers on the stack, given here as a \<open>tss_struct\<close>.\<close>

definition copy_process :: "nat \<Rightarrow> tss_struct \<Rightarrow> 'a fs_state_scheme \<Rightarrow> (u32 \<times> 'a fs_state_scheme) res" where
  "copy_process nr regs s =
     (let (p, s) = get_free_page s in
      if p = 0 then Inr (- EAGAIN, s)
      else let s = upd_task p (\<lambda>_. child_task p nr regs s) s in
           bindr (copy_mem nr p s) (\<lambda>(r, s).
           if r \<noteq> 0 then bindr (free_page p s) (\<lambda>s. Inr (- EAGAIN, s))
           else let s = fold (\<lambda>i. inc_file (t_filp (tasks s p) ! i)) [0..<NR_OPEN] s;
                    s = inc_inode (t_pwd (cur s)) s;
                    s = inc_inode (t_root (cur s)) s
                in Inr (last_pid s, s\<lparr>task := (task s)[nr := p]\<rparr>)))"

subsection \<open>Exit\<close>

definition release :: "u32 \<Rightarrow> 'a mm_state_scheme \<Rightarrow> 'a mm_state_scheme res" where
  "release p s =
     (if p = 0 then Inr s
      else case find (\<lambda>i. task s ! i = p) [1..<NR_TASKS] of
        None \<Rightarrow> Inl (Panic ''trying to release non-existent task'')
      | Some i \<Rightarrow> free_page p (s\<lparr>task := (task s)[i := 0]\<rparr>))"

definition orphan_children :: "'a sched_state_scheme \<Rightarrow> 'a sched_state_scheme" where
  "orphan_children s =
     fold (\<lambda>i s. if task s ! i \<noteq> 0 \<and> t_father (tasks s (task s ! i)) = t_pid (cur s)
                then upd_task (task s ! i) (\<lambda>t. t\<lparr>t_father := 0\<rparr>) s else s) [0..<NR_TASKS] s"

fun close_all :: "nat list \<Rightarrow> 'a fs_state_scheme \<Rightarrow> 'a fs_state_scheme res" where
  "close_all [] s = Inr s"
| "close_all (i # is) s =
     bindr (if t_filp (cur s) ! i \<noteq> None then bindr (sys_close (of_nat i) s) (\<lambda>(_, s). Inr s) else Inr s) (close_all is)"

text \<open>\<open>if (current->leader && current->tty >= 0) tty_table[current->tty].pgrp = 0\<close>\<close>

definition drop_tty :: "'a kernel_state_scheme \<Rightarrow> 'a kernel_state_scheme res" where
  "drop_tty s =
     (if t_leader (cur s) \<noteq> 0 \<and> sint (t_tty (cur s)) \<ge> 0
      then with_tty (t_tty (cur s)) s (\<lambda>t. Inr (upd_tty t (\<lambda>y. y\<lparr>tty_pgrp := 0\<rparr>) s))
      else Inr s)"

definition do_exit :: "u32 \<Rightarrow> 'a kernel_state_scheme \<Rightarrow> 'a kernel_state_scheme res" where
  "do_exit code s =
     bindr (free_page_tables (get_base (t_ldt (cur s) ! 1)) (get_limit 0x0F s) s) (\<lambda>s.
     bindr (free_page_tables (get_base (t_ldt (cur s) ! 2)) (get_limit 0x17 s) s) (\<lambda>s.
     bindr (close_all [0..<NR_OPEN] (orphan_children s)) (\<lambda>s.
     bindr (iput_ptr (t_pwd (cur s)) s) (\<lambda>s.
     let s = upd_cur (\<lambda>t. t\<lparr>t_pwd := None\<rparr>) s in
     bindr (iput_ptr (t_root (cur s)) s) (\<lambda>s.
     let s = upd_cur (\<lambda>t. t\<lparr>t_root := None\<rparr>) s in
     bindr (drop_tty s) (\<lambda>s.
     let s = (if last_task_used_math s = current s then s\<lparr>last_task_used_math := 0\<rparr> else s) in
     if t_father (cur s) \<noteq> 0
     then let s = upd_cur (\<lambda>t. t\<lparr>t_state := TASK_ZOMBIE\<rparr>) s;
              s = do_kill (t_father (cur s)) (of_nat SIGCHLD) True s
          in Inr (upd_cur (\<lambda>t. t\<lparr>t_exit_code := code\<rparr>) s)
     else release (current s) s))))))"

definition sys_exit :: "u32 \<Rightarrow> 'a kernel_state_scheme \<Rightarrow> 'a kernel_state_scheme res" where
  "sys_exit error_code s = do_exit (push_bit 8 (error_code AND 0xFF)) s"

subsection \<open>Waiting\<close>

definition WNOHANG :: u32 where "WNOHANG = 1"

definition wait_selects :: "u32 \<Rightarrow> 'a sched_state_scheme \<Rightarrow> nat \<Rightarrow> bool" where
  "wait_selects pid s i \<longleftrightarrow>
     (let p = task s ! i; t = tasks s p in
      p \<noteq> 0 \<and> p \<noteq> current s \<and>
      (pid = - 1 \<or> t_pid t = pid \<or> pid = 0 \<and> t_pgrp t = t_pgrp (cur s) \<or> sint pid < 0 \<and> t_pgrp t = - pid) \<and>
      t_father t = t_pid (cur s))"

text \<open>
  The loop over the table stops at the first zombie child; with children but no zombie the process sleeps in
  \<open>sys_pause\<close>.
\<close>

definition sys_waitpid :: "u32 \<Rightarrow> u32 \<Rightarrow> u32 \<Rightarrow> 'a fs_state_scheme \<Rightarrow> (u32 \<times> 'a fs_state_scheme) res" where
  "sys_waitpid pid stat_addr options s =
     bindr (verify_area stat_addr 4 s) (\<lambda>s.
     let kids = filter (wait_selects pid s) slots_down in
     case find (\<lambda>i. t_state (tasks s (task s ! i)) = TASK_ZOMBIE) kids of
       Some i \<Rightarrow>
         let p = task s ! i; t = tasks s p;
             s = put_fs_long (t_exit_code t) stat_addr s;
             s = upd_cur (\<lambda>c. c\<lparr>t_cutime := t_cutime c + t_utime t, t_cstime := t_cstime c + t_stime t\<rparr>) s
         in bindr (release p s) (\<lambda>s. Inr (t_pid t, s))
     | None \<Rightarrow>
         if kids = [] then Inr (- ECHILD, s)
         else if options AND WNOHANG \<noteq> 0 then Inr (0, s)
         else Inl (Blocks ''sys_pause''))"

subsection \<open>Calls that give the process times and names\<close>

definition sys_time :: "u32 \<Rightarrow> 'a fs_state_scheme \<Rightarrow> (u32 \<times> 'a fs_state_scheme) res" where
  "sys_time tloc s =
     (let i = CURRENT_TIME s in
      if tloc = 0 then Inr (i, s)
      else bindr (verify_area tloc 4 s) (\<lambda>s. Inr (i, put_fs_long i tloc s)))"

definition sys_stime :: "u32 \<Rightarrow> 'a fs_state_scheme \<Rightarrow> u32 \<times> 'a fs_state_scheme" where
  "sys_stime tptr s =
     (if t_euid (cur s) \<noteq> 0 \<and> t_uid (cur s) \<noteq> 0 then (- 1, s)
      else (0, s\<lparr>startup_time := get_fs_long tptr s - sdivi (jiffies s) 100\<rparr>))"

definition sys_times :: "u32 \<Rightarrow> 'a fs_state_scheme \<Rightarrow> (u32 \<times> 'a fs_state_scheme) res" where
  "sys_times tbuf s =
     (if tbuf = 0 then Inr (jiffies s, s)
      else bindr (verify_area tbuf 16 s) (\<lambda>s.
        let t = cur s
        in Inr (jiffies s, put_fs_long (t_cstime t) (tbuf + 12) (put_fs_long (t_cutime t) (tbuf + 8)
             (put_fs_long (t_stime t) (tbuf + 4) (put_fs_long (t_utime t) tbuf s))))))"

definition thisname :: "u8 list" where
  "thisname = concat (map (\<lambda>n. map of_char n @ [0]) [''linux .0'', ''nodename'', ''release '', ''version '', ''machine ''])"

definition sys_uname :: "u32 \<Rightarrow> 'a fs_state_scheme \<Rightarrow> (u32 \<times> 'a fs_state_scheme) res" where
  "sys_uname name s =
     (if name = 0 then Inr (- 1, s)
      else bindr (verify_area name 45 s) (\<lambda>s. Inr (0, put_fs_bytes thisname name s)))"

end
