(* ===== verification/Linux_Samples.thy ===== *)
theory Linux_Samples
  imports Linux_Exit Linux_Scheduler
begin

section \<open>A concrete kernel state for linux-0.01\<close>

text \<open>A state that fits the source's initial values, used to show that the hypotheses of the theorems can hold.\<close>

definition sample_console :: console where
  "sample_console = \<lparr>con_origin = SCREEN_START, con_scr_end = SCREEN_START + 4000, con_pos = SCREEN_START, con_x = 0, con_y = 0,
     con_top = 0, con_bottom = 25, con_state = 0, con_npar = 0, con_par = replicate NPAR 0, con_ques = False, con_attr = 7,
     con_saved_x = 0, con_saved_y = 0, con_vid = (\<lambda>_. 0), con_crt = (\<lambda>_. 0)\<rparr>"

definition sample_inode :: m_inode where
  "sample_inode = zero_inode"

definition sample_file :: open_file where
  "sample_file = \<lparr>f_mode = 0, f_flags = 0, f_count = 0, f_inode = None, f_pos = 0\<rparr>"

definition sample_super :: super_block where
  "sample_super = \<lparr>s_ninodes = 0, s_nzones = 0, s_imap_blocks = 0, s_zmap_blocks = 0, s_firstdatazone = 0, s_log_zone_size = 0,
     s_max_size = 0, s_magic = 0, s_imap = replicate 8 None, s_zmap = replicate 8 None, s_dev = 0, s_isup = None,
     s_imount = None, s_time = 0, s_rd_only = 0, s_dirt = 0\<rparr>"

definition sample_request :: hd_request where
  "sample_request = \<lparr>r_hd = - 1, r_nsector = 0, r_sector = 0, r_head = 0, r_cyl = 0, r_cmd = 0, r_errors = 0, r_bh = 0,
     r_next = None\<rparr>"

definition sample_head :: buffer_head where
  "sample_head = \<lparr>b_data = replicate BLOCK_SIZE 0, b_dev = 0, b_blocknr = 0, b_uptodate = 0, b_dirt = 0, b_count = 0, b_lock = 0,
     b_prev = None, b_next = None, b_prev_free = None, b_next_free = None\<rparr>"

text \<open>Four buffers on the free list, no file system mounted, the first drive of 83300 sectors.\<close>

definition sample_kernel :: kernel_state where
  "sample_kernel = \<lparr>task = 0x1000 # replicate 63 0, tasks = (\<lambda>_. idle_task), current = 0x1000, jiffies = 0, startup_time = 0,
     init_task = 0x1000, wait_queues = (\<lambda>_. 0), last_pid = 0, last_task_used_math = 0,
     mem_map = replicate PAGING_PAGES 0, phys = (\<lambda>_. 0),
     buffers = map (\<lambda>i. init_head 4 i sample_head) [0..<4], start_buffer = 0x20000, hash_table = replicate NR_HASH None,
     free_list = Some 0, inode_table = replicate NR_INODE sample_inode, inode_table_addr = 0x10000, last_allocated_inode = 0,
     file_table = replicate NR_FILE sample_file, super_blocks = replicate NR_SUPER sample_super, buffer_wait_addr = 0x9000,
     wait_for_request_addr = 0x9004, user = (\<lambda>_. 65),
     hd_parts = \<lparr>start_sect = 0, nr_sects = 83300\<rparr> # replicate 9 \<lparr>start_sect = 0, nr_sects = 0\<rparr>,
     request = replicate NR_REQUEST sample_request, this_request = None, do_hd = None, sorting = False, setup_callable = True,
     dsk_sectors = (\<lambda>d n. replicate 512 (of_nat n)), dsk_pos = (0, 0), dsk_buffer = [], dsk_status = sconst 0x50, dsk_drq = sconst True,
     dsk_ready = True, tty_table = tty_table_init, tty_table_addr = 0x30000, con = sample_console, cr_flag = False,
     ports = (\<lambda>_. 0)\<rparr>"

end
