(* ===== verification/Linux_Screen.thy ===== *)
theory Linux_Screen
  imports Linux_Samples
begin

unbundle bit_operations_syntax

section \<open>The console of linux-0.01 stays on the screen\<close>

text \<open>
  The invariant of the console: where the screen lies in the video memory, where the cursor is, the scrolling
  region and the state of the escape-sequence automaton.  Every operation of the console is a step that keeps
  it and stores into the video memory only; \<open>con_steps\<close> collects these facts.
\<close>

text \<open>Small numbers as words.\<close>

lemma small_less: "m < 4294967296 \<Longrightarrow> n < 4294967296 \<Longrightarrow> (of_nat m :: u32) < of_nat n \<longleftrightarrow> m < n"
  by (simp add: u32_less_iff unat_of_nat_u32)

lemma small_le: "m < 4294967296 \<Longrightarrow> n < 4294967296 \<Longrightarrow> (of_nat m :: u32) \<le> of_nat n \<longleftrightarrow> m \<le> n"
  by (simp add: u32_le_iff unat_of_nat_u32)

lemma small_eq: "m < 4294967296 \<Longrightarrow> n < 4294967296 \<Longrightarrow> (of_nat m :: u32) = of_nat n \<longleftrightarrow> m = n"
  by (simp add: u32_eq_iff unat_of_nat_u32)

text \<open>The cell \<open>j\<close> bytes into the video memory.\<close>

definition cell :: "nat \<Rightarrow> u32" where
  "cell j = SCREEN_START + of_nat j"

definition in_video :: "u32 \<Rightarrow> bool" where
  "in_video a \<longleftrightarrow> SCREEN_START \<le> a \<and> a < SCREEN_END"

lemma unat_cell: "j < 0x8000 \<Longrightarrow> unat (cell j) = 0xB8000 + j"
  by (simp add: cell_def SCREEN_START_def unat_add_u32 unat_of_nat_u32)

lemma in_video_cell: "j < 0x8000 \<Longrightarrow> in_video (cell j)"
  by (simp add: in_video_def u32_le_iff u32_less_iff unat_cell SCREEN_START_def SCREEN_END_def)

lemma cell_add: "cell j + of_nat i = cell (j + i)"
  by (simp add: cell_def)

lemma cell_diff: "i \<le> j \<Longrightarrow> cell j - of_nat i = cell (j - i)"
  by (simp add: cell_def of_nat_diff)

definition same_outside :: "(u32 \<Rightarrow> u16) \<Rightarrow> (u32 \<Rightarrow> u16) \<Rightarrow> bool" where
  "same_outside v w \<longleftrightarrow> (\<forall>a. \<not> in_video a \<longrightarrow> v a = w a)"

lemma same_outside_refl [simp]: "same_outside v v"
  by (simp add: same_outside_def)

lemma same_outside_trans: "same_outside u v \<Longrightarrow> same_outside v w \<Longrightarrow> same_outside u w"
  by (simp add: same_outside_def)

lemma same_outside_upd: "j < 0x8000 \<Longrightarrow> same_outside v w \<Longrightarrow> same_outside (v(cell j := c)) w"
  using in_video_cell [of j] by (auto simp: same_outside_def)

lemma same_outside_fold:
  assumes "\<And>i. i \<in> set is \<Longrightarrow> \<exists>j < 0x8000. f i = cell j"
  shows "same_outside (fold (\<lambda>i v. v(f i := c)) is v) v"
  using assms
proof (induction "is" arbitrary: v)
  case (Cons i "is")
  obtain j where "j < 0x8000" "f i = cell j" using Cons.prems [of i] by auto
  then have "same_outside (v(f i := c)) v" using same_outside_upd [of j v v] by simp
  moreover have "same_outside (fold (\<lambda>i v. v(f i := c)) is (v(f i := c))) (v(f i := c))"
    by (rule Cons.IH) (rule Cons.prems, simp)
  ultimately have "same_outside (fold (\<lambda>i v. v(f i := c)) is (v(f i := c))) v" by (rule same_outside_trans [rotated])
  then show ?case by (simp only: fold_simps)
qed simp

lemma stosw_outside:
  assumes "j + 2 * n \<le> 0x8000" shows "same_outside (stosw n (cell j) v) v"
  unfolding stosw_def
proof (rule same_outside_fold)
  fix i assume "i \<in> set [0..<n]"
  then have "j + 2 * i < 0x8000" using assms by simp
  moreover have "cell j + 2 * of_nat i = cell (j + 2 * i)" by (simp add: cell_def)
  ultimately show "\<exists>j' < 0x8000. cell j + 2 * of_nat i = cell j'" by blast
qed

lemma stosw_down_outside:
  assumes "j < 0x8000" "2 * n \<le> j + 2" shows "same_outside (stosw_down n (cell j) v) v"
  unfolding stosw_down_def
proof (rule same_outside_fold)
  fix i assume "i \<in> set [0..<n]"
  then have *: "2 * i \<le> j" using assms by simp
  then have "cell j - 2 * of_nat i = cell (j - 2 * i)" using cell_diff [OF *] by simp
  then show "\<exists>j' < 0x8000. cell j - 2 * of_nat i = cell j'" using assms by (metis diff_le_self le_less_trans)
qed

lemma movsl_vid_outside:
  "j + 4 * n \<le> 0x8000 \<Longrightarrow> same_outside (movsl_vid n src (cell j) v) v"
proof (induction n arbitrary: j src v)
  case (Suc n)
  let ?v = "v(cell j := v src, cell j + 2 := v (src + 2))"
  have e: "cell j + 2 = cell (j + 2)" "cell j + 4 = cell (j + 4)" using cell_add [of j 2] cell_add [of j 4] by simp_all
  have "same_outside ?v v" using Suc.prems unfolding e by (auto intro!: same_outside_upd)
  moreover have "same_outside (movsl_vid n (src + 4) (cell (j + 4)) ?v) ?v" using Suc.prems by (intro Suc.IH) simp
  ultimately show ?case by (auto simp: e intro: same_outside_trans)
qed simp

lemma movsl_vid_down_outside:
  "j + 4 \<le> 0x8000 \<Longrightarrow> 4 * n \<le> j + 4 \<Longrightarrow> same_outside (movsl_vid_down n src (cell j) v) v"
proof (induction n arbitrary: j src v)
  case (Suc n)
  let ?v = "v(cell j := v src, cell j + 2 := v (src + 2))"
  have e: "cell j + 2 = cell (j + 2)" using cell_add [of j 2] by simp
  have 1: "same_outside ?v v" using Suc.prems unfolding e by (auto intro!: same_outside_upd)
  show ?case
  proof (cases n)
    case 0 then show ?thesis using 1 by (simp only: movsl_vid_down.simps)
  next
    case (Suc m)
    then have "4 \<le> j" using Suc.prems by simp
    then have "cell j - 4 = cell (j - 4)" using cell_diff [of 4 j] by simp
    moreover have "same_outside (movsl_vid_down n (src - 4) (cell (j - 4)) ?v) ?v"
      using Suc.prems \<open>4 \<le> j\<close> by (intro Suc.IH) simp_all
    ultimately have "same_outside (movsl_vid_down n (src - 4) (cell j - 4) ?v) ?v" by (simp only:)
    from same_outside_trans [OF this 1] show ?thesis by (simp only: movsl_vid_down.simps)
  qed
qed simp

lemma shift_cells_outside: "j + 2 * n \<le> 0x8000 \<Longrightarrow> same_outside (shift_cells n (cell j) old v) v"
proof (induction n arbitrary: j old v)
  case (Suc n)
  have e: "cell j + 2 = cell (j + 2)" using cell_add [of j 2] by simp
  have "same_outside (v(cell j := old)) v" using Suc.prems by (auto intro!: same_outside_upd)
  moreover have "same_outside (shift_cells n (cell (j + 2)) (v (cell j)) (v(cell j := old))) (v(cell j := old))"
    using Suc.prems by (intro Suc.IH) simp
  ultimately show ?case by (auto simp: e intro: same_outside_trans)
qed simp

lemma pull_cells_outside: "j + 2 * n < 0x8000 \<Longrightarrow> same_outside (pull_cells n (cell j) v) v"
proof (induction n arbitrary: j v)
  case 0
  then have "same_outside (v(cell j := BLANK)) v" by (intro same_outside_upd) simp_all
  then show ?case by (simp only: pull_cells.simps)
next
  case (Suc n)
  have e: "cell j + 2 = cell (j + 2)" using cell_add [of j 2] by simp
  have "same_outside (v(cell j := v (cell (j + 2)))) v" using Suc.prems by (auto intro!: same_outside_upd)
  moreover have "same_outside (pull_cells n (cell (j + 2)) (v(cell j := v (cell (j + 2))))) (v(cell j := v (cell (j + 2))))"
    using Suc.prems by (intro Suc.IH) simp
  ultimately show ?case by (auto simp: e intro: same_outside_trans)
qed

subsection \<open>The invariant of the console\<close>

text \<open>
  The screen is \<open>g\<close> lines into the video memory and lies inside it; the cursor is at column \<open>x\<close> and line
  \<open>y\<close>, column 80 being the place after a full line.
\<close>

definition con_at :: "console \<Rightarrow> nat \<Rightarrow> nat \<Rightarrow> nat \<Rightarrow> bool" where
  "con_at k g x y \<longleftrightarrow> g \<le> 179 \<and> x \<le> 80 \<and> y < 25 \<and> con_origin k = cell (160 * g) \<and> con_scr_end k = cell (160 * g + 4000) \<and>
     con_x k = of_nat x \<and> con_y k = of_nat y \<and> con_pos k = cell (160 * g + 160 * y + 2 * x)"

definition con_region :: "console \<Rightarrow> nat \<Rightarrow> nat \<Rightarrow> bool" where
  "con_region k t b \<longleftrightarrow> t < b \<and> b \<le> 25 \<and> con_top k = of_nat t \<and> con_bottom k = of_nat b"

definition con_rest :: "console \<Rightarrow> bool" where
  "con_rest k \<longleftrightarrow> con_state k \<in> {0, 1, 2, 3} \<and> unat (con_npar k) < NPAR \<and> length (con_par k) = NPAR \<and>
     con_saved_x k \<le> COLUMNS \<and> con_saved_y k < LINES"

definition con_ok :: "console \<Rightarrow> bool" where
  "con_ok k \<longleftrightarrow> (\<exists>g x y. con_at k g x y) \<and> (\<exists>t b. con_region k t b) \<and> con_rest k"

text \<open>A step of the console that keeps the invariant and stores into the video memory only.\<close>

definition con_step_ok :: "console \<Rightarrow> console \<Rightarrow> bool" where
  "con_step_ok k k' \<longleftrightarrow> con_ok k' \<and> same_outside (con_vid k') (con_vid k)"

named_theorems con_steps \<open>operations of the console that are steps\<close>

lemma con_step_refl: "con_ok k \<Longrightarrow> con_step_ok k k"
  by (simp add: con_step_ok_def)

lemma con_step_trans: "con_step_ok k k' \<Longrightarrow> con_step_ok k' k'' \<Longrightarrow> con_step_ok k k''"
  unfolding con_step_ok_def by (blast intro: same_outside_trans)

lemma con_step_okD: "con_step_ok k k' \<Longrightarrow> con_ok k'"
  by (simp add: con_step_ok_def)

text \<open>Updates that the invariant does not look at.\<close>

lemma con_ok_vid: "con_ok (k\<lparr>con_vid := v\<rparr>) = con_ok k"
  by (simp add: con_ok_def con_at_def con_region_def con_rest_def)

lemma con_ok_crt: "con_ok (k\<lparr>con_crt := c\<rparr>) = con_ok k"
  by (simp add: con_ok_def con_at_def con_region_def con_rest_def)

lemma con_ok_attr: "con_ok (k\<lparr>con_attr := c\<rparr>) = con_ok k"
  by (simp add: con_ok_def con_at_def con_region_def con_rest_def)

lemma con_step_vid: "con_ok k \<Longrightarrow> same_outside v (con_vid k) \<Longrightarrow> con_step_ok k (k\<lparr>con_vid := v\<rparr>)"
  by (simp add: con_step_ok_def con_ok_vid)

lemma con_okI: "con_at k g x y \<Longrightarrow> con_region k t b \<Longrightarrow> con_rest k \<Longrightarrow> con_ok k"
  unfolding con_ok_def by blast

text \<open>Moving the cursor.\<close>

lemma con_at_move:
  assumes "con_at k g x y" "x' \<le> 80" "y' < 25"
  shows "con_at (k\<lparr>con_x := of_nat x', con_y := of_nat y', con_pos := cell (160 * g + 160 * y' + 2 * x')\<rparr>) g x' y'"
  using assms by (simp add: con_at_def)

lemma con_ok_move:
  assumes "con_ok k" "con_at k g x y" "x' \<le> 80" "y' < 25"
  shows "con_step_ok k (k\<lparr>con_x := of_nat x', con_y := of_nat y', con_pos := cell (160 * g + 160 * y' + 2 * x')\<rparr>)"
  using assms con_at_move [OF assms(2-4)]
  unfolding con_step_ok_def con_ok_def con_region_def con_rest_def by auto

lemma con_okE:
  assumes "con_ok k"
  obtains g x y t b where "con_at k g x y" "con_region k t b" "con_rest k"
  using assms unfolding con_ok_def by blast

lemma gotoxy_step [con_steps]: "con_ok k \<Longrightarrow> con_step_ok k (gotoxy nx ny k)"
proof (cases "nx \<ge> COLUMNS \<or> ny \<ge> LINES")
  case True
  then show "con_ok k \<Longrightarrow> ?thesis" by (auto simp: gotoxy_def con_step_refl)
next
  case False
  assume ok: "con_ok k"
  from ok obtain g x y t b where "con_at k g x y" "con_region k t b" "con_rest k" by (rule con_okE)
  note A = this
  have b: "unat nx < 80" "unat ny < 25" using False by (auto simp: u32_le_iff COLUMNS_def LINES_def not_le)
  have "push_bit 1 (ny * COLUMNS + nx) = of_nat (160 * unat ny + 2 * unat nx)"
    by (simp add: push_bit_eq_mult COLUMNS_def)
  then have p: "con_origin k + push_bit 1 (ny * COLUMNS + nx) = cell (160 * g + 160 * unat ny + 2 * unat nx)"
    using A(1) by (simp add: con_at_def cell_def)
  have "gotoxy nx ny k = k\<lparr>con_x := of_nat (unat nx), con_y := of_nat (unat ny),
      con_pos := cell (160 * g + 160 * unat ny + 2 * unat nx)\<rparr>"
    using False unfolding gotoxy_def p by simp
  then show ?thesis using con_ok_move [OF ok A(1), of "unat nx" "unat ny"] b by simp
qed

lemma set_origin_ok: "con_ok (set_origin k) = con_ok k" "con_vid (set_origin k) = con_vid k"
  by (simp_all add: set_origin_def con_ok_crt)

lemma scrup_all_step: assumes "con_ok k" shows "con_step_ok k (scrup_all k)"
proof -
  from assms obtain g x y t b where A: "con_at k g x y" "con_region k t b" "con_rest k" by (rule con_okE)
  let ?k = "k\<lparr>con_origin := con_origin k + 160, con_pos := con_pos k + 160, con_scr_end := con_scr_end k + 160\<rparr>"
  have eqs: "con_origin ?k = cell (160 * (g + 1))" "con_scr_end ?k = cell (160 * (g + 1) + 4000)"
      "con_pos ?k = cell (160 * (g + 1) + 160 * y + 2 * x)"
    using A(1) cell_add [of "160 * g" 160] cell_add [of "160 * g + 4000" 160] cell_add [of "160 * g + 160 * y + 2 * x" 160]
    by (simp_all add: con_at_def algebra_simps)
  have wrap: "con_scr_end ?k > SCREEN_END \<longleftrightarrow> g = 179"
  proof -
    have "unat (con_scr_end ?k) = 0xB8000 + (160 * (g + 1) + 4000)" unfolding eqs cell_def SCREEN_START_def
      using A(1) by (simp add: con_at_def unat_add_u32 unat_of_nat_u32 del: of_nat_add of_nat_mult)
    then show ?thesis using A(1) by (auto simp: con_at_def u32_less_iff SCREEN_END_def)
  qed
  show ?thesis
  proof (cases "g = 179")
    case True
    have shift: "con_origin ?k - SCREEN_START = of_nat (160 * (g + 1))" unfolding eqs by (simp add: cell_def)
    have bk: "con_scr_end ?k - of_nat (160 * (g + 1)) = cell 4000" "con_pos ?k - of_nat (160 * (g + 1)) = cell (160 * y + 2 * x)"
      unfolding eqs by (simp_all add: cell_def)
    have v: "same_outside (stosw 80 (SCREEN_START + 4 * 960) (movsl_vid 960 (con_origin ?k) SCREEN_START (con_vid k))) (con_vid k)"
      using stosw_outside [of 3840 80] movsl_vid_outside [of 0 960] by (auto simp: cell_def intro: same_outside_trans)
    have "scrup_all k = set_origin (?k\<lparr>con_vid := stosw 80 (SCREEN_START + 4 * 960) (movsl_vid 960 (con_origin ?k) SCREEN_START (con_vid k)),
        con_scr_end := cell 4000, con_pos := cell (160 * y + 2 * x), con_origin := cell 0\<rparr>)"
      using wrap True unfolding scrup_all_def Let_def shift bk by (simp add: cell_def)
    moreover have "con_at (scrup_all k) 0 x y" "con_region (scrup_all k) t b" "con_rest (scrup_all k)"
      "con_vid (scrup_all k) = stosw 80 (SCREEN_START + 4 * 960) (movsl_vid 960 (con_origin ?k) SCREEN_START (con_vid k))"
      using A unfolding calculation by (simp_all add: con_at_def con_region_def con_rest_def set_origin_def)
    ultimately show ?thesis using v con_okI unfolding con_step_ok_def by metis
  next
    case False
    then have "g + 1 \<le> 179" using A(1) by (simp add: con_at_def)
    have e: "con_scr_end ?k - 160 = cell (160 * (g + 1) + 3840)"
      unfolding eqs(2) using cell_diff [of 160 "160 * (g + 1) + 4000"] by simp
    have v: "same_outside (stosw 80 (con_scr_end ?k - 160) (con_vid k)) (con_vid k)"
      unfolding e using \<open>g + 1 \<le> 179\<close> by (intro stosw_outside) simp
    have "scrup_all k = set_origin (?k\<lparr>con_vid := stosw 80 (con_scr_end ?k - 160) (con_vid k)\<rparr>)"
      using wrap False unfolding scrup_all_def Let_def by simp
    moreover have "con_at ?k (g + 1) x y" using A(1) \<open>g + 1 \<le> 179\<close> eqs unfolding con_at_def by simp
    then have "con_at (scrup_all k) (g + 1) x y" "con_region (scrup_all k) t b" "con_rest (scrup_all k)"
      "con_vid (scrup_all k) = stosw 80 (con_scr_end ?k - 160) (con_vid k)"
      using A unfolding calculation by (simp_all add: con_at_def con_region_def con_rest_def set_origin_def)
    ultimately show ?thesis using v con_okI unfolding con_step_ok_def by metis
  qed
qed

text \<open>Scrolling part of the screen.\<close>

lemma region_words:
  assumes "con_region k t b"
  shows "unat (drop_bit 1 ((con_bottom k - con_top k - 1) * COLUMNS)) = 40 * (b - t - 1)"
    and "160 * con_top k = of_nat (160 * t)" and "160 * (con_top k + 1) = of_nat (160 * (t + 1))"
    and "160 * con_bottom k = of_nat (160 * b)" and "160 * (con_bottom k - 1) = of_nat (160 * (b - 1))"
proof -
  have tb: "t < b" "b \<le> 25" "con_top k = of_nat t" "con_bottom k = of_nat b" using assms by (simp_all add: con_region_def)
  have "con_bottom k - con_top k - 1 = of_nat (b - t - 1)" using tb by (simp add: of_nat_diff)
  then have "(con_bottom k - con_top k - 1) * COLUMNS = of_nat ((b - t - 1) * 80)" by (simp add: COLUMNS_def)
  then have "unat ((con_bottom k - con_top k - 1) * COLUMNS) = (b - t - 1) * 80"
    using tb by (simp add: unat_of_nat_u32 del: of_nat_mult)
  then show "unat (drop_bit 1 ((con_bottom k - con_top k - 1) * COLUMNS)) = 40 * (b - t - 1)"
    by (simp only: unat_drop_bit_eq) (simp add: drop_bit_eq_div)
  show "160 * con_top k = of_nat (160 * t)" "160 * (con_top k + 1) = of_nat (160 * (t + 1))"
    "160 * con_bottom k = of_nat (160 * b)" using tb by simp_all
  show "160 * (con_bottom k - 1) = of_nat (160 * (b - 1))" using tb by (simp add: of_nat_diff)
qed

lemma scrup_region_step: assumes "con_ok k" shows "con_step_ok k (scrup_region k)"
proof -
  from assms obtain g x y t b where A: "con_at k g x y" "con_region k t b" "con_rest k" by (rule con_okE)
  let ?n = "40 * (b - t - 1)"
  have g: "g \<le> 179" "con_origin k = cell (160 * g)" "t < b" "b \<le> 25" using A by (simp_all add: con_at_def con_region_def)
  have d: "con_origin k + 160 * con_top k = cell (160 * g + 160 * t)"
    unfolding region_words(2) [OF A(2)] g(2) by (rule cell_add)
  have e: "cell (160 * g + 160 * t) + 4 * of_nat ?n = cell (160 * g + 160 * t + 4 * ?n)" by (simp add: cell_def)
  have m: "160 * g + 160 * t + 4 * ?n + 160 \<le> 0x8000" using g by (simp add: algebra_simps)
  have "same_outside (stosw 80 (cell (160 * g + 160 * t + 4 * ?n)) (movsl_vid ?n src (cell (160 * g + 160 * t)) (con_vid k))) (con_vid k)" for src
    by (rule same_outside_trans [OF stosw_outside movsl_vid_outside]) (use m in simp_all)
  then show ?thesis using con_step_vid [OF assms]
    unfolding scrup_region_def Let_def region_words(1) [OF A(2)] d e by blast
qed

lemma scrup_step [con_steps]: "con_ok k \<Longrightarrow> con_step_ok k (scrup k)"
  by (simp add: scrup_def scrup_all_step scrup_region_step)

lemma scrdown_step [con_steps]: assumes "con_ok k" shows "con_step_ok k (scrdown k)"
proof -
  from assms obtain g x y t b where A: "con_at k g x y" "con_region k t b" "con_rest k" by (rule con_okE)
  let ?n = "40 * (b - t - 1)" and ?d = "160 * g + 160 * b - 4"
  have g: "g \<le> 179" "con_origin k = cell (160 * g)" "t < b" "b \<le> 25" using A by (simp_all add: con_at_def con_region_def)
  have d: "con_origin k + 160 * con_bottom k - 4 = cell ?d"
    unfolding region_words(4) [OF A(2)] g(2) cell_add using g cell_diff [of 4 "160 * g + 160 * b"] by simp
  have e: "cell ?d - 4 * of_nat ?n + 2 = cell (?d - 4 * ?n + 2)"
    using cell_diff [of "4 * ?n" ?d] cell_add [of "?d - 4 * ?n" 2] g by (simp add: algebra_simps)
  have m: "?d + 4 \<le> 0x8000" "4 * ?n \<le> ?d + 4" "?d - 4 * ?n + 2 < 0x8000" "2 * 80 \<le> ?d - 4 * ?n + 2 + 2"
    using g by (simp_all add: algebra_simps)
  have "same_outside (stosw_down 80 (cell (?d - 4 * ?n + 2)) (movsl_vid_down ?n src (cell ?d) (con_vid k))) (con_vid k)" for src
    by (rule same_outside_trans [OF stosw_down_outside movsl_vid_down_outside]) (use m in simp_all)
  then show ?thesis using con_step_vid [OF assms]
    unfolding scrdown_def Let_def region_words(1) [OF A(2)] d e by blast
qed

lemma con_ok_reg:
  assumes "con_ok k" "t < b" "b \<le> 25"
  shows "con_ok (k\<lparr>con_top := of_nat t, con_bottom := of_nat b\<rparr>)"
  using assms unfolding con_ok_def con_at_def con_region_def con_rest_def by auto

text \<open>An operation run with the region from the line of the cursor down, which is then set back.\<close>

lemma with_region_step:
  assumes "con_ok k" and f: "\<And>k. con_ok k \<Longrightarrow> con_step_ok k (f k)"
  shows "con_step_ok k ((f (k\<lparr>con_top := con_y k, con_bottom := LINES\<rparr>))\<lparr>con_top := con_top k, con_bottom := con_bottom k\<rparr>)"
proof -
  from assms(1) obtain g x y t b where A: "con_at k g x y" "con_region k t b" "con_rest k" by (rule con_okE)
  let ?k = "k\<lparr>con_top := con_y k, con_bottom := LINES\<rparr>"
  have "?k = k\<lparr>con_top := of_nat y, con_bottom := of_nat 25\<rparr>" using A(1) by (simp add: con_at_def LINES_def)
  then have "con_ok ?k" using con_ok_reg [OF assms(1), of y 25] A(1) by (simp add: con_at_def)
  from f [OF this] have "con_ok (f ?k)" "same_outside (con_vid (f ?k)) (con_vid k)" by (simp_all add: con_step_ok_def)
  then show ?thesis using con_ok_reg [of "f ?k" t b] A(2) by (simp add: con_step_ok_def con_region_def)
qed

lemma insert_line_step [con_steps]: "con_ok k \<Longrightarrow> con_step_ok k (insert_line k)"
  unfolding insert_line_def by (rule with_region_step [OF _ scrdown_step])

lemma delete_line_step [con_steps]: "con_ok k \<Longrightarrow> con_step_ok k (delete_line k)"
  unfolding delete_line_def by (rule with_region_step [OF _ scrup_step])

lemma lf_step [con_steps]: assumes "con_ok k" shows "con_step_ok k (lf k)"
proof (cases "con_y k + 1 < con_bottom k")
  case True
  from assms obtain g x y t b where A: "con_at k g x y" "con_region k t b" "con_rest k" by (rule con_okE)
  have y: "y + 1 < b" using True A small_less [of "y + 1" b] by (simp add: con_at_def con_region_def add.commute)
  have p: "con_pos k + 160 = cell (160 * g + 160 * (y + 1) + 2 * x)" using A(1) by (simp add: con_at_def cell_def)
  have "lf k = k\<lparr>con_x := of_nat x, con_y := of_nat (y + 1), con_pos := cell (160 * g + 160 * (y + 1) + 2 * x)\<rparr>"
    using True A(1) unfolding lf_def p by (simp add: con_at_def)
  then show ?thesis using con_ok_move [OF assms A(1), of x "y + 1"] A y by (simp add: con_at_def con_region_def)
qed (simp add: lf_def scrup_step assms)

lemma ri_step [con_steps]: assumes "con_ok k" shows "con_step_ok k (ri k)"
proof (cases "con_y k > con_top k")
  case True
  from assms obtain g x y t b where A: "con_at k g x y" "con_region k t b" "con_rest k" by (rule con_okE)
  have y: "0 < y" using True A small_less [of t y] by (simp add: con_at_def con_region_def)
  have p: "con_pos k - 160 = cell (160 * g + 160 * (y - 1) + 2 * x)" "con_y k - 1 = of_nat (y - 1)"
    using A(1) y cell_diff [of 160 "160 * g + 160 * y + 2 * x"] by (simp_all add: con_at_def of_nat_diff algebra_simps)
  have "ri k = k\<lparr>con_x := of_nat x, con_y := of_nat (y - 1), con_pos := cell (160 * g + 160 * (y - 1) + 2 * x)\<rparr>"
    using True A(1) unfolding ri_def p by (simp add: con_at_def)
  moreover have "x \<le> 80" "y - 1 < 25" using A(1) unfolding con_at_def by linarith+
  ultimately show ?thesis using con_ok_move [OF assms A(1), of x "y - 1"] by (simp only:)
qed (simp add: ri_def scrdown_step assms)

lemma cr_step [con_steps]: assumes "con_ok k" shows "con_step_ok k (cr k)"
proof -
  from assms obtain g x y t b where A: "con_at k g x y" "con_region k t b" "con_rest k" by (rule con_okE)
  have "con_pos k - push_bit 1 (con_x k) = cell (160 * g + 160 * y + 2 * 0)"
    using A(1) by (simp add: con_at_def push_bit_eq_mult cell_def)
  then have "cr k = k\<lparr>con_x := of_nat 0, con_y := of_nat y, con_pos := cell (160 * g + 160 * y + 2 * 0)\<rparr>"
    using A(1) unfolding cr_def by (simp add: con_at_def)
  then show ?thesis using con_ok_move [OF assms A(1), of 0 y] A(1) by (simp add: con_at_def)
qed

text \<open>One column to the left.\<close>

lemma left_step:
  assumes "con_ok k" "con_x k \<noteq> 0"
  shows "con_step_ok k (k\<lparr>con_x := con_x k - 1, con_pos := con_pos k - 2\<rparr>)" and "\<exists>j < 0x8000. con_pos k - 2 = cell j"
proof -
  from assms(1) obtain g x y t b where A: "con_at k g x y" "con_region k t b" "con_rest k" by (rule con_okE)
  have x: "0 < x" "x - 1 \<le> 80" "y < 25" "g \<le> 179" using A(1) assms(2) by (auto simp: con_at_def intro: gr0I)
  have p: "con_pos k - 2 = cell (160 * g + 160 * y + 2 * (x - 1))" "con_x k - 1 = of_nat (x - 1)"
    using A(1) x by (simp_all add: con_at_def cell_def of_nat_diff algebra_simps)
  have "k\<lparr>con_x := con_x k - 1, con_pos := con_pos k - 2\<rparr>
      = k\<lparr>con_x := of_nat (x - 1), con_y := of_nat y, con_pos := cell (160 * g + 160 * y + 2 * (x - 1))\<rparr>"
    using A(1) unfolding p by (simp add: con_at_def)
  then show "con_step_ok k (k\<lparr>con_x := con_x k - 1, con_pos := con_pos k - 2\<rparr>)"
    using con_ok_move [OF assms(1) A(1), of "x - 1" y] x by (simp only:)
  have "160 * g + 160 * y + 2 * (x - 1) < 0x8000" using A(1) x by (simp add: con_at_def)
  then show "\<exists>j < 0x8000. con_pos k - 2 = cell j" using p(1) by blast
qed

lemma del_char_step [con_steps]: assumes "con_ok k" shows "con_step_ok k (del_char k)"
proof (cases "con_x k = 0")
  case False
  let ?k = "k\<lparr>con_x := con_x k - 1, con_pos := con_pos k - 2\<rparr>"
  obtain j where j: "j < 0x8000" "con_pos k - 2 = cell j" using left_step(2) [OF assms False] by blast
  have "con_step_ok ?k (?k\<lparr>con_vid := (con_vid k)(con_pos k - 2 := BLANK)\<rparr>)"
  proof (rule con_step_vid)
    show "con_ok ?k" using left_step(1) [OF assms False] by (rule con_step_okD)
    show "same_outside ((con_vid k)(con_pos k - 2 := BLANK)) (con_vid ?k)" unfolding j(2)
      by (rule same_outside_upd [OF j(1)]) simp
  qed
  then have "con_step_ok k (?k\<lparr>con_vid := (con_vid k)(con_pos k - 2 := BLANK)\<rparr>)"
    by (rule con_step_trans [OF left_step(1) [OF assms False]])
  moreover have "?k\<lparr>con_vid := (con_vid k)(con_pos k - 2 := BLANK)\<rparr> = del_char k" using False by (simp add: del_char_def)
  ultimately show ?thesis by (simp only:)
qed (simp add: del_char_def con_step_refl assms)

lemma blank_step:
  assumes "con_ok k" "a = cell j" "j + 2 * unat n \<le> 0x8000" shows "con_step_ok k (blank n a k)"
  unfolding blank_def assms(2) by (rule con_step_vid [OF assms(1) stosw_outside [OF assms(3)]])

lemma csi_J_step [con_steps]: assumes "con_ok k" shows "con_step_ok k (csi_J p k)"
proof -
  from assms obtain g x y t b where A: "con_at k g x y" "con_region k t b" "con_rest k" by (rule con_okE)
  have g: "g \<le> 179" "x \<le> 80" "y < 25" "con_origin k = cell (160 * g)" "con_scr_end k = cell (160 * g + 4000)"
    "con_pos k = cell (160 * g + 160 * y + 2 * x)" using A(1) by (simp_all add: con_at_def)
  have d: "con_scr_end k - con_pos k = of_nat (4000 - (160 * y + 2 * x))" "con_pos k - con_origin k = of_nat (160 * y + 2 * x)"
    using g by (simp_all add: cell_def of_nat_diff)
  have u: "unat (drop_bit 1 (con_scr_end k - con_pos k)) = (4000 - (160 * y + 2 * x)) div 2"
      "unat (drop_bit 1 (con_pos k - con_origin k)) = (160 * y + 2 * x) div 2"
    unfolding d unat_drop_bit_eq using g by (simp_all add: unat_of_nat_u32 drop_bit_eq_div del: of_nat_add of_nat_mult of_nat_diff)
  have "con_step_ok k (blank (drop_bit 1 (con_scr_end k - con_pos k)) (con_pos k) k)"
    by (rule blank_step [OF assms g(6)]) (unfold u, use g in simp)
  moreover have "con_step_ok k (blank (drop_bit 1 (con_pos k - con_origin k)) (con_origin k) k)"
    by (rule blank_step [OF assms g(4)]) (unfold u, use g in simp)
  moreover have "con_step_ok k (blank (COLUMNS * LINES) (con_origin k) k)"
    by (rule blank_step [OF assms g(4)]) (use g in \<open>simp add: COLUMNS_def LINES_def\<close>)
  ultimately show ?thesis unfolding csi_J_def using con_step_refl [OF assms] by (simp split: if_splits)
qed

lemma csi_K_step [con_steps]: assumes "con_ok k" shows "con_step_ok k (csi_K p k)"
proof -
  from assms obtain g x y t b where A: "con_at k g x y" "con_region k t b" "con_rest k" by (rule con_okE)
  have g: "g \<le> 179" "x \<le> 80" "y < 25" "con_pos k = cell (160 * g + 160 * y + 2 * x)" using A(1) by (simp_all add: con_at_def)
  have x: "con_x k = of_nat x" "unat (con_x k) = x" using A(1) by (simp_all add: con_at_def unat_of_nat_u32)
  have s: "con_pos k - push_bit 1 (con_x k) = cell (160 * g + 160 * y)" unfolding g(4) x(1) by (simp add: push_bit_eq_mult cell_def)
  have u: "unat (80 - con_x k) = 80 - x" using g x by (simp add: unat_sub_u32)
  show ?thesis unfolding csi_K_def s
    using g x(2) by (auto simp: con_step_refl assms u COLUMNS_def u32_le_iff u32_less_iff intro!: blank_step)
qed

lemma insert_char_step [con_steps]: assumes "con_ok k" shows "con_step_ok k (insert_char k)"
proof -
  from assms obtain g x y t b where A: "con_at k g x y" "con_region k t b" "con_rest k" by (rule con_okE)
  have g: "g \<le> 179" "x \<le> 80" "y < 25" "con_pos k = cell (160 * g + 160 * y + 2 * x)" "unat (con_x k) = x"
    using A(1) by (simp_all add: con_at_def unat_of_nat_u32)
  show ?thesis unfolding insert_char_def g(4,5)
    by (rule con_step_vid [OF assms shift_cells_outside]) (use g in \<open>simp add: COLUMNS_def\<close>)
qed

lemma delete_char_step [con_steps]: assumes "con_ok k" shows "con_step_ok k (delete_char k)"
proof (cases "con_x k \<ge> COLUMNS")
  case False
  from assms obtain g x y t b where A: "con_at k g x y" "con_region k t b" "con_rest k" by (rule con_okE)
  have g: "g \<le> 179" "y < 25" "con_pos k = cell (160 * g + 160 * y + 2 * x)" "unat (con_x k) = x"
    using A(1) by (simp_all add: con_at_def unat_of_nat_u32)
  then have "x < 80" using False by (simp add: u32_le_iff COLUMNS_def)
  then have "con_step_ok k (k\<lparr>con_vid := pull_cells (unat COLUMNS - unat (con_x k) - 1) (con_pos k) (con_vid k)\<rparr>)"
    unfolding g(3,4) by (intro con_step_vid [OF assms pull_cells_outside]) (use g in \<open>simp add: COLUMNS_def\<close>)
  then show ?thesis using False by (simp add: delete_char_def)
qed (simp add: delete_char_def con_step_refl assms)

lemma repeat_step: "(\<And>k. con_ok k \<Longrightarrow> con_step_ok k (f k)) \<Longrightarrow> con_ok k \<Longrightarrow> con_step_ok k ((f ^^ n) k)"
proof (induction n)
  case (Suc n)
  then have "con_step_ok k ((f ^^ n) k)" by blast
  with Suc.prems(1) show ?case by (auto intro: con_step_trans dest: con_step_okD)
qed (simp add: con_step_refl)

lemma csi_repeat_steps [con_steps]:
  "con_ok k \<Longrightarrow> con_step_ok k (csi_at n k)" "con_ok k \<Longrightarrow> con_step_ok k (csi_L n k)"
  "con_ok k \<Longrightarrow> con_step_ok k (csi_P n k)" "con_ok k \<Longrightarrow> con_step_ok k (csi_M n k)"
  unfolding csi_at_def csi_L_def csi_P_def csi_M_def by (auto intro!: repeat_step con_steps)

lemma csi_m_step [con_steps]: "con_ok k \<Longrightarrow> con_step_ok k (csi_m k)"
  by (simp add: csi_m_def con_step_ok_def con_ok_attr)

lemma save_cur_step [con_steps]: assumes "con_ok k" shows "con_step_ok k (save_cur k)"
proof -
  from assms obtain g x y t b where A: "con_at k g x y" "con_region k t b" "con_rest k" by (rule con_okE)
  have "con_x k \<le> COLUMNS" "con_y k < LINES"
    using A(1) by (simp_all add: con_at_def COLUMNS_def LINES_def u32_le_iff u32_less_iff unat_of_nat_u32)
  with A have "con_at (save_cur k) g x y" "con_region (save_cur k) t b" "con_rest (save_cur k)"
    by (simp_all add: save_cur_def con_at_def con_region_def con_rest_def)
  then show ?thesis using con_okI by (auto simp: con_step_ok_def save_cur_def)
qed

lemma restore_cur_step [con_steps]: assumes "con_ok k" shows "con_step_ok k (restore_cur k)"
proof -
  from assms obtain g x y t b where A: "con_at k g x y" "con_region k t b" "con_rest k" by (rule con_okE)
  let ?x = "unat (con_saved_x k)" and ?y = "unat (con_saved_y k)"
  have b: "?x \<le> 80" "?y < 25" using A(3) by (simp_all add: con_rest_def u32_le_iff u32_less_iff COLUMNS_def LINES_def)
  have "con_origin k + push_bit 1 (con_saved_y k * COLUMNS + con_saved_x k) = cell (160 * g + 160 * ?y + 2 * ?x)"
    using A(1) by (simp add: con_at_def cell_def push_bit_eq_mult COLUMNS_def)
  then have "restore_cur k = k\<lparr>con_x := of_nat ?x, con_y := of_nat ?y, con_pos := cell (160 * g + 160 * ?y + 2 * ?x)\<rparr>"
    unfolding restore_cur_def by simp
  then show ?thesis using con_ok_move [OF assms A(1) b] by (simp only:)
qed

text \<open>From column 80 or more to the next line.\<close>

lemma wrap_line_step:
  assumes "con_region k t b" "con_rest k" "g \<le> 179" "y < 25" "x \<le> 80" "con_origin k = cell (160 * g)"
    "con_scr_end k = cell (160 * g + 4000)" "con_y k = of_nat y" "con_x k = of_nat (x + 80)"
    "con_pos k = cell (160 * g + 160 * y + 2 * (x + 80))"
  shows "con_step_ok k (lf (k\<lparr>con_x := con_x k - COLUMNS, con_pos := con_pos k - 160\<rparr>))"
proof -
  let ?k = "k\<lparr>con_x := con_x k - COLUMNS, con_pos := con_pos k - 160\<rparr>"
  have "con_at ?k g x y" using assms by (simp add: con_at_def COLUMNS_def cell_def)
  moreover have "con_region ?k t b" "con_rest ?k" using assms by (simp_all add: con_region_def con_rest_def)
  ultimately have "con_ok ?k" by (rule con_okI)
  from lf_step [OF this] show ?thesis by (simp add: con_step_ok_def)
qed

lemma lf_x [simp]: "con_x (lf k) = con_x k"
  by (simp add: lf_def scrup_def scrup_all_def scrup_region_def set_origin_def Let_def)

lemma put_char_step [con_steps]: assumes "con_ok k" shows "con_step_ok k (put_char c k)"
proof -
  define k1 where "k1 = (if con_x k \<ge> COLUMNS then lf (k\<lparr>con_x := con_x k - COLUMNS, con_pos := con_pos k - 160\<rparr>) else k)"
  from assms obtain g x y t b where A: "con_at k g x y" "con_region k t b" "con_rest k" by (rule con_okE)
  have x: "unat (con_x k) = x" using A(1) by (simp add: con_at_def unat_of_nat_u32)
  have "con_step_ok k k1 \<and> con_x k1 < COLUMNS"
  proof (cases "con_x k \<ge> COLUMNS")
    case True
    then have "x = 80" using A(1) x by (simp add: con_at_def u32_le_iff COLUMNS_def)
    then show ?thesis using True A wrap_line_step [of k t b g y 0]
      by (simp add: k1_def con_at_def COLUMNS_def u32_less_iff)
  next
    case False
    then show ?thesis by (auto simp: k1_def con_step_refl assms)
  qed
  then have s: "con_step_ok k k1" and lt: "con_x k1 < COLUMNS" by simp_all
  from con_step_okD [OF s] obtain g x y t b where B: "con_at k1 g x y" "con_region k1 t b" "con_rest k1" by (rule con_okE)
  have x: "x < 80" "y < 25" "g \<le> 179" using B(1) lt by (simp_all add: con_at_def u32_less_iff unat_of_nat_u32 COLUMNS_def)
  have p: "con_pos k1 = cell (160 * g + 160 * y + 2 * x)" "con_x k1 = of_nat x" "con_y k1 = of_nat y" using B(1) by (simp_all add: con_at_def)
  let ?v = "(con_vid k1)(con_pos k1 := push_bit 8 (ucast (con_attr k1)) OR ucast c)"
  have "same_outside ?v (con_vid k1)" unfolding p(1) by (rule same_outside_upd) (use x in simp_all)
  then have v: "con_step_ok k1 (k1\<lparr>con_vid := ?v\<rparr>)" by (rule con_step_vid [OF con_step_okD [OF s]])
  have "con_at (k1\<lparr>con_vid := ?v\<rparr>) g x y" using B(1) by (simp add: con_at_def)
  from con_ok_move [OF con_step_okD [OF v] this, of "x + 1" y] x
  have m: "con_step_ok (k1\<lparr>con_vid := ?v\<rparr>) ((k1\<lparr>con_vid := ?v\<rparr>)\<lparr>con_x := of_nat (x + 1), con_y := of_nat y,
      con_pos := cell (160 * g + 160 * y + 2 * (x + 1))\<rparr>)" by simp
  have e: "put_char c k = (k1\<lparr>con_vid := ?v\<rparr>)\<lparr>con_x := of_nat (x + 1), con_y := of_nat y,
      con_pos := cell (160 * g + 160 * y + 2 * (x + 1))\<rparr>"
    unfolding put_char_def Let_def k1_def [symmetric] using p by (simp add: cell_def)
  from con_step_trans [OF s con_step_trans [OF v m]] show ?thesis unfolding e .
qed

lemma tab_step [con_steps]: assumes "con_ok k" shows "con_step_ok k (tab k)"
proof -
  from assms obtain g x y t b where A: "con_at k g x y" "con_region k t b" "con_rest k" by (rule con_okE)
  have x: "x \<le> 80" "y < 25" "g \<le> 179" "con_x k = of_nat x" "con_y k = of_nat y" "con_pos k = cell (160 * g + 160 * y + 2 * x)"
    using A(1) by (simp_all add: con_at_def)
  define n where "n = 8 - x mod 8"
  have "con_x k AND 7 = take_bit 3 (con_x k)" by (simp add: take_bit_eq_mask mask_eq_exp_minus_1)
  also have "\<dots> = of_nat (x mod 8)" unfolding x(4) take_bit_of_nat by (simp only: take_bit_eq_mod [of 3 x]) simp
  finally have c: "8 - (con_x k AND 7) = of_nat n" by (simp add: n_def of_nat_diff)
  have n: "n \<le> 8" by (simp add: n_def)
  let ?k = "k\<lparr>con_x := of_nat (x + n), con_pos := cell (160 * g + 160 * y + 2 * (x + n))\<rparr>"
  have k: "k\<lparr>con_x := con_x k + of_nat n, con_pos := con_pos k + push_bit 1 (of_nat n)\<rparr> = ?k"
    unfolding x(4,6) by (simp add: cell_def push_bit_eq_mult)
  have gt: "con_x ?k > COLUMNS \<longleftrightarrow> x + n > 80" using small_less [of 80 "x + n"] x(1) n by (simp add: COLUMNS_def)
  have tab: "tab k = (if con_x ?k > COLUMNS then lf (?k\<lparr>con_x := con_x ?k - COLUMNS, con_pos := con_pos ?k - 160\<rparr>) else ?k)"
    unfolding tab_def Let_def c k by (rule refl)
  show ?thesis
  proof (cases "x + n > 80")
    case True
    then have "\<exists>x'. x + n = x' + 80 \<and> x' \<le> 80" using x(1) n by (intro exI [of _ "x + n - 80"]) auto
    then obtain x' where x': "x + n = x' + 80" "x' \<le> 80" by blast
    have "con_step_ok ?k (lf (?k\<lparr>con_x := con_x ?k - COLUMNS, con_pos := con_pos ?k - 160\<rparr>))"
      by (rule wrap_line_step [of _ t b g y x']) (use A x x' in \<open>simp_all add: con_region_def con_rest_def con_at_def\<close>)
    then show ?thesis unfolding tab using True gt by (simp add: con_step_ok_def)
  next
    case False
    have "?k = k\<lparr>con_x := of_nat (x + n), con_y := of_nat y, con_pos := cell (160 * g + 160 * y + 2 * (x + n))\<rparr>"
      using x(5) by simp
    then show ?thesis unfolding tab using gt False con_ok_move [OF assms A(1), of "x + n" y] x(2) by simp
  qed
qed

subsection \<open>Characters\<close>

lemma con_ok_state: "con_ok k \<Longrightarrow> st \<in> {0, 1, 2, 3} \<Longrightarrow> con_step_ok k (k\<lparr>con_state := st\<rparr>)"
  unfolding con_step_ok_def con_ok_def con_at_def con_region_def con_rest_def by auto

lemma con_ok_par: "con_ok k \<Longrightarrow> con_step_ok k (k\<lparr>con_par := (con_par k)[i := v]\<rparr>)"
  unfolding con_step_ok_def con_ok_def con_at_def con_region_def con_rest_def by auto

lemma plain_char_step [con_steps]: "con_ok k \<Longrightarrow> con_step_ok k (plain_char e c k)"
  unfolding plain_char_def by (auto intro: con_steps con_step_refl left_step(1) con_ok_state)

lemma escape_char_step [con_steps]: assumes "con_ok k" shows "con_step_ok k (snd (escape_char c k))"
proof -
  let ?k = "k\<lparr>con_state := 0\<rparr>"
  have s: "con_step_ok k ?k" and ok: "con_ok ?k" using con_ok_state [OF assms, of 0] by (auto dest: con_step_okD)
  have "con_step_ok ?k (snd (escape_char c k))" unfolding escape_char_def Let_def
    using ok con_ok_state [OF ok, of 2] by (auto intro: con_steps con_step_refl)
  with s show ?thesis by (rule con_step_trans)
qed

lemma minus_one_step: "con_ok k \<Longrightarrow> con_step_ok k (minus_one i k)"
  by (simp add: minus_one_def con_ok_par con_step_refl)

lemma at_least_one_step: "con_ok k \<Longrightarrow> con_step_ok k (at_least_one i k)"
  by (simp add: at_least_one_def con_ok_par con_step_refl)

lemma csi_move_step [con_steps]: assumes "con_ok k" shows "con_step_ok k (csi_move c k)"
proof -
  have i: "con_step_ok k (gotoxy a b (at_least_one 0 k))" and j: "con_step_ok k (gotoxy a b (minus_one 0 k))"
    and m: "con_step_ok k (gotoxy a b (minus_one 1 (minus_one 0 k)))" for a b
    using assms by (meson con_step_trans con_step_okD gotoxy_step minus_one_step at_least_one_step)+
  show ?thesis unfolding csi_move_def Let_def using i j m by (simp split: if_splits)
qed

lemma set_region_step [con_steps]: assumes "con_ok k" shows "con_step_ok k (set_region k)"
proof -
  define k1 where "k1 = minus_one 0 k"
  define k2 where "k2 = (if con_par k1 ! 1 = 0 then k1\<lparr>con_par := (con_par k1)[1 := LINES]\<rparr> else k1)"
  have s1: "con_step_ok k k1" unfolding k1_def using assms by (rule minus_one_step)
  have "con_step_ok k1 k2" unfolding k2_def using con_step_okD [OF s1] by (auto intro: con_ok_par con_step_refl)
  with s1 have s2: "con_step_ok k k2" by (rule con_step_trans)
  have e: "set_region k = (if con_par k2 ! 0 < con_par k2 ! 1 \<and> con_par k2 ! 1 \<le> LINES
      then k2\<lparr>con_top := con_par k2 ! 0, con_bottom := con_par k2 ! 1\<rparr> else k2)"
    unfolding set_region_def Let_def k1_def [symmetric] k2_def [symmetric] by simp
  show ?thesis
  proof (cases "con_par k2 ! 0 < con_par k2 ! 1 \<and> con_par k2 ! 1 \<le> LINES")
    case True
    then have "con_ok (k2\<lparr>con_top := of_nat (unat (con_par k2 ! 0)), con_bottom := of_nat (unat (con_par k2 ! 1))\<rparr>)"
      by (intro con_ok_reg con_step_okD [OF s2]) (simp_all add: u32_less_iff u32_le_iff LINES_def)
    then show ?thesis using s2 True unfolding e by (simp add: con_step_ok_def)
  next
    case False
    then show ?thesis unfolding e using s2 by (simp only: if_False)
  qed
qed

lemma csi_final_step [con_steps]: assumes "con_ok k" shows "con_step_ok k (csi_final c k)"
proof -
  let ?k = "k\<lparr>con_state := 0\<rparr>"
  have s: "con_step_ok k ?k" and ok: "con_ok ?k" using con_ok_state [OF assms, of 0] by (auto dest: con_step_okD)
  have "con_step_ok ?k (csi_final c k)" unfolding csi_final_def Let_def
    using ok by (auto intro: con_steps con_step_refl)
  with s show ?thesis by (rule con_step_trans)
qed

lemma csi_param_step [con_steps]: assumes "con_ok k" shows "con_step_ok k (csi_param c k)"
proof -
  have "con_ok (k\<lparr>con_npar := con_npar k + 1\<rparr>)" if "unat (con_npar k) < NPAR - 1"
  proof -
    have "unat (con_npar k + 1) < NPAR" using that by (simp add: unat_add_u32 NPAR_def)
    then show ?thesis using assms unfolding con_ok_def con_at_def con_region_def con_rest_def by auto
  qed
  then show ?thesis unfolding csi_param_def
    using assms by (auto simp: con_step_ok_def [of k "k\<lparr>con_npar := con_npar k + 1\<rparr>"] intro: con_ok_par csi_final_step)
qed

lemma csi_start_step [con_steps]: assumes "con_ok k" shows "con_step_ok k (csi_start c k)"
proof -
  define k1 where "k1 = k\<lparr>con_par := replicate NPAR 0, con_npar := 0, con_state := 3, con_ques := (c = 63)\<rparr>"
  have s: "con_step_ok k k1"
    using assms unfolding k1_def con_step_ok_def con_ok_def con_at_def con_region_def con_rest_def NPAR_def by auto
  have "csi_start c k = (if c = 63 then k1 else csi_param c k1)" unfolding csi_start_def Let_def k1_def [symmetric] by (rule refl)
  then show ?thesis using s con_step_trans [OF s csi_param_step [OF con_step_okD [OF s]]] by simp
qed

lemma con_char_step: "con_ok k \<Longrightarrow> con_step_ok k (snd (con_char e c k))"
  unfolding con_char_def by (auto intro: con_steps con_step_refl)

lemma set_cursor_step: "con_ok k \<Longrightarrow> con_step_ok k (set_cursor k)"
  by (simp add: set_cursor_def con_step_ok_def con_ok_crt)

subsection \<open>Everything a process writes\<close>

lemma con_upd_task [simp]: "con (upd_task p f s) = con s"
  by (simp add: upd_task_def)

lemma con_upd_cur [simp]: "con (upd_cur f s) = con s"
  by (simp add: upd_cur_def)

lemma con_wake_up [simp]: "con (wake_up p s) = con s"
  by (simp add: wake_up_def Let_def)

lemma con_upd_tty [simp]: "con (upd_tty t f s) = con s"
  by (simp add: upd_tty_def)

lemma con_put_write [simp]: "con (put_write t c s) = con s"
  by (simp add: put_write_def)

lemma con_tty_intr [simp]: "con (tty_intr t sig s) = con s"
proof -
  have "con (fold (\<lambda>i s. if P i s then upd_task (q i s) f s else s) is s) = con s" for P q f "is" and s :: "'a kernel_state_scheme"
    by (induction "is" arbitrary: s) simp_all
  from this [of "\<lambda>i s. task s ! i \<noteq> 0 \<and> t_pgrp (tasks s (task s ! i)) = tty_pgrp (tty s t)" "\<lambda>i s. task s ! i"]
  show ?thesis unfolding tty_intr_def by (simp split: if_splits)
qed

lemma con_cook_char [simp]: "con (snd (snd (cook_char t c s))) = con s"
  by (simp add: cook_char_def cook_erase_def cook_store_def echo_char_def Let_def)

lemma con_cook_step: "cook_step t s = Inr (e, a, s') \<Longrightarrow> con s' = con s"
proof -
  assume *: "cook_step t s = Inr (e, a, s')"
  define s1 where "s1 = upd_tty t (\<lambda>y. y\<lparr>read_q := snd (GETCH (read_q (tty s t)))\<rparr>) s"
  have "cook_step t s = (case map_cr (tty s1 t) (fst (GETCH (read_q (tty s t)))) of None \<Rightarrow> Inr (False, Skip, s1)
      | Some c \<Rightarrow> if i_flag IUCLC (tty s1 t) then ctype_index c (Inr (cook_char t (tolower c) s1)) else Inr (cook_char t c s1))"
    unfolding cook_step_def s1_def split_beta Let_def by simp
  with * consider "s' = s1" | c where "cook_char t c s1 = (e, a, s')"
    by (auto simp: ctype_index_def split: option.splits if_splits)
  then show ?thesis
  proof cases
    case 2
    then show ?thesis using con_cook_char [of t c s1] by (simp add: s1_def)
  qed (simp add: s1_def)
qed

lemma con_cook_finish [simp]: "con (cook_finish a t s) = con s"
  by (simp add: cook_finish_def split: cooked.splits)

lemma con_step_step: "con_ok (con s) \<Longrightarrow> con_step_ok (con s) (con (snd (con_step t s)))"
  using con_char_step [of "con s"] by (simp add: con_step_def split_beta Let_def)

lemma bindo_eq_Some: "bindo r f = Some (Inr y) \<longleftrightarrow> (\<exists>x. r = Inr x \<and> f x = Some (Inr y))"
  by (cases r) auto

lemma tty_run_screen:
  assumes "tty_run f t s = Some r"
  shows "\<forall>s'. r = Inr s' \<longrightarrow> con_ok (con s) \<longrightarrow> con_step_ok (con s) (con s')"
proof (rule tty_run.raw_induct [where P = "\<lambda>f t s r. \<forall>s'. r = Inr s' \<longrightarrow> con_ok (con s) \<longrightarrow> con_step_ok (con s) (con s')", OF _ assms],
    goal_cases)
  case (1 run f t s r)
  note IH = 1(1) [rule_format]
  show ?case
  proof (intro allI impI)
    fix s' assume r: "r = Inr s'" and ok: "con_ok (con s)"
    note eq = 1(2) [unfolded r]
    show "con_step_ok (con s) (con s')"
    proof (cases f)
      case Cooked
      show ?thesis
      proof (cases "EMPTY (read_q (tty s t)) \<or> FULL (secondary (tty s t))")
        case True
        then show ?thesis using eq Cooked ok by (auto intro: con_step_refl)
      next
        case False
        from eq [unfolded Cooked] False obtain e a s1 where c: "cook_step t s = Inr (e, a, s1)"
          and *: "Option.bind (if e then run Tty_write t s1 else Some (Inr s1)) (\<lambda>r. bindo r (\<lambda>s. run Cooked t (cook_finish a t s))) = Some (Inr s')"
          by (auto simp: bindo_eq_Some)
        from * obtain s2 where s2: "(if e then run Tty_write t s1 else Some (Inr s1)) = Some (Inr s2)"
          and s3: "run Cooked t (cook_finish a t s2) = Some (Inr s')"
          by (auto simp: bind_eq_Some_conv bindo_eq_Some)
        have "con s1 = con s" using con_cook_step [OF c] .
        then have "con_step_ok (con s) (con s2)" using s2 IH [of Tty_write t s1] ok by (auto simp: con_step_refl split: if_splits)
        moreover from con_step_okD [OF this] have "con_step_ok (con s2) (con s')" using IH [OF s3] by simp
        ultimately show ?thesis by (rule con_step_trans)
      qed
    next
      case Tty_write
      then show ?thesis using eq ok IH by (auto simp: rs_write_def Let_def con_step_refl split: tty_driver.splits if_splits)
    next
      case (Con_loop n)
      show ?thesis
      proof (cases n)
        case 0
        then show ?thesis using eq Con_loop ok by (auto intro: set_cursor_step)
      next
        case (Suc m)
        obtain ask s1 where s1: "con_step t s = (ask, s1)" by fastforce
        from eq [unfolded Con_loop Suc] s1
        have *: "Option.bind (if ask then run Cooked t (respond t s1) else Some (Inr s1)) (\<lambda>r. bindo r (run (Con_loop m) t)) = Some (Inr s')"
          by simp
        from * obtain s2 where s2: "(if ask then run Cooked t (respond t s1) else Some (Inr s1)) = Some (Inr s2)"
          and s3: "run (Con_loop m) t s2 = Some (Inr s')"
          by (auto simp: bind_eq_Some_conv bindo_eq_Some)
        have a: "con_step_ok (con s) (con s1)" using con_step_step [OF ok, of t] s1 by simp
        then have "con_step_ok (con s1) (con s2)" using s2 IH [of Cooked t "respond t s1"] con_step_okD [OF a]
          by (auto simp: con_step_refl respond_def split: if_splits)
        with a have b: "con_step_ok (con s) (con s2)" by (rule con_step_trans)
        from con_step_okD [OF b] have "con_step_ok (con s2) (con s')" using IH [OF s3] by simp
        with b show ?thesis by (rule con_step_trans)
      qed
    qed
  qed
qed

lemma tty_put_screen:
  assumes "tty_put t nr b s = Some r"
  shows "\<forall>n b' s'. r = Inr (n, b', s') \<longrightarrow> con s' = con s"
proof (rule tty_put.raw_induct [where P = "\<lambda>t nr b s r. \<forall>n b' s'. r = Inr (n, b', s') \<longrightarrow> con s' = con s", OF _ assms], goal_cases)
  case (1 put t nr b s r)
  note IH = 1(1) [rule_format]
  show ?case
  proof (intro allI impI)
    fix n b' s' assume r: "r = Inr (n, b', s')"
    note eq = 1(2) [unfolded r]
    show "con s' = con s"
    proof (cases "nr = 0 \<or> FULL (write_q (tty s t))")
      case False
      with eq consider "put t nr b (put_write t 13 (s\<lparr>cr_flag := True\<rparr>)) = Some (Inr (n, b', s'))"
        | c where "put t (nr - 1) (b + 1) (put_write t c (s\<lparr>cr_flag := False\<rparr>)) = Some (Inr (n, b', s'))"
        by (auto simp: Let_def bindo_eq_Some split: if_splits)
      then show ?thesis by cases (auto dest: IH)
    qed (use eq in auto)
  qed
qed

lemma tty_write_loop_screen:
  assumes "tty_write_loop t nr b s = Some r"
  shows "\<forall>b' s'. r = Inr (b', s') \<longrightarrow> con_ok (con s) \<longrightarrow> con_step_ok (con s) (con s')"
proof (rule tty_write_loop.raw_induct [where P = "\<lambda>t nr b s r. \<forall>b' s'. r = Inr (b', s') \<longrightarrow> con_ok (con s) \<longrightarrow> con_step_ok (con s) (con s')",
    OF _ assms], goal_cases)
  case (1 loop t nr b s r)
  note IH = 1(1) [rule_format]
  show ?case
  proof (intro allI impI)
    fix b' s' assume r: "r = Inr (b', s')" and ok: "con_ok (con s)"
    note eq = 1(2) [unfolded r]
    show "con_step_ok (con s) (con s')"
    proof (cases "nr = 0 \<or> t_signal (cur s) \<noteq> 0")
      case True
      then have "s' = s" using eq by (auto simp: bindo_eq_Some sleep_if_full_def split: if_splits)
      then show ?thesis using ok by (simp add: con_step_refl)
    next
      case False
      with eq obtain n c s1 s2 where p: "loop_res (tty_put t nr b s) = Inr (n, c, s1)"
        and w: "loop_res (tty_run Tty_write t s1) = Inr s2" and l: "loop t n c s2 = Some (Inr (b', s'))"
        by (auto simp: bindo_eq_Some sleep_if_full_def split: if_splits)
      have "con s1 = con s" using p tty_put_screen by (fastforce simp: loop_res_def split: option.splits)
      moreover have "con_step_ok (con s1) (con s2)" if "con_ok (con s1)"
        using w tty_run_screen that by (fastforce simp: loop_res_def split: option.splits)
      ultimately have a: "con_step_ok (con s) (con s2)" using ok by simp
      then have "con_step_ok (con s2) (con s')" using IH [OF l] con_step_okD [OF a] by blast
      with a show ?thesis by (rule con_step_trans)
    qed
  qed
qed

text \<open>
  Property C30.  Whatever bytes a process writes to a terminal, escape sequences included, the screen of the
  console stays inside the video memory with the cursor on it, and nothing outside the video memory is
  written by the console.
\<close>

theorem console_stays_on_screen:
  assumes "con_ok (con s)" and "tty_write channel src nr s = Inr (r, s')"
  shows "con_ok (con s') \<and> (\<forall>a. \<not> (SCREEN_START \<le> a \<and> a < SCREEN_END) \<longrightarrow> con_vid (con s') a = con_vid (con s) a)"
proof (cases "channel > 2 \<or> sint nr < 0")
  case True
  then show ?thesis using assms by (auto simp: tty_write_def)
next
  case False
  with assms(2) obtain b where "loop_res (tty_write_loop (unat channel) (unat nr) src s) = Inr (b, s')"
    by (auto simp: tty_write_def bindr_eq_Inr)
  then have "tty_write_loop (unat channel) (unat nr) src s = Some (Inr (b, s'))"
    by (simp add: loop_res_def split: option.splits)
  from tty_write_loop_screen [OF this] assms(1) have "con_step_ok (con s) (con s')" by blast
  then show ?thesis by (simp add: con_step_ok_def same_outside_def in_video_def)
qed

text \<open>Writing the letter \<open>A\<close> to the console of the sample state.\<close>

lemma sample_tty: "tty sample_kernel 0 = tty_table_init ! 0" "con sample_kernel = sample_console" "user sample_kernel = (\<lambda>_. 65)"
  "cur sample_kernel = idle_task" "tty_table sample_kernel = tty_table_init" "cr_flag sample_kernel = False"
  by (simp_all add: sample_kernel_def)

lemma sample_con_ok: "con_ok (con sample_kernel)"
proof (rule con_okI)
  show "con_at (con sample_kernel) 0 0 0" "con_region (con sample_kernel) 0 25" "con_rest (con sample_kernel)"
    by (simp_all add: sample_tty sample_console_def con_at_def con_region_def con_rest_def cell_def NPAR_def COLUMNS_def LINES_def)
qed

lemma sample_tty_write: "\<exists>s'. tty_write 0 0 1 sample_kernel = Inr (1, s')"
proof -
  let ?s = sample_kernel
  let ?s1 = "put_write 0 65 (?s\<lparr>cr_flag := False\<rparr>)"
  have q: "write_q (tty ?s 0) = empty_queue 0" "o_flag OLCUC (tty ?s 0) = False" "o_flag OCRNL (tty ?s 0) = False"
    by (simp_all add: sample_tty tty_table_init_def o_flag_def OPOST_def ONLCR_def OLCUC_def OCRNL_def)
  have nf: "\<not> FULL (write_q (tty ?s 0))" unfolding q by (simp add: FULL_def TTY_LEFT_def empty_queue_def)
  have put: "tty_put 0 1 0 ?s = Some (Inr (0, 1, ?s1))"
    by (subst tty_put.simps, subst (2) tty_put.simps) (simp add: nf q(2,3) get_fs_byte_def sample_tty(3) Let_def)
  have c: "CHARS (write_q (tty ?s1 0)) = 1" "tty_write_fn (tty ?s1 0) = Con_write"
    by (simp_all add: put_write_def upd_tty_def sample_tty tty_table_init_def PUTCH_def CHARS_def empty_queue_def)
  have ask: "fst (con_step 0 ?s1) = False"
    by (simp add: con_step_def split_beta Let_def put_write_def upd_tty_def sample_tty con_char_def sample_console_def)
  have "tty_run (Con_loop 0) 0 s = Some (Inr (s\<lparr>con := set_cursor (con s)\<rparr>))" for s :: kernel_state
    by (subst tty_run.simps) simp
  then have "\<exists>s2. tty_run (Con_loop 1) 0 ?s1 = Some (Inr s2)"
    by (subst tty_run.simps) (simp add: ask split_beta Let_def)
  moreover have "tty_run Tty_write 0 ?s1 = tty_run (Con_loop 1) 0 ?s1" by (subst tty_run.simps) (simp add: c)
  ultimately obtain s2 where s2: "tty_run Tty_write 0 ?s1 = Some (Inr s2)" by auto
  have "tty_write_loop 0 0 b s = Some (Inr (b, s))" for b and s :: kernel_state by (subst tty_write_loop.simps) simp
  then have "tty_write_loop 0 1 0 ?s = Some (Inr (1, s2))"
    by (subst tty_write_loop.simps) (simp add: sleep_if_full_def nf put [simplified] s2 [simplified] sample_tty(4) idle_task_def)
  then show ?thesis by (simp add: tty_write_def)
qed

theorem console_stays_on_screen_witness:
  "con_ok (con sample_kernel) \<and> (\<exists>s'. tty_write 0 0 1 sample_kernel = Inr (1, s') \<and> con_ok (con s') \<and>
     (\<forall>a. \<not> (SCREEN_START \<le> a \<and> a < SCREEN_END) \<longrightarrow> con_vid (con s') a = con_vid (con sample_kernel) a))"
  using sample_con_ok sample_tty_write console_stays_on_screen [OF sample_con_ok] by blast

end
