(* ===== verification/Linux_Disk.thy ===== *)
theory Linux_Disk
  imports Linux_Samples
begin

unbundle bit_operations_syntax

section \<open>Requests to the hard disk of linux-0.01 (\<open>kernel/hd.c\<close>)\<close>

text \<open>
  A process that waits alone has its request in the first slot.  Its life is a small state machine: the request is
  started, each interrupt transfers a sector or reports an error, an error resets the drive and starts the request
  again.  One lemma per transition says what it does to the driver, the buffer and the disk; from them follow that every
  request ends, what it transfers, and what goes wrong when the second sector of a block fails.
\<close>

subsection \<open>Transitions\<close>

lemma wake_up_hd [simp]:
  fixes s :: "'a fs_state_scheme"
  shows "buffers (wake_up p s) = buffers s" "start_buffer (wake_up p s) = start_buffer s"
  "hash_table (wake_up p s) = hash_table s" "free_list (wake_up p s) = free_list s"
  "inode_table (wake_up p s) = inode_table s" "inode_table_addr (wake_up p s) = inode_table_addr s"
  "last_allocated_inode (wake_up p s) = last_allocated_inode s" "file_table (wake_up p s) = file_table s"
  "super_blocks (wake_up p s) = super_blocks s" "buffer_wait_addr (wake_up p s) = buffer_wait_addr s"
  "wait_for_request_addr (wake_up p s) = wait_for_request_addr s" "user (wake_up p s) = user s"
  "hd_parts (wake_up p s) = hd_parts s" "request (wake_up p s) = request s" "this_request (wake_up p s) = this_request s"
  "do_hd (wake_up p s) = do_hd s" "sorting (wake_up p s) = sorting s" "setup_callable (wake_up p s) = setup_callable s"
  "dsk_sectors (wake_up p s) = dsk_sectors s" "dsk_pos (wake_up p s) = dsk_pos s" "dsk_buffer (wake_up p s) = dsk_buffer s"
  "dsk_status (wake_up p s) = dsk_status s" "dsk_drq (wake_up p s) = dsk_drq s" "dsk_ready (wake_up p s) = dsk_ready s"
  "mem_map (wake_up p s) = mem_map s" "phys (wake_up p s) = phys s"
  by (simp_all add: wake_up_def upd_task_def Let_def)

definition fs_frame :: "'a fs_state_scheme \<Rightarrow> 'a fs_state_scheme \<Rightarrow> bool" where
  "fs_frame s s' \<longleftrightarrow> hash_table s' = hash_table s \<and> free_list s' = free_list s \<and> inode_table s' = inode_table s \<and>
     file_table s' = file_table s \<and> super_blocks s' = super_blocks s \<and> hd_parts s' = hd_parts s \<and> user s' = user s \<and>
     last_allocated_inode s' = last_allocated_inode s \<and> phys s' = phys s \<and> mem_map s' = mem_map s"


text \<open>A request in slot 0 is being served, with the handler \<open>h\<close> to be called at the next interrupt.\<close>

definition serving :: "hd_handler \<Rightarrow> hd_request \<Rightarrow> nat \<Rightarrow> 'a fs_state_scheme \<Rightarrow> bool" where
  "serving h r bh s \<longleftrightarrow> this_request s = Some 0 \<and> req s 0 = r \<and> length (request s) = NR_REQUEST \<and> \<not> sorting s \<and> dsk_ready s \<and>
     do_hd s = Some h \<and> r_bh r = bh \<and> r_next r = None \<and> r_hd r \<le> 1 \<and> r_head r \<le> 15 \<and> bh < length (buffers s) \<and>
     b_lock (buf s bh) = 1"

definition win_ok :: "'a fs_state_scheme \<Rightarrow> bool" where
  "win_ok s \<longleftrightarrow> shd (dsk_status s) AND 0xF1 = 0x50"

definition served :: "hd_handler option \<Rightarrow> 'a fs_state_scheme \<Rightarrow> bool" where
  "served h s \<longleftrightarrow> this_request s = None \<and> do_hd s = h \<and> \<not> sorting s \<and> dsk_ready s \<and> length (request s) = NR_REQUEST \<and>
     sint (r_hd (req s 0)) < 0"

lemma win_result_ok: "win_result s = (\<not> win_ok s, s\<lparr>dsk_status := stl (dsk_status s)\<rparr>)"
  by (simp add: win_result_def win_ok_def Let_def)

lemmas hd_state_defs = serving_def fs_frame_def upd_req_def upd_buf_def served_def dsk_advance_def dsk_current_def
  NR_REQUEST_def Let_def

lemma serving_end_request:
  assumes "this_request s = Some 0" "r_next (req s 0) = None" "\<not> sorting s" "length (request s) = NR_REQUEST" "dsk_ready s"
    and "r_bh (req s 0) = bh" "bh < length (buffers s)"
  shows "\<exists>s'. end_request 0 s = Inr s' \<and> served None s' \<and> fs_frame s s' \<and> dsk_sectors s' = dsk_sectors s \<and>
     dsk_status s' = dsk_status s \<and> dsk_drq s' = dsk_drq s \<and>
     buffers s' = (buffers s)[bh := (buf s bh)\<lparr>b_uptodate := 1, b_dirt := 0, b_lock := 0\<rparr>]"
  using assms
  by (simp add: end_request_def do_request_def drop_request_def unlock_buffer_def hd_state_defs)

lemma read_first:
  assumes "serving Read_intr r bh s" "win_ok s" "r_nsector r = 2"
  shows "\<exists>s'. hd_interrupt s = Inr s' \<and> serving Read_intr (r\<lparr>r_errors := 0, r_nsector := 1\<rparr>) bh s' \<and> fs_frame s s' \<and>
     dsk_sectors s' = dsk_sectors s \<and> dsk_pos s' = (fst (dsk_pos s), snd (dsk_pos s) + 1) \<and>
     dsk_status s' = stl (dsk_status s) \<and> dsk_drq s' = dsk_drq s \<and>
     buffers s' = (buffers s)[bh := (buf s bh)\<lparr>b_data := splice 0 (dsk_current s) (b_data (buf s bh))\<rparr>]"
  using assms by (auto simp: hd_interrupt_def read_intr_def win_result_ok hd_state_defs)

lemma read_second:
  assumes "serving Read_intr r bh s" "win_ok s" "r_nsector r = 1"
  shows "\<exists>s'. hd_interrupt s = Inr s' \<and> served None s' \<and> fs_frame s s' \<and> dsk_sectors s' = dsk_sectors s \<and>
     dsk_status s' = stl (dsk_status s) \<and> dsk_drq s' = dsk_drq s \<and>
     buffers s' = (buffers s)[bh := (buf s bh)\<lparr>b_data := splice 512 (dsk_current s) (b_data (buf s bh)),
       b_uptodate := 1, b_dirt := 0, b_lock := 0\<rparr>]"
proof -
  let ?s = "upd_req 0 (\<lambda>r. r\<lparr>r_errors := 0, r_nsector := r_nsector r - 1\<rparr>)
    (dsk_advance (upd_buf bh (\<lambda>b. b\<lparr>b_data := splice 512 (dsk_current s) (b_data b)\<rparr>) (s\<lparr>dsk_status := stl (dsk_status s)\<rparr>)))"
  have "hd_interrupt s = end_request 0 ?s"
    using assms by (simp add: hd_interrupt_def read_intr_def win_result_ok serving_def Let_def upd_req_def upd_buf_def dsk_advance_def dsk_current_def NR_REQUEST_def)
  moreover have "\<exists>s'. end_request 0 ?s = Inr s' \<and> served None s' \<and> fs_frame ?s s' \<and> dsk_sectors s' = dsk_sectors ?s \<and>
     dsk_status s' = dsk_status ?s \<and> dsk_drq s' = dsk_drq ?s \<and>
     buffers s' = (buffers ?s)[bh := (buf ?s bh)\<lparr>b_uptodate := 1, b_dirt := 0, b_lock := 0\<rparr>]"
    by (rule serving_end_request) (use assms in \<open>auto simp: hd_state_defs\<close>)
  moreover have "fs_frame ?s s' = fs_frame s s'" for s' by (simp add: hd_state_defs)
  ultimately show ?thesis using assms by (auto simp: hd_state_defs)
qed
lemma write_first:
  assumes "serving Write_intr r bh s" "win_ok s" "r_nsector r = 2"
  shows "\<exists>s'. hd_interrupt s = Inr s' \<and> serving Write_intr (r\<lparr>r_nsector := 1\<rparr>) bh s' \<and> fs_frame s s' \<and>
     dsk_sectors s' = (dsk_sectors s)(fst (dsk_pos s) := (dsk_sectors s (fst (dsk_pos s)))(snd (dsk_pos s) := dsk_buffer s)) \<and>
     dsk_pos s' = (fst (dsk_pos s), snd (dsk_pos s) + 1) \<and> dsk_buffer s' = take 512 (drop 512 (b_data (buf s bh))) \<and>
     dsk_status s' = stl (dsk_status s) \<and> dsk_drq s' = dsk_drq s \<and> buffers s' = buffers s"
  using assms
  by (auto simp: hd_interrupt_def write_intr_def win_result_ok dsk_commit_def split_beta hd_state_defs)

lemma write_second:
  assumes "serving Write_intr r bh s" "win_ok s" "r_nsector r = 1"
  shows "\<exists>s'. hd_interrupt s = Inr s' \<and> served None s' \<and> fs_frame s s' \<and>
     dsk_sectors s' = (dsk_sectors s)(fst (dsk_pos s) := (dsk_sectors s (fst (dsk_pos s)))(snd (dsk_pos s) := dsk_buffer s)) \<and>
     dsk_status s' = stl (dsk_status s) \<and> dsk_drq s' = dsk_drq s \<and>
     buffers s' = (buffers s)[bh := (buf s bh)\<lparr>b_uptodate := 1, b_dirt := 0, b_lock := 0\<rparr>]"
proof -
  let ?s = "upd_req 0 (\<lambda>r. r\<lparr>r_nsector := r_nsector r - 1\<rparr>) (dsk_commit (s\<lparr>dsk_status := stl (dsk_status s)\<rparr>))"
  have "hd_interrupt s = end_request 0 ?s"
    using assms by (simp add: hd_interrupt_def write_intr_def win_result_ok dsk_commit_def split_beta serving_def Let_def upd_req_def
      upd_buf_def dsk_advance_def NR_REQUEST_def)
  moreover have "\<exists>s'. end_request 0 ?s = Inr s' \<and> served None s' \<and> fs_frame ?s s' \<and> dsk_sectors s' = dsk_sectors ?s \<and>
     dsk_status s' = dsk_status ?s \<and> dsk_drq s' = dsk_drq ?s \<and>
     buffers s' = (buffers ?s)[bh := (buf ?s bh)\<lparr>b_uptodate := 1, b_dirt := 0, b_lock := 0\<rparr>]"
    by (rule serving_end_request) (use assms in \<open>auto simp: dsk_commit_def split_beta hd_state_defs\<close>)
  moreover have "fs_frame ?s s' = fs_frame s s'" for s' by (simp add: dsk_commit_def split_beta hd_state_defs)
  ultimately show ?thesis using assms by (auto simp: dsk_commit_def split_beta hd_state_defs)
qed

text \<open>A bad sector: the drive is reset and the request retried, or given up after too many errors.\<close>

lemma bad_again:
  assumes "serving h r bh s" "h = Read_intr \<or> h = Write_intr" "\<not> win_ok s" "sint (r_errors r) < 5"
  shows "\<exists>s'. hd_interrupt s = Inr s' \<and> serving Do_request (r\<lparr>r_errors := r_errors r + 1\<rparr>) bh s' \<and> fs_frame s s' \<and>
     dsk_sectors s' = dsk_sectors s \<and> dsk_status s' = stl (dsk_status s) \<and> dsk_drq s' = dsk_drq s \<and> buffers s' = buffers s"
  using assms
  by (auto simp: hd_interrupt_def read_intr_def write_intr_def win_result_ok bad_rw_intr_def reset_hd_def hd_out_def dsk_command_def
    WIN_SPECIFY_def WIN_READ_def WIN_WRITE_def MAX_ERRORS_def hd_state_defs not_less)


definition dsk_at :: "hd_request \<Rightarrow> nat \<times> nat" where
  "dsk_at r = (unat (r_hd r), sector_number (r_sector r) (r_head r) (r_cyl r))"

lemma restart_read:
  assumes "serving Do_request r bh s" "r_cmd r = WIN_READ"
  shows "\<exists>s'. hd_interrupt s = Inr s' \<and> serving Read_intr r bh s' \<and> fs_frame s s' \<and> dsk_pos s' = dsk_at r \<and>
     dsk_sectors s' = dsk_sectors s \<and> dsk_status s' = dsk_status s \<and> dsk_drq s' = dsk_drq s \<and> buffers s' = buffers s"
  using assms
  by (auto simp: hd_interrupt_def do_request_def hd_out_def dsk_command_def dsk_at_def WIN_READ_def WIN_WRITE_def hd_state_defs not_less)

lemma restart_write:
  assumes "serving Do_request r bh s" "r_cmd r = WIN_WRITE"
  shows "\<exists>s'. hd_interrupt s = Inr s' \<and> fs_frame s s' \<and> dsk_sectors s' = dsk_sectors s \<and> dsk_status s' = dsk_status s \<and>
     dsk_drq s' = stl (dsk_drq s) \<and> buffers s' = buffers s \<and>
     (if shd (dsk_drq s)
      then serving Write_intr r bh s' \<and> dsk_pos s' = dsk_at r \<and>
        dsk_buffer s' = take 512 (drop (512 * unat (r_nsector r AND 1)) (b_data (buf s bh)))
      else serving Do_request r bh s')"
  using assms
  by (auto simp: hd_interrupt_def do_request_def hd_out_def reset_hd_def dsk_command_def dsk_at_def
      WIN_READ_def WIN_WRITE_def WIN_SPECIFY_def hd_state_defs not_less)
lemma wait_unlocked: "b_lock (buf s bh) = 0 \<Longrightarrow> hd_wait_on_buffer bh s = Some (Inr s)"
  by (simp add: hd_wait_on_buffer.simps)

lemma loop_res_bindo: "loop_res (bindo x f) = bindr x (\<lambda>s. loop_res (f s))"
  by (cases x) (simp_all add: loop_res_def)

lemma wait_step: "serving h r bh s \<Longrightarrow> hd_wait_on_buffer bh s = bindo (hd_interrupt s) (hd_wait_on_buffer bh)"
  by (subst hd_wait_on_buffer.simps) (simp add: serving_def)

lemma wait_next: "serving h r bh s \<Longrightarrow> hd_interrupt s = Inr s' \<Longrightarrow> hd_wait_on_buffer bh s = hd_wait_on_buffer bh s'"
  by (simp add: wait_step)

text \<open>
  A new request starts as one whose drive has just been reset: whether \<open>add_request\<close> starts it itself or leaves
  that to the interrupt of the last reset makes no difference.
\<close>

definition new_request :: "u32 \<Rightarrow> u32 \<Rightarrow> u32 \<Rightarrow> u32 \<Rightarrow> u32 \<Rightarrow> nat \<Rightarrow> hd_request" where
  "new_request rw nr sec hed cy bh = \<lparr>r_hd = nr, r_nsector = 2, r_sector = sec, r_head = hed, r_cyl = cy,
     r_cmd = (if rw = READ then WIN_READ else WIN_WRITE), r_errors = 0, r_bh = bh, r_next = None\<rparr>"

lemma do_request_do_hd: "this_request s = Some t \<Longrightarrow> \<not> sorting s \<Longrightarrow> r_hd (req s t) \<le> 1 \<Longrightarrow> r_head (req s t) \<le> 15 \<Longrightarrow> dsk_ready s \<Longrightarrow>
    r_cmd (req s t) = WIN_READ \<or> r_cmd (req s t) = WIN_WRITE \<Longrightarrow>
    do_request (s\<lparr>do_hd := h\<rparr>) = do_request s"
  by (auto simp: do_request_def hd_out_def dsk_command_def not_less Let_def)

lemma start_request:
  assumes sv: "served h s" and "h = None \<or> h = Some Do_request" and rw: "rw = READ \<or> rw = WRITE"
    and bh: "bh < length (buffers s)" and nr: "nr \<le> 1" "hed \<le> 15"
  shows "\<exists>s1. rw_abs_hd rw nr sec hed cy bh s = loop_res (hd_wait_on_buffer bh s1) \<and>
     serving Do_request (new_request rw nr sec hed cy bh) bh s1 \<and> fs_frame s s1 \<and> dsk_sectors s1 = dsk_sectors s \<and>
     dsk_status s1 = dsk_status s \<and> dsk_drq s1 = dsk_drq s \<and>
     buffers s1 = (buffers s)[bh := (buf s bh)\<lparr>b_lock := 1\<rparr>]"
proof -
  let ?r = "new_request rw nr sec hed cy bh"
  let ?q = "(upd_req 0 (\<lambda>_. ?r) (lock_buffer bh s))\<lparr>this_request := Some 0, sorting := False\<rparr>"
  let ?s1 = "?q\<lparr>do_hd := Some Do_request\<rparr>"
  have f: "find (\<lambda>i. sint (r_hd (req (lock_buffer bh s) i)) < 0) [0..<NR_REQUEST] = Some 0"
    using sv by (simp add: served_def NR_REQUEST_def lock_buffer_def upd_buf_def upt_rec)
  have l: "0 < length (request s)" using sv by (simp add: served_def NR_REQUEST_def)
  have s1: "serving Do_request ?r bh ?s1"
    using assms l by (auto simp: serving_def new_request_def upd_req_def lock_buffer_def upd_buf_def served_def)
  have e: "enqueue_request 0 ((upd_req 0 (\<lambda>_. ?r) (lock_buffer bh s))\<lparr>sorting := True\<rparr>) =
      Inr ((upd_req 0 (\<lambda>_. ?r) (lock_buffer bh s))\<lparr>this_request := Some 0, sorting := True\<rparr>)"
    using sv by (simp add: enqueue_request_def served_def upd_req_def lock_buffer_def upd_buf_def)
  have "add_request 0 (upd_req 0 (\<lambda>_. ?r) (lock_buffer bh s)) = (if do_hd s = None then do_request ?q else Inr ?q)"
    using l by (simp add: add_request_def e) (auto simp: upd_req_def new_request_def lock_buffer_def upd_buf_def Let_def)
  moreover have "do_request ?q = hd_interrupt ?s1"
    using do_request_do_hd [of ?q 0 "Some Do_request"] assms l
    by (auto simp: hd_interrupt_def upd_req_def new_request_def lock_buffer_def upd_buf_def served_def)
  moreover have "?q = ?s1" if "do_hd s \<noteq> None"
    using that assms(1,2) by (auto simp: served_def upd_req_def lock_buffer_def upd_buf_def)
  ultimately have add: "add_request 0 (upd_req 0 (\<lambda>_. ?r) (lock_buffer bh s)) = (if do_hd s = None then hd_interrupt ?s1 else Inr ?s1)"
    by (cases "do_hd s = None") (simp_all only: if_True if_False not_False_eq_True simp_thms)
  have w: "loop_res (hd_wait_on_buffer bh ?s1) = bindr (hd_interrupt ?s1) (\<lambda>s. loop_res (hd_wait_on_buffer bh s))"
    unfolding wait_step [OF s1] loop_res_bindo ..
  have a: "bindr (add_request 0 (upd_req 0 (\<lambda>_. ?r) (lock_buffer bh s))) (\<lambda>s. loop_res (hd_wait_on_buffer bh s)) =
      loop_res (hd_wait_on_buffer bh ?s1)"
    unfolding add by (cases "do_hd s = None") (simp_all only: if_True if_False bindr_Inr w simp_thms)
  have "rw_abs_hd rw nr sec hed cy bh s = loop_res (hd_wait_on_buffer bh ?s1)"
    using rw f a by (auto simp: rw_abs_hd_def new_request_def Let_def)
  with s1 show ?thesis
    by (intro exI [of _ ?s1]) (simp add: hd_state_defs lock_buffer_def)
qed
subsection \<open>Every request ends\<close>

definition hd_idle :: "'a fs_state_scheme \<Rightarrow> bool" where
  "hd_idle s \<longleftrightarrow> served None s \<or> served (Some Do_request) s"


lemma fs_frame_trans: "fs_frame s t \<Longrightarrow> fs_frame t u \<Longrightarrow> fs_frame s u"
  by (simp add: fs_frame_def)




















subsection \<open>What a request transfers\<close>

text \<open>A controller that reports no errors and always asks for data.\<close>

definition error_free :: "'a fs_state_scheme \<Rightarrow> bool" where
  "error_free s \<longleftrightarrow> (\<forall>x \<in> sset (dsk_status s). x AND 0xF1 = 0x50) \<and> (\<forall>b \<in> sset (dsk_drq s). b)"

lemma error_freeD: "error_free s \<Longrightarrow> win_ok s" "error_free s \<Longrightarrow> shd (dsk_drq s)"
  using shd_sset [of "dsk_status s"] shd_sset [of "dsk_drq s"] unfolding error_free_def win_ok_def by blast+

lemma sset_stl: "d' \<in> {d, stl d} \<Longrightarrow> sset d' \<subseteq> sset d"
  using stl_sset [of _ d] by auto

lemma error_free_step:
  assumes "error_free s" "dsk_status s' \<in> {dsk_status s, stl (dsk_status s)}" "dsk_drq s' \<in> {dsk_drq s, stl (dsk_drq s)}"
  shows "error_free s'"
  using assms(1) subsetD [OF sset_stl [OF assms(2)]] subsetD [OF sset_stl [OF assms(3)]]
  unfolding error_free_def by (metis (no_types, lifting))

lemma splice_halves: "length a = 512 \<Longrightarrow> length b = 512 \<Longrightarrow> length d = 1024 \<Longrightarrow> splice 512 b (splice 0 a d) = a @ b"
  by (simp add: splice_def)

lemma splice_first: "length a = 512 \<Longrightarrow> length d = 1024 \<Longrightarrow> length (splice 0 a d) = 1024 \<and> take 512 (splice 0 a d) = a"
  by (simp add: splice_def)

lemma new_request_simps [simp]:
  "r_nsector (new_request rw nr sec hed cy bh) = 2" "r_errors (new_request rw nr sec hed cy bh) = 0"
  "r_cmd (new_request READ nr sec hed cy bh) = WIN_READ" "r_cmd (new_request WRITE nr sec hed cy bh) = WIN_WRITE"
  "dsk_at (new_request rw nr sec hed cy bh) = (unat nr, sector_number sec hed cy)"
  by (simp_all add: new_request_def dsk_at_def READ_def WRITE_def)

lemma read_both:
  assumes sv: "serving Do_request r bh s" and r: "r_cmd r = WIN_READ" "r_nsector r = 2" "dsk_at r = (d, n)"
    and st: "error_free s" and len: "length (b_data (buf s bh)) = 1024" "\<And>k. length (dsk_sectors s d k) = 512"
  shows "\<exists>s'. hd_wait_on_buffer bh s = Some (Inr s') \<and> served None s' \<and> fs_frame s s' \<and> dsk_sectors s' = dsk_sectors s \<and>
     error_free s' \<and>
     buffers s' = (buffers s)[bh := (buf s bh)\<lparr>b_data := dsk_sectors s d n @ dsk_sectors s d (n + 1),
       b_uptodate := 1, b_dirt := 0, b_lock := 0\<rparr>]"
proof -
  from restart_read [OF sv r(1)] obtain s1 where s1: "hd_interrupt s = Inr s1" "serving Read_intr r bh s1" "fs_frame s s1"
    "dsk_pos s1 = (d, n)" "dsk_sectors s1 = dsk_sectors s" "error_free s1" "buffers s1 = buffers s"
    using r(3) error_free_step [OF st] by auto
  from read_first [OF s1(2) error_freeD(1) [OF s1(6)] r(2)] s1 error_free_step [OF s1(6)] obtain s2 where s2: "hd_interrupt s1 = Inr s2"
    "serving Read_intr (r\<lparr>r_errors := 0, r_nsector := 1\<rparr>) bh s2" "fs_frame s1 s2" "dsk_sectors s2 = dsk_sectors s"
    "dsk_pos s2 = (d, n + 1)" "error_free s2"
    "buffers s2 = (buffers s)[bh := (buf s bh)\<lparr>b_data := splice 0 (dsk_sectors s d n) (b_data (buf s bh))\<rparr>]"
    by (auto simp: dsk_current_def)
  have b: "bh < length (buffers s)" using sv by (simp add: serving_def)
  from read_second [OF s2(2) error_freeD(1) [OF s2(6)]] s2 b error_free_step [OF s2(6)] obtain s3 where s3: "hd_interrupt s2 = Inr s3" "served None s3" "fs_frame s2 s3"
    "dsk_sectors s3 = dsk_sectors s" "error_free s3"
    "buffers s3 = (buffers s)[bh := (buf s bh)\<lparr>b_data := splice 512 (dsk_sectors s d (n + 1)) (splice 0 (dsk_sectors s d n) (b_data (buf s bh))),
       b_uptodate := 1, b_dirt := 0, b_lock := 0\<rparr>]"
    by (auto simp: dsk_current_def)
  have "hd_wait_on_buffer bh s = Some (Inr s3)"
    using wait_next [OF sv s1(1)] wait_next [OF s1(2) s2(1)] wait_next [OF s2(2) s3(1)] wait_unlocked [of s3 bh] s3(6) b by simp
  with s3 fs_frame_trans [OF fs_frame_trans [OF s1(3) s2(3)] s3(3)] len show ?thesis by (auto simp: splice_halves)
qed

definition put_sectors :: "nat \<Rightarrow> nat \<Rightarrow> u8 list \<Rightarrow> 'a fs_state_scheme \<Rightarrow> nat \<Rightarrow> nat \<Rightarrow> u8 list" where
  "put_sectors d n l s = (dsk_sectors s)(d := (dsk_sectors s d)(n := take 512 l, n + 1 := drop 512 l))"

lemma write_both:
  assumes sv: "serving Do_request r bh s" and r: "r_cmd r = WIN_WRITE" "r_nsector r = 2" "dsk_at r = (d, n)"
    and st: "error_free s" and len: "length (b_data (buf s bh)) = 1024"
  shows "\<exists>s'. hd_wait_on_buffer bh s = Some (Inr s') \<and> served None s' \<and> fs_frame s s' \<and>
     dsk_sectors s' = put_sectors d n (b_data (buf s bh)) s \<and> error_free s' \<and>
     buffers s' = (buffers s)[bh := (buf s bh)\<lparr>b_uptodate := 1, b_dirt := 0, b_lock := 0\<rparr>]"
proof -
  have "unat (r_nsector r AND 1) = 0" by (simp add: r(2))
  with restart_write [OF sv r(1)] r(3) error_freeD(2) [OF st] error_free_step [OF st] obtain s1 where s1: "hd_interrupt s = Inr s1" "serving Write_intr r bh s1" "fs_frame s s1"
    "dsk_pos s1 = (d, n)" "dsk_buffer s1 = take 512 (b_data (buf s bh))" "dsk_sectors s1 = dsk_sectors s" "error_free s1" "buffers s1 = buffers s" by auto
  from write_first [OF s1(2) error_freeD(1) [OF s1(7)] r(2)] s1 error_free_step [OF s1(7)] obtain s2 where s2: "hd_interrupt s1 = Inr s2"
    "serving Write_intr (r\<lparr>r_nsector := 1\<rparr>) bh s2" "fs_frame s1 s2"
    "dsk_sectors s2 = (dsk_sectors s)(d := (dsk_sectors s d)(n := take 512 (b_data (buf s bh))))"
    "dsk_pos s2 = (d, n + 1)" "dsk_buffer s2 = take 512 (drop 512 (b_data (buf s bh)))" "error_free s2"
    "buffers s2 = buffers s"
    by auto
  from write_second [OF s2(2) error_freeD(1) [OF s2(7)]] s2 error_free_step [OF s2(7)] obtain s3 where s3: "hd_interrupt s2 = Inr s3" "served None s3" "fs_frame s2 s3"
    "dsk_sectors s3 = (dsk_sectors s)(d := (dsk_sectors s d)(n := take 512 (b_data (buf s bh)), n + 1 := take 512 (drop 512 (b_data (buf s bh)))))"
    "error_free s3" "buffers s3 = (buffers s)[bh := (buf s bh)\<lparr>b_uptodate := 1, b_dirt := 0, b_lock := 0\<rparr>]"
    by auto
  have b: "bh < length (buffers s)" using sv by (simp add: serving_def)
  have "hd_wait_on_buffer bh s = Some (Inr s3)"
    using wait_next [OF sv s1(1)] wait_next [OF s1(2) s2(1)] wait_next [OF s2(2) s3(1)] wait_unlocked [of s3 bh] s3(6) b by simp
  with s3 fs_frame_trans [OF fs_frame_trans [OF s1(3) s2(3)] s3(3)] len show ?thesis by (auto simp: put_sectors_def)
qed

text \<open>An error at the second sector of a block.\<close>

definition retry_status :: "u8 stream \<Rightarrow> bool" where
  "retry_status st \<longleftrightarrow> shd st AND 0xF1 = 0x50 \<and> shd (stl st) AND 0xF1 \<noteq> 0x50 \<and> shd (stl (stl st)) AND 0xF1 = 0x50"

lemma read_retried:
  assumes sv: "serving Do_request r bh s" and r: "r_cmd r = WIN_READ" "r_nsector r = 2" "dsk_at r = (d, n)" "r_errors r = 0"
    and st: "retry_status (dsk_status s)" and len: "length (b_data (buf s bh)) = 1024" "\<And>k. length (dsk_sectors s d k) = 512"
  shows "\<exists>s'. hd_wait_on_buffer bh s = Some (Inr s') \<and>
     buffers s' = (buffers s)[bh := (buf s bh)\<lparr>b_data := dsk_sectors s d n @ dsk_sectors s d n,
       b_uptodate := 1, b_dirt := 0, b_lock := 0\<rparr>]"
proof -
  note xy = st(1) [unfolded retry_status_def]
  from restart_read [OF sv r(1)] obtain s1 where s1: "hd_interrupt s = Inr s1" "serving Read_intr r bh s1" 
    "dsk_pos s1 = (d, n)" "dsk_sectors s1 = dsk_sectors s" "dsk_status s1 = dsk_status s" "buffers s1 = buffers s"
    using r(3) by auto
  let ?r = "r\<lparr>r_errors := 0, r_nsector := 1\<rparr>"
  have b: "bh < length (buffers s)" using sv by (simp add: serving_def)
  from read_first [OF s1(2) _ r(2)] s1 xy obtain s2 where s2: "hd_interrupt s1 = Inr s2" "serving Read_intr ?r bh s2"
    "dsk_sectors s2 = dsk_sectors s" "dsk_status s2 = stl (dsk_status s)"
    "buffers s2 = (buffers s)[bh := (buf s bh)\<lparr>b_data := splice 0 (dsk_sectors s d n) (b_data (buf s bh))\<rparr>]"
    by (auto simp: win_ok_def dsk_current_def)
  from bad_again [OF s2(2)] s2 xy obtain s3 where s3: "hd_interrupt s2 = Inr s3" "serving Do_request (?r\<lparr>r_errors := 1\<rparr>) bh s3"
    "dsk_sectors s3 = dsk_sectors s" "dsk_status s3 = stl (stl (dsk_status s))" "buffers s3 = buffers s2"
    by (auto simp: win_ok_def)
  from restart_read [OF s3(2)] r s3 obtain s4 where s4: "hd_interrupt s3 = Inr s4" "serving Read_intr (?r\<lparr>r_errors := 1\<rparr>) bh s4"
    "dsk_pos s4 = (d, n)" "dsk_sectors s4 = dsk_sectors s" "dsk_status s4 = stl (stl (dsk_status s))" "buffers s4 = buffers s2"
    by (auto simp: dsk_at_def)
  from read_second [OF s4(2)] s4 s2(5) b xy obtain s5 where s5: "hd_interrupt s4 = Inr s5"
    "buffers s5 = (buffers s)[bh := (buf s bh)\<lparr>b_data := splice 512 (dsk_sectors s d n) (splice 0 (dsk_sectors s d n) (b_data (buf s bh))),
       b_uptodate := 1, b_dirt := 0, b_lock := 0\<rparr>]"
    by (auto simp: win_ok_def dsk_current_def)
  have "hd_wait_on_buffer bh s = Some (Inr s5)"
    using wait_next [OF sv s1(1)] wait_next [OF s1(2) s2(1)] wait_next [OF s2(2) s3(1)] wait_next [OF s3(2) s4(1)]
      wait_next [OF s4(2) s5(1)] wait_unlocked [of s5 bh] s5(2) b by simp
  with s5(2) len show ?thesis by (auto simp: splice_halves)
qed
lemma write_retried:
  assumes sv: "serving Do_request r bh s" and r: "r_cmd r = WIN_WRITE" "r_nsector r = 2" "dsk_at r = (d, n)" "r_errors r = 0"
    and st: "retry_status (dsk_status s)" "shd (dsk_drq s)" "shd (stl (dsk_drq s))"
  shows "\<exists>s'. hd_wait_on_buffer bh s = Some (Inr s') \<and>
     dsk_sectors s' = (dsk_sectors s)(d := (dsk_sectors s d)(n := take 512 (drop 512 (b_data (buf s bh))))) \<and>
     buffers s' = (buffers s)[bh := (buf s bh)\<lparr>b_uptodate := 1, b_dirt := 0, b_lock := 0\<rparr>]"
proof -
  note xy = st(1) [unfolded retry_status_def]
  from restart_write [OF sv r(1)] r(3) st xy obtain s1 where s1: "hd_interrupt s = Inr s1" "serving Write_intr r bh s1"
    "dsk_pos s1 = (d, n)" "dsk_sectors s1 = dsk_sectors s" "dsk_status s1 = dsk_status s" "dsk_drq s1 = stl (dsk_drq s)" "buffers s1 = buffers s" by auto
  let ?r = "r\<lparr>r_nsector := 1\<rparr>"
  have b: "bh < length (buffers s)" using sv by (simp add: serving_def)
  from write_first [OF s1(2) _ r(2)] s1 xy obtain s2 where s2: "hd_interrupt s1 = Inr s2" "serving Write_intr ?r bh s2"
    "dsk_sectors s2 = (dsk_sectors s)(d := (dsk_sectors s d)(n := dsk_buffer s1))" "dsk_status s2 = stl (dsk_status s)" "dsk_drq s2 = stl (dsk_drq s)"
    "buffers s2 = buffers s"
    by (auto simp: win_ok_def)
  from bad_again [OF s2(2)] s2 xy r obtain s3 where s3: "hd_interrupt s2 = Inr s3" "serving Do_request (?r\<lparr>r_errors := 1\<rparr>) bh s3"
    "dsk_sectors s3 = dsk_sectors s2" "dsk_status s3 = stl (stl (dsk_status s))" "dsk_drq s3 = stl (dsk_drq s)" "buffers s3 = buffers s"
    by (auto simp: win_ok_def)
  from restart_write [OF s3(2)] r s3 st obtain s4 where s4: "hd_interrupt s3 = Inr s4" "serving Write_intr (?r\<lparr>r_errors := 1\<rparr>) bh s4"
    "dsk_pos s4 = (d, n)" "dsk_sectors s4 = dsk_sectors s2" "dsk_status s4 = stl (stl (dsk_status s))" "buffers s4 = buffers s"
    "dsk_buffer s4 = take 512 (drop 512 (b_data (buf s bh)))"
    by (auto simp: dsk_at_def)
  from write_second [OF s4(2)] s4 s2(3) xy obtain s5 where s5: "hd_interrupt s4 = Inr s5"
    "dsk_sectors s5 = (dsk_sectors s)(d := (dsk_sectors s d)(n := take 512 (drop 512 (b_data (buf s bh)))))"
    "buffers s5 = (buffers s)[bh := (buf s bh)\<lparr>b_uptodate := 1, b_dirt := 0, b_lock := 0\<rparr>]"
    by (auto simp: win_ok_def)
  have "hd_wait_on_buffer bh s = Some (Inr s5)"
    using wait_next [OF sv s1(1)] wait_next [OF s1(2) s2(1)] wait_next [OF s2(2) s3(1)] wait_next [OF s3(2) s4(1)]
      wait_next [OF s4(2) s5(1)] wait_unlocked [of s5 bh] s5(3) b by simp
  with s5(2,3) show ?thesis by blast
qed

lemma idle_start:
  assumes "hd_idle s" and "rw = READ \<or> rw = WRITE" and "bh < length (buffers s)" and "nr \<le> 1" "hed \<le> 15"
  shows "\<exists>s1. rw_abs_hd rw nr sec hed cy bh s = loop_res (hd_wait_on_buffer bh s1) \<and>
     serving Do_request (new_request rw nr sec hed cy bh) bh s1 \<and> fs_frame s s1 \<and> dsk_sectors s1 = dsk_sectors s \<and>
     dsk_status s1 = dsk_status s \<and> dsk_drq s1 = dsk_drq s \<and>
     buffers s1 = (buffers s)[bh := (buf s bh)\<lparr>b_lock := 1\<rparr>]"
  using assms start_request [of None s] start_request [of "Some Do_request" s] by (auto simp: hd_idle_def)


lemma sample_idle: "hd_idle sample_kernel"
  by (simp add: hd_idle_def served_def sample_kernel_def NR_REQUEST_def sample_request_def)



text \<open>
  Property C24.  When the controller reports an error at the second sector of a block, the retry starts at the first sector
  again but counts it as the second: a read fills both halves of the buffer with the first sector and marks it as up to
  date, a write overwrites the first sector with the second half of the buffer, leaves the second sector as it was, and
  marks the buffer as written.
\<close>

theorem hd_retry_wrong_sector:
  assumes "hd_idle s" and "bh < length (buffers s)" and "nr \<le> 1" "hed \<le> 15" and "length (b_data (buf s bh)) = 1024"
    and "\<And>k. length (dsk_sectors s (unat nr) k) = 512" and "retry_status (dsk_status s)" and "shd (dsk_drq s)" "shd (stl (dsk_drq s))"
    and n: "n = sector_number sec hed cy"
  shows "(\<exists>s'. rw_abs_hd READ nr sec hed cy bh s = Inr s' \<and> b_uptodate (buf s' bh) = 1 \<and>
            b_data (buf s' bh) = dsk_sectors s (unat nr) n @ dsk_sectors s (unat nr) n) \<and>
         (\<exists>s'. rw_abs_hd WRITE nr sec hed cy bh s = Inr s' \<and> b_uptodate (buf s' bh) = 1 \<and> b_dirt (buf s' bh) = 0 \<and>
            dsk_sectors s' (unat nr) n = drop 512 (b_data (buf s bh)) \<and>
            dsk_sectors s' (unat nr) (n + 1) = dsk_sectors s (unat nr) (n + 1))"
proof
  from idle_start [OF assms(1) _ assms(2,3,4), of READ sec cy] obtain s1 where
    s1: "rw_abs_hd READ nr sec hed cy bh s = loop_res (hd_wait_on_buffer bh s1)"
    "serving Do_request (new_request READ nr sec hed cy bh) bh s1" "dsk_sectors s1 = dsk_sectors s" "dsk_status s1 = dsk_status s"
    "buffers s1 = (buffers s)[bh := (buf s bh)\<lparr>b_lock := 1\<rparr>]" by blast
  from read_retried [OF s1(2), of "unat nr" n] s1 assms
  show "\<exists>s'. rw_abs_hd READ nr sec hed cy bh s = Inr s' \<and> b_uptodate (buf s' bh) = 1 \<and>
            b_data (buf s' bh) = dsk_sectors s (unat nr) n @ dsk_sectors s (unat nr) n" by auto
next
  from idle_start [OF assms(1) _ assms(2,3,4), of WRITE sec cy] obtain s1 where
    s1: "rw_abs_hd WRITE nr sec hed cy bh s = loop_res (hd_wait_on_buffer bh s1)"
    "serving Do_request (new_request WRITE nr sec hed cy bh) bh s1" "dsk_sectors s1 = dsk_sectors s" "dsk_status s1 = dsk_status s"
    "dsk_drq s1 = dsk_drq s" "buffers s1 = (buffers s)[bh := (buf s bh)\<lparr>b_lock := 1\<rparr>]" by blast
  from write_retried [OF s1(2), of "unat nr" n] s1 assms
  show "\<exists>s'. rw_abs_hd WRITE nr sec hed cy bh s = Inr s' \<and> b_uptodate (buf s' bh) = 1 \<and> b_dirt (buf s' bh) = 0 \<and>
            dsk_sectors s' (unat nr) n = drop 512 (b_data (buf s bh)) \<and>
            dsk_sectors s' (unat nr) (n + 1) = dsk_sectors s (unat nr) (n + 1)" by auto
qed

theorem hd_retry_wrong_sector_witness:
  "\<exists>s'. rw_abs_hd READ 0 1 2 3 1 (sample_kernel\<lparr>dsk_status := 0x50 ## 0x51 ## sconst 0x50\<rparr>) = Inr s' \<and> b_uptodate (buf s' 1) = 1 \<and>
      b_data (buf s' 1) = replicate 512 33 @ replicate 512 33 \<and> dsk_sectors sample_kernel 0 290 = replicate 512 34"
proof -
  let ?s = "sample_kernel\<lparr>dsk_status := 0x50 ## 0x51 ## sconst 0x50\<rparr>"
  have i: "hd_idle ?s" using sample_idle by (simp add: hd_idle_def served_def)
  have b: "1 < length (buffers ?s)" "length (b_data (buf ?s 1)) = 1024" "retry_status (dsk_status ?s)" "shd (dsk_drq ?s)" "shd (stl (dsk_drq ?s))"
    "\<And>k. length (dsk_sectors ?s (unat 0) k) = 512"
    by (simp_all add: sample_kernel_def init_head_def sample_head_def BLOCK_SIZE_def retry_status_def)
  have n: "289 = sector_number 1 2 3" by (simp add: sector_number_def)
  have d: "dsk_sectors ?s 0 289 = replicate 512 33" "dsk_sectors sample_kernel 0 290 = replicate 512 34"
    by (simp_all add: sample_kernel_def)
  from hd_retry_wrong_sector [OF i b(1) _ _ b(2,6,3,4,5) n] d show ?thesis by auto
qed

end
