(* ===== verification/Ring_Buffer.thy ===== *)
theory Ring_Buffer
  imports Prelude
begin

unbundle bit_operations_syntax

section \<open>Ring buffers\<close>

text \<open>
  A ring of \<open>n\<close> cells with a tail and a head index, as the pipes and the terminal queues of linux-0.01 keep them, holds
  the cells from the tail up to the head.  Putting a byte at the head and taking one from the tail make it a first-in
  first-out queue of \<open>n - 1\<close> places; the interface \<open>byte_fifo\<close> says so, and the runs of puts and gets are
  described once from it.
\<close>

definition ring :: "nat \<Rightarrow> (nat \<Rightarrow> 'b) \<Rightarrow> nat \<Rightarrow> nat \<Rightarrow> 'b list" where
  "ring n f t h = map (\<lambda>k. f ((t + k) mod n)) [0..<(h + n - t) mod n]"

lemma length_ring: "length (ring n f t h) = (h + n - t) mod n"
  by (simp add: ring_def)

lemma ring_dist:
  fixes t h n :: nat assumes "t < n" "h < n" shows "(h + n - t) mod n = (if t \<le> h then h - t else h + n - t)"
proof (cases "t \<le> h")
  case True
  then have "h + n - t = (h - t) + n" by simp
  then show ?thesis using True assms by (simp only: mod_add_self2) simp
qed (use assms in simp)

lemma next_index: "h < n \<Longrightarrow> (h + 1) mod n = (if h + 1 = n then 0 else h + 1)" for n :: nat
  by (simp add: mod_if)

lemma ring_index: "t < n \<Longrightarrow> k < n \<Longrightarrow> (t + k) mod n = (if t + k < n then t + k else t + k - n)" for n :: nat
  by (simp add: mod_if)

lemma ring_empty: "t < n \<Longrightarrow> h < n \<Longrightarrow> ring n f t h = [] \<longleftrightarrow> h = t"
  using ring_dist [of t n h] by (auto simp: ring_def split: if_splits)

lemma ring_length_put:
  fixes t h n :: nat assumes "t < n" "h < n" "(h + n - t) mod n + 1 < n"
  shows "((h + 1) mod n + n - t) mod n = (h + n - t) mod n + 1"
proof (cases "h + 1 = n")
  case True
  then show ?thesis using assms by (simp add: ring_dist split: if_splits)
next
  case False
  then have "(h + 1) mod n = h + 1" "h + 1 < n" using assms(2) by simp_all
  moreover have "(h + 1 + n - t) mod n = (if t \<le> h + 1 then h + 1 - t else h + 1 + n - t)"
    using calculation assms by (intro ring_dist) simp_all
  ultimately show ?thesis using assms ring_dist [of t n h] by (auto split: if_splits)
qed

lemma ring_before_head:
  fixes t h n :: nat assumes "t < n" "h < n" "k < (h + n - t) mod n" shows "(t + k) mod n \<noteq> h"
proof -
  have "k < n" using assms by (auto simp: ring_dist split: if_splits)
  with assms show ?thesis by (auto simp: ring_index ring_dist split: if_splits)
qed

lemma ring_at_head: fixes t h n :: nat assumes "t < n" "h < n" shows "(t + (h + n - t) mod n) mod n = h"
  using assms by (auto simp: ring_dist ring_index)

lemma ring_put:
  assumes "t < n" "h < n" "length (ring n f t h) + 1 < n"
  shows "ring n (f(h := c)) t ((h + 1) mod n) = ring n f t h @ [c]"
  using assms ring_length_put [of t n h] ring_at_head [of t n h] ring_before_head [of t n h]
  by (auto simp: ring_def length_ring fun_upd_def)

lemma ring_get:
  assumes "t < n" "h < n" "h \<noteq> t"
  shows "ring n f t h = f t # ring n f ((t + 1) mod n) h"
proof -
  have l: "(h + n - t) mod n = Suc ((h + n - (t + 1) mod n) mod n)"
    using assms ring_dist [of t n h] ring_dist [of "(t + 1) mod n" n h] next_index [of t n] by (auto split: if_splits)
  have "map (\<lambda>k. f ((t + k) mod n)) [0..<Suc m] = f t # map (\<lambda>k. f (((t + 1) mod n + k) mod n)) [0..<m]" for m
  proof -
    have "map (\<lambda>k. f ((t + k) mod n)) [0..<Suc m] = f (t mod n) # map (\<lambda>k. f ((t + Suc k) mod n)) [0..<m]"
      unfolding upt_conv_Cons [OF zero_less_Suc] map_Suc_upt [symmetric] by simp
    then show ?thesis using assms(1) by (simp add: mod_simps)
  qed
  then show ?thesis unfolding ring_def l by simp
qed

subsection \<open>Indices that wrap by a mask\<close>

lemma unat_mask_less: "unat (take_bit k w) < 2 ^ k" for w :: u32
  by (simp add: unsigned_take_bit_eq take_bit_nat_less_exp)

lemma uint_take_bit: "uint (take_bit k w) = uint w mod 2 ^ k" for w :: u32
  by (simp add: unsigned_take_bit_eq take_bit_int_def)

lemma mod_word_mod: "k < 32 \<Longrightarrow> x mod 4294967296 mod 2 ^ k = x mod 2 ^ k" for x :: int
  using mod_mod_cancel [of "2 ^ k" "2 ^ 32 :: int" x] le_imp_power_dvd [of k 32 "2 :: int"] by simp

lemma unat_wrap_succ:
  fixes h :: u32 assumes "k < 32"
  shows "unat (take_bit k (h + 1)) = (unat h + 1) mod 2 ^ k"
proof -
  have "int (unat (take_bit k (h + 1))) = (uint h + 1) mod 2 ^ k"
    using assms by (simp add: uint_take_bit uint_word_ariths mod_word_mod flip: uint_nat)
  also have "\<dots> = int ((unat h + 1) mod 2 ^ k)" by (simp add: zmod_int add.commute)
  finally show ?thesis by (simp only: of_nat_eq_iff)
qed

lemma unat_wrap_diff:
  fixes h t :: u32 assumes "k < 32" "unat t < 2 ^ k"
  shows "unat (take_bit k (h - t)) = (unat h + 2 ^ k - unat t) mod 2 ^ k"
proof -
  have "int (unat (take_bit k (h - t))) = (uint h - uint t) mod 2 ^ k"
    using assms by (simp add: uint_take_bit uint_word_ariths mod_word_mod flip: uint_nat)
  also have "\<dots> = (uint h + 2 ^ k - uint t) mod 2 ^ k" by (simp add: add.commute diff_add_eq [symmetric])
  also have "\<dots> = int ((unat h + 2 ^ k - unat t) mod 2 ^ k)"
    using assms(2) by (simp add: zmod_int of_nat_diff)
  finally show ?thesis by (simp only: of_nat_eq_iff)
qed

lemma and_1023: "w AND 1023 = take_bit 10 w" and and_4095: "w AND 4095 = take_bit 12 w" for w :: u32
  by (simp_all add: take_bit_eq_mask mask_eq_exp_minus_1)

subsection \<open>The interface\<close>

locale byte_fifo =
  fixes ok :: "'s \<Rightarrow> bool" and items :: "'s \<Rightarrow> u8 list" and cap :: nat
    and put :: "u8 \<Rightarrow> 's \<Rightarrow> 's" and get :: "'s \<Rightarrow> u8 \<times> 's"
  assumes put_ok: "\<lbrakk>ok s; length (items s) < cap\<rbrakk> \<Longrightarrow> ok (put c s)"
    and put_items: "\<lbrakk>ok s; length (items s) < cap\<rbrakk> \<Longrightarrow> items (put c s) = items s @ [c]"
    and get_ok: "\<lbrakk>ok s; items s \<noteq> []\<rbrakk> \<Longrightarrow> ok (snd (get s))"
    and get_items: "\<lbrakk>ok s; items s \<noteq> []\<rbrakk> \<Longrightarrow> items s = fst (get s) # items (snd (get s))"
begin

primrec puts :: "u8 list \<Rightarrow> 's \<Rightarrow> 's" where
  "puts [] s = s"
| "puts (c # cs) s = puts cs (put c s)"

primrec gets :: "nat \<Rightarrow> 's \<Rightarrow> u8 list \<times> 's" where
  "gets 0 s = ([], s)"
| "gets (Suc n) s = (let (c, s) = get s; (cs, s) = gets n s in (c # cs, s))"

lemma puts_items:
  "\<lbrakk>ok s; length (items s) + length cs \<le> cap\<rbrakk> \<Longrightarrow> ok (puts cs s) \<and> items (puts cs s) = items s @ cs"
  by (induction cs arbitrary: s) (simp_all add: put_ok put_items)

lemma gets_items:
  "\<lbrakk>ok s; n \<le> length (items s)\<rbrakk> \<Longrightarrow>
     ok (snd (gets n s)) \<and> fst (gets n s) = take n (items s) \<and> items (snd (gets n s)) = drop n (items s)"
proof (induction n arbitrary: s)
  case (Suc n)
  then have ne: "items s \<noteq> []" by auto
  note g = get_items [OF Suc.prems(1) ne]
  have "n \<le> length (items (snd (get s)))" using Suc.prems(2) by (subst (asm) g) simp
  from Suc.IH [OF get_ok [OF Suc.prems(1) ne] this] show ?case
    by (subst (1 2) g) (simp add: split_beta)
qed simp

end

end
