(* ===== verification/Linux_Channels.thy ===== *)
theory Linux_Channels
  imports Linux_Disk Ring_Buffer
begin

unbundle bit_operations_syntax

section \<open>The byte queues of linux-0.01 (\<open>include/linux/tty.h\<close>, \<open>fs/pipe.c\<close>)\<close>

text \<open>
  The queues of a terminal and the page of a pipe are ring buffers: both provide the interface \<open>byte_fifo\<close>.
  The loops of \<open>read_pipe\<close> and \<open>write_pipe\<close> are runs of its operations, so the system calls on a pipe
  refine a bounded channel.
\<close>

subsection \<open>Terminal queues\<close>

definition queue_ok :: "tty_queue \<Rightarrow> bool" where
  "queue_ok q \<longleftrightarrow> unat (q_head q) < 1024 \<and> unat (q_tail q) < 1024 \<and> length (q_buf q) = 1024"

definition queue_items :: "tty_queue \<Rightarrow> u8 list" where
  "queue_items q = ring 1024 ((!) (q_buf q)) (unat (q_tail q)) (unat (q_head q))"

lemma queue_wrap: "unat (take_bit 10 (h + 1)) = (unat h + 1) mod 1024" for h :: u32
  using unat_wrap_succ [of 10 h] by simp

lemma CHARS_items: "queue_ok q \<Longrightarrow> unat (CHARS q) = length (queue_items q)"
  using unat_wrap_diff [of 10 "q_tail q" "q_head q"]
  by (simp add: CHARS_def and_1023 queue_items_def length_ring queue_ok_def)

lemma EMPTY_items: "queue_ok q \<Longrightarrow> EMPTY q \<longleftrightarrow> queue_items q = []"
  by (simp add: EMPTY_def queue_items_def queue_ok_def ring_empty word_unat_eq_iff)

interpretation tty_fifo: byte_fifo queue_ok queue_items 1023 PUTCH GETCH
proof unfold_locales
  fix q c
  assume ok: "queue_ok q"
  show "queue_ok (PUTCH c q)" if "length (queue_items q) < 1023"
    using ok by (simp add: queue_ok_def PUTCH_def and_1023 queue_wrap)
  show "queue_items (PUTCH c q) = queue_items q @ [c]" if l: "length (queue_items q) < 1023"
  proof -
    have "ring 1024 ((!) ((q_buf q)[unat (q_head q) := c])) t h = ring 1024 (((!) (q_buf q))(unat (q_head q) := c)) t h" for t h
      using ok by (auto simp: ring_def queue_ok_def nth_list_update)
    then show ?thesis using ok l ring_put [of "unat (q_tail q)" 1024 "unat (q_head q)" "(!) (q_buf q)" c]
      by (simp add: queue_items_def PUTCH_def and_1023 queue_wrap queue_ok_def)
  qed
  show "queue_ok (snd (GETCH q))" 
    using ok by (simp add: queue_ok_def GETCH_def and_1023 queue_wrap)
  show "queue_items q = fst (GETCH q) # queue_items (snd (GETCH q))" if "queue_items q \<noteq> []"
    using that ok ring_get [of "unat (q_tail q)" 1024 "unat (q_head q)" "(!) (q_buf q)"] ring_empty [of "unat (q_tail q)" 1024 "unat (q_head q)" "(!) (q_buf q)"]
    by (simp add: queue_items_def GETCH_def and_1023 queue_wrap queue_ok_def)
qed

subsection \<open>Pipes\<close>

lemma same_byte: "a AND NOT 3 = b AND NOT 3 \<Longrightarrow> a AND 3 = b AND 3 \<Longrightarrow> a = b" for a b :: u32
proof -
  assume h: "a AND NOT 3 = b AND NOT 3" "a AND 3 = b AND 3"
  have "x = (x AND NOT 3) OR (x AND 3)" for x :: u32
    by (rule bit_eqI) (auto simp: bit_simps)
  with h show "a = b" by metis
qed

lemma byte_index: "unat (a AND 3) < 4" for a :: u32
proof -
  have "a AND 3 = take_bit 2 a" by (simp add: take_bit_eq_mask mask_eq_exp_minus_1)
  then show ?thesis using unat_mask_less [of 2 a] by simp
qed

lemma byte_of_word:
  fixes w :: u32 and v :: u8 assumes "i < 4" "j < 4"
  shows "ucast (drop_bit (8 * i) ((w AND NOT (push_bit (8 * j) (mask 8))) OR push_bit (8 * j) (ucast v))) =
    (if i = j then v else ucast (drop_bit (8 * i) w))"
proof (rule bit_word_eqI)
  fix n assume "n < LENGTH(8)"
  then have n: "n < 8" by simp
  have v: "\<not> bit v k" if "8 \<le> k" for k using that bit_imp_le_length [of v k] by auto
  have "8 * i + n < 32" using n assms by simp
  moreover have "i \<noteq> j \<Longrightarrow> 8 * j \<le> 8 * i + n \<Longrightarrow> 8 \<le> 8 * i + n - 8 * j" using n by auto
  ultimately show "bit (ucast (drop_bit (8 * i) ((w AND NOT (push_bit (8 * j) (mask 8))) OR push_bit (8 * j) (ucast v))) :: u8) n =
    bit (if i = j then v else ucast (drop_bit (8 * i) w)) n"
    using n by (auto simp: bit_simps v)
qed

lemma phys_byte_set: "phys_byte a (set_phys_byte b v s) = (if a = b then v else phys_byte a s)"
proof (cases "a AND NOT 3 = b AND NOT 3")
  case True
  have "a = b \<longleftrightarrow> unat (a AND 3) = unat (b AND 3)" using same_byte [OF True] by (metis word_unat_eq_iff)
  then show ?thesis using True byte_of_word [OF byte_index [of a] byte_index [of b], where w = "phys s (b AND NOT 3)" and v = v]
    by (simp add: phys_byte_def set_phys_byte_def wr_def Let_def mask_eq_exp_minus_1)
next
  case False
  then show ?thesis by (auto simp: phys_byte_def set_phys_byte_def wr_def Let_def)
qed

lemma set_phys_byte_simps [simp]:
  "inode_table (set_phys_byte a v s) = inode_table s" "user (set_phys_byte a v s) = user s" for s :: "'a fs_state_scheme"
  by (simp_all add: set_phys_byte_def wr_def Let_def)

lemma upd_inode_simps [simp]:
  "inode_table (upd_inode i f s) = (inode_table s)[i := f (inode_table s ! i)]" "user (upd_inode i f s) = user s"
  "phys (upd_inode i f s) = phys s"
  by (simp_all add: upd_inode_def)

lemma phys_byte_frame [simp]:
  "phys_byte a (wake_up p s) = phys_byte a s" "phys_byte a (upd_inode i f s) = phys_byte a s"
  "phys_byte a (put_fs_byte v b s) = phys_byte a s" for s :: "'a fs_state_scheme"
  by (simp_all add: phys_byte_def put_fs_byte_def)

lemma zone_word_roundtrip: "(ucast (ucast w :: u16) :: u32) OR push_bit 16 (ucast (ucast (drop_bit 16 w) :: u16)) = w" for w :: u32
  by (rule bit_word_eqI) (auto simp: bit_simps)

lemma zone_long_set:
  assumes "2 * k + 1 < length (i_zone m)" "2 * j + 1 < length (i_zone m)"
  shows "zone_long j (set_zone_long k v m) = (if j = k then v else zone_long j m)"
proof -
  have "2 * j \<noteq> 2 * k + 1" "2 * k \<noteq> 2 * j + 1" by presburger+
  then show ?thesis using assms by (auto simp: zone_long_def set_zone_long_def zone_word_roundtrip nth_list_update)
qed

definition pipe_ok :: "nat \<Rightarrow> 'a fs_state_scheme \<Rightarrow> bool" where
  "pipe_ok ino s \<longleftrightarrow> ino < length (inode_table s) \<and> 4 \<le> length (i_zone (inode s ino)) \<and>
     unat (PIPE_HEAD (inode s ino)) < 4096 \<and> unat (PIPE_TAIL (inode s ino)) < 4096"

definition pipe_items :: "nat \<Rightarrow> 'a fs_state_scheme \<Rightarrow> u8 list" where
  "pipe_items ino s = ring 4096 (\<lambda>k. phys_byte (i_size (inode s ino) + of_nat k) s)
     (unat (PIPE_TAIL (inode s ino))) (unat (PIPE_HEAD (inode s ino)))"

definition pipe_put :: "nat \<Rightarrow> u8 \<Rightarrow> 'a fs_state_scheme \<Rightarrow> 'a fs_state_scheme" where
  "pipe_put ino c s =
     (let s = upd_inode ino (INC_PIPE 0) (set_phys_byte (i_size (inode s ino) + PIPE_HEAD (inode s ino)) c s)
      in wake_up (i_wait ino s) s)"

definition pipe_get :: "nat \<Rightarrow> 'a fs_state_scheme \<Rightarrow> u8 \<times> 'a fs_state_scheme" where
  "pipe_get ino s = (phys_byte (i_size (inode s ino) + PIPE_TAIL (inode s ino)) s, upd_inode ino (INC_PIPE 1) s)"

lemma INC_PIPE_simps [simp]: "i_size (INC_PIPE k m) = i_size m" "i_count (INC_PIPE k m) = i_count m"
  "length (i_zone (INC_PIPE k m)) = length (i_zone m)"
  by (simp_all add: INC_PIPE_def set_zone_long_def)

lemma INC_PIPE_zone:
  "4 \<le> length (i_zone m) \<Longrightarrow> k < 2 \<Longrightarrow> j < 2 \<Longrightarrow>
   zone_long j (INC_PIPE k m) = (if j = k then take_bit 12 (zone_long k m + 1) else zone_long j m)"
  by (simp add: INC_PIPE_def zone_long_set and_4095)

lemma pipe_wrap: "unat (take_bit 12 (h + 1)) = (unat h + 1) mod 4096" for h :: u32
  using unat_wrap_succ [of 12 h] by simp

lemma page_index_inj: "j < 4096 \<Longrightarrow> unat h < 4096 \<Longrightarrow> of_nat j = h \<longleftrightarrow> j = unat h" for h :: u32
  by (auto simp: word_unat_eq_iff unsigned_of_nat take_bit_nat_eq_self)

interpretation pipe_fifo: byte_fifo "pipe_ok ino" "pipe_items ino" 4095 "pipe_put ino" "pipe_get ino"
  for ino :: nat
proof unfold_locales
  fix s :: "'a fs_state_scheme" and c
  assume ok: "pipe_ok ino s"
  let ?p = "i_size (inode s ino)" and ?h = "PIPE_HEAD (inode s ino)" and ?t = "PIPE_TAIL (inode s ino)"
  let ?f = "\<lambda>k. phys_byte (?p + of_nat k) s"
  show "pipe_ok ino (pipe_put ino c s)"
    using ok by (simp add: pipe_ok_def pipe_put_def Let_def INC_PIPE_zone pipe_wrap)
  show "pipe_ok ino (snd (pipe_get ino s))"
    using ok by (simp add: pipe_ok_def pipe_get_def INC_PIPE_zone pipe_wrap)
  show "pipe_items ino (pipe_put ino c s) = pipe_items ino s @ [c]" if l: "length (pipe_items ino s) < 4095"
  proof -
    have "pipe_items ino (pipe_put ino c s) = ring 4096 (?f(unat ?h := c)) (unat ?t) ((unat ?h + 1) mod 4096)"
      using ok by (auto simp: pipe_items_def pipe_ok_def pipe_put_def Let_def INC_PIPE_zone pipe_wrap ring_def
        phys_byte_set page_index_inj)
    also have "\<dots> = pipe_items ino s @ [c]"
      using ring_put [of "unat ?t" 4096 "unat ?h" ?f c] l ok by (simp add: pipe_items_def pipe_ok_def)
    finally show ?thesis .
  qed
  show "pipe_items ino s = fst (pipe_get ino s) # pipe_items ino (snd (pipe_get ino s))" if "pipe_items ino s \<noteq> []"
    using ring_get [of "unat ?t" 4096 "unat ?h" ?f] ring_empty [of "unat ?t" 4096 "unat ?h" ?f] that ok
    by (auto simp: pipe_items_def pipe_ok_def pipe_get_def INC_PIPE_zone pipe_wrap ring_def)
qed

lemma PIPE_EMPTY_items: "pipe_ok ino s \<Longrightarrow> PIPE_EMPTY (inode s ino) \<longleftrightarrow> pipe_items ino s = []"
  by (simp add: PIPE_EMPTY_def pipe_items_def pipe_ok_def ring_empty word_unat_eq_iff)

lemma PIPE_FULL_items: "pipe_ok ino s \<Longrightarrow> PIPE_FULL (inode s ino) \<longleftrightarrow> length (pipe_items ino s) = 4095"
  using unat_wrap_diff [of 12 "PIPE_TAIL (inode s ino)" "PIPE_HEAD (inode s ino)"]
  by (simp add: PIPE_FULL_def PIPE_SIZE_def and_4095 pipe_items_def pipe_ok_def length_ring word_unat_eq_iff)

lemma pipe_frame [simp]:
  "pipe_ok ino (wake_up p s) = pipe_ok ino s" "pipe_items ino (wake_up p s) = pipe_items ino s"
  "pipe_ok ino (put_fs_byte v b s) = pipe_ok ino s" "pipe_items ino (put_fs_byte v b s) = pipe_items ino s"
  by (simp_all add: pipe_ok_def pipe_items_def put_fs_byte_def phys_byte_def)

lemma pipe_put_count: "i_count (inode (pipe_put ino c s) ino) = i_count (inode s ino)"
  by (cases "ino < length (inode_table s)") (simp_all add: pipe_put_def Let_def list_update_beyond)

lemma get_fs_bytes_Suc: "get_fs_bytes (Suc n) a s = get_fs_byte a s # get_fs_bytes n (a + 1) s"
  unfolding get_fs_bytes_def upt_conv_Cons [OF zero_less_Suc] map_Suc_upt [symmetric] by (simp add: add.assoc)

lemma get_fs_bytes_cong: "user s = user t \<Longrightarrow> get_fs_bytes n a s = get_fs_bytes n a t"
  by (simp add: get_fs_bytes_def get_fs_byte_def)

text \<open>Writing is a run of single puts followed by a wake-up; a writer that finds no room sleeps.\<close>

lemma write_pipe_loop_puts:
  "\<lbrakk>pipe_ok ino s; length (pipe_items ino s) + n \<le> 4095\<rbrakk> \<Longrightarrow>
     write_pipe_loop n ino b s =
       (let s' = pipe_fifo.puts ino (get_fs_bytes n b s) s in Inr (b + of_nat n, wake_up (i_wait ino s') s'))"
proof (induction n arbitrary: b s)
  case 0
  then show ?case by (simp add: get_fs_bytes_def)
next
  case (Suc n)
  let ?s = "pipe_put ino (get_fs_byte b s) s"
  have l: "length (pipe_items ino s) < 4095" using Suc.prems by simp
  have ok: "pipe_ok ino ?s" "pipe_items ino ?s = pipe_items ino s @ [get_fs_byte b s]"
    using pipe_fifo.put_ok [OF Suc.prems(1) l] pipe_fifo.put_items [OF Suc.prems(1) l] by simp_all
  have "user ?s = user s" by (simp add: pipe_put_def Let_def)
  then have "get_fs_bytes n (b + 1) ?s = get_fs_bytes n (b + 1) s" by (rule get_fs_bytes_cong)
  moreover have "write_pipe_loop (Suc n) ino b s = write_pipe_loop n ino (b + 1) ?s"
    using Suc.prems(1) l by (simp add: PIPE_FULL_items pipe_put_def Let_def)
  moreover note Suc.IH [of ?s "b + 1"]
  ultimately show ?case using ok Suc.prems(2) by (simp add: get_fs_bytes_Suc algebra_simps)
qed

lemma write_pipe_loop_blocks:
  "\<lbrakk>pipe_ok ino s; i_count (inode s ino) = 2; length (pipe_items ino s) \<le> 4095; 4095 < length (pipe_items ino s) + n\<rbrakk> \<Longrightarrow>
     write_pipe_loop n ino b s = Inl (Blocks ''i_wait'')"
proof (induction n arbitrary: b s)
  case (Suc n)
  let ?s = "pipe_put ino (get_fs_byte b s) s"
  show ?case
  proof (cases "length (pipe_items ino s) = 4095")
    case True
    then show ?thesis using Suc.prems by (simp add: PIPE_FULL_items)
  next
    case False
    then have l: "length (pipe_items ino s) < 4095" using Suc.prems by simp
    have "pipe_ok ino ?s" "pipe_items ino ?s = pipe_items ino s @ [get_fs_byte b s]" "i_count (inode ?s ino) = 2"
      using pipe_fifo.put_ok [OF Suc.prems(1) l] pipe_fifo.put_items [OF Suc.prems(1) l] Suc.prems(2)
      by (simp_all add: pipe_put_count)
    then have "write_pipe_loop n ino (b + 1) ?s = Inl (Blocks ''i_wait'')" using l Suc.prems(4) by (intro Suc.IH) simp_all
    then show ?thesis using Suc.prems(1) l by (simp add: PIPE_FULL_items pipe_put_def Let_def)
  qed
qed simp

lemma pipe_length: "pipe_ok ino s \<Longrightarrow> length (pipe_items ino s) \<le> 4095"
  by (simp add: pipe_items_def length_ring less_Suc_eq_le [symmetric])

text \<open>Reading is a run of single gets, whose bytes end up in the memory of the reader.\<close>

lemma upd_inode_put_fs_byte: "upd_inode ino f (put_fs_byte v b s) = put_fs_byte v b (upd_inode ino f s)"
  by (simp add: put_fs_byte_def upd_inode_def)

lemma pipe_get_user: "pipe_get ino (put_fs_byte v b s) = (fst (pipe_get ino s), put_fs_byte v b (snd (pipe_get ino s)))"
  by (simp add: pipe_get_def put_fs_byte_def phys_byte_def upd_inode_def)

lemma gets_user:
  "pipe_fifo.gets ino n (put_fs_byte v b s) = (fst (pipe_fifo.gets ino n s), put_fs_byte v b (snd (pipe_fifo.gets ino n s)))"
  by (induction n arbitrary: s) (simp_all add: pipe_get_user split_beta)

lemma read_pipe_loop_gets:
  "pipe_ok ino s \<Longrightarrow>
     read_pipe_loop n ino b s =
       (let k = min n (length (pipe_items ino s)); (bs, s') = pipe_fifo.gets ino k s
        in (b + of_nat k, put_fs_bytes bs b s'))"
proof (induction n arbitrary: b s)
  case 0
  then show ?case by simp
next
  case (Suc n)
  show ?case
  proof (cases "pipe_items ino s = []")
    case True
    then show ?thesis using Suc.prems by (simp add: PIPE_EMPTY_items)
  next
    case False
    let ?v = "fst (pipe_get ino s)" and ?s = "snd (pipe_get ino s)"
    have ok: "pipe_ok ino ?s" "pipe_items ino s = ?v # pipe_items ino ?s"
      using pipe_fifo.get_ok [OF Suc.prems False] pipe_fifo.get_items [OF Suc.prems False] by simp_all
    have "read_pipe_loop (Suc n) ino b s = read_pipe_loop n ino (b + 1) (put_fs_byte ?v b ?s)"
      using False Suc.prems by (simp add: PIPE_EMPTY_items pipe_get_def upd_inode_put_fs_byte)
    also have "\<dots> = (let k = min n (length (pipe_items ino ?s)); (bs, s') = pipe_fifo.gets ino k ?s
        in (b + 1 + of_nat k, put_fs_bytes bs (b + 1) (put_fs_byte ?v b s')))"
      using Suc.IH [of "put_fs_byte ?v b ?s" "b + 1"] ok(1) by (simp add: gets_user split_beta)
    also have "\<dots> = (let k = min (Suc n) (length (pipe_items ino s)); (bs, s') = pipe_fifo.gets ino k s
        in (b + of_nat k, put_fs_bytes bs b s'))"
      by (subst ok(2)) (simp add: split_beta Let_def algebra_simps)
    finally show ?thesis .
  qed
qed

subsection \<open>A pipe is a bounded channel\<close>

datatype chan_op = Send "u8 list" | Receive nat

fun channel :: "nat \<Rightarrow> chan_op list \<Rightarrow> u8 list \<Rightarrow> (u8 list \<times> u8 list) option" where
  "channel n [] q = Some ([], q)"
| "channel n (Send bs # ops) q = (if length q + length bs \<le> n then channel n ops (q @ bs) else None)"
| "channel n (Receive k # ops) q =
     (if q = [] then None
      else case channel n ops (drop k q) of None \<Rightarrow> None | Some (bs, q') \<Rightarrow> Some (take k q @ bs, q'))"

fun sent :: "chan_op list \<Rightarrow> u8 list" where
  "sent [] = []"
| "sent (Send bs # ops) = bs @ sent ops"
| "sent (Receive k # ops) = sent ops"

lemma channel_in_order: "channel n ops q = Some (bs, q') \<Longrightarrow> q @ sent ops = bs @ q'"
  by (induction n ops q arbitrary: bs rule: channel.induct) (auto split: if_splits option.splits, metis append_assoc append_take_drop_id)

text \<open>
  The system calls on the two ends: a writer with the memory \<open>m\<close>, and a reader, of whom is recorded what its
  buffer holds after the call.
\<close>

datatype pipe_op = Pipe_write "u32 \<Rightarrow> u8" u32 u32 | Pipe_read u32 u32

fun pipe_run :: "nat \<Rightarrow> pipe_op list \<Rightarrow> 'a fs_state_scheme \<Rightarrow> (u8 list \<times> 'a fs_state_scheme) res" where
  "pipe_run ino [] s = Inr ([], s)"
| "pipe_run ino (Pipe_write m src cnt # ops) s =
     bindr (write_pipe ino src cnt (s\<lparr>user := m\<rparr>)) (\<lambda>(n, s). pipe_run ino ops s)"
| "pipe_run ino (Pipe_read dst cnt # ops) s =
     bindr (read_pipe ino dst cnt s) (\<lambda>(n, s).
     bindr (pipe_run ino ops s) (\<lambda>(bs, s'). Inr (get_fs_bytes (unat n) dst s @ bs, s')))"

primrec chan_op_of :: "pipe_op \<Rightarrow> chan_op" where
  "chan_op_of (Pipe_write m src cnt) = Send (map (\<lambda>i. m (src + of_nat i)) [0..<nat (sint cnt)])"
| "chan_op_of (Pipe_read dst cnt) = Receive (nat (sint cnt))"

definition pipe_open :: "nat \<Rightarrow> 'a fs_state_scheme \<Rightarrow> bool" where
  "pipe_open ino s \<longleftrightarrow> pipe_ok ino s \<and> i_count (inode s ino) = 2"

lemma pipe_open_wake [simp]: "pipe_open ino (wake_up p s) = pipe_open ino s"
  by (simp add: pipe_open_def)

lemma puts_count: "i_count (inode (pipe_fifo.puts ino cs s) ino) = i_count (inode s ino)"
  by (induction cs arbitrary: s) (simp_all add: pipe_put_count)

lemma gets_count: "i_count (inode (snd (pipe_fifo.gets ino n s)) ino) = i_count (inode s ino)"
proof (induction n arbitrary: s)
  case (Suc n)
  have "i_count (inode (snd (pipe_get ino s)) ino) = i_count (inode s ino)"
    by (cases "ino < length (inode_table s)") (simp_all add: pipe_get_def list_update_beyond)
  with Suc show ?case by (simp add: split_beta)
qed simp

lemma put_fs_bytes_frame [simp]:
  "inode_table (put_fs_bytes bs a s) = inode_table s" "phys (put_fs_bytes bs a s) = phys s"
  by (induction bs arbitrary: a s) (simp_all add: put_fs_byte_def)

lemma put_fs_bytes_other: "\<lbrakk>\<And>i. i < length bs \<Longrightarrow> x \<noteq> a + of_nat i\<rbrakk> \<Longrightarrow> user (put_fs_bytes bs a s) x = user s x"
proof (induction bs arbitrary: a s)
  case (Cons v bs)
  have "x \<noteq> a + 1 + of_nat i" if "i < length bs" for i using Cons.prems [of "Suc i"] that by (simp add: add.assoc)
  then have "user (put_fs_bytes bs (a + 1) (put_fs_byte v a s)) x = user (put_fs_byte v a s) x" by (rule Cons.IH)
  moreover have "x \<noteq> a" using Cons.prems [of 0] by simp
  ultimately show ?case by (simp add: put_fs_byte_def)
qed simp

lemma get_put_fs_bytes:
  "length bs \<le> 2 ^ 32 \<Longrightarrow> get_fs_bytes (length bs) a (put_fs_bytes bs a s) = bs"
proof (induction bs arbitrary: a s)
  case Nil
  then show ?case by (simp add: get_fs_bytes_def)
next
  case (Cons v bs)
  have "a \<noteq> a + 1 + of_nat i" if "i < length bs" for i
  proof -
    have "of_nat (Suc i) \<noteq> (0 :: u32)" using that Cons.prems nat_dvd_not_less [of "Suc i" "2 ^ 32"]
      by (simp add: word_of_nat_eq_0_iff del: of_nat_Suc)
    then show ?thesis by (simp add: add.assoc)
  qed
  then have "user (put_fs_bytes bs (a + 1) (put_fs_byte v a s)) a = user (put_fs_byte v a s) a"
    by (rule put_fs_bytes_other)
  then have "get_fs_byte a (put_fs_bytes bs (a + 1) (put_fs_byte v a s)) = v" by (simp add: get_fs_byte_def put_fs_byte_def)
  with Cons show ?case by (simp add: get_fs_bytes_Suc)
qed

lemma write_pipe_channel:
  assumes "pipe_open ino s" and "n = nat (sint cnt)"
  shows "if length (pipe_items ino s) + n \<le> 4095
    then \<exists>s'. write_pipe ino src cnt s = Inr (of_nat n, s') \<and> pipe_open ino s' \<and>
           pipe_items ino s' = pipe_items ino s @ get_fs_bytes n src s
    else write_pipe ino src cnt s = Inl (Blocks ''i_wait'')"
proof -
  let ?w = "wake_up (i_wait ino s) s"
  have w: "pipe_ok ino ?w" "i_count (inode ?w ino) = 2" "get_fs_bytes n src ?w = get_fs_bytes n src s"
    using assms(1) by (simp_all add: pipe_open_def get_fs_bytes_def get_fs_byte_def)
  show ?thesis
  proof (cases "length (pipe_items ino s) + n \<le> 4095")
    case True
    let ?p = "pipe_fifo.puts ino (get_fs_bytes n src s) ?w"
    have "pipe_ok ino ?p" "pipe_items ino ?p = pipe_items ino s @ get_fs_bytes n src s"
      using pipe_fifo.puts_items [OF w(1), of "get_fs_bytes n src s"] True by (simp_all add: get_fs_bytes_def)
    then show ?thesis using True w write_pipe_loop_puts [OF w(1), of n src] assms(2)
      by (simp add: write_pipe_def pipe_open_def puts_count Let_def)
  next
    case False
    then show ?thesis using w assms(2) write_pipe_loop_blocks [OF w(1,2), of n src] pipe_length [OF w(1)]
      by (simp add: write_pipe_def Let_def)
  qed
qed

lemma read_pipe_channel:
  assumes "pipe_open ino s"
  shows "if pipe_items ino s = [] then read_pipe ino dst cnt s = Inl (Blocks ''i_wait'')
    else \<exists>s'. read_pipe ino dst cnt s = Inr (of_nat (min (nat (sint cnt)) (length (pipe_items ino s))), s') \<and> pipe_open ino s' \<and>
      get_fs_bytes (min (nat (sint cnt)) (length (pipe_items ino s))) dst s' = take (nat (sint cnt)) (pipe_items ino s) \<and>
      pipe_items ino s' = drop (nat (sint cnt)) (pipe_items ino s)"
proof (cases "pipe_items ino s = []")
  case True
  then show ?thesis using assms by (simp add: read_pipe_def pipe_open_def PIPE_EMPTY_items Let_def)
next
  case False
  define k where "k = min (nat (sint cnt)) (length (pipe_items ino s))"
  have ok: "pipe_ok ino s" using assms by (simp add: pipe_open_def)
  let ?g = "pipe_fifo.gets ino k s"
  have g: "pipe_ok ino (snd ?g)" "fst ?g = take k (pipe_items ino s)" "pipe_items ino (snd ?g) = drop k (pipe_items ino s)"
    using pipe_fifo.gets_items [OF ok, of k] by (simp_all add: k_def)
  let ?u = "put_fs_bytes (fst ?g) dst (snd ?g)"
  have u: "pipe_ok ino ?u" "pipe_items ino ?u = drop k (pipe_items ino s)" "i_count (inode ?u ino) = 2"
    using g(1,3) assms by (simp_all add: pipe_ok_def pipe_items_def phys_byte_def gets_count pipe_open_def)
  have l: "length (fst ?g) = k" unfolding g(2) by (simp add: k_def)
  have "get_fs_bytes k dst ?u = fst ?g"
    using get_put_fs_bytes [of "fst ?g" dst "snd ?g"] pipe_length [OF ok] l by (simp add: k_def)
  moreover have "read_pipe ino dst cnt s = Inr (of_nat k, wake_up (i_wait ino ?u) ?u)"
    using read_pipe_loop_gets [OF ok, of "nat (sint cnt)" dst] False ok
    by (simp add: read_pipe_def PIPE_EMPTY_items Let_def split_beta k_def)
  ultimately show ?thesis using False u g(2) unfolding k_def [symmetric]
    by (simp add: pipe_open_def) (simp add: k_def get_fs_bytes_def get_fs_byte_def min_def split: if_splits)
qed

lemma pipe_open_user [simp]: "pipe_open ino (s\<lparr>user := m\<rparr>) = pipe_open ino s" "pipe_items ino (s\<lparr>user := m\<rparr>) = pipe_items ino s"
  by (simp_all add: pipe_open_def pipe_ok_def pipe_items_def phys_byte_def)

lemma pipe_run_channel:
  "pipe_open ino s \<Longrightarrow>
     case channel 4095 (map chan_op_of ops) (pipe_items ino s) of
       None \<Rightarrow> pipe_run ino ops s = Inl (Blocks ''i_wait'')
     | Some (bs, q) \<Rightarrow> \<exists>s'. pipe_run ino ops s = Inr (bs, s') \<and> pipe_open ino s' \<and> pipe_items ino s' = q"
proof (induction ops arbitrary: s)
  case (Cons op ops)
  show ?case
  proof (cases op)
    case (Pipe_write m src cnt)
    let ?n = "nat (sint cnt)" and ?bs = "map (\<lambda>i. m (src + of_nat i)) [0..<nat (sint cnt)]"
    have u: "get_fs_bytes ?n src (s\<lparr>user := m\<rparr>) = ?bs" by (simp add: get_fs_bytes_def get_fs_byte_def)
    note w = write_pipe_channel [of ino "s\<lparr>user := m\<rparr>" ?n cnt src, simplified u]
    show ?thesis
    proof (cases "length (pipe_items ino s) + ?n \<le> 4095")
      case True
      with w Cons.prems obtain s' where "write_pipe ino src cnt (s\<lparr>user := m\<rparr>) = Inr (of_nat ?n, s')" "pipe_open ino s'"
        "pipe_items ino s' = pipe_items ino s @ ?bs" by auto
      with Cons.IH [of s'] True show ?thesis by (auto simp: Pipe_write split: option.splits)
    next
      case False
      with w Cons.prems show ?thesis by (simp add: Pipe_write)
    qed
  next
    case (Pipe_read dst cnt)
    let ?q = "pipe_items ino s" and ?n = "nat (sint cnt)"
    note r = read_pipe_channel [OF Cons.prems, of dst cnt]
    show ?thesis
    proof (cases "?q = []")
      case True
      with r show ?thesis by (simp add: Pipe_read)
    next
      case False
      define k where "k = min ?n (length ?q)"
      from r False obtain s' where s': "read_pipe ino dst cnt s = Inr (of_nat k, s')" "pipe_open ino s'"
        "get_fs_bytes k dst s' = take ?n ?q" "pipe_items ino s' = drop ?n ?q" unfolding k_def by auto
      have "k < 2 ^ 32" using pipe_length [of ino s] Cons.prems by (simp add: k_def pipe_open_def)
      then have "unat (of_nat k :: u32) = k" by (simp add: unsigned_of_nat take_bit_nat_eq_self)
      with s' Cons.IH [OF s'(2)] False show ?thesis by (auto simp: Pipe_read split: option.splits)
    qed
  qed
qed simp

text \<open>
  Property C25.  A pipe with both ends open behaves as a channel of 4095 bytes: over any sequence of writes and reads, whatever
  their buffers and counts, a call blocks exactly when the channel has no room for what is written or nothing to
  read, the readers get what the channel delivers, and what was in the pipe followed by what was written is what was
  read followed by what is in the pipe at the end.
\<close>

theorem pipe_refines_channel:
  assumes "pipe_open ino s"
  shows "case channel 4095 (map chan_op_of ops) (pipe_items ino s) of
       None \<Rightarrow> pipe_run ino ops s = Inl (Blocks ''i_wait'')
     | Some (bs, q) \<Rightarrow>
         (\<exists>s'. pipe_run ino ops s = Inr (bs, s') \<and> pipe_open ino s' \<and> pipe_items ino s' = q) \<and>
         pipe_items ino s @ sent (map chan_op_of ops) = bs @ q"
  using pipe_run_channel [OF assms, of ops] channel_in_order [of 4095 "map chan_op_of ops" "pipe_items ino s"]
  by (auto split: option.splits)

text \<open>A pipe in the sample state: its first inode is one with both ends open.\<close>

definition sample_pipe :: kernel_state where
  "sample_pipe = upd_inode 0 (\<lambda>m. m\<lparr>i_count := 2, i_pipe := 1, i_size := 0x100000\<rparr>) sample_kernel"

theorem pipe_refines_channel_witness:
  "pipe_open 0 sample_pipe \<and> (case channel 4095 (map chan_op_of [Pipe_write (\<lambda>a. ucast a) 7 3, Pipe_read 0 2]) [] of
       None \<Rightarrow> False
     | Some (bs, q) \<Rightarrow> bs = [7, 8] \<and> q = [9] \<and>
        (\<exists>s'. pipe_run 0 [Pipe_write (\<lambda>a. ucast a) 7 3, Pipe_read 0 2] sample_pipe = Inr ([7, 8], s') \<and> pipe_items 0 s' = [9]))"
proof -
  have ok: "pipe_open 0 sample_pipe" "pipe_items 0 sample_pipe = []"
    by (simp_all add: sample_pipe_def sample_kernel_def sample_inode_def zero_inode_def pipe_open_def pipe_ok_def
      pipe_items_def zone_long_def ring_def upd_inode_def NR_INODE_def)
  have "channel 4095 (map chan_op_of [Pipe_write (\<lambda>a. ucast a) 7 3, Pipe_read 0 2]) [] = Some ([7, 8], [9])"
    by (simp add: upt_rec)
  with pipe_refines_channel [OF ok(1), of "[Pipe_write (\<lambda>a. ucast a) 7 3, Pipe_read 0 2]"] ok show ?thesis
    by auto
qed

end
