(* ===== verification/Linux_Blocks.thy ===== *)
theory Linux_Blocks
  imports Linux_Disk
begin

unbundle bit_operations_syntax

section \<open>Blocks on the disk of linux-0.01 (\<open>kernel/hd.c\<close>)\<close>

text \<open>
  A block of a device is two sectors of a drive.  For the blocks of a partition, \<open>rw_hd\<close> computes the sector,
  head and cylinder of these two, and reading or writing the block transfers exactly them.
\<close>

definition valid_block :: "hd_struct list \<Rightarrow> u16 \<times> u16 \<Rightarrow> bool" where
  "valid_block hp p \<longleftrightarrow> (let m = unat (MINOR (ucast (fst p))) in
     MAJOR (ucast (fst p)) = 3 \<and> m < 10 \<and> unat (start_sect (hp ! m)) + unat (nr_sects (hp ! m)) \<le> 83300 \<and>
     2 * unat (snd p) + 2 \<le> unat (nr_sects (hp ! m)))"

definition block_pos :: "hd_struct list \<Rightarrow> u16 \<times> u16 \<Rightarrow> nat \<times> nat" where
  "block_pos hp p = (let m = unat (MINOR (ucast (fst p))) in (m div 5, unat (start_sect (hp ! m)) + 2 * unat (snd p)))"

definition disk_block :: "'a fs_state_scheme \<Rightarrow> u16 \<times> u16 \<Rightarrow> u8 list" where
  "disk_block s p = (case block_pos (hd_parts s) p of (d, n) \<Rightarrow> dsk_sectors s d n @ dsk_sectors s d (n + 1))"

definition blocks_apart :: "hd_struct list \<Rightarrow> (u16 \<times> u16) set \<Rightarrow> bool" where
  "blocks_apart hp B \<longleftrightarrow> (\<forall>p\<in>B. \<forall>q\<in>B. p \<noteq> q \<longrightarrow>
     fst (block_pos hp p) \<noteq> fst (block_pos hp q) \<or> snd (block_pos hp p) + 1 < snd (block_pos hp q) \<or>
     snd (block_pos hp q) + 1 < snd (block_pos hp p))"

definition addr_of :: "buffer_head \<Rightarrow> u16 \<times> u16" where "addr_of b = (b_dev b, b_blocknr b)"

definition hd_ready :: "'a fs_state_scheme \<Rightarrow> bool" where
  "hd_ready s \<longleftrightarrow> hd_idle s \<and> error_free s \<and> (\<forall>d k. length (dsk_sectors s d k) = 512)"

lemma sector_number_block:
  fixes b :: u32 assumes "unat b < 83300"
  shows "sector_number (b mod 17 + 1) (b div 17 mod 5) (b div 17 div 5) = unat b \<and> b div 17 mod 5 \<le> 15"
proof -
  have m: "w AND 0xFF = take_bit 8 w" "w AND 0xFFFF = take_bit 16 w" for w :: u32
    by (simp_all add: take_bit_eq_mask mask_eq_exp_minus_1)
  have u: "unat (b mod 17) = unat b mod 17" "unat (b div 17) = unat b div 17" "unat (b div 17 mod 5) = unat b div 17 mod 5"
    "unat (b div 17 div 5) = unat b div 17 div 5"
    by (simp_all add: unat_mod_distrib unat_div_distrib)
  have s: "unat (b mod 17 + 1) = unat b mod 17 + 1"
    by (subst unat_plus_simple [THEN iffD1]) (simp_all add: u no_olen_add_nat)
  have "unat ((b mod 17 + 1) AND 0xFF) = unat b mod 17 + 1"
    unfolding m unsigned_take_bit_eq s by (rule take_bit_nat_eq_self) (use mod_less_divisor [of 17 "unat b"] in simp)
  moreover have "unat (b div 17 div 5 AND 0xFFFF) = unat b div 17 div 5"
    unfolding m unsigned_take_bit_eq u by (rule take_bit_nat_eq_self) (use assms in simp)
  ultimately have "sector_number (b mod 17 + 1) (b div 17 mod 5) (b div 17 div 5) =
      (unat b div 17 div 5 * 5 + unat b div 17 mod 5) * 17 + (unat b mod 17 + 1) - 1"
    by (simp add: sector_number_def u)
  also have "\<dots> = unat b" by simp
  finally show ?thesis using u(3) by (simp add: word_le_nat_alt) 
qed

lemma rw_hd_valid:
  assumes "valid_block (hd_parts s) (addr_of (buf s bh))" "block_pos (hd_parts s) (addr_of (buf s bh)) = (d, n)"
  shows "\<exists>nr sec hed cy. rw_hd rw bh s = rw_abs_hd rw nr sec hed cy bh s \<and> nr \<le> 1 \<and> hed \<le> 15 \<and> unat nr = d \<and>
     sector_number sec hed cy = n"
proof -
  let ?m = "MINOR (ucast (b_dev (buf s bh)))" and ?b = "push_bit 1 (ucast (b_blocknr (buf s bh))) :: u32"
  let ?p = "hd_parts s ! unat ?m"
  have v: "unat ?m < 10" "unat (start_sect ?p) + unat (nr_sects ?p) \<le> 83300" "2 * unat (b_blocknr (buf s bh)) + 2 \<le> unat (nr_sects ?p)"
    and pos: "d = unat ?m div 5" "n = unat (start_sect ?p) + 2 * unat (b_blocknr (buf s bh))"
    using assms by (simp_all add: valid_block_def block_pos_def addr_of_def Let_def)
  have k: "unat (b_blocknr (buf s bh)) < 65536" using unsigned_less [of "b_blocknr (buf s bh)"] by simp
  have b: "unat ?b = 2 * unat (b_blocknr (buf s bh))"
    using k by (simp add: push_bit_eq_mult unat_word_ariths unsigned_ucast_eq take_bit_nat_eq_self)
  have b2: "unat (?b + 2) = unat ?b + 2" using b k by (simp add: unat_word_ariths)
  have bs: "unat (?b + start_sect ?p) = n" using b k pos v by (simp add: unat_word_ariths)
  have dv: "unat (?m div 5) = d" using pos by (simp add: unat_div_distrib)
  have i: "hd_info ! unat (?m div 5) = \<lparr>head = 5, sect = 17, cyl = 980\<rparr>"
    unfolding dv using pos v(1) by (simp add: hd_info_def)
  have g: "\<not> (?m \<ge> 5 * NR_HD \<or> ?b + 2 > nr_sects ?p)"
    using v b b2 by (simp add: word_le_nat_alt word_less_nat_alt NR_HD_def)
  have "n < 83300" using pos v by simp
  note sn = sector_number_block [of "?b + start_sect ?p", unfolded bs, OF this]
  have "rw_hd rw bh s = rw_abs_hd rw (?m div 5) ((?b + start_sect ?p) mod 17 + 1) ((?b + start_sect ?p) div 17 mod 5)
      ((?b + start_sect ?p) div 17 div 5) bh s"
    using g i by (simp add: rw_hd_def Let_def)
  then show ?thesis using sn dv pos v(1) by (intro exI conjI) (auto simp: word_le_nat_alt)
qed

lemma ll_read:
  assumes rd: "hd_ready s" and bh: "bh < length (buffers s)" "length (b_data (buf s bh)) = 1024"
    and v: "valid_block (hd_parts s) (addr_of (buf s bh))"
  shows "\<exists>s'. ll_rw_block READ bh s = Inr s' \<and> hd_ready s' \<and> fs_frame s s' \<and> dsk_sectors s' = dsk_sectors s \<and>
     buffers s' = (buffers s)[bh := (buf s bh)\<lparr>b_data := disk_block s (addr_of (buf s bh)), b_uptodate := 1, b_dirt := 0, b_lock := 0\<rparr>]"
proof -
  obtain d n where dn: "block_pos (hd_parts s) (addr_of (buf s bh)) = (d, n)" by fastforce
  from rw_hd_valid [OF v dn, of READ] obtain nr sec hed cy where r: "rw_hd READ bh s = rw_abs_hd READ nr sec hed cy bh s"
    "nr \<le> 1" "hed \<le> 15" "unat nr = d" "sector_number sec hed cy = n" by blast
  have i: "hd_idle s" and st: "error_free s" and len: "\<And>d k. length (dsk_sectors s d k) = 512"
    using rd by (simp_all add: hd_ready_def)
  from idle_start [OF i _ bh(1) r(2,3), of READ sec cy] obtain s1 where
    s1: "rw_abs_hd READ nr sec hed cy bh s = loop_res (hd_wait_on_buffer bh s1)"
    "serving Do_request (new_request READ nr sec hed cy bh) bh s1" "fs_frame s s1" "dsk_sectors s1 = dsk_sectors s"
    "error_free s1" "buffers s1 = (buffers s)[bh := (buf s bh)\<lparr>b_lock := 1\<rparr>]" using error_free_step [OF st] by auto
  from read_both [OF s1(2), of d n] s1 r bh len obtain s2 where s2: "hd_wait_on_buffer bh s1 = Some (Inr s2)" "served None s2"
    "fs_frame s1 s2" "dsk_sectors s2 = dsk_sectors s" "error_free s2"
    "buffers s2 = (buffers s)[bh := (buf s bh)\<lparr>b_data := dsk_sectors s d n @ dsk_sectors s d (n + 1), b_uptodate := 1, b_dirt := 0, b_lock := 0\<rparr>]"
    by auto
  have "MAJOR (ucast (b_dev (buf s bh))) = 3" using v by (simp add: valid_block_def addr_of_def Let_def)
  then have "ll_rw_block READ bh s = Inr s2" using r s1 s2 by (simp add: ll_rw_block_def)
  with s2 fs_frame_trans [OF s1(3) s2(3)] dn len show ?thesis by (auto simp: hd_ready_def hd_idle_def disk_block_def)
qed

lemma ll_write:
  assumes rd: "hd_ready s" and bh: "bh < length (buffers s)" "length (b_data (buf s bh)) = 1024"
    and v: "valid_block (hd_parts s) (addr_of (buf s bh))"
    and pos: "block_pos (hd_parts s) (addr_of (buf s bh)) = (d, n)"
  shows "\<exists>s'. ll_rw_block WRITE bh s = Inr s' \<and> hd_ready s' \<and> fs_frame s s' \<and> dsk_sectors s' = put_sectors d n (b_data (buf s bh)) s \<and>
     buffers s' = (buffers s)[bh := (buf s bh)\<lparr>b_uptodate := 1, b_dirt := 0, b_lock := 0\<rparr>]"
proof -
  from rw_hd_valid [OF v pos, of WRITE] obtain nr sec hed cy where r: "rw_hd WRITE bh s = rw_abs_hd WRITE nr sec hed cy bh s"
    "nr \<le> 1" "hed \<le> 15" "unat nr = d" "sector_number sec hed cy = n" by blast
  have i: "hd_idle s" and st: "error_free s" and len: "\<And>d k. length (dsk_sectors s d k) = 512"
    using rd by (simp_all add: hd_ready_def)
  from idle_start [OF i _ bh(1) r(2,3), of WRITE sec cy] obtain s1 where
    s1: "rw_abs_hd WRITE nr sec hed cy bh s = loop_res (hd_wait_on_buffer bh s1)"
    "serving Do_request (new_request WRITE nr sec hed cy bh) bh s1" "fs_frame s s1" "dsk_sectors s1 = dsk_sectors s"
    "error_free s1" "buffers s1 = (buffers s)[bh := (buf s bh)\<lparr>b_lock := 1\<rparr>]" using error_free_step [OF st] by auto
  from write_both [OF s1(2), of d n] s1 r bh obtain s2 where s2: "hd_wait_on_buffer bh s1 = Some (Inr s2)" "served None s2"
    "fs_frame s1 s2" "dsk_sectors s2 = put_sectors d n (b_data (buf s bh)) s" "error_free s2"
    "buffers s2 = (buffers s)[bh := (buf s bh)\<lparr>b_uptodate := 1, b_dirt := 0, b_lock := 0\<rparr>]"
    by (auto simp: put_sectors_def)
  have "MAJOR (ucast (b_dev (buf s bh))) = 3" using v by (simp add: valid_block_def addr_of_def Let_def)
  then have "ll_rw_block WRITE bh s = Inr s2" using r s1 s2 by (simp add: ll_rw_block_def)
  with s2 fs_frame_trans [OF s1(3) s2(3)] bh(2) len show ?thesis
    by (intro exI [of _ s2]) (auto simp: hd_ready_def hd_idle_def put_sectors_def)
qed

lemma disk_block_put:
  assumes "blocks_apart (hd_parts s) B" "p \<in> B" "q \<in> B" "block_pos (hd_parts s) p = (d, n)" 
    "dsk_sectors s' = put_sectors d n l s" "hd_parts s' = hd_parts s" 
  shows "disk_block s' q = (if q = p then l else disk_block s q)"
proof (cases "q = p")
  case True
  then show ?thesis using assms by (simp add: disk_block_def put_sectors_def)
next
  case False
  obtain d' n' where q: "block_pos (hd_parts s) q = (d', n')" by fastforce
  have "d \<noteq> d' \<or> n + 1 < n' \<or> n' + 1 < n" using assms(1-4) False q unfolding blocks_apart_def by fastforce
  then show ?thesis using assms q False by (auto simp: disk_block_def put_sectors_def)
qed

end
