(* ===== verification/Linux_Buffer_Lists.thy ===== *)
theory Linux_Buffer_Lists
  imports Linux_Blocks
begin

unbundle bit_operations_syntax

section \<open>The lists of the buffer cache of linux-0.01 (\<open>fs/buffer.c\<close>)\<close>

text \<open>
  The hash queues are doubly linked lists that partition the buffers with a device, the free list is a circular
  doubly linked list of all buffers.  \<open>hash_ok\<close> and \<open>free_ok\<close> say so for the buffers of a set; the four list
  operations take a buffer out of that set or add one, and the two searches give what the sets say.
\<close>

subsection \<open>Hash queues\<close>

fun hpath :: "(nat \<Rightarrow> nat option) \<Rightarrow> nat option \<Rightarrow> nat list \<Rightarrow> bool" where
  "hpath nx p [] \<longleftrightarrow> p = None"
| "hpath nx p (x # xs) \<longleftrightarrow> p = Some x \<and> hpath nx (nx x) xs"

fun hback :: "(nat \<Rightarrow> nat option) \<Rightarrow> nat option \<Rightarrow> nat list \<Rightarrow> bool" where
  "hback pv q [] \<longleftrightarrow> True"
| "hback pv q (x # xs) \<longleftrightarrow> pv x = q \<and> hback pv (Some x) xs"

definition first :: "nat list \<Rightarrow> nat option" where "first xs = (case xs of [] \<Rightarrow> None | x # _ \<Rightarrow> Some x)"
definition final :: "nat list \<Rightarrow> nat option" where "final xs = (if xs = [] then None else Some (last xs))"

lemma first_simps [simp]: "first [] = None" "first (x # xs) = Some x" by (simp_all add: first_def)
lemma final_simps [simp]: "final [] = None" "final (xs @ [x]) = Some x" by (simp_all add: final_def)

lemma hpath_first: "hpath nx p xs \<Longrightarrow> p = first xs"
  by (cases xs) simp_all

lemma hpath_cong: "hpath nx p xs \<Longrightarrow> (\<And>x. x \<in> set xs \<Longrightarrow> nx' x = nx x) \<Longrightarrow> hpath nx' p xs"
  by (induction xs arbitrary: p) simp_all

lemma hback_cong: "hback pv q xs \<Longrightarrow> (\<And>x. x \<in> set xs \<Longrightarrow> pv' x = pv x) \<Longrightarrow> hback pv' q xs"
  by (induction xs arbitrary: q) simp_all

lemma hpath_append: "hpath nx p (xs @ ys) \<longleftrightarrow> (if xs = [] then hpath nx p ys else p = first xs \<and> hpath nx (first xs) (xs @ ys))"
  by (cases xs) auto

lemma final_Cons: "final (a # as) = (if as = [] then Some a else final as)"
  by (simp add: final_def)

lemma final_in: "final as = Some x \<Longrightarrow> x \<in> set as"
  by (auto simp: final_def split: if_splits)

lemma hpath_removed:
  assumes "hpath nx p (as @ t # bs)" "distinct (as @ t # bs)"
    and "\<And>x. x \<in> set (as @ bs) \<Longrightarrow> nx' x = (if final as = Some x then nx t else nx x)"
  shows "hpath nx' (if as = [] then nx t else p) (as @ bs)"
  using assms
proof (induction as arbitrary: p)
  case Nil
  then show ?case by (auto intro: hpath_cong)
next
  case (Cons a as)
  have "hpath nx' (if as = [] then nx t else nx a) (as @ bs)"
  proof (rule Cons.IH)
    fix x assume x: "x \<in> set (as @ bs)"
    then have "x \<noteq> a" using Cons.prems(2) by auto
    then show "nx' x = (if final as = Some x then nx t else nx x)"
      using Cons.prems(3) [of x] x by (auto simp: final_Cons split: if_splits)
  qed (use Cons.prems in auto)
  moreover have "final as \<noteq> Some a" using Cons.prems(2) final_in [of as a] by auto
  ultimately show ?case using Cons.prems(1) Cons.prems(3) [of a] by (auto simp: final_Cons split: if_splits)
qed

lemma hpath_at: "hpath nx p (as @ t # bs) \<Longrightarrow> distinct (as @ t # bs) \<Longrightarrow> nx t = first bs \<and> (p = Some t \<longleftrightarrow> as = [])"
proof (induction as arbitrary: p)
  case Nil
  then show ?case by (auto dest: hpath_first)
qed auto

lemma hback_removed:
  assumes "hback pv q (as @ t # bs)" "distinct (as @ t # bs)"
    and "\<And>x. x \<in> set (as @ bs) \<Longrightarrow> pv' x = (if first bs = Some x then pv t else pv x)"
  shows "hback pv' q (as @ bs)"
  using assms
proof (induction as arbitrary: q)
  case Nil
  show ?case
  proof (cases bs)
    case (Cons b bs')
    have "hback pv (Some b) bs'" using Nil Cons by simp
    then have "hback pv' (Some b) bs'" by (rule hback_cong) (use Nil Cons in auto)
    then show ?thesis using Nil Cons by simp
  qed (use Nil in simp)
next
  case (Cons a as)
  have "hback pv' (Some a) (as @ bs)" by (rule Cons.IH) (use Cons.prems in auto)
  moreover have "pv' a = pv a" using Cons.prems(2) Cons.prems(3) [of a] by (cases bs) auto
  ultimately show ?case using Cons.prems(1) by simp
qed

lemma hback_at: "hback pv q (as @ t # bs) \<Longrightarrow> pv t = (if as = [] then q else final as)"
  by (induction as arbitrary: q) (auto simp: final_Cons)

lemma hpath_insert: "\<lbrakk>hpath nx p xs; nx' t = p; \<And>x. x \<in> set xs \<Longrightarrow> nx' x = nx x\<rbrakk> \<Longrightarrow> hpath nx' (Some t) (t # xs)"
  by (auto intro: hpath_cong)

lemma hback_insert:
  "\<lbrakk>hback pv None xs; distinct xs; pv' t = None; \<And>x. x \<in> set xs \<Longrightarrow> pv' x = (if first xs = Some x then Some t else pv x)\<rbrakk> \<Longrightarrow>
   hback pv' None (t # xs)"
  by (cases xs) (auto intro: hback_cong)

abbreviation nx_of :: "buffer_head list \<Rightarrow> nat \<Rightarrow> nat option" where "nx_of bs i \<equiv> b_next (bs ! i)"
abbreviation pv_of :: "buffer_head list \<Rightarrow> nat \<Rightarrow> nat option" where "pv_of bs i \<equiv> b_prev (bs ! i)"

text \<open>The buffers of \<open>U\<close> that have a device are on the queue of their hash value, the others on none.\<close>

definition queue_of :: "nat set \<Rightarrow> buffer_head list \<Rightarrow> nat \<Rightarrow> nat set" where
  "queue_of U bs k = {i \<in> U. b_dev (bs ! i) \<noteq> 0 \<and> hash_of (bs ! i) = k}"

definition hash_ok :: "nat set \<Rightarrow> 'a fs_state_scheme \<Rightarrow> bool" where
  "hash_ok U s \<longleftrightarrow> length (hash_table s) = NR_HASH \<and> U \<subseteq> {..<length (buffers s)} \<and>
     (\<forall>i\<in>U. b_dev (buf s i) = 0 \<longrightarrow> b_next (buf s i) = None \<and> b_prev (buf s i) = None) \<and>
     (\<forall>k<NR_HASH. \<exists>xs. hpath (nx_of (buffers s)) (hash_table s ! k) xs \<and> hback (pv_of (buffers s)) None xs \<and>
        distinct xs \<and> set xs = queue_of U (buffers s) k)"

lemma hash_of_less: "hash_of b < NR_HASH"
proof -
  have "unat (w mod 307) < 307" for w :: u32 using unat_mod_distrib [of w 307] by simp
  then show ?thesis by (simp add: hash_of_def hashfn_def NR_HASH_def)
qed

definition hview :: "buffer_head \<Rightarrow> u16 \<times> u16 \<times> nat option \<times> nat option" where
  "hview b = (b_dev b, b_blocknr b, b_next b, b_prev b)"

definition cview :: "buffer_head \<Rightarrow> u8 list \<times> u16 \<times> u16 \<times> u8 \<times> u8 \<times> u8 \<times> u8" where
  "cview b = (b_data b, b_dev b, b_blocknr b, b_uptodate b, b_dirt b, b_count b, b_lock b)"

definition fview :: "buffer_head \<Rightarrow> nat option \<times> nat option" where
  "fview b = (b_prev_free b, b_next_free b)"

lemmas views = hview_def cview_def fview_def

definition same_view :: "(buffer_head \<Rightarrow> 'b) \<Rightarrow> 'a fs_state_scheme \<Rightarrow> 'a fs_state_scheme \<Rightarrow> bool" where
  "same_view v s s' \<longleftrightarrow> length (buffers s') = length (buffers s) \<and> (\<forall>i<length (buffers s). v (buf s' i) = v (buf s i))"

definition tables_kept :: "'a fs_state_scheme \<Rightarrow> 'a fs_state_scheme \<Rightarrow> bool" where
  "tables_kept s s' \<longleftrightarrow> hd_parts s' = hd_parts s \<and> inode_table s' = inode_table s \<and> super_blocks s' = super_blocks s \<and>
     file_table s' = file_table s \<and> user s' = user s"

lemma tables_kept_refl [simp]: "tables_kept s s" by (simp add: tables_kept_def)

lemma tables_kept_trans: "tables_kept s t \<Longrightarrow> tables_kept t u \<Longrightarrow> tables_kept s u" by (simp add: tables_kept_def)

definition same_disk :: "'a fs_state_scheme \<Rightarrow> 'a fs_state_scheme \<Rightarrow> bool" where
  "same_disk s s' \<longleftrightarrow> tables_kept s s' \<and> dsk_sectors s' = dsk_sectors s \<and> hd_ready s' = hd_ready s"

lemma same_disk_refl [simp]: "same_disk s s" by (simp add: same_disk_def)

lemma same_disk_trans: "same_disk s t \<Longrightarrow> same_disk t u \<Longrightarrow> same_disk s u" by (simp add: same_disk_def tables_kept_def)

lemma same_diskD: "same_disk s s' \<Longrightarrow> hd_parts s' = hd_parts s" "same_disk s s' \<Longrightarrow> dsk_sectors s' = dsk_sectors s"
  "same_disk s s' \<Longrightarrow> hd_ready s' = hd_ready s" "same_disk s s' \<Longrightarrow> tables_kept s s'"
  by (simp_all add: same_disk_def tables_kept_def)

lemma same_viewD: "same_view v s s' \<Longrightarrow> i < length (buffers s) \<Longrightarrow> v (buf s' i) = v (buf s i)"
  "same_view v s s' \<Longrightarrow> length (buffers s') = length (buffers s)"
  by (simp_all add: same_view_def)

lemma same_view_refl [simp]: "same_view v s s" by (simp add: same_view_def)

lemma same_view_trans [trans]: "same_view v s t \<Longrightarrow> same_view v t u \<Longrightarrow> same_view v s u"
  by (simp add: same_view_def)

lemma hash_ok_cong:
  assumes ok: "hash_ok U s" and v: "\<forall>i\<in>U. hview (buf s' i) = hview (buf s i)" and l: "length (buffers s') = length (buffers s)"
    and h: "hash_table s' = hash_table s"
  shows "hash_ok U s'"
proof -
  have eq: "b_dev (buf s' i) = b_dev (buf s i)" "hash_of (buf s' i) = hash_of (buf s i)" "b_next (buf s' i) = b_next (buf s i)"
    "b_prev (buf s' i) = b_prev (buf s i)" if "i \<in> U" for i
    using v that by (auto simp: hview_def hash_of_def)
  have q: "queue_of U (buffers s') k = queue_of U (buffers s) k" for k using eq by (auto simp: queue_of_def)
  have "hpath (nx_of (buffers s')) p xs" if "hpath (nx_of (buffers s)) p xs" "set xs = queue_of U (buffers s) k" for p xs k
    using that(1) by (rule hpath_cong) (use that eq in \<open>auto simp: queue_of_def\<close>)
  moreover have "hback (pv_of (buffers s')) p xs" if "hback (pv_of (buffers s)) p xs" "set xs = queue_of U (buffers s) k" for p xs k
    using that(1) by (rule hback_cong) (use that eq in \<open>auto simp: queue_of_def\<close>)
  ultimately show ?thesis using ok eq q l unfolding hash_ok_def h by (metis (full_types))
qed

lemma hash_ok_view: "hash_ok U s \<Longrightarrow> same_view hview s s' \<Longrightarrow> hash_table s' = hash_table s \<Longrightarrow> hash_ok U s'"
  by (rule hash_ok_cong) (auto simp: hash_ok_def same_view_def subset_iff)

lemma upd_buf_simps [simp]:
  "buffers (upd_buf i f s) = (buffers s)[i := f (buf s i)]" "hash_table (upd_buf i f s) = hash_table s"
  "free_list (upd_buf i f s) = free_list s" "hd_parts (upd_buf i f s) = hd_parts s" "dsk_sectors (upd_buf i f s) = dsk_sectors s"
  "hd_ready (upd_buf i f s) = hd_ready s"
  "inode_table (upd_buf i f s) = inode_table s" "super_blocks (upd_buf i f s) = super_blocks s" "file_table (upd_buf i f s) = file_table s" "user (upd_buf i f s) = user s"
  by (simp_all add: upd_buf_def hd_ready_def error_free_def hd_idle_def served_def)

lemma set_hash_simps [simp]:
  "buffers (set_hash k p s) = buffers s" "hash_table (set_hash k p s) = (hash_table s)[k := p]" "free_list (set_hash k p s) = free_list s"
  "hd_parts (set_hash k p s) = hd_parts s" "dsk_sectors (set_hash k p s) = dsk_sectors s" "hd_ready (set_hash k p s) = hd_ready s"
  "inode_table (set_hash k p s) = inode_table s" "super_blocks (set_hash k p s) = super_blocks s" "file_table (set_hash k p s) = file_table s" "user (set_hash k p s) = user s"
  by (simp_all add: set_hash_def hd_ready_def error_free_def hd_idle_def served_def)

lemma remove_from_hash_effect:
  fixes s :: "'a fs_state_scheme" and t :: nat
  defines "s' \<equiv> remove_from_hash t s"
  assumes "\<forall>n. b_next (buf s t) = Some n \<longrightarrow> n < length (buffers s) \<and> n \<noteq> t"
    and "\<forall>l. b_prev (buf s t) = Some l \<longrightarrow> l < length (buffers s) \<and> l \<noteq> t"
  shows "b_next (buf s' i) = (if b_prev (buf s t) = Some i then b_next (buf s t) else b_next (buf s i))"
    and "b_prev (buf s' i) = (if b_next (buf s t) = Some i then b_prev (buf s t) else b_prev (buf s i))"
    and "cview (buf s' i) = cview (buf s i)" and "fview (buf s' i) = fview (buf s i)"
    and "hash_table s' = (if hash_table s ! hash_of (buf s t) = Some t
      then (hash_table s)[hash_of (buf s t) := b_next (buf s t)] else hash_table s)"
    and "length (buffers s') = length (buffers s)"
    and "free_list s' = free_list s" and "tables_kept s s'" and "dsk_sectors s' = dsk_sectors s" and "hd_ready s' = hd_ready s"
proof -
  define nx pv where d: "nx = b_next (buf s t)" "pv = b_prev (buf s t)"
  define s1 where "s1 = upd_buf_ptr nx (\<lambda>b. b\<lparr>b_prev := pv\<rparr>) s"
  define s2 where "s2 = upd_buf_ptr pv (\<lambda>b. b\<lparr>b_next := nx\<rparr>) s1"
  have r: "nx = Some n \<Longrightarrow> n < length (buffers s) \<and> n \<noteq> t" "pv = Some n \<Longrightarrow> n < length (buffers s) \<and> n \<noteq> t" for n
    using assms(2,3) by (auto simp: d)
  have s1: "length (buffers s1) = length (buffers s)" "buf s1 t = buf s t"
    "buf s1 i = (if nx = Some i then (buf s i)\<lparr>b_prev := pv\<rparr> else buf s i)" for i
    using r by (auto simp: s1_def upd_buf_ptr_def nth_list_update split: option.splits)
  have s2: "length (buffers s2) = length (buffers s)" "buf s2 t = buf s t"
    "buf s2 i = (if pv = Some i then (buf s1 i)\<lparr>b_next := nx\<rparr> else buf s1 i)" for i
    using r s1 by (auto simp: s2_def upd_buf_ptr_def nth_list_update split: option.splits)
  have o: "hash_table s2 = hash_table s" "free_list s2 = free_list s" "tables_kept s s2" "dsk_sectors s2 = dsk_sectors s"
    "hd_ready s2 = hd_ready s"
    by (simp_all add: s2_def s1_def upd_buf_ptr_def tables_kept_def split: option.splits)
  have s': "s' = (if hash_table s ! hash_of (buf s t) = Some t then set_hash (hash_of (buf s t)) nx s2 else s2)"
    using s1(2) s2(2) by (simp add: s'_def remove_from_hash_def s2_def s1_def d o [unfolded s2_def s1_def d] Let_def)
  have b: "buffers s' = buffers s2" by (simp add: s')
  show "b_next (buf s' i) = (if b_prev (buf s t) = Some i then b_next (buf s t) else b_next (buf s i))"
    "b_prev (buf s' i) = (if b_next (buf s t) = Some i then b_prev (buf s t) else b_prev (buf s i))"
    "cview (buf s' i) = cview (buf s i)" "fview (buf s' i) = fview (buf s i)" "length (buffers s') = length (buffers s)"
    by (simp_all add: b s2 s1 d [symmetric] views)
  show "hash_table s' = (if hash_table s ! hash_of (buf s t) = Some t
      then (hash_table s)[hash_of (buf s t) := b_next (buf s t)] else hash_table s)"
    "free_list s' = free_list s" "tables_kept s s'" "dsk_sectors s' = dsk_sectors s" "hd_ready s' = hd_ready s"
    using o(3) by (simp_all add: s' o d tables_kept_def)
qed

lemma hash_removed:
  assumes ok: "hash_ok U s" and t: "t \<in> U"
  shows "hash_ok (U - {t}) (remove_from_hash t s) \<and> same_view cview s (remove_from_hash t s) \<and>
    same_view fview s (remove_from_hash t s) \<and> free_list (remove_from_hash t s) = free_list s \<and> same_disk s (remove_from_hash t s)"
proof (cases "b_dev (buf s t) = 0")
  case True
  have "remove_from_hash t s = s"
  proof -
    have l: "b_next (buf s t) = None" "b_prev (buf s t) = None" using ok t True by (auto simp: hash_ok_def)
    from ok hash_of_less [of "buf s t"] obtain xs where "hpath (nx_of (buffers s)) (hash_table s ! hash_of (buf s t)) xs"
      "set xs = queue_of U (buffers s) (hash_of (buf s t))" unfolding hash_ok_def by blast
    then have "hash_table s ! hash_of (buf s t) \<noteq> Some t" using True by (cases xs) (auto simp: queue_of_def)
    then show ?thesis using l by (simp add: remove_from_hash_def upd_buf_ptr_def)
  qed
  moreover have "queue_of (U - {t}) (buffers s) k = queue_of U (buffers s) k" for k using True by (auto simp: queue_of_def)
  ultimately show ?thesis using ok by (auto simp: hash_ok_def)
next
  case False
  let ?k = "hash_of (buf s t)" and ?bs = "buffers s"
  have U: "U \<subseteq> {..<length ?bs}" using ok by (simp add: hash_ok_def)
  from ok hash_of_less [of "buf s t"] obtain xs where xs: "hpath (nx_of ?bs) (hash_table s ! ?k) xs" "hback (pv_of ?bs) None xs"
    "distinct xs" "set xs = queue_of U ?bs ?k" unfolding hash_ok_def by blast
  have "t \<in> set xs" using xs(4) t False by (simp add: queue_of_def)
  then obtain as bs where e: "xs = as @ t # bs" by (meson split_list)
  have nt: "b_next (buf s t) = first bs" "hash_table s ! ?k = Some t \<longleftrightarrow> as = []" "b_prev (buf s t) = final as"
    using hpath_at [OF xs(1) [unfolded e] xs(3) [unfolded e]] hback_at [OF xs(2) [unfolded e]] by auto
  have in_U: "set as \<union> set bs \<subseteq> U" using xs(4) e by (auto simp: queue_of_def)
  have t_as: "t \<notin> set as" "t \<notin> set bs" "set as \<inter> set bs = {}" using xs(3) e by auto
  have f_bs: "first bs = Some n \<Longrightarrow> n \<in> set bs" for n by (cases bs) auto
  define s' where "s' = remove_from_hash t s"
  have xs_U: "\<forall>x\<in>set as \<union> set bs. x < length ?bs \<and> x \<noteq> t" using in_U U t_as by blast
  have r: "\<forall>n. b_next (buf s t) = Some n \<longrightarrow> n < length ?bs \<and> n \<noteq> t" "\<forall>l. b_prev (buf s t) = Some l \<longrightarrow> l < length ?bs \<and> l \<noteq> t"
    using xs_U f_bs final_in [of as] by (auto simp: nt)
  note eff = remove_from_hash_effect [OF r, folded s'_def]
  have lab: "b_dev (buf s' i) = b_dev (buf s i)" "hash_of (buf s' i) = hash_of (buf s i)" for i
    using eff(3) [of i] by (auto simp: cview_def hash_of_def)
  have queue: "queue_of (U - {t}) (buffers s') k = queue_of U ?bs k - {t}" for k
    using lab by (auto simp: queue_of_def)
  have "\<exists>xs. hpath (nx_of (buffers s')) (hash_table s' ! k) xs \<and> hback (pv_of (buffers s')) None xs \<and>
        distinct xs \<and> set xs = queue_of (U - {t}) (buffers s') k" if k: "k < NR_HASH" for k
  proof (cases "k = ?k")
    case True
    have "hpath (nx_of (buffers s')) (if as = [] then b_next (buf s t) else hash_table s ! ?k) (as @ bs)"
      by (rule hpath_removed [OF xs(1) [unfolded e] xs(3) [unfolded e]]) (simp add: eff(1) nt)
    moreover have "hback (pv_of (buffers s')) None (as @ bs)"
      by (rule hback_removed [OF xs(2) [unfolded e] xs(3) [unfolded e]]) (simp add: eff(2) nt)
    moreover have "hash_table s' ! k = (if as = [] then b_next (buf s t) else hash_table s ! ?k)"
      using eff(5) nt True k ok by (simp add: hash_ok_def)
    moreover have "set (as @ bs) = queue_of (U - {t}) (buffers s') k"
      using xs(4) e t_as True unfolding queue by auto
    ultimately show ?thesis using xs(3) e by (intro exI [of _ "as @ bs"]) auto
  next
    case False
    from ok k obtain ys where ys: "hpath (nx_of ?bs) (hash_table s ! k) ys" "hback (pv_of ?bs) None ys"
      "distinct ys" "set ys = queue_of U ?bs k" unfolding hash_ok_def by blast
    have dj: "set ys \<inter> set xs = {}" using ys(4) xs(4) False by (auto simp: queue_of_def)
    have "hpath (nx_of (buffers s')) (hash_table s ! k) ys"
      using ys(1) by (rule hpath_cong) (use dj e final_in [of as] in \<open>auto simp: eff(1) nt\<close>)
    moreover have "hback (pv_of (buffers s')) None ys"
      using ys(2) by (rule hback_cong) (use dj e f_bs in \<open>auto simp: eff(2) nt\<close>)
    moreover have "hash_table s' ! k = hash_table s ! k" using eff(5) False by simp
    moreover have "set ys = queue_of (U - {t}) (buffers s') k" using ys(4) dj \<open>t \<in> set xs\<close> unfolding queue by auto
    ultimately show ?thesis using ys(3) by auto
  qed
  moreover have "b_next (buf s' i) = None \<and> b_prev (buf s' i) = None" if i: "i \<in> U - {t}" "b_dev (buf s' i) = 0" for i
  proof -
    have "i \<notin> set xs" using xs(4) i lab by (auto simp: queue_of_def)
    then have "final as \<noteq> Some i" "first bs \<noteq> Some i" using e final_in [of as i] f_bs [of i] by auto
    then show ?thesis using ok i lab eff(1,2) nt by (auto simp: hash_ok_def)
  qed
  ultimately have "hash_ok (U - {t}) s'" using ok U eff(5,6) unfolding hash_ok_def by auto
  then show ?thesis using eff(3,4,6-10) by (simp add: same_view_def same_disk_def flip: s'_def)
qed

lemma wr_fs [simp]:
  "buffers (wr a v s) = buffers s" "hash_table (wr a v s) = hash_table s" "free_list (wr a v s) = free_list s"
  "hd_parts (wr a v s) = hd_parts s" "dsk_sectors (wr a v s) = dsk_sectors s" "hd_ready (wr a v s) = hd_ready s"
  "inode_table (wr a v s) = inode_table s" "super_blocks (wr a v s) = super_blocks s" "file_table (wr a v s) = file_table s" "user (wr a v s) = user s" for s :: "'a fs_state_scheme"
  by (simp_all add: wr_def hd_ready_def error_free_def hd_idle_def served_def)

lemma insert_into_hash_effect:
  fixes s :: "'a fs_state_scheme" and t :: nat
  defines "s' \<equiv> insert_into_hash t s" and "p \<equiv> (if b_dev (buf s t) = 0 then None else hash_table s ! hash_of (buf s t))"
  assumes "t < length (buffers s)" and "\<forall>n. p = Some n \<longrightarrow> n < length (buffers s) \<and> n \<noteq> t"
  shows "b_next (buf s' i) = (if i = t then p else b_next (buf s i))"
    and "b_prev (buf s' i) = (if i = t then None else if p = Some i then Some t else b_prev (buf s i))"
    and "cview (buf s' i) = cview (buf s i)" and "fview (buf s' i) = fview (buf s i)"
    and "hash_table s' = (if b_dev (buf s t) = 0 then hash_table s else (hash_table s)[hash_of (buf s t) := Some t])"
    and "length (buffers s') = length (buffers s)"
    and "free_list s' = free_list s" and "tables_kept s s'" and "dsk_sectors s' = dsk_sectors s" and "hd_ready s' = hd_ready s"
proof -
  define s1 where "s1 = upd_buf t (\<lambda>b. b\<lparr>b_prev := None, b_next := p\<rparr>) s"
  define s2 where "s2 = (if b_dev (buf s t) = 0 then s1 else set_hash (hash_of (buf s t)) (Some t) s1)"
  have t: "t < length (buffers s)" by fact
  have h: "hash_of (b\<lparr>b_prev := x, b_next := y\<rparr>) = hash_of b" for b x y by (simp add: hash_of_def)
  have s': "s' = (case p of None \<Rightarrow> (if b_dev (buf s t) = 0 then s2 else wr 16 (buf_addr t s2) s2)
      | Some n \<Rightarrow> upd_buf n (\<lambda>b. b\<lparr>b_prev := Some t\<rparr>) s2)"
    using t by (simp add: s'_def insert_into_hash_def s2_def s1_def p_def Let_def upd_buf_def h set_hash_def split: option.splits)
  have b2: "buffers s2 = (buffers s)[t := (buf s t)\<lparr>b_prev := None, b_next := p\<rparr>]" by (simp add: s2_def s1_def)
  show "b_next (buf s' i) = (if i = t then p else b_next (buf s i))"
    "b_prev (buf s' i) = (if i = t then None else if p = Some i then Some t else b_prev (buf s i))"
    "cview (buf s' i) = cview (buf s i)" "fview (buf s' i) = fview (buf s i)" "length (buffers s') = length (buffers s)"
    using t assms(4) by (auto simp: s' b2 nth_list_update views split: option.splits)
  show "hash_table s' = (if b_dev (buf s t) = 0 then hash_table s else (hash_table s)[hash_of (buf s t) := Some t])"
    "free_list s' = free_list s" "tables_kept s s'" "dsk_sectors s' = dsk_sectors s" "hd_ready s' = hd_ready s"
    by (simp_all add: s' s2_def s1_def tables_kept_def split: option.splits)
qed

lemma hash_inserted:
  assumes ok: "hash_ok U s" and t: "t \<notin> U" "t < length (buffers s)"
  shows "hash_ok (insert t U) (insert_into_hash t s) \<and> same_view cview s (insert_into_hash t s) \<and>
    same_view fview s (insert_into_hash t s) \<and> free_list (insert_into_hash t s) = free_list s \<and> same_disk s (insert_into_hash t s)"
proof -
  let ?k = "hash_of (buf s t)" and ?bs = "buffers s"
  define s' where "s' = insert_into_hash t s"
  define p where "p = (if b_dev (buf s t) = 0 then None else hash_table s ! ?k)"
  have U: "U \<subseteq> {..<length ?bs}" using ok by (simp add: hash_ok_def)
  have head: "n \<in> queue_of U ?bs k" if "hash_table s ! k = Some n" "k < NR_HASH" for n k
  proof -
    from ok that(2) obtain xs where "hpath (nx_of ?bs) (hash_table s ! k) xs" "set xs = queue_of U ?bs k" unfolding hash_ok_def by blast
    with that(1) show ?thesis by (cases xs) auto
  qed
  have pn: "\<forall>n. p = Some n \<longrightarrow> n < length ?bs \<and> n \<noteq> t"
    using head [OF _ hash_of_less] U t(1) by (auto simp: p_def queue_of_def split: if_splits)
  note eff = insert_into_hash_effect [OF t(2), folded p_def, OF pn, folded s'_def]
  have lab: "b_dev (buf s' i) = b_dev (buf s i)" "hash_of (buf s' i) = hash_of (buf s i)" for i
    using eff(3) [of i] by (auto simp: cview_def hash_of_def)
  have queue: "queue_of (insert t U) (buffers s') k =
      (if b_dev (buf s t) \<noteq> 0 \<and> k = ?k then insert t (queue_of U ?bs k) else queue_of U ?bs k)" for k
    using lab by (auto simp: queue_of_def)
  have "\<exists>xs. hpath (nx_of (buffers s')) (hash_table s' ! k) xs \<and> hback (pv_of (buffers s')) None xs \<and>
        distinct xs \<and> set xs = queue_of (insert t U) (buffers s') k" if k: "k < NR_HASH" for k
  proof -
    from ok k obtain xs where xs: "hpath (nx_of ?bs) (hash_table s ! k) xs" "hback (pv_of ?bs) None xs"
      "distinct xs" "set xs = queue_of U ?bs k" unfolding hash_ok_def by blast
    have tx: "t \<notin> set xs" using xs(4) t(1) by (auto simp: queue_of_def)
    show ?thesis
    proof (cases "b_dev (buf s t) \<noteq> 0 \<and> k = ?k")
      case True
      have p: "p = first xs" using hpath_first [OF xs(1)] True by (simp add: p_def)
      have "hpath (nx_of (buffers s')) (Some t) (t # xs)"
        by (rule hpath_insert [OF xs(1)]) (use True tx in \<open>auto simp: eff(1) p_def\<close>)
      moreover have "hback (pv_of (buffers s')) None (t # xs)"
        by (rule hback_insert [OF xs(2,3)]) (use tx in \<open>auto simp: eff(2) p\<close>)
      moreover have "hash_table s' ! k = Some t" using eff(5) True k ok by (simp add: hash_ok_def)
      ultimately show ?thesis using xs tx True by (intro exI [of _ "t # xs"]) (auto simp: queue)
    next
      case False
      have "p \<noteq> Some i" if "i \<in> set xs" for i
        using head [OF _ hash_of_less, of "buf s t" i] that xs(4) False by (auto simp: p_def queue_of_def)
      then have "hback (pv_of (buffers s')) None xs"
        by (intro hback_cong [OF xs(2)]) (use tx in \<open>auto simp: eff(2)\<close>)
      moreover have "hpath (nx_of (buffers s')) (hash_table s ! k) xs"
        by (rule hpath_cong [OF xs(1)]) (use tx in \<open>auto simp: eff(1)\<close>)
      moreover have "hash_table s' ! k = hash_table s ! k" using eff(5) False by auto
      ultimately show ?thesis using xs False by (auto simp: queue)
    qed
  qed
  moreover have "b_next (buf s' i) = None \<and> b_prev (buf s' i) = None" if i: "i \<in> insert t U" "b_dev (buf s' i) = 0" for i
  proof -
    have "p \<noteq> Some i" using head [OF _ hash_of_less, of "buf s t" i] i lab by (auto simp: p_def queue_of_def)
    then show ?thesis using ok i lab eff(1,2) by (auto simp: hash_ok_def p_def)
  qed
  ultimately have "hash_ok (insert t U) s'" using ok U t(2) eff(5,6) unfolding hash_ok_def by auto
  then show ?thesis using eff(3,4,6-10) by (simp add: same_view_def same_disk_def flip: s'_def)
qed

lemma find_from_path:
  "hpath (nx_of (buffers s)) p xs \<Longrightarrow> length xs \<le> n \<Longrightarrow>
   find_from n p dev block s = Inr (find (\<lambda>i. ucast (b_dev (buf s i)) = dev \<and> ucast (b_blocknr (buf s i)) = block) xs)"
proof (induction xs arbitrary: p n)
  case (Cons x xs)
  then show ?case by (cases n) auto
qed (auto split: option.splits)

lemma ucast_16_32 [simp]: "(ucast (a :: u16) :: u32) = ucast b \<longleftrightarrow> a = b"
proof -
  have "(ucast (ucast x :: u32) :: u16) = x" for x :: u16 by (rule bit_word_eqI) (simp add: bit_simps)
  then show ?thesis by metis
qed

text \<open>A block is found exactly when a buffer holds it.\<close>

lemma find_buffer_spec:
  assumes ok: "hash_ok U s" and d: "d \<noteq> 0"
  shows "\<exists>r. find_buffer (ucast d) (ucast b) s = Inr r \<and>
    (case r of None \<Rightarrow> \<forall>i\<in>U. addr_of (buf s i) \<noteq> (d, b) | Some i \<Rightarrow> i \<in> U \<and> addr_of (buf s i) = (d, b))"
proof -
  let ?k = "hashfn (ucast d) (ucast b)"
  have hk: "hash_of x = ?k" if "addr_of x = (d, b)" for x using that by (simp add: addr_of_def hash_of_def)
  have "?k < NR_HASH"
  proof -
    have "hash_of (undefined \<lparr>b_dev := d, b_blocknr := b\<rparr>) = ?k" by (simp add: hash_of_def)
    with hash_of_less [of "undefined \<lparr>b_dev := d, b_blocknr := b\<rparr>"] show ?thesis by simp
  qed
  with ok obtain xs where xs: "hpath (nx_of (buffers s)) (hash_table s ! ?k) xs" "distinct xs" "set xs = queue_of U (buffers s) ?k"
    unfolding hash_ok_def by blast
  have "U \<subseteq> {..<length (buffers s)}" using ok by (simp add: hash_ok_def)
  then have "set xs \<subseteq> {..<length (buffers s)}" using xs(3) by (auto simp: queue_of_def)
  then have "length xs \<le> length (buffers s)" using card_mono [of "{..<length (buffers s)}" "set xs"] distinct_card [OF xs(2)] by simp
  then have f: "find_buffer (ucast d) (ucast b) s =
      Inr (find (\<lambda>i. ucast (b_dev (buf s i)) = (ucast d :: u32) \<and> ucast (b_blocknr (buf s i)) = (ucast b :: u32)) xs)"
    unfolding find_buffer_def by (rule find_from_path [OF xs(1)])
  let ?m = "\<lambda>i. b_dev (buf s i) = d \<and> b_blocknr (buf s i) = b"
  show ?thesis
  proof (cases "find ?m xs")
    case None
    then have "\<forall>i\<in>set xs. \<not> ?m i" by (simp add: find_None_iff)
    then have "\<forall>i\<in>U. addr_of (buf s i) \<noteq> (d, b)" using hk d xs(3) by (auto simp: queue_of_def addr_of_def)
    then show ?thesis using f None by simp
  next
    case (Some i)
    then have "?m i" "i \<in> set xs" by (auto simp: find_Some_iff)
    then show ?thesis using f Some xs(3) by (simp add: queue_of_def addr_of_def)
  qed
qed

subsection \<open>The free list\<close>

definition linked :: "'a fs_state_scheme \<Rightarrow> nat \<Rightarrow> nat \<Rightarrow> bool" where
  "linked s x y \<longleftrightarrow> b_next_free (buf s x) = Some y \<and> b_prev_free (buf s y) = Some x"

definition cyc :: "'a fs_state_scheme \<Rightarrow> nat list \<Rightarrow> bool" where
  "cyc s xs \<longleftrightarrow> xs \<noteq> [] \<and> successively (linked s) (xs @ [List.hd xs])"

definition free_ok :: "nat set \<Rightarrow> 'a fs_state_scheme \<Rightarrow> bool" where
  "free_ok U s \<longleftrightarrow> (\<exists>xs. cyc s xs \<and> distinct xs \<and> set xs = U) \<and> (\<exists>h\<in>U. free_list s = Some h)"

lemma cyc_rotate: "cyc s (as @ t # bs) \<Longrightarrow> cyc s (t # bs @ as)"
  by (cases as) (auto simp: cyc_def successively_append_iff successively_Cons hd_append split: if_splits)

lemma free_okD:
  assumes "free_ok U s" "t \<in> U" shows "\<exists>zs. cyc s (t # zs) \<and> distinct (t # zs) \<and> set (t # zs) = U"
proof -
  from assms obtain xs where xs: "cyc s xs" "distinct xs" "set xs = U" unfolding free_ok_def by blast
  with assms(2) obtain as bs where e: "xs = as @ t # bs" by (meson split_list)
  have "cyc s (t # bs @ as)" using cyc_rotate xs(1) unfolding e by blast
  moreover have "distinct (t # bs @ as)" "set (t # bs @ as) = U" using xs e by auto
  ultimately show ?thesis by blast
qed

lemma linked_cong: "\<lbrakk>fview (buf s' x) = fview (buf s x); fview (buf s' y) = fview (buf s y)\<rbrakk> \<Longrightarrow> linked s' x y = linked s x y"
  by (simp add: linked_def fview_def)

lemma free_ok_cong:
  assumes ok: "free_ok U s" and v: "\<forall>i\<in>U. fview (buf s' i) = fview (buf s i)" and f: "free_list s' = free_list s"
  shows "free_ok U s'"
proof -
  from ok obtain xs where xs: "cyc s xs" "distinct xs" "set xs = U" unfolding free_ok_def by blast
  have "linked s' x y = linked s x y" if "x \<in> set (xs @ [List.hd xs])" "y \<in> set (xs @ [List.hd xs])" for x y
    using that xs(1,3) v by (intro linked_cong) (auto simp: cyc_def)
  then have "successively (linked s') (xs @ [List.hd xs])"
    using xs(1) unfolding cyc_def by (auto intro: successively_mono)
  then show ?thesis using xs ok f unfolding free_ok_def cyc_def by auto
qed

lemma free_ok_view:
  "free_ok U s \<Longrightarrow> U \<subseteq> {..<length (buffers s)} \<Longrightarrow> same_view fview s s' \<Longrightarrow> free_list s' = free_list s \<Longrightarrow> free_ok U s'"
  by (rule free_ok_cong) (auto simp: same_view_def subset_iff)

lemma cyc_ends:
  assumes "cyc s (t # zs)" "zs \<noteq> []"
  shows "linked s t (List.hd zs)" "linked s (last zs) t" "successively (linked s) zs"
  using assms by (auto simp: cyc_def successively_append_iff successively_Cons)

lemma successively_linked_cong:
  assumes "successively (linked s) zs" "distinct zs"
    and "\<And>x. x \<in> set zs \<Longrightarrow> x \<noteq> last zs \<Longrightarrow> b_next_free (buf s' x) = b_next_free (buf s x)"
    and "\<And>x. x \<in> set zs \<Longrightarrow> x \<noteq> List.hd zs \<Longrightarrow> b_prev_free (buf s' x) = b_prev_free (buf s x)"
  shows "successively (linked s') zs"
proof -
  have "linked s' (zs ! i) (zs ! Suc i)" if i: "Suc i < length zs" for i
  proof -
    have "linked s (zs ! i) (zs ! Suc i)" using assms(1) i by (simp add: successively_conv_nth)
    moreover have "zs \<noteq> []" using i by auto
    then have "zs ! i \<noteq> last zs" "zs ! Suc i \<noteq> List.hd zs"
      using assms(2) i by (auto simp: last_conv_nth hd_conv_nth nth_eq_iff_index_eq)
    ultimately show ?thesis using assms(3,4) i by (auto simp: linked_def)
  qed
  then show ?thesis by (simp add: successively_conv_nth)
qed

lemma free_list_simps [simp]: "hd_ready (s\<lparr>free_list := p\<rparr>) = hd_ready s"
  by (simp add: hd_ready_def error_free_def hd_idle_def served_def)

lemma free_removed:
  assumes ok: "free_ok U s" and U: "U \<subseteq> {..<length (buffers s)}" and t: "t \<in> U" "U \<noteq> {t}"
  shows "\<exists>s'. remove_from_free t s = Inr s' \<and> free_ok (U - {t}) s' \<and> same_view hview s s' \<and> same_view cview s s' \<and>
    hash_table s' = hash_table s \<and> same_disk s s'"
proof -
  from free_okD [OF ok t(1)] obtain zs where zs: "cyc s (t # zs)" "distinct (t # zs)" "set (t # zs) = U" by blast
  have ne: "zs \<noteq> []" using zs(3) t(2) by auto
  let ?n = "List.hd zs" and ?p = "last zs"
  note c = cyc_ends [OF zs(1) ne]
  have r: "?n < length (buffers s)" "?p < length (buffers s)" "?n \<noteq> t" "?p \<noteq> t" using zs U ne by auto
  have l: "b_next_free (buf s t) = Some ?n" "b_prev_free (buf s t) = Some ?p" using c by (simp_all add: linked_def)
  define s1 where "s1 = upd_buf ?n (\<lambda>b. b\<lparr>b_prev_free := Some ?p\<rparr>) (upd_buf ?p (\<lambda>b. b\<lparr>b_next_free := Some ?n\<rparr>) s)"
  define s' where "s' = (if free_list s = Some t then s1\<lparr>free_list := Some ?n\<rparr> else s1)"
  have e: "remove_from_free t s = Inr s'"
    using l r by (simp add: remove_from_free_def s'_def s1_def Let_def)
  have nf: "b_next_free (buf s' x) = (if x = ?p then Some ?n else b_next_free (buf s x))"
    and pf: "b_prev_free (buf s' x) = (if x = ?n then Some ?p else b_prev_free (buf s x))" for x
    using r by (simp_all add: s'_def s1_def nth_list_update)
  have "successively (linked s') zs"
    by (rule successively_linked_cong [OF c(3)]) (use zs(2) nf pf in auto)
  moreover have "linked s' ?p ?n" by (simp add: linked_def nf pf)
  ultimately have "cyc s' zs" using ne by (simp add: cyc_def successively_append_iff)
  moreover have "set zs = U - {t}" using zs(2,3) by auto
  moreover have "\<exists>h\<in>U - {t}. free_list s' = Some h"
  proof -
    from ok obtain h where h: "h \<in> U" "free_list s = Some h" unfolding free_ok_def by blast
    have "?n \<in> U - {t}" using hd_in_set [OF ne] zs(2,3) by auto
    moreover have "free_list s' = Some (if h = t then ?n else h)" using h by (simp add: s'_def s1_def)
    ultimately show ?thesis using h by auto
  qed
  moreover have "distinct zs" using zs(2) by simp
  ultimately have "free_ok (U - {t}) s'" unfolding free_ok_def by blast
  moreover have "same_view hview s s'" "same_view cview s s'" using r by (auto simp: same_view_def s'_def s1_def nth_list_update views)
  moreover have "hash_table s' = hash_table s" "same_disk s s'"
    by (simp_all add: s'_def s1_def same_disk_def tables_kept_def)
  ultimately show ?thesis using e by blast
qed

lemma free_inserted:
  assumes ok: "free_ok U s" and U: "U \<subseteq> {..<length (buffers s)}" and t: "t \<notin> U" "t < length (buffers s)"
  shows "\<exists>s'. insert_into_free t s = Inr s' \<and> free_ok (insert t U) s' \<and> same_view hview s s' \<and> same_view cview s s' \<and>
    hash_table s' = hash_table s \<and> same_disk s s'"
proof -
  from ok obtain h where h: "h \<in> U" "free_list s = Some h" unfolding free_ok_def by blast
  from free_okD [OF ok h(1)] obtain ys where ys: "cyc s (h # ys)" "distinct (h # ys)" "set (h # ys) = U" by blast
  let ?l = "last (h # ys)"
  have c: "successively (linked s) (h # ys)" "linked s ?l h" using ys(1) by (auto simp: cyc_def successively_append_iff successively_Cons hd_append split: if_splits)
  have r: "h < length (buffers s)" "?l < length (buffers s)" "h \<noteq> t" "?l \<noteq> t" using ys(3) U t h by (auto split: if_splits)
  have l: "b_prev_free (buf s h) = Some ?l" using c by (simp add: linked_def)
  define s' where "s' = upd_buf h (\<lambda>b. b\<lparr>b_prev_free := Some t\<rparr>) (upd_buf ?l (\<lambda>b. b\<lparr>b_next_free := Some t\<rparr>)
    (upd_buf t (\<lambda>b. b\<lparr>b_next_free := Some h, b_prev_free := Some ?l\<rparr>) s))"
  have e: "insert_into_free t s = Inr s'"
    using h(2) l r t(2) by (simp add: insert_into_free_def s'_def Let_def upd_buf_def)
  have nf: "b_next_free (buf s' x) = (if x = ?l then Some t else if x = t then Some h else b_next_free (buf s x))"
    and pf: "b_prev_free (buf s' x) = (if x = h then Some t else if x = t then Some ?l else b_prev_free (buf s x))" for x
    using r t(2) by (auto simp: s'_def nth_list_update)
  have t_ys: "t \<notin> set (h # ys)" using ys(3) t(1) by simp
  have "successively (linked s') (h # ys)"
    by (rule successively_linked_cong [OF c(1) ys(2)]) (use t_ys nf pf in auto)
  moreover have "linked s' ?l t" "linked s' t h" using r by (simp_all add: linked_def nf pf)
  ultimately have "cyc s' (h # ys @ [t])"
    using successively_append_iff [of "linked s'" "h # ys" "[t, h]"] by (simp add: cyc_def)
  moreover have "distinct (h # ys @ [t])" "set (h # ys @ [t]) = insert t U" using ys t_ys by auto
  moreover have "free_list s' = Some h" using h by (simp add: s'_def)
  ultimately have "free_ok (insert t U) s'" using h unfolding free_ok_def by blast
  moreover have "same_view hview s s'" "same_view cview s s'" using r t(2) by (auto simp: same_view_def s'_def nth_list_update views)
  moreover have "hash_table s' = hash_table s" "same_disk s s'" by (simp_all add: s'_def same_disk_def tables_kept_def)
  ultimately show ?thesis using e by blast
qed

text \<open>The walk of \<open>getblk\<close> along the free list finds a buffer nobody uses, if there is one.\<close>

lemma free_buffer_walk:
  assumes "free_list s = Some h" and "\<And>i. i \<in> set (x # zs) \<Longrightarrow> b_lock (buf s i) = 0"
    and "successively (linked s) (x # zs @ [h])" "h \<notin> set zs" "length zs < n"
  shows "free_buffer n x s = Inr (find (\<lambda>i. b_count (buf s i) = 0) (x # zs))"
  using assms
proof (induction zs arbitrary: x n)
  case Nil
  then show ?case by (cases n) (auto simp: wait_on_buffer_def linked_def)
next
  case (Cons z zs)
  then obtain m where m: "n = Suc m" by (cases n) auto
  have "free_buffer m z s = Inr (find (\<lambda>i. b_count (buf s i) = 0) (z # zs))" by (rule Cons.IH) (use Cons.prems m in auto)
  then show ?case using Cons.prems m by (auto simp: wait_on_buffer_def linked_def)
qed

lemma find_SomeD: "find P xs = Some x \<Longrightarrow> P x" "find P xs = Some x \<Longrightarrow> x \<in> set xs"
  by (metis find_Some_iff nth_mem)+

lemma free_buffer_spec:
  assumes ok: "free_ok U s" and U: "U = {..<length (buffers s)}" and lock: "\<forall>i\<in>U. b_lock (buf s i) = 0"
  shows "\<exists>h r. free_list s = Some h \<and> free_buffer (length (buffers s)) h s = Inr r \<and>
    (case r of None \<Rightarrow> \<forall>i\<in>U. b_count (buf s i) \<noteq> 0 | Some i \<Rightarrow> i \<in> U \<and> b_count (buf s i) = 0)"
proof -
  from ok obtain h where h: "h \<in> U" "free_list s = Some h" unfolding free_ok_def by blast
  from free_okD [OF ok h(1)] obtain ys where ys: "cyc s (h # ys)" "distinct (h # ys)" "set (h # ys) = U" by blast
  have "length (h # ys) = length (buffers s)" using distinct_card [OF ys(2)] ys(3) U by simp
  then have f: "free_buffer (length (buffers s)) h s = Inr (find (\<lambda>i. b_count (buf s i) = 0) (h # ys))"
    using ys lock by (intro free_buffer_walk [OF h(2)]) (auto simp: cyc_def)
  show ?thesis
  proof (cases "find (\<lambda>i. b_count (buf s i) = 0) (h # ys)")
    case None
    then have "\<forall>i\<in>U. b_count (buf s i) \<noteq> 0" using ys(3) by (auto simp: find_None_iff simp del: find.simps)
    then show ?thesis using h(2) f None by (simp del: find.simps)
  next
    case (Some i)
    then have "b_count (buf s i) = 0" "i \<in> set (h # ys)" by (meson find_SomeD)+
    then show ?thesis using h(2) f ys(3) Some by (auto simp del: find.simps)
  qed
qed

end
