(* ===== verification/Linux_Cache.thy ===== *)
theory Linux_Cache
  imports Linux_Buffer_Lists
begin

unbundle bit_operations_syntax

section \<open>The buffer cache of linux-0.01 as a store of blocks (\<open>fs/buffer.c\<close>)\<close>

text \<open>
  \<open>contents_ok\<close> relates the buffers to the disk: a buffer that is up to date and not dirty holds what its block
  holds on the disk, and no block has two buffers.  \<open>block_view\<close> is a block as the kernel sees it.  \<open>getblk\<close>,
  \<open>bread\<close>, \<open>brelse\<close> and \<open>sync_dev\<close> keep the invariant and change no block; what a user of a buffer puts into it is
  the new contents of its block.  So the cache with the driver below it provides the interface \<open>block_store\<close>.
  \<open>B\<close> is the set of the blocks in use, which may not overlap on the disk.
\<close>

subsection \<open>The contents of the cache\<close>

definition buffer_ok :: "(u16 \<times> u16) set \<Rightarrow> (u16 \<times> u16 \<Rightarrow> u8 list) \<Rightarrow> buffer_head \<Rightarrow> bool" where
  "buffer_ok B disk b \<longleftrightarrow> b_lock b = 0 \<and> length (b_data b) = BLOCK_SIZE \<and> (b_dirt b \<noteq> 0 \<longrightarrow> b_uptodate b \<noteq> 0 \<and> b_dev b \<noteq> 0) \<and>
     (b_dev b \<noteq> 0 \<longrightarrow> addr_of b \<in> B) \<and> (b_dev b \<noteq> 0 \<and> b_uptodate b \<noteq> 0 \<and> b_dirt b = 0 \<longrightarrow> b_data b = disk (addr_of b))"

definition contents_ok :: "(u16 \<times> u16) set \<Rightarrow> 'a fs_state_scheme \<Rightarrow> bool" where
  "contents_ok B s \<longleftrightarrow> hd_ready s \<and> (\<forall>p\<in>B. valid_block (hd_parts s) p) \<and> blocks_apart (hd_parts s) B \<and>
     (\<forall>i<length (buffers s). buffer_ok B (disk_block s) (buf s i)) \<and>
     (\<forall>i<length (buffers s). \<forall>j<length (buffers s). b_dev (buf s i) \<noteq> 0 \<longrightarrow> addr_of (buf s i) = addr_of (buf s j) \<longrightarrow> i = j)"

text \<open>The contents of a block as the kernel sees it: those of its buffer, if it has an up-to-date one, else those on the disk.\<close>

definition block_view :: "'a fs_state_scheme \<Rightarrow> u16 \<times> u16 \<Rightarrow> u8 list" where
  "block_view s p =
     (case find (\<lambda>i. b_dev (buf s i) \<noteq> 0 \<and> addr_of (buf s i) = p \<and> b_uptodate (buf s i) \<noteq> 0) [0..<length (buffers s)] of
        None \<Rightarrow> disk_block s p | Some i \<Rightarrow> b_data (buf s i))"

lemma contents_okD:
  assumes "contents_ok B s" "i < length (buffers s)"
  shows "b_lock (buf s i) = 0" "length (b_data (buf s i)) = BLOCK_SIZE" "b_dirt (buf s i) \<noteq> 0 \<Longrightarrow> b_uptodate (buf s i) \<noteq> 0"
    "b_dirt (buf s i) \<noteq> 0 \<Longrightarrow> b_dev (buf s i) \<noteq> 0" "b_dev (buf s i) \<noteq> 0 \<Longrightarrow> addr_of (buf s i) \<in> B"
    "b_dev (buf s i) \<noteq> 0 \<Longrightarrow> b_uptodate (buf s i) \<noteq> 0 \<Longrightarrow> b_dirt (buf s i) = 0 \<Longrightarrow> b_data (buf s i) = disk_block s (addr_of (buf s i))"
    "j < length (buffers s) \<Longrightarrow> b_dev (buf s i) \<noteq> 0 \<Longrightarrow> addr_of (buf s i) = addr_of (buf s j) \<Longrightarrow> i = j"
  using assms unfolding contents_ok_def buffer_ok_def by blast+

lemma contents_ok_blocks: "contents_ok B s \<Longrightarrow> p \<in> B \<Longrightarrow> valid_block (hd_parts s) p"
  "contents_ok B s \<Longrightarrow> blocks_apart (hd_parts s) B" "contents_ok B s \<Longrightarrow> hd_ready s"
  by (simp_all add: contents_ok_def)

lemma valid_dev: "valid_block hp p \<Longrightarrow> fst p \<noteq> 0"
  by (auto simp: valid_block_def MAJOR_def Let_def)

lemma block_view_buffer:
  assumes ok: "contents_ok B s" and i: "i < length (buffers s)" "b_dev (buf s i) \<noteq> 0" "addr_of (buf s i) = p"
  shows "block_view s p = (if b_uptodate (buf s i) \<noteq> 0 then b_data (buf s i) else disk_block s p)"
proof -
  let ?P = "\<lambda>i. b_dev (buf s i) \<noteq> 0 \<and> addr_of (buf s i) = p \<and> b_uptodate (buf s i) \<noteq> 0"
  have u: "j = i" if "?P j" "j < length (buffers s)" for j using contents_okD(7) [OF ok that(2) i(1)] that i by auto
  show ?thesis
  proof (cases "find ?P [0..<length (buffers s)]")
    case None
    then have "\<not> ?P i" using i(1) by (simp add: find_None_iff)
    then show ?thesis using None i by (simp add: block_view_def)
  next
    case (Some j)
    then have "?P j" "j < length (buffers s)" using find_SomeD [OF Some] by auto
    with u [of j] Some show ?thesis by (simp add: block_view_def)
  qed
qed

lemma block_view_disk:
  assumes "\<forall>i<length (buffers s). b_dev (buf s i) \<noteq> 0 \<longrightarrow> addr_of (buf s i) \<noteq> p"
  shows "block_view s p = disk_block s p"
proof -
  have "find (\<lambda>i. b_dev (buf s i) \<noteq> 0 \<and> addr_of (buf s i) = p \<and> b_uptodate (buf s i) \<noteq> 0) [0..<length (buffers s)] = None"
    using assms by (auto simp: find_None_iff)
  then show ?thesis by (simp add: block_view_def)
qed

text \<open>Two states whose buffers hold the same show the same blocks.\<close>

lemma addr_of_cview: "cview b = cview c \<Longrightarrow> addr_of b = addr_of c"
  by (simp add: cview_def addr_of_def)

lemma buffer_ok_cview: "cview b = cview c \<Longrightarrow> buffer_ok B disk b = buffer_ok B disk c"
  by (simp add: buffer_ok_def addr_of_def cview_def)

lemma contents_ok_view:
  assumes "contents_ok B s" "same_view cview s s'" "hd_parts s' = hd_parts s" "dsk_sectors s' = dsk_sectors s" "hd_ready s' = hd_ready s"
  shows "contents_ok B s'"
proof -
  have d: "disk_block s' = disk_block s" using assms(3,4) by (auto simp: disk_block_def)
  have v: "i < length (buffers s) \<Longrightarrow> cview (buf s' i) = cview (buf s i)" for i using assms(2) by (simp add: same_view_def)
  have "buffer_ok B (disk_block s') (buf s' i)" if "i < length (buffers s)" for i
    using assms(1) buffer_ok_cview [OF v [OF that]] that unfolding d contents_ok_def by blast
  moreover have "b_dev (buf s' i) = b_dev (buf s i)" "addr_of (buf s' i) = addr_of (buf s i)" if "i < length (buffers s)" for i
    using v [OF that] by (simp_all add: cview_def addr_of_def)
  ultimately show ?thesis using assms unfolding contents_ok_def same_view_def by simp
qed

lemma block_view_cong:
  assumes "same_view cview s s'" "hd_parts s' = hd_parts s" "dsk_sectors s' = dsk_sectors s"
  shows "block_view s' p = block_view s p"
proof -
  have d: "disk_block s' = disk_block s" using assms(2,3) by (auto simp: disk_block_def)
  let ?Q = "\<lambda>s i. b_dev (buf s i) \<noteq> 0 \<and> addr_of (buf s i) = p \<and> b_uptodate (buf s i) \<noteq> 0"
  have v: "i < length (buffers s) \<Longrightarrow> cview (buf s' i) = cview (buf s i)" for i using assms(1) by (simp add: same_view_def)
  have f: "find (?Q s') [0..<length (buffers s')] = find (?Q s) [0..<length (buffers s)]"
    using assms(1) v by (intro find_cong) (auto simp: same_view_def addr_of_def cview_def)
  show ?thesis
  proof (cases "find (?Q s) [0..<length (buffers s)]")
    case (Some i)
    then have "i < length (buffers s)" using find_SomeD(2) [OF Some] by simp
    then show ?thesis using Some f v by (simp add: block_view_def cview_def)
  qed (simp add: block_view_def f d)
qed

subsection \<open>Writing dirty buffers\<close>

definition synced :: "(u16 \<times> u16) set \<Rightarrow> 'a fs_state_scheme \<Rightarrow> 'a fs_state_scheme \<Rightarrow> bool" where
  "synced B s s' \<longleftrightarrow> contents_ok B s' \<and> fs_frame s s' \<and> length (buffers s') = length (buffers s) \<and>
     (\<forall>i<length (buffers s). buf s' i = buf s i \<or> buf s' i = (buf s i)\<lparr>b_uptodate := 1, b_dirt := 0, b_lock := 0\<rparr>) \<and>
     (\<forall>p\<in>B. block_view s' p = block_view s p)"

lemma synced_refl: "contents_ok B s \<Longrightarrow> synced B s s"
  by (simp add: synced_def fs_frame_def)

lemma synced_trans: "synced B s t \<Longrightarrow> synced B t u \<Longrightarrow> synced B s u"
proof -
  assume a: "synced B s t" "synced B t u"
  let ?w = "\<lambda>b. b\<lparr>b_uptodate := 1, b_dirt := 0, b_lock := 0\<rparr>"
  have "buf u i = buf s i \<or> buf u i = ?w (buf s i)" if i: "i < length (buffers s)" for i
  proof -
    have "buf t i = buf s i \<or> buf t i = ?w (buf s i)" "buf u i = buf t i \<or> buf u i = ?w (buf t i)"
      using a i by (simp_all add: synced_def)
    then show ?thesis by (elim disjE) simp_all
  qed
  then show ?thesis using a fs_frame_trans [of s t u] by (simp add: synced_def)
qed

lemma synced_one:
  assumes ok: "contents_ok B s" and i: "i < length (buffers s)" "b_dev (buf s i) \<noteq> 0" "b_dirt (buf s i) \<noteq> 0"
  shows "\<exists>s'. ll_rw_block WRITE i s = Inr s' \<and> synced B s s' \<and> b_dirt (buf s' i) = 0"
proof -
  let ?p = "addr_of (buf s i)"
  note D = contents_okD [OF ok i(1)]
  have p: "?p \<in> B" "b_uptodate (buf s i) \<noteq> 0" using D i by blast+
  obtain d n where pos: "block_pos (hd_parts s) ?p = (d, n)" by fastforce
  from ll_write [OF contents_ok_blocks(3) [OF ok] i(1) _ contents_ok_blocks(1) [OF ok p(1)] pos] D(2)
  obtain s' where s': "ll_rw_block WRITE i s = Inr s'" "hd_ready s'" "fs_frame s s'" "dsk_sectors s' = put_sectors d n (b_data (buf s i)) s"
    "buffers s' = (buffers s)[i := (buf s i)\<lparr>b_uptodate := 1, b_dirt := 0, b_lock := 0\<rparr>]" by (auto simp: BLOCK_SIZE_def)
  have hp: "hd_parts s' = hd_parts s" using s'(3) by (simp add: fs_frame_def)
  have disk: "disk_block s' q = (if q = ?p then b_data (buf s i) else disk_block s q)" if "q \<in> B" for q
    by (rule disk_block_put [OF contents_ok_blocks(2) [OF ok] p(1) that pos s'(4) hp])
  have lab: "addr_of (buf s' j) = addr_of (buf s j)" "b_dev (buf s' j) = b_dev (buf s j)" "b_data (buf s' j) = b_data (buf s j)" for j
    using i(1) by (auto simp: s'(5) nth_list_update addr_of_def)
  have bo: "buffer_ok B (disk_block s') (buf s' j)" if j: "j < length (buffers s)" for j
  proof (cases "j = i")
    case True
    then show ?thesis using D i(1) p disk [OF p(1)] by (simp add: s'(5) buffer_ok_def addr_of_def)
  next
    case False
    then have e: "buf s' j = buf s j" by (simp add: s'(5))
    have "addr_of (buf s j) \<noteq> ?p" if "b_dev (buf s j) \<noteq> 0" using contents_okD(7) [OF ok j i(1)] that False by auto
    then show ?thesis using contents_okD [OF ok j] disk by (auto simp: e buffer_ok_def)
  qed
  have ok': "contents_ok B s'"
    using ok s'(2) hp bo lab unfolding contents_ok_def by (simp add: s'(5))
  have "block_view s' q = block_view s q" if q: "q \<in> B" for q
  proof (cases "\<exists>j<length (buffers s). b_dev (buf s j) \<noteq> 0 \<and> addr_of (buf s j) = q")
    case True
    then obtain j where j: "j < length (buffers s)" "b_dev (buf s j) \<noteq> 0" "addr_of (buf s j) = q" by blast
    have "block_view s q = (if b_uptodate (buf s j) \<noteq> 0 then b_data (buf s j) else disk_block s q)"
      by (rule block_view_buffer [OF ok j])
    moreover have "block_view s' q = (if b_uptodate (buf s' j) \<noteq> 0 then b_data (buf s' j) else disk_block s' q)"
      by (rule block_view_buffer [OF ok']) (use j lab s'(5) in auto)
    moreover have "q \<noteq> ?p \<or> j = i" using contents_okD(7) [OF ok j(1) i(1) j(2)] j(3) by auto
    ultimately show ?thesis using p disk [OF q] i(1) lab(3) by (cases "j = i") (auto simp: s'(5))
  next
    case False
    then have "q \<noteq> ?p" using i by auto
    then show ?thesis using False disk [OF q] lab by (subst (1 2) block_view_disk) (auto simp: s'(5))
  qed
  moreover have "buf s' j = buf s j \<or> buf s' j = (buf s j)\<lparr>b_uptodate := 1, b_dirt := 0, b_lock := 0\<rparr>" for j
    using i(1) by (cases "j = i") (simp_all add: s'(5))
  ultimately have "synced B s s'" using ok' s'(3) by (simp add: synced_def s'(5))
  then show ?thesis using s' i(1) by auto
qed

lemma sync_buffer_ok:
  assumes ok: "contents_ok B s" and i: "i < length (buffers s)" "b_dev (buf s i) \<noteq> 0"
  shows "\<exists>s'. sync_buffer i s = Inr s' \<and> synced B s s' \<and> b_dirt (buf s' i) = 0"
  using synced_one [OF ok i] synced_refl [OF ok] contents_okD(1) [OF ok i(1)]
  by (cases "b_dirt (buf s i) = 0") (auto simp: sync_buffer_def wait_on_buffer_def)

lemma synced_buf: 
  assumes "synced B s s'" "i < length (buffers s)"
  shows "b_dev (buf s' i) = b_dev (buf s i)" "addr_of (buf s' i) = addr_of (buf s i)" "b_data (buf s' i) = b_data (buf s i)"
    "b_count (buf s' i) = b_count (buf s i)" "hview (buf s' i) = hview (buf s i)" "fview (buf s' i) = fview (buf s i)"
    "b_dirt (buf s i) = 0 \<Longrightarrow> b_dirt (buf s' i) = 0"
  using assms unfolding synced_def by (auto simp: addr_of_def views dest!: spec [of _ i])

lemma sync_dev_from_ok:
  assumes "contents_ok B s" "d \<noteq> 0" "set is \<subseteq> {..<length (buffers s)}"
  shows "\<exists>s'. sync_dev_from is (ucast d) s = Inr s' \<and> synced B s s' \<and> (\<forall>i\<in>set is. b_dev (buf s i) = d \<longrightarrow> b_dirt (buf s' i) = 0)"
  using assms
proof (induction "is" arbitrary: s)
  case Nil
  then show ?case by (simp add: synced_refl)
next
  case (Cons i "is")
  show ?case
  proof (cases "b_dev (buf s i) = d")
    case False
    with Cons show ?thesis by auto
  next
    case True
    from sync_buffer_ok [OF Cons.prems(1), of i] Cons.prems True obtain s1 where
      s1: "sync_buffer i s = Inr s1" "synced B s s1" "b_dirt (buf s1 i) = 0" by auto
    have l: "length (buffers s1) = length (buffers s)" and ok1: "contents_ok B s1" using s1(2) by (simp_all add: synced_def)
    from Cons.IH [OF ok1 Cons.prems(2)] Cons.prems(3) l obtain s2 where
      s2: "sync_dev_from is (ucast d) s1 = Inr s2" "synced B s1 s2" "\<forall>i\<in>set is. b_dev (buf s1 i) = d \<longrightarrow> b_dirt (buf s2 i) = 0" by auto
    have "b_dirt (buf s2 i) = 0" using synced_buf(7) [OF s2(2)] s1(3) Cons.prems(3) l by auto
    moreover have "b_dirt (buf s2 j) = 0" if "j \<in> set is" "b_dev (buf s j) = d" for j
      using s2(3) synced_buf(1) [OF s1(2), of j] that Cons.prems(3) by auto
    ultimately show ?thesis using s1 s2 True synced_trans [OF s1(2) s2(2)] by auto
  qed
qed

lemma sync_dev_ok:
  assumes "contents_ok B s" "d \<noteq> 0"
  shows "\<exists>s'. sync_dev (ucast d) s = Inr s' \<and> synced B s s' \<and>
    (\<forall>i<length (buffers s). b_dev (buf s i) = d \<longrightarrow> b_dirt (buf s' i) = 0)"
proof -
  have "set [0..<length (buffers s)] \<subseteq> {..<length (buffers s)}" by auto
  from sync_dev_from_ok [OF assms this] show ?thesis by (auto simp: sync_dev_def)
qed

subsection \<open>Getting a block\<close>

definition cache_ok :: "(u16 \<times> u16) set \<Rightarrow> 'a fs_state_scheme \<Rightarrow> bool" where
  "cache_ok B s \<longleftrightarrow> 2 \<le> length (buffers s) \<and> hash_ok {..<length (buffers s)} s \<and> free_ok {..<length (buffers s)} s \<and> contents_ok B s"

text \<open>Every buffer other than \<open>bh\<close> holds what it held, and the other tables of the file system are as they were.\<close>

definition others_kept :: "nat \<Rightarrow> 'a fs_state_scheme \<Rightarrow> 'a fs_state_scheme \<Rightarrow> bool" where
  "others_kept bh s s' \<longleftrightarrow> tables_kept s s' \<and> length (buffers s') = length (buffers s) \<and>
     (\<forall>i<length (buffers s). i \<noteq> bh \<longrightarrow> addr_of (buf s' i) = addr_of (buf s i) \<and> b_data (buf s' i) = b_data (buf s i) \<and>
        b_count (buf s' i) = b_count (buf s i))"

lemma cache_ok_count:
  assumes "cache_ok B s" "length (buffers s') = length (buffers s)" "hash_table s' = hash_table s" "free_list s' = free_list s"
    "hd_parts s' = hd_parts s" "dsk_sectors s' = dsk_sectors s" "hd_ready s' = hd_ready s"
    "\<And>i. i < length (buffers s) \<Longrightarrow> \<exists>c. buf s' i = (buf s i)\<lparr>b_count := c\<rparr>"
  shows "cache_ok B s'" "block_view s' p = block_view s p"
proof -
  have v: "hview (buf s' i) = hview (buf s i)" "fview (buf s' i) = fview (buf s i)" "addr_of (buf s' i) = addr_of (buf s i)"
    "b_dev (buf s' i) = b_dev (buf s i)" "b_data (buf s' i) = b_data (buf s i)" "b_uptodate (buf s' i) = b_uptodate (buf s i)"
    "buffer_ok B (disk_block s') (buf s' i) = buffer_ok B (disk_block s') (buf s i)"
    if "i < length (buffers s)" for i
    using assms(8) [OF that] by (auto simp: views addr_of_def buffer_ok_def)
  have d: "disk_block s' = disk_block s" using assms(5,6) by (auto simp: disk_block_def)
  have "contents_ok B s'" using assms(1,2,5,7) v unfolding cache_ok_def contents_ok_def d by simp
  moreover have "hash_ok {..<length (buffers s)} s'"
    by (rule hash_ok_cong [of _ s]) (use assms v in \<open>auto simp: cache_ok_def\<close>)
  moreover have "free_ok {..<length (buffers s)} s'"
    by (rule free_ok_cong [of _ s]) (use assms v in \<open>auto simp: cache_ok_def\<close>)
  ultimately show "cache_ok B s'" using assms by (simp add: cache_ok_def)
  let ?Q = "\<lambda>s i. b_dev (buf s i) \<noteq> 0 \<and> addr_of (buf s i) = p \<and> b_uptodate (buf s i) \<noteq> 0"
  have f: "find (?Q s') [0..<length (buffers s')] = find (?Q s) [0..<length (buffers s)]"
    unfolding assms(2) by (rule find_cong) (use v in auto)
  show "block_view s' p = block_view s p"
  proof (cases "find (?Q s) [0..<length (buffers s)]")
    case (Some i)
    then have "i < length (buffers s)" using find_SomeD(2) [OF Some] by simp
    then show ?thesis using Some f v by (simp add: block_view_def)
  qed (simp add: block_view_def f d)
qed

lemma get_hash_table_hit:
  assumes ok: "cache_ok B s" and f: "find_buffer (ucast d) (ucast b) s = Inr (Some i)" "i < length (buffers s)" "addr_of (buf s i) = (d, b)"
  shows "get_hash_table (ucast d) (ucast b) s = Inr (Some i, upd_buf i (\<lambda>b. b\<lparr>b_count := b_count b + 1\<rparr>) s)"
proof -
  have "b_lock (buf s i) = 0" using ok f(2) contents_okD(1) unfolding cache_ok_def by blast
  then show ?thesis unfolding get_hash_table_def
    using f by (subst get_hash_loop.simps) (simp add: wait_on_buffer_def addr_of_def)
qed

lemma get_hash_table_miss: "find_buffer dev block s = Inr None \<Longrightarrow> get_hash_table dev block s = Inr (None, s)"
  unfolding get_hash_table_def by (subst get_hash_loop.simps) simp

text \<open>Giving a buffer a new block: it must be clean, and no other buffer may hold that block.\<close>

lemma relabelled:
  assumes ok: "contents_ok B s" and t: "t < length (buffers s)" "b_dirt (buf s t) = 0" and p: "(d, b) \<in> B"
    and new: "\<forall>i<length (buffers s). i \<noteq> t \<longrightarrow> addr_of (buf s i) \<noteq> (d, b)"
  defines "s' \<equiv> upd_buf t (\<lambda>h. h\<lparr>b_dev := d, b_blocknr := b, b_dirt := 0, b_uptodate := 0\<rparr>) s"
  shows "contents_ok B s'" and "q \<in> B \<Longrightarrow> addr_of (buf s t) \<noteq> (d, b) \<Longrightarrow> block_view s' q = block_view s q"
proof -
  have disk: "disk_block s' = disk_block s" by (auto simp: disk_block_def s'_def)
  have d0: "d \<noteq> 0" using valid_dev [OF contents_ok_blocks(1) [OF ok p]] by simp
  have b': "buf s' i = (if i = t then (buf s t)\<lparr>b_dev := d, b_blocknr := b, b_dirt := 0, b_uptodate := 0\<rparr> else buf s i)" for i
    using t(1) by (simp add: s'_def)
  have l: "length (buffers s') = length (buffers s)" by (simp add: s'_def)
  have "buffer_ok B (disk_block s') (buf s' i)" if i: "i < length (buffers s)" for i
    using contents_okD [OF ok i] p by (auto simp: b' disk buffer_ok_def addr_of_def)
  moreover have "i = j" if ij: "i < length (buffers s)" "j < length (buffers s)" "b_dev (buf s' i) \<noteq> 0" "addr_of (buf s' i) = addr_of (buf s' j)" for i j
    using contents_okD(7) [OF ok ij(1,2)] new ij by (auto simp: b' addr_of_def split: if_splits)
  moreover have "hd_ready s'" "hd_parts s' = hd_parts s" using contents_ok_blocks(3) [OF ok] by (simp_all add: s'_def)
  ultimately show ok': "contents_ok B s'" using ok l unfolding contents_ok_def by simp
  assume q: "q \<in> B" and a: "addr_of (buf s t) \<noteq> (d, b)"
  show "block_view s' q = block_view s q"
  proof (cases "q = (d, b)")
    case True
    have "block_view s' q = disk_block s q" using block_view_buffer [OF ok', of t q] t(1) d0 True by (simp add: b' l addr_of_def disk)
    moreover have "block_view s q = disk_block s q" using new a True by (intro block_view_disk) metis
    ultimately show ?thesis by simp
  next
    case False
    show ?thesis
    proof (cases "\<exists>j<length (buffers s). b_dev (buf s j) \<noteq> 0 \<and> addr_of (buf s j) = q")
      case True
      then obtain j where j: "j < length (buffers s)" "b_dev (buf s j) \<noteq> 0" "addr_of (buf s j) = q" by blast
      note v = block_view_buffer [OF ok j]
      show ?thesis
      proof (cases "j = t")
        case True
        then have "block_view s q = disk_block s q" using v contents_okD(6) [OF ok j(1,2)] t(2) j(3) by auto
        moreover have "block_view s' q = disk_block s' q"
        proof (rule block_view_disk, intro allI impI)
          fix i assume i: "i < length (buffers s')"
          show "addr_of (buf s' i) \<noteq> q"
          proof (cases "i = t")
            case True
            then show ?thesis using \<open>q \<noteq> (d, b)\<close> by (auto simp: b' addr_of_def)
          next
            case False
            then have "addr_of (buf s j) \<noteq> addr_of (buf s i)" using contents_okD(7) [OF ok j(1) _ j(2), of i] i l \<open>j = t\<close> by auto
            then show ?thesis using False j(3) by (simp add: b')
          qed
        qed
        ultimately show ?thesis by (simp add: disk)
      next
        case False
        then show ?thesis using v block_view_buffer [OF ok', of j q] j by (simp add: b' l disk)
      qed
    next
      case False
      then have "block_view s' q = disk_block s' q" "block_view s q = disk_block s q"
        using \<open>q \<noteq> (d, b)\<close> by (auto intro!: block_view_disk simp: b' l addr_of_def split: if_splits)
      then show ?thesis by (simp add: disk)
    qed
  qed
qed

lemma ucast_32_16 [simp]: "(ucast (ucast (x :: u16) :: u32) :: u16) = x"
  by (rule bit_word_eqI) (simp add: bit_simps)

lemma cache_ok_view:
  assumes "cache_ok B s" "same_disk s s'"
    and "\<And>i. i < length (buffers s) \<Longrightarrow> \<exists>c. buf s' i = (buf s i)\<lparr>b_count := c\<rparr>" "length (buffers s') = length (buffers s)"
    and "hash_table s' = hash_table s" "free_list s' = free_list s"
  shows "cache_ok B s'" "block_view s' p = block_view s p"
  using cache_ok_count [of B s s'] assms same_diskD [OF assms(2)] by auto

text \<open>Taking a buffer nobody uses out of the lists, written to the disk if it is dirty.\<close>

lemma taken_out:
  assumes ok: "cache_ok B s" and t: "t < length (buffers s)"
  defines "V \<equiv> {..<length (buffers s)} - {t}"
  shows "\<exists>s1 s2. remove_from_queues t s = Inr s1 \<and>
    (if b_dirt (buf s1 t) \<noteq> 0 then sync_dev (ucast (b_dev (buf s1 t))) s1 else Inr s1) = Inr s2 \<and>
    hash_ok V s2 \<and> free_ok V s2 \<and> contents_ok B s2 \<and> b_dirt (buf s2 t) = 0 \<and> length (buffers s2) = length (buffers s) \<and>
    (\<forall>i<length (buffers s). addr_of (buf s2 i) = addr_of (buf s i) \<and> b_data (buf s2 i) = b_data (buf s i) \<and>
       b_count (buf s2 i) = b_count (buf s i)) \<and> tables_kept s s2 \<and> (\<forall>p\<in>B. block_view s2 p = block_view s p)"
proof -
  let ?U = "{..<length (buffers s)}"
  have ok': "hash_ok ?U s" "free_ok ?U s" "contents_ok B s" "2 \<le> length (buffers s)" using ok by (simp_all add: cache_ok_def)
  have tU: "t \<in> ?U" using t by simp
  have ne: "?U \<noteq> {t}"
  proof
    assume "?U = {t}"
    then have "card ?U = 1" by simp
    with ok'(4) show False by simp
  qed
  define sh where "sh = remove_from_hash t s"
  have sh: "hash_ok V sh" "same_view cview s sh" "same_view fview s sh" "free_list sh = free_list s" "same_disk s sh"
    using hash_removed [OF ok'(1) tU] by (simp_all add: sh_def V_def)
  have "free_ok ?U sh" using free_ok_view [OF ok'(2) _ sh(3,4)] by simp
  moreover have lsh: "length (buffers sh) = length (buffers s)" using sh(2) by (simp add: same_view_def)
  ultimately obtain s1 where s1: "remove_from_free t sh = Inr s1" "free_ok V s1" "same_view hview sh s1" "same_view cview sh s1"
    "hash_table s1 = hash_table sh" "same_disk sh s1"
    using free_removed [of ?U sh t] tU ne unfolding V_def by auto
  have h1: "hash_ok V s1" by (rule hash_ok_view [OF sh(1) s1(3,5)])
  have c1: "same_view cview s s1" by (rule same_view_trans [OF sh(2) s1(4)])
  have d1: "same_disk s s1" by (rule same_disk_trans [OF sh(5) s1(6)])
  have l1: "length (buffers s1) = length (buffers s)" using c1 by (simp add: same_view_def)
  have ok1: "contents_ok B s1" using contents_ok_view [OF ok'(3) c1] same_diskD [OF d1] by simp
  have v1: "block_view s1 p = block_view s p" for p using block_view_cong [OF c1] same_diskD [OF d1] by simp
  have "\<exists>s2. (if b_dirt (buf s1 t) \<noteq> 0 then sync_dev (ucast (b_dev (buf s1 t))) s1 else Inr s1) = Inr s2 \<and> synced B s1 s2 \<and> b_dirt (buf s2 t) = 0"
    using sync_dev_ok [OF ok1, of "b_dev (buf s1 t)"] contents_okD(4) [OF ok1, of t] synced_refl [OF ok1] t l1 by auto
  then obtain s2 where s2: "(if b_dirt (buf s1 t) \<noteq> 0 then sync_dev (ucast (b_dev (buf s1 t))) s1 else Inr s1) = Inr s2"
    "synced B s1 s2" "b_dirt (buf s2 t) = 0" by blast
  note sb = synced_buf [OF s2(2)]
  have l2: "length (buffers s2) = length (buffers s)" using s2(2) l1 by (simp add: synced_def)
  have V: "V \<subseteq> ?U" by (auto simp: V_def)
  have "hash_ok V s2" by (rule hash_ok_cong [OF h1]) (use sb(5) V l1 l2 s2(2) in \<open>auto simp: synced_def fs_frame_def\<close>)
  moreover have "free_ok V s2" by (rule free_ok_cong [OF s1(2)]) (use sb(6) V l1 s2(2) in \<open>auto simp: synced_def fs_frame_def\<close>)
  moreover have "addr_of (buf s2 i) = addr_of (buf s i) \<and> b_data (buf s2 i) = b_data (buf s i) \<and> b_count (buf s2 i) = b_count (buf s i)"
    if "i < length (buffers s)" for i
    using sb(2-4) [of i] same_viewD(1) [OF c1 that] that l1 by (simp add: cview_def addr_of_def)
  moreover have "block_view s2 p = block_view s p" if "p \<in> B" for p using s2(2) v1 that by (simp add: synced_def)
  moreover have "contents_ok B s2" using s2(2) by (simp add: synced_def)
  moreover have "tables_kept s s2" using s2(2) same_diskD(4) [OF d1] by (simp add: synced_def fs_frame_def tables_kept_def)
  moreover have "remove_from_queues t s = Inr s1" using s1(1) by (simp add: remove_from_queues_def sh_def)
  ultimately show ?thesis using s2 l2 by blast
qed

text \<open>Putting it back.\<close>

lemma put_back:
  assumes "hash_ok V s" "free_ok V s" "contents_ok B s" and V: "V = {..<length (buffers s)} - {t}" "t < length (buffers s)" "2 \<le> length (buffers s)"
  shows "\<exists>s'. insert_into_queues t s = Inr s' \<and> cache_ok B s' \<and> same_view cview s s' \<and> same_disk s s'"
proof -
  have s: "V \<subseteq> {..<length (buffers s)}" "t \<notin> V" "insert t V = {..<length (buffers s)}" using V by auto
  from free_inserted [OF assms(2) s(1,2) V(2)] s(3) obtain s1 where s1: "insert_into_free t s = Inr s1" "free_ok {..<length (buffers s)} s1"
    "same_view hview s s1" "same_view cview s s1" "hash_table s1 = hash_table s" "same_disk s s1" by auto
  define s' where "s' = insert_into_hash t s1"
  have l: "length (buffers s1) = length (buffers s)" using s1(3) by (simp add: same_view_def)
  have "hash_ok V s1" by (rule hash_ok_view [OF assms(1) s1(3,5)])
  from hash_inserted [OF this s(2)] l V(2) s(3) have s': "hash_ok {..<length (buffers s)} s'" "same_view cview s1 s'" "same_view fview s1 s'"
    "free_list s' = free_list s1" "same_disk s1 s'" by (simp_all add: s'_def)
  have "free_ok {..<length (buffers s)} s'" using free_ok_view [OF s1(2) _ s'(3,4)] l by simp
  moreover have v: "same_view cview s s'" by (rule same_view_trans [OF s1(4) s'(2)])
  moreover have d: "same_disk s s'" by (rule same_disk_trans [OF s1(6) s'(5)])
  moreover have "contents_ok B s'" using contents_ok_view [OF assms(3) v] same_diskD [OF d] by simp
  moreover have "length (buffers s') = length (buffers s)" using v by (simp add: same_view_def)
  ultimately show ?thesis using s1(1) s'(1) V(3) by (auto simp: insert_into_queues_def cache_ok_def s'_def)
qed

lemma getblk_miss:
  assumes ok: "cache_ok B s" and p: "(d, b) \<in> B" and t: "t < length (buffers s)"
    and none: "\<forall>i<length (buffers s). addr_of (buf s i) \<noteq> (d, b)"
  shows "\<exists>s1 s2 s3 s'. remove_from_queues t s = Inr s1 \<and>
    (if b_dirt (buf s1 t) \<noteq> 0 then sync_dev (ucast (b_dev (buf s1 t))) s1 else Inr s1) = Inr s2 \<and>
    s3 = upd_buf t (\<lambda>h. h\<lparr>b_dev := d, b_blocknr := b, b_dirt := 0, b_uptodate := 0\<rparr>) s2 \<and>
    find_buffer (ucast d) (ucast b) s3 = Inr None \<and> insert_into_queues t s3 = Inr s' \<and>
    cache_ok B s' \<and> others_kept t s s' \<and> addr_of (buf s' t) = (d, b) \<and> b_count (buf s' t) = b_count (buf s t) \<and>
    (\<forall>q\<in>B. block_view s' q = block_view s q)"
proof -
  let ?V = "{..<length (buffers s)} - {t}"
  have ok': "contents_ok B s" "2 \<le> length (buffers s)" using ok by (simp_all add: cache_ok_def)
  have d0: "d \<noteq> 0" using valid_dev [OF contents_ok_blocks(1) [OF ok'(1) p]] by simp
  from taken_out [OF ok t] obtain s1 s2 where s2: "remove_from_queues t s = Inr s1"
    "(if b_dirt (buf s1 t) \<noteq> 0 then sync_dev (ucast (b_dev (buf s1 t))) s1 else Inr s1) = Inr s2"
    "hash_ok ?V s2" "free_ok ?V s2" "contents_ok B s2" "b_dirt (buf s2 t) = 0" "length (buffers s2) = length (buffers s)"
    and same: "\<forall>i<length (buffers s). addr_of (buf s2 i) = addr_of (buf s i) \<and> b_data (buf s2 i) = b_data (buf s i) \<and>
       b_count (buf s2 i) = b_count (buf s i)" and view: "\<forall>p\<in>B. block_view s2 p = block_view s p" and tab: "tables_kept s s2" by blast
  define s3 where "s3 = upd_buf t (\<lambda>h. h\<lparr>b_dev := d, b_blocknr := b, b_dirt := 0, b_uptodate := 0\<rparr>) s2"
  have b3: "buf s3 i = (if i = t then (buf s2 t)\<lparr>b_dev := d, b_blocknr := b, b_dirt := 0, b_uptodate := 0\<rparr> else buf s2 i)" for i
    using t s2(7) by (simp add: s3_def)
  have l3: "length (buffers s3) = length (buffers s)" by (simp add: s3_def s2(7))
  have new: "\<forall>i<length (buffers s2). i \<noteq> t \<longrightarrow> addr_of (buf s2 i) \<noteq> (d, b)" using none same s2(7) by simp
  have h3: "hash_ok ?V s3" by (rule hash_ok_cong [OF s2(3)]) (auto simp: b3 l3 s2(7) s3_def)
  have f3: "free_ok ?V s3" by (rule free_ok_cong [OF s2(4)]) (auto simp: b3 s3_def)
  have c3: "contents_ok B s3" using relabelled(1) [OF s2(5) _ s2(6) p new] t s2(7) by (simp add: s3_def)
  have v3: "block_view s3 q = block_view s2 q" if "q \<in> B" for q
    using relabelled(2) [OF s2(5) _ s2(6) p new that] t s2(7) same none by (simp add: s3_def)
  have nf: "find_buffer (ucast d) (ucast b) s3 = Inr None"
  proof -
    from find_buffer_spec [OF h3 d0, of b] obtain r where r: "find_buffer (ucast d) (ucast b) s3 = Inr r"
      "case r of None \<Rightarrow> \<forall>i\<in>?V. addr_of (buf s3 i) \<noteq> (d, b) | Some i \<Rightarrow> i \<in> ?V \<and> addr_of (buf s3 i) = (d, b)" by blast
    then have "r = None" using new s2(7) by (cases r) (auto simp: b3)
    with r show ?thesis by simp
  qed
  from put_back [OF h3 f3 c3, of t] l3 t ok'(2) obtain s' where s': "insert_into_queues t s3 = Inr s'" "cache_ok B s'"
    "same_view cview s3 s'" "same_disk s3 s'" by auto
  have c': "cview (buf s' i) = cview (buf s3 i)" if "i < length (buffers s)" for i using s'(3) that l3 by (simp add: same_view_def)
  have "length (buffers s') = length (buffers s)" using s'(3) l3 by (simp add: same_view_def)
  moreover have "tables_kept s s'" using tab same_diskD(4) [OF s'(4)] by (simp add: tables_kept_def s3_def)
  ultimately have "others_kept t s s'" using c' same by (auto simp: others_kept_def b3 cview_def addr_of_def)
  moreover have "addr_of (buf s' t) = (d, b)" "b_count (buf s' t) = b_count (buf s t)"
    using c' [OF t] same t by (simp_all add: b3 cview_def addr_of_def)
  moreover have "block_view s' q = block_view s q" if "q \<in> B" for q
    using block_view_cong [OF s'(3)] same_diskD [OF s'(4)] v3 [OF that] view that by simp
  ultimately show ?thesis using s2(1,2) s'(1,2) nf unfolding s3_def by blast
qed

lemma count_up:
  assumes ok: "cache_ok B s" and i: "i < length (buffers s)"
  defines "s' \<equiv> upd_buf i (\<lambda>b. b\<lparr>b_count := b_count b + 1\<rparr>) s"
  shows "cache_ok B s'" "block_view s' p = block_view s p" "others_kept i s s'" "addr_of (buf s' i) = addr_of (buf s i)"
    "b_count (buf s' i) = b_count (buf s i) + 1" "b_dirt (buf s' i) = b_dirt (buf s i)" "length (buffers s') = length (buffers s)"
proof -
  have b: "buf s' j = (if j = i then (buf s i)\<lparr>b_count := b_count (buf s i) + 1\<rparr> else buf s j)" for j using i by (simp add: s'_def)
  have e: "\<exists>c. buf s' j = (buf s j)\<lparr>b_count := c\<rparr>" for j
    by (rule exI [of _ "b_count (buf s' j)"]) (simp add: b)
  have d: "same_disk s s'" "length (buffers s') = length (buffers s)" "hash_table s' = hash_table s" "free_list s' = free_list s"
    by (simp_all add: s'_def same_disk_def tables_kept_def)
  show "cache_ok B s'" "block_view s' p = block_view s p" using cache_ok_view [OF ok d(1) e d(2-4)] by simp_all
  show "others_kept i s s'" "addr_of (buf s' i) = addr_of (buf s i)" "b_count (buf s' i) = b_count (buf s i) + 1"
    "b_dirt (buf s' i) = b_dirt (buf s i)" "length (buffers s') = length (buffers s)"
    using d(2) same_diskD(4) [OF d(1)] by (simp_all add: b others_kept_def addr_of_def)
qed

lemma others_kept_trans: "others_kept t s s1 \<Longrightarrow> others_kept t s1 s2 \<Longrightarrow> others_kept t s s2"
  using tables_kept_trans [of s s1 s2] by (simp add: others_kept_def)

lemma getblk_ok:
  assumes ok: "cache_ok B s" and p: "(d, b) \<in> B"
    and room: "\<exists>i<length (buffers s). b_count (buf s i) = 0 \<or> addr_of (buf s i) = (d, b)"
  shows "\<exists>bh s'. getblk (ucast d) (ucast b) s = Inr (bh, s') \<and> cache_ok B s' \<and> bh < length (buffers s) \<and> addr_of (buf s' bh) = (d, b) \<and>
    b_count (buf s' bh) = b_count (buf s bh) + 1 \<and> (b_count (buf s bh) = 0 \<or> addr_of (buf s bh) = (d, b)) \<and>
    others_kept bh s s' \<and> (\<forall>q\<in>B. block_view s' q = block_view s q)"
proof -
  let ?U = "{..<length (buffers s)}" and ?up = "\<lambda>t. upd_buf t (\<lambda>b. b\<lparr>b_count := b_count b + 1\<rparr>) s"
  have ok': "hash_ok ?U s" "free_ok ?U s" "contents_ok B s" using ok by (simp_all add: cache_ok_def)
  have d0: "d \<noteq> 0" using valid_dev [OF contents_ok_blocks(1) [OF ok'(3) p]] by simp
  from find_buffer_spec [OF ok'(1) d0, of b] obtain r where r: "find_buffer (ucast d) (ucast b) s = Inr r"
    "case r of None \<Rightarrow> \<forall>i\<in>?U. addr_of (buf s i) \<noteq> (d, b) | Some i \<Rightarrow> i \<in> ?U \<and> addr_of (buf s i) = (d, b)" by blast
  show ?thesis
  proof (cases r)
    case (Some i)
    then have i: "i < length (buffers s)" "addr_of (buf s i) = (d, b)" using r(2) by auto
    have "getblk (ucast d) (ucast b) s = Inr (i, ?up i)"
      unfolding getblk_def using get_hash_table_hit [OF ok _ i] r(1) Some by (subst getblk_loop.simps) simp
    then show ?thesis using count_up [OF ok i(1)] i by auto
  next
    case None
    then have none: "\<forall>i<length (buffers s). addr_of (buf s i) \<noteq> (d, b)" using r(2) by auto
    have lk: "\<forall>i\<in>?U. b_lock (buf s i) = 0" using contents_okD(1) [OF ok'(3)] by auto
    from free_buffer_spec [OF ok'(2) refl lk] room none obtain h t where t: "free_list s = Some h"
      "free_buffer (length (buffers s)) h s = Inr (Some t)" "t < length (buffers s)" "b_count (buf s t) = 0"
      by (fastforce split: option.splits)
    note up = count_up [OF ok t(3)]
    have none1: "\<forall>i<length (buffers (?up t)). addr_of (buf (?up t) i) \<noteq> (d, b)"
      using none t(3) by (auto simp: nth_list_update addr_of_def)
    from getblk_miss [OF up(1) p _ none1, of t] t(3) obtain s1 s2 s3 s' where
      m: "remove_from_queues t (?up t) = Inr s1" "(if b_dirt (buf s1 t) \<noteq> 0 then sync_dev (ucast (b_dev (buf s1 t))) s1 else Inr s1) = Inr s2"
      "s3 = upd_buf t (\<lambda>h. h\<lparr>b_dev := d, b_blocknr := b, b_dirt := 0, b_uptodate := 0\<rparr>) s2"
      "find_buffer (ucast d) (ucast b) s3 = Inr None" "insert_into_queues t s3 = Inr s'" "cache_ok B s'" "others_kept t (?up t) s'"
      "addr_of (buf s' t) = (d, b)" "b_count (buf s' t) = b_count (buf (?up t) t)" "\<forall>q\<in>B. block_view s' q = block_view (?up t) q"
      by auto
    have "getblk (ucast d) (ucast b) s = Inr (t, s')"
      unfolding getblk_def using get_hash_table_miss [OF r(1) [unfolded None]] t m(1,2,4,5)
      by (subst getblk_loop.simps) (simp add: m(3) Let_def)
    then show ?thesis using m(6-10) up(2,3,5) t(3,4) others_kept_trans [OF up(3) m(7)] by auto
  qed
qed

lemma bread_ok:
  assumes ok: "cache_ok B s" and p: "(d, b) \<in> B"
    and room: "\<exists>i<length (buffers s). b_count (buf s i) = 0 \<or> addr_of (buf s i) = (d, b)"
  shows "\<exists>bh s'. bread (ucast d) (ucast b) s = Inr (Some bh, s') \<and> cache_ok B s' \<and> bh < length (buffers s) \<and> addr_of (buf s' bh) = (d, b) \<and>
    (b_count (buf s bh) = 0 \<or> addr_of (buf s bh) = (d, b)) \<and> b_uptodate (buf s' bh) \<noteq> 0 \<and> b_data (buf s' bh) = block_view s (d, b) \<and> b_count (buf s' bh) = b_count (buf s bh) + 1 \<and>
    others_kept bh s s' \<and> (\<forall>q\<in>B. block_view s' q = block_view s q)"
proof -
  from getblk_ok [OF assms] obtain bh s1 where s1: "getblk (ucast d) (ucast b) s = Inr (bh, s1)" "cache_ok B s1" "bh < length (buffers s)"
    "addr_of (buf s1 bh) = (d, b)" "b_count (buf s1 bh) = b_count (buf s bh) + 1" "others_kept bh s s1"
    "\<forall>q\<in>B. block_view s1 q = block_view s q" and was: "b_count (buf s bh) = 0 \<or> addr_of (buf s bh) = (d, b)" by blast
  have c1: "contents_ok B s1" using s1(2) by (simp add: cache_ok_def)
  have d0: "d \<noteq> 0" using valid_dev [OF contents_ok_blocks(1) [OF c1 p]] by simp
  have l1: "length (buffers s1) = length (buffers s)" using s1(6) by (simp add: others_kept_def)
  have dev: "b_dev (buf s1 bh) \<noteq> 0" using s1(4) d0 by (simp add: addr_of_def)
  note v = block_view_buffer [OF c1 _ dev s1(4), unfolded l1, OF s1(3)]
  show ?thesis
  proof (cases "b_uptodate (buf s1 bh) = 0")
    case False
    then have "bread (ucast d) (ucast b) s = Inr (Some bh, s1)" using s1(1) by (simp add: bread_def)
    then show ?thesis using s1 was v False p by auto
  next
    case True
    note D = contents_okD [OF c1, of bh, unfolded l1, OF s1(3)]
    from ll_read [OF contents_ok_blocks(3) [OF c1], of bh] s1(3,4) l1 D(2) contents_ok_blocks(1) [OF c1 p] obtain s2 where
      s2: "ll_rw_block READ bh s1 = Inr s2" "hd_ready s2" "fs_frame s1 s2" "dsk_sectors s2 = dsk_sectors s1"
      "buffers s2 = (buffers s1)[bh := (buf s1 bh)\<lparr>b_data := disk_block s1 (d, b), b_uptodate := 1, b_dirt := 0, b_lock := 0\<rparr>]"
      by (auto simp: BLOCK_SIZE_def)
    have b2: "buf s2 i = (if i = bh then (buf s1 bh)\<lparr>b_data := disk_block s1 (d, b), b_uptodate := 1, b_dirt := 0, b_lock := 0\<rparr> else buf s1 i)" for i
      using s1(3) l1 by (simp add: s2(5))
    have l2: "length (buffers s2) = length (buffers s)" by (simp add: s2(5) l1)
    have hp: "hd_parts s2 = hd_parts s1" using s2(3) by (simp add: fs_frame_def)
    have disk: "disk_block s2 = disk_block s1" using s2(4) hp by (auto simp: disk_block_def)
    have "length (disk_block s1 (d, b)) = BLOCK_SIZE"
      using contents_ok_blocks(3) [OF c1] by (simp add: disk_block_def hd_ready_def BLOCK_SIZE_def split: prod.splits)
    then have "buffer_ok B (disk_block s2) (buf s2 i)" if "i < length (buffers s)" for i
      using contents_okD [OF c1, of i] that l1 p s1(4) dev by (auto simp: b2 disk buffer_ok_def addr_of_def)
    moreover have lab: "b_dev (buf s2 i) = b_dev (buf s1 i)" "addr_of (buf s2 i) = addr_of (buf s1 i)" for i by (simp_all add: b2 addr_of_def)
    ultimately have c2: "contents_ok B s2" using c1 s2(2) l1 l2 hp unfolding contents_ok_def by simp
    have "hash_ok {..<length (buffers s)} s2"
      by (rule hash_ok_cong [of _ s1]) (use s1(2) l1 l2 s2(3) in \<open>auto simp: cache_ok_def b2 hview_def fs_frame_def\<close>)
    moreover have "free_ok {..<length (buffers s)} s2"
      by (rule free_ok_cong [of _ s1]) (use s1(2) l1 s2(3) in \<open>auto simp: cache_ok_def b2 fview_def fs_frame_def\<close>)
    ultimately have ok2: "cache_ok B s2" using c2 s1(2) l1 l2 by (simp add: cache_ok_def)
    have v2: "block_view s2 q = block_view s1 q" if q: "q \<in> B" for q
    proof (cases "\<exists>j<length (buffers s). b_dev (buf s1 j) \<noteq> 0 \<and> addr_of (buf s1 j) = q")
      case True
      then obtain j where j: "j < length (buffers s)" "b_dev (buf s1 j) \<noteq> 0" "addr_of (buf s1 j) = q" by blast
      then show ?thesis using block_view_buffer [OF c2, of j q] block_view_buffer [OF c1, of j q] l1 l2 lab v s1(4) \<open>b_uptodate (buf s1 bh) = 0\<close>
        by (auto simp: b2 disk)
    next
      case False
      then show ?thesis using lab disk l1 l2 by (subst (1 2) block_view_disk) auto
    qed
    have "bread (ucast d) (ucast b) s = Inr (Some bh, s2)" using s1(1,3) l1 True s2(1) by (simp add: bread_def b2)
    moreover have "others_kept bh s s2" using s1(6) l1 l2 s2(3) by (simp add: others_kept_def b2 tables_kept_def fs_frame_def)
    ultimately show ?thesis using ok2 s1(3,4,5,7) was v v2 True p by (intro exI [of _ bh] exI [of _ s2]) (auto simp: b2 addr_of_def)
  qed
qed

lemma brelse_ok:
  assumes ok: "cache_ok B s" and i: "i < length (buffers s)" "b_count (buf s i) \<noteq> 0"
  shows "\<exists>s'. brelse i s = Inr s' \<and> cache_ok B s' \<and> others_kept i s s' \<and> b_count (buf s' i) = b_count (buf s i) - 1 \<and>
    block_view s' = block_view s"
proof -
  define s1 where "s1 = upd_buf i (\<lambda>b. b\<lparr>b_count := b_count b - 1\<rparr>) s"
  define s' where "s' = wake_up (buffer_wait_addr s1) s1"
  have "b_lock (buf s i) = 0" using ok i(1) contents_okD(1) unfolding cache_ok_def by blast
  then have e: "brelse i s = Inr s'" using i(2) by (simp add: brelse_def wait_on_buffer_def s1_def s'_def Let_def)
  have b: "buf s' j = (if j = i then (buf s i)\<lparr>b_count := b_count (buf s i) - 1\<rparr> else buf s j)" for j
    using i(1) by (simp add: s'_def s1_def)
  have c: "\<exists>c. buf s' j = (buf s j)\<lparr>b_count := c\<rparr>" for j by (rule exI [of _ "b_count (buf s' j)"]) (simp add: b)
  have d: "same_disk s s'" "length (buffers s') = length (buffers s)" "hash_table s' = hash_table s" "free_list s' = free_list s"
    by (simp_all add: s'_def s1_def same_disk_def tables_kept_def hd_ready_def error_free_def hd_idle_def served_def upd_buf_def)
  have "block_view s' = block_view s" by (rule ext) (rule cache_ok_view(2) [OF ok d(1) c d(2-4)])
  with cache_ok_view(1) [OF ok d(1) c d(2-4)] e d(2) same_diskD(4) [OF d(1)] show ?thesis by (simp add: b others_kept_def)
qed

subsection \<open>The cache as a store of blocks\<close>

datatype ('p, 'v, 'd) store_op = Get 'p | Put 'p 'v | Flush 'd

text \<open>The operations on a store that is a function from addresses to values, and on a system with a state.\<close>

fun store_run :: "('p, 'v, 'd) store_op list \<Rightarrow> ('p \<Rightarrow> 'v) \<Rightarrow> 'v list \<times> ('p \<Rightarrow> 'v)" where
  "store_run [] m = ([], m)"
| "store_run (Get p # ops) m = (case store_run ops m of (vs, m') \<Rightarrow> (m p # vs, m'))"
| "store_run (Put p v # ops) m = store_run ops (m(p := v))"
| "store_run (Flush d # ops) m = store_run ops m"

fun system_run :: "('p \<Rightarrow> 's \<Rightarrow> ('v \<times> 's) res) \<Rightarrow> ('p \<Rightarrow> 'v \<Rightarrow> 's \<Rightarrow> 's res) \<Rightarrow> ('d \<Rightarrow> 's \<Rightarrow> 's res) \<Rightarrow>
    ('p, 'v, 'd) store_op list \<Rightarrow> 's \<Rightarrow> ('v list \<times> 's) res" where
  "system_run rd wt fl [] s = Inr ([], s)"
| "system_run rd wt fl (Get p # ops) s =
     bindr (rd p s) (\<lambda>(v, s). bindr (system_run rd wt fl ops s) (\<lambda>(vs, s). Inr (v # vs, s)))"
| "system_run rd wt fl (Put p v # ops) s = bindr (wt p v s) (system_run rd wt fl ops)"
| "system_run rd wt fl (Flush d # ops) s = bindr (fl d s) (system_run rd wt fl ops)"

fun op_within :: "'p set \<Rightarrow> ('v \<Rightarrow> bool) \<Rightarrow> 'd set \<Rightarrow> ('p, 'v, 'd) store_op \<Rightarrow> bool" where
  "op_within B good D (Get p) \<longleftrightarrow> p \<in> B"
| "op_within B good D (Put p v) \<longleftrightarrow> p \<in> B \<and> good v"
| "op_within B good D (Flush d) \<longleftrightarrow> d \<in> D"

locale block_store =
  fixes ok :: "'s \<Rightarrow> bool" and view :: "'s \<Rightarrow> 'p \<Rightarrow> 'v" and B :: "'p set" and good :: "'v \<Rightarrow> bool" and D :: "'d set"
    and rd :: "'p \<Rightarrow> 's \<Rightarrow> ('v \<times> 's) res" and wt :: "'p \<Rightarrow> 'v \<Rightarrow> 's \<Rightarrow> 's res" and fl :: "'d \<Rightarrow> 's \<Rightarrow> 's res"
  assumes rd: "\<lbrakk>ok s; p \<in> B\<rbrakk> \<Longrightarrow> \<exists>s'. rd p s = Inr (view s p, s') \<and> ok s' \<and> (\<forall>q\<in>B. view s' q = view s q)"
    and wt: "\<lbrakk>ok s; p \<in> B; good v\<rbrakk> \<Longrightarrow> \<exists>s'. wt p v s = Inr s' \<and> ok s' \<and> (\<forall>q\<in>B. view s' q = (if q = p then v else view s q))"
    and fl: "\<lbrakk>ok s; d \<in> D\<rbrakk> \<Longrightarrow> \<exists>s'. fl d s = Inr s' \<and> ok s' \<and> (\<forall>q\<in>B. view s' q = view s q)"
begin

lemma run_store:
  "\<lbrakk>ok s; \<forall>q\<in>B. view s q = m q; \<forall>x\<in>set ops. op_within B good D x\<rbrakk> \<Longrightarrow>
     \<exists>s'. system_run rd wt fl ops s = Inr (fst (store_run ops m), s') \<and> ok s' \<and> (\<forall>q\<in>B. view s' q = snd (store_run ops m) q)"
proof (induction ops arbitrary: s m)
  case Nil
  then show ?case by simp
next
  case (Cons x ops)
  show ?case
  proof (cases x)
    case (Get p)
    then have p: "p \<in> B" using Cons.prems(3) by simp
    from rd [OF Cons.prems(1) p] obtain s1 where s1: "rd p s = Inr (view s p, s1)" "ok s1" "\<forall>q\<in>B. view s1 q = view s q" by blast
    from Cons.IH [OF s1(2), of m] s1(3) Cons.prems obtain s2 where "system_run rd wt fl ops s1 = Inr (fst (store_run ops m), s2)"
      "ok s2" "\<forall>q\<in>B. view s2 q = snd (store_run ops m) q" by auto
    then show ?thesis using s1 Get p Cons.prems(2) by (auto simp: split_beta)
  next
    case (Put p v)
    then have p: "p \<in> B" "good v" using Cons.prems(3) by simp_all
    from wt [OF Cons.prems(1) p] obtain s1 where s1: "wt p v s = Inr s1" "ok s1" "\<forall>q\<in>B. view s1 q = (if q = p then v else view s q)" by blast
    have m: "\<forall>q\<in>B. view s1 q = (m(p := v)) q" and w: "\<forall>x\<in>set ops. op_within B good D x" using s1(3) Cons.prems(2,3) by auto
    from Cons.IH [OF s1(2) m w] show ?thesis using s1(1) by (simp add: Put del: fun_upd_apply)
  next
    case (Flush d)
    then have d: "d \<in> D" using Cons.prems(3) by simp
    from fl [OF Cons.prems(1) d] obtain s1 where s1: "fl d s = Inr s1" "ok s1" "\<forall>q\<in>B. view s1 q = view s q" by blast
    from Cons.IH [OF s1(2), of m] s1(3) Cons.prems s1(1) Flush show ?thesis by auto
  qed
qed

end

text \<open>The calls with which the kernel reads and changes a block.\<close>

definition get_block :: "u16 \<times> u16 \<Rightarrow> 'a fs_state_scheme \<Rightarrow> (u8 list \<times> 'a fs_state_scheme) res" where
  "get_block p s =
     bindr (bread (ucast (fst p)) (ucast (snd p)) s) (\<lambda>(r, s). deref ''bread'' r (\<lambda>bh.
     bindr (brelse bh s) (\<lambda>s'. Inr (b_data (buf s bh), s'))))"

definition put_block :: "u16 \<times> u16 \<Rightarrow> u8 list \<Rightarrow> 'a fs_state_scheme \<Rightarrow> 'a fs_state_scheme res" where
  "put_block p l s =
     bindr (bread (ucast (fst p)) (ucast (snd p)) s) (\<lambda>(r, s). deref ''bread'' r (\<lambda>bh.
     brelse bh (upd_buf bh (\<lambda>b. b\<lparr>b_data := l, b_dirt := 1\<rparr>) s)))"

text \<open>A cache at rest: some buffer is unused, and no use count is about to overflow.\<close>

definition store_ok :: "(u16 \<times> u16) set \<Rightarrow> 'a fs_state_scheme \<Rightarrow> bool" where
  "store_ok B s \<longleftrightarrow> cache_ok B s \<and> (\<exists>i<length (buffers s). b_count (buf s i) = 0) \<and> (\<forall>i<length (buffers s). b_count (buf s i) \<noteq> 255)"

lemma store_ok_counts:
  assumes "store_ok B s" "cache_ok B s'" "length (buffers s') = length (buffers s)" "\<And>i. i < length (buffers s) \<Longrightarrow> b_count (buf s' i) = b_count (buf s i)"
  shows "store_ok B s'"
  using assms by (auto simp: store_ok_def)

lemma count_down: "c \<noteq> 255 \<Longrightarrow> c + 1 \<noteq> (0 :: u8)" "c + 1 - 1 = (c :: u8)"
  by (auto simp: eq_neg_iff_add_eq_0 [symmetric])

lemma others_kept_counts: "others_kept t s s' \<Longrightarrow> b_count (buf s' t) = b_count (buf s t) \<Longrightarrow> i < length (buffers s) \<Longrightarrow>
    b_count (buf s' i) = b_count (buf s i)"
  by (cases "i = t") (simp_all add: others_kept_def)

lemma filled:
  assumes ok: "cache_ok B s" and i: "i < length (buffers s)" "addr_of (buf s i) \<in> B" "u \<noteq> 0" "length l = BLOCK_SIZE"
  defines "s' \<equiv> upd_buf i (\<lambda>b. b\<lparr>b_data := l, b_uptodate := u, b_dirt := 1\<rparr>) s"
  shows "cache_ok B s'" "q \<in> B \<Longrightarrow> block_view s' q = (if q = addr_of (buf s i) then l else block_view s q)"
proof -
  have c: "contents_ok B s" using ok by (simp add: cache_ok_def)
  have dev: "b_dev (buf s i) \<noteq> 0" using valid_dev [OF contents_ok_blocks(1) [OF c i(2)]] by (simp add: addr_of_def)
  have b: "buf s' j = (if j = i then (buf s i)\<lparr>b_data := l, b_uptodate := u, b_dirt := 1\<rparr> else buf s j)" for j using i(1) by (simp add: s'_def)
  have l: "length (buffers s') = length (buffers s)" by (simp add: s'_def)
  have disk: "disk_block s' = disk_block s" by (auto simp: disk_block_def s'_def)
  have lab: "b_dev (buf s' j) = b_dev (buf s j)" "addr_of (buf s' j) = addr_of (buf s j)" for j by (simp_all add: b addr_of_def)
  have "buffer_ok B (disk_block s') (buf s' j)" if j: "j < length (buffers s)" for j
    using contents_okD [OF c j] i dev by (auto simp: b disk buffer_ok_def addr_of_def)
  then have c': "contents_ok B s'" using c l lab unfolding contents_ok_def by (simp add: s'_def)
  have tab: "hash_table s' = hash_table s" "free_list s' = free_list s" by (simp_all add: s'_def)
  have "hash_ok {..<length (buffers s)} s'"
    by (rule hash_ok_cong [of _ s]) (use ok l tab in \<open>auto simp: cache_ok_def b hview_def\<close>)
  moreover have "free_ok {..<length (buffers s)} s'"
    by (rule free_ok_cong [of _ s]) (use ok tab in \<open>auto simp: cache_ok_def b fview_def\<close>)
  ultimately show "cache_ok B s'" using c' ok l by (simp add: cache_ok_def)
  assume q: "q \<in> B"
  show "block_view s' q = (if q = addr_of (buf s i) then l else block_view s q)"
  proof (cases "\<exists>j<length (buffers s). b_dev (buf s j) \<noteq> 0 \<and> addr_of (buf s j) = q")
    case True
    then obtain j where j: "j < length (buffers s)" "b_dev (buf s j) \<noteq> 0" "addr_of (buf s j) = q" by blast
    have "q = addr_of (buf s i) \<longleftrightarrow> j = i" using contents_okD(7) [OF c j(1) i(1) j(2)] j(3) by auto
    then show ?thesis using block_view_buffer [OF c', of j q] block_view_buffer [OF c j] j l lab i(3) by (auto simp: b disk)
  next
    case False
    then have "q \<noteq> addr_of (buf s i)" using i(1) dev by auto
    then show ?thesis using False lab disk l by (subst (1 2) block_view_disk) auto
  qed
qed

lemma dirtied:
  assumes "cache_ok B s" "i < length (buffers s)" "addr_of (buf s i) \<in> B" "b_uptodate (buf s i) \<noteq> 0" "length l = BLOCK_SIZE"
  defines "s' \<equiv> upd_buf i (\<lambda>b. b\<lparr>b_data := l, b_dirt := 1\<rparr>) s"
  shows "cache_ok B s'" "q \<in> B \<Longrightarrow> block_view s' q = (if q = addr_of (buf s i) then l else block_view s q)"
proof -
  have "(buf s i)\<lparr>b_data := l, b_dirt := 1\<rparr> = (buf s i)\<lparr>b_data := l, b_uptodate := b_uptodate (buf s i), b_dirt := 1\<rparr>"
    by (cases "buf s i") simp
  then have "s' = upd_buf i (\<lambda>b. b\<lparr>b_data := l, b_uptodate := b_uptodate (buf s i), b_dirt := 1\<rparr>) s"
    by (simp add: s'_def upd_buf_def)
  then show "cache_ok B s'" "q \<in> B \<Longrightarrow> block_view s' q = (if q = addr_of (buf s i) then l else block_view s q)"
    using filled [OF assms(1-5)] by simp_all
qed

text \<open>A buffer whose contents are given up shows what is on the disk.\<close>

lemma discarded:
  assumes ok: "cache_ok B s" and i: "i < length (buffers s)"
  defines "s' \<equiv> upd_buf i (\<lambda>b. b\<lparr>b_dirt := 0, b_uptodate := 0\<rparr>) s"
  shows "cache_ok B s'" "q \<noteq> addr_of (buf s i) \<Longrightarrow> block_view s' q = block_view s q"
proof -
  have c: "contents_ok B s" using ok by (simp add: cache_ok_def)
  have b: "buf s' j = (if j = i then (buf s i)\<lparr>b_dirt := 0, b_uptodate := 0\<rparr> else buf s j)" for j using i by (simp add: s'_def)
  have l: "length (buffers s') = length (buffers s)" by (simp add: s'_def)
  have disk: "disk_block s' = disk_block s" by (auto simp: disk_block_def s'_def)
  have lab: "b_dev (buf s' j) = b_dev (buf s j)" "addr_of (buf s' j) = addr_of (buf s j)" for j by (simp_all add: b addr_of_def)
  have "buffer_ok B (disk_block s') (buf s' j)" if j: "j < length (buffers s)" for j
    using contents_okD [OF c j] by (auto simp: b disk buffer_ok_def addr_of_def)
  then have c': "contents_ok B s'" using c l lab unfolding contents_ok_def by (simp add: s'_def)
  have tab: "hash_table s' = hash_table s" "free_list s' = free_list s" by (simp_all add: s'_def)
  have "hash_ok {..<length (buffers s)} s'"
    by (rule hash_ok_cong [of _ s]) (use ok l tab in \<open>auto simp: cache_ok_def b hview_def\<close>)
  moreover have "free_ok {..<length (buffers s)} s'"
    by (rule free_ok_cong [of _ s]) (use ok tab in \<open>auto simp: cache_ok_def b fview_def\<close>)
  ultimately show "cache_ok B s'" using c' ok l by (simp add: cache_ok_def)
  assume q: "q \<noteq> addr_of (buf s i)"
  show "block_view s' q = block_view s q"
  proof (cases "\<exists>j<length (buffers s). b_dev (buf s j) \<noteq> 0 \<and> addr_of (buf s j) = q")
    case True
    then obtain j where j: "j < length (buffers s)" "b_dev (buf s j) \<noteq> 0" "addr_of (buf s j) = q" by blast
    then have "j \<noteq> i" using q by auto
    then show ?thesis using block_view_buffer [OF c', of j q] block_view_buffer [OF c j] j l lab by (auto simp: b disk)
  next
    case False
    then show ?thesis using lab disk l by (subst (1 2) block_view_disk) auto
  qed
qed

lemma get_block_ok:
  assumes ok: "store_ok B s" and p: "p \<in> B"
  shows "\<exists>s'. get_block p s = Inr (block_view s p, s') \<and> store_ok B s' \<and> (\<forall>q\<in>B. block_view s' q = block_view s q)"
proof -
  obtain d b where db: "p = (d, b)" by fastforce
  from bread_ok [of B s d b] ok p db obtain bh s1 where s1: "bread (ucast d) (ucast b) s = Inr (Some bh, s1)" "cache_ok B s1"
    "bh < length (buffers s)" "b_data (buf s1 bh) = block_view s p" "b_count (buf s1 bh) = b_count (buf s bh) + 1" "others_kept bh s s1"
    "\<forall>q\<in>B. block_view s1 q = block_view s q" by (auto simp: store_ok_def)
  have c: "b_count (buf s bh) \<noteq> 255" using ok s1(3) by (simp add: store_ok_def)
  from brelse_ok [OF s1(2), of bh] s1(3,5,6) count_down(1) [OF c] obtain s2 where s2: "brelse bh s1 = Inr s2" "cache_ok B s2"
    "others_kept bh s1 s2" "b_count (buf s2 bh) = b_count (buf s1 bh) - 1" "block_view s2 = block_view s1"
    by (auto simp: others_kept_def)
  have k: "others_kept bh s s2" by (rule others_kept_trans [OF s1(6) s2(3)])
  have "store_ok B s2"
    by (rule store_ok_counts [OF ok s2(2)]) (use k others_kept_counts [OF k] s1(5) s2(4) in \<open>auto simp: others_kept_def\<close>)
  then show ?thesis using s1 s2 db by (simp add: get_block_def)
qed

lemma put_block_ok:
  assumes ok: "store_ok B s" and p: "p \<in> B" and l: "length l = BLOCK_SIZE"
  shows "\<exists>s'. put_block p l s = Inr s' \<and> store_ok B s' \<and> (\<forall>q\<in>B. block_view s' q = (if q = p then l else block_view s q))"
proof -
  obtain d b where db: "p = (d, b)" by fastforce
  from bread_ok [of B s d b] ok p db obtain bh s1 where s1: "bread (ucast d) (ucast b) s = Inr (Some bh, s1)" "cache_ok B s1"
    "bh < length (buffers s)" "addr_of (buf s1 bh) = p" "b_uptodate (buf s1 bh) \<noteq> 0" "b_count (buf s1 bh) = b_count (buf s bh) + 1"
    "others_kept bh s s1" "\<forall>q\<in>B. block_view s1 q = block_view s q" by (auto simp: store_ok_def)
  define s2 where "s2 = upd_buf bh (\<lambda>b. b\<lparr>b_data := l, b_dirt := 1\<rparr>) s1"
  have i: "bh < length (buffers s1)" using s1(3,7) by (simp add: others_kept_def)
  note s2 = dirtied [OF s1(2) i p [folded s1(4)] s1(5) l, folded s2_def]
  have k2: "others_kept bh s s2" "b_count (buf s2 bh) = b_count (buf s bh) + 1" "length (buffers s2) = length (buffers s)"
    using s1(6,7) i by (simp_all add: others_kept_def s2_def tables_kept_def)
  have c: "b_count (buf s bh) \<noteq> 255" using ok s1(3) by (simp add: store_ok_def)
  from brelse_ok [OF s2(1), of bh] s1(3) k2 count_down(1) [OF c] obtain s3 where s3: "brelse bh s2 = Inr s3" "cache_ok B s3"
    "others_kept bh s2 s3" "b_count (buf s3 bh) = b_count (buf s2 bh) - 1" "block_view s3 = block_view s2"
    by auto
  have k: "others_kept bh s s3" by (rule others_kept_trans [OF k2(1) s3(3)])
  have "store_ok B s3"
    by (rule store_ok_counts [OF ok s3(2)]) (use k others_kept_counts [OF k] k2(2) s3(4) in \<open>auto simp: others_kept_def\<close>)
  then show ?thesis using s1 s2(2) s3 db by (simp add: put_block_def flip: s2_def)
qed

lemma sync_dev_store:
  assumes ok: "store_ok B s" and d: "d \<noteq> 0"
  shows "\<exists>s'. sync_dev (ucast d) s = Inr s' \<and> store_ok B s' \<and> (\<forall>q\<in>B. block_view s' q = block_view s q) \<and>
    (\<forall>b. (d, b) \<in> B \<longrightarrow> disk_block s' (d, b) = block_view s (d, b))"
proof -
  have c: "cache_ok B s" "contents_ok B s" using ok by (simp_all add: store_ok_def cache_ok_def)
  from sync_dev_ok [OF c(2) d] obtain s' where s': "sync_dev (ucast d) s = Inr s'" "synced B s s'"
    "\<forall>i<length (buffers s). b_dev (buf s i) = d \<longrightarrow> b_dirt (buf s' i) = 0" by blast
  note sb = synced_buf [OF s'(2)]
  have sy: "contents_ok B s'" "fs_frame s s'" "length (buffers s') = length (buffers s)" "\<forall>p\<in>B. block_view s' p = block_view s p"
    using s'(2) by (simp_all add: synced_def)
  have "hash_ok {..<length (buffers s)} s'"
    by (rule hash_ok_cong [of _ s]) (use c sb(5) sy in \<open>auto simp: cache_ok_def fs_frame_def\<close>)
  moreover have "free_ok {..<length (buffers s)} s'"
    by (rule free_ok_cong [of _ s]) (use c sb(6) sy in \<open>auto simp: cache_ok_def fs_frame_def\<close>)
  ultimately have c': "cache_ok B s'" using c(1) sy by (simp add: cache_ok_def)
  have "store_ok B s'" by (rule store_ok_counts [OF ok c' sy(3)]) (rule sb(4))
  moreover have "disk_block s' (d, b) = block_view s (d, b)" if p: "(d, b) \<in> B" for b
  proof (cases "\<exists>j<length (buffers s). b_dev (buf s j) \<noteq> 0 \<and> addr_of (buf s j) = (d, b)")
    case True
    then obtain j where j: "j < length (buffers s)" "b_dev (buf s j) \<noteq> 0" "addr_of (buf s j) = (d, b)" by blast
    then have "b_dirt (buf s' j) = 0" using s'(3) by (simp add: addr_of_def)
    then show ?thesis using block_view_buffer [OF sy(1), of j "(d, b)"] contents_okD(6) [OF sy(1), of j] j sb(1,2) [OF j(1)] sy(3,4) p by auto
  next
    case False
    then have "block_view s' (d, b) = disk_block s' (d, b)" using sb(1,2) sy(3) by (intro block_view_disk) auto
    then show ?thesis using sy(4) p by auto
  qed
  ultimately show ?thesis using s'(1) sy(4) by blast
qed

interpretation cache_store: block_store "store_ok B" block_view B "\<lambda>l. length l = BLOCK_SIZE" "{d :: u16. d \<noteq> 0}"
    get_block put_block "\<lambda>d. sync_dev (ucast d)"
  for B :: "(u16 \<times> u16) set"
proof unfold_locales
  fix s :: "'a fs_state_scheme" and p v and d :: u16
  assume s: "store_ok B s"
  show "\<exists>s'. get_block p s = Inr (block_view s p, s') \<and> store_ok B s' \<and> (\<forall>q\<in>B. block_view s' q = block_view s q)" if "p \<in> B"
    by (rule get_block_ok [OF s that])
  show "\<exists>s'. put_block p v s = Inr s' \<and> store_ok B s' \<and> (\<forall>q\<in>B. block_view s' q = (if q = p then v else block_view s q))"
    if "p \<in> B" "length v = BLOCK_SIZE"
    by (rule put_block_ok [OF s that])
  show "\<exists>s'. sync_dev (ucast d) s = Inr s' \<and> store_ok B s' \<and> (\<forall>q\<in>B. block_view s' q = block_view s q)" if "d \<in> {d. d \<noteq> 0}"
    using sync_dev_store [OF s, of d] that by blast
qed

abbreviation cache_run :: "(u16 \<times> u16, u8 list, u16) store_op list \<Rightarrow> 'a fs_state_scheme \<Rightarrow> (u8 list list \<times> 'a fs_state_scheme) res" where
  "cache_run \<equiv> system_run get_block put_block (\<lambda>d. sync_dev (ucast d))"

text \<open>
  Property C22.  On a disk that reports no errors, whatever the order in which the blocks are read and changed through the buffer cache, and whatever
  buffers have to be written back and given to other blocks on the way, each read gives what was last put into the
  block, as in a store with a cell per block, the invariant of the cache is kept, and \<open>sync_dev\<close> leaves on
  the disk what was last put into each block of the device.
\<close>

theorem cache_refines_store:
  assumes "store_ok B s" and "\<forall>x\<in>set ops. op_within B (\<lambda>l. length l = BLOCK_SIZE) {d. d \<noteq> 0} x" and "d \<noteq> 0"
  shows "\<exists>s' s''. cache_run ops s = Inr (fst (store_run ops (block_view s)), s') \<and> store_ok B s' \<and>
    sync_dev (ucast d) s' = Inr s'' \<and> (\<forall>b. (d, b) \<in> B \<longrightarrow> disk_block s'' (d, b) = snd (store_run ops (block_view s)) (d, b))"
proof -
  from cache_store.run_store [OF assms(1) _ assms(2), of "block_view s"] obtain s' where
    s': "cache_run ops s = Inr (fst (store_run ops (block_view s)), s')" "store_ok B s'"
    "\<forall>q\<in>B. block_view s' q = snd (store_run ops (block_view s)) q" by auto
  from sync_dev_store [OF s'(2) assms(3)] s' show ?thesis by fastforce
qed

text \<open>The first drive of the sample state as one device, with more blocks than the cache has buffers.\<close>

definition sample_blocks :: "(u16 \<times> u16) set" where
  "sample_blocks = {0x300} \<times> {b. unat b < 40000}"

lemma sample_buffers: "length (buffers sample_kernel) = 4"
  "i < 4 \<Longrightarrow> buf sample_kernel i = init_head 4 i sample_head"
  by (simp_all add: sample_kernel_def)

lemma sample_parts: "hd_parts sample_kernel ! 0 = \<lparr>start_sect = 0, nr_sects = 83300\<rparr>"
  by (simp add: sample_kernel_def)

lemma sample_pos: "p \<in> sample_blocks \<Longrightarrow> block_pos (hd_parts sample_kernel) p = (0, 2 * unat (snd p))"
  by (auto simp: sample_blocks_def block_pos_def MINOR_def sample_parts Let_def)

lemma sample_store_ok: "store_ok sample_blocks sample_kernel"
proof -
  let ?s = sample_kernel
  have v: "valid_block (hd_parts ?s) p" if "p \<in> sample_blocks" for p
    using that by (auto simp: sample_blocks_def valid_block_def MINOR_def MAJOR_def sample_parts Let_def)
  have "blocks_apart (hd_parts ?s) sample_blocks"
    unfolding blocks_apart_def
  proof (intro ballI impI)
    fix p q assume pq: "p \<in> sample_blocks" "q \<in> sample_blocks" "p \<noteq> q"
    then have "unat (snd p) \<noteq> unat (snd q)" by (auto simp: sample_blocks_def word_unat_eq_iff)
    then show "fst (block_pos (hd_parts ?s) p) \<noteq> fst (block_pos (hd_parts ?s) q) \<or>
        snd (block_pos (hd_parts ?s) p) + 1 < snd (block_pos (hd_parts ?s) q) \<or> snd (block_pos (hd_parts ?s) q) + 1 < snd (block_pos (hd_parts ?s) p)"
      using pq by (simp add: sample_pos) linarith
  qed
  moreover have "error_free ?s" "\<And>d k. length (dsk_sectors ?s d k) = 512" by (simp_all add: error_free_def sample_kernel_def)
  then have "hd_ready ?s" using sample_idle by (simp add: hd_ready_def)
  moreover have "buffer_ok sample_blocks (disk_block ?s) (buf ?s i)" "b_dev (buf ?s i) = 0" if "i < 4" for i
    using that by (simp_all add: sample_buffers buffer_ok_def init_head_def sample_head_def)
  ultimately have c: "contents_ok sample_blocks ?s" using v by (simp add: contents_ok_def sample_buffers(1))
  have h: "hash_ok {..<4} ?s"
  proof -
    have "queue_of {..<4} (buffers ?s) k = {}" for k by (auto simp: queue_of_def sample_buffers init_head_def)
    moreover have "hash_table ?s ! k = None" "length (hash_table ?s) = NR_HASH" if "k < NR_HASH" for k
      using that by (simp_all add: sample_kernel_def)
    ultimately have "\<exists>xs. hpath (nx_of (buffers ?s)) (hash_table ?s ! k) xs \<and> hback (pv_of (buffers ?s)) None xs \<and> distinct xs \<and>
        set xs = queue_of {..<4} (buffers ?s) k" if "k < NR_HASH" for k using that by (intro exI [of _ "[]"]) simp
    moreover have "length (hash_table ?s) = NR_HASH" by (simp add: sample_kernel_def)
    ultimately show ?thesis by (simp add: hash_ok_def sample_buffers init_head_def)
  qed
  have f: "free_ok {..<4} ?s"
    unfolding free_ok_def
    by (intro conjI exI [of _ "[0, 1, 2, 3]"] bexI [of _ 0])
      (auto simp: cyc_def linked_def sample_buffers init_head_def sample_kernel_def)
  have "b_count (buf ?s i) = 0" if "i < 4" for i using that by (simp add: sample_buffers init_head_def)
  moreover from this [of 0] have "\<exists>i<4. b_count (buf ?s i) = 0" by (intro exI [of _ 0]) simp
  ultimately show ?thesis using c h f by (simp add: store_ok_def cache_ok_def sample_buffers(1))
qed

text \<open>Six blocks are changed with four buffers, then the first is read.\<close>

theorem cache_refines_store_witness:
  "\<exists>s' s''. cache_run (map (\<lambda>b. Put (0x300, b) (replicate 1024 (ucast b))) [1, 2, 3, 4, 5, 6] @ [Get (0x300, 1)]) sample_kernel =
     Inr ([replicate 1024 1], s') \<and> sync_dev 0x300 s' = Inr s'' \<and> disk_block s'' (0x300, 6) = replicate 1024 6"
proof -
  let ?ops = "map (\<lambda>b. Put (0x300, b) (replicate 1024 (ucast b))) [1, 2, 3, 4, 5, 6] @ [Get (0x300, 1)] :: (u16 \<times> u16, u8 list, u16) store_op list"
  have w: "\<forall>x\<in>set ?ops. op_within sample_blocks (\<lambda>l. length l = BLOCK_SIZE) {d. d \<noteq> 0} x"
    by (simp add: sample_blocks_def BLOCK_SIZE_def)
  have "(0x300, 6) \<in> sample_blocks" by (simp add: sample_blocks_def)
  then show ?thesis using cache_refines_store [OF sample_store_ok w, of "0x300"] by (auto simp: fun_upd_def)
qed

end
