(* ===== verification/Linux_Exec.thy ===== *)
theory Linux_Exec
  imports Linux_Exit
begin

unbundle bit_operations_syntax

section \<open>Loading programs in linux-0.01 (\<open>fs/exec.c\<close>, \<open>include/a.out.h\<close>)\<close>

text \<open>
  \<open>do_execve\<close> replaces the program of the running process.  The strings of its arguments are copied into
  pages of the kernel while the old program is still mapped; then the old pages are given up, the new pages are
  mapped at the top of the 64 megabytes of the process and the file is read below them.  The byte memory
  \<open>user\<close> of the process changes with the page tables: after \<open>change_ldt\<close> it holds the argument pages and
  zeros elsewhere, because a page that is touched for the first time is a cleared one.  The four words of the
  return frame that \<open>eip\<close> points to are a list.  \<open>sys_exit\<close> does not return.
\<close>

subsection \<open>The header of an executable\<close>

record exec =
  a_magic :: u32
  a_text :: u32
  a_data :: u32
  a_bss :: u32
  a_syms :: u32
  a_entry :: u32
  a_trsize :: u32
  a_drsize :: u32

definition exec_of :: "u8 list \<Rightarrow> exec" where
  "exec_of l = \<lparr>a_magic = get32 l 0, a_text = get32 l 4, a_data = get32 l 8, a_bss = get32 l 12, a_syms = get32 l 16,
     a_entry = get32 l 20, a_trsize = get32 l 24, a_drsize = get32 l 28\<rparr>"

definition N_MAGIC :: "exec \<Rightarrow> u32" where "N_MAGIC x = a_magic x"

definition OMAGIC :: u32 where "OMAGIC = 0x107"
definition NMAGIC :: u32 where "NMAGIC = 0x108"
definition ZMAGIC :: u32 where "ZMAGIC = 0x10B"

definition N_BADMAG :: "exec \<Rightarrow> bool" where
  "N_BADMAG x \<longleftrightarrow> N_MAGIC x \<noteq> OMAGIC \<and> N_MAGIC x \<noteq> NMAGIC \<and> N_MAGIC x \<noteq> ZMAGIC"

definition SEGMENT_SIZE :: u32 where "SEGMENT_SIZE = 1024"
definition sizeof_exec :: u32 where "sizeof_exec = 32"

definition N_HDROFF :: "exec \<Rightarrow> u32" where "N_HDROFF x = SEGMENT_SIZE - sizeof_exec"

definition N_TXTOFF :: "exec \<Rightarrow> u32" where
  "N_TXTOFF x = (if N_MAGIC x = ZMAGIC then N_HDROFF x + sizeof_exec else sizeof_exec)"

definition N_DATOFF :: "exec \<Rightarrow> u32" where "N_DATOFF x = N_TXTOFF x + a_text x"
definition N_TRELOFF :: "exec \<Rightarrow> u32" where "N_TRELOFF x = N_DATOFF x + a_data x"
definition N_DRELOFF :: "exec \<Rightarrow> u32" where "N_DRELOFF x = N_TRELOFF x + a_trsize x"
definition N_SYMOFF :: "exec \<Rightarrow> u32" where "N_SYMOFF x = N_DRELOFF x + a_drsize x"
definition N_STROFF :: "exec \<Rightarrow> u32" where "N_STROFF x = N_SYMOFF x + a_syms x"
definition N_TXTADDR :: "exec \<Rightarrow> u32" where "N_TXTADDR x = 0"
definition N_TXTENDADDR :: "exec \<Rightarrow> u32" where "N_TXTENDADDR x = N_TXTADDR x + a_text x"

definition N_SEGMENT_ROUND :: "u32 \<Rightarrow> u32" where
  "N_SEGMENT_ROUND x = (x + SEGMENT_SIZE - 1) AND NOT (SEGMENT_SIZE - 1)"

definition N_DATADDR :: "exec \<Rightarrow> u32" where
  "N_DATADDR x = (if N_MAGIC x = OMAGIC then N_TXTENDADDR x else N_SEGMENT_ROUND (N_TXTENDADDR x))"

definition N_BSSADDR :: "exec \<Rightarrow> u32" where "N_BSSADDR x = N_DATADDR x + a_data x"

subsection \<open>Reading the file into the segment of the process\<close>

definition cp_block :: "u8 list \<Rightarrow> u32 \<Rightarrow> 'a fs_state_scheme \<Rightarrow> 'a fs_state_scheme" where
  "cp_block from to s = put_fs_bytes (take BLOCK_SIZE from) to s"

text \<open>
  \<open>if (!(bh=bread(dev,block))) \<dots> else { cp_block(bh->b_data,offset); brelse(bh); }\<close>, with \<open>False\<close> where
  the block could not be read.
\<close>

definition load_block :: "u32 \<Rightarrow> u32 \<Rightarrow> u32 \<Rightarrow> 'a fs_state_scheme \<Rightarrow> (bool \<times> 'a fs_state_scheme) res" where
  "load_block dev block offset s =
     bindr (bread dev block s) (\<lambda>(r, s).
     case r of
       None \<Rightarrow> Inr (False, s)
     | Some bh \<Rightarrow> bindr (brelse bh (cp_block (b_data (buf s bh)) offset s)) (\<lambda>s. Inr (True, s)))"

fun read_head_loop :: "nat list \<Rightarrow> nat \<Rightarrow> 'a fs_state_scheme \<Rightarrow> (u32 \<times> 'a fs_state_scheme) res" where
  "read_head_loop [] ino s = Inr (0, s)"
| "read_head_loop (n # ns) ino s =
     (if i_zone (inode s ino) ! (n + 1) = 0 then read_head_loop ns ino s
      else bindr (load_block (ucast (i_dev (inode s ino))) (ucast (i_zone (inode s ino) ! (n + 1))) (of_nat (n * BLOCK_SIZE)) s)
             (\<lambda>(ok, s). if ok then read_head_loop ns ino s else Inr (- 1, s)))"

definition read_head :: "nat \<Rightarrow> u32 \<Rightarrow> 'a fs_state_scheme \<Rightarrow> (u32 \<times> 'a fs_state_scheme) res" where
  "read_head ino blocks s = read_head_loop [0..<nat (min (sint blocks) 6)] ino s"

fun read_ind_loop :: "nat list \<Rightarrow> u32 \<Rightarrow> nat \<Rightarrow> u32 \<Rightarrow> 'a fs_state_scheme \<Rightarrow> (u32 \<times> 'a fs_state_scheme) res" where
  "read_ind_loop [] dev ih offset s = bindr (brelse ih s) (\<lambda>s. Inr (0, s))"
| "read_ind_loop (n # ns) dev ih offset s =
     (let block = get16 (b_data (buf s ih)) (2 * n) in
      bindr (if block = 0 then Inr (True, s) else load_block dev (ucast block) offset s) (\<lambda>(ok, s).
      if ok then read_ind_loop ns dev ih (offset + of_nat BLOCK_SIZE) s
      else bindr (brelse ih s) (\<lambda>s. Inr (- 1, s))))"

text \<open>The loop \<open>while (size>0) { \<dots> size -= BLOCK_SIZE; \<dots> }\<close> runs once for every started block, 512 times at most.\<close>

definition read_ind :: "u32 \<Rightarrow> u32 \<Rightarrow> u32 \<Rightarrow> u32 \<Rightarrow> 'a fs_state_scheme \<Rightarrow> (u32 \<times> 'a fs_state_scheme) res" where
  "read_ind dev ind sz offset s =
     (if sint sz \<le> 0 then Inl (Panic ''size<=0 in read_ind'')
      else let blocks = nat ((min (sint sz) (512 * 1024) + 1023) div 1024) in
           if ind = 0 then Inr (0, s)
           else bindr (bread dev ind s) (\<lambda>(r, s).
             case r of None \<Rightarrow> Inr (- 1, s) | Some ih \<Rightarrow> read_ind_loop [0..<blocks] dev ih offset s))"

text \<open>The loop over the blocks of the double indirect block.\<close>

fun read_dind_loop :: "nat list \<Rightarrow> u32 \<Rightarrow> nat \<Rightarrow> u32 \<Rightarrow> 'a fs_state_scheme \<Rightarrow> (u32 \<times> 'a fs_state_scheme) res" where
  "read_dind_loop [] dev dind sz s = Inl (Panic ''Impossibly long executable'')"
| "read_dind_loop (n # ns) dev dind sz s =
     bindr (read_ind dev (ucast (get16 (b_data (buf s dind)) (2 * n))) sz (of_nat (BLOCK_SIZE * (518 + n))) s) (\<lambda>(i, s).
     if i \<noteq> 0 \<or> sint (sz - of_nat (BLOCK_SIZE * 512)) \<le> 0 then Inr (i, s)
     else read_dind_loop ns dev dind (sz - of_nat (BLOCK_SIZE * 512)) s)"

definition read_area :: "nat \<Rightarrow> u32 \<Rightarrow> 'a fs_state_scheme \<Rightarrow> (u32 \<times> 'a fs_state_scheme) res" where
  "read_area ino sz s =
     bindr (read_head ino (sdivi (sz + of_nat BLOCK_SIZE - 1) (of_nat BLOCK_SIZE)) s) (\<lambda>(i, s).
     let dev = ucast (i_dev (inode s ino)); sz = sz - of_nat (BLOCK_SIZE * 6) in
     if i \<noteq> 0 \<or> sint sz \<le> 0 then Inr (i, s)
     else bindr (read_ind dev (ucast (i_zone (inode s ino) ! 7)) sz (of_nat (BLOCK_SIZE * 6)) s) (\<lambda>(i, s).
       let sz = sz - of_nat (BLOCK_SIZE * 512); z = ucast (i_zone (inode s ino) ! 8) in
       if i \<noteq> 0 \<or> sint sz \<le> 0 then Inr (i, s)
       else if z = 0 then Inr (0, s)
       else bindr (bread dev z s) (\<lambda>(r, s).
         case r of None \<Rightarrow> Inr (- 1, s) | Some dind \<Rightarrow> read_dind_loop [0..<512] dev dind sz s)))"

subsection \<open>Strings of the old program\<close>

text \<open>\<open>do len++; while (get_fs_byte(tmp++));\<close> on the memory of the process.\<close>

partial_function (option) str_len :: "(u32 \<Rightarrow> u8) \<Rightarrow> u32 \<Rightarrow> nat \<Rightarrow> nat option" where
  "str_len m tmp len = (if m tmp = 0 then Some (len + 1) else str_len m (tmp + 1) (len + 1))"

partial_function (option) count_loop :: "(u32 \<Rightarrow> u32) \<Rightarrow> u32 \<Rightarrow> nat \<Rightarrow> nat option" where
  "count_loop m tmp i = (if m tmp = 0 then Some i else count_loop m (tmp + 4) (i + 1))"

definition lx_count :: "u32 \<Rightarrow> 'a fs_state_scheme \<Rightarrow> nat res" where
  "lx_count argv s = (if argv = 0 then Inr 0 else of_option Diverge (count_loop (\<lambda>a. get_fs_long a s) argv 0))"

definition MAX_ARG_PAGES :: nat where "MAX_ARG_PAGES = 32"

text \<open>\<open>while (i<MAX_ARG_PAGES && !page[i]) \<dots>\<close>: \<open>False\<close> when there is no free page.\<close>

fun arg_pages :: "nat list \<Rightarrow> u32 list \<Rightarrow> 'a mm_state_scheme \<Rightarrow> bool \<times> u32 list \<times> 'a mm_state_scheme" where
  "arg_pages [] page s = (True, page, s)"
| "arg_pages (i # is) page s =
     (if page ! i \<noteq> 0 then (True, page, s)
      else let (a, s) = get_free_page s in
           if a = 0 then (False, page, s) else arg_pages is (page[i := a]) s)"

text \<open>The loop that copies a string backwards.  \<open>page\<close> has \<open>MAX_ARG_PAGES\<close> entries.\<close>

fun copy_bytes :: "nat \<Rightarrow> u32 \<Rightarrow> u32 list \<Rightarrow> u32 \<Rightarrow> 'a fs_state_scheme \<Rightarrow> (u32 \<times> 'a fs_state_scheme) res" where
  "copy_bytes 0 tmp page p s = Inr (p, s)"
| "copy_bytes (Suc len) tmp page p s =
     (let p = p - 1; i = unat (p div 4096); tmp = tmp - 1 in
      if i \<ge> length page then Inl (Fault ''page'')
      else if page ! i = 0 then Inl (Panic ''nonexistent page in exec.c'')
      else copy_bytes len tmp page p (set_phys_byte (page ! i + p mod 4096) (get_fs_byte tmp s) s))"

text \<open>
  The strings are copied from the last one to the first.  The guard \<open>p-len < 0\<close> compares unsigned numbers and is
  never true.
\<close>

fun copy_strings :: "nat \<Rightarrow> u32 \<Rightarrow> u32 list \<Rightarrow> u32 \<Rightarrow> 'a fs_state_scheme \<Rightarrow> (u32 \<times> u32 list \<times> 'a fs_state_scheme) res" where
  "copy_strings 0 argv page p s = Inr (p, page, s)"
| "copy_strings (Suc argc) argv page p s =
     (let tmp = get_fs_long (argv + 4 * of_nat argc) s in
      if tmp = 0 then Inl (Panic ''argc is wrong'')
      else bindr (of_option Diverge (str_len (user s) tmp 0)) (\<lambda>len.
        let (ok, page, s) = arg_pages [unat (drop_bit 12 (p - of_nat len))..<MAX_ARG_PAGES] page s in
        if \<not> ok then Inr (0, page, s)
        else bindr (copy_bytes len (tmp + of_nat len) page p s) (\<lambda>(p, s).
          copy_strings argc argv page p s)))"

subsection \<open>The new address space\<close>

text \<open>Mapping the pages downwards from \<open>data_base\<close>; an entry becomes 0 where \<open>put_page\<close> found no memory.\<close>

fun put_args :: "nat list \<Rightarrow> u32 \<Rightarrow> u32 list \<Rightarrow> 'a mm_state_scheme \<Rightarrow> (u32 list \<times> 'a mm_state_scheme) res" where
  "put_args [] data_base page s = Inr (page, s)"
| "put_args (i # is) data_base page s =
     (let data_base = data_base - 4096 in
      if page ! i = 0 then put_args is data_base page s
      else bindr (put_page (page ! i) data_base s) (\<lambda>(r, s). put_args is data_base (page[i := r]) s))"

text \<open>What the process sees of its new segment: the argument pages below 64 megabytes, cleared pages elsewhere.\<close>

definition exec_view :: "u32 list \<Rightarrow> 'a mm_state_scheme \<Rightarrow> u32 \<Rightarrow> u8" where
  "exec_view page s a =
     (let i = unat (drop_bit 12 (a - 0x3FE0000)) in
      if a < 0x3FE0000 \<or> i \<ge> length page \<or> page ! i = 0 then 0 else phys_byte (page ! i + (a AND 0xFFF)) s)"

definition set_ldt :: "nat \<Rightarrow> u32 \<Rightarrow> u32 \<Rightarrow> 'a sched_state_scheme \<Rightarrow> 'a sched_state_scheme" where
  "set_ldt i base limit s =
     upd_cur (\<lambda>t. t\<lparr>t_ldt := (t_ldt t)[i := set_limit (set_base (t_ldt t ! i) base) limit]\<rparr>) s"

definition change_ldt :: "u32 \<Rightarrow> u32 list \<Rightarrow> 'a fs_state_scheme \<Rightarrow> (u32 \<times> 'a fs_state_scheme) res" where
  "change_ldt text_size page s =
     (let code_limit = (text_size + 4096 - 1) AND 0xFFFFF000;
          data_limit = 0x4000000;
          code_base = get_base (t_ldt (cur s) ! 1);
          data_base = code_base;
          s = set_ldt 2 data_base data_limit (set_ldt 1 code_base code_limit s)
      in bindr (put_args (rev [0..<MAX_ARG_PAGES]) (data_base + data_limit) page s) (\<lambda>(mapped, s).
         Inr (data_limit, s\<lparr>user := exec_view mapped s\<rparr>)))"

text \<open>The loop that fills one table with the addresses of consecutive strings.\<close>

fun put_table :: "nat \<Rightarrow> u32 \<Rightarrow> u32 \<Rightarrow> 'a fs_state_scheme \<Rightarrow> (u32 \<times> 'a fs_state_scheme) res" where
  "put_table 0 p table s = Inr (p, put_fs_long 0 table s)"
| "put_table (Suc n) p table s =
     (let s = put_fs_long p table s in
      bindr (of_option Diverge (str_len (user s) p 0)) (\<lambda>len. put_table n (p + of_nat len) (table + 4) s))"

definition create_tables :: "u32 \<Rightarrow> nat \<Rightarrow> nat \<Rightarrow> 'a fs_state_scheme \<Rightarrow> (u32 \<times> 'a fs_state_scheme) res" where
  "create_tables p argc envc s =
     (let sp = 0xFFFFFFFC AND p;
          sp = sp - 4 * (of_nat envc + 1); envp = sp;
          sp = sp - 4 * (of_nat argc + 1); argv = sp;
          sp = sp - 4; s = put_fs_long envp sp s;
          sp = sp - 4; s = put_fs_long argv sp s;
          sp = sp - 4; s = put_fs_long (of_nat argc) sp s
      in bindr (put_table argc p argv s) (\<lambda>(p, s).
         bindr (put_table envc p envp s) (\<lambda>(_, s). Inr (sp, s))))"

subsection \<open>\<open>do_execve\<close>\<close>

definition ENOEXEC :: u32 where "ENOEXEC = 8"

text \<open>The mode bits that apply to the process; the lowest one is the permission to execute.\<close>

definition exec_mode :: "m_inode \<Rightarrow> task_struct \<Rightarrow> u32" where
  "exec_mode m t =
     (let i = ucast (i_mode m) in
      if t_uid t \<noteq> 0 \<and> t_euid t \<noteq> 0
      then if t_euid t = i_uid m then drop_bit 6 i
           else if t_egid t = ucast (i_gid m) then drop_bit 3 i else i
      else if i AND 0x49 \<noteq> 0 then 1 else i)"

definition bad_header :: "exec \<Rightarrow> m_inode \<Rightarrow> bool" where
  "bad_header ex m \<longleftrightarrow>
     N_MAGIC ex \<noteq> ZMAGIC \<or> a_trsize ex \<noteq> 0 \<or> a_drsize ex \<noteq> 0 \<or>
     a_text ex + a_data ex + a_bss ex > 0x3000000 \<or>
     i_size m < a_text ex + a_data ex + a_syms ex + N_TXTOFF ex"

fun free_arg_pages :: "u32 list \<Rightarrow> 'a mm_state_scheme \<Rightarrow> 'a mm_state_scheme res" where
  "free_arg_pages [] s = Inr s"
| "free_arg_pages (a # as) s = bindr (free_page a s) (free_arg_pages as)"

fun close_marked :: "nat list \<Rightarrow> 'a fs_state_scheme \<Rightarrow> 'a fs_state_scheme res" where
  "close_marked [] s = Inr s"
| "close_marked (i # is) s =
     bindr (if drop_bit i (t_close_on_exec (cur s)) AND 1 \<noteq> 0
            then bindr (sys_close (of_nat i) s) (\<lambda>(_, s). Inr s) else Inr s) (close_marked is)"

text \<open>What the process gives up at the point of no return.\<close>

definition leave_program :: "'a fs_state_scheme \<Rightarrow> 'a fs_state_scheme res" where
  "leave_program s =
     bindr (close_marked [0..<NR_OPEN] (upd_cur (\<lambda>t. t\<lparr>t_sig_fn := replicate 32 0\<rparr>) s)) (\<lambda>s.
     let s = upd_cur (\<lambda>t. t\<lparr>t_close_on_exec := 0\<rparr>) s in
     bindr (free_page_tables (get_base (t_ldt (cur s) ! 1)) (get_limit 0x0F s) s) (\<lambda>s.
     bindr (free_page_tables (get_base (t_ldt (cur s) ! 2)) (get_limit 0x17 s) s) (\<lambda>s.
     let s = (if last_task_used_math s = current s then s\<lparr>last_task_used_math := 0\<rparr> else s)
     in Inr (upd_cur (\<lambda>t. t\<lparr>t_used_math := 0\<rparr>) s))))"

text \<open>\<open>while (i&0xfff) put_fs_byte(0,(char *) (i++));\<close>: as many bytes as are missing to the next page.\<close>

definition clear_tail :: "u32 \<Rightarrow> 'a fs_state_scheme \<Rightarrow> 'a fs_state_scheme" where
  "clear_tail i s = put_fs_bytes (replicate (unat (- i AND 0xFFF)) 0) i s"

text \<open>Entering the new program, from the point of no return on.\<close>

definition enter_program ::
    "u32 list \<Rightarrow> nat \<Rightarrow> exec \<Rightarrow> u32 list \<Rightarrow> nat \<Rightarrow> nat \<Rightarrow> u32 \<Rightarrow> 'a fs_state_scheme \<Rightarrow> ((u32 \<times> u32 list) \<times> 'a fs_state_scheme) res" where
  "enter_program eip ino ex page argc envc p s =
     bindr (leave_program s) (\<lambda>s.
     bindr (change_ldt (a_text ex) page s) (\<lambda>(r, s).
     bindr (create_tables (p + (r - of_nat MAX_ARG_PAGES * 4096)) argc envc s) (\<lambda>(p, s).
     let end_code = a_text ex; end_data = a_data ex + end_code;
         s = upd_cur (\<lambda>t. t\<lparr>t_end_code := end_code, t_end_data := end_data, t_brk := a_bss ex + end_data,
               t_start_stack := p AND 0xFFFFF000\<rparr>) s in
     bindr (read_area ino (a_text ex + a_data ex) s) (\<lambda>(i, s).
     bindr (iput ino s) (\<lambda>s.
     if sint i < 0 then Inl (Exits (push_bit 8 0xFF))
     else Inr ((0, eip[0 := a_entry ex, 3 := p]), clear_tail (a_text ex + a_data ex) s))))))"

definition do_execve ::
    "u32 list \<Rightarrow> u32 \<Rightarrow> u32 \<Rightarrow> u32 \<Rightarrow> 'a fs_state_scheme \<Rightarrow> ((u32 \<times> u32 list) \<times> 'a fs_state_scheme) res" where
  "do_execve eip filename argv envp s =
     (if 0xFFFF AND eip ! 1 \<noteq> 0x0F then Inl (Panic ''execve called from supervisor mode'')
      else bindr (namei filename s) (\<lambda>(r, s).
        case r of
          None \<Rightarrow> Inr ((- ENOENT, eip), s)
        | Some ino \<Rightarrow>
            if \<not> S_ISREG (i_mode (inode s ino)) then iput_return ino (- EACCES, eip) s
            else if exec_mode (inode s ino) (cur s) AND 1 = 0 then iput_return ino (- ENOEXEC, eip) s
            else bindr (bread (ucast (i_dev (inode s ino))) (ucast (i_zone (inode s ino) ! 0)) s) (\<lambda>(r, s).
              case r of
                None \<Rightarrow> iput_return ino (- EACCES, eip) s
              | Some bh \<Rightarrow>
                  let ex = exec_of (b_data (buf s bh)) in
                  bindr (brelse bh s) (\<lambda>s.
                  if bad_header ex (inode s ino) then iput_return ino (- ENOEXEC, eip) s
                  else if N_TXTOFF ex \<noteq> of_nat BLOCK_SIZE then Inl (Panic ''N_TXTOFF != BLOCK_SIZE. See a.out.h.'')
                  else bindr (lx_count argv s) (\<lambda>argc.
                       bindr (lx_count envp s) (\<lambda>envc.
                       bindr (copy_strings envc envp (replicate MAX_ARG_PAGES 0) (of_nat (4096 * MAX_ARG_PAGES - 4)) s) (\<lambda>(p, page, s).
                       bindr (copy_strings argc argv page p s) (\<lambda>(p, page, s).
                       if p = 0 then bindr (free_arg_pages page s) (iput_return ino (- 1, eip))
                       else enter_program eip ino ex page argc envc p s))))))))"

end
