(* ===== verification/Linux_Traps.thy ===== *)
theory Linux_Traps
  imports Linux_Exec Linux_Vsprintf
begin

unbundle bit_operations_syntax

section \<open>Gates, descriptors and traps of linux-0.01 (\<open>asm/system.h\<close>, \<open>kernel/traps.c\<close>, \<open>kernel/printk.c\<close>)\<close>

text \<open>
  The state of the machine below the kernel: the two descriptor tables, the task and the local descriptor table
  register, the interrupt flag, the segment registers of the running code, the coprocessor and the
  saved coprocessor state of every task.  A write to a port is kept in \<open>ports\<close>, where a later read finds it, and
  in the order of the writes in \<open>outs\<close>.  The entry points of the handlers are routines in assembly; the
  argument \<open>adr\<close> gives the address of each.
\<close>

datatype entry =
    divide_error | debug | nmi | int3 | overflow | bounds | invalid_op | device_not_available | double_fault
  | coprocessor_segment_overrun | invalid_TSS | segment_not_present | stack_segment | general_protection
  | page_fault | coprocessor_error | reserved
  | timer_interrupt | system_call | keyboard_interrupt | rs1_interrupt | rs2_interrupt | hd_interrupt

record machine_state = kernel_state +
  idt :: "(u32 \<times> u32) list"           \<comment> \<open>256 entries\<close>
  gdt :: "(u32 \<times> u32) list"           \<comment> \<open>256 entries\<close>
  tr_reg :: u32
  ldt_reg :: u32
  int_flag :: bool
  cs_reg :: u32
  ss_reg :: u32
  ds_reg :: u32                       \<comment> \<open>and \<open>es\<close>, \<open>fs\<close>, \<open>gs\<close>\<close>
  outs :: "(u32 \<times> u8) list"
  fpu :: "u32 list"                   \<comment> \<open>the 27 words of an \<open>i387_struct\<close>\<close>
  i387 :: "u32 \<Rightarrow> u32 list"            \<comment> \<open>the field \<open>tss.i387\<close> of the task at an address\<close>

subsection \<open>Ports\<close>

definition lx_outb :: "u8 \<Rightarrow> u32 \<Rightarrow> 'a machine_state_scheme \<Rightarrow> 'a machine_state_scheme" where
  "lx_outb v p s = s\<lparr>ports := (ports s)(p := v), outs := outs s @ [(p, v)]\<rparr>"

definition inb :: "u32 \<Rightarrow> 'a machine_state_scheme \<Rightarrow> u8" where
  "inb p s = ports s p"

definition outb_p :: "u8 \<Rightarrow> u32 \<Rightarrow> 'a machine_state_scheme \<Rightarrow> 'a machine_state_scheme" where
  "outb_p v p s = lx_outb v p s"

definition inb_p :: "u32 \<Rightarrow> 'a machine_state_scheme \<Rightarrow> u8" where
  "inb_p p s = inb p s"

subsection \<open>Gates and system descriptors\<close>

text \<open>\<open>eax\<close> starts as \<open>0x00080000\<close> and \<open>edx\<close> as the address; the lower halves are exchanged as in the source.\<close>

definition gate :: "u32 \<Rightarrow> u32 \<Rightarrow> u32 \<Rightarrow> u32 \<times> u32" where
  "gate ty dpl addr =
     (0x00080000 OR (addr AND 0xFFFF),
      (addr AND 0xFFFF0000) OR ((0x8000 + push_bit 13 dpl + push_bit 8 ty) AND 0xFFFF))"

definition set_intr_gate :: "nat \<Rightarrow> u32 \<Rightarrow> 'a machine_state_scheme \<Rightarrow> 'a machine_state_scheme" where
  "set_intr_gate n addr s = s\<lparr>idt := (idt s)[n := gate 14 0 addr]\<rparr>"

definition set_trap_gate :: "nat \<Rightarrow> u32 \<Rightarrow> 'a machine_state_scheme \<Rightarrow> 'a machine_state_scheme" where
  "set_trap_gate n addr s = s\<lparr>idt := (idt s)[n := gate 15 0 addr]\<rparr>"

definition set_system_gate :: "nat \<Rightarrow> u32 \<Rightarrow> 'a machine_state_scheme \<Rightarrow> 'a machine_state_scheme" where
  "set_system_gate n addr s = s\<lparr>idt := (idt s)[n := gate 15 3 addr]\<rparr>"

text \<open>The eight bytes that \<open>_set_tssldt_desc\<close> writes: a limit of 104, the base in three parts and the type.\<close>

definition tssldt_desc :: "u32 \<Rightarrow> u32 \<Rightarrow> u32 \<times> u32" where
  "tssldt_desc addr ty =
     (104 OR push_bit 16 (addr AND 0xFFFF),
      (drop_bit 16 addr AND 0xFF) OR push_bit 8 ty OR (addr AND 0xFF000000))"

definition set_tss_desc :: "nat \<Rightarrow> u32 \<Rightarrow> 'a machine_state_scheme \<Rightarrow> 'a machine_state_scheme" where
  "set_tss_desc n addr s = s\<lparr>gdt := (gdt s)[n := tssldt_desc addr 0x89]\<rparr>"

definition set_ldt_desc :: "nat \<Rightarrow> u32 \<Rightarrow> 'a machine_state_scheme \<Rightarrow> 'a machine_state_scheme" where
  "set_ldt_desc n addr s = s\<lparr>gdt := (gdt s)[n := tssldt_desc addr 0x82]\<rparr>"

definition FIRST_TSS_ENTRY :: nat where "FIRST_TSS_ENTRY = 4"
definition FIRST_LDT_ENTRY :: nat where "FIRST_LDT_ENTRY = FIRST_TSS_ENTRY + 1"

definition TSS :: "nat \<Rightarrow> u32" where "TSS n = push_bit 4 (of_nat n) + push_bit 3 (of_nat FIRST_TSS_ENTRY)"
definition LDT :: "nat \<Rightarrow> u32" where "LDT n = push_bit 4 (of_nat n) + push_bit 3 (of_nat FIRST_LDT_ENTRY)"

definition ltr :: "nat \<Rightarrow> 'a machine_state_scheme \<Rightarrow> 'a machine_state_scheme" where
  "ltr n s = s\<lparr>tr_reg := TSS n\<rparr>"

definition lldt :: "nat \<Rightarrow> 'a machine_state_scheme \<Rightarrow> 'a machine_state_scheme" where
  "lldt n s = s\<lparr>ldt_reg := LDT n\<rparr>"

text \<open>\<open>str(n)\<close>: the number of the task that the task register selects.\<close>

definition lx_str :: "'a machine_state_scheme \<Rightarrow> u32" where
  "lx_str s = drop_bit 4 (tr_reg s - push_bit 3 (of_nat FIRST_TSS_ENTRY))"

definition sti :: "'a machine_state_scheme \<Rightarrow> 'a machine_state_scheme" where
  "sti s = s\<lparr>int_flag := True\<rparr>"

definition move_to_user_mode :: "'a machine_state_scheme \<Rightarrow> 'a machine_state_scheme" where
  "move_to_user_mode s = s\<lparr>cs_reg := 0x0F, ss_reg := 0x17, ds_reg := 0x17\<rparr>"

subsection \<open>Messages\<close>

text \<open>A string constant as a pointer: the memory that has it at address 1.\<close>

definition literal :: "string \<Rightarrow> memory" where
  "literal str a = (if a \<noteq> 0 \<and> unat (a - 1) < length str then of_char (str ! unat (a - 1)) else 0)"

text \<open>
  \<open>panic\<close> prints its message and stops.  The other theories give its calls as the error \<open>Panic\<close> at once; the message is
  what is on the screen then.
\<close>

definition lx_panic :: "string \<Rightarrow> 'a kernel_state_scheme \<Rightarrow> 'a kernel_state_scheme res" where
  "lx_panic str s = bindr (printk (literal str) (''Kernel panic: %s'' @ crlf) [1] s) (\<lambda>_. Inl (Panic str))"

subsection \<open>The handlers of the exceptions\<close>

text \<open>\<open>die\<close> prints the state of the process and ends it.  The frame is read through its pointer.\<close>

definition esp_word :: "u32 \<Rightarrow> nat \<Rightarrow> 'a mm_state_scheme \<Rightarrow> u32" where
  "esp_word esp i s = phys s (esp + of_nat (4 * i))"

text \<open>A selector of the local table is a segment of the process, one of the global table a segment of the kernel.\<close>

definition get_seg_byte :: "u32 \<Rightarrow> u32 \<Rightarrow> 'a fs_state_scheme \<Rightarrow> u8" where
  "get_seg_byte seg addr s = (if seg AND 4 \<noteq> 0 then get_fs_byte addr s else phys_byte addr s)"

fun print_stack :: "nat list \<Rightarrow> u32 \<Rightarrow> 'a kernel_state_scheme \<Rightarrow> 'a kernel_state_scheme res" where
  "print_stack [] sp s = Inr s"
| "print_stack (i # is) sp s =
     bindr (printk (\<lambda>_. 0) ''%p '' [get_fs_long (sp + of_nat (4 * i)) s] s) (print_stack is sp)"

fun print_code :: "nat list \<Rightarrow> u32 \<Rightarrow> u32 \<Rightarrow> 'a kernel_state_scheme \<Rightarrow> 'a kernel_state_scheme res" where
  "print_code [] seg ip s = Inr s"
| "print_code (i # is) seg ip s =
     bindr (printk (\<lambda>_. 0) ''%02x '' [0xFF AND ucast (get_seg_byte seg (ip + of_nat i) s)] s) (print_code is seg ip)"


text \<open>The \<open>fs\<close> register was set to the kernel's data segment by the entry code.\<close>

definition die :: "string \<Rightarrow> u32 \<Rightarrow> u32 \<Rightarrow> 'a machine_state_scheme \<Rightarrow> 'a machine_state_scheme res" where
  "die str esp nr s =
     bindr (printk (literal str) (''%s: %04x'' @ crlf) [1, nr AND 0xFFFF] s) (\<lambda>s.
     bindr (printk (\<lambda>_. 0) (''EIP:'' @ tab_str @ ''%04x:%p'' @ lf_str @ ''EFLAGS:'' @ tab_str @ ''%p'' @ lf_str
              @ ''ESP:'' @ tab_str @ ''%04x:%p'' @ lf_str)
            [esp_word esp 1 s, esp_word esp 0 s, esp_word esp 2 s, esp_word esp 4 s, esp_word esp 3 s] s) (\<lambda>s.
     bindr (printk (\<lambda>_. 0) (''fs: %04x'' @ lf_str) [0x10] s) (\<lambda>s.
     bindr (printk (\<lambda>_. 0) (''base: %p, limit: %p'' @ lf_str) [get_base (t_ldt (cur s) ! 1), get_limit 0x17 s] s) (\<lambda>s.
     bindr (if esp_word esp 4 s = 0x17
            then bindr (printk (\<lambda>_. 0) ''Stack: '' [] s) (\<lambda>s.
                 bindr (print_stack [0..<4] (esp_word esp 3 s) s) (printk (\<lambda>_. 0) lf_str []))
            else Inr s) (\<lambda>s.
     bindr (printk (\<lambda>_. 0) (''Pid: %d, process nr: %d'' @ crlf) [t_pid (cur s), 0xFFFF AND lx_str s] s) (\<lambda>s.
     bindr (print_code [0..<10] (esp_word esp 1 s) (esp_word esp 0 s) s) (\<lambda>s.
     bindr (printk (\<lambda>_. 0) crlf [] s) (do_exit 11))))))))"

definition do_double_fault :: "u32 \<Rightarrow> u32 \<Rightarrow> 'a machine_state_scheme \<Rightarrow> 'a machine_state_scheme res" where
  "do_double_fault esp error_code s = die ''double fault'' esp error_code s"
definition do_general_protection :: "u32 \<Rightarrow> u32 \<Rightarrow> 'a machine_state_scheme \<Rightarrow> 'a machine_state_scheme res" where
  "do_general_protection esp error_code s = die ''general protection'' esp error_code s"
definition do_divide_error :: "u32 \<Rightarrow> u32 \<Rightarrow> 'a machine_state_scheme \<Rightarrow> 'a machine_state_scheme res" where
  "do_divide_error esp error_code s = die ''divide error'' esp error_code s"

text \<open>The registers that the entry code has saved, with the task register.\<close>

definition do_int3 :: "u32 \<Rightarrow> tss_struct \<Rightarrow> 'a machine_state_scheme \<Rightarrow> 'a machine_state_scheme res" where
  "do_int3 esp r s =
     bindr (printk (\<lambda>_. 0) (''eax'' @ tab_str @ tab_str @ ''ebx'' @ tab_str @ tab_str @ ''ecx'' @ tab_str @ tab_str @ ''edx'' @ crlf
              @ ''%8x'' @ tab_str @ ''%8x'' @ tab_str @ ''%8x'' @ tab_str @ ''%8x'' @ crlf)
            [tss_eax r, tss_ebx r, tss_ecx r, tss_edx r] s) (\<lambda>s.
     bindr (printk (\<lambda>_. 0) (''esi'' @ tab_str @ tab_str @ ''edi'' @ tab_str @ tab_str @ ''ebp'' @ tab_str @ tab_str @ ''esp'' @ crlf
              @ ''%8x'' @ tab_str @ ''%8x'' @ tab_str @ ''%8x'' @ tab_str @ ''%8x'' @ crlf)
            [tss_esi r, tss_edi r, tss_ebp r, esp] s) (\<lambda>s.
     bindr (printk (\<lambda>_. 0) (crlf @ ''ds'' @ tab_str @ ''es'' @ tab_str @ ''fs'' @ tab_str @ ''tr'' @ crlf
              @ ''%4x'' @ tab_str @ ''%4x'' @ tab_str @ ''%4x'' @ tab_str @ ''%4x'' @ crlf)
            [tss_ds r, tss_es r, tss_fs r, tr_reg s] s) (\<lambda>s.
     printk (\<lambda>_. 0) (''EIP: %8x   CS: %4x  EFLAGS: %8x'' @ crlf) [esp_word esp 0 s, esp_word esp 1 s, esp_word esp 2 s] s)))"

definition do_nmi :: "u32 \<Rightarrow> u32 \<Rightarrow> 'a machine_state_scheme \<Rightarrow> 'a machine_state_scheme res" where
  "do_nmi esp error_code s = die ''nmi'' esp error_code s"
definition do_debug :: "u32 \<Rightarrow> u32 \<Rightarrow> 'a machine_state_scheme \<Rightarrow> 'a machine_state_scheme res" where
  "do_debug esp error_code s = die ''debug'' esp error_code s"
definition do_overflow :: "u32 \<Rightarrow> u32 \<Rightarrow> 'a machine_state_scheme \<Rightarrow> 'a machine_state_scheme res" where
  "do_overflow esp error_code s = die ''overflow'' esp error_code s"
definition do_bounds :: "u32 \<Rightarrow> u32 \<Rightarrow> 'a machine_state_scheme \<Rightarrow> 'a machine_state_scheme res" where
  "do_bounds esp error_code s = die ''bounds'' esp error_code s"
definition do_invalid_op :: "u32 \<Rightarrow> u32 \<Rightarrow> 'a machine_state_scheme \<Rightarrow> 'a machine_state_scheme res" where
  "do_invalid_op esp error_code s = die ''invalid operand'' esp error_code s"
definition do_device_not_available :: "u32 \<Rightarrow> u32 \<Rightarrow> 'a machine_state_scheme \<Rightarrow> 'a machine_state_scheme res" where
  "do_device_not_available esp error_code s = die ''device not available'' esp error_code s"
definition do_coprocessor_segment_overrun :: "u32 \<Rightarrow> u32 \<Rightarrow> 'a machine_state_scheme \<Rightarrow> 'a machine_state_scheme res" where
  "do_coprocessor_segment_overrun esp error_code s = die ''coprocessor segment overrun'' esp error_code s"
definition do_invalid_TSS :: "u32 \<Rightarrow> u32 \<Rightarrow> 'a machine_state_scheme \<Rightarrow> 'a machine_state_scheme res" where
  "do_invalid_TSS esp error_code s = die ''invalid TSS'' esp error_code s"
definition do_segment_not_present :: "u32 \<Rightarrow> u32 \<Rightarrow> 'a machine_state_scheme \<Rightarrow> 'a machine_state_scheme res" where
  "do_segment_not_present esp error_code s = die ''segment not present'' esp error_code s"
definition do_stack_segment :: "u32 \<Rightarrow> u32 \<Rightarrow> 'a machine_state_scheme \<Rightarrow> 'a machine_state_scheme res" where
  "do_stack_segment esp error_code s = die ''stack segment'' esp error_code s"
definition do_coprocessor_error :: "u32 \<Rightarrow> u32 \<Rightarrow> 'a machine_state_scheme \<Rightarrow> 'a machine_state_scheme res" where
  "do_coprocessor_error esp error_code s = die ''coprocessor error'' esp error_code s"
definition do_reserved :: "u32 \<Rightarrow> u32 \<Rightarrow> 'a machine_state_scheme \<Rightarrow> 'a machine_state_scheme res" where
  "do_reserved esp error_code s = die ''reserved (15,17-31) error'' esp error_code s"

subsection \<open>\<open>trap_init\<close>\<close>

definition trap_init :: "(entry \<Rightarrow> u32) \<Rightarrow> 'a machine_state_scheme \<Rightarrow> 'a machine_state_scheme" where
  "trap_init adr s =
     (let s = set_trap_gate 0 (adr divide_error) s;
          s = set_trap_gate 1 (adr debug) s;
          s = set_trap_gate 2 (adr nmi) s;
          s = set_system_gate 3 (adr int3) s;
          s = set_system_gate 4 (adr overflow) s;
          s = set_system_gate 5 (adr bounds) s;
          s = set_trap_gate 6 (adr invalid_op) s;
          s = set_trap_gate 7 (adr device_not_available) s;
          s = set_trap_gate 8 (adr double_fault) s;
          s = set_trap_gate 9 (adr coprocessor_segment_overrun) s;
          s = set_trap_gate 10 (adr invalid_TSS) s;
          s = set_trap_gate 11 (adr segment_not_present) s;
          s = set_trap_gate 12 (adr stack_segment) s;
          s = set_trap_gate 13 (adr general_protection) s;
          s = set_trap_gate 14 (adr page_fault) s;
          s = set_trap_gate 15 (adr reserved) s;
          s = set_trap_gate 16 (adr coprocessor_error) s
      in fold (\<lambda>i. set_trap_gate i (adr reserved)) [17..<32] s)"

end
