(* ===== verification/Linux_Start.thy ===== *)
theory Linux_Start
  imports Linux_Traps Linux_Time
begin

unbundle bit_operations_syntax

section \<open>Starting linux-0.01 (\<open>init/main.c\<close>, \<open>sched_init\<close>, \<open>tty_init\<close>), and what a task switch needs\<close>

subsection \<open>The scheduler\<close>

definition LATCH :: u32 where "LATCH = 1193180 div HZ"

text \<open>Offsets of \<open>ldt\<close> and \<open>tss\<close> in a \<open>task_struct\<close>.\<close>

definition ldt_offset :: u32 where "ldt_offset = 328"
definition tss_offset :: u32 where "tss_offset = 352"

fun clear_slots :: "nat list \<Rightarrow> nat \<Rightarrow> 'a machine_state_scheme \<Rightarrow> 'a machine_state_scheme" where
  "clear_slots [] p s = s"
| "clear_slots (i # is) p s =
     clear_slots is (p + 2) (s\<lparr>task := (task s)[i := 0], gdt := (gdt s)[p := (0, 0), p + 1 := (0, 0)]\<rparr>)"

definition sched_init :: "(entry \<Rightarrow> u32) \<Rightarrow> 'a machine_state_scheme \<Rightarrow> 'a machine_state_scheme" where
  "sched_init adr s =
     (let s = set_tss_desc FIRST_TSS_ENTRY (init_task s + tss_offset) s;
          s = set_ldt_desc FIRST_LDT_ENTRY (init_task s + ldt_offset) s;
          s = clear_slots [1..<NR_TASKS] (2 + FIRST_TSS_ENTRY) s;
          s = lldt 0 (ltr 0 s);
          s = outb_p 0x36 0x43 s;
          s = outb_p (ucast (LATCH AND 0xFF)) 0x40 s;
          s = lx_outb (ucast (drop_bit 8 LATCH)) 0x40 s;
          s = set_intr_gate 0x20 (adr timer_interrupt) s;
          s = lx_outb (inb_p 0x21 s AND NOT 0x01) 0x21 s
      in set_system_gate 0x80 (adr system_call) s)"

subsection \<open>Terminals\<close>

text \<open>\<open>init\<close> of \<open>serial.c\<close>; the data register that is read is not kept.\<close>

definition serial_init :: "u32 \<Rightarrow> 'a machine_state_scheme \<Rightarrow> 'a machine_state_scheme" where
  "serial_init port s =
     outb_p 0x0D (port + 1) (outb_p 0x0B (port + 4) (outb_p 0x03 (port + 3)
       (outb_p 0x00 (port + 1) (outb_p 0x30 port (outb_p 0x80 (port + 3) s)))))"

definition rs_init :: "(entry \<Rightarrow> u32) \<Rightarrow> 'a machine_state_scheme \<Rightarrow> 'a machine_state_scheme" where
  "rs_init adr s =
     (let s = set_intr_gate 0x24 (adr rs1_interrupt) s;
          s = set_intr_gate 0x23 (adr rs2_interrupt) s;
          s = serial_init (q_data (read_q (tty s 1))) s;
          s = serial_init (q_data (read_q (tty s 2))) s
      in lx_outb (inb_p 0x21 s AND 0xE7) 0x21 s)"

text \<open>All of \<open>con_init\<close>: the position of the cursor, the keyboard's gate and mask, and the keyboard's reset.\<close>

definition con_setup :: "(entry \<Rightarrow> u32) \<Rightarrow> 'a machine_state_scheme \<Rightarrow> 'a machine_state_scheme" where
  "con_setup adr s =
     (let s = s\<lparr>con := con_init (phys_byte (0x90000 + 510) s) (phys_byte (0x90000 + 511) s) (con s)\<rparr>;
          s = set_trap_gate 0x21 (adr keyboard_interrupt) s;
          s = outb_p (inb_p 0x21 s AND 0xFD) 0x21 s;
          a = inb_p 0x61 s;
          s = outb_p (a OR 0x80) 0x61 s
      in lx_outb a 0x61 s)"

definition tty_init :: "(entry \<Rightarrow> u32) \<Rightarrow> 'a machine_state_scheme \<Rightarrow> 'a machine_state_scheme" where
  "tty_init adr s = con_setup adr (rs_init adr s)"

subsection \<open>The disk, and \<open>main\<close>\<close>

definition hd_setup :: "(entry \<Rightarrow> u32) \<Rightarrow> 'a machine_state_scheme \<Rightarrow> 'a machine_state_scheme" where
  "hd_setup adr s =
     (let s = set_trap_gate 0x2E (adr hd_interrupt) (hd_init s);
          s = outb_p (inb_p 0x21 s AND 0xFB) 0x21 s
      in lx_outb (inb_p 0xA1 s AND 0xBF) 0xA1 s)"

text \<open>
  \<open>main\<close> up to the change to user mode; after it task 0 makes system calls.  The clock and what memory
  holds where the buffers are placed are arguments.
\<close>

definition start_kernel ::
    "(entry \<Rightarrow> u32) \<Rightarrow> (nat \<Rightarrow> u32 \<Rightarrow> u32) \<Rightarrow> (nat \<Rightarrow> u32) \<Rightarrow> (nat \<Rightarrow> buffer_head) \<Rightarrow> 'a machine_state_scheme \<Rightarrow> 'a machine_state_scheme res" where
  "start_kernel adr cmos again raw s =
     bindr (time_init cmos again) (\<lambda>t.
     let s = s\<lparr>startup_time := t\<rparr>;
         s = tty_init adr s;
         s = trap_init adr s;
         s = sched_init adr s;
         s = buffer_init raw s;
         s = hd_setup adr s;
         s = sti s
     in Inr (move_to_user_mode s))"

subsection \<open>The coprocessor (\<open>math_state_restore\<close>, \<open>copy_process\<close>)\<close>

text \<open>\<open>fninit\<close> sets the control, status and tag words and leaves the registers; \<open>fnsave\<close> stores all and does the same.\<close>

definition fninit :: "u32 list \<Rightarrow> u32 list" where
  "fninit f = [0x37F, 0, 0xFFFF, 0, 0, 0, 0] @ drop 7 f"

definition fnsave :: "u32 \<Rightarrow> 'a machine_state_scheme \<Rightarrow> 'a machine_state_scheme" where
  "fnsave p s = s\<lparr>i387 := (i387 s)(p := fpu s), fpu := fninit (fpu s)\<rparr>"

definition math_state_restore :: "'a machine_state_scheme \<Rightarrow> 'a machine_state_scheme" where
  "math_state_restore s =
     (let s = (if last_task_used_math s \<noteq> 0 then fnsave (last_task_used_math s) s else s);
          s = (if t_used_math (cur s) \<noteq> 0 then s\<lparr>fpu := i387 s (current s)\<rparr>
               else upd_cur (\<lambda>t. t\<lparr>t_used_math := 1\<rparr>) (s\<lparr>fpu := fninit (fpu s)\<rparr>))
      in s\<lparr>last_task_used_math := current s\<rparr>)"

text \<open>The entry \<open>device_not_available\<close>, where a coprocessor is present.\<close>

definition math_trap :: "'a machine_state_scheme \<Rightarrow> 'a machine_state_scheme" where
  "math_trap s = (if last_task_used_math s = current s then s else math_state_restore s)"

text \<open>
  The two parts of \<open>copy_process\<close> that concern the machine: the child starts with the saved coprocessor state of
  the parent, or with the registers themselves when the parent is the last to have used them, and its
  descriptors are set when it is put into the table.
\<close>

definition fork_math :: "u32 \<Rightarrow> 'a machine_state_scheme \<Rightarrow> 'a machine_state_scheme" where
  "fork_math p s =
     (let s = s\<lparr>i387 := (i387 s)(p := i387 s (current s))\<rparr>
      in if last_task_used_math s = current s then fnsave p s else s)"

definition set_descs :: "nat \<Rightarrow> u32 \<Rightarrow> 'a machine_state_scheme \<Rightarrow> 'a machine_state_scheme" where
  "set_descs nr p s =
     set_ldt_desc (2 * nr + FIRST_LDT_ENTRY) (p + ldt_offset) (set_tss_desc (2 * nr + FIRST_TSS_ENTRY) (p + tss_offset) s)"

definition fork_process :: "nat \<Rightarrow> tss_struct \<Rightarrow> 'a machine_state_scheme \<Rightarrow> (u32 \<times> 'a machine_state_scheme) res" where
  "fork_process nr regs s =
     (let p = fst (get_free_page s) in
      bindr (copy_process nr regs (if p = 0 then s else fork_math p s)) (\<lambda>(r, s).
      Inr (r, if r = - EAGAIN then s else set_descs nr p s)))"

definition sys_fork :: "tss_struct \<Rightarrow> 'a machine_state_scheme \<Rightarrow> (u32 \<times> 'a machine_state_scheme) res" where
  "sys_fork regs s =
     bindr (of_option Diverge (find_empty_process s)) (\<lambda>(nr, s).
     if sint nr < 0 then Inr (nr, s) else fork_process (unat nr) regs s)"

end
