(* ===== verification/Linux_Machine_Sample.thy ===== *)
theory Linux_Machine_Sample
  imports Linux_Samples Linux_Start
begin

section \<open>A concrete machine for linux-0.01\<close>

text \<open>A machine before the start: no buffers yet and empty descriptor tables.  It can be started, on the first of January 1901.\<close>

definition sample_machine :: machine_state where
  "sample_machine = \<lparr>task = 0x1000 # replicate 63 0, tasks = (\<lambda>_. idle_task), current = 0x1000, jiffies = 0, startup_time = 0,
     init_task = 0x1000, wait_queues = (\<lambda>_. 0), last_pid = 0, last_task_used_math = 0,
     mem_map = replicate PAGING_PAGES 0, phys = (\<lambda>_. 0),
     buffers = [], start_buffer = 0x20000, hash_table = [],
     free_list = None, inode_table = replicate NR_INODE sample_inode, inode_table_addr = 0x10000, last_allocated_inode = 0,
     file_table = replicate NR_FILE sample_file, super_blocks = replicate NR_SUPER sample_super, buffer_wait_addr = 0x9000,
     wait_for_request_addr = 0x9004, user = (\<lambda>_. 65),
     hd_parts = replicate 10 \<lparr>start_sect = 0, nr_sects = 0\<rparr>,
     request = replicate NR_REQUEST sample_request, this_request = None, do_hd = None, sorting = False, setup_callable = True,
     dsk_sectors = (\<lambda>d n. replicate 512 (of_nat n)), dsk_pos = (0, 0), dsk_buffer = [], dsk_status = sconst 0x50, dsk_drq = sconst True,
     dsk_ready = True, tty_table = tty_table_init, tty_table_addr = 0x30000, con = sample_console, cr_flag = False,
     ports = (\<lambda>_. 0), idt = replicate 256 (0, 0), gdt = replicate 256 (0, 0), tr_reg = 0, ldt_reg = 0, int_flag = False,
     cs_reg = 8, ss_reg = 0x10, ds_reg = 0x10, outs = [], fpu = replicate 27 0, i387 = (\<lambda>_. replicate 27 0)\<rparr>"

lemma sample_start: "\<exists>s1. start_kernel (\<lambda>_. 0) (\<lambda>_ _. 1) (\<lambda>_. 1) (\<lambda>_. sample_head) sample_machine = Inr s1"
proof -
  have "\<exists>t. time_init (\<lambda>_ _. 1) (\<lambda>_. 1) = Inr t"
    by (simp add: time_init_def stable_clock.simps read_clock_def from_bcd_def BCD_TO_BIN_def kernel_mktime_def Let_def)
  then show ?thesis by (auto simp: start_kernel_def Let_def)
qed

end
