(* ===== verification/Linux_Gates.thy ===== *)
theory Linux_Gates
  imports Linux_Machine_Sample
begin

unbundle bit_operations_syntax

section \<open>The gates of linux-0.01 after its start\<close>

text \<open>
  The interrupt table is filled by five routines in five files.  \<open>gate_list\<close> is what it is meant to hold: number,
  type (14 for a gate that disables interrupts, 15 for one that does not), privilege level and routine.
\<close>

definition gate_list :: "(nat \<times> u32 \<times> u32 \<times> entry) list" where
  "gate_list =
     [(0, 15, 0, divide_error), (1, 15, 0, debug), (2, 15, 0, nmi), (3, 15, 3, int3), (4, 15, 3, overflow), (5, 15, 3, bounds),
      (6, 15, 0, invalid_op), (7, 15, 0, device_not_available), (8, 15, 0, double_fault), (9, 15, 0, coprocessor_segment_overrun),
      (10, 15, 0, invalid_TSS), (11, 15, 0, segment_not_present), (12, 15, 0, stack_segment), (13, 15, 0, general_protection),
      (14, 15, 0, page_fault), (15, 15, 0, reserved), (16, 15, 0, coprocessor_error)]
     @ map (\<lambda>i. (i, 15, 0, reserved)) [17..<32]
     @ [(0x20, 14, 0, timer_interrupt), (0x21, 15, 0, keyboard_interrupt), (0x23, 14, 0, rs2_interrupt), (0x24, 14, 0, rs1_interrupt),
        (0x2E, 15, 0, hd_interrupt), (0x80, 15, 3, system_call)]"

text \<open>What the processor reads from a gate.\<close>

definition offset_of_gate :: "u32 \<times> u32 \<Rightarrow> u32" where
  "offset_of_gate g = (fst g AND 0xFFFF) OR (snd g AND 0xFFFF0000)"

definition gate_selector :: "u32 \<times> u32 \<Rightarrow> u32" where
  "gate_selector g = drop_bit 16 (fst g)"

definition gate_dpl :: "u32 \<times> u32 \<Rightarrow> u32" where
  "gate_dpl g = drop_bit 13 (snd g) AND 3"

definition gate_type :: "u32 \<times> u32 \<Rightarrow> u32" where
  "gate_type g = drop_bit 8 (snd g) AND 0xF"

definition present_gate :: "u32 \<times> u32 \<Rightarrow> bool" where
  "present_gate g \<longleftrightarrow> bit (snd g) 15"

subsection \<open>Writing and reading a gate\<close>

lemma low_high: "(a AND 0xFFFF) OR (a AND 0xFFFF0000) = (a :: u32)"
proof -
  have "(0xFFFF :: u32) OR 0xFFFF0000 = - 1" by simp
  then have "a AND (0xFFFF OR 0xFFFF0000) = a" by (simp only: and.right_neutral)
  then show ?thesis by (simp only: bit.conj_disj_distrib)
qed

lemma gate_offset_read: "offset_of_gate (gate ty dpl a) = a"
proof -
  have "((0x00080000 OR (a AND 0xFFFF)) AND 0xFFFF) = a AND 0xFFFF" by (simp add: bit.conj_disj_distrib2 and.assoc)
  moreover have "((a AND 0xFFFF0000) OR (c AND 0xFFFF)) AND 0xFFFF0000 = a AND 0xFFFF0000" for c :: u32
    by (simp add: bit.conj_disj_distrib2 and.assoc)
  ultimately show ?thesis by (simp add: offset_of_gate_def gate_def low_high)
qed

lemma gate_read:
  assumes "(ty, dpl) \<in> {(14, 0), (15, 0), (15, 3)}"
  shows "gate_selector (gate ty dpl a) = 8" "gate_dpl (gate ty dpl a) = dpl" "gate_type (gate ty dpl a) = ty" "present_gate (gate ty dpl a)"
  using assms by (auto simp: gate_selector_def gate_dpl_def gate_type_def present_gate_def gate_def drop_bit_or drop_bit_and
      bit.conj_disj_distrib2 and.assoc bit_simps)

subsection \<open>The table\<close>

text \<open>A sequence of assignments to different entries.\<close>

lemma length_fold_put: "length (fold (\<lambda>(n, v) l. l[n := v]) gs l) = length l"
  by (induction gs arbitrary: l) (auto split: prod.splits)

lemma fold_put:
  assumes "distinct (map fst gs)" "i < length l"
  shows "fold (\<lambda>(n, v) l. l[n := v]) gs l ! i = (case map_of gs i of None \<Rightarrow> l ! i | Some v \<Rightarrow> v)"
  using assms
proof (induction gs arbitrary: l)
  case (Cons g gs)
  obtain n v where g: "g = (n, v)" by (cases g)
  have "map_of gs n = None" using Cons.prems(1) g by (auto simp: map_of_eq_None_iff image_iff)
  then show ?case using Cons.prems Cons.IH [of "l[n := v]"] by (auto simp: g nth_list_update split: option.splits)
qed simp

definition gates :: "(entry \<Rightarrow> u32) \<Rightarrow> (nat \<times> u32 \<times> u32) list" where
  "gates adr = map (\<lambda>(n, ty, dpl, e). (n, gate ty dpl (adr e))) gate_list"

lemma gate_numbers: "map fst (gates adr) = [0..<0x22] @ [0x23, 0x24, 0x2E, 0x80]"
proof -
  have "map fst (gates adr) = map fst gate_list" by (auto simp: gates_def split: prod.splits)
  moreover have "map fst gate_list = [0..<0x22] @ [0x23, 0x24, 0x2E, 0x80]" by code_simp
  ultimately show ?thesis by simp
qed

text \<open>The routines of the start assign exactly the gates of the list, in another order.\<close>

definition gates_in_order :: "(entry \<Rightarrow> u32) \<Rightarrow> (nat \<times> u32 \<times> u32) list" where
  "gates_in_order adr =
     (let g = (\<lambda>n ty dpl e. (n, gate ty dpl (adr e))) in
      [g 0x24 14 0 rs1_interrupt, g 0x23 14 0 rs2_interrupt, g 0x21 15 0 keyboard_interrupt]
      @ take 32 (gates adr) @ [g 0x20 14 0 timer_interrupt, g 0x80 15 3 system_call, g 0x2E 15 0 hd_interrupt])"

lemma idt_ops [simp]:
  "idt (lx_outb v p s) = idt s" "idt (outb_p v p s) = idt s" "idt (set_tss_desc n a s) = idt s" "idt (set_ldt_desc n a s) = idt s"
  "idt (ltr i s) = idt s" "idt (lldt i s) = idt s" "idt (sti s) = idt s" "idt (move_to_user_mode s) = idt s"
  "idt (buffer_init raw s) = idt s" "idt (hd_init s) = idt s"
  "idt (set_intr_gate n a s) = (idt s)[n := gate 14 0 a]" "idt (set_trap_gate n a s) = (idt s)[n := gate 15 0 a]"
  "idt (set_system_gate n a s) = (idt s)[n := gate 15 3 a]"
  by (simp_all add: outb_p_def lx_outb_def set_tss_desc_def set_ldt_desc_def ltr_def lldt_def sti_def move_to_user_mode_def
      buffer_init_def hd_init_def set_intr_gate_def set_trap_gate_def set_system_gate_def Let_def del: block_addrs.simps)

lemma idt_clear_slots [simp]: "idt (clear_slots is p s) = idt s"
  by (induction "is" arbitrary: p s) simp_all

lemma idt_reserved: "idt (fold (\<lambda>i. set_trap_gate i a) is s) = fold (\<lambda>(n, v) l. l[n := v]) (map (\<lambda>i. (i, gate 15 0 a)) is) (idt s)"
  by (induction "is" arbitrary: s) simp_all

abbreviation put_all :: "(nat \<times> 'b) list \<Rightarrow> 'b list \<Rightarrow> 'b list" where
  "put_all \<equiv> fold (\<lambda>(n, v) l. l[n := v])"

lemma trap_gates:
  "take 32 (gates adr) =
     [(0, gate 15 0 (adr divide_error)), (1, gate 15 0 (adr debug)), (2, gate 15 0 (adr nmi)), (3, gate 15 3 (adr int3)),
      (4, gate 15 3 (adr overflow)), (5, gate 15 3 (adr bounds)), (6, gate 15 0 (adr invalid_op)),
      (7, gate 15 0 (adr device_not_available)), (8, gate 15 0 (adr double_fault)),
      (9, gate 15 0 (adr coprocessor_segment_overrun)), (10, gate 15 0 (adr invalid_TSS)),
      (11, gate 15 0 (adr segment_not_present)), (12, gate 15 0 (adr stack_segment)),
      (13, gate 15 0 (adr general_protection)), (14, gate 15 0 (adr page_fault)), (15, gate 15 0 (adr reserved)),
      (16, gate 15 0 (adr coprocessor_error))] @ map (\<lambda>i. (i, gate 15 0 (adr reserved))) [17..<32]"
  by (simp add: gates_def gate_list_def o_def)

lemma device_gates:
  "drop 32 (gates adr) =
     [(0x20, gate 14 0 (adr timer_interrupt)), (0x21, gate 15 0 (adr keyboard_interrupt)), (0x23, gate 14 0 (adr rs2_interrupt)),
      (0x24, gate 14 0 (adr rs1_interrupt)), (0x2E, gate 15 0 (adr hd_interrupt)), (0x80, gate 15 3 (adr system_call))]"
  by (simp add: gates_def gate_list_def o_def)

lemma idt_trap_init: "idt (trap_init adr s) = put_all (take 32 (gates adr)) (idt s)"
  unfolding trap_init_def Let_def idt_reserved trap_gates by simp

lemma idt_tty_init:
  "idt (tty_init adr s) = (idt s)[0x24 := gate 14 0 (adr rs1_interrupt), 0x23 := gate 14 0 (adr rs2_interrupt), 0x21 := gate 15 0 (adr keyboard_interrupt)]"
  by (simp add: tty_init_def con_setup_def rs_init_def serial_init_def Let_def)

lemma idt_sched_init: "idt (sched_init adr s) = (idt s)[0x20 := gate 14 0 (adr timer_interrupt), 0x80 := gate 15 3 (adr system_call)]"
  by (simp add: sched_init_def Let_def)

lemma idt_hd_setup: "idt (hd_setup adr s) = (idt s)[0x2E := gate 15 0 (adr hd_interrupt)]"
  by (simp add: hd_setup_def Let_def)

lemma idt_started: "start_kernel adr cmos again raw s = Inr s' \<Longrightarrow> idt s' = put_all (gates_in_order adr) (idt s)"
proof (cases "time_init cmos again")
  case (Inr t)
  assume "start_kernel adr cmos again raw s = Inr s'"
  then have "idt s' = (put_all (take 32 (gates adr)) (idt (tty_init adr (s\<lparr>startup_time := t\<rparr>))))
      [0x20 := gate 14 0 (adr timer_interrupt), 0x80 := gate 15 3 (adr system_call), 0x2E := gate 15 0 (adr hd_interrupt)]"
    unfolding start_kernel_def Inr by (auto simp: Let_def idt_hd_setup idt_sched_init idt_trap_init)
  then show ?thesis unfolding idt_tty_init gates_in_order_def Let_def by simp
qed (simp add: start_kernel_def)

lemma map_of_in_order: "map_of (gates_in_order adr) = map_of (gates adr)" "distinct (map fst (gates_in_order adr))"
proof -
  have d: "distinct (map fst (gates adr))" unfolding gate_numbers by code_simp
  have "map fst (take 32 (gates adr)) = [0..<32]" unfolding take_map [symmetric] gate_numbers by simp
  then show g: "distinct (map fst (gates_in_order adr))" by (simp add: gates_in_order_def Let_def)
  have "set (gates adr) = set (take 32 (gates adr)) \<union> set (drop 32 (gates adr))" by (metis append_take_drop_id set_append)
  also have "\<dots> = set (gates_in_order adr)" unfolding device_gates by (auto simp: gates_in_order_def Let_def)
  finally show "map_of (gates_in_order adr) = map_of (gates adr)" using map_of_inject_set [OF g d] by simp
qed

lemma idt_entry:
  assumes "length (idt s) = 256" "start_kernel adr cmos again raw s = Inr s'" "i < 256"
  shows "idt s' ! i = (case map_of (gates adr) i of None \<Rightarrow> idt s ! i | Some g \<Rightarrow> g)"
  using fold_put [OF map_of_in_order(2), of i "idt s" adr] assms by (simp add: idt_started map_of_in_order(1))

lemma gate_list_types: "(n, ty, dpl, e) \<in> set gate_list \<Longrightarrow> (ty, dpl) \<in> {(14, 0), (15, 0), (15, 3)} \<and> (dpl = 3 \<longleftrightarrow> n \<in> {3, 4, 5, 0x80}) \<and> n < 256"
proof -
  have "list_all (\<lambda>(n, ty, dpl, e). (ty = 14 \<and> dpl = 0 \<or> ty = 15 \<and> dpl = 0 \<or> ty = 15 \<and> dpl = 3) \<and>
      (dpl = 3 \<longleftrightarrow> n = 3 \<or> n = 4 \<or> n = 5 \<or> n = 0x80) \<and> n < 256) gate_list"
    by code_simp
  then show "(n, ty, dpl, e) \<in> set gate_list \<Longrightarrow> ?thesis" unfolding list_all_iff by fastforce
qed

text \<open>
  Property C26.  After the start every exception, interrupt and the system call has its gate in the table, which leads
  to its routine in the segment of the kernel; every other gate is as it was.  If a program could raise none of the
  interrupts before, it can raise exactly 3, 4, 5 and \<open>0x80\<close> now.
\<close>

theorem gates_after_start:
  assumes "length (idt s) = 256" and "start_kernel adr cmos again raw s = Inr s'"
  shows "(\<forall>(n, ty, dpl, e) \<in> set gate_list.
            offset_of_gate (idt s' ! n) = adr e \<and> gate_selector (idt s' ! n) = 8 \<and> present_gate (idt s' ! n) \<and>
            gate_dpl (idt s' ! n) = dpl \<and> gate_type (idt s' ! n) = ty) \<and>
         (\<forall>i < 256. i \<notin> fst ` set gate_list \<longrightarrow> idt s' ! i = idt s ! i) \<and>
         ((\<forall>i < 256. gate_dpl (idt s ! i) = 0) \<longrightarrow> (\<forall>i < 256. gate_dpl (idt s' ! i) = 3 \<longleftrightarrow> i \<in> {3, 4, 5, 0x80}))"
proof -
  have d: "distinct (map fst (gates adr))" unfolding gate_numbers by code_simp
  have dom: "fst ` set gate_list = fst ` set (gates adr)" by (force simp: gates_def)
  have on: "idt s' ! n = gate ty dpl (adr e)" if "(n, ty, dpl, e) \<in> set gate_list" for n ty dpl e
  proof -
    have "(n, gate ty dpl (adr e)) \<in> set (gates adr)" using that by (force simp: gates_def)
    then have "map_of (gates adr) n = Some (gate ty dpl (adr e))" using d by simp
    then show ?thesis using idt_entry [OF assms] gate_list_types [OF that] by simp
  qed
  have off: "idt s' ! i = idt s ! i" if "i < 256" "i \<notin> fst ` set gate_list" for i
    using idt_entry [OF assms that(1)] that(2) unfolding dom by (simp add: map_of_eq_None_iff [THEN iffD2])
  have "gate_dpl (idt s' ! i) = 3 \<longleftrightarrow> i \<in> {3, 4, 5, 0x80}" if z: "\<forall>i < 256. gate_dpl (idt s ! i) = 0" and i: "i < 256" for i
  proof (cases "i \<in> fst ` set gate_list")
    case True
    then obtain ty dpl e where g: "(i, ty, dpl, e) \<in> set gate_list" by force
    then show ?thesis using on [OF g] gate_list_types [OF g] gate_read(2) [of ty dpl "adr e"] by auto
  next
    case False
    moreover have "{3, 4, 5, 0x80} \<subseteq> fst ` set gate_list" by code_simp
    ultimately show ?thesis using off [OF i] z i by auto
  qed
  moreover have "offset_of_gate (idt s' ! n) = adr e \<and> gate_selector (idt s' ! n) = 8 \<and> present_gate (idt s' ! n) \<and>
      gate_dpl (idt s' ! n) = dpl \<and> gate_type (idt s' ! n) = ty" if "(n, ty, dpl, e) \<in> set gate_list" for n ty dpl e
    using gate_read [OF gate_list_types [OF that, THEN conjunct1], of "adr e"] by (simp add: on [OF that] gate_offset_read)
  then have "\<forall>(n, ty, dpl, e) \<in> set gate_list. offset_of_gate (idt s' ! n) = adr e \<and> gate_selector (idt s' ! n) = 8 \<and>
      present_gate (idt s' ! n) \<and> gate_dpl (idt s' ! n) = dpl \<and> gate_type (idt s' ! n) = ty" by auto
  ultimately show ?thesis using off by blast
qed

theorem gates_after_start_witness:
  "\<exists>s'. start_kernel (\<lambda>_. 0) (\<lambda>_ _. 1) (\<lambda>_. 1) (\<lambda>_. sample_head) sample_machine = Inr s' \<and>
     (\<forall>i < 256. gate_dpl (idt s' ! i) = 3 \<longleftrightarrow> i \<in> {3, 4, 5, 0x80})"
proof -
  obtain s' where s': "start_kernel (\<lambda>_. 0) (\<lambda>_ _. 1) (\<lambda>_. 1) (\<lambda>_. sample_head) sample_machine = Inr s'"
    using sample_start by blast
  have i: "length (idt sample_machine) = 256" "\<forall>i < 256. gate_dpl (idt sample_machine ! i) = 0"
    by (simp_all add: sample_machine_def gate_dpl_def)
  from gates_after_start [OF i(1) s'] i(2) s' show ?thesis by blast
qed

end
