(* ===== verification/Transition.thy ===== *)
theory Transition
  imports Prelude
begin

section \<open>Steps, invariants and simulations\<close>

text \<open>
  What the proofs about state machines share: an invariant of every step holds in all states that can be reached, and
  operations that simulate the steps of an abstract machine do so in sequence.
\<close>

locale invariant =
  fixes step :: "'s \<Rightarrow> 's \<Rightarrow> bool" and inv :: "'s \<Rightarrow> bool"
  assumes step_keeps: "step s s' \<Longrightarrow> inv s \<Longrightarrow> inv s'"
begin

lemma reachable: "step\<^sup>*\<^sup>* s s' \<Longrightarrow> inv s \<Longrightarrow> inv s'"
  by (induction rule: rtranclp_induct) (auto intro: step_keeps)

end

text \<open>A sequence of operations each of which is allowed in the state it meets, and the sequences of abstract steps.\<close>

fun all_allowed :: "('op \<Rightarrow> 's \<Rightarrow> bool) \<Rightarrow> ('op \<Rightarrow> 's \<Rightarrow> 's) \<Rightarrow> 'op list \<Rightarrow> 's \<Rightarrow> bool" where
  "all_allowed allowed run [] s \<longleftrightarrow> True"
| "all_allowed allowed run (x # xs) s \<longleftrightarrow> allowed x s \<and> all_allowed allowed run xs (run x s)"

inductive spec_steps :: "('op \<Rightarrow> 'a \<Rightarrow> 'a \<Rightarrow> bool) \<Rightarrow> 'op list \<Rightarrow> 'a \<Rightarrow> 'a \<Rightarrow> bool" for spec where
  steps_none: "spec_steps spec [] a a"
| steps_more: "spec x a b \<Longrightarrow> spec_steps spec xs b c \<Longrightarrow> spec_steps spec (x # xs) a c"

locale simulation =
  fixes run :: "'op \<Rightarrow> 's \<Rightarrow> 's" and allowed :: "'op \<Rightarrow> 's \<Rightarrow> bool" and ok :: "'s \<Rightarrow> bool"
    and abs_of :: "'s \<Rightarrow> 'a" and spec :: "'op \<Rightarrow> 'a \<Rightarrow> 'a \<Rightarrow> bool"
  assumes simulates: "ok s \<Longrightarrow> allowed x s \<Longrightarrow> spec x (abs_of s) (abs_of (run x s))"
    and run_ok: "ok s \<Longrightarrow> allowed x s \<Longrightarrow> ok (run x s)"
begin

lemma run_all: "ok s \<Longrightarrow> all_allowed allowed run xs s \<Longrightarrow> spec_steps spec xs (abs_of s) (abs_of (fold run xs s))"
  by (induction xs arbitrary: s) (auto intro: spec_steps.intros simulates run_ok)

end

end
