(* ===== verification/Linux_Coprocessor.thy ===== *)
theory Linux_Coprocessor
  imports Linux_Machine_Sample Transition
begin

section \<open>The coprocessor of linux-0.01 between tasks\<close>

text \<open>
  The registers of the coprocessor are saved only when another task uses it.  The abstract machine of this theory gives
  every task a coprocessor of its own: \<open>machine_math\<close> maps the state of the kernel to the running task, the last
  user and the context of every task that has used the coprocessor.  Its steps are task switches, coprocessor
  instructions, which trap first when the task is not the last user, and the part of \<open>fork\<close> that copies a context.
\<close>

datatype math_op =
    Switch u32
  | Use "u32 list \<Rightarrow> u32 list"
  | Fork nat u32 tss_struct

fun math_run :: "math_op \<Rightarrow> 'a machine_state_scheme \<Rightarrow> 'a machine_state_scheme" where
  "math_run (Switch p) s = s\<lparr>current := p\<rparr>"
| "math_run (Use f) s = (let s = math_trap s in s\<lparr>fpu := f (fpu s)\<rparr>)"
| "math_run (Fork nr p regs) s = upd_task p (\<lambda>_. child_task p nr regs s) (fork_math p s)"

text \<open>Pointers are not null, and the page of a child is not that of a task in use.\<close>

fun math_allowed :: "math_op \<Rightarrow> 'a sched_state_scheme \<Rightarrow> bool" where
  "math_allowed (Switch p) s \<longleftrightarrow> p \<noteq> 0"
| "math_allowed (Use f) s \<longleftrightarrow> True"
| "math_allowed (Fork nr p regs) s \<longleftrightarrow> p \<noteq> 0 \<and> p \<noteq> current s \<and> p \<noteq> last_task_used_math s"

subsection \<open>The abstract machine\<close>

type_synonym math_spec = "u32 \<times> u32 \<times> (u32 \<rightharpoonup> u32 list)"

text \<open>The control, status and tag words of a coprocessor that was initialised.\<close>

definition initial_words :: "u32 list" where
  "initial_words = [0x37F, 0, 0xFFFF, 0, 0, 0, 0]"

text \<open>
  A first use starts with the initial words and any contents of the registers.  After a fork the child has the
  context of its parent, and the parent has lost its own if it was the last user: \<open>fnsave\<close> initialises the
  coprocessor after it has stored the context for the child, and no \<open>frstor\<close> follows.
\<close>

inductive math_step :: "math_op \<Rightarrow> math_spec \<Rightarrow> math_spec \<Rightarrow> bool" where
  step_switch: "math_step (Switch p) (c, own, ctx) (p, own, ctx)"
| step_use: "ctx c = Some x \<or> ctx c = None \<and> take 7 x = initial_words \<Longrightarrow> math_step (Use f) (c, own, ctx) (c, c, ctx(c \<mapsto> f x))"
| step_fork: "math_step (Fork nr p regs) (c, own, ctx) (c, own, ctx(p := ctx c, c := if own = c then map_option fninit (ctx c) else ctx c))"

definition fpu_view :: "u32 \<Rightarrow> 'a machine_state_scheme \<Rightarrow> u32 list" where
  "fpu_view p s = (if last_task_used_math s = p then fpu s else i387 s p)"

definition machine_math :: "'a machine_state_scheme \<Rightarrow> math_spec" where
  "machine_math s =
     (current s, last_task_used_math s, \<lambda>p. if p \<noteq> 0 \<and> t_used_math (tasks s p) \<noteq> 0 then Some (fpu_view p s) else None)"

definition math_ok :: "'a sched_state_scheme \<Rightarrow> bool" where
  "math_ok s \<longleftrightarrow> current s \<noteq> 0 \<and> (last_task_used_math s \<noteq> 0 \<longrightarrow> t_used_math (tasks s (last_task_used_math s)) \<noteq> 0)"

subsection \<open>Simulation\<close>

lemma initial_fninit: "take 7 (fninit f) = initial_words"
  by (simp add: fninit_def initial_words_def)

lemma used_upd: "t_used_math (tasks (upd_cur (\<lambda>t. t\<lparr>t_used_math := 1\<rparr>) s) p) = (if p = current s then 1 else t_used_math (tasks s p))"
  by (simp add: upd_cur_def upd_task_def)

lemma upd_cur_fields [simp]:
  "current (upd_cur f s) = current s" "last_task_used_math (upd_cur f s) = last_task_used_math s"
  by (simp_all add: upd_cur_def upd_task_def)

lemma upd_cur_machine [simp]: "fpu (upd_cur f s) = fpu s" "i387 (upd_cur f s) = i387 s"
  by (simp_all add: upd_cur_def upd_task_def)

lemma math_trap_owner:
  assumes "math_ok s"
  shows "current (math_trap s) = current s" "last_task_used_math (math_trap s) = current s"
    "t_used_math (tasks (math_trap s) p) = (if p = current s then (if t_used_math (cur s) \<noteq> 0 then t_used_math (cur s) else 1) else t_used_math (tasks s p))"
    "t_used_math (cur s) \<noteq> 0 \<Longrightarrow> fpu (math_trap s) = fpu_view (current s) s"
    "t_used_math (cur s) = 0 \<Longrightarrow> take 7 (fpu (math_trap s)) = initial_words"
    "p \<noteq> current s \<Longrightarrow> p \<noteq> 0 \<Longrightarrow> fpu_view p (math_trap s) = fpu_view p s"
  using assms by (auto simp: math_trap_def math_state_restore_def fnsave_def fpu_view_def math_ok_def Let_def used_upd initial_fninit)

lemma math_run_simulates:
  assumes "math_ok s" "math_allowed x s"
  shows "math_step x (machine_math s) (machine_math (math_run x s)) \<and> math_ok (math_run x s)"
proof (cases x)
  case (Switch p)
  have "machine_math (math_run x s) = (p, snd (machine_math s))" by (auto simp: machine_math_def Switch fpu_view_def fun_eq_iff)
  moreover have "math_step x (current s, snd (machine_math s)) (p, snd (machine_math s))"
    unfolding Switch by (cases "snd (machine_math s)") (simp add: step_switch)
  moreover have "machine_math s = (current s, snd (machine_math s))" by (simp add: machine_math_def)
  ultimately show ?thesis using assms Switch by (simp add: math_ok_def)
next
  case (Use f)
  let ?s = "math_trap s" and ?c = "current s"
  let ?ctx = "snd (snd (machine_math s))"
  have c: "?c \<noteq> 0" using assms(1) by (simp add: math_ok_def)
  note t = math_trap_owner [OF assms(1)]
  have "?ctx ?c = Some (fpu ?s) \<or> ?ctx ?c = None \<and> take 7 (fpu ?s) = initial_words"
    using c t(4,5) by (auto simp: machine_math_def)
  then have "math_step (Use f) (?c, last_task_used_math s, ?ctx) (?c, ?c, ?ctx(?c \<mapsto> f (fpu ?s)))" by (rule step_use)
  moreover have "machine_math (math_run x s) = (?c, ?c, ?ctx(?c \<mapsto> f (fpu ?s)))"
    using c t by (auto simp: machine_math_def Use Let_def fun_eq_iff fpu_view_def split: if_splits)
  moreover have "machine_math s = (?c, last_task_used_math s, ?ctx)" by (simp add: machine_math_def)
  moreover have "math_ok (math_run x s)" using c t(1,2) t(3) [of ?c] by (simp add: math_ok_def Use Let_def)
  ultimately show ?thesis using Use by simp
next
  case (Fork nr p regs)
  have "machine_math (math_run x s) = (current s, last_task_used_math s, (snd (snd (machine_math s)))(p := snd (snd (machine_math s)) (current s),
      current s := if last_task_used_math s = current s then map_option fninit (snd (snd (machine_math s)) (current s)) else snd (snd (machine_math s)) (current s)))"
    using assms by (auto simp: machine_math_def Fork fork_math_def fnsave_def fpu_view_def math_ok_def upd_task_def child_task_def Let_def fun_eq_iff)
  moreover have "machine_math s = (current s, last_task_used_math s, snd (snd (machine_math s)))" by (simp add: machine_math_def)
  ultimately have "math_step x (machine_math s) (machine_math (math_run x s))" unfolding Fork by (metis step_fork)
  moreover have "math_ok (math_run x s)"
    using assms by (auto simp: math_ok_def Fork fork_math_def fnsave_def upd_task_def Let_def)
  ultimately show ?thesis by simp
qed

interpretation math_sim: simulation math_run math_allowed math_ok machine_math math_step
  by unfold_locales (simp_all add: math_run_simulates)

text \<open>
  Property C27.  Whatever tasks use the coprocessor and however the processor is switched between them, every
  task works on a coprocessor of its own, although the registers are saved only when they change hands; only a
  fork by the last user makes an exception, which resets the coprocessor of the parent.
\<close>

theorem coprocessor_refines_contexts:
  assumes "math_ok s" and "all_allowed math_allowed math_run xs s"
  shows "spec_steps math_step xs (machine_math s) (machine_math (fold math_run xs s))"
  using assms by (rule math_sim.run_all)

definition sample_math :: "math_op list" where
  "sample_math = [Use (map (\<lambda>_. 7)), Fork 1 0x3000 init_tss, Switch 0x3000, Use (\<lambda>r. r), Switch 0x1000, Use (\<lambda>r. r)]"

theorem coprocessor_refines_contexts_witness:
  "math_ok sample_machine \<and> all_allowed math_allowed math_run sample_math sample_machine \<and>
   spec_steps math_step sample_math (machine_math sample_machine) (machine_math (fold math_run sample_math sample_machine))"
proof -
  have ok: "math_ok sample_machine" by (simp add: math_ok_def sample_machine_def)
  have "current sample_machine = 0x1000" by (simp add: sample_machine_def)
  then have "all_allowed math_allowed math_run sample_math sample_machine"
    using math_trap_owner(1,2) [OF ok] by (simp add: sample_math_def Let_def)
  then show ?thesis using ok coprocessor_refines_contexts [OF ok] by blast
qed

end
