(* ===== verification/Linux_Build.thy ===== *)
theory Linux_Build
  imports Linux_Fs
begin

section \<open>Putting the boot image of linux-0.01 together (\<open>tools/build.c\<close>)\<close>

text \<open>
  \<open>build\<close> is a program of the host.  It takes the boot sector without the header of its object file, marks it as
  bootable and appends the kernel without the first block of its file.  A file is the list of its bytes, or
  \<open>None\<close> where \<open>open\<close> fails; \<open>room\<close> is the number of bytes that standard output accepts.  The messages to
  standard error of a run that succeeds are left out.
\<close>

definition MINIX_HEADER :: nat where "MINIX_HEADER = 32"
definition GCC_HEADER :: nat where "GCC_HEADER = 1024"

text \<open>The message of \<open>die\<close>, with what was written before it; or the number of bytes of the kernel and the output.\<close>

type_synonym build_result = "(string + nat) \<times> u8 list"

definition build_die :: "string \<Rightarrow> u8 list \<Rightarrow> build_result" where
  "build_die str out = (Inl str, out)"

definition quoted :: "string \<Rightarrow> string" where "quoted str = [CHR 0x27] @ str @ [CHR 0x27]"

definition usage :: build_result where
  "usage = build_die ''Usage: build boot system [> image]'' []"

text \<open>\<open>read\<close> at the position reached in a file: the bytes and the rest; and \<open>write(1, \<dots>)\<close>.\<close>

definition read_bytes :: "nat \<Rightarrow> u8 list \<Rightarrow> u8 list \<times> u8 list" where
  "read_bytes n f = (take n f, drop n f)"

definition write_bytes :: "nat \<Rightarrow> u8 list \<Rightarrow> u8 list \<Rightarrow> nat \<times> u8 list" where
  "write_bytes room l out = (let n = min (length l) (room - length out) in (n, out @ take n l))"

text \<open>The array \<open>buf\<close> after \<open>read\<close> has put bytes at its start.\<close>

definition fill_buf :: "u8 list \<Rightarrow> u8 list \<Rightarrow> u8 list" where
  "fill_buf l b = l @ drop (length l) b"

function copy_system :: "nat \<Rightarrow> u8 list \<Rightarrow> u8 list \<Rightarrow> nat \<Rightarrow> build_result" where
  "copy_system room f out i =
     (let (l, f') = read_bytes 1024 f in
      if l = [] then (Inr i, out)
      else let (n, out) = write_bytes room l out in
           if n \<noteq> length l then build_die ''Write call failed'' out
           else copy_system room f' out (i + length l))"
  by pat_completeness auto

termination
  by (relation "measure (\<lambda>(room, f, out, i). length f)") (auto simp: read_bytes_def)

declare copy_system.simps [simp del]

definition build_system :: "nat \<Rightarrow> u8 list option \<Rightarrow> u8 list \<Rightarrow> build_result" where
  "build_system room system out =
     (case system of
        None \<Rightarrow> build_die (''Unable to open '' @ quoted ''system'') out
      | Some f \<Rightarrow>
          let (l, f) = read_bytes GCC_HEADER f in
          if length l \<noteq> GCC_HEADER then build_die (''Unable to read header of '' @ quoted ''system'') out
          else if get32 l 20 \<noteq> 0 then build_die (''Non-GCC header of '' @ quoted ''system'') out
          else copy_system room f out 0)"

definition build :: "nat \<Rightarrow> nat \<Rightarrow> u8 list option \<Rightarrow> u8 list option \<Rightarrow> build_result" where
  "build room argc boot system =
     (if argc \<noteq> 3 then usage
      else case boot of
        None \<Rightarrow> build_die (''Unable to open '' @ quoted ''boot'') []
      | Some f \<Rightarrow>
          let (l, f) = read_bytes MINIX_HEADER f; b = fill_buf l (replicate 1024 0) in
          if length l \<noteq> MINIX_HEADER then build_die (''Unable to read header of '' @ quoted ''boot'') []
          else if get32 b 0 \<noteq> 0x04100301 then build_die (''Non-Minix header of '' @ quoted ''boot'') []
          else if get32 b 4 \<noteq> of_nat MINIX_HEADER then build_die (''Non-Minix header of '' @ quoted ''boot'') []
          else if get32 b 12 \<noteq> 0 then build_die (''Illegal data segment in '' @ quoted ''boot'') []
          else if get32 b 16 \<noteq> 0 then build_die (''Illegal bss in '' @ quoted ''boot'') []
          else if get32 b 20 \<noteq> 0 then build_die (''Non-Minix header of '' @ quoted ''boot'') []
          else if get32 b 28 \<noteq> 0 then build_die (''Illegal symbol table in '' @ quoted ''boot'') []
          else
            let (l, _) = read_bytes 1024 f; b = (fill_buf l b)[510 := 0x55, 511 := 0xAA] in
            if length l > 510 then build_die ''Boot block may not exceed 510 bytes'' []
            else let (n, out) = write_bytes room (take 512 b) [] in
                 if n \<noteq> 512 then build_die ''Write call failed'' out
                 else build_system room system out)"

subsection \<open>The image\<close>

lemma write_bytes_all: "fst (write_bytes room l out) = length l \<longleftrightarrow> l = [] \<or> length out + length l \<le> room"
  by (cases l) (auto simp: write_bytes_def Let_def min_def)

lemma copy_system_iff:
  "length out \<le> room \<Longrightarrow>
   copy_system room f out i = (Inr n, res) \<longleftrightarrow> length out + length f \<le> room \<and> n = i + length f \<and> res = out @ f"
proof (induction room f out i rule: copy_system.induct)
  case (1 room f out i)
  let ?l = "take 1024 f"
  show ?case
  proof (cases "f = []")
    case False
    show ?thesis
    proof (cases "length out + length ?l \<le> room")
      case True
      then have "length ?l \<le> room - length out" by linarith
      then have w: "write_bytes room ?l out = (length ?l, out @ ?l)" unfolding write_bytes_def Let_def by (simp only: min_absorb1 take_all)
      then have "copy_system room f out i = copy_system room (drop 1024 f) (out @ ?l) (i + length ?l)"
        using False by (subst copy_system.simps) (simp add: read_bytes_def)
      moreover have "length (out @ ?l) + length (drop 1024 f) = length out + length f" by simp
      moreover have "(out @ ?l) @ drop 1024 f = out @ f" by simp
      ultimately show ?thesis
        using "1.IH" [of "(?l, drop 1024 f)" ?l "drop 1024 f" "(length ?l, out @ ?l)" "length ?l" "out @ ?l"] True False w
        by (simp add: read_bytes_def add.assoc)
    next
      case too_long: False
      obtain k o' where w: "write_bytes room ?l out = (k, o')" by (cases "write_bytes room ?l out")
      then have "k \<noteq> length ?l" using write_bytes_all [of room ?l out] too_long False by auto
      then have "fst (copy_system room f out i) = Inl ''Write call failed''"
        using False w by (subst copy_system.simps) (simp add: read_bytes_def build_die_def)
      moreover have "\<not> length out + length f \<le> room" using too_long by simp
      ultimately show ?thesis by (metis fst_conv Inl_Inr_False)
    qed
  qed (use "1.prems" in \<open>subst copy_system.simps, auto simp: read_bytes_def\<close>)
qed

definition minix_header :: "u8 list \<Rightarrow> bool" where
  "minix_header h \<longleftrightarrow>
     length h = 32 \<and> get32 h 0 = 0x04100301 \<and> get32 h 4 = 32 \<and> get32 h 12 = 0 \<and> get32 h 16 = 0 \<and> get32 h 20 = 0 \<and> get32 h 28 = 0"

text \<open>The boot sector: the code, what it left of the header and zeros, and the mark.\<close>

definition boot_sector :: "u8 list \<Rightarrow> u8 list \<Rightarrow> u8 list" where
  "boot_sector h code = take 510 (code @ drop (length code) (h @ replicate 478 0)) @ [0x55, 0xAA]"

lemma build_system_iff:
  assumes "length out \<le> room"
  shows "build_system room system out = (Inr n, res) \<longleftrightarrow>
    (\<exists>g body. system = Some (g @ body) \<and> length g = 1024 \<and> get32 g 20 = 0 \<and> length out + length body \<le> room \<and>
       n = length body \<and> res = out @ body)" (is "?L \<longleftrightarrow> ?R")
proof
  assume ?L
  then obtain f where "system = Some f" "length f \<ge> 1024" "get32 (take 1024 f) 20 = 0" "copy_system room (drop 1024 f) out 0 = (Inr n, res)"
    by (auto simp: build_system_def build_die_def read_bytes_def GCC_HEADER_def split: option.splits if_splits)
  then show ?R using copy_system_iff [OF assms] by (intro exI [of _ "take 1024 f"] exI [of _ "drop 1024 f"]) simp
next
  assume ?R
  then show ?L using copy_system_iff [OF assms] by (auto simp: build_system_def read_bytes_def GCC_HEADER_def)
qed

lemma get32_fill: "length h = 32 \<Longrightarrow> k + 4 \<le> 32 \<Longrightarrow> get32 (fill_buf h b) k = get32 h k"
  by (simp add: get32_def get16_def fill_buf_def nth_append)

lemma take_marks:
  assumes "n + 2 \<le> length xs"
  shows "take (n + 2) (xs[n := a, n + 1 := b]) = take n xs @ [a, b]"
  using assms by (auto intro!: nth_equalityI simp: nth_append nth_list_update less_Suc_eq)

lemma boot_sector_written:
  assumes "length h = 32" "length code \<le> 510"
  shows "take 512 ((fill_buf code (fill_buf h (replicate 1024 0)))[510 := 0x55, 511 := 0xAA]) = boot_sector h code"
proof -
  let ?b = "fill_buf code (fill_buf h (replicate 1024 0))"
  have "take 510 (h @ replicate 992 0) = h @ replicate 478 0" using assms(1) by simp
  then have "take 510 ?b = take 510 (code @ drop (length code) (h @ replicate 478 0))"
    using assms by (simp add: fill_buf_def take_drop [symmetric])
  then show ?thesis using take_marks [of 510 ?b "0x55" "0xAA"] assms by (simp add: boot_sector_def fill_buf_def)
qed

lemma minix_header_fill:
  "minix_header h \<longleftrightarrow> length h = 32 \<and> get32 (fill_buf h b) 0 = 0x04100301 \<and> get32 (fill_buf h b) 4 = 32 \<and>
     get32 (fill_buf h b) 12 = 0 \<and> get32 (fill_buf h b) 16 = 0 \<and> get32 (fill_buf h b) 20 = 0 \<and> get32 (fill_buf h b) 28 = 0"
  by (auto simp: minix_header_def get32_fill)

lemma write_sector: "length l = 512 \<Longrightarrow> 512 \<le> room \<Longrightarrow> write_bytes room l [] = (512, l)"
  by (simp add: write_bytes_def)

text \<open>With a boot file that passes the checks, the program goes on with the boot sector written.\<close>

lemma build_boot_iff:
  "build room argc boot system = (Inr n, res) \<longleftrightarrow>
    argc = 3 \<and> (\<exists>h code. boot = Some (h @ code) \<and> minix_header h \<and> length code \<le> 510 \<and> 512 \<le> room \<and>
      build_system room system (boot_sector h code) = (Inr n, res))" (is "?L \<longleftrightarrow> ?R")
proof
  assume L: ?L
  then obtain f where f: "argc = 3" "boot = Some f" by (auto simp: build_def usage_def build_die_def split: if_splits option.splits)
  let ?h = "take 32 f" and ?code = "take 1024 (drop 32 f)"
  let ?sector = "take 512 ((fill_buf ?code (fill_buf ?h (replicate 1024 0)))[510 := 0x55, 511 := 0xAA])"
  from L f have ok: "minix_header ?h" "length ?code \<le> 510" "fst (write_bytes room ?sector []) = 512"
      "build_system room system (snd (write_bytes room ?sector [])) = (Inr n, res)"
    by (auto simp: build_def build_die_def read_bytes_def MINIX_HEADER_def minix_header_fill [of _ "replicate 1024 0"] Let_def
          split: if_splits prod.splits)
  have "length ?sector = 512" using ok(1,2) by (simp add: fill_buf_def minix_header_def)
  with ok(3) have "512 \<le> room" using write_bytes_all [of room ?sector "[]"] by auto
  moreover have "?code = drop 32 f" using ok(2) by simp
  ultimately show ?R using ok f \<open>length ?sector = 512\<close> write_sector [of ?sector room] boot_sector_written [of ?h ?code]
    by (intro conjI exI [of _ ?h] exI [of _ ?code]) (auto simp: minix_header_def)
next
  assume ?R
  then obtain h code where R: "argc = 3" "boot = Some (h @ code)" "minix_header h" "length code \<le> 510" "512 \<le> room"
    "build_system room system (boot_sector h code) = (Inr n, res)" by blast
  have l: "length h = 32" using R(3) by (simp add: minix_header_def)
  have "length (boot_sector h code) = 512" using l R(4) by (simp add: boot_sector_def)
  from write_sector [OF this R(5)] show ?L
    using R l boot_sector_written [OF l R(4)] R(3) [unfolded minix_header_fill [of _ "replicate 1024 0"]]
    by (simp add: build_def read_bytes_def MINIX_HEADER_def)
qed

text \<open>
  Property C40.  \<open>build\<close> succeeds exactly when it is given two files of the expected formats, a boot sector
  of at most 510 bytes and an output that takes everything; then it writes a sector of 512 bytes with the boot
  code in front and the mark \<open>0x55\<close>, \<open>0xAA\<close> at the end, and the kernel without its header behind it.
\<close>

theorem build_image:
  "build room argc boot system = (Inr n, img) \<longleftrightarrow>
     argc = 3 \<and>
     (\<exists>h code g kernel. boot = Some (h @ code) \<and> minix_header h \<and> length code \<le> 510 \<and>
        system = Some (g @ kernel) \<and> length g = GCC_HEADER \<and> get32 g 20 = 0 \<and> 512 + length kernel \<le> room \<and>
        n = length kernel \<and> img = boot_sector h code @ kernel \<and> length (boot_sector h code) = 512)"
proof -
  have l: "length (boot_sector h code) = 512" if "minix_header h" "length code \<le> 510" for h code
    using that by (simp add: boot_sector_def minix_header_def)
  have "minix_header h \<and> length code \<le> 510 \<and> 512 \<le> room \<and> build_system room system (boot_sector h code) = (Inr n, img) \<longleftrightarrow>
      (\<exists>g kernel. minix_header h \<and> length code \<le> 510 \<and> system = Some (g @ kernel) \<and> length g = 1024 \<and> get32 g 20 = 0 \<and>
         512 + length kernel \<le> room \<and> n = length kernel \<and> img = boot_sector h code @ kernel \<and> length (boot_sector h code) = 512)" for h code
    using build_system_iff [of "boot_sector h code" room system n img] l [of h code] by auto
  then have "(\<exists>h code. boot = Some (h @ code) \<and> minix_header h \<and> length code \<le> 510 \<and> 512 \<le> room \<and>
        build_system room system (boot_sector h code) = (Inr n, img)) \<longleftrightarrow>
      (\<exists>h code. boot = Some (h @ code) \<and> (\<exists>g kernel. minix_header h \<and> length code \<le> 510 \<and> system = Some (g @ kernel) \<and>
         length g = 1024 \<and> get32 g 20 = 0 \<and> 512 + length kernel \<le> room \<and> n = length kernel \<and>
         img = boot_sector h code @ kernel \<and> length (boot_sector h code) = 512))"
    by presburger
  then show ?thesis unfolding build_boot_iff GCC_HEADER_def by blast
qed

end
