(* ===== verification/Linux_Typed.thy ===== *)
theory Linux_Typed
  imports Linux_Samples
begin

unbundle bit_operations_syntax

section \<open>The tables of the linux-0.01 kernel keep their shape: the disk and the buffers\<close>

text \<open>
  A pointer into a table of the kernel is an index here, an array a list, and \<open>xs ! i\<close> means nothing outside
  the list.  \<open>fs_typed\<close> says that every array has the size its declaration gives it and that every index that is
  stored somewhere lies inside the array it belongs to.  The theories \<open>Linux_Typed\<close>, \<open>Linux_Typed_Fs\<close> and
  \<open>Linux_Typed_Kernel\<close> show that every operation keeps this, from the disk interrupts up to the
  system calls.  \<open>okr P r\<close> is the judgement they use: if \<open>r\<close> is a result and not an error, it satisfies \<open>P\<close>.
\<close>

named_theorems typed \<open>states that are well typed after an update\<close>
named_theorems okr_binds \<open>sequencing after an operation that keeps the types\<close>

definition okr :: "('x \<Rightarrow> bool) \<Rightarrow> 'x res \<Rightarrow> bool" where
  "okr P r \<longleftrightarrow> (case r of Inl _ \<Rightarrow> True | Inr x \<Rightarrow> P x)"

lemma okr_simps [simp]: "okr P (Inl e)" "okr P (Inr x) \<longleftrightarrow> P x"
  by (simp_all add: okr_def)

lemma okr_bind: "okr P r \<Longrightarrow> (\<And>x. P x \<Longrightarrow> okr Q (f x)) \<Longrightarrow> okr Q (bindr r f)"
  by (cases r) auto

lemma okr_mono: "okr P r \<Longrightarrow> (\<And>x. P x \<Longrightarrow> Q x) \<Longrightarrow> okr Q r"
  by (cases r) auto

lemma okr_deref: "(\<And>i. p = Some i \<Longrightarrow> okr P (k i)) \<Longrightarrow> okr P (deref w p k)"
  by (cases p) auto

lemma okr_of_option: "(\<And>x. r = Some x \<Longrightarrow> P x) \<Longrightarrow> okr P (of_option e r)"
  by (cases r) auto

text \<open>Loops: what holds of every value a loop returns holds of its result.\<close>

lemma okr_loop: "(\<And>x. r = Some x \<Longrightarrow> okr P x) \<Longrightarrow> okr P (loop_res r)"
  by (cases r) auto

lemma bindo_okr: "bindo r f = Some y \<Longrightarrow> okr P r \<Longrightarrow> (\<And>x. P x \<Longrightarrow> f x = Some y \<Longrightarrow> okr Q y) \<Longrightarrow> okr Q y"
  by (cases r) auto

subsection \<open>Pointers and the entries of the tables\<close>

definition ptr_ok :: "nat \<Rightarrow> nat option \<Rightarrow> bool" where
  "ptr_ok n p \<longleftrightarrow> (case p of None \<Rightarrow> True | Some i \<Rightarrow> i < n)"

lemma ptr_ok_simps [simp]: "ptr_ok n None" "ptr_ok n (Some i) \<longleftrightarrow> i < n"
  by (simp_all add: ptr_ok_def)

lemma ptr_okD: "ptr_ok n p \<Longrightarrow> p = Some i \<Longrightarrow> i < n"
  by simp

text \<open>The number of the controlling terminal is negative for none, or an index of the three entries of \<open>tty_table\<close>.\<close>

definition task_typed :: "task_struct \<Rightarrow> bool" where
  "task_typed t \<longleftrightarrow>
     length (t_filp t) = NR_OPEN \<and> (\<forall>p \<in> set (t_filp t). ptr_ok NR_FILE p) \<and>
     ptr_ok NR_INODE (t_pwd t) \<and> ptr_ok NR_INODE (t_root t) \<and> length (t_ldt t) = 3 \<and> length (t_sig_fn t) = 32 \<and>
     sint (t_tty t) < 3"

lemma tty_number: "unat v < 3 \<Longrightarrow> sint (v :: u32) < 3" "sint v < 3 \<Longrightarrow> 0 \<le> sint v \<Longrightarrow> unat v < 3"
proof -
  have v: "sint v = int (unat v) \<or> sint v = int (unat v) - 4294967296" unfolding sint_u32 by metis
  have l: "unat v < 4294967296" by simp
  show "sint v < 3 \<Longrightarrow> 0 \<le> sint v \<Longrightarrow> unat v < 3" using v l by linarith
  show "unat v < 3 \<Longrightarrow> sint v < 3" using v by linarith
qed

definition buf_typed :: "nat \<Rightarrow> buffer_head \<Rightarrow> bool" where
  "buf_typed N b \<longleftrightarrow>
     length (b_data b) = BLOCK_SIZE \<and> ptr_ok N (b_prev b) \<and> ptr_ok N (b_next b) \<and>
     ptr_ok N (b_prev_free b) \<and> ptr_ok N (b_next_free b)"

definition inode_typed :: "m_inode \<Rightarrow> bool" where
  "inode_typed m \<longleftrightarrow> length (i_zone m) = 9"

definition file_typed :: "open_file \<Rightarrow> bool" where
  "file_typed f \<longleftrightarrow> ptr_ok NR_INODE (f_inode f)"

definition super_typed :: "nat \<Rightarrow> super_block \<Rightarrow> bool" where
  "super_typed N sb \<longleftrightarrow>
     length (s_imap sb) = 8 \<and> length (s_zmap sb) = 8 \<and> (\<forall>p \<in> set (s_imap sb) \<union> set (s_zmap sb). ptr_ok N p) \<and>
     ptr_ok NR_INODE (s_isup sb) \<and> ptr_ok NR_INODE (s_imount sb)"

definition req_typed :: "nat \<Rightarrow> hd_request \<Rightarrow> bool" where
  "req_typed N r \<longleftrightarrow> r_bh r < N \<and> ptr_ok NR_REQUEST (r_next r)"

lemmas entry_typed = task_typed_def buf_typed_def inode_typed_def file_typed_def super_typed_def req_typed_def

subsection \<open>States\<close>

definition sched_typed :: "'a sched_state_scheme \<Rightarrow> bool" where
  "sched_typed s \<longleftrightarrow> length (task s) = NR_TASKS \<and> (\<forall>p. task_typed (tasks s p))"

definition mm_typed :: "'a mm_state_scheme \<Rightarrow> bool" where
  "mm_typed s \<longleftrightarrow> sched_typed s \<and> length (mem_map s) = PAGING_PAGES"

text \<open>\<open>N\<close> is the number of buffers; \<open>m\<close> is what a larger state has beside the file system, which nothing here changes.\<close>

definition fs_typed :: "nat \<Rightarrow> 'a \<Rightarrow> 'a fs_state_scheme \<Rightarrow> bool" where
  "fs_typed N m s \<longleftrightarrow>
     mm_typed s \<and> 0 < N \<and>
     length (buffers s) = N \<and> (\<forall>b \<in> set (buffers s). buf_typed N b) \<and>
     length (hash_table s) = NR_HASH \<and> (\<forall>p \<in> set (hash_table s). ptr_ok N p) \<and> ptr_ok N (free_list s) \<and>
     length (inode_table s) = NR_INODE \<and> (\<forall>i \<in> set (inode_table s). inode_typed i) \<and> last_allocated_inode s < NR_INODE \<and>
     length (file_table s) = NR_FILE \<and> (\<forall>f \<in> set (file_table s). file_typed f) \<and>
     length (super_blocks s) = NR_SUPER \<and> (\<forall>b \<in> set (super_blocks s). super_typed N b) \<and>
     length (request s) = NR_REQUEST \<and> (\<forall>r \<in> set (request s). req_typed N r) \<and> ptr_ok NR_REQUEST (this_request s) \<and>
     length (hd_parts s) = 10 \<and> (\<forall>d n. length (dsk_sectors s d n) = 512) \<and>
     (do_hd s = Some Write_intr \<longrightarrow> length (dsk_buffer s) = 512) \<and>
     fs_state.more s = m"

text \<open>Two states that agree in what follows the fields of the memory management differ in those fields only.\<close>

lemma sched_more_eq:
  fixes s s' :: "'a sched_state_scheme"
  assumes "sched_state.more s' = sched_state.more s"
  shows "s' = s\<lparr>task := task s', tasks := tasks s', current := current s', jiffies := jiffies s',
    startup_time := startup_time s', init_task := init_task s', wait_queues := wait_queues s', last_pid := last_pid s',
    last_task_used_math := last_task_used_math s'\<rparr>"
  by (rule sched_state.equality) (simp_all add: assms)

lemma mm_more_eq:
  fixes s s' :: "'a mm_state_scheme"
  assumes "mm_state.more s' = mm_state.more s"
  shows "s' = s\<lparr>task := task s', tasks := tasks s', current := current s', jiffies := jiffies s',
    startup_time := startup_time s', init_task := init_task s', wait_queues := wait_queues s', last_pid := last_pid s',
    last_task_used_math := last_task_used_math s', mem_map := mem_map s', phys := phys s'\<rparr>"
  by (rule mm_state.equality) (simp_all add: assms)

lemma fs_typed_mm:
  assumes "fs_typed N m s" "mm_typed s'" "mm_state.more s' = mm_state.more s"
  shows "fs_typed N m s'"
  using assms(1,2) by (subst mm_more_eq [OF assms(3)]) (simp add: fs_typed_def mm_typed_def sched_typed_def)

lemma fs_typed_sched:
  assumes "fs_typed N m s" "sched_typed s'" "sched_state.more s' = sched_state.more s"
  shows "fs_typed N m s'"
  using assms(1,2) by (subst sched_more_eq [OF assms(3)]) (simp add: fs_typed_def mm_typed_def sched_typed_def)

subsection \<open>What is read from a well-typed state\<close>

lemma fs_typedD:
  assumes "fs_typed N m s"
  shows "length (buffers s) = N" "ptr_ok N (free_list s)" "ptr_ok NR_REQUEST (this_request s)" "fs_state.more s = m" "0 < N"
    "i < N \<Longrightarrow> buf_typed N (buf s i)" "h < NR_HASH \<Longrightarrow> ptr_ok N (hash_table s ! h)"
    "i < NR_INODE \<Longrightarrow> inode_typed (inode s i)" "i < NR_FILE \<Longrightarrow> file_typed (filp s i)"
    "i < NR_SUPER \<Longrightarrow> super_typed N (super s i)" "i < NR_REQUEST \<Longrightarrow> req_typed N (req s i)"
    "task_typed (tasks s p)" "length (task s) = NR_TASKS" "sched_typed s" "mm_typed s"
    "length (dsk_sectors s d n) = 512" "do_hd s = Some Write_intr \<Longrightarrow> length (dsk_buffer s) = 512"
  using assms by (auto simp: fs_typed_def mm_typed_def sched_typed_def)

lemma fs_typed_ptr:
  assumes "fs_typed N m s"
  shows "i < N \<Longrightarrow> ptr_ok N (b_next (buf s i))" "i < N \<Longrightarrow> ptr_ok N (b_prev (buf s i))"
    "i < N \<Longrightarrow> ptr_ok N (b_next_free (buf s i))" "i < N \<Longrightarrow> ptr_ok N (b_prev_free (buf s i))"
    "i < NR_FILE \<Longrightarrow> ptr_ok NR_INODE (f_inode (filp s i))"
    "i < NR_REQUEST \<Longrightarrow> ptr_ok NR_REQUEST (r_next (req s i))"
    "ptr_ok NR_INODE (t_pwd (tasks s p))" "ptr_ok NR_INODE (t_root (tasks s p))"
    "fd < NR_OPEN \<Longrightarrow> ptr_ok NR_FILE (t_filp (tasks s p) ! fd)"
    "i < NR_SUPER \<Longrightarrow> k < 8 \<Longrightarrow> ptr_ok N (s_imap (super s i) ! k)" "i < NR_SUPER \<Longrightarrow> k < 8 \<Longrightarrow> ptr_ok N (s_zmap (super s i) ! k)"
  using fs_typedD(6,8,9,10,11) [OF assms, of i] fs_typedD(12) [OF assms, of p] by (simp_all add: entry_typed)

text \<open>A pointer that is not null.\<close>

lemmas fs_typed_Some = fs_typed_ptr [THEN ptr_okD] fs_typedD(2,3,7) [THEN ptr_okD]

lemmas fs_typed_SomeD = fs_typed_Some(1-6,9,14) [rotated 2] fs_typed_Some(7,8,12,13) [rotated] fs_typed_Some(10,11) [rotated 3]

lemma fs_typed_bh: "fs_typed N m s \<Longrightarrow> i < NR_REQUEST \<Longrightarrow> r_bh (req s i) < N"
  using fs_typedD(11) [of N m s i] by (simp add: req_typed_def)

subsection \<open>Updates of one entry\<close>

lemma all_put: "\<forall>x \<in> set xs. P x \<Longrightarrow> P y \<Longrightarrow> \<forall>x \<in> set (xs[i := y]). P x"
  by (auto dest: set_update_subset_insert [THEN subsetD])

lemma all_list_update:
  assumes "\<forall>x \<in> set xs. P x" "\<And>x. P x \<Longrightarrow> P (f x)"
  shows "\<forall>x \<in> set (xs[i := f (xs ! i)]). P x"
proof (cases "i < length xs")
  case True
  then show ?thesis by (intro all_put assms) (simp add: assms(1))
qed (simp add: assms(1) list_update_beyond)

lemma typed_tables:
  assumes "fs_typed N m s"
  shows
  "length l0 = N \<Longrightarrow> \<forall>b \<in> set l0. buf_typed N b \<Longrightarrow> fs_typed N m (s\<lparr>buffers := l0\<rparr>)"
  "length l1 = NR_INODE \<Longrightarrow> \<forall>b \<in> set l1. inode_typed b \<Longrightarrow> fs_typed N m (s\<lparr>inode_table := l1\<rparr>)"
  "length l2 = NR_FILE \<Longrightarrow> \<forall>b \<in> set l2. file_typed b \<Longrightarrow> fs_typed N m (s\<lparr>file_table := l2\<rparr>)"
  "length l3 = NR_SUPER \<Longrightarrow> \<forall>b \<in> set l3. super_typed N b \<Longrightarrow> fs_typed N m (s\<lparr>super_blocks := l3\<rparr>)"
  "length l4 = NR_REQUEST \<Longrightarrow> \<forall>b \<in> set l4. req_typed N b \<Longrightarrow> fs_typed N m (s\<lparr>request := l4\<rparr>)"
  using assms by (simp_all add: fs_typed_def mm_typed_def sched_typed_def)

lemma fs_lengths:
  assumes "fs_typed N m s"
  shows "length (inode_table s) = NR_INODE" "length (file_table s) = NR_FILE" "length (super_blocks s) = NR_SUPER"
    "length (request s) = NR_REQUEST" "length (hash_table s) = NR_HASH" "length (hd_parts s) = 10"
  using assms by (simp_all add: fs_typed_def)

lemma typed_upd_buf [typed]: "fs_typed N m s \<Longrightarrow> (\<And>b. buf_typed N b \<Longrightarrow> buf_typed N (f b)) \<Longrightarrow> fs_typed N m (upd_buf i f s)"
  unfolding upd_buf_def by (intro typed_tables all_list_update) (simp_all add: fs_typed_def)

lemma typed_upd_inode [typed]: "fs_typed N m s \<Longrightarrow> (\<And>b. inode_typed b \<Longrightarrow> inode_typed (f b)) \<Longrightarrow> fs_typed N m (upd_inode i f s)"
  unfolding upd_inode_def by (intro typed_tables all_list_update) (simp_all add: fs_typed_def)

lemma typed_upd_file [typed]: "fs_typed N m s \<Longrightarrow> (\<And>b. file_typed b \<Longrightarrow> file_typed (f b)) \<Longrightarrow> fs_typed N m (upd_file i f s)"
  unfolding upd_file_def by (intro typed_tables all_list_update) (simp_all add: fs_typed_def)

lemma typed_upd_super [typed]: "fs_typed N m s \<Longrightarrow> (\<And>b. super_typed N b \<Longrightarrow> super_typed N (f b)) \<Longrightarrow> fs_typed N m (upd_super i f s)"
  unfolding upd_super_def by (intro typed_tables all_list_update) (simp_all add: fs_typed_def)

lemma typed_upd_req [typed]: "fs_typed N m s \<Longrightarrow> (\<And>b. req_typed N b \<Longrightarrow> req_typed N (f b)) \<Longrightarrow> fs_typed N m (upd_req i f s)"
  unfolding upd_req_def by (intro typed_tables all_list_update) (simp_all add: fs_typed_def)

lemma typed_upd_task [typed]: "fs_typed N m s \<Longrightarrow> (\<And>t. task_typed t \<Longrightarrow> task_typed (f t)) \<Longrightarrow> fs_typed N m (upd_task p f s)"
  by (simp add: fs_typed_def upd_task_def mm_typed_def sched_typed_def)

lemma typed_fields1 [typed]:
  assumes "fs_typed N m s"
  shows "ptr_ok N p \<Longrightarrow> fs_typed N m (s\<lparr>free_list := p\<rparr>)"
    "ptr_ok NR_REQUEST p \<Longrightarrow> fs_typed N m (s\<lparr>this_request := p\<rparr>)"
    "h \<noteq> Some Write_intr \<Longrightarrow> fs_typed N m (s\<lparr>do_hd := h\<rparr>)"
  using assms unfolding fs_typed_def mm_typed_def sched_typed_def by simp_all

lemma typed_fields2 [typed]:
  assumes "fs_typed N m s"
  shows "fs_typed N m (s\<lparr>sorting := b\<rparr>)"
    "fs_typed N m (s\<lparr>setup_callable := b\<rparr>)"
    "fs_typed N m (s\<lparr>dsk_pos := dp\<rparr>)"
    "fs_typed N m (s\<lparr>dsk_status := st\<rparr>)"
    "fs_typed N m (s\<lparr>dsk_drq := dq\<rparr>)"
  using assms unfolding fs_typed_def mm_typed_def sched_typed_def by simp_all

lemma typed_fields3 [typed]:
  assumes "fs_typed N m s"
  shows "length l = 512 \<Longrightarrow> fs_typed N m (s\<lparr>dsk_buffer := l\<rparr>)"
    "fs_typed N m (s\<lparr>user := u\<rparr>)"
    "i < NR_INODE \<Longrightarrow> fs_typed N m (s\<lparr>last_allocated_inode := i\<rparr>)"
    "length hp = 10 \<Longrightarrow> fs_typed N m (s\<lparr>hd_parts := hp\<rparr>)"
  using assms unfolding fs_typed_def mm_typed_def sched_typed_def by simp_all

lemma typed_set_hash [typed]: "fs_typed N m s \<Longrightarrow> ptr_ok N p \<Longrightarrow> fs_typed N m (set_hash k p s)"
  using all_put [of "hash_table s" "ptr_ok N" p k] by (simp add: fs_typed_def set_hash_def mm_typed_def sched_typed_def)

lemma typed_low_fields [typed]:
  assumes "fs_typed N m s"
  shows "fs_typed N m (s\<lparr>wait_queues := w\<rparr>)" "fs_typed N m (wr a v s)" "fs_typed N m (s\<lparr>startup_time := t\<rparr>)"
    "fs_typed N m (s\<lparr>last_pid := q\<rparr>)" "fs_typed N m (s\<lparr>last_task_used_math := q\<rparr>)" "fs_typed N m (s\<lparr>current := q\<rparr>)"
  using fs_typedD(15) [OF assms] by (rule_tac [!] fs_typed_mm [OF assms]) (simp_all add: mm_typed_def sched_typed_def wr_def)

lemma typed_wake_up [typed]:
  assumes s: "fs_typed N m s"
  shows "fs_typed N m (wake_up p s)"
proof -
  have "sched_typed (wake_up p s)"
    using s by (auto simp: wake_up_def upd_task_def fs_typed_def mm_typed_def sched_typed_def task_typed_def Let_def)
  moreover have "sched_state.more (wake_up p s) = sched_state.more s" by (simp add: wake_up_def upd_task_def Let_def)
  ultimately show ?thesis by (rule fs_typed_sched [OF s])
qed

lemma typed_upd_cur [typed]:
  "fs_typed N m s \<Longrightarrow> (\<And>t. task_typed t \<Longrightarrow> task_typed (f t)) \<Longrightarrow> fs_typed N m (upd_cur f s)"
  by (simp add: upd_cur_def typed)

text \<open>Fields that carry no pointer and no array.\<close>

lemma buf_typed_simps [simp]:
  "buf_typed N (b\<lparr>b_dev := d\<rparr>) = buf_typed N b" "buf_typed N (b\<lparr>b_blocknr := n\<rparr>) = buf_typed N b"
  "buf_typed N (b\<lparr>b_uptodate := u\<rparr>) = buf_typed N b" "buf_typed N (b\<lparr>b_dirt := u\<rparr>) = buf_typed N b"
  "buf_typed N (b\<lparr>b_count := u\<rparr>) = buf_typed N b" "buf_typed N (b\<lparr>b_lock := u\<rparr>) = buf_typed N b"
  by (simp_all add: buf_typed_def)

lemma buf_typed_ptrs [simp]:
  "buf_typed N b \<Longrightarrow> buf_typed N (b\<lparr>b_prev := p\<rparr>) = ptr_ok N p" "buf_typed N b \<Longrightarrow> buf_typed N (b\<lparr>b_next := p\<rparr>) = ptr_ok N p"
  "buf_typed N b \<Longrightarrow> buf_typed N (b\<lparr>b_prev_free := p\<rparr>) = ptr_ok N p"
  "buf_typed N b \<Longrightarrow> buf_typed N (b\<lparr>b_next_free := p\<rparr>) = ptr_ok N p"
  by (auto simp add: buf_typed_def)

lemma buf_typed_resize: "buf_typed N b \<Longrightarrow> length l = length (b_data b) \<Longrightarrow> buf_typed N (b\<lparr>b_data := l\<rparr>)"
  by (simp add: buf_typed_def)

lemma buf_typed_data: "buf_typed N b \<Longrightarrow> length (b_data b) = BLOCK_SIZE"
  by (simp add: buf_typed_def)

lemma req_typed_simps [simp]:
  "req_typed N (r\<lparr>r_hd := v\<rparr>) = req_typed N r" "req_typed N (r\<lparr>r_nsector := v\<rparr>) = req_typed N r"
  "req_typed N (r\<lparr>r_errors := v\<rparr>) = req_typed N r"
  "req_typed N r \<Longrightarrow> req_typed N (r\<lparr>r_next := p\<rparr>) = ptr_ok NR_REQUEST p"
  by (auto simp: req_typed_def)

lemma length_splice: "i + length new \<le> length l \<Longrightarrow> length (splice i new l) = length l"
  by (simp add: splice_def)

subsection \<open>The disk\<close>

lemma typed_lock [typed]: "fs_typed N m s \<Longrightarrow> fs_typed N m (lock_buffer bh s)"
  and typed_unlock [typed]: "fs_typed N m s \<Longrightarrow> fs_typed N m (unlock_buffer bh s)"
  by (auto simp: lock_buffer_def unlock_buffer_def intro!: typed)

lemma typed_command [typed]: "fs_typed N m s \<Longrightarrow> fs_typed N m (dsk_command d sec h c cmd s)"
  by (auto simp: dsk_command_def intro!: typed)

lemma typed_advance [typed]: "fs_typed N m s \<Longrightarrow> fs_typed N m (dsk_advance s)"
  by (auto simp: dsk_advance_def intro!: typed)

lemma typed_commit [typed]:
  assumes "fs_typed N m s" "length (dsk_buffer s) = 512"
  shows "fs_typed N m (dsk_commit s)"
proof -
  obtain d n where "dsk_pos s = (d, n)" by (cases "dsk_pos s")
  then show ?thesis using assms
    by (simp add: dsk_commit_def dsk_advance_def fs_typed_def mm_typed_def sched_typed_def)
qed

lemma typed_win_result: "fs_typed N m s \<Longrightarrow> fs_typed N m (snd (win_result s))"
  by (auto simp: win_result_def Let_def intro!: typed)

lemma hd_out_keeps:
  "fs_typed N m s \<Longrightarrow> h \<noteq> Write_intr \<Longrightarrow> okr (fs_typed N m) (hd_out d ns sec hed c cmd h s)"
  by (auto simp: hd_out_def intro!: typed)

lemma reset_hd_keeps: "fs_typed N m s \<Longrightarrow> okr (fs_typed N m) (reset_hd nr s)"
  by (simp add: reset_hd_def hd_out_keeps)

text \<open>A write command is given before the first sector is handed over.\<close>

lemma typed_write_command:
  assumes "fs_typed N m s" "length l = 512"
  shows "fs_typed N m ((dsk_command d sec hed c cmd (s\<lparr>do_hd := h\<rparr>))\<lparr>dsk_drq := q, dsk_buffer := l\<rparr>)"
    "fs_typed N m (dsk_command d' sec' hed' c' cmd' ((dsk_command d sec hed c cmd (s\<lparr>do_hd := h\<rparr>))\<lparr>dsk_drq := q, do_hd := Some Do_request\<rparr>))"
  using assms by (simp_all add: dsk_command_def fs_typed_def mm_typed_def sched_typed_def)

lemma bit_half: "512 * unat (w AND (1 :: u32)) + 512 \<le> 1024"
proof -
  have "w AND 1 \<le> 1" by (rule word_and_le1)
  then have "unat (w AND 1) \<le> 1" by (simp add: word_le_nat_alt)
  then show ?thesis by simp
qed

lemma half_block: "length l = BLOCK_SIZE \<Longrightarrow> length (take 512 (drop (512 * unat (w AND (1 :: u32))) l)) = 512"
  using bit_half [of w] by (simp add: BLOCK_SIZE_def)

lemma dsk_command_buffers [simp]: "buffers (dsk_command d sec hed c cmd s) = buffers s"
  by (simp add: dsk_command_def)

lemma do_request_keeps:
  assumes "fs_typed N m s"
  shows "okr (fs_typed N m) (do_request s)"
proof (cases "sorting s \<or> this_request s = None")
  case True
  then show ?thesis using assms by (auto simp: do_request_def intro!: typed)
next
  case False
  then obtain t where t: "this_request s = Some t" "t < NR_REQUEST" using fs_typed_Some(13) [OF assms] by auto
  let ?r = "req s t"
  show ?thesis
  proof (cases "r_cmd ?r = WIN_WRITE")
    case True
    define l where "l = take 512 (drop (512 * unat (r_nsector ?r AND 1)) (b_data (buf s (r_bh ?r))))"
    have "length l = 512" unfolding l_def
      by (rule half_block [OF buf_typed_data [OF fs_typedD(6) [OF assms fs_typed_bh [OF assms t(2)]]]])
    then show ?thesis using typed_write_command [OF assms, of l] False t(1) True
      by (simp add: do_request_def Let_def hd_out_def reset_hd_def l_def [symmetric])
  next
    case False
    then show ?thesis using \<open>\<not> (sorting s \<or> this_request s = None)\<close> t(1) hd_out_keeps [OF assms]
      by (simp add: do_request_def Let_def)
  qed
qed

lemma drop_request_keeps [typed]: "fs_typed N m s \<Longrightarrow> t < NR_REQUEST \<Longrightarrow> fs_typed N m (drop_request t s)"
  by (auto simp: drop_request_def intro!: typed fs_typed_ptr)

lemma end_request_keeps: "fs_typed N m s \<Longrightarrow> t < NR_REQUEST \<Longrightarrow> okr (fs_typed N m) (end_request t s)"
  by (auto simp: end_request_def Let_def intro!: do_request_keeps typed)

lemma bad_rw_intr_keeps: "fs_typed N m s \<Longrightarrow> okr (fs_typed N m) (bad_rw_intr s)"
  by (auto simp: bad_rw_intr_def Let_def intro!: okr_deref reset_hd_keeps typed dest: fs_typed_SomeD)

lemma read_intr_keeps:
  assumes "fs_typed N m s"
  shows "okr (fs_typed N m) (read_intr s)"
proof -
  obtain bad s1 where w: "win_result s = (bad, s1)" by (cases "win_result s")
  then have s1: "fs_typed N m s1" using typed_win_result [OF assms] by simp
  have "length (splice (512 * unat (w AND (1 :: u32))) (dsk_current s1) (b_data b)) = length (b_data b)" if "buf_typed N b" for w b
    using bit_half [of w] buf_typed_data [OF that] fs_typedD(16) [OF s1]
    by (subst length_splice) (simp_all add: dsk_current_def BLOCK_SIZE_def)
  then show ?thesis using s1
    by (auto simp: read_intr_def w Let_def intro!: bad_rw_intr_keeps okr_deref end_request_keeps typed buf_typed_resize dest: fs_typed_SomeD)
qed

lemma second_half: "fs_typed N m s \<Longrightarrow> i < N \<Longrightarrow> min (length (b_data (buf s i)) - 512) 512 = 512"
  using buf_typed_data [OF fs_typedD(6) [of N m s i]] by (simp add: BLOCK_SIZE_def)

lemma write_intr_keeps:
  assumes "fs_typed N m s" "length (dsk_buffer s) = 512"
  shows "okr (fs_typed N m) (write_intr s)"
proof -
  obtain bad s1 where w: "win_result s = (bad, s1)" by (cases "win_result s")
  then have s1: "fs_typed N m s1" "length (dsk_buffer s1) = 512"
    using typed_win_result [OF assms(1)] assms(2) by (auto simp: win_result_def Let_def)
  show ?thesis
  proof (cases "bad \<or> this_request s1 = None")
    case True
    then show ?thesis using s1 by (auto simp: write_intr_def w intro!: bad_rw_intr_keeps)
  next
    case False
    then obtain t where t: "this_request s1 = Some t" "t < NR_REQUEST" using fs_typed_Some(13) [OF s1(1)] by auto
    show ?thesis using False t s1
      by (auto simp: write_intr_def w Let_def intro!: end_request_keeps typed second_half fs_typed_bh)
  qed
qed

lemma hd_interrupt_keeps:
  assumes "fs_typed N m s"
  shows "okr (fs_typed N m) (hd_interrupt s)"
  using assms fs_typedD(17) [OF assms]
  by (auto simp: hd_interrupt_def intro!: read_intr_keeps write_intr_keeps do_request_keeps split: option.splits hd_handler.splits)

lemma hd_wait_keeps: "fs_typed N m s \<Longrightarrow> okr (fs_typed N m) (loop_res (hd_wait_on_buffer bh s))"
proof (rule okr_loop)
  fix r
  assume "hd_wait_on_buffer bh s = Some r" "fs_typed N m s"
  moreover have "hd_wait_on_buffer bh s = Some r \<Longrightarrow> fs_typed N m s \<longrightarrow> okr (fs_typed N m) r"
    by (rule hd_wait_on_buffer.raw_induct [where P = "\<lambda>bh s r. fs_typed N m s \<longrightarrow> okr (fs_typed N m) r"])
       (auto split: if_splits intro: bindo_okr [OF _ hd_interrupt_keeps])
  ultimately show "okr (fs_typed N m) r" by simp
qed

subsection \<open>The queue of requests\<close>

lemma elevator_keeps: "fs_typed N m s \<Longrightarrow> tmp < NR_REQUEST \<Longrightarrow> okr (\<lambda>t. t < NR_REQUEST) (elevator n rq tmp s)"
  by (induction n rq tmp s rule: elevator.induct) (auto split: option.splits dest: fs_typed_SomeD)

lemma typed_link_request [typed]:
  "fs_typed N m s \<Longrightarrow> rq < NR_REQUEST \<Longrightarrow> tmp < NR_REQUEST \<Longrightarrow> fs_typed N m (link_request rq tmp s)"
  by (auto simp: link_request_def intro!: typed fs_typed_ptr)

lemma enqueue_request_keeps:
  assumes "fs_typed N m s" "rq < NR_REQUEST"
  shows "okr (fs_typed N m) (enqueue_request rq s)"
proof (cases "this_request s")
  case (Some tmp)
  then have "tmp < NR_REQUEST" using fs_typed_Some(13) [OF assms(1)] by simp
  then show ?thesis using assms Some
    by (auto simp: enqueue_request_def intro!: okr_bind [OF elevator_keeps] typed split: option.splits dest: fs_typed_SomeD)
qed (use assms in \<open>auto simp: enqueue_request_def intro!: typed\<close>)

lemma add_request_keeps: "fs_typed N m s \<Longrightarrow> rq < NR_REQUEST \<Longrightarrow> okr (fs_typed N m) (add_request rq s)"
  by (auto simp: add_request_def Let_def intro!: okr_bind [OF enqueue_request_keeps] do_request_keeps typed)

lemma find_less: "find P [a..<b] = Some i \<Longrightarrow> i < b"
  by (auto simp: find_Some_iff)

lemma rw_abs_hd_keeps:
  assumes "fs_typed N m s" "bh < N"
  shows "okr (fs_typed N m) (rw_abs_hd rw nr sec hed cy bh s)"
proof -
  have new: "req_typed N \<lparr>r_hd = nr, r_nsector = 2, r_sector = sec, r_head = hed, r_cyl = cy, r_cmd = c, r_errors = 0, r_bh = bh,
    r_next = None\<rparr>" for c
    using assms(2) by (simp add: req_typed_def)
  show ?thesis using assms(1) unfolding rw_abs_hd_def
    by (auto simp: Let_def new intro!: okr_bind [OF add_request_keeps] hd_wait_keeps typed split: option.splits dest: find_less)
qed

lemma rw_hd_keeps: "fs_typed N m s \<Longrightarrow> bh < N \<Longrightarrow> okr (fs_typed N m) (rw_hd rw bh s)"
  by (auto simp: rw_hd_def Let_def intro!: rw_abs_hd_keeps)

lemma ll_rw_block_keeps: "fs_typed N m s \<Longrightarrow> bh < N \<Longrightarrow> okr (fs_typed N m) (ll_rw_block rw bh s)"
  by (simp add: ll_rw_block_def rw_hd_keeps)

lemmas disk_binds [okr_binds] = rw_abs_hd_keeps [THEN okr_bind] ll_rw_block_keeps [THEN okr_bind]

subsection \<open>The buffer cache\<close>

lemma wait_on_buffer_keeps: "fs_typed N m s \<Longrightarrow> okr (fs_typed N m) (wait_on_buffer bh s)"
  by (simp add: wait_on_buffer_def)

lemma sync_buffer_keeps: "fs_typed N m s \<Longrightarrow> bh < N \<Longrightarrow> okr (fs_typed N m) (sync_buffer bh s)"
  by (auto simp: sync_buffer_def intro!: okr_bind [OF wait_on_buffer_keeps] ll_rw_block_keeps)

lemma sync_dev_from_keeps: "fs_typed N m s \<Longrightarrow> \<forall>i \<in> set is. i < N \<Longrightarrow> okr (fs_typed N m) (sync_dev_from is dev s)"
  by (induction "is" arbitrary: s) (auto intro!: okr_bind [OF sync_buffer_keeps])

lemma sync_dev_keeps: "fs_typed N m s \<Longrightarrow> okr (fs_typed N m) (sync_dev dev s)"
  unfolding sync_dev_def by (rule sync_dev_from_keeps) (auto simp: fs_typedD(1))

lemma hashfn_less: "hashfn dev block < NR_HASH"
proof -
  have "(dev XOR block) mod of_nat NR_HASH < (of_nat NR_HASH :: u32)" by (rule word_mod_less_divisor) (simp add: NR_HASH_def)
  then show ?thesis by (simp add: hashfn_def NR_HASH_def word_less_nat_alt)
qed

lemma hash_index_less: "hash_of b < NR_HASH"
  by (simp add: hash_of_def hashfn_less)

lemma typed_upd_buf_ptr [typed]:
  "fs_typed N m s \<Longrightarrow> (\<And>b. buf_typed N b \<Longrightarrow> buf_typed N (f b)) \<Longrightarrow> fs_typed N m (upd_buf_ptr p f s)"
  by (auto simp: upd_buf_ptr_def intro!: typed split: option.splits)

lemma typed_remove_from_hash [typed]: "fs_typed N m s \<Longrightarrow> bh < N \<Longrightarrow> fs_typed N m (remove_from_hash bh s)"
  unfolding remove_from_hash_def Let_def by (auto intro!: typed fs_typed_ptr)

lemma remove_from_free_keeps:
  assumes "fs_typed N m s" "bh < N"
  shows "okr (fs_typed N m) (remove_from_free bh s)"
proof (cases "b_prev_free (buf s bh) = None \<or> b_next_free (buf s bh) = None")
  case False
  then obtain p n where pn: "b_prev_free (buf s bh) = Some p" "b_next_free (buf s bh) = Some n" by auto
  then have "p < N" "n < N" using fs_typed_ptr(3,4) [OF assms] by simp_all
  then show ?thesis using assms pn by (auto simp: remove_from_free_def Let_def intro!: typed fs_typed_ptr)
qed (auto simp: remove_from_free_def split: option.splits)

lemma remove_from_queues_keeps: "fs_typed N m s \<Longrightarrow> bh < N \<Longrightarrow> okr (fs_typed N m) (remove_from_queues bh s)"
  by (simp add: remove_from_queues_def remove_from_free_keeps typed)

lemma insert_into_free_keeps:
  assumes "fs_typed N m s" "bh < N"
  shows "okr (fs_typed N m) (insert_into_free bh s)"
proof (cases "free_list s")
  case (Some fl)
  then have "fl < N" using fs_typedD(2) [OF assms(1)] by simp
  then show ?thesis using assms Some by (auto simp: insert_into_free_def Let_def intro!: okr_deref typed fs_typed_ptr)
qed (simp add: insert_into_free_def)

lemma typed_insert_into_hash [typed]: "fs_typed N m s \<Longrightarrow> bh < N \<Longrightarrow> fs_typed N m (insert_into_hash bh s)"
  unfolding insert_into_hash_def Let_def
  by (auto intro!: typed fs_typed_ptr fs_typedD(7) hash_index_less simp: buf_typed_def split: option.splits)

lemma insert_into_queues_keeps: "fs_typed N m s \<Longrightarrow> bh < N \<Longrightarrow> okr (fs_typed N m) (insert_into_queues bh s)"
  unfolding insert_into_queues_def by (auto intro!: okr_bind [OF insert_into_free_keeps] typed)

lemma find_from_keeps: "fs_typed N m s \<Longrightarrow> ptr_ok N p \<Longrightarrow> okr (ptr_ok N) (find_from n p dev block s)"
  by (induction n p dev block s rule: find_from.induct) (auto intro: fs_typed_ptr)

lemma find_buffer_keeps: "fs_typed N m s \<Longrightarrow> okr (ptr_ok N) (find_buffer dev block s)"
  by (simp add: find_buffer_def find_from_keeps fs_typedD(7) hashfn_less)

lemma brelse_keeps: "fs_typed N m s \<Longrightarrow> okr (fs_typed N m) (brelse bh s)"
  unfolding brelse_def Let_def by (auto intro!: okr_bind [OF wait_on_buffer_keeps] typed)

lemma free_buffer_keeps: "fs_typed N m s \<Longrightarrow> tmp < N \<Longrightarrow> okr (ptr_ok N) (free_buffer n tmp s)"
  by (induction n tmp s rule: free_buffer.induct)
     (auto simp: wait_on_buffer_def intro!: okr_deref split: if_splits dest: fs_typed_SomeD)

text \<open>Operations that return a value with the state.\<close>

definition ok_with :: "nat \<Rightarrow> 'a \<Rightarrow> ('r \<Rightarrow> bool) \<Rightarrow> 'r \<times> 'a fs_state_scheme \<Rightarrow> bool" where
  "ok_with N m Q x \<longleftrightarrow> fs_typed N m (snd x) \<and> Q (fst x)"

lemma ok_with_simps [simp]: "ok_with N m Q (r, s) \<longleftrightarrow> fs_typed N m s \<and> Q r"
  by (simp add: ok_with_def)

abbreviation ok_any :: "nat \<Rightarrow> 'a \<Rightarrow> 'r \<times> 'a fs_state_scheme \<Rightarrow> bool" where
  "ok_any N m \<equiv> ok_with N m (\<lambda>_. True)"

lemma get_hash_table_keeps: "fs_typed N m s \<Longrightarrow> okr (ok_with N m (ptr_ok N)) (get_hash_table dev block s)"
  unfolding get_hash_table_def
proof (rule okr_loop)
  fix r
  let ?P = "\<lambda>dev block s r. fs_typed N m s \<longrightarrow> okr (ok_with N m (ptr_ok N)) r"
  assume "get_hash_loop dev block s = Some r" "fs_typed N m s"
  moreover have "get_hash_loop dev block s = Some r \<Longrightarrow> ?P dev block s r"
    by (rule get_hash_loop.raw_induct [where P = ?P])
       (auto split: option.splits if_splits intro!: typed
             elim!: bindo_okr [OF _ find_buffer_keeps] bindo_okr [OF _ wait_on_buffer_keeps] bindo_okr [OF _ brelse_keeps], blast+)
  ultimately show "okr (ok_with N m (ptr_ok N)) r" by simp
qed

lemma getblk_keeps: "fs_typed N m s \<Longrightarrow> okr (ok_with N m (\<lambda>i. i < N)) (getblk dev block s)"
  unfolding getblk_def
proof (rule okr_loop)
  fix r
  let ?P = "\<lambda>dev block s r. fs_typed N m s \<longrightarrow> okr (ok_with N m (\<lambda>i. i < N)) r"
  have free: "okr (ptr_ok N) (deref ''free_list'' (free_list s) (\<lambda>fl. free_buffer n fl s))" if "fs_typed N m s"
    for n and s :: "'a fs_state_scheme"
    using that by (auto intro!: okr_deref free_buffer_keeps dest: fs_typed_SomeD)
  have sync: "okr (fs_typed N m) (if c then sync_dev d s else Inr s)" if "fs_typed N m s" for c d and s :: "'a fs_state_scheme"
    using that by (simp add: sync_dev_keeps)
  assume "getblk_loop dev block s = Some r" "fs_typed N m s"
  moreover have "getblk_loop dev block s = Some r \<Longrightarrow> ?P dev block s r"
    by (rule getblk_loop.raw_induct [where P = ?P])
       (auto simp: Let_def split: option.splits if_splits prod.splits intro!: typed
             elim!: bindo_okr [OF _ get_hash_table_keeps] bindo_okr [OF _ free] bindo_okr [OF _ remove_from_queues_keeps]
               bindo_okr [OF _ sync] bindo_okr [OF _ find_buffer_keeps] bindo_okr [OF _ insert_into_queues_keeps], blast+)
  ultimately show "okr (ok_with N m (\<lambda>i. i < N)) r" by simp
qed

lemma bread_keeps: "fs_typed N m s \<Longrightarrow> okr (ok_with N m (ptr_ok N)) (bread dev block s)"
  unfolding bread_def
  by (auto intro!: okr_bind [OF getblk_keeps] okr_bind [OF ll_rw_block_keeps] okr_bind [OF brelse_keeps])

lemma brelse_ptr_keeps: "fs_typed N m s \<Longrightarrow> okr (fs_typed N m) (brelse_ptr p s)"
  by (auto simp: brelse_ptr_def brelse_keeps split: option.splits)

lemmas cache_keeps = wait_on_buffer_keeps sync_buffer_keeps sync_dev_keeps brelse_keeps brelse_ptr_keeps get_hash_table_keeps getblk_keeps bread_keeps

lemmas cache_binds [okr_binds] = cache_keeps [THEN okr_bind]

end
