(* ===== verification/Linux_Typed_Fs.thy ===== *)
theory Linux_Typed_Fs
  imports Linux_Typed
begin

unbundle bit_operations_syntax

section \<open>The tables of the linux-0.01 kernel keep their shape: inodes, files and directories\<close>

text \<open>
  Bitmaps, inodes, the blocks of a file, pipes and path names, on top of the buffers of \<open>Linux_Typed\<close>.  Where a
  block is written in part, the part lies inside the block.
\<close>

subsection \<open>Memory\<close>

text \<open>What the memory management does to a state, seen from the file system.\<close>

definition mm_step :: "'a mm_state_scheme \<Rightarrow> 'a mm_state_scheme \<Rightarrow> bool" where
  "mm_step s s' \<longleftrightarrow> (mm_typed s \<longrightarrow> mm_typed s') \<and> mm_state.more s' = mm_state.more s"

lemma mm_step_refl [simp]: "mm_step s s"
  by (simp add: mm_step_def)

lemma mm_step_trans: "mm_step s s' \<Longrightarrow> mm_step s' s'' \<Longrightarrow> mm_step s s''"
  by (auto simp: mm_step_def)

lemma fs_typed_step: "fs_typed N m s \<Longrightarrow> mm_step s s' \<Longrightarrow> fs_typed N m s'"
  by (rule fs_typed_mm) (auto simp: mm_step_def dest: fs_typedD(15))

named_theorems mm_steps \<open>steps of the memory management\<close>

lemma mm_step_wr [mm_steps]: "mm_step s s' \<Longrightarrow> mm_step s (wr a v s')"
  by (simp add: mm_step_def mm_typed_def sched_typed_def wr_def)

lemma mm_step_set_map [mm_steps]: "mm_step s s' \<Longrightarrow> mm_step s (set_map i v s')"
  by (simp add: mm_step_def mm_typed_def sched_typed_def set_map_def)

lemma mm_step_upd_task [mm_steps]: "mm_step s s' \<Longrightarrow> (\<And>t. task_typed t \<Longrightarrow> task_typed (f t)) \<Longrightarrow> mm_step s (upd_task p f s')"
  by (simp add: mm_step_def mm_typed_def sched_typed_def upd_task_def)

lemma mm_step_stosl [mm_steps]: "mm_step s s' \<Longrightarrow> mm_step s (stosl_down n a v s')"
proof (induction n arbitrary: a s')
  case (Suc n)
  then show ?case by (auto intro!: Suc.IH mm_steps)
qed simp

lemma mm_step_movsl [mm_steps]: "mm_step s s' \<Longrightarrow> mm_step s (movsl_up n a b s')"
proof (induction n arbitrary: a b s')
  case (Suc n)
  then show ?case by (auto intro!: Suc.IH mm_steps)
qed simp

lemma mm_step_get_free_page: "mm_step s s' \<Longrightarrow> get_free_page s' = (p, s'') \<Longrightarrow> mm_step s s''"
  by (auto simp: get_free_page_def Let_def intro!: mm_steps split: option.splits)

lemma free_page_step: "mm_step s s' \<Longrightarrow> okr (mm_step s) (free_page a s')"
  by (auto simp: free_page_def with_map_def intro!: mm_steps)

lemma free_page_keeps: "fs_typed N m s \<Longrightarrow> okr (fs_typed N m) (free_page a s)"
  by (rule okr_mono [OF free_page_step [OF mm_step_refl]]) (rule fs_typed_step)

lemma get_free_page_keeps: "fs_typed N m s \<Longrightarrow> get_free_page s = (p, s') \<Longrightarrow> fs_typed N m s'"
  by (rule fs_typed_step [OF _ mm_step_get_free_page [OF mm_step_refl]])

subsection \<open>Bitmaps\<close>

lemma length_put_bit [simp]: "length (put_bit n v l) = length l"
  by (simp add: put_bit_def)

lemma length_put16 [simp]: "length (put16 i v l) = length l"
  by (simp add: put16_def)

lemma length_put32 [simp]: "length (put32 i v l) = length l"
  by (simp add: put32_def)

lemma inode_typed_simps [simp]:
  "inode_typed (i\<lparr>i_mode := v1\<rparr>) = inode_typed i" "inode_typed (i\<lparr>i_uid := v2\<rparr>) = inode_typed i"
  "inode_typed (i\<lparr>i_size := v3\<rparr>) = inode_typed i" "inode_typed (i\<lparr>i_mtime := v4\<rparr>) = inode_typed i"
  "inode_typed (i\<lparr>i_gid := v5\<rparr>) = inode_typed i" "inode_typed (i\<lparr>i_nlinks := v6\<rparr>) = inode_typed i"
  "inode_typed (i\<lparr>i_atime := v7\<rparr>) = inode_typed i" "inode_typed (i\<lparr>i_ctime := v8\<rparr>) = inode_typed i"
  "inode_typed (i\<lparr>i_dev := v9\<rparr>) = inode_typed i" "inode_typed (i\<lparr>i_num := va\<rparr>) = inode_typed i"
  "inode_typed (i\<lparr>i_count := vb\<rparr>) = inode_typed i" "inode_typed (i\<lparr>i_lock := vc\<rparr>) = inode_typed i"
  "inode_typed (i\<lparr>i_dirt := vd\<rparr>) = inode_typed i" "inode_typed (i\<lparr>i_pipe := ve\<rparr>) = inode_typed i"
  "inode_typed (i\<lparr>i_zone := z\<rparr>) = (length z = 9)"
  by (simp_all add: inode_typed_def)

lemma inode_typed_zones [simp]: "inode_typed i \<Longrightarrow> length (i_zone i) = 9"
  by (simp add: inode_typed_def)

lemma get_super_less: "get_super dev s = Some i \<Longrightarrow> i < NR_SUPER"
  by (auto simp: get_super_def dest!: find_less)

lemma buf_typed_clear: "buf_typed N b \<Longrightarrow> buf_typed N (b\<lparr>b_data := replicate BLOCK_SIZE x\<rparr>)"
  by (simp add: buf_typed_def)

lemma free_block_keeps: "fs_typed N m s \<Longrightarrow> okr (fs_typed N m) (free_block dev block s)"
  unfolding free_block_def Let_def clear_map_bit_def
  by (auto simp: bindr_assoc intro!: okr_binds okr_deref typed buf_typed_resize split: option.splits)

lemma new_block_keeps: "fs_typed N m s \<Longrightarrow> okr (ok_any N m) (new_block dev s)"
  unfolding new_block_def Let_def set_map_bit_def
  by (auto simp: bindr_assoc intro!: okr_binds typed buf_typed_clear buf_typed_resize split: option.splits)

lemmas block_binds [okr_binds] = free_page_keeps [THEN okr_bind] free_block_keeps [THEN okr_bind] new_block_keeps [THEN okr_bind]

lemma inode_typed_zero [simp]: "inode_typed zero_inode"
  by (simp add: inode_typed_def zero_inode_def)

lemma typed_clear_inode [typed]: "fs_typed N m s \<Longrightarrow> fs_typed N m (clear_inode ino s)"
  unfolding clear_inode_def by (intro typed) auto

lemma free_inode_keeps: "fs_typed N m s \<Longrightarrow> okr (fs_typed N m) (free_inode ino s)"
  unfolding free_inode_def Let_def clear_map_bit_def by (auto intro!: typed buf_typed_resize split: option.splits)

subsection \<open>Inodes\<close>

lemma wait_on_inode_keeps: "fs_typed N m s \<Longrightarrow> okr (fs_typed N m) (wait_on_inode ino s)"
  by (simp add: wait_on_inode_def)

lemma lock_inode_keeps: "fs_typed N m s \<Longrightarrow> okr (fs_typed N m) (lock_inode ino s)"
  by (auto simp: lock_inode_def intro!: typed)

lemma typed_unlock_inode [typed]: "fs_typed N m s \<Longrightarrow> fs_typed N m (unlock_inode ino s)"
  by (auto simp: unlock_inode_def intro!: typed)

lemma with_inode_block_keeps:
  assumes "fs_typed N m s" "\<And>bh s. fs_typed N m s \<Longrightarrow> bh < N \<Longrightarrow> fs_typed N m (copy bh s)"
  shows "okr (fs_typed N m) (with_inode_block ino copy s)"
  unfolding with_inode_block_def using assms
  by (auto intro!: okr_bind [OF lock_inode_keeps] okr_binds okr_deref typed split: option.splits)

lemma inode_typed_d_inode [simp]: "inode_typed (d_inode_of l k i)"
  by (simp add: d_inode_of_def inode_typed_def)

lemma read_inode_keeps: "fs_typed N m s \<Longrightarrow> okr (fs_typed N m) (read_inode ino s)"
  unfolding read_inode_def by (auto intro!: with_inode_block_keeps typed)

lemma inode_offset_fits: "inode_offset m + 32 \<le> BLOCK_SIZE"
proof -
  have "(ucast (i_num m) - 1 :: u32) mod of_nat INODES_PER_BLOCK < of_nat INODES_PER_BLOCK"
    by (rule word_mod_less_divisor) (simp add: INODES_PER_BLOCK_def BLOCK_SIZE_def)
  then have "unat ((ucast (i_num m) - 1 :: u32) mod of_nat INODES_PER_BLOCK) < 32"
    by (simp add: word_less_nat_alt INODES_PER_BLOCK_def BLOCK_SIZE_def)
  then show ?thesis by (simp add: inode_offset_def BLOCK_SIZE_def)
qed

lemma length_bytes_of_inode: "inode_typed i \<Longrightarrow> length (bytes_of_inode i) = 32"
  by (simp add: bytes_of_inode_def length_concat comp_def sum_list_triv inode_typed_def)

lemma buf_typed_splice:
  "buf_typed N b \<Longrightarrow> i + length new \<le> BLOCK_SIZE \<Longrightarrow> buf_typed N (b\<lparr>b_data := splice i new (b_data b)\<rparr>)"
  by (rule buf_typed_resize) (simp_all add: buf_typed_data length_splice)

lemma write_inode_keeps: "fs_typed N m s \<Longrightarrow> ino < NR_INODE \<Longrightarrow> okr (fs_typed N m) (write_inode ino s)"
  unfolding write_inode_def Let_def
  by (auto intro!: with_inode_block_keeps typed buf_typed_splice simp: length_bytes_of_inode fs_typedD(8) inode_offset_fits)

lemma sync_inodes_keeps: "fs_typed N m s \<Longrightarrow> okr (fs_typed N m) (sync_inodes s)"
proof -
  have "\<forall>i \<in> set is. i < NR_INODE \<Longrightarrow> fs_typed N m s \<Longrightarrow> okr (fs_typed N m) (sync_inodes_from is s)" for "is"
    by (induction "is" arbitrary: s) (auto intro!: okr_bind [OF wait_on_inode_keeps] okr_bind [OF write_inode_keeps])
  then show "fs_typed N m s \<Longrightarrow> ?thesis" by (simp add: sync_inodes_def)
qed

lemma sys_sync_keeps: "fs_typed N m s \<Longrightarrow> okr (ok_any N m) (sys_sync s)"
proof -
  have "\<forall>i \<in> set is. i < N \<Longrightarrow> fs_typed N m s \<Longrightarrow> okr (fs_typed N m) (sync_from is s)" for "is" and s :: "'a fs_state_scheme"
    by (induction "is" arbitrary: s) (auto intro!: okr_binds)
  then show "fs_typed N m s \<Longrightarrow> ?thesis"
    unfolding sys_sync_def
    by (intro okr_bind [OF sync_inodes_keeps] okr_bind [where P = "fs_typed N m"]) (auto simp: fs_typedD(1))
qed

subsection \<open>The blocks of a file\<close>

lemma zone_slot_keeps: "fs_typed N m s \<Longrightarrow> okr (ok_any N m) (zone_slot create ino z s)"
  unfolding zone_slot_def Let_def by (auto simp: bindr_assoc intro!: okr_binds typed)

lemma ind_slot_keeps: "fs_typed N m s \<Longrightarrow> okr (ok_any N m) (ind_slot create dev bh k s)"
  unfolding ind_slot_def Let_def by (auto simp: bindr_assoc intro!: okr_binds typed buf_typed_resize)

lemma ind_block_keeps: "fs_typed N m s \<Longrightarrow> okr (ok_any N m) (ind_block create dev nr k s)"
  unfolding ind_block_def by (auto intro!: okr_binds ind_slot_keeps split: option.splits)

lemma bmap_create_keeps: "fs_typed N m s \<Longrightarrow> okr (ok_any N m) (bmap_create create ino block s)"
  unfolding bmap_create_def Let_def
  by (auto intro!: zone_slot_keeps ind_block_keeps okr_bind [OF zone_slot_keeps] okr_bind [OF ind_block_keeps])

lemma bmap_keeps: "fs_typed N m s \<Longrightarrow> okr (ok_any N m) (bmap ino block s)"
  and create_block_keeps: "fs_typed N m s \<Longrightarrow> okr (ok_any N m) (create_block ino block s)"
  by (simp_all add: bmap_def create_block_def bmap_create_keeps)

lemma free_numbers_keeps:
  assumes "\<And>b s. fs_typed N m s \<Longrightarrow> okr (fs_typed N m) (f b s)"
  shows "fs_typed N m s \<Longrightarrow> okr (fs_typed N m) (free_numbers ks f bh s)"
  by (induction ks arbitrary: s) (auto intro!: okr_bind [OF assms])

lemma free_indirect_keeps:
  assumes "\<And>b s. fs_typed N m s \<Longrightarrow> okr (fs_typed N m) (f b s)" "fs_typed N m s"
  shows "okr (fs_typed N m) (free_indirect f dev block s)"
  unfolding free_indirect_def using assms
  by (auto simp: bindr_assoc intro!: okr_binds okr_bind [OF free_numbers_keeps] free_block_keeps split: option.splits)

lemma free_ind_keeps: "fs_typed N m s \<Longrightarrow> okr (fs_typed N m) (free_ind dev block s)"
  unfolding free_ind_def by (rule free_indirect_keeps [OF free_block_keeps])

lemma free_dind_keeps: "fs_typed N m s \<Longrightarrow> okr (fs_typed N m) (free_dind dev block s)"
  unfolding free_dind_def by (rule free_indirect_keeps [OF free_ind_keeps])

lemma free_zones_keeps: "fs_typed N m s \<Longrightarrow> okr (fs_typed N m) (free_zones zs ino s)"
proof (induction zs arbitrary: s)
  case (Cons z zs)
  then show ?case by (auto intro!: okr_binds Cons.IH typed)
qed simp

lemma truncate_inode_keeps: "fs_typed N m s \<Longrightarrow> okr (fs_typed N m) (truncate_inode ino s)"
  unfolding truncate_inode_def
  by (auto intro!: okr_bind [OF free_zones_keeps] okr_bind [OF free_ind_keeps] okr_bind [OF free_dind_keeps] typed)

subsection \<open>Taking and giving up inodes\<close>

lemma iput_loop_keeps:
  "fs_typed N m s \<Longrightarrow> ino < NR_INODE \<Longrightarrow> okr (fs_typed N m) (loop_res (iput_loop ino s))"
proof (rule okr_loop)
  fix r
  let ?P = "\<lambda>ino s r. fs_typed N m s \<longrightarrow> ino < NR_INODE \<longrightarrow> okr (fs_typed N m) r"
  assume "iput_loop ino s = Some r" "fs_typed N m s" "ino < NR_INODE"
  moreover have "iput_loop ino s = Some r \<Longrightarrow> ?P ino s r"
    by (rule iput_loop.raw_induct [where P = ?P])
       (auto split: if_splits intro!: typed okr_bind [OF truncate_inode_keeps] free_inode_keeps
          elim!: bindo_okr [OF _ write_inode_keeps] bindo_okr [OF _ wait_on_inode_keeps])
  ultimately show "okr (fs_typed N m) r" by simp
qed

lemma iput_keeps: "fs_typed N m s \<Longrightarrow> ino < NR_INODE \<Longrightarrow> okr (fs_typed N m) (iput ino s)"
  unfolding iput_def Let_def
  by (auto intro!: okr_bind [OF wait_on_inode_keeps] okr_binds iput_loop_keeps typed)

lemma iput_ptr_keeps: "fs_typed N m s \<Longrightarrow> ptr_ok NR_INODE p \<Longrightarrow> okr (fs_typed N m) (iput_ptr p s)"
  by (auto simp: iput_ptr_def intro!: iput_keeps split: option.splits)

lemma clean_inode_keeps:
  "fs_typed N m s \<Longrightarrow> ino < NR_INODE \<Longrightarrow> okr (fs_typed N m) (loop_res (clean_inode ino s))"
proof (rule okr_loop)
  fix r
  let ?P = "\<lambda>ino s r. fs_typed N m s \<longrightarrow> ino < NR_INODE \<longrightarrow> okr (fs_typed N m) r"
  assume "clean_inode ino s = Some r" "fs_typed N m s" "ino < NR_INODE"
  moreover have "clean_inode ino s = Some r \<Longrightarrow> ?P ino s r"
    by (rule clean_inode.raw_induct [where P = ?P])
       (auto split: if_splits elim!: bindo_okr [OF _ write_inode_keeps] bindo_okr [OF _ wait_on_inode_keeps])
  ultimately show "okr (fs_typed N m) r" by simp
qed

lemma unused_inode_less: "fs_typed N m s \<Longrightarrow> unused_inode s = Some i \<Longrightarrow> i < NR_INODE"
  by (auto simp: unused_inode_def find_Some_iff nth_append fs_typed_def)

lemma empty_inode_keeps:
  "fs_typed N m s \<Longrightarrow> okr (ok_with N m (\<lambda>i. i < NR_INODE)) (loop_res (empty_inode_loop s))"
proof (rule okr_loop)
  fix r
  let ?P = "\<lambda>s r. fs_typed N m s \<longrightarrow> okr (ok_with N m (\<lambda>i. i < NR_INODE)) r"
  assume "empty_inode_loop s = Some r" "fs_typed N m s"
  moreover have "empty_inode_loop s = Some r \<Longrightarrow> ?P s r"
    by (rule empty_inode_loop.raw_induct [where P = ?P])
       (auto split: if_splits option.splits intro!: typed dest!: unused_inode_less [rotated]
          elim!: bindo_okr [OF _ wait_on_inode_keeps] bindo_okr [OF _ clean_inode_keeps])
  ultimately show "okr (ok_with N m (\<lambda>i. i < NR_INODE)) r" by simp
qed

lemma get_empty_inode_keeps: "fs_typed N m s \<Longrightarrow> okr (ok_with N m (\<lambda>i. i < NR_INODE)) (get_empty_inode s)"
  unfolding get_empty_inode_def by (auto intro!: okr_bind [OF empty_inode_keeps] typed)

lemma get_pipe_inode_keeps: "fs_typed N m s \<Longrightarrow> okr (ok_with N m (ptr_ok NR_INODE)) (get_pipe_inode s)"
  unfolding get_pipe_inode_def Let_def
  by (auto intro!: okr_bind [OF get_empty_inode_keeps] typed split: prod.splits dest: get_free_page_keeps)

lemma iget_keeps: "fs_typed N m s \<Longrightarrow> okr (ok_with N m (\<lambda>i. i < NR_INODE)) (iget dev nr s)"
  unfolding iget_def
  by (auto intro!: okr_bind [OF get_empty_inode_keeps] okr_bind [OF wait_on_inode_keeps] okr_bind [OF iput_keeps]
        okr_bind [OF read_inode_keeps] typed split: option.splits dest!: find_less)

lemma new_inode_keeps: "fs_typed N m s \<Longrightarrow> okr (ok_with N m (ptr_ok NR_INODE)) (new_inode dev s)"
  unfolding new_inode_def Let_def set_map_bit_def
  by (auto intro!: okr_bind [OF get_empty_inode_keeps] okr_bind [OF iput_keeps] typed buf_typed_resize split: option.splits)

lemmas inode_binds [okr_binds] =
  read_inode_keeps [THEN okr_bind] write_inode_keeps [THEN okr_bind] bmap_keeps [THEN okr_bind]
  create_block_keeps [THEN okr_bind] truncate_inode_keeps [THEN okr_bind] wait_on_inode_keeps [THEN okr_bind]
  iput_keeps [THEN okr_bind] iput_ptr_keeps [THEN okr_bind] iget_keeps [THEN okr_bind] new_inode_keeps [THEN okr_bind]
  get_pipe_inode_keeps [THEN okr_bind]

subsection \<open>Mounting\<close>

lemma super_typed_simps [simp]:
  "super_typed N (b\<lparr>s_dev := v\<rparr>) = super_typed N b" "super_typed N (b\<lparr>s_time := w\<rparr>) = super_typed N b"
  "super_typed N (b\<lparr>s_rd_only := x\<rparr>) = super_typed N b" "super_typed N (b\<lparr>s_dirt := x\<rparr>) = super_typed N b"
  "super_typed N (super_of l b) = super_typed N b"
  by (simp_all add: super_typed_def super_of_def)

lemma super_typed_ptrs [simp]:
  "super_typed N b \<Longrightarrow> super_typed N (b\<lparr>s_isup := p\<rparr>) = ptr_ok NR_INODE p"
  "super_typed N b \<Longrightarrow> super_typed N (b\<lparr>s_imount := p\<rparr>) = ptr_ok NR_INODE p"
  by (auto simp: super_typed_def)

lemma typed_store_map [typed]:
  "fs_typed N m s \<Longrightarrow> ptr_ok N v \<Longrightarrow> fs_typed N m (store_imap p i v s)"
  "fs_typed N m s \<Longrightarrow> ptr_ok N v \<Longrightarrow> fs_typed N m (store_zmap p i v s)"
  unfolding store_imap_def store_zmap_def
  by (rule typed, simp, auto simp: super_typed_def dest!: set_update_subset_insert [THEN subsetD])+

lemma read_maps_keeps:
  assumes "\<And>i v s. fs_typed N m s \<Longrightarrow> ptr_ok N v \<Longrightarrow> fs_typed N m (store i v s)"
  shows "fs_typed N m s \<Longrightarrow> okr (ok_any N m) (read_maps n i dev block store s)"
proof (induction n arbitrary: i block s)
  case (Suc n)
  then show ?case by (auto intro!: okr_binds Suc.IH assms split: option.splits)
qed simp

lemma brelse_all_keeps: "fs_typed N m s \<Longrightarrow> okr (fs_typed N m) (brelse_all ps s)"
  by (induction ps arbitrary: s) (auto intro!: okr_binds)

lemma typed_set_first_bit [typed]: "fs_typed N m s \<Longrightarrow> fs_typed N m (set_first_bit bh s)"
  unfolding set_first_bit_def by (auto intro!: typed buf_typed_resize)

lemma super_typed_no_maps: "super_typed N b \<Longrightarrow> super_typed N (b\<lparr>s_imap := replicate 8 None, s_zmap := replicate 8 None\<rparr>)"
  by (simp add: super_typed_def)

lemma do_mount_keeps: "fs_typed N m s \<Longrightarrow> okr (ok_any N m) (do_mount dev s)"
  unfolding do_mount_def Let_def
  by (auto intro!: okr_binds okr_bind [OF read_maps_keeps] okr_bind [OF brelse_all_keeps] okr_deref typed super_typed_no_maps
        split: option.splits)

lemma typed_reset_tables:
  assumes "fs_typed N m s"
  shows "fs_typed N m (s\<lparr>file_table := map (\<lambda>f. f\<lparr>f_count := 0\<rparr>) (file_table s),
    super_blocks := map (\<lambda>sb. sb\<lparr>s_dev := 0\<rparr>) (super_blocks s)\<rparr>)"
  using assms by (intro typed_tables) (auto simp: fs_typed_def file_typed_def)

lemma task_typed_inodes: "task_typed t \<Longrightarrow> i < NR_INODE \<Longrightarrow> task_typed (t\<lparr>t_pwd := Some i, t_root := Some i\<rparr>)"
  by (simp add: task_typed_def)

lemma okr_True: "okr (\<lambda>_. True) r"
  by (cases r) auto

lemma mount_root_keeps: "fs_typed N m s \<Longrightarrow> okr (ok_any N m) (mount_root s)"
  unfolding mount_root_def Let_def
  by (auto intro!: okr_bind [OF do_mount_keeps] okr_binds okr_bind [OF okr_True [where r = "count_clear l n s" for l n s]]
        typed typed_reset_tables task_typed_inodes
        split: option.splits simp del: count_clear.simps)

lemma length_parts: "length (fold (\<lambda>i p. p[f i := g i]) xs l) = length l"
  by (induction xs arbitrary: l) auto

lemma read_partitions_keeps: "fs_typed N m s \<Longrightarrow> okr (fs_typed N m) (read_partitions drive s)"
  unfolding read_partitions_def Let_def by (auto intro!: okr_binds typed simp: fs_typedD(5) length_parts fs_lengths)

lemma sys_setup_keeps: "fs_typed N m s \<Longrightarrow> okr (ok_any N m) (sys_setup s)"
  unfolding sys_setup_def
  by (auto intro!: okr_bind [OF read_partitions_keeps] okr_bind [OF mount_root_keeps] typed)

subsection \<open>Reading and writing\<close>

lemma file_typed_simps [simp]:
  "file_typed (f\<lparr>f_pos := p\<rparr>) = file_typed f" "file_typed (f\<lparr>f_count := c\<rparr>) = file_typed f"
  "file_typed (f\<lparr>f_flags := c\<rparr>) = file_typed f" "file_typed (f\<lparr>f_mode := c\<rparr>) = file_typed f"
  "file_typed (f\<lparr>f_inode := q\<rparr>) = ptr_ok NR_INODE q"
  by (simp_all add: file_typed_def)

lemma typed_put_fs [typed]: "fs_typed N m s \<Longrightarrow> fs_typed N m (put_fs_byte v a s)"
  by (simp add: put_fs_byte_def typed)

lemma typed_put_fs_bytes [typed]: "fs_typed N m s \<Longrightarrow> fs_typed N m (put_fs_bytes vs a s)"
proof (induction vs arbitrary: a s)
  case (Cons v vs)
  then show ?case by (auto intro!: Cons.IH typed)
qed simp

lemma typed_put_fs_long [typed]: "fs_typed N m s \<Longrightarrow> fs_typed N m (put_fs_long v a s)"
  by (simp add: put_fs_long_def typed)

lemma block_to_user_keeps: "fs_typed N m s \<Longrightarrow> okr (fs_typed N m) (block_to_user bh off n dst s)"
  by (simp add: block_to_user_def typed)

lemma user_to_block_keeps: "fs_typed N m s \<Longrightarrow> okr (fs_typed N m) (user_to_block bh off n src s)"
  by (auto simp: user_to_block_def get_fs_bytes_def intro!: typed buf_typed_splice)

lemma read_block_keeps: "fs_typed N m s \<Longrightarrow> okr (ok_with N m (\<lambda>b. \<forall>p. b = Some p \<longrightarrow> ptr_ok N p)) (read_block ino fi s)"
  unfolding read_block_def by (auto intro!: okr_binds split: option.splits)

lemma read_chars_keeps: "fs_typed N m s \<Longrightarrow> okr (fs_typed N m) (read_chars b off chars dst s)"
  unfolding read_chars_def by (auto intro!: okr_bind [OF block_to_user_keeps] brelse_keeps typed split: option.splits)

lemma file_read_loop_keeps: "fs_typed N m s \<Longrightarrow> okr (ok_any N m) (file_read_loop ino fi dst left s)"
proof (induction left arbitrary: dst s rule: less_induct)
  case (less left)
  show ?case
  proof (cases "left = 0")
    case False
    have "left - chars_of p left < left" for p using False chars_of_pos [of left p] by simp
    then show ?thesis using False less.prems
      by (subst file_read_loop.simps)
         (auto simp: Let_def intro!: okr_bind [OF read_block_keeps] okr_bind [OF read_chars_keeps] less.IH typed split: option.splits)
  qed (use less.prems in simp)
qed

lemma file_read_keeps: "fs_typed N m s \<Longrightarrow> okr (ok_any N m) (file_read ino fi dst cnt s)"
  unfolding file_read_def Let_def by (auto intro!: okr_bind [OF file_read_loop_keeps] typed simp del: file_read_loop.simps)

lemma file_write_loop_keeps:
  "fs_typed N m s \<Longrightarrow> okr (\<lambda>(_, x). ok_any N m x) (file_write_loop ino pos src left s)"
proof (induction left arbitrary: pos src s rule: less_induct)
  case (less left)
  show ?case
  proof (cases "left = 0")
    case False
    have "left - chars_of p left < left" for p using False chars_of_pos [of left p] by simp
    then show ?thesis using False less.prems
      by (subst file_write_loop.simps)
         (auto simp: Let_def intro!: okr_binds okr_bind [OF user_to_block_keeps] less.IH typed split: option.splits)
  qed (use less.prems in simp)
qed

lemma file_write_keeps: "fs_typed N m s \<Longrightarrow> okr (ok_any N m) (file_write ino fi src cnt s)"
  unfolding file_write_def Let_def
  by (auto intro!: okr_bind [OF file_write_loop_keeps] typed simp del: file_write_loop.simps)

lemma block_write_loop_keeps: "fs_typed N m s \<Longrightarrow> okr (ok_any N m) (block_write_loop dev fi block off src cnt written s)"
proof (induction cnt arbitrary: block off src written s rule: less_induct)
  case (less cnt)
  show ?case
  proof (cases "cnt = 0")
    case False
    then show ?thesis using less.prems
      by (subst block_write_loop.simps)
         (auto simp: Let_def BLOCK_SIZE_def intro!: okr_binds okr_bind [OF user_to_block_keeps] less.IH typed split: option.splits)
  qed (use less.prems in simp)
qed

lemma block_read_loop_keeps: "fs_typed N m s \<Longrightarrow> okr (ok_any N m) (block_read_loop dev fi block off dst cnt rd s)"
proof (induction cnt arbitrary: block off dst rd s rule: less_induct)
  case (less cnt)
  show ?case
  proof (cases "cnt = 0")
    case False
    then show ?thesis using less.prems
      by (subst block_read_loop.simps)
         (auto simp: Let_def BLOCK_SIZE_def intro!: okr_binds okr_bind [OF block_to_user_keeps] less.IH typed split: option.splits)
  qed (use less.prems in simp)
qed

lemma block_write_keeps: "fs_typed N m s \<Longrightarrow> okr (ok_any N m) (block_write dev fi src cnt s)"
  and block_read_keeps: "fs_typed N m s \<Longrightarrow> okr (ok_any N m) (block_read dev fi dst cnt s)"
  by (simp_all add: block_write_def block_read_def Let_def block_write_loop_keeps block_read_loop_keeps
      del: block_write_loop.simps block_read_loop.simps)

subsection \<open>Pipes\<close>

lemma inode_typed_pipe [simp]: "inode_typed i \<Longrightarrow> inode_typed (INC_PIPE k i)"
  by (simp add: INC_PIPE_def set_zone_long_def)

lemma typed_set_phys_byte [typed]: "fs_typed N m s \<Longrightarrow> fs_typed N m (set_phys_byte a v s)"
  by (simp add: set_phys_byte_def Let_def typed)

lemma typed_read_pipe_loop: "fs_typed N m s \<Longrightarrow> fs_typed N m (snd (read_pipe_loop n ino b s))"
proof (induction n arbitrary: b s)
  case (Suc n)
  then show ?case by (auto simp: Let_def intro!: Suc.IH typed)
qed simp

lemma read_pipe_keeps: "fs_typed N m s \<Longrightarrow> okr (ok_any N m) (read_pipe ino dst cnt s)"
  using typed_read_pipe_loop [of N m s] unfolding read_pipe_def Let_def
  by (auto intro!: typed split: prod.splits) (metis snd_conv)+

lemma task_typed_tty [simp]: "task_typed t \<Longrightarrow> sint v < 3 \<Longrightarrow> task_typed (t\<lparr>t_tty := v\<rparr>)"
  by (simp add: task_typed_def)

lemma task_typed_simps [simp]:
  "task_typed (t\<lparr>t_signal := v\<rparr>) = task_typed t" "task_typed (t\<lparr>t_state := v\<rparr>) = task_typed t"
  "task_typed (t\<lparr>t_alarm := v\<rparr>) = task_typed t" "task_typed (t\<lparr>t_close_on_exec := v\<rparr>) = task_typed t"
  "task_typed (t\<lparr>t_father := v\<rparr>) = task_typed t"
  "task_typed (t\<lparr>t_exit_code := v\<rparr>) = task_typed t" "task_typed (t\<lparr>t_cutime := v\<rparr>) = task_typed t"
  "task_typed (t\<lparr>t_cstime := v\<rparr>) = task_typed t" "task_typed (t\<lparr>t_priority := v\<rparr>) = task_typed t"
  "task_typed (t\<lparr>t_brk := v\<rparr>) = task_typed t" "task_typed (t\<lparr>t_pgrp := v\<rparr>) = task_typed t"
  "task_typed (t\<lparr>t_counter := v\<rparr>) = task_typed t" "task_typed (t\<lparr>t_start_stack := v\<rparr>) = task_typed t"
  "task_typed (t\<lparr>t_end_code := v\<rparr>) = task_typed t" "task_typed (t\<lparr>t_end_data := v\<rparr>) = task_typed t"
  "task_typed (t\<lparr>t_used_math := w\<rparr>) = task_typed t" "task_typed (t\<lparr>t_umask := w\<rparr>) = task_typed t"
  "task_typed (t\<lparr>t_uid := w\<rparr>) = task_typed t" "task_typed (t\<lparr>t_euid := w\<rparr>) = task_typed t"
  "task_typed (t\<lparr>t_gid := w\<rparr>) = task_typed t" "task_typed (t\<lparr>t_egid := w\<rparr>) = task_typed t"
  "task_typed (t\<lparr>t_session := v\<rparr>) = task_typed t" "task_typed (t\<lparr>t_leader := v\<rparr>) = task_typed t"
  "task_typed (t\<lparr>t_sig_restorer := v\<rparr>) = task_typed t" "task_typed (t\<lparr>t_tss := x\<rparr>) = task_typed t"
  by (simp_all add: task_typed_def)

lemma typed_raise_sigpipe [typed]: "fs_typed N m s \<Longrightarrow> fs_typed N m (raise_sigpipe s)"
  by (auto simp: raise_sigpipe_def intro!: typed)

lemma write_pipe_loop_keeps: "fs_typed N m s \<Longrightarrow> okr (ok_any N m) (write_pipe_loop n ino b s)"
proof (induction n arbitrary: b s)
  case (Suc n)
  then show ?case by (auto simp: Let_def intro!: Suc.IH typed)
qed (auto intro!: typed)

lemma write_pipe_keeps: "fs_typed N m s \<Longrightarrow> okr (ok_any N m) (write_pipe ino src cnt s)"
  unfolding write_pipe_def Let_def by (auto intro!: okr_bind [OF write_pipe_loop_keeps] typed)

lemma typed_set_filp [typed]: "fs_typed N m s \<Longrightarrow> ptr_ok NR_FILE p \<Longrightarrow> fs_typed N m (set_filp fd p s)"
  unfolding set_filp_def
  by (rule typed_upd_cur) (auto simp: task_typed_def dest!: set_update_subset_insert [THEN subsetD])

lemma first_two_less: "first_two P [0..<n] = [a, b] \<Longrightarrow> a < n \<and> b < n"
proof -
  assume "first_two P [0..<n] = [a, b]"
  then have "set [a, b] \<subseteq> set [0..<n]" unfolding first_two_def by (metis filter_is_subset set_take_subset subset_trans)
  then show ?thesis by simp
qed

lemma sys_pipe_keeps: "fs_typed N m s \<Longrightarrow> okr (ok_any N m) (sys_pipe fildes s)"
  unfolding sys_pipe_def Let_def
  by (auto intro!: okr_binds typed split: option.splits list.splits dest: first_two_less)

subsection \<open>Directories\<close>

text \<open>A directory entry is a buffer and the offset of one of the 64 entries in its block.\<close>

definition de_ok :: "nat \<Rightarrow> nat \<times> nat \<Rightarrow> bool" where
  "de_ok N de \<longleftrightarrow> fst de < N \<and> snd de mod 16 = 0 \<and> snd de < BLOCK_SIZE"

lemma de_ok_room: "de_ok N de \<Longrightarrow> snd de + 16 \<le> BLOCK_SIZE"
proof -
  assume "de_ok N de"
  then have "snd de mod 16 = 0" "snd de < 1024" by (simp_all add: de_ok_def BLOCK_SIZE_def)
  then show ?thesis unfolding BLOCK_SIZE_def by presburger
qed

lemma de_ok_fst: "de_ok N de \<Longrightarrow> fst de < N"
  by (simp add: de_ok_def)

definition des_ok :: "nat \<Rightarrow> (nat \<times> nat) option \<Rightarrow> bool" where
  "des_ok N r \<longleftrightarrow> (case r of None \<Rightarrow> True | Some de \<Rightarrow> de_ok N de)"

lemma des_ok_simps [simp]: "des_ok N None" "des_ok N (Some de) = de_ok N de"
  by (simp_all add: des_ok_def)

lemma typed_set_de_inode [typed]: "fs_typed N m s \<Longrightarrow> fs_typed N m (set_de_inode de v s)"
  unfolding set_de_inode_def by (auto intro!: typed buf_typed_resize)

lemma typed_set_de_name [typed]:
  "fs_typed N m s \<Longrightarrow> snd de + 2 + length v \<le> BLOCK_SIZE \<Longrightarrow> fs_typed N m (set_de_name de v s)"
  unfolding set_de_name_def by (auto intro!: typed buf_typed_splice)

lemma find_entry_loop_keeps:
  "fs_typed N m s \<Longrightarrow> ptr_ok N bh \<Longrightarrow> off mod 16 = 0 \<Longrightarrow>
     okr (ok_with N m (des_ok N)) (find_entry_loop dir name namelen entries i bh off s)"
proof (induction "entries - i" arbitrary: i bh off s rule: less_induct)
  case less
  show ?case
  proof (cases "i < entries")
    case True
    then have "entries - Suc i < entries - i" "entries - (i + DIR_ENTRIES_PER_BLOCK) < entries - i"
      by (simp_all add: DIR_ENTRIES_PER_BLOCK_def BLOCK_SIZE_def)
    then show ?thesis using True less.prems
      by (subst find_entry_loop.simps)
         (auto simp: Let_def de_ok_def BLOCK_SIZE_def intro!: okr_deref okr_binds less.hyps split: option.splits
            simp del: find_entry_loop.simps)
  qed (use less.prems in \<open>auto intro!: okr_binds\<close>)
qed

lemma lx_find_entry_keeps: "fs_typed N m s \<Longrightarrow> okr (ok_with N m (des_ok N)) (lx_find_entry dir name namelen s)"
  unfolding lx_find_entry_def Let_def
  by (auto intro!: okr_binds find_entry_loop_keeps split: option.splits simp del: find_entry_loop.simps)

lemma take_entry_keeps:
  assumes "fs_typed N m s" "de_ok N de" "namelen \<le> NAME_LEN"
  shows "fs_typed N m (snd (take_entry dir name namelen i de s))"
  using assms(1,3) de_ok_room [OF assms(2)] unfolding take_entry_def Let_def
  by (auto intro!: typed simp: get_fs_bytes_def NAME_LEN_def)

lemma add_entry_loop_keeps:
  "fs_typed N m s \<Longrightarrow> b < N \<Longrightarrow> off mod 16 = 0 \<Longrightarrow> namelen \<le> NAME_LEN \<Longrightarrow>
     okr (ok_with N m (des_ok N)) (loop_res (add_entry_loop dir name namelen i b off s))"
proof (rule okr_loop)
  fix r
  let ?P = "\<lambda>dir name namelen i b off s r. fs_typed N m s \<longrightarrow> b < N \<longrightarrow> off mod 16 = 0 \<longrightarrow> namelen \<le> NAME_LEN \<longrightarrow>
    okr (ok_with N m (des_ok N)) r"
  have next_de: "okr (ok_with N m (des_ok N))
      (if off < BLOCK_SIZE then Inr (Some (b, off), s)
       else bindr (brelse b s) (\<lambda>s.
            bindr (create_block dir (of_nat (i div DIR_ENTRIES_PER_BLOCK)) s) (\<lambda>(block, s).
            if block = 0 then Inr (None, s)
            else bindr (bread (ucast (i_dev (inode s dir))) block s) (\<lambda>(r, s).
              deref ''bh'' r (\<lambda>b. Inr (Some (b, 0), s))))))"
    if "fs_typed N m s" "b < N" "off mod 16 = 0" for off b i dir and s :: "'a fs_state_scheme"
    using that by (auto simp: de_ok_def BLOCK_SIZE_def intro!: okr_binds okr_deref)
  assume "add_entry_loop dir name namelen i b off s = Some r" "fs_typed N m s" "b < N" "off mod 16 = 0" "namelen \<le> NAME_LEN"
  moreover have "add_entry_loop dir name namelen i b off s = Some r \<Longrightarrow> ?P dir name namelen i b off s r"
  proof (rule add_entry_loop.raw_induct [where P = ?P], intro impI)
    fix loop dir name namelen i b off y
    fix s :: "'a fs_state_scheme"
    assume IH: "\<And>dir name namelen i b off s y. loop dir name namelen i b off s = Some y \<Longrightarrow> ?P dir name namelen i b off s y"
      and typed: "fs_typed N m s" "b < N" "off mod 16 = 0" "namelen \<le> NAME_LEN"
      and body: "bindo (if off < BLOCK_SIZE then Inr (Some (b, off), s)
            else bindr (brelse b s) (\<lambda>s.
                 bindr (create_block dir (of_nat (i div DIR_ENTRIES_PER_BLOCK)) s) (\<lambda>(block, s).
                 if block = 0 then Inr (None, s)
                 else bindr (bread (ucast (i_dev (inode s dir))) block s) (\<lambda>(r, s).
                   deref ''bh'' r (\<lambda>b. Inr (Some (b, 0), s)))))) (\<lambda>(r, s).
          case r of None \<Rightarrow> Some (Inr (None, s))
          | Some de \<Rightarrow> let (taken, s) = take_entry dir name namelen i de s in
              if taken then Some (Inr (Some de, s)) else loop dir name namelen (i + 1) (fst de) (snd de + 16) s) = Some y"
    show "okr (ok_with N m (des_ok N)) y"
    proof (rule bindo_okr [OF body next_de [OF typed(1-3)]], clarify)
      fix r and s' :: "'a fs_state_scheme"
      assume x: "ok_with N m (des_ok N) (r, s')"
        and eq: "(case r of None \<Rightarrow> Some (Inr (None, s'))
          | Some de \<Rightarrow> let (taken, s) = take_entry dir name namelen i de s' in
              if taken then Some (Inr (Some de, s)) else loop dir name namelen (i + 1) (fst de) (snd de + 16) s) = Some y"
      show "okr (ok_with N m (des_ok N)) y"
      proof (cases r)
        case None
        then show ?thesis using x eq by auto
      next
        case (Some de)
        obtain taken t where t: "take_entry dir name namelen i de s' = (taken, t)" by (cases "take_entry dir name namelen i de s'")
        have "fs_typed N m t" using take_entry_keeps [of N m s' de namelen dir name i] x Some t typed(4) by simp
        then show ?thesis using x eq Some t typed(4) IH [of dir name namelen "i + 1" "fst de" "snd de + 16" t y]
          by (auto simp: de_ok_def mod_add_eq split: if_splits)
      qed
    qed
  qed
  ultimately show "okr (ok_with N m (des_ok N)) r" by simp
qed

lemma add_entry_keeps: "fs_typed N m s \<Longrightarrow> okr (ok_with N m (des_ok N)) (add_entry dir name namelen s)"
  unfolding add_entry_def Let_def
  by (auto intro!: okr_binds add_entry_loop_keeps split: option.splits)

lemma get_dir_loop_keeps:
  "fs_typed N m s \<Longrightarrow> ino < NR_INODE \<Longrightarrow> okr (ok_with N m (ptr_ok NR_INODE)) (loop_res (get_dir_loop ino nm s))"
proof (rule okr_loop)
  fix r
  let ?P = "\<lambda>ino nm s r. fs_typed N m s \<longrightarrow> ino < NR_INODE \<longrightarrow> okr (ok_with N m (ptr_ok NR_INODE)) r"
  assume "get_dir_loop ino nm s = Some r" "fs_typed N m s" "ino < NR_INODE"
  moreover have "get_dir_loop ino nm s = Some r \<Longrightarrow> ?P ino nm s r"
    by (rule get_dir_loop.raw_induct [where P = ?P])
       (auto simp: Let_def split: if_splits option.splits prod.splits
          elim!: bindo_okr [OF _ iput_keeps] bindo_okr [OF _ lx_find_entry_keeps] bindo_okr [OF _ brelse_keeps]
            bindo_okr [OF _ iget_keeps] bindo_okr [OF _ okr_True [where r = "of_option Diverge (scan_name u a n)" for u a n]], blast+)
  ultimately show "okr (ok_with N m (ptr_ok NR_INODE)) r" by simp
qed

lemma get_dir_keeps: "fs_typed N m s \<Longrightarrow> okr (ok_with N m (ptr_ok NR_INODE)) (get_dir pathname s)"
  unfolding get_dir_def Let_def
  by (auto intro!: get_dir_loop_keeps typed split: option.splits dest: fs_typed_SomeD)

definition dir_ok :: "(nat \<times> u32 \<times> nat) option \<Rightarrow> bool" where
  "dir_ok r \<longleftrightarrow> (case r of None \<Rightarrow> True | Some (dir, _) \<Rightarrow> dir < NR_INODE)"

lemma dir_ok_simps [simp]: "dir_ok None" "dir_ok (Some (dir, x)) \<longleftrightarrow> dir < NR_INODE"
  by (simp_all add: dir_ok_def)

lemma dir_namei_keeps: "fs_typed N m s \<Longrightarrow> okr (ok_with N m dir_ok) (dir_namei pathname s)"
  unfolding dir_namei_def
  by (auto intro!: okr_bind [OF get_dir_keeps]
        okr_bind [OF okr_True [where r = "of_option Diverge (last_name u a b)" for u a b]] split: option.splits)

lemma namei_keeps: "fs_typed N m s \<Longrightarrow> okr (ok_with N m (ptr_ok NR_INODE)) (namei pathname s)"
  unfolding namei_def Let_def
  by (auto intro!: okr_bind [OF dir_namei_keeps] okr_bind [OF lx_find_entry_keeps] okr_binds typed split: option.splits)

lemma iput_return_keeps:
  "fs_typed N m s \<Longrightarrow> ino < NR_INODE \<Longrightarrow> Q r \<Longrightarrow> okr (ok_with N m Q) (iput_return ino r s)"
  unfolding iput_return_def by (auto intro!: okr_binds)

lemmas dir_binds [okr_binds] = add_entry_keeps [THEN okr_bind] dir_namei_keeps [THEN okr_bind] lx_find_entry_keeps [THEN okr_bind]
  namei_keeps [THEN okr_bind]

lemma open_create_keeps:
  "fs_typed N m s \<Longrightarrow> dir < NR_INODE \<Longrightarrow> okr (ok_with N m (\<lambda>r. ptr_ok NR_INODE (snd r))) (open_create flag mode dir base namelen s)"
  unfolding open_create_def Let_def by (auto intro!: okr_binds iput_return_keeps typed split: option.splits)

lemma open_existing_keeps:
  "fs_typed N m s \<Longrightarrow> dir < NR_INODE \<Longrightarrow> okr (ok_with N m (\<lambda>r. ptr_ok NR_INODE (snd r))) (open_existing flag dir de s)"
  unfolding open_existing_def Let_def by (auto intro!: okr_binds iput_return_keeps typed split: option.splits)

lemma open_namei_keeps:
  "fs_typed N m s \<Longrightarrow> okr (ok_with N m (\<lambda>r. ptr_ok NR_INODE (snd r))) (open_namei pathname flag mode s)"
  unfolding open_namei_def Let_def
  by (auto intro!: okr_binds iput_return_keeps open_create_keeps open_existing_keeps split: option.splits)

subsection \<open>Making and removing entries\<close>

lemma typed_init_directory [typed]: "fs_typed N m s \<Longrightarrow> fs_typed N m (init_directory bh self parent s)"
  unfolding init_directory_def Let_def by (auto intro!: typed simp: BLOCK_SIZE_def)

lemma mkdir_entry_keeps:
  "fs_typed N m s \<Longrightarrow> dir < NR_INODE \<Longrightarrow> ino < NR_INODE \<Longrightarrow> okr (ok_any N m) (mkdir_entry dir ino base namelen s)"
  unfolding mkdir_entry_def Let_def by (auto intro!: okr_binds iput_return_keeps typed split: option.splits)

lemma mkdir_block_keeps:
  "fs_typed N m s \<Longrightarrow> dir < NR_INODE \<Longrightarrow> ino < NR_INODE \<Longrightarrow> okr (ok_any N m) (mkdir_block mode dir ino base namelen s)"
  unfolding mkdir_block_def Let_def
  by (auto intro!: okr_binds iput_return_keeps mkdir_entry_keeps typed split: option.splits)

lemma sys_mkdir_keeps: "fs_typed N m s \<Longrightarrow> okr (ok_any N m) (sys_mkdir pathname mode s)"
  unfolding sys_mkdir_def by (auto intro!: okr_binds iput_return_keeps mkdir_block_keeps split: option.splits)

lemma empty_dir_loop_keeps: "fs_typed N m s \<Longrightarrow> okr (ok_any N m) (empty_dir_loop ino len nr bh off s)"
proof (induction "len - nr" arbitrary: nr bh off s rule: less_induct)
  case less
  show ?case
  proof (cases "nr < len")
    case True
    then have "len - Suc nr < len - nr" "len - (nr + DIR_ENTRIES_PER_BLOCK) < len - nr"
      by (simp_all add: DIR_ENTRIES_PER_BLOCK_def BLOCK_SIZE_def)
    then show ?thesis using True less.prems
      by (subst empty_dir_loop.simps)
         (auto simp: Let_def intro!: okr_binds less.hyps split: option.splits simp del: empty_dir_loop.simps)
  qed (use less.prems in \<open>auto intro!: okr_binds\<close>)
qed

lemma empty_dir_keeps: "fs_typed N m s \<Longrightarrow> okr (ok_any N m) (empty_dir ino s)"
  unfolding empty_dir_def Let_def
  by (auto intro!: okr_binds empty_dir_loop_keeps split: option.splits simp del: empty_dir_loop.simps)

lemma release_return_keeps:
  assumes "\<forall>i \<in> set inos. i < NR_INODE" "fs_typed N m s"
  shows "okr (ok_any N m) (release_return inos bh r s)"
proof -
  have "okr (fs_typed N m) t \<Longrightarrow> \<forall>i \<in> set inos. i < NR_INODE \<Longrightarrow> okr (fs_typed N m) (foldl (\<lambda>t ino. bindr t (iput ino)) t inos)" for t
    by (induction inos arbitrary: t) (auto intro!: okr_bind [where P = "fs_typed N m"] iput_keeps)
  then show ?thesis unfolding release_return_def using assms
    by (intro okr_bind [where P = "fs_typed N m"]) (auto intro!: okr_binds brelse_keeps)
qed

lemma rmdir_entry_keeps:
  "fs_typed N m s \<Longrightarrow> dir < NR_INODE \<Longrightarrow> ino < NR_INODE \<Longrightarrow> okr (ok_any N m) (rmdir_entry dir ino de s)"
  unfolding rmdir_entry_def Let_def by (auto intro!: okr_binds iput_return_keeps typed)

lemma sys_rmdir_keeps: "fs_typed N m s \<Longrightarrow> okr (ok_any N m) (sys_rmdir name s)"
  unfolding sys_rmdir_def
  by (auto intro!: okr_binds okr_bind [OF empty_dir_keeps] iput_return_keeps release_return_keeps rmdir_entry_keeps split: option.splits)

lemma unlink_entry_keeps:
  "fs_typed N m s \<Longrightarrow> dir < NR_INODE \<Longrightarrow> ino < NR_INODE \<Longrightarrow> okr (ok_any N m) (unlink_entry dir ino de s)"
  unfolding unlink_entry_def Let_def by (auto intro!: okr_binds iput_return_keeps typed)

lemma sys_unlink_keeps: "fs_typed N m s \<Longrightarrow> okr (ok_any N m) (sys_unlink name s)"
  unfolding sys_unlink_def
  by (auto intro!: okr_binds iput_return_keeps release_return_keeps unlink_entry_keeps split: option.splits)

lemma link_entry_keeps:
  "fs_typed N m s \<Longrightarrow> old < NR_INODE \<Longrightarrow> dir < NR_INODE \<Longrightarrow> okr (ok_any N m) (link_entry old dir base namelen s)"
  unfolding link_entry_def Let_def by (auto intro!: okr_binds iput_return_keeps typed split: option.splits)

lemma sys_link_keeps: "fs_typed N m s \<Longrightarrow> okr (ok_any N m) (sys_link oldname newname s)"
  unfolding sys_link_def by (auto intro!: okr_binds iput_return_keeps link_entry_keeps split: option.splits)

end
