(* ===== verification/Linux_Typed_Calls.thy ===== *)
theory Linux_Typed_Calls
  imports Linux_Typed_Fs Linux_Exec
begin

unbundle bit_operations_syntax

section \<open>The tables of the linux-0.01 kernel keep their shape: memory, processes and programs\<close>

text \<open>
  The calls that need no terminal: page tables and areas of the process, its identity and signals, descriptors and
  attributes of files, \<open>fork\<close> and \<open>execve\<close>.
\<close>

subsection \<open>Page tables\<close>

definition mm_ret :: "'a mm_state_scheme \<Rightarrow> 'r \<times> 'a mm_state_scheme \<Rightarrow> bool" where
  "mm_ret s x \<longleftrightarrow> mm_step s (snd x)"

lemma mm_ret_simps [simp]: "mm_ret s (r, s') = mm_step s s'"
  by (simp add: mm_ret_def)

lemma free_entries_step: "mm_step s s' \<Longrightarrow> okr (mm_step s) (free_entries n a s')"
proof (induction n arbitrary: a s')
  case (Suc n)
  then show ?case by (auto intro!: okr_bind [OF free_page_step] Suc.IH mm_steps)
qed simp

lemma free_tables_step: "mm_step s s' \<Longrightarrow> okr (mm_step s) (free_tables n dir s')"
proof (induction n arbitrary: dir s')
  case (Suc n)
  then show ?case by (auto intro!: okr_bind [OF free_entries_step] okr_bind [OF free_page_step] Suc.IH mm_steps
        simp del: free_entries.simps)
qed simp

lemma free_page_tables_step: "mm_step s s' \<Longrightarrow> okr (mm_step s) (free_page_tables from sz s')"
  unfolding free_page_tables_def by (auto intro!: free_tables_step)

lemma copy_entries_step: "mm_step s s' \<Longrightarrow> okr (mm_step s) (copy_entries n a b s')"
proof (induction n arbitrary: a b s')
  case (Suc n)
  then show ?case by (auto simp: Let_def with_map_def intro!: Suc.IH mm_steps)
qed simp

lemma copy_tables_step: "mm_step s s' \<Longrightarrow> okr (mm_ret s) (copy_tables nr n a b s')"
proof (induction n arbitrary: a b s')
  case (Suc n)
  then show ?case
    by (auto simp: Let_def split: prod.splits dest: mm_step_get_free_page
          intro!: Suc.IH okr_bind [OF copy_entries_step] mm_steps)
qed simp

lemma copy_page_tables_step: "mm_step s s' \<Longrightarrow> okr (mm_ret s) (copy_page_tables from to sz s')"
  unfolding copy_page_tables_def by (auto intro!: okr_bind [OF copy_tables_step])

lemma put_page_step: "mm_step s s' \<Longrightarrow> okr (mm_ret s) (put_page page address s')"
  by (auto simp: put_page_def with_map_def Let_def split: prod.splits intro!: mm_steps dest: mm_step_get_free_page)

lemma un_wp_page_step: "mm_step s s' \<Longrightarrow> okr (mm_ret s) (un_wp_page e s')"
  by (auto simp: un_wp_page_def with_map_def Let_def copy_page_def split: prod.splits intro!: mm_steps dest: mm_step_get_free_page)

lemma write_verify_step: "mm_step s s' \<Longrightarrow> okr (mm_ret s) (write_verify a s')"
  by (simp add: write_verify_def un_wp_page_step)

lemma verify_pages_step: "mm_step s s' \<Longrightarrow> okr (mm_step s) (verify_pages n a s')"
proof (induction n arbitrary: a s')
  case (Suc n)
  then show ?case by (auto intro!: okr_bind [OF write_verify_step] Suc.IH split: option.splits)
qed simp

lemma verify_area_step: "mm_step s s' \<Longrightarrow> okr (mm_step s) (verify_area a n s')"
  unfolding verify_area_def Let_def by (rule verify_pages_step)

lemma copy_mem_step: "mm_step s s' \<Longrightarrow> okr (mm_ret s) (copy_mem nr p s')"
  unfolding copy_mem_def Let_def
  by (auto intro!: okr_bind [OF copy_page_tables_step] okr_bind [OF free_page_tables_step] mm_steps simp: task_typed_def)

text \<open>The same, for the whole state.\<close>

lemma mm_lift: "fs_typed N m s \<Longrightarrow> okr (mm_step s) r \<Longrightarrow> okr (fs_typed N m) r"
  by (rule okr_mono, assumption) (rule fs_typed_step)

lemma mm_lift_ret: "fs_typed N m s \<Longrightarrow> okr (mm_ret s) r \<Longrightarrow> okr (ok_any N m) r"
  by (rule okr_mono, assumption) (auto simp: mm_ret_def ok_with_def intro: fs_typed_step)

lemmas free_page_tables_keeps = mm_lift [OF _ free_page_tables_step [OF mm_step_refl]]
lemmas verify_area_keeps = mm_lift [OF _ verify_area_step [OF mm_step_refl]]
lemmas copy_mem_keeps = mm_lift_ret [OF _ copy_mem_step [OF mm_step_refl]]
lemmas put_page_keeps = mm_lift_ret [OF _ put_page_step [OF mm_step_refl]]

lemmas mm_binds [okr_binds] = free_page_tables_keeps [THEN okr_bind] verify_area_keeps [THEN okr_bind]
  copy_mem_keeps [THEN okr_bind] put_page_keeps [THEN okr_bind]

subsection \<open>Identity, signals and scheduling\<close>

lemma typed_fold: "(\<And>x s. fs_typed N m s \<Longrightarrow> fs_typed N m (f x s)) \<Longrightarrow> fs_typed N m s \<Longrightarrow> fs_typed N m (fold f xs s)"
  by (induction xs arbitrary: s) auto

lemma typed_for_tasks: "(\<And>t. task_typed t \<Longrightarrow> task_typed (f t)) \<Longrightarrow> fs_typed N m s \<Longrightarrow> fs_typed N m (for_tasks f s)"
  unfolding for_tasks_def by (rule typed_fold) (auto intro!: typed)

lemma typed_schedule: "fs_typed N m s \<Longrightarrow> schedule s = Some s' \<Longrightarrow> fs_typed N m s'"
proof -
  have "task_typed (recharge t) = task_typed t" for t by (simp add: recharge_def)
  then have recharged: "fs_typed N m (for_tasks recharge s)" if "fs_typed N m s" for s :: "'a fs_state_scheme"
    using that by (auto intro: typed_for_tasks)
  have loop: "schedule_loop s = Some r \<Longrightarrow> fs_typed N m s \<longrightarrow> fs_typed N m (snd r)" for r and s :: "'a fs_state_scheme"
    by (rule schedule_loop.raw_induct [where P = "\<lambda>s r. fs_typed N m s \<longrightarrow> fs_typed N m (snd r)"])
       (auto split: if_splits dest: recharged)
  have "task_typed (check_alarm now t) = task_typed t" for now t by (simp add: check_alarm_def Let_def)
  then have "fs_typed N m (check_alarms s)" if "fs_typed N m s" using that unfolding check_alarms_def by (auto intro: typed_for_tasks)
  then show "fs_typed N m s \<Longrightarrow> schedule s = Some s' \<Longrightarrow> fs_typed N m s'"
    using loop [of "check_alarms s"] by (fastforce simp: schedule_def switch_to_def intro!: typed)
qed

lemma typed_sys_pause: "fs_typed N m s \<Longrightarrow> sys_pause s = Some s' \<Longrightarrow> fs_typed N m s'"
  unfolding sys_pause_def by (rule typed_schedule) (auto intro!: typed)

lemma typed_send_sig [typed]: "fs_typed N m s \<Longrightarrow> fs_typed N m (send_sig sg p priv s)"
  by (auto simp: send_sig_def intro!: typed)

lemma typed_do_kill [typed]: "fs_typed N m s \<Longrightarrow> fs_typed N m (do_kill pid sg priv s)"
  unfolding do_kill_def by (rule typed_fold) (auto intro!: typed)

lemma typed_signal:
  "task_typed t \<Longrightarrow> task_typed (t\<lparr>t_sig_fn := (t_sig_fn t)[i := a], t_sig_restorer := r\<rparr>)"
  by (simp add: task_typed_def)

lemma sched_calls_keep:
  assumes "fs_typed N m s"
  shows "ok_any N m (sys_alarm v s)" "ok_any N m (sys_nice v s)" "ok_any N m (sys_signal v a r s)" "ok_any N m (sys_setgid v s)"
    "ok_any N m (sys_setuid v s)" "ok_any N m (sys_brk v s)" "ok_any N m (sys_setpgid v w s)" "ok_any N m (sys_setsid s)"
    "ok_any N m (sys_umask v s)" "ok_any N m (sys_kill v w s)"
  using assms unfolding sys_alarm_def sys_nice_def sys_signal_def sys_setgid_def sys_setuid_def sys_brk_def sys_setpgid_def
    sys_setsid_def sys_umask_def sys_kill_def Let_def ok_with_def
  by (auto intro!: typed typed_signal split: option.splits)

lemma find_empty_process_keeps: "fs_typed N m s \<Longrightarrow> okr (ok_any N m) (of_option e (find_empty_process s))"
  by (auto simp: find_empty_process_def intro!: okr_of_option typed)

subsection \<open>Descriptors and attributes\<close>

lemma fd_file_less: "fd_file fd s = Some fi \<Longrightarrow> fs_typed N m s \<Longrightarrow> fi < NR_FILE"
  by (auto simp: fd_file_def split: if_splits dest: fs_typed_SomeD)

lemma typed_clear_close_on_exec [typed]: "fs_typed N m s \<Longrightarrow> fs_typed N m (clear_close_on_exec fd s)"
  by (auto simp: clear_close_on_exec_def intro!: typed)

lemma dupfd_keeps: "fs_typed N m s \<Longrightarrow> ok_any N m (dupfd fd arg s)"
  by (auto simp: dupfd_def Let_def ok_with_def intro!: typed split: option.splits dest!: fd_file_less)

lemma sys_close_keeps:
  assumes "fs_typed N m s"
  shows "okr (ok_any N m) (sys_close fd s)"
proof (cases "unat fd \<ge> NR_OPEN \<or> t_filp (cur (clear_close_on_exec (unat fd) s)) ! unat fd = None")
  case True
  then show ?thesis using assms by (auto simp: sys_close_def Let_def intro!: typed)
next
  case False
  then obtain fi where fi: "t_filp (cur (clear_close_on_exec (unat fd) s)) ! unat fd = Some fi" by auto
  then have "fi < NR_FILE" using fs_typed_Some(9) [OF typed_clear_close_on_exec [OF assms], of "unat fd"] False by auto
  then show ?thesis using assms False fi by (auto simp: sys_close_def Let_def intro!: okr_binds typed fs_typed_ptr)
qed

lemma sys_dup2_keeps: "fs_typed N m s \<Longrightarrow> okr (ok_any N m) (sys_dup2 old new s)"
  unfolding sys_dup2_def by (auto intro!: okr_bind [OF sys_close_keeps] dupfd_keeps)

lemma sys_dup_keeps: "fs_typed N m s \<Longrightarrow> ok_any N m (sys_dup fd s)"
  by (simp add: sys_dup_def dupfd_keeps)

lemma sys_fcntl_keeps: "fs_typed N m s \<Longrightarrow> ok_any N m (sys_fcntl fd cmd arg s)"
  by (auto simp: sys_fcntl_def intro!: typed dupfd_keeps split: option.splits)

lemma sys_lseek_keeps: "fs_typed N m s \<Longrightarrow> ok_any N m (sys_lseek fd off origin s)"
  by (auto simp: sys_lseek_def Let_def intro!: typed split: option.splits)

lemma sys_utime_keeps: "fs_typed N m s \<Longrightarrow> okr (ok_any N m) (sys_utime name tp s)"
  unfolding sys_utime_def Let_def by (auto intro!: okr_binds iput_return_keeps typed split: option.splits)

lemma sys_access_keeps: "fs_typed N m s \<Longrightarrow> okr (ok_any N m) (sys_access name mode s)"
  unfolding sys_access_def Let_def by (auto intro!: okr_binds split: option.splits)

lemma task_typed_dir: "task_typed t \<Longrightarrow> i < NR_INODE \<Longrightarrow> task_typed (t\<lparr>t_pwd := Some i\<rparr>)"
  "task_typed t \<Longrightarrow> i < NR_INODE \<Longrightarrow> task_typed (t\<lparr>t_root := Some i\<rparr>)"
  by (simp_all add: task_typed_def)

lemma sys_chdir_keeps: "fs_typed N m s \<Longrightarrow> okr (ok_any N m) (sys_chdir name s)"
  unfolding sys_chdir_def
  by (auto intro!: okr_binds iput_return_keeps typed fs_typed_ptr task_typed_dir split: option.splits)

lemma sys_chroot_keeps: "fs_typed N m s \<Longrightarrow> okr (ok_any N m) (sys_chroot name s)"
  unfolding sys_chroot_def
  by (auto intro!: okr_binds iput_return_keeps typed fs_typed_ptr task_typed_dir split: option.splits)

lemma sys_chmod_keeps: "fs_typed N m s \<Longrightarrow> okr (ok_any N m) (sys_chmod name mode s)"
  unfolding sys_chmod_def Let_def by (auto intro!: okr_binds iput_return_keeps typed split: option.splits)

lemma sys_chown_keeps: "fs_typed N m s \<Longrightarrow> okr (ok_any N m) (sys_chown name uid gid s)"
  unfolding sys_chown_def by (auto intro!: okr_binds iput_return_keeps typed split: option.splits)

lemma cp_stat_keeps: "fs_typed N m s \<Longrightarrow> okr (ok_any N m) (cp_stat junk ino a s)"
  unfolding cp_stat_def by (auto intro!: okr_binds typed)

lemma sys_stat_keeps: "fs_typed N m s \<Longrightarrow> okr (ok_any N m) (sys_stat junk name a s)"
  unfolding sys_stat_def by (auto intro!: okr_binds okr_bind [OF cp_stat_keeps] iput_return_keeps split: option.splits)

lemma sys_fstat_keeps: "fs_typed N m s \<Longrightarrow> okr (ok_any N m) (sys_fstat junk fd a s)"
  unfolding sys_fstat_def by (auto intro!: cp_stat_keeps split: option.splits)

lemma time_calls_keep:
  assumes "fs_typed N m s"
  shows "okr (ok_any N m) (sys_time a s)" "ok_any N m (sys_stime a s)" "okr (ok_any N m) (sys_times a s)" "okr (ok_any N m) (sys_uname a s)"
  using assms unfolding sys_time_def sys_stime_def sys_times_def sys_uname_def Let_def by (auto intro!: okr_binds typed)

subsection \<open>Making and ending processes\<close>

lemma typed_set_task [typed]: "fs_typed N m s \<Longrightarrow> fs_typed N m (s\<lparr>task := (task s)[i := p]\<rparr>)"
  by (rule fs_typed_mm) (auto simp: mm_typed_def sched_typed_def dest: fs_typedD(15))

lemma typed_inc [typed]:
  "fs_typed N m s \<Longrightarrow> fs_typed N m (inc_file p s)" "fs_typed N m s \<Longrightarrow> fs_typed N m (inc_inode p s)"
  by (auto simp: inc_file_def inc_inode_def intro!: typed split: option.splits)

lemma task_typed_child: "fs_typed N m s \<Longrightarrow> task_typed (child_task p nr regs s)"
  using fs_typedD(12) [of N m s "current s"] by (simp add: child_task_def task_typed_def)

lemma copy_process_keeps:
  assumes "fs_typed N m s"
  shows "okr (ok_any N m) (copy_process nr regs s)"
proof -
  obtain p s1 where p: "get_free_page s = (p, s1)" by (cases "get_free_page s")
  note s1 = get_free_page_keeps [OF assms p]
  then show ?thesis using s1 unfolding copy_process_def
    by (auto simp: p Let_def intro!: okr_binds typed typed_fold task_typed_child)
qed

lemma release_keeps: "fs_typed N m s \<Longrightarrow> okr (fs_typed N m) (release p s)"
  by (auto simp: release_def intro!: free_page_keeps typed split: option.splits)

lemma typed_orphan_children [typed]: "fs_typed N m s \<Longrightarrow> fs_typed N m (orphan_children s)"
  unfolding orphan_children_def by (rule typed_fold) (auto intro!: typed)

lemma close_all_keeps: "fs_typed N m s \<Longrightarrow> okr (fs_typed N m) (close_all is s)"
  by (induction "is" arbitrary: s) (auto simp: bindr_assoc intro!: okr_bind [OF sys_close_keeps])

lemma sys_waitpid_keeps: "fs_typed N m s \<Longrightarrow> okr (ok_any N m) (sys_waitpid pid a options s)"
  unfolding sys_waitpid_def Let_def
  by (auto intro!: okr_binds okr_bind [OF release_keeps] typed split: option.splits)

subsection \<open>Programs\<close>

lemma typed_cp_block [typed]: "fs_typed N m s \<Longrightarrow> fs_typed N m (cp_block l a s)"
  by (simp add: cp_block_def typed)

lemma load_block_keeps: "fs_typed N m s \<Longrightarrow> okr (ok_any N m) (load_block dev block a s)"
  unfolding load_block_def by (auto intro!: okr_binds typed split: option.splits)

lemma read_head_keeps: "fs_typed N m s \<Longrightarrow> okr (ok_any N m) (read_head ino blocks s)"
proof -
  have "fs_typed N m s \<Longrightarrow> okr (ok_any N m) (read_head_loop ns ino s)" for ns and s :: "'a fs_state_scheme"
    by (induction ns arbitrary: s) (auto intro!: okr_bind [OF load_block_keeps])
  then show "fs_typed N m s \<Longrightarrow> ?thesis" by (simp add: read_head_def)
qed

lemma read_ind_loop_keeps: "fs_typed N m s \<Longrightarrow> okr (ok_any N m) (read_ind_loop ns dev ih off s)"
  by (induction ns arbitrary: off s) (auto simp: Let_def intro!: okr_bind [OF load_block_keeps] okr_binds)

lemma read_ind_keeps: "fs_typed N m s \<Longrightarrow> okr (ok_any N m) (read_ind dev ind sz off s)"
  unfolding read_ind_def Let_def by (auto intro!: okr_binds read_ind_loop_keeps split: option.splits)

lemma read_dind_loop_keeps: "fs_typed N m s \<Longrightarrow> okr (ok_any N m) (read_dind_loop ns dev dind sz s)"
  by (induction ns arbitrary: sz s) (auto intro!: okr_bind [OF read_ind_keeps])

lemma read_area_keeps: "fs_typed N m s \<Longrightarrow> okr (ok_any N m) (read_area ino sz s)"
  unfolding read_area_def Let_def
  by (auto intro!: okr_bind [OF read_head_keeps] okr_bind [OF read_ind_keeps] okr_binds read_dind_loop_keeps split: option.splits)

text \<open>The array \<open>page\<close> keeps its 32 entries.\<close>

definition pages_ok :: "nat \<Rightarrow> 'a \<Rightarrow> 'r \<times> u32 list \<times> 'a fs_state_scheme \<Rightarrow> bool" where
  "pages_ok N m x \<longleftrightarrow> length (fst (snd x)) = MAX_ARG_PAGES \<and> fs_typed N m (snd (snd x))"

lemma pages_ok_simps [simp]: "pages_ok N m (r, page, s) \<longleftrightarrow> length page = MAX_ARG_PAGES \<and> fs_typed N m s"
  by (simp add: pages_ok_def)

lemma arg_pages_keeps: "length page = MAX_ARG_PAGES \<Longrightarrow> fs_typed N m s \<Longrightarrow> pages_ok N m (arg_pages is page s)"
proof (induction "is" arbitrary: page s)
  case (Cons i "is")
  then show ?case by (auto simp: Let_def split: prod.splits intro!: Cons.IH dest: get_free_page_keeps)
qed simp

lemma copy_bytes_keeps: "fs_typed N m s \<Longrightarrow> okr (ok_any N m) (copy_bytes len tmp page p s)"
proof (induction len arbitrary: tmp p s)
  case (Suc len)
  then show ?case by (auto simp: Let_def intro!: Suc.IH typed)
qed simp

lemma copy_strings_keeps:
  "length page = MAX_ARG_PAGES \<Longrightarrow> fs_typed N m s \<Longrightarrow> okr (pages_ok N m) (copy_strings argc argv page p s)"
proof (induction argc arbitrary: page p s)
  case (Suc argc)
  show ?case
  proof (cases "str_len (user s) (get_fs_long (argv + 4 * of_nat argc) s) 0")
    case (Some len)
    obtain ok page' s' where a: "arg_pages [unat (drop_bit 12 (p - word_of_nat len))..<MAX_ARG_PAGES] page s = (ok, page', s')"
      by (metis prod_cases3)
    with arg_pages_keeps [OF Suc.prems] have "length page' = MAX_ARG_PAGES" "fs_typed N m s'" by (metis pages_ok_simps)+
    then show ?thesis by (auto simp: Let_def Some a intro!: okr_bind [OF copy_bytes_keeps] Suc.IH)
  qed (simp add: Let_def)
qed simp

lemma put_args_step: "mm_step s s' \<Longrightarrow> okr (mm_ret s) (put_args is base page s')"
proof (induction "is" arbitrary: base page s')
  case (Cons i "is")
  then show ?case by (auto simp: Let_def intro!: okr_bind [OF put_page_step] Cons.IH)
qed simp

lemmas put_args_keeps = mm_lift_ret [OF _ put_args_step [OF mm_step_refl]]

lemma typed_set_ldt [typed]: "fs_typed N m s \<Longrightarrow> fs_typed N m (set_ldt i base limit s)"
  by (auto simp: set_ldt_def task_typed_def intro!: typed)

lemma change_ldt_keeps: "fs_typed N m s \<Longrightarrow> okr (ok_any N m) (change_ldt text page s)"
  unfolding change_ldt_def Let_def by (auto intro!: okr_bind [OF put_args_keeps] typed)

lemma put_table_keeps: "fs_typed N m s \<Longrightarrow> okr (ok_any N m) (put_table n p table s)"
proof (induction n arbitrary: p table s)
  case (Suc n)
  show ?case
  proof (cases "str_len (user (put_fs_long p table s)) p 0")
    case (Some len)
    then show ?thesis using Suc.prems by (auto simp: Let_def intro!: Suc.IH typed)
  qed (simp add: Let_def)
qed (auto intro!: typed)

lemma create_tables_keeps: "fs_typed N m s \<Longrightarrow> okr (ok_any N m) (create_tables p argc envc s)"
  unfolding create_tables_def Let_def by (auto intro!: okr_bind [OF put_table_keeps] typed)

lemma free_arg_pages_keeps: "fs_typed N m s \<Longrightarrow> okr (fs_typed N m) (free_arg_pages as s)"
  by (induction "as" arbitrary: s) (auto intro!: okr_bind [OF free_page_keeps])

lemma close_marked_keeps: "fs_typed N m s \<Longrightarrow> okr (fs_typed N m) (close_marked is s)"
  by (induction "is" arbitrary: s) (auto simp: bindr_assoc intro!: okr_bind [OF sys_close_keeps])

lemma leave_program_keeps: "fs_typed N m s \<Longrightarrow> okr (fs_typed N m) (leave_program s)"
  unfolding leave_program_def Let_def
  by (auto simp: task_typed_def intro!: okr_bind [OF close_marked_keeps] okr_binds typed)

lemma typed_clear_tail [typed]: "fs_typed N m s \<Longrightarrow> fs_typed N m (clear_tail i s)"
  by (simp add: clear_tail_def typed)

lemma enter_program_keeps:
  "fs_typed N m s \<Longrightarrow> ino < NR_INODE \<Longrightarrow> okr (ok_any N m) (enter_program eip ino ex page argc envc p s)"
  unfolding enter_program_def Let_def
  by (auto intro!: okr_bind [OF leave_program_keeps] okr_bind [OF change_ldt_keeps] okr_bind [OF create_tables_keeps]
        okr_bind [OF read_area_keeps] okr_binds typed)

lemma lx_count_bind: "(\<And>n. okr P (f n)) \<Longrightarrow> okr P (bindr (lx_count argv s) f)"
  by (cases "lx_count argv s") auto

lemma do_execve_keeps: "fs_typed N m s \<Longrightarrow> okr (ok_any N m) (do_execve eip name argv envp s)"
  unfolding do_execve_def Let_def
  by (auto intro!: okr_binds iput_return_keeps lx_count_bind okr_bind [OF copy_strings_keeps] okr_bind [OF free_arg_pages_keeps]
        enter_program_keeps split: option.splits)

end
