(* ===== verification/Linux_Syscalls.thy ===== *)
theory Linux_Syscalls
  imports Linux_Start
begin

unbundle bit_operations_syntax

section \<open>System calls of linux-0.01 (\<open>linux/sys.h\<close>, \<open>unistd.h\<close>, \<open>lib\<close>, \<open>init\<close>)\<close>

text \<open>
  The kernel's table of routines and the numbers that programs use are two lists kept by hand in two headers.
  \<open>sys_call\<close> runs the routine of an entry; \<open>lx_system_call\<close> is the way a process gets there, with the number in
  \<open>eax\<close> and the arguments in \<open>ebx\<close>, \<open>ecx\<close> and \<open>edx\<close>.  The library routines are those calls with the
  error convention of the library.  What the entry code does between the call and the return to the program - the
  choice of another task and the delivery of signals - is assembly and not part of \<open>lx_system_call\<close>.
\<close>

datatype (plugins only: code) syscall =
    Sys_setup | Sys_exit | Sys_fork | Sys_read | Sys_write | Sys_open | Sys_close | Sys_waitpid | Sys_creat |
  Sys_link | Sys_unlink | Sys_execve | Sys_chdir | Sys_time | Sys_mknod | Sys_chmod | Sys_chown | Sys_break |
  Sys_stat | Sys_lseek | Sys_getpid | Sys_mount | Sys_umount | Sys_setuid | Sys_getuid | Sys_stime | Sys_ptrace
  | Sys_alarm | Sys_fstat | Sys_pause | Sys_utime | Sys_stty | Sys_gtty | Sys_access | Sys_nice | Sys_ftime |
  Sys_sync | Sys_kill | Sys_rename | Sys_mkdir | Sys_rmdir | Sys_dup | Sys_pipe | Sys_times | Sys_prof | Sys_brk
  | Sys_setgid | Sys_getgid | Sys_signal | Sys_geteuid | Sys_getegid | Sys_acct | Sys_phys | Sys_lock |
  Sys_ioctl | Sys_fcntl | Sys_mpx | Sys_setpgid | Sys_ulimit | Sys_uname | Sys_umask | Sys_chroot | Sys_ustat |
  Sys_dup2 | Sys_getppid | Sys_getpgrp | Sys_setsid

text \<open>The numbers of \<open>unistd.h\<close>.\<close>

primrec NR :: "syscall \<Rightarrow> nat" where
  "NR Sys_setup = 0"
| "NR Sys_exit = 1"
| "NR Sys_fork = 2"
| "NR Sys_read = 3"
| "NR Sys_write = 4"
| "NR Sys_open = 5"
| "NR Sys_close = 6"
| "NR Sys_waitpid = 7"
| "NR Sys_creat = 8"
| "NR Sys_link = 9"
| "NR Sys_unlink = 10"
| "NR Sys_execve = 11"
| "NR Sys_chdir = 12"
| "NR Sys_time = 13"
| "NR Sys_mknod = 14"
| "NR Sys_chmod = 15"
| "NR Sys_chown = 16"
| "NR Sys_break = 17"
| "NR Sys_stat = 18"
| "NR Sys_lseek = 19"
| "NR Sys_getpid = 20"
| "NR Sys_mount = 21"
| "NR Sys_umount = 22"
| "NR Sys_setuid = 23"
| "NR Sys_getuid = 24"
| "NR Sys_stime = 25"
| "NR Sys_ptrace = 26"
| "NR Sys_alarm = 27"
| "NR Sys_fstat = 28"
| "NR Sys_pause = 29"
| "NR Sys_utime = 30"
| "NR Sys_stty = 31"
| "NR Sys_gtty = 32"
| "NR Sys_access = 33"
| "NR Sys_nice = 34"
| "NR Sys_ftime = 35"
| "NR Sys_sync = 36"
| "NR Sys_kill = 37"
| "NR Sys_rename = 38"
| "NR Sys_mkdir = 39"
| "NR Sys_rmdir = 40"
| "NR Sys_dup = 41"
| "NR Sys_pipe = 42"
| "NR Sys_times = 43"
| "NR Sys_prof = 44"
| "NR Sys_brk = 45"
| "NR Sys_setgid = 46"
| "NR Sys_getgid = 47"
| "NR Sys_signal = 48"
| "NR Sys_geteuid = 49"
| "NR Sys_getegid = 50"
| "NR Sys_acct = 51"
| "NR Sys_phys = 52"
| "NR Sys_lock = 53"
| "NR Sys_ioctl = 54"
| "NR Sys_fcntl = 55"
| "NR Sys_mpx = 56"
| "NR Sys_setpgid = 57"
| "NR Sys_ulimit = 58"
| "NR Sys_uname = 59"
| "NR Sys_umask = 60"
| "NR Sys_chroot = 61"
| "NR Sys_ustat = 62"
| "NR Sys_dup2 = 63"
| "NR Sys_getppid = 64"
| "NR Sys_getpgrp = 65"
| "NR Sys_setsid = 66"

definition sys_call_table :: "syscall list" where
  "sys_call_table =
     [Sys_setup, Sys_exit, Sys_fork, Sys_read, Sys_write, Sys_open, Sys_close, Sys_waitpid, Sys_creat, Sys_link,
      Sys_unlink, Sys_execve, Sys_chdir, Sys_time, Sys_mknod, Sys_chmod, Sys_chown, Sys_break, Sys_stat, Sys_lseek,
      Sys_getpid, Sys_mount, Sys_umount, Sys_setuid, Sys_getuid, Sys_stime, Sys_ptrace, Sys_alarm, Sys_fstat,
      Sys_pause, Sys_utime, Sys_stty, Sys_gtty, Sys_access, Sys_nice, Sys_ftime, Sys_sync, Sys_kill, Sys_rename,
      Sys_mkdir, Sys_rmdir, Sys_dup, Sys_pipe, Sys_times, Sys_prof, Sys_brk, Sys_setgid, Sys_getgid, Sys_signal,
      Sys_geteuid, Sys_getegid, Sys_acct, Sys_phys, Sys_lock, Sys_ioctl, Sys_fcntl, Sys_mpx, Sys_setpgid,
      Sys_ulimit, Sys_uname, Sys_umask, Sys_chroot, Sys_ustat, Sys_dup2, Sys_getppid, Sys_getpgrp, Sys_setsid]"

subsection \<open>Running a system call\<close>

text \<open>
  The registers of a process as the entry code has saved them.  A call that ends the process or gives the
  processor away leaves no registers to return to.  The argument \<open>junk\<close> stands for the bytes of a structure on
  the stack of the kernel that the code never sets.
\<close>

definition ret :: "tss_struct \<Rightarrow> u32 \<times> 's \<Rightarrow> (tss_struct option \<times> 's) res" where
  "ret r x = Inr (Some (r\<lparr>tss_eax := fst x\<rparr>), snd x)"

abbreviation val :: "tss_struct \<Rightarrow> 's \<Rightarrow> u32 \<Rightarrow> (tss_struct option \<times> 's) res" where
  "val r s v \<equiv> ret r (v, s)"

definition execve_regs :: "tss_struct \<Rightarrow> (u32 \<times> u32 list) \<times> 's \<Rightarrow> (tss_struct option \<times> 's) res" where
  "execve_regs r x =
     (let ((v, eip), s) = x in Inr (Some (r\<lparr>tss_eax := v, tss_eip := eip ! 0, tss_esp := eip ! 3\<rparr>), s))"

primrec sys_call :: "syscall \<Rightarrow> u8 list \<Rightarrow> tss_struct \<Rightarrow> 'a machine_state_scheme \<Rightarrow> (tss_struct option \<times> 'a machine_state_scheme) res" where
  "sys_call Sys_setup junk r s = bindr (sys_setup s) (ret r)"
| "sys_call Sys_exit junk r s = bindr (sys_exit (tss_ebx r) s) (\<lambda>s. Inr (None, s))"
| "sys_call Sys_fork junk r s = bindr (sys_fork r s) (ret r)"
| "sys_call Sys_read junk r s = bindr (sys_read (tss_ebx r) (tss_ecx r) (tss_edx r) s) (ret r)"
| "sys_call Sys_write junk r s = bindr (sys_write (tss_ebx r) (tss_ecx r) (tss_edx r) s) (ret r)"
| "sys_call Sys_open junk r s = bindr (sys_open (tss_ebx r) (tss_ecx r) (tss_edx r) s) (ret r)"
| "sys_call Sys_close junk r s = bindr (sys_close (tss_ebx r) s) (ret r)"
| "sys_call Sys_waitpid junk r s = bindr (sys_waitpid (tss_ebx r) (tss_ecx r) (tss_edx r) s) (ret r)"
| "sys_call Sys_creat junk r s = bindr (sys_creat (tss_ebx r) (tss_ecx r) s) (ret r)"
| "sys_call Sys_link junk r s = bindr (sys_link (tss_ebx r) (tss_ecx r) s) (ret r)"
| "sys_call Sys_unlink junk r s = bindr (sys_unlink (tss_ebx r) s) (ret r)"
| "sys_call Sys_execve junk r s =
     bindr (do_execve [tss_eip r, tss_cs r, tss_eflags r, tss_esp r] (tss_ebx r) (tss_ecx r) (tss_edx r) s) (execve_regs r)"
| "sys_call Sys_chdir junk r s = bindr (sys_chdir (tss_ebx r) s) (ret r)"
| "sys_call Sys_time junk r s = bindr (sys_time (tss_ebx r) s) (ret r)"
| "sys_call Sys_mknod junk r s = val r s sys_mknod"
| "sys_call Sys_chmod junk r s = bindr (sys_chmod (tss_ebx r) (tss_ecx r) s) (ret r)"
| "sys_call Sys_chown junk r s = bindr (sys_chown (tss_ebx r) (tss_ecx r) (tss_edx r) s) (ret r)"
| "sys_call Sys_break junk r s = val r s sys_break"
| "sys_call Sys_stat junk r s = bindr (sys_stat junk (tss_ebx r) (tss_ecx r) s) (ret r)"
| "sys_call Sys_lseek junk r s = ret r (sys_lseek (tss_ebx r) (tss_ecx r) (tss_edx r) s)"
| "sys_call Sys_getpid junk r s = val r s (sys_getpid s)"
| "sys_call Sys_mount junk r s = val r s sys_mount"
| "sys_call Sys_umount junk r s = val r s sys_umount"
| "sys_call Sys_setuid junk r s = ret r (sys_setuid (tss_ebx r) s)"
| "sys_call Sys_getuid junk r s = val r s (sys_getuid s)"
| "sys_call Sys_stime junk r s = ret r (sys_stime (tss_ebx r) s)"
| "sys_call Sys_ptrace junk r s = val r s sys_ptrace"
| "sys_call Sys_alarm junk r s = ret r (sys_alarm (tss_ebx r) s)"
| "sys_call Sys_fstat junk r s = bindr (sys_fstat junk (tss_ebx r) (tss_ecx r) s) (ret r)"
| "sys_call Sys_pause junk r s = bindr (of_option Diverge (sys_pause s)) (\<lambda>s. Inr (None, s))"
| "sys_call Sys_utime junk r s = bindr (sys_utime (tss_ebx r) (tss_ecx r) s) (ret r)"
| "sys_call Sys_stty junk r s = val r s sys_stty"
| "sys_call Sys_gtty junk r s = val r s sys_gtty"
| "sys_call Sys_access junk r s = bindr (sys_access (tss_ebx r) (tss_ecx r) s) (ret r)"
| "sys_call Sys_nice junk r s = ret r (sys_nice (tss_ebx r) s)"
| "sys_call Sys_ftime junk r s = val r s sys_ftime"
| "sys_call Sys_sync junk r s = bindr (sys_sync s) (ret r)"
| "sys_call Sys_kill junk r s = ret r (sys_kill (tss_ebx r) (tss_ecx r) s)"
| "sys_call Sys_rename junk r s = val r s sys_rename"
| "sys_call Sys_mkdir junk r s = bindr (sys_mkdir (tss_ebx r) (tss_ecx r) s) (ret r)"
| "sys_call Sys_rmdir junk r s = bindr (sys_rmdir (tss_ebx r) s) (ret r)"
| "sys_call Sys_dup junk r s = ret r (sys_dup (tss_ebx r) s)"
| "sys_call Sys_pipe junk r s = bindr (sys_pipe (tss_ebx r) s) (ret r)"
| "sys_call Sys_times junk r s = bindr (sys_times (tss_ebx r) s) (ret r)"
| "sys_call Sys_prof junk r s = val r s sys_prof"
| "sys_call Sys_brk junk r s = ret r (sys_brk (tss_ebx r) s)"
| "sys_call Sys_setgid junk r s = ret r (sys_setgid (tss_ebx r) s)"
| "sys_call Sys_getgid junk r s = val r s (sys_getgid s)"
| "sys_call Sys_signal junk r s = ret r (sys_signal (tss_ebx r) (tss_ecx r) (tss_edx r) s)"
| "sys_call Sys_geteuid junk r s = val r s (sys_geteuid s)"
| "sys_call Sys_getegid junk r s = val r s (sys_getegid s)"
| "sys_call Sys_acct junk r s = val r s sys_acct"
| "sys_call Sys_phys junk r s = val r s sys_phys"
| "sys_call Sys_lock junk r s = val r s sys_lock"
| "sys_call Sys_ioctl junk r s = bindr (sys_ioctl (junk ! 0) (tss_ebx r) (tss_ecx r) (tss_edx r) s) (ret r)"
| "sys_call Sys_fcntl junk r s = ret r (sys_fcntl (tss_ebx r) (tss_ecx r) (tss_edx r) s)"
| "sys_call Sys_mpx junk r s = val r s sys_mpx"
| "sys_call Sys_setpgid junk r s = ret r (sys_setpgid (tss_ebx r) (tss_ecx r) s)"
| "sys_call Sys_ulimit junk r s = val r s sys_ulimit"
| "sys_call Sys_uname junk r s = bindr (sys_uname (tss_ebx r) s) (ret r)"
| "sys_call Sys_umask junk r s = ret r (sys_umask (tss_ebx r) s)"
| "sys_call Sys_chroot junk r s = bindr (sys_chroot (tss_ebx r) s) (ret r)"
| "sys_call Sys_ustat junk r s = val r s (sys_ustat (tss_ebx r) (tss_ecx r))"
| "sys_call Sys_dup2 junk r s = bindr (sys_dup2 (tss_ebx r) (tss_ecx r) s) (ret r)"
| "sys_call Sys_getppid junk r s = val r s (sys_getppid s)"
| "sys_call Sys_getpgrp junk r s = val r s (sys_getpgrp s)"
| "sys_call Sys_setsid junk r s = ret r (sys_setsid s)"

text \<open>The entry code: a number outside the table returns \<open>-1\<close> without a call.\<close>

definition lx_system_call :: "u8 list \<Rightarrow> tss_struct \<Rightarrow> 'a machine_state_scheme \<Rightarrow> (tss_struct option \<times> 'a machine_state_scheme) res" where
  "lx_system_call junk r s =
     (if unat (tss_eax r) < length sys_call_table then sys_call (sys_call_table ! unat (tss_eax r)) junk r s
      else val r s (- 1))"

subsection \<open>The library\<close>

text \<open>
  A program calls the kernel through \<open>int $0x80\<close>, here an argument: what a call gives back depends on the other
  processes.  The state of a program has its variable \<open>errno\<close> first.
\<close>

type_synonym 's int80 = "nat \<Rightarrow> u32 \<Rightarrow> u32 \<Rightarrow> u32 \<Rightarrow> 's \<Rightarrow> u32 \<times> 's"

definition syscall3 :: "'s int80 \<Rightarrow> syscall \<Rightarrow> u32 \<Rightarrow> u32 \<Rightarrow> u32 \<Rightarrow> u32 \<times> 's \<Rightarrow> u32 \<times> u32 \<times> 's" where
  "syscall3 int80 name a b c es =
     (let (res, s) = int80 (NR name) a b c (snd es)
      in if sint res < 0 then (- 1, - res, s) else (res, fst es, s))"

text \<open>The macros with fewer arguments leave the other registers as they are; the kernel does not look at them.\<close>

definition syscall0 :: "'s int80 \<Rightarrow> syscall \<Rightarrow> u32 \<times> 's \<Rightarrow> u32 \<times> u32 \<times> 's" where
  "syscall0 int80 name es =
     (let (res, s) = int80 (NR name) 0 0 0 (snd es)
      in if sint res \<ge> 0 then (res, fst es, s) else (- 1, - res, s))"

definition syscall1 :: "'s int80 \<Rightarrow> syscall \<Rightarrow> u32 \<Rightarrow> u32 \<times> 's \<Rightarrow> u32 \<times> u32 \<times> 's" where
  "syscall1 int80 name a es =
     (let (res, s) = int80 (NR name) a 0 0 (snd es)
      in if sint res \<ge> 0 then (res, fst es, s) else (- 1, - res, s))"

definition syscall2 :: "'s int80 \<Rightarrow> syscall \<Rightarrow> u32 \<Rightarrow> u32 \<Rightarrow> u32 \<times> 's \<Rightarrow> u32 \<times> u32 \<times> 's" where
  "syscall2 int80 name a b es =
     (let (res, s) = int80 (NR name) a b 0 (snd es)
      in if sint res \<ge> 0 then (res, fst es, s) else (- 1, - res, s))"

definition lib_write :: "'s int80 \<Rightarrow> u32 \<Rightarrow> u32 \<Rightarrow> u32 \<Rightarrow> u32 \<times> 's \<Rightarrow> u32 \<times> u32 \<times> 's" where
  "lib_write int80 fd b cnt = syscall3 int80 Sys_write fd b cnt"

definition lib_open :: "'s int80 \<Rightarrow> u32 \<Rightarrow> u32 \<Rightarrow> u32 \<Rightarrow> u32 \<times> 's \<Rightarrow> u32 \<times> u32 \<times> 's" where
  "lib_open int80 filename flag mode es =
     (let (res, s) = int80 (NR Sys_open) filename flag mode (snd es)
      in if sint res \<ge> 0 then (res, fst es, s) else (- 1, - res, s))"

definition lib_close :: "'s int80 \<Rightarrow> u32 \<Rightarrow> u32 \<times> 's \<Rightarrow> u32 \<times> u32 \<times> 's" where
  "lib_close int80 fd = syscall1 int80 Sys_close fd"

definition lib_dup :: "'s int80 \<Rightarrow> u32 \<Rightarrow> u32 \<times> 's \<Rightarrow> u32 \<times> u32 \<times> 's" where
  "lib_dup int80 fd = syscall1 int80 Sys_dup fd"

definition lib_execve :: "'s int80 \<Rightarrow> u32 \<Rightarrow> u32 \<Rightarrow> u32 \<Rightarrow> u32 \<times> 's \<Rightarrow> u32 \<times> u32 \<times> 's" where
  "lib_execve int80 name argv envp = syscall3 int80 Sys_execve name argv envp"

definition lib_setsid :: "'s int80 \<Rightarrow> u32 \<times> 's \<Rightarrow> u32 \<times> u32 \<times> 's" where
  "lib_setsid int80 = syscall0 int80 Sys_setsid"

definition lib_waitpid :: "'s int80 \<Rightarrow> u32 \<Rightarrow> u32 \<Rightarrow> u32 \<Rightarrow> u32 \<times> 's \<Rightarrow> u32 \<times> u32 \<times> 's" where
  "lib_waitpid int80 pid wait_stat options = syscall3 int80 Sys_waitpid pid wait_stat options"

definition lib_wait :: "'s int80 \<Rightarrow> u32 \<Rightarrow> u32 \<times> 's \<Rightarrow> u32 \<times> u32 \<times> 's" where
  "lib_wait int80 wait_stat = lib_waitpid int80 (- 1) wait_stat 0"

text \<open>
  Reading a status (\<open>sys/wait.h\<close>).  \<open>WIFEXITED\<close> is left out: its text lacks a closing parenthesis, so that no program
  can use it.
\<close>

definition WIFSTOPPED :: "u32 \<Rightarrow> bool" where "WIFSTOPPED s \<longleftrightarrow> s AND 0xFF = 0x7F"
definition WEXITSTATUS :: "u32 \<Rightarrow> u32" where "WEXITSTATUS s = signed_drop_bit 8 s AND 0xFF"
definition WTERMSIG :: "u32 \<Rightarrow> u32" where "WTERMSIG s = s AND 0x7F"
definition WSTOPSIG :: "u32 \<Rightarrow> u32" where "WSTOPSIG s = signed_drop_bit 8 s AND 0xFF"
definition WIFSIGNALED :: "u32 \<Rightarrow> bool" where "WIFSIGNALED s \<longleftrightarrow> (s - 1) AND 0xFFFF < 0xFF"

text \<open>\<open>_exit\<close> does not return; the value is the state it leaves.\<close>

definition lib_exit :: "'s int80 \<Rightarrow> u32 \<Rightarrow> u32 \<times> 's \<Rightarrow> u32 \<times> 's" where
  "lib_exit int80 exit_code es = (fst es, snd (int80 (NR Sys_exit) exit_code 0 0 (snd es)))"

subsection \<open>The first process (\<open>init\<close> in \<open>init/main.c\<close>)\<close>

text \<open>
  \<open>lit\<close> gives the addresses of the string constants, \<open>argv\<close>, \<open>envp\<close> and \<open>printbuf\<close> are those of the static
  arrays, and \<open>i_addr\<close> is that of the local variable that \<open>wait\<close> fills in.
\<close>

definition lib_printf :: "'a machine_state_scheme int80 \<Rightarrow> u32 \<Rightarrow> string \<Rightarrow> u32 list \<Rightarrow> u32 \<times> 'a machine_state_scheme \<Rightarrow>
    (u32 \<times> 'a machine_state_scheme) res" where
  "lib_printf int80 printbuf fmt args es =
     bindr (vsprintf (user (snd es)) (bytes_of fmt) args) (\<lambda>(i, _, out).
     Inr (snd (lib_write int80 1 printbuf i (fst es, put_fs_bytes out printbuf (snd es)))))"

definition O_RDWR :: u32 where "O_RDWR = 2"

text \<open>\<open>(void) open("/dev/tty0",O_RDWR,0); (void) dup(0); (void) dup(0);\<close>\<close>

definition open_console :: "'s int80 \<Rightarrow> u32 \<Rightarrow> u32 \<times> 's \<Rightarrow> u32 \<times> 's" where
  "open_console int80 tty0 es = snd (lib_dup int80 0 (snd (lib_dup int80 0 (snd (lib_open int80 tty0 O_RDWR 0 es)))))"

definition init_shell :: "'s int80 \<Rightarrow> (string \<Rightarrow> u32) \<Rightarrow> u32 \<Rightarrow> u32 \<Rightarrow> u32 \<times> 's \<Rightarrow> u32 \<times> 's" where
  "init_shell int80 lit argv envp es =
     (let es = snd (lib_close int80 2 (snd (lib_close int80 1 (snd (lib_close int80 0 es)))));
          es = snd (lib_setsid int80 es);
          es = open_console int80 (lit ''/dev/tty0'') es;
          (r, es) = lib_execve int80 (lit ''/bin/sh'') argv envp es
      in lib_exit int80 r es)"

definition lx_init :: "'a machine_state_scheme int80 \<Rightarrow> (string \<Rightarrow> u32) \<Rightarrow> u32 \<Rightarrow> u32 \<Rightarrow> u32 \<Rightarrow> u32 \<Rightarrow> u32 \<times> 'a machine_state_scheme \<Rightarrow>
    (u32 \<times> 'a machine_state_scheme) res" where
  "lx_init int80 lit argv envp printbuf i_addr es =
     (let (_, es) = syscall0 int80 Sys_setup es;
          (pid, es) = syscall0 int80 Sys_fork es in
      if pid = 0
      then let (r, es) = lib_execve int80 (lit ''/bin/update'') 0 0 es in Inr (lib_exit int80 r es)
      else
        let es = open_console int80 (lit ''/dev/tty0'') es; n = of_nat (length (buffers (snd es))) in
        bindr (lib_printf int80 printbuf (''%d buffers = %d bytes buffer space'' @ crlf) [n, n * of_nat BLOCK_SIZE] es) (\<lambda>es.
        bindr (lib_printf int80 printbuf ('' Ok.'' @ crlf) [] es) (\<lambda>es.
        let (i, es) = syscall0 int80 Sys_fork es in
        if i = 0 then Inr (init_shell int80 lit argv envp es)
        else
          bindr (if sint i < 0 then lib_printf int80 printbuf (''Fork failed in init'' @ rev crlf) [] es else Inr es) (\<lambda>es.
          let (j, es) = lib_wait int80 i_addr es in
          bindr (lib_printf int80 printbuf (''child %d died with code %04x'' @ lf_str) [j, get_fs_long i_addr (snd es)] es) (\<lambda>es.
          let (_, es) = syscall0 int80 Sys_sync es in
          Inr (lib_exit int80 0 es))))))"

subsection \<open>The two lists of system calls\<close>

text \<open>The number of a call in \<open>unistd.h\<close> is its place in the table of the kernel, so that a call runs its own routine.\<close>

lemma sys_call_table_NR: "sys_call_table ! NR c = c" "NR c < length sys_call_table"
  by (cases c, simp_all add: sys_call_table_def)+

lemma system_call_runs:
  "unat (tss_eax r) = NR c \<Longrightarrow> lx_system_call junk r s = sys_call c junk r s"
  "unat (tss_eax r) \<ge> 67 \<Longrightarrow> lx_system_call junk r s = Inr (Some (r\<lparr>tss_eax := - 1\<rparr>), s)"
  by (simp_all add: lx_system_call_def sys_call_table_NR ret_def) (simp add: sys_call_table_def ret_def)

end
