(* ===== verification/Linux_Typed_Kernel.thy ===== *)
theory Linux_Typed_Kernel
  imports Linux_Typed_Calls Linux_Screen Linux_Syscalls
begin

unbundle bit_operations_syntax

section \<open>The tables of the linux-0.01 kernel keep their shape: terminals and system calls\<close>

text \<open>
  The state of the whole kernel is well typed when the file system is, every queue of a terminal has its 1024
  bytes with head and tail inside, the console is on the screen, the descriptor tables have their 256 entries and a coprocessor state its 27 words.
  Calls that touch the file system only are carried over from there by \<open>typed_kernel\<close> and \<open>typed_machine\<close>:
  they change nothing that lies behind their part of the state.
\<close>

definition queue_typed :: "tty_queue \<Rightarrow> bool" where
  "queue_typed q \<longleftrightarrow> length (q_buf q) = 1024 \<and> q_head q < 1024 \<and> q_tail q < 1024"

definition tty_typed :: "tty_struct \<Rightarrow> bool" where
  "tty_typed y \<longleftrightarrow>
     queue_typed (read_q y) \<and> queue_typed (write_q y) \<and> queue_typed (secondary y) \<and>
     length (c_cc (tty_termios y)) = 17 \<and> length (c_pad (tty_termios y)) = 2"

definition kernel_typed :: "nat \<Rightarrow> 'a \<Rightarrow> 'a kernel_state_scheme \<Rightarrow> bool" where
  "kernel_typed N m s \<longleftrightarrow>
     fs_typed N (fs_state.more s) s \<and> length (tty_table s) = 3 \<and> (\<forall>y \<in> set (tty_table s). tty_typed y) \<and>
     con_ok (con s) \<and> kernel_state.more s = m"

definition machine_typed :: "nat \<Rightarrow> 'a machine_state_scheme \<Rightarrow> bool" where
  "machine_typed N s \<longleftrightarrow>
     kernel_typed N (kernel_state.more s) s \<and> length (idt s) = 256 \<and> length (gdt s) = 256 \<and>
     length (fpu s) = 27 \<and> (\<forall>p. length (i387 s p) = 27)"

subsection \<open>Carrying results over from a smaller state\<close>

lemma fs_more_eq:
  fixes s s' :: "'a fs_state_scheme"
  assumes "fs_state.more s' = fs_state.more s"
  shows "s' = s\<lparr>task := task s', tasks := tasks s', current := current s', jiffies := jiffies s',
    startup_time := startup_time s', init_task := init_task s', wait_queues := wait_queues s', last_pid := last_pid s',
    last_task_used_math := last_task_used_math s', mem_map := mem_map s', phys := phys s',
    buffers := buffers s', start_buffer := start_buffer s', hash_table := hash_table s', free_list := free_list s',
    inode_table := inode_table s', inode_table_addr := inode_table_addr s', last_allocated_inode := last_allocated_inode s',
    file_table := file_table s', super_blocks := super_blocks s', buffer_wait_addr := buffer_wait_addr s',
    wait_for_request_addr := wait_for_request_addr s', user := user s', hd_parts := hd_parts s', request := request s',
    this_request := this_request s', do_hd := do_hd s', sorting := sorting s', setup_callable := setup_callable s',
    dsk_sectors := dsk_sectors s', dsk_pos := dsk_pos s', dsk_buffer := dsk_buffer s', dsk_status := dsk_status s',
    dsk_drq := dsk_drq s', dsk_ready := dsk_ready s'\<rparr>"
  by (rule fs_state.equality) (simp_all add: assms)

lemma same_fs_more:
  fixes s s' :: "'a kernel_state_scheme"
  assumes "fs_state.more s' = fs_state.more s"
  shows "tty_table s' = tty_table s" "con s' = con s" "kernel_state.more s' = kernel_state.more s"
    "tty_table_addr s' = tty_table_addr s"
  by (subst fs_more_eq [OF assms], simp)+

lemma typed_kernel:
  assumes "kernel_typed N m s" "fs_typed N (fs_state.more s) s'"
  shows "kernel_typed N m s'"
proof -
  from fs_typedD(4) [OF assms(2)] have m: "fs_state.more s' = fs_state.more s" .
  then show ?thesis using assms unfolding kernel_typed_def same_fs_more [OF m] by simp
qed

lemma kernel_typedD:
  assumes "kernel_typed N m s"
  shows "fs_typed N (fs_state.more s) s" "length (tty_table s) = 3" "con_ok (con s)"
    "t < 3 \<Longrightarrow> tty_typed (tty s t)" "kernel_state.more s = m"
  using assms by (auto simp: kernel_typed_def)

text \<open>\<open>kret\<close> is the judgement for an operation that returns a value beside the state.\<close>

definition kret :: "nat \<Rightarrow> 'a \<Rightarrow> 'r \<times> 'a kernel_state_scheme \<Rightarrow> bool" where
  "kret N m x \<longleftrightarrow> kernel_typed N m (snd x)"

lemma kret_simps [simp]: "kret N m (r, s) = kernel_typed N m s"
  by (simp add: kret_def)

lemma kernel_lift:
  assumes "kernel_typed N m s"
  shows "(\<And>m. fs_typed N m s \<Longrightarrow> okr (fs_typed N m) r) \<Longrightarrow> okr (kernel_typed N m) r"
    "(\<And>m. fs_typed N m s \<Longrightarrow> okr (ok_any N m) q) \<Longrightarrow> okr (kret N m) q"
    "(\<And>m. fs_typed N m s \<Longrightarrow> ok_any N m x) \<Longrightarrow> kret N m x"
    "(\<And>m. fs_typed N m s \<Longrightarrow> fs_typed N m s') \<Longrightarrow> kernel_typed N m s'"
  by (blast intro: okr_mono kernel_typedD(1) [OF assms] typed_kernel [OF assms],
      rule okr_mono [of "ok_any N (fs_state.more s)"],
      use kernel_typedD(1) [OF assms] typed_kernel [OF assms] in \<open>auto simp: ok_with_def kret_def\<close>)

subsection \<open>Fields of the state\<close>

named_theorems ktyped \<open>kernel states that are well typed after an update\<close>

lemma ktyped_tasks [ktyped]:
  assumes "kernel_typed N m s"
  shows "(\<And>t. task_typed t \<Longrightarrow> task_typed (f t)) \<Longrightarrow> kernel_typed N m (upd_cur f s)"
    "(\<And>t. task_typed t \<Longrightarrow> task_typed (f t)) \<Longrightarrow> kernel_typed N m (upd_task p f s)"
    "kernel_typed N m (wake_up w s)" "kernel_typed N m (s\<lparr>last_task_used_math := q\<rparr>)" "kernel_typed N m (orphan_children s)"
    "kernel_typed N m (do_kill pid sg priv s)" "kernel_typed N m (set_alarm a s)"
  by (rule kernel_lift(4) [OF assms]; auto simp: set_alarm_def intro!: typed)+

lemma ktyped_memory [ktyped]:
  assumes "kernel_typed N m s"
  shows "kernel_typed N m (put_fs_byte c a s)" "kernel_typed N m (put_fs_bytes l a s)" "kernel_typed N m (put_fs_long v a s)"
    "kernel_typed N m (s\<lparr>user := u\<rparr>)"
  by (rule kernel_lift(4) [OF assms]; auto intro!: typed)+

lemma ktyped_files [ktyped]:
  assumes "kernel_typed N m s"
  shows "kernel_typed N m (clear_close_on_exec fd s)" "ptr_ok NR_FILE p \<Longrightarrow> kernel_typed N m (set_filp fd p s)"
    "(\<And>b. file_typed b \<Longrightarrow> file_typed (g b)) \<Longrightarrow> kernel_typed N m (upd_file fi g s)" "kernel_typed N m (drop_fd fd fi s)"
  by (rule kernel_lift(4) [OF assms]; auto simp: drop_fd_def intro!: typed)+

lemma ktyped_upd_tty [ktyped]:
  assumes "kernel_typed N m s" "\<And>y. tty_typed y \<Longrightarrow> tty_typed (f y)"
  shows "kernel_typed N m (upd_tty t f s)"
proof -
  have "fs_typed N (fs_state.more (upd_tty t f s)) (upd_tty t f s)"
    using assms(1) by (simp add: kernel_typed_def fs_typed_def mm_typed_def sched_typed_def upd_tty_def)
  then show ?thesis using assms all_list_update [of "tty_table s" tty_typed f t] by (simp add: kernel_typed_def upd_tty_def)
qed

lemma ktyped_screen [ktyped]:
  assumes "kernel_typed N m s"
  shows "con_ok k \<Longrightarrow> kernel_typed N m (s\<lparr>con := k\<rparr>)" "kernel_typed N m (s\<lparr>cr_flag := b\<rparr>)" "kernel_typed N m (s\<lparr>ports := po\<rparr>)"
  using assms by (simp_all add: kernel_typed_def fs_typed_def mm_typed_def sched_typed_def)

subsection \<open>Queues\<close>

lemma queue_index_less: "(w :: u32) AND 1023 < 1024"
  using word_and_le1 [of w 1023] by (simp add: word_le_nat_alt word_less_nat_alt)

lemma queue_typed_ops [simp]:
  assumes "queue_typed q"
  shows "queue_typed (PUTCH c q)" "queue_typed (snd (GETCH q))" "queue_typed (DEC_HEAD q)" "queue_typed (flush_queue q)"
    "queue_typed (q\<lparr>q_data := d\<rparr>)"
  using assms by (simp_all add: queue_typed_def PUTCH_def GETCH_def DEC_HEAD_def flush_queue_def queue_index_less)

lemma queue_typed_fold: "queue_typed q \<Longrightarrow> queue_typed (fold PUTCH cs q)"
  by (induction cs arbitrary: q) auto

lemma tty_typed_queues:
  "tty_typed y \<Longrightarrow> queue_typed (read_q y)" "tty_typed y \<Longrightarrow> queue_typed (write_q y)" "tty_typed y \<Longrightarrow> queue_typed (secondary y)"
  by (simp_all add: tty_typed_def)

lemma tty_typed_update [simp]:
  assumes "tty_typed y"
  shows "tty_typed (y\<lparr>read_q := q\<rparr>) = queue_typed q" "tty_typed (y\<lparr>write_q := q\<rparr>) = queue_typed q"
    "tty_typed (y\<lparr>secondary := q\<rparr>) = queue_typed q" "tty_typed (y\<lparr>tty_pgrp := v\<rparr>)" "tty_typed (y\<lparr>tty_stopped := w\<rparr>)"
  using assms by (simp_all add: tty_typed_def)

subsection \<open>Cooking and the console\<close>

lemma ktyped_fold: "(\<And>x s. kernel_typed N m s \<Longrightarrow> kernel_typed N m (f x s)) \<Longrightarrow> kernel_typed N m s \<Longrightarrow> kernel_typed N m (fold f xs s)"
  by (induction xs arbitrary: s) auto

lemma ktyped_tty_intr [ktyped]: "kernel_typed N m s \<Longrightarrow> kernel_typed N m (tty_intr t sg s)"
  by (auto simp: tty_intr_def intro!: ktyped_fold ktyped)

lemma ktyped_put_write [ktyped]: "kernel_typed N m s \<Longrightarrow> kernel_typed N m (put_write t c s)"
  by (auto simp: put_write_def tty_typed_queues intro!: ktyped)

lemma ktyped_rs_write [ktyped]: "kernel_typed N m s \<Longrightarrow> kernel_typed N m (rs_write t s)"
  by (auto simp: rs_write_def Let_def intro!: ktyped)

lemma ktyped_echo_char [ktyped]: "kernel_typed N m s \<Longrightarrow> kernel_typed N m (echo_char t c s)"
  by (auto simp: echo_char_def intro!: ktyped)

lemma cook_erase_keeps: "kernel_typed N m s \<Longrightarrow> kernel_typed N m (snd (snd (cook_erase t s)))"
  unfolding cook_erase_def Let_def by (simp add: ktyped)

lemma cook_store_keeps: "kernel_typed N m s \<Longrightarrow> kernel_typed N m (snd (snd (cook_store t c s)))"
  unfolding cook_store_def Let_def by (simp add: ktyped tty_typed_queues)

lemma cook_char_keeps: "kernel_typed N m s \<Longrightarrow> kernel_typed N m (snd (snd (cook_char t c s)))"
  unfolding cook_char_def Let_def by (simp add: ktyped cook_erase_keeps cook_store_keeps)

lemma ktyped_take [ktyped]:
  assumes s: "kernel_typed N m s" and t: "t < 3"
  shows "kernel_typed N m (upd_tty t (\<lambda>y. y\<lparr>read_q := snd (GETCH (read_q (tty s t)))\<rparr>) s)"
    "kernel_typed N m (upd_tty t (\<lambda>y. y\<lparr>write_q := snd (GETCH (write_q (tty s t)))\<rparr>) s)"
  using kernel_typedD(4) [OF s t] by (auto simp: tty_typed_queues intro!: ktyped s)

lemma cook_step_keeps:
  assumes "kernel_typed N m s" "t < 3"
  shows "okr (\<lambda>x. kernel_typed N m (snd (snd x))) (cook_step t s)"
proof -
  let ?s = "upd_tty t (\<lambda>y. y\<lparr>read_q := snd (GETCH (read_q (tty s t)))\<rparr>) s"
  have s: "kernel_typed N m ?s" by (rule ktyped_take [OF assms])
  then show ?thesis
    by (auto simp: cook_step_def split_beta Let_def ctype_index_def intro!: cook_char_keeps split: option.splits)
qed

lemma cook_finish_keeps [ktyped]: "kernel_typed N m s \<Longrightarrow> kernel_typed N m (cook_finish a t s)"
  by (auto simp: cook_finish_def tty_typed_queues intro!: ktyped split: cooked.splits)

lemma con_step_keeps:
  assumes "kernel_typed N m s" "t < 3"
  shows "kernel_typed N m (snd (con_step t s))"
proof -
  have s: "kernel_typed N m (upd_tty t (\<lambda>y. y\<lparr>write_q := snd (GETCH (write_q (tty s t)))\<rparr>) s)" by (rule ktyped_take [OF assms])
  then show ?thesis
    by (auto simp: con_step_def split_beta Let_def intro!: ktyped con_step_okD [OF con_char_step] dest: kernel_typedD(3))
qed

lemma respond_keeps [ktyped]: "kernel_typed N m s \<Longrightarrow> kernel_typed N m (respond t s)"
  by (auto simp: respond_def tty_typed_queues intro!: ktyped queue_typed_fold)

lemma bind_okr: "Option.bind x f = Some y \<Longrightarrow> (\<And>r. x = Some r \<Longrightarrow> f r = Some y \<Longrightarrow> okr Q y) \<Longrightarrow> okr Q y"
  by (cases x) auto

lemma tty_run_keeps:
  assumes "tty_run f t s = Some r" "t < 3" "kernel_typed N m s"
  shows "okr (kernel_typed N m) r"
proof -
  have "t < 3 \<longrightarrow> kernel_typed N m s \<longrightarrow> okr (kernel_typed N m) r"
  proof (rule tty_run.raw_induct [where P = "\<lambda>f t s r. t < 3 \<longrightarrow> kernel_typed N m s \<longrightarrow> okr (kernel_typed N m) r", OF _ assms(1)], goal_cases)
    case (1 run f t s r)
    note IH = 1(1) [rule_format]
    show ?case
    proof (intro impI)
      assume t: "t < 3" and s: "kernel_typed N m s"
      show "okr (kernel_typed N m) r"
      proof (cases f)
        case Cooked
        then show ?thesis using 1(2) s t
          by (auto split: if_splits elim!: bindo_okr [OF _ cook_step_keeps [OF s t]] bind_okr intro!: ktyped)
            (auto split: if_splits elim!: bindo_okr [where P = "kernel_typed N m"] dest!: IH intro!: ktyped)
      next
        case Tty_write
        then show ?thesis using 1(2) s t by (auto split: tty_driver.splits intro!: ktyped dest!: IH)
      next
        case (Con_loop n)
        then show ?thesis using 1(2) s t con_step_keeps [OF s t]
          by (auto split: nat.splits prod.splits if_splits elim!: bind_okr bindo_okr [where P = "kernel_typed N m"]
                intro!: ktyped con_step_okD [OF set_cursor_step] dest!: IH dest: kernel_typedD(3))
      qed
    qed
  qed
  then show ?thesis using assms(2,3) by blast
qed

subsection \<open>Reading and writing terminals\<close>

lemma tty_get_keeps:
  "kernel_typed N m s \<Longrightarrow> t < 3 \<Longrightarrow> kernel_typed N m (snd (snd (snd (tty_get t nr b s))))"
proof (induction nr arbitrary: b s)
  case (Suc nr)
  have "tty_typed (tty s t)" using Suc.prems by (rule kernel_typedD(4))
  then have "kernel_typed N m (upd_tty t (\<lambda>y. y\<lparr>secondary := snd (GETCH (secondary (tty s t)))\<rparr>) s)"
    "kernel_typed N m (upd_tty t (\<lambda>y. y\<lparr>secondary := (snd (GETCH (secondary (tty s t))))\<lparr>q_data := d\<rparr>\<rparr>) s)" for d
    using Suc.prems by (auto simp: tty_typed_queues intro!: ktyped)
  then show ?case using Suc.prems(2) by (simp add: split_beta Let_def ktyped Suc.IH)
qed simp

lemma tty_read_loop_keeps:
  assumes "tty_read_loop t dst time minimum oldalarm flag nr b s = Some r" "t < 3" "kernel_typed N m s"
  shows "okr (\<lambda>x. kernel_typed N m (snd (snd x))) r"
proof -
  have "t < 3 \<longrightarrow> kernel_typed N m s \<longrightarrow> okr (\<lambda>x. kernel_typed N m (snd (snd x))) r"
  proof (rule tty_read_loop.raw_induct [where P = "\<lambda>t dst time minimum oldalarm flag nr b s r.
        t < 3 \<longrightarrow> kernel_typed N m s \<longrightarrow> okr (\<lambda>x. kernel_typed N m (snd (snd x))) r", OF _ assms(1)], goal_cases)
    case (1 loop t dst time minimum oldalarm flag nr b s r)
    note IH = 1(1) [rule_format]
    show ?case
    proof (intro impI)
      assume t: "t < 3" and s: "kernel_typed N m s"
      obtain eof nr' b' s' where g: "tty_get t nr b s = (eof, nr', b', s')" by (metis prod_cases4)
      have s': "kernel_typed N m s'" using tty_get_keeps [OF s t, of nr b] g by simp
      then show "okr (\<lambda>x. kernel_typed N m (snd (snd x))) r"
        using 1(2) s t ktyped_tasks(7) [OF s'] unfolding g
        by (auto simp: Let_def split: if_splits prod.splits intro!: ktyped dest: IH)
    qed
  qed
  then show ?thesis using assms(2,3) by blast
qed

lemma tty_read_keeps: "kernel_typed N m s \<Longrightarrow> okr (kret N m) (tty_read channel dst nr s)"
proof -
  assume s: "kernel_typed N m s"
  have loop: "okr (\<lambda>x. kernel_typed N m (snd (snd x))) (loop_res (tty_read_loop t dst time minimum oldalarm flag k b s'))"
    if "kernel_typed N m s'" "t < 3" for t time minimum oldalarm flag k b s'
    using that by (auto intro!: okr_loop dest: tty_read_loop_keeps)
  have "channel \<le> 2 \<Longrightarrow> unat channel < 3" by (simp add: word_le_nat_alt)
  then show ?thesis using s unfolding tty_read_def
    by (auto simp: Let_def split: prod.splits intro!: okr_bind [OF loop] ktyped)
qed

lemma tty_put_keeps:
  assumes "tty_put t nr b s = Some r" "kernel_typed N m s"
  shows "okr (\<lambda>x. kernel_typed N m (snd (snd x))) r"
proof -
  have "kernel_typed N m s \<longrightarrow> okr (\<lambda>x. kernel_typed N m (snd (snd x))) r"
    by (rule tty_put.raw_induct [where P = "\<lambda>t nr b s r. kernel_typed N m s \<longrightarrow> okr (\<lambda>x. kernel_typed N m (snd (snd x))) r", OF _ assms(1)])
       (auto simp: Let_def ctype_index_def ktyped split: if_splits)
  then show ?thesis using assms(2) by blast
qed

lemma tty_write_loop_keeps:
  assumes "tty_write_loop t nr b s = Some r" "t < 3" "kernel_typed N m s"
  shows "okr (kret N m) r"
proof -
  have put: "okr (\<lambda>x. kernel_typed N m (snd (snd x))) (loop_res (tty_put t nr b s))" if "kernel_typed N m s"
    for t nr b and s :: "'a kernel_state_scheme" using that by (auto intro!: okr_loop dest: tty_put_keeps)
  have run: "okr (kernel_typed N m) (loop_res (tty_run f t s))" if "kernel_typed N m s" "t < 3"
    for f t and s :: "'a kernel_state_scheme" using that by (auto intro!: okr_loop dest: tty_run_keeps)
  have "t < 3 \<longrightarrow> kernel_typed N m s \<longrightarrow> okr (kret N m) r"
    by (rule tty_write_loop.raw_induct [where P = "\<lambda>t nr b s r. t < 3 \<longrightarrow> kernel_typed N m s \<longrightarrow> okr (kret N m) r", OF _ assms(1)])
       (auto simp: sleep_if_full_def split: if_splits elim!: bindo_okr [OF _ put] bindo_okr [OF _ run])
  then show ?thesis using assms(2,3) by blast
qed

lemma tty_write_keeps: "kernel_typed N m s \<Longrightarrow> okr (kret N m) (tty_write channel src nr s)"
proof -
  assume s: "kernel_typed N m s"
  have "channel \<le> 2 \<Longrightarrow> unat channel < 3" by (simp add: word_le_nat_alt)
  then have "okr (kret N m) (loop_res (tty_write_loop (unat channel) (unat nr) src s))" if "channel \<le> 2"
    using s that by (auto intro!: okr_loop dest: tty_write_loop_keeps)
  then show ?thesis using s by (auto simp: tty_write_def intro!: okr_bind [where P = "kret N m"])
qed

subsection \<open>Control of terminals, character devices\<close>

lemma verify_area_k: "kernel_typed N m s \<Longrightarrow> okr (kernel_typed N m) (verify_area a n s)"
  by (rule kernel_lift(1), assumption) (rule verify_area_keeps)

lemma length_get_fs_bytes [simp]: "length (get_fs_bytes n a s) = n"
  by (simp add: get_fs_bytes_def)

lemma get_termios_keeps: "kernel_typed N m s \<Longrightarrow> okr (kret N m) (get_termios t a s)"
  and get_termio_keeps: "kernel_typed N m s \<Longrightarrow> okr (kret N m) (get_termio t pd a s)"
  by (auto simp: get_termios_def get_termio_def Let_def intro!: okr_bind [OF verify_area_k] ktyped)

lemma set_termios_keeps: "kernel_typed N m s \<Longrightarrow> okr (kret N m) (set_termios t a s)"
  and set_termio_keeps: "kernel_typed N m s \<Longrightarrow> okr (kret N m) (set_termio t a s)"
  by (auto simp: set_termios_def set_termio_def termios_of_def tty_typed_def Let_def intro!: ktyped)

lemma ktyped_flush [ktyped]:
  "kernel_typed N m s \<Longrightarrow> kernel_typed N m (flush_read t s)" "kernel_typed N m s \<Longrightarrow> kernel_typed N m (flush_write t s)"
  by (auto simp: flush_read_def flush_write_def tty_typed_queues intro!: ktyped)

lemmas termios_keeps = get_termios_keeps get_termio_keeps set_termios_keeps set_termio_keeps

lemma tty_command_keeps: "kernel_typed N m s \<Longrightarrow> okr (kret N m) (tty_command t pd cmd arg s)"
  unfolding tty_command_def by (auto intro!: termios_keeps okr_bind [OF verify_area_k] ktyped)

lemma tty_ioctl_keeps: "kernel_typed N m s \<Longrightarrow> okr (kret N m) (tty_ioctl pd dev cmd arg s)"
  by (simp add: tty_ioctl_def with_tty_def tty_command_keeps)

lemma rw_char_keeps: "kernel_typed N m s \<Longrightarrow> okr (kret N m) (rw_char rw dev b cnt s)"
  by (simp add: rw_char_def rw_tty_def rw_ttyx_def tty_read_keeps tty_write_keeps)

subsection \<open>Calls that reach a terminal\<close>

lemmas kernel_io = kernel_lift(2) [OF _ read_pipe_keeps] kernel_lift(2) [OF _ write_pipe_keeps] kernel_lift(2) [OF _ block_read_keeps]
  kernel_lift(2) [OF _ block_write_keeps] kernel_lift(2) [OF _ file_read_keeps] kernel_lift(2) [OF _ file_write_keeps] rw_char_keeps

lemma vsprintf_bind: "(\<And>x. okr P (f x)) \<Longrightarrow> okr P (bindr (vsprintf mem fmt args) f)"
  by (cases "vsprintf mem fmt args") auto

lemma printk_keeps: "kernel_typed N m s \<Longrightarrow> okr (kernel_typed N m) (printk mem fmt args s)"
  unfolding printk_def by (auto intro!: vsprintf_bind okr_bind [OF tty_write_keeps] ktyped)

lemma sys_read_keeps: "kernel_typed N m s \<Longrightarrow> okr (kret N m) (sys_read fd dst cnt s)"
  unfolding sys_read_def Let_def
  by (auto intro!: okr_bind [OF verify_area_k] okr_deref kernel_io okr_bind [OF printk_keeps] split: option.splits)

lemma sys_write_keeps: "kernel_typed N m s \<Longrightarrow> okr (kret N m) (sys_write fd src cnt s)"
  unfolding sys_write_def Let_def by (auto intro!: okr_deref kernel_io okr_bind [OF printk_keeps] split: option.splits)

lemma sys_ioctl_keeps: "kernel_typed N m s \<Longrightarrow> okr (kret N m) (sys_ioctl pd fd cmd arg s)"
  unfolding sys_ioctl_def Let_def by (auto intro!: okr_deref tty_ioctl_keeps split: option.splits)

lemma task_typed_scalars [simp]:
  "task_typed t \<Longrightarrow> task_typed (t\<lparr>t_pwd := None\<rparr>)"
  "task_typed t \<Longrightarrow> task_typed (t\<lparr>t_root := None\<rparr>)" "task_typed (t\<lparr>t_exit_code := e\<rparr>) = task_typed t"
  by (simp_all add: task_typed_def)

lemma open_tty_keeps: "kernel_typed N m s \<Longrightarrow> okr (\<lambda>r. case r of None \<Rightarrow> True | Some s' \<Rightarrow> kernel_typed N m s') (open_tty ino s)"
proof -
  assume s: "kernel_typed N m s"
  have "sint v < 3" if "unat v < length (tty_table (upd_cur f s))" for v :: u32 and f
  proof -
    have "unat v < 3" using that s by (simp add: kernel_typed_def upd_task_def upd_cur_def)
    then show ?thesis by (rule tty_number(1))
  qed
  then show ?thesis using s unfolding open_tty_def Let_def with_tty_def by (auto intro!: ktyped)
qed

lemma open_namei_k:
  assumes "kernel_typed N m s"
  shows "okr (\<lambda>x. ptr_ok NR_INODE (snd (fst x)) \<and> kernel_typed N m (snd x)) (open_namei name flag mode s)"
  using open_namei_keeps [OF kernel_typedD(1) [OF assms]]
  by (rule okr_mono) (auto simp: ok_with_def intro: typed_kernel [OF assms])

lemma iput_k: "kernel_typed N m s \<Longrightarrow> ino < NR_INODE \<Longrightarrow> okr (kernel_typed N m) (iput ino s)"
  by (rule kernel_lift(1), assumption) (rule iput_keeps)

lemma sys_open_keeps: "kernel_typed N m s \<Longrightarrow> okr (kret N m) (sys_open name flag mode s)"
  unfolding sys_open_def Let_def
  by (auto intro!: okr_bind [OF open_namei_k] okr_bind [OF open_tty_keeps] okr_bind [OF iput_k] okr_deref ktyped
        simp: file_typed_def find_Some_iff split: option.splits)

lemma drop_tty_keeps: "kernel_typed N m s \<Longrightarrow> okr (kernel_typed N m) (drop_tty s)"
  by (auto simp: drop_tty_def with_tty_def intro!: ktyped)

lemma free_page_tables_k: "kernel_typed N m s \<Longrightarrow> okr (kernel_typed N m) (free_page_tables a n s)"
  by (rule kernel_lift(1), assumption) (rule free_page_tables_keeps)

lemma close_all_k: "kernel_typed N m s \<Longrightarrow> okr (kernel_typed N m) (close_all is s)"
  by (rule kernel_lift(1), assumption) (rule close_all_keeps)

lemma release_k: "kernel_typed N m s \<Longrightarrow> okr (kernel_typed N m) (release p s)"
  by (rule kernel_lift(1), assumption) (rule release_keeps)

lemma iput_ptr_k: "kernel_typed N m s \<Longrightarrow> okr (kernel_typed N m) (iput_ptr (t_pwd (cur s)) s)"
  "kernel_typed N m s \<Longrightarrow> okr (kernel_typed N m) (iput_ptr (t_root (cur s)) s)"
  by (rule kernel_lift(1), assumption, rule iput_ptr_keeps, assumption, rule fs_typed_ptr, assumption)+

lemma do_exit_keeps: "kernel_typed N m s \<Longrightarrow> okr (kernel_typed N m) (do_exit code s)"
  unfolding do_exit_def Let_def
  by (auto intro!: okr_bind [OF free_page_tables_k] okr_bind [OF close_all_k] okr_bind [OF drop_tty_keeps] okr_bind [OF iput_ptr_k(1)]
        okr_bind [OF iput_ptr_k(2)] release_k ktyped)

subsection \<open>The machine\<close>

lemma kernel_more_eq:
  fixes s s' :: "'a kernel_state_scheme"
  assumes "kernel_state.more s' = kernel_state.more s"
  shows "s' = s\<lparr>task := task s', tasks := tasks s', current := current s', jiffies := jiffies s',
    startup_time := startup_time s', init_task := init_task s', wait_queues := wait_queues s', last_pid := last_pid s',
    last_task_used_math := last_task_used_math s', mem_map := mem_map s', phys := phys s',
    buffers := buffers s', start_buffer := start_buffer s', hash_table := hash_table s', free_list := free_list s',
    inode_table := inode_table s', inode_table_addr := inode_table_addr s', last_allocated_inode := last_allocated_inode s',
    file_table := file_table s', super_blocks := super_blocks s', buffer_wait_addr := buffer_wait_addr s',
    wait_for_request_addr := wait_for_request_addr s', user := user s', hd_parts := hd_parts s', request := request s',
    this_request := this_request s', do_hd := do_hd s', sorting := sorting s', setup_callable := setup_callable s',
    dsk_sectors := dsk_sectors s', dsk_pos := dsk_pos s', dsk_buffer := dsk_buffer s', dsk_status := dsk_status s',
    dsk_drq := dsk_drq s', dsk_ready := dsk_ready s', tty_table := tty_table s', tty_table_addr := tty_table_addr s',
    con := con s', cr_flag := cr_flag s', ports := ports s'\<rparr>"
  by (rule kernel_state.equality) (simp_all add: assms)

lemma same_kernel_more:
  fixes s s' :: "'a machine_state_scheme"
  assumes "kernel_state.more s' = kernel_state.more s"
  shows "idt s' = idt s" "gdt s' = gdt s" "fpu s' = fpu s" "i387 s' = i387 s"
  by (subst kernel_more_eq [OF assms], simp)+

lemma typed_machine:
  assumes "machine_typed N s" "kernel_typed N (kernel_state.more s) s'"
  shows "machine_typed N s'"
proof -
  from kernel_typedD(5) [OF assms(2)] have m: "kernel_state.more s' = kernel_state.more s" .
  then show ?thesis using assms unfolding machine_typed_def same_kernel_more [OF m] by simp
qed

definition mret :: "nat \<Rightarrow> 'r \<times> 'a machine_state_scheme \<Rightarrow> bool" where
  "mret N x \<longleftrightarrow> machine_typed N (snd x)"

lemma mret_simps [simp]: "mret N (r, s) = machine_typed N s"
  by (simp add: mret_def)

lemma machine_typedD: "machine_typed N s \<Longrightarrow> kernel_typed N (kernel_state.more s) s"
  by (simp add: machine_typed_def)

lemma machine_lift:
  assumes "machine_typed N s"
  shows "(\<And>m. kernel_typed N m s \<Longrightarrow> okr (kret N m) q) \<Longrightarrow> okr (mret N) q"
    "(\<And>m. kernel_typed N m s \<Longrightarrow> okr (kernel_typed N m) r) \<Longrightarrow> okr (machine_typed N) r"
    "(\<And>m. kernel_typed N m s \<Longrightarrow> kret N m x) \<Longrightarrow> mret N x"
  by (rule okr_mono [of "kret N (kernel_state.more s)"], simp add: machine_typedD [OF assms],
      simp add: kret_def mret_def typed_machine [OF assms],
      rule okr_mono [of "kernel_typed N (kernel_state.more s)"], simp add: machine_typedD [OF assms],
      simp add: typed_machine [OF assms],
      use machine_typedD [OF assms] typed_machine [OF assms] in \<open>auto simp: kret_def mret_def\<close>)

text \<open>From the file system at once.\<close>

lemma machine_lift_fs:
  assumes "machine_typed N s"
  shows "(\<And>m. fs_typed N m s \<Longrightarrow> okr (ok_any N m) q) \<Longrightarrow> okr (mret N) q"
    "(\<And>m. fs_typed N m s \<Longrightarrow> ok_any N m x) \<Longrightarrow> mret N x"
  by (rule machine_lift(1) [OF assms], rule kernel_lift(2), assumption, simp)
     (rule machine_lift(3) [OF assms], rule kernel_lift(3), assumption, simp)

subsection \<open>Fork\<close>

lemmas machine_unfold = machine_typed_def kernel_typed_def fs_typed_def mm_typed_def sched_typed_def

lemma machine_typed_fields:
  assumes "machine_typed N s"
  shows "length l = 27 \<Longrightarrow> machine_typed N (s\<lparr>fpu := l\<rparr>)" "(\<And>p. length (f p) = 27) \<Longrightarrow> machine_typed N (s\<lparr>i387 := f\<rparr>)"
    "length g = 256 \<Longrightarrow> machine_typed N (s\<lparr>gdt := g\<rparr>)"
  using assms by (simp_all add: machine_unfold)

lemma machine_typed_fpu: "machine_typed N s \<Longrightarrow> length (fpu s) = 27" "machine_typed N s \<Longrightarrow> length (i387 s p) = 27"
  by (simp_all add: machine_typed_def)

lemma fork_math_keeps: "machine_typed N s \<Longrightarrow> machine_typed N (fork_math p s)"
  unfolding fork_math_def fnsave_def fninit_def Let_def by (auto intro!: machine_typed_fields simp: machine_typed_fpu)

lemma set_descs_keeps: "machine_typed N s \<Longrightarrow> machine_typed N (set_descs nr p s)"
  unfolding set_descs_def set_ldt_desc_def set_tss_desc_def by (intro machine_typed_fields) (simp_all add: machine_typed_def)

lemma copy_process_m: "machine_typed N s \<Longrightarrow> okr (mret N) (copy_process nr regs s)"
  by (rule machine_lift_fs(1), assumption) (rule copy_process_keeps)

lemma fork_process_keeps: "machine_typed N s \<Longrightarrow> okr (mret N) (fork_process nr regs s)"
  unfolding fork_process_def Let_def
  by (rule okr_bind [OF copy_process_m]) (auto intro: fork_math_keeps set_descs_keeps)

lemma sys_fork_keeps: "machine_typed N s \<Longrightarrow> okr (mret N) (sys_fork regs s)"
  unfolding sys_fork_def
  by (rule okr_bind [where P = "mret N"], rule machine_lift_fs(1), assumption, rule find_empty_process_keeps)
     (auto intro: fork_process_keeps)

subsection \<open>Every system call\<close>

lemma sys_exit_keeps: "kernel_typed N m s \<Longrightarrow> okr (kernel_typed N m) (sys_exit code s)"
  by (simp add: sys_exit_def do_exit_keeps)

lemma sys_creat_keeps: "kernel_typed N m s \<Longrightarrow> okr (kret N m) (sys_creat name mode s)"
  by (simp add: sys_creat_def sys_open_keeps)

lemma sys_pause_keeps: "fs_typed N m s \<Longrightarrow> okr (fs_typed N m) (of_option e (sys_pause s))"
  by (auto intro!: okr_of_option dest: typed_sys_pause)

lemma ret_bind: "okr (mret N) r \<Longrightarrow> okr (mret N) (bindr r (ret regs))"
  by (erule okr_bind) (simp add: ret_def mret_def)

lemma execve_bind: "okr (mret N) r \<Longrightarrow> okr (mret N) (bindr r (execve_regs regs))"
  by (erule okr_bind) (auto simp: execve_regs_def)

lemma end_bind: "okr (machine_typed N) r \<Longrightarrow> okr (mret N) (bindr r (\<lambda>s. Inr (None, s)))"
  by (erule okr_bind) simp

lemma ret_value: "mret N x \<Longrightarrow> okr (mret N) (ret regs x)"
  by (simp add: ret_def mret_def)

text \<open>The calls that work on the file system and below, those that reach a terminal, and the rest.\<close>

lemma fs_calls_keep:
  assumes "machine_typed N s"
  shows "okr (mret N) (sys_setup s)" "okr (mret N) (sys_close a s)" "okr (mret N) (sys_waitpid a b c s)" "okr (mret N) (sys_link a b s)"
    "okr (mret N) (sys_unlink a s)" "okr (mret N) (do_execve l a b c s)" "okr (mret N) (sys_chdir a s)" "okr (mret N) (sys_time a s)"
    "okr (mret N) (sys_chmod a b s)" "okr (mret N) (sys_chown a b c s)" "okr (mret N) (sys_stat l' a b s)" "okr (mret N) (sys_fstat l' a b s)"
    "okr (mret N) (sys_utime a b s)" "okr (mret N) (sys_access a b s)" "okr (mret N) (sys_sync s)" "okr (mret N) (sys_mkdir a b s)"
    "okr (mret N) (sys_rmdir a s)" "okr (mret N) (sys_pipe a s)" "okr (mret N) (sys_times a s)" "okr (mret N) (sys_uname a s)"
    "okr (mret N) (sys_chroot a s)" "okr (mret N) (sys_dup2 a b s)"
  by (rule machine_lift_fs(1) [OF assms], rule sys_setup_keeps sys_close_keeps sys_waitpid_keeps sys_link_keeps sys_unlink_keeps
       do_execve_keeps sys_chdir_keeps time_calls_keep sys_chmod_keeps sys_chown_keeps sys_stat_keeps sys_fstat_keeps sys_utime_keeps
       sys_access_keeps sys_sync_keeps sys_mkdir_keeps sys_rmdir_keeps sys_pipe_keeps sys_chroot_keeps sys_dup2_keeps, assumption)+

lemma value_calls_keep:
  assumes "machine_typed N s"
  shows "mret N (sys_lseek a b c s)" "mret N (sys_setuid a s)" "mret N (sys_stime a s)" "mret N (sys_alarm a s)" "mret N (sys_nice a s)"
    "mret N (sys_kill a b s)" "mret N (sys_dup a s)" "mret N (sys_brk a s)" "mret N (sys_setgid a s)" "mret N (sys_signal a b c s)"
    "mret N (sys_fcntl a b c s)" "mret N (sys_setpgid a b s)" "mret N (sys_umask a s)" "mret N (sys_setsid s)"
  by (rule machine_lift_fs(2) [OF assms], rule sys_lseek_keeps sched_calls_keep time_calls_keep sys_dup_keeps sys_fcntl_keeps, assumption)+

lemma tty_calls_keep:
  assumes "machine_typed N s"
  shows "okr (mret N) (sys_read a b c s)" "okr (mret N) (sys_write a b c s)" "okr (mret N) (sys_open a b c s)"
    "okr (mret N) (sys_creat a b s)" "okr (mret N) (sys_ioctl d a b c s)"
  by (rule machine_lift(1) [OF assms], rule sys_read_keeps sys_write_keeps sys_open_keeps sys_creat_keeps sys_ioctl_keeps, assumption)+

lemma ending_calls_keep:
  assumes "machine_typed N s"
  shows "okr (machine_typed N) (sys_exit a s)" "okr (machine_typed N) (of_option e (sys_pause s))"
  by (rule machine_lift(2) [OF assms], rule sys_exit_keeps, assumption)
     (rule machine_lift(2) [OF assms], rule kernel_lift(1), assumption, rule sys_pause_keeps)

lemma sys_call_keeps: "machine_typed N s \<Longrightarrow> okr (mret N) (sys_call c junk regs s)"
  by (cases c) (simp_all only: sys_call.simps ret_bind execve_bind end_bind ret_value mret_simps fs_calls_keep value_calls_keep
      tty_calls_keep ending_calls_keep sys_fork_keeps)

end
