(* ===== verification/Linux_Reachable.thy ===== *)
theory Linux_Reachable
  imports Linux_Typed_Kernel Linux_Machine_Sample Transition
begin

unbundle bit_operations_syntax

section \<open>Everything the linux-0.01 kernel does after it was started keeps its tables well typed\<close>

text \<open>
  \<open>machine_step\<close> is what can happen to a running kernel: a system call of the current process, a tick of the
  clock, a task switch, an interrupt of the disk, a character from a keyboard or a line, a fault of the running
  program or its first use of the coprocessor.  Only what the kernel completes is a step: a call that panics, that sleeps
  (and whose process goes on later) or that leaves an array is none.  Starting the kernel leads to a well-typed
  state, and every step keeps it so.
\<close>

subsection \<open>Faults\<close>

lemma print_stack_keeps: "kernel_typed N m s \<Longrightarrow> okr (kernel_typed N m) (print_stack is sp s)"
  by (induction "is" arbitrary: s) (auto intro!: okr_bind [OF printk_keeps])

lemma print_code_keeps: "kernel_typed N m s \<Longrightarrow> okr (kernel_typed N m) (print_code is seg ip s)"
  by (induction "is" arbitrary: s) (auto intro!: okr_bind [OF printk_keeps])

lemma die_keeps: "kernel_typed N m s \<Longrightarrow> okr (kernel_typed N m) (die str esp nr s)"
  unfolding die_def
  by (auto intro!: okr_bind [OF printk_keeps] okr_bind [OF print_stack_keeps] okr_bind [OF print_code_keeps] do_exit_keeps
        printk_keeps simp: bindr_assoc)

lemma do_int3_keeps: "kernel_typed N m s \<Longrightarrow> okr (kernel_typed N m) (do_int3 esp regs s)"
  unfolding do_int3_def by (auto intro!: okr_bind [OF printk_keeps] printk_keeps)

text \<open>A page fault that cannot be served ends the process, as \<open>do_no_page\<close> and \<open>un_wp_page\<close> do themselves.\<close>

definition fault_served :: "(u32 option \<times> 'a kernel_state_scheme) res \<Rightarrow> 'a kernel_state_scheme res" where
  "fault_served r = bindr r (\<lambda>(e, s). case e of None \<Rightarrow> Inr s | Some sg \<Rightarrow> do_exit sg s)"

lemma fault_served_keeps: "okr (kret N m) r \<Longrightarrow> okr (kernel_typed N m) (fault_served r)"
  unfolding fault_served_def by (erule okr_bind) (auto intro!: do_exit_keeps split: option.splits)

lemma do_no_page_keeps: "fs_typed N m s \<Longrightarrow> okr (ok_any N m) (do_no_page code a s)"
  unfolding do_no_page_def by (auto split: prod.splits intro!: okr_binds dest: get_free_page_keeps)

lemma do_wp_page_keeps: "fs_typed N m s \<Longrightarrow> okr (ok_any N m) (do_wp_page code a s)"
  unfolding do_wp_page_def by (rule mm_lift_ret [OF _ un_wp_page_step [OF mm_step_refl]])

lemma no_page_k: "kernel_typed N m s \<Longrightarrow> okr (kernel_typed N m) (fault_served (do_no_page code a s))"
  by (rule fault_served_keeps, rule kernel_lift(2), assumption) (rule do_no_page_keeps)

lemma wp_page_k: "kernel_typed N m s \<Longrightarrow> okr (kernel_typed N m) (fault_served (do_wp_page code a s))"
  by (rule fault_served_keeps, rule kernel_lift(2), assumption) (rule do_wp_page_keeps)

subsection \<open>Interrupts\<close>

text \<open>The clock's interrupt counts the tick before it calls \<open>do_timer\<close>.\<close>

definition clock_tick :: "u32 \<Rightarrow> 'a sched_state_scheme \<Rightarrow> 'a sched_state_scheme option" where
  "clock_tick cpl s = do_timer cpl (s\<lparr>jiffies := jiffies s + 1\<rparr>)"

lemma clock_tick_keeps: "fs_typed N m s \<Longrightarrow> clock_tick cpl s = Some s' \<Longrightarrow> fs_typed N m s'"
proof -
  assume s: "fs_typed N m s"
  have "fs_typed N m (s\<lparr>jiffies := j\<rparr>)" for j using s by (simp add: fs_typed_def mm_typed_def sched_typed_def)
  moreover have "task_typed (t\<lparr>t_utime := v\<rparr>) = task_typed t" "task_typed (t\<lparr>t_stime := v\<rparr>) = task_typed t" for t v
    by (simp_all add: task_typed_def)
  ultimately show "clock_tick cpl s = Some s' \<Longrightarrow> fs_typed N m s'"
    unfolding clock_tick_def do_timer_def Let_def by (auto split: if_splits intro!: typed elim!: typed_schedule [rotated])
qed

text \<open>A character that has come in from terminal \<open>t\<close>.\<close>

definition input_char :: "nat \<Rightarrow> u8 \<Rightarrow> 'a kernel_state_scheme \<Rightarrow> 'a kernel_state_scheme res" where
  "input_char t c s = do_tty_interrupt t (upd_tty t (\<lambda>y. y\<lparr>read_q := PUTCH c (read_q y)\<rparr>) s)"

lemma input_char_keeps: "kernel_typed N m s \<Longrightarrow> t < 3 \<Longrightarrow> okr (kernel_typed N m) (input_char t c s)"
  unfolding input_char_def do_tty_interrupt_def copy_to_cooked_def
  by (rule okr_loop, erule tty_run_keeps) (auto intro!: ktyped simp: tty_typed_queues)

lemma machine_typed_kernel:
  assumes "machine_typed N s"
  shows "machine_typed N (s\<lparr>last_task_used_math := q\<rparr>)" "(\<And>t. task_typed t \<Longrightarrow> task_typed (f t)) \<Longrightarrow> machine_typed N (upd_cur f s)"
  by (rule typed_machine [OF assms], rule ktyped_tasks(4), rule machine_typedD [OF assms])
     (rule typed_machine [OF assms], rule ktyped_tasks(1), rule machine_typedD [OF assms])

lemma math_trap_keeps: "machine_typed N s \<Longrightarrow> machine_typed N (math_trap s)"
  unfolding math_trap_def math_state_restore_def fnsave_def fninit_def Let_def
  by (auto intro!: machine_typed_kernel machine_typed_fields simp: machine_typed_fpu task_typed_def)

subsection \<open>Steps\<close>

inductive machine_step :: "'a machine_state_scheme \<Rightarrow> 'a machine_state_scheme \<Rightarrow> bool" where
  step_call: "lx_system_call junk regs s = Inr (r, s') \<Longrightarrow> machine_step s s'"
| step_tick: "clock_tick cpl s = Some s' \<Longrightarrow> machine_step s s'"
| step_schedule: "schedule s = Some s' \<Longrightarrow> machine_step s s'"
| step_disk: "Linux_Hd.hd_interrupt s = Inr s' \<Longrightarrow> machine_step s s'"
| step_input: "t < 3 \<Longrightarrow> input_char t c s = Inr s' \<Longrightarrow> machine_step s s'"
| step_no_page: "fault_served (do_no_page code a s) = Inr s' \<Longrightarrow> machine_step s s'"
| step_wp_page: "fault_served (do_wp_page code a s) = Inr s' \<Longrightarrow> machine_step s s'"
| step_math: "machine_step s (math_trap s)"
| step_int3: "do_int3 esp regs s = Inr s' \<Longrightarrow> machine_step s s'"
| step_fault: "die str esp nr s = Inr s' \<Longrightarrow> machine_step s s'"

inductive_cases machine_stepE: "machine_step s s'"

lemma okr_Inr: "okr P r \<Longrightarrow> r = Inr x \<Longrightarrow> P x"
  by simp

lemma kernel_step_keeps:
  assumes "machine_typed N s" "\<And>m. kernel_typed N m s \<Longrightarrow> okr (kernel_typed N m) r" "r = Inr s'"
  shows "machine_typed N s'"
  using okr_Inr [OF machine_lift(2) [OF assms(1,2)] assms(3)] .

lemma fs_step_keeps:
  assumes "machine_typed N s" "\<And>m. fs_typed N m s \<Longrightarrow> fs_typed N m s'"
  shows "machine_typed N s'"
  by (rule typed_machine [OF assms(1)], rule typed_kernel [OF machine_typedD [OF assms(1)]], rule assms(2),
      rule kernel_typedD(1) [OF machine_typedD [OF assms(1)]])

lemma system_call_keeps: "machine_typed N s \<Longrightarrow> okr (mret N) (lx_system_call junk regs s)"
  by (simp add: lx_system_call_def sys_call_keeps ret_value)

lemma machine_step_keeps: "machine_step s s' \<Longrightarrow> machine_typed N s \<Longrightarrow> machine_typed N s'"
proof (induction rule: machine_step.induct)
  case (step_call junk regs s r s')
  then show ?case using okr_Inr [OF system_call_keeps] by fastforce
next
  case (step_tick cpl s s')
  then show ?case by (auto intro: fs_step_keeps clock_tick_keeps)
next
  case (step_schedule s s')
  then show ?case by (auto intro: fs_step_keeps typed_schedule)
next
  case (step_disk s s')
  then show ?case by (auto intro: fs_step_keeps okr_Inr [OF hd_interrupt_keeps])
qed (auto intro: math_trap_keeps elim!: kernel_step_keeps [rotated 2] intro!: input_char_keeps no_page_k wp_page_k do_int3_keeps die_keeps)

interpretation typed_steps: invariant machine_step "machine_typed N"
  by unfold_locales (rule machine_step_keeps)

subsection \<open>Starting the kernel\<close>

text \<open>
  Before \<open>buffer_init\<close> there are no buffers.  \<open>rest_typed\<close> is what \<open>machine_typed\<close> says of everything else; the
  static tables have it with \<open>N = 1\<close>, as no pointer in them leads to a buffer other than number 0.
\<close>

definition rest_typed :: "nat \<Rightarrow> 'a machine_state_scheme \<Rightarrow> bool" where
  "rest_typed N s \<longleftrightarrow>
     mm_typed s \<and>
     length (inode_table s) = NR_INODE \<and> (\<forall>i \<in> set (inode_table s). inode_typed i) \<and> last_allocated_inode s < NR_INODE \<and>
     length (file_table s) = NR_FILE \<and> (\<forall>f \<in> set (file_table s). file_typed f) \<and>
     length (super_blocks s) = NR_SUPER \<and> (\<forall>b \<in> set (super_blocks s). super_typed N b) \<and>
     length (request s) = NR_REQUEST \<and> (\<forall>r \<in> set (request s). req_typed N r) \<and> ptr_ok NR_REQUEST (this_request s) \<and>
     length (hd_parts s) = 10 \<and> (\<forall>d n. length (dsk_sectors s d n) = 512) \<and>
     (do_hd s = Some Write_intr \<longrightarrow> length (dsk_buffer s) = 512) \<and>
     length (tty_table s) = 3 \<and> (\<forall>y \<in> set (tty_table s). tty_typed y) \<and> con_ok (con s) \<and>
     length (idt s) = 256 \<and> length (gdt s) = 256 \<and> length (fpu s) = 27 \<and> (\<forall>p. length (i387 s p) = 27)"

lemma machine_typed_iff:
  "machine_typed N s \<longleftrightarrow>
     rest_typed N s \<and> 0 < N \<and> length (buffers s) = N \<and> (\<forall>b \<in> set (buffers s). buf_typed N b) \<and>
     length (hash_table s) = NR_HASH \<and> (\<forall>p \<in> set (hash_table s). ptr_ok N p) \<and> ptr_ok N (free_list s)"
  by (auto simp: machine_typed_def kernel_typed_def fs_typed_def rest_typed_def)

lemma ptr_ok_mono: "ptr_ok a p \<Longrightarrow> a \<le> b \<Longrightarrow> ptr_ok b p"
  by (auto simp: ptr_ok_def split: option.splits)

lemma rest_typed_mono: "rest_typed 1 s \<Longrightarrow> 0 < N \<Longrightarrow> rest_typed N s"
  by (auto simp: rest_typed_def super_typed_def req_typed_def intro: ptr_ok_mono [of 1])

named_theorems rest \<open>steps of the start that keep the static tables\<close>

lemma rest_fields:
  assumes "rest_typed N s"
  shows "rest_typed N (s\<lparr>startup_time := t\<rparr>)" "con_ok k \<Longrightarrow> rest_typed N (s\<lparr>con := k\<rparr>)"
    "length l = 256 \<Longrightarrow> rest_typed N (s\<lparr>idt := l\<rparr>)" "length g = 256 \<Longrightarrow> rest_typed N (s\<lparr>gdt := g\<rparr>)"
    "length ts = NR_TASKS \<Longrightarrow> rest_typed N (s\<lparr>task := ts\<rparr>)" "rest_typed N (s\<lparr>ports := po, outs := os\<rparr>)"
  using assms by (simp_all add: rest_typed_def mm_typed_def sched_typed_def)

lemma rest_fields2 [rest]:
  assumes "rest_typed N s"
  shows "rest_typed N (ltr n s)" "rest_typed N (lldt n s)" "rest_typed N (sti s)" "rest_typed N (move_to_user_mode s)"
    "rest_typed N (s\<lparr>startup_time := t\<rparr>)"
  using assms by (simp_all add: rest_typed_def mm_typed_def sched_typed_def ltr_def lldt_def sti_def move_to_user_mode_def)

lemma rest_typedD:
  assumes "rest_typed N s"
  shows "length (idt s) = 256" "length (gdt s) = 256" "length (task s) = NR_TASKS" "con_ok (con s)"
  using assms by (simp_all add: rest_typed_def mm_typed_def sched_typed_def)

lemma rest_ops [rest]:
  assumes "rest_typed N s"
  shows "rest_typed N (lx_outb v p s)" "rest_typed N (outb_p v p s)" "rest_typed N (set_intr_gate n a s)" "rest_typed N (set_trap_gate n a s)"
    "rest_typed N (set_system_gate n a s)" "rest_typed N (set_tss_desc n a s)" "rest_typed N (set_ldt_desc n a s)"
  unfolding outb_p_def lx_outb_def set_intr_gate_def set_trap_gate_def set_system_gate_def set_tss_desc_def set_ldt_desc_def
  by (rule rest_fields [OF assms]; simp add: rest_typedD [OF assms])+

lemma clear_slots_rest [rest]: "rest_typed N s \<Longrightarrow> rest_typed N (clear_slots is p s)"
proof (induction "is" arbitrary: p s)
  case (Cons i "is")
  have "rest_typed N (s\<lparr>task := (task s)[i := 0], gdt := (gdt s)[p := (0, 0), p + 1 := (0, 0)]\<rparr>)"
    using Cons.prems by (simp add: rest_typed_def mm_typed_def sched_typed_def)
  then show ?case by (simp add: Cons.IH)
qed simp

lemma init_rest [rest]:
  assumes "rest_typed N s"
  shows "rest_typed N (tty_init adr s)" "rest_typed N (trap_init adr s)" "rest_typed N (sched_init adr s)"
proof -
  have con: "rest_typed N (s\<lparr>con := con_init x y (con s)\<rparr>)" if "rest_typed N s" for s :: "'a machine_state_scheme" and x y
    using that by (auto simp: con_init_def intro!: rest_fields con_step_okD [OF gotoxy_step] dest: rest_typedD)
  have "rest_typed N (rs_init adr s)" unfolding rs_init_def serial_init_def Let_def by (intro rest assms)
  then show "rest_typed N (tty_init adr s)" unfolding tty_init_def con_setup_def Let_def by (intro rest con)
  have gates: "rest_typed N (fold (\<lambda>i. set_trap_gate i a) is s)" if "rest_typed N s" for s :: "'a machine_state_scheme" and a "is"
    using that by (induction "is" arbitrary: s) (auto intro: rest)
  show "rest_typed N (trap_init adr s)" unfolding trap_init_def Let_def by (intro gates rest assms)
  show "rest_typed N (sched_init adr s)" unfolding sched_init_def Let_def by (intro rest assms)
qed

lemma buffer_init_typed:
  assumes "rest_typed 1 s" "\<And>i. length (b_data (raw i)) = BLOCK_SIZE" "block_addrs (unat (start_buffer s)) 0x200000 \<noteq> []"
  shows "machine_typed (length (buffers (buffer_init raw s))) (buffer_init raw s)"
proof -
  define n where "n = length (block_addrs (unat (start_buffer s)) 0x200000)"
  then have n: "0 < n" using assms(3) by simp
  have "rest_typed n (s\<lparr>buffers := b, free_list := f, hash_table := h\<rparr>)" for b f h
    using rest_typed_mono [OF assms(1) n] by (simp add: rest_typed_def mm_typed_def sched_typed_def)
  moreover have "buffer_init raw s = s\<lparr>buffers := map (\<lambda>i. init_head n i (raw i)) [0..<n], free_list := Some 0,
      hash_table := replicate NR_HASH None\<rparr>" unfolding buffer_init_def n_def [symmetric] Let_def by (rule refl)
  ultimately show ?thesis using n assms(2)
    by (auto simp: machine_typed_iff init_head_def buf_typed_def)
qed

lemma hd_init_typed:
  assumes "machine_typed N s"
  shows "machine_typed N (hd_init s)"
proof -
  have "[0..<2] = [0, 1 :: nat]" by code_simp
  then show ?thesis using assms
    by (auto simp: machine_typed_iff hd_init_def rest_typed_def mm_typed_def sched_typed_def req_typed_def Let_def)
qed

text \<open>What follows \<open>hd_init\<close> leaves the buffers alone.\<close>

definition same_buffers :: "'a fs_state_scheme \<Rightarrow> 'a fs_state_scheme \<Rightarrow> bool" where
  "same_buffers s s' \<longleftrightarrow> buffers s' = buffers s \<and> hash_table s' = hash_table s \<and> free_list s' = free_list s"

lemma start_tail_typed:
  assumes "machine_typed N s"
  shows "machine_typed N (move_to_user_mode (sti (hd_setup adr s)))"
proof -
  let ?s = "move_to_user_mode (sti (hd_setup adr s))"
  have "rest_typed N ?s"
    using hd_init_typed [OF assms] unfolding hd_setup_def Let_def by (intro rest) (simp add: machine_typed_iff)
  moreover have "same_buffers s ?s"
    by (simp add: same_buffers_def move_to_user_mode_def sti_def hd_setup_def outb_p_def lx_outb_def set_trap_gate_def hd_init_def Let_def)
  ultimately show ?thesis using assms by (simp add: machine_typed_iff same_buffers_def)
qed

lemma start_buffer_ops [simp]:
  "start_buffer (lx_outb v p s) = start_buffer s" "start_buffer (outb_p v p s) = start_buffer s"
  "start_buffer (set_intr_gate n a s) = start_buffer s" "start_buffer (set_trap_gate n a s) = start_buffer s"
  "start_buffer (set_system_gate n a s) = start_buffer s" "start_buffer (set_tss_desc n a s) = start_buffer s"
  "start_buffer (set_ldt_desc n a s) = start_buffer s" "start_buffer (ltr i s) = start_buffer s" "start_buffer (lldt i s) = start_buffer s"
  by (simp_all add: outb_p_def lx_outb_def set_intr_gate_def set_trap_gate_def set_system_gate_def set_tss_desc_def set_ldt_desc_def
      ltr_def lldt_def)

lemma start_buffer_loops [simp]:
  "start_buffer (clear_slots is p s) = start_buffer s" "start_buffer (fold (\<lambda>i. set_trap_gate i a) js s) = start_buffer s"
  by (induction "is" arbitrary: p s; simp) (induction js arbitrary: s; simp)

lemma start_buffer_init:
  "start_buffer (sched_init adr s) = start_buffer s" "start_buffer (trap_init adr s) = start_buffer s" "start_buffer (tty_init adr s) = start_buffer s"
  by (simp_all add: sched_init_def trap_init_def tty_init_def con_setup_def rs_init_def serial_init_def Let_def)

lemma start_kernel_typed:
  assumes "rest_typed 1 s" "\<And>i. length (b_data (raw i)) = BLOCK_SIZE" "block_addrs (unat (start_buffer s)) 0x200000 \<noteq> []"
    and "start_kernel adr cmos again raw s = Inr s'"
  shows "machine_typed (length (buffers s')) s'"
proof -
  from assms(4) obtain t where s': "s' = move_to_user_mode (sti (hd_setup adr (buffer_init raw
      (sched_init adr (trap_init adr (tty_init adr (s\<lparr>startup_time := t\<rparr>)))))))" (is "_ = move_to_user_mode (sti (hd_setup adr ?b))")
    by (cases "time_init cmos again") (auto simp: start_kernel_def Let_def)
  have "machine_typed (length (buffers ?b)) ?b"
    by (rule buffer_init_typed) (auto intro!: rest simp: assms(1) [simplified] assms(2,3) start_buffer_init simp del: block_addrs.simps)
  from start_tail_typed [OF this] have t: "machine_typed (length (buffers ?b)) s'" unfolding s' .
  then have "length (buffers s') = length (buffers ?b)" by (simp add: machine_typed_iff)
  then show ?thesis using t by simp
qed

text \<open>What the number of the controlling terminal is needed for: a session leader that ends leaves its terminal.\<close>

lemma drop_tty_served: "machine_typed N s \<Longrightarrow> \<exists>s'. drop_tty s = Inr s'"
proof -
  assume "machine_typed N s"
  then have t: "sint (t_tty (cur s)) < 3" "length (tty_table s) = 3"
    by (auto simp: machine_typed_def kernel_typed_def fs_typed_def mm_typed_def sched_typed_def task_typed_def)
  from tty_number(2) [OF t(1)] show ?thesis using t(2) by (auto simp: drop_tty_def with_tty_def)
qed

text \<open>
  Property C5.  From the moment the kernel has been started, whatever system calls, ticks, task switches, disk and
  terminal interrupts, faults and coprocessor traps are completed in whatever order, every table keeps its size and every
  stored index, of a buffer, an inode, an open file, a request, a queue position or a controlling terminal, lies inside
  the table it belongs to.  A step is completed when the kernel comes back from it: it has not panicked, has
  not gone to sleep, and has not read or written outside an array, as opening a terminal with a number above 2 does.
  In particular a session leader can always give up its terminal when it ends.
\<close>

theorem kernel_stays_typed:
  assumes "rest_typed 1 s0" and "\<And>i. length (b_data (raw i)) = BLOCK_SIZE" and "block_addrs (unat (start_buffer s0)) 0x200000 \<noteq> []"
    and "start_kernel adr cmos again raw s0 = Inr s1" and "machine_step\<^sup>*\<^sup>* s1 s"
  shows "machine_typed (length (buffers s1)) s \<and> (\<exists>s'. drop_tty s = Inr s')"
proof -
  from assms(5) start_kernel_typed [OF assms(1-4)] have "machine_typed (length (buffers s1)) s" by (rule typed_steps.reachable)
  then show ?thesis using drop_tty_served by blast
qed

lemma idle_typed: "task_typed idle_task"
  by (simp add: task_typed_def idle_task_def NR_OPEN_def)

lemma tty_table_init_typed: "y \<in> set tty_table_init \<Longrightarrow> tty_typed y"
  by (auto simp: tty_table_init_def serial_tty_def tty_typed_def queue_typed_def empty_queue_def INIT_C_CC_def)

lemma sample_console_ok: "con_ok sample_console"
  using sample_con_ok by (simp add: sample_tty)

lemma sample_rest: "rest_typed 1 sample_machine"
  unfolding rest_typed_def mm_typed_def sched_typed_def
  by (auto simp: sample_machine_def idle_typed tty_table_init_typed sample_console_ok NR_TASKS_def NR_INODE_def inode_typed_def
      sample_inode_def zero_inode_def sample_file_def file_typed_def sample_super_def super_typed_def sample_request_def req_typed_def)
     (auto simp: tty_table_init_def)

theorem kernel_stays_typed_witness:
  "\<exists>s1. start_kernel (\<lambda>_. 0) (\<lambda>_ _. 1) (\<lambda>_. 1) (\<lambda>_. sample_head) sample_machine = Inr s1 \<and>
     machine_typed (length (buffers s1)) (math_trap s1) \<and> (\<exists>s'. drop_tty (math_trap s1) = Inr s')"
proof -
  obtain s1 where s1: "start_kernel (\<lambda>_. 0) (\<lambda>_ _. 1) (\<lambda>_. 1) (\<lambda>_. sample_head) sample_machine = Inr s1"
    using sample_start by blast
  have "block_addrs (unat (start_buffer sample_machine)) 0x200000 \<noteq> []"
    by (subst block_addrs.simps) (simp add: sample_machine_def BLOCK_SIZE_def del: block_addrs.simps)
  from kernel_stays_typed [OF sample_rest _ this s1, of "math_trap s1"] s1 show ?thesis
    by (auto simp: sample_head_def intro: r_into_rtranclp step_math)
qed

end
