(* ===== verification/Linux_Arguments.thy ===== *)
theory Linux_Arguments
  imports Linux_Exec Linux_Channels
begin

unbundle bit_operations_syntax

section \<open>The arguments of a new program in linux-0.01 (\<open>create_tables\<close>)\<close>

text \<open>
  When \<open>create_tables\<close> is called, the strings of the arguments and of the environment lie one after another at the top of the
  new stack.  It puts the two tables of pointers below them, and below these the three words with which \<open>main\<close>
  is called.  Addresses are compared as numbers here: the stack does not reach around address 0.
\<close>

subsection \<open>Words in the memory of the process\<close>

lemma word_bytes16: "ucast (ucast v :: u8) OR push_bit 8 (ucast (ucast (drop_bit 8 v) :: u8)) = (v :: u16)"
  by (rule bit_word_eqI) (auto simp: bit_simps)

lemma word_halves: "ucast (ucast v :: u16) OR push_bit 16 (ucast (ucast (drop_bit 16 v) :: u16)) = (v :: u32)"
  by (rule bit_word_eqI) (auto simp: bit_simps)

lemma get32_put32: "length l = 4 \<Longrightarrow> get32 (put32 0 v l) 0 = v"
  by (simp add: get32_def put32_def get16_def put16_def word_bytes16 word_halves)

lemma length_put32_4: "length (put32 i v l) = length l"
  by (simp add: put32_def put16_def)

lemma of_nat_apart:
  assumes "a + n \<le> 4294967296" "b < 4294967296" "b < a \<or> a + n \<le> b" "i < n"
  shows "(of_nat b :: u32) \<noteq> of_nat a + of_nat i"
proof
  assume "(of_nat b :: u32) = of_nat a + of_nat i"
  then have "(of_nat b :: u32) = of_nat (a + i)" by simp
  then have "b = a + i" using assms by (metis unat_of_nat_u32 add_less_cancel_left order_less_le_trans)
  then show False using assms by auto
qed

lemma put_fs_long_other:
  assumes "a + 4 \<le> 4294967296" "b < 4294967296" "b < a \<or> a + 4 \<le> b"
  shows "user (put_fs_long v (of_nat a) s) (of_nat b) = user s (of_nat b)"
  unfolding put_fs_long_def by (rule put_fs_bytes_other) (use of_nat_apart [OF assms] in \<open>simp add: length_put32_4\<close>)

lemma get_put_fs_long: "get_fs_long a (put_fs_long v a s) = v"
  using get_put_fs_bytes [of "put32 0 v (replicate 4 0)" a s]
  by (simp add: get_fs_long_def put_fs_long_def length_put32_4 get32_put32)

lemma get_fs_long_cong:
  assumes "\<And>i. i < 4 \<Longrightarrow> user s' (of_nat (a + i)) = user s (of_nat (a + i))"
  shows "get_fs_long (of_nat a) s' = get_fs_long (of_nat a) s"
proof -
  have "get_fs_bytes 4 (of_nat a) s' = get_fs_bytes 4 (of_nat a) s"
    using assms by (auto simp: get_fs_bytes_def get_fs_byte_def simp flip: of_nat_add)
  then show ?thesis by (simp add: get_fs_long_def)
qed

subsection \<open>Strings one after another\<close>

fun strings_at :: "(u32 \<Rightarrow> u8) \<Rightarrow> nat \<Rightarrow> u8 list list \<Rightarrow> bool" where
  "strings_at u a [] \<longleftrightarrow> True"
| "strings_at u a (x # xs) \<longleftrightarrow>
     0 \<notin> set x \<and> map (\<lambda>i. u (of_nat (a + i))) [0..<length x + 1] = x @ [0] \<and> strings_at u (a + length x + 1) xs"

fun starts :: "nat \<Rightarrow> u8 list list \<Rightarrow> nat list" where
  "starts a [] = []"
| "starts a (x # xs) = a # starts (a + length x + 1) xs"

definition strings_size :: "u8 list list \<Rightarrow> nat" where
  "strings_size xs = sum_list (map (\<lambda>x. length x + 1) xs)"

lemma strings_size_simps [simp]: "strings_size [] = 0" "strings_size (x # xs) = length x + 1 + strings_size xs" "strings_size (xs @ ys) = strings_size xs + strings_size ys"
  by (simp_all add: strings_size_def)

lemma length_starts [simp]: "length (starts a xs) = length xs"
  by (induction xs arbitrary: a) simp_all

lemma strings_at_append: "strings_at u a (xs @ ys) \<longleftrightarrow> strings_at u a xs \<and> strings_at u (a + strings_size xs) ys"
  by (induction xs arbitrary: a) (auto simp: add.assoc)

lemma strings_at_cong:
  assumes "\<And>b. a \<le> b \<Longrightarrow> b < a + strings_size xs \<Longrightarrow> u' (of_nat b) = u (of_nat b)" "strings_at u a xs"
  shows "strings_at u' a xs"
  using assms
proof (induction xs arbitrary: a)
  case (Cons x xs)
  have "map (\<lambda>i. u' (of_nat (a + i))) [0..<length x + 1] = map (\<lambda>i. u (of_nat (a + i))) [0..<length x + 1]"
    by (intro map_cong refl Cons.prems(1)) auto
  moreover have "strings_at u' (a + length x + 1) xs" by (rule Cons.IH) (use Cons.prems in auto)
  ultimately show ?case using Cons.prems(2) by (simp only: strings_at.simps simp_thms)
qed simp

lemma str_len_string:
  "0 \<notin> set x \<Longrightarrow> map (\<lambda>i. u (of_nat (a + i))) [0..<length x + 1] = x @ [0] \<Longrightarrow> str_len u (of_nat a) k = Some (k + length x + 1)"
proof (induction x arbitrary: a k)
  case Nil
  then show ?case by (subst str_len.simps) simp
next
  case (Cons c x)
  have m: "map (\<lambda>i. u (of_nat (a + i))) [0..<length (c # x) + 1] = u (of_nat a) # map (\<lambda>i. u (of_nat (Suc a + i))) [0..<length x + 1]"
    by (subst upt_conv_Cons) (auto simp: map_Suc_upt [symmetric] ac_simps simp del: upt_Suc)
  with Cons.prems(2) have "u (of_nat a) = c" "map (\<lambda>i. u (of_nat (Suc a + i))) [0..<length x + 1] = x @ [0]"
    by (simp_all del: upt_Suc)
  moreover from Cons.IH [OF _ this(2), of "k + 1"] have "str_len u (of_nat (Suc a)) (k + 1) = Some (k + length (c # x) + 1)"
    using Cons.prems(1) by simp
  ultimately show ?case using Cons.prems(1) by (subst str_len.simps) (auto simp: add.commute)
qed

subsection \<open>The tables\<close>

definition table_at :: "'a fs_state_scheme \<Rightarrow> nat \<Rightarrow> nat list \<Rightarrow> bool" where
  "table_at s t as \<longleftrightarrow>
     (\<forall>i < length as. get_fs_long (of_nat (t + 4 * i)) s = of_nat (as ! i)) \<and> get_fs_long (of_nat (t + 4 * length as)) s = 0"

text \<open>\<open>same_but lo hi s s'\<close>: only addresses from \<open>lo\<close> up to \<open>hi\<close> have changed.\<close>

definition same_but :: "nat \<Rightarrow> nat \<Rightarrow> 'a fs_state_scheme \<Rightarrow> 'a fs_state_scheme \<Rightarrow> bool" where
  "same_but lo hi s s' \<longleftrightarrow> (\<forall>b < 4294967296. b < lo \<or> hi \<le> b \<longrightarrow> user s' (of_nat b) = user s (of_nat b))"

lemma same_but_put: "hi = a + 4 \<Longrightarrow> hi \<le> 4294967296 \<Longrightarrow> same_but a hi s (put_fs_long v (of_nat a) s)"
  by (simp add: same_but_def put_fs_long_other)

lemma same_but_trans: "same_but lo hi s s' \<Longrightarrow> same_but lo' hi' s' s'' \<Longrightarrow> lo0 \<le> lo \<Longrightarrow> lo0 \<le> lo' \<Longrightarrow> hi \<le> hi0 \<Longrightarrow> hi' \<le> hi0 \<Longrightarrow> same_but lo0 hi0 s s''"
  by (auto simp: same_but_def)

lemma same_but_long: "same_but lo hi s s' \<Longrightarrow> a + 4 \<le> 4294967296 \<Longrightarrow> a + 4 \<le> lo \<or> hi \<le> a \<Longrightarrow> get_fs_long (of_nat a) s' = get_fs_long (of_nat a) s"
  by (rule get_fs_long_cong) (auto simp: same_but_def simp del: of_nat_add)

lemma same_but_strings:
  "same_but lo hi s s' \<Longrightarrow> strings_at (user s) a xs \<Longrightarrow> hi \<le> a \<Longrightarrow> a + strings_size xs \<le> 4294967296 \<Longrightarrow> strings_at (user s') a xs"
  by (rule strings_at_cong) (auto simp: same_but_def)

lemma same_but_table:
  assumes "same_but lo hi s s'" "table_at s t as" "t + 4 * (length as + 1) \<le> lo \<or> hi \<le> t" "t + 4 * (length as + 1) \<le> 4294967296"
  shows "table_at s' t as"
proof -
  have "get_fs_long (of_nat (t + 4 * i)) s' = get_fs_long (of_nat (t + 4 * i)) s" if "i \<le> length as" for i
    by (rule same_but_long [OF assms(1)]) (use assms(3,4) that in auto)
  then show ?thesis using assms(2) unfolding table_at_def by auto
qed

lemma table_at_Cons:
  assumes "get_fs_long (of_nat t) s = of_nat a" "table_at s (t + 4) as"
  shows "table_at s t (a # as)"
  unfolding table_at_def
proof (intro conjI allI impI)
  show "get_fs_long (of_nat (t + 4 * i)) s = of_nat ((a # as) ! i)" if "i < length (a # as)" for i
    using assms that by (cases i) (auto simp: table_at_def algebra_simps)
  show "get_fs_long (of_nat (t + 4 * length (a # as))) s = 0" using assms(2) by (auto simp: table_at_def algebra_simps)
qed

lemma put_table_strings:
  assumes "strings_at (user s) a xs" "t + 4 * (length xs + 1) \<le> a" "a + strings_size xs \<le> 4294967296"
  shows "\<exists>s'. put_table (length xs) (of_nat a) (of_nat t) s = Inr (of_nat (a + strings_size xs), s') \<and>
    table_at s' t (starts a xs) \<and> same_but t (t + 4 * (length xs + 1)) s s'"
  using assms
proof (induction xs arbitrary: a t s)
  case Nil
  then show ?case using same_but_put [of "t + 4" t s 0] get_put_fs_long [of "of_nat t" 0 s] by (simp add: table_at_def)
next
  case (Cons x xs)
  let ?s = "put_fs_long (of_nat a) (of_nat t) s"
  have t: "t + 4 \<le> a" "a \<le> 4294967296" "t + 4 \<le> 4294967296" using Cons.prems(2,3) by auto
  have b: "same_but t (t + 4) s ?s" by (rule same_but_put [OF refl t(3)])
  have str: "strings_at (user ?s) a (x # xs)" by (rule same_but_strings [OF b Cons.prems(1) t(1) Cons.prems(3)])
  then have len: "str_len (user ?s) (of_nat a) 0 = Some (length x + 1)" using str_len_string [of x "user ?s" a 0] by (simp del: upt_Suc)
  from Cons.IH [of ?s "a + length x + 1" "t + 4"] str Cons.prems obtain s' where
    s': "put_table (length xs) (of_nat (a + length x + 1)) (of_nat (t + 4)) ?s = Inr (of_nat (a + length x + 1 + strings_size xs), s')"
      "table_at s' (t + 4) (starts (a + length x + 1) xs)" "same_but (t + 4) (t + 4 + 4 * (length xs + 1)) ?s s'"
    by (auto simp del: upt_Suc)
  have "get_fs_long (of_nat t) s' = of_nat a"
    using same_but_long [OF s'(3) t(3)] get_put_fs_long [of "of_nat t" "of_nat a" s] by simp
  with s'(2) have "table_at s' t (starts a (x # xs))" by (simp add: table_at_Cons)
  moreover have "put_table (length (x # xs)) (of_nat a) (of_nat t) s = Inr (of_nat (a + strings_size (x # xs)), s')"
    using s'(1) len by (simp add: Let_def ac_simps)
  moreover have "same_but t (t + 4 * (length (x # xs) + 1)) s s'" by (rule same_but_trans [OF b s'(3)]) auto
  ultimately show ?case by blast
qed

lemma aligned_down:
  assumes "a < 4294967296"
  shows "0xFFFFFFFC AND (of_nat a :: u32) = of_nat (a - a mod 4)"
proof -
  have "unat ((of_nat a :: u32) AND NOT 3) = a - a mod 4"
    using unat_and_not_mask [of "of_nat a :: u32" 2] assms by (simp add: mask_eq_exp_minus_1 unat_of_nat_u32 minus_mod_eq_div_mult)
  then have "(of_nat a :: u32) AND NOT 3 = of_nat (a - a mod 4)" by (metis of_nat_unat_u32)
  moreover have "(0xFFFFFFFC :: u32) = NOT 3" by simp
  ultimately show ?thesis by (metis and.commute)
qed

text \<open>
  Property C28.  \<open>create_tables\<close> gives a new program the arguments and the environment it was called with: \<open>main\<close> finds the
  number of arguments and the two tables on its stack, every entry of a table points to its string, the tables end
  with a null pointer, the strings are as they were, and nothing else in memory has changed.
\<close>

theorem program_sees_arguments:
  assumes "strings_at (user s) a (args @ envs)" and "a + strings_size (args @ envs) \<le> 4294967296" and "a < 4294967296"
    and "4 * (length args + length envs + 5) \<le> a - a mod 4"
  shows "\<exists>s' sp. create_tables (of_nat a) (length args) (length envs) s = Inr (of_nat sp, s') \<and>
     sp + 4 * (length args + length envs + 5) = a - a mod 4 \<and>
     get_fs_long (of_nat sp) s' = of_nat (length args) \<and>
     get_fs_long (of_nat (sp + 4)) s' = of_nat (sp + 12) \<and> table_at s' (sp + 12) (starts a args) \<and>
     get_fs_long (of_nat (sp + 8)) s' = of_nat (sp + 16 + 4 * length args) \<and>
     table_at s' (sp + 16 + 4 * length args) (starts (a + strings_size args) envs) \<and>
     strings_at (user s') a (args @ envs) \<and> same_but sp (a - a mod 4) s s'"
proof -
  define q where "q = a - a mod 4"
  define sp where "sp = q - 4 * (length args + length envs + 5)"
  define argv where "argv = sp + 12"
  define envp where "envp = argv + 4 * (length args + 1)"
  have q: "q = envp + 4 * (length envs + 1)" using assms(4) by (simp add: q_def envp_def argv_def sp_def)
  have qa: "q \<le> a" by (simp add: q_def)
  let ?s1 = "put_fs_long (of_nat envp) (of_nat (sp + 8)) s"
  let ?s2 = "put_fs_long (of_nat argv) (of_nat (sp + 4)) ?s1"
  let ?s3 = "put_fs_long (of_nat (length args)) (of_nat sp) ?s2"
  have b: "sp + 12 \<le> 4294967296" using assms(3) qa by (simp add: q envp_def argv_def)
  have s1: "same_but (sp + 8) (sp + 12) s ?s1" by (rule same_but_put) (use b in simp_all)
  have s2: "same_but (sp + 4) (sp + 8) ?s1 ?s2" by (rule same_but_put) (use b in simp_all)
  have s3: "same_but sp (sp + 4) ?s2 ?s3" by (rule same_but_put) (use b in simp_all)
  have s23: "same_but sp (sp + 8) ?s1 ?s3" by (rule same_but_trans [OF s2 s3]) auto
  have s13: "same_but sp argv s ?s3" by (rule same_but_trans [OF s1 s23]) (auto simp: argv_def)
  have words: "get_fs_long (of_nat sp) ?s3 = of_nat (length args)" "get_fs_long (of_nat (sp + 4)) ?s3 = of_nat argv"
      "get_fs_long (of_nat (sp + 8)) ?s3 = of_nat envp"
    using same_but_long [OF s3, of "sp + 4"] same_but_long [OF s23, of "sp + 8"] b
    by (simp_all add: get_put_fs_long del: of_nat_add)
  have str: "strings_at (user ?s3) a (args @ envs)"
    by (rule same_but_strings [OF s13 assms(1) _ assms(2)]) (use qa q in \<open>simp add: envp_def\<close>)
  obtain s4 where s4: "put_table (length args) (of_nat a) (of_nat argv) ?s3 = Inr (of_nat (a + strings_size args), s4)"
      "table_at s4 argv (starts a args)" "same_but argv envp ?s3 s4"
    using put_table_strings [of ?s3 a args argv] str assms(2) qa q by (auto simp: strings_at_append envp_def)
  have str4: "strings_at (user s4) a (args @ envs)" by (rule same_but_strings [OF s4(3) str _ assms(2)]) (use qa q in simp)
  obtain s5 where s5: "put_table (length envs) (of_nat (a + strings_size args)) (of_nat envp) s4 = Inr (of_nat (a + strings_size args + strings_size envs), s5)"
      "table_at s5 envp (starts (a + strings_size args) envs)" "same_but envp q s4 s5"
    using put_table_strings [of s4 "a + strings_size args" envs envp] str4 assms(2) qa q by (auto simp: strings_at_append)
  have s45: "same_but argv q ?s3 s5" by (rule same_but_trans [OF s4(3) s5(3)]) (auto simp: q envp_def)
  have "create_tables (of_nat a) (length args) (length envs) s = Inr (of_nat sp, s5)"
  proof -
    have "0xFFFFFFFC AND (of_nat a :: u32) = of_nat envp + 4 * (of_nat (length envs) + 1)"
      using aligned_down [OF assms(3)] by (simp add: q_def [symmetric] q algebra_simps)
    moreover have "(of_nat envp :: u32) = of_nat argv + 4 * (of_nat (length args) + 1)" by (simp add: envp_def algebra_simps)
    moreover have "(of_nat argv :: u32) = of_nat sp + 12" by (simp add: argv_def)
    ultimately show ?thesis using s4(1) s5(1) by (simp add: create_tables_def Let_def ac_simps)
  qed
  moreover have "strings_at (user s5) a (args @ envs)" by (rule same_but_strings [OF s5(3) str4 qa assms(2)])
  moreover have "same_but sp q s s5" by (rule same_but_trans [OF s13 s45]) (auto simp: q envp_def argv_def)
  moreover have "table_at s5 argv (starts a args)"
    by (rule same_but_table [OF s5(3) s4(2)]) (use assms(3) qa q in \<open>auto simp: envp_def\<close>)
  moreover have "get_fs_long (of_nat sp) s5 = of_nat (length args)" "get_fs_long (of_nat (sp + 4)) s5 = of_nat argv"
      "get_fs_long (of_nat (sp + 8)) s5 = of_nat envp"
    using words same_but_long [OF s45, of sp] same_but_long [OF s45, of "sp + 4"] same_but_long [OF s45, of "sp + 8"] b
    by (simp_all add: argv_def del: of_nat_add)
  moreover have "sp + 4 * (length args + length envs + 5) = q" by (simp add: q envp_def argv_def)
  ultimately show ?thesis using s5(2) unfolding q_def [symmetric] argv_def envp_def by (intro exI [of _ s5] exI [of _ sp]) (simp del: of_nat_add add: add.assoc)
qed

text \<open>A program \<open>-\<close> with one variable \<open>A\<close> in its environment, whose strings end at \<open>0x3FFFFFC\<close>.\<close>

definition sample_stack :: kernel_state where
  "sample_stack = sample_kernel\<lparr>user := (\<lambda>_. 0)(0x3FFFFF8 := 0x2D, 0x3FFFFFA := 0x41)\<rparr>"

lemma sample_strings: "strings_at (user sample_stack) 0x3FFFFF8 ([[0x2D]] @ [[0x41]])"
  by (simp add: sample_stack_def)

theorem program_sees_arguments_witness:
  "strings_at (user sample_stack) 0x3FFFFF8 ([[0x2D]] @ [[0x41]]) \<and>
   (\<exists>s' sp. create_tables (of_nat 0x3FFFFF8) 1 1 sample_stack = Inr (of_nat sp, s') \<and> sp + 28 = 0x3FFFFF8 \<and>
      get_fs_long (of_nat sp) s' = 1 \<and> table_at s' (sp + 12) [0x3FFFFF8] \<and> table_at s' (sp + 20) [0x3FFFFFA] \<and>
      strings_at (user s') 0x3FFFFF8 ([[0x2D]] @ [[0x41]]))"
proof -
  have "0x3FFFFF8 - 0x3FFFFF8 mod 4 = (0x3FFFFF8 :: nat)" by simp
  with program_sees_arguments [OF sample_strings] obtain s' sp where
    "create_tables (of_nat 0x3FFFFF8) 1 1 sample_stack = Inr (of_nat sp, s')" "sp + 28 = 0x3FFFFF8" "get_fs_long (of_nat sp) s' = 1"
    "table_at s' (sp + 12) [0x3FFFFF8]" "table_at s' (sp + 20) [0x3FFFFFA]" "strings_at (user s') 0x3FFFFF8 ([[0x2D]] @ [[0x41]])"
    by (auto simp del: strings_at.simps of_nat_numeral)
  then show ?thesis using sample_strings by blast
qed

subsection \<open>Arguments that do not fit\<close>

lemma wrapped_page:
  fixes p :: u32
  assumes "unat p < len" "unat p \<le> 131068" "len \<le> 4294836224"
  shows "MAX_ARG_PAGES \<le> unat (drop_bit 12 (p - of_nat len))"
proof -
  have "unat (p - of_nat len) = 4294967296 + unat p - len"
    using assms unat_of_nat_u32 [of len] by (simp add: unat_sub_if_size word_size)
  then have "131072 \<le> unat (p - of_nat len)" using assms by linarith
  then have "131072 div 4096 \<le> unat (p - of_nat len) div 4096" by (rule div_le_mono)
  then show ?thesis by (simp only: MAX_ARG_PAGES_def unat_drop_bit_eq) (simp add: drop_bit_eq_div)
qed

text \<open>
  Property C29.  The check against strings that do not fit compares unsigned numbers and never fires.  A string longer than
  the space that is left, which any program can pass to \<open>execve\<close>, gets no pages and stops the kernel; and when the
  environment did not fit and its copy returned 0, the copy of the arguments leaves the array \<open>page\<close>.
\<close>

theorem long_argument_stops_kernel:
  assumes "length page = MAX_ARG_PAGES" and "get_fs_long (argv + 4 * of_nat argc) s = tmp" and "tmp \<noteq> 0"
    and "str_len (user s) tmp 0 = Some len" and "len \<le> 4294836224"
  shows "(131068 < len \<and> page ! 31 = 0 \<longrightarrow>
            copy_strings (Suc argc) argv page 131068 s = Inl (Panic ''nonexistent page in exec.c'')) \<and>
         (0 < len \<longrightarrow> copy_strings (Suc argc) argv page 0 s = Inl (Fault ''page''))"
proof -
  have none: "arg_pages [unat (drop_bit 12 (p - of_nat len))..<MAX_ARG_PAGES] page s = (True, page, s)"
    if "unat p < len" "unat p \<le> 131068" for p :: u32
    using wrapped_page [OF that assms(5)] by simp
  have step: "copy_strings (Suc argc) argv page p s =
      bindr (copy_bytes len (tmp + of_nat len) page p s) (\<lambda>(p, s). copy_strings argc argv page p s)"
    if "unat p < len" "unat p \<le> 131068" for p :: u32
    using assms(2-4) none [OF that] by (simp add: Let_def)
  have "copy_bytes len t page 131068 s = Inl (Panic ''nonexistent page in exec.c'')" if "0 < len" "page ! 31 = 0" for t
    using that assms(1) by (cases len) (simp_all add: Let_def MAX_ARG_PAGES_def)
  moreover have "copy_bytes len t page 0 s = Inl (Fault ''page'')" if "0 < len" for t
    using that assms(1) by (cases len) (simp_all add: Let_def MAX_ARG_PAGES_def)
  ultimately show ?thesis using step [of 131068] step [of 0] by auto
qed

text \<open>A string of 131073 letters.\<close>

definition long_memory :: "u32 \<Rightarrow> u8" where
  "long_memory a = (if 0x1000 \<le> a \<and> a < 0x21001 then 65 else if a = 1 then 0x10 else 0)"

definition sample_long :: kernel_state where
  "sample_long = sample_kernel\<lparr>user := long_memory\<rparr>"

lemma letters:
  assumes "\<And>i. i < n \<Longrightarrow> u (of_nat (a + i)) = 65" "u (of_nat (a + n)) = 0"
  shows "str_len u (of_nat a) 0 = Some (n + 1)"
proof -
  have "map (\<lambda>i. u (of_nat (a + i))) [0..<n] = replicate n 65"
    using assms(1) by (intro nth_equalityI) (simp_all del: of_nat_add)
  then have "map (\<lambda>i. u (of_nat (a + i))) [0..<n + 1] = replicate n 65 @ [0]" using assms(2) by (simp del: of_nat_add)
  then show ?thesis using str_len_string [of "replicate n 65" u a 0] by (simp del: of_nat_add upt_Suc)
qed

lemma long_string: "str_len long_memory 0x1000 0 = Some 131074"
proof -
  have "unat (of_nat (0x1000 + i) :: u32) = 0x1000 + i" if "i \<le> 131073" for i using that by (intro unat_of_nat_u32) simp
  then have "str_len long_memory (of_nat 0x1000) 0 = Some (131073 + 1)"
    by (intro letters) (simp_all add: long_memory_def word_le_nat_alt word_less_nat_alt word_unat_eq_iff del: of_nat_add)
  then show ?thesis by simp
qed

theorem long_argument_stops_kernel_witness:
  "str_len (user sample_long) 0x1000 0 = Some 131074 \<and>
   copy_strings 1 0 (replicate MAX_ARG_PAGES 0) 131068 sample_long = Inl (Panic ''nonexistent page in exec.c'')"
proof -
  have "get_fs_bytes 4 0 sample_long = [0, 0x10, 0, 0]"
    by (simp add: get_fs_bytes_def get_fs_byte_def sample_long_def long_memory_def upt_rec word_le_nat_alt)
  then have "get_fs_long (0 + 4 * of_nat 0) sample_long = 0x1000" by (simp add: get_fs_long_def get32_def get16_def)
  moreover have len: "str_len (user sample_long) 0x1000 0 = Some 131074" using long_string by (simp add: sample_long_def)
  ultimately show ?thesis
    using long_argument_stops_kernel [of "replicate MAX_ARG_PAGES 0" 0 0 sample_long "0x1000" 131074] by (simp add: MAX_ARG_PAGES_def)
qed

end
