(* ===== verification/Linux_Controller.thy ===== *)
theory Linux_Controller
  imports Linux_Hd
begin

unbundle bit_operations_syntax

section \<open>The ports of the hard disk controller in linux-0.01 (\<open>kernel/hd.c\<close>, \<open>hdreg.h\<close>)\<close>

text \<open>
  \<open>Linux_Hd\<close> has the controller as a part of the state that takes commands.  Here is the dialogue below it: what
  the driver reads from and writes to the ports.  The argument \<open>dev\<close> is the hardware: \<open>dev port n\<close> is what the
  \<open>n\<close>-th read from a port returns.  Port writes are recorded, the latest first, and so are the messages.
\<close>

definition HD_DATA :: u16 where "HD_DATA = 0x1F0"
definition HD_ERROR :: u16 where "HD_ERROR = 0x1F1"
definition HD_STATUS :: u16 where "HD_STATUS = 0x1F7"
definition HD_CMD :: u16 where "HD_CMD = 0x3F6"
definition ERR_STAT :: u8 where "ERR_STAT = 0x01"
definition SEEK_STAT :: u8 where "SEEK_STAT = 0x10"
definition WRERR_STAT :: u8 where "WRERR_STAT = 0x20"
definition READY_STAT :: u8 where "READY_STAT = 0x40"
definition BUSY_STAT :: u8 where "BUSY_STAT = 0x80"
definition hd_CTL :: u8 where "hd_CTL = 0"
definition hd_WPCOM :: u8 where "hd_WPCOM = 300 div 4"

lemmas hd_bits = ERR_STAT_def SEEK_STAT_def WRERR_STAT_def READY_STAT_def BUSY_STAT_def
lemmas hd_ports_defs = HD_DATA_def HD_ERROR_def HD_STATUS_def HD_CMD_def

record hd_ports =
  reads :: "u16 \<Rightarrow> nat"
  written :: "(u16 \<times> u8) list"
  said :: "string list"

type_synonym device = "u16 \<Rightarrow> nat \<Rightarrow> u8"

definition hd_inb :: "device \<Rightarrow> u16 \<Rightarrow> hd_ports \<Rightarrow> u8 \<times> hd_ports" where
  "hd_inb dev port p = (dev port (reads p port), p\<lparr>reads := (reads p)(port := reads p port + 1)\<rparr>)"

definition hd_outb :: "u8 \<Rightarrow> u16 \<Rightarrow> hd_ports \<Rightarrow> hd_ports" where
  "hd_outb v port p = p\<lparr>written := (port, v) # written p\<rparr>"

definition hd_say :: "string \<Rightarrow> hd_ports \<Rightarrow> hd_ports" where
  "hd_say msg p = p\<lparr>said := said p @ [msg]\<rparr>"

subsection \<open>Waiting for the controller\<close>

text \<open>\<open>while (--retries && (inb(HD_STATUS)&0xc0)!=0x40);\<close> with \<open>retries\<close> already lowered in the argument.\<close>

fun ready_loop :: "device \<Rightarrow> nat \<Rightarrow> hd_ports \<Rightarrow> nat \<times> hd_ports" where
  "ready_loop dev 0 p = (0, p)"
| "ready_loop dev (Suc r) p =
     (let (st, p) = hd_inb dev HD_STATUS p in
      if st AND 0xC0 \<noteq> 0x40 then ready_loop dev r p else (Suc r, p))"

definition controller_ready :: "device \<Rightarrow> hd_ports \<Rightarrow> nat \<times> hd_ports" where
  "controller_ready dev p = ready_loop dev 999 p"

definition port_result :: "device \<Rightarrow> hd_ports \<Rightarrow> bool \<times> hd_ports" where
  "port_result dev p =
     (let (i, p) = hd_inb dev HD_STATUS p in
      if i AND (BUSY_STAT OR READY_STAT OR WRERR_STAT OR SEEK_STAT OR ERR_STAT) = READY_STAT OR SEEK_STAT then (False, p)
      else if i AND 1 \<noteq> 0 then (True, snd (hd_inb dev HD_ERROR p))
      else (True, p))"

fun busy_loop :: "device \<Rightarrow> nat \<Rightarrow> hd_ports \<Rightarrow> hd_ports" where
  "busy_loop dev 0 p = p"
| "busy_loop dev (Suc n) p =
     (let (st, p) = hd_inb dev HD_STATUS p in
      if READY_STAT = st AND (BUSY_STAT OR READY_STAT) then p else busy_loop dev n p)"

text \<open>\<open>poll_busy\<close> is the whole of \<open>drive_busy\<close>; the function \<open>drive_busy\<close> of \<open>Linux_Hd\<close> is the test at its end.\<close>

definition poll_busy :: "device \<Rightarrow> hd_ports \<Rightarrow> u32 \<times> hd_ports" where
  "poll_busy dev p =
     (let (i, p) = hd_inb dev HD_STATUS (busy_loop dev 100000 p) in
      if drive_busy i = 0 then (0, p) else (1, hd_say ''HD controller times out'' p))"

text \<open>\<open>for(i = 0; i < 10000 && drive_busy(); i++);\<close>\<close>

fun until_free :: "device \<Rightarrow> nat \<Rightarrow> hd_ports \<Rightarrow> hd_ports" where
  "until_free dev 0 p = p"
| "until_free dev (Suc n) p = (let (b, p) = poll_busy dev p in if b \<noteq> 0 then until_free dev n p else p)"

text \<open>The number that the last message prints is left out.  The last read is from port 1, the value of \<open>ERR_STAT\<close>.\<close>

definition reset_controller :: "device \<Rightarrow> hd_ports \<Rightarrow> hd_ports" where
  "reset_controller dev p =
     (let p = hd_outb 4 HD_CMD p;
          p = hd_outb 0 HD_CMD p;
          p = until_free dev 10000 p;
          (b, p) = poll_busy dev p;
          p = (if b \<noteq> 0 then hd_say ''HD-controller still busy'' p else p);
          (i, p) = hd_inb dev (ucast ERR_STAT) p
      in if i \<noteq> 1 then hd_say ''HD-controller reset failed: '' p else p)"

subsection \<open>A command\<close>

definition hd_out_ports :: "device \<Rightarrow> u32 \<Rightarrow> u32 \<Rightarrow> u32 \<Rightarrow> u32 \<Rightarrow> u32 \<Rightarrow> u32 \<Rightarrow> hd_ports \<Rightarrow> hd_ports res" where
  "hd_out_ports dev drive nsect sec hed cy cmd p =
     (if drive > 1 \<or> hed > 15 then Inl (Panic ''Trying to write bad sector'')
      else let (ready, p) = controller_ready dev p in
      if ready = 0 then Inl (Panic ''HD controller not ready'')
      else let p = hd_outb hd_CTL HD_CMD p;
               p = hd_outb hd_WPCOM (HD_DATA + 1) p;
               p = hd_outb (ucast nsect) (HD_DATA + 2) p;
               p = hd_outb (ucast sec) (HD_DATA + 3) p;
               p = hd_outb (ucast cy) (HD_DATA + 4) p;
               p = hd_outb (ucast (drop_bit 8 cy)) (HD_DATA + 5) p;
               p = hd_outb (ucast (0xA0 OR push_bit 4 drive OR hed)) (HD_DATA + 6) p
           in Inr (hd_outb (ucast cmd) (HD_DATA + 7) p))"

subsection \<open>What the polling loops give\<close>

lemma hd_inb_simps [simp]:
  "fst (hd_inb dev port p) = dev port (reads p port)"
  "reads (snd (hd_inb dev port p)) = (reads p)(port := reads p port + 1)"
  "written (snd (hd_inb dev port p)) = written p" "said (snd (hd_inb dev port p)) = said p"
  by (simp_all add: hd_inb_def)

lemma ready_loop_written: "written (snd (ready_loop dev r p)) = written p"
  by (induction r arbitrary: p) (auto simp: Let_def split_beta)

lemma ready_loop_iff:
  "fst (ready_loop dev r p) \<noteq> 0 \<longleftrightarrow> (\<exists>k < r. dev HD_STATUS (reads p HD_STATUS + k) AND 0xC0 = 0x40)"
proof (induction r arbitrary: p)
  case (Suc r)
  have "(\<exists>k < Suc r. P k) \<longleftrightarrow> P 0 \<or> (\<exists>k < r. P (Suc k))" for P by (auto simp: less_Suc_eq_0_disj)
  then show ?case using Suc [of "snd (hd_inb dev HD_STATUS p)"] by (simp add: Let_def split_beta)
qed simp

text \<open>\<open>controller_ready\<close> succeeds exactly when one of the next 999 readings shows a ready controller.\<close>

lemma controller_ready_iff:
  "fst (controller_ready dev p) \<noteq> 0 \<longleftrightarrow> (\<exists>k < 999. dev HD_STATUS (reads p HD_STATUS + k) AND 0xC0 = 0x40)"
  unfolding controller_ready_def by (rule ready_loop_iff)

lemma drive_busy_never: "drive_busy st = 0"
  by (simp add: drive_busy_def Let_def)

lemma busy_loop_keeps: "written (busy_loop dev n p) = written p \<and> said (busy_loop dev n p) = said p"
  by (induction n arbitrary: p) (auto simp: Let_def split_beta)

lemma poll_busy_free: "fst (poll_busy dev p) = 0" "written (snd (poll_busy dev p)) = written p" "said (snd (poll_busy dev p)) = said p"
  using busy_loop_keeps [of dev 100000 p] by (simp_all add: poll_busy_def split_beta drive_busy_never)

lemma until_free_once: "until_free dev (Suc n) p = snd (poll_busy dev p)"
  using poll_busy_free(1) [of dev p] by (simp add: split_beta)

text \<open>
  A reset never reports a busy controller, however busy the status register says it is, and it judges the
  reset by a port that is not the controller's.
\<close>

lemma reset_controller_blind:
  "written (reset_controller dev p) = (HD_CMD, 0) # (HD_CMD, 4) # written p \<and>
   said (reset_controller dev p) = said p @ (if dev 1 (reads (reset_controller dev p) 1 - 1) = 1 then [] else [''HD-controller reset failed: ''])"
proof -
  have u: "until_free dev 10000 q = snd (poll_busy dev q)" for q using until_free_once [of dev 9999 q] by simp
  show ?thesis
    by (simp add: reset_controller_def Let_def split_beta u poll_busy_free hd_outb_def hd_say_def ERR_STAT_def)
qed

subsection \<open>The registers address the sector\<close>

text \<open>What the controller makes of the registers: the latest value written to each port.\<close>

definition reg :: "hd_ports \<Rightarrow> u16 \<Rightarrow> u32" where
  "reg p port = (case map_of (written p) port of Some v \<Rightarrow> ucast v | None \<Rightarrow> 0)"

definition take_command :: "hd_ports \<Rightarrow> 'a fs_state_scheme \<Rightarrow> 'a fs_state_scheme" where
  "take_command p =
     dsk_command (drop_bit 4 (reg p 0x1F6) AND 1) (reg p 0x1F3) (reg p 0x1F6 AND 15)
       (reg p 0x1F4 OR push_bit 8 (reg p 0x1F5)) (reg p 0x1F7)"

lemma drive_head_register:
  assumes "drive \<le> 1" "hed \<le> (15 :: u32)"
  shows "ucast (ucast (0xA0 OR push_bit 4 drive OR hed) :: u8) AND 15 = hed"
    and "drop_bit 4 (ucast (ucast (0xA0 OR push_bit 4 drive OR hed) :: u8)) AND 1 = drive"
proof -
  have d: "drive = 0 \<or> drive = 1" using assms(1) by unat_arith
  have "unat hed < 16" using assms(2) by unat_arith
  then have "unat hed \<in> set [0..<16]" by simp
  then have "hed \<in> of_nat ` set [0..<16]" using imageI [of "unat hed" "set [0..<16]" "of_nat :: nat \<Rightarrow> u32"] by simp
  then have h: "hed \<in> {0, 1, 2, 3, 4, 5, 6, 7, 8, 9, 10, 11, 12, 13, 14, 15}" by (simp add: upt_rec numeral_eq_Suc)
  show "ucast (ucast (0xA0 OR push_bit 4 drive OR hed) :: u8) AND 15 = hed"
    and "drop_bit 4 (ucast (ucast (0xA0 OR push_bit 4 drive OR hed) :: u8)) AND 1 = drive"
    using d h by auto
qed

lemma cylinder_registers: "(ucast (ucast cy :: u8) OR push_bit 8 (ucast (ucast (drop_bit 8 cy) :: u8))) AND 0xFFFF = (cy :: u32) AND 0xFFFF"
proof -
  have m: "(0xFFFF :: u32) = mask 16" by (simp add: mask_eq_decr_exp)
  show ?thesis unfolding m by (rule bit_word_eqI) (auto simp: bit_simps)
qed

lemma low_byte: "ucast (ucast v :: u8) = (v :: u32) AND 0xFF"
proof -
  have m: "(0xFF :: u32) = mask 8" by (simp add: mask_eq_decr_exp)
  show ?thesis unfolding m by (rule bit_word_eqI) (auto simp: bit_simps)
qed

lemma hd_out_refines_ports:
  assumes "dsk_ready s \<longleftrightarrow> fst (controller_ready dev p) \<noteq> 0" "cmd < 256"
  shows "hd_out drive nsect sec hed cy cmd h s =
    bindr (hd_out_ports dev drive nsect sec hed cy cmd p) (\<lambda>p'. Inr (take_command p' (s\<lparr>do_hd := Some h\<rparr>)))"
proof (cases "drive > 1 \<or> hed > 15")
  case False
  then have d: "drive \<le> 1" "hed \<le> 15" by auto
  have m: "(0xFF :: u32) = mask 8" by (simp add: mask_eq_decr_exp)
  have c: "cmd AND 0xFF = cmd" unfolding m take_bit_eq_mask [symmetric] using assms(2) by (simp add: take_bit_eq_mod mod_word_less)
  show ?thesis
    using False assms(1) drive_head_register [OF d] cylinder_registers [of cy] c
    by (auto simp: hd_out_def hd_out_ports_def Let_def split_beta take_command_def reg_def hd_outb_def hd_ports_defs
        dsk_command_def sector_number_def low_byte)
qed (simp add: hd_out_def hd_out_ports_def)

end
