(* ===== verification/Queue_Checks.thy ===== *)
theory Queue_Checks
  imports List_Kinds
begin

section \<open>The consistency checks of \<open>freebsd/sys/queue.h\<close>\<close>

text \<open>
  In a kernel built with \<open>INVARIANTS\<close> the macros of lists and tail queues check the links around the place they
  change and panic when these disagree.  The checks pass along a whole chain exactly when it is linked backwards
  as it is forwards, so they never fire on the lists that the macros build.
\<close>

definition QMD_LIST_CHECK_HEAD :: "u32 \<Rightarrow> u32 \<Rightarrow> memory \<Rightarrow> unit res" where
  "QMD_LIST_CHECK_HEAD fo head m =
     (if LIST_FIRST m head \<noteq> 0 \<and> le_prev fo m (LIST_FIRST m head) \<noteq> head
      then Inl (Panic ''Bad list head %p first->prev != head'') else Inr ())"

definition QMD_LIST_CHECK_NEXT :: "u32 \<Rightarrow> u32 \<Rightarrow> memory \<Rightarrow> unit res" where
  "QMD_LIST_CHECK_NEXT fo elm m =
     (if LIST_NEXT fo m elm \<noteq> 0 \<and> le_prev fo m (LIST_NEXT fo m elm) \<noteq> elm + fo
      then Inl (Panic ''Bad link elm %p next->prev != elm'') else Inr ())"

definition QMD_LIST_CHECK_PREV :: "u32 \<Rightarrow> u32 \<Rightarrow> memory \<Rightarrow> unit res" where
  "QMD_LIST_CHECK_PREV fo elm m =
     (if load32 m (le_prev fo m elm) \<noteq> elm then Inl (Panic ''Bad link elm %p prev->next != elm'') else Inr ())"

definition QMD_TAILQ_CHECK_HEAD :: "u32 \<Rightarrow> u32 \<Rightarrow> memory \<Rightarrow> unit res" where
  "QMD_TAILQ_CHECK_HEAD fo head m =
     (if \<not> TAILQ_EMPTY m head \<and> tqe_prev fo m (TAILQ_FIRST m head) \<noteq> head
      then Inl (Panic ''Bad tailq head %p first->prev != head'') else Inr ())"

definition QMD_TAILQ_CHECK_TAIL :: "u32 \<Rightarrow> memory \<Rightarrow> unit res" where
  "QMD_TAILQ_CHECK_TAIL head m =
     (if load32 m (tqh_last m head) \<noteq> 0 then Inl (Panic ''Bad tailq NEXT(%p->tqh_last) != NULL'') else Inr ())"

definition QMD_TAILQ_CHECK_NEXT :: "u32 \<Rightarrow> u32 \<Rightarrow> memory \<Rightarrow> unit res" where
  "QMD_TAILQ_CHECK_NEXT fo elm m =
     (if TAILQ_NEXT fo m elm \<noteq> 0 \<and> tqe_prev fo m (TAILQ_NEXT fo m elm) \<noteq> elm + fo
      then Inl (Panic ''Bad link elm %p next->prev != elm'') else Inr ())"

definition QMD_TAILQ_CHECK_PREV :: "u32 \<Rightarrow> u32 \<Rightarrow> memory \<Rightarrow> unit res" where
  "QMD_TAILQ_CHECK_PREV fo elm m =
     (if load32 m (tqe_prev fo m elm) \<noteq> elm then Inl (Panic ''Bad link elm %p prev->next != elm'') else Inr ())"

text \<open>\<open>SLIST_FOREACH_PREVPTR\<close>: the body also gets the address of the pointer that leads to the element.\<close>

partial_function (option) SLIST_FOREACH_PREVPTR ::
    "('s \<Rightarrow> memory) \<Rightarrow> u32 \<Rightarrow> u32 \<Rightarrow> (u32 \<Rightarrow> u32 \<Rightarrow> 's \<Rightarrow> 's option) \<Rightarrow> 's \<Rightarrow> 's option" where
  "SLIST_FOREACH_PREVPTR mm fo varp body s =
     (if load32 (mm s) varp = 0 then Some s
      else Option.bind (body (load32 (mm s) varp) varp s)
        (SLIST_FOREACH_PREVPTR mm fo (load32 (mm s) varp + fo) body))"

lemmas queue_fields = LIST_FIRST_def LIST_NEXT_def le_prev_def TAILQ_FIRST_def TAILQ_NEXT_def tqe_prev_def tqh_last_def
  TAILQ_EMPTY_def

lemmas list_checks = QMD_LIST_CHECK_HEAD_def QMD_LIST_CHECK_NEXT_def QMD_LIST_CHECK_PREV_def

lemmas tailq_checks = QMD_TAILQ_CHECK_HEAD_def QMD_TAILQ_CHECK_TAIL_def QMD_TAILQ_CHECK_NEXT_def QMD_TAILQ_CHECK_PREV_def

subsection \<open>What the checks establish\<close>

text \<open>The checks of the two kinds are the same but for the message.\<close>

definition link_ok :: "u32 \<Rightarrow> memory \<Rightarrow> u32 \<Rightarrow> bool" where
  "link_ok fo m pa \<longleftrightarrow> load32 m pa = 0 \<or> load32 m (load32 m pa + fo + 4) = pa"

lemma links_iff_dlinks:
  "follows (\<lambda>x. load32 m (x + fo)) (load32 m pa) xs \<Longrightarrow> (\<forall>c \<in> set (pa # scells fo xs). link_ok fo m c) \<longleftrightarrow> dlinks m fo pa xs 0"
proof (induction xs arbitrary: pa)
  case (Cons x xs)
  then show ?case using Cons.IH [of "x + fo"] by (auto simp: link_ok_def)
qed (simp add: link_ok_def)

lemma list_checks_iff:
  assumes "follows (LIST_NEXT fo m) (LIST_FIRST m h) xs"
  shows "QMD_LIST_CHECK_HEAD fo h m = Inr () \<and> (\<forall>x \<in> set xs. QMD_LIST_CHECK_NEXT fo x m = Inr ()) \<longleftrightarrow> dlinks m fo h xs 0"
proof -
  have "LIST_NEXT fo m = (\<lambda>x. load32 m (x + fo))" by (simp add: fun_eq_iff LIST_NEXT_def)
  then have "(\<forall>c \<in> set (h # scells fo xs). link_ok fo m c) \<longleftrightarrow> dlinks m fo h xs 0"
    using assms by (intro links_iff_dlinks) (simp add: LIST_FIRST_def)
  then show ?thesis unfolding list_checks queue_fields scells_def link_ok_def by (auto split: if_splits)
qed

lemma tailq_checks_iff:
  assumes "follows (TAILQ_NEXT fo m) (TAILQ_FIRST m h) xs"
  shows "QMD_TAILQ_CHECK_HEAD fo h m = Inr () \<and> (\<forall>x \<in> set xs. QMD_TAILQ_CHECK_NEXT fo x m = Inr ()) \<longleftrightarrow> dlinks m fo h xs 0"
proof -
  have "TAILQ_NEXT fo m = (\<lambda>x. load32 m (x + fo))" by (simp add: fun_eq_iff TAILQ_NEXT_def)
  then have "(\<forall>c \<in> set (h # scells fo xs). link_ok fo m c) \<longleftrightarrow> dlinks m fo h xs 0"
    using assms by (intro links_iff_dlinks) (simp add: TAILQ_FIRST_def)
  then show ?thesis unfolding tailq_checks queue_fields scells_def link_ok_def by (auto split: if_splits)
qed

lemma dlinks_prev: "dlinks m fo pa xs q \<Longrightarrow> x \<in> set xs \<Longrightarrow> load32 m (load32 m (x + fo + 4)) = x"
  by (induction xs arbitrary: pa) auto

text \<open>On a well-formed list none of the checks fires.\<close>

lemma llist_checks_pass:
  assumes "llist m fo h xs"
  shows "QMD_LIST_CHECK_HEAD fo h m = Inr ()"
    and "x \<in> set xs \<Longrightarrow> QMD_LIST_CHECK_NEXT fo x m = Inr () \<and> QMD_LIST_CHECK_PREV fo x m = Inr ()"
proof -
  have D: "dlinks m fo h xs 0" using assms by (simp add: llist_def)
  then have "follows (LIST_NEXT fo m) (LIST_FIRST m h) xs"
    by (simp add: LIST_FIRST_def) (induction xs arbitrary: h; auto simp: LIST_NEXT_def)
  from list_checks_iff [OF this] D dlinks_prev [OF D]
  show "QMD_LIST_CHECK_HEAD fo h m = Inr ()"
    and "x \<in> set xs \<Longrightarrow> QMD_LIST_CHECK_NEXT fo x m = Inr () \<and> QMD_LIST_CHECK_PREV fo x m = Inr ()"
    by (auto simp: QMD_LIST_CHECK_PREV_def le_prev_def)
qed

lemma tailq_checks_pass:
  assumes "tailq m fo h xs"
  shows "QMD_TAILQ_CHECK_HEAD fo h m = Inr ()" and "QMD_TAILQ_CHECK_TAIL h m = Inr ()"
    and "x \<in> set xs \<Longrightarrow> QMD_TAILQ_CHECK_NEXT fo x m = Inr () \<and> QMD_TAILQ_CHECK_PREV fo x m = Inr ()"
proof -
  have D: "dlinks m fo h xs 0" "load32 m (h + 4) = end_cell fo h xs" using assms by (simp_all add: tailq_def)
  from tailq_checks_iff [OF tailq_follows [OF assms]] D(1) dlinks_prev [OF D(1)] D(2) dlinks_end [OF D(1)]
  show "QMD_TAILQ_CHECK_HEAD fo h m = Inr ()" and "QMD_TAILQ_CHECK_TAIL h m = Inr ()"
    and "x \<in> set xs \<Longrightarrow> QMD_TAILQ_CHECK_NEXT fo x m = Inr () \<and> QMD_TAILQ_CHECK_PREV fo x m = Inr ()"
    by (auto simp: QMD_TAILQ_CHECK_PREV_def QMD_TAILQ_CHECK_TAIL_def tqe_prev_def tqh_last_def)
qed

text \<open>The traversal with pointers ends, and gives with every element the cell that leads to it.\<close>

lemma prevptr_visits:
  assumes "slist m fo h xs"
  shows "SLIST_FOREACH_PREVPTR (\<lambda>_. m) fo h (\<lambda>x p seen. Some (seen @ [(p, x)])) [] = Some (zip (h # scells fo xs) xs)"
proof -
  have "SLIST_FOREACH_PREVPTR (\<lambda>_. m) fo pa (\<lambda>x p seen. Some (seen @ [(p, x)])) acc = Some (acc @ zip (pa # scells fo xs) xs)"
    if "slinks m fo pa xs 0" for pa acc
    using that by (induction xs arbitrary: pa acc) (subst SLIST_FOREACH_PREVPTR.simps; simp)+
  then show ?thesis using assms by (simp add: slist_def)
qed

end
