(* ===== verification/Spec2Isabelle.thy ===== *)
theory Spec2Isabelle
  imports Heap_Align Kernel_Heap Initrd_Disk Kernel_Main Linux_Processes Linux_Paging Linux_Strings Linux_Time Linux_Format Linux_Screen
    Linux_Channels Linux_Cache Linux_Gates Linux_Coprocessor Linux_Build Linux_Reachable
    Linux_Arguments Linux_Controller Queue_Checks
begin

text \<open>
  \<^bold>\<open>A verification development of the kernels in this repository.\<close>  The repository holds two i386 kernels in C: the
  JamesM tutorial kernel under \<open>src/src\<close> and linux-0.01 under \<open>src/linux-0.01\<close>.  Both are modelled as
  executable functions on records of state, at the width of the machine: an \<open>unsigned int\<close> is a \<open>32 word\<close>, a
  pointer is an address or, into a static table of linux, an index, memory is a function from addresses to bytes
  (or to aligned words, where the source only uses words).  A routine that can fail returns \<open>'a res\<close> of \<open>Prelude\<close>: \<open>Panic\<close> for
  \<open>PANIC\<close> and \<open>panic\<close>, \<open>Fault\<close> for an access outside an array or through a null pointer, \<open>Blocks\<close> where a
  process goes to sleep, \<open>Exits\<close> where \<open>do_exit\<close> does not return and \<open>Diverge\<close> for a loop that does not end.

  \<^bold>\<open>The tutorial kernel.\<close>
  \<^item> \<open>Prelude\<close>, \<open>Memory\<close>, \<open>Digits\<close>: the result type, bytes and words in memory, \<open>memset\<close>, \<open>memcpy\<close>, \<open>strlen\<close>, \<open>strcmp\<close> of
    \<open>common.c\<close>.  The locale \<open>word_cells\<close> states what a word in memory promises.
  \<^item> \<open>Sorted_Array\<close> (\<open>sorted_array.c\<close>): insertion, lookup and removal.  The locales \<open>scan\<close> (the loops that look for an index)
    and \<open>cmp_key\<close> (a comparison function that compares keys) are interpreted here and in \<open>Heap\<close> and \<open>Heap_Free\<close>.
  \<^item> \<open>Monitor\<close>, \<open>Printf\<close>, \<open>Isr\<close>, \<open>Descriptor_Tables\<close>: \<open>monitor.c\<close> refines an abstract terminal, \<open>printf\<close> prints what its
    format denotes, interrupts reach their handlers, the descriptor tables are what they are meant to be.
  \<^item> \<open>Vm\<close>, \<open>Paging\<close>, \<open>Heap\<close>, \<open>Heap_Align\<close>, \<open>Heap_Free\<close>, \<open>Heap_Grow\<close>, \<open>Boot\<close>, \<open>Kernel_Heap\<close>, \<open>Fresh_Blocks\<close>: \<open>paging.c\<close>, \<open>kmalloc.c\<close> and \<open>heap.c\<close>
    call each other and share the state \<open>vm_state\<close>.  The invariant \<open>heap_ok\<close> describes the blocks between
    the bounds of the heap and its index of holes.  The locales \<open>frame_pool\<close> and \<open>allocator\<close> are interpreted on the
    bitmap of frames and on \<open>alloc\<close>.  \<open>alloc\<close> takes a depth, since \<open>kmalloc\<close> and \<open>alloc\<close> call each other.  Depth
    1 serves a request from a hole, depth 2 a request that grows the heap inside the page table that maps its end; \<open>Kernel_Heap\<close>
    shows this, also for a run of requests any of which may grow the heap.  \<open>Heap_Align\<close> has the theorem
    about \<open>alloc\<close> in a hole, with and without page alignment.  Growth into a new page table, which calls \<open>kmalloc\<close> again,
    and growth for a request with page alignment are defined, with no theorem about them.
  \<^item> \<open>Queue\<close>, \<open>Linked_Lists\<close>, \<open>List_Kinds\<close>, \<open>Tail_Queue_Refinement\<close>: the macros of \<open>sys/queue.h\<close>; the locale \<open>fifo\<close> has two
    interpretations, for the two kinds of queue with a tail pointer.  \<open>Queue_Checks\<close> shows that the header's consistency
    checks never fire on them.
  \<^item> \<open>Tar\<close>, \<open>Tar_Parse\<close>, \<open>Vfs\<close>, \<open>Initrd\<close>, \<open>Initrd_Disk\<close>, \<open>Kernel_Main\<close>: the archive, the file system over it, and \<open>main\<close>, which puts
    everything together.  What is put into an archive is read back through the file system.

  \<^bold>\<open>linux-0.01.\<close>  The state grows with the parts that use it: \<open>sched_state\<close>, \<open>mm_state\<close>, \<open>fs_state\<close>, \<open>kernel_state\<close> with the
  terminals, \<open>machine_state\<close> with the registers of the processor.
  \<^item> \<open>Linux_Sched\<close>, \<open>Linux_Sys\<close>, \<open>Linux_Scheduler\<close>, \<open>Linux_Processes\<close>: \<open>kernel/sched.c\<close> and the calls of \<open>kernel/sys.c\<close>, \<open>fork.c\<close>,
    \<open>exit.c\<close> that need no files; \<open>schedule\<close> ends and is fair, process numbers are unique, \<open>kill\<close> is exact.
  \<^item> \<open>Linux_Mm\<close>, \<open>Linux_Segments\<close>, \<open>Linux_Paging\<close>: \<open>mm/memory.c\<close>; pages are handed out once and copied on write.
  \<^item> \<open>Linux_Fs\<close>, \<open>Linux_Hd\<close>, \<open>Linux_Buffer\<close>, \<open>Linux_Bitmap\<close>, \<open>Linux_Inode\<close>, \<open>Linux_Super\<close>, \<open>Linux_File\<close>, \<open>Linux_Namei\<close>, \<open>Linux_Open\<close>: the disk driver, the
    buffer cache and the files of \<open>fs\<close>, one theory per group of files.  \<open>Linux_Disk\<close>, \<open>Linux_Blocks\<close>, \<open>Linux_Buffer_Lists\<close> and
    \<open>Linux_Cache\<close> show that a read ends whatever status the controller shows for ever and a write if the controller
    goes on asking for data - its readings are streams, without an end -, and that on a disk without errors the cache is a store of
    blocks (locale \<open>block_store\<close>); \<open>Linux_Controller\<close> has the dialogue with the controller at its ports and shows that the
    registers address the sector the driver means.
  \<^item> \<open>Linux_Console\<close>, \<open>Linux_Ctype\<close>, \<open>Linux_Tty\<close>, \<open>Linux_Screen\<close>, \<open>Linux_Channels\<close>, \<open>Ring_Buffer\<close>: terminals.  Queues and pipes are
    two interpretations of the locale \<open>byte_fifo\<close>; the console stays on its screen.
  \<^item> \<open>Linux_Exit\<close>, \<open>Linux_Exec\<close>, \<open>Linux_Traps\<close>, \<open>Linux_Start\<close>, \<open>Linux_Syscalls\<close>: processes, programs, exceptions, \<open>main\<close> and the table of system
    calls.  \<open>Linux_Arguments\<close> shows that a new program finds its arguments on its stack, \<open>Linux_Gates\<close> what the
    interrupt table holds after the start, \<open>Linux_Coprocessor\<close> that every task has a
    coprocessor of its own (locale \<open>simulation\<close> of \<open>Transition\<close>).
  \<^item> \<open>Linux_Typed\<close>, \<open>Linux_Typed_Fs\<close>, \<open>Linux_Typed_Calls\<close>, \<open>Linux_Typed_Kernel\<close>, \<open>Linux_Reachable\<close>: every operation keeps the sizes of the tables
    and the indices in them, from the disk interrupt to the system call; \<open>machine_step\<close> is the step relation of the
    whole kernel (locale \<open>invariant\<close>).  Its steps are completed operations: one that ends in a panic, in a sleep or in an access outside an
    array, as \<open>sys_open\<close> of a terminal above 2 does, is no step.
  \<^item> \<open>Linux_String\<close>, \<open>Linux_Strings\<close>, \<open>Linux_Vsprintf\<close>, \<open>Linux_Format\<close>, \<open>Linux_Time\<close>, \<open>Linux_Build\<close>: string routines, \<open>vsprintf\<close>, the clock, and the
    program that puts the boot image together.  \<open>Linux_Samples\<close> and \<open>Linux_Machine_Sample\<close> hold concrete states on which the
    hypotheses of the theorems hold.

  \<^bold>\<open>Loops.\<close>  A loop over a table or with a counter is structural recursion or has a termination proof.  A loop that only its data
  ends is a \<open>partial_function (option)\<close>; that it returns is proved where the code relies on it (\<open>schedule\<close>,
  \<open>find_empty_process\<close>, the wait for the disk, the traversal of queues).  The only fuel is the depth of \<open>alloc\<close>.

  \<^bold>\<open>Parameters.\<close>  Addresses that the linker chooses, the code behind a function pointer, the registers of the clock chip, the
  contents of memory before it is initialised, padding bytes on the stack and, for the first process, the answers of the
  kernel are arguments of the definitions.

  \<^bold>\<open>Not modelled.\<close>  The assembly of both kernels: it saves registers, calls the modelled routines, reads the keyboard and moves the
  bytes of the serial lines; of \<open>system_call.s\<close> the part behind the call, which delivers signals, is left out.  The change of address
  space when a task is switched is not applied to the byte memory \<open>user\<close> of the process, which belongs to the running task.
  Other tasks that run while a call sleeps are not interleaved with it: a call that would sleep ends in \<open>Blocks\<close>.
  Messages that the routines below the terminals print - memory, disk and files - are left out, since their state has no console.  Constants
  and structures of the headers that no code uses are left out.
\<close>

end
